(* ===== verification/Prelude.thy ===== *)
theory Prelude
  imports Main "HOL-Library.Sublist" "HOL-Library.Multiset" "HOL-Library.List_Lexorder"
    "HOL-Library.Char_ord"
begin

text \<open>
  Shared vocabulary of the development. Go strings are byte strings, modelled as
  \<^typ>\<open>string\<close>; Go slices are lists (a nil slice and an empty slice are the same list
  unless a component says otherwise). A Go function that may return an error or panic
  returns a value of \<open>('e, 'a) res\<close>: \<open>Ok\<close> the normal result, \<open>Err\<close> an error value,
  \<open>Panic\<close> a run-time panic (index out of range, nil dereference).
  The collections \<open>go_simps\<close> and \<open>res_simps\<close> carry the component proofs.
\<close>

named_theorems go_simps \<open>rewriting facts on Go strings, slices and paths\<close>
named_theorems res_simps \<open>rewriting facts on results\<close>

section \<open>Results\<close>

datatype ('e, 'a) res = Ok (the_ok: 'a) | Err 'e | Panic

fun res_bind :: "('e, 'a) res \<Rightarrow> ('a \<Rightarrow> ('e, 'b) res) \<Rightarrow> ('e, 'b) res" where
  "res_bind (Ok x) f = f x"
| "res_bind (Err e) f = Err e"
| "res_bind Panic f = Panic"

fun is_ok :: "('e, 'a) res \<Rightarrow> bool" where
  "is_ok (Ok x) = True"
| "is_ok (Err e) = False"
| "is_ok Panic = False"

fun res_of_option :: "'a option \<Rightarrow> ('e, 'a) res" where
  "res_of_option None = Panic"
| "res_of_option (Some x) = Ok x"

text \<open>Go's \<open>xs[i]\<close>: out of range panics.\<close>

definition go_index :: "'a list \<Rightarrow> nat \<Rightarrow> ('e, 'a) res" where
  "go_index xs i = (if i < length xs then Ok (xs ! i) else Panic)"

lemma res_bind_eq_Ok [res_simps]:
  "res_bind m f = Ok y \<longleftrightarrow> (\<exists>x. m = Ok x \<and> f x = Ok y)"
  by (cases m) auto

lemma res_bind_eq_Err [res_simps]:
  "res_bind m f = Err e \<longleftrightarrow> m = Err e \<or> (\<exists>x. m = Ok x \<and> f x = Err e)"
  by (cases m) auto

lemma res_bind_eq_Panic [res_simps]:
  "res_bind m f = Panic \<longleftrightarrow> m = Panic \<or> (\<exists>x. m = Ok x \<and> f x = Panic)"
  by (cases m) auto

lemma res_bind_assoc:
  "res_bind (res_bind m f) g = res_bind m (\<lambda>x. res_bind (f x) g)"
  by (cases m) auto

lemma is_ok_iff: "is_ok m \<longleftrightarrow> (\<exists>x. m = Ok x)"
  by (cases m) auto

lemma go_index_eq_Ok [res_simps]:
  "go_index xs i = Ok x \<longleftrightarrow> i < length xs \<and> x = xs ! i"
  by (auto simp: go_index_def)

lemma go_index_eq_Panic [res_simps]:
  "go_index xs i = Panic \<longleftrightarrow> length xs \<le> i"
  by (auto simp: go_index_def)

lemma go_index_not_Err [simp]: "go_index xs i \<noteq> Err e"
  by (simp add: go_index_def)

section \<open>Package strings\<close>

definition trim_prefix :: "string \<Rightarrow> string \<Rightarrow> string" where
  "trim_prefix p s = (if prefix p s then drop (length p) s else s)"

definition trim_suffix :: "string \<Rightarrow> string \<Rightarrow> string" where
  "trim_suffix p s = (if suffix p s then take (length s - length p) s else s)"

fun split_on :: "'a \<Rightarrow> 'a list \<Rightarrow> 'a list list" where
  "split_on c [] = [[]]"
| "split_on c (x # xs) =
     (if x = c then [] # split_on c xs
      else case split_on c xs of [] \<Rightarrow> [[x]] | w # ws \<Rightarrow> (x # w) # ws)"

fun join_with :: "'a list \<Rightarrow> 'a list list \<Rightarrow> 'a list" where
  "join_with sp [] = []"
| "join_with sp [x] = x"
| "join_with sp (x # y # zs) = x @ sp @ join_with sp (y # zs)"

definition is_space :: "char \<Rightarrow> bool" where
  "is_space c \<longleftrightarrow> c \<in> {CHR '' '', CHR 0x09, CHR 0x0A, CHR 0x0B, CHR 0x0C, CHR 0x0D}"

definition trim_space :: "string \<Rightarrow> string" where
  "trim_space s = rev (dropWhile is_space (rev (dropWhile is_space s)))"

text \<open>\<open>strings.Fields\<close>: the maximal runs of non-space characters.\<close>

definition str_fields :: "string \<Rightarrow> string list" where
  "str_fields s = filter (\<lambda>w. w \<noteq> [])
     (split_on (CHR '' '') (map (\<lambda>c. if is_space c then CHR '' '' else c) s))"

text \<open>\<open>strings.Trim\<close> with a cut set.\<close>

definition trim_chars :: "string \<Rightarrow> string \<Rightarrow> string" where
  "trim_chars cs s =
     rev (dropWhile (\<lambda>c. c \<in> set cs) (rev (dropWhile (\<lambda>c. c \<in> set cs) s)))"

text \<open>\<open>strings.Contains\<close>, \<open>strings.Replace(s, old, new, 1)\<close> and the part of \<open>s\<close> before the
  first occurrence of a separator (\<open>strings.Split(s, sep)[0]\<close>).\<close>

fun contains :: "string \<Rightarrow> string \<Rightarrow> bool" where
  "contains sub [] = (sub = [])"
| "contains sub (c # s) = (prefix sub (c # s) \<or> contains sub s)"

fun replace_first :: "string \<Rightarrow> string \<Rightarrow> string \<Rightarrow> string" where
  "replace_first old new [] = (if old = [] then new else [])"
| "replace_first old new (c # s) =
     (if prefix old (c # s) then new @ drop (length old) (c # s) else c # replace_first old new s)"

fun before_first :: "string \<Rightarrow> string \<Rightarrow> string" where
  "before_first sp [] = []"
| "before_first sp (c # s) = (if prefix sp (c # s) then [] else c # before_first sp s)"

lemma split_on_not_Nil [simp]: "split_on c xs \<noteq> []"
  by (cases xs) (auto split: list.splits)

lemma split_on_append [go_simps]:
  "split_on c (xs @ c # ys) = split_on c xs @ split_on c ys"
  by (induction xs) (auto split: list.splits)

lemma split_on_notin: "c \<notin> set xs \<Longrightarrow> split_on c xs = [xs]"
  by (induction xs) auto

lemma split_on_elems: "w \<in> set (split_on c xs) \<Longrightarrow> c \<notin> set w"
proof (induction xs arbitrary: w)
  case Nil
  then show ?case by simp
next
  case (Cons x xs)
  then show ?case by (cases "split_on c xs") (auto split: if_splits)
qed

lemma join_with_Cons: "ws \<noteq> [] \<Longrightarrow> join_with sp (w # ws) = w @ sp @ join_with sp ws"
  by (cases ws) auto

lemma join_with_append:
  "xs \<noteq> [] \<Longrightarrow> ys \<noteq> [] \<Longrightarrow> join_with sp (xs @ ys) = join_with sp xs @ sp @ join_with sp ys"
proof (induction xs)
  case Nil
  then show ?case by simp
next
  case (Cons x xs)
  then show ?case by (cases "xs = []") (auto simp: join_with_Cons)
qed

lemma join_split [simp]: "join_with [c] (split_on c xs) = xs"
proof (induction xs)
  case Nil
  then show ?case by simp
next
  case (Cons x xs)
  then show ?case
    by (cases "x = c"; cases "split_on c xs"; cases "tl (split_on c xs)")
      (auto simp: join_with_Cons)
qed

lemma split_join:
  "ws \<noteq> [] \<Longrightarrow> (\<And>w. w \<in> set ws \<Longrightarrow> c \<notin> set w) \<Longrightarrow> split_on c (join_with [c] ws) = ws"
proof (induction ws)
  case Nil
  then show ?case by simp
next
  case (Cons w ws)
  then show ?case
    by (cases "ws = []") (auto simp: join_with_Cons split_on_append split_on_notin)
qed

lemma split_on_length: "length (split_on c s) = Suc (count_list s c)"
  by (induction s) (auto split: list.splits)

lemma trim_prefix_append [simp, go_simps]: "trim_prefix p (p @ s) = s"
  by (simp add: trim_prefix_def)

lemma prefix_trim_prefix: "prefix p s \<Longrightarrow> p @ trim_prefix p s = s"
  by (auto simp: trim_prefix_def prefix_def)

lemma trim_suffix_append [simp, go_simps]: "trim_suffix p (s @ p) = s"
  by (simp add: trim_suffix_def suffix_def)

section \<open>Shared caches\<close>

text \<open>\<open>cache.SingleFlight.LoadOrStore(key, valFn)\<close> of the remote execution SDK is an argument
  of the definitions that call it: it maps the key and what \<open>valFn\<close> computes to the value
  returned. Its documented behaviour, for a cache in which \<open>f k\<close> is the only computation
  offered under \<open>k\<close>, is that it returns \<open>f k\<close>.\<close>

definition transparent_cache :: "('k \<Rightarrow> ('e, 'v) res \<Rightarrow> ('e, 'v) res) \<Rightarrow> ('k \<Rightarrow> ('e, 'v) res) \<Rightarrow> bool" where
  "transparent_cache loadOrStore f \<longleftrightarrow> (\<forall>k. loadOrStore k (f k) = f k)"

section \<open>Slices\<close>

text \<open>Dropping duplicates as a scan with a seen-set does: the first occurrence stays.\<close>

fun dedup_by :: "('a \<Rightarrow> 'k) \<Rightarrow> 'k list \<Rightarrow> 'a list \<Rightarrow> 'a list" where
  "dedup_by key seen [] = []"
| "dedup_by key seen (x # xs) =
     (if key x \<in> set seen then dedup_by key seen xs
      else x # dedup_by key (key x # seen) xs)"

lemma dedup_by_distinct:
  "distinct (map key (dedup_by key seen xs)) \<and>
   set (map key (dedup_by key seen xs)) = set (map key xs) - set seen"
  by (induction key seen xs rule: dedup_by.induct) auto

lemma dedup_by_subset: "set (dedup_by key seen xs) \<subseteq> set xs"
  by (induction key seen xs rule: dedup_by.induct) auto

lemma dedup_by_id:
  "distinct (map key xs) \<Longrightarrow> set (map key xs) \<inter> set seen = {} \<Longrightarrow> dedup_by key seen xs = xs"
  by (induction key seen xs rule: dedup_by.induct) auto

text \<open>Go map iteration visits the entries in an unspecified order: a function that
  iterates takes the entries as an association list, in the order of the visit, and its
  properties hold for every order.\<close>

definition map_entries :: "('k \<rightharpoonup> 'v) \<Rightarrow> ('k \<times> 'v) list \<Rightarrow> bool" where
  "map_entries m es \<longleftrightarrow> distinct (map fst es) \<and> map_of es = m"

lemma map_entries_perm:
  "map_entries m es \<Longrightarrow> map_entries m es' \<Longrightarrow> mset es = mset es'"
proof -
  assume a: "map_entries m es" and b: "map_entries m es'"
  have "set es = set es'"
  proof -
    have "(k, v) \<in> set es \<longleftrightarrow> (k, v) \<in> set es'" for k v
      using a b unfolding map_entries_def by (metis map_of_eq_Some_iff)
    then show ?thesis by auto
  qed
  moreover have "distinct es" "distinct es'"
    using a b by (auto simp: map_entries_def distinct_map)
  ultimately show ?thesis by (metis set_eq_iff_mset_eq_distinct)
qed

lemma sort_map_entries:
  fixes f :: "'k \<times> 'v \<Rightarrow> 'b::linorder"
  assumes "map_entries m es" and "map_entries m es'"
  shows "sort (map f es) = sort (map f es')"
  using map_entries_perm [OF assms] by (metis mset_map mset_sort properties_for_sort sorted_sort)

section \<open>Transition systems\<close>

text \<open>The contract of a step relation with an invariant: it holds at the start and every step
  keeps it. Each step relation of the development is an instance.\<close>

locale step_invariant =
  fixes step :: "'s \<Rightarrow> 's \<Rightarrow> bool"
    and starts :: "'s \<Rightarrow> bool"
    and holds :: "'s \<Rightarrow> bool"
  assumes holds_start: "starts s \<Longrightarrow> holds s"
    and holds_step: "step s s' \<Longrightarrow> holds s \<Longrightarrow> holds s'"
begin

lemma holds_kept: "step\<^sup>*\<^sup>* s s' \<Longrightarrow> holds s \<Longrightarrow> holds s'"
  by (induction rule: rtranclp_induct) (auto intro: holds_step)

lemma holds_reachable: "starts s \<Longrightarrow> step\<^sup>*\<^sup>* s s' \<Longrightarrow> holds s'"
  using holds_kept holds_start by blast

end

end
