(* ===== verification/GoPath.thy ===== *)
theory GoPath
  imports Prelude
begin

text \<open>
  The part of Go's \<open>path/filepath\<close> the sources call, on Unix (separator \<open>/\<close>, no volume
  names): \<open>IsAbs\<close>, \<open>Clean\<close>, \<open>Join\<close>, \<open>Rel\<close>, \<open>Base\<close>, \<open>Dir\<close>, \<open>Ext\<close>, \<open>ToSlash\<close>.
  A path is read as its elements between separators; \<open>Clean\<close> runs a stack over them.
  The lemmas give the normal form of a cleaned path and the law that \<open>Join\<close> undoes
  \<open>Rel\<close>, on which path translation rests.
\<close>

section \<open>Definitions\<close>

definition IsAbs :: "string \<Rightarrow> bool" where
  "IsAbs p = (case p of [] \<Rightarrow> False | c # _ \<Rightarrow> c = CHR ''/'')"

abbreviation path_join :: "string list \<Rightarrow> string" where
  "path_join \<equiv> join_with ''/''"

abbreviation path_split :: "string \<Rightarrow> string list" where
  "path_split \<equiv> split_on (CHR ''/'')"

text \<open>One element onto the stack of kept elements (innermost first).\<close>

definition push_elem :: "bool \<Rightarrow> string list \<Rightarrow> string \<Rightarrow> string list" where
  "push_elem rooted st e =
     (if e = [] \<or> e = ''.'' then st
      else if e = ''..'' then
        (case st of
           [] \<Rightarrow> if rooted then [] else [''..'']
         | t # r \<Rightarrow> if t = ''..'' then ''..'' # st else r)
      else e # st)"

definition clean_elems :: "string \<Rightarrow> string list" where
  "clean_elems p = rev (foldl (push_elem (IsAbs p)) [] (path_split p))"

definition render_path :: "bool \<Rightarrow> string list \<Rightarrow> string" where
  "render_path rooted es =
     (if rooted then CHR ''/'' # path_join es
      else if es = [] then ''.'' else path_join es)"

definition Clean :: "string \<Rightarrow> string" where
  "Clean p = render_path (IsAbs p) (clean_elems p)"

definition Join :: "string list \<Rightarrow> string" where
  "Join es = (case dropWhile (\<lambda>e. e = []) es of [] \<Rightarrow> [] | es' \<Rightarrow> Clean (path_join es'))"

text \<open>The elements left of base and target after their common prefix.\<close>

fun strip_common :: "'a list \<Rightarrow> 'a list \<Rightarrow> 'a list \<times> 'a list" where
  "strip_common (x # xs) (y # ys) =
     (if x = y then strip_common xs ys else (x # xs, y # ys))"
| "strip_common xs ys = (xs, ys)"

datatype rel_error = CannotMakeRelative

definition Rel :: "string \<Rightarrow> string \<Rightarrow> (rel_error, string) res" where
  "Rel base targ =
     (let b = Clean base; t = Clean targ in
      if b = t then Ok ''.''
      else if IsAbs b \<noteq> IsAbs t then Err CannotMakeRelative
      else
        let bs = clean_elems base;
            ts = (if t = ''.'' then [''.''] else clean_elems targ);
            rest = strip_common bs ts
        in if fst rest \<noteq> [] \<and> hd (fst rest) = ''..'' then Err CannotMakeRelative
           else Ok (path_join (map (\<lambda>_. ''..'') (fst rest) @ snd rest)))"

definition Base :: "string \<Rightarrow> string" where
  "Base p =
     (if p = [] then ''.''
      else let q = rev (dropWhile (\<lambda>c. c = CHR ''/'') (rev p)) in
           if q = [] then ''/'' else rev (takeWhile (\<lambda>c. c \<noteq> CHR ''/'') (rev q)))"

definition Dir :: "string \<Rightarrow> string" where
  "Dir p = Clean (rev (dropWhile (\<lambda>c. c \<noteq> CHR ''/'') (rev p)))"

definition Ext :: "string \<Rightarrow> string" where
  "Ext p =
     (let stop = (\<lambda>c. c = CHR ''/'' \<or> c = CHR ''.'') in
      case dropWhile (\<lambda>c. \<not> stop c) (rev p) of
        [] \<Rightarrow> []
      | c # _ \<Rightarrow> if c = CHR ''.'' then CHR ''.'' # rev (takeWhile (\<lambda>c. \<not> stop c) (rev p)) else [])"

text \<open>On Unix the separator is already a slash.\<close>

definition ToSlash :: "string \<Rightarrow> string" where
  "ToSlash p = p"

section \<open>Normal form\<close>

definition plain_elem :: "string \<Rightarrow> bool" where
  "plain_elem e \<longleftrightarrow> e \<noteq> [] \<and> e \<noteq> ''.'' \<and> CHR ''/'' \<notin> set e"

text \<open>\<open>..\<close> elements only in front, and none under the root.\<close>

fun dots_first :: "string list \<Rightarrow> bool" where
  "dots_first [] = True"
| "dots_first (e # es) = (if e = ''..'' then dots_first es else ''..'' \<notin> set es)"

definition normal_elems :: "bool \<Rightarrow> string list \<Rightarrow> bool" where
  "normal_elems rooted es \<longleftrightarrow>
     (\<forall>e \<in> set es. plain_elem e) \<and> dots_first es \<and> (rooted \<longrightarrow> ''..'' \<notin> set es)"

lemma dots_first_notin: "''..'' \<notin> set es \<Longrightarrow> dots_first es"
  by (induction es) auto

lemma dots_first_append:
  "dots_first (xs @ ys) \<longleftrightarrow>
     dots_first xs \<and> dots_first ys \<and> (set xs \<subseteq> {''..''} \<or> ''..'' \<notin> set ys)"
  by (induction xs) (auto dest: dots_first_notin)

lemma push_elem_normal:
  assumes "normal_elems r (rev st)" and "CHR ''/'' \<notin> set e"
  shows "normal_elems r (rev (push_elem r st e))"
proof (cases "e = [] \<or> e = ''.'' \<or> e = ''..''")
  case True
  then show ?thesis
    using assms by (cases st) (auto simp: push_elem_def normal_elems_def dots_first_append plain_elem_def)
next
  case False
  then show ?thesis
    using assms by (auto simp: push_elem_def normal_elems_def dots_first_append plain_elem_def)
qed

lemma foldl_push_normal:
  "normal_elems r (rev st) \<Longrightarrow> (\<And>e. e \<in> set es \<Longrightarrow> CHR ''/'' \<notin> set e) \<Longrightarrow>
   normal_elems r (rev (foldl (push_elem r) st es))"
  by (induction es arbitrary: st) (auto intro: push_elem_normal)

lemma clean_elems_normal: "normal_elems (IsAbs p) (clean_elems p)"
  unfolding clean_elems_def
  by (rule foldl_push_normal) (auto simp: normal_elems_def dest: split_on_elems)

lemma push_elem_plain:
  "plain_elem e \<Longrightarrow> e \<noteq> ''..'' \<Longrightarrow> push_elem r st e = e # st"
  by (simp add: push_elem_def plain_elem_def)

lemma foldl_push_plain:
  "(\<And>e. e \<in> set es \<Longrightarrow> plain_elem e) \<Longrightarrow> ''..'' \<notin> set es \<Longrightarrow>
   foldl (push_elem r) st es = rev es @ st"
  by (induction es arbitrary: st) (auto simp: push_elem_plain)

lemma foldl_push_of_normal:
  "normal_elems r es \<Longrightarrow> set st \<subseteq> {''..''} \<Longrightarrow> (r \<longrightarrow> st = []) \<Longrightarrow>
   foldl (push_elem r) st es = rev es @ st"
proof (induction es arbitrary: st)
  case Nil
  then show ?case by simp
next
  case (Cons e es)
  show ?case
  proof (cases "e = ''..''")
    case True
    with Cons.prems have r: "\<not> r" by (auto simp: normal_elems_def)
    from True Cons.prems have "normal_elems r es"
      by (auto simp: normal_elems_def)
    moreover from True r Cons.prems(2) have "push_elem r st e = e # st"
      by (cases st) (auto simp: push_elem_def)
    ultimately show ?thesis
      using Cons.IH [of "e # st"] Cons.prems r True by simp
  next
    case False
    with Cons.prems have "plain_elem e" "''..'' \<notin> set es" "\<And>x. x \<in> set es \<Longrightarrow> plain_elem x"
      by (auto simp: normal_elems_def)
    with False show ?thesis
      by (simp add: push_elem_plain foldl_push_plain)
  qed
qed

lemma IsAbs_render: "normal_elems r es \<Longrightarrow> IsAbs (render_path r es) = r"
proof (cases es)
  case (Cons e es')
  assume "normal_elems r es"
  then obtain c w where e: "e = c # w" "c \<noteq> CHR ''/''"
    using Cons by (cases e) (auto simp: normal_elems_def plain_elem_def)
  then have "\<exists>v. path_join es = c # v"
    using Cons by (cases es') auto
  then show ?thesis
    using Cons e by (auto simp: IsAbs_def render_path_def)
qed (simp add: IsAbs_def render_path_def)

lemma clean_elems_render: "normal_elems r es \<Longrightarrow> clean_elems (render_path r es) = es"
proof -
  assume n: "normal_elems r es"
  have split: "es \<noteq> [] \<Longrightarrow> path_split (path_join es) = es"
    by (rule split_join) (use n in \<open>auto simp: normal_elems_def plain_elem_def\<close>)
  have "foldl (push_elem r) [] es = rev es"
    using foldl_push_of_normal [OF n, of "[]"] by simp
  then have "foldl (push_elem r) [] (path_split (render_path r es)) = rev es"
    using split by (cases "es = []") (auto simp: render_path_def push_elem_def)
  then show ?thesis
    using n by (simp add: clean_elems_def IsAbs_render)
qed

lemma IsAbs_Clean [simp]: "IsAbs (Clean p) = IsAbs p"
  by (simp add: Clean_def IsAbs_render clean_elems_normal)

lemma clean_elems_Clean [simp]: "clean_elems (Clean p) = clean_elems p"
  by (simp add: Clean_def clean_elems_render clean_elems_normal)

lemma Clean_eqI: "IsAbs p = IsAbs q \<Longrightarrow> clean_elems p = clean_elems q \<Longrightarrow> Clean p = Clean q"
  by (simp add: Clean_def)

lemma Clean_idem [simp]: "Clean (Clean p) = Clean p"
  by (rule Clean_eqI) simp_all

lemma Clean_eq_iff: "Clean p = Clean q \<longleftrightarrow> IsAbs p = IsAbs q \<and> clean_elems p = clean_elems q"
proof
  assume "Clean p = Clean q"
  then have "IsAbs (Clean p) = IsAbs (Clean q)" "clean_elems (Clean p) = clean_elems (Clean q)"
    by simp_all
  then show "IsAbs p = IsAbs q \<and> clean_elems p = clean_elems q" by simp
qed (auto intro: Clean_eqI)

lemma clean_elems_abs_no_dots: "IsAbs p \<Longrightarrow> ''..'' \<notin> set (clean_elems p)"
  using clean_elems_normal [of p] by (simp add: normal_elems_def)

lemma clean_elems_plain: "e \<in> set (clean_elems p) \<Longrightarrow> plain_elem e"
  using clean_elems_normal [of p] by (simp add: normal_elems_def)

section \<open>Joining\<close>

lemma IsAbs_append: "a \<noteq> [] \<Longrightarrow> IsAbs (a @ b) = IsAbs a"
  by (cases a) (auto simp: IsAbs_def)

lemma IsAbs_not_Nil: "IsAbs p \<Longrightarrow> p \<noteq> []"
  by (auto simp: IsAbs_def)

lemma clean_elems_append:
  "a \<noteq> [] \<Longrightarrow>
   clean_elems (a @ CHR ''/'' # b) =
     rev (foldl (push_elem (IsAbs a)) (rev (clean_elems a)) (path_split b))"
  by (simp add: clean_elems_def split_on_append IsAbs_append)

lemma Join_abs: "IsAbs a \<Longrightarrow> Join (a # es) = Clean (path_join (a # es))"
  using IsAbs_not_Nil by (auto simp: Join_def)

lemma IsAbs_Join: "IsAbs a \<Longrightarrow> IsAbs (Join (a # es))"
  by (cases es) (auto simp: Join_abs IsAbs_append IsAbs_not_Nil)

lemma clean_elems_Join2:
  "IsAbs a \<Longrightarrow>
   clean_elems (Join [a, b]) = rev (foldl (push_elem True) (rev (clean_elems a)) (path_split b))"
  using clean_elems_append [of a b] IsAbs_not_Nil [of a] by (simp add: Join_abs)

lemma clean_elems_Join3:
  "IsAbs a \<Longrightarrow>
   clean_elems (Join [a, b, c]) =
     rev (foldl (push_elem True) (rev (clean_elems a)) (path_split b @ path_split c))"
  using clean_elems_append [of a "b @ CHR ''/'' # c"] IsAbs_not_Nil [of a]
    split_on_append [of "CHR ''/''" b c]
  by (simp add: Join_abs)

lemma Join_Clean_left: "IsAbs a \<Longrightarrow> Join [Join [a, b], c] = Join [a, b, c]"
proof -
  assume a: "IsAbs a"
  have "clean_elems (Join [Join [a, b], c]) = clean_elems (Join [a, b, c])"
    using a by (simp add: clean_elems_Join2 clean_elems_Join3 IsAbs_Join)
  moreover have "IsAbs (Join [Join [a, b], c])" "IsAbs (Join [a, b, c])"
    using a by (simp_all add: IsAbs_Join)
  ultimately have "Clean (Join [Join [a, b], c]) = Clean (Join [a, b, c])"
    by (simp add: Clean_eq_iff)
  moreover have "Clean (Join [Join [a, b], c]) = Join [Join [a, b], c]"
    using a Join_abs [OF IsAbs_Join [OF a, of "[b]"], of "[c]"] by simp
  ultimately show ?thesis using a by (simp add: Join_abs)
qed

lemma Join_nil_abs: "IsAbs a \<Longrightarrow> Join [a, []] = Clean a"
proof -
  assume a: "IsAbs a"
  then have "clean_elems (Join [a, []]) = clean_elems a"
    by (simp add: clean_elems_Join2 push_elem_def)
  then have "Clean (Join [a, []]) = Clean a"
    using a by (simp add: Clean_eq_iff IsAbs_Join)
  then show ?thesis using a by (simp add: Join_abs)
qed

section \<open>Relative paths\<close>

lemma strip_common_split:
  "strip_common xs ys = (us, vs) \<Longrightarrow> \<exists>zs. xs = zs @ us \<and> ys = zs @ vs"
proof (induction xs ys rule: strip_common.induct)
  case (1 x xs y ys)
  then show ?case by (cases "x = y") (auto intro: exI [of _ "x # _"])
qed auto

lemma strip_common_differ:
  "strip_common xs ys = (u # us, v # vs) \<Longrightarrow> u \<noteq> v"
  by (induction xs ys rule: strip_common.induct) (auto split: if_splits)

lemma foldl_push_dots:
  "length us \<le> length st \<Longrightarrow> ''..'' \<notin> set st \<Longrightarrow>
   foldl (push_elem r) st (map (\<lambda>_. ''..'') us) = drop (length us) st"
proof (induction us arbitrary: st)
  case Nil
  then show ?case by simp
next
  case (Cons u us)
  then show ?case by (cases st) (auto simp: push_elem_def)
qed

text \<open>For rooted paths \<open>Rel\<close> always succeeds and \<open>Join\<close> undoes it.\<close>

lemma Rel_abs_elems:
  assumes "IsAbs base" and "IsAbs targ" and "Clean base \<noteq> Clean targ"
  obtains us vs where "strip_common (clean_elems base) (clean_elems targ) = (us, vs)"
    and "Rel base targ = Ok (path_join (map (\<lambda>_. ''..'') us @ vs))"
proof -
  obtain us vs where s: "strip_common (clean_elems base) (clean_elems targ) = (us, vs)"
    by fastforce
  have nd: "''..'' \<notin> set us"
    using strip_common_split [OF s] clean_elems_abs_no_dots [OF assms(1)] by auto
  have "Clean targ \<noteq> ''.''"
    using assms(2) IsAbs_Clean [of targ] by (auto simp: IsAbs_def)
  then have "Rel base targ = Ok (path_join (map (\<lambda>_. ''..'') us @ vs))"
    using assms s nd by (cases us) (auto simp: Rel_def Let_def)
  with s that show ?thesis by blast
qed

theorem Join_Rel:
  assumes "IsAbs base" and "IsAbs targ"
  shows "\<exists>r. Rel base targ = Ok r \<and> Join [base, r] = Clean targ"
proof (cases "Clean base = Clean targ")
  case True
  have "clean_elems (Join [base, ''.'']) = clean_elems base"
    using assms by (simp add: clean_elems_Join2 push_elem_def)
  then have "Clean (Join [base, ''.'']) = Clean targ"
    using True assms by (auto simp: Clean_eq_iff IsAbs_Join)
  then show ?thesis
    using True assms by (auto simp: Rel_def Join_abs)
next
  case False
  obtain us vs where s: "strip_common (clean_elems base) (clean_elems targ) = (us, vs)"
    and r: "Rel base targ = Ok (path_join (map (\<lambda>_. ''..'') us @ vs))"
    using Rel_abs_elems [OF assms False] by blast
  obtain zs where b: "clean_elems base = zs @ us" and t: "clean_elems targ = zs @ vs"
    using strip_common_split [OF s] by blast
  let ?es = "map (\<lambda>_. ''..'') us @ vs"
  have ne: "?es \<noteq> []"
    using False b t assms by (auto simp: Clean_eq_iff)
  have "path_split (path_join ?es) = ?es"
  proof (rule split_join [OF ne])
    fix w assume "w \<in> set ?es"
    then show "CHR ''/'' \<notin> set w"
      using clean_elems_plain [of w targ] t by (auto simp: plain_elem_def)
  qed
  then have "clean_elems (Join [base, path_join ?es]) =
      rev (foldl (push_elem True) (foldl (push_elem True) (rev (zs @ us)) (map (\<lambda>_. ''..'') us)) vs)"
    using assms b by (simp add: clean_elems_Join2)
  also have "\<dots> = rev (foldl (push_elem True) (rev zs) vs)"
    using foldl_push_dots [of us "rev (zs @ us)" True] clean_elems_abs_no_dots [OF assms(1)] b
    by simp
  also have "\<dots> = zs @ vs"
    using foldl_push_plain [of vs True "rev zs"] clean_elems_abs_no_dots [OF assms(2)]
      clean_elems_plain [of _ targ] t by simp
  finally have "Clean (Join [base, path_join ?es]) = Clean targ"
    using t assms by (auto simp: Clean_eq_iff IsAbs_Join)
  then show ?thesis
    using r assms by (auto simp: Join_abs)
qed

section \<open>Relative results\<close>

lemma join_with_hd: "\<exists>r. join_with sp (e # es) = e @ r"
  by (cases es) auto

lemma path_join_snoc: "es \<noteq> [] \<Longrightarrow> path_join (es @ [a]) = path_join es @ ''/'' @ a"
  using join_with_append [of es "[a]" "''/''"] by simp

lemma path_join_plain:
  assumes "es \<noteq> []" and "\<forall>e \<in> set es. plain_elem e"
  shows "path_join es \<noteq> [] \<and> \<not> IsAbs (path_join es)"
proof -
  obtain e es' where e: "es = e # es'" using assms(1) by (cases es) auto
  obtain r where r: "path_join es = e @ r" using join_with_hd e by blast
  have "e \<noteq> [] \<and> hd e \<noteq> CHR ''/''" using assms(2) e by (cases "e") (auto simp: plain_elem_def)
  then show ?thesis using r by (cases "e") (auto simp: IsAbs_def)
qed

lemma Rel_relative:
  assumes "IsAbs b" and "IsAbs t" and "Rel b t = Ok r"
  shows "\<not> IsAbs r"
proof (cases "Clean b = Clean t")
  case True
  then show ?thesis using assms by (auto simp: Rel_def Let_def IsAbs_def)
next
  case False
  obtain us vs where u: "strip_common (clean_elems b) (clean_elems t) = (us, vs)"
    "r = path_join (map (\<lambda>_. ''..'') us @ vs)"
    using Rel_abs_elems [OF assms(1,2) False] assms(3) by auto
  have "plain_elem e" if "e \<in> set (map (\<lambda>_. ''..'') us @ vs)" for e
    using that strip_common_split [OF u(1)] clean_elems_plain [of e t] by (auto simp: plain_elem_def)
  then show ?thesis
    using u(2) path_join_plain [of "map (\<lambda>_. ''..'') us @ vs"] by (cases "map (\<lambda>_. ''..'') us @ vs = []") (auto simp: IsAbs_def)
qed

lemma Rel_abs_Ok:
  assumes "IsAbs b" and "IsAbs t"
  obtains r where "Rel b t = Ok r" "\<not> IsAbs r"
proof (cases "Clean b = Clean t")
  case True
  then have "Rel b t = Ok ''.''" by (simp add: Rel_def Let_def)
  then show ?thesis using that by (simp add: IsAbs_def)
next
  case False
  then show ?thesis using Rel_abs_elems [OF assms False] Rel_relative [OF assms] that by metis
qed

lemma push_no_dot: "t \<in> set (foldl (push_elem r) st es) \<Longrightarrow> t \<in> set st \<or> t \<noteq> [] \<and> t \<noteq> ''.''"
proof (induction es arbitrary: st)
  case (Cons e es)
  then have "t \<in> set (push_elem r st e) \<or> t \<noteq> [] \<and> t \<noteq> ''.''" by auto
  then show ?case by (auto simp: push_elem_def split: if_splits list.splits)
qed simp

text \<open>Pushing the elements of a cleaned relative path is pushing those of the path.\<close>

lemma foldl_push_cleaned:
  "foldl (push_elem True) st (rev (foldl (push_elem False) [] es)) = foldl (push_elem True) st es"
proof (induction es rule: rev_induct)
  case (snoc e es)
  let ?w = "foldl (push_elem False) [] es"
  show ?case
  proof (cases "e = ''..'' \<and> ?w \<noteq> [] \<and> hd ?w \<noteq> ''..''")
    case True
    then obtain t r where w: "?w = t # r" "t \<noteq> ''..''" by (cases ?w) auto
    have "t \<noteq> [] \<and> t \<noteq> ''.''"
      using w push_no_dot [of t False "[]" es] by auto
    then have "push_elem True (push_elem True s t) ''..'' = s" for s using w(2) by (simp add: push_elem_def)
    moreover have "push_elem False (t # r) ''..'' = r" using w(2) by (simp add: push_elem_def)
    ultimately show ?thesis using True w(1) snoc.IH [symmetric] by simp
  next
    case False
    then have "push_elem False ?w e = (if e = [] \<or> e = ''.'' then ?w else e # ?w)"
      by (cases ?w) (auto simp: push_elem_def)
    moreover have "e = [] \<or> e = ''.'' \<Longrightarrow> push_elem True x e = x" for x by (simp add: push_elem_def)
    ultimately show ?thesis using snoc.IH by simp
  qed
qed simp

lemma Join_Clean_right:
  assumes "IsAbs a" and "\<not> IsAbs c"
  shows "Join [a, b, Clean c] = Join [a, b, c]"
proof -
  have n: "normal_elems False (clean_elems c)" using clean_elems_normal [of c] assms(2) by simp
  have "foldl (push_elem True) st (path_split (Clean c)) = foldl (push_elem True) st (path_split c)" for st
  proof (cases "clean_elems c = []")
    case True
    then have "path_split (Clean c) = [''.'']" using assms(2) by (simp add: Clean_def render_path_def)
    moreover have "foldl (push_elem True) st (path_split c) = st"
      using foldl_push_cleaned [of st "path_split c"] True assms(2) by (simp add: clean_elems_def)
    ultimately show ?thesis by (simp add: push_elem_def)
  next
    case False
    then have "path_split (Clean c) = clean_elems c"
      using n assms(2) split_join [of "clean_elems c" "CHR ''/''"]
      by (simp add: Clean_def render_path_def normal_elems_def plain_elem_def)
    then show ?thesis using foldl_push_cleaned [of st "path_split c"] assms(2) by (simp add: clean_elems_def)
  qed
  then have "Clean (Join [a, b, Clean c]) = Clean (Join [a, b, c])"
    using assms(1) by (intro Clean_eqI) (simp_all add: IsAbs_Join clean_elems_Join3)
  then show ?thesis using assms(1) by (simp add: Join_abs)
qed

end
