(* ===== verification/PathTranslator.thy ===== *)
theory PathTranslator
  imports GoPath
begin

text \<open>
  Package \<open>pathtranslator\<close> (\<open>internal/pkg/pathtranslator/pathtranslator.go\<close>): the
  translation of paths between the working directory, the exec root and absolute form.
  Every path that reaches remote execution goes through it, so its contract matters:
  a non-empty result of \<open>RelToExecRoot\<close> names the same file, below the exec root, and
  \<open>RelToWorkingDir\<close> inverts it. \<open>os.Executable\<close> and \<open>filepath.EvalSymlinks\<close> are arguments.
\<close>

section \<open>Operations\<close>

definition RelToExecRoot :: "string \<Rightarrow> string \<Rightarrow> string \<Rightarrow> string" where
  "RelToExecRoot execRoot workingDir p =
     (if p = [] then []
      else
        let p' = (if \<not> IsAbs p then Join [execRoot, workingDir, p] else p) in
        case Rel execRoot p' of
          Ok rp \<Rightarrow> if prefix ''..'' rp then [] else rp
        | _ \<Rightarrow> [])"

definition RelToWorkingDir :: "string \<Rightarrow> string \<Rightarrow> string \<Rightarrow> string" where
  "RelToWorkingDir execRoot workingDir p =
     (let p' = (if \<not> IsAbs p then Join [execRoot, p] else p) in
      case Rel (Join [execRoot, workingDir]) p' of
        Ok rp \<Rightarrow> rp
      | _ \<Rightarrow> [])"

fun mapPaths :: "string \<Rightarrow> string \<Rightarrow> string list \<Rightarrow> (string \<Rightarrow> string \<Rightarrow> string \<Rightarrow> string) \<Rightarrow> string list"
  where
  "mapPaths execRoot workingDir [] mapper = []"
| "mapPaths execRoot workingDir (p # paths) mapper =
     (let rel = mapper execRoot workingDir p; res = mapPaths execRoot workingDir paths mapper in
      if rel \<noteq> [] then rel # res else res)"

definition ListRelToExecRoot :: "string \<Rightarrow> string \<Rightarrow> string list \<Rightarrow> string list" where
  "ListRelToExecRoot execRoot workingDir paths =
     mapPaths execRoot workingDir paths RelToExecRoot"

definition ListRelToWorkingDir :: "string \<Rightarrow> string \<Rightarrow> string list \<Rightarrow> string list" where
  "ListRelToWorkingDir execRoot workingDir paths =
     mapPaths execRoot workingDir paths RelToWorkingDir"

definition BinaryRelToAbs ::
  "('e, string) res \<Rightarrow> (string \<Rightarrow> ('e, string) res) \<Rightarrow> string \<Rightarrow> ('e, string) res" where
  "BinaryRelToAbs osExecutable evalSymlinks relPath =
     (if IsAbs relPath then Ok relPath
      else res_bind osExecutable (\<lambda>executable.
           res_bind (evalSymlinks executable) (\<lambda>executable.
             Ok (Join [Dir executable, relPath]))))"

section \<open>The file a path names\<close>

definition abs_of :: "string \<Rightarrow> string \<Rightarrow> string \<Rightarrow> string" where
  "abs_of execRoot workingDir p = (if \<not> IsAbs p then Join [execRoot, workingDir, p] else p)"

text \<open>The target lies in the tree below the exec root.\<close>

definition under_root :: "string \<Rightarrow> string \<Rightarrow> bool" where
  "under_root execRoot targ \<longleftrightarrow> prefix (clean_elems execRoot) (clean_elems targ)"

text \<open>The path inside the root, as \<open>Rel\<close> spells it.\<close>

definition tail_path :: "string \<Rightarrow> string \<Rightarrow> string" where
  "tail_path execRoot targ =
     (let ts = drop (length (clean_elems execRoot)) (clean_elems targ) in
      if ts = [] then ''.'' else path_join ts)"

lemma IsAbs_abs_of: "IsAbs er \<Longrightarrow> IsAbs (abs_of er wd p)"
  by (simp add: abs_of_def IsAbs_Join)

lemma prefix_path_join:
  "es \<noteq> [] \<Longrightarrow> hd es \<noteq> [] \<Longrightarrow> (\<And>e. e \<in> set es \<Longrightarrow> CHR ''/'' \<notin> set e) \<Longrightarrow>
   prefix ''..'' (path_join es) \<longleftrightarrow> prefix ''..'' (hd es)"
proof -
  assume ne: "es \<noteq> []" and hd: "hd es \<noteq> []" and ns: "\<And>e. e \<in> set es \<Longrightarrow> CHR ''/'' \<notin> set e"
  obtain e es' where es: "es = e # es'" using ne by (cases es) auto
  show ?thesis
  proof (cases es')
    case Nil
    then show ?thesis using es by simp
  next
    case (Cons f fs)
    obtain c w where e: "e = c # w" using hd es by (cases e) auto
    then show ?thesis
      using es Cons by (cases w) (auto simp: join_with_Cons)
  qed
qed

lemma strip_common_prefix: "prefix xs ys \<Longrightarrow> strip_common xs ys = ([], drop (length xs) ys)"
  by (induction xs ys rule: strip_common.induct) auto

lemma strip_common_not_prefix:
  "\<not> prefix xs ys \<Longrightarrow> strip_common xs ys = (us, vs) \<Longrightarrow> us \<noteq> []"
  by (induction xs ys rule: strip_common.induct) (auto split: if_splits)

lemma Rel_under:
  assumes "IsAbs er" and "IsAbs t" and "under_root er t"
  shows "Rel er t = Ok (tail_path er t)"
proof (cases "Clean er = Clean t")
  case True
  then have "clean_elems er = clean_elems t"
    by (simp add: Clean_eq_iff)
  then show ?thesis using True by (simp add: Rel_def tail_path_def)
next
  case False
  have "strip_common (clean_elems er) (clean_elems t) =
      ([], drop (length (clean_elems er)) (clean_elems t))"
    using assms(3) by (simp add: under_root_def strip_common_prefix)
  moreover have "drop (length (clean_elems er)) (clean_elems t) \<noteq> []"
    using False assms by (auto simp: Clean_eq_iff under_root_def prefix_def)
  ultimately show ?thesis
    using Rel_abs_elems [OF assms(1,2) False] by (auto simp: tail_path_def)
qed

lemma Rel_not_under:
  assumes "IsAbs er" and "IsAbs t" and "\<not> under_root er t"
  shows "\<exists>r. Rel er t = Ok r \<and> prefix ''..'' r"
proof -
  have "Clean er \<noteq> Clean t"
    using assms by (auto simp: Clean_eq_iff under_root_def)
  then obtain us vs where s: "strip_common (clean_elems er) (clean_elems t) = (us, vs)"
    and r: "Rel er t = Ok (path_join (map (\<lambda>_. ''..'') us @ vs))"
    using Rel_abs_elems [OF assms(1,2)] by blast
  have us: "us \<noteq> []"
    using assms(3) s by (auto simp: under_root_def dest: strip_common_not_prefix)
  let ?es = "map (\<lambda>_. ''..'') us @ vs"
  have "prefix ''..'' (path_join ?es)"
    using us by (cases "tl us @ vs"; cases us; cases "tl us"; cases vs) auto
  with r show ?thesis by blast
qed

lemma tail_path_elems:
  assumes "IsAbs t" and "e \<in> set (path_split (tail_path er t))"
  shows "e \<noteq> ''..'' \<and> e \<noteq> []"
proof (cases "drop (length (clean_elems er)) (clean_elems t) = []")
  case True
  then show ?thesis using assms by (simp add: tail_path_def)
next
  case False
  let ?ts = "drop (length (clean_elems er)) (clean_elems t)"
  have ts: "x \<in> set ?ts \<Longrightarrow> x \<in> set (clean_elems t)" for x by (rule in_set_dropD)
  have "path_split (path_join ?ts) = ?ts"
    by (rule split_join [OF False]) (use ts clean_elems_plain in \<open>auto simp: plain_elem_def\<close>)
  then have "e \<in> set (clean_elems t)"
    using assms False ts by (simp add: tail_path_def)
  then show ?thesis
    using clean_elems_plain clean_elems_abs_no_dots [OF assms(1)] by (auto simp: plain_elem_def)
qed

text \<open>\<open>RelToExecRoot\<close> on every input, for an absolute exec root.\<close>

lemma RelToExecRoot_cases:
  assumes "IsAbs er"
  shows "RelToExecRoot er wd p =
    (if p = [] \<or> \<not> under_root er (abs_of er wd p) \<or> prefix ''..'' (tail_path er (abs_of er wd p))
     then [] else tail_path er (abs_of er wd p))"
proof (cases "under_root er (abs_of er wd p)")
  case True
  have r: "Rel er (abs_of er wd p) = Ok (tail_path er (abs_of er wd p))"
    by (rule Rel_under [OF assms IsAbs_abs_of [OF assms] True])
  show ?thesis
    using True r unfolding RelToExecRoot_def Let_def abs_of_def [symmetric] by simp
next
  case False
  obtain r where r: "Rel er (abs_of er wd p) = Ok r" "prefix ''..'' r"
    using Rel_not_under [OF assms IsAbs_abs_of [OF assms] False] by blast
  then show ?thesis
    using False unfolding RelToExecRoot_def Let_def abs_of_def [symmetric] by simp
qed

lemma Join_tail_path:
  assumes "IsAbs er" and "IsAbs t" and "under_root er t"
  shows "Join [er, tail_path er t] = Clean t"
  using Join_Rel [OF assms(1,2)] Rel_under [OF assms] by auto

lemma RelToExecRoot_nonempty:
  assumes "IsAbs er" and "RelToExecRoot er wd p \<noteq> []"
  shows "p \<noteq> [] \<and> under_root er (abs_of er wd p) \<and>
         RelToExecRoot er wd p = tail_path er (abs_of er wd p)"
  using RelToExecRoot_cases [OF assms(1), of wd p] assms(2) by (auto split: if_splits)

lemma tail_path_relative: "IsAbs t \<Longrightarrow> \<not> IsAbs (tail_path er t)"
proof
  assume a: "IsAbs t" and b: "IsAbs (tail_path er t)"
  then obtain w where "tail_path er t = CHR ''/'' # w"
    by (cases "tail_path er t") (auto simp: IsAbs_def)
  then have "[] \<in> set (path_split (tail_path er t))" by simp
  with tail_path_elems [OF a this] show False by simp
qed

text \<open>A path that stays below the directory it is joined to.\<close>

definition confined :: "string \<Rightarrow> bool" where
  "confined r \<longleftrightarrow> \<not> IsAbs r \<and> ''..'' \<notin> set (path_split r)"

lemma RelToExecRoot_confined:
  assumes "IsAbs er" and "RelToExecRoot er wd p \<noteq> []"
  shows "confined (RelToExecRoot er wd p)"
proof -
  have a: "IsAbs (abs_of er wd p)" by (rule IsAbs_abs_of [OF assms(1)])
  show ?thesis
    using RelToExecRoot_nonempty [OF assms] tail_path_relative [OF a] tail_path_elems [OF a]
    by (auto simp: confined_def)
qed

lemma foldl_push_subset:
  "''..'' \<notin> set es \<Longrightarrow> set (foldl (push_elem r) st es) \<subseteq> set st \<union> set es"
proof (induction es arbitrary: st)
  case (Cons e es)
  have "set (push_elem r st e) \<subseteq> set st \<union> {e}"
    using Cons.prems by (auto simp: push_elem_def)
  with Cons.IH [of "push_elem r st e"] Cons.prems show ?case by auto
qed simp

lemma Clean_confined: "confined r \<Longrightarrow> confined (Clean r)"
proof -
  assume c: "confined r"
  have rel: "\<not> IsAbs r" using c by (simp add: confined_def)
  have ce: "''..'' \<notin> set (clean_elems r)"
    using foldl_push_subset [of "path_split r" False "[]"] c rel by (auto simp: clean_elems_def confined_def)
  have "path_split (Clean r) = (if clean_elems r = [] then [''.''] else clean_elems r)"
    using rel split_join [of "clean_elems r" "CHR ''/''"] clean_elems_plain [of _ r]
    by (auto simp: Clean_def render_path_def plain_elem_def)
  then show ?thesis using ce rel by (simp add: confined_def)
qed

lemma confined_no_slash: "confined r \<Longrightarrow> dropWhile (\<lambda>c. c = CHR ''/'') r = r"
  by (cases r) (auto simp: confined_def IsAbs_def)

text \<open>A relative path uses only the characters of its target, dots and slashes.\<close>

lemma join_with_chars: "set (join_with sp es) \<subseteq> set sp \<union> (\<Union>e \<in> set es. set e)"
  by (induction sp es rule: join_with.induct) auto

lemma join_with_superset: "w \<in> set es \<Longrightarrow> set w \<subseteq> set (join_with sp es)"
  by (induction sp es rule: join_with.induct) auto

lemma split_on_chars: "w \<in> set (split_on c xs) \<Longrightarrow> set w \<subseteq> set xs"
  using join_with_superset [of w "split_on c xs" "[c]"] by simp

lemma push_chars: "e \<in> set (foldl (push_elem r) st es) \<Longrightarrow> e \<in> set st \<union> set es \<union> {''..''}"
proof (induction es arbitrary: st)
  case (Cons a es)
  have "set (push_elem r st a) \<subseteq> set st \<union> {a, ''..''}"
    by (auto simp: push_elem_def split: list.splits if_splits)
  with Cons.IH [of "push_elem r st a"] Cons.prems show ?case by auto
qed simp

lemma clean_elems_chars: "e \<in> set (clean_elems p) \<Longrightarrow> set e \<subseteq> set p \<union> {CHR ''.''}"
  using push_chars [of e "IsAbs p" "[]" "path_split p"] split_on_chars [of e "CHR ''/''" p]
  by (auto simp: clean_elems_def)

lemma RelToWorkingDir_chars:
  assumes "IsAbs er" and "IsAbs val"
  shows "set (RelToWorkingDir er wd val) \<subseteq> set val \<union> {CHR ''.'', CHR ''/''}"
proof (cases "Clean (Join [er, wd]) = Clean val")
  case True
  then show ?thesis using assms by (simp add: RelToWorkingDir_def Rel_def)
next
  case False
  obtain us vs where s: "strip_common (clean_elems (Join [er, wd])) (clean_elems val) = (us, vs)"
    and r: "Rel (Join [er, wd]) val = Ok (path_join (map (\<lambda>_. ''..'') us @ vs))"
    using Rel_abs_elems [OF IsAbs_Join [OF assms(1)] assms(2) False] by blast
  have vs: "e \<in> set vs \<Longrightarrow> set e \<subseteq> set val \<union> {CHR ''.''}" for e
    using strip_common_split [OF s] clean_elems_chars [of e val] by auto
  have "set (path_join (map (\<lambda>_. ''..'') us @ vs)) \<subseteq> set val \<union> {CHR ''.'', CHR ''/''}"
    using join_with_chars [of "''/''" "map (\<lambda>_. ''..'') us @ vs"] vs by fastforce
  then show ?thesis using assms r by (simp add: RelToWorkingDir_def)
qed

lemma mapPaths_filter:
  "mapPaths er wd ps f = filter (\<lambda>r. r \<noteq> []) (map (f er wd) ps)"
  by (induction ps) (auto simp: Let_def)

section \<open>Properties\<close>

text \<open>C1: a non-empty result of RelToExecRoot is a relative path with no parent or empty
  element, and joined to the exec root it names exactly the file the input names.\<close>

theorem RelToExecRoot_sound:
  assumes "IsAbs execRoot" and "RelToExecRoot execRoot workingDir p = r" and "r \<noteq> []"
  shows "\<not> IsAbs r \<and> ''..'' \<notin> set (path_split r) \<and> [] \<notin> set (path_split r) \<and>
         Join [execRoot, r] = Clean (abs_of execRoot workingDir p)"
proof -
  have n: "under_root execRoot (abs_of execRoot workingDir p)"
    "r = tail_path execRoot (abs_of execRoot workingDir p)"
    using RelToExecRoot_nonempty [OF assms(1), of workingDir p] assms(2,3) by auto
  have a: "IsAbs (abs_of execRoot workingDir p)" by (rule IsAbs_abs_of [OF assms(1)])
  show ?thesis
    using n(2) tail_path_relative [OF a] tail_path_elems [OF a]
      Join_tail_path [OF assms(1) a n(1)] by blast
qed

theorem RelToExecRoot_sound_witness:
  "\<not> IsAbs ''a/b.c'' \<and> ''..'' \<notin> set (path_split ''a/b.c'') \<and> [] \<notin> set (path_split ''a/b.c'') \<and>
   Join [''/r'', ''a/b.c''] = Clean (abs_of ''/r'' ''out'' ''../a/./b.c'')"
  using RelToExecRoot_sound [of "''/r''" "''out''" "''../a/./b.c''" "''a/b.c''"]
  by code_simp

text \<open>RelToExecRoot drops a non-empty path exactly when it names something outside the
  exec root or something whose path inside the root begins with two dots.\<close>

theorem RelToExecRoot_empty_iff:
  assumes "IsAbs execRoot" and "p \<noteq> []"
  shows "RelToExecRoot execRoot workingDir p = [] \<longleftrightarrow>
    \<not> prefix (clean_elems execRoot) (clean_elems (abs_of execRoot workingDir p)) \<or>
    (\<exists>e es. clean_elems (abs_of execRoot workingDir p) = clean_elems execRoot @ e # es \<and>
            prefix ''..'' e)"
proof (cases "under_root execRoot (abs_of execRoot workingDir p)")
  case False
  then show ?thesis
    using RelToExecRoot_cases [OF assms(1)] by (simp add: under_root_def)
next
  case True
  let ?t = "abs_of execRoot workingDir p"
  have pl: "\<And>e. e \<in> set (clean_elems ?t) \<Longrightarrow> e \<noteq> [] \<and> CHR ''/'' \<notin> set e"
    using clean_elems_plain by (auto simp: plain_elem_def)
  obtain ts where ts: "clean_elems ?t = clean_elems execRoot @ ts"
    using True by (auto simp: under_root_def prefix_def)
  then have tp: "tail_path execRoot ?t = (if ts = [] then ''.'' else path_join ts)"
    by (simp add: tail_path_def)
  have "tail_path execRoot ?t \<noteq> []"
    using tail_path_elems [OF IsAbs_abs_of [OF assms(1)], of "[]" execRoot workingDir p] by auto
  moreover have "prefix ''..'' (tail_path execRoot ?t) \<longleftrightarrow> (\<exists>e es. ts = e # es \<and> prefix ''..'' e)"
    using prefix_path_join [of ts] pl ts tp by (cases ts) auto
  ultimately show ?thesis
    using RelToExecRoot_cases [OF assms(1), of workingDir p] True assms(2) ts
    by (simp add: under_root_def)
qed

theorem RelToExecRoot_empty_iff_witness:
  "RelToExecRoot ''/r'' ''out'' ''../..foo/x'' = [] \<longleftrightarrow>
     \<not> prefix (clean_elems ''/r'') (clean_elems (abs_of ''/r'' ''out'' ''../..foo/x'')) \<or>
     (\<exists>e es. clean_elems (abs_of ''/r'' ''out'' ''../..foo/x'') = clean_elems ''/r'' @ e # es \<and>
             prefix ''..'' e)"
  by (rule RelToExecRoot_empty_iff) code_simp+

text \<open>translating to the exec root and back to the working directory names the same
  file again: joined below the working directory it is the cleaned input.\<close>

theorem RelToWorkingDir_inverts:
  assumes "IsAbs execRoot" and "RelToExecRoot execRoot workingDir p \<noteq> []"
  shows "Join [Join [execRoot, workingDir],
               RelToWorkingDir execRoot workingDir (RelToExecRoot execRoot workingDir p)] =
         Clean (abs_of execRoot workingDir p)"
proof -
  let ?t = "abs_of execRoot workingDir p"
  have a: "IsAbs ?t" by (rule IsAbs_abs_of [OF assms(1)])
  have n: "under_root execRoot ?t" "RelToExecRoot execRoot workingDir p = tail_path execRoot ?t"
    using RelToExecRoot_nonempty [OF assms] by auto
  have j: "Join [execRoot, tail_path execRoot ?t] = Clean ?t"
    by (rule Join_tail_path [OF assms(1) a n(1)])
  have wd: "IsAbs (Join [execRoot, workingDir])" by (rule IsAbs_Join [OF assms(1)])
  obtain r where r: "Rel (Join [execRoot, workingDir]) (Clean ?t) = Ok r"
    "Join [Join [execRoot, workingDir], r] = Clean (Clean ?t)"
    using Join_Rel [OF wd, of "Clean ?t"] a by auto
  then show ?thesis
    using n(2) j tail_path_relative [OF a] by (simp add: RelToWorkingDir_def)
qed

theorem RelToWorkingDir_inverts_witness:
  "Join [Join [''/r'', ''out''], RelToWorkingDir ''/r'' ''out'' (RelToExecRoot ''/r'' ''out'' ''../a.c'')] =
   Clean (abs_of ''/r'' ''out'' ''../a.c'')"
  using RelToWorkingDir_inverts [of "''/r''" "''out''" "''../a.c''"] by code_simp

end
