(* ===== verification/Labels.thy ===== *)
theory Labels
  imports Prelude
begin

text \<open>
  Package \<open>labels\<close> (\<open>internal/pkg/labels/labels.go\<close>): the label sets that select an
  action's input processor, their map form, and the canonical key of a label map. A label
  map is a \<^typ>\<open>string \<rightharpoonup> string\<close>; \<open>ToKey\<close> iterates over it, so it takes the entries in
  the order of the visit. The hash and the shared digest cache are arguments.
\<close>

section \<open>Keys and values\<close>

definition actionType :: string where "actionType = ''type''"
definition compiler :: string where "compiler = ''compiler''"
definition lang :: string where "lang = ''lang''"
definition actionTool :: string where "actionTool = ''tool''"

lemmas label_keys = actionType_def compiler_def lang_def actionTool_def

record Labels =
  ActionType :: string
  Compiler :: string
  Lang :: string
  ActionTool :: string

definition no_labels :: Labels where
  "no_labels = \<lparr>ActionType = [], Compiler = [], Lang = [], ActionTool = []\<rparr>"

section \<open>The label sets of the supported actions\<close>

definition ToolLabels :: Labels where
  "ToolLabels = no_labels\<lparr>ActionType := ''tool''\<rparr>"

definition ClangCppLabels :: Labels where
  "ClangCppLabels = no_labels\<lparr>ActionType := ''compile'', Compiler := ''clang'', Lang := ''cpp''\<rparr>"

definition ClangCLCppLabels :: Labels where
  "ClangCLCppLabels = no_labels\<lparr>ActionType := ''compile'', Compiler := ''clang-cl'', Lang := ''cpp''\<rparr>"

definition NaClLabels :: Labels where
  "NaClLabels = no_labels\<lparr>ActionType := ''compile'', Compiler := ''nacl'', Lang := ''cpp''\<rparr>"

definition ClangLinkLabels :: Labels where
  "ClangLinkLabels = no_labels\<lparr>ActionType := ''link'', ActionTool := ''clang''\<rparr>"

definition NaClLinkLabels :: Labels where
  "NaClLinkLabels = no_labels\<lparr>ActionType := ''link'', ActionTool := ''nacl''\<rparr>"

definition LLVMArLabels :: Labels where
  "LLVMArLabels = no_labels\<lparr>ActionType := ''archive'', ActionTool := ''llvm''\<rparr>"

definition ClangLintLabels :: Labels where
  "ClangLintLabels = no_labels\<lparr>ActionType := ''lint'', Lang := ''cpp'', ActionTool := ''clang-tidy''\<rparr>"

definition HeaderAbiDumpLabels :: Labels where
  "HeaderAbiDumpLabels = no_labels\<lparr>ActionType := ''abi-dump'', ActionTool := ''header-abi-dumper''\<rparr>"

definition JavacLabels :: Labels where
  "JavacLabels = no_labels\<lparr>ActionType := ''compile'', Compiler := ''javac'', Lang := ''java''\<rparr>"

definition R8Labels :: Labels where
  "R8Labels = no_labels\<lparr>ActionType := ''compile'', Compiler := ''r8''\<rparr>"

definition D8Labels :: Labels where
  "D8Labels = no_labels\<lparr>ActionType := ''compile'', Compiler := ''d8''\<rparr>"

definition MetalavaLabels :: Labels where
  "MetalavaLabels = no_labels\<lparr>ActionType := ''compile'', Compiler := ''metalava'', Lang := ''java''\<rparr>"

definition SignAPKLabels :: Labels where
  "SignAPKLabels = no_labels\<lparr>ActionType := ''apksigning'', Compiler := ''signapkjar''\<rparr>"

definition TscLabels :: Labels where
  "TscLabels = no_labels\<lparr>ActionType := ''compile'', Compiler := ''tsc'', Lang := ''typescript''\<rparr>"

lemmas label_sets = ToolLabels_def ClangCppLabels_def ClangCLCppLabels_def NaClLabels_def
  ClangLinkLabels_def NaClLinkLabels_def LLVMArLabels_def ClangLintLabels_def
  HeaderAbiDumpLabels_def JavacLabels_def R8Labels_def D8Labels_def MetalavaLabels_def
  SignAPKLabels_def TscLabels_def no_labels_def

definition all_label_sets :: "Labels list" where
  "all_label_sets =
     [ToolLabels, ClangCppLabels, ClangCLCppLabels, NaClLabels, ClangLinkLabels, NaClLinkLabels,
      LLVMArLabels, ClangLintLabels, HeaderAbiDumpLabels, JavacLabels, R8Labels, D8Labels,
      MetalavaLabels, SignAPKLabels, TscLabels]"

section \<open>Maps and keys\<close>

definition FromMap :: "(string \<rightharpoonup> string) \<Rightarrow> Labels" where
  "FromMap l =
     (let res = no_labels;
          res = (case l actionType of Some v \<Rightarrow> res\<lparr>ActionType := v\<rparr> | None \<Rightarrow> res);
          res = (case l compiler of Some v \<Rightarrow> res\<lparr>Compiler := v\<rparr> | None \<Rightarrow> res);
          res = (case l lang of Some v \<Rightarrow> res\<lparr>Lang := v\<rparr> | None \<Rightarrow> res);
          res = (case l actionTool of Some v \<Rightarrow> res\<lparr>ActionTool := v\<rparr> | None \<Rightarrow> res)
      in res)"

definition ToMap :: "Labels \<Rightarrow> (string \<rightharpoonup> string)" where
  "ToMap l =
     (let res = Map.empty;
          res = (if ActionType l \<noteq> [] then res(actionType \<mapsto> ActionType l) else res);
          res = (if Compiler l \<noteq> [] then res(compiler \<mapsto> Compiler l) else res);
          res = (if Lang l \<noteq> [] then res(lang \<mapsto> Lang l) else res);
          res = (if ActionTool l \<noteq> [] then res(actionTool \<mapsto> ActionTool l) else res)
      in res)"

definition ToKey :: "(string \<times> string) list \<Rightarrow> string" where
  "ToKey entries =
     ''['' @ join_with '','' (sort (map (\<lambda>(k, v). k @ ''='' @ v) entries)) @ '']''"

text \<open>\<open>sha8\<close> is the first eight hex digits of the SHA-256 of a string; the results are kept in
  a process-wide cache keyed by the label key.\<close>

definition ToDigest ::
  "(string \<Rightarrow> string) \<Rightarrow> (string \<Rightarrow> ('e, string) res \<Rightarrow> ('e, string) res) \<Rightarrow>
   (string \<times> string) list \<Rightarrow> ('e, string) res" where
  "ToDigest sha8 loadOrStore entries =
     (let labelsKey = ToKey entries in loadOrStore labelsKey (Ok (sha8 labelsKey)))"

section \<open>Lemmas\<close>

lemma label_keys_distinct [simp]:
  "actionType \<noteq> compiler" "actionType \<noteq> lang" "actionType \<noteq> actionTool"
  "compiler \<noteq> lang" "compiler \<noteq> actionTool" "lang \<noteq> actionTool"
  "compiler \<noteq> actionType" "lang \<noteq> actionType" "actionTool \<noteq> actionType"
  "lang \<noteq> compiler" "actionTool \<noteq> compiler" "actionTool \<noteq> lang"
  by (simp_all add: label_keys)

lemma ToMap_apply:
  "ToMap l actionType = (if ActionType l \<noteq> [] then Some (ActionType l) else None)"
  "ToMap l compiler = (if Compiler l \<noteq> [] then Some (Compiler l) else None)"
  "ToMap l lang = (if Lang l \<noteq> [] then Some (Lang l) else None)"
  "ToMap l actionTool = (if ActionTool l \<noteq> [] then Some (ActionTool l) else None)"
  by (simp_all add: ToMap_def Let_def)

lemma FromMap_fields:
  "ActionType (FromMap m) = case_option [] id (m actionType)"
  "Compiler (FromMap m) = case_option [] id (m compiler)"
  "Lang (FromMap m) = case_option [] id (m lang)"
  "ActionTool (FromMap m) = case_option [] id (m actionTool)"
  by (simp_all add: FromMap_def Let_def no_labels_def split: option.splits)

lemma Labels_eqI:
  fixes a b :: Labels
  assumes "ActionType a = ActionType b" "Compiler a = Compiler b" "Lang a = Lang b"
    "ActionTool a = ActionTool b"
  shows "a = b"
  using assms by simp

lemma FromMap_ToMap_id: "FromMap (ToMap l) = l"
  by (rule Labels_eqI) (simp_all add: FromMap_fields ToMap_apply)

lemma ToKey_entries:
  assumes "map_entries m es" and "map_entries m es'"
  shows "ToKey es = ToKey es'"
  using sort_map_entries [OF assms, of "\<lambda>(k, v). k @ ''='' @ v"] by (simp add: ToKey_def)

lemma all_label_sets_distinct: "distinct all_label_sets"
  by (simp add: all_label_sets_def label_sets)

section \<open>Properties\<close>

text \<open>a Labels value survives the round trip through its map form, so the fifteen label
  sets the dispatcher switches on stay pairwise different as label maps.\<close>

theorem FromMap_ToMap_distinct:
  "FromMap (ToMap l) = l \<and> distinct (map ToMap all_label_sets)"
proof -
  have "inj ToMap" by (metis FromMap_ToMap_id injI)
  then show ?thesis
    by (simp add: FromMap_ToMap_id distinct_map all_label_sets_distinct inj_on_subset [of _ UNIV])
qed

text \<open>the key and the digest of a label map depend on the map only, not on the order
  in which Go's map iteration visits it, and the cached digest is the hash of the key.\<close>

theorem ToDigest_order_independent:
  assumes "map_entries m es" and "map_entries m es'"
    and "transparent_cache loadOrStore (\<lambda>k. Ok (sha8 k))"
  shows "ToKey es = ToKey es' \<and> ToDigest sha8 loadOrStore es = ToDigest sha8 loadOrStore es' \<and>
         ToDigest sha8 loadOrStore es = Ok (sha8 (ToKey es))"
proof -
  have "ToKey es = ToKey es'" by (rule ToKey_entries [OF assms(1,2)])
  then show ?thesis
    using assms(3) by (simp add: ToDigest_def Let_def transparent_cache_def)
qed

theorem ToDigest_order_independent_witness:
  "ToKey [(''lang'', ''cpp''), (''type'', ''tool'')] = ToKey [(''type'', ''tool''), (''lang'', ''cpp'')] \<and>
   (ToDigest rev (\<lambda>k v. v) [(''lang'', ''cpp''), (''type'', ''tool'')] :: (unit, string) res) =
     ToDigest rev (\<lambda>k v. v) [(''type'', ''tool''), (''lang'', ''cpp'')] \<and>
   (ToDigest rev (\<lambda>k v. v) [(''lang'', ''cpp''), (''type'', ''tool'')] :: (unit, string) res) =
     Ok (rev (ToKey [(''lang'', ''cpp''), (''type'', ''tool'')]))"
  by (rule ToDigest_order_independent [of "[''type'' \<mapsto> ''tool'', ''lang'' \<mapsto> ''cpp'']"])
    (auto simp: map_entries_def fun_eq_iff transparent_cache_def)

end
