(* ===== verification/ArgsScanner.thy ===== *)
theory ArgsScanner
  imports GoPath
begin

text \<open>
  The command line scanner and what sits directly on it: package \<open>flags\<close>
  (\<open>inputprocessor/flags/flags.go\<close>), package \<open>args\<close> (\<open>inputprocessor/args/scanner.go\<close>),
  package \<open>rsp\<close> (\<open>rsp/rsp.go\<close>) and \<open>flagsparser.CommandFlags\<close>
  (\<open>inputprocessor/flagsparser/flagsparser.go\<close>). The scanner is a record passed through;
  a slice expression beyond the remaining arguments is \<open>Panic\<close>, as in Go. Reading a file is
  an argument (\<open>readFile\<close>). \<open>ScanLoop\<close> is the loop \<open>for s.HasNext() { ... }\<close> every flag
  parser runs; it terminates because every flag consumes at least one argument.
\<close>

section \<open>Package flags\<close>

record Flag =
  Key :: string
  Value :: string
  Joined :: bool
  originalKey :: string

definition OriginalKey :: "Flag \<Rightarrow> string" where
  "OriginalKey f = (if originalKey f \<noteq> [] then originalKey f else Key f)"

definition NewFlag :: "string \<Rightarrow> string \<Rightarrow> string \<Rightarrow> bool \<Rightarrow> Flag" where
  "NewFlag key origKey val joined =
     \<lparr>Key = key, Value = val, Joined = joined, originalKey = origKey\<rparr>"

text \<open>The literal \<open>&flags.Flag{Value: v}\<close>.\<close>

definition value_flag :: "string \<Rightarrow> Flag" where
  "value_flag v = \<lparr>Key = [], Value = v, Joined = False, originalKey = []\<rparr>"

record CommandFlags =
  ExecutablePath :: string
  TargetFilePaths :: "string list"
  Dependencies :: "string list"
  EmittedDependencyFile :: string
  OutputFilePaths :: "string list"
  OutputDirPaths :: "string list"
  IncludeDirPaths :: "string list"
  VirtualDirectories :: "string list"
  WorkingDirectory :: string
  ExecRoot :: string
  Flags :: "Flag list"

definition zero_flags :: CommandFlags where
  "zero_flags = \<lparr>ExecutablePath = [], TargetFilePaths = [], Dependencies = [],
     EmittedDependencyFile = [], OutputFilePaths = [], OutputDirPaths = [], IncludeDirPaths = [],
     VirtualDirectories = [], WorkingDirectory = [], ExecRoot = [], Flags = []\<rparr>"

definition Copy :: "CommandFlags \<Rightarrow> CommandFlags" where
  "Copy c = zero_flags\<lparr>
     ExecutablePath := ExecutablePath c,
     WorkingDirectory := WorkingDirectory c,
     ExecRoot := ExecRoot c,
     IncludeDirPaths := IncludeDirPaths c,
     TargetFilePaths := TargetFilePaths c,
     OutputFilePaths := OutputFilePaths c,
     OutputDirPaths := OutputDirPaths c,
     EmittedDependencyFile := EmittedDependencyFile c,
     Flags := Flags c\<rparr>"

section \<open>Package args\<close>

record FlagResult =
  ResArgs :: "string list"
  NormalizedKey :: string
  ResOriginalKey :: string
  Values :: "string list"
  ResJoined :: bool

record PrefixOption =
  Prefix :: string
  NumArgs :: int

record Scanner =
  Args :: "string list"
  ScanFlags :: "string \<rightharpoonup> int"
  JoinedOpts :: "PrefixOption list"
  Normalized :: "string \<rightharpoonup> string"
  PrevResult :: FlagResult
  CurResult :: FlagResult

definition zero_result :: FlagResult where
  "zero_result = \<lparr>ResArgs = [], NormalizedKey = [], ResOriginalKey = [], Values = [], ResJoined = False\<rparr>"

definition new_scanner ::
  "string list \<Rightarrow> (string \<rightharpoonup> int) \<Rightarrow> PrefixOption list \<Rightarrow> (string \<rightharpoonup> string) \<Rightarrow> Scanner" where
  "new_scanner as fl js nm = \<lparr>Args = as, ScanFlags = fl, JoinedOpts = js, Normalized = nm,
     PrevResult = zero_result, CurResult = zero_result\<rparr>"

definition HasNext :: "Scanner \<Rightarrow> bool" where
  "HasNext s \<longleftrightarrow> 0 < length (Args s)"

definition normalizedFlag :: "Scanner \<Rightarrow> string \<Rightarrow> string" where
  "normalizedFlag s flag = (case Normalized s flag of Some n \<Rightarrow> n | None \<Rightarrow> flag)"

text \<open>\<open>args, s.Args = s.Args[:n+1], s.Args[n+1:]\<close>, or all arguments when \<open>n\<close> is negative;
  \<open>None\<close> is the panic of a slice expression out of range.\<close>

definition take_args :: "int \<Rightarrow> string list \<Rightarrow> (string list \<times> string list) option" where
  "take_args n as =
     (if n < 0 then Some (as, [])
      else if length as < nat n + 1 then None
      else Some (take (nat n + 1) as, drop (nat n + 1) as))"

definition updatedFlag ::
  "Scanner \<Rightarrow> string list \<Rightarrow> string \<Rightarrow> string \<Rightarrow> string list \<Rightarrow> string list \<Rightarrow> bool \<Rightarrow> FlagResult \<times> Scanner"
  where
  "updatedFlag s rest normalizedKey origKey args vals joined =
     (let r = \<lparr>ResArgs = args, NormalizedKey = normalizedKey, ResOriginalKey = origKey,
               Values = vals, ResJoined = joined\<rparr>
      in (r, s\<lparr>Args := rest, PrevResult := CurResult s, CurResult := r\<rparr>))"

definition ReadNextFlag :: "Scanner \<Rightarrow> (FlagResult \<times> Scanner) option" where
  "ReadNextFlag s =
     (case Args s of
        [] \<Rightarrow> None
      | flag # tail \<Rightarrow>
          (case ScanFlags s (normalizedFlag s flag) of
             Some numArgs \<Rightarrow>
               (case take_args numArgs (Args s) of
                  None \<Rightarrow> None
                | Some (args, rest) \<Rightarrow>
                    Some (updatedFlag s rest (normalizedFlag s flag) flag args
                            (if numArgs > 0 then tl args else []) False))
           | None \<Rightarrow>
               (case find (\<lambda>f. prefix (Prefix f) flag) (JoinedOpts s) of
                  Some f \<Rightarrow>
                    (case take_args (NumArgs f) (Args s) of
                       None \<Rightarrow> None
                     | Some (args, rest) \<Rightarrow>
                         Some (updatedFlag s rest (normalizedFlag s (Prefix f)) (Prefix f) args
                                 (trim_prefix (Prefix f) flag # tl args) True))
                | None \<Rightarrow>
                    if prefix ''-'' flag
                    then Some (updatedFlag s tail flag flag [flag] [] False)
                    else Some (updatedFlag s tail [] [] [flag] [flag] False))))"

definition NextFlag :: "Scanner \<Rightarrow> ((string \<times> string list \<times> string list \<times> bool) \<times> Scanner) option" where
  "NextFlag s =
     (case ReadNextFlag s of
        None \<Rightarrow> None
      | Some (r, s') \<Rightarrow> Some ((NormalizedKey r, ResArgs r, Values r, ResJoined r), s'))"

definition LookAhead :: "Scanner \<Rightarrow> (string \<times> Scanner) option" where
  "LookAhead s =
     (case NextFlag s of
        None \<Rightarrow> None
      | Some ((flag, args, _, _), s') \<Rightarrow> Some (flag, s'\<lparr>Args := args @ Args s'\<rparr>))"

section \<open>The scanner's laws\<close>

lemma take_args_lossless:
  "take_args n as = Some (xs, ys) \<Longrightarrow> as \<noteq> [] \<Longrightarrow> xs @ ys = as \<and> xs \<noteq> []"
  by (auto simp: take_args_def split: if_splits)

lemma take_args_None: "take_args n as = None \<longleftrightarrow> 0 \<le> n \<and> int (length as) \<le> n"
  by (auto simp: take_args_def)

lemma take_args_Some_len: "take_args n (x # xs) = Some r \<Longrightarrow> n \<le> int (length xs)"
  by (auto simp: take_args_def split: if_splits)

text \<open>How many further arguments the flag at the head takes (negative: all).\<close>

definition flag_arity :: "Scanner \<Rightarrow> string \<Rightarrow> int" where
  "flag_arity s flag =
     (case ScanFlags s (normalizedFlag s flag) of
        Some n \<Rightarrow> n
      | None \<Rightarrow> (case find (\<lambda>f. prefix (Prefix f) flag) (JoinedOpts s) of
                  Some f \<Rightarrow> NumArgs f | None \<Rightarrow> 0))"

lemma ReadNextFlag_step:
  assumes "ReadNextFlag s = Some (r, s')"
  shows "ResArgs r @ Args s' = Args s \<and> ResArgs r \<noteq> [] \<and>
         s' = s\<lparr>Args := Args s', PrevResult := CurResult s, CurResult := r\<rparr>"
proof (cases "Args s")
  case Nil
  with assms show ?thesis by (simp add: ReadNextFlag_def)
next
  case (Cons flag tail)
  note take = take_args_lossless [of _ "flag # tail"]
  show ?thesis
    using assms Cons take
    by (fastforce simp: ReadNextFlag_def updatedFlag_def Let_def
        split: option.splits if_splits prod.splits)
qed

lemma ReadNextFlag_decreases:
  "ReadNextFlag s = Some (r, s') \<Longrightarrow> length (Args s') < length (Args s)"
  using ReadNextFlag_step [of s r s'] by (metis length_append length_greater_0_conv less_add_same_cancel2)

lemma ReadNextFlag_None:
  "ReadNextFlag s = None \<longleftrightarrow>
   Args s = [] \<or> int (length (tl (Args s))) < flag_arity s (hd (Args s))"
  by (auto simp: ReadNextFlag_def flag_arity_def take_args_None
      dest: take_args_Some_len split: list.splits option.splits)

text \<open>What a read does depends on the arguments and the tables only, not on earlier results.\<close>

lemma ReadNextFlag_results:
  "ReadNextFlag (s\<lparr>PrevResult := p, CurResult := c\<rparr>) =
   map_option (\<lambda>(r, s'). (r, s'\<lparr>PrevResult := c\<rparr>)) (ReadNextFlag s)"
  by (auto simp: ReadNextFlag_def updatedFlag_def normalizedFlag_def Let_def
      split: list.splits option.splits)

text \<open>What is consumed: the flag and as many arguments as its arity says, or all there are.\<close>

lemma ReadNextFlag_consumes:
  assumes "ReadNextFlag s = Some (r, s')"
  shows "ResArgs r = (if flag_arity s (hd (Args s)) < 0 then Args s else take (nat (flag_arity s (hd (Args s))) + 1) (Args s))"
  using assms
  by (auto simp: ReadNextFlag_def flag_arity_def take_args_def updatedFlag_def Let_def
      split: list.splits option.splits if_splits)

section \<open>The scan loop\<close>

lemma res_bind_cong [fundef_cong]:
  "m = m' \<Longrightarrow> (\<And>x. m' = Ok x \<Longrightarrow> f x = f' x) \<Longrightarrow> res_bind m f = res_bind m' f'"
  by (cases m') auto

text \<open>The handler sees the scanner after the read (its \<open>CurResult\<close> and \<open>PrevResult\<close>) and
  updates the parser's own state.\<close>

function ScanLoop :: "(Scanner \<Rightarrow> 'st \<Rightarrow> ('e, 'st) res) \<Rightarrow> Scanner \<Rightarrow> 'st \<Rightarrow> ('e, 'st) res" where
  "ScanLoop handle s st =
     (if \<not> HasNext s then Ok st
      else case ReadNextFlag s of
             None \<Rightarrow> Panic
           | Some (r, s') \<Rightarrow> res_bind (handle s' st) (ScanLoop handle s'))"
  by pat_completeness auto
termination
  by (relation "measure (\<lambda>(h, s, st). length (Args s))") (auto dest: ReadNextFlag_decreases)

declare ScanLoop.simps [simp del]

lemma ScanLoop_done: "\<not> HasNext s \<Longrightarrow> ScanLoop handle s st = Ok st"
  by (simp add: ScanLoop.simps)

lemma ScanLoop_step:
  "HasNext s \<Longrightarrow> ReadNextFlag s = Some (r, s') \<Longrightarrow>
   ScanLoop handle s st = res_bind (handle s' st) (ScanLoop handle s')"
  by (simp add: ScanLoop.simps [of handle s])

lemma ScanLoop_step_Ok:
  "HasNext s \<Longrightarrow> ScanLoop handle s st = Ok st' \<longleftrightarrow>
   (\<exists>r s1 st1. ReadNextFlag s = Some (r, s1) \<and> handle s1 st = Ok st1 \<and> ScanLoop handle s1 st1 = Ok st')"
  by (auto simp: ScanLoop.simps [of handle s] res_bind_eq_Ok split: option.splits)

lemma scan_induct [case_names stop step]:
  assumes "\<And>s st. \<not> HasNext s \<Longrightarrow> P s st"
    and "\<And>s st. HasNext s \<Longrightarrow> (\<And>r s' st'. ReadNextFlag s = Some (r, s') \<Longrightarrow> P s' st') \<Longrightarrow> P s st"
  shows "P s st"
proof (induction s arbitrary: st rule: measure_induct_rule [of "\<lambda>s. length (Args s)"])
  case (less s)
  show ?case
    using assms(1) [of s st] assms(2) [of s st] less.IH ReadNextFlag_decreases by blast
qed

text \<open>The interface between the loop and a flag handler: a transitive relation every
  handled flag keeps between the state before and after. The loop keeps it over the whole
  command line.\<close>

locale flag_handler =
  fixes handle :: "Scanner \<Rightarrow> 'st \<Rightarrow> ('e, 'st) res"
    and extends :: "'st \<Rightarrow> 'st \<Rightarrow> bool"
  assumes extends_refl: "extends st st"
    and extends_trans: "extends st st' \<Longrightarrow> extends st' st'' \<Longrightarrow> extends st st''"
    and handle_extends: "handle s st = Ok st' \<Longrightarrow> extends st st'"
begin

lemma scan_extends: "ScanLoop handle s st = Ok st' \<Longrightarrow> extends st st'"
proof (induction s st rule: scan_induct)
  case (stop s st)
  then show ?case by (simp add: ScanLoop_done extends_refl)
next
  case (step s st)
  then obtain r s1 st1 where r: "ReadNextFlag s = Some (r, s1)" and h: "handle s1 st = Ok st1"
    and l: "ScanLoop handle s1 st1 = Ok st'"
    by (auto simp: ScanLoop_step_Ok)
  show ?case
    using step.IH [OF r l] handle_extends [OF h] extends_trans by blast
qed

end

text \<open>The relation the parsers keep: the command's identity stays and no collected entry is
  dropped.\<close>

definition cmd_extends :: "CommandFlags \<Rightarrow> CommandFlags \<Rightarrow> bool" where
  "cmd_extends f f' \<longleftrightarrow>
     ExecutablePath f' = ExecutablePath f \<and> ExecRoot f' = ExecRoot f \<and>
     WorkingDirectory f' = WorkingDirectory f \<and>
     prefix (TargetFilePaths f) (TargetFilePaths f') \<and>
     prefix (Dependencies f) (Dependencies f') \<and>
     prefix (OutputFilePaths f) (OutputFilePaths f') \<and>
     prefix (OutputDirPaths f) (OutputDirPaths f')"

lemma cmd_extends_refl [simp, intro]: "cmd_extends f f"
  by (simp add: cmd_extends_def)

lemma cmd_extends_trans: "cmd_extends f f' \<Longrightarrow> cmd_extends f' f'' \<Longrightarrow> cmd_extends f f''"
  by (auto simp: cmd_extends_def intro: prefix_order.trans)

text \<open>Every normal outcome of \<open>r\<close> extends \<open>f\<close>; syntax-directed rules for handlers.\<close>

definition all_extend :: "CommandFlags \<Rightarrow> ('e, CommandFlags) res \<Rightarrow> bool" where
  "all_extend f r \<longleftrightarrow> (\<forall>f'. r = Ok f' \<longrightarrow> cmd_extends f f')"

lemma all_extend_Ok [intro]: "cmd_extends f f' \<Longrightarrow> all_extend f (Ok f')"
  by (simp add: all_extend_def)

lemma all_extend_if [intro]: "all_extend f a \<Longrightarrow> all_extend f b \<Longrightarrow> all_extend f (if c then a else b)"
  by simp

lemma all_extend_bind [intro]:
  "(\<And>x. m = Ok x \<Longrightarrow> all_extend f (g x)) \<Longrightarrow> all_extend f (res_bind m g)"
  by (auto simp: all_extend_def res_bind_eq_Ok)

lemma all_extendD: "all_extend f r \<Longrightarrow> r = Ok f' \<Longrightarrow> cmd_extends f f'"
  by (simp add: all_extend_def)

lemma flag_handlerI:
  "(\<And>s f. all_extend f (handle s f)) \<Longrightarrow> flag_handler handle cmd_extends"
  by unfold_locales (auto intro: cmd_extends_trans dest: all_extendD)

text \<open>The results a scanner yields to the end (\<open>None\<close>: a read panics), and a handler run over
  them. The loop over a handler that looks at the current result and the tables only is this
  fold.\<close>

function read_all :: "Scanner \<Rightarrow> FlagResult list option" where
  "read_all s =
     (if \<not> HasNext s then Some []
      else case ReadNextFlag s of
             None \<Rightarrow> None
           | Some (r, s') \<Rightarrow> (case read_all s' of None \<Rightarrow> None | Some rs \<Rightarrow> Some (r # rs)))"
  by pat_completeness auto
termination
  by (relation "measure (\<lambda>s. length (Args s))") (auto dest: ReadNextFlag_decreases)

declare read_all.simps [simp del]

fun fold_res :: "('r \<Rightarrow> 'st \<Rightarrow> ('e, 'st) res) \<Rightarrow> 'r list \<Rightarrow> 'st \<Rightarrow> ('e, 'st) res" where
  "fold_res g [] st = Ok st"
| "fold_res g (r # rs) st = res_bind (g r st) (fold_res g rs)"

definition same_tables :: "Scanner \<Rightarrow> Scanner \<Rightarrow> bool" where
  "same_tables s s' \<longleftrightarrow> ScanFlags s' = ScanFlags s \<and> JoinedOpts s' = JoinedOpts s \<and> Normalized s' = Normalized s"

lemma same_tables_refl [simp]: "same_tables s s"
  by (simp add: same_tables_def)

lemma ReadNextFlag_next:
  assumes "ReadNextFlag s = Some (r, s')"
  shows "same_tables s s'" and "CurResult s' = r"
proof -
  have "s' = s\<lparr>Args := Args s', PrevResult := CurResult s, CurResult := r\<rparr>"
    using ReadNextFlag_step [OF assms] by blast
  then have "\<exists>as. s' = s\<lparr>Args := as, PrevResult := CurResult s, CurResult := r\<rparr>" by blast
  then show "same_tables s s'" and "CurResult s' = r" by (auto simp: same_tables_def)
qed

lemma ScanLoop_fold:
  assumes "\<And>s' st. same_tables s s' \<Longrightarrow> handle s' st = g (CurResult s') st"
  shows "ScanLoop handle s st = Ok st' \<longleftrightarrow> (\<exists>rs. read_all s = Some rs \<and> fold_res g rs st = Ok st')"
  using assms
proof (induction s st rule: scan_induct)
  case (stop s st)
  then show ?case by (simp add: ScanLoop_done read_all.simps)
next
  case (step s st)
  show ?case
  proof (cases "ReadNextFlag s")
    case None
    then show ?thesis using step.hyps by (simp add: ScanLoop.simps read_all.simps)
  next
    case (Some rs1)
    then obtain r s1 where r: "ReadNextFlag s = Some (r, s1)" by (cases rs1) auto
    have t: "same_tables s s1" "CurResult s1 = r" using ReadNextFlag_next [OF r] by auto
    then have h: "handle s1 st = g r st" using step.prems by auto
    have g1: "same_tables s1 s2 \<Longrightarrow> handle s2 st2 = g (CurResult s2) st2" for s2 st2
      using step.prems [of s2 st2] t by (simp add: same_tables_def)
    have IH: "ScanLoop handle s1 st1 = Ok st' \<longleftrightarrow>
        (\<exists>rs. read_all s1 = Some rs \<and> fold_res g rs st1 = Ok st')" for st1
      by (rule step.IH [OF r g1])
    have ra: "read_all s = (case read_all s1 of None \<Rightarrow> None | Some rs \<Rightarrow> Some (r # rs))"
      using step.hyps r by (subst read_all.simps) simp
    show ?thesis
      unfolding ScanLoop_step [OF step.hyps r] h ra
      by (auto simp: res_bind_eq_Ok IH split: option.splits)
  qed
qed

section \<open>Package rsp\<close>

datatype read_error = NotExist | ReadFailed

text \<open>\<open>readFile\<close> is \<open>os.ReadFile\<close>.\<close>

definition RspParse :: "(string \<Rightarrow> (read_error, string) res) \<Rightarrow> string \<Rightarrow> (read_error, string list) res" where
  "RspParse readFile path =
     res_bind (readFile path) (\<lambda>data. Ok (map (trim_chars (CHR 0x27 # CHR 0x22 # [])) (str_fields data)))"

text \<open>\<open>mk\<close> turns a read error into the error type of the handler (Go's \<open>error\<close>).\<close>

definition ParseWithFunc ::
  "(string \<Rightarrow> (read_error, string) res) \<Rightarrow> (read_error \<Rightarrow> 'e) \<Rightarrow> string \<Rightarrow> Scanner \<Rightarrow>
   (Scanner \<Rightarrow> 'st \<Rightarrow> ('e, 'st) res) \<Rightarrow> 'st \<Rightarrow> ('e, 'st) res" where
  "ParseWithFunc readFile mk path scanTemplate argHandler st =
     (case RspParse readFile path of
        Err e \<Rightarrow> Err (mk e)
      | Panic \<Rightarrow> Panic
      | Ok res \<Rightarrow>
          ScanLoop argHandler
            (new_scanner res (ScanFlags scanTemplate) (JoinedOpts scanTemplate) (Normalized scanTemplate))
            st)"

lemma str_fields_words: "w \<in> set (str_fields s) \<Longrightarrow> w \<noteq> [] \<and> (\<forall>c \<in> set w. \<not> is_space c)"
proof -
  let ?s = "map (\<lambda>c. if is_space c then CHR '' '' else c) s"
  assume a: "w \<in> set (str_fields s)"
  then have w: "w \<noteq> []" "w \<in> set (split_on (CHR '' '') ?s)" by (auto simp: str_fields_def)
  have sub: "x \<in> set (split_on c xs) \<Longrightarrow> set x \<subseteq> set xs" for x c and xs :: string
    by (induction xs arbitrary: x) (auto split: if_splits list.splits, fastforce+)
  have "CHR '' '' \<notin> set w" using split_on_elems [OF w(2)] .
  moreover have "set w \<subseteq> set ?s" using sub [OF w(2)] .
  ultimately have "\<forall>c \<in> set w. \<not> is_space c" by (auto split: if_splits)
  with w show ?thesis by blast
qed

section \<open>flagsparser.CommandFlags\<close>

datatype flags_error = NoCommand

definition command_flags_step :: "Scanner \<Rightarrow> CommandFlags \<Rightarrow> (flags_error, CommandFlags) res" where
  "command_flags_step s res =
     Ok (res\<lparr>Flags := Flags res @ value_flag (NormalizedKey (CurResult s)) #
                     map value_flag (Values (CurResult s))\<rparr>)"

definition ParseCommandFlags :: "string list \<Rightarrow> string \<Rightarrow> string \<Rightarrow> (flags_error, CommandFlags) res" where
  "ParseCommandFlags command workingDir execRoot =
     (if length command = 0 then Err NoCommand
      else ScanLoop command_flags_step
             (new_scanner (tl command) Map.empty [] Map.empty)
             (zero_flags\<lparr>ExecutablePath := hd command, WorkingDirectory := workingDir,
                         ExecRoot := execRoot\<rparr>))"

section \<open>Whole command lines\<close>

text \<open>A handler that records the consumed pieces.\<close>

definition collect_args :: "Scanner \<Rightarrow> string list list \<Rightarrow> (unit, string list list) res" where
  "collect_args s acc = Ok (acc @ [ResArgs (CurResult s)])"

lemma collect_args_scan:
  "ScanLoop collect_args s acc = Ok xs \<Longrightarrow>
   \<exists>ys. xs = acc @ ys \<and> concat ys = Args s \<and> [] \<notin> set ys"
proof (induction s acc arbitrary: xs rule: scan_induct)
  case (stop s acc)
  then show ?case by (auto simp: ScanLoop_done HasNext_def)
next
  case (step s acc)
  then obtain r s1 st1 where r: "ReadNextFlag s = Some (r, s1)" and st1: "collect_args s1 acc = Ok st1"
    and "ScanLoop collect_args s1 st1 = Ok xs"
    by (auto simp: ScanLoop_step_Ok)
  then have l: "ScanLoop collect_args s1 (acc @ [ResArgs (CurResult s1)]) = Ok xs"
    by (simp add: collect_args_def)
  obtain ys where ys: "xs = (acc @ [ResArgs (CurResult s1)]) @ ys" "concat ys = Args s1" "[] \<notin> set ys"
    using step.IH [OF r l] by blast
  have "ResArgs r @ Args s1 = Args s" "ResArgs r \<noteq> []" "CurResult s1 = r"
    using ReadNextFlag_step [OF r] by (auto, metis Scanner.select_convs(6) Scanner.surjective Scanner.update_convs(6))
  with ys show ?case by (intro exI [of _ "ResArgs r # ys"]) auto
qed

text \<open>What the parser without tables makes of the arguments.\<close>

definition generic_flags :: "string list \<Rightarrow> Flag list" where
  "generic_flags as =
     concat (map (\<lambda>a. if prefix ''-'' a then [value_flag a] else [value_flag [], value_flag a]) as)"

lemma read_plain:
  "ReadNextFlag (s\<lparr>Args := a # as, ScanFlags := Map.empty, JoinedOpts := [], Normalized := Map.empty\<rparr>) =
   Some (if prefix ''-'' a
         then updatedFlag (s\<lparr>Args := a # as, ScanFlags := Map.empty, JoinedOpts := [], Normalized := Map.empty\<rparr>) as a a [a] [] False
         else updatedFlag (s\<lparr>Args := a # as, ScanFlags := Map.empty, JoinedOpts := [], Normalized := Map.empty\<rparr>) as [] [] [a] [a] False)"
  by (simp add: ReadNextFlag_def)

lemma scan_plain:
  "ScanLoop command_flags_step (s\<lparr>Args := as, ScanFlags := Map.empty, JoinedOpts := [], Normalized := Map.empty\<rparr>) f =
   Ok (f\<lparr>Flags := Flags f @ generic_flags as\<rparr>)"
proof (induction as arbitrary: s f)
  case Nil
  then show ?case by (simp add: ScanLoop_done HasNext_def generic_flags_def)
next
  case (Cons a as)
  have h: "HasNext (s\<lparr>Args := a # as, ScanFlags := Map.empty, JoinedOpts := [], Normalized := Map.empty\<rparr>)"
    by (simp add: HasNext_def)
  let ?r = "if prefix ''-'' a
     then \<lparr>ResArgs = [a], NormalizedKey = a, ResOriginalKey = a, Values = [], ResJoined = False\<rparr>
     else \<lparr>ResArgs = [a], NormalizedKey = [], ResOriginalKey = [], Values = [a], ResJoined = False\<rparr>"
  have r: "ReadNextFlag (s\<lparr>Args := a # as, ScanFlags := Map.empty, JoinedOpts := [], Normalized := Map.empty\<rparr>) =
    Some (?r, (s\<lparr>PrevResult := CurResult s, CurResult := ?r\<rparr>)
                 \<lparr>Args := as, ScanFlags := Map.empty, JoinedOpts := [], Normalized := Map.empty\<rparr>)"
    by (simp add: read_plain updatedFlag_def Let_def)
  show ?case
    unfolding ScanLoop_step [OF h r]
    by (cases "prefix ''-'' a") (simp_all add: command_flags_step_def Cons.IH generic_flags_def)
qed

section \<open>Properties\<close>

text \<open>C13: reading a flag loses nothing and always makes progress: with arguments left, at least as many
  as the arity of the flag at the head asks for, it consumes the flag and that many arguments (for a
  negative arity all of them), leaves the others, keeps the previous result and does not touch the
  tables. It panics exactly when no argument is left or the arity exceeds what remains.\<close>

theorem ReadNextFlag_lossless_or_panics:
  "case ReadNextFlag s of
     Some (r, s') \<Rightarrow> Args s \<noteq> [] \<and> flag_arity s (hd (Args s)) \<le> int (length (tl (Args s))) \<and>
       ResArgs r = (if flag_arity s (hd (Args s)) < 0 then Args s else take (nat (flag_arity s (hd (Args s))) + 1) (Args s)) \<and>
       ResArgs r @ Args s' = Args s \<and> ResArgs r \<noteq> [] \<and>
       s' = s\<lparr>Args := Args s', PrevResult := CurResult s, CurResult := r\<rparr>
   | None \<Rightarrow> Args s = [] \<or> int (length (tl (Args s))) < flag_arity s (hd (Args s))"
proof (cases "ReadNextFlag s")
  case None
  then show ?thesis using ReadNextFlag_None [of s] by simp
next
  case (Some x)
  obtain r s' where x: "x = (r, s')" by fastforce
  have "Args s \<noteq> [] \<and> flag_arity s (hd (Args s)) \<le> int (length (tl (Args s)))"
    using Some ReadNextFlag_None [of s] by auto
  then show ?thesis using ReadNextFlag_step [of s r s'] ReadNextFlag_consumes [of s r s'] Some x by simp
qed

text \<open>looking ahead leaves the remaining arguments as they were, and names the
  normalized key the next read really returns.\<close>

theorem LookAhead_peeks:
  assumes "LookAhead s = Some (flag, s1)"
  shows "Args s1 = Args s \<and>
    (\<exists>r s2. ReadNextFlag s1 = Some (r, s2) \<and> NormalizedKey r = flag \<and> Args s2 = drop (length (ResArgs r)) (Args s))"
proof -
  obtain r s' where r: "ReadNextFlag s = Some (r, s')" and f: "flag = NormalizedKey r"
    and s1: "s1 = s'\<lparr>Args := ResArgs r @ Args s'\<rparr>"
    using assms by (auto simp: LookAhead_def NextFlag_def split: option.splits)
  have st: "ResArgs r @ Args s' = Args s"
    "s' = s\<lparr>Args := Args s', PrevResult := CurResult s, CurResult := r\<rparr>"
    using ReadNextFlag_step [OF r] by auto
  have s1': "s1 = s\<lparr>PrevResult := CurResult s, CurResult := r\<rparr>"
    unfolding s1 st(1) by (subst st(2)) simp
  have "ReadNextFlag s1 = Some (r, s'\<lparr>PrevResult := r\<rparr>)"
    unfolding s1' by (simp add: ReadNextFlag_results r)
  moreover have "Args s' = drop (length (ResArgs r)) (Args s)"
    by (simp add: st(1) [symmetric])
  ultimately show ?thesis using f s1' by auto
qed

theorem LookAhead_peeks_witness:
  "\<exists>s1. LookAhead (new_scanner [''-o'', ''a.o'', ''b.c''] [''-o'' \<mapsto> 1] [] Map.empty) = Some (''-o'', s1) \<and>
        Args s1 = [''-o'', ''a.o'', ''b.c'']"
proof -
  let ?s = "new_scanner [''-o'', ''a.o'', ''b.c''] [''-o'' \<mapsto> 1] [] Map.empty"
  have "\<exists>s1. LookAhead ?s = Some (''-o'', s1)"
    by (simp add: LookAhead_def NextFlag_def ReadNextFlag_def new_scanner_def normalizedFlag_def
        take_args_def updatedFlag_def Let_def)
  then show ?thesis
    using LookAhead_peeks [of ?s "''-o''"] by (auto simp: new_scanner_def)
qed

text \<open>the scan loop hands every argument of the command line to the handler exactly once
  and in order: the consumed pieces, concatenated, are the command line.\<close>

theorem ScanLoop_covers_command_line:
  assumes "ScanLoop collect_args s [] = Ok xs"
  shows "concat xs = Args s \<and> [] \<notin> set xs"
  using collect_args_scan [OF assms] by auto

theorem ScanLoop_covers_command_line_witness:
  "concat [[''-o'', ''a.o''], [''-Wall''], [''b.c'']] = [''-o'', ''a.o'', ''-Wall'', ''b.c''] \<and>
   [] \<notin> set [[''-o'', ''a.o''], [''-Wall''], [''b.c'']]"
proof -
  let ?s = "new_scanner [''-o'', ''a.o'', ''-Wall'', ''b.c''] [''-o'' \<mapsto> 1] [] Map.empty"
  have "ScanLoop collect_args ?s [] = Ok [[''-o'', ''a.o''], [''-Wall''], [''b.c'']]"
    by (simp add: ScanLoop.simps collect_args_def HasNext_def ReadNextFlag_def new_scanner_def
        normalizedFlag_def take_args_def updatedFlag_def Let_def)
  from ScanLoop_covers_command_line [OF this] show ?thesis by (simp add: new_scanner_def)
qed

text \<open>without option tables the command parses for every non-empty command, and the
  flags list each argument, a positional one after an empty flag.\<close>

theorem ParseCommandFlags_total:
  "ParseCommandFlags command workingDir execRoot =
     (case command of
        [] \<Rightarrow> Err NoCommand
      | exe # as \<Rightarrow> Ok (zero_flags\<lparr>ExecutablePath := exe, WorkingDirectory := workingDir,
                         ExecRoot := execRoot, Flags := generic_flags as\<rparr>))"
proof (cases command)
  case Nil
  then show ?thesis by (simp add: ParseCommandFlags_def)
next
  case (Cons exe as)
  have "new_scanner as Map.empty [] Map.empty =
    (new_scanner [] Map.empty [] Map.empty)\<lparr>Args := as, ScanFlags := Map.empty, JoinedOpts := [], Normalized := Map.empty\<rparr>"
    by (simp add: new_scanner_def)
  then show ?thesis
    using Cons by (simp add: ParseCommandFlags_def scan_plain zero_flags_def del: new_scanner_def)
qed

end
