(* ===== verification/ClangParser.thy ===== *)
theory ClangParser
  imports ArgsScanner
begin

text \<open>
  Package \<open>clangparser\<close> (\<open>inputprocessor/clangparser/clangparser.go\<close>) and the flag parser of
  C++ compile actions (\<open>action/cppcompile/flagsparser.go\<close>). The option tables are generated
  when the program is built, so they are an argument (\<open>ClangTables\<close>); what \<open>init()\<close> adds to
  them and how it sorts them is modelled. Reading files and \<open>runtime.GOOS\<close> are arguments.
  A parser's state is the pair of the clang state and the command flags collected so far.
  On an error the callers drop the flags, so the error alone is the result.
\<close>

section \<open>Option tables\<close>

record ClangTables =
  ClangOptions :: "string \<rightharpoonup> int"
  ClangPrefixes :: "PrefixOption list"
  ClangNormalizedFlags :: "string \<rightharpoonup> string"
  ClangCLOptions :: "string \<rightharpoonup> int"
  ClangCLPrefixes :: "PrefixOption list"
  ClangCLNormalizedFlags :: "string \<rightharpoonup> string"

text \<open>\<open>sort.Slice\<close> with the descending order of prefixes.\<close>

definition sort_prefixes :: "PrefixOption list \<Rightarrow> PrefixOption list" where
  "sort_prefixes ps = rev (sort_key Prefix ps)"

definition clang_init :: "ClangTables \<Rightarrow> ClangTables" where
  "clang_init t = t\<lparr>
     ClangOptions := (ClangOptions t)(''-fmax-tokens'' \<mapsto> 1, ''--'' \<mapsto> 0),
     ClangPrefixes := sort_prefixes (ClangPrefixes t @ [\<lparr>Prefix = ''--coverage-data-file='', NumArgs = 0\<rparr>]),
     ClangCLOptions := (ClangCLOptions t)(''/showIncludes:user'' \<mapsto> 0, ''-fprofile_use'' \<mapsto> 0, ''--'' \<mapsto> 0),
     ClangCLPrefixes := sort_prefixes (ClangCLPrefixes t @ [\<lparr>Prefix = ''-fprofile-use='', NumArgs = 0\<rparr>])\<rparr>"

definition NewScanner :: "ClangTables \<Rightarrow> string list \<Rightarrow> Scanner option" where
  "NewScanner t cmdline =
     (case cmdline of
        [] \<Rightarrow> None
      | exe # as \<Rightarrow>
          let basename = Base exe in
          Some (if trim_suffix (Ext basename) basename = ''clang-cl''
                then new_scanner as (ClangCLOptions t) (ClangCLPrefixes t) (ClangCLNormalizedFlags t)
                else new_scanner as (ClangOptions t) (ClangPrefixes t) (ClangNormalizedFlags t)))"

section \<open>State and handlers\<close>

record ClangState =
  objFile :: string
  hasCoverage :: bool
  hasSplit :: bool
  saveTemps :: string

definition zero_state :: ClangState where
  "zero_state = \<lparr>objFile = [], hasCoverage = False, hasSplit = False, saveTemps = []\<rparr>"

datatype clang_error =
    InsufficientArgs
  | BadThinLTOExt string
  | ThinLTOReadFailed
  | RspReadFailed read_error

type_synonym clang_pstate = "ClangState \<times> CommandFlags"

definition thinltoBcExt :: string where "thinltoBcExt = ''.thinlto.bc''"
definition thinltoImportsExt :: string where "thinltoImportsExt = ''.imports''"

definition collectThinLTODeps ::
  "(string \<Rightarrow> (read_error, string) res) \<Rightarrow> string \<Rightarrow> string \<Rightarrow> string \<Rightarrow> (clang_error, string list) res"
  where
  "collectThinLTODeps readFile execRoot workingDir bcFile =
     (if \<not> suffix thinltoBcExt bcFile then Err (BadThinLTOExt bcFile)
      else
        let importsFilepath = replace_first thinltoBcExt thinltoImportsExt bcFile in
        case RspParse readFile (Join [execRoot, workingDir, importsFilepath]) of
          Ok importedFiles \<Rightarrow> Ok (bcFile # importedFiles)
        | Err NotExist \<Rightarrow> Ok [bcFile]
        | Err ReadFailed \<Rightarrow> Err ThinLTOReadFailed
        | Panic \<Rightarrow> Panic)"

definition add_dep :: "string \<Rightarrow> CommandFlags \<Rightarrow> CommandFlags" where
  "add_dep d f = f\<lparr>Dependencies := Dependencies f @ [d]\<rparr>"

definition add_output :: "string \<Rightarrow> CommandFlags \<Rightarrow> CommandFlags" where
  "add_output p f = f\<lparr>OutputFilePaths := OutputFilePaths f @ [p]\<rparr>"

definition add_flags :: "Flag list \<Rightarrow> CommandFlags \<Rightarrow> CommandFlags" where
  "add_flags fs f = f\<lparr>Flags := Flags f @ fs\<rparr>"

definition dep_options :: "string list" where
  "dep_options = [''-B'', ''-fprofile-use='', ''-fsanitize-blacklist='', ''-fsanitize-ignorelist='',
     ''-fsanitize-coverage-allowlist='', ''-fprofile-sample-use='', ''--prefix='', ''-fprofile-list='']"

text \<open>The cases of the switch that fall through to the common flag handling.\<close>

definition clang_switch ::
  "(string \<Rightarrow> (read_error, string) res) \<Rightarrow> string \<Rightarrow> string \<Rightarrow> string list \<Rightarrow> clang_pstate \<Rightarrow>
   (clang_error, clang_pstate) res" where
  "clang_switch readFile goos key vals st =
     (let s = fst st; f = snd st in
      if key = ''-I'' then
        res_bind (go_index vals 0) (\<lambda>v. Ok (s, f\<lparr>IncludeDirPaths := IncludeDirPaths f @ [v]\<rparr>))
      else if key \<in> set dep_options then
        res_bind (go_index vals 0) (\<lambda>v. Ok (s, add_dep v f))
      else if key = ''--coverage'' \<or> key = ''-ftest-coverage'' then Ok (s\<lparr>hasCoverage := True\<rparr>, f)
      else if key = ''-isysroot'' then
        (if goos = ''darwin''
         then res_bind (go_index vals 0) (\<lambda>v. Ok (s, add_dep (Join [v, ''SDKSettings.json'']) f))
         else Ok (s, f))
      else if key = ''--coverage-data-file='' then
        res_bind (go_index vals 0) (\<lambda>v. Ok (s, add_output v f))
      else if key = ''-gsplit-dwarf'' then Ok (s\<lparr>hasSplit := True\<rparr>, f)
      else if key = ''-fthinlto-index='' then
        res_bind (go_index vals 0) (\<lambda>v.
          res_bind (collectThinLTODeps readFile (ExecRoot f) (WorkingDirectory f) v) (\<lambda>ds.
            Ok (s, f\<lparr>Dependencies := Dependencies f @ ds\<rparr>)))
      else if key = ''--save-temps='' then
        res_bind (go_index vals 0) (\<lambda>v.
          Ok (s\<lparr>saveTemps := (if v = ''obj'' then ''obj'' else ''cwd'')\<rparr>, f))
      else if key = ''--save-temps'' then Ok (s\<lparr>saveTemps := ''cwd''\<rparr>, f)
      else if key = [] then
        (if length vals > 0 \<and> prefix ''@'' (hd vals)
         then Ok (s, add_dep (tl (hd vals)) f)
         else Ok (s, f\<lparr>TargetFilePaths := TargetFilePaths f @ vals\<rparr>))
      else Ok (s, f))"

text \<open>The flag entries of an option that is not specially handled.\<close>

definition clang_flag_entries :: "FlagResult \<Rightarrow> bool \<Rightarrow> Flag list" where
  "clang_flag_entries r legacyBehavior =
     (if \<not> legacyBehavior \<and> length (Values r) = 0
      then [NewFlag (NormalizedKey r) (ResOriginalKey r) [] (ResJoined r)]
      else if \<not> legacyBehavior \<and> length (Values r) = 1
      then [NewFlag (NormalizedKey r) (ResOriginalKey r) (Values r ! 0) (ResJoined r)]
      else map value_flag (ResArgs r))"

definition HandleClangFlags ::
  "(string \<Rightarrow> (read_error, string) res) \<Rightarrow> string \<Rightarrow> bool \<Rightarrow> FlagResult \<Rightarrow> clang_pstate \<Rightarrow>
   (clang_error, clang_pstate) res" where
  "HandleClangFlags readFile goos legacyBehavior nextRes st =
     (let key = NormalizedKey nextRes; vals = Values nextRes; s = fst st; f = snd st in
      if key = ''-MD'' then Ok st
      else if key = ''-o'' then
        res_bind (go_index vals 0) (\<lambda>v. Ok (s\<lparr>objFile := v\<rparr>, add_output v f))
      else if key = ''-MF'' then
        res_bind (go_index vals 0) (\<lambda>v. Ok (s, (add_output v f)\<lparr>EmittedDependencyFile := v\<rparr>))
      else
        res_bind (clang_switch readFile goos key vals st) (\<lambda>(s, f).
          if key = [] then Ok (s, f)
          else Ok (s, add_flags (clang_flag_entries nextRes legacyBehavior) f)))"

text \<open>A handled item of the command line: a response file is scanned in place. The scanner
  has just read the item.\<close>

definition HandleClangFlagsFromScanner ::
  "(string \<Rightarrow> (read_error, string) res) \<Rightarrow> string \<Rightarrow> bool \<Rightarrow> Scanner \<Rightarrow> clang_pstate \<Rightarrow>
   (clang_error, clang_pstate) res" where
  "HandleClangFlagsFromScanner readFile goos legacyBehavior scanner st =
     (let nextRes = CurResult scanner;
          handleArgFunc = (\<lambda>sc. HandleClangFlags readFile goos legacyBehavior (CurResult sc));
          s = fst st; f = snd st in
      res_bind (go_index (ResArgs nextRes) 0) (\<lambda>arg.
        if prefix ''@'' arg then
          let rspFile = tl arg;
              f1 = add_dep rspFile f;
              path = (if \<not> IsAbs rspFile then Join [ExecRoot f1, WorkingDirectory f1, rspFile] else rspFile);
              f2 = add_flags [value_flag arg] f1
          in ParseWithFunc readFile RspReadFailed path scanner handleArgFunc (s, f2)
        else handleArgFunc scanner st))"

definition save_temps_outputs :: "ClangState \<Rightarrow> CommandFlags \<Rightarrow> string \<Rightarrow> string list" where
  "save_temps_outputs s f srcFile =
     (let srcBase = Base srcFile;
          srcName = trim_suffix (Ext srcBase) srcBase;
          savetempsBase = (if saveTemps s = ''obj'' \<and> objFile s \<noteq> [] then Join [Dir (objFile s), srcName]
                           else Join [WorkingDirectory f, srcName])
      in map (\<lambda>ext. savetempsBase @ ext) [''.i'', ''.ii'', ''.bc'', ''.s''])"

definition Finalize :: "ClangState \<Rightarrow> CommandFlags \<Rightarrow> CommandFlags" where
  "Finalize s f =
     (let f1 = (if saveTemps s \<noteq> []
                then f\<lparr>OutputFilePaths := OutputFilePaths f @ concat (map (save_temps_outputs s f) (TargetFilePaths f))\<rparr>
                else f)
      in if objFile s = [] then f1
         else
           let base = trim_suffix (Ext (objFile s)) (objFile s);
               f2 = (if hasCoverage s then add_output (base @ ''.gcno'') f1 else f1)
           in if hasSplit s then add_output (base @ ''.dwo'') f2 else f2)"

section \<open>cppcompile: ClangParser.ParseFlags\<close>

definition ClangParseFlags ::
  "ClangTables \<Rightarrow> (string \<Rightarrow> (read_error, string) res) \<Rightarrow> string \<Rightarrow> string list \<Rightarrow> string \<Rightarrow> string \<Rightarrow>
   (clang_error, CommandFlags) res" where
  "ClangParseFlags t readFile goos command workingDir execRoot =
     (if length command < 2 then Err InsufficientArgs
      else case NewScanner t command of
             None \<Rightarrow> Panic
           | Some s \<Rightarrow>
               res_bind (ScanLoop (HandleClangFlagsFromScanner readFile goos False) s
                  (zero_state, zero_flags\<lparr>ExecutablePath := hd command, WorkingDirectory := workingDir,
                                          ExecRoot := execRoot\<rparr>))
                 (\<lambda>(state, f). Ok (Finalize state f)))"

section \<open>What the parser collects\<close>

text \<open>The items of a command line, a response file replaced by its own items.\<close>

definition expand_result ::
  "(string \<Rightarrow> (read_error, string) res) \<Rightarrow> string \<Rightarrow> string \<Rightarrow> Scanner \<Rightarrow> FlagResult \<Rightarrow> FlagResult list option"
  where
  "expand_result readFile execRoot workingDir s r =
     (if prefix ''@'' (hd (ResArgs r)) then
        let rspFile = tl (hd (ResArgs r));
            path = (if \<not> IsAbs rspFile then Join [execRoot, workingDir, rspFile] else rspFile)
        in (case RspParse readFile path of
              Ok ws \<Rightarrow> read_all (new_scanner ws (ScanFlags s) (JoinedOpts s) (Normalized s))
            | _ \<Rightarrow> None)
      else Some [r])"

fun expand_results ::
  "(FlagResult \<Rightarrow> FlagResult list option) \<Rightarrow> FlagResult list \<Rightarrow> FlagResult list option" where
  "expand_results ex [] = Some []"
| "expand_results ex (r # rs) =
     (case ex r of None \<Rightarrow> None
      | Some xs \<Rightarrow> (case expand_results ex rs of None \<Rightarrow> None | Some ys \<Rightarrow> Some (xs @ ys)))"

definition command_results ::
  "ClangTables \<Rightarrow> (string \<Rightarrow> (read_error, string) res) \<Rightarrow> string list \<Rightarrow> string \<Rightarrow> string \<Rightarrow> FlagResult list option"
  where
  "command_results t readFile command workingDir execRoot =
     (case NewScanner t command of
        None \<Rightarrow> None
      | Some s \<Rightarrow> (case read_all s of None \<Rightarrow> None
                   | Some rs \<Rightarrow> expand_results (expand_result readFile execRoot workingDir s) rs))"

definition outputs_of :: "FlagResult \<Rightarrow> string list" where
  "outputs_of r = (if NormalizedKey r \<in> {''-o'', ''-MF'', ''--coverage-data-file=''} then take 1 (Values r) else [])"

definition includes_of :: "FlagResult \<Rightarrow> string list" where
  "includes_of r = (if NormalizedKey r = ''-I'' then take 1 (Values r) else [])"

definition targets_of :: "FlagResult \<Rightarrow> string list" where
  "targets_of r = (if NormalizedKey r = [] \<and> \<not> (Values r \<noteq> [] \<and> prefix ''@'' (hd (Values r))) then Values r else [])"

definition state_of :: "FlagResult \<Rightarrow> ClangState \<Rightarrow> ClangState" where
  "state_of r s =
     (if NormalizedKey r = ''-o'' then s\<lparr>objFile := hd (Values r)\<rparr>
      else if NormalizedKey r \<in> {''--coverage'', ''-ftest-coverage''} then s\<lparr>hasCoverage := True\<rparr>
      else if NormalizedKey r = ''-gsplit-dwarf'' then s\<lparr>hasSplit := True\<rparr>
      else if NormalizedKey r = ''--save-temps='' then
        s\<lparr>saveTemps := (if hd (Values r) = ''obj'' then ''obj'' else ''cwd'')\<rparr>
      else if NormalizedKey r = ''--save-temps'' then s\<lparr>saveTemps := ''cwd''\<rparr>
      else s)"

definition final_outputs :: "ClangState \<Rightarrow> CommandFlags \<Rightarrow> string list" where
  "final_outputs s f =
     (if saveTemps s \<noteq> [] then concat (map (save_temps_outputs s f) (TargetFilePaths f)) else []) @
     (if objFile s = [] then []
      else (if hasCoverage s then [trim_suffix (Ext (objFile s)) (objFile s) @ ''.gcno''] else []) @
           (if hasSplit s then [trim_suffix (Ext (objFile s)) (objFile s) @ ''.dwo''] else []))"

lemmas flag_updates = add_dep_def add_output_def add_flags_def

lemma add_keeps_dirs [simp]:
  "ExecRoot (add_dep d f) = ExecRoot f" "WorkingDirectory (add_dep d f) = WorkingDirectory f"
  by (simp_all add: add_dep_def)

lemma Finalize_outputs: "Finalize s f = f\<lparr>OutputFilePaths := OutputFilePaths f @ final_outputs s f\<rparr>"
  by (simp add: Finalize_def final_outputs_def flag_updates Let_def)

lemma final_outputs_update [simp]: "final_outputs s (f\<lparr>OutputFilePaths := xs\<rparr>) = final_outputs s f"
proof -
  have "save_temps_outputs s (f\<lparr>OutputFilePaths := xs\<rparr>) = save_temps_outputs s f"
    by (rule ext) (simp add: save_temps_outputs_def Let_def)
  then show ?thesis by (simp add: final_outputs_def)
qed

text \<open>The flags after a step: identity fields kept, lists extended, by exactly the paths the
  results name.\<close>

definition flags_added :: "FlagResult list \<Rightarrow> CommandFlags \<Rightarrow> CommandFlags \<Rightarrow> bool" where
  "flags_added rs f f' \<longleftrightarrow>
     ExecutablePath f' = ExecutablePath f \<and> ExecRoot f' = ExecRoot f \<and>
     WorkingDirectory f' = WorkingDirectory f \<and> OutputDirPaths f' = OutputDirPaths f \<and>
     OutputFilePaths f' = OutputFilePaths f @ concat (map outputs_of rs) \<and>
     IncludeDirPaths f' = IncludeDirPaths f @ concat (map includes_of rs) \<and>
     TargetFilePaths f' = TargetFilePaths f @ concat (map targets_of rs) \<and>
     prefix (Dependencies f) (Dependencies f') \<and> prefix (Flags f) (Flags f')"

lemma flags_added_refl [simp]: "flags_added [] f f"
  by (simp add: flags_added_def)

lemma flags_added_extends: "flags_added rs f f' \<Longrightarrow> cmd_extends f f'"
  by (simp add: flags_added_def cmd_extends_def)

lemma flags_added_trans:
  "flags_added rs f f' \<Longrightarrow> flags_added rs' f' f'' \<Longrightarrow> flags_added (rs @ rs') f f''"
  by (auto simp: flags_added_def intro: prefix_order.trans)

lemma go_index0 [simp]: "go_index [] 0 = Panic" "go_index (v # vs) 0 = Ok v"
  by (simp_all add: go_index_def)

lemmas clang_handle_simps = clang_switch_def flag_updates Let_def
  flags_added_def outputs_of_def includes_of_def targets_of_def state_of_def

lemma clang_switch_adds:
  assumes h: "clang_switch readFile goos key vals (s, f) = Ok (s', f')"
    and r: "NormalizedKey r = key" "Values r = vals" and k: "key \<notin> {''-o'', ''-MF'', ''-MD''}"
  shows "flags_added [r] f f' \<and> s' = state_of r s"
proof (cases "key \<in> {''-I'', ''--coverage'', ''-ftest-coverage'', ''-isysroot'', ''--coverage-data-file='',
        ''-gsplit-dwarf'', ''-fthinlto-index='', ''--save-temps='', ''--save-temps'', []}")
  case True
  then show ?thesis
    unfolding insert_iff
    by (elim disjE emptyE; use h r in \<open>cases vals; auto simp: clang_handle_simps dep_options_def
        res_bind_eq_Ok split: if_splits\<close>)
next
  case special: False
  show ?thesis
  proof (cases "key \<in> set dep_options")
    case True
    then have "clang_switch readFile goos key vals (s, f) = res_bind (go_index vals 0) (\<lambda>v. Ok (s, add_dep v f))"
      using special by (simp add: clang_switch_def)
    then obtain v vs where "vals = v # vs" "s' = s" "f' = add_dep v f"
      using h by (cases vals) auto
    then show ?thesis
      using r special k
      by (simp add: flag_updates flags_added_def outputs_of_def includes_of_def targets_of_def state_of_def)
  next
    case False
    then have "clang_switch readFile goos key vals (s, f) = Ok (s, f)"
      using special by (simp add: clang_switch_def)
    then have "s' = s" "f' = f" using h by simp_all
    then show ?thesis
      using r special k
      by (simp add: flags_added_def outputs_of_def includes_of_def targets_of_def state_of_def)
  qed
qed

lemma flags_added_add_flags: "flags_added rs f f' \<Longrightarrow> flags_added rs f (add_flags xs f')"
  by (simp add: flags_added_def add_flags_def)

lemma HandleClangFlags_adds:
  assumes "HandleClangFlags readFile goos lg r (s, f) = Ok (s', f')"
  shows "flags_added [r] f f' \<and> s' = state_of r s"
proof (cases "NormalizedKey r \<in> {''-o'', ''-MF'', ''-MD''}")
  case True
  then show ?thesis
    unfolding insert_iff
    by (elim disjE emptyE; use assms in \<open>cases "Values r"; auto simp: HandleClangFlags_def clang_handle_simps\<close>)
next
  case False
  then obtain s1 f1 where "clang_switch readFile goos (NormalizedKey r) (Values r) (s, f) = Ok (s1, f1)"
    and "s' = s1" and "f' = f1 \<or> f' = add_flags (clang_flag_entries r lg) f1"
    using assms by (auto simp: HandleClangFlags_def Let_def res_bind_eq_Ok split: if_splits)
  then show ?thesis
    using clang_switch_adds [of readFile goos "NormalizedKey r" "Values r" s f s1 f1 r] False
    by (auto intro: flags_added_add_flags)
qed

lemma fold_HandleClangFlags_adds:
  "fold_res (HandleClangFlags readFile goos lg) rs (s, f) = Ok (s', f') \<Longrightarrow>
   flags_added rs f f' \<and> s' = fold state_of rs s"
proof (induction rs arbitrary: s f)
  case Nil
  then show ?case by simp
next
  case (Cons r rs)
  then obtain s1 f1 where h: "HandleClangFlags readFile goos lg r (s, f) = Ok (s1, f1)"
    and l: "fold_res (HandleClangFlags readFile goos lg) rs (s1, f1) = Ok (s', f')"
    by (auto simp: res_bind_eq_Ok)
  show ?case
    using HandleClangFlags_adds [OF h] Cons.IH [OF l] flags_added_trans [of "[r]" f f1 rs f'] by auto
qed

lemma findSomeD: "find P xs = Some x \<Longrightarrow> x \<in> set xs \<and> P x"
  by (metis find_Some_iff nth_mem)

section \<open>Response files\<close>

lemma HandleClangFlagsFromScanner_expand:
  assumes h: "HandleClangFlagsFromScanner readFile goos lg sc (s, f) = Ok (s', f')"
    and t: "same_tables s0 sc" and ef: "ExecRoot f = er" "WorkingDirectory f = wd"
  shows "\<exists>xs. expand_result readFile er wd s0 (CurResult sc) = Some xs \<and>
              flags_added xs f f' \<and> s' = fold state_of xs s"
proof -
  let ?r = "CurResult sc"
  obtain arg where arg: "arg = hd (ResArgs ?r)" "go_index (ResArgs ?r) 0 = (Ok arg :: (clang_error, string) res)"
    using h by (cases "ResArgs ?r") (auto simp: HandleClangFlagsFromScanner_def Let_def)
  show ?thesis
  proof (cases "prefix ''@'' arg")
    case False
    then have "HandleClangFlags readFile goos lg ?r (s, f) = Ok (s', f')"
      using h arg by (simp add: HandleClangFlagsFromScanner_def Let_def)
    from HandleClangFlags_adds [OF this] show ?thesis
      using False arg by (simp add: expand_result_def)
  next
    case True
    let ?path = "if \<not> IsAbs (tl arg) then Join [er, wd, tl arg] else tl arg"
    let ?f2 = "add_flags [value_flag arg] (add_dep (tl arg) f)"
    let ?sc = "\<lambda>ws. new_scanner ws (ScanFlags s0) (JoinedOpts s0) (Normalized s0)"
    obtain ws where ws: "RspParse readFile ?path = Ok ws"
      and l: "ScanLoop (\<lambda>sc. HandleClangFlags readFile goos lg (CurResult sc)) (?sc ws) (s, ?f2) = Ok (s', f')"
      using h arg True ef t
      by (auto simp: HandleClangFlagsFromScanner_def Let_def ParseWithFunc_def
          same_tables_def simp del: if_not_P split: res.splits if_splits)
    obtain rs where rs: "read_all (?sc ws) = Some rs"
      and fo: "fold_res (HandleClangFlags readFile goos lg) rs (s, ?f2) = Ok (s', f')"
      using l by (subst (asm) ScanLoop_fold [where g = "HandleClangFlags readFile goos lg"]) auto
    have "flags_added [] f ?f2" by (simp add: flags_added_def flag_updates)
    then show ?thesis
      using fold_HandleClangFlags_adds [OF fo] flags_added_trans [of "[]" f ?f2 rs f'] ws rs True arg
      by (auto simp: expand_result_def Let_def)
  qed
qed

lemma ScanLoop_clang_expand:
  "ScanLoop (HandleClangFlagsFromScanner readFile goos lg) sc (s, f) = Ok (s', f') \<Longrightarrow>
   same_tables s0 sc \<Longrightarrow> ExecRoot f = er \<Longrightarrow> WorkingDirectory f = wd \<Longrightarrow>
   \<exists>rs xs. read_all sc = Some rs \<and> expand_results (expand_result readFile er wd s0) rs = Some xs \<and>
           flags_added xs f f' \<and> s' = fold state_of xs s"
proof (induction sc "(s, f)" arbitrary: s f rule: scan_induct [case_names stop step])
  case (stop sc)
  then show ?case by (auto simp: ScanLoop_done read_all.simps)
next
  case (step sc)
  obtain r sc1 st1 where r: "ReadNextFlag sc = Some (r, sc1)"
    and h0: "HandleClangFlagsFromScanner readFile goos lg sc1 (s, f) = Ok st1"
    and l0: "ScanLoop (HandleClangFlagsFromScanner readFile goos lg) sc1 st1 = Ok (s', f')"
    using step.prems(1) step.hyps(1) by (auto simp: ScanLoop_step_Ok)
  obtain s1 f1 where st1: "st1 = (s1, f1)" by (cases st1)
  have t: "same_tables s0 sc1" "CurResult sc1 = r"
    using ReadNextFlag_next [OF r] step.prems(2) by (auto simp: same_tables_def)
  obtain xs where xs: "expand_result readFile er wd s0 r = Some xs" "flags_added xs f f1" "s1 = fold state_of xs s"
    using HandleClangFlagsFromScanner_expand [OF h0 [unfolded st1] t(1) step.prems(3,4)] t(2) by auto
  have "ExecRoot f1 = er" "WorkingDirectory f1 = wd"
    using xs(2) step.prems(3,4) by (auto simp: flags_added_def)
  then obtain rs ys where "read_all sc1 = Some rs"
    "expand_results (expand_result readFile er wd s0) rs = Some ys"
    "flags_added ys f1 f'" "s' = fold state_of ys s1"
    using step.hyps(2) [OF r l0 [unfolded st1] t(1)] by auto
  moreover have "read_all sc = (case read_all sc1 of None \<Rightarrow> None | Some rs \<Rightarrow> Some (r # rs))"
    using step.hyps(1) r by (subst read_all.simps) simp
  ultimately show ?case
    using xs flags_added_trans by fastforce
qed

text \<open>The handler as the scan loop sees it: the command's flags only grow.\<close>

definition pstate_extends :: "clang_pstate \<Rightarrow> clang_pstate \<Rightarrow> bool" where
  "pstate_extends st st' \<longleftrightarrow> cmd_extends (snd st) (snd st')"

interpretation clang: flag_handler "HandleClangFlagsFromScanner readFile goos lg" pstate_extends
  for readFile goos lg
proof
  fix sc st st'
  assume h: "HandleClangFlagsFromScanner readFile goos lg sc st = Ok st'"
  then have "HandleClangFlagsFromScanner readFile goos lg sc (fst st, snd st) = Ok (fst st', snd st')"
    by simp
  from HandleClangFlagsFromScanner_expand [OF this same_tables_refl refl refl]
  show "pstate_extends st st'" by (auto simp: pstate_extends_def dest: flags_added_extends)
qed (auto simp: pstate_extends_def intro: cmd_extends_trans)

section \<open>Properties\<close>

text \<open>C15: parsing a clang command collects exactly the files the command line and its response
  files name: the targets and include directories in order, and as outputs every -o, -MF and
  --coverage-data-file= value in order followed by the files that --save-temps, coverage and
  split dwarf imply for the last -o.\<close>

theorem ClangParseFlags_paths:
  assumes "ClangParseFlags t readFile goos command workingDir execRoot = Ok f"
  shows "\<exists>rs. command_results t readFile command workingDir execRoot = Some rs \<and>
     TargetFilePaths f = concat (map targets_of rs) \<and>
     IncludeDirPaths f = concat (map includes_of rs) \<and>
     OutputFilePaths f = concat (map outputs_of rs) @ final_outputs (fold state_of rs zero_state) f \<and>
     ExecRoot f = execRoot \<and> WorkingDirectory f = workingDir"
proof -
  let ?f0 = "zero_flags\<lparr>ExecutablePath := hd command, WorkingDirectory := workingDir, ExecRoot := execRoot\<rparr>"
  obtain sc where sc: "NewScanner t command = Some sc"
    using assms by (auto simp: ClangParseFlags_def split: if_splits option.splits)
  then obtain s1 f1 where l: "ScanLoop (HandleClangFlagsFromScanner readFile goos False) sc (zero_state, ?f0) = Ok (s1, f1)"
    and f: "f = Finalize s1 f1"
    using assms by (auto simp: ClangParseFlags_def res_bind_eq_Ok split: if_splits option.splits)
  obtain rs xs where rs: "read_all sc = Some rs"
    "expand_results (expand_result readFile execRoot workingDir sc) rs = Some xs"
    and added: "flags_added xs ?f0 f1" and s1: "s1 = fold state_of xs zero_state"
    using ScanLoop_clang_expand [OF l same_tables_refl, of execRoot workingDir] by auto
  have "final_outputs s1 f = final_outputs s1 f1"
    by (simp add: f Finalize_outputs)
  moreover have "command_results t readFile command workingDir execRoot = Some xs"
    using sc rs by (simp add: command_results_def)
  ultimately show ?thesis
    using added s1 f by (auto simp: flags_added_def Finalize_outputs zero_flags_def)
qed

theorem ClangParseFlags_paths_witness:
  "\<exists>f. ClangParseFlags \<lparr>ClangOptions = [''-o'' \<mapsto> 1], ClangPrefixes = [], ClangNormalizedFlags = Map.empty,
          ClangCLOptions = Map.empty, ClangCLPrefixes = [], ClangCLNormalizedFlags = Map.empty\<rparr>
        (\<lambda>p. Err NotExist) ''linux'' [''clang'', ''-o'', ''a.o'', ''b.c'', ''-gsplit-dwarf''] ''out'' ''/r'' = Ok f \<and>
       TargetFilePaths f = [''b.c''] \<and> OutputFilePaths f = [''a.o'', ''a.dwo''] \<and> ExecRoot f = ''/r''"
proof -
  let ?t = "\<lparr>ClangOptions = [''-o'' \<mapsto> 1], ClangPrefixes = [], ClangNormalizedFlags = Map.empty,
          ClangCLOptions = Map.empty, ClangCLPrefixes = [], ClangCLNormalizedFlags = Map.empty\<rparr>"
  let ?cmd = "[''clang'', ''-o'', ''a.o'', ''b.c'', ''-gsplit-dwarf'']"
  note eval = ClangParseFlags_def NewScanner_def Base_def Ext_def trim_suffix_def new_scanner_def Let_def
    ScanLoop.simps HasNext_def ReadNextFlag_def normalizedFlag_def take_args_def updatedFlag_def
    HandleClangFlagsFromScanner_def HandleClangFlags_def clang_switch_def clang_flag_entries_def
    flag_updates dep_options_def Finalize_def zero_state_def zero_flags_def suffix_to_prefix
  have "\<exists>f. ClangParseFlags ?t (\<lambda>p. Err NotExist) ''linux'' ?cmd ''out'' ''/r'' = Ok f \<and>
       TargetFilePaths f = [''b.c''] \<and> OutputFilePaths f = [''a.o'', ''a.dwo'']"
    by (simp add: eval)
  then show ?thesis
    using ClangParseFlags_paths [of ?t "\<lambda>p. Err NotExist" "''linux''" ?cmd "''out''" "''/r''"] by blast
qed

text \<open>in a table sorted as init() sorts it, the joined option found first for an argument
  is the longest one: every other option whose prefix matches the argument is a prefix of it.\<close>

theorem sort_prefixes_longest_match:
  assumes "find (\<lambda>p. prefix (Prefix p) arg) (sort_prefixes ps) = Some p"
    and "q \<in> set ps" and "prefix (Prefix q) arg"
  shows "p \<in> set ps \<and> prefix (Prefix q) (Prefix p)"
proof -
  have mem: "p \<in> set ps" "prefix (Prefix p) arg"
    using findSomeD [OF assms(1)] by (simp_all add: sort_prefixes_def)
  obtain i where i: "i < length (sort_prefixes ps)" "p = sort_prefixes ps ! i"
    and before: "\<And>j. j < i \<Longrightarrow> \<not> prefix (Prefix (sort_prefixes ps ! j)) arg"
    using assms(1) by (auto simp: find_Some_iff)
  obtain k where k: "k < length (sort_prefixes ps)" "q = sort_prefixes ps ! k"
    using assms(2) by (metis in_set_conv_nth set_rev set_sort sort_prefixes_def)
  have "i \<le> k" using before [of k] k assms(3) by (meson not_le_imp_less)
  moreover have "sorted_wrt (\<ge>) (map Prefix (sort_prefixes ps))"
    by (simp add: sort_prefixes_def rev_map [symmetric] sorted_wrt_rev sorted_sort_key)
  ultimately have "Prefix q \<le> Prefix p"
    using i k by (cases "i = k") (auto simp: sorted_wrt_iff_nth_less)
  moreover have "prefix (Prefix p) (Prefix q) \<or> prefix (Prefix q) (Prefix p)"
    using mem(2) assms(3) by (metis prefix_same_cases)
  moreover have "prefix (Prefix p) (Prefix q) \<Longrightarrow> Prefix p \<le> Prefix q"
    by (auto simp: prefix_def list_le_def list_less_def lexord_append_rightI neq_Nil_conv)
  ultimately show ?thesis using mem by (metis order_antisym prefix_order.refl)
qed

theorem sort_prefixes_longest_match_witness:
  "\<lparr>Prefix = ''-fprofile-use='', NumArgs = 0\<rparr> \<in>
     set [\<lparr>Prefix = ''-f'', NumArgs = 0\<rparr>, \<lparr>Prefix = ''-fprofile-use='', NumArgs = 0\<rparr>] \<and>
   prefix (Prefix \<lparr>Prefix = ''-f'', NumArgs = 0\<rparr>) (Prefix \<lparr>Prefix = ''-fprofile-use='', NumArgs = 0\<rparr>)"
  by (rule sort_prefixes_longest_match [where arg = "''-fprofile-use=x''"])
    (simp_all add: sort_prefixes_def)

end
