(* ===== verification/ActionParsers.thy ===== *)
theory ActionParsers
  imports ClangParser
begin

text \<open>
  The flag parsers of the other clang-family actions, under \<open>inputprocessor/action/\<close>:
  \<open>clanglink/flagsparser.go\<close>, \<open>clangcl/flagsparser.go\<close>, \<open>headerabi/\<close>, \<open>clanglint/\<close> and \<open>nacl/\<close>,
  all of which build on the clang parser. Each is a handler run by \<open>ScanLoop\<close>. File reads, the archive reader and the shared caches are arguments.
\<close>

section \<open>clanglink\<close>

definition linkerFlags :: "string list" where
  "linkerFlags = [''--version-script'', ''--symbol-ordering-file'', ''--dynamic-list'', ''-T'',
     ''--retain-symbols-file'', ''--script,'']"

text \<open>What is outside the linker parser: \<open>readFile\<close> is \<open>os.ReadFile\<close>, \<open>readArchive\<close> lists the
  members of an archive, \<open>arCache\<close> is the process-wide cache of such lists,
  \<open>sysrootDoNotUpload\<close> the feature switch.\<close>

record 'e link_env =
  le_readFile :: "string \<Rightarrow> (read_error, string) res"
  le_goos :: string
  le_sysrootDoNotUpload :: bool
  le_readArchive :: "string \<Rightarrow> string \<Rightarrow> ('e, string list) res"
  le_arCache :: "string \<Rightarrow> ('e, string list) res \<Rightarrow> ('e, string list) res"

definition processArchive :: "'e link_env \<Rightarrow> string \<Rightarrow> CommandFlags \<Rightarrow> bool \<Rightarrow> ('e, string list) res" where
  "processArchive env archive f arDeepScan =
     (let arAbsName = Join [ExecRoot f, WorkingDirectory f, archive] in
      le_arCache env arAbsName
        (if arDeepScan
         then res_bind (le_readArchive env arAbsName archive) (\<lambda>archdeps. Ok (archdeps @ [archive]))
         else Ok [archive]))"

text \<open>The argument of a \<open>-Wl,\<close> option that names a file, if any: the first linker flag that is
  a prefix of it is cut off with its separator.\<close>

definition linker_file :: "string \<Rightarrow> string option" where
  "linker_file v =
     (case find (\<lambda>p. prefix p v) linkerFlags of
        Some p \<Rightarrow> Some (trim_prefix '','' (trim_prefix ''='' (trim_prefix p v)))
      | None \<Rightarrow> None)"

text \<open>\<open>handleArgFunc\<close>: \<open>outer\<close> is the item read from the command line, \<open>item\<close> the item at hand
  (another one while a response file is scanned).\<close>

definition linkHandleArg ::
  "'e link_env \<Rightarrow> bool \<Rightarrow> FlagResult \<Rightarrow> FlagResult \<Rightarrow> clang_pstate \<Rightarrow> (clang_error, clang_pstate) res" where
  "linkHandleArg env arDeepScan outer item st =
     (let flag = NormalizedKey item; args = ResArgs item; vals = Values item; s = fst st; f = snd st;
          tail = (\<lambda>f. Ok (s, add_flags (map value_flag args) f)) in
      if flag = ''--sysroot'' \<or> flag = ''--sysroot='' then
        (if \<not> le_sysrootDoNotUpload env
         then res_bind (go_index vals 0) (\<lambda>v. tail (add_dep v f))
         else tail f)
      else if flag = ''-Wl,'' then
        res_bind (go_index vals 0) (\<lambda>v.
          case linker_file v of
            Some file \<Rightarrow> tail (add_dep file f)
          | None \<Rightarrow>
              tail (if prefix ''--out-implib='' v then add_output (trim_prefix ''--out-implib='' v) f else f))
      else if flag = ''-L'' then res_bind (go_index vals 0) (\<lambda>v. tail (add_dep v f))
      else if flag = [] then
        res_bind (go_index args 0) (\<lambda>a.
          if suffix ''.a'' a then
            (case processArchive env a f arDeepScan of
               Ok archdeps \<Rightarrow> tail (f\<lparr>Dependencies := Dependencies f @ archdeps\<rparr>)
             | Err e \<Rightarrow> Ok (s, f)
             | Panic \<Rightarrow> Panic)
          else tail (if \<not> prefix ''-l'' a then add_dep a f else f))
      else HandleClangFlags (le_readFile env) (le_goos env) True outer (s, f))"

definition handleClangLinkFlags ::
  "'e link_env \<Rightarrow> bool \<Rightarrow> Scanner \<Rightarrow> clang_pstate \<Rightarrow> (clang_error, clang_pstate) res" where
  "handleClangLinkFlags env arDeepScan scanner st =
     (let nextRes = CurResult scanner; s = fst st; cmdFlags = snd st;
          f0 = zero_flags\<lparr>ExecRoot := ExecRoot cmdFlags, WorkingDirectory := WorkingDirectory cmdFlags\<rparr>;
          handleArgFunc = (\<lambda>sc. linkHandleArg env arDeepScan nextRes (CurResult sc));
          merge = (\<lambda>c f. c\<lparr>Dependencies := Dependencies c @ Dependencies f,
                          OutputDirPaths := OutputDirPaths c @ OutputDirPaths f,
                          OutputFilePaths := OutputFilePaths c @ OutputFilePaths f\<rparr>) in
      res_bind (go_index (ResArgs nextRes) 0) (\<lambda>arg.
        if prefix ''@'' arg then
          let rspFile = tl arg;
              c1 = add_dep rspFile cmdFlags;
              path = (if \<not> IsAbs rspFile then Join [ExecRoot c1, WorkingDirectory c1, rspFile] else rspFile);
              c2 = add_flags [value_flag arg] c1
          in res_bind (ParseWithFunc (le_readFile env) RspReadFailed path scanner handleArgFunc (s, f0))
               (\<lambda>(s', f). Ok (s', merge c2 f))
        else
          res_bind (handleArgFunc scanner (s, f0)) (\<lambda>(s', f).
            Ok (s', merge (add_flags (Flags f) cmdFlags) f))))"

definition LinkParseFlags ::
  "ClangTables \<Rightarrow> 'e link_env \<Rightarrow> string list \<Rightarrow> string \<Rightarrow> string \<Rightarrow> bool \<Rightarrow> (clang_error, CommandFlags) res"
  where
  "LinkParseFlags t env command workingDir execRoot arDeepScan =
     (if length command < 2 then Err InsufficientArgs
      else case NewScanner t command of
             None \<Rightarrow> Panic
           | Some s \<Rightarrow>
               res_bind (ScanLoop (handleClangLinkFlags env arDeepScan) s
                  (zero_state, zero_flags\<lparr>ExecutablePath := hd command, WorkingDirectory := workingDir,
                                          ExecRoot := execRoot\<rparr>))
                 (\<lambda>(state, f). Ok (Finalize state f)))"

section \<open>clangcl\<close>

definition clangOption :: string where "clangOption = ''-clang:''"

definition shouldPopLastFlag :: "Flag \<Rightarrow> bool" where
  "shouldPopLastFlag f \<longleftrightarrow>
     Key f = clangOption \<and> Value f = ''-MF'' \<and> Joined f \<and> OriginalKey f = ''/clang:''"

text \<open>\<open>handleArgFunc\<close> updates the clang state, the collected \<open>f\<close> and, for \<open>-MF\<close>, the command's
  own flags.\<close>

type_synonym cl_state = "ClangState \<times> CommandFlags \<times> CommandFlags"

definition clHandleArg ::
  "(string \<Rightarrow> (read_error, string) res) \<Rightarrow> string \<Rightarrow> Scanner \<Rightarrow> cl_state \<Rightarrow> (clang_error, cl_state) res" where
  "clHandleArg readFile goos sc st =
     (let prev = PrevResult sc; cur = CurResult sc; flag = NormalizedKey cur; vals = Values cur;
          s = fst st; cmdFlags = fst (snd st); f = snd (snd st);
          rest = (if flag = ''-Fo'' then res_bind (go_index vals 0) (\<lambda>v. Ok (s, cmdFlags, add_output v f))
                  else res_bind (HandleClangFlags readFile goos False cur (s, f))
                         (\<lambda>(s', f'). Ok (s', cmdFlags, f'))) in
      if NormalizedKey prev = clangOption then
        res_bind (go_index (Values prev) 0) (\<lambda>pv.
          if pv = ''-MF'' \<and> flag = clangOption then
            (if Flags cmdFlags = [] then Panic
             else res_bind (go_index vals 0) (\<lambda>v.
               let fl = (if shouldPopLastFlag (last (Flags cmdFlags)) then butlast (Flags cmdFlags)
                         else Flags cmdFlags)
               in Ok (s, cmdFlags\<lparr>Flags := fl, EmittedDependencyFile := v\<rparr>, add_output v f)))
          else rest)
      else rest)"

definition handleClangCLFlags ::
  "(string \<Rightarrow> (read_error, string) res) \<Rightarrow> string \<Rightarrow> Scanner \<Rightarrow> clang_pstate \<Rightarrow> (clang_error, clang_pstate) res"
  where
  "handleClangCLFlags readFile goos scanner st =
     (let nextRes = CurResult scanner; s = fst st; cmdFlags = snd st;
          f0 = zero_flags\<lparr>ExecRoot := ExecRoot cmdFlags, WorkingDirectory := WorkingDirectory cmdFlags\<rparr>;
          merge = (\<lambda>c f. c\<lparr>Dependencies := Dependencies c @ Dependencies f,
                          OutputDirPaths := OutputDirPaths c @ OutputDirPaths f,
                          OutputFilePaths := OutputFilePaths c @ OutputFilePaths f,
                          IncludeDirPaths := IncludeDirPaths c @ IncludeDirPaths f,
                          TargetFilePaths := TargetFilePaths c @ TargetFilePaths f\<rparr>) in
      res_bind (go_index (ResArgs nextRes) 0) (\<lambda>arg.
        if prefix ''@'' arg then
          let rspFile = tl arg;
              c1 = add_dep rspFile cmdFlags;
              path = (if \<not> IsAbs rspFile then Join [ExecRoot c1, WorkingDirectory c1, rspFile] else rspFile);
              c2 = add_flags [value_flag arg] c1
          in res_bind (ParseWithFunc readFile RspReadFailed path scanner (clHandleArg readFile goos) (s, c2, f0))
               (\<lambda>(s', c, f). Ok (s', merge c f))
        else
          res_bind (clHandleArg readFile goos scanner (s, cmdFlags, f0)) (\<lambda>(s', c, f).
            Ok (s', merge (add_flags (Flags f) c) f))))"

definition ClangCLParseFlags ::
  "ClangTables \<Rightarrow> (string \<Rightarrow> (read_error, string) res) \<Rightarrow> string \<Rightarrow> string list \<Rightarrow> string \<Rightarrow> string \<Rightarrow>
   (clang_error, CommandFlags) res" where
  "ClangCLParseFlags t readFile goos command workingDir execRoot =
     (if length command < 2 then Err InsufficientArgs
      else case NewScanner t command of
             None \<Rightarrow> Panic
           | Some s \<Rightarrow>
               res_bind (ScanLoop (handleClangCLFlags readFile goos) s
                  (zero_state, zero_flags\<lparr>ExecutablePath := hd command, WorkingDirectory := workingDir,
                                          ExecRoot := execRoot\<rparr>))
                 (\<lambda>(state, f). Ok (Finalize state f)))"

section \<open>headerabi, clanglint, nacl\<close>

text \<open>\<open>init\<close> adds \<open>--root-dir\<close> to the clang option table itself: \<open>abiFlags\<close> is the same map.\<close>

definition abi_init :: "ClangTables \<Rightarrow> ClangTables" where
  "abi_init t = t\<lparr>ClangOptions := (ClangOptions t)(''--root-dir'' \<mapsto> 1)\<rparr>"

definition abi_handle ::
  "(string \<Rightarrow> (read_error, string) res) \<Rightarrow> string \<Rightarrow> Scanner \<Rightarrow> clang_pstate \<Rightarrow> (clang_error, clang_pstate) res"
  where
  "abi_handle readFile goos sc st =
     (let nr = CurResult sc in
      if NormalizedKey nr = ''root-dir'' \<or> ResOriginalKey nr = ''--'' then Ok st
      else HandleClangFlags readFile goos False nr st)"

definition AbiParseFlags ::
  "ClangTables \<Rightarrow> (string \<Rightarrow> (read_error, string) res) \<Rightarrow> string \<Rightarrow> string list \<Rightarrow> string \<Rightarrow> string \<Rightarrow>
   (clang_error, CommandFlags) res" where
  "AbiParseFlags t readFile goos command workingDir execRoot =
     (if length command < 2 then Err InsufficientArgs
      else res_bind
        (ScanLoop (abi_handle readFile goos)
           (new_scanner (tl command) (ClangOptions t) (ClangPrefixes t) (ClangNormalizedFlags t))
           (zero_state, zero_flags\<lparr>ExecutablePath := hd command, WorkingDirectory := workingDir,
                                   ExecRoot := execRoot\<rparr>))
        (\<lambda>(state, f). Ok (Finalize state f)))"

definition headerABIToCppFlags :: "CommandFlags \<Rightarrow> CommandFlags" where
  "headerABIToCppFlags f = (Copy f)\<lparr>Flags := filter (\<lambda>x. Key x \<noteq> ''--root-dir'') (Flags f)\<rparr>"

text \<open>\<open>resourceDir\<close> asks the clang-tidy executable for its resource directory.\<close>

definition clangTidyToCPPFlags ::
  "(CommandFlags \<Rightarrow> ('e, string) res) \<Rightarrow> CommandFlags \<Rightarrow> ('e, CommandFlags) res" where
  "clangTidyToCPPFlags resourceDir f =
     (let res = Copy f in
      case dropWhile (\<lambda>x. Key x \<noteq> ''--'') (Flags res) of
        [] \<Rightarrow> Ok (res\<lparr>Flags := []\<rparr>)
      | _ # compilerFlags \<Rightarrow>
          res_bind (resourceDir f) (\<lambda>rd.
            Ok (res\<lparr>Flags := \<lparr>Key = ''-resource-dir'', Value = rd, Joined = False, originalKey = []\<rparr>
                           # compilerFlags\<rparr>)))"

definition is_pnacl_flag :: "Flag \<Rightarrow> bool" where
  "is_pnacl_flag x \<longleftrightarrow> prefix ''-pnacl'' (Key x) \<or> prefix ''--pnacl'' (Key x) \<or>
     (Key x = ''--'' \<and> prefix ''pnacl'' (Value x))"

datatype nacl_error = NotNaClBinary string

definition naclFlags :: "CommandFlags \<Rightarrow> (nacl_error, CommandFlags) res" where
  "naclFlags f =
     (let finalFlags = filter (\<lambda>x. \<not> is_pnacl_flag x) (Flags f);
          hasTarget = list_ex (\<lambda>x. Key x = ''-target'' \<or> Key x = ''--target='') finalFlags;
          binaryName = Base (ExecutablePath f) in
      if \<not> contains ''nacl'' binaryName then Err (NotNaClBinary (ExecutablePath f))
      else if \<not> hasTarget then
        let arch = before_first ''nacl'' binaryName;
            target = (if arch \<noteq> ''p'' then arch @ ''nacl'' else ''i686-nacl'')
        in Ok (f\<lparr>Flags := finalFlags @ [\<lparr>Key = ''--target='', Value = target, Joined = True, originalKey = []\<rparr>]\<rparr>)
      else Ok (f\<lparr>Flags := finalFlags\<rparr>))"

section \<open>Lemmas\<close>

lemma Copy_fields: "Copy c = c\<lparr>Dependencies := [], VirtualDirectories := []\<rparr>"
  by (simp add: Copy_def zero_flags_def)

lemma clHandleArg_extends:
  "clHandleArg readFile goos sc (s, c, f) = Ok (s', c', f') \<Longrightarrow> cmd_extends c c' \<and> cmd_extends f f'"
  by (auto simp: clHandleArg_def Let_def res_bind_eq_Ok add_output_def cmd_extends_def
      split: if_splits dest!: HandleClangFlags_adds flags_added_extends)

definition cl_extends :: "cl_state \<Rightarrow> cl_state \<Rightarrow> bool" where
  "cl_extends st st' \<longleftrightarrow> cmd_extends (fst (snd st)) (fst (snd st')) \<and> cmd_extends (snd (snd st)) (snd (snd st'))"

interpretation clarg: flag_handler "clHandleArg readFile goos" cl_extends
  for readFile goos
proof
  fix sc st st'
  assume "clHandleArg readFile goos sc st = Ok st'"
  then show "cl_extends st st'"
    using clHandleArg_extends by (cases st; cases st') (auto simp: cl_extends_def)
qed (auto simp: cl_extends_def intro: cmd_extends_trans)

lemma ParseWithFunc_scan:
  "ParseWithFunc readFile mk path sc h st = Ok st' \<Longrightarrow> \<exists>sc'. ScanLoop h sc' st = Ok st'"
  by (auto simp: ParseWithFunc_def split: res.splits)

lemma handleClangCLFlags_extends:
  assumes "handleClangCLFlags readFile goos sc (s, c) = Ok (s', c')"
  shows "cmd_extends c c'"
proof -
  have grow: "cmd_extends c0 c1 \<Longrightarrow> cmd_extends c0 (c1\<lparr>Dependencies := Dependencies c1 @ a, OutputDirPaths := OutputDirPaths c1 @ b,
      OutputFilePaths := OutputFilePaths c1 @ d, IncludeDirPaths := i, TargetFilePaths := TargetFilePaths c1 @ e\<rparr>)"
    for c0 c1 a b d e i by (auto simp: cmd_extends_def)
  have fl: "cmd_extends c0 (add_flags xs c1) \<longleftrightarrow> cmd_extends c0 c1"
    "cmd_extends (add_flags xs c1) c0 \<longleftrightarrow> cmd_extends c1 c0" for c0 c1 xs
    by (simp_all add: cmd_extends_def add_flags_def)
  have dep: "cmd_extends (add_dep d c) c1 \<Longrightarrow> cmd_extends c c1" for d c1
    by (erule cmd_extends_trans [rotated]) (simp add: add_dep_def cmd_extends_def)
  show ?thesis
    using assms
    by (auto simp: handleClangCLFlags_def Let_def res_bind_eq_Ok fl cl_extends_def intro!: grow
        dest!: ParseWithFunc_scan clarg.scan_extends clHandleArg_extends dep split: if_splits)
qed

interpretation clangcl: flag_handler "handleClangCLFlags readFile goos" pstate_extends
  for readFile goos
proof
  fix sc and st st' :: clang_pstate
  assume "handleClangCLFlags readFile goos sc st = Ok st'"
  then show "pstate_extends st st'"
    using handleClangCLFlags_extends by (cases st; cases st') (auto simp: pstate_extends_def)
qed (auto simp: pstate_extends_def intro: cmd_extends_trans)

interpretation link: flag_handler "handleClangLinkFlags env ds" pstate_extends
  for env :: "'e link_env" and ds
proof
  fix sc and st st' :: clang_pstate
  assume "handleClangLinkFlags env ds sc st = Ok st'"
  then show "pstate_extends st st'"
    by (auto simp: handleClangLinkFlags_def Let_def res_bind_eq_Ok flag_updates pstate_extends_def
        cmd_extends_def split: if_splits)
qed (auto simp: pstate_extends_def intro: cmd_extends_trans)

section \<open>Properties\<close>

text \<open>while a response file of a link command is scanned, an item that none of the linker
  cases handles is processed as the response file argument itself: it adds the response file
  once more to the dependencies and changes nothing else, so an -o in a response file never
  becomes an output.\<close>

theorem link_rsp_item_default:
  assumes "NormalizedKey outer = []" and "Values outer = [CHR ''@'' # p]"
    and "NormalizedKey item \<notin> {''--sysroot'', ''--sysroot='', ''-Wl,'', ''-L'', []}"
  shows "linkHandleArg env arDeepScan outer item (s, f) = Ok (s, add_dep p f)"
  using assms
  by (simp add: linkHandleArg_def HandleClangFlags_def clang_switch_def dep_options_def Let_def)

theorem link_rsp_item_default_witness:
  "linkHandleArg \<lparr>le_readFile = (\<lambda>p. Ok ''-o lib.so''), le_goos = ''linux'', le_sysrootDoNotUpload = False,
       le_readArchive = (\<lambda>p a. (Ok [] :: (unit, string list) res)), le_arCache = (\<lambda>k v. v)\<rparr> False
     \<lparr>ResArgs = [CHR ''@'' # ''x.rsp''], NormalizedKey = [], ResOriginalKey = [], Values = [CHR ''@'' # ''x.rsp''], ResJoined = False\<rparr>
     \<lparr>ResArgs = [''-o'', ''lib.so''], NormalizedKey = ''-o'', ResOriginalKey = ''-o'', Values = [''lib.so''], ResJoined = False\<rparr>
     (zero_state, zero_flags) = Ok (zero_state, add_dep ''x.rsp'' zero_flags)"
  by (rule link_rsp_item_default) simp_all

text \<open>the link and clang-cl parsers keep the executable, working directory and exec root of
  the command, whatever its response files hold.\<close>

theorem clang_family_keeps_command:
  assumes "LinkParseFlags t env command wd er ds = Ok f \<or> ClangCLParseFlags t readFile goos command wd er = Ok f"
  shows "ExecutablePath f = hd command \<and> WorkingDirectory f = wd \<and> ExecRoot f = er"
proof -
  have fin: "cmd_extends g f1 \<Longrightarrow> cmd_extends g (Finalize s f1)" for g f1 s
    by (auto simp: Finalize_outputs cmd_extends_def)
  have "cmd_extends (zero_flags\<lparr>ExecutablePath := hd command, WorkingDirectory := wd, ExecRoot := er\<rparr>) f"
    using assms
    by (auto simp: LinkParseFlags_def ClangCLParseFlags_def res_bind_eq_Ok pstate_extends_def
        dest!: link.scan_extends clangcl.scan_extends intro: fin split: if_splits option.splits)
  then show ?thesis by (simp add: cmd_extends_def)
qed

theorem clang_family_keeps_command_witness:
  "\<exists>f. ClangCLParseFlags \<lparr>ClangOptions = Map.empty, ClangPrefixes = [], ClangNormalizedFlags = Map.empty,
          ClangCLOptions = Map.empty, ClangCLPrefixes = [], ClangCLNormalizedFlags = Map.empty\<rparr>
        (\<lambda>p. Err NotExist) ''windows'' [''clang-cl'', ''a.cc''] ''out'' ''/r'' = Ok f \<and>
       ExecutablePath f = ''clang-cl'' \<and> WorkingDirectory f = ''out'' \<and> ExecRoot f = ''/r''"
proof -
  let ?t = "\<lparr>ClangOptions = Map.empty, ClangPrefixes = [], ClangNormalizedFlags = Map.empty,
          ClangCLOptions = Map.empty, ClangCLPrefixes = [], ClangCLNormalizedFlags = Map.empty\<rparr>"
  have "\<exists>f. ClangCLParseFlags ?t (\<lambda>p. Err NotExist) ''windows'' [''clang-cl'', ''a.cc''] ''out'' ''/r'' = Ok f"
    by (simp add: ClangCLParseFlags_def NewScanner_def Base_def Ext_def trim_suffix_def new_scanner_def Let_def
        ScanLoop.simps HasNext_def ReadNextFlag_def normalizedFlag_def updatedFlag_def handleClangCLFlags_def
        clHandleArg_def clangOption_def HandleClangFlags_def clang_switch_def zero_result_def dep_options_def)
  then show ?thesis
    using clang_family_keeps_command [of ?t _ "[''clang-cl'', ''a.cc'']" "''out''" "''/r''" False _
        "\<lambda>p. Err NotExist" "''windows''"] by fastforce
qed

text \<open>rewriting the flags of a NaCl action drops exactly the pnacl options, keeps the rest
  in order, and leaves a target option in the flags.\<close>

theorem naclFlags_target:
  assumes "naclFlags f = Ok f'"
  shows "list_ex (\<lambda>x. Key x = ''-target'' \<or> Key x = ''--target='') (Flags f') \<and>
         (\<exists>xs. Flags f' = filter (\<lambda>x. \<not> is_pnacl_flag x) (Flags f) @ xs) \<and>
         (\<forall>x \<in> set (Flags f'). \<not> is_pnacl_flag x)"
  using assms
  by (auto simp: naclFlags_def Let_def is_pnacl_flag_def split: if_splits)

theorem naclFlags_target_witness:
  "\<exists>f'. naclFlags (zero_flags\<lparr>ExecutablePath := ''bin/x86_64-nacl-clang'',
            Flags := [NewFlag ''--pnacl-x'' [] [] False, value_flag ''-c'']\<rparr>) = Ok f' \<and>
        list_ex (\<lambda>x. Key x = ''-target'' \<or> Key x = ''--target='') (Flags f') \<and>
        (\<forall>x \<in> set (Flags f'). \<not> is_pnacl_flag x)"
proof -
  have "\<exists>f'. naclFlags (zero_flags\<lparr>ExecutablePath := ''bin/x86_64-nacl-clang'',
            Flags := [NewFlag ''--pnacl-x'' [] [] False, value_flag ''-c'']\<rparr>) = Ok f'"
    by (simp add: naclFlags_def Let_def Base_def)
  then show ?thesis using naclFlags_target by blast
qed

text \<open>the copy of command flags the lint and header ABI processors work on loses the
  dependencies and virtual directories, and the header ABI copy keeps every flag but
  --root-dir.\<close>

theorem headerABIToCppFlags_copy:
  "headerABIToCppFlags f =
     f\<lparr>Dependencies := [], VirtualDirectories := [],
       Flags := filter (\<lambda>x. Key x \<noteq> ''--root-dir'') (Flags f)\<rparr>"
  by (simp add: headerABIToCppFlags_def Copy_fields)

end
