(* ===== verification/ToolParsers.thy ===== *)
theory ToolParsers
  imports ArgsScanner
begin

text \<open>
  The flag parsers of the Java, archive and generic actions, under \<open>inputprocessor/action/\<close>:
  \<open>d8\<close>, \<open>r8\<close>, \<open>javac\<close>, \<open>metalava\<close>, \<open>tool\<close> and \<open>archive\<close>. A parser's own state is the
  command flags collected so far. The archive parser appends the words of a response file to
  its work list, so its loop need not end: it is a partial function whose \<open>None\<close> is "never
  returns".
\<close>

datatype parse_error = TooFewArgs | RspError read_error

definition init_flags :: "string list \<Rightarrow> string \<Rightarrow> string \<Rightarrow> CommandFlags" where
  "init_flags command workingDir execRoot =
     zero_flags\<lparr>ExecutablePath := hd command, WorkingDirectory := workingDir, ExecRoot := execRoot\<rparr>"

abbreviation put_deps :: "string list \<Rightarrow> CommandFlags \<Rightarrow> CommandFlags" where
  "put_deps ds f \<equiv> f\<lparr>Dependencies := Dependencies f @ ds\<rparr>"

abbreviation put_outs :: "string list \<Rightarrow> CommandFlags \<Rightarrow> CommandFlags" where
  "put_outs ps f \<equiv> f\<lparr>OutputFilePaths := OutputFilePaths f @ ps\<rparr>"

abbreviation put_dirs :: "string list \<Rightarrow> CommandFlags \<Rightarrow> CommandFlags" where
  "put_dirs ps f \<equiv> f\<lparr>OutputDirPaths := OutputDirPaths f @ ps\<rparr>"

abbreviation put_targets :: "string list \<Rightarrow> CommandFlags \<Rightarrow> CommandFlags" where
  "put_targets ps f \<equiv> f\<lparr>TargetFilePaths := TargetFilePaths f @ ps\<rparr>"

abbreviation put_flags :: "string list \<Rightarrow> CommandFlags \<Rightarrow> CommandFlags" where
  "put_flags as f \<equiv> f\<lparr>Flags := Flags f @ map value_flag as\<rparr>"

section \<open>tool, d8, r8\<close>

definition ToolParseFlags :: "string list \<Rightarrow> string \<Rightarrow> string \<Rightarrow> (parse_error, CommandFlags) res" where
  "ToolParseFlags command workingDir execRoot =
     (if length command < 1 then Err TooFewArgs
      else Ok (put_flags (tl command) (init_flags command workingDir execRoot)))"

definition d8_handle :: "Scanner \<Rightarrow> CommandFlags \<Rightarrow> (parse_error, CommandFlags) res" where
  "d8_handle s f =
     (let flag = NormalizedKey (CurResult s); args = ResArgs (CurResult s); vals = Values (CurResult s) in
      if flag \<in> {''--lib'', ''--main-dex-list'', ''--main-dex-list=''} then
        res_bind (go_index vals 0) (\<lambda>v. Ok (put_deps [v] f))
      else if flag = ''--output'' then res_bind (go_index vals 0) (\<lambda>v. Ok (put_dirs [v] f))
      else res_bind (go_index args 0) (\<lambda>a. Ok (put_flags [a] f)))"

definition D8ParseFlags :: "string list \<Rightarrow> string \<Rightarrow> string \<Rightarrow> (parse_error, CommandFlags) res" where
  "D8ParseFlags command workingDir execRoot =
     (if length command < 2 then Err TooFewArgs
      else ScanLoop d8_handle
             (new_scanner (butlast (tl command))
                [''--lib'' \<mapsto> 1, ''--main-dex-list'' \<mapsto> 1, ''--output'' \<mapsto> 1]
                [\<lparr>Prefix = ''--main-dex-list='', NumArgs = 0\<rparr>] Map.empty)
             ((init_flags command workingDir execRoot)\<lparr>TargetFilePaths := [last command]\<rparr>))"

definition r8_handle :: "Scanner \<Rightarrow> CommandFlags \<Rightarrow> (parse_error, CommandFlags) res" where
  "r8_handle s f =
     (let flag = NormalizedKey (CurResult s); args = ResArgs (CurResult s); vals = Values (CurResult s) in
      if flag \<in> {''-libraryjars'', ''-include''} then
        res_bind (go_index vals 0) (\<lambda>v. Ok (put_deps (split_on (CHR '':'') v) f))
      else if flag = ''--output'' then res_bind (go_index vals 0) (\<lambda>v. Ok (put_dirs [v] f))
      else if flag \<in> {''--main-dex-list='', ''--main-dex-list''} then
        res_bind (go_index vals 0) (\<lambda>v. Ok (put_deps [v] f))
      else if flag \<in> {''-printmapping'', ''-printconfiguration''} then
        res_bind (go_index vals 0) (\<lambda>v. Ok (put_outs [v] f))
      else if flag = ''-injars'' then res_bind (go_index vals 0) (\<lambda>v. Ok (put_targets [v] f))
      else res_bind (go_index args 0) (\<lambda>a. Ok (put_flags [a] f)))"

definition R8ParseFlags :: "string list \<Rightarrow> string \<Rightarrow> string \<Rightarrow> (parse_error, CommandFlags) res" where
  "R8ParseFlags command workingDir execRoot =
     (if length command < 2 then Err TooFewArgs
      else ScanLoop r8_handle
             (new_scanner (tl command)
                [''-libraryjars'' \<mapsto> 1, ''-include'' \<mapsto> 1, ''--output'' \<mapsto> 1, ''--main-dex-list'' \<mapsto> 1,
                 ''-printmapping'' \<mapsto> 1, ''-printconfiguration'' \<mapsto> 1, ''-injars'' \<mapsto> 1]
                [\<lparr>Prefix = ''--main-dex-list='', NumArgs = 0\<rparr>] Map.empty)
             (init_flags command workingDir execRoot))"

section \<open>javac\<close>

definition keep_dep :: "string \<Rightarrow> bool" where
  "keep_dep d \<longleftrightarrow> \<not> (d = [] \<or> d = ''.'')"

definition javac_handleArg :: "Scanner \<Rightarrow> CommandFlags \<Rightarrow> (parse_error, CommandFlags) res" where
  "javac_handleArg sc f =
     (let flag = NormalizedKey (CurResult sc); args = ResArgs (CurResult sc); vals = Values (CurResult sc);
          out = (\<lambda>f. Ok (put_flags args f)) in
      if flag \<in> {''-bootclasspath'', ''-classpath'', ''-processorpath''} then
        res_bind (go_index vals 0) (\<lambda>v. out (put_deps (filter keep_dep (split_on (CHR '':'') v)) f))
      else if flag \<in> {''--system='', ''-Aroom.schemaLocation=''} then
        res_bind (go_index vals 0) (\<lambda>v. out (put_deps [v] f))
      else if flag \<in> {''-d'', ''-s''} then res_bind (go_index vals 0) (\<lambda>v. out (put_dirs [v] f))
      else if flag = [] then res_bind (go_index args 0) (\<lambda>a. out (put_deps [a] f))
      else out f)"

definition handleJavacFlags ::
  "(string \<Rightarrow> (read_error, string) res) \<Rightarrow> Scanner \<Rightarrow> CommandFlags \<Rightarrow> (parse_error, CommandFlags) res" where
  "handleJavacFlags readFile scanner cmdFlags =
     (let nextRes = CurResult scanner;
          f0 = zero_flags\<lparr>ExecRoot := ExecRoot cmdFlags, WorkingDirectory := WorkingDirectory cmdFlags\<rparr>;
          merge = (\<lambda>c f. c\<lparr>Dependencies := Dependencies c @ Dependencies f,
                          OutputDirPaths := OutputDirPaths c @ OutputDirPaths f,
                          OutputFilePaths := OutputFilePaths c @ OutputFilePaths f\<rparr>) in
      res_bind (go_index (ResArgs nextRes) 0) (\<lambda>arg.
        if prefix ''@'' arg then
          let rspFile = tl arg;
              c1 = put_targets [rspFile] cmdFlags;
              path = (if \<not> IsAbs rspFile then Join [ExecRoot c1, WorkingDirectory c1, rspFile] else rspFile);
              c2 = put_flags [arg] c1
          in res_bind (ParseWithFunc readFile RspError path scanner javac_handleArg f0)
               (\<lambda>f. Ok (merge c2 f))
        else
          res_bind (javac_handleArg scanner f0) (\<lambda>f.
            Ok (merge (cmdFlags\<lparr>Flags := Flags cmdFlags @ Flags f\<rparr>) f))))"

definition JavacParseFlags ::
  "(string \<Rightarrow> (read_error, string) res) \<Rightarrow> string list \<Rightarrow> string \<Rightarrow> string \<Rightarrow> (parse_error, CommandFlags) res"
  where
  "JavacParseFlags readFile command workingDir execRoot =
     (if length command < 2 then Err TooFewArgs
      else ScanLoop (handleJavacFlags readFile)
             (new_scanner (tl command)
                [''-bootclasspath'' \<mapsto> 1, ''-classpath'' \<mapsto> 1, ''-processorpath'' \<mapsto> 1, ''-d'' \<mapsto> 1, ''-s'' \<mapsto> 1]
                [\<lparr>Prefix = ''--system='', NumArgs = 0\<rparr>, \<lparr>Prefix = ''-Aroom.schemaLocation='', NumArgs = 0\<rparr>]
                Map.empty)
             (init_flags command workingDir execRoot))"

section \<open>metalava\<close>

definition depFlags :: "string list" where
  "depFlags = [''--source-files'', ''--source-path'', ''-sourcepath'', ''-classpath'', ''-bootclasspath'',
     ''--merge-qualifier-annotations'', ''--merge-inclusion-annotations'',
     ''--validate-nullability-from-list'', ''--input-api-jar'', ''--manifest'', ''--subtract-api'',
     ''--register-artifact'', ''--check-compatibility:api:current'',
     ''--check-compatibility:removed:current'', ''--check-compatibility:api:released'',
     ''--check-compatibility:removed:released'', ''--api-lint'', ''--migrate-nullness'',
     ''--annotation-coverage-of'', ''--include-annotation-classes'', ''--rewrite-annotations'',
     ''--apply-api-levels'', ''--baseline:api-lint'', ''--baseline:compatibility:released'']"

definition outFileFlags :: "string list" where
  "outFileFlags = [''--api'', ''--private-api'', ''--dex-api'', ''--private-dex-api'', ''--dex-api-mapping'',
     ''--removed-api'', ''--removed-dex-api'', ''--proguard'', ''--write-doc-stubs-source-list'',
     ''--report-even-if-suppressed'', ''--api-xml'', ''--write-class-coverage-to'',
     ''--write-member-coverage-to'', ''--extract-annotations'', ''--generate-api-levels'',
     ''--nullability-warnings-txt'', ''--update-baseline:compatibility:released'',
     ''--update-baseline:api-lint'']"

definition outDirFlags :: "string list" where
  "outDirFlags = [''--sdk-values'', ''--stubs'', ''--doc-stubs'', ''--rewrite-annotations'']"

definition inOutFlags :: "string list" where
  "inOutFlags = [''--baseline'', ''--update-baseline'', ''--merge-baseline'']"

definition srcDestFlags :: "string list" where
  "srcDestFlags = [''--convert-to-jdiff'', ''--convert-to-v1'', ''--convert-to-v2'', ''--copy-annotations'']"

definition srcSrcDestFlags :: "string list" where
  "srcSrcDestFlags = [''--convert-new-to-jdiff'', ''--convert-new-to-v2'']"

definition valueFlags :: "string list" where
  "valueFlags = [''--android-jar-pattern'', ''--strict-input-files'', ''--strict-input-files:warn'']"

text \<open>The later loops of \<open>init\<close> overwrite the earlier ones.\<close>

definition metavalaFlags :: "string \<rightharpoonup> int" where
  "metavalaFlags k =
     (if k \<in> set valueFlags \<or> k \<in> set outDirFlags \<or> k \<in> set outFileFlags \<or> k \<in> set inOutFlags then Some 1
      else if k \<in> set srcSrcDestFlags then Some 3
      else if k \<in> set srcDestFlags then Some 2
      else None)"

definition metalava_deps ::
  "(string \<Rightarrow> (read_error, string) res) \<Rightarrow> string \<Rightarrow> string \<Rightarrow> string \<Rightarrow> (parse_error, string list) res" where
  "metalava_deps readFile execRoot workingDir value =
     (if contains '':'' value then Ok (split_on (CHR '':'') value)
      else if contains '','' value then Ok (split_on (CHR '','') value)
      else if prefix ''@'' value then
        (case RspParse readFile (Join [execRoot, workingDir, tl value]) of
           Ok rspDeps \<Rightarrow> Ok (tl value # rspDeps)
         | Err e \<Rightarrow> Err (RspError e)
         | Panic \<Rightarrow> Panic)
      else Ok [value])"

text \<open>The branches that do not consume a further argument.\<close>

definition metalava_switch ::
  "(string \<Rightarrow> (read_error, string) res) \<Rightarrow> FlagResult \<Rightarrow> CommandFlags \<Rightarrow> (parse_error, CommandFlags) res" where
  "metalava_switch readFile r f =
     (let flag = NormalizedKey r; args = ResArgs r; vals = Values r in
      if flag \<in> set inOutFlags then
        res_bind (go_index vals 0) (\<lambda>v. Ok (put_outs [v] (put_deps [v] f)))
      else if flag \<in> set outFileFlags then res_bind (go_index vals 0) (\<lambda>v. Ok (put_outs [v] f))
      else if flag \<in> set outDirFlags then res_bind (go_index vals 0) (\<lambda>v. Ok (put_dirs [v] f))
      else if flag \<in> set srcDestFlags then
        res_bind (go_index vals 0) (\<lambda>v. res_bind (go_index vals 1) (\<lambda>w. Ok (put_outs [w] (put_deps [v] f))))
      else if flag \<in> set srcSrcDestFlags then
        res_bind (go_index vals 0) (\<lambda>u. res_bind (go_index vals 1) (\<lambda>v.
          res_bind (go_index vals 2) (\<lambda>w. Ok (put_outs [w] (put_deps [u, v] f)))))
      else if flag = ''--android-jar-pattern'' then
        res_bind (go_index vals 0) (\<lambda>v. Ok (put_deps [takeWhile (\<lambda>c. c \<noteq> CHR ''%'') v] f))
      else if flag \<in> {''--strict-input-files'', ''--strict-input-files:warn''} then
        res_bind (go_index vals 0) (\<lambda>v. Ok (put_outs [v] (f\<lparr>EmittedDependencyFile := v\<rparr>)))
      else
        res_bind (go_index args 0) (\<lambda>a.
          if flag = [] \<and> prefix ''@'' a then
            (case RspParse readFile (Join [ExecRoot f, WorkingDirectory f, tl a]) of
               Ok rspDeps \<Rightarrow> Ok (put_deps rspDeps (put_targets [tl a] f))
             | Err e \<Rightarrow> Err (RspError e)
             | Panic \<Rightarrow> Panic)
          else Ok (put_flags [a] f)))"

text \<open>The loop reads a flag, and for a dependency flag followed by a non-flag argument that
  argument too.\<close>

lemma LookAhead_Args: "LookAhead s = Some (k, s') \<Longrightarrow> Args s' = Args s"
  by (auto simp: LookAhead_def NextFlag_def split: option.splits dest: ReadNextFlag_step)

lemma LookAhead_decreases:
  assumes "ReadNextFlag s = Some (r, s1)" and "LookAhead s1 = Some (k, s2)"
  shows "length (Args s2) < length (Args s)"
    and "ReadNextFlag s2 = Some (r', s3) \<Longrightarrow> length (Args s3) < length (Args s)"
  using ReadNextFlag_decreases [OF assms(1)] LookAhead_Args [OF assms(2)]
    ReadNextFlag_decreases [of s2 r' s3] by auto

function metalava_loop ::
  "(string \<Rightarrow> (read_error, string) res) \<Rightarrow> Scanner \<Rightarrow> CommandFlags \<Rightarrow> (parse_error, CommandFlags) res" where
  "metalava_loop readFile s f =
     (if \<not> HasNext s then Ok f
      else case ReadNextFlag s of
        None \<Rightarrow> Panic
      | Some (r, s1) \<Rightarrow>
          if NormalizedKey r \<in> set depFlags \<and> HasNext s1 then
            (case LookAhead s1 of
               None \<Rightarrow> Panic
             | Some (k, s2) \<Rightarrow>
                 if k = [] then
                   (case ReadNextFlag s2 of
                      None \<Rightarrow> Panic
                    | Some (r', s3) \<Rightarrow>
                        if NormalizedKey r = ''-sourcepath'' then
                          metalava_loop readFile s3 (f\<lparr>VirtualDirectories := VirtualDirectories f @ ResArgs r'\<rparr>)
                        else
                          res_bind (go_index (ResArgs r') 0) (\<lambda>v.
                            res_bind (metalava_deps readFile (ExecRoot f) (WorkingDirectory f) v) (\<lambda>deps.
                              metalava_loop readFile s3 (put_deps (filter keep_dep deps) f))))
                 else res_bind (metalava_switch readFile r f) (metalava_loop readFile s2))
          else res_bind (metalava_switch readFile r f) (metalava_loop readFile s1))"
  by pat_completeness auto
termination
  by (relation "measure (\<lambda>(rf, s, f). length (Args s))")
    (auto dest: ReadNextFlag_decreases intro: LookAhead_decreases)

declare metalava_loop.simps [simp del]

definition MetalavaParseFlags ::
  "(string \<Rightarrow> (read_error, string) res) \<Rightarrow> string list \<Rightarrow> string \<Rightarrow> string \<Rightarrow> (parse_error, CommandFlags) res"
  where
  "MetalavaParseFlags readFile command workingDir execRoot =
     (if length command < 2 then Err TooFewArgs
      else metalava_loop readFile (new_scanner (tl command) metavalaFlags [] Map.empty)
             (init_flags command workingDir execRoot))"

section \<open>archive\<close>

datatype ar_op = opArchive | opPrint | opDelete

record ar_state =
  operation :: ar_op
  archive :: string
  objects :: "string list"
  ar_flags :: "string list"

definition ar_start :: ar_state where
  "ar_start = \<lparr>operation = opArchive, archive = [], objects = [], ar_flags = []\<rparr>"

text \<open>One argument; the words of a response file are handed back to be queued.\<close>

definition ar_step ::
  "(string \<Rightarrow> (read_error, string) res) \<Rightarrow> string \<Rightarrow> string \<Rightarrow> string \<Rightarrow> ar_state \<Rightarrow>
   (read_error, ar_state \<times> string list) res" where
  "ar_step readFile execRoot workingDir arg st =
     (if prefix ''-'' arg then
        Ok (st\<lparr>ar_flags := ar_flags st @ [arg],
              operation := (if arg = ''-t'' then opPrint else if arg = ''-d'' then opDelete else operation st)\<rparr>, [])
      else if suffix ''.a'' arg then Ok (st\<lparr>archive := arg\<rparr>, [])
      else if prefix ''@'' arg then
        let rsp = tl arg;
            path = (if \<not> IsAbs rsp then Join [execRoot, workingDir, rsp] else rsp)
        in res_bind (RspParse readFile path) (\<lambda>rspFlags. Ok (st\<lparr>objects := objects st @ [rsp]\<rparr>, rspFlags))
      else Ok (st\<lparr>objects := objects st @ [arg]\<rparr>, []))"

partial_function (option) ar_loop ::
  "(string \<Rightarrow> (read_error, string) res) \<Rightarrow> string \<Rightarrow> string \<Rightarrow> string list \<Rightarrow> ar_state \<Rightarrow>
   (read_error, ar_state) res option" where
  "ar_loop readFile execRoot workingDir nextArgs st =
     (case nextArgs of
        [] \<Rightarrow> Some (Ok st)
      | arg # rest \<Rightarrow>
          (case ar_step readFile execRoot workingDir arg st of
             Ok (st', new) \<Rightarrow> ar_loop readFile execRoot workingDir (rest @ new) st'
           | Err e \<Rightarrow> Some (Err e)
           | Panic \<Rightarrow> Some Panic))"

declare ar_loop.simps [code]

definition ArchiveParseFlags ::
  "(string \<Rightarrow> (read_error, string) res) \<Rightarrow> string list \<Rightarrow> string \<Rightarrow> string \<Rightarrow> (parse_error, CommandFlags) res option"
  where
  "ArchiveParseFlags readFile cmd workingDir execRoot =
     (if length cmd < 1 then Some (Err TooFewArgs)
      else case ar_loop readFile execRoot workingDir (tl cmd) ar_start of
             None \<Rightarrow> None
           | Some (Err e) \<Rightarrow> Some (Err (RspError e))
           | Some Panic \<Rightarrow> Some Panic
           | Some (Ok st) \<Rightarrow>
               let f = put_flags (ar_flags st) (init_flags cmd workingDir execRoot) in
               Some (Ok (case operation st of
                 opArchive \<Rightarrow> f\<lparr>Dependencies := objects st, OutputFilePaths := [archive st]\<rparr>
               | opDelete \<Rightarrow> f\<lparr>Dependencies := [archive st], OutputFilePaths := [archive st]\<rparr>
               | opPrint \<Rightarrow> f\<lparr>Dependencies := [archive st]\<rparr>)))"

section \<open>The handlers extend the flags\<close>

lemma d8_extends: "all_extend f (d8_handle s f)"
  unfolding d8_handle_def Let_def
  by (intro all_extend_if all_extend_bind all_extend_Ok) (simp_all add: cmd_extends_def)

lemma r8_extends: "all_extend f (r8_handle s f)"
  unfolding r8_handle_def Let_def
  by (intro all_extend_if all_extend_bind all_extend_Ok) (simp_all add: cmd_extends_def)

lemma javac_extends: "all_extend f (handleJavacFlags readFile s f)"
  unfolding handleJavacFlags_def Let_def
  by (intro all_extend_if all_extend_bind all_extend_Ok) (simp_all add: cmd_extends_def)

interpretation d8: flag_handler d8_handle cmd_extends
  by (rule flag_handlerI) (rule d8_extends)

interpretation r8: flag_handler r8_handle cmd_extends
  by (rule flag_handlerI) (rule r8_extends)

interpretation javac: flag_handler "handleJavacFlags readFile" cmd_extends
  for readFile
  by (rule flag_handlerI) (rule javac_extends)

lemma init_flags_fields [simp]:
  "ExecutablePath (init_flags c w r) = hd c" "WorkingDirectory (init_flags c w r) = w"
  "ExecRoot (init_flags c w r) = r" "TargetFilePaths (init_flags c w r) = []"
  "Dependencies (init_flags c w r) = []" "OutputFilePaths (init_flags c w r) = []"
  by (simp_all add: init_flags_def zero_flags_def)

section \<open>Archive response files\<close>

text \<open>The response files a run may read contain no further response files.\<close>

definition flat_rsp :: "(string \<Rightarrow> (read_error, string) res) \<Rightarrow> bool" where
  "flat_rsp readFile \<longleftrightarrow>
     (\<forall>p ws. RspParse readFile p = Ok ws \<longrightarrow> (\<forall>w \<in> set ws. \<not> prefix ''@'' w))"

abbreviation rsp_count :: "string list \<Rightarrow> nat" where
  "rsp_count as \<equiv> length (filter (prefix ''@'') as)"

lemma ar_step_new:
  "ar_step readFile er wd arg st = Ok (st', new) \<Longrightarrow> new \<noteq> [] \<Longrightarrow>
   prefix ''@'' arg \<and> (\<exists>p. RspParse readFile p = Ok new)"
  by (auto simp: ar_step_def Let_def res_bind_eq_Ok split: if_splits)


lemma ar_loop_returns:
  "flat_rsp readFile \<Longrightarrow> \<exists>r. ar_loop readFile er wd as st = Some r"
proof (induction "rsp_count as" arbitrary: as st rule: less_induct)
  case (less as st)
  show ?case
    using less.hyps
  proof (induction as arbitrary: st)
    case Nil
    show ?case by (simp add: ar_loop.simps)
  next
    case (Cons a as)
    show ?case
    proof (cases "ar_step readFile er wd a st")
      case (Ok sn)
      then obtain st' new where sn: "ar_step readFile er wd a st = Ok (st', new)" by (cases sn) auto
      have "\<exists>r. ar_loop readFile er wd (as @ new) st' = Some r"
      proof (cases "new = []")
        case True
        have "\<And>as' st. rsp_count as' < rsp_count as \<Longrightarrow> flat_rsp readFile \<Longrightarrow>
            \<exists>r. ar_loop readFile er wd as' st = Some r"
          by (rule Cons.prems) auto
        then show ?thesis using Cons.IH [of st'] True by simp
      next
        case False
        have "rsp_count new = 0" "prefix ''@'' a"
          using ar_step_new [OF sn False] less.prems by (auto simp: flat_rsp_def filter_empty_conv)
        then show ?thesis
          by (intro Cons.prems less.prems) auto
      qed
      then show ?thesis using sn by (simp add: ar_loop.simps [of _ _ _ "a # as"])
    qed (simp_all add: ar_loop.simps [of _ _ _ "a # as"])
  qed
qed

text \<open>A response file whose only word is itself.\<close>

lemma ar_loop_self:
  assumes "RspParse readFile (if \<not> IsAbs p then Join [er, wd, p] else p) = Ok [CHR ''@'' # p]"
    and "\<not> suffix ''.a'' (CHR ''@'' # p)"
  shows "ar_loop readFile er wd [CHR ''@'' # p] st = None"
proof -
  have step: "ar_step readFile er wd (CHR ''@'' # p) s =
      Ok (s\<lparr>objects := objects s @ [p]\<rparr>, [CHR ''@'' # p])" for s
    using assms by (simp add: ar_step_def Let_def)
  have "\<not> (rf = readFile \<and> e = er \<and> w = wd \<and> as = [CHR ''@'' # p])"
    if "ar_loop rf e w as s = Some y" for rf e w as s y
  proof (rule ar_loop.raw_induct [where P = "\<lambda>rf e w as s y.
      \<not> (rf = readFile \<and> e = er \<and> w = wd \<and> as = [CHR ''@'' # p])", OF _ that])
    fix loop rf e w as s y
    assume IH: "\<And>rf e w as s y. loop rf e w as s = Some y \<Longrightarrow>
        \<not> (rf = readFile \<and> e = er \<and> w = wd \<and> as = [CHR ''@'' # p])"
      and run: "(case as of [] \<Rightarrow> Some (Ok s)
         | arg # rest \<Rightarrow> (case ar_step rf e w arg s of
             Ok (st', new) \<Rightarrow> loop rf e w (rest @ new) st' | Err e \<Rightarrow> Some (Err e) | Panic \<Rightarrow> Some Panic)) = Some y"
    show "\<not> (rf = readFile \<and> e = er \<and> w = wd \<and> as = [CHR ''@'' # p])"
      using run IH [of readFile er wd "[CHR ''@'' # p]"] step by (auto split: list.splits)
  qed
  then show ?thesis by fastforce
qed

section \<open>Properties\<close>

text \<open>the archive parser returns on every command line when no response file names a
  further response file.\<close>

theorem ArchiveParseFlags_returns:
  assumes "flat_rsp readFile"
  shows "\<exists>r. ArchiveParseFlags readFile cmd workingDir execRoot = Some r"
proof -
  obtain r where "ar_loop readFile execRoot workingDir (tl cmd) ar_start = Some r"
    using ar_loop_returns [OF assms] by blast
  then show ?thesis
    by (cases r) (auto simp: ArchiveParseFlags_def Let_def)
qed

theorem ArchiveParseFlags_returns_witness:
  "\<exists>r. ArchiveParseFlags (\<lambda>p. Ok ''a.o b.o'') [''ar'', ''rcs'', ''x.a'', ''@objs.rsp''] ''out'' ''/r'' = Some r"
proof (rule ArchiveParseFlags_returns)
  have "RspParse (\<lambda>p. Ok ''a.o b.o'') p = Ok [''a.o'', ''b.o'']" for p
    by (simp add: RspParse_def str_fields_def trim_chars_def is_space_def)
  then show "flat_rsp (\<lambda>p. Ok ''a.o b.o'')" by (simp add: flat_rsp_def)
qed

text \<open>a response file that names itself makes the archive parser run forever: the words
  of the file are queued behind the remaining arguments with no record of files seen.\<close>

theorem ArchiveParseFlags_self_include_diverges:
  assumes "RspParse readFile (if \<not> IsAbs p then Join [execRoot, workingDir, p] else p) = Ok [CHR ''@'' # p]"
    and "\<not> suffix ''.a'' (CHR ''@'' # p)"
  shows "ArchiveParseFlags readFile [ar, CHR ''@'' # p] workingDir execRoot = None"
  using ar_loop_self [OF assms] by (simp add: ArchiveParseFlags_def)

theorem ArchiveParseFlags_self_include_diverges_witness:
  "ArchiveParseFlags (\<lambda>p. Ok ''@self.rsp'') [''ar'', CHR ''@'' # ''self.rsp''] ''out'' ''/r'' = None"
  by (rule ArchiveParseFlags_self_include_diverges)
    (simp_all add: RspParse_def str_fields_def trim_chars_def is_space_def suffix_to_prefix)

text \<open>the parsers of the Java tools keep the command's executable, working directory and
  exec root, and the d8 parser keeps the last argument as the target.\<close>

theorem java_parsers_keep_command:
  assumes "D8ParseFlags command wd er = Ok f \<or> R8ParseFlags command wd er = Ok f \<or>
           JavacParseFlags readFile command wd er = Ok f"
  shows "ExecutablePath f = hd command \<and> WorkingDirectory f = wd \<and> ExecRoot f = er \<and>
         (D8ParseFlags command wd er = Ok f \<longrightarrow> hd (TargetFilePaths f) = last command)"
proof -
  have d8: "cmd_extends ((init_flags command wd er)\<lparr>TargetFilePaths := [last command]\<rparr>) f"
    if "D8ParseFlags command wd er = Ok f"
    using that d8.scan_extends by (auto simp: D8ParseFlags_def split: if_splits)
  have "cmd_extends (init_flags command wd er) f"
    if "R8ParseFlags command wd er = Ok f \<or> JavacParseFlags readFile command wd er = Ok f"
    using that r8.scan_extends javac.scan_extends
    by (auto simp: R8ParseFlags_def JavacParseFlags_def split: if_splits)
  with d8 assms show ?thesis
    by (auto simp: cmd_extends_def prefix_def)
qed

theorem java_parsers_keep_command_witness:
  "\<exists>f. D8ParseFlags [''d8'', ''--lib'', ''rt.jar'', ''in.jar''] ''out'' ''/r'' = Ok f \<and>
       ExecutablePath f = ''d8'' \<and> WorkingDirectory f = ''out'' \<and> ExecRoot f = ''/r'' \<and>
       hd (TargetFilePaths f) = ''in.jar''"
proof -
  have "\<exists>f. D8ParseFlags [''d8'', ''--lib'', ''rt.jar'', ''in.jar''] ''out'' ''/r'' = Ok f"
    by (simp add: D8ParseFlags_def ScanLoop.simps HasNext_def ReadNextFlag_def new_scanner_def
        normalizedFlag_def take_args_def updatedFlag_def Let_def d8_handle_def go_index_def)
  then show ?thesis
    using java_parsers_keep_command [of "[''d8'', ''--lib'', ''rt.jar'', ''in.jar'']" "''out''" "''/r''"]
    by fastforce
qed

end
