(* ===== verification/InputProcessor.thy ===== *)
theory InputProcessor
  imports PathTranslator Labels ActionParsers ToolParsers
begin

text \<open>
  The input processor: \<open>internal/pkg/inputprocessor/inputprocessor.go\<close> (the base
  preprocessor and \<open>Compute\<close>), \<open>fs_unix.go\<close>, \<open>toolchain/\<close>, and the dispatch in
  \<open>pkg/inputprocessor/inputprocessor.go\<close>. A preprocessor is a record of the operations of Go's
  \<open>Preprocessor\<close> interface over a state; \<open>None\<close> as an outcome is a panic. The file system and
  the caches of the SDK are arguments (\<open>fs_env\<close>). The action's \<open>InputSpec\<close> is never nil once
  \<open>Init\<close> has run, so the model keeps it as a value.
\<close>

section \<open>Data\<close>

record VirtualInput =
  Path :: string
  IsEmptyDirectory :: bool

record InputSpec =
  Inputs :: "string list"
  VirtualInputs :: "VirtualInput list"
  InputExclusions :: "string list"
  EnvironmentVariables :: "string \<rightharpoonup> string"

definition empty_input_spec :: InputSpec where
  "empty_input_spec = \<lparr>Inputs = [], VirtualInputs = [], InputExclusions = [], EnvironmentVariables = Map.empty\<rparr>"

record ActionSpec =
  ASInputSpec :: InputSpec
  OutputFiles :: "string list"
  OutputDirectories :: "string list"
  ASEmittedDependencyFile :: string
  UsedShallowMode :: bool

definition spec_of_inputs :: "InputSpec \<Rightarrow> ActionSpec" where
  "spec_of_inputs i = \<lparr>ASInputSpec = i, OutputFiles = [], OutputDirectories = [],
     ASEmittedDependencyFile = [], UsedShallowMode = False\<rparr>"

record Options =
  Cmd :: "string list"
  WorkingDir :: string
  OptExecRoot :: string
  OptInputs :: "InputSpec option"
  OptLabels :: "string \<rightharpoonup> string"
  ToolchainInputs :: "string list"
  ShallowFallback :: bool

datatype ip_error =
    FlagParsingFailed
  | NoFlagsSet
  | ToolchainFailed
  | SpecFailed

record BaseState =
  BpOptions :: Options
  BpFlags :: "CommandFlags option"
  BpErr :: "ip_error option"
  actionSpec :: "ActionSpec option"

section \<open>The environment\<close>

text \<open>\<open>statDir p\<close> is \<open>os.Stat\<close>: \<open>None\<close> an error, otherwise whether it is a directory.
  \<open>nfcLoad\<close> and \<open>fscLoad\<close> are the lookups in the normalized-file and the stat cache
  (\<open>None\<close>: the preprocessor has no such cache); \<open>fmcIsDir\<close> is the file metadata cache.\<close>

record fs_env =
  statDir :: "string \<Rightarrow> bool option"
  nfcLoad :: "(string \<rightharpoonup> string) option"
  fscLoad :: "(string \<rightharpoonup> bool) option"
  fmcIsDir :: "(string \<Rightarrow> bool) option"

definition normalize :: "fs_env \<Rightarrow> string \<Rightarrow> string \<Rightarrow> string \<times> bool" where
  "normalize env execRoot pathname =
     (let f = dropWhile (\<lambda>c. c = CHR ''/'') (Clean pathname) in
      (f, statDir env (Join [execRoot, f]) \<noteq> None))"

section \<open>BasePreprocessor\<close>

definition ParseBoolTrue :: "string list" where
  "ParseBoolTrue = [''1'', ''t'', ''T'', ''TRUE'', ''true'', ''True'']"

definition BaseInit :: "Options \<Rightarrow> BaseState \<Rightarrow> BaseState" where
  "BaseInit options c =
     (let spec = spec_of_inputs (case OptInputs options of None \<Rightarrow> empty_input_spec | Some i \<Rightarrow> i);
          spec' = (case OptLabels options ''shallow'' of
                     None \<Rightarrow> spec
                   | Some v \<Rightarrow> spec\<lparr>UsedShallowMode := v \<in> set ParseBoolTrue\<rparr>)
      in c\<lparr>BpOptions := options, actionSpec := Some spec'\<rparr>)"

definition merge_env :: "(string \<rightharpoonup> string) \<Rightarrow> (string \<rightharpoonup> string) \<Rightarrow> (string \<rightharpoonup> string)" where
  "merge_env old new = old ++ new"

text \<open>\<open>AppendSpec\<close>; the argument \<open>None\<close> is a nil spec.\<close>

definition AppendSpec :: "ActionSpec option \<Rightarrow> BaseState \<Rightarrow> BaseState" where
  "AppendSpec sp c =
     (let a = (case actionSpec c of None \<Rightarrow> spec_of_inputs empty_input_spec | Some a \<Rightarrow> a);
          s = (case sp of None \<Rightarrow> spec_of_inputs empty_input_spec | Some s \<Rightarrow> s);
          ai = ASInputSpec a; si = ASInputSpec s;
          inp = ai\<lparr>Inputs := Inputs ai @ Inputs si,
                   VirtualInputs := VirtualInputs ai @ VirtualInputs si,
                   InputExclusions := InputExclusions ai @ InputExclusions si,
                   EnvironmentVariables := merge_env (EnvironmentVariables ai) (EnvironmentVariables si)\<rparr>
      in c\<lparr>actionSpec := Some (a\<lparr>
            ASInputSpec := inp,
            OutputFiles := OutputFiles a @ OutputFiles s,
            OutputDirectories := OutputDirectories a @ OutputDirectories s,
            ASEmittedDependencyFile :=
              (if ASEmittedDependencyFile s \<noteq> [] then ASEmittedDependencyFile s else ASEmittedDependencyFile a),
            UsedShallowMode := (if \<not> UsedShallowMode a then UsedShallowMode s else UsedShallowMode a)\<rparr>)\<rparr>)"

definition flags_to_spec :: "string \<Rightarrow> string \<Rightarrow> CommandFlags \<Rightarrow> ActionSpec" where
  "flags_to_spec er wd f =
     (let allInputs = TargetFilePaths f @ Dependencies f @
                      (if ExecutablePath f \<noteq> [] then [ExecutablePath f] else []) in
      \<lparr>ASInputSpec = empty_input_spec\<lparr>
         Inputs := ListRelToExecRoot er wd allInputs,
         VirtualInputs := map (\<lambda>od. \<lparr>Path = od, IsEmptyDirectory = True\<rparr>)
                            (ListRelToExecRoot er wd (VirtualDirectories f))\<rparr>,
       OutputFiles = ListRelToExecRoot er wd (OutputFilePaths f),
       OutputDirectories = ListRelToExecRoot er wd (OutputDirPaths f),
       ASEmittedDependencyFile = RelToExecRoot er wd (EmittedDependencyFile f),
       UsedShallowMode = False\<rparr>)"

definition FlagsToActionSpec :: "CommandFlags \<Rightarrow> BaseState \<Rightarrow> BaseState" where
  "FlagsToActionSpec f c =
     AppendSpec (Some (flags_to_spec (OptExecRoot (BpOptions c)) (WorkingDir (BpOptions c)) f)) c"

text \<open>The body every \<open>ParseFlags\<close> shares: \<open>parse\<close> is the parser of the action type.\<close>

definition BaseParseFlags ::
  "(Options \<Rightarrow> ('e, CommandFlags) res) \<Rightarrow> BaseState \<Rightarrow> (BaseState \<times> ip_error option) option" where
  "BaseParseFlags parse c =
     (case parse (BpOptions c) of
        Panic \<Rightarrow> None
      | Err e \<Rightarrow> Some (c\<lparr>BpErr := Some FlagParsingFailed\<rparr>, Some FlagParsingFailed)
      | Ok f \<Rightarrow> Some (FlagsToActionSpec f (c\<lparr>BpFlags := Some f\<rparr>), None))"

text \<open>The normalized form of an input and whether normalizing succeeded.\<close>

definition normalized_input :: "fs_env \<Rightarrow> string \<Rightarrow> string \<Rightarrow> string \<times> bool" where
  "normalized_input env execRoot f =
     (case nfcLoad env of
        None \<Rightarrow> normalize env execRoot f
      | Some nfc \<Rightarrow> (case nfc f of Some n \<Rightarrow> (n, True) | None \<Rightarrow> normalize env execRoot f))"

fun filter_inputs :: "fs_env \<Rightarrow> string \<Rightarrow> string list \<Rightarrow> string list \<Rightarrow> string list" where
  "filter_inputs env execRoot m [] = []"
| "filter_inputs env execRoot m (f # fs) =
     (let normalized = fst (normalized_input env execRoot f) in
      if f = [] \<or> \<not> snd (normalized_input env execRoot f) \<or> normalized \<in> set m
      then filter_inputs env execRoot m fs
      else normalized # filter_inputs env execRoot (normalized # m) fs)"

definition FilterInputsUnderExecRoot :: "fs_env \<Rightarrow> BaseState \<Rightarrow> BaseState" where
  "FilterInputsUnderExecRoot env c =
     (case actionSpec c of
        None \<Rightarrow> c
      | Some a \<Rightarrow> c\<lparr>actionSpec := Some (a\<lparr>ASInputSpec := (ASInputSpec a)
           \<lparr>Inputs := filter_inputs env (OptExecRoot (BpOptions c)) [] (Inputs (ASInputSpec a))\<rparr>\<rparr>)\<rparr>)"

text \<open>Whether a virtual input is a directory. With a stat cache but no metadata cache, a failed
  \<open>os.Stat\<close> leaves a nil interface whose type assertion panics.\<close>

definition vi_is_dir :: "fs_env \<Rightarrow> string \<Rightarrow> bool option" where
  "vi_is_dir env path =
     (case fmcIsDir env of
        Some isDir \<Rightarrow> Some (isDir path)
      | None \<Rightarrow>
          (case fscLoad env of
             Some fsc \<Rightarrow> (case fsc path of Some d \<Rightarrow> Some d | None \<Rightarrow> statDir env path)
           | None \<Rightarrow> (case statDir env path of None \<Rightarrow> Some False | Some d \<Rightarrow> Some d)))"

fun filter_virtual :: "fs_env \<Rightarrow> string \<Rightarrow> VirtualInput list \<Rightarrow> VirtualInput list option" where
  "filter_virtual env execRoot [] = Some []"
| "filter_virtual env execRoot (vi # vis) =
     (case vi_is_dir env (Join [execRoot, Path vi]) of
        None \<Rightarrow> None
      | Some isDir \<Rightarrow>
          (case filter_virtual env execRoot vis of
             None \<Rightarrow> None
           | Some out \<Rightarrow>
               Some (if (isDir \<and> IsEmptyDirectory vi) \<or> \<not> IsEmptyDirectory vi then vi # out else out)))"

definition FilterVirtualInputs :: "fs_env \<Rightarrow> BaseState \<Rightarrow> BaseState option" where
  "FilterVirtualInputs env c =
     (case actionSpec c of
        None \<Rightarrow> Some c
      | Some a \<Rightarrow>
          (case filter_virtual env (OptExecRoot (BpOptions c)) (VirtualInputs (ASInputSpec a)) of
             None \<Rightarrow> None
           | Some vis \<Rightarrow> Some (c\<lparr>actionSpec := Some (a\<lparr>ASInputSpec := (ASInputSpec a)\<lparr>VirtualInputs := vis\<rparr>\<rparr>)\<rparr>)))"

definition rewrite_env_value :: "string \<Rightarrow> string \<Rightarrow> string \<Rightarrow> string" where
  "rewrite_env_value execRoot workingDir v =
     join_with '':'' (map (\<lambda>val.
        if \<not> IsAbs val then val
        else if RelToExecRoot execRoot workingDir val \<noteq> [] then RelToWorkingDir execRoot workingDir val
        else val) (split_on (CHR '':'') v))"

definition RewriteEnvironmentVariables :: "BaseState \<Rightarrow> BaseState" where
  "RewriteEnvironmentVariables c =
     (case actionSpec c of
        None \<Rightarrow> c
      | Some a \<Rightarrow> c\<lparr>actionSpec := Some (a\<lparr>ASInputSpec := (ASInputSpec a)
           \<lparr>EnvironmentVariables := (\<lambda>k. map_option
              (rewrite_env_value (OptExecRoot (BpOptions c)) (WorkingDir (BpOptions c)))
              (EnvironmentVariables (ASInputSpec a) k))\<rparr>\<rparr>)\<rparr>)"

definition BaseSanitize :: "fs_env \<Rightarrow> BaseState \<Rightarrow> BaseState option" where
  "BaseSanitize env c =
     FilterVirtualInputs env (RewriteEnvironmentVariables (FilterInputsUnderExecRoot env c))"

definition BaseSpec :: "BaseState \<Rightarrow> (ip_error, ActionSpec) res" where
  "BaseSpec c =
     (case BpErr c of
        Some e \<Rightarrow> Err e
      | None \<Rightarrow> (case actionSpec c of None \<Rightarrow> Panic | Some a \<Rightarrow> Ok a))"

section \<open>Toolchains\<close>

text \<open>\<open>openLines\<close>: the lines of a file, \<open>None\<close> if it cannot be opened; \<open>fileExists\<close>: what
  \<open>doesExist\<close> answers; \<open>tcCache\<close>: \<open>LoadOrStore\<close> of the process-wide toolchain cache, on
  values that may be nil.\<close>

record tc_env =
  openLines :: "string \<Rightarrow> string list option"
  fileExists :: "string \<Rightarrow> bool"
  tcCache :: "string \<Rightarrow> string list option \<Rightarrow> string list option"

definition loadToolchainFile :: "tc_env \<Rightarrow> string \<Rightarrow> string \<Rightarrow> string \<Rightarrow> string list option" where
  "loadToolchainFile env rp baseDir execRoot =
     (case openLines env rp of
        None \<Rightarrow> None
      | Some ls \<Rightarrow>
          (let trimmed = map (dropWhile (\<lambda>c. c = CHR '' '' \<or> c = CHR 0x09)) ls;
               kept = filter (\<lambda>l. \<not> (prefix ''#'' l \<or> prefix ''//'' l)) trimmed;
               fps = map (\<lambda>l. Join [baseDir, l]) kept
           in Some (map (RelToExecRoot execRoot []) (filter (fileExists env) fps))))"

definition remoteToolchainInputs :: string where
  "remoteToolchainInputs = ''remote_toolchain_inputs''"

text \<open>The inputs file used for a toolchain and what it lists: the one named after the tool, or
  else the common one unless it was used before.\<close>

definition toolchain_lookup ::
  "tc_env \<Rightarrow> string \<Rightarrow> string list \<Rightarrow> string \<Rightarrow> string \<Rightarrow> string \<times> string list option" where
  "toolchain_lookup env execRoot seen baseDir rp =
     (case tcCache env rp (loadToolchainFile env rp baseDir execRoot) of
        Some fs \<Rightarrow> (rp, Some fs)
      | None \<Rightarrow>
          (let rp2 = Join [baseDir, remoteToolchainInputs] in
           (rp2, if rp2 \<in> set seen then None
                 else tcCache env rp2 (loadToolchainFile env rp2 baseDir execRoot))))"

fun toolchain_files :: "tc_env \<Rightarrow> string \<Rightarrow> string list \<Rightarrow> string list \<Rightarrow> string list" where
  "toolchain_files env execRoot seen [] = []"
| "toolchain_files env execRoot seen (tc # tcs) =
     (if tc = [] then toolchain_files env execRoot seen tcs
      else
        let tcRel = RelToExecRoot execRoot [] tc;
            baseDir = Join [execRoot, Dir tcRel];
            rp = Join [baseDir, Base tc @ ''_'' @ remoteToolchainInputs];
            found = toolchain_lookup env execRoot seen baseDir rp
        in if rp \<in> set seen then tcRel # toolchain_files env execRoot seen tcs
           else tcRel # (case snd found of None \<Rightarrow> [] | Some fs \<Rightarrow> fs) @
                toolchain_files env execRoot (fst found # seen) tcs)"

definition processToolchainInputFiles :: "tc_env \<Rightarrow> string \<Rightarrow> string list \<Rightarrow> InputSpec" where
  "processToolchainInputFiles env execRoot toolchains =
     empty_input_spec\<lparr>Inputs := toolchain_files env execRoot [] toolchains\<rparr>"

definition defaultPath :: "string list" where
  "defaultPath = [''/usr/local/sbin'', ''/usr/local/bin'', ''/usr/sbin'', ''/usr/bin'', ''/sbin'', ''/bin'']"

text \<open>The directories added to PATH, each once; \<open>None\<close> when one cannot be made relative.\<close>

fun toolchain_dirs :: "string \<Rightarrow> string \<Rightarrow> string list \<Rightarrow> string list \<Rightarrow> string list option" where
  "toolchain_dirs execRoot workingDir seen [] = Some []"
| "toolchain_dirs execRoot workingDir seen (tc # tcs) =
     (let tcDir = RelToWorkingDir execRoot workingDir (Dir tc) in
      if tcDir = [] then None
      else if tcDir \<in> set seen then toolchain_dirs execRoot workingDir seen tcs
      else map_option ((#) tcDir) (toolchain_dirs execRoot workingDir (tcDir # seen) tcs))"

definition ProcessToolchainInputs ::
  "tc_env \<Rightarrow> string \<Rightarrow> string \<Rightarrow> string \<Rightarrow> string list \<Rightarrow> InputSpec option" where
  "ProcessToolchainInputs env execRoot workingDir execPath toolchains =
     (let execRel = RelToExecRoot execRoot workingDir execPath;
          inp = processToolchainInputFiles env execRoot (toolchains @ [execRel]) in
      case toolchain_dirs execRoot workingDir [] toolchains of
        None \<Rightarrow> None
      | Some dirs \<Rightarrow>
          Some (if length dirs > 0
                then inp\<lparr>EnvironmentVariables := [''PATH'' \<mapsto> join_with '':'' (dirs @ defaultPath)]\<rparr>
                else inp))"

definition BaseProcessToolchains :: "tc_env \<Rightarrow> BaseState \<Rightarrow> BaseState \<times> ip_error option" where
  "BaseProcessToolchains env c =
     (case BpFlags c of
        None \<Rightarrow> (c\<lparr>BpErr := Some NoFlagsSet\<rparr>, Some NoFlagsSet)
      | Some f \<Rightarrow>
          (case ProcessToolchainInputs env (OptExecRoot (BpOptions c)) (WorkingDir (BpOptions c))
                  (ExecutablePath f) (ToolchainInputs (BpOptions c)) of
             None \<Rightarrow>
               (c\<lparr>actionSpec := map_option (\<lambda>a. a\<lparr>UsedShallowMode := True\<rparr>) (actionSpec c)\<rparr>, Some ToolchainFailed)
           | Some tci \<Rightarrow> (AppendSpec (Some (spec_of_inputs tci)) c, None)))"

text \<open>The \<open>ComputeSpec\<close> of d8 (and the end of r8's): output directories as virtual inputs.\<close>

definition virtual_output_dirs :: "ActionSpec \<Rightarrow> ActionSpec" where
  "virtual_output_dirs s = spec_of_inputs (empty_input_spec
     \<lparr>VirtualInputs := map (\<lambda>od. \<lparr>Path = od, IsEmptyDirectory = True\<rparr>) (OutputDirectories s)\<rparr>)"

definition D8ComputeSpec :: "BaseState \<Rightarrow> (BaseState \<times> ip_error option) option" where
  "D8ComputeSpec c =
     (case BaseSpec c of
        Ok s \<Rightarrow> Some (AppendSpec (Some (virtual_output_dirs s)) c, None)
      | Err e \<Rightarrow> Some (c, Some e)
      | Panic \<Rightarrow> None)"

section \<open>Compute\<close>

record 'p Preprocessor =
  PInit :: "Options \<Rightarrow> 'p \<Rightarrow> 'p"
  PParseFlags :: "'p \<Rightarrow> ('p \<times> ip_error option) option"
  PProcessToolchains :: "'p \<Rightarrow> ('p \<times> ip_error option) option"
  PComputeSpec :: "'p \<Rightarrow> ('p \<times> ip_error option) option"
  PSanitize :: "'p \<Rightarrow> 'p option"
  PSpec :: "'p \<Rightarrow> (ip_error, ActionSpec) res"

definition sanitized_spec :: "'p Preprocessor \<Rightarrow> 'p \<Rightarrow> (ip_error, ActionSpec) res" where
  "sanitized_spec P p = (case PSanitize P p of None \<Rightarrow> Panic | Some p' \<Rightarrow> PSpec P p')"

definition Compute :: "'p Preprocessor \<Rightarrow> Options \<Rightarrow> 'p \<Rightarrow> (ip_error, ActionSpec) res" where
  "Compute P options p =
     (case PParseFlags P (PInit P options p) of
        None \<Rightarrow> Panic
      | Some (p1, Some e) \<Rightarrow> if ShallowFallback options then sanitized_spec P p1 else Err e
      | Some (p1, None) \<Rightarrow>
          (case PProcessToolchains P p1 of
             None \<Rightarrow> Panic
           | Some (p2, Some e) \<Rightarrow> if ShallowFallback options then sanitized_spec P p2 else Err e
           | Some (p2, None) \<Rightarrow>
               (case PSpec P p2 of
                  Ok s \<Rightarrow>
                    if UsedShallowMode s then sanitized_spec P p2
                    else (case PComputeSpec P p2 of
                            None \<Rightarrow> Panic
                          | Some (p3, Some e) \<Rightarrow> if ShallowFallback options then sanitized_spec P p3 else Err e
                          | Some (p3, None) \<Rightarrow> sanitized_spec P p3)
                | _ \<Rightarrow> Panic)))"

text \<open>A preprocessor built on the base one: the action type supplies the flag parser and the
  \<open>ComputeSpec\<close> step.\<close>

definition base_preprocessor ::
  "fs_env \<Rightarrow> tc_env \<Rightarrow> (Options \<Rightarrow> ('e, CommandFlags) res) \<Rightarrow>
   (BaseState \<Rightarrow> (BaseState \<times> ip_error option) option) \<Rightarrow> BaseState Preprocessor" where
  "base_preprocessor fenv tenv parse compute =
     \<lparr>PInit = BaseInit,
      PParseFlags = BaseParseFlags parse,
      PProcessToolchains = (\<lambda>c. Some (BaseProcessToolchains tenv c)),
      PComputeSpec = compute,
      PSanitize = BaseSanitize fenv,
      PSpec = BaseSpec\<rparr>"

definition fresh_state :: BaseState where
  "fresh_state = \<lparr>BpOptions = \<lparr>Cmd = [], WorkingDir = [], OptExecRoot = [], OptInputs = None,
       OptLabels = Map.empty, ToolchainInputs = [], ShallowFallback = False\<rparr>,
     BpFlags = None, BpErr = None, actionSpec = None\<rparr>"

section \<open>Dispatch\<close>

datatype ExecStrategy = UNSPECIFIED | LOCAL | REMOTE | REMOTE_LOCAL_FALLBACK | RACING

definition shallowFallbackConfig :: "Labels \<Rightarrow> (ExecStrategy \<rightharpoonup> bool) option" where
  "shallowFallbackConfig l =
     (if l = HeaderAbiDumpLabels \<or> l = ClangLintLabels then Some [UNSPECIFIED \<mapsto> False]
      else if l = ClangCppLabels \<or> l = ClangCLCppLabels \<or> l = NaClLabels
      then Some [REMOTE \<mapsto> False, REMOTE_LOCAL_FALLBACK \<mapsto> False]
      else None)"

definition shallow_fallback :: "Labels \<Rightarrow> ExecStrategy \<Rightarrow> bool" where
  "shallow_fallback lbls strat =
     (case shallowFallbackConfig lbls of
        None \<Rightarrow> True
      | Some m \<Rightarrow> (case m strat of None \<Rightarrow> True | Some s \<Rightarrow> s))"

datatype pp_kind =
    ToolPP | D8PP | R8PP | MetalavaPP | CppPP | LintPP | AbiPP | ClangCLPP | NaClPP
  | LinkPP | JavacPP | ArchivePP | TscPP

definition select_preprocessor :: "Labels \<Rightarrow> pp_kind option" where
  "select_preprocessor lbls =
     (if lbls = ToolLabels then Some ToolPP
      else if lbls = SignAPKLabels then Some ToolPP
      else if lbls = D8Labels then Some D8PP
      else if lbls = R8Labels then Some R8PP
      else if lbls = MetalavaLabels then Some MetalavaPP
      else if lbls = ClangCppLabels then Some CppPP
      else if lbls = ClangLintLabels then Some LintPP
      else if lbls = HeaderAbiDumpLabels then Some AbiPP
      else if lbls = ClangCLCppLabels then Some ClangCLPP
      else if lbls = NaClLabels then Some NaClPP
      else if lbls = ClangLinkLabels then Some LinkPP
      else if lbls = NaClLinkLabels then Some LinkPP
      else if lbls = JavacLabels then Some JavacPP
      else if lbls = LLVMArLabels then Some ArchivePP
      else if lbls = TscLabels then Some TscPP
      else None)"

datatype process_error = ComputeFailed ip_error | ContextCancelled | UnsupportedLabels

text \<open>\<open>compute k options\<close> runs the preprocessor of kind \<open>k\<close>; \<open>cancelled\<close> says that the context
  is done before it returns.\<close>

definition ProcessInputs ::
  "(pp_kind \<Rightarrow> Options \<Rightarrow> (ip_error, ActionSpec) res) \<Rightarrow> bool \<Rightarrow> Options \<Rightarrow> ExecStrategy \<Rightarrow>
   (process_error, ActionSpec) res" where
  "ProcessInputs compute cancelled opts strat =
     (let lbls = FromMap (OptLabels opts);
          options = opts\<lparr>ShallowFallback := shallow_fallback lbls strat\<rparr> in
      case select_preprocessor lbls of
        None \<Rightarrow> Err UnsupportedLabels
      | Some k \<Rightarrow>
          if cancelled then Err ContextCancelled
          else (case compute k options of
                  Ok s \<Rightarrow> Ok s | Err e \<Rightarrow> Err (ComputeFailed e) | Panic \<Rightarrow> Panic))"

section \<open>The Preprocessor contract\<close>

text \<open>What \<open>Compute\<close> relies on: a flag parsing error is recorded and stays, a toolchain error
  marks the action shallow, and sanitizing changes neither.\<close>

locale preprocessor_contract =
  fixes P :: "'p Preprocessor"
  assumes parse_error: "PParseFlags P p = Some (p', Some e) \<Longrightarrow> PSpec P p' = Err e"
    and toolchain_error:
      "PProcessToolchains P p = Some (p', Some e) \<Longrightarrow> PSpec P p' = Ok s \<Longrightarrow> UsedShallowMode s"
    and sanitize_err: "PSanitize P p = Some p' \<Longrightarrow> PSpec P p = Err e \<Longrightarrow> PSpec P p' = Err e"
    and sanitize_ok: "PSanitize P p = Some p' \<Longrightarrow> PSpec P p' = Ok s' \<Longrightarrow>
      \<exists>s. PSpec P p = Ok s \<and> UsedShallowMode s' = UsedShallowMode s \<and> OutputFiles s' = OutputFiles s \<and>
          OutputDirectories s' = OutputDirectories s"
begin

lemma compute_parse_error:
  assumes "PParseFlags P (PInit P options p) = Some (p1, Some e)"
  shows "Compute P options p = Err e \<or> (ShallowFallback options \<and> PSanitize P p1 = None \<and> Compute P options p = Panic)"
  using assms parse_error [OF assms] sanitize_err [of p1 _ e]
  by (auto simp: Compute_def sanitized_spec_def split: option.splits)

lemma compute_toolchain_error:
  assumes "PParseFlags P (PInit P options p) = Some (p1, None)"
    and "PProcessToolchains P p1 = Some (p2, Some e)" and "Compute P options p = Ok s"
  shows "ShallowFallback options \<and> UsedShallowMode s"
proof -
  have sf: "ShallowFallback options" and ss: "sanitized_spec P p2 = Ok s"
    using assms by (auto simp: Compute_def split: if_splits)
  obtain p3 where p3: "PSanitize P p2 = Some p3" "PSpec P p3 = Ok s"
    using ss by (auto simp: sanitized_spec_def split: option.splits)
  show ?thesis
    using sanitize_ok [OF p3] toolchain_error [OF assms(2)] sf by auto
qed

end

lemma BaseSanitize_fields:
  assumes "BaseSanitize env c = Some c'"
  shows "BpErr c' = BpErr c \<and> BpOptions c' = BpOptions c \<and> BpFlags c' = BpFlags c \<and>
    (case actionSpec c of
       None \<Rightarrow> actionSpec c' = None
     | Some a \<Rightarrow> \<exists>i. actionSpec c' = Some (a\<lparr>ASInputSpec := i\<rparr>) \<and>
          Inputs i = filter_inputs env (OptExecRoot (BpOptions c)) [] (Inputs (ASInputSpec a)) \<and>
          EnvironmentVariables i = (\<lambda>k. map_option
              (rewrite_env_value (OptExecRoot (BpOptions c)) (WorkingDir (BpOptions c)))
              (EnvironmentVariables (ASInputSpec a) k)))"
  using assms
  by (auto simp: BaseSanitize_def FilterVirtualInputs_def RewriteEnvironmentVariables_def
      FilterInputsUnderExecRoot_def split: option.splits)

interpretation base: preprocessor_contract "base_preprocessor fenv tenv parse compute"
  for fenv tenv and parse :: "Options \<Rightarrow> ('e, CommandFlags) res" and compute
proof (unfold_locales, goal_cases)
  case (1 p p' e)
  then show ?case
    by (auto simp: base_preprocessor_def BaseParseFlags_def BaseSpec_def split: res.splits)
next
  case (2 p p' e s)
  then show ?case
    by (auto simp: base_preprocessor_def BaseProcessToolchains_def BaseSpec_def split: option.splits)
next
  case (3 p p' e)
  then show ?case
    using BaseSanitize_fields [of fenv p p']
    by (auto simp: base_preprocessor_def BaseSpec_def split: option.splits)
next
  case (4 p p' s')
  then show ?case
    using BaseSanitize_fields [of fenv p p']
    by (auto simp: base_preprocessor_def BaseSpec_def split: option.splits)
qed

section \<open>Lemmas\<close>

text \<open>The normalized-file cache holds normal forms of files that exist.\<close>

definition nfc_ok :: "fs_env \<Rightarrow> string \<Rightarrow> bool" where
  "nfc_ok env execRoot \<longleftrightarrow>
     (\<forall>nfc f n. nfcLoad env = Some nfc \<longrightarrow> nfc f = Some n \<longrightarrow> (n, True) = normalize env execRoot f)"

lemma filter_inputs_distinct:
  "distinct (filter_inputs env er m fs) \<and> set (filter_inputs env er m fs) \<inter> set m = {}"
proof (induction fs arbitrary: m)
  case (Cons f fs)
  show ?case
    using Cons.IH [of m] Cons.IH [of "fst (normalized_input env er f) # m"] by (auto simp: Let_def)
qed simp

lemma normalized_input_normalize:
  "nfc_ok env er \<Longrightarrow> snd (normalized_input env er f) \<Longrightarrow>
   normalize env er f = (fst (normalized_input env er f), True)"
  by (cases "normalize env er f") (auto simp: normalized_input_def nfc_ok_def split: option.splits)

lemma filter_inputs_elems:
  "nfc_ok env er \<Longrightarrow> x \<in> set (filter_inputs env er m fs) \<Longrightarrow>
   \<exists>f \<in> set fs. f \<noteq> [] \<and> normalize env er f = (x, True)"
proof (induction fs arbitrary: m)
  case (Cons f fs)
  then consider "f \<noteq> []" "snd (normalized_input env er f)" "x = fst (normalized_input env er f)"
    | m' where "x \<in> set (filter_inputs env er m' fs)"
    by (auto simp: Let_def split: if_splits)
  then show ?case
    using Cons.IH Cons.prems(1) normalized_input_normalize [of env er f] by cases auto
qed simp

text \<open>What normalizing makes of a path: its clean form if it is relative, otherwise a path below the exec
  root.\<close>

lemma strip_Clean:
  "\<not> IsAbs (dropWhile (\<lambda>c. c = CHR ''/'') p)"
  "\<not> IsAbs g \<Longrightarrow> dropWhile (\<lambda>c. c = CHR ''/'') (Clean g) = Clean g"
  "IsAbs g \<Longrightarrow> confined (dropWhile (\<lambda>c. c = CHR ''/'') (Clean g))"
proof -
  show n: "\<not> IsAbs (dropWhile (\<lambda>c. c = CHR ''/'') p)" for p
    by (induction p) (auto simp: IsAbs_def)
  show "dropWhile (\<lambda>c. c = CHR ''/'') (Clean g) = Clean g" if "\<not> IsAbs g"
    using that IsAbs_Clean [of g] by (cases "Clean g") (auto simp: IsAbs_def)
  show "confined (dropWhile (\<lambda>c. c = CHR ''/'') (Clean g))" if abs: "IsAbs g"
  proof -
    let ?es = "clean_elems g"
    have j: "\<not> IsAbs (path_join ?es)"
    proof (cases ?es)
      case (Cons e es)
      then have "plain_elem e" using clean_elems_plain [of e g] by simp
      then show ?thesis using Cons by (cases e; cases es) (auto simp: plain_elem_def IsAbs_def)
    qed (simp add: IsAbs_def)
    then have d: "dropWhile (\<lambda>c. c = CHR ''/'') (Clean g) = path_join ?es"
      using abs by (cases "path_join ?es") (auto simp: Clean_def render_path_def IsAbs_def)
    have "path_split (path_join ?es) = (if ?es = [] then [[]] else ?es)"
      using split_join [of ?es "CHR ''/''"] clean_elems_plain [of _ g] by (auto simp: plain_elem_def)
    then show ?thesis using j d clean_elems_abs_no_dots [OF abs] by (simp add: confined_def)
  qed
qed

text \<open>The inputs collected before and after sanitizing: empty, confined to the exec root, or a path
  named by somebody else, as given or cleaned. Named by the client are the inputs of the request.\<close>

definition given_inputs :: "Options \<Rightarrow> string list" where
  "given_inputs options = (case OptInputs options of None \<Rightarrow> [] | Some i \<Rightarrow> Inputs i)"

definition ok_input :: "string set \<Rightarrow> string \<Rightarrow> bool" where
  "ok_input G i \<longleftrightarrow> i = [] \<or> confined i \<or> i \<in> G \<or> i \<in> Clean ` G"

definition inputs_within :: "string set \<Rightarrow> BaseState \<Rightarrow> bool" where
  "inputs_within G c \<longleftrightarrow>
     (\<forall>a. actionSpec c = Some a \<longrightarrow> (\<forall>i \<in> set (Inputs (ASInputSpec a)). ok_input G i))"

definition inputs_ok :: "BaseState \<Rightarrow> bool" where
  "inputs_ok c \<longleftrightarrow> inputs_within (set (given_inputs (BpOptions c))) c"

lemma ok_input_mono: "ok_input G i \<Longrightarrow> G \<subseteq> G' \<Longrightarrow> ok_input G' i"
  by (auto simp: ok_input_def)

lemma ok_inputI [intro]: "i = [] \<or> confined i \<Longrightarrow> ok_input G i"
  by (auto simp: ok_input_def)

lemma normalized_ok:
  assumes "normalize env er g = (i, True)" and "ok_input G g" and "g \<noteq> []"
  shows "\<not> IsAbs i \<and> statDir env (Join [er, i]) \<noteq> None \<and> (confined i \<or> i \<in> Clean ` G)"
proof -
  have i: "i = dropWhile (\<lambda>c. c = CHR ''/'') (Clean g)" "statDir env (Join [er, i]) \<noteq> None"
    using assms(1) by (auto simp: normalize_def Let_def)
  have "confined i \<or> i \<in> Clean ` G"
  proof (cases "IsAbs g")
    case True
    then show ?thesis using strip_Clean(3) i by simp
  next
    case False
    then have "i = Clean g" using strip_Clean(2) i by simp
    then show ?thesis using assms(2,3) Clean_confined by (auto simp: ok_input_def)
  qed
  then show ?thesis using i strip_Clean(1) by simp
qed

lemma AppendSpec_BpOptions [simp]: "BpOptions (AppendSpec s c) = BpOptions c"
  by (simp add: AppendSpec_def Let_def)

lemma inputs_within_mono: "inputs_within G c \<Longrightarrow> G \<subseteq> G' \<Longrightarrow> inputs_within G' c"
  unfolding inputs_within_def by (blast intro: ok_input_mono)

lemma AppendSpec_within:
  "inputs_within G c \<Longrightarrow> (\<forall>i \<in> set (Inputs (ASInputSpec s)). ok_input G i) \<Longrightarrow> inputs_within G (AppendSpec (Some s) c)"
  by (auto simp: inputs_within_def AppendSpec_def Let_def spec_of_inputs_def empty_input_spec_def split: option.splits)

lemma AppendSpec_inputs_ok:
  "inputs_ok c \<Longrightarrow> (\<forall>i \<in> set (Inputs (ASInputSpec s)). ok_input (set (given_inputs (BpOptions c))) i) \<Longrightarrow>
   inputs_ok (AppendSpec (Some s) c)"
  by (simp add: inputs_ok_def AppendSpec_within)

lemma ListRelToExecRoot_confined:
  "IsAbs er \<Longrightarrow> i \<in> set (ListRelToExecRoot er wd ps) \<Longrightarrow> confined i"
  by (auto simp: ListRelToExecRoot_def mapPaths_filter intro: RelToExecRoot_confined)

lemma RelToExecRoot_ok: "IsAbs er \<Longrightarrow> ok_input G (RelToExecRoot er wd p)"
  using RelToExecRoot_confined by (auto simp: ok_input_def)

text \<open>The toolchain file cache is a single-flight cache: it returns what is computed now, or what was
  computed under the same key before, when the file may have had other lines and for another exec
  root.\<close>

definition tc_cache_ok :: "tc_env \<Rightarrow> bool" where
  "tc_cache_ok env \<longleftrightarrow>
     (\<forall>rp v. tcCache env rp v = v \<or> (\<exists>env' d er'. IsAbs er' \<and> tcCache env rp v = loadToolchainFile env' rp d er'))"

lemma loadToolchainFile_ok:
  "IsAbs er \<Longrightarrow> loadToolchainFile env rp d er = Some fs \<Longrightarrow> i \<in> set fs \<Longrightarrow> ok_input G i"
  by (auto simp: loadToolchainFile_def Let_def dest: RelToExecRoot_ok split: option.splits)

lemma tc_cache_ok_entry:
  assumes "tc_cache_ok env" and "IsAbs er" and "tcCache env rp (loadToolchainFile env rp d er) = Some fs" and "i \<in> set fs"
  shows "ok_input G i"
proof -
  obtain env' d' er' where "IsAbs er'" "loadToolchainFile env' rp d' er' = Some fs"
    using assms(1) [unfolded tc_cache_ok_def, rule_format, of rp "loadToolchainFile env rp d er"] assms(2,3)
    by (elim disjE exE conjE) simp_all
  then show ?thesis using loadToolchainFile_ok assms(4) by blast
qed

lemma toolchain_lookup_ok:
  "IsAbs er \<Longrightarrow> tc_cache_ok env \<Longrightarrow> snd (toolchain_lookup env er seen d rp) = Some fs \<Longrightarrow> i \<in> set fs \<Longrightarrow>
   ok_input G i"
  by (auto simp: toolchain_lookup_def Let_def intro: tc_cache_ok_entry split: option.splits if_splits)

lemma toolchain_files_ok:
  assumes "IsAbs er" and "tc_cache_ok env"
  shows "i \<in> set (toolchain_files env er seen tcs) \<Longrightarrow> ok_input G i"
proof (induction tcs arbitrary: seen)
  case (Cons tc tcs)
  then consider "i = RelToExecRoot er [] tc" | seen' where "i \<in> set (toolchain_files env er seen' tcs)"
    | d rp fs where "snd (toolchain_lookup env er seen d rp) = Some fs" "i \<in> set fs"
    by (auto simp: Let_def dest: sym split: if_splits option.splits)
  then show ?case
    using RelToExecRoot_ok [OF assms(1), of G "[]" tc] toolchain_lookup_ok [OF assms] Cons.IH
    by cases blast+
qed simp

lemma ProcessToolchainInputs_ok:
  assumes "IsAbs er" and "tc_cache_ok env" and "ProcessToolchainInputs env er wd ep tcs = Some inp"
  shows "\<forall>i \<in> set (Inputs inp). ok_input G i"
proof -
  have "Inputs inp = toolchain_files env er [] (tcs @ [RelToExecRoot er wd ep])"
    using assms(3)
    by (auto simp: ProcessToolchainInputs_def processToolchainInputFiles_def Let_def split: option.splits if_splits)
  then show ?thesis using toolchain_files_ok [OF assms(1,2)] by simp
qed

lemma toolchain_dirs_distinct:
  "toolchain_dirs er wd seen tcs = Some ds \<Longrightarrow> distinct ds \<and> set ds \<inter> set seen = {} \<and> [] \<notin> set ds"
proof (induction tcs arbitrary: seen ds)
  case (Cons tc tcs)
  show ?case
  proof (cases "RelToWorkingDir er wd (Dir tc) \<in> set seen")
    case True
    then show ?thesis using Cons by (simp add: Let_def split: if_splits)
  next
    case False
    then obtain ds' where "toolchain_dirs er wd (RelToWorkingDir er wd (Dir tc) # seen) tcs = Some ds'"
      and "ds = RelToWorkingDir er wd (Dir tc) # ds'" and "RelToWorkingDir er wd (Dir tc) \<noteq> []"
      using Cons.prems by (auto simp: Let_def split: if_splits)
    then show ?thesis using Cons.IH [of "RelToWorkingDir er wd (Dir tc) # seen" ds'] False by auto
  qed
qed simp

text \<open>Where the spec of a successful \<open>Compute\<close> comes from.\<close>

lemma Compute_OkE:
  assumes "Compute P options p = Ok s"
  obtains (parse) q e where "PParseFlags P (PInit P options p) = Some (q, Some e)" "sanitized_spec P q = Ok s"
  | (toolchain) p1 q e where "PParseFlags P (PInit P options p) = Some (p1, None)"
      "PProcessToolchains P p1 = Some (q, e)" "sanitized_spec P q = Ok s"
  | (spec) p1 p2 q e where "PParseFlags P (PInit P options p) = Some (p1, None)"
      "PProcessToolchains P p1 = Some (p2, None)" "PComputeSpec P p2 = Some (q, e)" "sanitized_spec P q = Ok s"
  using assms
  by (fastforce simp: Compute_def split: option.splits if_splits res.splits)

text \<open>Confinement through the stages of \<open>Compute\<close>.\<close>

lemma BaseInit_inputs_ok: "inputs_ok (BaseInit options c)"
  by (auto simp: inputs_ok_def inputs_within_def ok_input_def given_inputs_def BaseInit_def Let_def spec_of_inputs_def empty_input_spec_def split: option.splits)

lemma BaseParseFlags_inputs_ok:
  assumes "BaseParseFlags parse c = Some (c', e)" and "inputs_ok c" and "IsAbs (OptExecRoot (BpOptions c))"
  shows "inputs_ok c' \<and> BpOptions c' = BpOptions c"
proof (cases "parse (BpOptions c)")
  case (Ok f)
  have "\<forall>i \<in> set (Inputs (ASInputSpec (flags_to_spec (OptExecRoot (BpOptions c)) (WorkingDir (BpOptions c)) f))).
      ok_input G i" for G
    by (auto simp: flags_to_spec_def Let_def empty_input_spec_def
        dest: ListRelToExecRoot_confined [OF assms(3)])
  moreover have "inputs_ok (c\<lparr>BpFlags := Some f\<rparr>)" using assms(2) by (simp add: inputs_ok_def inputs_within_def)
  ultimately show ?thesis
    using assms(1) Ok by (auto simp: BaseParseFlags_def FlagsToActionSpec_def intro!: AppendSpec_inputs_ok)
qed (use assms in \<open>auto simp: BaseParseFlags_def inputs_ok_def inputs_within_def\<close>)

lemma BaseProcessToolchains_inputs_ok:
  assumes "BaseProcessToolchains env c = (c', e)" and "inputs_ok c"
    and "IsAbs (OptExecRoot (BpOptions c))" and "tc_cache_ok env"
  shows "inputs_ok c' \<and> BpOptions c' = BpOptions c"
proof -
  have "\<forall>i \<in> set (Inputs inp). ok_input G i"
    if "ProcessToolchainInputs env (OptExecRoot (BpOptions c)) wd ep tcs = Some inp" for wd ep tcs inp G
    by (rule ProcessToolchainInputs_ok [OF assms(3,4) that])
  then show ?thesis
    using assms(1,2)
    by (auto simp: BaseProcessToolchains_def spec_of_inputs_def intro!: AppendSpec_inputs_ok split: option.splits)
      (auto simp: inputs_ok_def inputs_within_def split: option.splits)
qed

text \<open>What the \<open>ComputeSpec\<close> of an action type may add: the inputs it appends come from \<open>X\<close>.\<close>

definition adds_inputs :: "Options \<Rightarrow> (BaseState \<Rightarrow> (BaseState \<times> ip_error option) option) \<Rightarrow> string set \<Rightarrow> bool" where
  "adds_inputs options compute X \<longleftrightarrow>
     (\<forall>c c' e. BpOptions c = options \<longrightarrow> compute c = Some (c', e) \<longrightarrow>
        BpOptions c' = BpOptions c \<and> (\<forall>G. inputs_within G c \<longrightarrow> inputs_within (G \<union> X) c'))"

lemma adds_inputs_none: "adds_inputs options (\<lambda>c. Some (c, None)) {}"
  by (simp add: adds_inputs_def)

lemma adds_inputs_d8: "adds_inputs options D8ComputeSpec {}"
  by (auto simp: adds_inputs_def D8ComputeSpec_def virtual_output_dirs_def spec_of_inputs_def empty_input_spec_def
      AppendSpec_def Let_def inputs_within_def split: res.splits option.splits)

lemma sanitized_within:
  assumes "sanitized_spec (base_preprocessor fenv tenv parse compute) c = Ok s" and "inputs_within G c"
    and "nfc_ok fenv (OptExecRoot (BpOptions c))"
  shows "distinct (Inputs (ASInputSpec s)) \<and>
    (\<forall>i \<in> set (Inputs (ASInputSpec s)). \<not> IsAbs i \<and> statDir fenv (Join [OptExecRoot (BpOptions c), i]) \<noteq> None \<and>
       (confined i \<or> i \<in> Clean ` G))"
proof -
  obtain c' where c': "BaseSanitize fenv c = Some c'" "BaseSpec c' = Ok s"
    using assms(1) by (auto simp: sanitized_spec_def base_preprocessor_def split: option.splits)
  obtain a where a: "actionSpec c = Some a"
    and inp: "Inputs (ASInputSpec s) = filter_inputs fenv (OptExecRoot (BpOptions c)) [] (Inputs (ASInputSpec a))"
    using BaseSanitize_fields [OF c'(1)] c'(2) by (auto simp: BaseSpec_def split: option.splits)
  have "\<not> IsAbs i \<and> statDir fenv (Join [OptExecRoot (BpOptions c), i]) \<noteq> None \<and> (confined i \<or> i \<in> Clean ` G)"
    if i: "i \<in> set (Inputs (ASInputSpec s))" for i
  proof -
    obtain f where f: "f \<in> set (Inputs (ASInputSpec a))" "f \<noteq> []"
      "normalize fenv (OptExecRoot (BpOptions c)) f = (i, True)"
      using filter_inputs_elems [OF assms(3), of i "[]" "Inputs (ASInputSpec a)"] i inp by auto
    have "ok_input G f" using assms(2) a f(1) by (simp add: inputs_within_def)
    then show ?thesis using normalized_ok [OF f(3)] f(2) by blast
  qed
  then show ?thesis using inp filter_inputs_distinct by auto
qed

text \<open>An input below the exec root, or one that the client named itself.\<close>

definition below_or_given :: "Options \<Rightarrow> string \<Rightarrow> bool" where
  "below_or_given options i \<longleftrightarrow> \<not> IsAbs i \<and> (''..'' \<in> set (path_split i) \<longrightarrow> (\<exists>g \<in> set (given_inputs options). i = Clean g))"

lemma sanitized_inputs:
  assumes "sanitized_spec (base_preprocessor fenv tenv parse compute) c = Ok s" and "inputs_ok c"
    and "nfc_ok fenv (OptExecRoot (BpOptions c))"
  shows "distinct (Inputs (ASInputSpec s)) \<and>
    (\<forall>i \<in> set (Inputs (ASInputSpec s)).
       below_or_given (BpOptions c) i \<and> statDir fenv (Join [OptExecRoot (BpOptions c), i]) \<noteq> None)"
  using sanitized_within [OF assms(1) assms(2) [unfolded inputs_ok_def] assms(3)]
  by (auto simp: below_or_given_def confined_def)

text \<open>A small environment on which the properties are exercised.\<close>

definition demo_fs :: fs_env where
  "demo_fs = \<lparr>statDir = (\<lambda>p. Some False), nfcLoad = None, fscLoad = None, fmcIsDir = None\<rparr>"

definition demo_tc :: tc_env where
  "demo_tc = \<lparr>openLines = (\<lambda>p. None), fileExists = (\<lambda>p. True), tcCache = (\<lambda>k v. v)\<rparr>"

definition demo_options :: Options where
  "demo_options = \<lparr>Cmd = [''bin/tool'', ''-x''], WorkingDir = ''out'', OptExecRoot = ''/r'',
     OptInputs = Some (empty_input_spec\<lparr>Inputs := [''./a.h'', ''../up'']\<rparr>),
     OptLabels = Map.empty, ToolchainInputs = [], ShallowFallback = True\<rparr>"

section \<open>Properties\<close>



text \<open>shallow fallback never rescues an action whose flags cannot be parsed: Compute then
  fails with the parsing error (or panics in Sanitize) whatever the fallback setting.\<close>

theorem Compute_parse_error_is_final:
  assumes "parse (options :: Options) = Err e"
  shows "Compute (base_preprocessor fenv tenv parse compute) options fresh_state \<in> {Err FlagParsingFailed, Panic}"
proof -
  have o: "BpOptions (BaseInit options fresh_state) = options" by (simp add: BaseInit_def Let_def)
  have "PParseFlags (base_preprocessor fenv tenv parse compute)
      (PInit (base_preprocessor fenv tenv parse compute) options fresh_state) =
      Some ((BaseInit options fresh_state)\<lparr>BpErr := Some FlagParsingFailed\<rparr>, Some FlagParsingFailed)"
    using assms by (simp add: base_preprocessor_def BaseParseFlags_def o)
  from base.compute_parse_error [OF this] show ?thesis by auto
qed

theorem Compute_parse_error_is_final_witness:
  "Compute (base_preprocessor demo_fs demo_tc (\<lambda>opt. ToolParseFlags (Cmd opt) (WorkingDir opt) (OptExecRoot opt))
     (\<lambda>c. Some (c, None))) (demo_options\<lparr>Cmd := []\<rparr>) fresh_state \<in> {Err FlagParsingFailed, Panic}"
  by (rule Compute_parse_error_is_final [where e = TooFewArgs]) (simp add: ToolParseFlags_def)

text \<open>when the toolchain inputs cannot be computed, a spec is returned only under shallow
  fallback and is marked as shallow.\<close>

theorem Compute_toolchain_error_is_shallow:
  assumes "BaseParseFlags parse (BaseInit options fresh_state) = Some (p1, None)"
    and "BaseProcessToolchains tenv p1 = (p2, Some e)"
    and "Compute (base_preprocessor fenv tenv parse compute) options fresh_state = Ok s"
  shows "ShallowFallback options \<and> UsedShallowMode s"
  by (rule base.compute_toolchain_error [of fenv tenv parse compute options fresh_state p1 p2 e s])
    (use assms in \<open>simp_all add: base_preprocessor_def\<close>)

theorem Compute_toolchain_error_is_shallow_witness:
  "\<exists>s. Compute (base_preprocessor demo_fs demo_tc (\<lambda>opt. ToolParseFlags (Cmd opt) (WorkingDir opt) (OptExecRoot opt))
          (\<lambda>c. Some (c, None))) (demo_options\<lparr>OptExecRoot := ''r'', ToolchainInputs := [''/abs/tool'']\<rparr>) fresh_state = Ok s \<and>
       UsedShallowMode s"
proof -
  let ?o = "demo_options\<lparr>OptExecRoot := ''r'', ToolchainInputs := [''/abs/tool'']\<rparr>"
  let ?parse = "\<lambda>opt. ToolParseFlags (Cmd opt) (WorkingDir opt) (OptExecRoot opt)"
  have rel: "RelToExecRoot ''r'' ''out'' ''bin/tool'' = ''out/bin/tool''"
    "RelToExecRoot ''r'' ''out'' [] = []" "Clean ''out/bin/tool'' = ''out/bin/tool''"
    "RelToWorkingDir ''r'' ''out'' (Dir ''/abs/tool'') = []"
    by code_simp+
  note ev = base_preprocessor_def BaseInit_def demo_options_def
        BaseParseFlags_def ToolParseFlags_def init_flags_def zero_flags_def FlagsToActionSpec_def flags_to_spec_def
        ListRelToExecRoot_def rel AppendSpec_def spec_of_inputs_def empty_input_spec_def merge_env_def
        BaseProcessToolchains_def ProcessToolchainInputs_def demo_fs_def BaseSanitize_def
        FilterInputsUnderExecRoot_def normalized_input_def normalize_def RewriteEnvironmentVariables_def
        FilterVirtualInputs_def BaseSpec_def fresh_state_def Let_def
  obtain p1 where p1: "BaseParseFlags ?parse (BaseInit ?o fresh_state) = Some (p1, None)"
    and p2: "\<exists>p2. BaseProcessToolchains demo_tc p1 = (p2, Some ToolchainFailed)"
    by (simp add: ev)
  have "\<exists>s. Compute (base_preprocessor demo_fs demo_tc ?parse (\<lambda>c. Some (c, None))) ?o fresh_state = Ok s"
    by (simp add: Compute_def sanitized_spec_def ev)
  then show ?thesis
    using Compute_toolchain_error_is_shallow [OF p1] p2 by blast
qed

text \<open>rewriting the environment keeps the meaning of every variable: the list elements stay
  in number and order, a relative element is untouched, and an absolute one below the exec
  root becomes a path that joined to the working directory names the same file.\<close>

theorem rewrite_env_value_same_files:
  assumes "IsAbs execRoot" and "split_on (CHR '':'') v = vals"
  shows "\<exists>news. split_on (CHR '':'') (rewrite_env_value execRoot workingDir v) = news \<and>
     list_all2 (\<lambda>val new. new = val \<or>
        (IsAbs val \<and> Join [Join [execRoot, workingDir], new] = Clean val)) vals news"
proof -
  let ?f = "\<lambda>val. if \<not> IsAbs val then val
        else if RelToExecRoot execRoot workingDir val \<noteq> [] then RelToWorkingDir execRoot workingDir val
        else val"
  have ne: "vals \<noteq> []" using assms(2) by auto
  have nc: "CHR '':'' \<notin> set val" if "val \<in> set vals" for val
    using split_on_elems [of val "CHR '':''" v] that assms(2) by simp
  have nf: "CHR '':'' \<notin> set (?f val)" if "val \<in> set vals" for val
    using nc [OF that] RelToWorkingDir_chars [OF assms(1), of val workingDir] by auto
  have "split_on (CHR '':'') (rewrite_env_value execRoot workingDir v) = map ?f vals"
    unfolding rewrite_env_value_def assms(2)
  proof (rule split_join)
    fix w assume "w \<in> set (map ?f vals)"
    then obtain val where "val \<in> set vals" "w = ?f val" by auto
    then show "CHR '':'' \<notin> set w" using nf by blast
  qed (use ne in simp)
  moreover have "?f val = val \<or> (IsAbs val \<and> Join [Join [execRoot, workingDir], ?f val] = Clean val)" for val
    using Join_Rel [OF IsAbs_Join [OF assms(1), of "[workingDir]"], of val]
    by (auto simp: RelToWorkingDir_def split: res.splits)
  ultimately show ?thesis by (simp add: list_all2_map2 list_all2_same)
qed

theorem rewrite_env_value_same_files_witness:
  "\<exists>news. split_on (CHR '':'') (rewrite_env_value ''/r'' ''out'' ''/r/bin:/usr/bin'') = news \<and>
     list_all2 (\<lambda>val new. new = val \<or> (IsAbs val \<and> Join [Join [''/r'', ''out''], new] = Clean val))
       [''/r/bin'', ''/usr/bin''] news"
  by (rule rewrite_env_value_same_files) code_simp+

text \<open>the dispatcher has a preprocessor for exactly the fifteen label sets, and answers
  every other label map with the unsupported-labels error.\<close>

theorem ProcessInputs_dispatch:
  "(select_preprocessor lbls \<noteq> None \<longleftrightarrow> lbls \<in> set all_label_sets) \<and>
   (FromMap (OptLabels opts) \<notin> set all_label_sets \<longrightarrow>
      ProcessInputs compute cancelled opts strat = Err UnsupportedLabels)"
proof -
  have "select_preprocessor l \<noteq> None \<longleftrightarrow> l \<in> set all_label_sets" for l
    by (auto simp: select_preprocessor_def all_label_sets_def)
  then show ?thesis by (auto simp: ProcessInputs_def Let_def split: option.splits)
qed

theorem ProcessInputs_dispatch_witness:
  "ProcessInputs (\<lambda>k opt. Panic) False (demo_options\<lparr>OptLabels := [''type'' \<mapsto> ''compile'']\<rparr>) LOCAL = Err UnsupportedLabels"
proof -
  have "FromMap [''type'' \<mapsto> ''compile''] \<notin> set all_label_sets"
    by (simp add: FromMap_def all_label_sets_def label_sets label_keys)
  then show ?thesis
    using ProcessInputs_dispatch [of _ "demo_options\<lparr>OptLabels := [''type'' \<mapsto> ''compile'']\<rparr>" "\<lambda>k opt. Panic" False LOCAL]
    by simp
qed

text \<open>the entries that should keep header ABI and lint actions from falling back to shallow
  mode are keyed by the unspecified strategy, so under every strategy a client may choose
  those actions do fall back; the C++ compilers do not fall back under remote strategies.\<close>

theorem shallow_fallback_strategies:
  "(strat \<noteq> UNSPECIFIED \<longrightarrow>
      shallow_fallback HeaderAbiDumpLabels strat \<and> shallow_fallback ClangLintLabels strat) \<and>
   (\<forall>l \<in> {ClangCppLabels, ClangCLCppLabels, NaClLabels}.
      shallow_fallback l strat \<longleftrightarrow> strat \<notin> {REMOTE, REMOTE_LOCAL_FALLBACK})"
  by (cases strat) (simp_all add: shallow_fallback_def shallowFallbackConfig_def label_sets)

theorem shallow_fallback_strategies_witness:
  "shallow_fallback HeaderAbiDumpLabels REMOTE \<and> shallow_fallback ClangLintLabels REMOTE \<and>
   \<not> shallow_fallback ClangCppLabels REMOTE"
  using shallow_fallback_strategies [of REMOTE] by simp

text \<open>the PATH built from toolchain directories lists each directory once and ends with the
  default path of the remote worker.\<close>

theorem ProcessToolchainInputs_path:
  assumes "ProcessToolchainInputs env execRoot workingDir execPath toolchains = Some inp"
    and "EnvironmentVariables inp ''PATH'' = Some v"
  shows "\<exists>dirs. dirs \<noteq> [] \<and> distinct dirs \<and> v = join_with '':'' (dirs @ defaultPath) \<and>
           toolchain_dirs execRoot workingDir [] toolchains = Some dirs"
  using assms toolchain_dirs_distinct [of execRoot workingDir "[]" toolchains]
  by (auto simp: ProcessToolchainInputs_def processToolchainInputFiles_def empty_input_spec_def Let_def
      split: option.splits if_splits)

theorem ProcessToolchainInputs_path_witness:
  "\<exists>dirs. dirs \<noteq> [] \<and> distinct dirs \<and>
     ''../tc:/usr/local/sbin:/usr/local/bin:/usr/sbin:/usr/bin:/sbin:/bin'' = join_with '':'' (dirs @ defaultPath) \<and>
     toolchain_dirs ''/r'' ''out'' [] [''tc/cc''] = Some dirs"
proof (rule ProcessToolchainInputs_path)
  have rel: "RelToWorkingDir ''/r'' ''out'' (Dir ''tc/cc'') = ''../tc''" by code_simp
  show "ProcessToolchainInputs demo_tc ''/r'' ''out'' ''x'' [''tc/cc''] =
      Some ((processToolchainInputFiles demo_tc ''/r'' ([''tc/cc''] @ [RelToExecRoot ''/r'' ''out'' ''x'']))
        \<lparr>EnvironmentVariables := [''PATH'' \<mapsto> join_with '':'' ([''../tc''] @ defaultPath)]\<rparr>)"
    by (simp add: ProcessToolchainInputs_def rel Let_def)
qed (simp add: defaultPath_def)

end
