(* ===== verification/Forecast.thy ===== *)
theory Forecast
  imports Labels
begin

text \<open>
  Download latency forecasts (\<open>internal/pkg/reproxy/forecast.go\<close>): a ring buffer of the last
  500 samples per label key, sorted in the background, from which percentiles are read. The
  abstract view of a dataset is the window of its most recent samples, oldest first; the
  ring buffer implements it (\<open>sample_window\<close>). Locks are not modelled: every operation holds
  the dataset's lock for its whole body, so operations are atomic.
\<close>

section \<open>Datasets\<close>

record dataset =
  dataPoints :: "int list"
  head :: nat
  currSize :: nat
  minSizeForStats :: nat
  sortedData :: "int list"

definition datasetSize :: nat where "datasetSize = 500"
definition defaultMinSize :: nat where "defaultMinSize = 50"

definition new_dataset :: "nat \<Rightarrow> nat \<Rightarrow> dataset" where
  "new_dataset n minSize =
     \<lparr>dataPoints = replicate n 0, head = 0, currSize = 0, minSizeForStats = minSize, sortedData = []\<rparr>"

definition ds_insert :: "int \<Rightarrow> dataset \<Rightarrow> dataset" where
  "ds_insert v d =
     (let d1 = d\<lparr>dataPoints := (dataPoints d)[head d := v]\<rparr>;
          d2 = d1\<lparr>head := (head d1 + 1) mod length (dataPoints d1)\<rparr>;
          d3 = d2\<lparr>currSize := currSize d2 + 1\<rparr>
      in if currSize d3 > length (dataPoints d3) then d3\<lparr>currSize := length (dataPoints d3)\<rparr> else d3)"

definition ds_sort :: "dataset \<Rightarrow> dataset" where
  "ds_sort d =
     (if currSize d < minSizeForStats d then d
      else d\<lparr>sortedData := sort (take (currSize d) (dataPoints d))\<rparr>)"

datatype forecast_error = BadPercentile | NoComputationYet | NoDataset

definition percentile :: "dataset \<Rightarrow> int \<Rightarrow> (forecast_error, int) res" where
  "percentile d p =
     (if p < 0 \<or> p > 100 then Err BadPercentile
      else if length (sortedData d) = 0 then Err NoComputationYet
      else go_index (sortedData d) (nat (int (length (sortedData d)) * p div 100)))"

section \<open>Forecasts\<close>

record Forecast =
  downloadLatencies :: "string \<rightharpoonup> dataset"
  fMinSize :: nat

text \<open>\<open>sample\<close> is the duration in milliseconds of the action's download event, \<open>None\<close> when the
  record has no remote metadata or no such event; the labels are given in the order Go visits
  them.\<close>

definition RecordSample :: "(string \<times> string) list \<Rightarrow> int option \<Rightarrow> Forecast \<Rightarrow> Forecast" where
  "RecordSample lbls sample f =
     (case sample of
        None \<Rightarrow> f
      | Some ms \<Rightarrow>
          (let l = ToKey lbls;
               f1 = (if fMinSize f = 0 then f\<lparr>fMinSize := defaultMinSize\<rparr> else f);
               d = (case downloadLatencies f1 l of
                      Some d \<Rightarrow> d
                    | None \<Rightarrow> new_dataset datasetSize (fMinSize f1))
           in f1\<lparr>downloadLatencies := (downloadLatencies f1)(l \<mapsto> ds_insert ms d)\<rparr>))"

text \<open>One tick of the background loop.\<close>

definition run_tick :: "Forecast \<Rightarrow> Forecast" where
  "run_tick f = f\<lparr>downloadLatencies := (\<lambda>k. map_option ds_sort (downloadLatencies f k))\<rparr>"

definition PercentileDownloadLatency ::
  "Forecast \<Rightarrow> (string \<times> string) list \<Rightarrow> int \<Rightarrow> (forecast_error, int) res" where
  "PercentileDownloadLatency f lbls p =
     (case downloadLatencies f (ToKey lbls) of
        None \<Rightarrow> Err NoDataset
      | Some ds \<Rightarrow> percentile ds p)"

section \<open>The window of recent samples\<close>

text \<open>The contract of a bounded window: an insert appends the newest sample and lets the oldest
  go once the capacity is reached.\<close>

definition recent :: "nat \<Rightarrow> 'a list \<Rightarrow> 'a list" where
  "recent cap xs = drop (length xs - cap) xs"

locale sample_window =
  fixes insert_op :: "'a \<Rightarrow> 'd \<Rightarrow> 'd"
    and window :: "'d \<Rightarrow> 'a list"
    and invar :: "'d \<Rightarrow> bool"
    and cap :: nat
  assumes insert_window: "invar d \<Longrightarrow> window (insert_op v d) = recent cap (window d @ [v])"
    and insert_invar: "invar d \<Longrightarrow> invar (insert_op v d)"
    and window_len: "invar d \<Longrightarrow> length (window d) \<le> cap"
begin

lemma recent_recent: "recent cap (recent cap xs @ ys) = recent cap (xs @ ys)"
proof (cases "length xs \<le> cap")
  case False
  then have "length xs + length ys - (length xs - cap + cap) + (length xs - cap) =
      length xs + length ys - cap" by simp
  with False show ?thesis by (simp add: recent_def)
qed (simp add: recent_def)

lemma window_fold:
  "invar d \<Longrightarrow> window (fold insert_op xs d) = recent cap (window d @ xs) \<and> invar (fold insert_op xs d)"
proof (induction xs arbitrary: d)
  case Nil
  then show ?case using window_len [of d] by (simp add: recent_def)
next
  case (Cons x xs)
  then show ?case
    using Cons.IH [of "insert_op x d"] insert_window insert_invar recent_recent [of "window d @ [x]" xs]
    by simp
qed

end

definition ds_window :: "dataset \<Rightarrow> int list" where
  "ds_window d =
     (if currSize d < length (dataPoints d) then take (currSize d) (dataPoints d)
      else drop (head d) (dataPoints d) @ take (head d) (dataPoints d))"

definition ds_invar :: "nat \<Rightarrow> dataset \<Rightarrow> bool" where
  "ds_invar n d \<longleftrightarrow> 0 < n \<and> length (dataPoints d) = n \<and> currSize d \<le> n \<and> head d < n \<and>
     (currSize d < n \<longrightarrow> head d = currSize d)"

lemma ds_insert_fields:
  "dataPoints (ds_insert v d) = (dataPoints d)[head d := v]"
  "head (ds_insert v d) = (head d + 1) mod length (dataPoints d)"
  "currSize (ds_insert v d) = min (currSize d + 1) (length (dataPoints d))"
  "minSizeForStats (ds_insert v d) = minSizeForStats d"
  "sortedData (ds_insert v d) = sortedData d"
  by (auto simp: ds_insert_def Let_def)

lemma ds_insert_invar: "ds_invar n d \<Longrightarrow> ds_invar n (ds_insert v d)"
  by (auto simp: ds_invar_def ds_insert_fields min_def)

lemma ds_window_filling:
  assumes "ds_invar n d" and "currSize d < n"
  shows "ds_window (ds_insert v d) = ds_window d @ [v]"
proof (cases "currSize d + 1 < n")
  case True
  then show ?thesis
    using assms by (auto simp: ds_window_def ds_insert_fields ds_invar_def take_Suc_conv_app_nth)
next
  case False
  with assms have c: "currSize d + 1 = n" "head d = currSize d" "length (dataPoints d) = n"
    by (auto simp: ds_invar_def)
  have "(dataPoints d)[head d := v] = take (currSize d) (dataPoints d) @ [v]"
    using c by (simp add: upd_conv_take_nth_drop)
  then show ?thesis
    using c by (simp add: ds_window_def ds_insert_fields)
qed

lemma ds_window_full:
  assumes "ds_invar n d" and "currSize d = n"
  shows "ds_window (ds_insert v d) = tl (ds_window d) @ [v]"
proof -
  let ?dp = "dataPoints d" and ?h = "head d"
  have h: "?h < length ?dp" "length ?dp = n" using assms by (auto simp: ds_invar_def)
  have tl: "tl (ds_window d) = drop (Suc ?h) ?dp @ take ?h ?dp"
    using h assms(2) Cons_nth_drop_Suc [of ?h ?dp, symmetric] by (simp add: ds_window_def)
  have upd: "?dp[?h := v] = take ?h ?dp @ v # drop (Suc ?h) ?dp"
    using h by (simp add: upd_conv_take_nth_drop)
  show ?thesis
  proof (cases "Suc ?h < n")
    case True
    then show ?thesis
      using h assms(2) tl by (simp add: ds_window_def ds_insert_fields upd)
  next
    case False
    then have "Suc ?h = n" using h by simp
    then show ?thesis
      using h assms(2) tl by (simp add: ds_window_def ds_insert_fields upd)
  qed
qed

lemma ds_window_length: "ds_invar n d \<Longrightarrow> length (ds_window d) = currSize d"
  by (auto simp: ds_window_def ds_invar_def)

text \<open>The ring buffer implements the window.\<close>

interpretation ring: sample_window ds_insert ds_window "ds_invar n" n
  for n
proof (unfold_locales, goal_cases)
  case (1 d v)
  then show ?case
    using ds_window_filling [of n d v] ds_window_full [of n d v] ds_window_length [of n d]
    by (cases "currSize d < n") (auto simp: recent_def ds_invar_def drop_Suc)
next
  case (2 d v)
  then show ?case by (rule ds_insert_invar)
next
  case (3 d)
  then show ?case using ds_window_length [of n d] by (simp add: ds_invar_def)
qed

lemma ds_window_mset: "ds_invar n d \<Longrightarrow> mset (take (currSize d) (dataPoints d)) = mset (ds_window d)"
proof -
  assume i: "ds_invar n d"
  have "mset (drop (head d) (dataPoints d) @ take (head d) (dataPoints d)) = mset (dataPoints d)"
    by (metis append_take_drop_id mset_append union_commute)
  with i show ?thesis by (auto simp: ds_window_def ds_invar_def)
qed

section \<open>Percentiles\<close>

lemma percentile_index:
  fixes p :: int
  assumes "0 \<le> p" and "p < 100" and "xs \<noteq> []"
  shows "nat (int (length xs) * p div 100) < length xs"
proof -
  have "int (length xs) * p < int (length xs) * 100" using assms by simp
  then have "int (length xs) * p div 100 < int (length xs)" by simp
  moreover have "0 \<le> int (length xs) * p div 100" using assms by (simp add: pos_imp_zdiv_nonneg_iff)
  ultimately show ?thesis by linarith
qed

lemma percentile_Ok:
  assumes "0 \<le> p" and "p < 100" and "sortedData d \<noteq> []"
  shows "percentile d p = Ok (sortedData d ! nat (int (length (sortedData d)) * p div 100))"
  using assms percentile_index [OF assms] by (simp add: percentile_def go_index_def)

lemma sort_take_window:
  "ds_invar n d \<Longrightarrow> sort (take (currSize d) (dataPoints d)) = sort (ds_window d)"
  using ds_window_mset by (metis mset_sort properties_for_sort sorted_sort)

text \<open>Recording samples for one label key.\<close>

lemma RecordSample_min:
  "fMinSize (RecordSample l s f) = (if s = None \<or> fMinSize f \<noteq> 0 then fMinSize f else defaultMinSize)"
  by (simp add: RecordSample_def Let_def split: option.splits)

lemma RecordSample_dataset:
  "downloadLatencies (RecordSample l (Some ms) f) (ToKey l) =
   Some (ds_insert ms (case downloadLatencies f (ToKey l) of
      Some d \<Rightarrow> d
    | None \<Rightarrow> new_dataset datasetSize (if fMinSize f = 0 then defaultMinSize else fMinSize f)))"
  by (simp add: RecordSample_def Let_def split: option.split)

lemma fold_RecordSample:
  "downloadLatencies f (ToKey l) = Some d \<Longrightarrow>
   downloadLatencies (fold (\<lambda>ms. RecordSample l (Some ms)) xs f) (ToKey l) = Some (fold ds_insert xs d)"
  by (induction xs arbitrary: f d) (simp_all add: RecordSample_dataset)

lemma ds_insert_fold_min: "minSizeForStats (fold ds_insert xs d) = minSizeForStats d"
  by (induction xs arbitrary: d) (simp_all add: ds_insert_fields)

definition no_forecast :: Forecast where
  "no_forecast = \<lparr>downloadLatencies = Map.empty, fMinSize = 0\<rparr>"

lemma recorded_dataset:
  assumes "xs \<noteq> []"
  shows "downloadLatencies (fold (\<lambda>ms. RecordSample l (Some ms)) xs no_forecast) (ToKey l) =
    Some (fold ds_insert xs (new_dataset datasetSize defaultMinSize))"
proof (cases xs)
  case (Cons x ys)
  have "downloadLatencies (RecordSample l (Some x) no_forecast) (ToKey l) =
      Some (ds_insert x (new_dataset datasetSize defaultMinSize))"
    by (simp add: RecordSample_dataset no_forecast_def)
  from fold_RecordSample [OF this, of ys] show ?thesis using Cons by simp
qed (use assms in simp)

lemma new_dataset_invar: "0 < n \<Longrightarrow> ds_invar n (new_dataset n m) \<and> ds_window (new_dataset n m) = []"
  by (simp add: ds_invar_def ds_window_def new_dataset_def)

lemma recorded_sorted:
  fixes xs :: "int list"
  defines "d \<equiv> fold ds_insert xs (new_dataset datasetSize defaultMinSize)"
  assumes "defaultMinSize \<le> length xs"
  shows "sortedData (ds_sort d) = sort (recent datasetSize xs)"
proof -
  let ?d0 = "new_dataset datasetSize defaultMinSize"
  have w: "ds_window d = recent datasetSize xs \<and> ds_invar datasetSize d"
    using ring.window_fold [of datasetSize ?d0 xs] new_dataset_invar [of datasetSize defaultMinSize]
    by (simp add: d_def datasetSize_def)
  have "currSize d = length (recent datasetSize xs)"
    using ds_window_length [of datasetSize d] w by simp
  then have "defaultMinSize \<le> currSize d"
    using assms(2) by (auto simp: recent_def datasetSize_def defaultMinSize_def)
  moreover have "minSizeForStats d = defaultMinSize"
    by (simp add: d_def ds_insert_fold_min new_dataset_def)
  ultimately show ?thesis
    using sort_take_window [of datasetSize d] w by (simp add: ds_sort_def)
qed

section \<open>Properties\<close>

text \<open>C20: the dataset is a window of the most recent samples: after any sequence of inserts into
  a fresh ring buffer of size n its live entries are, as a multiset, the last n samples (all
  of them while fewer than n were inserted).\<close>

theorem ds_insert_keeps_recent:
  assumes "0 < n"
  shows "mset (take (currSize (fold ds_insert xs (new_dataset n m)))
                    (dataPoints (fold ds_insert xs (new_dataset n m)))) =
         mset (recent n xs)"
  using ring.window_fold [of n "new_dataset n m" xs] new_dataset_invar [OF assms, of m]
    ds_window_mset [of n "fold ds_insert xs (new_dataset n m)"] by simp

theorem ds_insert_keeps_recent_witness:
  "mset (take (currSize (fold ds_insert [5, 1, 4, 2] (new_dataset 3 1)))
              (dataPoints (fold ds_insert [5, 1, 4, 2] (new_dataset 3 1)))) = mset (recent 3 [5, 1, 4, 2])"
  by (rule ds_insert_keeps_recent) simp

text \<open>after at least fifty samples for a label set and a tick of the background loop, the
  p-th percentile for p below 100 is the entry at position floor(n p / 100) of the sorted last
  five hundred samples; that many samples are at most it and the others are at least it.\<close>

theorem PercentileDownloadLatency_value:
  assumes "0 \<le> p" and "p < 100" and "defaultMinSize \<le> length xs"
    and "f = run_tick (fold (\<lambda>ms. RecordSample l (Some ms)) xs no_forecast)"
    and "ys = sort (recent datasetSize xs)" and "k = nat (int (length ys) * p div 100)"
  shows "PercentileDownloadLatency f l p = Ok (ys ! k) \<and> k < length ys \<and>
         (\<forall>i < k. ys ! i \<le> ys ! k) \<and> (\<forall>i. k \<le> i \<and> i < length ys \<longrightarrow> ys ! k \<le> ys ! i) \<and>
         mset ys = mset (recent datasetSize xs)"
proof -
  have "length ys \<noteq> 0" "length xs \<noteq> 0"
    using assms(3,5) by (auto simp: defaultMinSize_def recent_def datasetSize_def)
  then have ne: "xs \<noteq> []" "ys \<noteq> []" by auto
  let ?d = "fold ds_insert xs (new_dataset datasetSize defaultMinSize)"
  have sd: "sortedData (ds_sort ?d) = ys"
    using recorded_sorted [OF assms(3)] assms(5) by simp
  have "downloadLatencies f (ToKey l) = Some (ds_sort ?d)"
    using recorded_dataset [OF ne(1), of l] assms(4) by (simp add: run_tick_def)
  then have "PercentileDownloadLatency f l p = Ok (ys ! k)"
    using percentile_Ok [OF assms(1,2), of "ds_sort ?d"] sd ne(2) assms(6)
    by (simp add: PercentileDownloadLatency_def)
  moreover have k: "k < length ys" using percentile_index [OF assms(1,2) ne(2)] assms(6) by simp
  moreover have "sorted ys" using assms(5) by simp
  ultimately show ?thesis
    using assms(5) by (auto simp: sorted_nth_mono)
qed

theorem PercentileDownloadLatency_value_witness:
  "PercentileDownloadLatency
     (run_tick (fold (\<lambda>ms. RecordSample [] (Some ms)) (replicate 60 7) no_forecast)) [] 90 = Ok (7::int)"
proof -
  have ys: "sort (recent datasetSize (replicate 60 (7::int))) = replicate 60 7"
    by (simp add: recent_def datasetSize_def sorted_sort_id)
  show ?thesis
    using PercentileDownloadLatency_value [of 90 "replicate 60 7" _ "[]" "replicate 60 7" 54, OF _ _ _ refl ys [symmetric]]
    by (simp add: defaultMinSize_def)
qed

text \<open>the hundredth percentile is accepted by the range check but reads one past the end of
  the sorted data, so it panics on every dataset that has statistics.\<close>

theorem percentile_100_panics:
  assumes "sortedData d \<noteq> []"
  shows "percentile d 100 = Panic"
  using assms by (simp add: percentile_def go_index_def)

theorem percentile_100_panics_witness:
  "percentile ((new_dataset 3 1)\<lparr>sortedData := [1, 2, 3]\<rparr>) 100 = Panic"
  by (rule percentile_100_panics) simp

end
