(* ===== verification/LocalResources.thy ===== *)
theory LocalResources
  imports Labels
begin

text \<open>
  Local resource accounting (\<open>internal/pkg/localresources/manager.go\<close>) and the local
  execution pool on top of it (\<open>internal/pkg/reproxy/localexec.go\<close>). The weighted semaphores
  of \<open>golang.org/x/sync\<close> are an argument: \<open>acquire s n\<close> is \<open>None\<close> when the context ends first,
  \<open>release s n\<close> is \<open>None\<close> when more is released than held (a panic). Their documented
  behaviour is \<open>semaphore_spec\<close>. \<open>int64\<close> amounts are integers: they are core and megabyte
  counts, never near the bounds.
\<close>

section \<open>Manager\<close>

record 's sem_ops =
  new_sem :: "int \<Rightarrow> 's"
  acquire :: "'s \<Rightarrow> int \<Rightarrow> 's option"
  release :: "'s \<Rightarrow> int \<Rightarrow> 's option"

record 's Manager =
  cpus :: 's
  ram :: 's
  totalCPUs :: int
  totalRAMMBs :: int

definition NewManager :: "'s sem_ops \<Rightarrow> int \<Rightarrow> int \<Rightarrow> 's Manager" where
  "NewManager S c r =
     \<lparr>cpus = new_sem S (max 1 c), ram = new_sem S (max 1 r),
      totalCPUs = max 1 c, totalRAMMBs = max 1 r\<rparr>"

text \<open>The request after capping.\<close>

definition cap_request :: "'s Manager \<Rightarrow> int \<Rightarrow> int \<Rightarrow> int \<times> int" where
  "cap_request m c r =
     (if c > totalCPUs m \<or> r > totalRAMMBs m then (min c (totalCPUs m), min r (totalRAMMBs m))
      else (c, r))"

datatype lock_error = CtxDone

text \<open>The steps of \<open>Lock\<close>, each an operation on one semaphore: the cpus of the capped request, then its
  memory, or the cpus back when the memory is not to be had. A lock is a pair of amounts.\<close>

definition lock_cpus :: "'s sem_ops \<Rightarrow> 's Manager \<Rightarrow> int \<Rightarrow> int \<Rightarrow> ('s Manager \<times> int \<times> int) option" where
  "lock_cpus S m c r =
     (case acquire S (cpus m) (fst (cap_request m c r)) of
        None \<Rightarrow> None
      | Some s \<Rightarrow> Some (m\<lparr>cpus := s\<rparr>, cap_request m c r))"

definition lock_ram :: "'s sem_ops \<Rightarrow> 's Manager \<Rightarrow> int \<times> int \<Rightarrow> 's Manager option" where
  "lock_ram S m w = map_option (\<lambda>t. m\<lparr>ram := t\<rparr>) (acquire S (ram m) (snd w))"

definition unlock_cpus :: "'s sem_ops \<Rightarrow> 's Manager \<Rightarrow> int \<times> int \<Rightarrow> 's Manager option" where
  "unlock_cpus S m w = map_option (\<lambda>s. m\<lparr>cpus := s\<rparr>) (release S (cpus m) (fst w))"

definition unlock_ram :: "'s sem_ops \<Rightarrow> 's Manager \<Rightarrow> int \<times> int \<Rightarrow> 's Manager option" where
  "unlock_ram S m w = map_option (\<lambda>t. m\<lparr>ram := t\<rparr>) (release S (ram m) (snd w))"

text \<open>\<open>Lock\<close> when no other call comes in between: the amounts to hand back later, or the error;
  \<open>Panic\<close> only if the release of the cpus panics. The manager \<open>None\<close> is the nil receiver.\<close>

definition Lock ::
  "'s sem_ops \<Rightarrow> 's Manager option \<Rightarrow> int \<Rightarrow> int \<Rightarrow>
   's Manager option \<times> (lock_error, (int \<times> int) option) res" where
  "Lock S mgr c r =
     (case mgr of
        None \<Rightarrow> (None, Ok None)
      | Some m \<Rightarrow>
          (case lock_cpus S m c r of
             None \<Rightarrow> (Some m, Err CtxDone)
           | Some (m1, w) \<Rightarrow>
               (case lock_ram S m1 w of
                  Some m2 \<Rightarrow> (Some m2, Ok (Some w))
                | None \<Rightarrow>
                    (case unlock_cpus S m1 w of
                       Some m2 \<Rightarrow> (Some m2, Err CtxDone)
                     | None \<Rightarrow> (Some m1, Panic)))))"

text \<open>The function \<open>Lock\<close> returns.\<close>

definition release_locked ::
  "'s sem_ops \<Rightarrow> (int \<times> int) option \<Rightarrow> 's Manager option \<Rightarrow> 's Manager option option" where
  "release_locked S held mgr =
     (case mgr of
        None \<Rightarrow> Some None
      | Some m \<Rightarrow>
          (case held of
             None \<Rightarrow> Some (Some m)
           | Some w \<Rightarrow> map_option Some (Option.bind (unlock_cpus S m w) (\<lambda>m1. unlock_ram S m1 w))))"

section \<open>LocalPool\<close>

record requirements =
  reqCpus :: int
  reqRamMBs :: int

definition lblReqs :: "Labels \<Rightarrow> requirements" where
  "lblReqs l =
     (if l = MetalavaLabels then \<lparr>reqCpus = 8, reqRamMBs = 8192\<rparr>
      else if l = JavacLabels then \<lparr>reqCpus = 8, reqRamMBs = 4096\<rparr>
      else if l = R8Labels then \<lparr>reqCpus = 8, reqRamMBs = 4096\<rparr>
      else if l = D8Labels then \<lparr>reqCpus = 8, reqRamMBs = 4096\<rparr>
      else if l = ClangLinkLabels then \<lparr>reqCpus = 1, reqRamMBs = 8192\<rparr>
      else \<lparr>reqCpus = 1, reqRamMBs = 512\<rparr>)"

datatype exec_outcome = ExecOk | ExitError int | ExecFailed

datatype pool_error = LockFailed | ExecError exec_outcome

text \<open>\<open>Run\<close>: the exit code and the error of the command. \<open>outcome\<close> is what the executor reports.\<close>

definition PoolRun ::
  "'s sem_ops \<Rightarrow> 's Manager option \<Rightarrow> (string \<rightharpoonup> string) \<Rightarrow> exec_outcome \<Rightarrow>
   's Manager option \<times> (unit, int \<times> pool_error option) res" where
  "PoolRun S mgr lbls outcome =
     (let req = lblReqs (FromMap lbls) in
      case Lock S mgr (reqCpus req) (reqRamMBs req) of
        (m1, Err e) \<Rightarrow> (m1, Ok (0, Some LockFailed))
      | (m1, Panic) \<Rightarrow> (m1, Panic)
      | (m1, Ok held) \<Rightarrow>
          (let exitCode = (case outcome of ExitError c \<Rightarrow> c | _ \<Rightarrow> 0);
               err = (case outcome of ExecOk \<Rightarrow> None | e \<Rightarrow> Some (ExecError e)) in
           case release_locked S held m1 of
             None \<Rightarrow> (m1, Panic)
           | Some m2 \<Rightarrow> (m2, Ok (exitCode, err))))"

section \<open>Documented behaviour of the semaphores\<close>

text \<open>\<open>used s\<close> is what is held of \<open>s\<close> and \<open>capa s\<close> its capacity.\<close>

definition semaphore_spec :: "'s sem_ops \<Rightarrow> ('s \<Rightarrow> int) \<Rightarrow> ('s \<Rightarrow> int) \<Rightarrow> bool" where
  "semaphore_spec S used capa \<longleftrightarrow>
     (\<forall>n. used (new_sem S n) = 0 \<and> capa (new_sem S n) = n) \<and>
     (\<forall>s n s'. acquire S s n = Some s' \<longrightarrow>
        used s' = used s + n \<and> used s' \<le> capa s' \<and> capa s' = capa s) \<and>
     (\<forall>s n. n \<le> used s \<longrightarrow>
        (\<exists>s'. release S s n = Some s' \<and> used s' = used s - n \<and> capa s' = capa s))"

text \<open>A semaphore with this behaviour: acquisition fails when the capacity is exceeded.\<close>

definition counting_sem :: "(int \<times> int) sem_ops" where
  "counting_sem =
     \<lparr>new_sem = (\<lambda>n. (0, n)),
      acquire = (\<lambda>(u, c) n. if u + n \<le> c then Some (u + n, c) else None),
      release = (\<lambda>(u, c) n. if n \<le> u then Some (u - n, c) else None)\<rparr>"

lemma counting_sem_spec: "semaphore_spec counting_sem fst snd"
  by (auto simp: semaphore_spec_def counting_sem_def split: if_splits)

lemma sem_new: "semaphore_spec S used capa \<Longrightarrow> used (new_sem S n) = 0 \<and> capa (new_sem S n) = n"
  by (simp add: semaphore_spec_def)

lemma sem_acquire:
  "semaphore_spec S used capa \<Longrightarrow> acquire S s n = Some s' \<Longrightarrow>
   used s' = used s + n \<and> used s' \<le> capa s' \<and> capa s' = capa s"
  unfolding semaphore_spec_def by blast

lemma sem_release:
  assumes "semaphore_spec S used capa" and "n \<le> used s"
  obtains s' where "release S s n = Some s'" and "used s' = used s - n" and "capa s' = capa s"
  using assms unfolding semaphore_spec_def by blast

section \<open>Runs of the manager\<close>

text \<open>Any number of calls interleave between the operations on the semaphores. \<open>waiting\<close> are the calls
  that have their cpus and wait for memory, \<open>held\<close> the locks handed out, \<open>returning\<close> those whose
  release has given back the cpus and not yet the memory.\<close>

record 's lock_state =
  mgr :: "'s Manager"
  waiting :: "(int \<times> int) list"
  held :: "(int \<times> int) list"
  returning :: "(int \<times> int) list"

definition lock_init :: "'s Manager \<Rightarrow> 's lock_state" where
  "lock_init m = \<lparr>mgr = m, waiting = [], held = [], returning = []\<rparr>"

inductive lock_step :: "'s sem_ops \<Rightarrow> 's lock_state \<Rightarrow> 's lock_state \<Rightarrow> bool" for S where
  got_cpus: "lock_cpus S (mgr st) c r = Some (m, w) \<Longrightarrow> 0 \<le> c \<Longrightarrow> 0 \<le> r \<Longrightarrow>
     lock_step S st (st\<lparr>mgr := m, waiting := w # waiting st\<rparr>)"
| got_ram: "w \<in> set (waiting st) \<Longrightarrow> lock_ram S (mgr st) w = Some m \<Longrightarrow>
     lock_step S st (st\<lparr>mgr := m, waiting := remove1 w (waiting st), held := w # held st\<rparr>)"
| gave_up: "w \<in> set (waiting st) \<Longrightarrow> unlock_cpus S (mgr st) w = Some m \<Longrightarrow>
     lock_step S st (st\<lparr>mgr := m, waiting := remove1 w (waiting st)\<rparr>)"
| back_cpus: "w \<in> set (held st) \<Longrightarrow> unlock_cpus S (mgr st) w = Some m \<Longrightarrow>
     lock_step S st (st\<lparr>mgr := m, held := remove1 w (held st), returning := w # returning st\<rparr>)"
| back_ram: "w \<in> set (returning st) \<Longrightarrow> unlock_ram S (mgr st) w = Some m \<Longrightarrow>
     lock_step S st (st\<lparr>mgr := m, returning := remove1 w (returning st)\<rparr>)"

inductive_cases lock_stepE: "lock_step S st st'"

definition amounts_ok :: "(int \<times> int) list \<Rightarrow> bool" where
  "amounts_ok ws \<longleftrightarrow> (\<forall>w \<in> set ws. 0 \<le> fst w \<and> 0 \<le> snd w)"

definition lock_inv :: "('s \<Rightarrow> int) \<Rightarrow> ('s \<Rightarrow> int) \<Rightarrow> 's lock_state \<Rightarrow> bool" where
  "lock_inv used capa st \<longleftrightarrow>
     used (cpus (mgr st)) = sum_list (map fst (waiting st @ held st)) \<and>
     used (ram (mgr st)) = sum_list (map snd (held st @ returning st)) \<and>
     capa (cpus (mgr st)) = totalCPUs (mgr st) \<and> capa (ram (mgr st)) = totalRAMMBs (mgr st) \<and>
     used (cpus (mgr st)) \<le> totalCPUs (mgr st) \<and> used (ram (mgr st)) \<le> totalRAMMBs (mgr st) \<and>
     0 \<le> totalCPUs (mgr st) \<and> 0 \<le> totalRAMMBs (mgr st) \<and>
     amounts_ok (waiting st) \<and> amounts_ok (held st) \<and> amounts_ok (returning st)"

lemma cap_request_bounds:
  "cap_request m c r = (c', r') \<Longrightarrow> c' \<le> totalCPUs m \<and> r' \<le> totalRAMMBs m \<and> c' \<le> c \<and> r' \<le> r \<and>
   (0 \<le> c \<longrightarrow> 0 \<le> totalCPUs m \<longrightarrow> 0 \<le> c') \<and> (0 \<le> r \<longrightarrow> 0 \<le> totalRAMMBs m \<longrightarrow> 0 \<le> r')"
  by (auto simp: cap_request_def split: if_splits)

lemma sum_list_remove1:
  "h \<in> set hs \<Longrightarrow> sum_list (map f (remove1 h hs)) = sum_list (map f hs) - (f h :: int)"
  by (induction hs) auto

lemma member_le_sum:
  "h \<in> set hs \<Longrightarrow> (\<And>x. x \<in> set hs \<Longrightarrow> 0 \<le> f x) \<Longrightarrow> f h \<le> (sum_list (map f hs) :: int)"
  by (metis (no_types, lifting) image_iff list.set_map member_le_sum_list)

lemma amounts_ok_simps [simp]:
  "amounts_ok []" "amounts_ok (w # ws) \<longleftrightarrow> 0 \<le> fst w \<and> 0 \<le> snd w \<and> amounts_ok ws"
  by (auto simp: amounts_ok_def)

lemma amounts_ok_remove1: "amounts_ok ws \<Longrightarrow> amounts_ok (remove1 w ws)"
  by (auto simp: amounts_ok_def dest: notin_set_remove1)

lemma amounts_ok_member: "amounts_ok ws \<Longrightarrow> w \<in> set ws \<Longrightarrow> 0 \<le> fst w \<and> 0 \<le> snd w"
  by (simp add: amounts_ok_def)

text \<open>What is in use covers every call under way, so no release panics.\<close>

lemma unlock_cpus_ok:
  assumes sp: "semaphore_spec S used capa" and inv: "lock_inv used capa st" and w: "w \<in> set (waiting st @ held st)"
  obtains s where "release S (cpus (mgr st)) (fst w) = Some s" and "used s = used (cpus (mgr st)) - fst w"
    and "capa s = capa (cpus (mgr st))"
proof -
  have "fst w \<le> used (cpus (mgr st))"
    using inv w member_le_sum [of w "waiting st @ held st" fst] by (auto simp: lock_inv_def amounts_ok_def)
  from sem_release [OF sp this] obtain s where "release S (cpus (mgr st)) (fst w) = Some s"
    "used s = used (cpus (mgr st)) - fst w" "capa s = capa (cpus (mgr st))" .
  then show ?thesis by (rule that)
qed

lemma unlock_ram_ok:
  assumes sp: "semaphore_spec S used capa" and inv: "lock_inv used capa st" and w: "w \<in> set (held st @ returning st)"
  obtains t where "release S (ram (mgr st)) (snd w) = Some t" and "used t = used (ram (mgr st)) - snd w"
    and "capa t = capa (ram (mgr st))"
proof -
  have "snd w \<le> used (ram (mgr st))"
    using inv w member_le_sum [of w "held st @ returning st" snd] by (auto simp: lock_inv_def amounts_ok_def)
  from sem_release [OF sp this] obtain t where "release S (ram (mgr st)) (snd w) = Some t"
    "used t = used (ram (mgr st)) - snd w" "capa t = capa (ram (mgr st))" .
  then show ?thesis by (rule that)
qed

lemma lock_step_inv:
  assumes sp: "semaphore_spec S used capa" and step: "lock_step S st st'" and inv: "lock_inv used capa st"
  shows "lock_inv used capa st'"
  using step
proof cases
  case (got_cpus c r m w)
  then obtain s where s: "acquire S (cpus (mgr st)) (fst w) = Some s" "m = (mgr st)\<lparr>cpus := s\<rparr>" "cap_request (mgr st) c r = w"
    by (auto simp: lock_cpus_def split: option.splits)
  have "0 \<le> fst w \<and> 0 \<le> snd w"
    using cap_request_bounds [of "mgr st" c r "fst w" "snd w"] s(3) got_cpus inv by (auto simp: lock_inv_def)
  then show ?thesis using inv got_cpus s sem_acquire [OF sp s(1)] by (simp add: lock_inv_def)
next
  case (got_ram w m)
  then obtain t where t: "acquire S (ram (mgr st)) (snd w) = Some t" "m = (mgr st)\<lparr>ram := t\<rparr>"
    by (auto simp: lock_ram_def)
  moreover have "0 \<le> fst w \<and> 0 \<le> snd w" using inv got_ram(2) amounts_ok_member [of "waiting st" w] by (simp add: lock_inv_def)
  ultimately show ?thesis using inv got_ram sem_acquire [OF sp t(1)]
    by (simp add: lock_inv_def sum_list_remove1 amounts_ok_remove1)
next
  case (gave_up w m)
  then have "w \<in> set (waiting st @ held st)" by simp
  then obtain s where s: "release S (cpus (mgr st)) (fst w) = Some s" "used s = used (cpus (mgr st)) - fst w"
    "capa s = capa (cpus (mgr st))" by (rule unlock_cpus_ok [OF sp inv])
  moreover have "m = (mgr st)\<lparr>cpus := s\<rparr>" using gave_up(3) s(1) by (simp add: unlock_cpus_def)
  moreover have "0 \<le> fst w" using inv gave_up(2) amounts_ok_member [of "waiting st" w] by (simp add: lock_inv_def)
  ultimately show ?thesis using inv gave_up by (simp add: lock_inv_def sum_list_remove1 amounts_ok_remove1)
next
  case (back_cpus w m)
  then have "w \<in> set (waiting st @ held st)" by simp
  then obtain s where s: "release S (cpus (mgr st)) (fst w) = Some s" "used s = used (cpus (mgr st)) - fst w"
    "capa s = capa (cpus (mgr st))" by (rule unlock_cpus_ok [OF sp inv])
  moreover have "m = (mgr st)\<lparr>cpus := s\<rparr>" using back_cpus(3) s(1) by (simp add: unlock_cpus_def)
  moreover have "0 \<le> fst w \<and> 0 \<le> snd w" using inv back_cpus(2) amounts_ok_member [of "held st" w] by (simp add: lock_inv_def)
  ultimately show ?thesis using inv back_cpus by (simp add: lock_inv_def sum_list_remove1 amounts_ok_remove1)
next
  case (back_ram w m)
  then have "w \<in> set (held st @ returning st)" by simp
  then obtain t where t: "release S (ram (mgr st)) (snd w) = Some t" "used t = used (ram (mgr st)) - snd w"
    "capa t = capa (ram (mgr st))" by (rule unlock_ram_ok [OF sp inv])
  moreover have "m = (mgr st)\<lparr>ram := t\<rparr>" using back_ram(3) t(1) by (simp add: unlock_ram_def)
  moreover have "0 \<le> snd w" using inv back_ram(2) amounts_ok_member [of "returning st" w] by (simp add: lock_inv_def)
  ultimately show ?thesis using inv back_ram by (simp add: lock_inv_def sum_list_remove1 amounts_ok_remove1)
qed

lemma NewManager_inv:
  "semaphore_spec S used capa \<Longrightarrow> lock_inv used capa (lock_init (NewManager S c r))"
  by (simp add: lock_inv_def lock_init_def NewManager_def sem_new max_def)

lemma reachable_inv:
  assumes "semaphore_spec S used capa" and "(lock_step S)\<^sup>*\<^sup>* (lock_init (NewManager S c r)) st"
  shows "lock_inv used capa st"
  using assms(2)
  by (induction rule: rtranclp_induct) (use assms(1) NewManager_inv lock_step_inv in blast)+

text \<open>A call that is not interrupted is such a sequence of steps.\<close>

lemma Lock_steps:
  assumes "Lock S (Some (mgr st)) c r = (Some m, Ok (Some w))" and "0 \<le> c" and "0 \<le> r"
  shows "(lock_step S)\<^sup>*\<^sup>* st (st\<lparr>mgr := m, held := w # held st\<rparr>)"
proof -
  obtain m1 where m1: "lock_cpus S (mgr st) c r = Some (m1, w)" "lock_ram S m1 w = Some m"
    using assms(1) by (auto simp: Lock_def split: option.splits)
  let ?st1 = "st\<lparr>mgr := m1, waiting := w # waiting st\<rparr>"
  have "lock_step S st ?st1" by (rule got_cpus [OF m1(1) assms(2,3)])
  moreover have "lock_step S ?st1 (?st1\<lparr>mgr := m, waiting := remove1 w (waiting ?st1), held := w # held ?st1\<rparr>)"
    by (rule got_ram) (simp_all add: m1(2))
  ultimately show ?thesis by (simp add: converse_rtranclp_into_rtranclp r_into_rtranclp)
qed

section \<open>Properties\<close>

text \<open>C22: in every reachable state of a manager the cpus in use are exactly those of the calls that
  wait for memory and of the locks handed out, the memory in use that of the locks handed out and
  of those being given back; neither exceeds the total, and no release panics.\<close>

theorem Manager_accounts:
  assumes "semaphore_spec S used capa" and "(lock_step S)\<^sup>*\<^sup>* (lock_init (NewManager S c r)) st"
  shows "used (cpus (mgr st)) = sum_list (map fst (waiting st @ held st)) \<and> used (cpus (mgr st)) \<le> totalCPUs (mgr st) \<and>
         used (ram (mgr st)) = sum_list (map snd (held st @ returning st)) \<and> used (ram (mgr st)) \<le> totalRAMMBs (mgr st) \<and>
         (\<forall>w \<in> set (waiting st @ held st). unlock_cpus S (mgr st) w \<noteq> None) \<and>
         (\<forall>w \<in> set (held st @ returning st). unlock_ram S (mgr st) w \<noteq> None)"
proof -
  have inv: "lock_inv used capa st" by (rule reachable_inv [OF assms])
  have "unlock_cpus S (mgr st) w \<noteq> None" if "w \<in> set (waiting st @ held st)" for w
    by (rule unlock_cpus_ok [OF assms(1) inv that]) (simp add: unlock_cpus_def)
  moreover have "unlock_ram S (mgr st) w \<noteq> None" if "w \<in> set (held st @ returning st)" for w
    by (rule unlock_ram_ok [OF assms(1) inv that]) (simp add: unlock_ram_def)
  ultimately show ?thesis using inv by (simp add: lock_inv_def)
qed

text \<open>One lock handed out on a machine with four cpus, and a call that waits for memory.\<close>

definition busy_manager :: "(int \<times> int) lock_state" where
  "busy_manager = \<lparr>mgr = \<lparr>cpus = (3, 4), ram = (600, 1024), totalCPUs = 4, totalRAMMBs = 1024\<rparr>,
     waiting = [(2, 512)], held = [(1, 600)], returning = []\<rparr>"

lemma busy_manager_reachable:
  "(lock_step counting_sem)\<^sup>*\<^sup>* (lock_init (NewManager counting_sem 4 1024)) busy_manager"
proof -
  let ?s0 = "lock_init (NewManager counting_sem 4 1024)"
  let ?m1 = "\<lparr>cpus = (1, 4), ram = (600, 1024), totalCPUs = 4, totalRAMMBs = 1024\<rparr> :: (int \<times> int) Manager"
  let ?s1 = "?s0\<lparr>mgr := ?m1, held := [(1, 600)]\<rparr>"
  have "Lock counting_sem (Some (mgr ?s0)) 1 600 = (Some ?m1, Ok (Some (1, 600)))" by code_simp
  from Lock_steps [OF this] have "(lock_step counting_sem)\<^sup>*\<^sup>* ?s0 ?s1" by (simp add: lock_init_def)
  moreover have "lock_step counting_sem ?s1 (?s1\<lparr>mgr := ?m1\<lparr>cpus := (3, 4)\<rparr>, waiting := [(2, 512)]\<rparr>)"
    using got_cpus [of counting_sem ?s1 2 512 "?m1\<lparr>cpus := (3, 4)\<rparr>" "(2, 512)"]
    by (simp add: lock_cpus_def cap_request_def counting_sem_def lock_init_def)
  moreover have "?s1\<lparr>mgr := ?m1\<lparr>cpus := (3, 4)\<rparr>, waiting := [(2, 512)]\<rparr> = busy_manager"
    by (simp add: busy_manager_def lock_init_def)
  ultimately show ?thesis by (metis rtranclp.rtrancl_into_rtrancl)
qed

theorem Manager_accounts_witness:
  "fst (cpus (mgr busy_manager)) = 2 + 1 \<and> fst (ram (mgr busy_manager)) = 600 \<and>
   unlock_cpus counting_sem (mgr busy_manager) (2, 512) \<noteq> None"
  using Manager_accounts [OF counting_sem_spec busy_manager_reachable]
  by (simp add: busy_manager_def)

text \<open>a request above the machine's resources is capped, so what Lock asks of each semaphore
  is never more than its capacity and never more than was requested.\<close>

theorem Lock_caps_request:
  assumes "Lock S (Some m) c r = (Some m', Ok (Some (c', r')))"
  shows "c' \<le> totalCPUs m \<and> r' \<le> totalRAMMBs m \<and> c' \<le> c \<and> r' \<le> r \<and>
         (c \<le> totalCPUs m \<and> r \<le> totalRAMMBs m \<longrightarrow> c' = c \<and> r' = r)"
proof -
  have "cap_request m c r = (c', r')"
    using assms by (auto simp: Lock_def lock_cpus_def split: option.splits prod.splits)
  then show ?thesis using cap_request_bounds [of m c r c' r'] by (auto simp: cap_request_def)
qed

theorem Lock_caps_request_witness:
  "\<exists>m'. Lock counting_sem (Some (NewManager counting_sem 4 1024)) 8 512 = (Some m', Ok (Some (4, 512))) \<and>
        (4::int) \<le> totalCPUs (NewManager counting_sem 4 1024 :: (int \<times> int) Manager)"
proof -
  have "\<exists>m'. Lock counting_sem (Some (NewManager counting_sem 4 1024)) 8 512 = (Some m', Ok (Some (4, 512)))"
    by (simp add: Lock_def lock_cpus_def lock_ram_def NewManager_def cap_request_def counting_sem_def)
  then show ?thesis using Lock_caps_request by blast
qed

text \<open>running a command in the local pool gives back everything it took: whether the command
  succeeds, fails or the lock is refused, the amounts in use are the same afterwards.\<close>

theorem PoolRun_conserves:
  assumes sp: "semaphore_spec S used capa" and inv: "lock_inv used capa st"
  shows "\<exists>m' res. PoolRun S (Some (mgr st)) lbls outcome = (Some m', Ok res) \<and>
           used (cpus m') = used (cpus (mgr st)) \<and> used (ram m') = used (ram (mgr st))"
proof -
  let ?q = "lblReqs (FromMap lbls)"
  have pos: "0 \<le> reqCpus ?q" "0 \<le> reqRamMBs ?q" by (simp_all add: lblReqs_def)
  show ?thesis
  proof (cases "lock_cpus S (mgr st) (reqCpus ?q) (reqRamMBs ?q)")
    case None
    then show ?thesis by (simp add: PoolRun_def Let_def Lock_def)
  next
    case (Some mw)
    obtain m1 w where mw: "mw = (m1, w)" by (cases mw) auto
    note c = Some [unfolded mw]
    let ?st1 = "st\<lparr>mgr := m1, waiting := w # waiting st\<rparr>"
    have step1: "lock_step S st ?st1" by (rule got_cpus [OF c pos])
    have inv1: "lock_inv used capa ?st1" by (rule lock_step_inv [OF sp step1 inv])
    have u1: "used (cpus m1) = used (cpus (mgr st)) + fst w" "ram m1 = ram (mgr st)"
      using c sem_acquire [OF sp] by (auto simp: lock_cpus_def split: option.splits)
    show ?thesis
    proof (cases "lock_ram S m1 w")
      case None
      from unlock_cpus_ok [OF sp inv1, of w] obtain s where "release S (cpus m1) (fst w) = Some s"
        "used s = used (cpus m1) - fst w" by auto
      then show ?thesis using c None u1 by (simp add: PoolRun_def Let_def Lock_def unlock_cpus_def)
    next
      case (Some m2)
      let ?st2 = "?st1\<lparr>mgr := m2, waiting := remove1 w (waiting ?st1), held := w # held ?st1\<rparr>"
      have step2: "lock_step S ?st1 ?st2" by (rule got_ram) (simp_all add: Some)
      have inv2: "lock_inv used capa ?st2" by (rule lock_step_inv [OF sp step2 inv1])
      have u2: "used (ram m2) = used (ram m1) + snd w" "cpus m2 = cpus m1"
        using Some sem_acquire [OF sp] by (auto simp: lock_ram_def)
      from unlock_cpus_ok [OF sp inv2, of w] obtain s where s: "release S (cpus m2) (fst w) = Some s"
        "used s = used (cpus m2) - fst w" by auto
      from unlock_ram_ok [OF sp inv2, of w] obtain t where t: "release S (ram m2) (snd w) = Some t"
        "used t = used (ram m2) - snd w" by auto
      show ?thesis using c Some s t u1 u2
        by (simp add: PoolRun_def Let_def Lock_def release_locked_def unlock_cpus_def unlock_ram_def)
    qed
  qed
qed

theorem PoolRun_conserves_witness:
  "\<exists>m' res. PoolRun counting_sem (Some (NewManager counting_sem 4 1024)) Map.empty (ExitError 3) = (Some m', Ok res) \<and>
     fst (cpus m') = fst (cpus (NewManager counting_sem 4 1024)) \<and>
     fst (ram m') = fst (ram (NewManager counting_sem 4 1024))"
  using PoolRun_conserves [OF counting_sem_spec NewManager_inv [OF counting_sem_spec], of 4 1024 Map.empty "ExitError 3"]
  by (simp add: lock_init_def)

end
