(* ===== verification/Compare.thy ===== *)
theory Compare
  imports GoPath "HOL-Library.AList"
begin

text \<open>
  Comparison of local and remote reruns (\<open>internal/pkg/reproxy/compare.go\<close>): the digests of
  every output over all reruns are collected, classified, and the outputs worth reporting
  are listed in path order. The mismatch map is an association list with distinct keys; a
  rerun carries the order in which Go's iteration visits its outputs. \<open>dedup\<close>
  (\<open>internal/pkg/reproxy/server.go\<close>) returns the values of a map in iteration order: the
  order is an argument, of which only that it permutes is used (\<open>iteration_order\<close>).
\<close>

section \<open>Definitions\<close>

datatype DeterminismStatus = UNKNOWN | DETERMINISTIC | NON_DETERMINISTIC | REMOTE_NON_DETERMINISTIC

record Mismatch =
  mPath :: string
  ActionDigest :: string
  LocalDigests :: "string list"
  RemoteDigests :: "string list"
  LocalExitCodes :: "int list"
  RemoteExitCodes :: "int list"
  Determinism :: DeterminismStatus

record Rerun =
  OutputFileDigests :: "string \<rightharpoonup> string"
  OutputDirectoryDigests :: "string \<rightharpoonup> string"
  visitOrder :: "string list"
  RerunExitCode :: int

record Verification =
  Mismatches :: "Mismatch list"
  TotalMismatches :: nat
  TotalVerified :: nat

definition dedup :: "(string list \<Rightarrow> string list) \<Rightarrow> string list \<Rightarrow> string list" where
  "dedup ord xs = ord (dedup_by Clean [] xs)"

definition iteration_order :: "('a list \<Rightarrow> 'a list) \<Rightarrow> bool" where
  "iteration_order ord \<longleftrightarrow> (\<forall>xs. mset (ord xs) = mset xs)"

definition dedupExitCodes :: "int list \<Rightarrow> int list" where
  "dedupExitCodes xs = dedup_by id [] xs"

definition new_mismatch :: "string \<Rightarrow> string \<Rightarrow> Mismatch" where
  "new_mismatch fp dg = \<lparr>mPath = fp, ActionDigest = dg, LocalDigests = [], RemoteDigests = [],
     LocalExitCodes = [], RemoteExitCodes = [], Determinism = UNKNOWN\<rparr>"

definition add_digest :: "(string list \<Rightarrow> string list) \<Rightarrow> bool \<Rightarrow> string \<Rightarrow> Mismatch \<Rightarrow> Mismatch" where
  "add_digest ord remote dg m =
     (if remote then m\<lparr>RemoteDigests := dedup ord (RemoteDigests m @ [dg])\<rparr>
      else m\<lparr>LocalDigests := dedup ord (LocalDigests m @ [dg])\<rparr>)"

definition all_digests :: "Rerun \<Rightarrow> (string \<rightharpoonup> string)" where
  "all_digests r = OutputFileDigests r ++ OutputDirectoryDigests r"

text \<open>The outputs of one rerun, in the order of the visit.\<close>

fun find_mismatches_loop ::
  "(string list \<Rightarrow> string list) \<Rightarrow> (string \<rightharpoonup> string) \<Rightarrow> string \<Rightarrow> bool \<Rightarrow> string list \<Rightarrow> (string \<times> Mismatch) list \<Rightarrow> nat \<Rightarrow>
   (string \<times> Mismatch) list \<times> nat" where
  "find_mismatches_loop ord allDg digest remote [] ms n = (ms, n)"
| "find_mismatches_loop ord allDg digest remote (fp # fps) ms n =
     (case allDg fp of
        None \<Rightarrow> find_mismatches_loop ord allDg digest remote fps ms n
      | Some dg \<Rightarrow>
          let fp' = ToSlash fp;
              (m, n') = (case map_of ms fp' of
                           Some m \<Rightarrow> (m, n)
                         | None \<Rightarrow> (new_mismatch fp' digest, n + 1))
          in find_mismatches_loop ord allDg digest remote fps (AList.update fp' (add_digest ord remote dg m) ms) n')"

definition findMismatches ::
  "(string list \<Rightarrow> string list) \<Rightarrow> string \<Rightarrow> bool \<Rightarrow> Rerun \<Rightarrow> (string \<times> Mismatch) list \<times> nat \<Rightarrow> (string \<times> Mismatch) list \<times> nat" where
  "findMismatches ord digest remote rerun st =
     find_mismatches_loop ord (all_digests rerun) digest remote (visitOrder rerun) (fst st) (snd st)"

text \<open>\<open>compareDigests\<close> and \<open>compareExitCodes\<close> have the same body.\<close>

definition compareDigests :: "'a list \<Rightarrow> 'a list \<Rightarrow> int \<Rightarrow> int \<Rightarrow> DeterminismStatus \<times> bool" where
  "compareDigests localDigests remoteDigests numLocalReruns numRemoteReruns =
     (let totalReruns = numLocalReruns + numRemoteReruns;
          localMismatches = length localDigests; remoteMismatches = length remoteDigests in
      if localMismatches > 1 \<or> remoteMismatches > 1 then
        (if localMismatches = 1 then (REMOTE_NON_DETERMINISTIC, True) else (NON_DETERMINISTIC, True))
      else
        let deterministicMismatch = localMismatches = 1 \<and> remoteMismatches = 1 \<and>
              hd localDigests \<noteq> hd remoteDigests \<and> totalReruns > 2;
            localDeterministic = localMismatches = 1 \<and> numRemoteReruns = 0;
            remoteDeterministic = remoteMismatches = 1 \<and> numLocalReruns = 0;
            deterministic = localMismatches = 1 \<and> remoteMismatches = 1 \<and> hd localDigests = hd remoteDigests
        in if localDeterministic \<or> remoteDeterministic \<or> deterministic \<or> deterministicMismatch
           then (DETERMINISTIC, deterministicMismatch)
           else (UNKNOWN, True))"

definition compareExitCodes :: "int list \<Rightarrow> int list \<Rightarrow> int \<Rightarrow> int \<Rightarrow> DeterminismStatus \<times> bool" where
  "compareExitCodes l r nl nr = compareDigests l r nl nr"

definition combine_status :: "DeterminismStatus \<Rightarrow> DeterminismStatus \<Rightarrow> DeterminismStatus" where
  "combine_status dg ec =
     (if dg = UNKNOWN \<or> ec = UNKNOWN then UNKNOWN
      else if dg = REMOTE_NON_DETERMINISTIC \<or> ec = REMOTE_NON_DETERMINISTIC then REMOTE_NON_DETERMINISTIC
      else if dg = NON_DETERMINISTIC \<or> ec = NON_DETERMINISTIC then NON_DETERMINISTIC
      else DETERMINISTIC)"

text \<open>One entry of the final loop: \<open>None\<close> when the entry is deleted.\<close>

definition classify :: "int list \<Rightarrow> int list \<Rightarrow> int \<Rightarrow> int \<Rightarrow> Mismatch \<Rightarrow> Mismatch option" where
  "classify localExitCodes remoteExitCodes nl nr m0 =
     (let m = m0\<lparr>LocalExitCodes := localExitCodes, RemoteExitCodes := remoteExitCodes\<rparr>;
          (dgStatus, shouldLogDg) = compareDigests (LocalDigests m) (RemoteDigests m) nl nr;
          (ecStatus, shouldLogEc) = compareExitCodes (LocalExitCodes m) (RemoteExitCodes m) nl nr;
          st = combine_status dgStatus ecStatus in
      if \<not> shouldLogDg \<and> \<not> shouldLogEc then None
      else if \<not> shouldLogDg then Some (m\<lparr>LocalDigests := [], RemoteDigests := [], Determinism := st\<rparr>)
      else if \<not> shouldLogEc then Some (m\<lparr>LocalExitCodes := [], RemoteExitCodes := [], Determinism := st\<rparr>)
      else Some (m\<lparr>Determinism := st\<rparr>))"

definition mismatchesToProto :: "(string \<times> Mismatch) list \<Rightarrow> nat \<Rightarrow> Verification" where
  "mismatchesToProto ms numVerified =
     \<lparr>Mismatches = map (\<lambda>k. the (map_of ms k)) (sort (map fst ms)),
      TotalMismatches = length ms, TotalVerified = numVerified\<rparr>"

record cmp_action =
  compareOn :: bool
  localReruns :: "Rerun list"
  remoteReruns :: "Rerun list option"
  numLocalReruns :: int
  numRemoteReruns :: int
  aDigest :: string

definition collect_mismatches :: "(string list \<Rightarrow> string list) \<Rightarrow> cmp_action \<Rightarrow> (string \<times> Mismatch) list \<times> nat" where
  "collect_mismatches ord a =
     fold (findMismatches ord (aDigest a) True) (case remoteReruns a of None \<Rightarrow> [] | Some rs \<Rightarrow> rs)
       (fold (findMismatches ord (aDigest a) False) (localReruns a) ([], 0))"

definition compareAction :: "(string list \<Rightarrow> string list) \<Rightarrow> cmp_action \<Rightarrow> Verification option" where
  "compareAction ord a =
     (if \<not> compareOn a then None
      else
        let (mismatches, numVerified) = collect_mismatches ord a;
            lec = dedupExitCodes (map RerunExitCode (localReruns a));
            rec = dedupExitCodes (map RerunExitCode (case remoteReruns a of None \<Rightarrow> [] | Some rs \<Rightarrow> rs));
            kept = List.map_filter (\<lambda>(k, m). map_option (Pair k)
                     (classify lec rec (numLocalReruns a) (numRemoteReruns a) m)) mismatches
        in Some (mismatchesToProto kept numVerified))"

section \<open>Collecting digests\<close>

lemma dedup_clean:
  assumes "iteration_order ord" and "\<forall>x \<in> set xs. Clean x = x"
  shows "set (dedup ord xs) = set xs \<and> distinct (dedup ord xs)"
proof -
  have m: "mset (dedup ord xs) = mset (dedup_by Clean [] xs)"
    using assms(1) by (simp add: dedup_def iteration_order_def)
  have eq: "dedup_by Clean seen ys = dedup_by id seen ys" if "\<forall>x \<in> set ys. Clean x = x" for seen ys
    using that by (induction ys arbitrary: seen) auto
  have "set (dedup_by id [] xs) = set xs" "distinct (dedup_by id [] xs)"
    using dedup_by_distinct [of id "[]" xs] by simp_all
  then show ?thesis
    using m eq [OF assms(2)] by (metis mset_eq_imp_distinct_iff mset_eq_setD)
qed

text \<open>The digests an output has over a list of reruns.\<close>

definition digests_of :: "string \<Rightarrow> Rerun list \<Rightarrow> string set" where
  "digests_of p rs = {dg. \<exists>r \<in> set rs. all_digests r p = Some dg}"

text \<open>The visit covers each output of the rerun once, and digests (\<open>hash/size\<close>) are clean as
  paths.\<close>

definition rerun_ok :: "Rerun \<Rightarrow> bool" where
  "rerun_ok r \<longleftrightarrow> distinct (visitOrder r) \<and> set (visitOrder r) = dom (all_digests r) \<and>
     (\<forall>p dg. all_digests r p = Some dg \<longrightarrow> Clean dg = dg)"

text \<open>What the map holds after the local reruns \<open>ls\<close> and remote reruns \<open>rs\<close>.\<close>

definition entry_ok :: "string \<Rightarrow> Rerun list \<Rightarrow> Rerun list \<Rightarrow> string \<Rightarrow> Mismatch \<Rightarrow> bool" where
  "entry_ok dg ls rs p m \<longleftrightarrow> mPath m = p \<and> ActionDigest m = dg \<and>
     set (LocalDigests m) = digests_of p ls \<and> distinct (LocalDigests m) \<and>
     set (RemoteDigests m) = digests_of p rs \<and> distinct (RemoteDigests m)"

definition collected :: "string \<Rightarrow> Rerun list \<Rightarrow> Rerun list \<Rightarrow> (string \<times> Mismatch) list \<times> nat \<Rightarrow> bool" where
  "collected dg ls rs st \<longleftrightarrow>
     distinct (map fst (fst st)) \<and> snd st = length (fst st) \<and>
     (\<forall>p. case map_of (fst st) p of
            None \<Rightarrow> digests_of p (ls @ rs) = {}
          | Some m \<Rightarrow> digests_of p (ls @ rs) \<noteq> {} \<and> entry_ok dg ls rs p m)"

lemma collectedD:
  assumes "collected dg ls rs st"
  shows "map_of (fst st) p = None \<Longrightarrow> digests_of p (ls @ rs) = {}"
    and "map_of (fst st) p = Some m \<Longrightarrow> digests_of p (ls @ rs) \<noteq> {} \<and> entry_ok dg ls rs p m"
proof -
  have "case map_of (fst st) p of
      None \<Rightarrow> digests_of p (ls @ rs) = {}
    | Some m \<Rightarrow> digests_of p (ls @ rs) \<noteq> {} \<and> entry_ok dg ls rs p m"
    using assms unfolding collected_def by blast
  then show "map_of (fst st) p = None \<Longrightarrow> digests_of p (ls @ rs) = {}"
    and "map_of (fst st) p = Some m \<Longrightarrow> digests_of p (ls @ rs) \<noteq> {} \<and> entry_ok dg ls rs p m"
    by simp_all
qed

lemma update_length:
  "length (AList.update k v ms) = (if map_of ms k = None then Suc (length ms) else length ms)"
  by (induction ms) auto

text \<open>One pass over the visit order touches each visited key once.\<close>

lemma loop_map:
  "distinct fps \<Longrightarrow> distinct (map fst ms) \<Longrightarrow> n = length ms \<Longrightarrow>
   find_mismatches_loop ord d dg remote fps ms n = (ms', n') \<Longrightarrow>
   distinct (map fst ms') \<and> n' = length ms' \<and>
   (\<forall>p. map_of ms' p =
      (if p \<in> set fps \<and> d p \<noteq> None
       then Some (add_digest ord remote (the (d p)) (case map_of ms p of Some m \<Rightarrow> m | None \<Rightarrow> new_mismatch p dg))
       else map_of ms p))"
proof (induction fps arbitrary: ms n)
  case Nil
  then show ?case by auto
next
  case (Cons fp fps)
  show ?case
  proof (cases "d fp")
    case None
    then show ?thesis using Cons by auto
  next
    case (Some v)
    let ?m = "case map_of ms fp of Some m \<Rightarrow> m | None \<Rightarrow> new_mismatch fp dg"
    let ?ms = "AList.update fp (add_digest ord remote v ?m) ms"
    have "find_mismatches_loop ord d dg remote fps ?ms (length ?ms) = (ms', n')"
      using Cons.prems Some
      by (cases "map_of ms fp") (simp_all add: ToSlash_def update_length del: map_of_eq_Some_iff)
    then have IH: "distinct (map fst ms') \<and> n' = length ms' \<and>
       (\<forall>p. map_of ms' p =
          (if p \<in> set fps \<and> d p \<noteq> None
           then Some (add_digest ord remote (the (d p)) (case map_of ?ms p of Some m \<Rightarrow> m | None \<Rightarrow> new_mismatch p dg))
           else map_of ?ms p))"
      using Cons.IH [of ?ms "length ?ms"] Cons.prems distinct_update [of ms fp] by auto
    show ?thesis
      using IH Cons.prems(1) Some by (auto simp: update_conv')
  qed
qed

lemma digests_of_snoc:
  "digests_of p (rs @ [r]) = digests_of p rs \<union> (case all_digests r p of None \<Rightarrow> {} | Some d \<Rightarrow> {d})"
  by (auto simp: digests_of_def split: option.splits)

lemma digests_of_append: "digests_of p (rs @ rs') = digests_of p rs \<union> digests_of p rs'"
  by (auto simp: digests_of_def)

lemma digests_of_single:
  "digests_of p [r] = (case all_digests r p of None \<Rightarrow> {} | Some d \<Rightarrow> {d})"
  by (auto simp: digests_of_def split: option.splits)

lemma digests_of_clean: "\<forall>r \<in> set rs. rerun_ok r \<Longrightarrow> x \<in> digests_of p rs \<Longrightarrow> Clean x = x"
  by (auto simp: digests_of_def rerun_ok_def)

lemma add_digest_entry:
  assumes "iteration_order ord" and "\<forall>r \<in> set (ls @ rs). rerun_ok r" and "Clean d = d"
    and "entry_ok dg ls rs p m"
  shows "mPath (add_digest ord remote d m) = p \<and> ActionDigest (add_digest ord remote d m) = dg \<and>
    set (LocalDigests (add_digest ord remote d m)) = (if remote then {} else {d}) \<union> digests_of p ls \<and>
    set (RemoteDigests (add_digest ord remote d m)) = (if remote then {d} else {}) \<union> digests_of p rs \<and>
    distinct (LocalDigests (add_digest ord remote d m)) \<and> distinct (RemoteDigests (add_digest ord remote d m))"
proof -
  have "\<forall>x \<in> set (LocalDigests m @ [d]). Clean x = x" "\<forall>x \<in> set (RemoteDigests m @ [d]). Clean x = x"
    using assms digests_of_clean [of ls] digests_of_clean [of rs] by (auto simp: entry_ok_def)
  then show ?thesis
    using dedup_clean [OF assms(1)] assms(4) by (auto simp: add_digest_def entry_ok_def)
qed

lemma new_mismatch_entry:
  "digests_of p (ls @ rs) = {} \<Longrightarrow> entry_ok dg ls rs p (new_mismatch p dg)"
  by (auto simp: entry_ok_def new_mismatch_def digests_of_append)

lemma findMismatches_collected:
  assumes ord: "iteration_order ord" and ok: "\<forall>r \<in> set (ls @ rs). rerun_ok r" "rerun_ok r"
    and c: "collected dg ls rs st"
  shows "collected dg (if remote then ls else ls @ [r]) (if remote then rs @ [r] else rs)
           (findMismatches ord dg remote r st)"
proof -
  obtain ms' n' where f: "find_mismatches_loop ord (all_digests r) dg remote (visitOrder r) (fst st) (snd st) = (ms', n')"
    by fastforce
  have L: "distinct (map fst ms') \<and> n' = length ms' \<and>
   (\<forall>p. map_of ms' p =
      (if p \<in> set (visitOrder r) \<and> all_digests r p \<noteq> None
       then Some (add_digest ord remote (the (all_digests r p))
              (case map_of (fst st) p of Some m \<Rightarrow> m | None \<Rightarrow> new_mismatch p dg))
       else map_of (fst st) p))"
    using loop_map [OF _ _ _ f] c ok(2) by (simp add: collected_def rerun_ok_def)
  have entry: "entry_ok dg ls rs p (case map_of (fst st) p of Some m \<Rightarrow> m | None \<Rightarrow> new_mismatch p dg)" for p
  proof (cases "map_of (fst st) p")
    case None
    then show ?thesis using collectedD(1) [OF c] new_mismatch_entry by simp
  next
    case (Some m)
    then show ?thesis using collectedD(2) [OF c] by simp
  qed
  have "case map_of ms' p of
      None \<Rightarrow> digests_of p ((if remote then ls else ls @ [r]) @ (if remote then rs @ [r] else rs)) = {}
    | Some m \<Rightarrow> digests_of p ((if remote then ls else ls @ [r]) @ (if remote then rs @ [r] else rs)) \<noteq> {} \<and>
        entry_ok dg (if remote then ls else ls @ [r]) (if remote then rs @ [r] else rs) p m" for p
  proof (cases "all_digests r p")
    case None
    then have m: "map_of ms' p = map_of (fst st) p" using L by auto
    have d: "digests_of p (rs' @ [r]) = digests_of p rs'" for rs'
      using None by (simp add: digests_of_snoc)
    have d2: "digests_of p ((if remote then ls else ls @ [r]) @ (if remote then rs @ [r] else rs)) =
        digests_of p (ls @ rs)"
      using d [of ls] d [of rs] by (simp add: digests_of_append)
    have "entry_ok dg (if remote then ls else ls @ [r]) (if remote then rs @ [r] else rs) p m' = entry_ok dg ls rs p m'" for m'
      using d [of ls] d [of rs] by (simp add: entry_ok_def)
    then show ?thesis
      using m d2 collectedD [OF c, of p] by (cases "map_of (fst st) p") simp_all
  next
    case (Some d)
    then have "p \<in> set (visitOrder r)" "Clean d = d" using ok(2) by (auto simp: rerun_ok_def)
    then have m: "map_of ms' p = Some (add_digest ord remote d
              (case map_of (fst st) p of Some m \<Rightarrow> m | None \<Rightarrow> new_mismatch p dg))"
      using L Some by simp
    show ?thesis
      using m Some add_digest_entry [OF ord ok(1) \<open>Clean d = d\<close> entry [of p], of remote]
      by (simp add: entry_ok_def digests_of_append digests_of_single)
  qed
  then show ?thesis using L f by (simp add: collected_def findMismatches_def)
qed

lemma fold_findMismatches_local:
  assumes "iteration_order ord" and "collected dg ls [] st" and "\<forall>r \<in> set (ls @ xs). rerun_ok r"
  shows "collected dg (ls @ xs) [] (fold (findMismatches ord dg False) xs st)"
  using assms
proof (induction xs arbitrary: ls st)
  case (Cons r xs)
  have "collected dg (ls @ [r]) [] (findMismatches ord dg False r st)"
    using findMismatches_collected [OF assms(1), of ls "[]" r dg st False] Cons.prems by simp
  from Cons.IH [OF assms(1) this] Cons.prems(3) show ?case by simp
qed simp

lemma fold_findMismatches_remote:
  assumes "iteration_order ord" and "collected dg ls rs st" and "\<forall>r \<in> set (ls @ rs @ xs). rerun_ok r"
  shows "collected dg ls (rs @ xs) (fold (findMismatches ord dg True) xs st)"
  using assms
proof (induction xs arbitrary: rs st)
  case (Cons r xs)
  have "collected dg ls (rs @ [r]) (findMismatches ord dg True r st)"
    using findMismatches_collected [OF assms(1), of ls rs r dg st True] Cons.prems by auto
  from Cons.IH [OF assms(1) this] Cons.prems(3) show ?case by simp
qed simp

definition remotes :: "cmp_action \<Rightarrow> Rerun list" where
  "remotes a = (case remoteReruns a of None \<Rightarrow> [] | Some rs \<Rightarrow> rs)"

lemma collect_mismatches_collected:
  assumes "iteration_order ord" and "\<forall>r \<in> set (localReruns a @ remotes a). rerun_ok r"
  shows "collected (aDigest a) (localReruns a) (remotes a) (collect_mismatches ord a)"
proof -
  have "collected (aDigest a) [] [] ([], 0)" by (simp add: collected_def digests_of_def)
  from fold_findMismatches_local [OF assms(1) this, of "localReruns a"]
  have "collected (aDigest a) (localReruns a) [] (fold (findMismatches ord (aDigest a) False) (localReruns a) ([], 0))"
    using assms(2) by simp
  from fold_findMismatches_remote [OF assms(1) this, of "remotes a"] assms(2)
  show ?thesis by (simp add: collect_mismatches_def remotes_def)
qed

section \<open>Classification\<close>

text \<open>The outcome depends on the sets of digests only.\<close>

definition spec_log :: "'a set \<Rightarrow> 'a set \<Rightarrow> int \<Rightarrow> int \<Rightarrow> bool" where
  "spec_log L R nl nr \<longleftrightarrow>
     card L > 1 \<or> card R > 1 \<or>
     (L \<noteq> {} \<and> R \<noteq> {} \<and> L \<noteq> R \<and> (nl + nr > 2 \<or> (nl \<noteq> 0 \<and> nr \<noteq> 0))) \<or>
     (L = {} \<and> R = {}) \<or> (L = {} \<and> R \<noteq> {} \<and> nl \<noteq> 0) \<or> (L \<noteq> {} \<and> R = {} \<and> nr \<noteq> 0)"

lemma length_le_1_cases:
  "\<not> 1 < length xs \<Longrightarrow> xs = [] \<or> (\<exists>x. xs = [x])"
  by (cases xs; cases "tl xs") auto

lemma compareDigests_log:
  assumes "distinct l" and "distinct r"
  shows "snd (compareDigests l r nl nr) \<longleftrightarrow> spec_log (set l) (set r) nl nr"
proof (cases "1 < length l \<or> 1 < length r")
  case True
  then show ?thesis
    using assms by (auto simp: compareDigests_def spec_log_def Let_def distinct_card)
next
  case False
  then have "l = [] \<or> (\<exists>x. l = [x])" "r = [] \<or> (\<exists>x. r = [x])"
    using length_le_1_cases by blast+
  then show ?thesis
    by (elim disjE exE) (auto simp: compareDigests_def spec_log_def Let_def)
qed

lemma compareDigests_many:
  "1 < length l \<or> 1 < length r \<Longrightarrow>
   fst (compareDigests l r nl nr) = (if length l = 1 then REMOTE_NON_DETERMINISTIC else NON_DETERMINISTIC)"
  by (simp add: compareDigests_def Let_def)

lemma dedupExitCodes_set: "set (dedupExitCodes xs) = set xs \<and> distinct (dedupExitCodes xs)"
  using dedup_by_distinct [of id "[]" xs] by (simp add: dedupExitCodes_def)

lemma classify_None:
  "classify lec rec nl nr m = None \<longleftrightarrow>
   \<not> snd (compareDigests (LocalDigests m) (RemoteDigests m) nl nr) \<and> \<not> snd (compareExitCodes lec rec nl nr)"
  by (auto simp: classify_def Let_def split: prod.splits)

lemma classify_path: "classify lec rec nl nr m = Some m' \<Longrightarrow> mPath m' = mPath m"
  by (auto simp: classify_def Let_def split: prod.splits if_splits)

lemma map_filter_fst:
  "distinct (map fst ms) \<Longrightarrow>
   distinct (map fst (List.map_filter (\<lambda>(k, m). map_option (Pair k) (f m)) ms)) \<and>
   (\<forall>p. map_of (List.map_filter (\<lambda>(k, m). map_option (Pair k) (f m)) ms) p =
        (case map_of ms p of None \<Rightarrow> None | Some m \<Rightarrow> f m)) \<and>
   set (map fst (List.map_filter (\<lambda>(k, m). map_option (Pair k) (f m)) ms)) \<subseteq> set (map fst ms)"
proof (induction ms)
  case Nil
  then show ?case by (simp add: List.map_filter_simps)
next
  case (Cons km ms)
  obtain k m where km: "km = (k, m)" by (cases km)
  have "map_of ms k = None" using Cons.prems km by (simp add: map_of_eq_None_iff)
  then show ?case
    using Cons km by (cases "f m") (auto simp: List.map_filter_simps)
qed

text \<open>Whether an output is reported.\<close>

definition reported :: "cmp_action \<Rightarrow> string \<Rightarrow> bool" where
  "reported a p \<longleftrightarrow>
     digests_of p (localReruns a @ remotes a) \<noteq> {} \<and>
     (spec_log (digests_of p (localReruns a)) (digests_of p (remotes a)) (numLocalReruns a) (numRemoteReruns a) \<or>
      spec_log (RerunExitCode ` set (localReruns a)) (RerunExitCode ` set (remotes a))
        (numLocalReruns a) (numRemoteReruns a))"

lemma compareAction_unfold:
  assumes "iteration_order ord" and "\<forall>r \<in> set (localReruns a @ remotes a). rerun_ok r" and "compareOn a"
  obtains ms kept where "collected (aDigest a) (localReruns a) (remotes a) (ms, length ms)"
    and "compareAction ord a = Some (mismatchesToProto kept (length ms))"
    and "distinct (map fst kept)"
    and "\<forall>p. map_of kept p = (case map_of ms p of None \<Rightarrow> None | Some m \<Rightarrow>
           classify (dedupExitCodes (map RerunExitCode (localReruns a))) (dedupExitCodes (map RerunExitCode (remotes a)))
             (numLocalReruns a) (numRemoteReruns a) m)"
proof -
  obtain ms n where st: "collect_mismatches ord a = (ms, n)" by fastforce
  have c: "collected (aDigest a) (localReruns a) (remotes a) (ms, n)"
    using collect_mismatches_collected [OF assms(1,2)] st by simp
  then have n: "n = length ms" "distinct (map fst ms)" by (simp_all add: collected_def)
  let ?f = "classify (dedupExitCodes (map RerunExitCode (localReruns a))) (dedupExitCodes (map RerunExitCode (remotes a)))
             (numLocalReruns a) (numRemoteReruns a)"
  let ?kept = "List.map_filter (\<lambda>(k, m). map_option (Pair k) (?f m)) ms"
  have "compareAction ord a = Some (mismatchesToProto ?kept n)"
    using assms(3) st by (simp add: compareAction_def remotes_def)
  then show ?thesis
    using that [of ms ?kept] c n map_filter_fst [OF n(2), of ?f] by simp
qed

lemma kept_iff_reported:
  assumes "collected dg (localReruns a) (remotes a) (ms, n)"
  shows "(case map_of ms p of None \<Rightarrow> None | Some m \<Rightarrow>
           classify (dedupExitCodes (map RerunExitCode (localReruns a))) (dedupExitCodes (map RerunExitCode (remotes a)))
             (numLocalReruns a) (numRemoteReruns a) m) \<noteq> None \<longleftrightarrow> reported a p"
proof (cases "map_of ms p")
  case None
  then have "digests_of p (localReruns a @ remotes a) = {}"
    using collectedD(1) [OF assms] by simp
  then show ?thesis using None by (simp add: reported_def)
next
  case (Some m)
  then have e: "digests_of p (localReruns a @ remotes a) \<noteq> {}" "entry_ok dg (localReruns a) (remotes a) p m"
    using collectedD(2) [OF assms] by auto
  have ec: "snd (compareExitCodes (dedupExitCodes (map RerunExitCode (localReruns a)))
      (dedupExitCodes (map RerunExitCode (remotes a))) nl nr) \<longleftrightarrow>
      spec_log (RerunExitCode ` set (localReruns a)) (RerunExitCode ` set (remotes a)) nl nr" for nl nr
    using compareDigests_log [of "dedupExitCodes (map RerunExitCode (localReruns a))"
        "dedupExitCodes (map RerunExitCode (remotes a))"] dedupExitCodes_set
    by (simp add: compareExitCodes_def)
  show ?thesis
    using Some e compareDigests_log [of "LocalDigests m" "RemoteDigests m"]
    by (auto simp: classify_None reported_def ec entry_ok_def)
qed

text \<open>A rerun with one output.\<close>

definition demo_rerun :: "string \<Rightarrow> Rerun" where
  "demo_rerun d = \<lparr>OutputFileDigests = [''a.o'' \<mapsto> d], OutputDirectoryDigests = Map.empty,
     visitOrder = [''a.o''], RerunExitCode = 0\<rparr>"

section \<open>Properties\<close>

lemma compareAction_report:
  assumes "iteration_order ord" and "\<forall>r \<in> set (localReruns a @ remotes a). rerun_ok r"
    and "compareAction ord a = Some v"
  shows "TotalVerified v = card {p. digests_of p (localReruns a @ remotes a) \<noteq> {}} \<and>
         TotalMismatches v = length (Mismatches v) \<and>
         sorted (map mPath (Mismatches v)) \<and> distinct (map mPath (Mismatches v)) \<and>
         set (map mPath (Mismatches v)) = {p. reported a p} \<and>
         (\<forall>p. 1 < card (digests_of p (localReruns a)) \<or> 1 < card (digests_of p (remotes a)) \<longrightarrow>
            p \<in> set (map mPath (Mismatches v))) \<and>
         (\<forall>p d e. digests_of p (localReruns a) = {d} \<and> digests_of p (remotes a) = {d} \<and>
            RerunExitCode ` set (localReruns a) = {e} \<and> RerunExitCode ` set (remotes a) = {e} \<longrightarrow>
            p \<notin> set (map mPath (Mismatches v)))"
proof -
  have "compareOn a" using assms(3) by (auto simp: compareAction_def split: if_splits)
  then obtain ms kept where c: "collected (aDigest a) (localReruns a) (remotes a) (ms, length ms)"
    and v: "v = mismatchesToProto kept (length ms)" and dk: "distinct (map fst kept)"
    and mk: "\<forall>p. map_of kept p = (case map_of ms p of None \<Rightarrow> None | Some m \<Rightarrow>
           classify (dedupExitCodes (map RerunExitCode (localReruns a))) (dedupExitCodes (map RerunExitCode (remotes a)))
             (numLocalReruns a) (numRemoteReruns a) m)"
    using compareAction_unfold [OF assms(1,2)] assms(3) by (metis option.inject)
  have dom: "set (map fst ms) = {p. digests_of p (localReruns a @ remotes a) \<noteq> {}}"
  proof (rule set_eqI)
    fix p
    have "p \<in> set (map fst ms) \<longleftrightarrow> map_of ms p \<noteq> None" by (simp add: map_of_eq_None_iff)
    then show "p \<in> set (map fst ms) \<longleftrightarrow> p \<in> {p. digests_of p (localReruns a @ remotes a) \<noteq> {}}"
      using collectedD [OF c, of p] by (cases "map_of ms p") simp_all
  qed
  have dm: "distinct (map fst ms)" using c by (simp add: collected_def)
  have rep: "p \<in> set (map fst kept) \<longleftrightarrow> reported a p" for p
    using mk kept_iff_reported [OF c, of p] map_of_eq_None_iff [of kept p] by auto
  have path: "mPath (the (map_of kept p)) = p" if "p \<in> set (map fst kept)" for p
  proof -
    obtain m' where m': "map_of kept p = Some m'" using \<open>p \<in> set (map fst kept)\<close> by (metis map_of_eq_None_iff not_None_eq set_map)
    then obtain m where m: "map_of ms p = Some m" using mk by (auto split: option.splits)
    then have "mPath m = p" using collectedD(2) [OF c, of p m] by (simp add: entry_ok_def)
    then show ?thesis using m m' mk classify_path by fastforce
  qed
  have "map mPath (Mismatches v) = sort (map fst kept)"
    using path by (auto simp: v mismatchesToProto_def comp_def intro!: map_idI)
  then have paths: "sorted (map mPath (Mismatches v))" "distinct (map mPath (Mismatches v))"
    "set (map mPath (Mismatches v)) = {p. reported a p}"
    using rep dk by auto
  have tv: "TotalVerified v = card {p. digests_of p (localReruns a @ remotes a) \<noteq> {}}"
    using dom distinct_card [OF dm] by (simp add: v mismatchesToProto_def)
  have tm: "TotalMismatches v = length (Mismatches v)"
    by (simp add: v mismatchesToProto_def)
  have many: "reported a p" if "1 < card (digests_of p (localReruns a)) \<or> 1 < card (digests_of p (remotes a))" for p
    using that by (auto simp: reported_def spec_log_def digests_of_append)
  have one: "\<not> reported a p" if "digests_of p (localReruns a) = {d} \<and> digests_of p (remotes a) = {d} \<and>
            RerunExitCode ` set (localReruns a) = {e} \<and> RerunExitCode ` set (remotes a) = {e}" for p d e
    using that by (simp add: reported_def spec_log_def)
  show ?thesis
    unfolding paths(3) mem_Collect_eq
    by (intro conjI allI impI; (rule tv tm paths(1,2) refl | erule many one))
qed

text \<open>C23: a comparison counts every distinct output of the reruns once, and reports, sorted by
  path and without duplicates, exactly the outputs whose digests or exit codes call for it:
  in particular every output with two digests on one side, and no output with one and the
  same digest on both sides when all exit codes agree.\<close>

theorem compareAction_reports:
  assumes "iteration_order ord" and "\<forall>r \<in> set (localReruns a @ remotes a). rerun_ok r"
    and "compareAction ord a = Some v"
  shows "TotalVerified v = card {p. digests_of p (localReruns a @ remotes a) \<noteq> {}} \<and>
         TotalMismatches v = length (Mismatches v) \<and>
         sorted (map mPath (Mismatches v)) \<and> distinct (map mPath (Mismatches v)) \<and>
         set (map mPath (Mismatches v)) = {p. reported a p} \<and>
         (\<forall>p. 1 < card (digests_of p (localReruns a)) \<or> 1 < card (digests_of p (remotes a)) \<longrightarrow>
            p \<in> set (map mPath (Mismatches v))) \<and>
         (\<forall>p d e. digests_of p (localReruns a) = {d} \<and> digests_of p (remotes a) = {d} \<and>
            RerunExitCode ` set (localReruns a) = {e} \<and> RerunExitCode ` set (remotes a) = {e} \<longrightarrow>
            p \<notin> set (map mPath (Mismatches v)))"
  using compareAction_report [OF assms] .

theorem compareAction_reports_witness:
  "\<exists>v. compareAction rev \<lparr>compareOn = True, localReruns = [demo_rerun ''x/1'', demo_rerun ''y/1''], remoteReruns = None,
           numLocalReruns = 2, numRemoteReruns = 0, aDigest = ''z''\<rparr> = Some v \<and>
       sorted (map mPath (Mismatches v)) \<and> TotalMismatches v = length (Mismatches v)"
proof -
  let ?a = "\<lparr>compareOn = True, localReruns = [demo_rerun ''x/1'', demo_rerun ''y/1''], remoteReruns = None,
           numLocalReruns = 2, numRemoteReruns = 0, aDigest = ''z''\<rparr>"
  have cl: "Clean ''x/1'' = ''x/1''" "Clean ''y/1'' = ''y/1''" by code_simp+
  have ok: "rerun_ok (demo_rerun d)" if "Clean d = d" for d
    using that by (auto simp: rerun_ok_def demo_rerun_def all_digests_def)
  have "\<exists>v. compareAction rev ?a = Some v" by (simp add: compareAction_def Let_def split: prod.splits)
  then obtain v where v: "compareAction rev ?a = Some v" by blast
  have "iteration_order rev" by (simp add: iteration_order_def)
  moreover have "\<forall>r \<in> set (localReruns ?a @ remotes ?a). rerun_ok r"
    using ok cl by (simp add: remotes_def)
  ultimately show ?thesis using compareAction_reports [OF _ _ v] v by blast
qed

end
