(* ===== verification/DepsCache.thy ===== *)
theory DepsCache
  imports GoPath
begin

text \<open>
  The dependency cache of \<open>internal/pkg/inputprocessor/depscache\<close>: the minimal file cache
  (\<open>minimalfilecache.go\<close>), whose digest covers only the preprocessor directives of a file,
  the cache of dependency lists with its lookups and updates, and its database on disk
  (\<open>depscache.go\<close>). File system, hash, the SDK's single-flight cache and the protobuf
  encoding are arguments. The goroutine of \<open>GetDeps\<close> that records the time of use is run
  before the operation returns; log messages and metrics are left out.
\<close>

section \<open>The minimal file cache\<close>

record FileInfo =
  fiAbsPath :: string
  fiDigest :: string
  fiMtime :: int

record fileInfo =
  entryInfo :: FileInfo
  updated :: bool

record minDigestInfo =
  mdDigest :: string
  mdMtime :: int

text \<open>The host: \<open>hostFile p\<close> is what \<open>os.Stat\<close> and \<open>os.Open\<close> yield for \<open>p\<close> (content and
  modification time, \<^const>\<open>None\<close> an error), \<open>hostDigest bytes n\<close> the printed digest of the
  hashed bytes with size \<open>n\<close>, and \<open>hostLoadOrStore\<close> the single-flight cache.\<close>

record DepsHost =
  hostFile :: "string \<Rightarrow> (string \<times> int) option"
  hostDigest :: "string \<Rightarrow> nat \<Rightarrow> string"
  hostLoadOrStore :: "string \<Rightarrow> minDigestInfo option \<Rightarrow> minDigestInfo option"

text \<open>\<open>bufio.Scanner\<close> with \<open>ScanLines\<close>: the lines without their line feed and one carriage
  return before it; a line that does not fit the 64 KiB buffer makes \<open>Err\<close> return an error
  (\<^const>\<open>None\<close>). Nothing follows a final line feed.\<close>

definition drop_cr :: "string \<Rightarrow> string" where
  "drop_cr l = trim_suffix [CHR 0x0D] l"

definition raw_lines :: "string \<Rightarrow> string list" where
  "raw_lines s = (let ls = split_on (CHR 0x0A) s in if last ls = [] then butlast ls else ls)"

definition scan_lines :: "string \<Rightarrow> string list option" where
  "scan_lines s =
     (if \<exists>l \<in> set (raw_lines s). 65536 \<le> int (length l) then None else Some (map drop_cr (raw_lines s)))"

text \<open>The bytes the loop of \<open>minimalDigest\<close> writes to the hash.\<close>

fun directive_bytes :: "bool \<Rightarrow> string list \<Rightarrow> string" where
  "directive_bytes continuedLine [] = []"
| "directive_bytes continuedLine (l # ls) =
     (let txt = trim_space l in
      if prefix ''#'' txt \<or> continuedLine
      then txt @ directive_bytes (suffix [CHR 0x5C] txt) ls
      else directive_bytes False ls)"

definition minimalDigest :: "DepsHost \<Rightarrow> string \<Rightarrow> minDigestInfo option" where
  "minimalDigest h absPath =
     (case hostFile h absPath of
        None \<Rightarrow> None
      | Some (content, mtime) \<Rightarrow>
          (case scan_lines content of
             None \<Rightarrow> None
           | Some ls \<Rightarrow>
               (let bytes = directive_bytes False ls in
                Some \<lparr>mdDigest = hostDigest h bytes (length bytes), mdMtime = mtime\<rparr>)))"

type_synonym files_map = "string \<rightharpoonup> fileInfo"

definition reload :: "DepsHost \<Rightarrow> files_map \<Rightarrow> string \<Rightarrow> files_map \<times> FileInfo option" where
  "reload h files absPath =
     (case hostLoadOrStore h absPath (minimalDigest h absPath) of
        None \<Rightarrow> (files, None)
      | Some md \<Rightarrow>
          (let fi = \<lparr>fiAbsPath = absPath, fiDigest = mdDigest md, fiMtime = mdMtime md\<rparr> in
           (files(absPath \<mapsto> \<lparr>entryInfo = fi, updated = True\<rparr>), Some fi)))"

definition load :: "DepsHost \<Rightarrow> files_map \<Rightarrow> string \<Rightarrow> files_map \<times> FileInfo option" where
  "load h files absPath =
     (case files absPath of
        Some fi \<Rightarrow> if updated fi then (files, Some (entryInfo fi)) else reload h files absPath
      | None \<Rightarrow> reload h files absPath)"

definition init_files :: "FileInfo list \<Rightarrow> files_map \<Rightarrow> files_map" where
  "init_files fInfos files =
     fold (\<lambda>fi m. m(fiAbsPath fi \<mapsto> \<lparr>entryInfo = fi, updated = False\<rparr>)) fInfos files"

section \<open>The dependency cache\<close>

record Key =
  CommandDigest :: string
  SrcFilePath :: string
  srcFileMinDigest :: string

record Cache =
  MaxEntries :: int
  reclientVersion :: string
  depsCache :: "Key \<rightharpoonup> FileInfo list"
  filesCache :: files_map
  lutByKey :: "Key \<rightharpoonup> int"
  ready :: bool

text \<open>Times count from Go's zero time, which a lookup of an absent key yields.\<close>

definition lut_of :: "Cache \<Rightarrow> Key \<Rightarrow> int" where
  "lut_of c k = (case lutByKey c k of None \<Rightarrow> 0 | Some t \<Rightarrow> t)"

definition NewCache :: "int \<Rightarrow> string \<Rightarrow> Cache" where
  "NewCache cacheSize version =
     \<lparr>MaxEntries = cacheSize, reclientVersion = version, depsCache = Map.empty,
      filesCache = Map.empty, lutByKey = Map.empty, ready = False\<rparr>"

definition IsReady :: "Cache option \<Rightarrow> bool" where
  "IsReady c = (case c of None \<Rightarrow> False | Some c \<Rightarrow> ready c)"

text \<open>The loop of \<open>GetDeps\<close> over the recorded dependencies: each must still load and have the
  recorded digest.\<close>

fun verify_deps :: "DepsHost \<Rightarrow> files_map \<Rightarrow> FileInfo list \<Rightarrow> files_map \<times> string list option" where
  "verify_deps h files [] = (files, Some [])"
| "verify_deps h files (d # ds) =
     (case load h files (fiAbsPath d) of
        (files', None) \<Rightarrow> (files', None)
      | (files', Some fi) \<Rightarrow>
          if fiDigest fi \<noteq> fiDigest d then (files', None)
          else (case verify_deps h files' ds of
                  (files'', None) \<Rightarrow> (files'', None)
                | (files'', Some ps) \<Rightarrow> (files'', Some (fiAbsPath d # ps))))"

definition get_ready :: "DepsHost \<Rightarrow> int \<Rightarrow> Cache \<Rightarrow> Key \<Rightarrow> Cache \<times> string list option" where
  "get_ready h now c k =
     (case load h (filesCache c) (SrcFilePath k) of
        (files, None) \<Rightarrow> (c\<lparr>filesCache := files\<rparr>, None)
      | (files, Some sfi) \<Rightarrow>
          (let fullKey = k\<lparr>srcFileMinDigest := fiDigest sfi\<rparr> in
           case depsCache c fullKey of
             None \<Rightarrow> (c\<lparr>filesCache := files\<rparr>, None)
           | Some fInfos \<Rightarrow>
               (case verify_deps h files fInfos of
                  (files', None) \<Rightarrow> (c\<lparr>filesCache := files'\<rparr>, None)
                | (files', Some deps) \<Rightarrow>
                    (c\<lparr>filesCache := files', lutByKey := (lutByKey c)(fullKey \<mapsto> now)\<rparr>, Some deps))))"

definition GetDeps :: "DepsHost \<Rightarrow> int \<Rightarrow> Cache option \<Rightarrow> Key \<Rightarrow> Cache option \<times> string list option" where
  "GetDeps h now c k =
     (case c of
        None \<Rightarrow> (None, None)
      | Some c' \<Rightarrow>
          if \<not> IsReady c then (c, None)
          else map_prod Some id (get_ready h now c' k))"

text \<open>The loop of \<open>SetDeps\<close>: a relative path is an error (\<open>Inl\<close>), a file that does not load
  ends the update without one (\<open>Inr None\<close>).\<close>

fun load_deps :: "DepsHost \<Rightarrow> files_map \<Rightarrow> string list \<Rightarrow> files_map \<times> (string + FileInfo list option)" where
  "load_deps h files [] = (files, Inr (Some []))"
| "load_deps h files (d # ds) =
     (if \<not> IsAbs d then (files, Inl d)
      else case load h files d of
        (files', None) \<Rightarrow> (files', Inr None)
      | (files', Some fi) \<Rightarrow>
          (case load_deps h files' ds of
             (files'', Inr (Some fis)) \<Rightarrow> (files'', Inr (Some (fi # fis)))
           | r \<Rightarrow> r))"

definition set_ready :: "DepsHost \<Rightarrow> int \<Rightarrow> Cache \<Rightarrow> Key \<Rightarrow> string list \<Rightarrow> Cache \<times> string option" where
  "set_ready h now c k deps =
     (case load_deps h (filesCache c) deps of
        (files, Inl d) \<Rightarrow> (c\<lparr>filesCache := files\<rparr>, Some (d @ '' is not an absolute path''))
      | (files, Inr None) \<Rightarrow> (c\<lparr>filesCache := files\<rparr>, None)
      | (files, Inr (Some fInfos)) \<Rightarrow>
          (case load h files (SrcFilePath k) of
             (files', None) \<Rightarrow> (c\<lparr>filesCache := files'\<rparr>, None)
           | (files', Some fi) \<Rightarrow>
               (let fullKey = k\<lparr>srcFileMinDigest := fiDigest fi\<rparr> in
                (c\<lparr>filesCache := files', depsCache := (depsCache c)(fullKey \<mapsto> fInfos),
                   lutByKey := (lutByKey c)(fullKey \<mapsto> now)\<rparr>, None))))"

definition SetDeps :: "DepsHost \<Rightarrow> int \<Rightarrow> Cache option \<Rightarrow> Key \<Rightarrow> string list \<Rightarrow> Cache option \<times> string option" where
  "SetDeps h now c k deps =
     (case c of
        None \<Rightarrow> (None, None)
      | Some c' \<Rightarrow>
          if \<not> IsReady c then (c, None)
          else map_prod Some id (set_ready h now c' k deps))"

section \<open>The database on disk\<close>

record Deps =
  dCommandDigest :: string
  dSrcFile :: FileInfo
  dDepIds :: "int list"
  dLastUsed :: int

record DepsDatabase =
  dbFiles :: "FileInfo list"
  dbDeps :: "Deps list"
  dbVersion :: string

text \<open>Writing: files are numbered by path and digest in the order of first use.\<close>

definition fiKey :: "FileInfo \<Rightarrow> string \<times> string" where
  "fiKey fi = (fiAbsPath fi, fiDigest fi)"

type_synonym file_table = "((string \<times> string) \<rightharpoonup> int) \<times> FileInfo list"

fun dep_ids :: "file_table \<Rightarrow> FileInfo list \<Rightarrow> file_table \<times> int list" where
  "dep_ids tab [] = (tab, [])"
| "dep_ids (idx, fs) (fi # fis) =
     (case idx (fiKey fi) of
        Some i \<Rightarrow> (case dep_ids (idx, fs) fis of (tab', ids) \<Rightarrow> (tab', i # ids))
      | None \<Rightarrow>
          (let i = int (length fs) in
           case dep_ids (idx(fiKey fi \<mapsto> i), fs @ [fi]) fis of (tab', ids) \<Rightarrow> (tab', i # ids)))"

definition deps_entry :: "Cache \<Rightarrow> Key \<Rightarrow> int list \<Rightarrow> Deps" where
  "deps_entry c k ids =
     \<lparr>dCommandDigest = CommandDigest k,
      dSrcFile = \<lparr>fiAbsPath = SrcFilePath k, fiDigest = srcFileMinDigest k, fiMtime = 0\<rparr>,
      dDepIds = ids, dLastUsed = lut_of c k\<rparr>"

fun write_loop :: "Cache \<Rightarrow> int \<Rightarrow> file_table \<Rightarrow> Key list \<Rightarrow> FileInfo list \<times> Deps list" where
  "write_loop c n tab [] = (snd tab, [])"
| "write_loop c n tab (k # ks) =
     (case dep_ids tab (case depsCache c k of None \<Rightarrow> [] | Some fis \<Rightarrow> fis) of
        (tab', ids) \<Rightarrow>
          if n + 1 \<ge> MaxEntries c then (snd tab', [deps_entry c k ids])
          else (case write_loop c (n + 1) tab' ks of
                  (fs, ds) \<Rightarrow> (fs, deps_entry c k ids # ds)))"

text \<open>\<open>keys\<close> is the order \<open>sort.Slice\<close> leaves; the result is the cache and what is written to
  the file (\<^const>\<open>None\<close> when the file stays as it is).\<close>

definition WriteToDisk ::
  "(DepsDatabase \<Rightarrow> string option) \<Rightarrow> Key list \<Rightarrow> Cache option \<Rightarrow> Cache option \<times> string option" where
  "WriteToDisk marshal keys c =
     (case c of
        None \<Rightarrow> (None, None)
      | Some c' \<Rightarrow>
          (case write_loop c' 0 (Map.empty, []) keys of
             (fs, ds) \<Rightarrow>
               (Some (c'\<lparr>ready := False\<rparr>),
                marshal \<lparr>dbFiles = fs, dbDeps = ds, dbVersion = reclientVersion c'\<rparr>)))"

text \<open>Loading: an id past the end of the file table skips the entry, a negative one panics
  (outer \<^const>\<open>None\<close>).\<close>

fun read_deps :: "FileInfo list \<Rightarrow> int list \<Rightarrow> FileInfo list option option" where
  "read_deps fs [] = Some (Some [])"
| "read_deps fs (d # ds) =
     (if d \<ge> int (length fs) then Some None
      else if d < 0 then None
      else case read_deps fs ds of
             None \<Rightarrow> None
           | Some None \<Rightarrow> Some None
           | Some (Some fis) \<Rightarrow> Some (Some (fs ! nat d # fis)))"

definition entry_key :: "Deps \<Rightarrow> Key" where
  "entry_key e = \<lparr>CommandDigest = dCommandDigest e, SrcFilePath = fiAbsPath (dSrcFile e),
                  srcFileMinDigest = fiDigest (dSrcFile e)\<rparr>"

fun load_entries :: "FileInfo list \<Rightarrow> Deps list \<Rightarrow> Cache \<Rightarrow> Cache option" where
  "load_entries fs [] c = Some c"
| "load_entries fs (e # es) c =
     (case read_deps fs (dDepIds e) of
        None \<Rightarrow> None
      | Some None \<Rightarrow> load_entries fs es c
      | Some (Some deps) \<Rightarrow>
          load_entries fs es
            (c\<lparr>depsCache := (depsCache c)(entry_key e \<mapsto> deps),
               lutByKey := (lutByKey c)(entry_key e \<mapsto> dLastUsed e)\<rparr>))"

definition LoadFromDir :: "(string \<Rightarrow> DepsDatabase option) \<Rightarrow> string option \<Rightarrow> Cache \<Rightarrow> Cache option" where
  "LoadFromDir unmarshal file c =
     map_option (\<lambda>c. c\<lparr>ready := True\<rparr>)
       (case file of
          None \<Rightarrow> Some c
        | Some bytes \<Rightarrow>
            (case unmarshal bytes of
               None \<Rightarrow> Some c
             | Some db \<Rightarrow>
                 if dbVersion db \<noteq> reclientVersion c then Some c
                 else load_entries (dbFiles db) (dbDeps db)
                        (c\<lparr>filesCache := init_files (dbFiles db) (filesCache c)\<rparr>)))"

section \<open>The file cache as a source of digests\<close>

text \<open>The contract of the file cache: under an invariant a lookup returns the digest of the
  file as it is and keeps the invariant, so lookups do not disturb each other.\<close>

locale digest_source =
  fixes look :: "'h \<Rightarrow> 'f \<Rightarrow> string \<Rightarrow> 'f \<times> 'v option"
    and inv :: "'h \<Rightarrow> 'f \<Rightarrow> bool"
    and now :: "'h \<Rightarrow> string \<Rightarrow> 'v option"
  assumes look_value: "inv h f \<Longrightarrow> snd (look h f p) = now h p"
    and look_inv: "inv h f \<Longrightarrow> inv h (fst (look h f p))"
begin

lemma look_cases:
  assumes "inv h f"
  obtains f' where "look h f p = (f', now h p)" "inv h f'"
  using look_value [OF assms, of p] look_inv [OF assms, of p] by (cases "look h f p") auto

lemma look_stable:
  "inv h f \<Longrightarrow> snd (look h (fst (look h f p)) q) = snd (look h f q)"
  by (simp add: look_value look_inv)

end

definition current :: "DepsHost \<Rightarrow> string \<Rightarrow> FileInfo option" where
  "current h p =
     map_option (\<lambda>md. \<lparr>fiAbsPath = p, fiDigest = mdDigest md, fiMtime = mdMtime md\<rparr>) (minimalDigest h p)"

definition host_ok :: "DepsHost \<Rightarrow> bool" where
  "host_ok h \<longleftrightarrow> (\<forall>p. hostLoadOrStore h p (minimalDigest h p) = minimalDigest h p)"

definition files_fresh :: "DepsHost \<Rightarrow> files_map \<Rightarrow> bool" where
  "files_fresh h files \<longleftrightarrow> host_ok h \<and>
     (\<forall>p e. files p = Some e \<longrightarrow> updated e \<longrightarrow> current h p = Some (entryInfo e))"

lemma reload_value:
  "files_fresh h files \<Longrightarrow> snd (reload h files p) = current h p"
  by (auto simp: files_fresh_def host_ok_def reload_def current_def Let_def split: option.splits)

lemma reload_fresh:
  "files_fresh h files \<Longrightarrow> files_fresh h (fst (reload h files p))"
  by (auto simp: files_fresh_def host_ok_def reload_def current_def Let_def split: option.splits if_splits)

interpretation mfc: digest_source load files_fresh current
proof
  show "snd (load h f p) = current h p" if "files_fresh h f" for h f p
    using that reload_value [OF that] by (auto simp: load_def files_fresh_def split: option.splits)
  show "files_fresh h (fst (load h f p))" if "files_fresh h f" for h f p
    using that reload_fresh [OF that] by (auto simp: load_def split: option.splits)
qed

lemma init_files_not_updated:
  "(\<And>p e. m p = Some e \<Longrightarrow> \<not> updated e) \<Longrightarrow> init_files fs m p = Some e \<Longrightarrow> \<not> updated e"
proof (induction fs arbitrary: m)
  case Nil
  then show ?case by (simp add: init_files_def)
next
  case (Cons fi fs)
  let ?m = "m(fiAbsPath fi \<mapsto> \<lparr>entryInfo = fi, updated = False\<rparr>)"
  show ?case
  proof (rule Cons.IH [of ?m])
    show "\<not> updated e" if "?m p = Some e" for p e
      using that Cons.prems(1) by (auto split: if_splits)
    show "init_files fs ?m p = Some e" using Cons.prems(2) by (simp add: init_files_def)
  qed
qed

lemma files_fresh_init: "host_ok h \<Longrightarrow> files_fresh h (init_files fs Map.empty)"
  unfolding files_fresh_def using init_files_not_updated [of Map.empty] by auto

section \<open>Lookups and updates\<close>

definition cache_ok :: "DepsHost \<Rightarrow> Cache \<Rightarrow> bool" where
  "cache_ok h c \<longleftrightarrow> ready c \<and> files_fresh h (filesCache c)"

definition unchanged :: "DepsHost \<Rightarrow> FileInfo \<Rightarrow> bool" where
  "unchanged h d \<longleftrightarrow> (case current h (fiAbsPath d) of None \<Rightarrow> False | Some fi \<Rightarrow> fiDigest fi = fiDigest d)"

text \<open>The abstract lookup: the entry under the digest the source has now, provided every
  recorded dependency has its recorded digest.\<close>

definition lookup_spec :: "DepsHost \<Rightarrow> (Key \<rightharpoonup> FileInfo list) \<Rightarrow> Key \<Rightarrow> string list option" where
  "lookup_spec h m k =
     (case current h (SrcFilePath k) of
        None \<Rightarrow> None
      | Some sfi \<Rightarrow>
          (case m (k\<lparr>srcFileMinDigest := fiDigest sfi\<rparr>) of
             None \<Rightarrow> None
           | Some fis \<Rightarrow> if \<forall>d \<in> set fis. unchanged h d then Some (map fiAbsPath fis) else None))"

lemma verify_deps_spec:
  assumes "files_fresh h files"
  shows "snd (verify_deps h files ds) = (if \<forall>d \<in> set ds. unchanged h d then Some (map fiAbsPath ds) else None)
    \<and> files_fresh h (fst (verify_deps h files ds))"
  using assms
proof (induction ds arbitrary: files)
  case Nil
  then show ?case by simp
next
  case (Cons d ds)
  obtain f' where f': "load h files (fiAbsPath d) = (f', current h (fiAbsPath d))" "files_fresh h f'"
    using mfc.look_cases [OF Cons.prems] by blast
  show ?case
    using f' Cons.IH [OF f'(2)]
    by (cases "verify_deps h f' ds"; cases "current h (fiAbsPath d)")
      (auto simp: unchanged_def split: if_splits)
qed

lemma get_ready_spec:
  assumes "files_fresh h (filesCache c)"
  shows "snd (get_ready h now c k) = lookup_spec h (depsCache c) k"
    and "files_fresh h (filesCache (fst (get_ready h now c k)))"
    and "depsCache (fst (get_ready h now c k)) = depsCache c"
    and "ready (fst (get_ready h now c k)) = ready c"
proof -
  obtain f' where f': "load h (filesCache c) (SrcFilePath k) = (f', current h (SrcFilePath k))" "files_fresh h f'"
    using mfc.look_cases [OF assms] by blast
  note v = verify_deps_spec [OF f'(2)]
  show "snd (get_ready h now c k) = lookup_spec h (depsCache c) k"
    using f' v by (auto simp: get_ready_def lookup_spec_def Let_def split: option.splits prod.splits if_splits)
      (metis option.distinct(1) option.inject snd_conv)+
  show "files_fresh h (filesCache (fst (get_ready h now c k)))"
    using f' v by (auto simp: get_ready_def Let_def split: option.splits prod.splits if_splits)
      (metis fst_conv)+
  show "depsCache (fst (get_ready h now c k)) = depsCache c"
    "ready (fst (get_ready h now c k)) = ready c"
    by (auto simp: get_ready_def Let_def split: option.splits prod.splits)
qed

lemma load_deps_spec:
  assumes "files_fresh h files" and "\<forall>d \<in> set ds. IsAbs d \<and> current h d \<noteq> None"
  shows "snd (load_deps h files ds) = Inr (Some (map (the \<circ> current h) ds))
    \<and> files_fresh h (fst (load_deps h files ds))"
  using assms
proof (induction ds arbitrary: files)
  case Nil
  then show ?case by simp
next
  case (Cons d ds)
  obtain f' where f': "load h files d = (f', current h d)" "files_fresh h f'"
    using mfc.look_cases [OF Cons.prems(1)] by blast
  obtain fi where "current h d = Some fi" using Cons.prems(2) by auto
  then show ?case
    using f' Cons.IH [OF f'(2)] Cons.prems(2) by (auto split: prod.splits sum.splits option.splits)
qed

lemma current_path [simp]: "current h p = Some fi \<Longrightarrow> fiAbsPath fi = p"
  by (auto simp: current_def)

lemma unchanged_current: "current h p \<noteq> None \<Longrightarrow> unchanged h (the (current h p))"
  by (auto simp: unchanged_def)

lemma set_ready_spec:
  assumes "files_fresh h (filesCache c)" and "\<forall>d \<in> set deps. IsAbs d \<and> current h d \<noteq> None"
    and "current h (SrcFilePath k) = Some sfi"
  obtains c' where "set_ready h t c k deps = (c', None)" "ready c' = ready c" "files_fresh h (filesCache c')"
    "depsCache c' = (depsCache c)(k\<lparr>srcFileMinDigest := fiDigest sfi\<rparr> \<mapsto> map (the \<circ> current h) deps)"
proof -
  obtain f1 where f1: "load_deps h (filesCache c) deps = (f1, Inr (Some (map (the \<circ> current h) deps)))" "files_fresh h f1"
    using load_deps_spec [OF assms(1,2)] by (cases "load_deps h (filesCache c) deps") auto
  obtain f2 where f2: "load h f1 (SrcFilePath k) = (f2, Some sfi)" "files_fresh h f2"
    using mfc.look_cases [OF f1(2)] assms(3) by metis
  show ?thesis using f1 f2 that by (simp add: set_ready_def Let_def)
qed

lemma lookup_spec_updated:
  assumes "\<forall>d \<in> set deps. current h d \<noteq> None" and "current h (SrcFilePath k) = Some sfi"
    and "m (k\<lparr>srcFileMinDigest := fiDigest sfi\<rparr>) = Some (map (the \<circ> current h) deps)"
  shows "lookup_spec h m k = Some deps"
proof -
  have "map fiAbsPath (map (the \<circ> current h) deps) = deps"
    using assms(1) by (induction deps) auto
  then show ?thesis using assms unchanged_current by (auto simp: lookup_spec_def)
qed

section \<open>The database keeps the entries\<close>

fun tab_ok :: "file_table \<Rightarrow> bool" where
  "tab_ok (idx, fs) =
     (\<forall>k i. idx k = Some i \<longrightarrow> 0 \<le> i \<and> i < int (length fs) \<and> fiKey (fs ! nat i) = k)"

definition refers :: "FileInfo list \<Rightarrow> int \<Rightarrow> FileInfo \<Rightarrow> bool" where
  "refers fs i fi \<longleftrightarrow> 0 \<le> i \<and> i < int (length fs) \<and> fiKey (fs ! nat i) = fiKey fi"

lemma refers_grow: "refers fs i fi \<Longrightarrow> prefix fs fs' \<Longrightarrow> refers fs' i fi"
  by (auto simp: refers_def nth_append prefix_def)

lemma refers_prefix: "list_all2 (refers fs) is fis \<Longrightarrow> prefix fs fs' \<Longrightarrow> list_all2 (refers fs') is fis"
  by (erule list_all2_mono) (erule refers_grow)

lemma tab_ok_add:
  "tab_ok (idx, fs) \<Longrightarrow> tab_ok (idx(fiKey fi \<mapsto> int (length fs)), fs @ [fi])"
  by (fastforce simp: nth_append)

lemma dep_ids_spec:
  assumes "tab_ok tab" and "dep_ids tab fis = (tab', ids)"
  shows "tab_ok tab' \<and> prefix (snd tab) (snd tab') \<and> list_all2 (refers (snd tab')) ids fis"
  using assms
proof (induction fis arbitrary: tab ids)
  case Nil
  then show ?case by simp
next
  case (Cons fi fis)
  obtain idx fs where tab: "tab = (idx, fs)" by (cases tab)
  show ?case
  proof (cases "idx (fiKey fi)")
    case None
    let ?t = "(idx(fiKey fi \<mapsto> int (length fs)), fs @ [fi])"
    obtain ids' where d: "dep_ids ?t fis = (tab', ids')" "ids = int (length fs) # ids'"
      using Cons.prems(2) None by (auto simp: tab Let_def split: prod.splits)
    have "tab_ok ?t" using Cons.prems(1) tab_ok_add unfolding tab by blast
    from Cons.IH [OF this d(1)] have ih: "tab_ok tab'" "prefix (fs @ [fi]) (snd tab')"
      "list_all2 (refers (snd tab')) ids' fis" by auto
    have "refers (fs @ [fi]) (int (length fs)) fi" by (simp add: refers_def nth_append)
    then have "refers (snd tab') (int (length fs)) fi"
      using ih(2) by (rule refers_grow)
    then show ?thesis using ih d(2) by (auto simp: tab elim: append_prefixD)
  next
    case (Some i)
    obtain ids' where d: "dep_ids tab fis = (tab', ids')" "ids = i # ids'"
      using Cons.prems(2) Some by (auto simp: tab split: prod.splits)
    from Cons.IH [OF Cons.prems(1) d(1)] have ih: "tab_ok tab'" "prefix (snd tab) (snd tab')"
      "list_all2 (refers (snd tab')) ids' fis" by auto
    have "refers fs i fi" using Cons.prems(1) Some unfolding tab tab_ok.simps refers_def by blast
    then have "refers (snd tab') i fi" using ih(2) by (simp add: tab refers_grow)
    then show ?thesis using ih d(2) by simp
  qed
qed

lemma read_deps_refers:
  "list_all2 (refers fs) ids fis \<Longrightarrow>
   \<exists>rs. read_deps fs ids = Some (Some rs) \<and> map fiKey rs = map fiKey fis"
  by (induction ids fis rule: list_all2_induct) (auto simp: refers_def)

definition deps_of :: "Cache \<Rightarrow> Key \<Rightarrow> FileInfo list" where
  "deps_of c k = (case depsCache c k of None \<Rightarrow> [] | Some fis \<Rightarrow> fis)"

definition entry_for :: "Cache \<Rightarrow> FileInfo list \<Rightarrow> Deps \<Rightarrow> Key \<Rightarrow> bool" where
  "entry_for c fs d k \<longleftrightarrow> entry_key d = k \<and> dLastUsed d = lut_of c k \<and>
     list_all2 (refers fs) (dDepIds d) (deps_of c k)"

lemma entry_for_deps_entry:
  "entry_for c fs (deps_entry c k ids) k \<longleftrightarrow> list_all2 (refers fs) ids (deps_of c k)"
  by (simp add: entry_for_def deps_entry_def entry_key_def)

lemma write_loop_spec:
  assumes "tab_ok tab" and "write_loop c n tab ks = (fs, ds)"
  shows "prefix (snd tab) fs \<and> list_all2 (entry_for c fs) ds (take (nat (max 1 (MaxEntries c - n))) ks)"
  using assms
proof (induction ks arbitrary: n tab ds)
  case Nil
  then show ?case by simp
next
  case (Cons k ks)
  obtain tab' ids where t: "dep_ids tab (deps_of c k) = (tab', ids)" by fastforce
  note ok = dep_ids_spec [OF Cons.prems(1) t]
  show ?case
  proof (cases "n + 1 \<ge> MaxEntries c")
    case True
    then have "nat (max 1 (MaxEntries c - n)) = 1" by simp
    moreover have "fs = snd tab'" "ds = [deps_entry c k ids]"
      using Cons.prems(2) t True by (auto simp: deps_of_def)
    ultimately show ?thesis using ok by (simp add: entry_for_deps_entry)
  next
    case False
    obtain ds' where w: "write_loop c (n + 1) tab' ks = (fs, ds')" "ds = deps_entry c k ids # ds'"
      using Cons.prems(2) t False by (auto simp: deps_of_def split: prod.splits)
    have "nat (max 1 (MaxEntries c - n)) = Suc (nat (max 1 (MaxEntries c - (n + 1))))"
      using False by simp
    then have "take (nat (max 1 (MaxEntries c - n))) (k # ks) =
      k # take (nat (max 1 (MaxEntries c - (n + 1)))) ks" by (simp only: take_Suc_Cons)
    moreover have "prefix (snd tab') fs"
      "list_all2 (entry_for c fs) ds' (take (nat (max 1 (MaxEntries c - (n + 1)))) ks)"
      using Cons.IH [OF conjunct1 [OF ok] w(1)] by auto
    moreover have "entry_for c fs (deps_entry c k ids) k"
      using ok calculation(2) refers_prefix by (auto simp: entry_for_deps_entry)
    moreover have "prefix (snd tab) fs" using ok calculation(2) prefix_order.trans by blast
    ultimately show ?thesis unfolding w(2) by (simp only: list_all2_Cons simp_thms)
  qed
qed

definition same_keys :: "FileInfo list option \<Rightarrow> FileInfo list option \<Rightarrow> bool" where
  "same_keys a b \<longleftrightarrow> map_option (map fiKey) a = map_option (map fiKey) b"

lemma load_entries_spec:
  assumes "list_all2 (entry_for c fs) ds ks" and "distinct ks"
  shows "\<exists>c'. load_entries fs ds c0 = Some c' \<and> ready c' = ready c0 \<and> filesCache c' = filesCache c0 \<and>
    (\<forall>k. if k \<in> set ks then same_keys (depsCache c' k) (Some (deps_of c k)) \<and> lutByKey c' k = Some (lut_of c k)
         else depsCache c' k = depsCache c0 k \<and> lutByKey c' k = lutByKey c0 k)"
  using assms
proof (induction ds ks arbitrary: c0 rule: list_all2_induct)
  case Nil
  then show ?case by simp
next
  case (Cons d ds k ks)
  obtain rs where rs: "read_deps fs (dDepIds d) = Some (Some rs)" "map fiKey rs = map fiKey (deps_of c k)"
    using Cons.hyps(1) read_deps_refers unfolding entry_for_def by blast
  have d: "entry_key d = k" "dLastUsed d = lut_of c k" using Cons.hyps(1) by (auto simp: entry_for_def)
  let ?c = "c0\<lparr>depsCache := (depsCache c0)(k \<mapsto> rs), lutByKey := (lutByKey c0)(k \<mapsto> lut_of c k)\<rparr>"
  have "distinct ks" "k \<notin> set ks" using Cons.prems by auto
  then obtain c' where c': "load_entries fs ds ?c = Some c'" "ready c' = ready c0" "filesCache c' = filesCache c0"
    and m: "\<forall>k'. if k' \<in> set ks then same_keys (depsCache c' k') (Some (deps_of c k')) \<and> lutByKey c' k' = Some (lut_of c k')
         else depsCache c' k' = depsCache ?c k' \<and> lutByKey c' k' = lutByKey ?c k'"
    using Cons.IH [of ?c] by auto
  have "load_entries fs (d # ds) c0 = Some c'" using c'(1) rs(1) d by simp
  moreover have "if k' \<in> set (k # ks) then same_keys (depsCache c' k') (Some (deps_of c k')) \<and> lutByKey c' k' = Some (lut_of c k')
         else depsCache c' k' = depsCache c0 k' \<and> lutByKey c' k' = lutByKey c0 k'" for k'
    using m [rule_format, of k'] rs(2) \<open>k \<notin> set ks\<close> by (auto simp: same_keys_def split: if_splits)
  ultimately show ?case using c'(2,3) by blast
qed

lemma unchanged_fiKey: "fiKey d = fiKey e \<Longrightarrow> unchanged h d = unchanged h e"
  by (cases "current h (fiAbsPath d)") (auto simp: unchanged_def fiKey_def)

lemma map_fiKey_paths: "map fiKey as = map fiKey bs \<Longrightarrow> map fiAbsPath as = map fiAbsPath bs"
  by (auto simp: fiKey_def list_eq_iff_nth_eq)

lemma map_fiKey_unchanged:
  "map fiKey as = map fiKey bs \<Longrightarrow> (\<forall>d \<in> set as. unchanged h d) = (\<forall>d \<in> set bs. unchanged h d)"
proof (induction as arbitrary: bs)
  case Nil
  then show ?case by simp
next
  case (Cons a as)
  obtain b bs' where bs: "bs = b # bs'" using Cons.prems by (cases bs) auto
  then show ?case using Cons.IH [of bs'] unchanged_fiKey [of a b h] Cons.prems by simp
qed

lemma lookup_spec_cong:
  assumes "\<And>k. same_keys (m k) (m' k)"
  shows "lookup_spec h m k = lookup_spec h m' k"
proof (cases "current h (SrcFilePath k)")
  case None
  then show ?thesis by (simp add: lookup_spec_def)
next
  case (Some sfi)
  let ?k = "k\<lparr>srcFileMinDigest := fiDigest sfi\<rparr>"
  have "same_keys (m ?k) (m' ?k)" by (rule assms)
  then show ?thesis
    using Some map_fiKey_unchanged [of "the (m ?k)" "the (m' ?k)" h] map_fiKey_paths [of "the (m ?k)" "the (m' ?k)"]
    by (cases "m ?k"; cases "m' ?k") (auto simp: lookup_spec_def same_keys_def)
qed

lemma LoadFromDir_written:
  assumes "write_loop c 0 (Map.empty, []) keys = (fs, ds)" and "distinct keys" and "set keys = dom (depsCache c)"
    and "unmarshal bytes = Some \<lparr>dbFiles = fs, dbDeps = ds, dbVersion = v\<rparr>" and "host_ok h"
  obtains c' where "LoadFromDir unmarshal (Some bytes) (NewCache n v) = Some c'" "cache_ok h c'"
    "\<And>k. same_keys (depsCache c' k) ((depsCache c |` set (take (nat (max 1 (MaxEntries c))) keys)) k)"
    "\<And>k. k \<in> set (take (nat (max 1 (MaxEntries c))) keys) \<Longrightarrow> lutByKey c' k = Some (lut_of c k)"
proof -
  let ?ks = "take (nat (max 1 (MaxEntries c))) keys"
  let ?c0 = "(NewCache n v)\<lparr>filesCache := init_files fs Map.empty\<rparr>"
  have "list_all2 (entry_for c fs) ds ?ks"
    using write_loop_spec [OF _ assms(1)] by simp
  moreover have "distinct ?ks" using assms(2) by (rule distinct_take)
  ultimately obtain c1 where c1: "load_entries fs ds ?c0 = Some c1" "filesCache c1 = init_files fs Map.empty"
    and m: "\<And>k. if k \<in> set ?ks then same_keys (depsCache c1 k) (Some (deps_of c k)) \<and> lutByKey c1 k = Some (lut_of c k)
         else depsCache c1 k = None"
    using load_entries_spec [of c fs ds ?ks ?c0] by (auto simp: NewCache_def)
  have "same_keys (depsCache c1 k) ((depsCache c |` set ?ks) k)" for k
  proof (cases "k \<in> set ?ks")
    case True
    then have "k \<in> dom (depsCache c)" using set_take_subset assms(3) by fastforce
    then show ?thesis using m [of k] True by (auto simp: deps_of_def)
  qed (use m [of k] in \<open>simp add: same_keys_def\<close>)
  moreover have "LoadFromDir unmarshal (Some bytes) (NewCache n v) = Some (c1\<lparr>ready := True\<rparr>)"
    using c1(1) assms(4) by (simp add: LoadFromDir_def NewCache_def)
  moreover have "cache_ok h (c1\<lparr>ready := True\<rparr>)"
    using files_fresh_init [OF assms(5)] c1(2) by (simp add: cache_ok_def)
  ultimately show ?thesis using that [of "c1\<lparr>ready := True\<rparr>"] m by simp
qed

section \<open>Properties\<close>

text \<open>Example host: two files, the digest is the hashed text itself.\<close>

definition demo_host :: DepsHost where
  "demo_host = \<lparr>hostFile = (\<lambda>p. if p = ''/a.cc'' then Some (''#include 1'', 5)
      else if p = ''/a.h'' then Some (''#define A'' @ [CHR 0x0A] @ ''int x;'', 7) else None),
    hostDigest = (\<lambda>b n. b), hostLoadOrStore = (\<lambda>p r. r)\<rparr>"

definition demo_key :: Key where
  "demo_key = \<lparr>CommandDigest = ''cmd'', SrcFilePath = ''/a.cc'', srcFileMinDigest = []\<rparr>"

definition demo_cache :: Cache where
  "demo_cache = (NewCache 4 ''v1'')\<lparr>ready := True\<rparr>"

text \<open>The same cache holding one entry, and its database.\<close>

definition demo_header :: FileInfo where
  "demo_header = \<lparr>fiAbsPath = ''/a.h'', fiDigest = ''#define A'', fiMtime = 7\<rparr>"

definition demo_full_key :: Key where
  "demo_full_key = demo_key\<lparr>srcFileMinDigest := ''#include 1''\<rparr>"

definition demo_full :: Cache where
  "demo_full = demo_cache\<lparr>depsCache := [demo_full_key \<mapsto> [demo_header]], lutByKey := [demo_full_key \<mapsto> 3]\<rparr>"

definition demo_db :: DepsDatabase where
  "demo_db = \<lparr>dbFiles = [demo_header],
     dbDeps = [\<lparr>dCommandDigest = ''cmd'',
       dSrcFile = \<lparr>fiAbsPath = ''/a.cc'', fiDigest = ''#include 1'', fiMtime = 0\<rparr>,
       dDepIds = [0], dLastUsed = 3\<rparr>], dbVersion = ''v1''\<rparr>"

lemma demo_host_ok: "host_ok demo_host"
  by (simp add: host_ok_def demo_host_def)

lemma demo_cache_ok: "cache_ok demo_host demo_cache"
  using demo_host_ok by (simp add: cache_ok_def demo_cache_def NewCache_def files_fresh_def)

lemma GetDeps_refines_facts:
  assumes "cache_ok h c"
  shows "snd (GetDeps h now (Some c) k) = lookup_spec h (depsCache c) k"
    and "\<exists>c'. fst (GetDeps h now (Some c) k) = Some c' \<and> cache_ok h c' \<and> depsCache c' = depsCache c"
  using assms get_ready_spec [of h c now k]
  by (auto simp: GetDeps_def IsReady_def cache_ok_def)


text \<open>C16: A lookup refines the abstract one: with every file entry marked up to date being so,
  \<open>GetDeps\<close> returns the recorded dependencies exactly when the entry under the digest of the
  source as it is now exists and every recorded dependency still has the recorded digest;
  it changes no entry and keeps the cache well-formed.\<close>

theorem GetDeps_refines:
  assumes "cache_ok h c"
  shows "(snd (GetDeps h now (Some c) k) = lookup_spec h (depsCache c) k) \<and>
    (\<exists>c'. fst (GetDeps h now (Some c) k) = Some c' \<and> cache_ok h c' \<and> depsCache c' = depsCache c)"
  using GetDeps_refines_facts [OF assms] by (intro conjI)

theorem GetDeps_refines_witness:
  "snd (GetDeps demo_host 9 (Some demo_cache) demo_key) = lookup_spec demo_host (depsCache demo_cache) demo_key"
  using GetDeps_refines [OF demo_cache_ok, THEN conjunct1] by simp

text \<open>After \<open>SetDeps\<close> with absolute paths that exist, \<open>GetDeps\<close> on the same key returns
  exactly those paths, and a key of another command or source keeps its answer.\<close>

theorem SetDeps_GetDeps:
  assumes "cache_ok h c" and "\<forall>d \<in> set deps. IsAbs d \<and> current h d \<noteq> None"
    and "current h (SrcFilePath k) \<noteq> None"
  shows "\<exists>c'. SetDeps h t (Some c) k deps = (Some c', None) \<and> cache_ok h c' \<and>
    snd (GetDeps h t' (Some c') k) = Some deps \<and>
    (\<forall>k'. CommandDigest k' \<noteq> CommandDigest k \<or> SrcFilePath k' \<noteq> SrcFilePath k \<longrightarrow>
       snd (GetDeps h t' (Some c') k') = snd (GetDeps h t' (Some c) k'))"
proof -
  obtain sfi where sfi: "current h (SrcFilePath k) = Some sfi" using assms(3) by blast
  let ?k = "k\<lparr>srcFileMinDigest := fiDigest sfi\<rparr>"
  obtain c' where c': "set_ready h t c k deps = (c', None)" "ready c' = ready c" "files_fresh h (filesCache c')"
    "depsCache c' = (depsCache c)(?k \<mapsto> map (the \<circ> current h) deps)"
    using set_ready_spec [OF _ assms(2) sfi, of c t] assms(1) by (auto simp: cache_ok_def)
  have ok: "cache_ok h c'" using assms(1) c'(2,3) by (simp add: cache_ok_def)
  have g: "snd (GetDeps h t' (Some e) k') = lookup_spec h (depsCache e) k'" if "cache_ok h e" for e k'
    using that get_ready_spec(1) [of h e t' k'] by (simp add: GetDeps_def IsReady_def cache_ok_def)
  have "lookup_spec h (depsCache c') k = Some deps"
    using lookup_spec_updated [OF _ sfi] assms(2) c'(4) by simp
  moreover have "lookup_spec h (depsCache c') k' = lookup_spec h (depsCache c) k'"
    if "CommandDigest k' \<noteq> CommandDigest k \<or> SrcFilePath k' \<noteq> SrcFilePath k" for k'
  proof -
    have "k'\<lparr>srcFileMinDigest := x\<rparr> \<noteq> ?k" for x
      using that by (metis Key.select_convs(1,2) Key.surjective Key.update_convs(3))
    then show ?thesis by (simp add: lookup_spec_def c'(4) split: option.splits)
  qed
  ultimately show ?thesis
    using c'(1) ok assms(1) by (auto simp: SetDeps_def IsReady_def cache_ok_def g)
qed

theorem SetDeps_GetDeps_witness:
  "\<exists>c'. SetDeps demo_host 9 (Some demo_cache) demo_key [''/a.h''] = (Some c', None) \<and>
     snd (GetDeps demo_host 9 (Some c') demo_key) = Some [''/a.h'']"
proof -
  have "\<forall>d \<in> set [''/a.h'']. IsAbs d \<and> current demo_host d \<noteq> None" by code_simp
  moreover have "current demo_host (SrcFilePath demo_key) \<noteq> None" by code_simp
  ultimately obtain c' where "SetDeps demo_host 9 (Some demo_cache) demo_key [''/a.h''] = (Some c', None)"
    "snd (GetDeps demo_host 9 (Some c') demo_key) = Some [''/a.h'']"
    using SetDeps_GetDeps [OF demo_cache_ok, of "[''/a.h'']" demo_key 9 9] by auto
  then show ?thesis by blast
qed

text \<open>C5: A cache written to disk and loaded by a process of the same version answers, on the
  files as they are then, like the cache restricted to the \<open>MaxEntries\<close> most recently used
  keys (at least one): hits exactly for unchanged sources and dependencies. The times of use
  of those keys are kept.\<close>

theorem WriteToDisk_LoadFromDir:
  assumes "\<And>db bytes. marshal db = Some bytes \<Longrightarrow> unmarshal bytes = Some db"
    and "distinct keys" and "set keys = dom (depsCache c)"
    and "WriteToDisk marshal keys (Some c) = (w, Some bytes)" and "host_ok h"
  shows "\<exists>c'. LoadFromDir unmarshal (Some bytes) (NewCache n (reclientVersion c)) = Some c' \<and> cache_ok h c' \<and>
    (\<forall>k. snd (GetDeps h t (Some c') k) =
       lookup_spec h (depsCache c |` set (take (nat (max 1 (MaxEntries c))) keys)) k) \<and>
    (\<forall>k \<in> set (take (nat (max 1 (MaxEntries c))) keys). lutByKey c' k = Some (lut_of c k))"
proof -
  obtain fs ds where w: "write_loop c 0 (Map.empty, []) keys = (fs, ds)" by fastforce
  then have "unmarshal bytes = Some \<lparr>dbFiles = fs, dbDeps = ds, dbVersion = reclientVersion c\<rparr>"
    using assms(1,4) by (simp add: WriteToDisk_def)
  then obtain c' where c': "LoadFromDir unmarshal (Some bytes) (NewCache n (reclientVersion c)) = Some c'" "cache_ok h c'"
    "\<And>k. same_keys (depsCache c' k) ((depsCache c |` set (take (nat (max 1 (MaxEntries c))) keys)) k)"
    "\<And>k. k \<in> set (take (nat (max 1 (MaxEntries c))) keys) \<Longrightarrow> lutByKey c' k = Some (lut_of c k)"
    using LoadFromDir_written [OF w assms(2,3) _ assms(5)] by blast
  moreover have "snd (GetDeps h t (Some c') k) = lookup_spec h (depsCache c') k" for k
    using c'(2) get_ready_spec(1) [of h c' t k] by (simp add: GetDeps_def IsReady_def cache_ok_def)
  ultimately show ?thesis using lookup_spec_cong [OF c'(3)] by auto
qed

theorem WriteToDisk_LoadFromDir_witness:
  "\<exists>c'. LoadFromDir (\<lambda>b. Some demo_db) (Some ''x'') (NewCache 4 ''v1'') = Some c' \<and>
     snd (GetDeps demo_host 9 (Some c') demo_key) = Some [''/a.h'']"
proof -
  let ?m = "\<lambda>db. if db = demo_db then Some ''x'' else None"
  have w: "WriteToDisk ?m [demo_full_key] (Some demo_full) = (Some (demo_full\<lparr>ready := False\<rparr>), Some ''x'')"
    by (simp add: WriteToDisk_def demo_full_def demo_full_key_def demo_cache_def NewCache_def demo_key_def
        demo_db_def demo_header_def deps_entry_def lut_of_def)
  have m: "Some demo_db = Some db" if "?m db = Some bytes" for db bytes
    using that by (simp split: if_splits)
  have k: "distinct [demo_full_key]" "set [demo_full_key] = dom (depsCache demo_full)"
    by (simp_all add: demo_full_def)
  have v: "reclientVersion demo_full = ''v1''" by (simp add: demo_full_def demo_cache_def NewCache_def)
  obtain c' where c': "LoadFromDir (\<lambda>b. Some demo_db) (Some ''x'') (NewCache 4 (reclientVersion demo_full)) = Some c'"
    and "\<forall>k. snd (GetDeps demo_host 9 (Some c') k) = lookup_spec demo_host
       (depsCache demo_full |` set (take (nat (max 1 (MaxEntries demo_full))) [demo_full_key])) k"
    using WriteToDisk_LoadFromDir [where unmarshal = "\<lambda>b. Some demo_db" and n = 4 and t = 9, OF _ k w demo_host_ok] m by blast
  moreover have "lookup_spec demo_host
       (depsCache demo_full |` set (take (nat (max 1 (MaxEntries demo_full))) [demo_full_key])) demo_key = Some [''/a.h'']"
    by code_simp
  ultimately show ?thesis unfolding v by (intro exI [of _ c']) (simp add: v)
qed

end
