(* ===== verification/Action.thy ===== *)
theory Action
  imports PathTranslator Compare
begin

text \<open>
  Helpers of \<open>internal/pkg/reproxy/action.go\<close>, \<open>server.go\<close> and \<open>stash.go\<close> that compute on the
  command of an action: canonical remote working directory, environment maps, include path
  cleaning, the choice of outputs to download, the files that are both input and output and
  their stashing, and the platform properties. Regular expressions, digests of files on disk
  and fresh temporary names are arguments.
\<close>

section \<open>Working directory and environment\<close>

definition depth :: "string \<Rightarrow> nat" where
  "depth path = (if path = [] then 0 else 1 + length (filter (\<lambda>c. c = CHR ''/'') path))"

definition toRemoteWorkingDir :: "string \<Rightarrow> string" where
  "toRemoteWorkingDir workingDir =
     (if workingDir = [] \<or> workingDir = ''.'' then workingDir
      else Join (''set_by_reclient'' # replicate (depth (Clean workingDir) - 1) ''a''))"

text \<open>\<open>strings.SplitN(item, sep, 2)\<close> as a pair; \<^const>\<open>None\<close> when the separator is missing, so
  that \<open>pair[1]\<close> panics.\<close>

definition split_pair :: "string \<Rightarrow> string \<Rightarrow> (string \<times> string) option" where
  "split_pair sp s =
     (if contains sp s then let k = before_first sp s in Some (k, drop (length k + length sp) s) else None)"

fun slice_to_map :: "(string \<rightharpoonup> string) \<Rightarrow> string list \<Rightarrow> string \<Rightarrow> (string \<rightharpoonup> string) option" where
  "slice_to_map m [] sp = Some m"
| "slice_to_map m (item # items) sp =
     (case split_pair sp item of None \<Rightarrow> None | Some (k, v) \<Rightarrow> slice_to_map (m(k \<mapsto> v)) items sp)"

definition sliceToMap :: "string list \<Rightarrow> string \<Rightarrow> (string \<rightharpoonup> string) option" where
  "sliceToMap slice sp = slice_to_map Map.empty slice sp"

definition mergeMaps :: "(string \<rightharpoonup> string) \<Rightarrow> (string \<rightharpoonup> string) \<Rightarrow> (string \<rightharpoonup> string)" where
  "mergeMaps dst src = dst ++ src"

section \<open>Include paths\<close>

definition clean_include :: "string \<Rightarrow> string \<Rightarrow> string \<Rightarrow> string" where
  "clean_include execRoot workingDir dir =
     (if \<not> IsAbs dir then ''-I'' @ dir
      else case Rel (Join [execRoot, workingDir]) dir of
             Ok relDir \<Rightarrow> ''-I'' @ relDir
           | _ \<Rightarrow> ''-I'' @ dir)"

fun cleanIncludePaths :: "string \<Rightarrow> string \<Rightarrow> string list \<Rightarrow> string list option" where
  "cleanIncludePaths execRoot workingDir [] = Some []"
| "cleanIncludePaths execRoot workingDir (arg # args) =
     (if arg = ''-I'' then
        (case args of
           [] \<Rightarrow> None
         | dir # rest \<Rightarrow>
             map_option (\<lambda>r. clean_include execRoot workingDir dir # r)
               (cleanIncludePaths execRoot workingDir rest))
      else if prefix ''-I'' arg then
        map_option (\<lambda>r. clean_include execRoot workingDir (trim_space (trim_prefix ''-I'' arg)) # r)
          (cleanIncludePaths execRoot workingDir args)
      else map_option (\<lambda>r. arg # r) (cleanIncludePaths execRoot workingDir args))"

section \<open>Choice of outputs to download\<close>

record ExecutionOptions =
  AcceptCached :: bool
  DoNotCache :: bool
  DownloadOutErr :: bool
  DownloadOutputs :: bool
  PreserveUnchangedOutputMtime :: bool

record RemoteExecutionOptions =
  roAcceptCached :: bool
  roDoNotCache :: bool
  roDownloadOutputs :: bool
  roPreserveMtime :: bool

text \<open>The defaults of the SDK for a request without options are an argument.\<close>

definition execOptionsFromProto :: "ExecutionOptions \<Rightarrow> RemoteExecutionOptions option \<Rightarrow> ExecutionOptions" where
  "execOptionsFromProto dflt opt =
     (case opt of
        None \<Rightarrow> dflt
      | Some rop \<Rightarrow> \<lparr>AcceptCached = roAcceptCached rop, DoNotCache = roDoNotCache rop, DownloadOutErr = True,
                   DownloadOutputs = roDownloadOutputs rop, PreserveUnchangedOutputMtime = roPreserveMtime rop\<rparr>)"

text \<open>Outputs are the entries of the map from path to node, here its digest.\<close>

definition excludeOutputsViaFilter ::
  "(string \<Rightarrow> (string \<Rightarrow> bool) option) \<Rightarrow> bool \<Rightarrow> string \<Rightarrow> (string \<times> 'n) list \<Rightarrow> (string \<times> 'n) list" where
  "excludeOutputsViaFilter compile downloadOutputs downloadRegex outs =
     (let dflt = (if \<not> downloadOutputs then [] else outs) in
      if downloadRegex = [] \<or> downloadRegex = ''-'' then dflt
      else
        (let positiveFilter = (hd downloadRegex \<noteq> CHR ''-'');
             re = (if positiveFilter then downloadRegex else tl downloadRegex) in
         case compile re of
           None \<Rightarrow> dflt
         | Some matches \<Rightarrow>
             filter (\<lambda>(path, node). positiveFilter \<and> matches path \<or> \<not> positiveFilter \<and> \<not> matches path) outs))"

datatype disk_file = Missing | StatFailed | DigestFailed | HasHash string

definition excludeUnchangedOutputs ::
  "(string \<Rightarrow> disk_file) \<Rightarrow> string \<Rightarrow> string \<Rightarrow> (string \<times> string) list \<Rightarrow> (string \<times> string) list" where
  "excludeUnchangedOutputs disk workingDir outDir outs =
     (let destDir = Join [outDir, workingDir] in
      filter (\<lambda>(path, hash).
        case disk (Join [destDir, path]) of
          HasHash h \<Rightarrow> hash \<noteq> h
        | _ \<Rightarrow> True) outs)"

section \<open>Files that are input and output\<close>

text \<open>The state of the loops: the inputs not yet listed and the list. \<open>ord\<close> is the order in
  which the iteration over the map of inputs yields them.\<close>

type_synonym inout_state = "string list \<times> string list"

definition inout_take :: "string \<Rightarrow> string list \<Rightarrow> inout_state \<Rightarrow> inout_state" where
  "inout_take execRoot ps st =
     (case st of (inps, acc) \<Rightarrow>
        (filter (\<lambda>i. i \<notin> set ps) inps, acc @ map (\<lambda>p. Join [execRoot, p]) ps))"

definition inout_file :: "string \<Rightarrow> inout_state \<Rightarrow> string \<Rightarrow> inout_state" where
  "inout_file execRoot st f =
     (let cleaned = Clean f in
      if cleaned \<in> set (fst st) then inout_take execRoot [cleaned] st else st)"

definition dir_prefix :: "string \<Rightarrow> string" where
  "dir_prefix cleaned = (if suffix ''/'' cleaned then cleaned else cleaned @ ''/'')"

definition inout_dir :: "(string list \<Rightarrow> string list) \<Rightarrow> string \<Rightarrow> inout_state \<Rightarrow> string \<Rightarrow> inout_state" where
  "inout_dir ord execRoot st d =
     (let cleaned = Clean d in
      if cleaned \<in> set (fst st) then inout_take execRoot [cleaned] st
      else inout_take execRoot (ord (filter (prefix (dir_prefix cleaned)) (fst st))) st)"

definition inOutFiles ::
  "(string list \<Rightarrow> string list) \<Rightarrow> string \<Rightarrow> string \<Rightarrow> string list \<Rightarrow> string list \<Rightarrow> string list \<Rightarrow> string list" where
  "inOutFiles ord execRoot workingDir inputs outputFiles outputDirs =
     (let inps = remdups (map Clean inputs);
          st = foldl (inout_file execRoot) (inps, []) (ListRelToExecRoot execRoot workingDir outputFiles) in
      snd (foldl (inout_dir ord execRoot) st (ListRelToExecRoot execRoot workingDir outputDirs)))"

section \<open>Stashing\<close>

text \<open>The file system as a map from path to content and mode. \<open>copyOk p\<close>: opening, creating,
  copying and changing the mode succeed for \<open>p\<close>. \<open>fresh\<close> are the temporary names drawn.\<close>

type_synonym 'c disk = "string \<rightharpoonup> 'c"

fun StashFiles :: "(string \<Rightarrow> bool) \<Rightarrow> string list \<Rightarrow> 'c disk \<Rightarrow> string list \<Rightarrow> 'c disk \<times> (string \<times> string) list" where
  "StashFiles copyOk fresh fs [] = (fs, [])"
| "StashFiles copyOk [] fs (p # ps) = (fs, [])"
| "StashFiles copyOk (n # fresh) fs (p # ps) =
     (case fs p of
        None \<Rightarrow> StashFiles copyOk (n # fresh) fs ps
      | Some c \<Rightarrow>
          if copyOk p
          then (case StashFiles copyOk fresh (fs(n \<mapsto> c)) ps of (fs', m) \<Rightarrow> (fs', (n, p) # m))
          else StashFiles copyOk fresh fs ps)"

definition os_rename :: "string \<Rightarrow> string \<Rightarrow> 'c disk \<Rightarrow> 'c disk" where
  "os_rename a b fs = (case fs a of None \<Rightarrow> fs | Some c \<Rightarrow> if a = b then fs else (fs(b \<mapsto> c))(a := None))"

definition restore_stashed :: "(string \<times> string) list \<Rightarrow> 'c disk \<Rightarrow> 'c disk" where
  "restore_stashed newFiles fs = foldl (\<lambda>fs (dup, orig). os_rename dup orig fs) fs newFiles"

section \<open>Platform\<close>

definition isWindowsCross :: "string \<Rightarrow> (string \<rightharpoonup> string) \<Rightarrow> bool" where
  "isWindowsCross goos platform =
     (if goos \<noteq> ''windows'' then False
      else case platform ''OSFamily'' of None \<Rightarrow> False | Some os \<Rightarrow> os \<noteq> ''Windows'')"

definition knownOSFamilies :: "string \<rightharpoonup> string" where
  "knownOSFamilies = [''linux'' \<mapsto> ''Linux'', ''windows'' \<mapsto> ''Windows'']"

text \<open>The platform as the entries of the map.\<close>

definition setPlatformOSFamily :: "string \<Rightarrow> (string \<times> string) list \<Rightarrow> (string \<times> string) list" where
  "setPlatformOSFamily goos platform =
     (let ks = map fst platform in
      if ''OSFamily'' \<in> set ks \<or> ''Pool'' \<in> set ks \<or> (\<exists>k \<in> set ks. prefix ''label:'' k) then platform
      else case knownOSFamilies goos of
             None \<Rightarrow> platform
           | Some osFamily \<Rightarrow> (''OSFamily'', osFamily) # platform)"

section \<open>Facts on the helpers\<close>

lemma depth_split: "p \<noteq> [] \<Longrightarrow> depth p = length (path_split p)"
proof -
  have "length (filter (\<lambda>c. c = CHR ''/'') p) = count_list p (CHR ''/'')" by (induction p) auto
  then show "p \<noteq> [] \<Longrightarrow> depth p = length (path_split p)" by (simp add: depth_def split_on_length)
qed

lemma Clean_path_join:
  assumes "normal_elems False es" "es \<noteq> []"
  shows "Clean (path_join es) = path_join es"
proof -
  have "path_join es = render_path False es" using assms(2) by (simp add: render_path_def)
  then show ?thesis using assms(1) by (simp add: Clean_def IsAbs_render clean_elems_render)
qed

text \<open>The canonical directory has as many segments as the cleaned working directory.\<close>

lemma toRemoteWorkingDir_depth:
  assumes "w \<noteq> []"
  shows "depth (toRemoteWorkingDir w) = depth (Clean w)"
proof (cases "w = ''.''")
  case True
  then show ?thesis by (simp add: toRemoteWorkingDir_def) code_simp
next
  case False
  let ?es = "''set_by_reclient'' # replicate (depth (Clean w) - 1) ''a''"
  have n: "normal_elems False ?es" by (auto simp: normal_elems_def plain_elem_def)
  have "Join ?es = path_join ?es" using Clean_path_join [OF n] by (simp add: Join_def)
  moreover have "path_split (path_join ?es) = ?es" by (rule split_join) auto
  moreover have "path_join ?es \<noteq> []" by (cases "depth (Clean w) - 1") auto
  moreover have "Clean w \<noteq> []"
  proof
    assume "Clean w = []"
    moreover have "Clean [] \<noteq> []" by code_simp
    ultimately show False using Clean_idem [of w] by simp
  qed
  then have "depth (Clean w) \<ge> 1" by (simp add: depth_def)
  ultimately show ?thesis using False assms by (simp add: toRemoteWorkingDir_def depth_split)
qed

text \<open>The environment map panics exactly on an entry without separator, and otherwise the last
  entry of a name counts.\<close>

lemma slice_to_map_None: "slice_to_map m items sp = None \<longleftrightarrow> (\<exists>i \<in> set items. \<not> contains sp i)"
  by (induction items arbitrary: m) (auto simp: split_pair_def Let_def)

lemma sliceToMap_panics: "sliceToMap items sp = None \<longleftrightarrow> (\<exists>i \<in> set items. \<not> contains sp i)"
  by (simp add: sliceToMap_def slice_to_map_None)

lemma slice_to_map_value:
  "slice_to_map m items sp = Some m' \<Longrightarrow>
   m' = m ++ map_of (rev (map (the \<circ> split_pair sp) items))"
  by (induction items arbitrary: m) (auto split: option.splits)

text \<open>Include path cleaning panics exactly on a final \<open>-I\<close> without directory.\<close>

fun dangling_include :: "string list \<Rightarrow> bool" where
  "dangling_include [] = False"
| "dangling_include [a] = (a = ''-I'')"
| "dangling_include (a # b # as) = (if a = ''-I'' then dangling_include as else dangling_include (b # as))"

lemma cleanIncludePaths_panics: "cleanIncludePaths er wd args = None \<longleftrightarrow> dangling_include args"
  by (induction args rule: dangling_include.induct) auto

text \<open>A filter and its negation split the outputs.\<close>

lemma excludeOutputsViaFilter_splits:
  assumes "re \<noteq> []" "hd re \<noteq> CHR ''-''" "compile re = Some matches"
  shows "mset (excludeOutputsViaFilter compile d re outs) +
      mset (excludeOutputsViaFilter compile d' (CHR ''-'' # re) outs) = mset outs"
    and "set (excludeOutputsViaFilter compile d re outs) = {(p, n) \<in> set outs. matches p}"
  using assms by (auto simp: excludeOutputsViaFilter_def Let_def case_prod_unfold)

section \<open>Stash and restore\<close>

lemma StashFiles_spec:
  assumes "StashFiles copyOk fresh fs ps = (fs', m)" and "distinct fresh" and "distinct ps"
    and "set fresh \<inter> (dom fs \<union> set ps) = {}"
  shows "set (map fst m) \<subseteq> set fresh \<and> distinct (map fst m) \<and> set (map snd m) \<subseteq> set ps \<and> distinct (map snd m) \<and>
    (\<forall>(n, p) \<in> set m. fs' n = fs p \<and> fs p \<noteq> None) \<and> (\<forall>q. q \<notin> set fresh \<longrightarrow> fs' q = fs q) \<and>
    (length ps \<le> length fresh \<longrightarrow> (\<forall>p \<in> set ps. fs p \<noteq> None \<longrightarrow> copyOk p \<longrightarrow> p \<in> set (map snd m)))"
  using assms
proof (induction copyOk fresh fs ps arbitrary: fs' m rule: StashFiles.induct)
  case (1 copyOk fresh fs)
  then show ?case by simp
next
  case (2 copyOk fs p ps)
  then show ?case by simp
next
  case (3 copyOk n fresh fs p ps)
  show ?case
  proof (cases "fs p")
    case None
    then show ?thesis using 3(1) [of fs' m] "3.prems" by auto
  next
    case (Some c)
    show ?thesis
    proof (cases "copyOk p")
      case False
      then show ?thesis using 3(3) [of c fs' m] Some "3.prems" by auto
    next
      case True
      then obtain m' where m: "StashFiles copyOk fresh (fs(n \<mapsto> c)) ps = (fs', m')" "m = (n, p) # m'"
        using "3.prems"(1) Some by (auto split: prod.splits)
      have np: "n \<notin> set ps" "n \<noteq> p" "n \<notin> set fresh" "p \<notin> set ps" "p \<notin> set fresh" using "3.prems" by auto
      have i: "set fresh \<inter> (dom (fs(n \<mapsto> c)) \<union> set ps) = {}" using "3.prems"(4) np by auto
      have d: "distinct fresh" "distinct ps" using "3.prems"(2,3) by auto
      have ih: "set (map fst m') \<subseteq> set fresh \<and> distinct (map fst m') \<and> set (map snd m') \<subseteq> set ps \<and> distinct (map snd m') \<and>
        (\<forall>(k, p) \<in> set m'. fs' k = (fs(n \<mapsto> c)) p \<and> (fs(n \<mapsto> c)) p \<noteq> None) \<and> (\<forall>q. q \<notin> set fresh \<longrightarrow> fs' q = (fs(n \<mapsto> c)) q) \<and>
        (length ps \<le> length fresh \<longrightarrow> (\<forall>p \<in> set ps. (fs(n \<mapsto> c)) p \<noteq> None \<longrightarrow> copyOk p \<longrightarrow> p \<in> set (map snd m')))"
        by (rule 3(2) [OF Some True m(1) d i])
      have "\<forall>(k, q) \<in> set m'. q \<noteq> n" using ih np(1) by auto
      then show ?thesis using ih Some True m(2) np by (auto split: if_splits)
    qed
  qed
qed

lemma restore_stashed_spec:
  assumes "distinct (map fst m)" "distinct (map snd m)" "set (map fst m) \<inter> set (map snd m) = {}"
    and "\<forall>n \<in> set (map fst m). fs n \<noteq> None"
  shows "restore_stashed m fs q =
    (if q \<in> set (map fst m) then None
     else case map_of (map prod.swap m) q of None \<Rightarrow> fs q | Some n \<Rightarrow> fs n)"
  using assms
proof (induction m arbitrary: fs)
  case Nil
  then show ?case by (simp add: restore_stashed_def)
next
  case (Cons x m)
  obtain n p where x: "x = (n, p)" by (cases x)
  obtain c where c: "fs n = Some c" using Cons.prems(4) x by auto
  let ?fs = "(fs(p \<mapsto> c))(n := None)"
  have np: "n \<noteq> p" "n \<notin> fst ` set m" "p \<notin> snd ` set m" "n \<notin> snd ` set m" "p \<notin> fst ` set m"
    using Cons.prems x by auto
  have "restore_stashed (x # m) fs = restore_stashed m ?fs"
    using np(1) c by (simp add: restore_stashed_def os_rename_def x)
  moreover have "restore_stashed m ?fs q = (if q \<in> set (map fst m) then None
     else case map_of (map prod.swap m) q of None \<Rightarrow> ?fs q | Some n \<Rightarrow> ?fs n)"
    using Cons.prems np x by (intro Cons.IH) auto
  moreover have k: "k \<in> fst ` set m" if "map_of (map prod.swap m) t = Some k" for t k
    using map_of_SomeD [OF that] by (force simp: image_iff)
  moreover have "map_of (map prod.swap m) p = None"
    using np(3) by (force simp: map_of_eq_None_iff image_iff)
  moreover have "(case map_of (map prod.swap m) q of None \<Rightarrow> ?fs q | Some k \<Rightarrow> ?fs k) =
    (case map_of (map prod.swap m) q of None \<Rightarrow> ?fs q | Some k \<Rightarrow> fs k)"
    using k np(2,5) by (auto split: option.split)
  moreover have "map_of (map prod.swap m) n = None"
    using np(4) by (force simp: map_of_eq_None_iff image_iff)
  ultimately show ?case
    using np c by (cases "q = n"; cases "q = p"; cases "q \<in> fst ` set m") (simp_all add: x split: option.splits)
qed

section \<open>The in-out loops\<close>

lemma inout_files_spec:
  "set (fst (foldl (inout_file er) st fs)) = set (fst st) - Clean ` set fs \<and>
   set (snd (foldl (inout_file er) st fs)) =
     set (snd st) \<union> (\<lambda>i. Join [er, i]) ` (set (fst st) \<inter> Clean ` set fs)"
  by (induction fs arbitrary: st) (auto simp: inout_file_def inout_take_def Let_def split: prod.splits)

lemma inout_dirs_spec:
  assumes "iteration_order ord" and "\<forall>d \<in> set ds. Clean d \<notin> set (fst st)"
  shows "set (snd (foldl (inout_dir ord er) st ds)) =
     set (snd st) \<union> (\<lambda>i. Join [er, i]) ` {i \<in> set (fst st). \<exists>d \<in> set ds. prefix (dir_prefix (Clean d)) i}"
  using assms(2)
proof (induction ds arbitrary: st)
  case Nil
  then show ?case by simp
next
  case (Cons d ds)
  let ?ps = "filter (prefix (dir_prefix (Clean d))) (fst st)"
  have o: "set (ord ?ps) = set ?ps" using assms(1) unfolding iteration_order_def by (metis set_mset_mset)
  have st: "inout_dir ord er st d = (filter (\<lambda>i. i \<notin> set ?ps) (fst st), snd st @ map (\<lambda>p. Join [er, p]) (ord ?ps))"
    using Cons.prems o by (cases st) (simp add: inout_dir_def inout_take_def Let_def)
  show ?case unfolding foldl_Cons st using Cons.IH [of "(filter (\<lambda>i. i \<notin> set ?ps) (fst st), snd st @ map (\<lambda>p. Join [er, p]) (ord ?ps))"] Cons.prems
    by (auto simp: o)
qed

lemma image_split:
  "f ` (A \<inter> F) \<union> f ` {i \<in> A - F. P i} = {f i | i. i \<in> A \<and> (i \<in> F \<or> P i)}"
  by blast

section \<open>Properties\<close>

lemma stash_restore_facts:
  assumes "StashFiles copyOk fresh fs ps = (fs1, m)" and "distinct fresh" and "distinct ps"
    and "set fresh \<inter> (dom fs \<union> set ps) = {}" and "length ps \<le> length fresh"
    and "\<forall>n \<in> set fresh. fs2 n = fs1 n" and "mset m' = mset m"
  shows "\<forall>p \<in> set ps. fs p \<noteq> None \<longrightarrow> copyOk p \<longrightarrow> restore_stashed m' fs2 p = fs p"
    and "\<forall>q. q \<notin> set ps \<longrightarrow> q \<notin> set fresh \<longrightarrow> restore_stashed m' fs2 q = fs2 q"
proof -
  have sp: "set (map fst m) \<subseteq> set fresh" "distinct (map fst m)" "set (map snd m) \<subseteq> set ps" "distinct (map snd m)"
    "\<forall>(n, p) \<in> set m. fs1 n = fs p \<and> fs p \<noteq> None"
    "length ps \<le> length fresh \<longrightarrow> (\<forall>p \<in> set ps. fs p \<noteq> None \<longrightarrow> copyOk p \<longrightarrow> p \<in> set (map snd m))"
    using StashFiles_spec [OF assms(1-4)] by - (elim conjE, assumption)+
  have eq: "set m' = set m" "mset (map fst m') = mset (map fst m)" "mset (map snd m') = mset (map snd m)"
    using mset_eq_setD [OF assms(7)] by (simp_all only: mset_map assms(7))
  have d: "distinct (map fst m')" "distinct (map snd m')"
    using sp(2,4) eq(2,3) by (metis mset_eq_imp_distinct_iff)+
  have dj: "set (map fst m') \<inter> set (map snd m') = {}" using sp(1,3) assms(4) eq(1) by auto
  have pr: "\<forall>n \<in> set (map fst m'). fs2 n \<noteq> None" using sp(1,5) assms(6) eq(1) by fastforce
  note rs = restore_stashed_spec [OF d dj pr]
  show "\<forall>p \<in> set ps. fs p \<noteq> None \<longrightarrow> copyOk p \<longrightarrow> restore_stashed m' fs2 p = fs p"
  proof (intro ballI impI)
    fix p assume p: "p \<in> set ps" "fs p \<noteq> None" "copyOk p"
    then obtain n where n: "(n, p) \<in> set m'" using sp(6) [rule_format, OF assms(5)] eq(1) by force
    have "distinct (map fst (map prod.swap m'))" using d(2) by (simp add: comp_def)
    then have "map_of (map prod.swap m') p = Some n" using n by (force simp: map_of_eq_Some_iff)
    moreover have "p \<notin> set (map fst m')" using p(1) sp(1) assms(4) eq(1) by auto
    moreover have "fs2 n = fs p" using n sp(1,5) eq(1) assms(6) by fastforce
    ultimately show "restore_stashed m' fs2 p = fs p" by (simp add: rs)
  qed
  have swap_None: "map_of (map prod.swap m') q = None" if "q \<notin> set (map snd m')" for q
    using that by (force simp: map_of_eq_None_iff image_iff)
  show "\<forall>q. q \<notin> set ps \<longrightarrow> q \<notin> set fresh \<longrightarrow> restore_stashed m' fs2 q = fs2 q"
  proof (intro allI impI)
    fix q assume q: "q \<notin> set ps" "q \<notin> set fresh"
    then have "q \<notin> set (map fst m')" "q \<notin> set (map snd m')" using sp(1,3) eq(1) by auto
    then show "restore_stashed m' fs2 q = fs2 q"
      by (simp add: rs swap_None)
  qed
qed


text \<open>Stashing files and restoring them gives each stashed file its content back, whatever
  happened to it in between and in whatever order the restore visits the copies; other files
  are left alone.\<close>

theorem stash_restore:
  assumes "StashFiles copyOk fresh fs ps = (fs1, m)" and "distinct fresh" and "distinct ps"
    and "set fresh \<inter> (dom fs \<union> set ps) = {}" and "length ps \<le> length fresh"
    and "\<forall>n \<in> set fresh. fs2 n = fs1 n" and "mset m' = mset m"
  shows "(\<forall>p \<in> set ps. fs p \<noteq> None \<longrightarrow> copyOk p \<longrightarrow> restore_stashed m' fs2 p = fs p) \<and>
    (\<forall>q. q \<notin> set ps \<longrightarrow> q \<notin> set fresh \<longrightarrow> restore_stashed m' fs2 q = fs2 q)"
  by (rule conjI, rule stash_restore_facts(1) [OF assms], rule stash_restore_facts(2) [OF assms])

theorem stash_restore_witness:
  "restore_stashed [(''/t/1'', ''/a'')] [''/t/1'' \<mapsto> (1 :: nat), ''/a'' \<mapsto> 2] ''/a'' = Some 1"
proof -
  let ?fs = "[''/a'' \<mapsto> 1] :: nat disk"
  have "StashFiles (\<lambda>_. True) [''/t/1''] ?fs [''/a''] = (?fs(''/t/1'' \<mapsto> 1), [(''/t/1'', ''/a'')])" by simp
  from stash_restore [OF this, of "[''/t/1'' \<mapsto> 1, ''/a'' \<mapsto> 2]" "[(''/t/1'', ''/a'')]"]
  show ?thesis by simp
qed

text \<open>The in-out files of an action are, below the exec root, exactly the inputs that are
  output files or lie in an output directory, provided no output directory is itself listed as
  an input.\<close>

theorem inOutFiles_exact:
  assumes "iteration_order ord"
    and "\<forall>d \<in> set (ListRelToExecRoot er wd dirs). Clean d \<notin> Clean ` set inputs"
  shows "set (inOutFiles ord er wd inputs files dirs) =
    {Join [er, i] | i. i \<in> Clean ` set inputs \<and>
      (i \<in> Clean ` set (ListRelToExecRoot er wd files) \<or>
       (\<exists>d \<in> set (ListRelToExecRoot er wd dirs). prefix (dir_prefix (Clean d)) i))}"
proof -
  let ?inps = "remdups (map Clean inputs)" and ?fs = "ListRelToExecRoot er wd files" and ?ds = "ListRelToExecRoot er wd dirs"
  let ?st = "foldl (inout_file er) (?inps, []) ?fs"
  have f: "set (fst ?st) = Clean ` set inputs - Clean ` set ?fs"
    "set (snd ?st) = (\<lambda>i. Join [er, i]) ` (Clean ` set inputs \<inter> Clean ` set ?fs)"
    using inout_files_spec [of er "(?inps, [])" ?fs] by auto
  have "\<forall>d \<in> set ?ds. Clean d \<notin> set (fst ?st)" using assms(2) f(1) by auto
  from inout_dirs_spec [OF assms(1) this, of er] show ?thesis
    unfolding inOutFiles_def Let_def f by (simp only: image_split)
qed

theorem inOutFiles_exact_witness:
  "set (inOutFiles id ''/r'' ''out'' [''out/x'', ''src/y'', ''out/d/z''] [''x''] [''d'']) =
    {Join [''/r'', i] | i. i \<in> Clean ` set [''out/x'', ''src/y'', ''out/d/z''] \<and>
      (i \<in> Clean ` set (ListRelToExecRoot ''/r'' ''out'' [''x'']) \<or>
       (\<exists>d \<in> set (ListRelToExecRoot ''/r'' ''out'' [''d'']). prefix (dir_prefix (Clean d)) i))}"
proof (rule inOutFiles_exact)
  show "iteration_order id" by (simp add: iteration_order_def)
  show "\<forall>d \<in> set (ListRelToExecRoot ''/r'' ''out'' [''d'']). Clean d \<notin> Clean ` set [''out/x'', ''src/y'', ''out/d/z'']"
    by code_simp
qed

end
