(* ===== verification/ActionResult.thy ===== *)
theory ActionResult
  imports Prelude
begin

text \<open>
  Results of commands, as \<open>internal/pkg/reproxy\<close> and \<open>internal/pkg/logger\<close> use them. The
  struct \<open>command.Result\<close> and its status values are those the sources name; the functions of
  the remote execution SDK that build and test results are an argument, and \<open>sdk_ok\<close> states
  their documented behaviour. Errors are classified by what the sources ask of them with
  \<open>errors.Is\<close>.
\<close>

datatype ResultStatus =
  UNKNOWN_STATUS | SUCCESS | CACHE_HIT | NON_ZERO_EXIT | TIMEOUT | INTERRUPTED | REMOTE_ERROR | LOCAL_ERROR

datatype go_err = ErrReclientTimeout | ErrCanceled | ErrIPTimeout | ErrFailBuild | ErrOther string

record Result =
  rExitCode :: int
  rStatus :: ResultStatus
  rErr :: "go_err option"

record command_sdk =
  IsOk :: "Result \<Rightarrow> bool"
  NewLocalErrorResult :: "go_err \<Rightarrow> Result"
  NewResultFromExitCode :: "int \<Rightarrow> Result"
  RemoteErrorExitCode :: int

definition sdk_ok :: "command_sdk \<Rightarrow> bool" where
  "sdk_ok S \<longleftrightarrow>
     (\<forall>r. IsOk S r \<longleftrightarrow> rStatus r = SUCCESS \<or> rStatus r = CACHE_HIT) \<and>
     (\<forall>e. rStatus (NewLocalErrorResult S e) = LOCAL_ERROR \<and> rErr (NewLocalErrorResult S e) = Some e) \<and>
     (\<forall>c. NewResultFromExitCode S c =
        \<lparr>rExitCode = c, rStatus = (if c = 0 then SUCCESS else NON_ZERO_EXIT), rErr = None\<rparr>)"

text \<open>A concrete instance.\<close>

definition demo_sdk :: command_sdk where
  "demo_sdk = \<lparr>IsOk = (\<lambda>r. rStatus r = SUCCESS \<or> rStatus r = CACHE_HIT),
     NewLocalErrorResult = (\<lambda>e. \<lparr>rExitCode = 35, rStatus = LOCAL_ERROR, rErr = Some e\<rparr>),
     NewResultFromExitCode =
       (\<lambda>c. \<lparr>rExitCode = c, rStatus = (if c = 0 then SUCCESS else NON_ZERO_EXIT), rErr = None\<rparr>),
     RemoteErrorExitCode = 45\<rparr>"

lemma demo_sdk_ok [simp]: "sdk_ok demo_sdk"
  by (simp add: sdk_ok_def demo_sdk_def)

lemma sdk_local_error:
  assumes "sdk_ok S"
  shows "\<not> IsOk S (NewLocalErrorResult S e)" "rStatus (NewLocalErrorResult S e) = LOCAL_ERROR"
    "rErr (NewLocalErrorResult S e) = Some e"
  using assms by (simp_all add: sdk_ok_def)

lemma sdk_exit_code:
  assumes "sdk_ok S"
  shows "IsOk S (NewResultFromExitCode S c) \<longleftrightarrow> c = 0"
    "rStatus (NewResultFromExitCode S c) = (if c = 0 then SUCCESS else NON_ZERO_EXIT)"
  using assms by (simp_all add: sdk_ok_def)

end
