(* ===== verification/Race.thy ===== *)
theory Race
  imports ActionResult
begin

text \<open>
  The racing strategy of \<open>internal/pkg/reproxy/action.go\<close> (\<open>race\<close>, \<open>runRemoteRace\<close>,
  \<open>runLocalRace\<close>) as a transition system: the remote goroutine, the local goroutine, the
  timer that starts local execution after a cache hit, and the main goroutine that receives
  from the channel \<open>ch\<close>. Each goroutine's code between two synchronisation points is one
  definition; \<open>race_step\<close> interleaves them. The answers of the remote execution client and of
  the local pool are the free arguments of the steps, so every answer is covered. A run starts with or without
  the goroutines, as the temporary directory could be created or not. How long the
  hold-off lasts is not modelled, only that the timer fires at some moment.
\<close>

section \<open>State\<close>

datatype resultType = remote | local | canceled

record raceResult =
  rrRes :: "Result option"
  rrOE :: bool
  rrT :: resultType

datatype remote_pc = RStart | RExec | RDownload | RDone

datatype local_pc = LWait | LRun | LDone

datatype main_pc = MFirst | MSecond raceResult | MWinner raceResult | MReturned raceResult | MAborted

text \<open>\<open>holdoff\<close>: the hold-off timer is running; \<open>lCh\<close>: the channel is closed; \<open>cDone\<close> and
  \<open>ctxDone\<close>: the contexts \<open>cCtx\<close> and \<open>ctx\<close> are done; \<open>ch\<close>: the buffered channel;
  \<open>ares\<close>: \<open>a.res\<close>; \<open>executedLocally\<close>: \<open>a.rec.LocalMetadata.ExecutedLocally\<close>.\<close>

record race_state =
  rpc :: remote_pc
  lpc :: local_pc
  mpc :: main_pc
  holdoff :: bool
  lCh :: bool
  cDone :: bool
  ctxDone :: bool
  ch :: "raceResult list"
  ares :: "Result option"
  executedLocally :: bool
  numFallbacks :: nat

definition race_init :: race_state where
  "race_init = \<lparr>rpc = RStart, lpc = LWait, mpc = MFirst, holdoff = False, lCh = False, cDone = False,
     ctxDone = False, ch = [], ares = None, executedLocally = False, numFallbacks = 0\<rparr>"

text \<open>The beginning of \<open>race\<close>: when the temporary directory cannot be created the function returns before
  it starts a goroutine.\<close>

definition race_start :: "command_sdk \<Rightarrow> go_err option \<Rightarrow> race_state" where
  "race_start S tmpErr =
     (case tmpErr of
        None \<Rightarrow> race_init
      | Some e \<Rightarrow> race_init\<lparr>rpc := RDone, lpc := LDone, mpc := MAborted, ares := Some (NewLocalErrorResult S e)\<rparr>)"

definition send :: "raceResult \<Rightarrow> race_state \<Rightarrow> race_state" where
  "send m st = st\<lparr>ch := ch st @ [m]\<rparr>"

definition canceled_msg :: "Result option \<Rightarrow> bool \<Rightarrow> raceResult" where
  "canceled_msg r oe = \<lparr>rrRes = r, rrOE = oe, rrT = canceled\<rparr>"

section \<open>The remote goroutine\<close>

text \<open>After the result of the action is known: a failed one is reported, an ok one downloaded.\<close>

definition remote_checked :: "command_sdk \<Rightarrow> Result \<Rightarrow> race_state \<Rightarrow> race_state" where
  "remote_checked S r st =
     (if \<not> IsOk S r then (send (canceled_msg (Some r) False) st)\<lparr>rpc := RDone\<rparr>
      else st\<lparr>rpc := RDownload\<rparr>)"

text \<open>\<open>newContext\<close> is the error of creating the execution context, \<open>cached\<close> the result after
  \<open>GetCachedResult\<close>.\<close>

definition remote_start :: "command_sdk \<Rightarrow> go_err option \<Rightarrow> Result option \<Rightarrow> race_state \<Rightarrow> race_state" where
  "remote_start S newContext cached st =
     (case newContext of
        Some e \<Rightarrow>
          (send (canceled_msg (Some (NewLocalErrorResult S e)) False) st)\<lparr>rpc := RDone, lCh := True\<rparr>
      | None \<Rightarrow>
          (case cached of
             None \<Rightarrow> st\<lparr>lCh := True, rpc := RExec\<rparr>
           | Some r \<Rightarrow>
               if rStatus r = CACHE_HIT then remote_checked S r (st\<lparr>holdoff := True\<rparr>)
               else remote_checked S r (st\<lparr>lCh := True\<rparr>)))"

definition remote_executed :: "command_sdk \<Rightarrow> Result \<Rightarrow> race_state \<Rightarrow> race_state" where
  "remote_executed S r st =
     (if cDone st then (send (canceled_msg None False) st)\<lparr>rpc := RDone\<rparr> else remote_checked S r st)"

definition remote_downloaded :: "command_sdk \<Rightarrow> Result \<Rightarrow> race_state \<Rightarrow> race_state" where
  "remote_downloaded S r st =
     (if cDone st then (send (canceled_msg None False) st)\<lparr>rpc := RDone\<rparr>
      else if \<not> IsOk S r then (send (canceled_msg (Some r) True) st)\<lparr>rpc := RDone\<rparr>
      else (send \<lparr>rrRes = Some r, rrOE = True, rrT = remote\<rparr> st)\<lparr>rpc := RDone\<rparr>)"

definition holdoff_over :: "race_state \<Rightarrow> race_state" where
  "holdoff_over st = st\<lparr>holdoff := False, lCh := True\<rparr>"

section \<open>The local goroutine\<close>

definition local_started :: "race_state \<Rightarrow> race_state" where
  "local_started st = st\<lparr>lpc := LRun\<rparr>"

definition local_canceled :: "race_state \<Rightarrow> race_state" where
  "local_canceled st = (send (canceled_msg None False) st)\<lparr>lpc := LDone\<rparr>"

text \<open>\<open>runLocalRace\<close> from the return of \<open>pool.Run\<close> on.\<close>

definition local_finished :: "command_sdk \<Rightarrow> int \<Rightarrow> go_err option \<Rightarrow> race_state \<Rightarrow> race_state" where
  "local_finished S exitCode err st =
     (if err = Some ErrCanceled then local_canceled st
      else if exitCode = 0 \<and> err \<noteq> None
      then (send (canceled_msg (Some (NewLocalErrorResult S (the err))) False) st)\<lparr>lpc := LDone\<rparr>
      else (send \<lparr>rrRes = Some (NewResultFromExitCode S exitCode), rrOE = True, rrT = local\<rparr> st)
             \<lparr>lpc := LDone, ares := Some (NewResultFromExitCode S exitCode), executedLocally := True\<rparr>)"

section \<open>The main goroutine\<close>

definition main_first :: "race_state \<Rightarrow> race_state" where
  "main_first st =
     (let m = hd (ch st); st' = st\<lparr>ch := tl (ch st), cDone := cDone st \<or> rrT m \<noteq> canceled\<rparr> in
      if rrT m = remote \<or> rrT m = canceled then st'\<lparr>mpc := MSecond m\<rparr> else st'\<lparr>mpc := MWinner m\<rparr>)"

definition main_second :: "raceResult \<Rightarrow> race_state \<Rightarrow> race_state" where
  "main_second winner st =
     (let rr = hd (ch st) in
      st\<lparr>ch := tl (ch st),
         numFallbacks := (if rrT winner = canceled \<and> rrT rr = local then numFallbacks st + 1 else numFallbacks st),
         mpc := MWinner (if rrT rr = local then rr else winner)\<rparr>)"

definition main_aborted :: "command_sdk \<Rightarrow> go_err \<Rightarrow> race_state \<Rightarrow> race_state" where
  "main_aborted S e st = st\<lparr>mpc := MAborted, ares := Some (NewLocalErrorResult S e)\<rparr>"

text \<open>\<open>moveErr\<close> is the error of \<open>moveOutputsFromTemp\<close>, called when the remote result won.\<close>

definition main_finish :: "command_sdk \<Rightarrow> go_err option \<Rightarrow> raceResult \<Rightarrow> race_state \<Rightarrow> race_state" where
  "main_finish S moveErr winner st =
     (if rrT winner = remote \<and> moveErr \<noteq> None
      then st\<lparr>ares := Some (NewLocalErrorResult S (the moveErr)), mpc := MReturned winner\<rparr>
      else if rrT winner = remote then st\<lparr>ares := rrRes winner, mpc := MReturned winner\<rparr>
      else if rrT winner = canceled \<and> rrRes winner \<noteq> None
      then st\<lparr>ares := rrRes winner, mpc := MReturned winner\<rparr>
      else st\<lparr>mpc := MReturned winner\<rparr>)"

section \<open>Interleaving\<close>

text \<open>The pool reports a cancelled context only when \<open>cCtx\<close> is done. A select with several
  ready cases takes any of them.\<close>

inductive race_step :: "command_sdk \<Rightarrow> race_state \<Rightarrow> race_state \<Rightarrow> bool" for S where
  Ctx: "race_step S st (st\<lparr>ctxDone := True, cDone := True\<rparr>)" if "\<not> ctxDone st"
| RemoteStart: "race_step S st (remote_start S ne cr st)" if "rpc st = RStart"
| RemoteExecuted: "race_step S st (remote_executed S r st)" if "rpc st = RExec"
| RemoteDownloaded: "race_step S st (remote_downloaded S r st)" if "rpc st = RDownload"
| Holdoff: "race_step S st (holdoff_over st)" if "holdoff st"
| LocalStart: "race_step S st (local_started st)" if "lpc st = LWait" "lCh st"
| LocalCancel: "race_step S st (local_canceled st)" if "lpc st = LWait" "cDone st"
| LocalFinish: "race_step S st (local_finished S ec err st)"
    if "lpc st = LRun" "err = Some ErrCanceled \<longrightarrow> cDone st"
| MainFirst: "race_step S st (main_first st)" if "mpc st = MFirst" "ch st \<noteq> []"
| MainSecond: "race_step S st (main_second w st)" if "mpc st = MSecond w" "ch st \<noteq> []"
| MainAbort: "race_step S st (main_aborted S e st)"
    if "mpc st = MFirst \<or> (\<exists>w. mpc st = MSecond w)" "ctxDone st"
| MainFinish: "race_step S st (main_finish S mv w st)" if "mpc st = MWinner w"

definition race_reachable :: "command_sdk \<Rightarrow> race_state \<Rightarrow> bool" where
  "race_reachable S st \<longleftrightarrow> (\<exists>tmpErr. (race_step S)\<^sup>*\<^sup>* (race_start S tmpErr) st)"

lemma race_reachable_started: "(race_step S)\<^sup>*\<^sup>* race_init st \<Longrightarrow> race_reachable S st"
  unfolding race_reachable_def by (rule exI [of _ None]) (simp add: race_start_def)

lemma race_reachable_step: "race_reachable S st \<Longrightarrow> race_step S st st' \<Longrightarrow> race_reachable S st'"
  unfolding race_reachable_def by (meson rtranclp.rtrancl_into_rtrancl)

section \<open>Invariants\<close>

lemmas race_defs = remote_start_def remote_checked_def remote_executed_def remote_downloaded_def
  holdoff_over_def local_started_def local_canceled_def local_finished_def main_first_def
  main_second_def main_aborted_def main_finish_def send_def canceled_msg_def

fun held :: "main_pc \<Rightarrow> raceResult set" where
  "held MFirst = {}"
| "held (MSecond w) = {w}"
| "held (MWinner w) = {w}"
| "held (MReturned w) = {w}"
| "held MAborted = {}"

text \<open>The messages the main goroutine holds or will receive, and how many goroutines are done.\<close>

definition live :: "race_state \<Rightarrow> raceResult set" where
  "live st = set (ch st) \<union> held (mpc st)"

definition finished :: "race_state \<Rightarrow> nat" where
  "finished st = (if rpc st = RDone then 1 else 0) + (if lpc st = LDone then 1 else 0)"

text \<open>Every finished goroutine has sent one message; two have been received when the winner
  is not a local result.\<close>

definition count_inv :: "race_state \<Rightarrow> bool" where
  "count_inv st =
     (case mpc st of
        MFirst \<Rightarrow> length (ch st) = finished st
      | MSecond w \<Rightarrow> Suc (length (ch st)) = finished st \<and> rrT w \<noteq> local
      | MWinner w \<Rightarrow> length (ch st) < finished st \<and> (rrT w \<noteq> local \<longrightarrow> finished st = 2 \<and> ch st = [])
      | MReturned w \<Rightarrow> length (ch st) < finished st \<and> (rrT w \<noteq> local \<longrightarrow> finished st = 2 \<and> ch st = [])
      | MAborted \<Rightarrow> length (ch st) \<le> finished st)"

text \<open>A local result that exists is the result of the action.\<close>

definition local_inv :: "race_state \<Rightarrow> bool" where
  "local_inv st \<longleftrightarrow>
     (executedLocally st \<longrightarrow> lpc st = LDone) \<and>
     (mpc st \<noteq> MAborted \<longrightarrow>
        executedLocally st = (\<exists>m \<in> live st. rrT m = local) \<and>
        (\<forall>m \<in> live st. rrT m = local \<longrightarrow> rrRes m = ares st \<and> ares st \<noteq> None))"

text \<open>A message without a result means the context of the action is done.\<close>

definition result_inv :: "race_state \<Rightarrow> bool" where
  "result_inv st \<longleftrightarrow>
     (mpc st = MFirst \<and> cDone st \<longrightarrow> ctxDone st) \<and>
     (mpc st = MFirst \<longrightarrow> (\<forall>m \<in> set (ch st). rrRes m = None \<longrightarrow> ctxDone st)) \<and>
     (\<forall>m \<in> held (mpc st). rrRes m = None \<longrightarrow> ctxDone st) \<and>
     (\<forall>m \<in> live st. rrT m = remote \<or> rrT m = local \<longrightarrow> rrRes m \<noteq> None) \<and>
     (\<forall>w. mpc st = MReturned w \<longrightarrow> ares st = None \<longrightarrow> ctxDone st)"

definition start_inv :: "race_state \<Rightarrow> bool" where
  "start_inv st \<longleftrightarrow> (rpc st \<noteq> RStart \<longrightarrow> lCh st \<or> holdoff st \<or> lpc st = LDone)"

lemma start_inv_step: "race_step S st st' \<Longrightarrow> start_inv st \<Longrightarrow> start_inv st'"
  by (erule race_step.cases) (auto simp: start_inv_def race_defs Let_def split: option.splits)

text \<open>What a step does, seen from the main goroutine: nothing, one message of the remote or of
  the local goroutine, or a step of the main goroutine itself.\<close>

definition quiet :: "race_state \<Rightarrow> race_state \<Rightarrow> bool" where
  "quiet st st' \<longleftrightarrow> ch st' = ch st \<and> mpc st' = mpc st \<and> (rpc st' = RDone \<longleftrightarrow> rpc st = RDone) \<and>
     (lpc st' = LDone \<longleftrightarrow> lpc st = LDone) \<and> ares st' = ares st \<and> executedLocally st' = executedLocally st \<and>
     (cDone st' \<longrightarrow> cDone st \<or> ctxDone st') \<and> (ctxDone st \<longrightarrow> ctxDone st')"

definition posts :: "raceResult \<Rightarrow> race_state \<Rightarrow> race_state \<Rightarrow> bool" where
  "posts m st st' \<longleftrightarrow> ch st' = ch st @ [m] \<and> mpc st' = mpc st \<and> cDone st' = cDone st \<and> ctxDone st' = ctxDone st"

definition remote_posts :: "race_state \<Rightarrow> race_state \<Rightarrow> bool" where
  "remote_posts st st' \<longleftrightarrow> (\<exists>m. posts m st st' \<and> rpc st \<noteq> RDone \<and> rpc st' = RDone \<and> lpc st' = lpc st \<and>
     ares st' = ares st \<and> executedLocally st' = executedLocally st \<and> rrT m \<noteq> local \<and>
     (rrRes m = None \<longrightarrow> cDone st \<and> rrT m = canceled))"

definition local_posts :: "race_state \<Rightarrow> race_state \<Rightarrow> bool" where
  "local_posts st st' \<longleftrightarrow> (\<exists>m. posts m st st' \<and> lpc st \<noteq> LDone \<and> lpc st' = LDone \<and> rpc st' = rpc st \<and>
     (if rrT m = local then rrRes m \<noteq> None \<and> ares st' = rrRes m \<and> executedLocally st'
      else rrT m = canceled \<and> ares st' = ares st \<and> executedLocally st' = executedLocally st \<and>
        (rrRes m = None \<longrightarrow> cDone st)))"

lemma race_step_effect:
  assumes "race_step S st st'"
  shows "quiet st st' \<or> remote_posts st st' \<or> local_posts st st' \<or>
    mpc st = MFirst \<and> ch st \<noteq> [] \<and> st' = main_first st \<or>
    (\<exists>w. mpc st = MSecond w \<and> ch st \<noteq> [] \<and> st' = main_second w st) \<or>
    (\<exists>e. st' = main_aborted S e st) \<or>
    (\<exists>w mv. mpc st = MWinner w \<and> st' = main_finish S mv w st)"
  using assms
proof cases
  case Ctx
  then show ?thesis by (simp add: quiet_def)
next
  case RemoteStart
  then have "quiet st st' \<or> remote_posts st st'"
    by (auto simp: quiet_def remote_posts_def posts_def remote_start_def remote_checked_def send_def canceled_msg_def
        split: option.splits)
  then show ?thesis by blast
next
  case RemoteExecuted
  then have "quiet st st' \<or> remote_posts st st'"
    by (auto simp: quiet_def remote_posts_def posts_def remote_executed_def remote_checked_def send_def canceled_msg_def)
  then show ?thesis by blast
next
  case RemoteDownloaded
  then have "remote_posts st st'"
    by (auto simp: remote_posts_def posts_def remote_downloaded_def send_def canceled_msg_def)
  then show ?thesis by blast
next
  case LocalCancel
  then have "local_posts st st'"
    by (auto simp: local_posts_def posts_def local_canceled_def send_def canceled_msg_def)
  then show ?thesis by blast
next
  case LocalFinish
  then have "local_posts st st'"
    by (auto simp: local_posts_def posts_def local_finished_def local_canceled_def send_def canceled_msg_def)
  then show ?thesis by blast
qed (auto simp: quiet_def holdoff_over_def local_started_def)

lemma main_first_eq:
  assumes "ch st = m # ms"
  shows "main_first st = (if rrT m = local then st\<lparr>ch := ms, cDone := True, mpc := MWinner m\<rparr>
    else st\<lparr>ch := ms, cDone := cDone st \<or> rrT m = remote, mpc := MSecond m\<rparr>)"
  using assms by (cases "rrT m") (auto simp: main_first_def)

definition race_inv :: "race_state \<Rightarrow> bool" where
  "race_inv st \<longleftrightarrow> start_inv st \<and> count_inv st \<and> local_inv st \<and> result_inv st"

lemmas inv_defs = count_inv_def local_inv_def result_inv_def finished_def live_def

lemma posts_live: "posts m st st' \<Longrightarrow> live st' = insert m (live st) \<and> set (ch st') = insert m (set (ch st))"
  by (auto simp: posts_def live_def)

lemma inv_quiet:
  assumes "quiet st st'" and "count_inv st" "local_inv st" "result_inv st"
  shows "count_inv st'" "local_inv st'" "result_inv st'"
proof -
  have q: "ch st' = ch st" "mpc st' = mpc st" "rpc st' = RDone \<longleftrightarrow> rpc st = RDone" "ares st' = ares st"
    "lpc st' = LDone \<longleftrightarrow> lpc st = LDone" "executedLocally st' = executedLocally st"
    "cDone st' \<longrightarrow> cDone st \<or> ctxDone st'" "ctxDone st \<longrightarrow> ctxDone st'"
    using assms(1) by (simp_all add: quiet_def)
  have l: "live st' = live st" "finished st' = finished st" by (simp_all add: live_def finished_def q)
  show "count_inv st'" using assms(2) unfolding count_inv_def q l .
  show "local_inv st'" using assms(3) unfolding local_inv_def q l .
  show "result_inv st'" using assms(4) q(7,8) unfolding result_inv_def q(1,2,4) l by blast
qed

lemma inv_remote_posts:
  assumes "remote_posts st st'" and "count_inv st" "local_inv st" "result_inv st"
  shows "count_inv st'" "local_inv st'" "result_inv st'"
proof -
  obtain m where p: "posts m st st'" and r: "rpc st \<noteq> RDone" "rpc st' = RDone" "lpc st' = lpc st"
    and a: "ares st' = ares st" "executedLocally st' = executedLocally st"
    and m: "rrT m \<noteq> local" "rrRes m = None \<longrightarrow> cDone st \<and> rrT m = canceled"
    using assms(1) unfolding remote_posts_def by (elim exE conjE) (rule that)
  have q: "ch st' = ch st @ [m]" "mpc st' = mpc st" "cDone st' = cDone st" "ctxDone st' = ctxDone st"
    using p by (simp_all add: posts_def)
  have f: "finished st' = Suc (finished st)" "finished st \<le> 1" by (simp_all add: finished_def r)
  note l = conjunct1 [OF posts_live [OF p]]
  show "count_inv st'" using assms(2) f(2)
    by (cases "mpc st") (simp_all add: count_inv_def q f)
  show "local_inv st'" using assms(3) m(1) unfolding local_inv_def l q r a by blast
  show "result_inv st'" using assms(4) m unfolding result_inv_def l q a by (auto 0 2)
qed

text \<open>While the local goroutine runs, the main goroutine has no winner yet, unless it was aborted.\<close>

lemma local_running:
  assumes "count_inv st" "local_inv st" "lpc st \<noteq> LDone"
  shows "\<not> executedLocally st" "mpc st = MFirst \<or> (\<exists>w. mpc st = MSecond w) \<or> mpc st = MAborted"
proof -
  show e: "\<not> executedLocally st" using assms(2,3) by (simp add: local_inv_def)
  have "finished st \<noteq> 2" using assms(3) by (simp add: finished_def)
  then show "mpc st = MFirst \<or> (\<exists>w. mpc st = MSecond w) \<or> mpc st = MAborted"
    using assms(1,2) e by (cases "mpc st") (simp_all add: count_inv_def local_inv_def live_def)
qed

lemma inv_local_posts:
  assumes "local_posts st st'" and "count_inv st" "local_inv st" "result_inv st"
  shows "count_inv st'" "local_inv st'" "result_inv st'"
proof -
  obtain m where p: "posts m st st'" and r: "lpc st \<noteq> LDone" "lpc st' = LDone" "rpc st' = rpc st"
    and m: "if rrT m = local then rrRes m \<noteq> None \<and> ares st' = rrRes m \<and> executedLocally st'
      else rrT m = canceled \<and> ares st' = ares st \<and> executedLocally st' = executedLocally st \<and>
        (rrRes m = None \<longrightarrow> cDone st)"
    using assms(1) unfolding local_posts_def by blast
  have q: "ch st' = ch st @ [m]" "mpc st' = mpc st" "cDone st' = cDone st" "ctxDone st' = ctxDone st"
    using p by (simp_all add: posts_def)
  have f: "finished st' = Suc (finished st)" "finished st \<le> 1" by (simp_all add: finished_def r)
  note l = conjunct1 [OF posts_live [OF p]]
  note run = local_running [OF assms(2,3) r(1)]
  have no: "\<forall>m \<in> live st. rrT m \<noteq> local" if "mpc st \<noteq> MAborted"
    using assms(3) run(1) that by (simp add: local_inv_def)
  show "count_inv st'" using assms(2) f(2)
    by (cases "mpc st") (simp_all add: count_inv_def q f)
  show "local_inv st'"
    using no m run(1) by (cases "rrT m = local") (auto simp: local_inv_def l q r)
  show "result_inv st'"
    using assms(4) m run(2) unfolding result_inv_def l q by (cases "rrT m = local") (auto 0 2)
qed

lemma inv_main_first:
  assumes "mpc st = MFirst" "ch st \<noteq> []" "count_inv st" "local_inv st" "result_inv st"
  shows "count_inv (main_first st) \<and> local_inv (main_first st) \<and> result_inv (main_first st)"
proof -
  obtain m ms where ch: "ch st = m # ms" using assms(2) by (cases "ch st") auto
  show ?thesis
    using assms by (auto simp: main_first_eq [OF ch] inv_defs ch)
qed

lemma inv_main_second:
  assumes "mpc st = MSecond w" "ch st \<noteq> []" "count_inv st" "local_inv st" "result_inv st"
  shows "count_inv (main_second w st) \<and> local_inv (main_second w st) \<and> result_inv (main_second w st)"
proof -
  have "ch st = [hd (ch st)]" using assms(1-3) by (cases "ch st") (auto simp: count_inv_def finished_def split: if_splits)
  then obtain m where ch: "ch st = [m]" by metis
  show ?thesis
    using assms by (auto simp: main_second_def ch inv_defs split: if_splits)
qed

lemma inv_main_finish:
  assumes "mpc st = MWinner w" "count_inv st" "local_inv st" "result_inv st"
  shows "count_inv (main_finish S mv w st) \<and> local_inv (main_finish S mv w st) \<and> result_inv (main_finish S mv w st)"
  using assms by (cases "rrT w") (auto simp: main_finish_def inv_defs split: if_splits)

lemma inv_main_aborted:
  assumes "count_inv st" "local_inv st" "result_inv st"
  shows "count_inv (main_aborted S e st) \<and> local_inv (main_aborted S e st) \<and> result_inv (main_aborted S e st)"
proof (intro conjI)
  show "count_inv (main_aborted S e st)"
    using assms(1) by (cases "mpc st") (simp_all add: count_inv_def main_aborted_def finished_def)
  show "local_inv (main_aborted S e st)" using assms(2) by (simp add: local_inv_def main_aborted_def)
  show "result_inv (main_aborted S e st)"
    using assms(3) by (simp add: result_inv_def main_aborted_def live_def)
qed

lemma race_inv_step:
  assumes "race_step S st st'" and "race_inv st"
  shows "race_inv st'"
proof -
  have i: "count_inv st" "local_inv st" "result_inv st" and s: "start_inv st'"
    using assms start_inv_step by (auto simp: race_inv_def)
  have "count_inv st' \<and> local_inv st' \<and> result_inv st'"
    using race_step_effect [OF assms(1)] inv_quiet [OF _ i] inv_remote_posts [OF _ i] inv_local_posts [OF _ i]
      inv_main_first [OF _ _ i] inv_main_second [OF _ _ i] inv_main_finish [OF _ i] inv_main_aborted [OF i]
    by blast
  then show ?thesis using s by (simp add: race_inv_def)
qed

lemma race_inv_start: "race_inv (race_start S tmpErr)"
  by (cases tmpErr) (simp_all add: race_inv_def race_start_def race_init_def start_inv_def inv_defs)

interpretation race: step_invariant "race_step S" "\<lambda>st. \<exists>tmpErr. st = race_start S tmpErr" race_inv for S
proof unfold_locales
  show "race_inv st" if "\<exists>tmpErr. st = race_start S tmpErr" for st
    using that race_inv_start by blast
qed (rule race_inv_step)

lemma race_inv_reachable: "race_reachable S st \<Longrightarrow> race_inv st"
  unfolding race_reachable_def using race.holds_reachable by blast

section \<open>Termination and progress\<close>

fun remote_rank :: "remote_pc \<Rightarrow> nat" where
  "remote_rank RStart = 3" | "remote_rank RExec = 2" | "remote_rank RDownload = 1" | "remote_rank RDone = 0"

fun local_rank :: "local_pc \<Rightarrow> nat" where
  "local_rank LWait = 2" | "local_rank LRun = 1" | "local_rank LDone = 0"

fun main_rank :: "main_pc \<Rightarrow> nat" where
  "main_rank MFirst = 3" | "main_rank (MSecond w) = 2" | "main_rank (MWinner w) = 1"
| "main_rank (MReturned w) = 0" | "main_rank MAborted = 0"

definition race_measure :: "race_state \<Rightarrow> nat" where
  "race_measure st = remote_rank (rpc st) + local_rank (lpc st) + main_rank (mpc st) +
     (if holdoff st then 1 else 0) + (if ctxDone st then 0 else 1)"

lemma race_step_measure: "race_step S st st' \<Longrightarrow> race_measure st' < race_measure st"
  by (erule race_step.cases) (auto simp: race_measure_def race_defs Let_def split: option.splits)

definition main_done :: "race_state \<Rightarrow> bool" where
  "main_done st \<longleftrightarrow> mpc st = MAborted \<or> (\<exists>w. mpc st = MReturned w)"

lemma remote_can_step: "rpc st \<noteq> RDone \<Longrightarrow> \<exists>st'. race_step S st st' \<and> ctxDone st' = ctxDone st"
proof (cases "rpc st")
  case RStart
  have "ctxDone (remote_start S None None st) = ctxDone st" by (simp add: remote_start_def)
  then show ?thesis using RemoteStart [OF RStart] by blast
next
  case RExec
  have "ctxDone (remote_executed S r st) = ctxDone st" for r
    by (simp add: remote_executed_def remote_checked_def send_def)
  then show ?thesis using RemoteExecuted [OF RExec] by blast
next
  case RDownload
  have "ctxDone (remote_downloaded S r st) = ctxDone st" for r by (simp add: remote_downloaded_def send_def)
  then show ?thesis using RemoteDownloaded [OF RDownload] by blast
qed simp

lemma local_can_step:
  assumes "start_inv st" "rpc st = RDone" "lpc st \<noteq> LDone"
  shows "\<exists>st'. race_step S st st' \<and> ctxDone st' = ctxDone st"
proof (cases "lpc st")
  case LWait
  have "lCh st \<or> holdoff st" using assms by (simp add: start_inv_def)
  moreover have "ctxDone (holdoff_over st) = ctxDone st" "ctxDone (local_started st) = ctxDone st"
    by (simp_all add: holdoff_over_def local_started_def)
  ultimately show ?thesis using LocalStart [OF LWait] Holdoff by blast
next
  case LRun
  have "ctxDone (local_finished S 0 None st) = ctxDone st" by (simp add: local_finished_def send_def)
  then show ?thesis using LocalFinish [OF LRun, of None S 0] by auto
qed (use assms in simp)

lemma race_progress:
  assumes "race_inv st" "\<not> main_done st"
  shows "\<exists>st'. race_step S st st' \<and> ctxDone st' = ctxDone st"
proof (cases "rpc st = RDone \<and> lpc st = LDone")
  case False
  then show ?thesis using remote_can_step local_can_step assms(1) unfolding race_inv_def by blast
next
  case True
  then have f: "finished st = 2" by (simp add: finished_def)
  show ?thesis
  proof (cases "mpc st")
    case MFirst
    then have "ch st \<noteq> []" using assms(1) f by (auto simp: race_inv_def count_inv_def)
    moreover have "ctxDone (main_first st) = ctxDone st" by (simp add: main_first_def Let_def)
    ultimately show ?thesis using MainFirst [OF MFirst] by blast
  next
    case (MSecond w)
    then have "ch st \<noteq> []" using assms(1) f by (auto simp: race_inv_def count_inv_def)
    moreover have "ctxDone (main_second w st) = ctxDone st" by (simp add: main_second_def Let_def)
    ultimately show ?thesis using MainSecond [OF MSecond] by blast
  next
    case (MWinner w)
    have "ctxDone (main_finish S None w st) = ctxDone st" by (simp add: main_finish_def)
    then show ?thesis using MainFinish [OF MWinner] by blast
  qed (use assms(2) in \<open>simp_all add: main_done_def\<close>)
qed

section \<open>Properties\<close>

text \<open>A run in which local execution fails to start before the remote result arrives, up to the
  download of the remote outputs.\<close>

definition local_error_first :: "command_sdk \<Rightarrow> go_err \<Rightarrow> race_state" where
  "local_error_first S e =
     \<lparr>rpc = RDownload, lpc = LDone, mpc = MSecond (canceled_msg (Some (NewLocalErrorResult S e)) False),
      holdoff = False, lCh = True, cDone = False, ctxDone = False, ch = [], ares = None,
      executedLocally = False, numFallbacks = 0\<rparr>"

lemma local_error_first_reachable:
  assumes "e \<noteq> ErrCanceled" and "IsOk S r"
  shows "race_reachable S (local_error_first S e)"
proof -
  let ?w = "canceled_msg (Some (NewLocalErrorResult S e)) False"
  let ?s1 = "race_init\<lparr>lCh := True, rpc := RExec\<rparr>"
  let ?s2 = "?s1\<lparr>lpc := LRun\<rparr>"
  let ?s3 = "?s1\<lparr>lpc := LDone, ch := [?w]\<rparr>"
  let ?s4 = "?s1\<lparr>lpc := LDone, mpc := MSecond ?w\<rparr>"
  have "race_step S race_init ?s1"
    using RemoteStart [of race_init S None None] by (simp add: race_init_def remote_start_def)
  moreover have "race_step S ?s1 ?s2"
    using LocalStart [of ?s1 S] by (simp add: race_init_def local_started_def)
  moreover have "race_step S ?s2 ?s3"
    using LocalFinish [of ?s2 "Some e" S 0] assms(1) by (simp add: race_init_def local_finished_def send_def)
  moreover have "race_step S ?s3 ?s4"
    using MainFirst [of ?s3 S] by (simp add: race_init_def main_first_def canceled_msg_def)
  moreover have "race_step S ?s4 (local_error_first S e)"
    using RemoteExecuted [of ?s4 S r] assms(2)
    by (simp add: race_init_def remote_executed_def remote_checked_def local_error_first_def)
  ultimately show ?thesis
    by (intro race_reachable_started) (meson converse_rtranclp_into_rtranclp rtranclp.rtrancl_refl)
qed

lemma local_error_first_ends:
  assumes "IsOk S r"
  shows "\<exists>st w. (race_step S)\<^sup>*\<^sup>* (remote_downloaded S r (local_error_first S e)) st \<and> mpc st = MReturned w \<and>
    ares st = Some (NewLocalErrorResult S e) \<and> \<not> ctxDone st"
proof -
  let ?w = "canceled_msg (Some (NewLocalErrorResult S e)) False"
  let ?s = "remote_downloaded S r (local_error_first S e)"
  let ?s1 = "main_second ?w ?s"
  let ?s2 = "main_finish S None ?w ?s1"
  have "race_step S ?s ?s1"
    using MainSecond [of ?s ?w S] assms by (simp add: remote_downloaded_def local_error_first_def send_def)
  moreover have "race_step S ?s1 ?s2"
    using MainFinish [of ?s1 ?w S None] assms
    by (simp add: remote_downloaded_def local_error_first_def send_def main_second_def)
  moreover have "mpc ?s2 = MReturned ?w" "ares ?s2 = Some (NewLocalErrorResult S e)" "\<not> ctxDone ?s2"
    using assms
    by (simp_all add: remote_downloaded_def local_error_first_def send_def main_second_def main_finish_def canceled_msg_def)
  ultimately show ?thesis by (meson converse_rtranclp_into_rtranclp rtranclp.rtrancl_refl)
qed

lemma race_outcome_facts:
  assumes "race_reachable S st" and "mpc st = MReturned w"
  shows "executedLocally st \<longleftrightarrow> rrT w = local"
    and "rrT w = local \<longrightarrow> ares st = rrRes w"
    and "rrT w \<noteq> local \<longrightarrow> rpc st = RDone \<and> lpc st = LDone"
    and "ares st = None \<longrightarrow> ctxDone st"
    and "length (ch st) \<le> 2"
proof -
  have inv: "count_inv st" "local_inv st" "result_inv st"
    using race_inv_reachable [OF assms(1)] by (auto simp: race_inv_def)
  have n: "rrT w \<noteq> local \<Longrightarrow> ch st = [] \<and> finished st = 2" using inv(1) assms(2) by (simp add: count_inv_def)
  show e: "executedLocally st \<longleftrightarrow> rrT w = local"
  proof (cases "rrT w = local")
    case True
    then show ?thesis using inv(2) assms(2) by (auto simp: local_inv_def live_def)
  next
    case False
    then show ?thesis using inv(2) assms(2) n by (auto simp: local_inv_def live_def)
  qed
  show "rrT w = local \<longrightarrow> ares st = rrRes w" using inv(2) assms(2) by (simp add: local_inv_def live_def)
  show "rrT w \<noteq> local \<longrightarrow> rpc st = RDone \<and> lpc st = LDone"
    using n by (auto simp: finished_def split: if_splits)
  show "ares st = None \<longrightarrow> ctxDone st" using inv(3) assms(2) by (simp add: result_inv_def)
  show "length (ch st) \<le> 2" using inv(1) assms(2) by (simp add: count_inv_def finished_def split: if_splits)
qed


text \<open>C4: When the race returns, the action was executed locally exactly when the winner is the
  local result, and then the result of the action is that local result. Any other winner is
  announced only after both goroutines ended, so remote outputs are never moved over those of
  a local run. A missing result means that the context of the action was done.\<close>

theorem race_outcome:
  assumes "race_reachable S st" and "mpc st = MReturned w"
  shows "(executedLocally st \<longleftrightarrow> rrT w = local) \<and>
    (rrT w = local \<longrightarrow> ares st = rrRes w) \<and>
    (rrT w \<noteq> local \<longrightarrow> rpc st = RDone \<and> lpc st = LDone) \<and>
    (ares st = None \<longrightarrow> ctxDone st) \<and>
    (length (ch st) \<le> 2)"
  using race_outcome_facts [OF assms] by (intro conjI)

theorem race_outcome_witness:
  "\<exists>st w. race_reachable demo_sdk st \<and> mpc st = MReturned w \<and> (executedLocally st \<longleftrightarrow> rrT w = local)"
proof -
  let ?r = "NewResultFromExitCode demo_sdk 0" and ?e = "ErrOther ''exec''"
  have ok: "IsOk demo_sdk ?r" by (simp add: demo_sdk_def)
  obtain st w where st: "(race_step demo_sdk)\<^sup>*\<^sup>* (remote_downloaded demo_sdk ?r (local_error_first demo_sdk ?e)) st"
    "mpc st = MReturned w"
    using local_error_first_ends [OF ok] by blast
  have "race_step demo_sdk (local_error_first demo_sdk ?e) (remote_downloaded demo_sdk ?r (local_error_first demo_sdk ?e))"
    by (rule RemoteDownloaded) (simp add: local_error_first_def)
  then have "(race_step demo_sdk)\<^sup>*\<^sup>* (local_error_first demo_sdk ?e) st"
    using st(1) by (rule converse_rtranclp_into_rtranclp)
  moreover have "race_reachable demo_sdk (local_error_first demo_sdk ?e)"
    using local_error_first_reachable [of ?e, OF _ ok] by simp
  ultimately have "race_reachable demo_sdk st" unfolding race_reachable_def by (meson rtranclp_trans)
  then show ?thesis using race_outcome [THEN conjunct1] st(2) by blast
qed

lemma race_terminates_facts:
  assumes "race_reachable S st"
  shows "race_step S st st' \<Longrightarrow> race_measure st' < race_measure st"
    and "\<not> main_done st \<Longrightarrow> \<exists>st'. race_step S st st' \<and> ctxDone st' = ctxDone st"
    and "\<nexists>st'. race_step S st st' \<Longrightarrow> main_done st \<and> rpc st = RDone"
proof -
  have inv: "race_inv st" using assms by (rule race_inv_reachable)
  show "race_step S st st' \<Longrightarrow> race_measure st' < race_measure st" by (rule race_step_measure)
  show p: "\<not> main_done st \<Longrightarrow> \<exists>st'. race_step S st st' \<and> ctxDone st' = ctxDone st"
    using inv by (rule race_progress)
  show "main_done st \<and> rpc st = RDone" if "\<nexists>st'. race_step S st st'"
    using that p remote_can_step by blast
qed


text \<open>C24: Every race ends: each step lowers a measure, whatever the client, the pool and the
  scheduler do, and in a state without a further step the main goroutine has returned. No
  cancellation is needed for that, and no goroutine is left blocked on the channel.\<close>

theorem race_terminates:
  assumes "race_reachable S st"
  shows "(\<forall>st'. race_step S st st' \<longrightarrow> race_measure st' < race_measure st) \<and>
    (\<not> main_done st \<longrightarrow> (\<exists>st'. race_step S st st' \<and> ctxDone st' = ctxDone st)) \<and>
    ((\<nexists>st'. race_step S st st') \<longrightarrow> main_done st \<and> rpc st = RDone)"
  using race_terminates_facts [OF assms] by blast

theorem race_terminates_witness:
  "\<exists>st'. race_step demo_sdk race_init st' \<and> ctxDone st' = ctxDone race_init"
proof -
  have "race_reachable demo_sdk race_init" by (simp add: race_reachable_started)
  moreover have "\<not> main_done race_init" by (simp add: main_done_def race_init_def)
  ultimately show ?thesis using race_terminates [of demo_sdk race_init] by blast
qed

text \<open>A remote success can be lost. If local execution fails with an unexpected error before
  the remote result arrives, the remote goroutine still downloads and reports its success, but
  the race returns the local error: the main goroutine replaces the cancelled winner only by a
  local result.\<close>

theorem race_loses_remote_success:
  assumes "e \<noteq> ErrCanceled" and "IsOk S r"
  shows "\<exists>s st w. race_reachable S s \<and> rpc s = RDownload \<and> \<not> cDone s \<and>
    (race_step S)\<^sup>*\<^sup>* (remote_downloaded S r s) st \<and>
    mpc st = MReturned w \<and> ares st = Some (NewLocalErrorResult S e) \<and> \<not> ctxDone st"
proof -
  have "rpc (local_error_first S e) = RDownload" "\<not> cDone (local_error_first S e)"
    by (simp_all add: local_error_first_def)
  then show ?thesis
    using local_error_first_reachable [OF assms] local_error_first_ends [OF assms(2), of e] by blast
qed

theorem race_loses_remote_success_witness:
  "\<exists>s st w. race_reachable demo_sdk s \<and> rpc s = RDownload \<and> \<not> cDone s \<and>
    (race_step demo_sdk)\<^sup>*\<^sup>* (remote_downloaded demo_sdk (NewResultFromExitCode demo_sdk 0) s) st \<and>
    mpc st = MReturned w \<and> ares st = Some (NewLocalErrorResult demo_sdk (ErrOther ''exec'')) \<and> \<not> ctxDone st"
  by (rule race_loses_remote_success) (simp_all add: demo_sdk_def)

end
