(* ===== verification/Execution.thy ===== *)
theory Execution
  imports Action Race InputProcessor "HOL-Library.Sublist"
begin

text \<open>
  How reproxy executes one action (\<open>internal/pkg/reproxy/server.go\<close>: \<open>runAction\<close>, \<open>runLERC\<close>,
  \<open>runRacing\<close>, \<open>runRemote\<close>, \<open>populateCommandIO\<close>; \<open>action.go\<close>: \<open>runLocal\<close>, \<open>runRemote\<close>,
  \<open>getCachedResult\<close>, \<open>cacheLocal\<close>, \<open>populateCommandIO\<close>, \<open>addDepsFileOutput\<close>).
  The calls an action makes to the local pool, the remote execution client, the input processor
  and the disk are recorded in order; what each call answers is a function of the calls before
  it, so every sequence of answers is covered. \<^const>\<open>None\<close> is a nil dereference or another
  run-time panic. Log messages and event times are left out.
\<close>

section \<open>State\<close>

datatype call =
  PoolRunCall | NewContextCall | GetCachedCall | ExecuteCall | FlattenCall | DownloadCall "string list"
| VirtualDownloadCall | ProcessInputsCall | TmpDirCall | MoveCall | VerifyDepsCall | WriteDepsCall
| UpdateCacheCall | StashCall | RestoreCall | RemoveOutputsCall | ClearCacheCall | RaceCall
| ComputeOutputsCall | UploadCall

text \<open>Recorded standard output and standard error.\<close>

type_synonym outerr = "string \<times> string"

definition oe_add :: "outerr \<Rightarrow> outerr \<Rightarrow> outerr" where
  "oe_add x y = (fst x @ fst y, snd x @ snd y)"

record action =
  aExecutionID :: string
  aExecRoot :: string
  aWorkingDir :: string
  aRemoteWorkingDir :: string
  aArgs :: "string list"
  aOutputFiles :: "string list"
  aOutputDirs :: "string list"
  aHasInputSpec :: bool
  aInputs :: "string list"
  aInputEnv :: "string \<rightharpoonup> string"
  aCmdEnvironment :: "string list"
  aExecStrategy :: ExecStrategy
  aCompare :: bool
  aNumLocalReruns :: int
  aNumRemoteReruns :: int
  aAtomicDownloads :: bool
  aDownloadRegex :: string
  aROpt :: "RemoteExecutionOptions option"
  aCanonicalizeWorkingDir :: bool
  aPlatform :: "(string \<times> string) list"
  aToolchainInputs :: "string list"
  aLocalWrapper :: string
  aLocalAcceptCached :: bool
  aLocalDoNotCache :: bool
  aDFile :: string
  aDepsFile :: string
  aExecContext :: bool
  aRes :: "Result option"
  aOE :: outerr
  aFallbackOE :: outerr
  aFallbackExitCode :: int
  aFallbackStatus :: ResultStatus
  aExecutedLocally :: bool
  aLocalResult :: "Result option"
  aRemoteMetadata :: "Result option option"
  aActionDigest :: string
  aLocalReruns :: "Rerun list"
  aRemoteReruns :: "Rerun list"
  aVerification :: "Verification option"
  aCacheHit :: bool
  aValidCacheHit :: bool
  aUpdatedCache :: bool
  aCalls :: "call list"

text \<open>What input processing returns.\<close>

record CommandIO =
  cioOutputFiles :: "string list"
  cioOutputDirs :: "string list"
  cioDFile :: string
  cioShallow :: bool

text \<open>The answers of the environment.\<close>

record env =
  eSdk :: command_sdk
  eDefaults :: ExecutionOptions
  eCompile :: "string \<Rightarrow> (string \<Rightarrow> bool) option"
  eDisk :: "call list \<Rightarrow> string \<Rightarrow> disk_file"
  eOrd :: "string list \<Rightarrow> string list"
  ePoolRun :: "call list \<Rightarrow> int \<times> go_err option"
  ePoolOut :: "call list \<Rightarrow> outerr"
  eRemoteOut :: "call list \<Rightarrow> outerr"
  eNewContext :: "call list \<Rightarrow> go_err option"
  eGetCached :: "call list \<Rightarrow> Result option"
  eExecute :: "call list \<Rightarrow> Result"
  eFlatten :: "call list \<Rightarrow> (go_err, (string \<times> string) list) res"
  eDownload :: "call list \<Rightarrow> Result"
  eTmpDir :: "call list \<Rightarrow> go_err option"
  eMove :: "call list \<Rightarrow> go_err option"
  eProcessInputs :: "call list \<Rightarrow> (go_err, CommandIO) res"
  eVerifyDeps :: "call list \<Rightarrow> bool"
  eWriteDeps :: "call list \<Rightarrow> go_err option"
  eUpdateCache :: "call list \<Rightarrow> Result"
  eRace :: "call list \<Rightarrow> race_state \<times> bool"
  eTimedOut :: "call list \<Rightarrow> bool"
  eCleanIncludePaths :: bool
  eErrorText :: "go_err \<Rightarrow> string"
  eStatusText :: "ResultStatus \<Rightarrow> string"
  eCacheMiss :: bool
  eActionDigest :: "call list \<Rightarrow> string"
  eRemoteDigests :: "call list \<Rightarrow> (string \<times> string) list \<times> (string \<times> string) list"
  eLocalOutputs :: "call list \<Rightarrow> ((string \<times> string) list \<times> (string \<times> string) list) option"

definition did :: "call \<Rightarrow> action \<Rightarrow> action" where
  "did c a = a\<lparr>aCalls := aCalls a @ [c]\<rparr>"

section \<open>Local and remote execution\<close>

text \<open>\<open>action.runLocal\<close>. The environment map is built only when the command has an input spec.
  Without a wrapper it goes into a duplicate of the command; with one, the copy of the command
  shares the input spec, so that the map ends up in the input spec of the action too.\<close>

definition pool_result :: "command_sdk \<Rightarrow> int \<times> go_err option \<Rightarrow> Result" where
  "pool_result S ce =
     (if fst ce = 0 \<and> snd ce \<noteq> None then NewLocalErrorResult S (the (snd ce)) else NewResultFromExitCode S (fst ce))"

definition run_in_pool :: "env \<Rightarrow> action \<Rightarrow> action" where
  "run_in_pool E a =
     (let res = pool_result (eSdk E) (ePoolRun E (aCalls a)) in
      did PoolRunCall (a\<lparr>aRes := Some res, aOE := oe_add (aOE a) (ePoolOut E (aCalls a)),
        aExecutedLocally := True, aLocalResult := Some res\<rparr>))"

definition runLocal :: "env \<Rightarrow> action \<Rightarrow> action option" where
  "runLocal E a =
     (if \<not> aHasInputSpec a then Some (run_in_pool E a)
      else
        (case sliceToMap (aCmdEnvironment a) ''='' of
           None \<Rightarrow> None
         | Some m \<Rightarrow> Some (run_in_pool E (if aLocalWrapper a \<noteq> [] then a\<lparr>aInputEnv := m\<rparr> else a))))"

text \<open>The deferred update of the record at the end of \<open>action.runRemote\<close>.\<close>

definition remote_finish :: "Result \<Rightarrow> action \<Rightarrow> action" where
  "remote_finish res a = a\<lparr>aRemoteMetadata := Some (Some res), aRes := Some res\<rparr>"

text \<open>Downloading the outputs of an ok result \<open>r\<close> and moving them into place.\<close>

definition remote_download :: "env \<Rightarrow> Result \<Rightarrow> action \<Rightarrow> action" where
  "remote_download E r a =
     (let opts = execOptionsFromProto (eDefaults E) (aROpt a);
          a1 = did FlattenCall a in
      case eFlatten E (aCalls a) of
        Ok outs \<Rightarrow>
          (let outs1 = excludeOutputsViaFilter (eCompile E) (DownloadOutputs opts) (aDownloadRegex a) outs;
               outs2 = (if DownloadOutputs opts \<and> PreserveUnchangedOutputMtime opts
                        then excludeUnchangedOutputs (eDisk E (aCalls a1)) (aWorkingDir a) (aExecRoot a) outs1
                        else outs1);
               a2 = did (DownloadCall (map fst outs2)) a1;
               r2 = eDownload E (aCalls a1) in
           if rErr r2 \<noteq> None then remote_finish r2 a2
           else if aAtomicDownloads a
           then (case eMove E (aCalls a2) of
                   Some e \<Rightarrow> remote_finish (NewLocalErrorResult (eSdk E) e) (did MoveCall a2)
                 | None \<Rightarrow> remote_finish r2 (did MoveCall a2))
           else remote_finish r2 a2)
      | _ \<Rightarrow> remote_finish r a1)"

definition remote_run :: "env \<Rightarrow> action \<Rightarrow> action" where
  "remote_run E a =
     (let a1 = did NewContextCall a in
      case eNewContext E (aCalls a) of
        Some e \<Rightarrow> remote_finish (NewLocalErrorResult (eSdk E) e) a1
      | None \<Rightarrow>
          (let a2 = (did GetCachedCall a1)\<lparr>aOE := oe_add (aOE a1) (eRemoteOut E (aCalls a1))\<rparr>;
               (r, a3) = (case eGetCached E (aCalls a1) of
                            Some r \<Rightarrow> (r, a2)
                          | None \<Rightarrow> (eExecute E (aCalls a2),
                                     (did ExecuteCall a2)\<lparr>aOE := oe_add (aOE a2) (eRemoteOut E (aCalls a2))\<rparr>)) in
           if \<not> IsOk (eSdk E) r then remote_finish r a3 else remote_download E r a3))"

text \<open>The deferred function also keeps the digest of the action.\<close>

definition record_digest :: "env \<Rightarrow> action \<Rightarrow> action" where
  "record_digest E a = a\<lparr>aActionDigest := eActionDigest E (aCalls a)\<rparr>"

definition action_runRemote :: "env \<Rightarrow> action \<Rightarrow> action" where
  "action_runRemote E a =
     (if aAtomicDownloads a
      then (case eTmpDir E (aCalls a) of
              Some e \<Rightarrow> (did TmpDirCall a)\<lparr>aRes := Some (NewLocalErrorResult (eSdk E) e)\<rparr>
            | None \<Rightarrow> record_digest E (remote_run E (did TmpDirCall a)))
      else record_digest E (remote_run E a))"

section \<open>Local execution with remote cache\<close>

definition cachedResultValid :: "env \<Rightarrow> action \<Rightarrow> action \<times> bool" where
  "cachedResultValid E a =
     (if aDFile a = [] then (a, True) else (did VerifyDepsCall a, eVerifyDeps E (aCalls a)))"

definition getCachedResult :: "env \<Rightarrow> action \<Rightarrow> action" where
  "getCachedResult E a =
     (if \<not> aExecContext a then a
      else
        (let r = eGetCached E (aCalls a);
             a1 = (did GetCachedCall a)\<lparr>aRemoteMetadata := Some None, aRes := r, aCacheHit := False,
                    aOE := oe_add (aOE a) (eRemoteOut E (aCalls a))\<rparr> in
         case r of
           None \<Rightarrow> a1
         | Some res \<Rightarrow>
             if \<not> IsOk (eSdk E) res then a1
             else
               (let a2 = a1\<lparr>aCacheHit := True, aRemoteMetadata := Some (Some res)\<rparr>;
                    (a3, valid) = cachedResultValid E a2 in
                if \<not> valid then a3\<lparr>aRes := Some (NewLocalErrorResult (eSdk E) (ErrOther ''failed deps validation''))\<rparr>
                else
                  (let a4 = (did FlattenCall a3)\<lparr>aValidCacheHit := True\<rparr>;
                       outs = (case eFlatten E (aCalls a3) of Ok outs \<Rightarrow> outs | _ \<Rightarrow> []);
                       opts = execOptionsFromProto (eDefaults E) (aROpt a) in
                   did (DownloadCall (map fst
                     (excludeOutputsViaFilter (eCompile E) (DownloadOutputs opts) (aDownloadRegex a) outs))) a4))))"

definition generateDepsFile :: "env \<Rightarrow> action \<Rightarrow> action \<times> go_err option" where
  "generateDepsFile E a = (if aDFile a \<noteq> [] then (did WriteDepsCall a, eWriteDeps E (aCalls a)) else (a, None))"

text \<open>\<open>cacheLocal\<close> reads \<open>a.res\<close>, which must not be nil.\<close>

definition cacheLocal :: "env \<Rightarrow> action \<Rightarrow> action option" where
  "cacheLocal E a =
     (if \<not> aExecContext a then Some a
      else case aRes a of
        None \<Rightarrow> None
      | Some res \<Rightarrow>
          if \<not> IsOk (eSdk E) res \<or> aLocalDoNotCache a then Some a
          else
            (case generateDepsFile E a of
               (a1, Some e) \<Rightarrow> Some a1
             | (a1, None) \<Rightarrow>
                 (let a2 = did ClearCacheCall a1; r = eUpdateCache E (aCalls a2); a3 = did UpdateCacheCall a2 in
                  if rErr r \<noteq> None then Some a3
                  else Some (a3\<lparr>aRemoteMetadata :=
                               Some (case aRemoteMetadata a3 of None \<Rightarrow> None | Some rm \<Rightarrow> rm),
                             aUpdatedCache := True\<rparr>))))"

section \<open>Input processing\<close>

definition add_outputs :: "env \<Rightarrow> CommandIO \<Rightarrow> action \<Rightarrow> action" where
  "add_outputs E cio a =
     (let to_wd = ListRelToWorkingDir (aExecRoot a) (aWorkingDir a);
          dFile = (if cioShallow cio then cioDFile cio else aDFile a) in
      a\<lparr>aHasInputSpec := True,
        aOutputFiles := to_wd (dedup (eOrd E) (aOutputFiles a @ cioOutputFiles cio)),
        aOutputDirs := to_wd (dedup (eOrd E) (aOutputDirs a @ cioOutputDirs cio)),
        aDFile := dFile,
        aDepsFile := (if cioShallow cio \<and> dFile \<noteq> [] then dFile @ ''.deps'' else aDepsFile a)\<rparr>)"

text \<open>The result is the action and the error; a panic of the input processor ends the process.\<close>

definition action_populateCommandIO :: "env \<Rightarrow> action \<Rightarrow> (action \<times> go_err option) option" where
  "action_populateCommandIO E a =
     (case eProcessInputs E (aCalls a) of
        Err e \<Rightarrow> Some ((did ProcessInputsCall a)\<lparr>aRes := Some (NewLocalErrorResult (eSdk E) e)\<rparr>, Some e)
      | Ok cio \<Rightarrow> Some (add_outputs E cio (did ProcessInputsCall a), None)
      | Panic \<Rightarrow> None)"

definition addDepsFileOutput :: "action \<Rightarrow> action" where
  "addDepsFileOutput a =
     (if aDepsFile a \<noteq> []
      then a\<lparr>aOutputFiles := aOutputFiles a @ [RelToWorkingDir (aExecRoot a) (aWorkingDir a) (aDepsFile a)]\<rparr>
      else a)"

section \<open>The server\<close>

record server =
  RemoteDisabled :: bool
  sFailBuild :: bool
  sFailBuildErr :: "go_err option"
  sNumActions :: nat
  sNumFallbacks :: nat
  sNumIPTimeouts :: nat

type_synonym run = "(server \<times> action) option"

definition populateCommandIO :: "env \<Rightarrow> server \<Rightarrow> action \<Rightarrow> (server \<times> action \<times> go_err option) option" where
  "populateCommandIO E s a =
     (case action_populateCommandIO E a of
        None \<Rightarrow> None
      | Some (a1, err) \<Rightarrow>
          Some ((if err = Some ErrIPTimeout then s\<lparr>sNumIPTimeouts := sNumIPTimeouts s + 1\<rparr> else s), a1, err))"

definition local_then_cache :: "env \<Rightarrow> server \<Rightarrow> action \<Rightarrow> run" where
  "local_then_cache E s a =
     Option.bind (runLocal E a) (\<lambda>a1. map_option (Pair s) (cacheLocal E a1))"

text \<open>Writing \<open>a.rOpt.DownloadOutputs\<close> needs the options to be present.\<close>

definition lerc_options :: "action \<Rightarrow> action option" where
  "lerc_options a =
     (if aDownloadRegex a = [] then Some a
      else map_option (\<lambda>r. a\<lparr>aROpt := Some (r\<lparr>roDownloadOutputs := False\<rparr>)\<rparr>) (aROpt a))"

definition createExecContext :: "env \<Rightarrow> action \<Rightarrow> action \<times> go_err option" where
  "createExecContext E a =
     (if aExecContext a then (a, None)
      else case eNewContext E (aCalls a) of
             Some e \<Rightarrow> (did NewContextCall a, Some e)
           | None \<Rightarrow> ((did NewContextCall a)\<lparr>aExecContext := True\<rparr>, None))"

definition lerc_run :: "env \<Rightarrow> server \<Rightarrow> action \<Rightarrow> run" where
  "lerc_run E s a =
     (if \<not> aLocalAcceptCached a then local_then_cache E s a
      else
        (let a1 = getCachedResult E a in
         if (case aRes a1 of None \<Rightarrow> True | Some r \<Rightarrow> \<not> IsOk (eSdk E) r) then local_then_cache E s a1
         else Some (s, a1)))"

definition runLERC :: "env \<Rightarrow> server \<Rightarrow> action \<Rightarrow> run" where
  "runLERC E s a =
     Option.bind (lerc_options a) (\<lambda>a0.
       case createExecContext E a0 of
         (a1, Some e) \<Rightarrow> Some (s, a1\<lparr>aRes := Some (NewLocalErrorResult (eSdk E) e)\<rparr>)
       | (a1, None) \<Rightarrow>
           (case populateCommandIO E s a1 of
              None \<Rightarrow> None
            | Some (s1, a2, Some e) \<Rightarrow> Some (s1, a2)
            | Some (s1, a2, None) \<Rightarrow> lerc_run E s1 (addDepsFileOutput a2)))"

definition clean_args :: "env \<Rightarrow> action \<Rightarrow> action option" where
  "clean_args E a =
     (if eCleanIncludePaths E
      then map_option (\<lambda>as. a\<lparr>aArgs := as\<rparr>) (cleanIncludePaths (aExecRoot a) (aWorkingDir a) (aArgs a))
      else Some a)"

text \<open>The steps of the race are the subject of the theory Race. Which state it ends in, and whether its local
  goroutine got to run, is an answer of the environment; the result of the action, whether it
  executed locally and the fallbacks counted are read off that state. The local goroutine turns the environment
  strings into a map before it runs the command, and may panic there.\<close>

definition runRacing :: "env \<Rightarrow> server \<Rightarrow> action \<Rightarrow> run" where
  "runRacing E s a =
     Option.bind (clean_args E a) (\<lambda>a0.
       case populateCommandIO E s a0 of
         None \<Rightarrow> None
       | Some (s1, a1, Some e) \<Rightarrow> Some (s1, a1)
       | Some (s1, a1, None) \<Rightarrow>
           (let (st, ran) = eRace E (aCalls a1);
                a2 = did RaceCall (a1\<lparr>aRes := ares st, aExecutedLocally := executedLocally st\<rparr>) in
            if ran \<and> aCmdEnvironment a1 \<noteq> [] \<and> sliceToMap (aCmdEnvironment a1) ''='' = None then None
            else Some (s1\<lparr>sNumFallbacks := sNumFallbacks s1 + numFallbacks st\<rparr>,
                  if aRes a2 = None
                  then a2\<lparr>aRes := Some (NewLocalErrorResult (eSdk E) (ErrOther ''racing did not produce a result''))\<rparr>
                  else a2)))"

text \<open>The deferred timeout handling of \<open>Server.runRemote\<close>.\<close>

definition timeout_result :: "env \<Rightarrow> Result" where
  "timeout_result E = \<lparr>rExitCode = RemoteErrorExitCode (eSdk E) + 14, rStatus = TIMEOUT, rErr = Some ErrReclientTimeout\<rparr>"

definition remote_deferred :: "env \<Rightarrow> action \<Rightarrow> action option" where
  "remote_deferred E a =
     (case aRes a of
        None \<Rightarrow> None
      | Some r \<Rightarrow>
          if rErr r = Some ErrReclientTimeout \<or> rErr r = Some ErrCanceled \<and> eTimedOut E (aCalls a)
          then (case aRemoteMetadata a of
                  None \<Rightarrow> None
                | Some _ \<Rightarrow> Some (a\<lparr>aRes := Some (timeout_result E), aRemoteMetadata := Some (Some (timeout_result E))\<rparr>))
          else Some a)"

definition runRemote :: "env \<Rightarrow> server \<Rightarrow> action \<Rightarrow> run" where
  "runRemote E s a =
     Option.bind (clean_args E a) (\<lambda>a0.
       case populateCommandIO E s a0 of
         None \<Rightarrow> None
       | Some (s1, a1, Some e) \<Rightarrow> map_option (Pair s1) (remote_deferred E a1)
       | Some (s1, a1, None) \<Rightarrow>
           (let a2 = (if aCompare a1 then did StashCall a1 else a1);
                a3 = action_runRemote E a2 in
            case aRes a3 of
              None \<Rightarrow> None
            | Some r \<Rightarrow>
                if \<not> IsOk (eSdk E) r \<or> \<not> aCompare a3 then map_option (Pair s1) (remote_deferred E a3)
                else map_option (Pair s1) (remote_deferred E (did RestoreCall (did RemoveOutputsCall a3)))))"

section \<open>Execution strategies\<close>

definition local_fallback :: "env \<Rightarrow> server \<Rightarrow> action \<Rightarrow> run" where
  "local_fallback E s a = map_option (Pair (s\<lparr>sNumFallbacks := sNumFallbacks s + 1\<rparr>)) (runLocal E a)"

definition run_strategy :: "env \<Rightarrow> server \<Rightarrow> action \<Rightarrow> run" where
  "run_strategy E s a =
     (case aExecStrategy a of
        LOCAL \<Rightarrow>
          (case runLERC E s (did VirtualDownloadCall a) of
             None \<Rightarrow> None
           | Some (s1, a1) \<Rightarrow>
               (case aRes a1 of
                  None \<Rightarrow> None
                | Some r \<Rightarrow>
                    if \<not> IsOk (eSdk E) r \<and> rStatus r \<noteq> NON_ZERO_EXIT then local_fallback E s1 a1
                    else Some (s1, a1)))
      | REMOTE \<Rightarrow> runRemote E s a
      | REMOTE_LOCAL_FALLBACK \<Rightarrow>
          (case runRemote E s a of
             None \<Rightarrow> None
           | Some (s1, a1) \<Rightarrow>
               (case aRes a1 of
                  None \<Rightarrow> None
                | Some r \<Rightarrow>
                    if \<not> IsOk (eSdk E) r
                    then local_fallback E s1
                           (did VirtualDownloadCall
                             (a1\<lparr>aFallbackOE := aOE a1, aFallbackExitCode := rExitCode r,
                                 aFallbackStatus := rStatus r, aOE := ([], [])\<rparr>))
                    else Some (s1, a1)))
      | RACING \<Rightarrow> runRacing E s a
      | UNSPECIFIED \<Rightarrow>
          Some (s, a\<lparr>aRes := Some (NewLocalErrorResult (eSdk E) (ErrOther ''invalid execution strategy''))\<rparr>))"

definition runAction :: "env \<Rightarrow> server \<Rightarrow> action \<Rightarrow> run" where
  "runAction E s a =
     (if sFailBuild s
      then (case sFailBuildErr s of
              None \<Rightarrow> Some (s, a)
            | Some e \<Rightarrow> Some (s, a\<lparr>aRes := Some (NewLocalErrorResult (eSdk E) e), aOE := oe_add (aOE a) (eErrorText E e, [])\<rparr>))
      else
        map_option (\<lambda>(s1, a1). (s1\<lparr>sNumActions := sNumActions s1 + 1\<rparr>, a1))
          (if RemoteDisabled s then map_option (Pair s) (runLocal E a)
           else
             map_option (\<lambda>(s1, a1). (s1, did ClearCacheCall a1))
               (run_strategy E s
                 (if aCanonicalizeWorkingDir a
                  then a\<lparr>aRemoteWorkingDir := toRemoteWorkingDir (aWorkingDir a)\<rparr> else a))))"

section \<open>Frame facts\<close>

definition n_calls :: "call \<Rightarrow> action \<Rightarrow> nat" where
  "n_calls c a = count_list (aCalls a) c"

lemma did_simps [simp]:
  "aCalls (did c a) = aCalls a @ [c]" "aRes (did c a) = aRes a" "aExecutedLocally (did c a) = aExecutedLocally a"
  "aRemoteMetadata (did c a) = aRemoteMetadata a" "aCompare (did c a) = aCompare a"
  "aExecContext (did c a) = aExecContext a" "aHasInputSpec (did c a) = aHasInputSpec a"
  "aLocalDoNotCache (did c a) = aLocalDoNotCache a" "aDFile (did c a) = aDFile a"
  "aCmdEnvironment (did c a) = aCmdEnvironment a" "aROpt (did c a) = aROpt a" "aDownloadRegex (did c a) = aDownloadRegex a"
  "aLocalAcceptCached (did c a) = aLocalAcceptCached a"
  by (simp_all add: did_def)

lemma count_list_snoc [simp]: "count_list (xs @ [y]) x = count_list xs x + (if y = x then 1 else 0)"
  by (induction xs) auto

lemma runLocal_calls:
  "runLocal E a = Some a' \<Longrightarrow>
   aCalls a' = aCalls a @ [PoolRunCall] \<and> aExecutedLocally a' \<and>
   aRes a' = Some (pool_result (eSdk E) (ePoolRun E (aCalls a))) \<and> aExecContext a' = aExecContext a \<and>
   aLocalDoNotCache a' = aLocalDoNotCache a \<and> aRemoteMetadata a' = aRemoteMetadata a"
  by (auto simp: runLocal_def run_in_pool_def Let_def split: if_splits option.splits)

lemma n_calls_did [simp]: "n_calls c (did d a) = n_calls c a + (if d = c then 1 else 0)"
  by (simp add: n_calls_def)

lemma n_calls_update [simp]:
  "n_calls c (a\<lparr>aRes := x0\<rparr>) = n_calls c a"
  "n_calls c (a\<lparr>aOE := x1\<rparr>) = n_calls c a"
  "n_calls c (a\<lparr>aRemoteMetadata := x2\<rparr>) = n_calls c a"
  "n_calls c (a\<lparr>aExecutedLocally := x3\<rparr>) = n_calls c a"
  "n_calls c (a\<lparr>aLocalResult := x4\<rparr>) = n_calls c a"
  "n_calls c (a\<lparr>aInputEnv := x5\<rparr>) = n_calls c a"
  "n_calls c (a\<lparr>aHasInputSpec := x6\<rparr>) = n_calls c a"
  "n_calls c (a\<lparr>aCacheHit := x7\<rparr>) = n_calls c a"
  "n_calls c (a\<lparr>aValidCacheHit := x8\<rparr>) = n_calls c a"
  "n_calls c (a\<lparr>aUpdatedCache := x9\<rparr>) = n_calls c a"
  "n_calls c (a\<lparr>aExecContext := x10\<rparr>) = n_calls c a"
  "n_calls c (a\<lparr>aROpt := x11\<rparr>) = n_calls c a"
  "n_calls c (a\<lparr>aArgs := x12\<rparr>) = n_calls c a"
  "n_calls c (a\<lparr>aOutputFiles := x13\<rparr>) = n_calls c a"
  "n_calls c (a\<lparr>aFallbackOE := x14\<rparr>) = n_calls c a"
  "n_calls c (a\<lparr>aRemoteWorkingDir := x15\<rparr>) = n_calls c a"
  by (simp_all add: n_calls_def)

lemma n_calls_remote_finish [simp]: "n_calls c (remote_finish r a) = n_calls c a"
  by (simp add: remote_finish_def)

lemma record_digest_simps [simp]:
  "aCalls (record_digest E a) = aCalls a" "aRes (record_digest E a) = aRes a"
  "aRemoteMetadata (record_digest E a) = aRemoteMetadata a" "aExecutedLocally (record_digest E a) = aExecutedLocally a"
  "aCompare (record_digest E a) = aCompare a" "n_calls c (record_digest E a) = n_calls c a"
  "aCmdEnvironment (record_digest E a) = aCmdEnvironment a" "aHasInputSpec (record_digest E a) = aHasInputSpec a"
  by (simp_all add: record_digest_def n_calls_def)

lemma remote_finish_simps [simp]:
  "aCalls (remote_finish r a) = aCalls a" "aRes (remote_finish r a) = Some r"
  "aRemoteMetadata (remote_finish r a) = Some (Some r)" "aExecutedLocally (remote_finish r a) = aExecutedLocally a"
  "aCompare (remote_finish r a) = aCompare a"
  by (simp_all add: remote_finish_def)

lemma remote_download_calls:
  "c \<notin> {FlattenCall, MoveCall} \<Longrightarrow> (\<And>ps. c \<noteq> DownloadCall ps) \<Longrightarrow> n_calls c (remote_download E r a) = n_calls c a"
  "\<exists>r'. aRes (remote_download E r a) = Some r'"
  "aExecutedLocally (remote_download E r a) = aExecutedLocally a" "aCompare (remote_download E r a) = aCompare a"
  by (auto simp: remote_download_def Let_def split: res.splits option.splits)

text \<open>When the outputs of an ok result cannot be listed, the result stays ok and nothing is
  downloaded.\<close>

lemma remote_download_unlisted:
  "eFlatten E (aCalls a) = Err e \<Longrightarrow> aRes (remote_download E r a) = Some r \<and> aCalls (remote_download E r a) = aCalls a @ [FlattenCall]"
  by (simp add: remote_download_def Let_def)

text \<open>The download after a valid cache hit does not influence the result.\<close>

lemma getCachedResult_ignores_download: "getCachedResult (E\<lparr>eDownload := d\<rparr>) a = getCachedResult E a"
  by (auto simp: getCachedResult_def cachedResultValid_def Let_def split: option.splits prod.splits)

lemma remote_run_calls:
  "n_calls PoolRunCall (remote_run E a) = n_calls PoolRunCall a" "\<exists>r. aRes (remote_run E a) = Some r"
  "aExecutedLocally (remote_run E a) = aExecutedLocally a" "aCompare (remote_run E a) = aCompare a"
  by (simp_all add: remote_run_def Let_def remote_download_calls split: option.split prod.split)

lemma action_runRemote_calls:
  "n_calls PoolRunCall (action_runRemote E a) = n_calls PoolRunCall a" "\<exists>r. aRes (action_runRemote E a) = Some r"
  "aExecutedLocally (action_runRemote E a) = aExecutedLocally a" "aCompare (action_runRemote E a) = aCompare a"
  by (simp_all add: action_runRemote_def remote_run_calls split: option.split)

text \<open>Input processing leaves the execution history alone; its error becomes the result.\<close>

lemma populateCommandIO_spec:
  assumes "populateCommandIO E s a = Some (s1, a1, err)"
  shows "aCalls a1 = aCalls a @ [ProcessInputsCall]" "aExecutedLocally a1 = aExecutedLocally a"
    "aRes a1 = (case err of None \<Rightarrow> aRes a | Some e \<Rightarrow> Some (NewLocalErrorResult (eSdk E) e))"
    "aLocalDoNotCache a1 = aLocalDoNotCache a" "aRemoteMetadata a1 = aRemoteMetadata a"
    "aExecContext a1 = aExecContext a" "aCompare a1 = aCompare a" "aCmdEnvironment a1 = aCmdEnvironment a"
    "sNumFallbacks s1 = sNumFallbacks s" "sNumActions s1 = sNumActions s"
  using assms
  by (auto simp: populateCommandIO_def action_populateCommandIO_def add_outputs_def Let_def
      split: option.splits res.splits prod.splits if_splits)

lemma populateCommandIO_n_calls:
  assumes "populateCommandIO E s a = Some (s1, a1, err)" "c \<noteq> ProcessInputsCall"
  shows "n_calls c a1 = n_calls c a"
  using assms(2) populateCommandIO_spec(1) [OF assms(1)] by (simp add: n_calls_def)

lemma clean_args_spec:
  assumes "clean_args E a = Some a0"
  shows "n_calls c a0 = n_calls c a" "aCalls a0 = aCalls a" "aExecutedLocally a0 = aExecutedLocally a"
    "aRemoteMetadata a0 = aRemoteMetadata a" "aCompare a0 = aCompare a" "aCmdEnvironment a0 = aCmdEnvironment a"
  using assms by (auto simp: clean_args_def split: if_splits)

lemma remote_deferred_spec:
  assumes "remote_deferred E a = Some a'"
  shows "aCalls a' = aCalls a" "aExecutedLocally a' = aExecutedLocally a" "\<exists>r. aRes a' = Some r"
    "aRes a' = Some r \<Longrightarrow> rErr r = Some ErrReclientTimeout \<Longrightarrow>
      r = timeout_result E \<and> aRemoteMetadata a' = Some (Some (timeout_result E))"
  using assms by (auto simp: remote_deferred_def timeout_result_def split: option.splits if_splits)

text \<open>A remote run never touches the local pool and always has a result.\<close>

lemma runRemote_spec:
  assumes "runRemote E s a = Some (s', a')"
  shows "n_calls PoolRunCall a' = n_calls PoolRunCall a" "aExecutedLocally a' = aExecutedLocally a"
    "sNumFallbacks s' = sNumFallbacks s" "\<exists>a2. remote_deferred E a2 = Some a'"
proof -
  obtain a0 where a0: "clean_args E a = Some a0"
    using assms by (cases "clean_args E a") (simp_all add: runRemote_def)
  then obtain s1 a1 err where p: "populateCommandIO E s a0 = Some (s1, a1, err)"
    using assms by (cases "populateCommandIO E s a0") (auto simp: runRemote_def)
  note f0 = clean_args_spec [OF a0] and f1 = populateCommandIO_spec [OF p] populateCommandIO_n_calls [OF p]
  let ?a3 = "action_runRemote E (if aCompare a1 then did StashCall a1 else a1)"
  have c3: "n_calls PoolRunCall ?a3 = n_calls PoolRunCall a" "aExecutedLocally ?a3 = aExecutedLocally a"
    by (simp_all add: action_runRemote_calls f0 f1)
  have "\<exists>a2. remote_deferred E a2 = Some a' \<and> s' = s1 \<and>
      (err \<noteq> None \<and> a2 = a1 \<or> a2 = ?a3 \<or> a2 = did RestoreCall (did RemoveOutputsCall ?a3))"
    using assms a0 p by (auto simp: runRemote_def Let_def split: option.splits if_splits)
  then obtain a2 where d: "remote_deferred E a2 = Some a'" and s': "s' = s1"
    and a2: "a2 = a1 \<or> a2 = ?a3 \<or> a2 = did RestoreCall (did RemoveOutputsCall ?a3)"
    by blast
  have n2: "n_calls PoolRunCall a2 = n_calls PoolRunCall a" "aExecutedLocally a2 = aExecutedLocally a"
    using a2 c3 f0 f1 by auto
  show "n_calls PoolRunCall a' = n_calls PoolRunCall a" "aExecutedLocally a' = aExecutedLocally a"
    using n2 remote_deferred_spec(1,2) [OF d] by (simp_all add: n_calls_def)
  show "sNumFallbacks s' = sNumFallbacks s" using s' f1 by simp
  show "\<exists>a2. remote_deferred E a2 = Some a'" using d by blast
qed

lemma getCachedResult_spec:
  "aExecutedLocally (getCachedResult E a) = aExecutedLocally a"
  "aLocalDoNotCache (getCachedResult E a) = aLocalDoNotCache a"
  "aCmdEnvironment (getCachedResult E a) = aCmdEnvironment a"
  "c \<in> {PoolRunCall, ExecuteCall, UpdateCacheCall} \<Longrightarrow> n_calls c (getCachedResult E a) = n_calls c a"
  by (auto simp: getCachedResult_def cachedResultValid_def Let_def split: option.split prod.splits)

text \<open>Updating the remote cache happens only for an ok result that may be cached.\<close>

lemma cacheLocal_spec:
  assumes "cacheLocal E a = Some a'"
  shows "aRes a' = aRes a" "aExecutedLocally a' = aExecutedLocally a"
    "c \<noteq> WriteDepsCall \<and> c \<noteq> ClearCacheCall \<and> c \<noteq> UpdateCacheCall \<Longrightarrow> n_calls c a' = n_calls c a"
    "n_calls UpdateCacheCall a' \<noteq> n_calls UpdateCacheCall a \<Longrightarrow>
      \<exists>r. aRes a = Some r \<and> IsOk (eSdk E) r \<and> \<not> aLocalDoNotCache a"
  using assms
  by (auto simp: cacheLocal_def generateDepsFile_def Let_def split: option.splits if_splits prod.splits)

lemma local_then_cache_spec:
  assumes "local_then_cache E s a = Some (s', a')"
  shows "s' = s" "aRes a' = Some (pool_result (eSdk E) (ePoolRun E (aCalls a)))" "aExecutedLocally a'"
    "n_calls PoolRunCall a' = Suc (n_calls PoolRunCall a)" "n_calls ExecuteCall a' = n_calls ExecuteCall a"
    "n_calls UpdateCacheCall a' \<noteq> n_calls UpdateCacheCall a \<Longrightarrow>
      IsOk (eSdk E) (pool_result (eSdk E) (ePoolRun E (aCalls a))) \<and> \<not> aLocalDoNotCache a"
proof -
  obtain a1 where l: "runLocal E a = Some a1" and c: "cacheLocal E a1 = Some a'" and "s' = s"
    using assms by (auto simp: local_then_cache_def bind_eq_Some_conv)
  note f = runLocal_calls [OF l] and g = cacheLocal_spec [OF c]
  have n: "n_calls d a1 = n_calls d a + (if d = PoolRunCall then 1 else 0)" for d
    using f by (simp add: n_calls_def)
  show "s' = s" by fact
  show "aRes a' = Some (pool_result (eSdk E) (ePoolRun E (aCalls a)))" "aExecutedLocally a'"
    using f g(1,2) by auto
  show "n_calls PoolRunCall a' = Suc (n_calls PoolRunCall a)" "n_calls ExecuteCall a' = n_calls ExecuteCall a"
    using g(3) n by auto
  show "IsOk (eSdk E) (pool_result (eSdk E) (ePoolRun E (aCalls a))) \<and> \<not> aLocalDoNotCache a"
    if "n_calls UpdateCacheCall a' \<noteq> n_calls UpdateCacheCall a"
    using g(4) that n f by auto
qed

text \<open>What a local run with remote cache promises: it never executes remotely, runs locally at
  most once, has a result, and stores only ok results that may be cached.\<close>

definition lerc_post :: "env \<Rightarrow> server \<Rightarrow> action \<Rightarrow> server \<Rightarrow> action \<Rightarrow> bool" where
  "lerc_post E s a s' a' \<longleftrightarrow> (\<exists>r. aRes a' = Some r) \<and> n_calls ExecuteCall a' = n_calls ExecuteCall a \<and>
     n_calls PoolRunCall a' \<le> Suc (n_calls PoolRunCall a) \<and> sNumFallbacks s' = sNumFallbacks s \<and>
     (n_calls UpdateCacheCall a' \<noteq> n_calls UpdateCacheCall a \<longrightarrow>
        (\<exists>r. aRes a' = Some r \<and> IsOk (eSdk E) r) \<and> \<not> aLocalDoNotCache a \<and> aExecutedLocally a')"

lemma lerc_post_weaken:
  assumes "lerc_post E s1 b s' a'" "sNumFallbacks s1 = sNumFallbacks s" "aLocalDoNotCache b = aLocalDoNotCache a"
    and "n_calls ExecuteCall b = n_calls ExecuteCall a" "n_calls PoolRunCall b = n_calls PoolRunCall a"
    and "n_calls UpdateCacheCall b = n_calls UpdateCacheCall a"
  shows "lerc_post E s a s' a'"
  using assms unfolding lerc_post_def by simp

lemma lerc_post_quiet:
  assumes "\<exists>r. aRes a' = Some r" "sNumFallbacks s' = sNumFallbacks s"
    and "n_calls ExecuteCall a' = n_calls ExecuteCall a" "n_calls PoolRunCall a' = n_calls PoolRunCall a"
    and "n_calls UpdateCacheCall a' = n_calls UpdateCacheCall a"
  shows "lerc_post E s a s' a'"
  using assms unfolding lerc_post_def by simp

lemma local_then_cache_post: "local_then_cache E s a = Some (s', a') \<Longrightarrow> lerc_post E s a s' a'"
  using local_then_cache_spec [of E s a s' a'] unfolding lerc_post_def by auto

lemma lerc_run_post:
  assumes "lerc_run E s a = Some (s', a')"
  shows "lerc_post E s a s' a'"
proof -
  let ?a1 = "getCachedResult E a"
  note g = getCachedResult_spec [where E = E and a = a]
  have "local_then_cache E s a = Some (s', a') \<or> local_then_cache E s ?a1 = Some (s', a') \<or>
      s' = s \<and> a' = ?a1 \<and> (\<exists>r. aRes ?a1 = Some r)"
    using assms unfolding lerc_run_def Let_def by (cases "aRes ?a1") (simp_all split: if_splits)
  then consider "local_then_cache E s a = Some (s', a')" | "local_then_cache E s ?a1 = Some (s', a')"
    | "s' = s" "a' = ?a1" "\<exists>r. aRes ?a1 = Some r"
    by blast
  then show ?thesis
  proof cases
    case 1
    then show ?thesis by (rule local_then_cache_post)
  next
    case 2
    from local_then_cache_post [OF this] show ?thesis by (rule lerc_post_weaken) (simp_all add: g)
  next
    case 3
    then show ?thesis by (intro lerc_post_quiet) (simp_all add: g)
  qed
qed

lemma lerc_options_spec:
  assumes "lerc_options a = Some a0"
  shows "aCalls a0 = aCalls a" "aLocalDoNotCache a0 = aLocalDoNotCache a" "aExecutedLocally a0 = aExecutedLocally a"
  using assms by (auto simp: lerc_options_def split: if_splits)

lemma createExecContext_spec:
  assumes "createExecContext E a = (a1, err)"
  shows "c \<noteq> NewContextCall \<Longrightarrow> n_calls c a1 = n_calls c a" "aLocalDoNotCache a1 = aLocalDoNotCache a"
  using assms by (auto simp: createExecContext_def split: if_splits option.splits)

lemma addDepsFileOutput_spec [simp]:
  "n_calls c (addDepsFileOutput a) = n_calls c a" "aLocalDoNotCache (addDepsFileOutput a) = aLocalDoNotCache a"
  "aRes (addDepsFileOutput a) = aRes a"
  by (simp_all add: addDepsFileOutput_def)

lemma runLERC_post:
  assumes "runLERC E s a = Some (s', a')"
  shows "lerc_post E s a s' a'"
proof -
  obtain a0 where a0: "lerc_options a = Some a0"
    using assms by (cases "lerc_options a") (simp_all add: runLERC_def)
  obtain a1 err where a1: "createExecContext E a0 = (a1, err)" by fastforce
  have n1: "n_calls c a1 = n_calls c a" if "c \<noteq> NewContextCall" for c
    using createExecContext_spec(1) [OF a1 that] lerc_options_spec(1) [OF a0] by (simp add: n_calls_def)
  have d1: "aLocalDoNotCache a1 = aLocalDoNotCache a"
    using createExecContext_spec(2) [OF a1] lerc_options_spec(2) [OF a0] by simp
  consider e where "s' = s" "a' = a1\<lparr>aRes := Some (NewLocalErrorResult (eSdk E) e)\<rparr>"
    | e where "populateCommandIO E s a1 = Some (s', a', Some e)"
    | s1 a2 where "populateCommandIO E s a1 = Some (s1, a2, None)" "lerc_run E s1 (addDepsFileOutput a2) = Some (s', a')"
    using assms a0 a1 by (auto simp: runLERC_def split: option.splits)
  then show ?thesis
  proof cases
    case 1
    then show ?thesis by (intro lerc_post_quiet) (simp_all add: n1)
  next
    case 2
    note p = populateCommandIO_spec [OF 2] populateCommandIO_n_calls [OF 2]
    show ?thesis by (intro lerc_post_quiet) (simp_all add: p n1)
  next
    case 3
    note p = populateCommandIO_spec [OF 3(1)] populateCommandIO_n_calls [OF 3(1)]
    from lerc_run_post [OF 3(2)] show ?thesis by (rule lerc_post_weaken) (simp_all add: p n1 d1)
  qed
qed

section \<open>Properties\<close>

text \<open>Example environment: local and remote execution succeed.\<close>

definition demo_env :: env where
  "demo_env = \<lparr>eSdk = demo_sdk,
     eDefaults = \<lparr>AcceptCached = True, DoNotCache = False, DownloadOutErr = True, DownloadOutputs = True,
       PreserveUnchangedOutputMtime = False\<rparr>,
     eCompile = (\<lambda>_. None), eDisk = (\<lambda>_ _. Missing), eOrd = id,
     ePoolRun = (\<lambda>_. (0, None)), ePoolOut = (\<lambda>_. ([], [])), eRemoteOut = (\<lambda>_. ([], [])), eNewContext = (\<lambda>_. None),
     eGetCached = (\<lambda>_. None), eExecute = (\<lambda>_. \<lparr>rExitCode = 1, rStatus = NON_ZERO_EXIT, rErr = None\<rparr>),
     eFlatten = (\<lambda>_. Ok []), eDownload = (\<lambda>_. \<lparr>rExitCode = 0, rStatus = SUCCESS, rErr = None\<rparr>),
     eTmpDir = (\<lambda>_. None), eMove = (\<lambda>_. None),
     eProcessInputs = (\<lambda>_. Ok \<lparr>cioOutputFiles = [], cioOutputDirs = [], cioDFile = [], cioShallow = False\<rparr>),
     eVerifyDeps = (\<lambda>_. True), eWriteDeps = (\<lambda>_. None),
     eUpdateCache = (\<lambda>_. \<lparr>rExitCode = 0, rStatus = SUCCESS, rErr = None\<rparr>),
     eRace = (\<lambda>_. (race_init, False)), eTimedOut = (\<lambda>_. False), eCleanIncludePaths = False, eErrorText = (\<lambda>_. []), eStatusText = (\<lambda>_. []),
     eCacheMiss = False, eActionDigest = (\<lambda>_. ''d/1''), eRemoteDigests = (\<lambda>_. ([], [])), eLocalOutputs = (\<lambda>_. Some ([], []))\<rparr>"

definition demo_action :: "ExecStrategy \<Rightarrow> action" where
  "demo_action st = \<lparr>aExecutionID = ''id'', aExecRoot = ''/r'', aWorkingDir = ''out'', aRemoteWorkingDir = [], aArgs = [''cc''], aOutputFiles = [],
     aOutputDirs = [], aHasInputSpec = True, aInputs = [], aInputEnv = Map.empty, aCmdEnvironment = [''A=b''], aExecStrategy = st,
     aCompare = False, aNumLocalReruns = 0, aNumRemoteReruns = 0, aAtomicDownloads = False, aDownloadRegex = [], aROpt = None, aCanonicalizeWorkingDir = False, aPlatform = [], aToolchainInputs = [],
     aLocalWrapper = [], aLocalAcceptCached = True, aLocalDoNotCache = False, aDFile = [], aDepsFile = [],
     aExecContext = False, aRes = None, aOE = ([], []), aFallbackOE = ([], []), aFallbackExitCode = 0,
     aFallbackStatus = UNKNOWN_STATUS, aExecutedLocally = False, aLocalResult = None, aRemoteMetadata = None,
     aActionDigest = [], aLocalReruns = [], aRemoteReruns = [], aVerification = None,
     aCacheHit = False, aValidCacheHit = False, aUpdatedCache = False, aCalls = []\<rparr>"

definition demo_server :: server where
  "demo_server = \<lparr>RemoteDisabled = False, sFailBuild = False, sFailBuildErr = None, sNumActions = 0,
     sNumFallbacks = 0, sNumIPTimeouts = 0\<rparr>"

definition after_remote :: "env \<Rightarrow> action \<Rightarrow> Result \<Rightarrow> action" where
  "after_remote E a r = did VirtualDownloadCall
     (a\<lparr>aFallbackOE := aOE a, aFallbackExitCode := rExitCode r, aFallbackStatus := rStatus r, aOE := ([], [])\<rparr>)"

lemma local_fallback_spec:
  assumes "local_fallback E s a = Some (s', a')"
  shows "n_calls PoolRunCall a' = Suc (n_calls PoolRunCall a)" "aExecutedLocally a'" "\<exists>r. aRes a' = Some r"
    "sNumFallbacks s' = Suc (sNumFallbacks s)" "c \<noteq> PoolRunCall \<Longrightarrow> n_calls c a' = n_calls c a"
  using assms runLocal_calls [of E a a'] by (auto simp: local_fallback_def n_calls_def)

lemma runRacing_spec:
  assumes "runRacing E s a = Some (s', a')"
  shows "\<exists>r. aRes a' = Some r" "n_calls PoolRunCall a' = n_calls PoolRunCall a"
proof -
  obtain a0 where a0: "clean_args E a = Some a0"
    using assms by (cases "clean_args E a") (simp_all add: runRacing_def)
  then obtain s1 a1 err where p: "populateCommandIO E s a0 = Some (s1, a1, err)"
    using assms by (cases "populateCommandIO E s a0") (auto simp: runRacing_def)
  note f = clean_args_spec [OF a0] populateCommandIO_spec [OF p] populateCommandIO_n_calls [OF p]
  show "\<exists>r. aRes a' = Some r"
    using assms a0 p f by (auto simp: runRacing_def Let_def split: option.splits prod.splits if_splits)
  show "n_calls PoolRunCall a' = n_calls PoolRunCall a"
    using assms a0 p f by (auto simp: runRacing_def Let_def split: option.splits prod.splits if_splits)
qed

text \<open>Sufficient conditions for an action not to panic: input processing does not and does not
  fail with the error of the reclient timeout or of a cancelled context, creating the temporary
  directory neither; environment entries have a value, a final \<open>-I\<close> has a directory when
  include paths are cleaned, and a download filter comes with remote options.\<close>

definition cancel_err :: "go_err option \<Rightarrow> bool" where
  "cancel_err e \<longleftrightarrow> e = Some ErrReclientTimeout \<or> e = Some ErrCanceled"

definition answers_ok :: "env \<Rightarrow> bool" where
  "answers_ok E \<longleftrightarrow> sdk_ok (eSdk E) \<and>
     (\<forall>cs. eProcessInputs E cs \<noteq> Panic \<and> (\<forall>e. eProcessInputs E cs = Err e \<longrightarrow> \<not> cancel_err (Some e)) \<and>
           \<not> cancel_err (eTmpDir E cs))"

definition action_ok :: "env \<Rightarrow> action \<Rightarrow> bool" where
  "action_ok E a \<longleftrightarrow> (\<forall>i \<in> set (aCmdEnvironment a). contains ''='' i) \<and>
     (eCleanIncludePaths E \<longrightarrow> \<not> dangling_include (aArgs a)) \<and> (aDownloadRegex a \<noteq> [] \<longrightarrow> aROpt a \<noteq> None)"

lemma runLocal_total:
  "\<forall>i \<in> set (aCmdEnvironment a). contains ''='' i \<Longrightarrow> \<exists>a'. runLocal E a = Some a'"
  using sliceToMap_panics [of "aCmdEnvironment a" "''=''"] by (auto simp: runLocal_def split: option.split)

lemma clean_args_total: "action_ok E a \<Longrightarrow> \<exists>a'. clean_args E a = Some a'"
  using cleanIncludePaths_panics [of "aExecRoot a" "aWorkingDir a" "aArgs a"]
  by (auto simp: action_ok_def clean_args_def)

lemma populateCommandIO_total: "answers_ok E \<Longrightarrow> \<exists>s1 a1 err. populateCommandIO E s a = Some (s1, a1, err)"
  by (auto simp: answers_ok_def populateCommandIO_def action_populateCommandIO_def split: res.split)

lemma populateCommandIO_err:
  "answers_ok E \<Longrightarrow> populateCommandIO E s a = Some (s1, a1, err) \<Longrightarrow> \<not> cancel_err err"
  by (auto simp: answers_ok_def populateCommandIO_def action_populateCommandIO_def cancel_err_def
      split: res.splits option.splits if_splits)

lemma remote_deferred_total:
  "aRes a = Some r \<Longrightarrow> \<not> cancel_err (rErr r) \<or> aRemoteMetadata a \<noteq> None \<Longrightarrow> \<exists>a'. remote_deferred E a = Some a'"
  by (auto simp: remote_deferred_def cancel_err_def)

lemma remote_download_metadata: "aRemoteMetadata (remote_download E r a) \<noteq> None"
  by (auto simp: remote_download_def Let_def split: res.splits option.splits)

lemma remote_run_metadata: "aRemoteMetadata (remote_run E a) \<noteq> None"
  using remote_download_metadata by (simp add: remote_run_def Let_def split: option.split prod.split)

lemma action_runRemote_deferrable:
  assumes "answers_ok E" "aRes (action_runRemote E a) = Some r"
  shows "\<not> cancel_err (rErr r) \<or> aRemoteMetadata (action_runRemote E a) \<noteq> None"
proof (cases "aAtomicDownloads a \<and> eTmpDir E (aCalls a) \<noteq> None")
  case True
  then obtain e where e: "eTmpDir E (aCalls a) = Some e" by blast
  then have "r = NewLocalErrorResult (eSdk E) e" using True assms(2) by (simp add: action_runRemote_def)
  moreover have "\<not> cancel_err (Some e)" using assms(1) e unfolding answers_ok_def by metis
  ultimately show ?thesis using assms(1) sdk_local_error(3) by (simp add: answers_ok_def)
next
  case False
  then show ?thesis using remote_run_metadata by (auto simp: action_runRemote_def split: option.split)
qed

lemma remote_run_env: "aCmdEnvironment (remote_run E a) = aCmdEnvironment a"
  by (simp add: remote_run_def remote_download_def remote_finish_def Let_def split: option.split prod.split res.split)

lemma action_runRemote_env: "aCmdEnvironment (action_runRemote E a) = aCmdEnvironment a"
  using remote_run_env by (simp add: action_runRemote_def split: option.split)

lemma remote_deferred_env: "remote_deferred E a = Some a' \<Longrightarrow> aCmdEnvironment a' = aCmdEnvironment a"
  by (auto simp: remote_deferred_def split: option.splits if_splits)

lemma runRemote_total:
  assumes "answers_ok E" "action_ok E a"
  shows "\<exists>s' a'. runRemote E s a = Some (s', a') \<and> aCmdEnvironment a' = aCmdEnvironment a"
proof -
  obtain a0 where a0: "clean_args E a = Some a0" using clean_args_total [OF assms(2)] by blast
  obtain s1 a1 err where p: "populateCommandIO E s a0 = Some (s1, a1, err)"
    using populateCommandIO_total [OF assms(1)] by blast
  note f = clean_args_spec [OF a0] populateCommandIO_spec [OF p]
  show ?thesis
  proof (cases err)
    case (Some e)
    have "\<not> cancel_err (rErr (NewLocalErrorResult (eSdk E) e))"
      using populateCommandIO_err [OF assms(1) p] Some assms(1) sdk_local_error(3) by (simp add: answers_ok_def)
    moreover have "aRes a1 = Some (NewLocalErrorResult (eSdk E) e)" using f(9) Some by simp
    ultimately obtain a' where a': "remote_deferred E a1 = Some a'" using remote_deferred_total [of a1 _ E] by blast
    then show ?thesis using a0 p Some remote_deferred_env [OF a'] f by (simp add: runRemote_def)
  next
    case None
    let ?a3 = "action_runRemote E (if aCompare a1 then did StashCall a1 else a1)"
    obtain r where r: "aRes ?a3 = Some r" using action_runRemote_calls(2) by blast
    have e: "aCmdEnvironment ?a3 = aCmdEnvironment a" by (simp add: action_runRemote_env f)
    note d = action_runRemote_deferrable [OF assms(1) r]
    obtain a' where a': "remote_deferred E ?a3 = Some a'" using remote_deferred_total [OF r d] by blast
    obtain a'' where a'': "remote_deferred E (did RestoreCall (did RemoveOutputsCall ?a3)) = Some a''"
      using remote_deferred_total [of "did RestoreCall (did RemoveOutputsCall ?a3)" r E] r d by auto
    show ?thesis
      using a0 p None r a' a'' remote_deferred_env [OF a'] remote_deferred_env [OF a''] e
      by (simp add: runRemote_def Let_def)
  qed
qed

lemma local_then_cache_total:
  assumes "\<forall>i \<in> set (aCmdEnvironment a). contains ''='' i"
  shows "\<exists>s' a'. local_then_cache E s a = Some (s', a')"
proof -
  obtain a1 where l: "runLocal E a = Some a1" using runLocal_total [OF assms] by blast
  have "\<exists>a2. cacheLocal E a1 = Some a2"
    using runLocal_calls [OF l] by (auto simp: cacheLocal_def Let_def split: prod.split option.split)
  then show ?thesis using l by (auto simp: local_then_cache_def)
qed

lemma env_preserved:
  "lerc_options a = Some a0 \<Longrightarrow> aCmdEnvironment a0 = aCmdEnvironment a"
  "createExecContext E a = (a1, err) \<Longrightarrow> aCmdEnvironment a1 = aCmdEnvironment a"
  "aCmdEnvironment (addDepsFileOutput a) = aCmdEnvironment a"
  "runLocal E a = Some a2 \<Longrightarrow> aCmdEnvironment a2 = aCmdEnvironment a"
  "cacheLocal E a = Some a3 \<Longrightarrow> aCmdEnvironment a3 = aCmdEnvironment a"
  by (auto simp: lerc_options_def createExecContext_def addDepsFileOutput_def runLocal_def run_in_pool_def did_def
      cacheLocal_def generateDepsFile_def Let_def split: if_splits option.splits prod.splits)

lemma local_then_cache_env: "local_then_cache E s a = Some (s', a') \<Longrightarrow> aCmdEnvironment a' = aCmdEnvironment a"
  by (auto simp: local_then_cache_def bind_eq_Some_conv dest!: env_preserved(4,5))

lemma lerc_run_total:
  assumes "\<forall>i \<in> set (aCmdEnvironment a). contains ''='' i"
  shows "\<exists>s' a'. lerc_run E s a = Some (s', a') \<and> aCmdEnvironment a' = aCmdEnvironment a"
proof -
  note g = getCachedResult_spec(3) [of E a]
  obtain s1 a1 where 1: "local_then_cache E s a = Some (s1, a1)" using local_then_cache_total [OF assms] by blast
  obtain s2 a2 where 2: "local_then_cache E s (getCachedResult E a) = Some (s2, a2)"
    using local_then_cache_total [of "getCachedResult E a" E s] assms g by auto
  show ?thesis
    using 1 2 local_then_cache_env [OF 1] local_then_cache_env [OF 2] g by (simp add: lerc_run_def Let_def)
qed

lemma runLERC_total:
  assumes "answers_ok E" "action_ok E a"
  shows "\<exists>s' a'. runLERC E s a = Some (s', a') \<and> aCmdEnvironment a' = aCmdEnvironment a"
proof -
  obtain a0 where a0: "lerc_options a = Some a0"
    using assms(2) by (cases "aDownloadRegex a = []"; cases "aROpt a") (simp_all add: action_ok_def lerc_options_def)
  obtain a1 err where a1: "createExecContext E a0 = (a1, err)" by fastforce
  have e1: "aCmdEnvironment a1 = aCmdEnvironment a" using env_preserved(1) [OF a0] env_preserved(2) [OF a1] by simp
  obtain s1 a2 err2 where p: "populateCommandIO E s a1 = Some (s1, a2, err2)"
    using populateCommandIO_total [OF assms(1)] by blast
  note f = populateCommandIO_spec [OF p]
  obtain s3 a3 where l: "lerc_run E s1 (addDepsFileOutput a2) = Some (s3, a3)" "aCmdEnvironment a3 = aCmdEnvironment a"
    using lerc_run_total [of "addDepsFileOutput a2" E s1] assms(2) env_preserved(3) e1 f by (auto simp: action_ok_def)
  show ?thesis
    using a0 a1 p l e1 f by (cases err; cases err2) (simp_all add: runLERC_def)
qed

lemma run_strategy_result:
  assumes "run_strategy E s a = Some (s', a')"
  shows "\<exists>r. aRes a' = Some r"
proof (cases "aExecStrategy a")
  case LOCAL
  then show ?thesis
    using assms runLERC_post [of E s "did VirtualDownloadCall a"] local_fallback_spec(3) [of E]
    by (auto simp: run_strategy_def lerc_post_def split: option.splits if_splits)
next
  case REMOTE
  then obtain a2 where "remote_deferred E a2 = Some a'"
    using assms runRemote_spec(4) [of E s a s' a'] by (auto simp: run_strategy_def)
  then show ?thesis by (rule remote_deferred_spec(3))
next
  case REMOTE_LOCAL_FALLBACK
  then show ?thesis
    using assms local_fallback_spec(3) [of E] by (auto simp: run_strategy_def split: option.splits if_splits)
next
  case RACING
  then show ?thesis using assms runRacing_spec(1) by (auto simp: run_strategy_def)
qed (use assms in \<open>auto simp: run_strategy_def\<close>)

lemma local_fallback_total:
  assumes "\<forall>i \<in> set (aCmdEnvironment a). contains ''='' i"
  shows "\<exists>s' a'. local_fallback E s a = Some (s', a')"
  using runLocal_total [OF assms, of E] by (auto simp: local_fallback_def)

lemma action_ok_did: "action_ok E (did c a) = action_ok E a"
  by (simp add: action_ok_def did_def)

lemma runRacing_total:
  assumes "answers_ok E" "action_ok E a"
  shows "\<exists>s' a'. runRacing E s a = Some (s', a')"
proof -
  obtain a0 where a0: "clean_args E a = Some a0" using clean_args_total [OF assms(2)] by blast
  obtain s1 a1 err where p: "populateCommandIO E s a0 = Some (s1, a1, err)"
    using populateCommandIO_total [OF assms(1)] by blast
  have "sliceToMap (aCmdEnvironment a1) ''='' \<noteq> None"
    using assms(2) clean_args_spec(6) [OF a0] populateCommandIO_spec(8) [OF p] sliceToMap_panics [of "aCmdEnvironment a1" "''=''"]
    by (auto simp: action_ok_def)
  then show ?thesis using a0 p by (cases err) (auto simp: runRacing_def Let_def split: prod.split)
qed

lemma run_strategy_total:
  assumes "answers_ok E" "action_ok E a"
  shows "\<exists>s' a'. run_strategy E s a = Some (s', a')"
proof (cases "aExecStrategy a")
  case LOCAL
  obtain s1 a1 where l: "runLERC E s (did VirtualDownloadCall a) = Some (s1, a1)" "aCmdEnvironment a1 = aCmdEnvironment a"
    using runLERC_total [OF assms(1), of "did VirtualDownloadCall a" s] assms(2) by (auto simp: action_ok_did)
  obtain r where "aRes a1 = Some r" using runLERC_post [OF l(1)] by (auto simp: lerc_post_def)
  moreover obtain s2 a2 where "local_fallback E s1 a1 = Some (s2, a2)"
    using local_fallback_total [of a1 E s1] l(2) assms(2) by (auto simp: action_ok_def)
  ultimately show ?thesis using LOCAL l by (simp add: run_strategy_def)
next
  case REMOTE
  then show ?thesis using runRemote_total [OF assms, of s] by (auto simp: run_strategy_def)
next
  case REMOTE_LOCAL_FALLBACK
  obtain s1 a1 where l: "runRemote E s a = Some (s1, a1)" "aCmdEnvironment a1 = aCmdEnvironment a"
    using runRemote_total [OF assms] by blast
  obtain r where r: "aRes a1 = Some r" using runRemote_spec(4) [OF l(1)] remote_deferred_spec(3) by blast
  let ?b = "did VirtualDownloadCall (a1\<lparr>aFallbackOE := aOE a1, aFallbackExitCode := rExitCode r,
    aFallbackStatus := rStatus r, aOE := ([], [])\<rparr>)"
  obtain s2 a2 where "local_fallback E s1 ?b = Some (s2, a2)"
    using local_fallback_total [of ?b E s1] l(2) assms(2) by (auto simp: action_ok_def)
  then show ?thesis using REMOTE_LOCAL_FALLBACK l r by (simp add: run_strategy_def)
next
  case RACING
  then show ?thesis using runRacing_total [OF assms, of s] by (simp add: run_strategy_def)
qed (simp add: run_strategy_def)

lemma runAction_total:
  assumes "answers_ok E" "action_ok E a" "sFailBuild s \<longrightarrow> sFailBuildErr s \<noteq> None"
  shows "\<exists>s' a' r. runAction E s a = Some (s', a') \<and> aRes a' = Some r"
proof -
  let ?a = "if aCanonicalizeWorkingDir a then a\<lparr>aRemoteWorkingDir := toRemoteWorkingDir (aWorkingDir a)\<rparr> else a"
  have "action_ok E ?a" using assms(2) by (simp add: action_ok_def)
  then obtain s1 a1 where l: "run_strategy E s ?a = Some (s1, a1)" using run_strategy_total [OF assms(1)] by blast
  obtain r where r: "aRes a1 = Some r" using run_strategy_result [OF l] by blast
  obtain a2 where a2: "runLocal E a = Some a2" using runLocal_total [of a E] assms(2) by (auto simp: action_ok_def)
  show ?thesis
    using l r a2 runLocal_calls [OF a2] assms(3)
    by (cases "sFailBuild s"; cases "RemoteDisabled s") (auto simp: runAction_def)
qed



lemma run_strategy_local:
  assumes "run_strategy E s a = Some (s', a')" "aExecStrategy a = LOCAL"
  shows "n_calls ExecuteCall a' = n_calls ExecuteCall a"
    "n_calls PoolRunCall a' \<le> Suc (n_calls PoolRunCall a) + (sNumFallbacks s' - sNumFallbacks s)"
    "sNumFallbacks s' - sNumFallbacks s \<le> 1"
proof -
  obtain s1 a1 where l: "runLERC E s (did VirtualDownloadCall a) = Some (s1, a1)"
    using assms by (cases "runLERC E s (did VirtualDownloadCall a)") (auto simp: run_strategy_def)
  have b: "(s', a') = (s1, a1) \<or> local_fallback E s1 a1 = Some (s', a')"
    using assms l by (auto simp: run_strategy_def split: option.splits if_splits)
  have "n_calls ExecuteCall a1 = n_calls ExecuteCall a" "n_calls PoolRunCall a1 \<le> Suc (n_calls PoolRunCall a)"
    "sNumFallbacks s1 = sNumFallbacks s"
    using runLERC_post [OF l] by (simp_all add: lerc_post_def)
  then show "n_calls ExecuteCall a' = n_calls ExecuteCall a"
    "n_calls PoolRunCall a' \<le> Suc (n_calls PoolRunCall a) + (sNumFallbacks s' - sNumFallbacks s)"
    "sNumFallbacks s' - sNumFallbacks s \<le> 1"
    using b local_fallback_spec [of E s1 a1 s' a'] by auto
qed

lemma run_strategy_fallback:
  assumes "run_strategy E s a = Some (s', a')" "aExecStrategy a = REMOTE_LOCAL_FALLBACK"
  shows "n_calls PoolRunCall a' = n_calls PoolRunCall a + (sNumFallbacks s' - sNumFallbacks s)"
    "sNumFallbacks s' - sNumFallbacks s \<le> 1"
    "aExecutedLocally a' \<longleftrightarrow> aExecutedLocally a \<or> sNumFallbacks s' \<noteq> sNumFallbacks s"
proof -
  obtain s1 a1 where l: "runRemote E s a = Some (s1, a1)"
    using assms by (cases "runRemote E s a") (auto simp: run_strategy_def)
  have "(s', a') = (s1, a1) \<or> (\<exists>r. local_fallback E s1 (after_remote E a1 r) = Some (s', a'))"
    using assms l by (auto simp: run_strategy_def after_remote_def split: option.splits if_splits)
  moreover have "n_calls PoolRunCall (after_remote E a1 r) = n_calls PoolRunCall a1" for r
    by (simp add: after_remote_def n_calls_def did_def)
  ultimately show "n_calls PoolRunCall a' = n_calls PoolRunCall a + (sNumFallbacks s' - sNumFallbacks s)"
    "sNumFallbacks s' - sNumFallbacks s \<le> 1"
    "aExecutedLocally a' \<longleftrightarrow> aExecutedLocally a \<or> sNumFallbacks s' \<noteq> sNumFallbacks s"
    using local_fallback_spec(1,2,4) [of E s1 _ s' a'] runRemote_spec(1-3) [OF l] by auto
qed

lemma run_strategy_remote:
  assumes "run_strategy E s a = Some (s', a')" "aExecStrategy a = REMOTE"
  shows "n_calls PoolRunCall a' = n_calls PoolRunCall a" "aExecutedLocally a' = aExecutedLocally a"
  using assms runRemote_spec(1,2) by (auto simp: run_strategy_def)

text \<open>The order of the calls of one remote attempt and of one local run with remote cache: each call is
  made at most once and in this order, whatever is left out. A local run downloads what the cache
  has or runs the command, never both.\<close>

definition call_kind :: "call \<Rightarrow> call" where
  "call_kind c = (case c of DownloadCall ps \<Rightarrow> DownloadCall [] | _ \<Rightarrow> c)"

definition in_turn :: "call list \<Rightarrow> call list \<Rightarrow> bool" where
  "in_turn order cs \<longleftrightarrow> subseq (map call_kind cs) order"

definition remote_order :: "call list" where
  "remote_order = [ProcessInputsCall, StashCall, TmpDirCall, NewContextCall, GetCachedCall, ExecuteCall, FlattenCall,
     DownloadCall [], MoveCall, RemoveOutputsCall, RestoreCall]"

definition lerc_cached_order :: "call list" where
  "lerc_cached_order = [NewContextCall, ProcessInputsCall, GetCachedCall, VerifyDepsCall, FlattenCall, DownloadCall []]"

definition lerc_run_order :: "call list" where
  "lerc_run_order = [NewContextCall, ProcessInputsCall, GetCachedCall, VerifyDepsCall, PoolRunCall, WriteDepsCall,
     ClearCacheCall, UpdateCacheCall]"

lemma call_kind_simps [simp]: "call_kind (DownloadCall ps) = DownloadCall []" "(\<And>ps. c \<noteq> DownloadCall ps) \<Longrightarrow> call_kind c = c"
  by (auto simp: call_kind_def split: call.split)

lemma in_turn_append: "in_turn o1 xs \<Longrightarrow> in_turn o2 ys \<Longrightarrow> in_turn (o1 @ o2) (xs @ ys)"
  by (simp add: in_turn_def list_emb_append_mono)

lemma in_turn_nil [simp]: "in_turn os []"
  by (simp add: in_turn_def)

definition follows :: "call list \<Rightarrow> action \<Rightarrow> action \<Rightarrow> bool" where
  "follows order a a' \<longleftrightarrow> (\<exists>cs. aCalls a' = aCalls a @ cs \<and> in_turn order cs)"

lemma follows_trans: "follows o1 a a1 \<Longrightarrow> follows o2 a1 a2 \<Longrightarrow> follows (o1 @ o2) a a2"
  using in_turn_append by (fastforce simp: follows_def)

lemma follows_calls: "aCalls a1 = aCalls a \<Longrightarrow> aCalls a1' = aCalls a' \<Longrightarrow> follows os a a' \<Longrightarrow> follows os a1 a1'"
  by (simp add: follows_def)

lemma follows_none: "aCalls a' = aCalls a \<Longrightarrow> follows os a a'"
  by (simp add: follows_def)

lemma remote_download_follows: "follows [FlattenCall, DownloadCall [], MoveCall] a (remote_download E r a)"
  by (auto simp: follows_def in_turn_def remote_download_def Let_def split: res.split option.split)

lemma remote_run_follows:
  "follows [NewContextCall, GetCachedCall, ExecuteCall, FlattenCall, DownloadCall [], MoveCall] a (remote_run E a)"
proof (cases "eNewContext E (aCalls a)")
  case (Some e)
  then show ?thesis by (auto simp: remote_run_def follows_def in_turn_def)
next
  case None
  let ?a2 = "(did GetCachedCall (did NewContextCall a))\<lparr>aOE := oe_add (aOE (did NewContextCall a)) (eRemoteOut E (aCalls (did NewContextCall a)))\<rparr>"
  obtain r a3 where r: "(case eGetCached E (aCalls (did NewContextCall a)) of
      Some r \<Rightarrow> (r, ?a2)
    | None \<Rightarrow> (eExecute E (aCalls ?a2), (did ExecuteCall ?a2)\<lparr>aOE := oe_add (aOE ?a2) (eRemoteOut E (aCalls ?a2))\<rparr>)) = (r, a3)"
    by fastforce
  then have "follows [NewContextCall, GetCachedCall, ExecuteCall] a a3"
    by (auto simp: follows_def in_turn_def split: option.splits)
  moreover have "follows [FlattenCall, DownloadCall [], MoveCall] a3 (remote_run E a)"
    using r None remote_download_follows [of a3 E r]
    by (cases "IsOk (eSdk E) r") (auto simp: remote_run_def Let_def follows_def)
  ultimately show ?thesis using follows_trans by fastforce
qed

lemma action_runRemote_follows:
  "follows [TmpDirCall, NewContextCall, GetCachedCall, ExecuteCall, FlattenCall, DownloadCall [], MoveCall] a (action_runRemote E a)"
proof (cases "aAtomicDownloads a \<and> eTmpDir E (aCalls a) \<noteq> None")
  case True
  then show ?thesis by (auto simp: action_runRemote_def follows_def in_turn_def)
next
  case False
  let ?b = "if aAtomicDownloads a then did TmpDirCall a else a"
  have "follows [TmpDirCall] a ?b" by (auto simp: follows_def in_turn_def)
  moreover have "aCalls (action_runRemote E a) = aCalls (remote_run E ?b)"
    using False by (auto simp: action_runRemote_def)
  then have "follows [NewContextCall, GetCachedCall, ExecuteCall, FlattenCall, DownloadCall [], MoveCall] ?b (action_runRemote E a)"
    using remote_run_follows [of ?b E] by (simp add: follows_def)
  ultimately show ?thesis using follows_trans by fastforce
qed

lemma runRemote_follows:
  assumes "runRemote E s a = Some (s', a')"
  shows "follows remote_order a a'"
proof -
  obtain a0 where a0: "clean_args E a = Some a0"
    using assms by (cases "clean_args E a") (simp_all add: runRemote_def)
  then obtain s1 a1 err where p: "populateCommandIO E s a0 = Some (s1, a1, err)"
    using assms by (cases "populateCommandIO E s a0") (auto simp: runRemote_def)
  have f1: "follows [ProcessInputsCall] a a1"
    using clean_args_spec(2) [OF a0] populateCommandIO_spec(1) [OF p] by (simp add: follows_def in_turn_def)
  let ?b = "if aCompare a1 then did StashCall a1 else a1"
  let ?a3 = "action_runRemote E ?b"
  have f2: "follows [StashCall] a1 ?b" by (auto simp: follows_def in_turn_def)
  obtain a2 where d: "remote_deferred E a2 = Some a'"
    and a2: "err \<noteq> None \<and> a2 = a1 \<or> a2 = ?a3 \<or> a2 = did RestoreCall (did RemoveOutputsCall ?a3)"
    using assms a0 p by (auto simp: runRemote_def Let_def split: option.splits if_splits)
  have "follows remote_order a a2"
  proof (cases "a2 = a1")
    case True
    from follows_trans [OF f1 follows_none [of a2 a1, OF arg_cong [OF True]]] show ?thesis by (simp add: remote_order_def)
  next
    case False
    then have "follows [RemoveOutputsCall, RestoreCall] ?a3 a2" using a2 by (auto simp: follows_def in_turn_def)
    from follows_trans [OF f1 follows_trans [OF f2 follows_trans [OF action_runRemote_follows this]]]
    show ?thesis by (simp add: remote_order_def)
  qed
  then show ?thesis using remote_deferred_spec(1) [OF d] by (simp add: follows_def)
qed

lemma getCachedResult_follows:
  "follows [GetCachedCall, VerifyDepsCall, FlattenCall, DownloadCall []] a (getCachedResult E a) \<and>
   ((case aRes (getCachedResult E a) of None \<Rightarrow> True | Some r \<Rightarrow> \<not> IsOk (eSdk E) r) \<longrightarrow>
      follows [GetCachedCall, VerifyDepsCall] a (getCachedResult E a))"
proof (cases "aExecContext a")
  case False
  then show ?thesis by (simp add: getCachedResult_def follows_none)
next
  case ctx: True
  show ?thesis
  proof (cases "eGetCached E (aCalls a)")
    case None
    then show ?thesis using ctx by (simp add: getCachedResult_def Let_def follows_def in_turn_def)
  next
    case (Some r)
    show ?thesis
      using ctx Some
      by (auto simp: getCachedResult_def cachedResultValid_def Let_def follows_def in_turn_def split: prod.splits if_splits)
  qed
qed

lemma local_then_cache_follows:
  assumes "local_then_cache E s a = Some (s', a')"
  shows "follows [PoolRunCall, WriteDepsCall, ClearCacheCall, UpdateCacheCall] a a'"
proof -
  obtain a1 where l: "runLocal E a = Some a1" and c: "cacheLocal E a1 = Some a'"
    using assms by (auto simp: local_then_cache_def bind_eq_Some_conv)
  have "follows [PoolRunCall] a a1" using runLocal_calls [OF l] by (simp add: follows_def in_turn_def)
  moreover have "follows [WriteDepsCall, ClearCacheCall, UpdateCacheCall] a1 a'"
    using c by (auto simp: cacheLocal_def generateDepsFile_def Let_def follows_def in_turn_def
        split: if_splits option.splits prod.splits)
  ultimately show ?thesis using follows_trans by fastforce
qed

lemma lerc_run_follows:
  assumes "lerc_run E s a = Some (s', a')"
  shows "follows [GetCachedCall, VerifyDepsCall, FlattenCall, DownloadCall []] a a' \<or>
    follows [GetCachedCall, VerifyDepsCall, PoolRunCall, WriteDepsCall, ClearCacheCall, UpdateCacheCall] a a'"
proof -
  let ?a1 = "getCachedResult E a"
  note g = getCachedResult_follows [of a E]
  consider "local_then_cache E s a = Some (s', a')"
    | "local_then_cache E s ?a1 = Some (s', a')" "case aRes ?a1 of None \<Rightarrow> True | Some r \<Rightarrow> \<not> IsOk (eSdk E) r"
    | "a' = ?a1"
    using assms unfolding lerc_run_def Let_def by (auto split: if_splits)
  then show ?thesis
  proof cases
    case 1
    then show ?thesis using follows_trans [OF follows_none [OF refl] local_then_cache_follows [OF 1], of "[GetCachedCall, VerifyDepsCall]"]
      by simp
  next
    case 2
    then show ?thesis using follows_trans [OF _ local_then_cache_follows [OF 2(1)], of "[GetCachedCall, VerifyDepsCall]" a] g by simp
  qed (use g in simp)
qed

lemma runLERC_follows:
  assumes "runLERC E s a = Some (s', a')"
  shows "follows lerc_cached_order a a' \<or> follows lerc_run_order a a'"
proof -
  obtain a0 where a0: "lerc_options a = Some a0"
    using assms by (cases "lerc_options a") (simp_all add: runLERC_def)
  obtain a1 err where a1: "createExecContext E a0 = (a1, err)" by fastforce
  have f1: "follows [NewContextCall] a a1"
    using a1 lerc_options_spec(1) [OF a0] by (auto simp: createExecContext_def follows_def in_turn_def split: if_splits option.splits)
  have short: "follows lerc_run_order a b" if "follows [NewContextCall, ProcessInputsCall] a b" for b
    using follows_trans [OF that follows_none [OF refl]] by (simp add: lerc_run_order_def)
  consider "aCalls a' = aCalls a1"
    | e where "populateCommandIO E s a1 = Some (s', a', Some e)"
    | s1 a2 where "populateCommandIO E s a1 = Some (s1, a2, None)" "lerc_run E s1 (addDepsFileOutput a2) = Some (s', a')"
    using assms a0 a1 by (auto simp: runLERC_def split: option.splits)
  then show ?thesis
  proof cases
    case 1
    then show ?thesis using follows_trans [OF f1 follows_none [of a' a1]] short by fastforce
  next
    case 2
    have "follows [ProcessInputsCall] a1 a'" using populateCommandIO_spec(1) [OF 2] by (simp add: follows_def in_turn_def)
    then show ?thesis using follows_trans [OF f1] short by fastforce
  next
    case 3
    have "follows [ProcessInputsCall] a1 (addDepsFileOutput a2)"
      using populateCommandIO_spec(1) [OF 3(1)] by (simp add: follows_def in_turn_def addDepsFileOutput_def)
    then have f: "follows [NewContextCall, ProcessInputsCall] a (addDepsFileOutput a2)" using follows_trans [OF f1] by fastforce
    show ?thesis
      using lerc_run_follows [OF 3(2)] follows_trans [OF f] by (fastforce simp: lerc_cached_order_def lerc_run_order_def)
  qed
qed

text \<open>A local run as a fallback, after the calls \<open>cs\<close>.\<close>

lemma local_fallback_calls:
  assumes "local_fallback E s a = Some (s', a')"
  shows "aCalls a' = aCalls a @ [PoolRunCall]" "aRes a' = Some (pool_result (eSdk E) (ePoolRun E (aCalls a)))"
    "s' = s\<lparr>sNumFallbacks := Suc (sNumFallbacks s)\<rparr>"
  using assms runLocal_calls [of E a a'] by (auto simp: local_fallback_def)

abbreviation with_remote_dir :: "action \<Rightarrow> action" where
  "with_remote_dir a \<equiv> (if aCanonicalizeWorkingDir a then a\<lparr>aRemoteWorkingDir := toRemoteWorkingDir (aWorkingDir a)\<rparr> else a)"

lemma runAction_strategy:
  assumes "runAction E s a = Some (s', a')" and "\<not> sFailBuild s" and "\<not> RemoteDisabled s"
  obtains s1 a1 where "run_strategy E s (with_remote_dir a) = Some (s1, a1)" and "aCalls a' = aCalls a1 @ [ClearCacheCall]"
    and "aRes a' = aRes a1" and "aExecutedLocally a' = aExecutedLocally a1" and "sNumFallbacks s' = sNumFallbacks s1"
  using assms by (auto simp: runAction_def)

lemma run_strategy_LOCAL:
  assumes "run_strategy E s a = Some (s', a')" "aExecStrategy a = LOCAL"
  shows "\<exists>s1 a1 r ls. runLERC E s (did VirtualDownloadCall a) = Some (s1, a1) \<and> aRes a1 = Some r \<and>
    aCalls a1 = aCalls a @ VirtualDownloadCall # ls \<and> (in_turn lerc_cached_order ls \<or> in_turn lerc_run_order ls) \<and>
    (if IsOk (eSdk E) r \<or> rStatus r = NON_ZERO_EXIT
     then aCalls a' = aCalls a1 \<and> aRes a' = Some r \<and> sNumFallbacks s' = sNumFallbacks s
     else aCalls a' = aCalls a1 @ [PoolRunCall] \<and> aRes a' = Some (pool_result (eSdk E) (ePoolRun E (aCalls a1))) \<and>
       sNumFallbacks s' = Suc (sNumFallbacks s))"
proof -
  obtain s1 a1 where l: "runLERC E s (did VirtualDownloadCall a) = Some (s1, a1)"
    using assms by (cases "runLERC E s (did VirtualDownloadCall a)") (auto simp: run_strategy_def)
  obtain r where r: "aRes a1 = Some r" and n: "sNumFallbacks s1 = sNumFallbacks s"
    using runLERC_post [OF l] by (auto simp: lerc_post_def)
  obtain ls where "aCalls a1 = aCalls a @ VirtualDownloadCall # ls" "in_turn lerc_cached_order ls \<or> in_turn lerc_run_order ls"
    using runLERC_follows [OF l] by (auto simp: follows_def)
  moreover have "if IsOk (eSdk E) r \<or> rStatus r = NON_ZERO_EXIT then (s', a') = (s1, a1) else local_fallback E s1 a1 = Some (s', a')"
    using assms l r by (auto simp: run_strategy_def)
  ultimately show ?thesis using l r n local_fallback_calls [of E s1 a1 s' a'] by (auto split: if_splits)
qed

lemma run_strategy_REMOTE_LOCAL_FALLBACK:
  assumes "run_strategy E s a = Some (s', a')" "aExecStrategy a = REMOTE_LOCAL_FALLBACK"
  shows "\<exists>s1 a1 r rs. runRemote E s a = Some (s1, a1) \<and> aRes a1 = Some r \<and>
    aCalls a1 = aCalls a @ rs \<and> in_turn remote_order rs \<and>
    (if IsOk (eSdk E) r
     then aCalls a' = aCalls a1 \<and> aRes a' = Some r \<and> sNumFallbacks s' = sNumFallbacks s \<and>
       aExecutedLocally a' = aExecutedLocally a
     else aCalls a' = aCalls a1 @ [VirtualDownloadCall, PoolRunCall] \<and>
       aRes a' = Some (pool_result (eSdk E) (ePoolRun E (aCalls a1 @ [VirtualDownloadCall]))) \<and>
       sNumFallbacks s' = Suc (sNumFallbacks s) \<and> aExecutedLocally a')"
proof -
  obtain s1 a1 where l: "runRemote E s a = Some (s1, a1)"
    using assms by (cases "runRemote E s a") (auto simp: run_strategy_def)
  obtain r where r: "aRes a1 = Some r" using runRemote_spec(4) [OF l] remote_deferred_spec(3) by blast
  obtain rs where "aCalls a1 = aCalls a @ rs" "in_turn remote_order rs"
    using runRemote_follows [OF l] by (auto simp: follows_def)
  moreover have "if IsOk (eSdk E) r then (s', a') = (s1, a1) else local_fallback E s1 (after_remote E a1 r) = Some (s', a')"
    using assms l r by (auto simp: run_strategy_def after_remote_def)
  moreover have "aCalls (after_remote E a1 r) = aCalls a1 @ [VirtualDownloadCall]" by (simp add: after_remote_def)
  ultimately show ?thesis
    using l r runRemote_spec(2,3) [OF l] local_fallback_spec(2) [of E s1 "after_remote E a1 r" s' a'] local_fallback_calls [of E s1 "after_remote E a1 r" s' a'] by (auto split: if_splits)
qed

lemma runRacing_calls:
  assumes "runRacing E s a = Some (s', a')"
  shows "if \<exists>cio. eProcessInputs E (aCalls a) = Ok cio
    then aCalls a' = aCalls a @ [ProcessInputsCall, RaceCall] \<and>
      (let st = fst (eRace E (aCalls a @ [ProcessInputsCall])) in
         sNumFallbacks s' = sNumFallbacks s + numFallbacks st \<and> aExecutedLocally a' = executedLocally st \<and>
         aRes a' = Some (case ares st of Some r \<Rightarrow> r
           | None \<Rightarrow> NewLocalErrorResult (eSdk E) (ErrOther ''racing did not produce a result'')))
    else aCalls a' = aCalls a @ [ProcessInputsCall] \<and> sNumFallbacks s' = sNumFallbacks s \<and>
      (\<exists>e. aRes a' = Some (NewLocalErrorResult (eSdk E) e))"
proof -
  obtain a0 where a0: "clean_args E a = Some a0"
    using assms by (cases "clean_args E a") (simp_all add: runRacing_def)
  have c: "aCalls a0 = aCalls a" by (rule clean_args_spec(2) [OF a0])
  show ?thesis
  proof (cases "eProcessInputs E (aCalls a)")
    case (Ok cio)
    then obtain s1 a1 where p: "populateCommandIO E s a0 = Some (s1, a1, None)"
      by (auto simp: populateCommandIO_def action_populateCommandIO_def c)
    note f = populateCommandIO_spec(1,9) [OF p]
    obtain st ran where st: "eRace E (aCalls a @ [ProcessInputsCall]) = (st, ran)" by fastforce
    have e: "eRace E (aCalls a1) = (st, ran)" using st f(1) c by simp
    let ?a2 = "did RaceCall (a1\<lparr>aRes := ares st, aExecutedLocally := executedLocally st\<rparr>)"
    have "Some (s', a') = Some (s1\<lparr>sNumFallbacks := sNumFallbacks s1 + numFallbacks st\<rparr>,
        if ares st = None then ?a2\<lparr>aRes := Some (NewLocalErrorResult (eSdk E) (ErrOther ''racing did not produce a result''))\<rparr> else ?a2)"
      using assms by (auto simp add: runRacing_def a0 p e Let_def split: if_splits)
    then show ?thesis using Ok st f c by (cases "ares st") simp_all
  next
    case (Err e)
    then obtain s1 a1 where p: "populateCommandIO E s a0 = Some (s1, a1, Some e)"
      by (auto simp: populateCommandIO_def action_populateCommandIO_def c)
    then have "(s', a') = (s1, a1)" using assms a0 by (simp add: runRacing_def)
    then show ?thesis using Err populateCommandIO_spec(1,3,9) [OF p] c by auto
  next
    case Panic
    then have "populateCommandIO E s a0 = None" by (simp add: populateCommandIO_def action_populateCommandIO_def c)
    then show ?thesis using assms a0 by (simp add: runRacing_def)
  qed
qed



text \<open>C29: Running locally with the remote cache stores a result in the cache only after an ok local
  run that may be cached.\<close>

theorem runLERC_caches_only_success:
  assumes "runLERC E s a = Some (s', a')" and "UpdateCacheCall \<notin> set (aCalls a)" and "UpdateCacheCall \<in> set (aCalls a')"
  shows "\<exists>r. aRes a' = Some r \<and> IsOk (eSdk E) r \<and> aExecutedLocally a' \<and> \<not> aLocalDoNotCache a"
proof -
  have "n_calls UpdateCacheCall a' \<noteq> n_calls UpdateCacheCall a"
    using assms(2,3) by (simp add: n_calls_def count_list_0_iff)
  then show ?thesis using runLERC_post [OF assms(1)] by (simp add: lerc_post_def)
qed

theorem runLERC_caches_only_success_witness:
  "\<exists>s' a' r. runLERC demo_env demo_server (demo_action LOCAL) = Some (s', a') \<and> aRes a' = Some r \<and> IsOk demo_sdk r \<and>
     aExecutedLocally a'"
proof -
  have "case runLERC demo_env demo_server (demo_action LOCAL) of None \<Rightarrow> False
    | Some (s', a') \<Rightarrow> UpdateCacheCall \<in> set (aCalls a')"
    by code_simp
  then obtain s' a' where r: "runLERC demo_env demo_server (demo_action LOCAL) = Some (s', a')" "UpdateCacheCall \<in> set (aCalls a')"
    by (auto split: option.splits)
  then show ?thesis
    using runLERC_caches_only_success [OF r(1) _ r(2)] by (auto simp: demo_action_def demo_env_def)
qed

lemma runRemote_timeout_facts:
  assumes "sdk_ok (eSdk E)"
  shows "runRemote E s a = Some (s', a') \<Longrightarrow> aRes a' = Some r \<Longrightarrow> rErr r = Some ErrReclientTimeout \<Longrightarrow>
      r = timeout_result E \<and> aRemoteMetadata a' = Some (Some r)"
    and "\<not> eCleanIncludePaths E \<Longrightarrow> eProcessInputs E (aCalls a) = Err ErrReclientTimeout \<Longrightarrow>
      aRemoteMetadata a = None \<Longrightarrow> runRemote E s a = None"
proof -
  show "r = timeout_result E \<and> aRemoteMetadata a' = Some (Some r)"
    if run: "runRemote E s a = Some (s', a')" and r: "aRes a' = Some r" "rErr r = Some ErrReclientTimeout"
  proof -
    obtain a2 where d: "remote_deferred E a2 = Some a'" using runRemote_spec(4) [OF run] by blast
    show ?thesis using remote_deferred_spec(4) [OF d r] by simp
  qed
  show "runRemote E s a = None"
    if "\<not> eCleanIncludePaths E" "eProcessInputs E (aCalls a) = Err ErrReclientTimeout" "aRemoteMetadata a = None"
    using that sdk_local_error(3) [OF assms]
    by (simp add: runRemote_def clean_args_def populateCommandIO_def action_populateCommandIO_def remote_deferred_def)
qed


text \<open>A remote run that ends with the reclient timeout reports the timeout status and exit
  code, in the result and in the record. If input processing fails with that error while the
  record has no remote metadata yet, the deferred update dereferences nil.\<close>

theorem runRemote_timeout:
  assumes "sdk_ok (eSdk E)"
  shows "(runRemote E s a = Some (s', a') \<longrightarrow> aRes a' = Some r \<longrightarrow> rErr r = Some ErrReclientTimeout \<longrightarrow>
      r = timeout_result E \<and> aRemoteMetadata a' = Some (Some r)) \<and>
    (\<not> eCleanIncludePaths E \<longrightarrow> eProcessInputs E (aCalls a) = Err ErrReclientTimeout \<longrightarrow>
      aRemoteMetadata a = None \<longrightarrow> runRemote E s a = None)"
  by (rule conjI, (intro impI, rule runRemote_timeout_facts(1) [OF assms]; assumption), (intro impI, rule runRemote_timeout_facts(2) [OF assms]; assumption))

theorem runRemote_timeout_witness:
  "runRemote (demo_env\<lparr>eProcessInputs := \<lambda>_. Err ErrReclientTimeout\<rparr>) demo_server (demo_action REMOTE) = None"
  using runRemote_timeout [of "demo_env\<lparr>eProcessInputs := \<lambda>_. Err ErrReclientTimeout\<rparr>"
      demo_server "demo_action REMOTE"]
  by (simp add: demo_env_def demo_action_def)

text \<open>Local execution keeps the environment of the request out of the action's input spec,
  except with a local wrapper: then the input spec is overwritten by it.\<close>

theorem runLocal_input_env:
  assumes "runLocal E a = Some a'"
  shows "aInputEnv a' =
    (if aHasInputSpec a \<and> aLocalWrapper a \<noteq> [] then the (sliceToMap (aCmdEnvironment a) ''='') else aInputEnv a)"
  using assms by (auto simp: runLocal_def run_in_pool_def did_def Let_def split: option.splits if_splits)

theorem runLocal_input_env_witness:
  "\<exists>a'. runLocal demo_env ((demo_action LOCAL)\<lparr>aLocalWrapper := ''w''\<rparr>) = Some a' \<and> aInputEnv a' ''A'' = Some ''b''"
proof -
  let ?a = "(demo_action LOCAL)\<lparr>aLocalWrapper := ''w''\<rparr>"
  obtain a' where a': "runLocal demo_env ?a = Some a'"
    using runLocal_total [of ?a demo_env] by (auto simp: demo_action_def)
  have "the (sliceToMap (aCmdEnvironment ?a) ''='') ''A'' = Some ''b''" by code_simp
  then have "aInputEnv a' ''A'' = Some ''b''"
    using runLocal_input_env [OF a'] by (simp add: demo_action_def)
  then show ?thesis using a' by blast
qed

end
