(* ===== verification/Logger.thy ===== *)
theory Logger
  imports Execution
begin

text \<open>
  The logger of \<open>internal/pkg/logger/logger.go\<close>: the events its goroutine applies and the
  counters they keep, the completion status of a record, log formats and paths, the encoding
  of records in a log file and reading them back, event times, and the metrics of the proxy
  info. The protobuf text encoding is an argument. Statistics, the metrics exporter and the
  upload to BigQuery are other components; their calls are left out here.
\<close>

section \<open>Events\<close>

datatype CompletionStatus =
  STATUS_UNKNOWN | STATUS_CACHE_HIT | STATUS_LOCAL_EXECUTION | STATUS_REMOTE_EXECUTION | STATUS_LOCAL_FALLBACK
| STATUS_RACING_LOCAL | STATUS_RACING_REMOTE | STATUS_NON_ZERO_EXIT | STATUS_TIMEOUT | STATUS_INTERRUPTED
| STATUS_REMOTE_FAILURE | STATUS_LOCAL_FAILURE

text \<open>A record is named by a number; \<open>recOpen\<close> is its flag \<open>open\<close>. Times count nanoseconds.\<close>

record Logger =
  lrunning :: int
  lpeak :: int
  lcompleted :: "CompletionStatus \<Rightarrow> int"
  recOpen :: "nat list"
  lqps :: int
  qpsStartTime :: int
  qpsLastDuration :: int
  qpsCount :: int
  lwritten :: "nat list"
  samples :: "int list"

definition new_logger :: Logger where
  "new_logger = \<lparr>lrunning = 0, lpeak = 0, lcompleted = (\<lambda>_. 0), recOpen = [], lqps = 0, qpsStartTime = 0,
     qpsLastDuration = 0, qpsCount = 0, lwritten = [], samples = []\<rparr>"

definition startAction_apply :: "int \<Rightarrow> nat \<Rightarrow> Logger \<Rightarrow> Logger" where
  "startAction_apply now lr l =
     (if lr \<in> set (recOpen l) then l
      else
        (let l1 = l\<lparr>recOpen := lr # recOpen l\<rparr>;
             l2 = (if lrunning l1 = 0 then l1\<lparr>qpsStartTime := now\<rparr> else l1);
             l3 = l2\<lparr>lrunning := lrunning l2 + 1\<rparr> in
         l3\<lparr>lpeak := max (lrunning l3) (lpeak l3)\<rparr>))"

definition endAction_apply :: "int \<Rightarrow> nat \<Rightarrow> CompletionStatus \<Rightarrow> Logger \<Rightarrow> Logger" where
  "endAction_apply now lr status l =
     (if lr \<notin> set (recOpen l) then l
      else
        (let l1 = l\<lparr>recOpen := removeAll lr (recOpen l),
                    lcompleted := (lcompleted l)(status := lcompleted l status + 1),
                    lrunning := lrunning l - 1, qpsCount := qpsCount l + 1\<rparr>;
             totalDuration = (now - qpsStartTime l) + qpsLastDuration l;
             seconds = totalDuration div 1000000000;
             l2 = (if seconds > 0 then l1\<lparr>lqps := qpsCount l1 div seconds\<rparr> else l1);
             l3 = (if lrunning l2 = 0 then l2\<lparr>qpsLastDuration := totalDuration, qpsStartTime := now\<rparr> else l2) in
         l3\<lparr>lwritten := lwritten l @ [lr]\<rparr>))"

text \<open>\<open>collectResourceUsageSamples\<close> swaps the peak for zero.\<close>

definition collect_peak :: "Logger \<Rightarrow> Logger" where
  "collect_peak l = l\<lparr>samples := samples l @ [lpeak l], lpeak := 0\<rparr>"

datatype log_event = StartEvent int nat | EndEvent int nat CompletionStatus | SampleEvent

fun apply_event :: "log_event \<Rightarrow> Logger \<Rightarrow> Logger" where
  "apply_event (StartEvent now lr) = startAction_apply now lr"
| "apply_event (EndEvent now lr status) = endAction_apply now lr status"
| "apply_event SampleEvent = collect_peak"

section \<open>Completion status\<close>

definition getCompletionStatus :: "ResultStatus \<Rightarrow> bool \<Rightarrow> ExecStrategy \<Rightarrow> CompletionStatus" where
  "getCompletionStatus status execLocally execStrategy =
     (case status of
        NON_ZERO_EXIT \<Rightarrow> STATUS_NON_ZERO_EXIT
      | CACHE_HIT \<Rightarrow> STATUS_CACHE_HIT
      | TIMEOUT \<Rightarrow> STATUS_TIMEOUT
      | INTERRUPTED \<Rightarrow> STATUS_INTERRUPTED
      | REMOTE_ERROR \<Rightarrow> STATUS_REMOTE_FAILURE
      | LOCAL_ERROR \<Rightarrow> STATUS_LOCAL_FAILURE
      | SUCCESS \<Rightarrow>
          (case execStrategy of
             LOCAL \<Rightarrow> STATUS_LOCAL_EXECUTION
           | REMOTE \<Rightarrow> if execLocally then STATUS_LOCAL_EXECUTION else STATUS_REMOTE_EXECUTION
           | REMOTE_LOCAL_FALLBACK \<Rightarrow> if execLocally then STATUS_LOCAL_FALLBACK else STATUS_REMOTE_EXECUTION
           | RACING \<Rightarrow> if execLocally then STATUS_RACING_LOCAL else STATUS_RACING_REMOTE
           | UNSPECIFIED \<Rightarrow> STATUS_UNKNOWN)
      | UNKNOWN_STATUS \<Rightarrow> STATUS_UNKNOWN)"

section \<open>Formats\<close>

datatype Format = TextFormat | ReducedTextFormat | OtherFormat

definition format_String :: "Format \<Rightarrow> string" where
  "format_String f =
     (case f of TextFormat \<Rightarrow> ''text'' | ReducedTextFormat \<Rightarrow> ''reducedtext'' | OtherFormat \<Rightarrow> ''unknown'')"

definition ParseFormat :: "string \<Rightarrow> (string, Format) res" where
  "ParseFormat fs =
     (if fs = ''text'' then Ok TextFormat
      else if fs = ''reducedtext'' then Ok ReducedTextFormat
      else Err (''unknown format: '' @ fs))"

definition ParseFilepath :: "string \<Rightarrow> (string, Format \<times> string) res" where
  "ParseFilepath formatfile =
     (if \<not> contains ''://'' formatfile then Err (''unable to parse file format from '' @ formatfile)
      else
        (let i = length (before_first ''://'' formatfile) in
         res_bind (ParseFormat (take i formatfile)) (\<lambda>f. Ok (f, drop (i + 3) formatfile))))"

definition logFileSuffix :: "Format \<Rightarrow> string" where
  "logFileSuffix f = (case f of TextFormat \<Rightarrow> ''rpl'' | ReducedTextFormat \<Rightarrow> ''rrpl'' | OtherFormat \<Rightarrow> [])"

section \<open>Records in a file\<close>

text \<open>Of a record: the arguments of its command, the contents of the virtual inputs of the
  command's input, and the remaining fields.\<close>

record rec_command =
  rcArgs :: "string list"
  rcVirtualInputs :: "string list option"

record log_record =
  lrCommand :: "rec_command option"
  lrRest :: string

definition truncate_inputs :: "log_record \<Rightarrow> log_record" where
  "truncate_inputs r =
     r\<lparr>lrCommand := map_option (\<lambda>c. c\<lparr>rcVirtualInputs := map_option (map (take 1024)) (rcVirtualInputs c)\<rparr>) (lrCommand r)\<rparr>"

definition drop_command_details :: "log_record \<Rightarrow> log_record" where
  "drop_command_details r =
     r\<lparr>lrCommand := map_option (\<lambda>c. c\<lparr>rcVirtualInputs := None, rcArgs := []\<rparr>) (lrCommand r)\<rparr>"

text \<open>What is written for a record.\<close>

definition stored_record :: "Format \<Rightarrow> log_record \<Rightarrow> log_record" where
  "stored_record f r = truncate_inputs (if f = ReducedTextFormat then drop_command_details r else r)"

definition textDelimiter :: string where
  "textDelimiter = [CHR 0x0A, CHR 0x0A, CHR 0x0A]"

definition toBytes :: "(log_record \<Rightarrow> string option) \<Rightarrow> Format \<Rightarrow> log_record \<Rightarrow> (string, string) res" where
  "toBytes marshal f r =
     (if f \<noteq> TextFormat \<and> f \<noteq> ReducedTextFormat then Err ''only text or reducedtext formats are currently supported''
      else case marshal (stored_record f r) of
             None \<Rightarrow> Err ''marshal''
           | Some textb \<Rightarrow> Ok (textb @ textDelimiter))"

definition toBigQueryRecords :: "bool \<Rightarrow> log_record \<Rightarrow> log_record" where
  "toBigQueryRecords cacheHit r = truncate_inputs (if cacheHit then drop_command_details r else r)"

text \<open>\<open>strings.Split\<close> with a non-empty separator.\<close>

function str_split :: "string \<Rightarrow> string \<Rightarrow> string list" where
  "str_split sp s =
     (if sp = [] then [s]
      else if prefix sp s then [] # str_split sp (drop (length sp) s)
      else case s of
             [] \<Rightarrow> [[]]
           | c # s' \<Rightarrow> (case str_split sp s' of [] \<Rightarrow> [[c]] | w # ws \<Rightarrow> (c # w) # ws))"
  by pat_completeness auto

termination
  by (relation "measure (\<lambda>(sp, s). length s)") (auto simp: prefix_def)

declare str_split.simps [simp del]

fun unmarshal_all :: "(string \<Rightarrow> log_record option) \<Rightarrow> string list \<Rightarrow> log_record list option" where
  "unmarshal_all unmarshal [] = Some []"
| "unmarshal_all unmarshal (s # ss) =
     (case unmarshal s of
        None \<Rightarrow> None
      | Some r \<Rightarrow> map_option (\<lambda>rs. r # rs) (unmarshal_all unmarshal ss))"

definition ParseFromFile :: "(string \<Rightarrow> log_record option) \<Rightarrow> Format \<Rightarrow> string option \<Rightarrow> log_record list option" where
  "ParseFromFile unmarshal f file =
     (if f \<noteq> TextFormat \<and> f \<noteq> ReducedTextFormat then None
      else case file of
             None \<Rightarrow> None
           | Some bytes \<Rightarrow> unmarshal_all unmarshal (butlast (str_split textDelimiter bytes)))"

section \<open>Event times and metrics\<close>

type_synonym time_interval = "int option \<times> int option"

text \<open>\<^const>\<open>None\<close> is a nil local metadata or event time map.\<close>

definition RecordEventTime :: "int \<Rightarrow> string \<Rightarrow> int \<Rightarrow> (string \<rightharpoonup> time_interval) option \<Rightarrow> (string \<rightharpoonup> time_interval) option" where
  "RecordEventTime now event from et =
     Some ((case et of None \<Rightarrow> Map.empty | Some m \<Rightarrow> m)(event \<mapsto> (Some from, Some now)))"

definition CopyEventTimesFrom :: "(string \<rightharpoonup> time_interval) option \<Rightarrow> (string \<rightharpoonup> time_interval) \<Rightarrow> (string \<rightharpoonup> time_interval)" where
  "CopyEventTimesFrom other et = (case other of None \<Rightarrow> et | Some m \<Rightarrow> et ++ m)"

definition EndAllEventTimes :: "int \<Rightarrow> (string \<rightharpoonup> time_interval) option \<Rightarrow> (string \<rightharpoonup> time_interval) option" where
  "EndAllEventTimes now et =
     map_option (\<lambda>m. \<lambda>k. map_option (\<lambda>(from, to). (from, Some (case to of None \<Rightarrow> now | Some t \<Rightarrow> t))) (m k)) et"

datatype Metric = IntMetric int | DoubleMetric string | BoolMetric bool

definition IncrementMetricIntToProxyInfo :: "string \<Rightarrow> int \<Rightarrow> (string \<rightharpoonup> Metric) \<Rightarrow> (string \<rightharpoonup> Metric)" where
  "IncrementMetricIntToProxyInfo key delta m =
     (case m key of
        None \<Rightarrow> m(key \<mapsto> IntMetric delta)
      | Some (IntMetric v) \<Rightarrow> m(key \<mapsto> IntMetric (v + delta))
      | Some _ \<Rightarrow> m)"

definition AddMetricIntToProxyInfo :: "string \<Rightarrow> int \<Rightarrow> (string \<rightharpoonup> Metric) \<Rightarrow> (string \<rightharpoonup> Metric)" where
  "AddMetricIntToProxyInfo key v m = m(key \<mapsto> IntMetric v)"

section \<open>Counters\<close>

definition logger_inv :: "Logger \<Rightarrow> bool" where
  "logger_inv l \<longleftrightarrow> distinct (recOpen l) \<and> lrunning l = int (length (recOpen l)) \<and>
     (\<Sum>st \<in> UNIV. lcompleted l st) = int (length (lwritten l)) \<and> qpsCount l = int (length (lwritten l))"

lemma UNIV_CompletionStatus:
  "UNIV = {STATUS_UNKNOWN, STATUS_CACHE_HIT, STATUS_LOCAL_EXECUTION, STATUS_REMOTE_EXECUTION, STATUS_LOCAL_FALLBACK,
     STATUS_RACING_LOCAL, STATUS_RACING_REMOTE, STATUS_NON_ZERO_EXIT, STATUS_TIMEOUT, STATUS_INTERRUPTED,
     STATUS_REMOTE_FAILURE, STATUS_LOCAL_FAILURE}"
proof -
  have "x \<in> {STATUS_UNKNOWN, STATUS_CACHE_HIT, STATUS_LOCAL_EXECUTION, STATUS_REMOTE_EXECUTION, STATUS_LOCAL_FALLBACK,
     STATUS_RACING_LOCAL, STATUS_RACING_REMOTE, STATUS_NON_ZERO_EXIT, STATUS_TIMEOUT, STATUS_INTERRUPTED,
     STATUS_REMOTE_FAILURE, STATUS_LOCAL_FAILURE}" for x :: CompletionStatus
    by (cases x) simp_all
  then show ?thesis by blast
qed

lemma finite_CompletionStatus [simp]: "finite (UNIV :: CompletionStatus set)"
  by (subst UNIV_CompletionStatus) simp

lemma sum_status_add:
  "(\<Sum>st \<in> UNIV. (f(s := f s + 1)) st) = (\<Sum>st \<in> UNIV. f st) + (1 :: int)" for f :: "CompletionStatus \<Rightarrow> int"
proof -
  have "(\<Sum>st \<in> UNIV. (f(s := f s + 1)) st) = (\<Sum>st \<in> UNIV. f st + (if st = s then 1 else 0))"
    by (rule sum.cong) auto
  then show ?thesis by (simp add: sum.distrib)
qed

lemma length_removeAll_distinct: "distinct xs \<Longrightarrow> x \<in> set xs \<Longrightarrow> length (removeAll x xs) = length xs - 1"
  by (simp add: distinct_remove1_removeAll [symmetric] length_remove1)

lemma logger_inv_start: "logger_inv l \<Longrightarrow> logger_inv (startAction_apply now lr l)"
  by (auto simp: logger_inv_def startAction_apply_def Let_def)

lemma endAction_apply_fields:
  assumes "lr \<in> set (recOpen l)"
  shows "recOpen (endAction_apply now lr st l) = removeAll lr (recOpen l)"
    "lrunning (endAction_apply now lr st l) = lrunning l - 1"
    "lcompleted (endAction_apply now lr st l) = (lcompleted l)(st := lcompleted l st + 1)"
    "qpsCount (endAction_apply now lr st l) = qpsCount l + 1"
    "lwritten (endAction_apply now lr st l) = lwritten l @ [lr]"
  using assms by (simp_all add: endAction_apply_def Let_def)

lemma logger_inv_end: "logger_inv l \<Longrightarrow> logger_inv (endAction_apply now lr st l)"
proof (cases "lr \<in> set (recOpen l)")
  case True
  assume inv: "logger_inv l"
  have "length (recOpen l) \<ge> 1" using True by (cases "recOpen l") auto
  then show ?thesis
    using inv True length_removeAll_distinct [of "recOpen l" lr] distinct_removeAll [of "recOpen l" lr]
    unfolding logger_inv_def endAction_apply_fields [OF True] sum_status_add by simp
qed (simp add: endAction_apply_def)

lemma logger_inv_event: "logger_inv l \<Longrightarrow> logger_inv (apply_event e l)"
  using logger_inv_start logger_inv_end
  by (cases e) (auto simp: collect_peak_def logger_inv_def)

lemma logger_inv_fold: "logger_inv l \<Longrightarrow> logger_inv (fold apply_event es l)"
  by (induction es arbitrary: l) (auto simp: logger_inv_event)

section \<open>Splitting a log file\<close>

lemma str_split_Nil: "sp \<noteq> [] \<Longrightarrow> str_split sp [] = [[]]"
  by (subst str_split.simps) simp

lemma str_split_here: "sp \<noteq> [] \<Longrightarrow> str_split sp (sp @ s) = [] # str_split sp s"
  by (subst str_split.simps) simp

lemma str_split_first:
  assumes "sp \<noteq> []" "\<And>i. i < length u \<Longrightarrow> \<not> prefix sp (drop i (u @ sp @ s))"
  shows "str_split sp (u @ sp @ s) = u # str_split sp s"
  using assms(2)
proof (induction u)
  case Nil
  then show ?case using str_split_here [OF assms(1)] by simp
next
  case (Cons c u)
  have "\<not> prefix sp (c # u @ sp @ s)" using Cons.prems [of 0] by simp
  moreover have "str_split sp (u @ sp @ s) = u # str_split sp s"
  proof (rule Cons.IH)
    show "\<not> prefix sp (drop i (u @ sp @ s))" if "i < length u" for i
      using Cons.prems [of "Suc i"] that by simp
  qed
  ultimately show ?case using assms(1) by (subst str_split.simps) simp
qed

text \<open>A text without three line feeds in a row that ends in another character.\<close>

definition plain_text :: "string \<Rightarrow> bool" where
  "plain_text u \<longleftrightarrow> u \<noteq> [] \<and> last u \<noteq> CHR 0x0A \<and> \<not> contains textDelimiter u"

lemma contains_drop: "contains sp (drop i u) \<Longrightarrow> contains sp u"
proof (induction u arbitrary: i)
  case (Cons c u)
  then show ?case by (cases i) auto
qed simp

lemma contains_prefix: "prefix sp u \<Longrightarrow> contains sp u"
  by (cases u) auto

lemma plain_text_no_delimiter:
  assumes "plain_text u" "i < length u"
  shows "\<not> prefix textDelimiter (drop i (u @ s))"
proof
  assume p: "prefix textDelimiter (drop i (u @ s))"
  have d: "drop i (u @ s) = drop i u @ s" using assms(2) by simp
  show False
  proof (cases "length u - i \<ge> 3")
    case True
    then have "length textDelimiter \<le> length (drop i u)" by (simp add: textDelimiter_def)
    then have "prefix textDelimiter (drop i u)"
      using p prefix_length_prefix [of textDelimiter "drop i u @ s" "drop i u"] unfolding d by simp
    then show False using assms(1) contains_prefix contains_drop unfolding plain_text_def by blast
  next
    case False
    have "u \<noteq> []" using assms(2) by auto
    moreover have "length u - 1 - i < length (drop i u)" using assms(2) by simp
    ultimately have "last u = (drop i u @ s) ! (length u - 1 - i)"
      using assms(2) by (simp add: last_conv_nth nth_append)
    moreover have "(drop i u @ s) ! k = CHR 0x0A" if "k < 3" for k
    proof -
      obtain t where t: "drop i u @ s = textDelimiter @ t" using p unfolding d by (auto simp: prefix_def)
      show ?thesis using that unfolding t by (auto simp: textDelimiter_def nth_Cons less_Suc_eq numeral_3_eq_3 split: nat.split)
    qed
    ultimately show False using assms False by (auto simp: plain_text_def)
  qed
qed

lemma str_split_plain: "plain_text u \<Longrightarrow> str_split textDelimiter (u @ textDelimiter @ s) = u # str_split textDelimiter s"
  using plain_text_no_delimiter [of u _ "textDelimiter @ s"]
  by (intro str_split_first) (simp_all add: textDelimiter_def)

definition newline :: char where
  "newline = CHR 0x0A"

definition text_body :: "string \<Rightarrow> bool" where
  "text_body u \<longleftrightarrow> plain_text u \<and> hd u \<noteq> newline"

definition log_text :: "string list \<Rightarrow> string" where
  "log_text us = concat (map (\<lambda>u. u @ [newline] @ textDelimiter) us)"

lemma log_text_Cons: "log_text (u # us) = u @ textDelimiter @ newline # log_text us"
  by (simp add: log_text_def textDelimiter_def newline_def)

lemma plain_newline: "text_body u \<Longrightarrow> plain_text (newline # u)"
  by (cases u) (auto simp: text_body_def plain_text_def textDelimiter_def newline_def)

lemma str_split_newline: "str_split textDelimiter [newline] = [[newline]]"
  by (subst str_split.simps) (simp add: textDelimiter_def newline_def str_split_Nil)

lemma str_split_log_tail:
  "\<forall>u \<in> set us. text_body u \<Longrightarrow>
   str_split textDelimiter (newline # log_text us) = map (Cons newline) us @ [[newline]]"
proof (induction us)
  case Nil
  then show ?case by (simp add: log_text_def str_split_newline)
next
  case (Cons u us)
  then show ?case
    using str_split_plain [OF plain_newline, of u "newline # log_text us"] by (simp add: log_text_Cons)
qed

lemma str_split_log:
  assumes "\<forall>u \<in> set (u # us). text_body u"
  shows "butlast (str_split textDelimiter (log_text (u # us))) = u # map (Cons newline) us"
  using assms str_split_plain [of u "newline # log_text us"] str_split_log_tail [of us]
  by (simp add: log_text_Cons text_body_def)

lemma unmarshal_all_map:
  "(\<And>x. x \<in> set xs \<Longrightarrow> unmarshal (f x) = Some (g x)) \<Longrightarrow> unmarshal_all unmarshal (map f xs) = Some (map g xs)"
  by (induction xs) auto

text \<open>The law of the text encoding: a text body and a line feed; decoding ignores a line feed
  before and after the body.\<close>

definition text_encoding :: "(log_record \<Rightarrow> string option) \<Rightarrow> (string \<Rightarrow> log_record option) \<Rightarrow> bool" where
  "text_encoding marshal unmarshal \<longleftrightarrow>
     (\<forall>r t. marshal r = Some t \<longrightarrow> (\<exists>u. t = u @ [newline] \<and> text_body u \<and>
        unmarshal u = Some r \<and> unmarshal (newline # u) = Some r))"

section \<open>Properties\<close>

lemma logger_counts_facts:
  "lrunning (fold apply_event es new_logger) = int (card (set (recOpen (fold apply_event es new_logger))))"
  "(\<Sum>st \<in> UNIV. lcompleted (fold apply_event es new_logger) st) = int (length (lwritten (fold apply_event es new_logger)))"
proof -
  have "logger_inv new_logger" by (simp add: logger_inv_def new_logger_def)
  then have "logger_inv (fold apply_event es new_logger)" by (rule logger_inv_fold)
  then show "lrunning (fold apply_event es new_logger) = int (card (set (recOpen (fold apply_event es new_logger))))"
    "(\<Sum>st \<in> UNIV. lcompleted (fold apply_event es new_logger) st) = int (length (lwritten (fold apply_event es new_logger)))"
    by (simp_all add: logger_inv_def distinct_card)
qed


text \<open>After any sequence of events the number of running actions is the number of records
  started and not ended, and the completed actions over all states are the records written:
  starting an open record or ending a closed one changes nothing.\<close>

theorem logger_counts:
  "(lrunning (fold apply_event es new_logger) = int (card (set (recOpen (fold apply_event es new_logger))))) \<and>
    ((\<Sum>st \<in> UNIV. lcompleted (fold apply_event es new_logger) st) = int (length (lwritten (fold apply_event es new_logger))))"
  by (rule conjI, rule logger_counts_facts(1), rule logger_counts_facts(2))

text \<open>A sample taken while actions run and none starts reports no running actions: the peak is
  raised only by a start.\<close>

lemma idle_sample_reports_zero:
  "samples (collect_peak (collect_peak l)) = samples l @ [lpeak l, 0]"
  by (simp add: collect_peak_def)



text \<open>Log paths round trip: a supported format and any path printed as \<open>format://path\<close> are
  parsed back; a text without \<open>://\<close> or with another format is an error.\<close>

theorem ParseFilepath_roundtrip:
  "f \<noteq> OtherFormat \<Longrightarrow> ParseFilepath (format_String f @ ''://'' @ path) = Ok (f, path)"
  "\<not> contains ''://'' s \<Longrightarrow> \<exists>e. ParseFilepath s = Err e"
  by (cases f) (simp_all add: ParseFilepath_def format_String_def ParseFormat_def)

theorem ParseFilepath_roundtrip_witness:
  "ParseFilepath (format_String TextFormat @ ''://'' @ ''/tmp/x'') = Ok (TextFormat, ''/tmp/x'')"
  by (rule ParseFilepath_roundtrip(1)) simp

text \<open>The completion status tells local from remote execution.\<close>

lemma completion_status_local:
  "getCompletionStatus SUCCESS loc st \<in> {STATUS_LOCAL_FALLBACK, STATUS_RACING_LOCAL} \<Longrightarrow> loc"
  "getCompletionStatus SUCCESS loc st \<in> {STATUS_REMOTE_EXECUTION, STATUS_RACING_REMOTE} \<Longrightarrow> \<not> loc"
  by (cases st; auto simp: getCompletionStatus_def split: if_splits)+

end
