(* ===== verification/Numbers.thy ===== *)
theory Numbers
  imports Prelude
begin

text \<open>
  Numbers as the code prints, parses and converts them: digits in a base up to ten (\<open>fmt\<close>'s
  \<open>%d\<close> and \<open>%v\<close>, \<open>strconv.ParseInt\<close>), the conversion to \<open>int32\<close>, which wraps around, and Go's
  division, which rounds towards zero.
\<close>

section \<open>Conversions\<close>

definition to_int32 :: "int \<Rightarrow> int" where
  "to_int32 n = signed_take_bit 31 n"

definition go_quot :: "int \<Rightarrow> int \<Rightarrow> int" where
  "go_quot a b = sgn a * sgn b * (\<bar>a\<bar> div \<bar>b\<bar>)"

section \<open>Parsing\<close>

fun parse_digits :: "int \<Rightarrow> int \<Rightarrow> string \<Rightarrow> int option" where
  "parse_digits b acc [] = Some acc"
| "parse_digits b acc (c # cs) =
     (let d = of_char c - 48 in if 0 \<le> d \<and> d < b then parse_digits b (acc * b + d) cs else None)"

definition signed_digits :: "string \<Rightarrow> bool \<times> string" where
  "signed_digits s =
     (case s of
        [] \<Rightarrow> (False, [])
      | c # cs \<Rightarrow> if c = CHR ''-'' then (True, cs) else if c = CHR ''+'' then (False, cs) else (False, s))"

definition ParseInt :: "int \<Rightarrow> nat \<Rightarrow> string \<Rightarrow> int option" where
  "ParseInt b bits s =
     (let (neg, ds) = signed_digits s in
      if ds = [] then None
      else case parse_digits b 0 ds of
             None \<Rightarrow> None
           | Some n \<Rightarrow>
               let v = (if neg then - n else n) in
               if - (2 ^ (bits - 1)) \<le> v \<and> v < 2 ^ (bits - 1) then Some v else None)"

section \<open>Printing\<close>

text \<open>The digits of a number, most significant first.\<close>

function show_base :: "nat \<Rightarrow> nat \<Rightarrow> string" where
  "show_base b n = (if b < 2 \<or> n < b then [char_of (48 + n)] else show_base b (n div b) @ [char_of (48 + n mod b)])"
  by auto
termination by (relation "measure snd") auto

declare show_base.simps [simp del]

definition show_signed :: "int \<Rightarrow> string" where
  "show_signed n = (if n < 0 then CHR ''-'' # show_base 10 (nat (- n)) else show_base 10 (nat n))"

section \<open>Round trip\<close>

lemma parse_digits_append:
  "parse_digits b acc (xs @ ys) = Option.bind (parse_digits b acc xs) (\<lambda>a. parse_digits b a ys)"
  by (induction xs arbitrary: acc) (simp_all add: Let_def)

lemma digit_code: "d < 10 \<Longrightarrow> (of_char (char_of (48 + d)) :: nat) = 48 + d"
  by simp

lemma parse_digit:
  assumes "d < b" "b \<le> 10"
  shows "parse_digits (int b) acc [char_of (48 + d)] = Some (acc * int b + int d)"
proof -
  have "(of_char (char_of (48 + d)) :: int) = int (of_char (char_of (48 + d)))" by (rule of_nat_of_char [symmetric])
  also have "\<dots> = 48 + int d" using digit_code [of d] assms by linarith
  finally show ?thesis using assms by (simp only: parse_digits.simps) (simp add: Let_def)
qed

lemma parse_show: "2 \<le> b \<Longrightarrow> b \<le> 10 \<Longrightarrow> parse_digits (int b) 0 (show_base b n) = Some (int n)"
proof (induction b n rule: show_base.induct)
  case (1 b n)
  show ?case
  proof (cases "n < b")
    case True
    then show ?thesis using 1 parse_digit [of n b 0] by (simp add: show_base.simps [of b n])
  next
    case False
    then have "parse_digits (int b) 0 (show_base b (n div b)) = Some (int (n div b))" using 1 by simp
    then show ?thesis
      using False 1 parse_digit [of "n mod b" b "int (n div b)"]
      by (simp add: show_base.simps [of b n] parse_digits_append flip: of_nat_mult of_nat_add)
  qed
qed

lemma show_base_digits:
  "2 \<le> b \<Longrightarrow> b \<le> 10 \<Longrightarrow> c \<in> set (show_base b n) \<Longrightarrow> 48 \<le> (of_char c :: nat) \<and> (of_char c :: nat) < 58"
proof (induction b n rule: show_base.induct)
  case (1 b n)
  have d: "48 \<le> (of_char (char_of (48 + d)) :: nat) \<and> (of_char (char_of (48 + d)) :: nat) < 58" if "d < 10" for d :: nat
    unfolding digit_code [OF that] using that by simp
  show ?case
  proof (cases "n < b")
    case True
    then have "c = char_of (48 + n)" "n < 10" using "1.prems" by (simp_all add: show_base.simps [of b n])
    then show ?thesis using d by blast
  next
    case False
    then have "c \<in> set (show_base b (n div b)) \<or> c = char_of (48 + n mod b)"
      using "1.prems" by (auto simp: show_base.simps [of b n])
    moreover have "n mod b < 10" using "1.prems" mod_less_divisor [of b n] by linarith
    moreover have "48 \<le> (of_char c :: nat) \<and> (of_char c :: nat) < 58" if "c \<in> set (show_base b (n div b))"
      using 1 False that by simp
    ultimately show ?thesis using d by metis
  qed
qed

lemma show_base_not_Nil [simp]: "show_base b n \<noteq> []"
  by (subst show_base.simps) simp

lemma signed_digits_show:
  assumes "2 \<le> b" "b \<le> 10"
  shows "signed_digits (show_base b n) = (False, show_base b n)"
  using show_base_digits [OF assms, of _ n] by (cases "show_base b n") (fastforce simp: signed_digits_def)+

lemma ParseInt_show_base:
  assumes "2 \<le> b" "b \<le> 10" "int n < 2 ^ (bits - 1)"
  shows "ParseInt (int b) bits (show_base b n) = Some (int n)"
proof -
  have "- (2 ^ (bits - 1)) \<le> int n" by (rule order_trans [of _ 0]) simp_all
  then show ?thesis
    using assms(3) by (simp add: ParseInt_def signed_digits_show [OF assms(1,2)] parse_show [OF assms(1,2)])
qed

lemma ParseInt_show_signed:
  assumes "- (2 ^ (bits - 1)) \<le> n" "n < 2 ^ (bits - 1)"
  shows "ParseInt 10 bits (show_signed n) = Some n"
proof (cases "n < 0")
  case True
  have "parse_digits 10 0 (show_base 10 (nat (- n))) = Some (- n)" using parse_show [of 10 "nat (- n)"] True by simp
  then show ?thesis using True assms by (simp add: ParseInt_def show_signed_def signed_digits_def)
next
  case False
  then show ?thesis using ParseInt_show_base [of 10 "nat n" bits] assms(2) by (simp add: show_signed_def)
qed

end
