(* ===== verification/Rerun.thy ===== *)
theory Rerun
  imports Execution Numbers
begin

text \<open>
  Reruns of an action in compare mode (\<open>internal/pkg/reproxy/server.go\<close>: \<open>rerunAction\<close>;
  \<open>action.go\<close>: \<open>duplicate\<close>, \<open>duplicateCmd\<close>). The remote reruns run in goroutines of their own:
  the attempt \<open>i\<close> meets the answers of the environment \<open>R i\<close>, and the order in which the
  attempts reach the channel is an argument \<open>arrival\<close>. The local reruns run one after the
  other, with the files that are input and output put back before each. \<^const>\<open>None\<close> is a
  run-time panic.
\<close>

section \<open>Duplicates\<close>

definition duplicateCmd :: "nat \<Rightarrow> action \<Rightarrow> action" where
  "duplicateCmd idx a = a\<lparr>aExecutionID := aExecutionID a @ ''-'' @ show_base 10 idx\<rparr>"

text \<open>A duplicate has a fresh record and fresh output, and always has remote options.\<close>

definition dup_options :: "RemoteExecutionOptions option \<Rightarrow> RemoteExecutionOptions" where
  "dup_options rop =
     (case rop of
        None \<Rightarrow> \<lparr>roAcceptCached = False, roDoNotCache = False, roDownloadOutputs = False, roPreserveMtime = False\<rparr>
      | Some r \<Rightarrow> r)"

definition duplicate_one :: "nat \<Rightarrow> action \<Rightarrow> action" where
  "duplicate_one i a =
     (duplicateCmd i a)\<lparr>aROpt := Some (dup_options (aROpt a)), aOE := ([], []),
       aExecutedLocally := False, aLocalResult := None, aRemoteMetadata := None, aCacheHit := False,
       aValidCacheHit := False, aUpdatedCache := False, aLocalReruns := [], aRemoteReruns := [],
       aVerification := None\<rparr>"

definition duplicate :: "int \<Rightarrow> action \<Rightarrow> action list" where
  "duplicate n a = map (\<lambda>i. duplicate_one i a) [0..<nat n]"

section \<open>Remote attempts\<close>

text \<open>The digests of one attempt as maps; later entries of a path win.\<close>

definition rerun_of :: "env \<Rightarrow> (string \<times> string) list \<times> (string \<times> string) list \<Rightarrow> int \<Rightarrow> Rerun" where
  "rerun_of E fd code =
     \<lparr>OutputFileDigests = map_of (rev (fst fd)), OutputDirectoryDigests = map_of (rev (snd fd)),
      visitOrder = eOrd E (remdups (map fst (fst fd) @ map fst (snd fd))), RerunExitCode = code\<rparr>"

definition remote_only :: "action \<Rightarrow> action" where
  "remote_only act =
     act\<lparr>aROpt := map_option (\<lambda>r. r\<lparr>roAcceptCached := False, roDoNotCache := True, roDownloadOutputs := False\<rparr>) (aROpt act)\<rparr>"

text \<open>The goroutine of one attempt: the metadata is read from the record of the duplicate, which
  must have remote metadata.\<close>

definition remote_attempt :: "env \<Rightarrow> nat \<Rightarrow> action \<Rightarrow> (nat \<times> Rerun) option" where
  "remote_attempt E i act =
     (let b = action_runRemote E (remote_only act) in
      case (aRes b, aRemoteMetadata b) of
        (Some r, Some _) \<Rightarrow> Some (i + 1, rerun_of E (eRemoteDigests E (aCalls b)) (rExitCode r))
      | _ \<Rightarrow> None)"

text \<open>All attempts; a channel of negative capacity panics.\<close>

definition remote_reruns ::
  "(nat \<Rightarrow> env) \<Rightarrow> ((nat \<times> Rerun) list \<Rightarrow> (nat \<times> Rerun) list) \<Rightarrow> action \<Rightarrow> Rerun list option" where
  "remote_reruns R arrival a =
     (if aNumRemoteReruns a < 0 then None
      else map_option (\<lambda>rs. map snd (sort_key fst (arrival rs)))
             (those (map (\<lambda>(i, act). remote_attempt (R i) i act)
               (enumerate 0 (duplicate (aNumRemoteReruns a) a)))))"

section \<open>Local attempts\<close>

text \<open>One pass of the loop: \<open>act\<close> is the duplicate, \<open>a\<close> the action, whose calls so far the
  duplicate continues. \<open>ComputeOutputsToUpload\<close> may return no result next to its error; the
  error is only logged and the result is read all the same.\<close>

definition put_back :: "action \<Rightarrow> action" where
  "put_back a = (if aCompare a then did StashCall (did RestoreCall (did ClearCacheCall a)) else did ClearCacheCall a)"

definition local_attempt :: "env \<Rightarrow> action \<Rightarrow> action \<Rightarrow> (action \<times> Rerun) option" where
  "local_attempt E act a =
     (case runLocal E (act\<lparr>aCalls := aCalls (put_back a)\<rparr>) of
        None \<Rightarrow> None
      | Some b \<Rightarrow>
          (case (aRes b, eLocalOutputs E (aCalls b)) of
             (Some r, Some fd) \<Rightarrow>
               Some (a\<lparr>aCalls := aCalls (did UploadCall (did ComputeOutputsCall b))\<rparr>, rerun_of E fd (rExitCode r))
           | _ \<Rightarrow> None))"

fun local_reruns :: "env \<Rightarrow> action list \<Rightarrow> action \<Rightarrow> (action \<times> Rerun list) option" where
  "local_reruns E [] a = Some (a, [])"
| "local_reruns E (act # acts) a =
     (case local_attempt E act a of
        None \<Rightarrow> None
      | Some (a1, r) \<Rightarrow> map_option (\<lambda>(a2, rs). (a2, r # rs)) (local_reruns E acts a1))"

section \<open>Reruns and comparison\<close>

definition to_compare :: "action \<Rightarrow> cmp_action" where
  "to_compare a =
     \<lparr>compareOn = aCompare a, localReruns = aLocalReruns a,
      remoteReruns = (if aRemoteMetadata a = None then None else Some (aRemoteReruns a)),
      numLocalReruns = aNumLocalReruns a, numRemoteReruns = aNumRemoteReruns a, aDigest = aActionDigest a\<rparr>"

text \<open>The list of files that are input and output is computed from the input spec, which must be
  present. The remote results are dropped when the action has no remote metadata.\<close>

definition rerunAction ::
  "(nat \<Rightarrow> env) \<Rightarrow> ((nat \<times> Rerun) list \<Rightarrow> (nat \<times> Rerun) list) \<Rightarrow> env \<Rightarrow> action \<Rightarrow> action option" where
  "rerunAction R arrival E a =
     (case remote_reruns R arrival a of
        None \<Rightarrow> None
      | Some rem \<Rightarrow>
          if \<not> aHasInputSpec a then None
          else
            (case local_reruns E (duplicate (aNumLocalReruns a) a) (did StashCall a) of
               None \<Rightarrow> None
             | Some (a1, loc) \<Rightarrow>
                 (let a2 = a1\<lparr>aLocalReruns := loc,
                              aRemoteReruns := (if aRemoteMetadata a = None then aRemoteReruns a else rem)\<rparr> in
                  Some (case compareAction (eOrd E) (to_compare a2) of
                          None \<Rightarrow> a2
                        | Some v \<Rightarrow> a2\<lparr>aVerification := Some v\<rparr>))))"

section \<open>Lemmas\<close>

text \<open>A remote attempt fails to deliver its metadata exactly when its temporary directory cannot
  be created.\<close>

lemma remote_attempt_None:
  "remote_attempt E i act = None \<longleftrightarrow> aAtomicDownloads act \<and> eTmpDir E (aCalls act) \<noteq> None"
  if "aRemoteMetadata act = None"
proof -
  have s: "\<exists>x. remote_attempt E i act = Some x"
    if b: "action_runRemote E (remote_only act) = record_digest E (remote_run E b)" for b
  proof -
    obtain r m where "aRes (remote_run E b) = Some r" "aRemoteMetadata (remote_run E b) = Some m"
      using remote_run_calls(2) [of E b] remote_run_metadata [of E b] by auto
    then show ?thesis by (simp add: remote_attempt_def b Let_def)
  qed
  have o [simp]: "aAtomicDownloads (remote_only act) = aAtomicDownloads act" "aCalls (remote_only act) = aCalls act"
    "aRemoteMetadata (remote_only act) = aRemoteMetadata act"
    by (simp_all add: remote_only_def)
  show ?thesis
  proof (cases "aAtomicDownloads act \<and> eTmpDir E (aCalls act) \<noteq> None")
    case True
    then show ?thesis using that by (auto simp: remote_attempt_def action_runRemote_def Let_def)
  next
    case False
    then have "\<exists>b. action_runRemote E (remote_only act) = record_digest E (remote_run E b)"
      by (auto simp: action_runRemote_def)
    then show ?thesis using s False by fastforce
  qed
qed

lemma remote_attempt_number: "remote_attempt E i act = Some x \<Longrightarrow> fst x = i + 1"
  by (auto simp: remote_attempt_def Let_def split: option.splits)

lemma those_Some: "those xs = Some ys \<longleftrightarrow> xs = map Some ys"
  by (induction xs arbitrary: ys) (auto split: option.splits simp: Cons_eq_map_conv)

lemma those_None: "those xs = None \<longleftrightarrow> None \<in> set xs"
  by (induction xs) (auto split: option.splits)

lemma duplicate_attempts:
  "map (\<lambda>(i, act). f i act) (enumerate 0 (duplicate n a)) = map (\<lambda>i. f i (duplicate_one i a)) [0..<nat n]"
  by (rule nth_equalityI) (simp_all add: duplicate_def nth_enumerate_eq)

definition permutes :: "('a list \<Rightarrow> 'a list) \<Rightarrow> bool" where
  "permutes f \<longleftrightarrow> (\<forall>xs. mset (f xs) = mset xs)"

text \<open>Sorting by attempt number undoes the order of arrival.\<close>

lemma sort_arrival:
  assumes "permutes arrival" and "map Some rs = map (\<lambda>i. remote_attempt (R i) i (act i)) [0..<n]"
  shows "sort_key fst (arrival rs) = rs"
proof -
  have l: "length rs = n" using arg_cong [OF assms(2), of length] by simp
  have r: "remote_attempt (R i) i (act i) = Some (rs ! i)" if "i < n" for i
    using arg_cong [OF assms(2), of "\<lambda>xs. xs ! i"] that l by simp
  have f: "map fst rs = map Suc [0..<n]"
    using remote_attempt_number [OF r] l by (auto intro: nth_equalityI)
  have s: "sorted (map fst rs)" and d: "distinct (map fst rs)"
    unfolding f by (auto simp: sorted_wrt_iff_nth_less distinct_map)
  have m: "mset (arrival rs) = mset rs" using assms(1) by (simp add: permutes_def)
  have "inj_on fst (set (arrival rs))" using d m by (metis distinct_map set_mset_mset)
  then show ?thesis using sort_key_inj_key_eq [OF m] s by blast
qed

lemma remote_reruns_spec:
  assumes "permutes arrival"
  shows "remote_reruns R arrival a =
     (if aNumRemoteReruns a < 0 then None
      else map_option (map snd) (those (map (\<lambda>i. remote_attempt (R i) i (duplicate_one i a)) [0..<nat (aNumRemoteReruns a)])))"
proof -
  have e: "map (\<lambda>(i, act). remote_attempt (R i) i act) (enumerate 0 (duplicate n a)) =
      map (\<lambda>i. remote_attempt (R i) i (duplicate_one i a)) [0..<nat n]" for n
    by (rule duplicate_attempts)
  show ?thesis
  proof (cases "those (map (\<lambda>i. remote_attempt (R i) i (duplicate_one i a)) [0..<nat (aNumRemoteReruns a)])")
    case None
    then show ?thesis by (simp add: remote_reruns_def e)
  next
    case (Some rs)
    then have "map Some rs = map (\<lambda>i. remote_attempt (R i) i (duplicate_one i a)) [0..<nat (aNumRemoteReruns a)]"
      unfolding those_Some by (rule sym)
    from sort_arrival [OF assms this] have "sort_key fst (arrival rs) = rs" .
    then show ?thesis by (simp add: remote_reruns_def e Some)
  qed
qed

text \<open>What one local attempt does to the action: it only adds calls, among them one restore and
  one stash in compare mode.\<close>

lemma local_attempt_spec:
  assumes "local_attempt E act a = Some (a1, r)"
  shows "\<exists>cs. a1 = a\<lparr>aCalls := aCalls a @ cs\<rparr> \<and>
     count_list cs StashCall = (if aCompare a then 1 else 0) \<and> count_list cs RestoreCall = (if aCompare a then 1 else 0) \<and>
     count_list cs PoolRunCall = 1"
proof -
  obtain b where b: "runLocal E (act\<lparr>aCalls := aCalls (put_back a)\<rparr>) = Some b"
    and a1: "a1 = a\<lparr>aCalls := aCalls (did UploadCall (did ComputeOutputsCall b))\<rparr>"
    using assms by (auto simp: local_attempt_def split: option.splits)
  let ?cs = "(if aCompare a then [ClearCacheCall, RestoreCall, StashCall] else [ClearCacheCall]) @ [PoolRunCall, ComputeOutputsCall, UploadCall]"
  have "aCalls b = aCalls (put_back a) @ [PoolRunCall]" using runLocal_calls [OF b] by simp
  then have "a1 = a\<lparr>aCalls := aCalls a @ ?cs\<rparr>" by (simp add: a1 did_def put_back_def)
  then show ?thesis by (intro exI [of _ ?cs]) simp
qed

lemma local_reruns_spec:
  assumes "local_reruns E acts a = Some (a1, rs)"
  shows "length rs = length acts \<and> (\<exists>cs. a1 = a\<lparr>aCalls := aCalls a @ cs\<rparr> \<and>
     count_list cs StashCall = count_list cs RestoreCall \<and> count_list cs PoolRunCall = length acts)"
  using assms
proof (induction acts arbitrary: a a1 rs)
  case Nil
  then show ?case by (auto intro: exI [of _ "[]"])
next
  case (Cons act acts)
  then obtain a0 r rs' where step: "local_attempt E act a = Some (a0, r)" "local_reruns E acts a0 = Some (a1, rs')" "rs = r # rs'"
    by (auto split: option.splits)
  obtain cs where cs: "a0 = a\<lparr>aCalls := aCalls a @ cs\<rparr>" "count_list cs StashCall = count_list cs RestoreCall"
    "count_list cs PoolRunCall = 1"
    using local_attempt_spec [OF step(1)] by auto
  obtain ds where "a1 = a0\<lparr>aCalls := aCalls a0 @ ds\<rparr>" "count_list ds StashCall = count_list ds RestoreCall"
    "count_list ds PoolRunCall = length acts" "length rs' = length acts"
    using Cons.IH [OF step(2)] by auto
  then show ?case using cs step(3) by (intro conjI exI [of _ "cs @ ds"]) simp_all
qed

lemma local_attempt_total:
  assumes "aHasInputSpec act \<longrightarrow> (\<forall>i \<in> set (aCmdEnvironment act). contains ''='' i)" and "\<And>cs. eLocalOutputs E cs \<noteq> None"
  shows "local_attempt E act a \<noteq> None"
proof -
  have "sliceToMap (aCmdEnvironment act) ''='' \<noteq> None \<or> \<not> aHasInputSpec act"
    using assms(1) sliceToMap_panics by blast
  then obtain b where b: "runLocal E (act\<lparr>aCalls := aCalls (put_back a)\<rparr>) = Some b"
    by (cases "aHasInputSpec act"; cases "sliceToMap (aCmdEnvironment act) ''=''") (auto simp: runLocal_def)
  obtain fd where "eLocalOutputs E (aCalls b) = Some fd" using assms(2) by blast
  then show ?thesis using runLocal_calls [OF b] b by (auto simp: local_attempt_def)
qed

lemma local_reruns_total:
  assumes "\<forall>act \<in> set acts. aHasInputSpec act \<longrightarrow> (\<forall>i \<in> set (aCmdEnvironment act). contains ''='' i)"
    and "\<And>cs. eLocalOutputs E cs \<noteq> None"
  shows "local_reruns E acts a \<noteq> None"
  using assms(1)
proof (induction acts arbitrary: a)
  case (Cons act acts)
  then show ?case using local_attempt_total [of act E a] assms(2) by (auto split: option.splits)
qed simp

lemma duplicate_one_simps [simp]:
  "aRemoteMetadata (duplicate_one i a) = None" "aAtomicDownloads (duplicate_one i a) = aAtomicDownloads a"
  "aCalls (duplicate_one i a) = aCalls a" "aHasInputSpec (duplicate_one i a) = aHasInputSpec a"
  "aCmdEnvironment (duplicate_one i a) = aCmdEnvironment a"
  by (simp_all add: duplicate_one_def duplicateCmd_def)

text \<open>Digests print as \<open>hash/size\<close>, which is clean as a path.\<close>

definition clean_digests :: "(string \<times> string) list \<times> (string \<times> string) list \<Rightarrow> bool" where
  "clean_digests fd \<longleftrightarrow> (\<forall>x \<in> set (fst fd @ snd fd). Clean (snd x) = snd x)"

lemma rerun_of_ok:
  assumes "iteration_order (eOrd E)" and "clean_digests fd"
  shows "rerun_ok (rerun_of E fd c)"
proof -
  have m: "mset (eOrd E (remdups (map fst (fst fd) @ map fst (snd fd)))) = mset (remdups (map fst (fst fd) @ map fst (snd fd)))"
    using assms(1) by (simp add: iteration_order_def)
  have "distinct (visitOrder (rerun_of E fd c))" "set (visitOrder (rerun_of E fd c)) = fst ` set (fst fd) \<union> fst ` set (snd fd)"
    using mset_eq_imp_distinct_iff [OF m] mset_eq_setD [OF m] by (simp_all add: rerun_of_def)
  moreover have "Clean dg = dg" if "all_digests (rerun_of E fd c) p = Some dg" for p dg
  proof -
    have "(p, dg) \<in> set (fst fd @ snd fd)"
      using that by (auto simp: all_digests_def rerun_of_def map_add_def split: option.splits dest: map_of_SomeD)
    then show ?thesis using assms(2) unfolding clean_digests_def by (metis snd_conv)
  qed
  ultimately show ?thesis
    by (auto simp: rerun_ok_def all_digests_def rerun_of_def dom_map_of_conv_image_fst)
qed

lemma remote_attempt_ok:
  assumes "iteration_order (eOrd E)" "\<And>cs. clean_digests (eRemoteDigests E cs)" "remote_attempt E i act = Some x"
  shows "rerun_ok (snd x)"
  using assms(3) by (auto simp: remote_attempt_def Let_def intro!: rerun_of_ok assms(1,2) split: option.splits)

lemma local_reruns_ok:
  assumes "iteration_order (eOrd E)" "\<And>cs fd. eLocalOutputs E cs = Some fd \<Longrightarrow> clean_digests fd"
    "local_reruns E acts a = Some (a1, rs)"
  shows "\<forall>r \<in> set rs. rerun_ok r"
  using assms(3)
proof (induction acts arbitrary: a rs)
  case (Cons act acts)
  then obtain a0 r rs' where step: "local_attempt E act a = Some (a0, r)" "local_reruns E acts a0 = Some (a1, rs')" "rs = r # rs'"
    by (auto split: option.splits)
  have "rerun_ok r"
    using step(1) by (auto simp: local_attempt_def intro!: rerun_of_ok assms(1,2) split: option.splits)
  then show ?case using Cons.IH [OF step(2)] step(3) by simp
qed simp

lemma compareAction_some: "compareOn a \<Longrightarrow> \<exists>v. compareAction ord a = Some v"
  by (simp add: compareAction_def Let_def split: prod.splits)

lemma rerunAction_cases:
  assumes "rerunAction R arrival E a = Some a'"
  obtains rem a1 loc where "remote_reruns R arrival a = Some rem" "aHasInputSpec a"
    "local_reruns E (duplicate (aNumLocalReruns a) a) (did StashCall a) = Some (a1, loc)"
    "aLocalReruns a' = loc" "aRemoteReruns a' = (if aRemoteMetadata a = None then aRemoteReruns a else rem)"
    "aCalls a' = aCalls a1" "aRes a' = aRes a1" "to_compare a' = to_compare (a1\<lparr>aLocalReruns := loc, aRemoteReruns := aRemoteReruns a'\<rparr>)"
    "aCompare a' = aCompare a1" "aRemoteMetadata a' = aRemoteMetadata a1"
    "aVerification a' = (case compareAction (eOrd E) (to_compare a') of None \<Rightarrow> aVerification a1 | Some v \<Rightarrow> Some v)"
  using assms
  by (auto simp: rerunAction_def Let_def to_compare_def split: option.splits if_splits)

lemma rerunAction_None:
  assumes "permutes arrival" and "\<forall>i \<in> set (aCmdEnvironment a). contains ''='' i" and "\<And>cs. eLocalOutputs E cs \<noteq> None"
  shows "rerunAction R arrival E a = None \<longleftrightarrow>
    aNumRemoteReruns a < 0 \<or> \<not> aHasInputSpec a \<or>
    aAtomicDownloads a \<and> (\<exists>i < nat (aNumRemoteReruns a). eTmpDir (R i) (aCalls a) \<noteq> None)"
proof -
  have "remote_reruns R arrival a = None \<longleftrightarrow>
      aNumRemoteReruns a < 0 \<or> (\<exists>i < nat (aNumRemoteReruns a). remote_attempt (R i) i (duplicate_one i a) = None)"
    by (auto simp: remote_reruns_spec [OF assms(1)] those_None image_iff) (metis atLeast0LessThan lessThan_iff)
  then have r: "remote_reruns R arrival a = None \<longleftrightarrow>
      aNumRemoteReruns a < 0 \<or> aAtomicDownloads a \<and> (\<exists>i < nat (aNumRemoteReruns a). eTmpDir (R i) (aCalls a) \<noteq> None)"
    using remote_attempt_None [of "duplicate_one _ a"] by auto
  have l: "local_reruns E (duplicate (aNumLocalReruns a) a) (did StashCall a) \<noteq> None"
    by (rule local_reruns_total) (use assms(2,3) in \<open>auto simp: duplicate_def\<close>)
  have "rerunAction R arrival E a = None \<longleftrightarrow> remote_reruns R arrival a = None \<or> \<not> aHasInputSpec a"
    using l by (auto simp: rerunAction_def Let_def split: option.splits)
  then show ?thesis using r by blast
qed

lemma rerunAction_res:
  assumes "rerunAction R arrival E a = Some a'"
  shows "aRes a' = aRes a"
proof -
  obtain a1 loc where "local_reruns E (duplicate (aNumLocalReruns a) a) (did StashCall a) = Some (a1, loc)" "aRes a' = aRes a1"
    using rerunAction_cases [OF assms] by metis
  then show ?thesis using local_reruns_spec by (fastforce simp: did_def)
qed

section \<open>What an execution keeps of the request\<close>

definition same_request :: "action \<Rightarrow> action \<Rightarrow> bool" where
  "same_request a b \<longleftrightarrow> aCompare b = aCompare a \<and> aNumRemoteReruns b = aNumRemoteReruns a \<and>
     aAtomicDownloads b = aAtomicDownloads a \<and> aCmdEnvironment b = aCmdEnvironment a \<and>
     (aHasInputSpec a \<longrightarrow> aHasInputSpec b)"

lemma same_request_refl [simp]: "same_request a a"
  by (simp add: same_request_def)

lemma same_request_trans: "same_request a b \<Longrightarrow> same_request b c \<Longrightarrow> same_request a c"
  by (simp add: same_request_def)

lemma same_request_update [simp]:
  "same_request a (did c b) \<longleftrightarrow> same_request a b"
  "same_request a (remote_finish r b) \<longleftrightarrow> same_request a b"
  "same_request a (record_digest E b) \<longleftrightarrow> same_request a b"
  "same_request a (b\<lparr>aRes := x1\<rparr>) \<longleftrightarrow> same_request a b"
  "same_request a (b\<lparr>aOE := x2\<rparr>) \<longleftrightarrow> same_request a b"
  "same_request a (b\<lparr>aROpt := x3\<rparr>) \<longleftrightarrow> same_request a b"
  "same_request a (b\<lparr>aExecContext := x4\<rparr>) \<longleftrightarrow> same_request a b"
  "same_request a (b\<lparr>aArgs := x5\<rparr>) \<longleftrightarrow> same_request a b"
  "same_request a (b\<lparr>aRemoteMetadata := x6\<rparr>) \<longleftrightarrow> same_request a b"
  "same_request a (b\<lparr>aInputEnv := x7\<rparr>) \<longleftrightarrow> same_request a b"
  "same_request a (b\<lparr>aOutputFiles := x8\<rparr>) \<longleftrightarrow> same_request a b"
  "same_request a (addDepsFileOutput b) \<longleftrightarrow> same_request a b"
  by (simp_all add: same_request_def did_def remote_finish_def record_digest_def addDepsFileOutput_def)

lemma same_request_runLocal: "runLocal E a = Some b \<Longrightarrow> same_request a b"
  by (auto simp: runLocal_def run_in_pool_def Let_def same_request_def did_def split: if_splits option.splits)

lemma same_request_download: "same_request a (remote_download E r a)"
  by (auto simp: remote_download_def Let_def split: res.splits option.splits)

lemma same_request_remote: "same_request a (action_runRemote E a)"
proof -
  have "same_request a (remote_run E b)" if "same_request a b" for b
    using that same_request_trans [OF _ same_request_download]
    by (auto simp: remote_run_def Let_def split: option.splits prod.splits)
  then show ?thesis by (auto simp: action_runRemote_def split: option.splits)
qed

lemma same_request_cached: "same_request a (getCachedResult E a)"
  by (auto simp: getCachedResult_def cachedResultValid_def Let_def same_request_def did_def split: option.splits prod.splits if_splits)

lemma same_request_cacheLocal: "cacheLocal E a = Some b \<Longrightarrow> same_request a b"
  by (auto simp: cacheLocal_def generateDepsFile_def Let_def same_request_def did_def split: option.splits prod.splits if_splits)

lemma same_request_populate: "populateCommandIO E s a = Some (s', b, e) \<Longrightarrow> same_request a b"
  by (auto simp: populateCommandIO_def action_populateCommandIO_def add_outputs_def Let_def same_request_def did_def
      split: option.splits res.splits)

lemma same_request_clean: "clean_args E a = Some b \<Longrightarrow> same_request a b"
  by (auto simp: clean_args_def split: if_splits)

lemma same_request_deferred: "remote_deferred E a = Some b \<Longrightarrow> same_request a b"
  by (auto simp: remote_deferred_def split: option.splits if_splits)

lemma same_request_then_cache: "local_then_cache E s a = Some (s', b) \<Longrightarrow> same_request a b"
  by (auto simp: local_then_cache_def bind_eq_Some_conv dest!: same_request_runLocal same_request_cacheLocal
      elim: same_request_trans)

lemma same_request_lerc_run: "lerc_run E s a = Some (s', b) \<Longrightarrow> same_request a b"
  using same_request_trans [OF same_request_cached same_request_then_cache] same_request_cached
  by (auto simp: lerc_run_def Let_def dest: same_request_then_cache split: if_splits)

lemma same_request_lerc:
  assumes "runLERC E s a = Some (s', b)"
  shows "same_request a b"
proof -
  obtain a0 where a0: "lerc_options a = Some a0" using assms by (auto simp: runLERC_def bind_eq_Some_conv)
  obtain a1 e where a1: "createExecContext E a0 = (a1, e)" by fastforce
  have s: "same_request a a1"
    using a0 a1 by (auto simp: lerc_options_def createExecContext_def split: if_splits option.splits)
  show ?thesis
  proof (cases e)
    case (Some x)
    then show ?thesis using assms a0 a1 s by (simp add: runLERC_def) auto
  next
    case None
    then obtain s1 a2 e2 where p: "populateCommandIO E s a1 = Some (s1, a2, e2)"
      and r: "(case e2 of Some _ \<Rightarrow> Some (s1, a2) | None \<Rightarrow> lerc_run E s1 (addDepsFileOutput a2)) = Some (s', b)"
      using assms a0 a1 by (auto simp: runLERC_def split: option.splits)
    have "same_request a a2" using s same_request_populate [OF p] by (rule same_request_trans)
    then show ?thesis
      using r same_request_trans [OF _ same_request_lerc_run, of a "addDepsFileOutput a2"] by (auto split: option.splits)
  qed
qed

lemma same_request_race:
  assumes "runRacing E s a = Some (s', b)"
  shows "same_request a b"
proof -
  obtain a0 where a0: "clean_args E a = Some a0" using assms by (auto simp: runRacing_def bind_eq_Some_conv)
  obtain s1 a1 e where p: "populateCommandIO E s a0 = Some (s1, a1, e)"
    using assms a0 by (auto simp: runRacing_def split: option.splits)
  have "same_request a a1" using same_request_clean [OF a0] same_request_populate [OF p] by (rule same_request_trans)
  moreover have "same_request a1 b"
    using assms a0 p by (auto simp: runRacing_def Let_def same_request_def did_def split: option.splits prod.splits if_splits)
  ultimately show ?thesis by (rule same_request_trans)
qed

lemma same_request_runRemote:
  assumes "runRemote E s a = Some (s', b)"
  shows "same_request a b"
proof -
  obtain a0 where a0: "clean_args E a = Some a0" using assms by (auto simp: runRemote_def bind_eq_Some_conv)
  obtain s1 a1 e where p: "populateCommandIO E s a0 = Some (s1, a1, e)"
    using assms a0 by (auto simp: runRemote_def split: option.splits)
  have s: "same_request a a1" using same_request_clean [OF a0] same_request_populate [OF p] by (rule same_request_trans)
  let ?a3 = "action_runRemote E (if aCompare a1 then did StashCall a1 else a1)"
  have s3: "same_request a ?a3" by (rule same_request_trans [OF _ same_request_remote]) (simp add: s)
  have "\<exists>c. same_request a c \<and> remote_deferred E c = Some b"
  proof (cases e)
    case (Some x)
    then show ?thesis using assms a0 p s by (auto simp: runRemote_def)
  next
    case None
    then have "remote_deferred E ?a3 = Some b \<or> remote_deferred E (did RestoreCall (did RemoveOutputsCall ?a3)) = Some b"
      using assms a0 p by (auto simp: runRemote_def Let_def split: option.splits if_splits)
    then show ?thesis using s3 same_request_update(1) by blast
  qed
  then show ?thesis using same_request_trans same_request_deferred by blast
qed

lemma same_request_strategy:
  assumes "run_strategy E s a = Some (s', b)"
  shows "same_request a b"
proof -
  have l: "same_request c b'" if "local_fallback E s1 c = Some (s2, b')" for s1 s2 c b'
    using that same_request_runLocal by (auto simp: local_fallback_def)
  show ?thesis
  proof (cases "aExecStrategy a")
    case LOCAL
    then obtain s1 a1 where r: "runLERC E s (did VirtualDownloadCall a) = Some (s1, a1)"
      using assms by (auto simp: run_strategy_def split: option.splits)
    have "same_request a a1" by (rule same_request_trans [OF _ same_request_lerc [OF r]]) simp
    moreover have "same_request a1 b"
      using assms LOCAL r l by (auto simp: run_strategy_def split: option.splits if_splits)
    ultimately show ?thesis by (rule same_request_trans)
  next
    case REMOTE_LOCAL_FALLBACK
    then obtain s1 a1 where r: "runRemote E s a = Some (s1, a1)"
      using assms by (auto simp: run_strategy_def split: option.splits)
    have "same_request a1 b"
      using assms REMOTE_LOCAL_FALLBACK r
      by (auto simp: run_strategy_def same_request_def did_def dest!: l split: option.splits if_splits)
    then show ?thesis using same_request_runRemote [OF r] same_request_trans by blast
  qed (use assms same_request_runRemote same_request_race in \<open>auto simp: run_strategy_def\<close>)
qed

lemma same_request_runAction:
  assumes "runAction E s a = Some (s', b)"
  shows "same_request a b"
proof -
  let ?a = "if aCanonicalizeWorkingDir a then a\<lparr>aRemoteWorkingDir := toRemoteWorkingDir (aWorkingDir a)\<rparr> else a"
  have "same_request a ?a" by (simp add: same_request_def)
  then have "same_request a c" if "run_strategy E s ?a = Some (s2, c)" for s2 c
    using same_request_strategy [OF that] same_request_trans by blast
  then show ?thesis
    using assms same_request_runLocal
    by (auto simp: runAction_def simp del: if_split split: if_splits option.splits)
qed

section \<open>Properties\<close>

text \<open>The outcome of the reruns does not depend on the order in which the remote attempts
  finish: any order of arrival gives what running the attempts one after the other gives.\<close>

theorem rerunAction_sequential:
  assumes "permutes arrival"
  shows "rerunAction R arrival E a = rerunAction R id E a"
  using remote_reruns_spec [OF assms] remote_reruns_spec [of id] by (simp add: rerunAction_def permutes_def)

theorem rerunAction_sequential_witness:
  "rerunAction (\<lambda>_. demo_env) rev demo_env (demo_action REMOTE) = rerunAction (\<lambda>_. demo_env) id demo_env (demo_action REMOTE)"
  by (rule rerunAction_sequential) (simp add: permutes_def)

lemma rerunAction_verifies_facts:
  assumes "rerunAction R arrival E a = Some a'" and "permutes arrival" and "aCompare a" and "iteration_order (eOrd E)"
    and "\<And>i. iteration_order (eOrd (R i))" and "\<And>i cs. clean_digests (eRemoteDigests (R i) cs)"
    and "\<And>cs fd. eLocalOutputs E cs = Some fd \<Longrightarrow> clean_digests fd"
  shows "aRes a' = aRes a"
    and "length (aLocalReruns a') = nat (aNumLocalReruns a)"
    and "aRemoteMetadata a \<noteq> None \<longrightarrow> length (aRemoteReruns a') = nat (aNumRemoteReruns a) \<and>
      (\<forall>i < nat (aNumRemoteReruns a). remote_attempt (R i) i (duplicate_one i a) = Some (i + 1, aRemoteReruns a' ! i))"
    and "\<exists>v. aVerification a' = Some v \<and> sorted (map mPath (Mismatches v)) \<and>
      set (map mPath (Mismatches v)) = {p. reported (to_compare a') p}"
    and "\<exists>cs. aCalls a' = aCalls a @ cs \<and> count_list cs StashCall = count_list cs RestoreCall + 1 \<and>
      count_list cs PoolRunCall = nat (aNumLocalReruns a)"
proof -
  obtain rem a1 loc where d: "remote_reruns R arrival a = Some rem"
    "local_reruns E (duplicate (aNumLocalReruns a) a) (did StashCall a) = Some (a1, loc)"
    "aLocalReruns a' = loc" "aRemoteReruns a' = (if aRemoteMetadata a = None then aRemoteReruns a else rem)"
    "aCalls a' = aCalls a1" "aRes a' = aRes a1" "aCompare a' = aCompare a1"
    "aVerification a' = (case compareAction (eOrd E) (to_compare a') of None \<Rightarrow> aVerification a1 | Some v \<Rightarrow> Some v)"
    "aRemoteMetadata a' = aRemoteMetadata a1"
    using rerunAction_cases [OF assms(1)] by metis
  obtain cs where a1: "a1 = (did StashCall a)\<lparr>aCalls := aCalls (did StashCall a) @ cs\<rparr>"
    and n: "count_list cs StashCall = count_list cs RestoreCall" "count_list cs PoolRunCall = nat (aNumLocalReruns a)"
    and l: "length loc = nat (aNumLocalReruns a)"
    using local_reruns_spec [OF d(2)] by (auto simp: duplicate_def)
  show "aRes a' = aRes a" "length (aLocalReruns a') = nat (aNumLocalReruns a)"
    using d l a1 by (simp_all add: did_def)
  show "\<exists>cs. aCalls a' = aCalls a @ cs \<and> count_list cs StashCall = count_list cs RestoreCall + 1 \<and>
      count_list cs PoolRunCall = nat (aNumLocalReruns a)"
    using d(5) n a1 by (intro exI [of _ "StashCall # cs"]) (simp add: did_def)
  obtain rs where rs: "map (\<lambda>i. remote_attempt (R i) i (duplicate_one i a)) [0..<nat (aNumRemoteReruns a)] = map Some rs"
    "rem = map snd rs"
    using d(1) by (auto simp: remote_reruns_spec [OF assms(2)] those_Some split: if_splits)
  have "remote_attempt (R i) i (duplicate_one i a) = Some (i + 1, rem ! i)" if "i < nat (aNumRemoteReruns a)" for i
  proof -
    have len: "length rs = nat (aNumRemoteReruns a)" using arg_cong [OF rs(1), of length] by simp
    then have "remote_attempt (R i) i (duplicate_one i a) = Some (rs ! i)"
      using arg_cong [OF rs(1), of "\<lambda>xs. xs ! i"] that by simp
    then show ?thesis using remote_attempt_number that len rs(2) by (metis nth_map prod.collapse)
  qed
  moreover have "length rem = nat (aNumRemoteReruns a)" using arg_cong [OF rs(1), of length] rs(2) by simp
  ultimately show "aRemoteMetadata a \<noteq> None \<longrightarrow> length (aRemoteReruns a') = nat (aNumRemoteReruns a) \<and>
      (\<forall>i < nat (aNumRemoteReruns a). remote_attempt (R i) i (duplicate_one i a) = Some (i + 1, aRemoteReruns a' ! i))"
    using d(4) by simp
  have "aCompare a'" using d(7) a1 assms(3) by (simp add: did_def)
  then obtain v where v: "compareAction (eOrd E) (to_compare a') = Some v"
    using compareAction_some [of "to_compare a'"] by (auto simp: to_compare_def)
  have "rerun_ok r" if "r \<in> set rem" for r
  proof -
    have "r \<in> snd ` set rs" using that rs(2) by simp
    then obtain x where "x \<in> set rs" "r = snd x" by (rule imageE)
    then have "Some x \<in> (\<lambda>i. remote_attempt (R i) i (duplicate_one i a)) ` {0..<nat (aNumRemoteReruns a)}"
      using arg_cong [OF rs(1), of set] by auto
    then obtain i where "remote_attempt (R i) i (duplicate_one i a) = Some x" by auto
    then show ?thesis using remote_attempt_ok [OF assms(5,6)] \<open>r = snd x\<close> by blast
  qed
  then have ok: "\<forall>r \<in> set (localReruns (to_compare a') @ remotes (to_compare a')). rerun_ok r"
    using local_reruns_ok [OF assms(4,7) d(2)] d(3,4,9) a1
    by (auto simp: to_compare_def remotes_def did_def split: if_splits)
  show "\<exists>v. aVerification a' = Some v \<and> sorted (map mPath (Mismatches v)) \<and>
      set (map mPath (Mismatches v)) = {p. reported (to_compare a') p}"
    using compareAction_report [OF assms(4) ok v] d(8) v by simp
qed


text \<open>C11: When the reruns come to an end in compare mode, the action keeps its result, there is one
  local rerun per requested attempt, the remote rerun at position \<open>i\<close> is the one of attempt
  \<open>i + 1\<close> (when the action has remote metadata), and the verification is the comparison of
  these reruns: it lists, in path order, exactly the outputs whose digests or exit codes
  call for a report. Files stashed outnumber files put back by one: the last stash is never
  restored.\<close>

theorem rerunAction_verifies:
  assumes "rerunAction R arrival E a = Some a'" and "permutes arrival" and "aCompare a" and "iteration_order (eOrd E)"
    and "\<And>i. iteration_order (eOrd (R i))" and "\<And>i cs. clean_digests (eRemoteDigests (R i) cs)"
    and "\<And>cs fd. eLocalOutputs E cs = Some fd \<Longrightarrow> clean_digests fd"
  shows "(aRes a' = aRes a) \<and>
    (length (aLocalReruns a') = nat (aNumLocalReruns a)) \<and>
    (aRemoteMetadata a \<noteq> None \<longrightarrow> length (aRemoteReruns a') = nat (aNumRemoteReruns a) \<and>
      (\<forall>i < nat (aNumRemoteReruns a). remote_attempt (R i) i (duplicate_one i a) = Some (i + 1, aRemoteReruns a' ! i))) \<and>
    (\<exists>v. aVerification a' = Some v \<and> sorted (map mPath (Mismatches v)) \<and>
      set (map mPath (Mismatches v)) = {p. reported (to_compare a') p}) \<and>
    (\<exists>cs. aCalls a' = aCalls a @ cs \<and> count_list cs StashCall = count_list cs RestoreCall + 1 \<and>
      count_list cs PoolRunCall = nat (aNumLocalReruns a))"
  using rerunAction_verifies_facts [OF assms] by (intro conjI)

theorem rerunAction_verifies_witness:
  "\<exists>a'. rerunAction (\<lambda>_. demo_env) rev demo_env ((demo_action REMOTE)\<lparr>aCompare := True, aNumLocalReruns := 2\<rparr>) = Some a' \<and>
     length (aLocalReruns a') = 2"
proof -
  let ?a = "(demo_action REMOTE)\<lparr>aCompare := True, aNumLocalReruns := 2\<rparr>"
  have p: "permutes rev" by (simp add: permutes_def)
  have e: "\<forall>i \<in> set (aCmdEnvironment ?a). contains ''='' i" by code_simp
  have c: "eLocalOutputs demo_env cs \<noteq> None" "iteration_order (eOrd demo_env)" "clean_digests (eRemoteDigests demo_env cs)"
    "eLocalOutputs demo_env cs = Some fd \<Longrightarrow> clean_digests fd" for cs fd
    by (auto simp: demo_env_def iteration_order_def clean_digests_def)
  obtain a' where a': "rerunAction (\<lambda>_. demo_env) rev demo_env ?a = Some a'"
    using rerunAction_None [OF p e c(1), of "\<lambda>_. demo_env"] by (auto simp: demo_action_def)
  have "length (aLocalReruns a') = 2"
    using rerunAction_verifies [OF a' p _ c(2) c(2,3,4), THEN conjunct2, THEN conjunct1] by (simp add: demo_action_def)
  then show ?thesis using a' by blast
qed

text \<open>When the local attempts can be carried out, the reruns panic exactly when a negative
  number of remote attempts was asked for, the command has no input spec, or the temporary
  directory of some remote attempt cannot be created, since the metadata the attempt would
  have recorded is then read all the same.\<close>

theorem rerunAction_panics:
  assumes "permutes arrival" and "\<forall>i \<in> set (aCmdEnvironment a). contains ''='' i" and "\<And>cs. eLocalOutputs E cs \<noteq> None"
  shows "rerunAction R arrival E a = None \<longleftrightarrow>
    aNumRemoteReruns a < 0 \<or> \<not> aHasInputSpec a \<or>
    aAtomicDownloads a \<and> (\<exists>i < nat (aNumRemoteReruns a). eTmpDir (R i) (aCalls a) \<noteq> None)"
  using rerunAction_None [OF assms] .

theorem rerunAction_panics_witness:
  "rerunAction (\<lambda>_. demo_env) rev demo_env ((demo_action REMOTE)\<lparr>aCompare := True, aNumLocalReruns := 3, aNumRemoteReruns := -1\<rparr>) = None"
proof -
  let ?a = "(demo_action REMOTE)\<lparr>aCompare := True, aNumLocalReruns := 3, aNumRemoteReruns := -1\<rparr>"
  have "permutes rev" by (simp add: permutes_def)
  moreover have "\<forall>i \<in> set (aCmdEnvironment ?a). contains ''='' i" by code_simp
  moreover have "eLocalOutputs demo_env cs \<noteq> None" for cs by (simp add: demo_env_def)
  ultimately show ?thesis using rerunAction_panics [of rev ?a demo_env "\<lambda>_. demo_env"] by simp
qed

end
