(* ===== verification/Server.thy ===== *)
theory Server
  imports Complex_Main Rerun Forecast
begin

text \<open>
  The reproxy server around the execution of an action (\<open>internal/pkg/reproxy/server.go\<close>):
  asynchronous startup and release of resources, the counters that fail a build early, the
  admission and accounting of requests in \<open>RunCommand\<close>, the response and the records kept.
  Channels that are only closed are flags; a wait for such a channel is a step that is enabled
  once the flag is set.
\<close>

section \<open>Startup and shutdown\<close>

text \<open>Cleanup functions are numbered; \<open>cleanupsRun\<close> lists those called, in order.
  \<open>ipCalled\<close> and \<open>reCalled\<close> record that the two setters, each called once, were called.\<close>

record startup =
  ipSet :: bool
  reSet :: bool
  startErr :: "go_err option"
  started :: bool
  cleanupFns :: "nat list"
  cleanupsRun :: "nat list"
  drained :: bool
  ipCalled :: bool
  reCalled :: bool

definition new_startup :: startup where
  "new_startup = \<lparr>ipSet = False, reSet = False, startErr = None, started = False, cleanupFns = [],
     cleanupsRun = [], drained = False, ipCalled = False, reCalled = False\<rparr>"

definition maybeUnblockStartup :: "startup \<Rightarrow> startup" where
  "maybeUnblockStartup st =
     (if started st then st
      else if startErr st \<noteq> None \<or> ipSet st \<and> reSet st then st\<lparr>started := True\<rparr>
      else st)"

definition SetInputProcessor :: "nat \<Rightarrow> startup \<Rightarrow> startup" where
  "SetInputProcessor cleanup st =
     (if startErr st \<noteq> None then st\<lparr>ipCalled := True, cleanupsRun := cleanupsRun st @ [cleanup]\<rparr>
      else maybeUnblockStartup (st\<lparr>ipCalled := True, ipSet := True, cleanupFns := cleanupFns st @ [cleanup]\<rparr>))"

definition SetREClient :: "nat \<Rightarrow> startup \<Rightarrow> startup" where
  "SetREClient cleanup st =
     (if startErr st \<noteq> None then st\<lparr>reCalled := True, cleanupsRun := cleanupsRun st @ [cleanup]\<rparr>
      else maybeUnblockStartup (st\<lparr>reCalled := True, reSet := True, cleanupFns := cleanupFns st @ [cleanup]\<rparr>))"

definition SetStartupErr :: "go_err \<Rightarrow> startup \<Rightarrow> startup" where
  "SetStartupErr err st =
     (if startErr st \<noteq> None then st else maybeUnblockStartup (st\<lparr>startErr := Some err\<rparr>))"

text \<open>The body of the once in \<open>DrainAndReleaseResources\<close>, after the wait for startup.\<close>

definition DrainAndReleaseResources :: "startup \<Rightarrow> startup" where
  "DrainAndReleaseResources st =
     (if drained st then st
      else st\<lparr>drained := True, cleanupsRun := cleanupsRun st @ cleanupFns st\<rparr>)"

text \<open>\<open>waitForStarted\<close>: outer \<^const>\<open>None\<close> while the channel is open.\<close>

definition waitForStarted :: "startup \<Rightarrow> go_err option option" where
  "waitForStarted st = (if started st then Some (startErr st) else None)"

inductive startup_step :: "startup \<Rightarrow> startup \<Rightarrow> bool" where
  IP: "startup_step st (SetInputProcessor 0 st)" if "\<not> ipCalled st"
| RE: "startup_step st (SetREClient 1 st)" if "\<not> reCalled st"
| Fail: "startup_step st (SetStartupErr e st)"
| Drain: "startup_step st (DrainAndReleaseResources st)" if "started st"

inductive_cases startup_stepE: "startup_step st st'"

section \<open>Failing a build early\<close>

record windowedCount =
  wcnt :: int
  wwindow :: int
  wtimers :: "(int \<times> int) list"

text \<open>\<open>Add\<close> at time \<open>now\<close>: a timer takes the increment back after the window.\<close>

definition wc_Add :: "int \<Rightarrow> int \<Rightarrow> windowedCount \<Rightarrow> windowedCount" where
  "wc_Add now inc wc =
     wc\<lparr>wcnt := wcnt wc + inc,
        wtimers := (if wwindow wc \<noteq> 0 then wtimers wc @ [(now + wwindow wc, inc)] else wtimers wc)\<rparr>"

text \<open>The timers due by \<open>now\<close> fire.\<close>

definition wc_fire :: "int \<Rightarrow> windowedCount \<Rightarrow> windowedCount" where
  "wc_fire now wc =
     wc\<lparr>wcnt := wcnt wc - sum_list (map snd (filter (\<lambda>(t, i). t \<le> now) (wtimers wc))),
        wtimers := filter (\<lambda>(t, i). \<not> t \<le> now) (wtimers wc)\<rparr>"

definition wc_Load :: "windowedCount \<Rightarrow> int" where
  "wc_Load wc = wcnt wc"

definition AllowedIPTimeouts :: int where
  "AllowedIPTimeouts = 7"

record fail_config =
  FailEarlyMinActionCount :: int
  FailEarlyMinFallbackRatio :: rat

text \<open>\<open>float64(nf)/float64(na) >= ratio\<close>; a zero denominator gives infinity or NaN.\<close>

definition ratio_reached :: "fail_config \<Rightarrow> int \<Rightarrow> int \<Rightarrow> bool" where
  "ratio_reached cfg nf na =
     (if na = 0 then nf > 0 else of_int nf / of_int na \<ge> FailEarlyMinFallbackRatio cfg)"

definition getFailBuildErr :: "fail_config \<Rightarrow> int \<Rightarrow> int \<Rightarrow> int \<Rightarrow> go_err option" where
  "getFailBuildErr cfg nf na nt =
     (if nt > AllowedIPTimeouts then Some (ErrOther ''too many action input processing timeouts'')
      else if ratio_reached cfg nf na then Some ErrFailBuild
      else None)"

text \<open>\<open>checkFailBuild\<close> on the counters; the second component is the error the active actions
  are cancelled with.\<close>

definition checkFailBuild :: "fail_config \<Rightarrow> server \<Rightarrow> server \<times> go_err option" where
  "checkFailBuild cfg s =
     (let nf = int (sNumFallbacks s); na = int (sNumActions s); nt = int (sNumIPTimeouts s) in
      if nt \<le> AllowedIPTimeouts \<and> na < FailEarlyMinActionCount cfg then (s, None)
      else if nt > AllowedIPTimeouts \<or> ratio_reached cfg nf na
      then (s\<lparr>sFailBuild := True, sFailBuildErr := getFailBuildErr cfg nf na nt\<rparr>, getFailBuildErr cfg nf na nt)
      else (s, None))"

definition monitor_tick :: "fail_config \<Rightarrow> server \<Rightarrow> server" where
  "monitor_tick cfg s =
     (if FailEarlyMinActionCount cfg = 0 \<or> FailEarlyMinFallbackRatio cfg = 0 then s else fst (checkFailBuild cfg s))"

section \<open>Records kept\<close>

definition keep_record :: "nat \<Rightarrow> 'r \<Rightarrow> 'r list \<Rightarrow> 'r list" where
  "keep_record k r records =
     (if k > 0 then let rs = records @ [r] in if length rs > k then tl rs else rs else records)"

section \<open>Requests\<close>

record RunRequest =
  rqHasCommand :: bool
  rqValidateErr :: "string option"
  rqAction :: action
  rqLogEnvironment :: bool
  rqNumLocalReruns :: int
  rqNumRemoteReruns :: int
  rqNumRetriesIfMismatched :: int
  rqReclientTimeout :: int
  rqPlatform :: "(string \<times> string) list"
  rqToolchainInputs :: "string list"
  rqRemoteWrapper :: string
  rqExecutionID :: string

record RunResponse =
  respResult :: Result
  respID :: string
  respOut :: outerr
  respFallback :: "(int \<times> outerr \<times> ResultStatus) option"

datatype rpc =
  RpcCanceled | RpcStartErr go_err | RpcInvalidArgument | RpcUnavailable | RpcResponse RunResponse

text \<open>\<open>runningActions\<close> is the counter the logger keeps between \<open>LogActionStart\<close> and \<open>Log\<close>.\<close>

record proxy =
  pServer :: server
  pStartup :: startup
  pActive :: "string list"
  pNumActive :: int
  pMaxThreads :: int
  runningActions :: int
  pReclientVersion :: string
  pVersionCacheSilo :: bool
  pCacheSilo :: string
  pGoos :: string

definition toResponse :: "string \<Rightarrow> Result \<Rightarrow> outerr \<Rightarrow> outerr \<Rightarrow> int \<Rightarrow> ResultStatus \<Rightarrow> RunResponse" where
  "toResponse executionID res out fbOut fbExit fbStatus =
     \<lparr>respResult = res, respID = executionID, respOut = out,
      respFallback = (if fbOut \<noteq> ([], []) \<or> fbExit \<noteq> 0 then Some (fbExit, fbOut, fbStatus) else None)\<rparr>"

text \<open>The tail of \<open>RunCommand\<close>. A failure that wrote nothing is explained on standard error.\<close>

definition error_text :: "env \<Rightarrow> string \<Rightarrow> Result \<Rightarrow> string" where
  "error_text E executionID res =
     (case rErr res of
        None \<Rightarrow> []
      | Some e \<Rightarrow> ''reclient['' @ executionID @ '']: '' @ eStatusText E (rStatus res) @ '': '' @ eErrorText E e @ [CHR 10])"

definition respond :: "env \<Rightarrow> string \<Rightarrow> action \<Rightarrow> RunResponse option" where
  "respond E executionID a =
     (case aRes a of
        None \<Rightarrow> None
      | Some res \<Rightarrow>
          if \<not> IsOk (eSdk E) res \<and> rStatus res \<noteq> NON_ZERO_EXIT \<and> aOE a = ([], [])
          then Some (toResponse executionID res ([], error_text E executionID res)
                 ([], []) (aFallbackExitCode a) (aFallbackStatus a))
          else Some (toResponse executionID res (aOE a) (aFallbackOE a) (aFallbackExitCode a) (aFallbackStatus a)))"

text \<open>The number of remote reruns falls back to the older retry option.\<close>

definition num_remote_reruns :: "RunRequest \<Rightarrow> int" where
  "num_remote_reruns rq = (if rqNumRemoteReruns rq = 0 then rqNumRetriesIfMismatched rq else rqNumRemoteReruns rq)"

definition admit :: "proxy \<Rightarrow> RunRequest \<Rightarrow> rpc option" where
  "admit p rq =
     (if aCompare (rqAction rq) \<and> rqNumLocalReruns rq + num_remote_reruns rq < 2 then Some RpcInvalidArgument
      else if rqReclientTimeout rq \<le> 0 then Some RpcInvalidArgument
      else if pNumActive p \<ge> pMaxThreads p then Some RpcUnavailable
      else None)"

text \<open>The platform properties: the version separates cached local runs of different versions,
  the silo separates caches on request, and the operating system is filled in.\<close>

definition put :: "string \<Rightarrow> string \<Rightarrow> (string \<times> string) list \<Rightarrow> (string \<times> string) list" where
  "put k v m = (k, v) # filter (\<lambda>(k', _). k' \<noteq> k) m"

definition request_platform :: "proxy \<Rightarrow> RunRequest \<Rightarrow> (string \<times> string) list" where
  "request_platform p rq =
     (let m0 = rqPlatform rq;
          m1 = (if aExecStrategy (rqAction rq) = LOCAL \<and> \<not> aLocalDoNotCache (rqAction rq) \<or> pVersionCacheSilo p
                then put ''reproxy-version'' (pReclientVersion p) m0 else m0);
          m2 = (if pCacheSilo p \<noteq> [] then put ''cache-silo'' (pCacheSilo p) m1 else m1) in
      setPlatformOSFamily (pGoos p) m2)"

text \<open>A remote wrapper is a toolchain input.\<close>

definition request_toolchain :: "RunRequest \<Rightarrow> string list" where
  "request_toolchain rq =
     (if rqRemoteWrapper rq \<noteq> []
      then rqToolchainInputs rq @ [RelToExecRoot (aExecRoot (rqAction rq)) (aWorkingDir (rqAction rq)) (rqRemoteWrapper rq)]
      else rqToolchainInputs rq)"

definition request_action :: "proxy \<Rightarrow> RunRequest \<Rightarrow> action" where
  "request_action p rq =
     (rqAction rq)\<lparr>aExecutionID := rqExecutionID rq, aPlatform := request_platform p rq,
       aToolchainInputs := request_toolchain rq, aNumLocalReruns := rqNumLocalReruns rq,
       aNumRemoteReruns := num_remote_reruns rq\<rparr>"

text \<open>The forced cache miss writes to the remote options, which must be present.\<close>

definition force_miss :: "env \<Rightarrow> action \<Rightarrow> action option" where
  "force_miss E a =
     (if eCacheMiss E then map_option (\<lambda>r. a\<lparr>aROpt := Some (r\<lparr>roAcceptCached := False\<rparr>)\<rparr>) (aROpt a) else Some a)"

text \<open>An admitted request: registered as active, executed, rerun in compare mode, logged.\<close>

definition execute_request ::
  "env \<Rightarrow> (nat \<Rightarrow> env) \<Rightarrow> ((nat \<times> Rerun) list \<Rightarrow> (nat \<times> Rerun) list) \<Rightarrow> proxy \<Rightarrow> RunRequest \<Rightarrow> (proxy \<times> rpc) option" where
  "execute_request E R arrival p rq =
     (let p1 = p\<lparr>pActive := rqExecutionID rq # pActive p, pNumActive := pNumActive p + 1\<rparr> in
      case Option.bind (force_miss E (request_action p rq)) (runAction E (pServer p1)) of
        None \<Rightarrow> None
      | Some (s, a) \<Rightarrow>
          (case (if aCompare a then rerunAction R arrival E a else Some a) of
             None \<Rightarrow> None
           | Some a1 \<Rightarrow>
               (let p2 = p1\<lparr>pServer := s, runningActions := runningActions p1 - 1,
                            pActive := removeAll (rqExecutionID rq) (pActive p1), pNumActive := pNumActive p1 - 1\<rparr> in
                map_option (\<lambda>r. (p2, RpcResponse r)) (respond E (rqExecutionID rq) a1))))"

definition RunCommand ::
  "env \<Rightarrow> (nat \<Rightarrow> env) \<Rightarrow> ((nat \<times> Rerun) list \<Rightarrow> (nat \<times> Rerun) list) \<Rightarrow> proxy \<Rightarrow> RunRequest \<Rightarrow> (proxy \<times> rpc) option" where
  "RunCommand E R arrival p rq =
     (if drained (pStartup p) then Some (p, RpcCanceled)
      else case waitForStarted (pStartup p) of
        None \<Rightarrow> Some (p, RpcStartErr (ErrOther ''timedout waiting for reproxy to start''))
      | Some (Some e) \<Rightarrow> Some (p, RpcStartErr e)
      | Some None \<Rightarrow>
          if \<not> rqHasCommand rq \<or> rqValidateErr rq \<noteq> None then Some (p, RpcInvalidArgument)
          else if rqLogEnvironment rq \<and> sliceToMap (aCmdEnvironment (rqAction rq)) ''='' = None then None
          else
            (let p1 = p\<lparr>runningActions := runningActions p + 1\<rparr> in
             case admit p1 rq of
               Some e \<Rightarrow> Some (p1, e)
             | None \<Rightarrow> execute_request E R arrival p1 rq))"

section \<open>Startup invariant\<close>

lemmas startup_defs = SetInputProcessor_def SetREClient_def SetStartupErr_def maybeUnblockStartup_def
  DrainAndReleaseResources_def

definition handed_over :: "startup \<Rightarrow> nat multiset" where
  "handed_over st = (if ipCalled st then {#0#} else {#}) + (if reCalled st then {#1#} else {#})"

definition startup_inv :: "startup \<Rightarrow> bool" where
  "startup_inv st \<longleftrightarrow>
     handed_over st = mset (cleanupsRun st) + (if drained st then {#} else mset (cleanupFns st)) \<and>
     (started st \<longleftrightarrow> startErr st \<noteq> None \<or> ipSet st \<and> reSet st) \<and>
     (ipSet st \<longrightarrow> ipCalled st) \<and> (reSet st \<longrightarrow> reCalled st) \<and>
     (drained st \<longrightarrow> started st)"

lemma startup_inv_ip: "\<not> ipCalled st \<Longrightarrow> startup_inv st \<Longrightarrow> startup_inv (SetInputProcessor 0 st)"
  by (cases "drained st"; cases "startErr st"; cases "reCalled st")
    (auto simp: startup_inv_def startup_defs handed_over_def)

lemma startup_inv_re: "\<not> reCalled st \<Longrightarrow> startup_inv st \<Longrightarrow> startup_inv (SetREClient 1 st)"
  by (cases "drained st"; cases "startErr st"; cases "ipCalled st")
    (auto simp: startup_inv_def startup_defs handed_over_def)

lemma startup_inv_step: "startup_step st st' \<Longrightarrow> startup_inv st \<Longrightarrow> startup_inv st'"
proof (erule startup_stepE)
  fix e assume "startup_inv st" "st' = SetStartupErr e st"
  then show "startup_inv st'" by (auto simp: startup_inv_def startup_defs handed_over_def)
next
  assume "startup_inv st" "st' = DrainAndReleaseResources st" "started st"
  then show "startup_inv st'" by (auto simp: startup_inv_def startup_defs handed_over_def)
qed (use startup_inv_ip startup_inv_re in auto)

interpretation startup: step_invariant startup_step "\<lambda>st. st = new_startup" startup_inv
proof unfold_locales
  show "startup_inv st" if "st = new_startup" for st
    using that by (simp add: startup_inv_def new_startup_def handed_over_def)
qed (rule startup_inv_step)

lemma startup_reachable_inv: "startup_step\<^sup>*\<^sup>* new_startup st \<Longrightarrow> startup_inv st"
  by (rule startup.holds_reachable [OF refl])

section \<open>The records kept are a window\<close>

interpretation kept: sample_window "keep_record k" id "\<lambda>rs. 0 < k \<and> length rs \<le> k" k
  for k
proof (unfold_locales, goal_cases)
  case (1 d v)
  then show ?case by (cases "length d = k") (auto simp: keep_record_def recent_def drop_Suc)
next
  case (2 d v)
  then show ?case by (auto simp: keep_record_def Let_def)
next
  case (3 d)
  then show ?case by simp
qed

text \<open>\<open>GetRecords\<close> serves the last \<open>KeepLastRecords\<close> records.\<close>

lemma keep_record_recent: "0 < k \<Longrightarrow> fold (keep_record k) rs [] = recent k rs"
  using kept.window_fold [of k "[]" rs] by simp

section \<open>Windowed counters\<close>

definition wc_sum :: "(int \<times> int) list \<Rightarrow> int" where
  "wc_sum ts = sum_list (map snd ts)"

lemma wc_sum_partition: "wc_sum (filter P ts) + wc_sum (filter (\<lambda>x. \<not> P x) ts) = wc_sum ts"
  by (induction ts) (auto simp: wc_sum_def)

definition wc_event :: "int \<times> int \<Rightarrow> windowedCount \<Rightarrow> windowedCount" where
  "wc_event e wc = wc_Add (fst e) (snd e) (wc_fire (fst e) wc)"

definition wc_inv :: "int \<Rightarrow> windowedCount \<Rightarrow> bool" where
  "wc_inv w wc \<longleftrightarrow> wwindow wc = w \<and> wcnt wc = wc_sum (wtimers wc)"

lemma wc_fire_inv: "wc_inv w wc \<Longrightarrow> wc_inv w (wc_fire now wc)"
  using wc_sum_partition [of "\<lambda>(t, i). t \<le> now" "wtimers wc"]
  by (simp add: wc_inv_def wc_fire_def wc_sum_def case_prod_unfold)

lemma wc_event_inv: "w \<noteq> 0 \<Longrightarrow> wc_inv w wc \<Longrightarrow> wc_inv w (wc_event e wc)"
  using wc_fire_inv [of w wc "fst e"] by (simp add: wc_event_def wc_Add_def wc_inv_def wc_sum_def)

text \<open>The timers pending after a history of additions with non-decreasing times.\<close>

lemma wc_timers:
  assumes "0 < w" and "sorted (map fst es)" and "wc_inv w wc" and "\<forall>(t, i) \<in> set (wtimers wc). \<forall>e \<in> set es. t \<le> fst e + w"
    and "\<forall>e \<in> set es. fst e \<le> now"
  shows "wtimers (wc_fire now (fold wc_event es wc)) =
    filter (\<lambda>(t, i). \<not> t \<le> now) (wtimers wc @ map (\<lambda>(t, i). (t + w, i)) es)"
  using assms
proof (induction es arbitrary: wc)
  case Nil
  then show ?case by (simp add: wc_fire_def)
next
  case (Cons e es)
  let ?wc = "wc_event e wc"
  have wt: "wtimers ?wc = filter (\<lambda>(t, i). \<not> t \<le> fst e) (wtimers wc) @ [(fst e + w, snd e)]"
    using Cons.prems(1,3) by (simp add: wc_event_def wc_Add_def wc_fire_def wc_inv_def)
  have "wtimers (wc_fire now (fold wc_event es ?wc)) =
      filter (\<lambda>(t, i). \<not> t \<le> now) (wtimers ?wc @ map (\<lambda>(t, i). (t + w, i)) es)"
    using Cons.prems wc_event_inv [of w wc e] by (intro Cons.IH) (auto simp: wt)
  moreover have "filter (\<lambda>(t, i). \<not> t \<le> now) (filter (\<lambda>(t, i). \<not> t \<le> fst e) ts) = filter (\<lambda>(t, i). \<not> t \<le> now) ts" for ts
    using Cons.prems(5) by (induction ts) auto
  ultimately show ?case by (simp add: wt case_prod_unfold)
qed

section \<open>Properties\<close>

lemma startup_cleanups_once_facts:
  assumes "startup_step\<^sup>*\<^sup>* new_startup st"
  shows "mset (cleanupsRun st) + (if drained st then {#} else mset (cleanupFns st)) = handed_over st"
    and "started st \<longleftrightarrow> startErr st \<noteq> None \<or> ipSet st \<and> reSet st"
    and "startup_step st st' \<Longrightarrow> startErr st = Some e \<Longrightarrow> startErr st' = Some e \<and> waitForStarted st' = Some (Some e)"
proof -
  have inv: "startup_inv st" using assms by (rule startup_reachable_inv)
  show "mset (cleanupsRun st) + (if drained st then {#} else mset (cleanupFns st)) = handed_over st"
    "started st \<longleftrightarrow> startErr st \<noteq> None \<or> ipSet st \<and> reSet st"
    using inv by (auto simp: startup_inv_def)
  show "startErr st' = Some e \<and> waitForStarted st' = Some (Some e)" if "startup_step st st'" "startErr st = Some e"
  proof -
    have "startErr st' = Some e" using that by (auto elim!: startup_stepE simp: startup_defs)
    moreover have "started st'" using startup_inv_step [OF that(1) inv] calculation by (simp add: startup_inv_def)
    ultimately show ?thesis by (simp add: waitForStarted_def)
  qed
qed


text \<open>Startup and shutdown call every cleanup function exactly once: in each reachable state
  the functions called so far and those still registered are the ones handed over, and after
  the drain none is left, even when a component finishes its start after an error. The first
  startup error is final.\<close>

theorem startup_cleanups_once:
  assumes "startup_step\<^sup>*\<^sup>* new_startup st"
  shows "(mset (cleanupsRun st) + (if drained st then {#} else mset (cleanupFns st)) = handed_over st) \<and>
    (started st \<longleftrightarrow> startErr st \<noteq> None \<or> ipSet st \<and> reSet st) \<and>
    (startup_step st st' \<longrightarrow> startErr st = Some e \<longrightarrow> startErr st' = Some e \<and> waitForStarted st' = Some (Some e))"
  by (rule conjI, rule startup_cleanups_once_facts(1) [OF assms], rule conjI, rule startup_cleanups_once_facts(2) [OF assms], (intro impI, rule startup_cleanups_once_facts(3) [OF assms]; assumption))

theorem startup_cleanups_once_witness:
  "\<exists>st. startup_step\<^sup>*\<^sup>* new_startup st \<and> drained st \<and> mset (cleanupsRun st) = handed_over st"
proof -
  let ?s1 = "SetStartupErr (ErrOther ''x'') new_startup" and ?d = DrainAndReleaseResources
  have "startup_step new_startup ?s1" by (rule Fail)
  moreover have "startup_step ?s1 (SetREClient 1 ?s1)" by (rule RE) (simp add: new_startup_def startup_defs)
  moreover have "startup_step (SetREClient 1 ?s1) (?d (SetREClient 1 ?s1))"
    by (rule Drain) (simp add: new_startup_def startup_defs)
  ultimately have r: "startup_step\<^sup>*\<^sup>* new_startup (?d (SetREClient 1 ?s1))" by simp
  have "drained (?d (SetREClient 1 ?s1))" by (simp add: new_startup_def startup_defs)
  then show ?thesis using startup_cleanups_once [OF r, THEN conjunct1] r by auto
qed

text \<open>With a positive window a windowed counter shows, at every moment, the sum of the
  increments made within the window before it.\<close>

theorem windowedCount_window:
  assumes "0 < w" and "sorted (map fst es)" and "\<forall>e \<in> set es. fst e \<le> now"
  shows "wc_Load (wc_fire now (fold wc_event es \<lparr>wcnt = 0, wwindow = w, wtimers = []\<rparr>)) =
    sum_list (map snd (filter (\<lambda>(t, i). now < t + w) es))"
proof -
  let ?wc = "\<lparr>wcnt = 0, wwindow = w, wtimers = []\<rparr> :: windowedCount"
  have i0: "wc_inv w ?wc" by (simp add: wc_inv_def wc_sum_def)
  have "wc_inv w (fold wc_event es wc)" if "wc_inv w wc" for wc
    using that by (induction es arbitrary: wc) (use assms(1) wc_event_inv in auto)
  then have i: "wc_inv w (wc_fire now (fold wc_event es ?wc))" using i0 wc_fire_inv by blast
  have "wtimers (wc_fire now (fold wc_event es ?wc)) = filter (\<lambda>(t, i). \<not> t \<le> now) (map (\<lambda>(t, i). (t + w, i)) es)"
    using wc_timers [OF assms(1,2) i0 _ assms(3)] by simp
  moreover have "wc_sum (filter (\<lambda>(t, i). \<not> t \<le> now) (map (\<lambda>(t, i). (t + w, i)) es)) =
      sum_list (map snd (filter (\<lambda>(t, i). now < t + w) es))"
    by (induction es) (auto simp: wc_sum_def)
  ultimately show ?thesis using i by (simp add: wc_Load_def wc_inv_def)
qed

theorem windowedCount_window_witness:
  "wc_Load (wc_fire 12 (fold wc_event [(1, 1), (5, 1), (11, 1)] \<lparr>wcnt = 0, wwindow = 10, wtimers = []\<rparr>)) = 2"
  using windowedCount_window [of 10 "[(1, 1), (5, 1), (11, 1)]" 12] by simp

text \<open>The condition under which a check fails the build.\<close>

definition fail_condition :: "fail_config \<Rightarrow> server \<Rightarrow> bool" where
  "fail_condition cfg s \<longleftrightarrow> int (sNumIPTimeouts s) > AllowedIPTimeouts \<or>
     int (sNumActions s) \<ge> FailEarlyMinActionCount cfg \<and> ratio_reached cfg (int (sNumFallbacks s)) (int (sNumActions s))"

lemma getFailBuildErr_some:
  "nt > AllowedIPTimeouts \<or> ratio_reached cfg nf na \<Longrightarrow> \<exists>e. getFailBuildErr cfg nf na nt = Some e"
  by (auto simp: getFailBuildErr_def)

lemma checkFailBuild_eq:
  "checkFailBuild cfg s =
     (if fail_condition cfg s
      then (let e = getFailBuildErr cfg (int (sNumFallbacks s)) (int (sNumActions s)) (int (sNumIPTimeouts s)) in
            (s\<lparr>sFailBuild := True, sFailBuildErr := e\<rparr>, e))
      else (s, None))"
  by (auto simp: checkFailBuild_def fail_condition_def Let_def)

lemma checkFailBuild_stops_build_facts:
  assumes "sFailBuild s \<longrightarrow> sFailBuildErr s \<noteq> None"
  shows "sFailBuild (fst (checkFailBuild cfg s)) \<longleftrightarrow> sFailBuild s \<or> fail_condition cfg s"
    and "sFailBuild (fst (checkFailBuild cfg s)) \<longrightarrow> sFailBuildErr (fst (checkFailBuild cfg s)) \<noteq> None"
    and "fail_condition cfg s \<longrightarrow> (\<exists>e. snd (checkFailBuild cfg s) = Some e \<and>
      (\<forall>E a. \<exists>a'. runAction E (fst (checkFailBuild cfg s)) a = Some (fst (checkFailBuild cfg s), a') \<and>
         aRes a' = Some (NewLocalErrorResult (eSdk E) e) \<and> aCalls a' = aCalls a))"
proof -
  have e: "\<exists>e. getFailBuildErr cfg (int (sNumFallbacks s)) (int (sNumActions s)) (int (sNumIPTimeouts s)) = Some e"
    if "fail_condition cfg s"
    using getFailBuildErr_some that unfolding fail_condition_def by blast
  show "sFailBuild (fst (checkFailBuild cfg s)) \<longleftrightarrow> sFailBuild s \<or> fail_condition cfg s"
    by (simp add: checkFailBuild_eq Let_def)
  show "sFailBuild (fst (checkFailBuild cfg s)) \<longrightarrow> sFailBuildErr (fst (checkFailBuild cfg s)) \<noteq> None"
    using e assms by (auto simp: checkFailBuild_eq Let_def)
  show "fail_condition cfg s \<longrightarrow> (\<exists>e. snd (checkFailBuild cfg s) = Some e \<and>
      (\<forall>E a. \<exists>a'. runAction E (fst (checkFailBuild cfg s)) a = Some (fst (checkFailBuild cfg s), a') \<and>
         aRes a' = Some (NewLocalErrorResult (eSdk E) e) \<and> aCalls a' = aCalls a))"
    using e by (auto simp: checkFailBuild_eq Let_def runAction_def)
qed


text \<open>A check fails the build exactly when more than seven input processing timeouts occurred
  or, from the configured number of actions on, the ratio of fallbacks is reached. The flag is
  never set without an error; the active actions are cancelled with that error and every
  action started later returns it at once, without a call to the pool or the remote client.\<close>

theorem checkFailBuild_stops_build:
  assumes "sFailBuild s \<longrightarrow> sFailBuildErr s \<noteq> None"
  shows "(sFailBuild (fst (checkFailBuild cfg s)) \<longleftrightarrow> sFailBuild s \<or> fail_condition cfg s) \<and>
    (sFailBuild (fst (checkFailBuild cfg s)) \<longrightarrow> sFailBuildErr (fst (checkFailBuild cfg s)) \<noteq> None) \<and>
    (fail_condition cfg s \<longrightarrow> (\<exists>e. snd (checkFailBuild cfg s) = Some e \<and>
      (\<forall>E a. \<exists>a'. runAction E (fst (checkFailBuild cfg s)) a = Some (fst (checkFailBuild cfg s), a') \<and>
         aRes a' = Some (NewLocalErrorResult (eSdk E) e) \<and> aCalls a' = aCalls a)))"
  by (rule conjI, rule checkFailBuild_stops_build_facts(1) [OF assms], rule conjI, rule checkFailBuild_stops_build_facts(2) [OF assms], rule checkFailBuild_stops_build_facts(3) [OF assms])

theorem checkFailBuild_stops_build_witness:
  "sFailBuild (fst (checkFailBuild \<lparr>FailEarlyMinActionCount = 4, FailEarlyMinFallbackRatio = 1/2\<rparr>
     (demo_server\<lparr>sNumActions := 4, sNumFallbacks := 2\<rparr>)))"
proof -
  let ?s = "demo_server\<lparr>sNumActions := 4, sNumFallbacks := 2\<rparr>"
  have "sFailBuild ?s \<longrightarrow> sFailBuildErr ?s \<noteq> None" by (simp add: demo_server_def)
  moreover have "fail_condition \<lparr>FailEarlyMinActionCount = 4, FailEarlyMinFallbackRatio = 1/2\<rparr> ?s"
    by (simp add: fail_condition_def ratio_reached_def demo_server_def AllowedIPTimeouts_def)
  ultimately show ?thesis using checkFailBuild_stops_build [THEN conjunct1] by blast
qed

text \<open>A request that passes the first checks and is then turned away.\<close>

definition turned_away :: "proxy \<Rightarrow> RunRequest \<Rightarrow> bool" where
  "turned_away p rq \<longleftrightarrow> \<not> drained (pStartup p) \<and> waitForStarted (pStartup p) = Some None \<and>
     rqHasCommand rq \<and> rqValidateErr rq = None \<and> admit p rq \<noteq> None"

lemma admit_running [simp]: "admit (p\<lparr>runningActions := n\<rparr>) rq = admit p rq"
  by (simp add: admit_def)

lemma execute_request_spec:
  assumes "execute_request E R arrival p rq = Some (p', out)" "rqExecutionID rq \<notin> set (pActive p)"
  shows "pActive p' = pActive p" "pNumActive p' = pNumActive p" "runningActions p' = runningActions p - 1"
    "pStartup p' = pStartup p" "\<exists>r. out = RpcResponse r"
  using assms by (auto simp: execute_request_def Let_def bind_eq_Some_conv split: option.splits if_splits)

lemma respond_result: "aRes a = Some r \<Longrightarrow> \<exists>resp. respond E executionID a = Some resp \<and> respResult resp = r"
  by (auto simp: respond_def toResponse_def)

text \<open>A compare-mode request whose reruns can be carried out.\<close>

definition rerun_ready :: "env \<Rightarrow> RunRequest \<Rightarrow> bool" where
  "rerun_ready E rq \<longleftrightarrow> num_remote_reruns rq \<ge> 0 \<and> aHasInputSpec (rqAction rq) \<and> \<not> aAtomicDownloads (rqAction rq) \<and>
     (\<forall>cs. eLocalOutputs E cs \<noteq> None)"

lemma rerun_ready_returns:
  assumes "permutes arrival" and "action_ok E (rqAction rq)" and "aCompare (rqAction rq) \<longrightarrow> rerun_ready E rq"
    and "force_miss E (request_action p rq) = Some b" and "same_request b a" and "aCompare a"
  shows "\<exists>a'. rerunAction R arrival E a = Some a'"
proof -
  have "same_request (request_action p rq) b"
    using assms(4) by (auto simp: force_miss_def split: if_splits)
  then have s: "same_request (request_action p rq) a" using assms(5) by (rule same_request_trans)
  then have r: "rerun_ready E rq" using assms(3,6) by (simp add: same_request_def request_action_def)
  have "\<forall>i \<in> set (aCmdEnvironment a). contains ''='' i"
    using s assms(2) by (simp add: same_request_def request_action_def action_ok_def)
  moreover have "eLocalOutputs E cs \<noteq> None" for cs using r by (simp add: rerun_ready_def)
  ultimately have "rerunAction R arrival E a \<noteq> None"
    using rerunAction_None [OF assms(1), of a E R] s r
    by (simp add: same_request_def request_action_def rerun_ready_def)
  then show ?thesis by blast
qed

lemma RunCommand_accounting_facts:
  assumes "RunCommand E R arrival p rq = Some (p', out)" and "rqExecutionID rq \<notin> set (pActive p)"
  shows "pActive p' = pActive p \<and> pNumActive p' = pNumActive p"
    and "runningActions p' = runningActions p + (if turned_away p rq then 1 else 0)"
    and "turned_away p rq \<longrightarrow> pServer p' = pServer p \<and> out \<in> {RpcInvalidArgument, RpcUnavailable}"
proof -
  let ?p1 = "p\<lparr>runningActions := runningActions p + 1\<rparr>"
  have d: "p' = p \<and> \<not> turned_away p rq \<or>
      turned_away p rq \<and> p' = ?p1 \<and> admit p rq = Some out \<or>
      \<not> turned_away p rq \<and> execute_request E R arrival ?p1 rq = Some (p', out)"
    using assms(1)
    by (cases "drained (pStartup p)"; cases "waitForStarted (pStartup p)"; cases "admit p rq")
      (auto simp: RunCommand_def turned_away_def Let_def split: option.splits if_splits)
  have x: "pActive p' = pActive p" "pNumActive p' = pNumActive p" "runningActions p' = runningActions p"
    if "execute_request E R arrival ?p1 rq = Some (p', out)"
    using execute_request_spec(1-3) [OF that] assms(2) by auto
  show "pActive p' = pActive p \<and> pNumActive p' = pNumActive p" using d x by auto
  show "runningActions p' = runningActions p + (if turned_away p rq then 1 else 0)" using d x by auto
  show "turned_away p rq \<longrightarrow> pServer p' = pServer p \<and> out \<in> {RpcInvalidArgument, RpcUnavailable}"
    using d by (auto simp: admit_def Let_def split: if_splits)
qed


text \<open>C7: Every request leaves the set and the number of active actions as it found them. The
  logger's count of running actions comes back too, except for a request that is turned away
  after the start of its action was logged (too few reruns in compare mode, no timeout, too
  many active actions): each of these leaves the count one higher for good.\<close>

theorem RunCommand_accounting:
  assumes "RunCommand E R arrival p rq = Some (p', out)" and "rqExecutionID rq \<notin> set (pActive p)"
  shows "(pActive p' = pActive p \<and> pNumActive p' = pNumActive p) \<and>
    (runningActions p' = runningActions p + (if turned_away p rq then 1 else 0)) \<and>
    (turned_away p rq \<longrightarrow> pServer p' = pServer p \<and> out \<in> {RpcInvalidArgument, RpcUnavailable})"
  by (rule conjI, rule RunCommand_accounting_facts(1) [OF assms], rule conjI, rule RunCommand_accounting_facts(2) [OF assms], rule RunCommand_accounting_facts(3) [OF assms])

definition demo_proxy :: proxy where
  "demo_proxy = \<lparr>pServer = demo_server, pStartup = SetREClient 1 (SetInputProcessor 0 new_startup), pActive = [],
     pNumActive = 0, pMaxThreads = 10000, runningActions = 0, pReclientVersion = ''1'', pVersionCacheSilo = False,
     pCacheSilo = [], pGoos = ''linux''\<rparr>"

definition demo_request :: "int \<Rightarrow> RunRequest" where
  "demo_request timeout = \<lparr>rqHasCommand = True, rqValidateErr = None, rqAction = demo_action REMOTE_LOCAL_FALLBACK,
     rqLogEnvironment = False, rqNumLocalReruns = 0, rqNumRemoteReruns = 0, rqNumRetriesIfMismatched = 0,
     rqReclientTimeout = timeout, rqPlatform = [], rqToolchainInputs = [], rqRemoteWrapper = [], rqExecutionID = ''id''\<rparr>"

theorem RunCommand_accounting_witness:
  "\<exists>p' out. RunCommand demo_env (\<lambda>_. demo_env) rev demo_proxy (demo_request 0) = Some (p', out) \<and> runningActions p' = 1"
proof -
  have t: "turned_away demo_proxy (demo_request 0)"
    by (simp add: turned_away_def demo_proxy_def demo_request_def demo_action_def admit_def new_startup_def
        startup_defs waitForStarted_def)
  obtain p' out where r: "RunCommand demo_env (\<lambda>_. demo_env) rev demo_proxy (demo_request 0) = Some (p', out)"
    using t by (auto simp: RunCommand_def turned_away_def demo_request_def Let_def)
  have i: "rqExecutionID (demo_request 0) \<notin> set (pActive demo_proxy)" by (simp add: demo_proxy_def)
  have "runningActions p' = 1" using RunCommand_accounting [OF r i, THEN conjunct2, THEN conjunct1] t by (simp add: demo_proxy_def)
  then show ?thesis using r by blast
qed

lemma RunCommand_answers:
  assumes "answers_ok E" and "action_ok E (rqAction rq)" and "eCacheMiss E \<longrightarrow> aROpt (rqAction rq) \<noteq> None"
    and "sFailBuild (pServer p) \<longrightarrow> sFailBuildErr (pServer p) \<noteq> None"
    and "\<not> drained (pStartup p)" and "waitForStarted (pStartup p) = Some None"
    and "rqHasCommand rq" and "rqValidateErr rq = None" and "admit p rq = None"
    and "permutes arrival" and "aCompare (rqAction rq) \<longrightarrow> rerun_ready E rq"
  shows "\<exists>b s a r p' resp. force_miss E (request_action p rq) = Some b \<and> runAction E (pServer p) b = Some (s, a) \<and>
    aRes a = Some r \<and> RunCommand E R arrival p rq = Some (p', RpcResponse resp) \<and> respResult resp = r \<and> pServer p' = s"
proof -
  obtain b where b: "force_miss E (request_action p rq) = Some b" "action_ok E b"
    using assms(2,3) by (cases "eCacheMiss E"; cases "aROpt (rqAction rq)")
      (simp_all add: force_miss_def request_action_def action_ok_def)
  obtain s a r where a: "runAction E (pServer p) b = Some (s, a)" "aRes a = Some r"
    using runAction_total [OF assms(1) b(2) assms(4)] by blast
  have k: "same_request b a" by (rule same_request_runAction [OF a(1)])
  have "sliceToMap (aCmdEnvironment (rqAction rq)) ''='' \<noteq> None"
    using assms(2) sliceToMap_panics by (simp add: action_ok_def)
  moreover obtain a1 where a1: "(if aCompare a then rerunAction R arrival E a else Some a) = Some a1"
    using rerun_ready_returns [OF assms(10,2,11) b(1) k] by (cases "aCompare a") auto
  then have "aRes a1 = Some r" using a(2) rerunAction_res by (auto split: if_splits)
  then obtain resp where "respond E (rqExecutionID rq) a1 = Some resp" "respResult resp = r"
    using respond_result by blast
  moreover have "request_action (p\<lparr>runningActions := runningActions p + 1\<rparr>) rq = request_action p rq"
    by (simp add: request_action_def request_platform_def Let_def)
  ultimately show ?thesis
    using a b a1 assms(5-9) by (simp add: RunCommand_def execute_request_def Let_def)
qed

text \<open>A request that is admitted is answered with a response, whose result is the one of the
  action, in compare mode too when its reruns can be carried out.\<close>

theorem RunCommand_responds:
  assumes "answers_ok E" and "action_ok E (rqAction rq)" and "eCacheMiss E \<longrightarrow> aROpt (rqAction rq) \<noteq> None"
    and "sFailBuild (pServer p) \<longrightarrow> sFailBuildErr (pServer p) \<noteq> None"
    and "\<not> drained (pStartup p)" and "waitForStarted (pStartup p) = Some None"
    and "rqHasCommand rq" and "rqValidateErr rq = None" and "admit p rq = None"
    and "permutes arrival" and "aCompare (rqAction rq) \<longrightarrow> rerun_ready E rq"
  shows "\<exists>b s a r p' resp. force_miss E (request_action p rq) = Some b \<and> runAction E (pServer p) b = Some (s, a) \<and>
    aRes a = Some r \<and> RunCommand E R arrival p rq = Some (p', RpcResponse resp) \<and> respResult resp = r \<and> pServer p' = s"
  using RunCommand_answers [OF assms] .

theorem RunCommand_responds_witness:
  "\<exists>p' resp. RunCommand demo_env (\<lambda>_. demo_env) rev demo_proxy (demo_request 60) = Some (p', RpcResponse resp)"
proof -
  have "answers_ok demo_env" by (simp add: answers_ok_def demo_env_def cancel_err_def)
  moreover have "action_ok demo_env (rqAction (demo_request 60))"
    by (simp add: action_ok_def demo_env_def demo_action_def demo_request_def)
  moreover have "eCacheMiss demo_env \<longrightarrow> aROpt (rqAction (demo_request 60)) \<noteq> None" by (simp add: demo_env_def)
  moreover have "sFailBuild (pServer demo_proxy) \<longrightarrow> sFailBuildErr (pServer demo_proxy) \<noteq> None"
    by (simp add: demo_proxy_def demo_server_def)
  moreover have "\<not> drained (pStartup demo_proxy)" "waitForStarted (pStartup demo_proxy) = Some None"
    by (simp_all add: demo_proxy_def new_startup_def startup_defs waitForStarted_def)
  moreover have "rqHasCommand (demo_request 60)" "rqValidateErr (demo_request 60) = None" "admit demo_proxy (demo_request 60) = None"
    by (simp_all add: demo_request_def demo_proxy_def admit_def demo_action_def)
  moreover have "permutes rev" "aCompare (rqAction (demo_request 60)) \<longrightarrow> rerun_ready demo_env (demo_request 60)"
    by (simp_all add: permutes_def demo_request_def demo_action_def)
  ultimately show ?thesis
    using RunCommand_responds [of demo_env "demo_request 60" demo_proxy rev "\<lambda>_. demo_env"] by blast
qed

end
