(* ===== verification/Rewrapper.thy ===== *)
theory Rewrapper
  imports Server
begin

text \<open>
  The client side (\<open>internal/pkg/rewrapper/rewrapper.go\<close>): from the options of the wrapper and
  the command to the request reproxy answers, the parsing of virtual inputs, and which errors
  are retried. Environment and files are arguments. The retry loop itself belongs to the SDK.
\<close>

section \<open>Virtual inputs\<close>

record VirtualInput =
  viPath :: string
  viDigest :: string
  viMtime :: "int option"
  viFilemode :: int

definition new_virtual_input :: VirtualInput where
  "new_virtual_input = \<lparr>viPath = [], viDigest = [], viMtime = None, viFilemode = 0\<rparr>"

datatype wrapper_error = ReadError read_error | NumberError string | VirtualInputError string

definition vi_property :: "string \<Rightarrow> VirtualInput \<Rightarrow> (wrapper_error, VirtualInput) res" where
  "vi_property fp vi =
     (if prefix ''path='' fp then Ok (vi\<lparr>viPath := trim_prefix ''path='' fp\<rparr>)
      else if prefix ''digest='' fp then Ok (vi\<lparr>viDigest := trim_prefix ''digest='' fp\<rparr>)
      else if prefix ''mtime='' fp then
        (let m = trim_prefix ''mtime='' fp in
         if m = [] then Ok (vi\<lparr>viMtime := Some 0\<rparr>)
         else case ParseInt 10 64 m of
                None \<Rightarrow> Err (NumberError m)
              | Some nanos \<Rightarrow> Ok (vi\<lparr>viMtime := Some nanos\<rparr>))
      else if prefix ''filemode='' fp then
        (let fm = trim_prefix ''filemode='' fp in
         if fm = [] then Ok vi
         else case ParseInt 8 32 fm of
                None \<Rightarrow> Err (NumberError fm)
              | Some mode \<Rightarrow> Ok (vi\<lparr>viFilemode := mode mod 2 ^ 32\<rparr>))
      else Ok vi)"

fun vi_properties :: "string list \<Rightarrow> VirtualInput \<Rightarrow> (wrapper_error, VirtualInput) res" where
  "vi_properties [] vi = Ok vi"
| "vi_properties (fp # fps) vi = res_bind (vi_property fp vi) (vi_properties fps)"

definition parse_virtual_input :: "string \<Rightarrow> (wrapper_error, VirtualInput) res" where
  "parse_virtual_input f =
     res_bind (vi_properties (split_on CHR '','' f) new_virtual_input) (\<lambda>vi.
       if viPath vi = [] \<or> viDigest vi = [] then Err (VirtualInputError f) else Ok vi)"

fun virtual_inputs :: "string list \<Rightarrow> (wrapper_error, VirtualInput list) res" where
  "virtual_inputs [] = Ok []"
| "virtual_inputs (f # fs) =
     (if f = [] then virtual_inputs fs
      else res_bind (parse_virtual_input f) (\<lambda>vi. res_bind (virtual_inputs fs) (\<lambda>vis. Ok (vi # vis))))"

definition parseVirtualInputs :: "string \<Rightarrow> (wrapper_error, VirtualInput list) res" where
  "parseVirtualInputs viFlag = (if viFlag = [] then Ok [] else virtual_inputs (split_on CHR '';'' viFlag))"

section \<open>Requests\<close>

record CommandOptions =
  oLabels :: "(string \<times> string) list"
  oExecRoot :: string
  oWorkDir :: string
  oOutputFiles :: "string list"
  oOutputDirectories :: "string list"
  oInputs :: "string list"
  oVirtualInputs :: string
  oToolchainInputs :: "string list"
  oInputListPaths :: "string list"
  oOutputListPaths :: "string list"
  oEnvVarAllowlist :: "string list"
  oReclientTimeout :: int
  oExecStrategy :: string
  oCompare :: bool
  oPlatform :: "(string \<times> string) list"
  oRemoteAcceptCache :: bool
  oRemoteUpdateCache :: bool
  oDownloadOutputs :: bool
  oDownloadRegex :: string
  oEnableAtomicDownloads :: bool
  oLogEnvironment :: bool
  oNumRetriesIfMismatched :: int
  oNumLocalReruns :: int
  oNumRemoteReruns :: int
  oLocalWrapper :: string
  oRemoteWrapper :: string
  oCanonicalizeWorkingDir :: bool
  oPreserveUnchangedOutputMtime :: bool

definition envVars :: "(string \<Rightarrow> string) \<Rightarrow> string list \<Rightarrow> (string \<rightharpoonup> string)" where
  "envVars getenv allowlist = (\<lambda>v. if v \<in> set allowlist then Some (getenv v) else None)"

fun expand_lists ::
  "(string \<Rightarrow> (read_error, string) res) \<Rightarrow> string list \<Rightarrow> string list \<Rightarrow> (wrapper_error, string list) res" where
  "expand_lists readFile acc [] = Ok acc"
| "expand_lists readFile acc (p # ps) =
     (case RspParse readFile p of
        Ok extra \<Rightarrow> expand_lists readFile (acc @ extra) ps
      | Err e \<Rightarrow> Err (ReadError e)
      | Panic \<Rightarrow> Panic)"

definition ascii_upper :: "char \<Rightarrow> char" where
  "ascii_upper c = (let n = of_char c :: nat in if 97 \<le> n \<and> n \<le> 122 then char_of (n - 32) else c)"

definition strategies :: "(string \<times> ExecStrategy) list" where
  "strategies = [(''UNSPECIFIED'', UNSPECIFIED), (''LOCAL'', LOCAL), (''REMOTE'', REMOTE),
     (''REMOTE_LOCAL_FALLBACK'', REMOTE_LOCAL_FALLBACK), (''RACING'', RACING)]"

definition parse_strategy :: "string \<Rightarrow> ExecStrategy" where
  "parse_strategy s = (case map_of strategies (map ascii_upper s) of None \<Rightarrow> UNSPECIFIED | Some st \<Rightarrow> st)"

text \<open>Whole seconds of a duration in nanoseconds, towards zero.\<close>

definition whole_seconds :: "int \<Rightarrow> int" where
  "whole_seconds d = go_quot d 1000000000"

definition remote_options :: "CommandOptions \<Rightarrow> RemoteExecutionOptions" where
  "remote_options opts =
     \<lparr>roAcceptCached = oRemoteAcceptCache opts,
      roDoNotCache = \<not> oRemoteUpdateCache opts \<and> parse_strategy (oExecStrategy opts) \<noteq> LOCAL,
      roDownloadOutputs = oDownloadOutputs opts, roPreserveMtime = oPreserveUnchangedOutputMtime opts\<rparr>"

text \<open>The action of the request, before input processing.\<close>

definition wrapped_action ::
  "(string \<Rightarrow> string) \<Rightarrow> string list \<Rightarrow> string list \<Rightarrow> CommandOptions \<Rightarrow> string list \<Rightarrow> string list \<Rightarrow> action" where
  "wrapped_action getenv environ cmd opts inputs outputs =
     \<lparr>aExecutionID = [], aExecRoot = oExecRoot opts, aWorkingDir = oWorkDir opts, aRemoteWorkingDir = [], aArgs = cmd,
      aOutputFiles = outputs, aOutputDirs = oOutputDirectories opts, aHasInputSpec = True, aInputs = inputs,
      aInputEnv = envVars getenv (oEnvVarAllowlist opts), aCmdEnvironment = environ,
      aExecStrategy = parse_strategy (oExecStrategy opts), aCompare = oCompare opts,
      aNumLocalReruns = 0, aNumRemoteReruns = 0, aAtomicDownloads = oEnableAtomicDownloads opts,
      aDownloadRegex = oDownloadRegex opts, aROpt = Some (remote_options opts),
      aCanonicalizeWorkingDir = oCanonicalizeWorkingDir opts, aPlatform = [], aToolchainInputs = [],
      aLocalWrapper = oLocalWrapper opts, aLocalAcceptCached = oRemoteAcceptCache opts,
      aLocalDoNotCache = \<not> oRemoteUpdateCache opts, aDFile = [], aDepsFile = [], aExecContext = False, aRes = None,
      aOE = ([], []), aFallbackOE = ([], []), aFallbackExitCode = 0, aFallbackStatus = UNKNOWN_STATUS,
      aExecutedLocally = False, aLocalResult = None, aRemoteMetadata = None, aActionDigest = [], aLocalReruns = [],
      aRemoteReruns = [], aVerification = None, aCacheHit = False, aValidCacheHit = False, aUpdatedCache = False,
      aCalls = []\<rparr>"

text \<open>What the SDK says about the validity of the command, and the execution identifier, are set on
  the side of the proxy: \<open>validate\<close> and \<open>executionID\<close>.\<close>

definition wrapped_request ::
  "(action \<Rightarrow> string option) \<Rightarrow> string \<Rightarrow> CommandOptions \<Rightarrow> action \<Rightarrow> RunRequest" where
  "wrapped_request validate executionID opts a =
     \<lparr>rqHasCommand = True, rqValidateErr = validate a, rqAction = a, rqLogEnvironment = oLogEnvironment opts,
      rqNumLocalReruns = to_int32 (oNumLocalReruns opts),
      rqNumRemoteReruns = to_int32 (oNumRemoteReruns opts),
      rqNumRetriesIfMismatched = to_int32 (oNumRetriesIfMismatched opts),
      rqReclientTimeout = whole_seconds (oReclientTimeout opts), rqPlatform = oPlatform opts,
      rqToolchainInputs = oToolchainInputs opts, rqRemoteWrapper = oRemoteWrapper opts, rqExecutionID = executionID\<rparr>"

definition createRequest ::
  "(string \<Rightarrow> (read_error, string) res) \<Rightarrow> (string \<Rightarrow> string) \<Rightarrow> string list \<Rightarrow> (action \<Rightarrow> string option) \<Rightarrow> string \<Rightarrow>
   string list \<Rightarrow> CommandOptions \<Rightarrow> (wrapper_error, RunRequest \<times> VirtualInput list) res" where
  "createRequest readFile getenv environ validate executionID cmd opts =
     res_bind (expand_lists readFile (oInputs opts) (oInputListPaths opts)) (\<lambda>inputs.
     res_bind (expand_lists readFile (oOutputFiles opts) (oOutputListPaths opts)) (\<lambda>outputs.
     res_bind (parseVirtualInputs (oVirtualInputs opts)) (\<lambda>vis.
       Ok (wrapped_request validate executionID opts (wrapped_action getenv environ cmd opts inputs outputs), vis))))"

section \<open>Retries\<close>

datatype grpc_code =
  CodeCanceled | CodeUnknown | CodeInvalidArgument | CodeDeadlineExceeded | CodeNotFound | CodeAlreadyExists
| CodePermissionDenied | CodeResourceExhausted | CodeFailedPrecondition | CodeAborted | CodeOutOfRange
| CodeUnimplemented | CodeInternal | CodeUnavailable | CodeDataLoss | CodeUnauthenticated

text \<open>An error with a status of the RPC system, or another error.\<close>

datatype rpc_error = StatusError grpc_code | PlainError string

definition shouldRetry :: "rpc_error \<Rightarrow> bool" where
  "shouldRetry err =
     (case err of
        PlainError _ \<Rightarrow> False
      | StatusError c \<Rightarrow> c \<in> {CodeCanceled, CodeUnknown, CodeDeadlineExceeded, CodeAborted, CodeUnavailable, CodeResourceExhausted})"

text \<open>One attempt: after the dial timeout it fails with an error that is not retried.\<close>

definition wrapper_attempt :: "int \<Rightarrow> int \<Rightarrow> (rpc_error, 'r) res \<Rightarrow> (rpc_error, 'r) res" where
  "wrapper_attempt dialTimeout elapsed answer =
     (if elapsed > dialTimeout then Err (PlainError ''dial_timeout expired before being able to connect to reproxy'')
      else answer)"

section \<open>Printing virtual inputs\<close>

definition show_virtual_input :: "VirtualInput \<Rightarrow> string" where
  "show_virtual_input vi =
     join_with '','' ([''path='' @ viPath vi, ''digest='' @ viDigest vi] @
       (case viMtime vi of None \<Rightarrow> [] | Some m \<Rightarrow> [''mtime='' @ show_signed m]) @
       [''filemode='' @ show_base 8 (nat (viFilemode vi))])"

definition vi_ok :: "VirtualInput \<Rightarrow> bool" where
  "vi_ok vi \<longleftrightarrow> viPath vi \<noteq> [] \<and> viDigest vi \<noteq> [] \<and>
     set '','' \<inter> set (viPath vi @ viDigest vi) = {} \<and> set '';'' \<inter> set (viPath vi @ viDigest vi) = {} \<and>
     (case viMtime vi of None \<Rightarrow> True | Some m \<Rightarrow> - (2 ^ 63) \<le> m \<and> m < 2 ^ 63) \<and>
     0 \<le> viFilemode vi \<and> viFilemode vi < 2 ^ 31"

lemma show_base_plain: "c \<in> {CHR '','', CHR '';''} \<Longrightarrow> 2 \<le> b \<Longrightarrow> b \<le> 10 \<Longrightarrow> c \<notin> set (show_base b n)"
  using show_base_digits [of b c n] by auto

lemma show_signed_plain: "c \<in> {CHR '','', CHR '';''} \<Longrightarrow> c \<notin> set (show_signed n)"
  using show_base_plain [of c 10] by (auto simp: show_signed_def)

lemma show_signed_not_Nil [simp]: "show_signed n \<noteq> []"
  by (simp add: show_signed_def)

lemma vi_property_cases:
  "vi_property (''path='' @ s) vi = Ok (vi\<lparr>viPath := s\<rparr>)"
  "vi_property (''digest='' @ s) vi = Ok (vi\<lparr>viDigest := s\<rparr>)"
  "s \<noteq> [] \<Longrightarrow> ParseInt 10 64 s = Some n \<Longrightarrow> vi_property (''mtime='' @ s) vi = Ok (vi\<lparr>viMtime := Some n\<rparr>)"
  "s \<noteq> [] \<Longrightarrow> ParseInt 8 32 s = Some n \<Longrightarrow> vi_property (''filemode='' @ s) vi = Ok (vi\<lparr>viFilemode := n mod 2 ^ 32\<rparr>)"
  by (simp_all add: vi_property_def trim_prefix_def)

lemmas vi_property_simps [simp] = vi_property_cases [simplified]

lemma parse_show_virtual_input:
  assumes "vi_ok vi"
  shows "parse_virtual_input (show_virtual_input vi) = Ok vi"
proof -
  let ?ps = "[''path='' @ viPath vi, ''digest='' @ viDigest vi] @
       (case viMtime vi of None \<Rightarrow> [] | Some m \<Rightarrow> [''mtime='' @ show_signed m]) @
       [''filemode='' @ show_base 8 (nat (viFilemode vi))]"
  have "CHR '','' \<notin> set w" if "w \<in> set ?ps" for w
    using that assms show_signed_plain [of "CHR '',''"] show_base_plain [of "CHR '',''" 8]
    by (auto simp: vi_ok_def split: option.splits)
  then have split: "split_on CHR '','' (show_virtual_input vi) = ?ps"
    unfolding show_virtual_input_def by (intro split_join) auto
  have mode: "ParseInt 8 32 (show_base 8 (nat (viFilemode vi))) = Some (viFilemode vi)"
    using ParseInt_show_base [of 8 "nat (viFilemode vi)" 32] assms by (simp add: vi_ok_def)
  have "vi_properties ?ps new_virtual_input = Ok vi"
  proof (cases "viMtime vi")
    case None
    then show ?thesis using mode assms by (simp add: new_virtual_input_def vi_ok_def)
  next
    case (Some m)
    then have "ParseInt 10 64 (show_signed m) = Some m" using ParseInt_show_signed [of 64 m] assms by (simp add: vi_ok_def)
    then show ?thesis using mode assms Some by (simp add: new_virtual_input_def vi_ok_def)
  qed
  then show ?thesis using assms by (simp add: parse_virtual_input_def split vi_ok_def)
qed

lemma show_virtual_input_plain: "vi_ok vi \<Longrightarrow> CHR '';'' \<notin> set (show_virtual_input vi)"
  using show_signed_plain [of "CHR '';''"] show_base_plain [of "CHR '';''" 8]
  by (auto simp: show_virtual_input_def vi_ok_def split: option.splits)

lemma show_virtual_input_not_Nil: "show_virtual_input vi \<noteq> []"
  by (simp add: show_virtual_input_def)

section \<open>Properties\<close>

text \<open>Virtual inputs survive the command line: parsing the printed form of well-formed virtual
  inputs (with path and digest, free of the separators, in the range of the numbers) gives
  them back.\<close>

theorem parseVirtualInputs_roundtrip:
  assumes "\<forall>vi \<in> set vis. vi_ok vi"
  shows "parseVirtualInputs (join_with '';'' (map show_virtual_input vis)) = Ok vis"
proof (cases "vis = []")
  case False
  have "virtual_inputs (map show_virtual_input vis) = Ok vis"
    using assms by (induction vis) (simp_all add: parse_show_virtual_input show_virtual_input_not_Nil)
  moreover have "split_on CHR '';'' (join_with '';'' (map show_virtual_input vis)) = map show_virtual_input vis"
    using False assms show_virtual_input_plain by (intro split_join) auto
  moreover have "join_with '';'' (map show_virtual_input vis) \<noteq> []"
    using False show_virtual_input_not_Nil by (cases vis; cases "tl vis") auto
  ultimately show ?thesis by (simp add: parseVirtualInputs_def)
qed (simp add: parseVirtualInputs_def)

theorem parseVirtualInputs_roundtrip_witness:
  "parseVirtualInputs (join_with '';'' (map show_virtual_input [\<lparr>viPath = ''a'', viDigest = ''d/1'', viMtime = Some (-5), viFilemode = 420\<rparr>]))
     = Ok [\<lparr>viPath = ''a'', viDigest = ''d/1'', viMtime = Some (-5), viFilemode = 420\<rparr>]"
  by (rule parseVirtualInputs_roundtrip) (simp add: vi_ok_def)

end
