(* ===== verification/Stats.thy ===== *)
theory Stats
  imports Labels Numbers "HOL-Library.AList"
begin

text \<open>
  Aggregation of log records into statistics (\<open>internal/pkg/stats/stats.go\<close>): a tree of
  statistics by field name, to which every record adds its values, the collection of the
  leaves under dotted names, percentiles and outliers, and the conversion for output. The
  fields of the record are those the aggregation reads; enumeration values are their names.
  Times are nanoseconds, absent when unset. Floating-point quotients are kept as numerator and
  denominator. The order in which Go visits the leaves is an argument.
\<close>

section \<open>One statistic\<close>

record Outlier =
  oCommandId :: string
  oValue :: int

record Stat =
  stCount :: int
  CountByValue :: "(string \<times> int) list"
  rawValues :: "int list"
  isMillis :: bool
  Outlier1 :: "Outlier option"
  Outlier2 :: "Outlier option"
  Median :: int
  Percentile75 :: int
  Percentile85 :: int
  Percentile95 :: int
  Average :: "int \<times> nat"

definition new_stat :: Stat where
  "new_stat = \<lparr>stCount = 0, CountByValue = [], rawValues = [], isMillis = False, Outlier1 = None, Outlier2 = None,
     Median = 0, Percentile75 = 0, Percentile85 = 0, Percentile95 = 0, Average = (0, 1)\<rparr>"

definition IsEmpty :: "Stat \<Rightarrow> bool" where
  "IsEmpty st \<longleftrightarrow> Outlier1 st = None \<and> stCount st = 0 \<and> CountByValue st = []"

definition above :: "int \<Rightarrow> Outlier option \<Rightarrow> bool" where
  "above v out \<longleftrightarrow> (case out of None \<Rightarrow> True | Some x \<Rightarrow> v > oValue x)"

definition note_outlier :: "Outlier \<Rightarrow> Stat \<Rightarrow> Stat" where
  "note_outlier cur st =
     (if oValue cur = 0 then st
      else if above (oValue cur) (Outlier1 st) then st\<lparr>Outlier2 := Outlier1 st, Outlier1 := Some cur\<rparr>
      else if above (oValue cur) (Outlier2 st) then st\<lparr>Outlier2 := Some cur\<rparr>
      else st)"

definition num_stat :: "int \<Rightarrow> string \<Rightarrow> bool \<Rightarrow> Stat \<Rightarrow> Stat" where
  "num_stat val cmdID millis st =
     note_outlier \<lparr>oCommandId = cmdID, oValue = val\<rparr>
       (st\<lparr>rawValues := rawValues st @ [val], isMillis := isMillis st \<or> millis,
           stCount := stCount st + (if millis then 1 else val)\<rparr>)"

definition bool_stat :: "bool \<Rightarrow> Stat \<Rightarrow> Stat" where
  "bool_stat b st = (if b then st\<lparr>stCount := stCount st + 1\<rparr> else st)"

definition count_of :: "string \<Rightarrow> Stat \<Rightarrow> int" where
  "count_of v st = (case map_of (CountByValue st) v of None \<Rightarrow> 0 | Some n \<Rightarrow> n)"

definition status_stat :: "string \<Rightarrow> Stat \<Rightarrow> Stat" where
  "status_stat v st = st\<lparr>CountByValue := AList.update v (count_of v st + 1) (CountByValue st)\<rparr>"

section \<open>The tree\<close>

datatype statTree = StatTree (tname: string) (tvalue: Stat) (tsub: "(string \<times> statTree) list")

definition newStatTree :: "string \<Rightarrow> statTree" where
  "newStatTree name = StatTree name new_stat []"

definition child :: "statTree \<Rightarrow> string \<Rightarrow> statTree" where
  "child stt name = (case map_of (tsub stt) name of Some c \<Rightarrow> c | None \<Rightarrow> newStatTree name)"

text \<open>\<open>child\<close> followed by work on the child it returns: the child is added when it is missing.\<close>

definition on_child :: "string \<Rightarrow> (statTree \<Rightarrow> statTree) \<Rightarrow> statTree \<Rightarrow> statTree" where
  "on_child name f stt = StatTree (tname stt) (tvalue stt) (AList.update name (f (child stt name)) (tsub stt))"

definition on_value :: "(Stat \<Rightarrow> Stat) \<Rightarrow> statTree \<Rightarrow> statTree" where
  "on_value f stt = StatTree (tname stt) (f (tvalue stt)) (tsub stt)"

definition addNum :: "int \<Rightarrow> string \<Rightarrow> string \<Rightarrow> bool \<Rightarrow> statTree \<Rightarrow> statTree" where
  "addNum val name cmdID millis = on_child name (on_value (num_stat val cmdID millis))"

definition addBool :: "bool \<Rightarrow> string \<Rightarrow> statTree \<Rightarrow> statTree" where
  "addBool b name = on_child name (on_value (bool_stat b))"

definition addStatus :: "string \<Rightarrow> string \<Rightarrow> statTree \<Rightarrow> statTree" where
  "addStatus v name = on_child name (on_value (status_stat v))"

section \<open>Log records\<close>

text \<open>A time interval: nanoseconds of both ends, when set.\<close>

type_synonym interval = "int option \<times> int option"

record RerunMeta =
  rrAttempt :: int
  rrResult :: "string option"
  rrNumOutputFiles :: int
  rrNumOutputDirectories :: int
  rrTotalOutputBytes :: int
  rrLogicalBytesDownloaded :: int
  rrRealBytesDownloaded :: int
  rrEventTimes :: "(string \<times> interval option) list"

record RemoteMeta =
  rmResult :: "string option"
  rmCacheHit :: bool
  rmNumInputFiles :: int
  rmNumInputDirectories :: int
  rmTotalInputBytes :: int
  rmNumOutputFiles :: int
  rmNumOutputDirectories :: int
  rmTotalOutputBytes :: int
  rmEventTimes :: "(string \<times> interval option) list"
  rmLogicalBytesUploaded :: int
  rmRealBytesUploaded :: int
  rmLogicalBytesDownloaded :: int
  rmRealBytesDownloaded :: int
  rmRerunMetadata :: "RerunMeta option list"

record VerMismatch =
  vmPath :: string
  vmNonDeterministic :: bool
  vmIgnored :: bool

record VerMeta =
  vfMismatches :: "VerMismatch list"
  vfTotalMismatches :: int
  vfTotalIgnoredMismatches :: int
  vfTotalVerified :: int

record LocalMeta =
  lmResult :: "string option"
  lmExecutedLocally :: bool
  lmValidCacheHit :: bool
  lmUpdatedCache :: bool
  lmVerification :: "VerMeta option"
  lmEventTimes :: "(string \<times> interval option) list"
  lmRerunMetadata :: "RerunMeta option list"
  lmLabels :: "(string \<times> string) list"

record StatRecord =
  srResult :: "string option"
  srRemoteMetadata :: "RemoteMeta option"
  srLocalMetadata :: "LocalMeta option"
  srCompletionStatus :: string
  srCommandId :: string
  srInvocationId :: string

definition addCommandResult :: "string option \<Rightarrow> string \<Rightarrow> statTree \<Rightarrow> statTree" where
  "addCommandResult res name =
     on_child name (case res of None \<Rightarrow> id | Some s \<Rightarrow> addStatus s ''Status'')"

text \<open>Milliseconds of an interval: \<open>Duration.Milliseconds\<close> rounds towards zero, the conversion to
  \<open>int32\<close> wraps around.\<close>

definition interval_millis :: "int \<Rightarrow> int \<Rightarrow> int" where
  "interval_millis t0 t1 = to_int32 (go_quot (t1 - t0) 1000000)"

definition addTimeInterval :: "interval option \<Rightarrow> string \<Rightarrow> string \<Rightarrow> statTree \<Rightarrow> statTree" where
  "addTimeInterval tPb name cmdID =
     on_child name
       (case tPb of
          Some (Some t0, Some t1) \<Rightarrow> addNum (interval_millis t0 t1) [] cmdID True
        | _ \<Rightarrow> id)"

definition addEventTimes :: "(string \<times> interval option) list \<Rightarrow> string \<Rightarrow> string \<Rightarrow> statTree \<Rightarrow> statTree" where
  "addEventTimes et name cmdID = on_child name (fold (\<lambda>(k, v). addTimeInterval v k cmdID) et)"

definition addMismatch :: "VerMismatch \<Rightarrow> string \<Rightarrow> statTree \<Rightarrow> statTree" where
  "addMismatch mm name =
     on_child name (addBool (vmIgnored mm) ''Ignored'' \<circ> addBool (vmNonDeterministic mm) ''NonDeterministic'')"

definition addMismatches :: "VerMismatch list \<Rightarrow> string \<Rightarrow> statTree \<Rightarrow> statTree" where
  "addMismatches mms name = on_child name (fold (\<lambda>mm. addMismatch mm ''Mismatch'') mms)"

definition addVerification :: "VerMeta option \<Rightarrow> string \<Rightarrow> string \<Rightarrow> statTree \<Rightarrow> statTree" where
  "addVerification vf name cmdID =
     on_child name
       (case vf of
          None \<Rightarrow> id
        | Some v \<Rightarrow>
            addNum (vfTotalVerified v) ''TotalVerified'' cmdID False \<circ>
            addNum (vfTotalIgnoredMismatches v) ''TotalIgnoredMismatches'' cmdID False \<circ>
            addNum (vfTotalMismatches v) ''TotalMismatches'' cmdID False \<circ>
            addMismatches (vfMismatches v) ''Mismatches'')"

text \<open>The output files are added twice.\<close>

definition addRerunMetadata :: "RerunMeta option \<Rightarrow> string \<Rightarrow> string \<Rightarrow> statTree \<Rightarrow> statTree" where
  "addRerunMetadata rm name cmdID =
     on_child name
       (case rm of
          None \<Rightarrow> id
        | Some r \<Rightarrow>
            addEventTimes (rrEventTimes r) ''EventTimes'' cmdID \<circ>
            addNum (rrRealBytesDownloaded r) ''RealBytesDownloaded'' cmdID False \<circ>
            addNum (rrLogicalBytesDownloaded r) ''LogicalBytesDownloaded'' cmdID False \<circ>
            addNum (rrTotalOutputBytes r) ''TotalOutputBytes'' cmdID False \<circ>
            addNum (rrNumOutputDirectories r) ''NumOutputDirectories'' cmdID False \<circ>
            addNum (rrNumOutputFiles r) ''NumOutputFiles'' cmdID False \<circ>
            addNum (rrNumOutputFiles r) ''NumOutputFiles'' cmdID False \<circ>
            addCommandResult (rrResult r) ''Result'' \<circ>
            addNum (rrAttempt r) ''Attempt'' cmdID False)"

definition addRerunMetadatas :: "RerunMeta option list \<Rightarrow> string \<Rightarrow> string \<Rightarrow> statTree \<Rightarrow> statTree" where
  "addRerunMetadatas rms name cmdID = on_child name (fold (\<lambda>rm. addRerunMetadata rm ''RerunMetadata'' cmdID) rms)"

definition addLocalMetadata :: "LocalMeta option \<Rightarrow> string \<Rightarrow> string \<Rightarrow> statTree \<Rightarrow> statTree" where
  "addLocalMetadata lm name cmdID =
     on_child name
       (case lm of
          None \<Rightarrow> id
        | Some l \<Rightarrow>
            addRerunMetadatas (lmRerunMetadata l) ''RerunMetadata'' cmdID \<circ>
            addEventTimes (lmEventTimes l) ''EventTimes'' cmdID \<circ>
            addVerification (lmVerification l) ''Verification'' cmdID \<circ>
            addBool (lmUpdatedCache l) ''UpdatedCache'' \<circ>
            addBool (lmValidCacheHit l) ''ValidCacheHit'' \<circ>
            addBool (lmExecutedLocally l) ''ExecutedLocally'' \<circ>
            addCommandResult (lmResult l) ''Result'')"

definition addRemoteMetadata :: "RemoteMeta option \<Rightarrow> string \<Rightarrow> string \<Rightarrow> statTree \<Rightarrow> statTree" where
  "addRemoteMetadata rm name cmdID =
     on_child name
       (case rm of
          None \<Rightarrow> id
        | Some r \<Rightarrow>
            addRerunMetadatas (rmRerunMetadata r) ''RerunMetadata'' cmdID \<circ>
            addNum (rmRealBytesDownloaded r) ''RealBytesDownloaded'' cmdID False \<circ>
            addNum (rmLogicalBytesDownloaded r) ''LogicalBytesDownloaded'' cmdID False \<circ>
            addNum (rmRealBytesUploaded r) ''RealBytesUploaded'' cmdID False \<circ>
            addNum (rmLogicalBytesUploaded r) ''LogicalBytesUploaded'' cmdID False \<circ>
            addEventTimes (rmEventTimes r) ''EventTimes'' cmdID \<circ>
            addNum (rmTotalOutputBytes r) ''TotalOutputBytes'' cmdID False \<circ>
            addNum (rmNumOutputDirectories r) ''NumOutputDirectories'' cmdID False \<circ>
            addNum (rmNumOutputFiles r) ''NumOutputFiles'' cmdID False \<circ>
            addNum (rmTotalInputBytes r) ''TotalInputBytes'' cmdID False \<circ>
            addNum (rmNumInputDirectories r) ''NumInputDirectories'' cmdID False \<circ>
            addNum (rmNumInputFiles r) ''NumInputFiles'' cmdID False \<circ>
            addBool (rmCacheHit r) ''CacheHit'' \<circ>
            addCommandResult (rmResult r) ''Result'')"

definition addLogRecord :: "StatRecord \<Rightarrow> string \<Rightarrow> string \<Rightarrow> statTree \<Rightarrow> statTree" where
  "addLogRecord r name cmdID =
     on_child name
       (addStatus (srCompletionStatus r) ''CompletionStatus'' \<circ>
        addLocalMetadata (srLocalMetadata r) ''LocalMetadata'' cmdID \<circ>
        addRemoteMetadata (srRemoteMetadata r) ''RemoteMetadata'' cmdID \<circ>
        addCommandResult (srResult r) ''Result'')"

section \<open>The collection\<close>

record Stats =
  NumRecords :: int
  invIDs :: "string list"
  sStats :: "(string \<times> Stat) list"
  sTree :: statTree
  sMismatches :: "VerMismatch list"
  numVerified :: int
  cacheHits :: int
  minProxyExecStart :: "int option"
  maxProxyExecEnd :: int

definition new_stats :: Stats where
  "new_stats = \<lparr>NumRecords = 0, invIDs = [], sStats = [], sTree = newStatTree [], sMismatches = [], numVerified = 0,
     cacheHits = 0, minProxyExecStart = None, maxProxyExecEnd = 0\<rparr>"

text \<open>Nanoseconds to the Unix seconds of a time: rounds down.\<close>

definition unix_seconds :: "int \<Rightarrow> int" where
  "unix_seconds t = t div 1000000000"

definition record_labels :: "StatRecord \<Rightarrow> (string \<times> string) list" where
  "record_labels r = (case srLocalMetadata r of None \<Rightarrow> [] | Some l \<Rightarrow> lmLabels l)"

definition record_verification :: "StatRecord \<Rightarrow> VerMeta option" where
  "record_verification r = (case srLocalMetadata r of None \<Rightarrow> None | Some l \<Rightarrow> lmVerification l)"

definition proxy_execution :: "StatRecord \<Rightarrow> (int \<times> int) option" where
  "proxy_execution r =
     (case srLocalMetadata r of
        None \<Rightarrow> None
      | Some l \<Rightarrow>
          (case map_of (lmEventTimes l) ''ProxyExecution'' of
             Some (Some (Some t0, Some t1)) \<Rightarrow> Some (unix_seconds t0, unix_seconds t1)
           | _ \<Rightarrow> None))"

definition add_to_tree :: "StatRecord \<Rightarrow> statTree \<Rightarrow> statTree" where
  "add_to_tree r t =
     (let t1 = addLogRecord r [] (srCommandId r) t in
      if record_labels r = [] then t1 else addLogRecord r (ToKey (record_labels r)) (srCommandId r) t1)"

text \<open>The earliest start begins at the largest float, here \<^const>\<open>None\<close>.\<close>

definition AddRecord :: "StatRecord \<Rightarrow> Stats \<Rightarrow> Stats" where
  "AddRecord r s =
     s\<lparr>NumRecords := NumRecords s + 1,
       sTree := add_to_tree r (sTree s),
       sMismatches := sMismatches s @ (case record_verification r of None \<Rightarrow> [] | Some v \<Rightarrow> vfMismatches v),
       numVerified := numVerified s + (case record_verification r of None \<Rightarrow> 0 | Some v \<Rightarrow> vfTotalVerified v),
       invIDs := (if srInvocationId r \<noteq> [] then List.insert (srInvocationId r) (invIDs s) else invIDs s),
       cacheHits := cacheHits s + (if srResult r = Some ''CACHE_HIT'' then 1 else 0),
       minProxyExecStart := (case proxy_execution r of
          None \<Rightarrow> minProxyExecStart s
        | Some (t0, _) \<Rightarrow> Some (case minProxyExecStart s of None \<Rightarrow> t0 | Some m \<Rightarrow> min m t0)),
       maxProxyExecEnd := (case proxy_execution r of None \<Rightarrow> maxProxyExecEnd s | Some (_, t1) \<Rightarrow> max (maxProxyExecEnd s) t1)\<rparr>"

section \<open>Aggregation\<close>

definition agg_key :: "string \<Rightarrow> string \<Rightarrow> string" where
  "agg_key pre name = (if pre \<noteq> [] \<and> name \<noteq> [] then pre @ ''.'' else pre) @ name"

text \<open>The leaves with their dotted names.\<close>

fun tree_leaves :: "string \<Rightarrow> statTree \<Rightarrow> (string \<times> Stat) list" where
  "tree_leaves pre (StatTree name st sub) =
     (let pre' = agg_key pre name in
      if sub = [] then [(if isMillis st then pre' @ ''Millis'' else pre', st)]
      else concat (map (\<lambda>(k, c). tree_leaves pre' c) sub))"

definition aggregate ::
  "((string \<times> Stat) list \<Rightarrow> (string \<times> Stat) list) \<Rightarrow> Stats \<Rightarrow> Stats" where
  "aggregate ord s = s\<lparr>sStats := fold (\<lambda>(k, st). AList.update k st) (ord (tree_leaves [] (sTree s))) (sStats s)\<rparr>"

text \<open>\<open>summarize\<close> sorts the values and reads four of them; \<^const>\<open>None\<close> would be an index out of
  range.\<close>

definition summarize :: "Stat \<Rightarrow> Stat option" where
  "summarize st =
     (let vals = sort (rawValues st); n = length vals in
      if n = 0 then Some st
      else if n div 2 < n \<and> n * 3 div 4 < n \<and> n * 17 div 20 < n \<and> n * 19 div 20 < n
      then Some (st\<lparr>rawValues := vals, Median := vals ! (n div 2), Percentile75 := vals ! (n * 3 div 4),
             Percentile85 := vals ! (n * 17 div 20), Percentile95 := vals ! (n * 19 div 20),
             Average := (sum_list vals, n)\<rparr>)
      else None)"

definition finalize :: "Stats \<Rightarrow> Stats option" where
  "finalize s =
     map_option (\<lambda>sts. s\<lparr>sStats := zip (map fst (sStats s)) sts, sMismatches := sort_key vmPath (sMismatches s)\<rparr>)
       (those (map (\<lambda>(k, st). summarize st) (sStats s)))"

definition FinalizeAggregate ::
  "((string \<times> Stat) list \<Rightarrow> (string \<times> Stat) list) \<Rightarrow> Stats \<Rightarrow> Stats option" where
  "FinalizeAggregate ord s = finalize (aggregate ord s)"

definition NewFromRecords ::
  "((string \<times> Stat) list \<Rightarrow> (string \<times> Stat) list) \<Rightarrow> StatRecord list \<Rightarrow> Stats option" where
  "NewFromRecords ord recs = FinalizeAggregate ord (fold AddRecord recs new_stats)"

section \<open>Output\<close>

record StatPb =
  pbName :: string
  pbCount :: int
  pbMedian :: int
  pbPercentile75 :: int
  pbPercentile85 :: int
  pbPercentile95 :: int
  pbAverage :: "int \<times> nat"
  pbCountsByValue :: "(string \<times> int) list"
  pbOutliers :: "Outlier list"

definition statToProto :: "string \<Rightarrow> Stat \<Rightarrow> StatPb" where
  "statToProto name s =
     \<lparr>pbName = name, pbCount = stCount s, pbMedian = Median s, pbPercentile75 = Percentile75 s,
      pbPercentile85 = Percentile85 s, pbPercentile95 = Percentile95 s, pbAverage = Average s,
      pbCountsByValue = map (\<lambda>k. (k, count_of k s)) (sort (map fst (CountByValue s))),
      pbOutliers = (case Outlier1 s of None \<Rightarrow> [] | Some x \<Rightarrow> [x]) @ (case Outlier2 s of None \<Rightarrow> [] | Some x \<Rightarrow> [x])\<rparr>"

record StatsPb =
  spNumRecords :: int
  spCacheHitRatio :: "(int \<times> int) option"
  spBuildLatency :: "int option option"
  spInvocationIds :: "string list"
  spStats :: "StatPb list"
  spVerification :: "(VerMismatch list \<times> int \<times> int) option"

text \<open>Ratio and latency are set when there are records; the latency is \<open>Some None\<close> when no record
  had a proxy execution, where Go subtracts the largest float from zero.\<close>

definition ToProto :: "Stats \<Rightarrow> StatsPb" where
  "ToProto s =
     \<lparr>spNumRecords = NumRecords s,
      spCacheHitRatio = (if NumRecords s \<noteq> 0 then Some (cacheHits s, NumRecords s) else None),
      spBuildLatency = (if NumRecords s \<noteq> 0
        then Some (map_option (\<lambda>m. maxProxyExecEnd s - m) (minProxyExecStart s)) else None),
      spInvocationIds = invIDs s,
      spStats = map (\<lambda>(k, st). statToProto k st)
        (filter (\<lambda>(k, st). \<not> IsEmpty st) (map (\<lambda>k. (k, the (map_of (sStats s) k))) (sort (map fst (sStats s))))),
      spVerification = (if sMismatches s \<noteq> []
        then Some (sMismatches s, int (length (sMismatches s)), numVerified s) else None)\<rparr>"

definition FromSeriesToProto :: "string \<Rightarrow> int list \<Rightarrow> StatPb option" where
  "FromSeriesToProto name vals = map_option (statToProto name) (summarize (new_stat\<lparr>rawValues := vals\<rparr>))"

text \<open>\<open>humanReadableBytes\<close>: the loop counts the divisions; the unit is a letter of \<open>"KMGT"\<close>, an
  index past its end panics. The result is the quotient to print with two decimals and the
  unit, or the plain number of bytes.\<close>

datatype bandwidth = Bytes int | Scaled int int char

fun unit_loop :: "int \<Rightarrow> int \<Rightarrow> nat \<Rightarrow> int \<times> nat" where
  "unit_loop n res idx = (if n \<ge> 1000 then unit_loop (n div 1000) (res * 1000) (idx + 1) else (res, idx))"

declare unit_loop.simps [simp del]

definition humanReadableBytes :: "int \<Rightarrow> bandwidth option" where
  "humanReadableBytes numBytes =
     (if numBytes < 1000 then Some (Bytes numBytes)
      else
        let (res, idx) = unit_loop (numBytes div 1000) 1000 0 in
        if idx < length ''KMGT'' then Some (Scaled numBytes res (''KMGT'' ! idx)) else None)"

definition stat_count :: "string \<Rightarrow> StatPb list \<Rightarrow> int" where
  "stat_count name sts = foldl (\<lambda>acc st. if pbName st = name then pbCount st else acc) 0 sts"

definition BandwidthStats :: "StatPb list \<Rightarrow> (bandwidth \<times> bandwidth) option" where
  "BandwidthStats sts =
     Option.bind (humanReadableBytes (stat_count ''RemoteMetadata.RealBytesDownloaded'' sts)) (\<lambda>d.
       map_option (Pair d) (humanReadableBytes (stat_count ''RemoteMetadata.RealBytesUploaded'' sts)))"

section \<open>Outliers and percentiles\<close>

definition outliers :: "Stat \<Rightarrow> Outlier list" where
  "outliers s = (case Outlier1 s of None \<Rightarrow> [] | Some x \<Rightarrow> [x]) @ (case Outlier2 s of None \<Rightarrow> [] | Some x \<Rightarrow> [x])"

lemma pbOutliers_eq: "pbOutliers (statToProto n s) = outliers s"
  by (simp add: statToProto_def outliers_def)

text \<open>The two largest of a list, largest first.\<close>

definition top2 :: "int list \<Rightarrow> int list" where
  "top2 xs = take 2 (sort_key uminus xs)"

lemma sort_key_uminus_snoc: "sort_key uminus (xs @ [v :: int]) = insort_key uminus v (sort_key uminus xs)"
proof -
  have "mset (xs @ [v]) = mset (sort_key uminus (v # xs))" by simp
  moreover have "inj_on uminus (set (xs @ [v]))" by (rule inj_onI) simp
  ultimately have "sort_key uminus (xs @ [v]) = sort_key uminus (v # xs)"
    using sorted_sort_key by (rule sort_key_inj_key_eq)
  then show ?thesis by simp
qed

lemma top2_snoc:
  "top2 (xs @ [v]) =
     (case top2 xs of
        [] \<Rightarrow> [v]
      | [a] \<Rightarrow> if v > a then [v, a] else [a, v]
      | a # b # _ \<Rightarrow> if v > a then [v, a] else if v > b then [a, v] else [a, b])"
proof -
  obtain zs where zs: "sort_key uminus xs = zs" by simp
  then have "sorted (map uminus zs)" by (metis sorted_sort_key)
  then show ?thesis
    unfolding top2_def sort_key_uminus_snoc zs
    by (cases zs; cases "tl zs") (auto simp: numeral_2_eq_2)
qed

lemma top2_length: "length (top2 xs) \<le> 2"
  by (simp add: top2_def)

text \<open>The second outlier is never set without the first.\<close>

definition outliers_inv :: "int list \<Rightarrow> Stat \<Rightarrow> bool" where
  "outliers_inv xs st \<longleftrightarrow> map oValue (outliers st) = top2 xs \<and> (Outlier1 st = None \<longrightarrow> Outlier2 st = None)"

lemma note_outlier_inv:
  assumes "outliers_inv xs st"
  shows "outliers_inv (if oValue cur = 0 then xs else xs @ [oValue cur]) (note_outlier cur st)"
proof (cases "oValue cur = 0")
  case False
  have t: "top2 xs = map oValue (outliers st)" using assms by (simp add: outliers_inv_def)
  show ?thesis
    using False assms unfolding outliers_inv_def top2_snoc t
    by (cases "Outlier1 st"; cases "Outlier2 st")
      (simp_all add: top2_snoc t note_outlier_def above_def outliers_def)
qed (use assms in \<open>simp add: note_outlier_def\<close>)

lemma outliers_inv_frame:
  "outliers_inv xs (st\<lparr>rawValues := a, isMillis := b, stCount := c\<rparr>) = outliers_inv xs st"
  by (simp add: outliers_inv_def outliers_def)

lemma note_outlier_frame:
  "rawValues (note_outlier cur st) = rawValues st" "stCount (note_outlier cur st) = stCount st"
  "isMillis (note_outlier cur st) = isMillis st" "CountByValue (note_outlier cur st) = CountByValue st"
  by (simp_all add: note_outlier_def)

lemma num_stat_inv:
  assumes "outliers_inv xs st"
  shows "outliers_inv (if v = 0 then xs else xs @ [v]) (num_stat v cmd millis st)"
proof -
  have "outliers_inv xs (st\<lparr>rawValues := rawValues st @ [v], isMillis := isMillis st \<or> millis,
      stCount := stCount st + (if millis then 1 else v)\<rparr>)"
    using assms by (simp only: outliers_inv_frame)
  from note_outlier_inv [OF this, of "\<lparr>oCommandId = cmd, oValue = v\<rparr>"]
  show ?thesis unfolding num_stat_def Outlier.select_convs .
qed

lemma num_stat_frame:
  "rawValues (num_stat v cmd millis st) = rawValues st @ [v]"
  "stCount (num_stat v cmd millis st) = stCount st + (if millis then 1 else v)"
  "CountByValue (num_stat v cmd millis st) = CountByValue st"
  by (simp_all add: num_stat_def note_outlier_frame)

lemma num_stats_inv:
  "let st = fold (\<lambda>(v, cmd). num_stat v cmd millis) vs new_stat in
     outliers_inv (filter (\<lambda>v. v \<noteq> 0) (map fst vs)) st \<and> rawValues st = map fst vs \<and>
     stCount st = (if millis then int (length vs) else sum_list (map fst vs))"
proof (induction vs rule: rev_induct)
  case Nil
  show ?case by (simp add: outliers_inv_def outliers_def new_stat_def top2_def)
next
  case (snoc x vs)
  obtain v cmd where x: "x = (v, cmd)" by fastforce
  obtain st where st: "fold (\<lambda>(v, cmd). num_stat v cmd millis) vs new_stat = st" by simp
  show ?case
    using snoc num_stat_inv [of "filter (\<lambda>v. v \<noteq> 0) (map fst vs)" st v cmd millis]
    by (simp add: Let_def x st num_stat_frame split: if_splits)
qed

lemma filter_le_nth:
  assumes "sorted xs" "i < length xs"
  shows "i < length (filter (\<lambda>v. v \<le> xs ! i) (xs :: int list))"
proof -
  have "filter (\<lambda>v. v \<le> xs ! i) (take (Suc i) xs) = take (Suc i) xs"
    using assms by (auto simp: filter_id_conv in_set_conv_nth sorted_nth_mono)
  then have "filter (\<lambda>v. v \<le> xs ! i) xs = take (Suc i) xs @ filter (\<lambda>v. v \<le> xs ! i) (drop (Suc i) xs)"
    by (metis append_take_drop_id filter_append)
  then show ?thesis using assms(2) by simp
qed

lemma mset_filter_length: "mset xs = mset ys \<Longrightarrow> length (filter P xs) = length (filter P ys)"
  by (metis mset_filter size_mset)

section \<open>Looking into the tree\<close>

fun stat_at :: "string list \<Rightarrow> statTree \<Rightarrow> Stat" where
  "stat_at [] t = tvalue t"
| "stat_at (n # ns) t = stat_at ns (child t n)"

lemma child_on_child: "child (on_child n f t) m = (if n = m then f (child t n) else child t m)"
  by (auto simp: child_def on_child_def update_conv')

lemma child_on_value [simp]: "child (on_value f t) m = child t m"
  by (simp add: child_def on_value_def)

lemma tvalue_on [simp]: "tvalue (on_child n f t) = tvalue t" "tvalue (on_value g t) = g (tvalue t)"
  by (simp_all add: on_child_def on_value_def)

lemma tvalue_new [simp]: "tvalue (newStatTree n) = new_stat" "child (newStatTree n) m = newStatTree m"
  by (simp_all add: newStatTree_def child_def)

lemma stat_at_on_child:
  "stat_at (n # ns) (on_child m f t) = (if n = m then stat_at ns (f (child t n)) else stat_at (n # ns) t)"
  by (simp add: child_on_child)

lemmas tree_simps = child_on_child addNum_def addBool_def addStatus_def addCommandResult_def addEventTimes_def
  addMismatches_def addVerification_def addRerunMetadatas_def addRerunMetadata_def addLocalMetadata_def
  addRemoteMetadata_def addLogRecord_def

lemma count_of_status: "count_of v (status_stat w st) = count_of v st + (if v = w then 1 else 0)"
  by (simp add: count_of_def status_stat_def update_conv')

text \<open>What one record adds below the node of its kind.\<close>

lemma addLogRecord_child: "child (addLogRecord r n cmd t) m = (if n = m then child (addLogRecord r n cmd t) n else child t m)"
  by (simp add: addLogRecord_def child_on_child)

lemma addLogRecord_values:
  "count_of v (stat_at [n, ''CompletionStatus''] (addLogRecord r n cmd t)) =
     count_of v (stat_at [n, ''CompletionStatus''] t) + (if v = srCompletionStatus r then 1 else 0)"
  "stCount (stat_at [n, ''RemoteMetadata'', ''CacheHit''] (addLogRecord r n cmd t)) =
     stCount (stat_at [n, ''RemoteMetadata'', ''CacheHit''] t) +
     (case srRemoteMetadata r of None \<Rightarrow> 0 | Some m \<Rightarrow> if rmCacheHit m then 1 else 0)"
  "stCount (stat_at [n, ''RemoteMetadata'', ''RealBytesDownloaded''] (addLogRecord r n cmd t)) =
     stCount (stat_at [n, ''RemoteMetadata'', ''RealBytesDownloaded''] t) +
     (case srRemoteMetadata r of None \<Rightarrow> 0 | Some m \<Rightarrow> rmRealBytesDownloaded m)"
  "stCount (stat_at [n, ''LocalMetadata'', ''ExecutedLocally''] (addLogRecord r n cmd t)) =
     stCount (stat_at [n, ''LocalMetadata'', ''ExecutedLocally''] t) +
     (case srLocalMetadata r of None \<Rightarrow> 0 | Some m \<Rightarrow> if lmExecutedLocally m then 1 else 0)"
  by (simp_all add: tree_simps count_of_status bool_stat_def num_stat_frame split: option.split)

definition n_records :: "(StatRecord \<Rightarrow> bool) \<Rightarrow> StatRecord list \<Rightarrow> int" where
  "n_records P rs = int (length (filter P rs))"

lemma n_records_Cons: "n_records P (r # rs) = (if P r then 1 else 0) + n_records P rs"
  by (simp add: n_records_def)

definition remote_cache_hit :: "StatRecord \<Rightarrow> bool" where
  "remote_cache_hit r = (case srRemoteMetadata r of None \<Rightarrow> False | Some m \<Rightarrow> rmCacheHit m)"

definition real_bytes_down :: "StatRecord \<Rightarrow> int" where
  "real_bytes_down r = (case srRemoteMetadata r of None \<Rightarrow> 0 | Some m \<Rightarrow> rmRealBytesDownloaded m)"

lemma ToKey_not_Nil [simp]: "ToKey l \<noteq> []"
  by (simp add: ToKey_def)

lemma add_to_tree_child:
  "child (add_to_tree r t) n =
     (if n = [] \<or> record_labels r \<noteq> [] \<and> n = ToKey (record_labels r) then child (addLogRecord r n (srCommandId r) t) n
      else child t n)"
  by (auto simp: add_to_tree_def Let_def addLogRecord_def child_on_child)

text \<open>Whether a record counts below the node \<open>n\<close>.\<close>

definition counts_below :: "string \<Rightarrow> StatRecord \<Rightarrow> bool" where
  "counts_below n r \<longleftrightarrow> n = [] \<or> record_labels r \<noteq> [] \<and> n = ToKey (record_labels r)"

lemma stat_at_cong: "child t n = child u n \<Longrightarrow> stat_at (n # ns) t = stat_at (n # ns) u"
  by simp

lemma add_to_tree_at:
  "stat_at (n # ns) (add_to_tree r t) =
     (if counts_below n r then stat_at (n # ns) (addLogRecord r n (srCommandId r) t) else stat_at (n # ns) t)"
  by (simp add: add_to_tree_child counts_below_def)

lemma fold_AddRecord_values:
  "NumRecords (fold AddRecord rs s) = NumRecords s + int (length rs)"
  "cacheHits (fold AddRecord rs s) = cacheHits s + n_records (\<lambda>r. srResult r = Some ''CACHE_HIT'') rs"
  "count_of v (stat_at [n, ''CompletionStatus''] (sTree (fold AddRecord rs s))) =
     count_of v (stat_at [n, ''CompletionStatus''] (sTree s)) +
     n_records (\<lambda>r. counts_below n r \<and> srCompletionStatus r = v) rs"
  "stCount (stat_at [n, ''RemoteMetadata'', ''CacheHit''] (sTree (fold AddRecord rs s))) =
     stCount (stat_at [n, ''RemoteMetadata'', ''CacheHit''] (sTree s)) +
     n_records (\<lambda>r. counts_below n r \<and> remote_cache_hit r) rs"
  "stCount (stat_at [n, ''RemoteMetadata'', ''RealBytesDownloaded''] (sTree (fold AddRecord rs s))) =
     stCount (stat_at [n, ''RemoteMetadata'', ''RealBytesDownloaded''] (sTree s)) +
     sum_list (map real_bytes_down (filter (counts_below n) rs))"
proof (induction rs arbitrary: s)
  case Nil
  { case 1 show ?case by simp }
  { case 2 show ?case by (simp add: n_records_def) }
  { case 3 show ?case by (simp add: n_records_def) }
  { case 4 show ?case by (simp add: n_records_def) }
  { case 5 show ?case by simp }
next
  case (Cons r rs)
  note at = add_to_tree_at [of n "_ # _" r] addLogRecord_values n_records_Cons
  { case 1 show ?case by (simp only: fold_simps Cons(1)) (simp add: AddRecord_def) }
  { case 2 show ?case by (simp only: fold_simps Cons(2)) (simp add: AddRecord_def n_records_Cons) }
  { case 3 show ?case
      by (simp only: fold_simps Cons(3)) (simp add: AddRecord_def at del: stat_at.simps) }
  { case 4 show ?case
      by (simp only: fold_simps Cons(4))
        (simp add: AddRecord_def at remote_cache_hit_def del: stat_at.simps split: option.split) }
  { case 5 show ?case
      by (simp only: fold_simps Cons(5)) (simp add: AddRecord_def at real_bytes_down_def del: stat_at.simps) }
qed

section \<open>Units\<close>

lemma unit_loop_spec:
  "1 \<le> n \<Longrightarrow> \<exists>k. unit_loop n res idx = (res * 1000 ^ k, idx + k) \<and> 1000 ^ k \<le> n \<and> n < 1000 ^ (k + 1)"
proof (induction n res idx rule: unit_loop.induct)
  case (1 n res idx)
  show ?case
  proof (cases "n \<ge> 1000")
    case True
    then have "1 \<le> n div 1000" by simp
    with True obtain k where k: "unit_loop (n div 1000) (res * 1000) (idx + 1) = (res * 1000 * 1000 ^ k, idx + 1 + k)"
      "1000 ^ k \<le> n div 1000" "n div 1000 < 1000 ^ (k + 1)"
      using "1.IH" by auto
    have "1000 ^ k * 1000 \<le> n" using k(2) by simp
    moreover have "n < 1000 ^ (k + 1) * 1000" using k(3) by (simp add: div_less_iff_less_mult)
    ultimately show ?thesis using k(1) True by (intro exI [of _ "Suc k"]) (simp add: unit_loop.simps [of n] mult_ac)
  next
    case False
    then show ?thesis using "1.prems" by (intro exI [of _ 0]) (simp add: unit_loop.simps [of n])
  qed
qed

lemma power_1000_less:
  assumes "(1000 :: int) ^ a \<le> n" "n < 1000 ^ b"
  shows "a < b"
proof -
  have "(1000 :: int) ^ a < 1000 ^ b" using assms by (rule le_less_trans)
  then show ?thesis by simp
qed

section \<open>Properties\<close>

text \<open>Counting a sequence of values keeps all of them, sums them up (or counts them, for
  times), and holds the two largest values that are not zero as outliers, largest first.\<close>

theorem num_stats_outliers:
  "let st = fold (\<lambda>(v, cmd). num_stat v cmd millis) vs new_stat in
     rawValues st = map fst vs \<and>
     stCount st = (if millis then int (length vs) else sum_list (map fst vs)) \<and>
     map oValue (pbOutliers (statToProto name st)) = take 2 (sort_key uminus (filter (\<lambda>v. v \<noteq> 0) (map fst vs)))"
  using num_stats_inv [of millis vs] by (simp add: Let_def pbOutliers_eq outliers_inv_def top2_def)

text \<open>Summarizing never reads outside the values. For a statistic with values the four
  percentiles are values of it in increasing order, and each has the share of values at or
  below it that its name says.\<close>

theorem summarize_percentiles:
  assumes "rawValues st \<noteq> []"
  shows "\<exists>st'. summarize st = Some st' \<and> mset (rawValues st') = mset (rawValues st) \<and> sorted (rawValues st') \<and>
    {Median st', Percentile75 st', Percentile85 st', Percentile95 st'} \<subseteq> set (rawValues st) \<and>
    Median st' \<le> Percentile75 st' \<and> Percentile75 st' \<le> Percentile85 st' \<and> Percentile85 st' \<le> Percentile95 st' \<and>
    length (rawValues st) < 2 * length (filter (\<lambda>v. v \<le> Median st') (rawValues st)) \<and>
    3 * length (rawValues st) < 4 * length (filter (\<lambda>v. v \<le> Percentile75 st') (rawValues st)) \<and>
    17 * length (rawValues st) < 20 * length (filter (\<lambda>v. v \<le> Percentile85 st') (rawValues st)) \<and>
    19 * length (rawValues st) < 20 * length (filter (\<lambda>v. v \<le> Percentile95 st') (rawValues st))"
proof -
  let ?vals = "sort (rawValues st)" and ?n = "length (rawValues st)"
  have n: "0 < ?n" using assms by simp
  have i: "?n div 2 < ?n" "?n * 3 div 4 < ?n" "?n * 17 div 20 < ?n" "?n * 19 div 20 < ?n"
    "?n div 2 \<le> ?n * 3 div 4" "?n * 3 div 4 \<le> ?n * 17 div 20" "?n * 17 div 20 \<le> ?n * 19 div 20"
    using n by (simp_all add: div_less_iff_less_mult)
  obtain st' where st': "summarize st = Some st'" "rawValues st' = ?vals" "Median st' = ?vals ! (?n div 2)"
    "Percentile75 st' = ?vals ! (?n * 3 div 4)" "Percentile85 st' = ?vals ! (?n * 17 div 20)"
    "Percentile95 st' = ?vals ! (?n * 19 div 20)"
  proof -
    have "sort (rawValues st) \<noteq> []" using n by (metis length_sort list.size(3) less_irrefl)
    then have "summarize st = Some (st\<lparr>rawValues := ?vals, Median := ?vals ! (?n div 2), Percentile75 := ?vals ! (?n * 3 div 4),
        Percentile85 := ?vals ! (?n * 17 div 20), Percentile95 := ?vals ! (?n * 19 div 20), Average := (sum_list ?vals, ?n)\<rparr>)"
      using i by (simp add: summarize_def Let_def)
    then show ?thesis using that by simp
  qed
  have f: "j < length (filter (\<lambda>v. v \<le> ?vals ! j) (rawValues st))" if "j < ?n" for j
    using filter_le_nth [of ?vals j] that mset_filter_length [of ?vals "rawValues st"] by simp
  have m: "?vals ! j \<in> set (rawValues st)" if "j < ?n" for j
    using that nth_mem [of j ?vals] by simp
  have o: "?vals ! j \<le> ?vals ! k" if "j \<le> k" "k < ?n" for j k
    using that by (simp add: sorted_nth_mono)
  show ?thesis
    using st' i m [OF i(1)] m [OF i(2)] m [OF i(3)] m [OF i(4)] o [OF i(5,2)] o [OF i(6,3)] o [OF i(7,4)]
      f [OF i(1)] f [OF i(2)] f [OF i(3)] f [OF i(4)]
    by (intro exI [of _ st']) (simp; linarith)
qed

theorem summarize_percentiles_witness:
  "\<exists>st'. summarize (new_stat\<lparr>rawValues := [3, 1, 2]\<rparr>) = Some st' \<and> Median st' \<le> Percentile95 st'"
  using summarize_percentiles [of "new_stat\<lparr>rawValues := [3, 1, 2]\<rparr>"] by fastforce

text \<open>Aggregation counts each record once. After adding records to an empty collection, the
  statistic of a field below the unnamed node is taken over all records, below a label key over
  the records with these labels: completion statuses by value, remote cache hits, bytes
  downloaded; and the number of cache hits stays within the number of records.\<close>

theorem AddRecord_counts:
  "let s = fold AddRecord rs new_stats; at = (\<lambda>n p. stat_at (n # p) (sTree s)) in
     count_of v (at n [''CompletionStatus'']) = n_records (\<lambda>r. counts_below n r \<and> srCompletionStatus r = v) rs \<and>
     stCount (at n [''RemoteMetadata'', ''CacheHit'']) = n_records (\<lambda>r. counts_below n r \<and> remote_cache_hit r) rs \<and>
     stCount (at n [''RemoteMetadata'', ''RealBytesDownloaded'']) =
       sum_list (map real_bytes_down (filter (counts_below n) rs)) \<and>
     0 \<le> cacheHits s \<and> cacheHits s \<le> NumRecords s \<and> NumRecords s = int (length rs)"
  by (simp add: Let_def fold_AddRecord_values del: stat_at.simps)
    (simp add: new_stats_def new_stat_def count_of_def n_records_def)

text \<open>The number of bytes is printed with the largest unit that fits, and from ten to the
  fifteen bytes on there is no unit left: the lookup panics.\<close>

theorem humanReadableBytes_unit:
  "(humanReadableBytes n = None \<longleftrightarrow> 10 ^ 15 \<le> n) \<and>
   (\<forall>m res c. humanReadableBytes n = Some (Scaled m res c) \<longrightarrow>
      m = n \<and> res \<le> n \<and> n < 1000 * res \<and> (\<exists>k < 4. res = 1000 ^ (k + 1) \<and> c = ''KMGT'' ! k))"
proof (cases "n < 1000")
  case True
  then show ?thesis by (simp add: humanReadableBytes_def)
next
  case False
  then have "1 \<le> n div 1000" by simp
  then obtain k where u: "unit_loop (n div 1000) 1000 0 = (1000 * 1000 ^ k, k)" and k: "1000 ^ k \<le> n div 1000" "n div 1000 < 1000 ^ (k + 1)"
    using unit_loop_spec [of "n div 1000" 1000 0] by auto
  have b: "1000 ^ (k + 1) \<le> n" "n < 1000 ^ (k + 2)"
    using k by (simp_all add: div_less_iff_less_mult)
  have "k < 4 \<longleftrightarrow> n < 10 ^ 15"
  proof
    assume "k < 4"
    then have "(1000 :: int) ^ (k + 2) \<le> 1000 ^ 5" by (intro power_increasing) simp_all
    then show "n < 10 ^ 15" using b(2) by simp
  next
    assume "n < 10 ^ 15"
    then have "n < 1000 ^ 5" by simp
    then show "k < 4" using power_1000_less [OF b(1)] by fastforce
  qed
  then show ?thesis using False b by (auto simp: humanReadableBytes_def u Let_def mult_ac)
qed

text \<open>Each rerun counts its output files twice.\<close>

lemma rerun_output_files_twice:
  "stCount (stat_at [n, ''NumOutputFiles''] (addRerunMetadata (Some rm) n cmd t)) =
     stCount (stat_at [n, ''NumOutputFiles''] t) + 2 * rrNumOutputFiles rm"
  by (simp add: tree_simps num_stat_frame)

end
