(* ===== verification/Reports.thy ===== *)
theory Reports
  imports Numbers "HOL-Library.AList"
begin

text \<open>
  What leaves reproxy: the interceptor that cuts a response to the allowed size
  (\<open>internal/pkg/interceptors/truncate.go\<close>), the rules that drop mismatches from a verification
  (\<open>internal/pkg/ignoremismatch\<close>) and the status summaries of running proxies
  (\<open>internal/pkg/reproxystatus/reproxystatus.go\<close>). The size of an encoded message, regular
  expressions, dialling a proxy and asking it are arguments. Colours are left out.
\<close>

section \<open>Truncated responses\<close>

record Response =
  rsStderr :: string
  rsStdout :: string
  rsMsg :: "string option"

text \<open>\<open>s[i:]\<close> with its bounds check.\<close>

definition slice_from :: "string \<Rightarrow> int \<Rightarrow> string option" where
  "slice_from s i = (if 0 \<le> i \<and> i \<le> int (length s) then Some (drop (nat i) s) else None)"

definition getTruncFieldLen :: "int \<Rightarrow> int \<Rightarrow> int \<Rightarrow> int \<Rightarrow> int \<Rightarrow> int" where
  "getTruncFieldLen responseSize currentFieldLen maxResponseSize minFieldLen prefixLen =
     (let truncFieldLen = maxResponseSize - (responseSize - currentFieldLen) - prefixLen in
      if truncFieldLen \<ge> minFieldLen - prefixLen then truncFieldLen else minFieldLen - prefixLen)"

definition trunc_prefix :: "string option \<Rightarrow> string" where
  "trunc_prefix dump =
     (case dump of
        None \<Rightarrow> ''[content truncated]...''
      | Some fileName \<Rightarrow> ''[content truncated, full response in '' @ fileName @ '']...'')"

definition min_field_len :: "string \<Rightarrow> int" where
  "min_field_len pre = (if 1024 < int (length pre) then int (length pre) else 1024)"

text \<open>Cutting one field of a response of the given size.\<close>

definition trunc_field :: "int \<Rightarrow> int \<Rightarrow> string \<Rightarrow> string \<Rightarrow> string option" where
  "trunc_field responseSize maxResponseSize pre s =
     (if int (length s) > min_field_len pre
      then map_option (\<lambda>rest. pre @ rest)
             (slice_from s (int (length s) -
               getTruncFieldLen responseSize (int (length s)) maxResponseSize (min_field_len pre) (int (length pre))))
      else Some s)"

definition trunc_msg :: "(Response \<Rightarrow> int) \<Rightarrow> int \<Rightarrow> string \<Rightarrow> Response \<Rightarrow> Response option" where
  "trunc_msg psize maxResponseSize pre r =
     (case rsMsg r of
        None \<Rightarrow> Some r
      | Some m \<Rightarrow>
          if psize r \<le> maxResponseSize then Some r
          else map_option (\<lambda>m'. r\<lparr>rsMsg := Some m'\<rparr>) (trunc_field (psize r) maxResponseSize pre m))"

definition trunc_stdout :: "(Response \<Rightarrow> int) \<Rightarrow> int \<Rightarrow> string \<Rightarrow> Response \<Rightarrow> Response option" where
  "trunc_stdout psize maxResponseSize pre r =
     (if psize r \<le> maxResponseSize then Some r
      else Option.bind (trunc_field (psize r) maxResponseSize pre (rsStdout r)) (\<lambda>s.
             trunc_msg psize maxResponseSize pre (r\<lparr>rsStdout := s\<rparr>)))"

text \<open>\<open>psize\<close> is the encoded size; \<open>dump\<close> the file the full response went to, if that worked.\<close>

definition truncateResponse :: "(Response \<Rightarrow> int) \<Rightarrow> int \<Rightarrow> string option \<Rightarrow> Response \<Rightarrow> Response option" where
  "truncateResponse psize maxResponseSize dump r =
     (if psize r \<le> maxResponseSize then Some r
      else
        (let pre = trunc_prefix dump in
         Option.bind (trunc_field (psize r) maxResponseSize pre (rsStderr r)) (\<lambda>s.
           trunc_stdout psize maxResponseSize pre (r\<lparr>rsStderr := s\<rparr>))))"

section \<open>Ignored mismatches\<close>

text \<open>A rule spec: an output path rule with its pattern (expression and inversion), or none.\<close>

datatype rule_spec = OutputFilePathRule "(string \<times> bool) option" | NoRuleSpec

definition createFromRuleProto :: "rule_spec \<Rightarrow> (string \<times> bool) option option" where
  "createFromRuleProto rpb = (case rpb of OutputFilePathRule pat \<Rightarrow> Some pat | NoRuleSpec \<Rightarrow> None)"

definition fromConfig :: "rule_spec list \<Rightarrow> (string \<times> bool) option list option" where
  "fromConfig rules = those (map createFromRuleProto rules)"

text \<open>A missing pattern is dereferenced.\<close>

definition rule_shouldIgnore ::
  "(string \<Rightarrow> (string \<Rightarrow> bool) option) \<Rightarrow> (string \<times> bool) option \<Rightarrow> string \<Rightarrow> (string, bool) res" where
  "rule_shouldIgnore compile rl path =
     (case rl of
        None \<Rightarrow> Panic
      | Some (expression, inverted) \<Rightarrow>
          (case compile expression of
             None \<Rightarrow> Err expression
           | Some matches \<Rightarrow> Ok (inverted \<noteq> matches path)))"

fun shouldIgnore ::
  "(string \<Rightarrow> (string \<Rightarrow> bool) option) \<Rightarrow> (string \<times> bool) option list \<Rightarrow> string \<Rightarrow> bool option" where
  "shouldIgnore compile [] path = Some False"
| "shouldIgnore compile (r # rs) path =
     (case rule_shouldIgnore compile r path of
        Panic \<Rightarrow> None
      | Err e \<Rightarrow> shouldIgnore compile rs path
      | Ok ignored \<Rightarrow> if ignored then Some True else shouldIgnore compile rs path)"

fun split_ignored ::
  "(string \<Rightarrow> (string \<Rightarrow> bool) option) \<Rightarrow> (string \<times> bool) option list \<Rightarrow> ('m \<Rightarrow> string) \<Rightarrow> 'm list \<Rightarrow> ('m list \<times> int) option" where
  "split_ignored compile rules path [] = Some ([], 0)"
| "split_ignored compile rules path (m # ms) =
     (case shouldIgnore compile rules (path m) of
        None \<Rightarrow> None
      | Some ign \<Rightarrow>
          map_option (\<lambda>(kept, n). if ign then (kept, n + 1) else (m # kept, n)) (split_ignored compile rules path ms))"

text \<open>The mismatches of a record and the count of ignored ones; without an ignorer or without
  mismatches the record stays as it is.\<close>

definition ProcessLogRecord ::
  "(string \<Rightarrow> (string \<Rightarrow> bool) option) \<Rightarrow> (string \<times> bool) option list option \<Rightarrow> ('m \<Rightarrow> string) \<Rightarrow>
   'm list \<times> int \<Rightarrow> ('m list \<times> int) option" where
  "ProcessLogRecord compile mi path v =
     (case mi of
        None \<Rightarrow> Some v
      | Some rules \<Rightarrow> if fst v = [] then Some v else split_ignored compile rules path (fst v))"

section \<open>Status summaries\<close>

text \<open>The completion statuses in the order of their numbers.\<close>

definition completion_values :: "string list" where
  "completion_values = [''STATUS_UNKNOWN'', ''STATUS_CACHE_HIT'', ''STATUS_REMOTE_EXECUTION'', ''STATUS_LOCAL_FALLBACK'',
     ''STATUS_LOCAL_EXECUTION'', ''STATUS_RACING_LOCAL'', ''STATUS_RACING_REMOTE'', ''STATUS_REMOTE_FAILURE'',
     ''STATUS_LOCAL_FAILURE'', ''STATUS_NON_ZERO_EXIT'', ''STATUS_TIMEOUT'', ''STATUS_INTERRUPTED'']"

fun index_of :: "string \<Rightarrow> string list \<Rightarrow> nat" where
  "index_of x [] = 0"
| "index_of x (y # ys) = (if x = y then 0 else 1 + index_of x ys)"

text \<open>Names that are no completion status come last.\<close>

definition ordinal :: "string \<Rightarrow> nat" where
  "ordinal s = index_of s completion_values"

definition sortByOrdinal :: "(string \<times> int) list \<Rightarrow> string list" where
  "sortByOrdinal stats = sort_key ordinal (map fst stats)"

definition ascii_lower :: "char \<Rightarrow> char" where
  "ascii_lower c = (let n = of_char c :: nat in if 65 \<le> n \<and> n \<le> 90 then char_of (n + 32) else c)"

definition stat_of :: "(string \<times> int) list \<Rightarrow> string \<Rightarrow> int" where
  "stat_of stats s = (case map_of stats s of None \<Rightarrow> 0 | Some n \<Rightarrow> n)"

definition status_text :: "string \<Rightarrow> int \<Rightarrow> string" where
  "status_text st cnt =
     show_signed cnt @ '' '' @
     map ascii_lower (map (\<lambda>c. if c = CHR ''_'' then CHR '' '' else c) (trim_prefix ''STATUS_'' st)) @
     (if cnt > 1 then ''s'' else [])"

definition CompletedActionsSummary :: "(string \<times> int) list \<Rightarrow> string" where
  "CompletedActionsSummary stats =
     join_with '', '' (map (\<lambda>st. status_text st (stat_of stats st)) (filter (\<lambda>st. stat_of stats st > 0) (sortByOrdinal stats)))"

definition overallStatuses :: "(string \<times> int) list \<Rightarrow> string list" where
  "overallStatuses stats =
     (let sts = (if stat_of stats ''STATUS_REMOTE_FAILURE'' > 0 \<or> stat_of stats ''STATUS_LOCAL_FAILURE'' > 0 then [''had errors''] else []) @
                (if stat_of stats ''STATUS_NON_ZERO_EXIT'' > 0 then [''had failed actions''] else []) @
                (if stat_of stats ''STATUS_LOCAL_FALLBACK'' > 0 then [''had local fallbacks''] else []) in
      if sts = [] then [''is OK''] else sts)"

definition completedActions :: "(string \<times> int) list \<Rightarrow> string" where
  "completedActions stats =
     (let total = fold (\<lambda>(_, cnt) t. to_int32 (t + cnt)) stats 0 in
      if total = 0 then ''0'' else show_signed total @ '' ('' @ CompletedActionsSummary stats @ '')'')"

record StatusResponse =
  srCompleted :: "(string \<times> int) list"
  srRunning :: int
  srQps :: int

record Summary =
  sumAddr :: string
  sumResp :: "StatusResponse option"
  sumErr :: "string option"

definition HumanReadable :: "Summary \<Rightarrow> string" where
  "HumanReadable s =
     (let name = (if sumAddr s \<noteq> [] then ''Reproxy('' @ sumAddr s @ '')'' else ''Reproxy''); nl = [CHR 10];
          stats = (case sumResp s of None \<Rightarrow> [] | Some r \<Rightarrow> srCompleted r) in
      case sumErr s of
        Some e \<Rightarrow> name @ '' was not reachable'' @ nl @ e @ nl
      | None \<Rightarrow>
          name @ '' '' @ join_with '', '' (overallStatuses stats) @ nl @
          ''Actions completed: '' @ completedActions stats @ nl @
          ''Actions in progress: '' @ show_signed (case sumResp s of None \<Rightarrow> 0 | Some r \<Rightarrow> srRunning r) @ nl @
          ''QPS: '' @ show_signed (case sumResp s of None \<Rightarrow> 0 | Some r \<Rightarrow> srQps r) @ nl)"

section \<open>Trackers\<close>

text \<open>The clients by address, and the dial errors: \<^const>\<open>None\<close> is the nil map a tracker starts
  with, to which nothing can be assigned.\<close>

record Tracker =
  clients :: "string list"
  dialErrors :: "(string \<times> string) list option"

definition connect_all ::
  "(string \<Rightarrow> string option) \<Rightarrow> string list \<Rightarrow> string list \<Rightarrow> string list \<times> (string \<times> string) list" where
  "connect_all dial old addrs =
     fold (\<lambda>addr (cs, errs).
        if addr \<in> set old then (List.insert addr cs, errs)
        else case dial addr of
               None \<Rightarrow> (List.insert addr cs, errs)
             | Some e \<Rightarrow> (cs, AList.update addr e errs)) addrs ([], [])"

definition updateClients ::
  "(string, string list) res \<Rightarrow> (string \<Rightarrow> string option) \<Rightarrow> Tracker \<Rightarrow> Tracker option" where
  "updateClients sockets dial rt =
     (case sockets of
        Ok addrs \<Rightarrow>
          (let (cs, errs) = connect_all dial (clients rt) addrs in Some \<lparr>clients = cs, dialErrors = Some errs\<rparr>)
      | Err e \<Rightarrow> map_option (\<lambda>m. rt\<lparr>dialErrors := Some (AList.update [] e m)\<rparr>) (dialErrors rt)
      | Panic \<Rightarrow> None)"

text \<open>The answers of the clients arrive in any order; the summaries are sorted by address.\<close>

definition FetchAllStatusSummaries ::
  "(string, string list) res \<Rightarrow> (string \<Rightarrow> string option) \<Rightarrow> (string \<Rightarrow> StatusResponse option \<times> string option) \<Rightarrow>
   (Summary list \<Rightarrow> Summary list) \<Rightarrow> Tracker \<Rightarrow> (Tracker \<times> Summary list) option" where
  "FetchAllStatusSummaries sockets dial ask arrival rt =
     map_option (\<lambda>rt'.
        (rt', sort_key sumAddr
           (arrival (map (\<lambda>a. \<lparr>sumAddr = a, sumResp = fst (ask a), sumErr = snd (ask a)\<rparr>) (clients rt')) @
            map (\<lambda>(a, e). \<lparr>sumAddr = a, sumResp = None, sumErr = Some e\<rparr>)
              (case dialErrors rt' of None \<Rightarrow> [] | Some m \<Rightarrow> m))))
       (updateClients sockets dial rt)"

definition PrintSummaries :: "Summary list \<Rightarrow> string" where
  "PrintSummaries sums =
     (if sums \<noteq> [] then concat (map (\<lambda>s. HumanReadable s @ [CHR 10]) sums) else ''Reproxy is not running'' @ [CHR 10])"

section \<open>Lemmas\<close>

lemma min_field_len_bounds: "int (length pre) \<le> min_field_len pre" "0 \<le> min_field_len pre"
  by (simp_all add: min_field_len_def)

text \<open>What becomes of a text in a response of size \<open>sz\<close>: one up to the minimal length is kept; of a longer
  one only its end is kept, behind the notice, and as much of it as brings notice and end to the
  room that is left, or to the minimal length if that is more.\<close>

definition shortened :: "int \<Rightarrow> int \<Rightarrow> string \<Rightarrow> string \<Rightarrow> string" where
  "shortened sz maxSize pre s =
     (let room = max (min_field_len pre) (maxSize - (sz - int (length s))); kept = nat (room - int (length pre)) in
      if int (length s) \<le> min_field_len pre then s else pre @ drop (length s - kept) s)"

text \<open>Cutting a field of a response that is too large never reads outside the field. It gives the
  field the room that is left, but at least the minimum.\<close>

lemma trunc_field_spec:
  assumes "maxSize < sz"
  obtains s' where "trunc_field sz maxSize pre s = Some s'"
    "int (length s') = (if int (length s) > min_field_len pre
       then max (min_field_len pre) (maxSize - (sz - int (length s))) else int (length s))"
    "s' = shortened sz maxSize pre s" "length s' \<le> length s"
proof (cases "int (length s) > min_field_len pre")
  case False
  then show ?thesis using that [of s] by (simp add: trunc_field_def shortened_def)
next
  case True
  let ?t = "getTruncFieldLen sz (int (length s)) maxSize (min_field_len pre) (int (length pre))"
  have t: "?t = max (min_field_len pre) (maxSize - (sz - int (length s))) - int (length pre)"
    by (simp add: getTruncFieldLen_def Let_def max_def)
  have b: "0 \<le> int (length s) - ?t" "int (length s) - ?t \<le> int (length s)"
    using True assms min_field_len_bounds [of pre] unfolding t by (auto simp: max_def)
  let ?k = "nat (int (length s) - ?t)"
  have e: "trunc_field sz maxSize pre s = Some (pre @ drop ?k s)"
    using True b by (simp add: trunc_field_def slice_from_def)
  have l: "int (length (pre @ drop ?k s)) = max (min_field_len pre) (maxSize - (sz - int (length s)))"
    using b by (simp add: t nat_le_iff of_nat_diff)
  have "max (min_field_len pre) (maxSize - (sz - int (length s))) \<le> int (length s)"
    using True assms by simp
  then have "length (pre @ drop ?k s) \<le> length s" using l by linarith
  moreover have "?k = length s - nat (max (min_field_len pre) (maxSize - (sz - int (length s))) - int (length pre))"
    using b t by linarith
  then have "pre @ drop ?k s = shortened sz maxSize pre s" using True by (simp add: shortened_def Let_def)
  ultimately show ?thesis using that [OF e] l True by (metis (full_types))
qed

text \<open>What is used of the encoded size: shortening a field shrinks the message by at least as
  much.\<close>

definition size_law :: "(Response \<Rightarrow> int) \<Rightarrow> bool" where
  "size_law psize \<longleftrightarrow>
     (\<forall>r s. length s \<le> length (rsStderr r) \<longrightarrow> psize (r\<lparr>rsStderr := s\<rparr>) \<le> psize r - (int (length (rsStderr r)) - int (length s))) \<and>
     (\<forall>r s. length s \<le> length (rsStdout r) \<longrightarrow> psize (r\<lparr>rsStdout := s\<rparr>) \<le> psize r - (int (length (rsStdout r)) - int (length s))) \<and>
     (\<forall>r m s. rsMsg r = Some m \<longrightarrow> length s \<le> length m \<longrightarrow>
        psize (r\<lparr>rsMsg := Some s\<rparr>) \<le> psize r - (int (length m) - int (length s)))"

lemma size_lawD:
  assumes "size_law psize"
  shows "length s \<le> length (rsStderr r) \<Longrightarrow> psize (r\<lparr>rsStderr := s\<rparr>) \<le> psize r - (int (length (rsStderr r)) - int (length s))"
    and "length s \<le> length (rsStdout r) \<Longrightarrow> psize (r\<lparr>rsStdout := s\<rparr>) \<le> psize r - (int (length (rsStdout r)) - int (length s))"
    and "rsMsg r = Some m \<Longrightarrow> length s \<le> length m \<Longrightarrow> psize (r\<lparr>rsMsg := Some s\<rparr>) \<le> psize r - (int (length m) - int (length s))"
  using assms unfolding size_law_def by blast+

lemma trunc_step:
  assumes "\<not> sz \<le> maxSize" and "\<And>s'. length s' \<le> length s \<Longrightarrow> f s' \<le> sz - (int (length s) - int (length s'))"
  shows "trunc_field sz maxSize pre s = Some (shortened sz maxSize pre s) \<and>
    (f (shortened sz maxSize pre s) \<le> maxSize \<or> int (length (shortened sz maxSize pre s)) \<le> min_field_len pre)"
proof -
  have "maxSize < sz" using assms(1) by simp
  then obtain s' where s': "trunc_field sz maxSize pre s = Some s'"
    "int (length s') = (if int (length s) > min_field_len pre
       then max (min_field_len pre) (maxSize - (sz - int (length s))) else int (length s))"
    "s' = shortened sz maxSize pre s" "length s' \<le> length s"
    using trunc_field_spec by blast
  then have "f s' \<le> maxSize \<or> int (length s') \<le> min_field_len pre"
    using assms(2) [of s'] by (auto simp: max_def split: if_splits)
  then show ?thesis using s' by blast
qed

lemma shouldIgnore_patterns:
  assumes "None \<notin> set rules"
  shows "shouldIgnore compile rules path =
    Some (\<exists>(e, inv) \<in> the ` set rules. case compile e of None \<Rightarrow> False | Some matches \<Rightarrow> inv \<noteq> matches path)"
  using assms
proof (induction rules)
  case (Cons r rules)
  then obtain e inv where r: "r = Some (e, inv)" by (cases r) auto
  then show ?case
    using Cons by (cases "compile e") (auto simp: rule_shouldIgnore_def)
qed simp

lemma connect_all_spec:
  assumes "distinct addrs"
  shows "let (cs, errs) = connect_all dial old addrs in
     distinct cs \<and> distinct (map fst errs) \<and> set cs = {a \<in> set addrs. a \<in> set old \<or> dial a = None} \<and>
     set (map fst errs) = {a \<in> set addrs. a \<notin> set old \<and> dial a \<noteq> None}"
proof -
  let ?f = "\<lambda>addr (cs, errs). if addr \<in> set old then (List.insert addr cs, errs)
        else case dial addr of None \<Rightarrow> (List.insert addr cs, errs) | Some e \<Rightarrow> (cs, AList.update addr e errs)"
  have "let (cs, errs) = fold ?f as st in
     distinct cs \<and> distinct (map fst errs) \<and> set cs = set (fst st) \<union> {a \<in> set as. a \<in> set old \<or> dial a = None} \<and>
     set (map fst errs) = set (map fst (snd st)) \<union> {a \<in> set as. a \<notin> set old \<and> dial a \<noteq> None}"
    if "distinct (fst st)" "distinct (map fst (snd st))" for as and st :: "string list \<times> (string \<times> string) list"
    using that
  proof (induction as arbitrary: st)
    case (Cons a as)
    obtain cs errs where st: "st = (cs, errs)" by fastforce
    have "distinct (fst (?f a st))" "distinct (map fst (snd (?f a st)))"
      "set (fst (?f a st)) = set cs \<union> (if a \<in> set old \<or> dial a = None then {a} else {})"
      "set (map fst (snd (?f a st))) = set (map fst errs) \<union> (if a \<notin> set old \<and> dial a \<noteq> None then {a} else {})"
      using Cons.prems by (auto simp: st dom_update distinct_update split: option.splits)
    then show ?case using Cons.IH [of "?f a st"] by (auto simp: st Let_def split: prod.splits if_splits)
  qed (simp add: split_beta Let_def)
  from this [of "([], [])" addrs] show ?thesis by (simp add: connect_all_def)
qed

section \<open>Properties\<close>

text \<open>C40: Truncation never fails. A response that fits is left alone; of one that does not, the error
  text, then the standard output, then the message of the result are shortened, each only if the
  response as it then stands is still too large, each to the notice followed by its own end with as
  much of the end as there is room for. Afterwards the response fits, or each of the three texts is at
  most as long as the minimal length. The encoded size is one that shrinks at least as much as
  a text does.\<close>

theorem truncateResponse_fits:
  assumes "size_law psize"
  shows "let pre = trunc_prefix dump;
             cut = (\<lambda>r0 s. if psize r0 \<le> maxSize then s else shortened (psize r0) maxSize pre s);
             r1 = r\<lparr>rsStderr := cut r (rsStderr r)\<rparr>;
             r2 = r1\<lparr>rsStdout := cut r1 (rsStdout r1)\<rparr>;
             r3 = r2\<lparr>rsMsg := map_option (cut r2) (rsMsg r2)\<rparr>
         in truncateResponse psize maxSize dump r = Some r3 \<and>
            (psize r3 \<le> maxSize \<or>
              (\<forall>s \<in> {rsStderr r3, rsStdout r3} \<union> set_option (rsMsg r3). int (length s) \<le> min_field_len pre))"
proof (cases "psize r \<le> maxSize")
  case True
  then show ?thesis by (simp add: truncateResponse_def option.map_ident Let_def)
next
  case False
  let ?p = "trunc_prefix dump"
  let ?s1 = "shortened (psize r) maxSize ?p (rsStderr r)"
  let ?r1 = "r\<lparr>rsStderr := ?s1\<rparr>"
  note s1 = trunc_step [OF False, of "rsStderr r" "\<lambda>s. psize (r\<lparr>rsStderr := s\<rparr>)" ?p, OF size_lawD(1) [OF assms]]
  show ?thesis
  proof (cases "psize ?r1 \<le> maxSize")
    case True
    then show ?thesis using False s1 by (simp add: truncateResponse_def trunc_stdout_def option.map_ident Let_def)
  next
    case f1: False
    let ?s2 = "shortened (psize ?r1) maxSize ?p (rsStdout r)"
    let ?r2 = "?r1\<lparr>rsStdout := ?s2\<rparr>"
    note s2 = trunc_step [OF f1, of "rsStdout ?r1" "\<lambda>s. psize (?r1\<lparr>rsStdout := s\<rparr>)" ?p, OF size_lawD(2) [OF assms], simplified]
    have t: "truncateResponse psize maxSize dump r = trunc_msg psize maxSize ?p ?r2"
      using False f1 s1 s2 by (simp add: truncateResponse_def trunc_stdout_def Let_def)
    show ?thesis
    proof (cases "psize ?r2 \<le> maxSize \<or> rsMsg r = None")
      case True
      then have "trunc_msg psize maxSize ?p ?r2 = Some ?r2" by (auto simp: trunc_msg_def split: option.split)
      moreover have "map_option (\<lambda>s. if psize ?r2 \<le> maxSize then s else shortened (psize ?r2) maxSize ?p s) (rsMsg r) = rsMsg r"
        using True by (cases "rsMsg r") auto
      ultimately show ?thesis using t True False s1 s2 f1 by (simp add: Let_def) force
    next
      case f2: False
      then obtain m where m: "rsMsg r = Some m" and f3: "\<not> psize ?r2 \<le> maxSize" by auto
      have m2: "rsMsg ?r2 = Some m" using m by simp
      note s3 = trunc_step [OF f3, of m "\<lambda>s. psize (?r2\<lparr>rsMsg := Some s\<rparr>)" ?p, OF size_lawD(3) [OF assms m2]]
      then have "trunc_msg psize maxSize ?p ?r2 = Some (?r2\<lparr>rsMsg := Some (shortened (psize ?r2) maxSize ?p m)\<rparr>)"
        using f2 m by (simp add: trunc_msg_def)
      then show ?thesis using t False s1 s2 s3 f1 f2 m by (auto simp: Let_def)
    qed
  qed
qed

text \<open>A response that is much too long: of a message of 3000 characters the last 1002 are kept.\<close>

definition text_sizes :: "Response \<Rightarrow> int" where
  "text_sizes r = int (length (rsStderr r)) + int (length (rsStdout r)) + (case rsMsg r of None \<Rightarrow> 0 | Some m \<Rightarrow> int (length m))"

theorem truncateResponse_fits_witness:
  "truncateResponse text_sizes 2000 None
     \<lparr>rsStderr = replicate 3000 CHR ''e'', rsStdout = ''out'', rsMsg = Some (replicate 1998 CHR ''a'' @ replicate 1002 CHR ''b'')\<rparr> =
   Some \<lparr>rsStderr = ''[content truncated]...'' @ replicate 1002 CHR ''e'', rsStdout = ''out'',
          rsMsg = Some (''[content truncated]...'' @ replicate 1002 CHR ''b'')\<rparr>"
proof -
  have "size_law text_sizes" by (auto simp: size_law_def text_sizes_def)
  from truncateResponse_fits [OF this, of None 2000
    "\<lparr>rsStderr = replicate 3000 CHR ''e'', rsStdout = ''out'', rsMsg = Some (replicate 1998 CHR ''a'' @ replicate 1002 CHR ''b'')\<rparr>"]
  show ?thesis by (simp add: Let_def text_sizes_def shortened_def trunc_prefix_def min_field_len_def)
qed

text \<open>With a pattern in every rule, processing a record splits its mismatches: those no rule
  matches stay, in order, and the others are counted. A rule whose expression does not
  compile matches nothing.\<close>

theorem ProcessLogRecord_splits:
  assumes "None \<notin> set rules"
  shows "ProcessLogRecord compile (Some rules) path (ms, n) =
    (let ignored = (\<lambda>m. \<exists>(e, inv) \<in> the ` set rules. case compile e of None \<Rightarrow> False | Some matches \<Rightarrow> inv \<noteq> matches (path m)) in
     Some (filter (\<lambda>m. \<not> ignored m) ms, if ms = [] then n else int (length (filter ignored ms))))"
proof -
  have "split_ignored compile rules path ms =
    (let ignored = (\<lambda>m. \<exists>(e, inv) \<in> the ` set rules. case compile e of None \<Rightarrow> False | Some matches \<Rightarrow> inv \<noteq> matches (path m)) in
     Some (filter (\<lambda>m. \<not> ignored m) ms, int (length (filter ignored ms))))"
    by (induction ms) (simp_all add: shouldIgnore_patterns [OF assms] Let_def)
  then show ?thesis by (simp add: ProcessLogRecord_def Let_def)
qed

theorem ProcessLogRecord_splits_witness:
  "ProcessLogRecord (\<lambda>e. Some (\<lambda>p. prefix e p)) (Some [Some (''a'', False)]) id ([''ab'', ''b''], 0) = Some ([''b''], 1)"
  using ProcessLogRecord_splits [of "[Some (''a'', False)]" "\<lambda>e. Some (\<lambda>p. prefix e p)" id "[''ab'', ''b'']" 0] by simp

text \<open>The summaries cover each discovered proxy once, in the order of the addresses, whatever the
  order of the answers. If looking for the proxies fails before it ever succeeded, the tracker
  assigns to a nil map and the process panics; afterwards the failure is reported under an
  empty address.\<close>

theorem FetchAllStatusSummaries_complete:
  assumes "\<And>xs. mset (arrival xs) = mset xs"
  shows "(distinct addrs \<longrightarrow> (\<exists>rt' sums. FetchAllStatusSummaries (Ok addrs) dial ask arrival rt = Some (rt', sums) \<and>
      map sumAddr sums = sort addrs \<and> dialErrors rt' \<noteq> None)) \<and>
    (FetchAllStatusSummaries (Err e) dial ask arrival rt = None \<longleftrightarrow> dialErrors rt = None)"
proof -
  obtain cs errs where c: "connect_all dial (clients rt) addrs = (cs, errs)" by fastforce
  let ?xs = "map (\<lambda>a. \<lparr>sumAddr = a, sumResp = fst (ask a), sumErr = snd (ask a)\<rparr>) cs"
  let ?ys = "map (\<lambda>(a, e). \<lparr>sumAddr = a, sumResp = None, sumErr = Some e\<rparr>) errs"
  have "map sumAddr (sort_key sumAddr (arrival ?xs @ ?ys)) = sort addrs" if "distinct addrs"
  proof -
    have s: "distinct cs" "distinct (map fst errs)" "set cs = {a \<in> set addrs. a \<in> set (clients rt) \<or> dial a = None}"
      "set (map fst errs) = {a \<in> set addrs. a \<notin> set (clients rt) \<and> dial a \<noteq> None}"
      using connect_all_spec [OF that, of dial "clients rt"] by (simp_all add: c)
    have "mset (map sumAddr (arrival ?xs @ ?ys)) = mset (cs @ map fst errs)"
      using arg_cong [OF assms [of ?xs], of "image_mset sumAddr"] by (simp add: comp_def split_beta multiset.map_comp)
    moreover have "mset (cs @ map fst errs) = mset addrs"
    proof (rule set_eq_iff_mset_eq_distinct [THEN iffD1])
      show "distinct (cs @ map fst errs)" unfolding distinct_append s(3,4) using s(1,2) by blast
      show "set (cs @ map fst errs) = set addrs" unfolding set_append s(3,4) by blast
    qed (rule that)
    ultimately have m: "mset (map sumAddr (sort_key sumAddr (arrival ?xs @ ?ys))) = mset addrs"
      by (simp only: mset_map mset_sort)
    have "sorted (map sumAddr (sort_key sumAddr (arrival ?xs @ ?ys)))" by (rule sorted_sort_key)
    with m show ?thesis by (rule properties_for_sort [symmetric])
  qed
  then show ?thesis
    by (auto simp: FetchAllStatusSummaries_def updateClients_def c)
qed

theorem FetchAllStatusSummaries_complete_witness:
  "(\<exists>rt' sums. FetchAllStatusSummaries (Ok [''b'', ''a'']) (\<lambda>_. None) (\<lambda>_. (None, None)) rev \<lparr>clients = [], dialErrors = None\<rparr> =
       Some (rt', sums) \<and> map sumAddr sums = [''a'', ''b'']) \<and>
   FetchAllStatusSummaries (Err ''x'') (\<lambda>_. None) (\<lambda>_. (None, None)) rev \<lparr>clients = [], dialErrors = None\<rparr> = None"
proof -
  have r: "mset (rev xs) = mset xs" for xs :: "Summary list" by simp
  have "sort [''b'', ''a''] = [''a'', ''b'']" by code_simp
  then show ?thesis
    using FetchAllStatusSummaries_complete [OF r, of "[''b'', ''a'']" "\<lambda>_. None" "\<lambda>_. (None, None)" "\<lparr>clients = [], dialErrors = None\<rparr>" "''x''"]
    by auto
qed

end
