(* ===== verification/CppPreprocessor.thy ===== *)
theory CppPreprocessor
  imports InputProcessor DepsCache ActionParsers
begin

text \<open>
  The preprocessors of the compile actions (\<open>inputprocessor/action/cppcompile/preprocessor.go\<close>, and
  on top of it \<open>headerabi\<close>, \<open>clanglint\<close> and \<open>nacl\<close>): the command line handed to the
  dependency scanner, the virtual inputs taken from include flags, the resource directory of the
  compiler, and \<open>FindDependencies\<close> with the dependency cache around the scanner. The scanner, the
  blob digest, file identities and the executor are fields of \<open>cpp_host\<close>. The goroutine that saves
  dependencies is kept as pending work, so that it may run at any later moment.
\<close>

section \<open>Constants\<close>

definition cppToAbsArgs :: "string list" where
  "cppToAbsArgs = [''--sysroot'', ''--sysroot='', ''-isysroot'', ''-fprofile-sample-use='', ''-fsanitize-blacklist='',
     ''-fsanitize-ignorelist='', ''-fprofile-list='']"

definition toRemoveArgs :: "string list" where
  "toRemoveArgs = [''-fno-experimental-new-pass-manager'', ''-fexperimental-new-pass-manager'', ''-fconserve-stack'']"

definition toRemoveXclangFlags :: "string list" where
  "toRemoveXclangFlags = [''-verify'', ''-fallow-half-arguments-and-returns'']"

definition cppVirtualInputFlags :: "string list" where
  "cppVirtualInputFlags = [''-I'', ''-isystem'', ''-isysroot'', ''--sysroot='', ''--sysroot'', ''-internal-isystem'',
     ''-internal-externc-isystem'']"

section \<open>The command line for the scanner\<close>

definition appendNonEmpty :: "string list \<Rightarrow> string \<Rightarrow> string list" where
  "appendNonEmpty slice v = (if v \<noteq> [] then slice @ [v] else slice)"

definition appendFlag :: "string list \<Rightarrow> string \<Rightarrow> string \<Rightarrow> bool \<Rightarrow> string list" where
  "appendFlag slice key v joined =
     (if joined then appendNonEmpty slice (key @ v) else appendNonEmpty (appendNonEmpty slice key) v)"

definition abs_in :: "string \<Rightarrow> string \<Rightarrow> string" where
  "abs_in directory p = (if \<not> IsAbs p then Join [directory, p] else p)"

text \<open>One round of the loop over the flags.\<close>

definition flag_step :: "string list \<Rightarrow> string \<Rightarrow> Flag \<Rightarrow> string list \<Rightarrow> string list" where
  "flag_step toAbsArgs directory fl args =
     (if Key fl = ''-Xclang'' \<and> Value fl \<in> set toRemoveXclangFlags then args
      else
        let v = (if Key fl \<in> set toAbsArgs
                 then (if \<not> IsAbs (Value fl) then Join [directory, Value fl] else Clean (Value fl))
                 else Value fl) in
        if Key fl \<in> set toRemoveArgs then args
        else appendFlag args (OriginalKey fl) v (Joined fl))"

definition BuildCommandLine :: "string \<Rightarrow> bool \<Rightarrow> string list \<Rightarrow> CommandFlags \<Rightarrow> string list" where
  "BuildCommandLine outputFlag outputFlagJoined toAbsArgs f =
     (let directory = Join [ExecRoot f, WorkingDirectory f];
          filename = (case TargetFilePaths f of [] \<Rightarrow> [] | t # _ \<Rightarrow> abs_in directory t);
          args = fold (flag_step toAbsArgs directory) (Flags f) [abs_in directory (ExecutablePath f)];
          args = args @ [''-Qunused-arguments''];
          args = fold (\<lambda>v args. if v \<noteq> EmittedDependencyFile f then appendFlag args outputFlag v outputFlagJoined else args)
                   (OutputFilePaths f) args
      in args @ [filename])"

section \<open>Virtual inputs\<close>

fun subdir_loop :: "string list \<Rightarrow> string list \<Rightarrow> string \<Rightarrow> string \<Rightarrow> string list" where
  "subdir_loop [] vis cpath lastElem =
     (if lastElem \<noteq> ''..'' \<or> vis = [] then vis @ [Clean cpath] else vis)"
| "subdir_loop (el # els) vis cpath lastElem =
     subdir_loop els
       (if el = ''..'' \<and> lastElem \<noteq> [] \<and> lastElem \<noteq> ''..'' then vis @ [Clean cpath] else vis)
       (Join [cpath, el]) el"

definition extractVirtualSubdirectories :: "string \<Rightarrow> string list" where
  "extractVirtualSubdirectories p = subdir_loop (path_split p) [] [] []"

text \<open>What the interface \<open>VirtualInputsProcessor\<close> offers: which flags count and how a path is
  appended.\<close>

definition virtual_step ::
  "(string \<Rightarrow> bool) \<Rightarrow> (VirtualInput list \<Rightarrow> string \<Rightarrow> string \<Rightarrow> VirtualInput list) \<Rightarrow> CommandFlags \<Rightarrow> Flag \<Rightarrow>
   VirtualInput list \<Rightarrow> VirtualInput list" where
  "virtual_step isVirtual appendVirtual f fl vis =
     (if \<not> isVirtual (Key fl) \<or> Value fl = [] then vis
      else
        let rel = (if IsAbs (Value fl)
                   then (case Rel (Join [ExecRoot f, WorkingDirectory f]) (Value fl) of Ok r \<Rightarrow> r | _ \<Rightarrow> [])
                   else Value fl);
            p = Join [WorkingDirectory f, rel] in
        fold (\<lambda>q vis. appendVirtual vis (Key fl) q) (extractVirtualSubdirectories p) vis)"

definition VirtualInputsOf ::
  "(string \<Rightarrow> bool) \<Rightarrow> (VirtualInput list \<Rightarrow> string \<Rightarrow> string \<Rightarrow> VirtualInput list) \<Rightarrow> CommandFlags \<Rightarrow> VirtualInput list" where
  "VirtualInputsOf isVirtual appendVirtual f = fold (virtual_step isVirtual appendVirtual f) (Flags f) []"

definition cppIsVirtualInput :: "string \<Rightarrow> bool" where
  "cppIsVirtualInput fl \<longleftrightarrow> fl \<in> set cppVirtualInputFlags"

definition cppAppendVirtualInput :: "VirtualInput list \<Rightarrow> string \<Rightarrow> string \<Rightarrow> VirtualInput list" where
  "cppAppendVirtualInput vis fl p = vis @ [\<lparr>Path = p, IsEmptyDirectory = True\<rparr>]"

section \<open>State and host\<close>

datatype scan_error = DeadlineExceeded | ScanFailed string

datatype find_error = SlotNotAcquired | DepsScanTimeout | ProcessInputsFailed string

text \<open>\<open>blobDigest\<close> is the digest of the joined arguments, \<open>slotGranted\<close> whether \<open>Slots.Acquire\<close>
  returned before the context was done, \<open>scanInputs\<close> the scanner (files, whether it used its own
  cache, error), \<open>statId\<close>, \<open>sameFile\<close> and \<open>notExist\<close> are
  \<open>os.Stat\<close>, \<open>os.SameFile\<close> and the not-exist error of \<open>os.Stat\<close>, \<open>executor\<close> runs a command of
  given exec root and working directory (\<open>None\<close>: no executor is set; an answer \<open>None\<close>: the command
  failed) and yields its standard output.\<close>

record cpp_host =
  depsHost :: DepsHost
  clock :: int
  blobDigest :: "string \<Rightarrow> string"
  slotGranted :: bool
  scanInputs :: "string list \<Rightarrow> string \<Rightarrow> string \<Rightarrow> string list \<times> bool \<times> scan_error option"
  expectsResourceDir :: bool
  statId :: "string \<Rightarrow> nat option"
  sameFile :: "nat \<Rightarrow> nat \<Rightarrow> bool"
  notExist :: "string \<Rightarrow> bool"
  executor :: "(string \<Rightarrow> string \<Rightarrow> string list \<Rightarrow> string option) option"

type_synonym resource_dirs = "string \<rightharpoonup> nat \<times> string"

text \<open>\<open>cppPending\<close> holds the goroutines started by \<open>FindDependencies\<close> that have not run, each
  with the exec root, key and headers of its closure; \<open>cppScans\<close> counts calls of the scanner.\<close>

record cpp_state =
  cppBase :: BaseState
  cppDeps :: "Cache option"
  cppSlots :: "int option"
  cppPending :: "(string \<times> Key \<times> string list) list"
  cppScans :: nat
  cppEvents :: "string list"
  resourceDirs :: resource_dirs

section \<open>Resource directory\<close>

definition dir_hit :: "cpp_host \<Rightarrow> resource_dirs \<Rightarrow> string \<Rightarrow> nat \<Rightarrow> string option" where
  "dir_hit H dirs exe fi =
     (case dirs exe of
        None \<Rightarrow> None
      | Some (fi', rd) \<Rightarrow> if sameFile H fi' fi then Some rd else None)"

definition ask_compiler ::
  "(string \<Rightarrow> string \<Rightarrow> string list \<Rightarrow> string option) \<Rightarrow> string \<Rightarrow> nat \<Rightarrow> string \<Rightarrow> (string \<Rightarrow> string option) \<Rightarrow> resource_dirs \<Rightarrow>
   resource_dirs \<times> string" where
  "ask_compiler run exe fi resourceDirFlag mapper dirs =
     (case run [] ''/'' [exe, resourceDirFlag] of
        None \<Rightarrow> (dirs, [])
      | Some out \<Rightarrow>
          (case mapper out of
             None \<Rightarrow> (dirs, [])
           | Some d \<Rightarrow> (dirs(exe \<mapsto> (fi, d)), d)))"

definition ResourceDir ::
  "cpp_host \<Rightarrow> string list \<Rightarrow> string \<Rightarrow> (string \<Rightarrow> string option) \<Rightarrow> resource_dirs \<Rightarrow> resource_dirs \<times> string" where
  "ResourceDir H args resourceDirFlag mapper dirs =
     (case args of
        [] \<Rightarrow> (dirs, [])
      | exe # _ \<Rightarrow>
          if \<not> IsAbs exe then (dirs, [])
          else (case executor H of
                  None \<Rightarrow> (dirs, [])
                | Some run \<Rightarrow>
                    (case statId H exe of
                       None \<Rightarrow> (dirs, [])
                     | Some fi \<Rightarrow>
                         (case dir_hit H dirs exe fi of
                            Some rd \<Rightarrow> (dirs, rd)
                          | None \<Rightarrow> ask_compiler run exe fi resourceDirFlag mapper dirs))))"

text \<open>\<open>given\<close> recognises an argument that already sets the directory.\<close>

definition add_resource_dir ::
  "(string \<Rightarrow> bool) \<Rightarrow> (resource_dirs \<Rightarrow> resource_dirs \<times> string) \<Rightarrow> string list \<Rightarrow> resource_dirs \<Rightarrow>
   resource_dirs \<times> string list" where
  "add_resource_dir given lookup args dirs =
     (if list_ex given args then (dirs, args)
      else (case lookup dirs of
              (dirs', rd) \<Rightarrow> (dirs', if rd \<noteq> [] then args @ [''-resource-dir'', rd] else args)))"

definition cppAddResourceDir :: "cpp_host \<Rightarrow> string list \<Rightarrow> resource_dirs \<Rightarrow> resource_dirs \<times> string list" where
  "cppAddResourceDir H args =
     add_resource_dir (\<lambda>arg. arg = ''-resource-dir'')
       (ResourceDir H args ''-print-resource-dir'' (\<lambda>out. Some (trim_space out))) args"

section \<open>Finding dependencies\<close>

definition getFromDepsCache :: "cpp_host \<Rightarrow> Key \<Rightarrow> cpp_state \<Rightarrow> cpp_state \<times> string list option" where
  "getFromDepsCache H k st =
     (case GetDeps (depsHost H) (clock H) (cppDeps st) k of
        (c, None) \<Rightarrow> (st\<lparr>cppDeps := c\<rparr>, None)
      | (c, Some deps) \<Rightarrow>
          (st\<lparr>cppDeps := c, cppEvents := cppEvents st @ [''InputProcessorCacheLookup'']\<rparr>, Some deps))"

definition abs_inputs :: "string \<Rightarrow> string list \<Rightarrow> string list" where
  "abs_inputs er hs = map (\<lambda>p. if IsAbs p then p else Join [er, [], p]) hs"

definition saveDeps :: "cpp_host \<Rightarrow> string \<times> Key \<times> string list \<Rightarrow> cpp_state \<Rightarrow> cpp_state" where
  "saveDeps H job st =
     (case job of (er, k, hs) \<Rightarrow>
        st\<lparr>cppDeps := fst (SetDeps (depsHost H) (clock H) (cppDeps st) k (abs_inputs er hs))\<rparr>)"

definition run_pending :: "cpp_host \<Rightarrow> cpp_state \<Rightarrow> cpp_state" where
  "run_pending H st = fold (saveDeps H) (cppPending st) (st\<lparr>cppPending := []\<rparr>)"

definition deps_key :: "cpp_host \<Rightarrow> CommandFlags \<Rightarrow> string list \<Rightarrow> string \<Rightarrow> Key" where
  "deps_key H f args filename =
     \<lparr>CommandDigest = blobDigest H (join_with '' '' args),
      SrcFilePath = Join [ExecRoot f, WorkingDirectory f, filename], srcFileMinDigest = []\<rparr>"

text \<open>From \<open>Slots.Acquire\<close> on: the slot is given back and the event recorded on every path.\<close>

definition scan_deps ::
  "cpp_host \<Rightarrow> CommandFlags \<Rightarrow> string list \<Rightarrow> string \<Rightarrow> cpp_state \<Rightarrow> cpp_state \<times> (find_error, string list) res" where
  "scan_deps H f args filename st =
     (let st1 = st\<lparr>cppSlots := map_option (\<lambda>n. n - 1) (cppSlots st),
                   cppEvents := cppEvents st @ [''InputProcessorWait'']\<rparr>;
          directory = Join [ExecRoot f, WorkingDirectory f];
          (res, usedCache, err) = scanInputs H args (abs_in directory filename) directory;
          st2 = st1\<lparr>cppScans := cppScans st1 + 1, cppSlots := map_option (\<lambda>n. n + 1) (cppSlots st1),
                     cppEvents := cppEvents st1 @ [if usedCache then ''InputProcessorCacheLookup'' else ''CPPInputProcessor'']\<rparr>
      in case err of
           Some DeadlineExceeded \<Rightarrow> (st2, Err DepsScanTimeout)
         | Some (ScanFailed m) \<Rightarrow> (st2, Err (ProcessInputsFailed m))
         | None \<Rightarrow>
             (let hs = ListRelToExecRoot (ExecRoot f) [] res in
              (st2\<lparr>cppPending := cppPending st2 @ [(ExecRoot f, deps_key H f args filename, hs)]\<rparr>, Ok hs)))"

definition FindDependencies ::
  "cpp_host \<Rightarrow> CommandFlags \<Rightarrow> string list \<Rightarrow> cpp_state \<Rightarrow> cpp_state \<times> (find_error, string list) res" where
  "FindDependencies H f args st =
     (case TargetFilePaths f of
        [] \<Rightarrow> (st, Ok [])
      | filename # _ \<Rightarrow>
          (case getFromDepsCache H (deps_key H f args filename) st of
             (st1, Some res) \<Rightarrow> (st1, Ok (ListRelToExecRoot (ExecRoot f) [] res))
           | (st1, None) \<Rightarrow>
               if cppSlots st1 \<noteq> None \<and> \<not> slotGranted H then (st1, Err SlotNotAcquired)
               else scan_deps H f args filename st1))"

section \<open>ComputeSpec\<close>

text \<open>The shape shared by the \<open>ComputeSpec\<close> of the compile actions; an absent \<open>Flags\<close> is a nil
  dereference.\<close>

definition compute_spec ::
  "cpp_host \<Rightarrow> (CommandFlags \<Rightarrow> string list) \<Rightarrow> (string list \<Rightarrow> resource_dirs \<Rightarrow> resource_dirs \<times> string list) \<Rightarrow>
   (CommandFlags \<Rightarrow> VirtualInput list) \<Rightarrow> cpp_state \<Rightarrow> (cpp_state \<times> ip_error option) option" where
  "compute_spec H buildArgs addDir virtuals st =
     (case BpFlags (cppBase st) of
        None \<Rightarrow> None
      | Some f \<Rightarrow>
          (let args = buildArgs f;
               (dirs, args) = (if expectsResourceDir H then addDir args (resourceDirs st) else (resourceDirs st, args)) in
           case FindDependencies H f args (st\<lparr>resourceDirs := dirs\<rparr>) of
             (st1, Ok headers) \<Rightarrow>
               Some (st1\<lparr>cppBase := AppendSpec (Some (spec_of_inputs
                       (empty_input_spec\<lparr>Inputs := headers, VirtualInputs := virtuals f\<rparr>))) (cppBase st1)\<rparr>, None)
           | (st1, _) \<Rightarrow>
               Some (st1\<lparr>cppBase := AppendSpec (Some ((spec_of_inputs empty_input_spec)\<lparr>UsedShallowMode := True\<rparr>))
                       (cppBase st1)\<rparr>, Some SpecFailed)))"

definition cppComputeSpec :: "cpp_host \<Rightarrow> cpp_state \<Rightarrow> (cpp_state \<times> ip_error option) option" where
  "cppComputeSpec H =
     compute_spec H (BuildCommandLine ''-o'' False cppToAbsArgs) (cppAddResourceDir H)
       (VirtualInputsOf cppIsVirtualInput cppAppendVirtualInput)"

definition set_flags :: "CommandFlags option \<Rightarrow> cpp_state \<Rightarrow> cpp_state" where
  "set_flags fo st = st\<lparr>cppBase := (cppBase st)\<lparr>BpFlags := fo\<rparr>\<rparr>"

definition abiComputeSpec :: "cpp_host \<Rightarrow> cpp_state \<Rightarrow> (cpp_state \<times> ip_error option) option" where
  "abiComputeSpec H st =
     (case BpFlags (cppBase st) of
        None \<Rightarrow> None
      | Some f \<Rightarrow> cppComputeSpec H (set_flags (Some (headerABIToCppFlags f)) st))"

text \<open>The resource directory of clang-tidy: the first line of its output, below the directory
  of the executable. Without an executor the call is a nil dereference. The cache in front is
  keyed by the pointer to the flags, so a fresh action always computes.\<close>

definition tidyResourceDir :: "cpp_host \<Rightarrow> CommandFlags \<Rightarrow> (unit, string) res" where
  "tidyResourceDir H f =
     (case executor H of
        None \<Rightarrow> Panic
      | Some run \<Rightarrow>
          (case run (ExecRoot f) (WorkingDirectory f) [ExecutablePath f, ''--version'', ''--'', ''-print-resource-dir''] of
             None \<Rightarrow> Err ()
           | Some out \<Rightarrow>
               if CHR 0x0A \<notin> set out then Err ()
               else
                 let d = Join [WorkingDirectory f, ExecutablePath f, ''../../'', takeWhile (\<lambda>c. c \<noteq> CHR 0x0A) out] in
                 if notExist H d then Err () else Ok d))"

text \<open>The lint preprocessor keeps the error of the resource directory lookup, and its flags are
  nil after it.\<close>

definition lintComputeSpec ::
  "cpp_host \<Rightarrow> cpp_state \<Rightarrow> (cpp_state \<times> ip_error option) option" where
  "lintComputeSpec H st =
     (case BpFlags (cppBase st) of
        None \<Rightarrow> None
      | Some f \<Rightarrow>
          (case clangTidyToCPPFlags (tidyResourceDir H) f of
             Ok f' \<Rightarrow> cppComputeSpec H (set_flags (Some f') st)
           | Err e \<Rightarrow>
               Some ((set_flags None st)\<lparr>cppBase := (cppBase (set_flags None st))\<lparr>BpErr := Some SpecFailed\<rparr>\<rparr>, Some SpecFailed)
           | Panic \<Rightarrow> None))"

definition naclComputeSpec :: "cpp_host \<Rightarrow> cpp_state \<Rightarrow> (cpp_state \<times> ip_error option) option" where
  "naclComputeSpec H st =
     (case BpFlags (cppBase st) of
        None \<Rightarrow> None
      | Some f \<Rightarrow>
          (case naclFlags f of
             Ok f' \<Rightarrow> cppComputeSpec H (set_flags (Some f') st)
           | _ \<Rightarrow> Some (st, Some SpecFailed)))"

text \<open>A compile preprocessor: the base one, with its own flag parser and \<open>ComputeSpec\<close>.\<close>

definition on_base :: "(BaseState \<Rightarrow> (BaseState \<times> 'x) option) \<Rightarrow> cpp_state \<Rightarrow> (cpp_state \<times> 'x) option" where
  "on_base g st = map_option (\<lambda>(b, x). (st\<lparr>cppBase := b\<rparr>, x)) (g (cppBase st))"

definition cpp_preprocessor ::
  "fs_env \<Rightarrow> tc_env \<Rightarrow> (Options \<Rightarrow> ('e, CommandFlags) res) \<Rightarrow>
   (cpp_state \<Rightarrow> (cpp_state \<times> ip_error option) option) \<Rightarrow> cpp_state Preprocessor" where
  "cpp_preprocessor fenv tenv parse compute =
     \<lparr>PInit = (\<lambda>options st. st\<lparr>cppBase := BaseInit options (cppBase st)\<rparr>),
      PParseFlags = on_base (BaseParseFlags parse),
      PProcessToolchains = on_base (\<lambda>c. Some (BaseProcessToolchains tenv c)),
      PComputeSpec = compute,
      PSanitize = (\<lambda>st. map_option (\<lambda>b. st\<lparr>cppBase := b\<rparr>) (BaseSanitize fenv (cppBase st))),
      PSpec = (\<lambda>st. BaseSpec (cppBase st))\<rparr>"

section \<open>Paths through the cache\<close>

lemma Join_empty_mid: "IsAbs er \<Longrightarrow> Join [er, [], r] = Join [er, r]"
proof -
  assume a: "IsAbs er"
  have "Join [er, [], r] = Join [Join [er, []], r]" by (simp add: Join_Clean_left [OF a])
  also have "\<dots> = Join [Clean er, r]" by (simp add: Join_nil_abs [OF a])
  also have "\<dots> = Clean (Join [Clean er, r])" using a by (simp add: Join_abs)
  also have "\<dots> = Clean (Join [er, r])" using a by (intro Clean_eqI) (simp_all add: IsAbs_Join clean_elems_Join2)
  also have "\<dots> = Join [er, r]" using a by (simp add: Join_abs)
  finally show ?thesis .
qed

lemma RelToExecRoot_again:
  assumes "IsAbs er" and "RelToExecRoot er wd p \<noteq> []"
  shows "\<not> IsAbs (RelToExecRoot er wd p) \<and>
    RelToExecRoot er wd' (Join [er, [], RelToExecRoot er wd p]) = RelToExecRoot er wd p"
proof -
  let ?t = "abs_of er wd p"
  note r = RelToExecRoot_nonempty [OF assms]
  have t: "IsAbs ?t" by (rule IsAbs_abs_of [OF assms(1)])
  have j: "Join [er, [], RelToExecRoot er wd p] = Clean ?t"
    using r Join_empty_mid [OF assms(1)] Join_tail_path [OF assms(1) t] by simp
  have a: "abs_of er wd' (Clean ?t) = Clean ?t" using t by (simp add: abs_of_def)
  have "\<not> prefix ''..'' (tail_path er ?t)" using assms RelToExecRoot_cases [OF assms(1), of wd p] by (auto split: if_splits)
  then have "RelToExecRoot er wd' (Clean ?t) = tail_path er ?t"
    using RelToExecRoot_cases [OF assms(1), of wd' "Clean ?t"] a r t IsAbs_not_Nil [of "Clean ?t"]
    by (auto simp: under_root_def tail_path_def Let_def)
  then show ?thesis using j r tail_path_relative [OF t] by simp
qed

lemma ListRelToExecRoot_again:
  assumes "IsAbs er"
  shows "ListRelToExecRoot er wd' (abs_inputs er (ListRelToExecRoot er wd ps)) = ListRelToExecRoot er wd ps"
  using RelToExecRoot_again [OF assms]
  by (induction ps) (auto simp: ListRelToExecRoot_def mapPaths_filter abs_inputs_def)

lemma abs_inputs_abs: "IsAbs er \<Longrightarrow> p \<in> set (abs_inputs er hs) \<Longrightarrow> IsAbs p"
  by (auto simp: abs_inputs_def IsAbs_Join)

section \<open>The scanner is asked once\<close>

lemma GetDeps_ok:
  assumes "cache_ok h c"
  obtains c' where "GetDeps h t (Some c) k = (Some c', lookup_spec h (depsCache c) k)" "cache_ok h c'"
    "depsCache c' = depsCache c"
  using get_ready_spec [of h c t k] assms that
  by (cases "get_ready h t c k") (auto simp: GetDeps_def IsReady_def cache_ok_def)

lemma getFromDepsCache_ok:
  assumes "cppDeps st = Some c" and "cache_ok (depsHost H) c"
  obtains st' c' where "getFromDepsCache H k st = (st', lookup_spec (depsHost H) (depsCache c) k)" "cppDeps st' = Some c'"
    "cache_ok (depsHost H) c'" "depsCache c' = depsCache c" "cppSlots st' = cppSlots st"
    "cppPending st' = cppPending st" "cppScans st' = cppScans st" "cppBase st' = cppBase st"
proof -
  obtain c' where "GetDeps (depsHost H) (clock H) (Some c) k = (Some c', lookup_spec (depsHost H) (depsCache c) k)"
    "cache_ok (depsHost H) c'" "depsCache c' = depsCache c"
    using GetDeps_ok [OF assms(2)] by blast
  then show ?thesis
    using that assms(1)
    by (cases "lookup_spec (depsHost H) (depsCache c) k") (auto simp: getFromDepsCache_def)
qed

lemma saveDeps_ok:
  assumes "cppDeps st = Some c" and "cache_ok (depsHost H) c" and "IsAbs er"
    and "\<forall>p \<in> set (abs_inputs er hs). current (depsHost H) p \<noteq> None"
    and "current (depsHost H) (SrcFilePath k) \<noteq> None"
  obtains c' where "saveDeps H (er, k, hs) st = st\<lparr>cppDeps := Some c'\<rparr>" "cache_ok (depsHost H) c'"
    "lookup_spec (depsHost H) (depsCache c') k = Some (abs_inputs er hs)"
proof -
  obtain sfi where s: "current (depsHost H) (SrcFilePath k) = Some sfi" using assms(5) by auto
  have d: "\<forall>d \<in> set (abs_inputs er hs). IsAbs d \<and> current (depsHost H) d \<noteq> None"
    using assms(4) abs_inputs_abs [OF assms(3)] by blast
  have f: "files_fresh (depsHost H) (filesCache c)" "ready c" using assms(2) by (auto simp: cache_ok_def)
  obtain c' where c': "set_ready (depsHost H) (clock H) c k (abs_inputs er hs) = (c', None)" "ready c' = ready c"
    "files_fresh (depsHost H) (filesCache c')"
    "depsCache c' = (depsCache c)(k\<lparr>srcFileMinDigest := fiDigest sfi\<rparr> \<mapsto> map (the \<circ> current (depsHost H)) (abs_inputs er hs))"
    using set_ready_spec [OF f(1) d s] by blast
  have "lookup_spec (depsHost H) (depsCache c') k = Some (abs_inputs er hs)"
    using lookup_spec_updated [OF assms(4) s, of "depsCache c'"] c'(4) by simp
  moreover have "saveDeps H (er, k, hs) st = st\<lparr>cppDeps := Some c'\<rparr>"
    using c'(1) f(2) assms(1) by (simp add: saveDeps_def SetDeps_def IsReady_def)
  ultimately show ?thesis using that c' f by (simp add: cache_ok_def)
qed

lemma FindDependencies_hit:
  assumes "cppDeps st = Some c" and "cache_ok (depsHost H) c" and "TargetFilePaths f = t # ts"
    and "lookup_spec (depsHost H) (depsCache c) (deps_key H f args t) = Some res"
  obtains st' c' where "FindDependencies H f args st = (st', Ok (ListRelToExecRoot (ExecRoot f) [] res))"
    "cppScans st' = cppScans st" "cppPending st' = cppPending st" "cppDeps st' = Some c'" "cache_ok (depsHost H) c'"
    "depsCache c' = depsCache c"
  using getFromDepsCache_ok [OF assms(1,2), of "deps_key H f args t"] assms(3,4) that
  by (smt (verit) FindDependencies_def case_prod_conv list.simps(5) option.simps(5))

lemma scan_deps_Ok:
  assumes "scan_deps H f args t st = (st', Ok hs)"
  shows "cppPending st' = cppPending st @ [(ExecRoot f, deps_key H f args t, hs)]" "cppDeps st' = cppDeps st"
    "\<exists>res. hs = ListRelToExecRoot (ExecRoot f) [] res"
  using assms by (auto simp: scan_deps_def Let_def split: prod.splits option.splits scan_error.splits)

lemma scan_deps_slots: "cppSlots (fst (scan_deps H f args t st)) = cppSlots st"
  by (auto simp: scan_deps_def Let_def option.map_comp comp_def option.map_ident split: prod.splits option.splits scan_error.splits)

lemma FindDependencies_slots: "cppSlots (fst (FindDependencies H f args st)) = cppSlots st"
proof (cases "TargetFilePaths f")
  case (Cons t ts)
  obtain st1 r where g: "getFromDepsCache H (deps_key H f args t) st = (st1, r)"
    by (cases "getFromDepsCache H (deps_key H f args t) st")
  then have "cppSlots st1 = cppSlots st" by (auto simp: getFromDepsCache_def split: prod.splits option.splits)
  then show ?thesis using g Cons scan_deps_slots by (auto simp: FindDependencies_def split: option.splits)
qed (simp add: FindDependencies_def)

lemma run_pending_slots: "cppSlots (run_pending H st) = cppSlots st"
proof -
  have "cppSlots (fold (saveDeps H) js st) = cppSlots st" for js st
    by (induction js arbitrary: st) (auto simp: saveDeps_def split: prod.splits)
  then show ?thesis by (simp add: run_pending_def)
qed

text \<open>C25: Once the dependencies of a source file were found and recorded, finding them again with the
  same arguments gives the same list and leaves the scanner alone, as long as the source and the
  headers can be read and do not change. Every slot taken is given back.\<close>

theorem FindDependencies_cached:
  assumes "cppDeps st = Some c" and "cache_ok (depsHost H) c" and "cppPending st = []"
    and "IsAbs (ExecRoot f)" and "TargetFilePaths f = t # ts"
    and "FindDependencies H f args st = (st1, Ok hs)"
    and "current (depsHost H) (Join [ExecRoot f, WorkingDirectory f, t]) \<noteq> None"
    and "\<forall>p \<in> set (abs_inputs (ExecRoot f) hs). current (depsHost H) p \<noteq> None"
  shows "\<exists>st2. FindDependencies H f args (run_pending H st1) = (st2, Ok hs) \<and> cppScans st2 = cppScans st1 \<and>
    cppSlots st2 = cppSlots st"
proof -
  let ?k = "deps_key H f args t"
  have slots: "cppSlots st2 = cppSlots st" if "FindDependencies H f args (run_pending H st1) = (st2, Ok hs)" for st2
    using that assms(6) FindDependencies_slots [of H f args] run_pending_slots [of H st1] by (metis fst_conv)
  obtain s c' where g: "getFromDepsCache H ?k st = (s, lookup_spec (depsHost H) (depsCache c) ?k)" "cppDeps s = Some c'"
    "cache_ok (depsHost H) c'" "depsCache c' = depsCache c" "cppPending s = []"
    using getFromDepsCache_ok [OF assms(1,2)] assms(3) by metis
  show ?thesis
  proof (cases "lookup_spec (depsHost H) (depsCache c) ?k")
    case (Some res)
    then have st1: "st1 = s" "hs = ListRelToExecRoot (ExecRoot f) [] res"
      using assms(5,6) g by (auto simp: FindDependencies_def)
    have "run_pending H st1 = st1" using st1 g(5) by (simp add: run_pending_def)
    then show ?thesis
      using FindDependencies_hit [OF g(2,3) assms(5), of args res] Some g(4) st1 slots by metis
  next
    case None
    then have sc: "scan_deps H f args t s = (st1, Ok hs)"
      using assms(5,6) g by (auto simp: FindDependencies_def split: if_splits)
    note sd = scan_deps_Ok [OF sc]
    have cur: "current (depsHost H) (SrcFilePath ?k) \<noteq> None" using assms(7) by (simp add: deps_key_def)
    obtain c2 where c2: "saveDeps H (ExecRoot f, ?k, hs) (st1\<lparr>cppPending := []\<rparr>) = st1\<lparr>cppPending := [], cppDeps := Some c2\<rparr>"
      "cache_ok (depsHost H) c2" "lookup_spec (depsHost H) (depsCache c2) ?k = Some (abs_inputs (ExecRoot f) hs)"
      using saveDeps_ok [of "st1\<lparr>cppPending := []\<rparr>" c' H "ExecRoot f" hs ?k] sd(2) g(2,3) assms(4,8) cur by auto
    have "run_pending H st1 = st1\<lparr>cppPending := [], cppDeps := Some c2\<rparr>"
      using sd(1) g(5) c2(1) by (simp add: run_pending_def)
    moreover have "ListRelToExecRoot (ExecRoot f) [] (abs_inputs (ExecRoot f) hs) = hs"
      using sd(3) ListRelToExecRoot_again [OF assms(4)] by metis
    ultimately show ?thesis
      using FindDependencies_hit [OF _ c2(2) assms(5) c2(3), of "st1\<lparr>cppPending := [], cppDeps := Some c2\<rparr>"] slots by auto
  qed
qed

section \<open>Virtual inputs are the cleaned include paths\<close>

lemma Clean_render: "normal_elems r es \<Longrightarrow> Clean (render_path r es) = render_path r es"
  by (simp add: Clean_def IsAbs_render clean_elems_render)

lemma normal_elems_snoc: "normal_elems r (es @ [e]) \<Longrightarrow> normal_elems r es"
  by (auto simp: normal_elems_def dots_first_append)

lemma foldl_Join_elems:
  assumes "normal_elems False es" and "es \<noteq> []"
  shows "foldl (\<lambda>c e. Join [c, e]) [] es = render_path False es"
  using assms
proof (induction es rule: rev_induct)
  case (snoc e es)
  show ?case
  proof (cases "es = []")
    case True
    have "Join [[], e] = Clean (render_path False [e])" using snoc.prems(1)
      by (auto simp: Join_def render_path_def normal_elems_def plain_elem_def)
    then show ?thesis using True Clean_render [OF snoc.prems(1)] by simp
  next
    case False
    have n: "normal_elems False es" by (rule normal_elems_snoc [OF snoc.prems(1)])
    have ne: "path_join es \<noteq> []" using path_join_plain [OF False] n by (simp add: normal_elems_def)
    have "path_join (es @ [e]) = path_join es @ CHR ''/'' # e" using join_with_append [OF False, of "[e]" "''/''"] by simp
    then have "Join [render_path False es, e] = Clean (render_path False (es @ [e]))"
      using False ne by (simp add: Join_def render_path_def)
    then show ?thesis using snoc.IH [OF n False] Clean_render [OF snoc.prems(1)] by simp
  qed
qed simp

text \<open>On elements whose dots come first the loop never stops at a directory on the way.\<close>

lemma subdir_loop_normal:
  assumes "dots_first es" and "lastElem \<in> {[], ''..''} \<or> ''..'' \<notin> set es"
  shows "subdir_loop es [] cpath lastElem = [Clean (foldl (\<lambda>c e. Join [c, e]) cpath es)]"
  using assms
proof (induction es arbitrary: cpath lastElem)
  case (Cons e es)
  then show ?case using dots_first_notin by (cases "e = ''..''") (auto split: if_splits)
qed simp

lemma extract_cleaned:
  assumes "\<not> IsAbs p"
  shows "extractVirtualSubdirectories (Clean p) = [Clean p]"
proof (cases "clean_elems p = []")
  case True
  have "extractVirtualSubdirectories ''.'' = [''.'']" by code_simp
  then show ?thesis using True assms by (simp add: Clean_def render_path_def)
next
  case False
  have n: "normal_elems False (clean_elems p)" using clean_elems_normal [of p] assms by simp
  have sp: "path_split (Clean p) = clean_elems p"
    using False assms n split_join [of "clean_elems p" "CHR ''/''"]
    by (simp add: Clean_def render_path_def normal_elems_def plain_elem_def)
  have "subdir_loop (clean_elems p) [] [] [] = [Clean (render_path False (clean_elems p))]"
    using subdir_loop_normal [of "clean_elems p" "[]" "[]"] foldl_Join_elems [OF n False] n
    by (simp add: normal_elems_def)
  then show ?thesis
    using sp Clean_render [OF n] assms by (simp add: extractVirtualSubdirectories_def Clean_def)
qed

text \<open>What a \<open>VirtualInputsProcessor\<close> promises: a path is appended, earlier virtual inputs stay.\<close>

locale virtual_inputs_processor =
  fixes isVirtual :: "string \<Rightarrow> bool"
    and appendVirtual :: "VirtualInput list \<Rightarrow> string \<Rightarrow> string \<Rightarrow> VirtualInput list"
    and added :: "string \<Rightarrow> string \<Rightarrow> VirtualInput list"
  assumes append_law: "appendVirtual vis fl p = vis @ added fl p"
begin

lemma append_paths:
  "fold (\<lambda>q vis. appendVirtual vis fl q) ps vis = vis @ concat (map (added fl) ps)"
  by (induction ps arbitrary: vis) (simp_all add: append_law)

end

text \<open>The directory a flag adds, relative to the exec root.\<close>

definition virtual_path :: "CommandFlags \<Rightarrow> string \<Rightarrow> string" where
  "virtual_path f v =
     Clean (Join [WorkingDirectory f,
       if IsAbs v then the_ok (Rel (Join [ExecRoot f, WorkingDirectory f]) v) else v])"

definition virtual_flags :: "(string \<Rightarrow> bool) \<Rightarrow> CommandFlags \<Rightarrow> Flag list" where
  "virtual_flags isVirtual f = filter (\<lambda>fl. isVirtual (Key fl) \<and> Value fl \<noteq> []) (Flags f)"

lemma Join_relative:
  assumes "\<not> IsAbs a" and "\<not> IsAbs b"
  shows "\<not> IsAbs (Join [a, b]) \<and> extractVirtualSubdirectories (Join [a, b]) = [Clean (Join [a, b])]"
proof (cases "a = [] \<and> b = []")
  case True
  have "extractVirtualSubdirectories [] = [Clean []]" by code_simp
  then show ?thesis using True by (simp add: Join_def IsAbs_def)
next
  case False
  then obtain p where "Join [a, b] = Clean p" "\<not> IsAbs p"
    using assms IsAbs_append [of a "CHR ''/'' # b"] by (cases "a = []") (auto simp: Join_def)
  then show ?thesis using extract_cleaned [of p] by simp
qed

context virtual_inputs_processor
begin

lemma virtual_step_added:
  assumes "\<not> IsAbs (WorkingDirectory f)" and "IsAbs (ExecRoot f)"
  shows "virtual_step isVirtual appendVirtual f fl vis =
    (if isVirtual (Key fl) \<and> Value fl \<noteq> [] then vis @ added (Key fl) (virtual_path f (Value fl)) else vis)"
proof (cases "isVirtual (Key fl) \<and> Value fl \<noteq> []")
  case True
  define rel where "rel = (if IsAbs (Value fl) then the_ok (Rel (Join [ExecRoot f, WorkingDirectory f]) (Value fl)) else Value fl)"
  have r: "\<not> IsAbs rel \<and> (IsAbs (Value fl) \<longrightarrow> Rel (Join [ExecRoot f, WorkingDirectory f]) (Value fl) = Ok rel)"
  proof (cases "IsAbs (Value fl)")
    case True
    then obtain q where "Rel (Join [ExecRoot f, WorkingDirectory f]) (Value fl) = Ok q" "\<not> IsAbs q"
      using Rel_abs_Ok [OF IsAbs_Join [OF assms(2)]] by blast
    then show ?thesis using True by (simp add: rel_def)
  qed (simp add: rel_def)
  have "extractVirtualSubdirectories (Join [WorkingDirectory f, rel]) = [virtual_path f (Value fl)]"
    using Join_relative [OF assms(1)] r by (auto simp: virtual_path_def rel_def)
  moreover have "(if IsAbs (Value fl) then (case Rel (Join [ExecRoot f, WorkingDirectory f]) (Value fl) of Ok q \<Rightarrow> q | _ \<Rightarrow> [])
      else Value fl) = rel"
    using r by (cases "IsAbs (Value fl)") (simp, simp add: rel_def)
  ultimately show ?thesis using True by (simp add: virtual_step_def append_law)
qed (auto simp: virtual_step_def)

lemma VirtualInputsOf_eq:
  assumes "\<not> IsAbs (WorkingDirectory f)" and "IsAbs (ExecRoot f)"
  shows "VirtualInputsOf isVirtual appendVirtual f =
    concat (map (\<lambda>fl. added (Key fl) (virtual_path f (Value fl))) (virtual_flags isVirtual f))"
proof -
  have "fold (virtual_step isVirtual appendVirtual f) fls vis =
      vis @ concat (map (\<lambda>fl. added (Key fl) (virtual_path f (Value fl)))
        (filter (\<lambda>fl. isVirtual (Key fl) \<and> Value fl \<noteq> []) fls))" for fls vis
    by (induction fls arbitrary: vis) (auto simp: virtual_step_added [OF assms])
  then show ?thesis by (simp add: VirtualInputsOf_def virtual_flags_def)
qed

end

interpretation cpp_virtual: virtual_inputs_processor cppIsVirtualInput cppAppendVirtualInput
  "\<lambda>fl p. [\<lparr>Path = p, IsEmptyDirectory = True\<rparr>]"
  by unfold_locales (simp add: cppAppendVirtualInput_def)

text \<open>C26: The virtual inputs of a compile action are one empty directory per include flag, at the
  cleaned path of the flag: since the path is cleaned before it is taken apart, no directory
  left again through a parent element is ever added.\<close>

theorem VirtualInputs_direct:
  assumes "\<not> IsAbs (WorkingDirectory f)" and "IsAbs (ExecRoot f)"
  shows "VirtualInputsOf cppIsVirtualInput cppAppendVirtualInput f =
    map (\<lambda>fl. \<lparr>Path = virtual_path f (Value fl), IsEmptyDirectory = True\<rparr>) (virtual_flags cppIsVirtualInput f)"
  using cpp_virtual.VirtualInputsOf_eq [OF assms] by (simp add: concat_map_singleton)

theorem VirtualInputs_direct_witness:
  "VirtualInputsOf cppIsVirtualInput cppAppendVirtualInput
     (zero_flags\<lparr>ExecRoot := ''/r'', WorkingDirectory := ''out'',
        Flags := [NewFlag ''-I'' ''-I'' ''gen/../../inc'' True, NewFlag ''-c'' ''-c'' [] False]\<rparr>) =
   [\<lparr>Path = ''inc'', IsEmptyDirectory = True\<rparr>]"
proof -
  let ?f = "zero_flags\<lparr>ExecRoot := ''/r'', WorkingDirectory := ''out'',
        Flags := [NewFlag ''-I'' ''-I'' ''gen/../../inc'' True, NewFlag ''-c'' ''-c'' [] False]\<rparr>"
  have "virtual_path ?f ''gen/../../inc'' = ''inc''" by code_simp
  moreover have "\<not> IsAbs (WorkingDirectory ?f)" "IsAbs (ExecRoot ?f)" by (simp_all add: IsAbs_def)
  ultimately show ?thesis
    using VirtualInputs_direct [of ?f]
    by (simp add: virtual_flags_def NewFlag_def cppIsVirtualInput_def cppVirtualInputFlags_def)
qed

section \<open>Resource directories\<close>

text \<open>A directory found once is answered from the table while the executable is the same file,
  whatever flag, output format or executor later callers bring.\<close>

lemma ResourceDir_cached:
  assumes "ResourceDir H args fl mapper dirs = (dirs', rd)" and "rd \<noteq> []" and "\<And>n. sameFile H n n"
  shows "ResourceDir (H\<lparr>executor := Some run'\<rparr>) args fl' mapper' dirs' = (dirs', rd)"
  using assms
  by (auto simp: ResourceDir_def ask_compiler_def dir_hit_def split: list.splits if_splits option.splits prod.splits)


section \<open>Specs that are not shallow are complete\<close>

text \<open>A preprocessor whose \<open>ComputeSpec\<close> runs the scanner adds one promise to the contract: when it
  fails, a spec it still returns is marked shallow.\<close>

locale scanning_preprocessor = preprocessor_contract P for P :: "'p Preprocessor" +
  assumes compute_error: "PComputeSpec P p = Some (p', Some e) \<Longrightarrow> PSpec P p' = Ok s \<Longrightarrow> UsedShallowMode s"
begin

lemma sanitized_deep:
  assumes "sanitized_spec P q = Ok s" and "\<not> UsedShallowMode s"
  shows "\<exists>s0. PSpec P q = Ok s0 \<and> \<not> UsedShallowMode s0"
  using assms sanitize_ok [of q] by (auto simp: sanitized_spec_def split: option.splits)

text \<open>A spec without the mark comes from a run in which every stage succeeded.\<close>

lemma deep_spec_stages:
  assumes "Compute P options p = Ok s" and "\<not> UsedShallowMode s"
  obtains p1 p2 p3 where "PParseFlags P (PInit P options p) = Some (p1, None)"
    "PProcessToolchains P p1 = Some (p2, None)" "PComputeSpec P p2 = Some (p3, None)" "sanitized_spec P p3 = Ok s"
proof -
  obtain p1 e1 where p1: "PParseFlags P (PInit P options p) = Some (p1, e1)"
    using assms(1) by (auto simp: Compute_def split: option.splits)
  have e1: "e1 = None"
    using p1 assms sanitized_deep [of p1 s] parse_error [of "PInit P options p" p1]
    by (cases e1) (auto simp: Compute_def split: if_splits)
  then obtain p2 e2 where p2: "PProcessToolchains P p1 = Some (p2, e2)"
    using assms(1) p1 by (auto simp: Compute_def split: option.splits)
  have e2: "e2 = None"
    using p1 e1 p2 assms sanitized_deep [of p2 s] toolchain_error [of p1 p2]
    by (cases e2) (auto simp: Compute_def split: if_splits)
  then obtain p3 e3 where p3: "PComputeSpec P p2 = Some (p3, e3)"
    using assms p1 e1 p2 sanitized_deep [of p2 s] by (auto simp: Compute_def split: option.splits res.splits if_splits)
  have "e3 = None \<and> sanitized_spec P p3 = Ok s"
    using p1 e1 p2 e2 p3 assms sanitized_deep [of p2 s] sanitized_deep [of p3 s] compute_error [of p2 p3]
    by (cases e3) (auto simp: Compute_def split: res.splits if_splits)
  then show ?thesis using that p1 e1 p2 e2 p3 by blast
qed

end

lemma on_base_eq [simp]: "on_base g st = Some (st', x) \<longleftrightarrow> (\<exists>b. g (cppBase st) = Some (b, x) \<and> st' = st\<lparr>cppBase := b\<rparr>)"
  by (auto simp: on_base_def)

lemma cpp_contract:
  fixes parse :: "Options \<Rightarrow> ('e, CommandFlags) res"
  assumes "\<And>st st' e s. compute st = Some (st', Some e) \<Longrightarrow> BaseSpec (cppBase st') = Ok s \<Longrightarrow> UsedShallowMode s"
  shows "scanning_preprocessor (cpp_preprocessor fenv tenv parse compute)"
proof -
  note b = base.parse_error base.toolchain_error base.sanitize_err base.sanitize_ok
  note b' = b [of fenv tenv parse "\<lambda>c. None", unfolded base_preprocessor_def, simplified]
  show ?thesis
    by unfold_locales (use assms b' in \<open>fastforce simp: cpp_preprocessor_def\<close>)+
qed

lemma AppendSpec_shallow:
  "BaseSpec (AppendSpec (Some sp) c) = Ok s \<Longrightarrow> UsedShallowMode sp \<Longrightarrow> UsedShallowMode s"
  by (auto simp: BaseSpec_def AppendSpec_def Let_def split: option.splits if_splits)

lemma compute_spec_error:
  assumes "compute_spec H b d v st = Some (st', Some e)" and "BaseSpec (cppBase st') = Ok s"
  shows "UsedShallowMode s"
  using assms
  by (auto simp: compute_spec_def Let_def split: option.splits prod.splits res.splits intro: AppendSpec_shallow)

interpretation cpp: scanning_preprocessor "cpp_preprocessor fenv tenv parse (cppComputeSpec H)"
  for fenv tenv and parse :: "Options \<Rightarrow> ('e, CommandFlags) res" and H
  by (rule cpp_contract) (simp add: cppComputeSpec_def compute_spec_error)

interpretation abi: scanning_preprocessor "cpp_preprocessor fenv tenv parse (abiComputeSpec H)"
  for fenv tenv and parse :: "Options \<Rightarrow> ('e, CommandFlags) res" and H
  by (rule cpp_contract)
    (auto simp: abiComputeSpec_def cppComputeSpec_def compute_spec_error split: option.splits)

interpretation lint: scanning_preprocessor "cpp_preprocessor fenv tenv parse (lintComputeSpec H)"
  for fenv tenv and parse :: "Options \<Rightarrow> ('e, CommandFlags) res" and H
  by (rule cpp_contract)
    (auto simp: lintComputeSpec_def cppComputeSpec_def compute_spec_error BaseSpec_def split: option.splits res.splits)

text \<open>The NaCl preprocessor breaks the promise: for a binary without \<open>nacl\<close> in its name it fails
  and leaves the spec unmarked.\<close>

lemma naclComputeSpec_unmarked:
  assumes "BpFlags (cppBase st) = Some f" and "naclFlags f = Err e" and "BaseSpec (cppBase st) = Ok s"
  shows "naclComputeSpec H st = Some (st, Some SpecFailed)" "BaseSpec (cppBase st) = Ok s"
  using assms by (simp_all add: naclComputeSpec_def)


lemma filter_inputs_complete:
  "f \<in> set fs \<Longrightarrow> f \<noteq> [] \<Longrightarrow> snd (normalized_input env er f) \<Longrightarrow>
   fst (normalized_input env er f) \<in> set (filter_inputs env er m fs) \<union> set m"
proof (induction fs arbitrary: m)
  case (Cons g fs)
  show ?case
    using Cons.prems Cons.IH [of m] Cons.IH [of "fst (normalized_input env er g) # m"]
    by (auto simp: Let_def split: if_splits)
qed simp

lemma FindDependencies_base: "cppBase (fst (FindDependencies H f args st)) = cppBase st"
proof (cases "TargetFilePaths f")
  case (Cons t ts)
  obtain st1 r where g: "getFromDepsCache H (deps_key H f args t) st = (st1, r)"
    by (cases "getFromDepsCache H (deps_key H f args t) st")
  then have "cppBase st1 = cppBase st" by (auto simp: getFromDepsCache_def split: prod.splits option.splits)
  moreover have "cppBase (fst (scan_deps H f args t st1)) = cppBase st1"
    by (auto simp: scan_deps_def Let_def split: prod.splits option.splits scan_error.splits)
  ultimately show ?thesis using g Cons by (auto simp: FindDependencies_def split: option.splits)
qed (simp add: FindDependencies_def)

lemma FindDependencies_headers:
  assumes "FindDependencies H f args st = (st', Ok hs)"
  shows "\<exists>ps. hs = ListRelToExecRoot (ExecRoot f) [] ps"
proof (cases "TargetFilePaths f")
  case Nil
  then show ?thesis using assms by (auto simp: FindDependencies_def ListRelToExecRoot_def intro: exI [of _ "[]"])
next
  case (Cons t ts)
  then show ?thesis
    using assms scan_deps_Ok(3) [of H f args t _ st' hs]
    by (auto simp: FindDependencies_def split: prod.splits option.splits if_splits)
qed

text \<open>What \<open>ComputeSpec\<close> does to the base state.\<close>

lemma compute_spec_cases:
  assumes "compute_spec H b d v st = Some (st', e)"
  obtains f args dirs st1 r where "BpFlags (cppBase st) = Some f"
    "(if expectsResourceDir H then d (b f) (resourceDirs st) else (resourceDirs st, b f)) = (dirs, args)"
    "FindDependencies H f args (st\<lparr>resourceDirs := dirs\<rparr>) = (st1, r)" "(e = None) = is_ok r"
    "cppSlots st' = cppSlots st"
    "cppBase st' = AppendSpec (Some (case r of
        Ok hs \<Rightarrow> spec_of_inputs (empty_input_spec\<lparr>Inputs := hs, VirtualInputs := v f\<rparr>)
      | _ \<Rightarrow> (spec_of_inputs empty_input_spec)\<lparr>UsedShallowMode := True\<rparr>)) (cppBase st)"
proof -
  obtain f where f: "BpFlags (cppBase st) = Some f" using assms by (auto simp: compute_spec_def split: option.splits)
  obtain dirs args where da: "(if expectsResourceDir H then d (b f) (resourceDirs st) else (resourceDirs st, b f)) = (dirs, args)"
    by fastforce
  obtain st1 r where fd: "FindDependencies H f args (st\<lparr>resourceDirs := dirs\<rparr>) = (st1, r)" by fastforce
  have base: "cppBase st1 = cppBase st" "cppSlots st1 = cppSlots st"
    using FindDependencies_base [of H f args "st\<lparr>resourceDirs := dirs\<rparr>"]
      FindDependencies_slots [of H f args "st\<lparr>resourceDirs := dirs\<rparr>"] fd by simp_all
  show ?thesis
    using assms f da fd base by (cases r) (auto simp: compute_spec_def Let_def intro: that)
qed

lemma compute_spec_inputs_ok:
  assumes "compute_spec H b d v st = Some (st', e)" and "inputs_ok (cppBase st)"
    and "\<And>f. BpFlags (cppBase st) = Some f \<Longrightarrow> IsAbs (ExecRoot f)"
  shows "inputs_ok (cppBase st') \<and> BpOptions (cppBase st') = BpOptions (cppBase st)"
  using assms(1)
proof (cases rule: compute_spec_cases)
  case (1 f args dirs st1 r)
  have "\<forall>i \<in> set hs. ok_input G i" if ok: "r = Ok hs" for hs G
  proof -
    obtain ps where "hs = ListRelToExecRoot (ExecRoot f) [] ps" using FindDependencies_headers 1(3) ok by blast
    then show ?thesis using ListRelToExecRoot_confined [OF assms(3) [OF 1(1)]] by auto
  qed
  then have "inputs_ok (cppBase st')"
    unfolding 1(6) by (intro AppendSpec_inputs_ok [OF assms(2)]) (simp add: spec_of_inputs_def empty_input_spec_def split: res.splits)
  then show ?thesis using 1(6) by (simp add: AppendSpec_def Let_def)
qed

lemma BaseProcessToolchains_flags:
  "BpFlags (fst (BaseProcessToolchains tenv c)) = BpFlags c \<and> BpOptions (fst (BaseProcessToolchains tenv c)) = BpOptions c"
  by (auto simp: BaseProcessToolchains_def AppendSpec_def Let_def split: option.splits)

lemma BaseParseFlags_flags:
  "BaseParseFlags parse c = Some (c', None) \<Longrightarrow>
   \<exists>f. parse (BpOptions c) = Ok f \<and> BpFlags c' = Some f \<and> BpOptions c' = BpOptions c"
  by (auto simp: BaseParseFlags_def FlagsToActionSpec_def AppendSpec_def Let_def split: res.splits)

lemma sanitized_cpp:
  "sanitized_spec (cpp_preprocessor fenv tenv parse compute) st =
   sanitized_spec (base_preprocessor fenv tenv parse (\<lambda>_. None)) (cppBase st)"
  by (auto simp: sanitized_spec_def cpp_preprocessor_def base_preprocessor_def split: option.splits)

lemma sanitized_keeps:
  assumes "sanitized_spec (base_preprocessor fenv tenv parse compute) c = Ok s"
    and "actionSpec c = Some a" and "h \<in> set (Inputs (ASInputSpec a))" and "h \<noteq> []"
    and "snd (normalized_input fenv (OptExecRoot (BpOptions c)) h)"
  shows "fst (normalized_input fenv (OptExecRoot (BpOptions c)) h) \<in> set (Inputs (ASInputSpec s))"
proof -
  obtain c' where c': "BaseSanitize fenv c = Some c'" "BaseSpec c' = Ok s"
    using assms(1) by (auto simp: sanitized_spec_def base_preprocessor_def split: option.splits)
  have "Inputs (ASInputSpec s) = filter_inputs fenv (OptExecRoot (BpOptions c)) [] (Inputs (ASInputSpec a))"
    using BaseSanitize_fields [OF c'(1)] c'(2) assms(2) by (auto simp: BaseSpec_def split: option.splits)
  then show ?thesis using filter_inputs_complete [OF assms(3-5), of "[]"] by simp
qed

text \<open>The stages of a compile action up to \<open>ComputeSpec\<close>, on the base state.\<close>

definition cpp_fresh :: "Cache option \<Rightarrow> int option \<Rightarrow> resource_dirs \<Rightarrow> cpp_state" where
  "cpp_fresh dc slots dirs =
     \<lparr>cppBase = fresh_state, cppDeps = dc, cppSlots = slots, cppPending = [], cppScans = 0, cppEvents = [], resourceDirs = dirs\<rparr>"

lemma cpp_confined:
  assumes "Compute (cpp_preprocessor fenv tenv parse (compute_spec H b d v)) options (cpp_fresh dc slots dirs) = Ok s"
    and "IsAbs (OptExecRoot options)" and "nfc_ok fenv (OptExecRoot options)" and "tc_cache_ok tenv"
    and "\<And>f. parse options = Ok f \<Longrightarrow> ExecRoot f = OptExecRoot options"
  shows "distinct (Inputs (ASInputSpec s)) \<and>
    (\<forall>i \<in> set (Inputs (ASInputSpec s)). below_or_given options i \<and> statDir fenv (Join [OptExecRoot options, i]) \<noteq> None)"
proof -
  let ?P = "cpp_preprocessor fenv tenv parse (compute_spec H b d v)" and ?st = "cpp_fresh dc slots dirs"
  have sel: "PInit ?P options ?st = ?st\<lparr>cppBase := BaseInit options fresh_state\<rparr>" "PParseFlags ?P = on_base (BaseParseFlags parse)"
    "PProcessToolchains ?P = on_base (\<lambda>c. Some (BaseProcessToolchains tenv c))" "PComputeSpec ?P = compute_spec H b d v"
    by (simp_all add: cpp_preprocessor_def cpp_fresh_def)
  have o0: "BpOptions (BaseInit options fresh_state) = options" by (simp add: BaseInit_def Let_def)
  have fin: ?thesis if "sanitized_spec ?P q = Ok s" "inputs_ok (cppBase q) \<and> BpOptions (cppBase q) = options" for q
    using sanitized_inputs [OF that(1) [unfolded sanitized_cpp]] that(2) assms(3) by simp
  have ok1: "inputs_ok b1 \<and> BpOptions b1 = options" if "BaseParseFlags parse (BaseInit options fresh_state) = Some (b1, e)" for b1 e
    using BaseParseFlags_inputs_ok [OF that BaseInit_inputs_ok] o0 assms(2) by simp
  have ok2: "inputs_ok b2 \<and> BpOptions b2 = options"
    if "BaseProcessToolchains tenv b1 = (b2, e)" "inputs_ok b1 \<and> BpOptions b1 = options" for b1 b2 e
    using BaseProcessToolchains_inputs_ok [OF that(1)] that(2) assms(2,4) by simp
  show ?thesis
    using assms(1)
  proof (cases rule: Compute_OkE)
    case (parse q e)
    then show ?thesis using fin [of q] ok1 by (auto simp: sel)
  next
    case (toolchain q1 q e)
    then show ?thesis using fin [of q] ok1 ok2 by (auto simp: sel)
  next
    case (spec q1 q2 q e)
    obtain b1 b2 where b1: "BaseParseFlags parse (BaseInit options fresh_state) = Some (b1, None)"
      "BaseProcessToolchains tenv b1 = (b2, None)" "cppBase q2 = b2" using spec(1,2) by (auto simp: sel)
    have "IsAbs (ExecRoot f)" if "BpFlags (cppBase q2) = Some f" for f
      using BaseParseFlags_flags [OF b1(1)] BaseProcessToolchains_flags [of tenv b1] b1 that assms(2,5) o0 by auto
    then have "inputs_ok (cppBase q) \<and> BpOptions (cppBase q) = options"
      using compute_spec_inputs_ok [of H b d v q2 q e] spec(3) ok2 [OF b1(2)] ok1 [OF b1(1)] b1(3) by (auto simp: sel)
    then show ?thesis using fin [of q] spec(4) by simp
  qed
qed

text \<open>The command the scanner is given for the flags \<open>f\<close>, and the resource directories known afterwards.\<close>

definition scan_command ::
  "cpp_host \<Rightarrow> (CommandFlags \<Rightarrow> string list) \<Rightarrow> (string list \<Rightarrow> resource_dirs \<Rightarrow> resource_dirs \<times> string list) \<Rightarrow>
   CommandFlags \<Rightarrow> resource_dirs \<Rightarrow> resource_dirs \<times> string list" where
  "scan_command H b d f dirs = (if expectsResourceDir H then d (b f) dirs else (dirs, b f))"

lemma cpp_complete:
  assumes "scanning_preprocessor (cpp_preprocessor fenv tenv parse (compute_spec H b d v))"
    and "Compute (cpp_preprocessor fenv tenv parse (compute_spec H b d v)) options st = Ok s" and "\<not> UsedShallowMode s"
  shows "\<exists>f b1 b2 st2 hs. parse options = Ok f \<and> BaseParseFlags parse (BaseInit options (cppBase st)) = Some (b1, None) \<and>
    BaseProcessToolchains tenv b1 = (b2, None) \<and>
    (case scan_command H b d f (resourceDirs st) of (dirs, args) \<Rightarrow>
       FindDependencies H f args (st\<lparr>cppBase := b2, resourceDirs := dirs\<rparr>) = (st2, Ok hs)) \<and>
    (\<forall>h \<in> set hs. snd (normalized_input fenv (OptExecRoot options) h) \<longrightarrow>
       fst (normalized_input fenv (OptExecRoot options) h) \<in> set (Inputs (ASInputSpec s)))"
proof -
  let ?P = "cpp_preprocessor fenv tenv parse (compute_spec H b d v)"
  have sel: "PInit ?P options st = st\<lparr>cppBase := BaseInit options (cppBase st)\<rparr>" "PParseFlags ?P = on_base (BaseParseFlags parse)"
    "PProcessToolchains ?P = on_base (\<lambda>c. Some (BaseProcessToolchains tenv c))" "PComputeSpec ?P = compute_spec H b d v"
    by (simp_all add: cpp_preprocessor_def)
  obtain p1 p2 p3 where p: "PParseFlags ?P (PInit ?P options st) = Some (p1, None)"
    "PProcessToolchains ?P p1 = Some (p2, None)" "PComputeSpec ?P p2 = Some (p3, None)" "sanitized_spec ?P p3 = Ok s"
    using scanning_preprocessor.deep_spec_stages [OF assms] by blast
  obtain b1 b2 where b: "BaseParseFlags parse (BaseInit options (cppBase st)) = Some (b1, None)"
    "BaseProcessToolchains tenv b1 = (b2, None)" "cppBase p2 = b2" and p2: "p2 = st\<lparr>cppBase := b2\<rparr>"
    using p(1,2) by (auto simp: sel)
  have o0: "BpOptions (BaseInit options (cppBase st)) = options" by (simp add: BaseInit_def Let_def)
  obtain f where f: "parse options = Ok f" "BpFlags b1 = Some f" using BaseParseFlags_flags [OF b(1)] o0 by auto
  have f2: "BpFlags (cppBase p2) = Some f" using BaseProcessToolchains_flags [of tenv b1] b f by simp
  have o2: "BpOptions (cppBase p2) = options"
    using BaseParseFlags_flags [OF b(1)] BaseProcessToolchains_flags [of tenv b1] b o0 by auto
  from p(3) have "compute_spec H b d v p2 = Some (p3, None)" by (simp add: sel)
  then show ?thesis
  proof (cases rule: compute_spec_cases)
    case (1 f' args dirs st1 r)
    obtain hs where hs: "r = Ok hs" using 1(4) by (cases r) auto
    obtain ps where "hs = ListRelToExecRoot (ExecRoot f') [] ps" using FindDependencies_headers 1(3) hs by blast
    then have ne: "h \<noteq> []" if "h \<in> set hs" for h using that by (auto simp: ListRelToExecRoot_def mapPaths_filter)
    obtain a where a: "actionSpec (cppBase p3) = Some a" "set hs \<subseteq> set (Inputs (ASInputSpec a))" and o3: "BpOptions (cppBase p3) = options"
      using 1(6) hs o2 by (auto simp: AppendSpec_def Let_def spec_of_inputs_def empty_input_spec_def)
    have "fst (normalized_input fenv (OptExecRoot options) h) \<in> set (Inputs (ASInputSpec s))"
      if "h \<in> set hs" "snd (normalized_input fenv (OptExecRoot options) h)" for h
      using sanitized_keeps [OF p(4) [unfolded sanitized_cpp] a(1), of h] that ne a(2) o3 by auto
    moreover have "f' = f" using 1(1) f2 by simp
    ultimately have main: "parse options = Ok f \<and> BaseParseFlags parse (BaseInit options (cppBase st)) = Some (b1, None) \<and>
      BaseProcessToolchains tenv b1 = (b2, None) \<and>
      (case scan_command H b d f (resourceDirs st) of (dirs, args) \<Rightarrow>
         FindDependencies H f args (st\<lparr>cppBase := b2, resourceDirs := dirs\<rparr>) = (st1, Ok hs)) \<and>
      (\<forall>h \<in> set hs. snd (normalized_input fenv (OptExecRoot options) h) \<longrightarrow>
         fst (normalized_input fenv (OptExecRoot options) h) \<in> set (Inputs (ASInputSpec s)))"
      using f(1) 1(2,3) hs b(1,2) p2 by (cases "expectsResourceDir H") (simp_all add: scan_command_def)
    show ?thesis
      by (rule exI [where x = f], rule exI [where x = b1], rule exI [where x = b2], rule exI [where x = st1], rule exI [where x = hs], rule main)
  qed
qed


section \<open>Examples\<close>

definition demo_cpp :: cpp_host where
  "demo_cpp = \<lparr>depsHost = demo_host, clock = 9, blobDigest = (\<lambda>b. b), slotGranted = True,
     scanInputs = (\<lambda>args file dir. ([''/a.h''], False, None)), expectsResourceDir = False, statId = (\<lambda>p. Some 0),
     sameFile = (=), notExist = (\<lambda>p. False), executor = None\<rparr>"

definition demo_cpp_flags :: CommandFlags where
  "demo_cpp_flags = zero_flags\<lparr>ExecutablePath := ''clang'', TargetFilePaths := [''a.cc''], ExecRoot := ''/''\<rparr>"

definition demo_cpp_options :: Options where
  "demo_cpp_options = \<lparr>Cmd = [''clang'', ''a.cc''], WorkingDir = [], OptExecRoot = ''/'',
     OptInputs = Some (empty_input_spec\<lparr>Inputs := [''/b.cfg'']\<rparr>), OptLabels = Map.empty, ToolchainInputs = [], ShallowFallback = True\<rparr>"

lemma demo_paths:
  "Join [''/'', []] = ''/''" "Join [''/'', ''a.cc''] = ''/a.cc''" "Join [''/'', [], ''a.cc''] = ''/a.cc''"
  "Join [''/'', ''clang''] = ''/clang''" "ListRelToExecRoot ''/'' [] [''/a.h''] = [''a.h'']"
  "abs_inputs ''/'' [''a.h''] = [''/a.h'']"
  by code_simp+

lemma demo_cpp_fields:
  "depsHost demo_cpp = demo_host" "slotGranted demo_cpp" "scanInputs demo_cpp args fn dir = ([''/a.h''], False, None)"
  "TargetFilePaths demo_cpp_flags = [''a.cc'']" "ExecRoot demo_cpp_flags = ''/''" "WorkingDirectory demo_cpp_flags = []"
  by (simp_all add: demo_cpp_def demo_cpp_flags_def zero_flags_def)

theorem FindDependencies_cached_witness:
  "\<exists>st1 st2. FindDependencies demo_cpp demo_cpp_flags [''clang''] (cpp_fresh (Some demo_cache) (Some 1) Map.empty) = (st1, Ok [''a.h'']) \<and>
     FindDependencies demo_cpp demo_cpp_flags [''clang''] (run_pending demo_cpp st1) = (st2, Ok [''a.h'']) \<and> cppScans st2 = cppScans st1"
proof -
  let ?st = "cpp_fresh (Some demo_cache) (Some 1) Map.empty"
  have l: "lookup_spec demo_host (depsCache demo_cache) q = None" for q
    by (simp add: lookup_spec_def demo_cache_def NewCache_def split: option.splits)
  have d: "cppDeps ?st = Some demo_cache" "cache_ok (depsHost demo_cpp) demo_cache" "cppPending ?st = []"
    by (simp_all add: cpp_fresh_def demo_cpp_def demo_cache_ok)
  obtain s where s: "getFromDepsCache demo_cpp (deps_key demo_cpp demo_cpp_flags [''clang''] ''a.cc'') ?st = (s, None)"
    using getFromDepsCache_ok [OF d(1,2)] l by (metis demo_cpp_fields(1))
  then have "\<exists>st1. FindDependencies demo_cpp demo_cpp_flags [''clang''] ?st = (st1, Ok [''a.h''])"
    by (simp add: FindDependencies_def scan_deps_def demo_cpp_fields demo_paths Let_def)
  then obtain st1 where f: "FindDependencies demo_cpp demo_cpp_flags [''clang''] ?st = (st1, Ok [''a.h''])" ..
  have "current demo_host ''/a.cc'' \<noteq> None" "current demo_host ''/a.h'' \<noteq> None" by code_simp+
  then show ?thesis
    using FindDependencies_cached [OF d _ _ f] f by (auto simp: demo_paths demo_cpp_fields IsAbs_def)
qed


end
