(* ===== verification/ClangCl.thy ===== *)
theory ClangCl
  imports CppPreprocessor Numbers
begin

text \<open>
  The preprocessor of clang-cl actions (\<open>inputprocessor/action/clangcl/preprocessor.go\<close>): its
  virtual inputs, for which the newest Windows SDK and toolchain below \<open>-winsysroot\<close> are looked up
  by version, and its resource directory, read from the version the compiler prints. Directory
  listings and the two caches in front of the lookups are fields of \<open>cl_host\<close>. Versions are
  ordered by the type class \<open>linorder\<close> on their four numbers.
\<close>

section \<open>Versions\<close>

datatype version_key = VersionKey int int int int

instantiation version_key :: linorder
begin

fun less_version_key :: "version_key \<Rightarrow> version_key \<Rightarrow> bool" where
  "less_version_key (VersionKey a b c d) (VersionKey a' b' c' d') \<longleftrightarrow>
     a < a' \<or> a = a' \<and> (b < b' \<or> b = b' \<and> (c < c' \<or> c = c' \<and> d < d'))"

definition less_eq_version_key :: "version_key \<Rightarrow> version_key \<Rightarrow> bool" where
  "less_eq_version_key x y \<longleftrightarrow> x < y \<or> x = y"

instance
proof
  fix x y z :: version_key
  show "x < y \<longleftrightarrow> x \<le> y \<and> \<not> y \<le> x" by (cases x; cases y) (auto simp: less_eq_version_key_def)
  show "x \<le> x" by (simp add: less_eq_version_key_def)
  show "x \<le> y \<Longrightarrow> y \<le> z \<Longrightarrow> x \<le> z" by (cases x; cases y; cases z) (auto simp: less_eq_version_key_def)
  show "x \<le> y \<Longrightarrow> y \<le> x \<Longrightarrow> x = y" by (cases x; cases y) (auto simp: less_eq_version_key_def)
  show "x \<le> y \<or> y \<le> x" by (cases x; cases y) (auto simp: less_eq_version_key_def)
qed

end

record version =
  major :: int
  minor :: int
  micro :: int
  build :: int
  vtext :: string

definition zero_version :: version where
  "zero_version = \<lparr>major = 0, minor = 0, micro = 0, build = 0, vtext = []\<rparr>"

definition is_digit :: "char \<Rightarrow> bool" where
  "is_digit c \<longleftrightarrow> c \<in> set ''0123456789''"

text \<open>The groups of \<open>versionRegex\<close>: one to four numbers between dots.\<close>

definition version_parts :: "string \<Rightarrow> string list option" where
  "version_parts text =
     (let ps = split_on (CHR ''.'') text in
      if length ps \<le> 4 \<and> (\<forall>p \<in> set ps. p \<noteq> [] \<and> (\<forall>c \<in> set p. is_digit c)) then Some ps else None)"

text \<open>\<open>strconv.Atoi\<close> with its error dropped: an absent group is zero, a number out of range the
  largest \<open>int\<close>.\<close>

definition atoi_or_max :: "string \<Rightarrow> int" where
  "atoi_or_max s = (if s = [] then 0 else min (2 ^ 63 - 1) (the (parse_digits 10 0 s)))"

definition group :: "string list \<Rightarrow> nat \<Rightarrow> string" where
  "group ps i = (if i < length ps then ps ! i else [])"

definition newVersion :: "string \<Rightarrow> version option" where
  "newVersion text =
     map_option (\<lambda>ps. \<lparr>major = atoi_or_max (group ps 0), minor = atoi_or_max (group ps 1),
        micro = atoi_or_max (group ps 2), build = atoi_or_max (group ps 3), vtext = text\<rparr>) (version_parts text)"

definition version_gt :: "version \<Rightarrow> version \<Rightarrow> bool" where
  "version_gt a b =
     (if major a \<noteq> major b then major a > major b
      else if minor a \<noteq> minor b then minor a > minor b
      else if micro a \<noteq> micro b then micro a > micro b
      else build a > build b)"

definition version_isEmpty :: "version \<Rightarrow> bool" where
  "version_isEmpty a \<longleftrightarrow> vtext a = []"

text \<open>Entries of a directory with whether they are directories; \<open>None\<close> when it cannot be read.\<close>

fun max_version :: "version \<Rightarrow> (string \<times> bool) list \<Rightarrow> version" where
  "max_version maxVersion [] = maxVersion"
| "max_version maxVersion ((name, isDir) # entries) =
     max_version
       (if \<not> isDir then maxVersion
        else (case newVersion name of
                Some tuple \<Rightarrow> if version_gt tuple maxVersion then tuple else maxVersion
              | None \<Rightarrow> maxVersion))
       entries"

definition getMaxVersionFromPath :: "(string \<times> bool) list option \<Rightarrow> string option" where
  "getMaxVersionFromPath entries =
     (case entries of
        None \<Rightarrow> None
      | Some es \<Rightarrow>
          (let v = max_version zero_version es in if version_isEmpty v then None else Some (vtext v)))"

section \<open>The Windows system root\<close>

record cl_host =
  clExists :: "string \<Rightarrow> bool"
  clReadDir :: "string \<Rightarrow> (string \<times> bool) list option"
  sdkCache :: "string \<Rightarrow> string \<Rightarrow> string"
  vcCache :: "string \<Rightarrow> string \<Rightarrow> string"

definition getMaxVersionDir :: "cl_host \<Rightarrow> string \<Rightarrow> string option" where
  "getMaxVersionDir C p =
     (if \<not> clExists C p then None
      else map_option (\<lambda>v. Join [p, v]) (getMaxVersionFromPath (clReadDir C p)))"

definition winSDKDir :: "cl_host \<Rightarrow> string \<Rightarrow> string option" where
  "winSDKDir C winsysroot =
     Option.bind (getMaxVersionDir C (Join [winsysroot, ''Windows Kits''])) (\<lambda>p.
       getMaxVersionDir C (Join [p, ''Include'']))"

definition vcToolchainDir :: "cl_host \<Rightarrow> string \<Rightarrow> string option" where
  "vcToolchainDir C winsysroot = getMaxVersionDir C (Join [winsysroot, ''VC'', ''Tools'', ''MSVC''])"

text \<open>What the cache computes: the directory relative to the exec root, or \<open>winsysroot\<close> itself
  when the lookup fails.\<close>

definition sysroot_dir :: "string \<Rightarrow> string \<Rightarrow> string option \<Rightarrow> string" where
  "sysroot_dir er winsysroot d =
     (case d of
        None \<Rightarrow> winsysroot
      | Some absDir \<Rightarrow> (case Rel er absDir of Ok dir \<Rightarrow> dir | _ \<Rightarrow> winsysroot))"

definition clAppendVirtualInput ::
  "cl_host \<Rightarrow> string \<Rightarrow> VirtualInput list \<Rightarrow> string \<Rightarrow> string \<Rightarrow> VirtualInput list" where
  "clAppendVirtualInput C er vis fl p =
     (if fl = ''-winsysroot'' then
        let absWinsysroot = Join [er, p];
            sdk = sdkCache C p (sysroot_dir er p (winSDKDir C absWinsysroot));
            vis1 = (if sdk \<noteq> p then cppAppendVirtualInput vis fl sdk else vis);
            vc = vcCache C p (sysroot_dir er p (vcToolchainDir C absWinsysroot))
        in if vc \<noteq> p then cppAppendVirtualInput vis1 fl vc else vis1
      else cppAppendVirtualInput vis fl p)"

definition clVirtualInputFlags :: "string list" where
  "clVirtualInputFlags = [''-I'', ''/I'', ''-imsvc'', ''-winsysroot'']"

definition clIsVirtualInput :: "string \<Rightarrow> bool" where
  "clIsVirtualInput fl \<longleftrightarrow> fl \<in> set clVirtualInputFlags"

section \<open>Resource directory and ComputeSpec\<close>

definition version_of_output :: "string \<Rightarrow> string option" where
  "version_of_output out =
     (if \<not> prefix ''clang version '' out then None
      else
        let v = trim_prefix ''clang version '' out in
        if CHR '' '' \<notin> set v then None else Some (takeWhile (\<lambda>c. c \<noteq> CHR '' '') v))"

definition clResourceDir :: "cpp_host \<Rightarrow> string list \<Rightarrow> resource_dirs \<Rightarrow> resource_dirs \<times> string" where
  "clResourceDir H args =
     ResourceDir H args ''--version''
       (\<lambda>out. map_option (\<lambda>v. Join [Dir (hd args), ''..'', ''lib'', ''clang'', v]) (version_of_output out))"

definition clAddResourceDir :: "cpp_host \<Rightarrow> string list \<Rightarrow> resource_dirs \<Rightarrow> resource_dirs \<times> string list" where
  "clAddResourceDir H args =
     add_resource_dir (\<lambda>arg. arg = ''-resource-dir'' \<or> prefix ''-resource-dir='' arg) (clResourceDir H args) args"

definition clComputeSpec :: "cpp_host \<Rightarrow> cl_host \<Rightarrow> cpp_state \<Rightarrow> (cpp_state \<times> ip_error option) option" where
  "clComputeSpec H C =
     compute_spec H (BuildCommandLine ''/Fo'' True []) (clAddResourceDir H)
       (\<lambda>f. VirtualInputsOf clIsVirtualInput (clAppendVirtualInput C (ExecRoot f)) f)"

section \<open>The highest version is chosen\<close>

definition version_key :: "version \<Rightarrow> version_key" where
  "version_key v = VersionKey (major v) (minor v) (micro v) (build v)"

lemma version_gt_key: "version_gt a b \<longleftrightarrow> version_key b < version_key a"
  by (auto simp: version_gt_def version_key_def)

definition dir_versions :: "(string \<times> bool) list \<Rightarrow> version list" where
  "dir_versions es = List.map_filter (\<lambda>(name, isDir). if isDir then newVersion name else None) es"

lemma max_version_fold:
  "max_version mx es = foldl (\<lambda>m v. if version_key m < version_key v then v else m) mx (dir_versions es)"
  by (induction mx es rule: max_version.induct)
    (auto simp: dir_versions_def List.map_filter_simps version_gt_key split: option.splits)

lemma foldl_first_max:
  fixes key :: "'a \<Rightarrow> 'k :: linorder"
  defines "pick \<equiv> foldl (\<lambda>m v. if key m < key v then v else m)"
  shows "(pick mx vs = mx \<and> (\<forall>u \<in> set vs. key u \<le> key mx)) \<or>
    (\<exists>xs ys. vs = xs @ pick mx vs # ys \<and> key mx < key (pick mx vs) \<and> (\<forall>u \<in> set xs. key u < key (pick mx vs)) \<and>
       (\<forall>u \<in> set ys. key u \<le> key (pick mx vs)))"
  unfolding pick_def
proof (induction vs arbitrary: mx)
  case (Cons v vs)
  let ?mx = "if key mx < key v then v else mx"
  let ?r = "foldl (\<lambda>m v. if key m < key v then v else m) ?mx vs"
  have r: "foldl (\<lambda>m v. if key m < key v then v else m) mx (v # vs) = ?r" by simp
  from Cons.IH [of ?mx] show ?case
  proof
    assume a: "?r = ?mx \<and> (\<forall>u \<in> set vs. key u \<le> key ?mx)"
    show ?thesis
    proof (cases "key mx < key v")
      case True
      then show ?thesis unfolding r using a by (intro disjI2 exI [of _ "[]"] exI [of _ vs]) auto
    next
      case False
      then show ?thesis unfolding r using a by auto
    qed
  next
    assume "\<exists>xs ys. vs = xs @ ?r # ys \<and> key ?mx < key ?r \<and> (\<forall>u \<in> set xs. key u < key ?r) \<and> (\<forall>u \<in> set ys. key u \<le> key ?r)"
    then obtain xs ys where x: "vs = xs @ ?r # ys" "key ?mx < key ?r" "\<forall>u \<in> set xs. key u < key ?r" "\<forall>u \<in> set ys. key u \<le> key ?r"
      by blast
    have "key v < key ?r" "key mx < key ?r" using x(2) by (auto split: if_splits)
    then show ?thesis unfolding r using x by (intro disjI2 exI [of _ "v # xs"] exI [of _ ys]) (auto simp del: foldl.simps)
  qed
qed simp

lemma dir_versions_text: "v \<in> set (dir_versions es) \<Longrightarrow> vtext v \<noteq> []"
proof -
  assume "v \<in> set (dir_versions es)"
  then obtain name where n: "newVersion name = Some v"
    by (auto simp: dir_versions_def List.map_filter_def split: if_splits)
  have "version_parts [] = None" by code_simp
  then show ?thesis using n by (auto simp: newVersion_def)
qed

text \<open>Among the entries of a directory the version chosen is the first of the highest ones;
  none is chosen exactly when no directory has a version above 0.0.0.0, so a directory named
  \<open>0\<close> or \<open>0.0\<close> is never found.\<close>

theorem getMaxVersionFromPath_first_max:
  "case getMaxVersionFromPath (Some es) of
     None \<Rightarrow> \<forall>u \<in> set (dir_versions es). version_key u \<le> VersionKey 0 0 0 0
   | Some txt \<Rightarrow> \<exists>xs v ys. dir_versions es = xs @ v # ys \<and> vtext v = txt \<and> VersionKey 0 0 0 0 < version_key v \<and>
       (\<forall>u \<in> set xs. version_key u < version_key v) \<and> (\<forall>u \<in> set ys. version_key u \<le> version_key v)"
proof -
  let ?m = "max_version zero_version es"
  have z: "version_key zero_version = VersionKey 0 0 0 0" "vtext zero_version = []"
    by (simp_all add: zero_version_def version_key_def)
  from foldl_first_max [of version_key zero_version "dir_versions es"]
  consider "?m = zero_version" "\<forall>u \<in> set (dir_versions es). version_key u \<le> VersionKey 0 0 0 0"
    | xs ys where "dir_versions es = xs @ ?m # ys" "VersionKey 0 0 0 0 < version_key ?m"
      "\<forall>u \<in> set xs. version_key u < version_key ?m" "\<forall>u \<in> set ys. version_key u \<le> version_key ?m"
    unfolding max_version_fold z(1) by blast
  then show ?thesis
  proof cases
    case 1
    then show ?thesis using z by (simp add: getMaxVersionFromPath_def version_isEmpty_def)
  next
    case (2 xs ys)
    then have "vtext ?m \<noteq> []" using dir_versions_text [of ?m es] by simp
    then show ?thesis using 2 by (auto simp: getMaxVersionFromPath_def version_isEmpty_def Let_def)
  qed
qed

theorem getMaxVersionFromPath_first_max_witness:
  "getMaxVersionFromPath (Some [(''10.0.9'', True), (''10.0.10'', True), (''x'', True), (''11'', False)]) = Some ''10.0.10'' \<and>
   list_all (\<lambda>u. version_key u \<le> VersionKey 10 0 10 0)
     (dir_versions [(''10.0.9'', True), (''10.0.10'', True), (''x'', True), (''11'', False)])"
proof -
  let ?es = "[(''10.0.9'', True), (''10.0.10'', True), (''x'', True), (''11'', False)]"
  have m: "getMaxVersionFromPath (Some ?es) = Some ''10.0.10''" by code_simp
  obtain xs v ys where v: "dir_versions ?es = xs @ v # ys" "vtext v = ''10.0.10''"
    "\<forall>u \<in> set xs. version_key u < version_key v" "\<forall>u \<in> set ys. version_key u \<le> version_key v"
    using getMaxVersionFromPath_first_max [of ?es] m by auto
  have "version_key u = VersionKey 10 0 10 0" if "u \<in> set (dir_versions ?es)" "vtext u = ''10.0.10''" for u
  proof -
    have "\<forall>u \<in> set (dir_versions ?es). vtext u = ''10.0.10'' \<longrightarrow> version_key u = VersionKey 10 0 10 0" by code_simp
    then show ?thesis using that by blast
  qed
  then have "version_key v = VersionKey 10 0 10 0" using v by simp
  then show ?thesis using m v by (auto simp: less_imp_le list_all_iff)
qed

section \<open>Virtual inputs and contract\<close>

text \<open>The directories a flag adds: for the system root the SDK and the toolchain found below it,
  where the lookup gave something else than the root itself.\<close>

definition cl_added :: "cl_host \<Rightarrow> string \<Rightarrow> string \<Rightarrow> string \<Rightarrow> VirtualInput list" where
  "cl_added C er fl p =
     (if fl = ''-winsysroot'' then
        map (\<lambda>d. \<lparr>Path = d, IsEmptyDirectory = True\<rparr>)
          (filter (\<lambda>d. d \<noteq> p)
             [sdkCache C p (sysroot_dir er p (winSDKDir C (Join [er, p]))),
              vcCache C p (sysroot_dir er p (vcToolchainDir C (Join [er, p])))])
      else [\<lparr>Path = p, IsEmptyDirectory = True\<rparr>])"

interpretation cl_virtual: virtual_inputs_processor clIsVirtualInput "clAppendVirtualInput C er" "cl_added C er" for C er
  by unfold_locales (auto simp: clAppendVirtualInput_def cl_added_def cppAppendVirtualInput_def Let_def)

interpretation cl: scanning_preprocessor "cpp_preprocessor fenv tenv parse (clComputeSpec H C)"
  for fenv tenv and parse :: "Options \<Rightarrow> ('e, CommandFlags) res" and H C
  by (rule cpp_contract) (simp add: clComputeSpec_def compute_spec_error)

text \<open>The virtual inputs of a clang-cl action: the include directories, and for \<open>-winsysroot\<close> only
  the newest SDK and toolchain below it, never the root itself.\<close>

theorem clVirtualInputs_direct:
  assumes "\<not> IsAbs (WorkingDirectory f)" and "IsAbs (ExecRoot f)"
  shows "VirtualInputsOf clIsVirtualInput (clAppendVirtualInput C (ExecRoot f)) f =
    concat (map (\<lambda>fl. cl_added C (ExecRoot f) (Key fl) (virtual_path f (Value fl))) (virtual_flags clIsVirtualInput f))"
  by (rule cl_virtual.VirtualInputsOf_eq [OF assms])

theorem clVirtualInputs_direct_witness:
  "VirtualInputsOf clIsVirtualInput (clAppendVirtualInput
       \<lparr>clExists = (\<lambda>p. p = ''/r/win/VC/Tools/MSVC''), clReadDir = (\<lambda>p. Some [(''14.3'', True)]), sdkCache = (\<lambda>k v. v), vcCache = (\<lambda>k v. v)\<rparr> ''/r'')
     (zero_flags\<lparr>ExecRoot := ''/r'', WorkingDirectory := ''out'', Flags := [NewFlag ''-winsysroot'' [] ''../win'' False]\<rparr>) =
   [\<lparr>Path = ''win/VC/Tools/MSVC/14.3'', IsEmptyDirectory = True\<rparr>]"
proof -
  let ?C = "\<lparr>clExists = (\<lambda>p. p = ''/r/win/VC/Tools/MSVC''), clReadDir = (\<lambda>p. Some [(''14.3'', True)]),
    sdkCache = (\<lambda>k v. v), vcCache = (\<lambda>k v. v)\<rparr> :: cl_host"
  let ?f = "zero_flags\<lparr>ExecRoot := ''/r'', WorkingDirectory := ''out'', Flags := [NewFlag ''-winsysroot'' [] ''../win'' False]\<rparr>"
  have "virtual_path ?f ''../win'' = ''win''" by code_simp
  moreover have "cl_added ?C ''/r'' ''-winsysroot'' ''win'' = [\<lparr>Path = ''win/VC/Tools/MSVC/14.3'', IsEmptyDirectory = True\<rparr>]" by code_simp
  moreover have "\<not> IsAbs (WorkingDirectory ?f)" "IsAbs (ExecRoot ?f)" by (simp_all add: IsAbs_def)
  ultimately show ?thesis
    using clVirtualInputs_direct [of ?f ?C]
    by (simp add: virtual_flags_def NewFlag_def clIsVirtualInput_def clVirtualInputFlags_def)
qed

text \<open>The inputs of clang-cl specs, as for the other compile actions.\<close>

theorem cl_spec_inputs:
  assumes "Compute (cpp_preprocessor fenv tenv parse (clComputeSpec H C)) options (cpp_fresh dc slots dirs) = Ok s"
    and "IsAbs (OptExecRoot options)" and "nfc_ok fenv (OptExecRoot options)" and "tc_cache_ok tenv"
    and "\<And>f. parse options = Ok f \<Longrightarrow> ExecRoot f = OptExecRoot options"
  shows "distinct (Inputs (ASInputSpec s)) \<and>
    (\<forall>i \<in> set (Inputs (ASInputSpec s)). below_or_given options i \<and> statDir fenv (Join [OptExecRoot options, i]) \<noteq> None) \<and>
    (\<not> UsedShallowMode s \<longrightarrow>
      (\<exists>f b1 b2 st2 hs. parse options = Ok f \<and> BaseParseFlags parse (BaseInit options fresh_state) = Some (b1, None) \<and>
        BaseProcessToolchains tenv b1 = (b2, None) \<and>
        (case scan_command H (BuildCommandLine ''/Fo'' True []) (clAddResourceDir H) f dirs of (dirs', args) \<Rightarrow>
           FindDependencies H f args ((cpp_fresh dc slots dirs')\<lparr>cppBase := b2\<rparr>) = (st2, Ok hs)) \<and>
        (\<forall>h \<in> set hs. snd (normalized_input fenv (OptExecRoot options) h) \<longrightarrow>
           fst (normalized_input fenv (OptExecRoot options) h) \<in> set (Inputs (ASInputSpec s)))))"
  using cpp_confined [OF assms(1) [unfolded clComputeSpec_def] assms(2-5)]
    cpp_complete [OF cl.scanning_preprocessor_axioms [unfolded clComputeSpec_def] assms(1) [unfolded clComputeSpec_def]]
  by (simp add: cpp_fresh_def)

end
