(* ===== verification/CppInvariant.thy ===== *)
theory CppInvariant
  imports ClangCl
begin

text \<open>
  The well-formedness of the state shared by the compile preprocessors, as a type invariant: it
  holds of a fresh state and every operation keeps it, in whatever order stages, failures and the
  goroutines that save dependencies come. The operations are the steps of \<open>cpp_step\<close>.
\<close>

section \<open>Well-formed states\<close>

text \<open>The file cache files each entry under its own path, and dependencies are absolute.\<close>

definition files_wf :: "files_map \<Rightarrow> bool" where
  "files_wf files \<longleftrightarrow> (\<forall>p e. files p = Some e \<longrightarrow> fiAbsPath (entryInfo e) = p)"

definition cache_wf :: "Cache \<Rightarrow> bool" where
  "cache_wf c \<longleftrightarrow>
     files_wf (filesCache c) \<and>
     (\<forall>k fis. depsCache c k = Some fis \<longrightarrow> (\<forall>fi \<in> set fis. IsAbs (fiAbsPath fi)))"

definition job_wf :: "string \<times> Key \<times> string list \<Rightarrow> bool" where
  "job_wf job = (case job of (er, k, hs) \<Rightarrow> IsAbs er \<and> (\<forall>h \<in> set hs. confined h))"

definition cpp_wf :: "cpp_state \<Rightarrow> bool" where
  "cpp_wf st \<longleftrightarrow>
     inputs_ok (cppBase st) \<and>
     (\<forall>f. BpFlags (cppBase st) = Some f \<longrightarrow> IsAbs (ExecRoot f) \<and> IsAbs (OptExecRoot (BpOptions (cppBase st)))) \<and>
     (\<forall>c. cppDeps st = Some c \<longrightarrow> cache_wf c) \<and>
     (\<forall>exe \<in> dom (resourceDirs st). IsAbs exe) \<and>
     (\<forall>j \<in> set (cppPending st). job_wf j)"

section \<open>Operations\<close>

inductive cpp_step ::
  "fs_env \<Rightarrow> tc_env \<Rightarrow> (Options \<Rightarrow> ('e, CommandFlags) res) \<Rightarrow> cpp_host \<Rightarrow> cl_host \<Rightarrow> cpp_state \<Rightarrow> cpp_state \<Rightarrow> bool"
  for fenv tenv parse H C where
  Init: "IsAbs (OptExecRoot options) \<Longrightarrow>
    cpp_step fenv tenv parse H C st (st\<lparr>cppBase := BaseInit options (cppBase st)\<rparr>)"
| Parse: "IsAbs (OptExecRoot (BpOptions (cppBase st))) \<Longrightarrow> on_base (BaseParseFlags parse) st = Some (st', e) \<Longrightarrow>
    cpp_step fenv tenv parse H C st st'"
| Toolchains: "BpFlags (cppBase st) \<noteq> None \<Longrightarrow> on_base (\<lambda>c. Some (BaseProcessToolchains tenv c)) st = Some (st', e) \<Longrightarrow>
    cpp_step fenv tenv parse H C st st'"
| ComputeCpp: "cppComputeSpec H st = Some (st', e) \<Longrightarrow> cpp_step fenv tenv parse H C st st'"
| ComputeAbi: "abiComputeSpec H st = Some (st', e) \<Longrightarrow> cpp_step fenv tenv parse H C st st'"
| ComputeLint: "lintComputeSpec H st = Some (st', e) \<Longrightarrow> cpp_step fenv tenv parse H C st st'"
| ComputeNacl: "naclComputeSpec H st = Some (st', e) \<Longrightarrow> cpp_step fenv tenv parse H C st st'"
| ComputeCl: "clComputeSpec H C st = Some (st', e) \<Longrightarrow> cpp_step fenv tenv parse H C st st'"
| Sanitize: "nfc_ok fenv (OptExecRoot (BpOptions (cppBase st))) \<Longrightarrow> BaseSanitize fenv (cppBase st) = Some b \<Longrightarrow>
    cpp_step fenv tenv parse H C st (st\<lparr>cppBase := b\<rparr>)"
| Save: "cppPending st = xs @ job # ys \<Longrightarrow> cpp_step fenv tenv parse H C st (saveDeps H job (st\<lparr>cppPending := xs @ ys\<rparr>))"

section \<open>The dependency cache\<close>

lemma load_wf:
  assumes "load h files p = (files', r)" and "files_wf files"
  shows "files_wf files' \<and> (\<forall>fi. r = Some fi \<longrightarrow> fiAbsPath fi = p)"
  using assms by (auto simp: files_wf_def load_def reload_def Let_def split: option.splits if_splits)

lemma verify_deps_wf:
  assumes "files_wf files"
  shows "files_wf (fst (verify_deps h files ds))"
  using assms
proof (induction ds arbitrary: files)
  case (Cons d ds)
  obtain files' r where l: "load h files (fiAbsPath d) = (files', r)" by fastforce
  note w = load_wf [OF l Cons.prems, THEN conjunct1]
  obtain v q where v: "verify_deps h files' ds = (v, q)" by fastforce
  have "files_wf v" using Cons.IH [OF w] v by simp
  then show ?case using l w v by (cases r; cases q) simp_all
qed simp

lemma load_deps_wf:
  assumes "load_deps h files ds = (files', r)" and "files_wf files"
  shows "files_wf files' \<and>
    (\<forall>fis. r = Inr (Some fis) \<longrightarrow> (\<forall>fi \<in> set fis. IsAbs (fiAbsPath fi)))"
  using assms
proof (induction ds arbitrary: files files' r)
  case (Cons d ds)
  obtain g q where l: "load h files d = (g, q)" by fastforce
  obtain g' q' where ls: "load_deps h g ds = (g', q')" by fastforce
  note w = load_wf [OF l Cons.prems(2)]
  have "files_wf g' \<and> (\<forall>fis. q' = Inr (Some fis) \<longrightarrow> (\<forall>fi \<in> set fis. IsAbs (fiAbsPath fi)))"
    using Cons.IH [OF ls] w by blast
  then show ?case
    using Cons.prems l ls w by (auto split: if_splits option.splits sum.splits)
qed auto

lemma GetDeps_wf:
  assumes "GetDeps h t (Some c) k = (c', r)" and "cache_wf c"
  shows "\<exists>d. c' = Some d \<and> cache_wf d"
proof -
  obtain g q where l: "load h (filesCache c) (SrcFilePath k) = (g, q)" by fastforce
  have w: "files_wf g"
    using load_wf [OF l] assms(2) by (simp add: cache_wf_def)
  show ?thesis
    using assms l w verify_deps_wf [OF w, of h]
    by (auto simp: GetDeps_def get_ready_def cache_wf_def Let_def split: if_splits option.splits prod.splits) (metis fst_conv)+
qed

lemma SetDeps_wf:
  assumes "SetDeps h t (Some c) k deps = (c', r)" and "cache_wf c"
  shows "\<exists>d. c' = Some d \<and> cache_wf d"
proof (cases "ready c")
  case True
  obtain g q where l: "load_deps h (filesCache c) deps = (g, q)" by fastforce
  have w: "files_wf g" "\<And>fis. q = Inr (Some fis) \<Longrightarrow> \<forall>fi \<in> set fis. IsAbs (fiAbsPath fi)"
    using load_deps_wf [OF l] assms(2) by (auto simp: cache_wf_def)
  obtain g' s where l': "load h g (SrcFilePath k) = (g', s)" by fastforce
  have w': "files_wf g'" using load_wf [OF l' w(1)] by blast
  show ?thesis
    using assms l l' w w' True
    by (auto simp: SetDeps_def IsReady_def set_ready_def cache_wf_def Let_def split: sum.splits option.splits)
qed (use assms in \<open>auto simp: SetDeps_def IsReady_def\<close>)

section \<open>The stages\<close>

lemma cpp_wf_base:
  assumes "cpp_wf st" and "inputs_ok b"
    and "\<And>f. BpFlags b = Some f \<Longrightarrow> IsAbs (ExecRoot f) \<and> IsAbs (OptExecRoot (BpOptions b))"
  shows "cpp_wf (st\<lparr>cppBase := b\<rparr>)"
  using assms by (simp add: cpp_wf_def)

lemma ResourceDir_abs:
  assumes "ResourceDir H args fl mp dirs = (dirs', rd)" and "\<forall>exe \<in> dom dirs. IsAbs exe"
  shows "\<forall>exe \<in> dom dirs'. IsAbs exe"
  using assms
  by (auto simp: ResourceDir_def ask_compiler_def split: list.splits if_splits option.splits)

lemma FindDependencies_wf:
  assumes "FindDependencies H f args st = (st', r)" and "cpp_wf st" and "IsAbs (ExecRoot f)"
  shows "cpp_wf st'"
proof (cases "TargetFilePaths f")
  case Nil
  then show ?thesis using assms by (simp add: FindDependencies_def)
next
  case (Cons t ts)
  obtain st1 q where g: "getFromDepsCache H (deps_key H f args t) st = (st1, q)" by fastforce
  have w1: "cpp_wf st1"
  proof (cases "cppDeps st")
    case None
    then show ?thesis using g assms(2) by (auto simp: getFromDepsCache_def GetDeps_def cpp_wf_def)
  next
    case (Some c)
    obtain c' s where gd: "GetDeps (depsHost H) (clock H) (Some c) (deps_key H f args t) = (c', s)" by fastforce
    have "\<exists>d. c' = Some d \<and> cache_wf d" using GetDeps_wf [OF gd] assms(2) Some by (simp add: cpp_wf_def)
    then show ?thesis using g gd Some assms(2) by (auto simp: getFromDepsCache_def cpp_wf_def split: option.splits)
  qed
  have "cpp_wf st2" if "scan_deps H f args t st1 = (st2, s)" for st2 s
    using that w1 ListRelToExecRoot_confined [OF assms(3)] assms(3)
    by (auto simp: scan_deps_def Let_def cpp_wf_def job_wf_def split: prod.splits option.splits scan_error.splits)
  then show ?thesis using assms(1) Cons g w1 by (auto simp: FindDependencies_def split: option.splits if_splits)
qed

lemma compute_spec_wf:
  assumes "compute_spec H b d v st = Some (st', e)" and "cpp_wf st"
    and "\<And>args dirs dirs' args'. d args dirs = (dirs', args') \<Longrightarrow> \<forall>exe \<in> dom dirs. IsAbs exe \<Longrightarrow> \<forall>exe \<in> dom dirs'. IsAbs exe"
  shows "cpp_wf st'"
proof -
  obtain f where f: "BpFlags (cppBase st) = Some f" using assms(1) by (auto simp: compute_spec_def split: option.splits)
  have a: "IsAbs (ExecRoot f)" using assms(2) f by (simp add: cpp_wf_def)
  obtain dirs args where da: "(if expectsResourceDir H then d (b f) (resourceDirs st) else (resourceDirs st, b f)) = (dirs, args)"
    by fastforce
  have "\<forall>exe \<in> dom dirs. IsAbs exe" using da assms(3) [of "b f" "resourceDirs st"] assms(2) by (auto simp: cpp_wf_def split: if_splits)
  then have w0: "cpp_wf (st\<lparr>resourceDirs := dirs\<rparr>)" using assms(2) by (simp add: cpp_wf_def)
  obtain st1 r where fd: "FindDependencies H f args (st\<lparr>resourceDirs := dirs\<rparr>) = (st1, r)" by fastforce
  have w1: "cpp_wf st1" by (rule FindDependencies_wf [OF fd w0 a])
  have base: "inputs_ok (cppBase st') \<and> BpOptions (cppBase st') = BpOptions (cppBase st)"
    using compute_spec_inputs_ok [OF assms(1)] assms(2) by (simp add: cpp_wf_def)
  obtain sp where st': "st' = st1\<lparr>cppBase := AppendSpec sp (cppBase st1)\<rparr>"
    using assms(1) f da fd by (cases r) (auto simp: compute_spec_def Let_def)
  have "BpFlags (cppBase st') = BpFlags (cppBase st1) \<and> BpOptions (cppBase st') = BpOptions (cppBase st1)"
    unfolding st' by (simp add: AppendSpec_def Let_def)
  then show ?thesis using w1 base st' by (simp add: cpp_wf_def)
qed

lemma set_flags_wf: "cpp_wf st \<Longrightarrow> (\<And>g. fo = Some g \<Longrightarrow> \<exists>f. BpFlags (cppBase st) = Some f \<and> ExecRoot g = ExecRoot f) \<Longrightarrow> cpp_wf (set_flags fo st)"
  by (fastforce simp: cpp_wf_def set_flags_def inputs_ok_def inputs_within_def)

lemma cpp_wf_err: "cpp_wf st \<Longrightarrow> cpp_wf (st\<lparr>cppBase := (cppBase st)\<lparr>BpErr := e\<rparr>\<rparr>)"
  by (simp add: cpp_wf_def inputs_ok_def inputs_within_def)

lemma add_resource_dir_abs:
  assumes "add_resource_dir given look args dirs = (dirs', args')" and "\<forall>exe \<in> dom dirs. IsAbs exe"
    and "\<And>ds rd. look dirs = (ds, rd) \<Longrightarrow> \<forall>exe \<in> dom ds. IsAbs exe"
  shows "\<forall>exe \<in> dom dirs'. IsAbs exe"
  using assms by (auto simp: add_resource_dir_def split: if_splits prod.splits)

lemma cppComputeSpec_wf: "cppComputeSpec H st = Some (st', e) \<Longrightarrow> cpp_wf st \<Longrightarrow> cpp_wf st'"
  unfolding cppComputeSpec_def
  by (erule compute_spec_wf, assumption)
    (unfold cppAddResourceDir_def, erule add_resource_dir_abs, assumption, erule ResourceDir_abs, assumption)

lemma clComputeSpec_wf: "clComputeSpec H C st = Some (st', e) \<Longrightarrow> cpp_wf st \<Longrightarrow> cpp_wf st'"
  unfolding clComputeSpec_def
  by (erule compute_spec_wf, assumption)
    (unfold clAddResourceDir_def clResourceDir_def, erule add_resource_dir_abs, assumption, erule ResourceDir_abs, assumption)

lemma rewritten_flags_root:
  "ExecRoot (headerABIToCppFlags f) = ExecRoot f" "clangTidyToCPPFlags rd f = Ok g \<Longrightarrow> ExecRoot g = ExecRoot f"
  "naclFlags f = Ok g' \<Longrightarrow> ExecRoot g' = ExecRoot f"
  by (auto simp: headerABIToCppFlags_def clangTidyToCPPFlags_def naclFlags_def Copy_fields Let_def res_bind_eq_Ok
      split: list.splits if_splits)

lemma saveDeps_wf:
  assumes "cpp_wf st"
  shows "cpp_wf (saveDeps H job st)"
proof (cases "cppDeps st")
  case None
  then show ?thesis using assms by (simp add: saveDeps_def SetDeps_def cpp_wf_def split: prod.splits)
next
  case (Some c)
  obtain er k hs where j: "job = (er, k, hs)" by (cases job)
  obtain c' r where sd: "SetDeps (depsHost H) (clock H) (Some c) k (abs_inputs er hs) = (c', r)" by fastforce
  have "\<exists>d. c' = Some d \<and> cache_wf d" using SetDeps_wf [OF sd] assms Some by (simp add: cpp_wf_def)
  then show ?thesis using sd j Some assms by (auto simp: saveDeps_def cpp_wf_def)
qed

lemma BaseSanitize_wf:
  assumes "BaseSanitize fenv c = Some c'" and "nfc_ok fenv (OptExecRoot (BpOptions c))" and "inputs_ok c"
  shows "inputs_ok c'"
  unfolding inputs_ok_def inputs_within_def
proof (intro allI impI ballI)
  fix a i
  assume a: "actionSpec c' = Some a" and i: "i \<in> set (Inputs (ASInputSpec a))"
  obtain a0 where a0: "actionSpec c = Some a0"
    "Inputs (ASInputSpec a) = filter_inputs fenv (OptExecRoot (BpOptions c)) [] (Inputs (ASInputSpec a0))"
    using BaseSanitize_fields [OF assms(1)] a by (auto split: option.splits)
  obtain g where g: "g \<in> set (Inputs (ASInputSpec a0))" "g \<noteq> []" "normalize fenv (OptExecRoot (BpOptions c)) g = (i, True)"
    using filter_inputs_elems [OF assms(2)] i a0(2) by metis
  have "ok_input (set (given_inputs (BpOptions c))) g" using assms(3) a0(1) g(1) by (simp add: inputs_ok_def inputs_within_def)
  then show "ok_input (set (given_inputs (BpOptions c'))) i"
    using normalized_ok [OF g(3)] g(2) BaseSanitize_fields [OF assms(1)] by (auto simp: ok_input_def)
qed

section \<open>The invariant\<close>

lemma cpp_step_wf:
  assumes "cpp_step fenv tenv parse H C st st'" and "cpp_wf st"
    and "\<And>options f. parse options = Ok f \<Longrightarrow> ExecRoot f = OptExecRoot options" and "tc_cache_ok tenv"
  shows "cpp_wf st'"
  using assms(1)
proof cases
  case (Init options)
  then show ?thesis
    using assms(2) BaseInit_inputs_ok by (auto simp: cpp_wf_def BaseInit_def Let_def)
next
  case (Parse e)
  obtain b where b: "BaseParseFlags parse (cppBase st) = Some (b, e)" "st' = st\<lparr>cppBase := b\<rparr>" using Parse(2) by auto
  have i: "inputs_ok b \<and> BpOptions b = BpOptions (cppBase st)"
    using BaseParseFlags_inputs_ok [OF b(1)] Parse(1) assms(2) by (simp add: cpp_wf_def)
  have "IsAbs (ExecRoot f)" if "BpFlags b = Some f" for f
    using b(1) that assms(2,3) Parse(1)
    by (auto simp: BaseParseFlags_def FlagsToActionSpec_def AppendSpec_def Let_def cpp_wf_def split: res.splits)
  then show ?thesis unfolding b(2) using i Parse(1) by (intro cpp_wf_base [OF assms(2)]) simp_all
next
  case (Toolchains e)
  obtain b where b: "BaseProcessToolchains tenv (cppBase st) = (b, e)" "st' = st\<lparr>cppBase := b\<rparr>" using Toolchains(2) by auto
  have "inputs_ok b \<and> BpOptions b = BpOptions (cppBase st)"
    using BaseProcessToolchains_inputs_ok [OF b(1)] Toolchains(1) assms(2,4) by (auto simp: cpp_wf_def)
  moreover have "BpFlags b = BpFlags (cppBase st)" using BaseProcessToolchains_flags [of tenv "cppBase st"] b(1) by simp
  ultimately show ?thesis using b(2) assms(2) by (simp add: cpp_wf_def)
next
  case (ComputeCpp e)
  then show ?thesis using cppComputeSpec_wf assms(2) by blast
next
  case (ComputeAbi e)
  then obtain f where f: "BpFlags (cppBase st) = Some f" by (auto simp: abiComputeSpec_def split: option.splits)
  have "cpp_wf (set_flags (Some (headerABIToCppFlags f)) st)"
    using set_flags_wf [OF assms(2)] f rewritten_flags_root(1) by auto
  then show ?thesis using ComputeAbi f cppComputeSpec_wf by (auto simp: abiComputeSpec_def)
next
  case (ComputeLint e)
  then obtain f where f: "BpFlags (cppBase st) = Some f" by (auto simp: lintComputeSpec_def split: option.splits)
  show ?thesis
  proof (cases "clangTidyToCPPFlags (tidyResourceDir H) f")
    case (Ok g)
    have "cpp_wf (set_flags (Some g) st)"
      using set_flags_wf [OF assms(2), of "Some g"] f rewritten_flags_root(2) [OF Ok] by auto
    then show ?thesis using ComputeLint f Ok cppComputeSpec_wf by (auto simp: lintComputeSpec_def)
  next
    case (Err x)
    have "cpp_wf (set_flags None st)" using assms(2) by (rule set_flags_wf) simp
    then show ?thesis using ComputeLint f Err by (auto simp: lintComputeSpec_def dest: cpp_wf_err)
  qed (use ComputeLint f in \<open>simp add: lintComputeSpec_def\<close>)
next
  case (ComputeNacl e)
  then obtain f where f: "BpFlags (cppBase st) = Some f" by (auto simp: naclComputeSpec_def split: option.splits)
  have "cpp_wf (set_flags (Some g) st)" if "naclFlags f = Ok g" for g
    using set_flags_wf [OF assms(2)] f rewritten_flags_root(3) [OF that] by auto
  then show ?thesis
    using ComputeNacl f cppComputeSpec_wf assms(2) by (auto simp: naclComputeSpec_def split: res.splits)
next
  case (ComputeCl e)
  then show ?thesis using clComputeSpec_wf assms(2) by blast
next
  case (Sanitize b)
  have "BpFlags b = BpFlags (cppBase st) \<and> BpOptions b = BpOptions (cppBase st)"
    using BaseSanitize_fields [OF Sanitize(3)] by blast
  then show ?thesis
    using Sanitize BaseSanitize_wf [OF Sanitize(3,2)] assms(2) by (simp add: cpp_wf_def)
next
  case (Save xs job ys)
  have "cpp_wf (st\<lparr>cppPending := xs @ ys\<rparr>)" using Save(2) assms(2) by (auto simp: cpp_wf_def)
  then show ?thesis using Save(1) saveDeps_wf by simp
qed



end
