(* ===== verification/ArReader.thy ===== *)
theory ArReader
  imports ActionParsers Numbers
begin

text \<open>
  The archive reader of link actions (\<open>inputprocessor/action/clanglink/ar_reader.go\<close>): signatures,
  headers, the name tables of GNU and BSD archives and thin archives. A file is its bytes and a
  position; seeking may move the position past the end or back. The loop over the headers need
  not end, so it is a partial function: shown are that it returns when no header has a negative
  size, that it reads back the names of archives with members of even size and rejects one that
  ends with a member of odd size, and a header that makes it run forever.
\<close>

section \<open>Data\<close>

datatype ar_error = OpenFailed | SignatureTruncated | FormatNotRecognized | UnexpectedEOF | BadNumber | MalformedArchive

record arReader =
  thinFilePrefix :: string
  thin :: bool
  arBytes :: string

record names_state =
  arPos :: nat
  gnuFilenames :: string
  thinFiles :: "string list"
  nextThin :: nat
  arFiles :: "string list"

definition arFileSignature :: string where
  "arFileSignature = ''!<arch>'' @ [CHR 0x0A]"

definition thinFileSignature :: string where
  "thinFileSignature = ''!<thin>'' @ [CHR 0x0A]"

definition headerSize :: int where
  "headerSize = 60"

section \<open>Reading\<close>

definition newArReader :: "string option \<Rightarrow> string \<Rightarrow> (ar_error, arReader) res" where
  "newArReader content pre =
     (case content of
        None \<Rightarrow> Err OpenFailed
      | Some bs \<Rightarrow>
          if length bs < 8 then Err SignatureTruncated
          else if take 8 bs \<noteq> arFileSignature \<and> take 8 bs \<noteq> thinFileSignature then Err FormatNotRecognized
          else Ok \<lparr>thinFilePrefix = pre, thin = (take 8 bs = thinFileSignature), arBytes = bs\<rparr>)"

text \<open>\<open>readFullBytes\<close>: a negative length panics in \<open>make\<close>; otherwise the bytes and the new
  position, or an error, where \<open>True\<close> is a clean end of file.\<close>

definition readFullBytes :: "string \<Rightarrow> nat \<Rightarrow> int \<Rightarrow> (bool, string \<times> nat) res" where
  "readFullBytes bs pos n =
     (if n < 0 then Panic
      else if n = 0 then Ok ([], pos)
      else if drop pos bs = [] then Err True
      else if length (drop pos bs) < nat n then Err False
      else Ok (take (nat n) (drop pos bs), pos + nat n))"

definition skipBytes :: "nat \<Rightarrow> int \<Rightarrow> nat option" where
  "skipBytes pos n = (if int pos + n < 0 then None else Some (nat (int pos + n)))"

datatype header = EndOfFile | BadHeader ar_error | Header string int nat

definition readHeader :: "string \<Rightarrow> nat \<Rightarrow> header" where
  "readHeader bs pos =
     (case readFullBytes bs pos headerSize of
        Panic \<Rightarrow> BadHeader UnexpectedEOF
      | Err eof \<Rightarrow> if eof then EndOfFile else BadHeader UnexpectedEOF
      | Ok (buf, pos') \<Rightarrow>
          (case ParseInt 10 64 (trim_space (take 10 (drop 48 buf))) of
             None \<Rightarrow> BadHeader BadNumber
           | Some fs \<Rightarrow> Header (trim_space (take 16 buf)) fs pos'))"

text \<open>The name in a GNU table from an offset up to the next slash.\<close>

definition gnu_name :: "string \<Rightarrow> int \<Rightarrow> string option" where
  "gnu_name g off =
     (if off < 0 \<or> CHR ''/'' \<notin> set (drop (nat off) g) then None
      else Some (takeWhile (\<lambda>c. c \<noteq> CHR ''/'') (drop (nat off) g)))"

type_synonym ar_outcome = "(ar_error, string list) res + names_state"

definition skip_to :: "names_state \<Rightarrow> nat \<Rightarrow> int \<Rightarrow> ar_outcome" where
  "skip_to st pos n =
     (case skipBytes pos n of None \<Rightarrow> Inl (Err MalformedArchive) | Some pos' \<Rightarrow> Inr (st\<lparr>arPos := pos'\<rparr>))"

definition add_file :: "string \<Rightarrow> names_state \<Rightarrow> names_state" where
  "add_file n st = st\<lparr>arFiles := arFiles st @ [n]\<rparr>"

definition gnu_table :: "arReader \<Rightarrow> names_state \<Rightarrow> int \<Rightarrow> nat \<Rightarrow> ar_outcome" where
  "gnu_table ar st fs pos =
     (case readFullBytes (arBytes ar) pos fs of
        Panic \<Rightarrow> Inl Panic
      | Err _ \<Rightarrow> Inl (Err MalformedArchive)
      | Ok (d, pos') \<Rightarrow>
          Inr (st\<lparr>arPos := pos', gnuFilenames := d, thinFiles := split_on (CHR 0x0A) d, nextThin := 0\<rparr>))"

definition table_entry :: "arReader \<Rightarrow> names_state \<Rightarrow> string \<Rightarrow> int \<Rightarrow> nat \<Rightarrow> ar_outcome" where
  "table_entry ar st name fs pos =
     (if thin ar then
        (if nextThin st < length (thinFiles st)
         then Inr ((add_file (Join [thinFilePrefix ar, thinFiles st ! nextThin st]) st)
                     \<lparr>arPos := pos, nextThin := nextThin st + 1\<rparr>)
         else Inl Panic)
      else
        (case ParseInt 10 64 (dropWhile (\<lambda>c. c = CHR ''/'') name) of
           None \<Rightarrow> Inl (Err BadNumber)
         | Some off \<Rightarrow>
             (case gnu_name (gnuFilenames st) off of
                None \<Rightarrow> Inl Panic
              | Some fn \<Rightarrow> skip_to (add_file fn st) pos fs)))"

definition bsd_entry :: "arReader \<Rightarrow> names_state \<Rightarrow> string \<Rightarrow> int \<Rightarrow> nat \<Rightarrow> ar_outcome" where
  "bsd_entry ar st name fs pos =
     (case readFullBytes (arBytes ar) pos fs of
        Panic \<Rightarrow> Inl Panic
      | Err _ \<Rightarrow> Inl (Err MalformedArchive)
      | Ok (d, pos') \<Rightarrow>
          (case ParseInt 10 64 (dropWhile (\<lambda>c. c \<in> set ''#1/'') name) of
             None \<Rightarrow> Inl (Err BadNumber)
           | Some sz \<Rightarrow>
               if sz < 0 \<or> int (length d) < sz then Inl Panic
               else Inr ((add_file (take (nat sz) d) st)\<lparr>arPos := pos'\<rparr>)))"

definition names_step :: "arReader \<Rightarrow> names_state \<Rightarrow> ar_outcome" where
  "names_step ar st =
     (case readHeader (arBytes ar) (arPos st) of
        EndOfFile \<Rightarrow> Inl (Ok (arFiles st))
      | BadHeader e \<Rightarrow> Inl (Err e)
      | Header name fs pos \<Rightarrow>
          if name = ''//'' then gnu_table ar st fs pos
          else if name = ''/'' then skip_to st pos fs
          else if prefix ''/'' name then table_entry ar st name fs pos
          else if prefix ''#1/'' name then bsd_entry ar st name fs pos
          else skip_to (add_file name st) pos fs)"

partial_function (option) names_run :: "arReader \<Rightarrow> names_state \<Rightarrow> (ar_error, string list) res option" where
  "names_run ar st = (case names_step ar st of Inl r \<Rightarrow> Some r | Inr st' \<Rightarrow> names_run ar st')"

definition names_start :: names_state where
  "names_start = \<lparr>arPos = 8, gnuFilenames = [], thinFiles = [], nextThin = 0, arFiles = []\<rparr>"

definition ReadFileNames :: "arReader \<Rightarrow> (ar_error, string list) res option" where
  "ReadFileNames ar = names_run ar names_start"

text \<open>\<open>readArchive\<close> of the link flags parser; \<open>readFile\<close> is the content of the archive.\<close>

definition readArchive :: "(string \<Rightarrow> string option) \<Rightarrow> string \<Rightarrow> string \<Rightarrow> (ar_error, string list) res option" where
  "readArchive readFile arPath archive =
     (case newArReader (readFile arPath) (Dir archive) of
        Ok ar \<Rightarrow> ReadFileNames ar
      | Err e \<Rightarrow> Some (Err e)
      | Panic \<Rightarrow> Some Panic)"

section \<open>The loop returns when no size is negative\<close>

lemma readHeader_pos: "readHeader bs pos = Header n fs pos' \<Longrightarrow> pos' = pos + 60 \<and> pos + 60 \<le> length bs"
  by (auto simp: readHeader_def readFullBytes_def headerSize_def split: if_splits option.splits)

definition sizes_ok :: "string \<Rightarrow> bool" where
  "sizes_ok bs \<longleftrightarrow> (\<forall>p n fs p'. readHeader bs p = Header n fs p' \<longrightarrow> 0 \<le> fs)"

lemma names_step_pos:
  assumes "names_step ar st = Inr st'" and "sizes_ok (arBytes ar)"
  shows "arPos st + 60 \<le> length (arBytes ar) \<and> arPos st < arPos st'"
proof -
  obtain n fs pos where h: "readHeader (arBytes ar) (arPos st) = Header n fs pos"
    using assms(1) by (cases "readHeader (arBytes ar) (arPos st)") (auto simp: names_step_def)
  have fs: "0 \<le> fs" using assms(2) h by (auto simp: sizes_ok_def)
  have sk: "skip_to s pos fs = Inr s' \<Longrightarrow> arPos s' = pos + nat fs" for s s'
    using fs by (auto simp: skip_to_def skipBytes_def nat_add_distrib)
  have rd: "readFullBytes (arBytes ar) pos fs = Ok (d, pos') \<Longrightarrow> pos \<le> pos'" for d pos'
    by (auto simp: readFullBytes_def split: if_splits)
  have "pos \<le> arPos st'"
    using assms(1) h sk rd
    by (auto simp: names_step_def gnu_table_def table_entry_def bsd_entry_def
        split: if_splits res.splits option.splits)
  then show ?thesis using readHeader_pos [OF h] by simp
qed

lemma names_run_returns:
  assumes "sizes_ok (arBytes ar)"
  shows "\<exists>r. names_run ar st = Some r"
proof (induction "length (arBytes ar) - arPos st" arbitrary: st rule: less_induct)
  case less
  show ?case
  proof (cases "names_step ar st")
    case (Inl r)
    then show ?thesis by (simp add: names_run.simps [of ar st])
  next
    case (Inr st')
    have "length (arBytes ar) - arPos st' < length (arBytes ar) - arPos st"
      using names_step_pos [OF Inr assms] by linarith
    then show ?thesis using less.hyps Inr by (simp add: names_run.simps [of ar st])
  qed
qed

text \<open>Reading the names ends with a result, an error or a panic for every archive in which no
  place reads as a header with a negative size.\<close>

theorem ReadFileNames_returns:
  assumes "sizes_ok (arBytes ar)"
  shows "\<exists>r. ReadFileNames ar = Some r"
  unfolding ReadFileNames_def using names_run_returns assms by blast

section \<open>Names of well-formed archives\<close>

text \<open>An entry as \<open>ar\<close> writes it: the name padded to sixteen bytes, times and owner, the size in ten
  bytes, the end mark, the data, and a newline if the size is odd.\<close>

definition pad :: "nat \<Rightarrow> string \<Rightarrow> string" where
  "pad n s = s @ replicate (n - length s) (CHR '' '')"

definition ar_header :: "string \<Rightarrow> nat \<Rightarrow> string" where
  "ar_header name sz = pad 16 name @ ''0           0     0     100644  '' @ pad 10 (show_base 10 sz) @ [CHR 0x60, CHR 0x0A]"

definition ar_entry :: "string \<times> string \<Rightarrow> string" where
  "ar_entry e = ar_header (fst e) (length (snd e)) @ snd e @ (if odd (length (snd e)) then [CHR 0x0A] else [])"

definition plain_name :: "string \<Rightarrow> bool" where
  "plain_name n \<longleftrightarrow> n \<noteq> [] \<and> length n \<le> 16 \<and> \<not> is_space (hd n) \<and> \<not> is_space (last n) \<and>
     \<not> prefix ''/'' n \<and> \<not> prefix ''#1/'' n"

lemma trim_space_pad:
  assumes "s \<noteq> []" and "\<not> is_space (hd s)" and "\<not> is_space (last s)"
  shows "trim_space (pad n s) = s"
proof -
  have "is_space (CHR '' '')" by code_simp
  then have "dropWhile is_space (replicate k (CHR '' '') @ rev s) = rev s" for k
    using assms by (induction k) (auto simp: hd_rev dropWhile_eq_self_iff)
  then have "rev (dropWhile is_space (rev (pad n s))) = s" by (simp add: pad_def)
  moreover have "dropWhile is_space (pad n s) = pad n s" using assms by (cases s) (auto simp: pad_def)
  ultimately show ?thesis by (simp add: trim_space_def)
qed

lemma show_base_length: "2 \<le> b \<Longrightarrow> n < b ^ Suc k \<Longrightarrow> length (show_base b n) \<le> Suc k"
proof (induction k arbitrary: n)
  case 0
  then show ?case by (simp add: show_base.simps [of b n])
next
  case (Suc k)
  have "n div b < b ^ Suc k" using Suc.prems by (simp add: less_mult_imp_div_less mult.commute)
  then show ?case using Suc by (simp add: show_base.simps [of b n])
qed

lemma digits_not_space:
  assumes "c \<in> set (show_base 10 n)"
  shows "\<not> is_space c"
proof -
  have "48 \<le> (of_char c :: nat)" using show_base_digits [of 10 c n] assms by simp
  then show ?thesis by (auto simp: is_space_def)
qed

lemma trim_digits: "trim_space (pad 10 (show_base 10 n)) = show_base 10 n"
  by (rule trim_space_pad) (auto intro!: digits_not_space [of _ n])

definition good_entry :: "string \<times> string \<Rightarrow> bool" where
  "good_entry e \<longleftrightarrow> plain_name (fst e) \<and> length (snd e) < 10 ^ 10"

lemma readHeader_entry:
  assumes "good_entry e"
  shows "readHeader (pre @ ar_entry e @ post) (length pre) = Header (fst e) (int (length (snd e))) (length pre + 60)"
proof -
  let ?n = "length (snd e)"
  have l: "length (show_base 10 ?n) \<le> 10" using show_base_length [of 10 ?n 9] assms by (simp add: good_entry_def)
  have nm: "length (fst e) \<le> 16" using assms by (simp add: good_entry_def plain_name_def)
  have len: "length (ar_header (fst e) ?n) = 60" using l nm by (simp add: ar_header_def pad_def)
  have p: "ParseInt 10 64 (show_base 10 ?n) = Some (int ?n)"
    using ParseInt_show_base [of 10 ?n 64] assms by (simp add: good_entry_def)
  have "trim_space (pad 16 (fst e)) = fst e"
    using trim_space_pad [of "fst e" 16] assms by (simp add: good_entry_def plain_name_def)
  moreover have "take 16 (ar_header (fst e) ?n) = pad 16 (fst e)" using nm by (simp add: ar_header_def pad_def)
  moreover have "take 10 (drop 48 (ar_header (fst e) ?n)) = pad 10 (show_base 10 ?n)"
    using nm l by (simp add: ar_header_def pad_def)
  moreover have "ar_header (fst e) ?n \<noteq> []" using len by (metis list.size(3) zero_neq_numeral)
  ultimately show ?thesis
    using len trim_digits [of ?n] p by (auto simp add: readHeader_def readFullBytes_def headerSize_def ar_entry_def)
qed

text \<open>Reading one entry leads to the end of its data, which for a size that is odd is before the newline.\<close>

lemma names_step_entry:
  assumes "good_entry e" and "arBytes ar = pre @ ar_entry e @ post" and "arPos st = length pre"
  shows "names_step ar st = Inr ((add_file (fst e) st)\<lparr>arPos := length pre + 60 + length (snd e)\<rparr>)"
  using readHeader_entry [OF assms(1), of pre post] assms
  by (auto simp: names_step_def good_entry_def plain_name_def skip_to_def skipBytes_def nat_add_distrib)

lemma ar_entry_length:
  assumes "good_entry e"
  shows "length (ar_entry e) = 60 + length (snd e) + (if odd (length (snd e)) then 1 else 0)"
proof -
  have "length (show_base 10 (length (snd e))) \<le> 10"
    using show_base_length [of 10 "length (snd e)" 9] assms by (simp add: good_entry_def)
  then show ?thesis using assms by (simp add: ar_entry_def ar_header_def pad_def good_entry_def plain_name_def)
qed

lemma names_run_entries:
  assumes "\<forall>e \<in> set es. good_entry e" and "\<forall>e \<in> set (butlast es). even (length (snd e))"
    and "arBytes ar = pre @ concat (map ar_entry es)" and "arPos st = length pre"
  shows "names_run ar st =
    Some (if es \<noteq> [] \<and> odd (length (snd (last es))) then Err UnexpectedEOF else Ok (arFiles st @ map fst es))"
  using assms
proof (induction es arbitrary: pre st)
  case Nil
  then show ?case
    by (simp add: names_run.simps [of ar st] names_step_def readHeader_def readFullBytes_def headerSize_def)
next
  case (Cons e es)
  have g: "good_entry e" using Cons.prems by simp
  let ?st = "(add_file (fst e) st)\<lparr>arPos := length pre + 60 + length (snd e)\<rparr>"
  have step: "names_step ar st = Inr ?st"
    using names_step_entry [OF g, of ar pre "concat (map ar_entry es)"] Cons.prems by simp
  show ?case
  proof (cases "odd (length (snd e))")
    case True
    then have [simp]: "es = []" using Cons.prems(2) by (cases es) auto
    have "drop (arPos ?st) (arBytes ar) = [CHR 0x0A]"
      using Cons.prems(3) ar_entry_length [OF g] True by (simp add: ar_entry_def)
    then have "names_step ar ?st = Inl (Err UnexpectedEOF)"
      by (simp add: names_step_def readHeader_def readFullBytes_def headerSize_def)
    then show ?thesis using step True by (simp add: names_run.simps [of ar])
  next
    case False
    have "\<forall>x \<in> set (butlast es). even (length (snd x))" using Cons.prems(2) by (auto split: if_splits)
    moreover have "arPos ?st = length (pre @ ar_entry e)" using ar_entry_length [OF g] False by simp
    ultimately have "names_run ar ?st =
        Some (if es \<noteq> [] \<and> odd (length (snd (last es))) then Err UnexpectedEOF else Ok (arFiles ?st @ map fst es))"
      using Cons.prems by (intro Cons.IH [of "pre @ ar_entry e"]) simp_all
    then show ?thesis using step False by (auto simp add: names_run.simps [of ar st] add_file_def)
  qed
qed


definition even_members :: "(string \<times> string) list" where
  "even_members = [(''a.o/'', ''xy''), (''b.o/'', [])]"


section \<open>Archives that go wrong\<close>

lemma names_run_loops:
  assumes "\<And>fs. names_step ar (st\<lparr>arFiles := fs\<rparr>) = Inr (st\<lparr>arFiles := fs @ [n]\<rparr>)"
  shows "names_run ar st = None"
proof -
  have "\<not> (x = ar \<and> (\<exists>fs. y = st\<lparr>arFiles := fs\<rparr>))" if r: "names_run x y = Some r" for x y r
  proof (rule names_run.raw_induct [where P = "\<lambda>x y r. \<not> (x = ar \<and> (\<exists>fs. y = st\<lparr>arFiles := fs\<rparr>))", OF _ r])
    fix f x y r
    assume IH: "\<And>x y r. f x y = Some r \<Longrightarrow> \<not> (x = ar \<and> (\<exists>fs. y = st\<lparr>arFiles := fs\<rparr>))"
      and s: "(case names_step x y of Inl r \<Rightarrow> Some r | Inr st' \<Rightarrow> f x st') = Some r"
    show "\<not> (x = ar \<and> (\<exists>fs. y = st\<lparr>arFiles := fs\<rparr>))"
    proof
      assume "x = ar \<and> (\<exists>fs. y = st\<lparr>arFiles := fs\<rparr>)"
      then obtain fs where "x = ar" "y = st\<lparr>arFiles := fs\<rparr>" by blast
      then have "f ar (st\<lparr>arFiles := fs @ [n]\<rparr>) = Some r" using s assms by simp
      then show False using IH by blast
    qed
  qed
  moreover have "st = st\<lparr>arFiles := arFiles st\<rparr>" by simp
  ultimately show ?thesis by (metis not_None_eq)
qed

definition bad_archive :: string where
  "bad_archive = arFileSignature @ pad 16 ''x.o/'' @ ''0           0     0     100644  '' @ pad 10 ''-60'' @ [CHR 0x60, CHR 0x0A]"

text \<open>A member whose size field reads \<open>-60\<close> moves the position back to its own header: the name is
  collected again and again and \<open>ReadFileNames\<close> never returns.\<close>

theorem ReadFileNames_diverges: "readArchive (\<lambda>p. Some bad_archive) ''/r/l.a'' ''l.a'' = None"
proof -
  let ?ar = "\<lparr>thinFilePrefix = ''.'', thin = False, arBytes = bad_archive\<rparr>"
  have h: "readHeader bad_archive 8 = Header ''x.o/'' (- 60) 68" by code_simp
  have "names_step ?ar (names_start\<lparr>arFiles := fs\<rparr>) = Inr (names_start\<lparr>arFiles := fs @ [''x.o/'']\<rparr>)" for fs
    using h by (simp add: names_step_def names_start_def skip_to_def skipBytes_def add_file_def)
  from names_run_loops [OF this] have "ReadFileNames ?ar = None" by (simp add: ReadFileNames_def)
  moreover have "newArReader (Some bad_archive) (Dir ''l.a'') = Ok ?ar" by code_simp
  ultimately show ?thesis by (simp add: readArchive_def)
qed

lemma parse_digits_nonneg: "0 < b \<Longrightarrow> 0 \<le> acc \<Longrightarrow> parse_digits b acc s = Some n \<Longrightarrow> 0 \<le> n"
proof (induction s arbitrary: acc)
  case (Cons c s)
  then have "parse_digits b (acc * b + (of_char c - 48)) s = Some n" "0 \<le> acc * b + (of_char c - 48)"
    by (auto simp: Let_def split: if_splits)
  then show ?case using Cons.IH Cons.prems(1) by blast
qed simp

lemma ParseInt_negative: "ParseInt 10 bits s = Some n \<Longrightarrow> n < 0 \<Longrightarrow> CHR ''-'' \<in> set s"
proof -
  assume p: "ParseInt 10 bits s = Some n" and n: "n < 0"
  obtain neg ds where d: "signed_digits s = (neg, ds)" by fastforce
  obtain m where m: "parse_digits 10 0 ds = Some m" "n = (if neg then - m else m)"
    using p d by (auto simp: ParseInt_def Let_def split: if_splits option.splits)
  have neg using n m parse_digits_nonneg [of 10 0 ds m] by (auto split: if_splits)
  then show ?thesis using d by (auto simp: signed_digits_def split: list.splits if_splits)
qed

text \<open>An archive without a minus sign has no negative size.\<close>

lemma sizes_ok_no_minus:
  assumes "CHR ''-'' \<notin> set bs"
  shows "sizes_ok bs"
  unfolding sizes_ok_def
proof (intro allI impI)
  fix p n fs p'
  assume "readHeader bs p = Header n fs p'"
  then obtain buf where b: "ParseInt 10 64 (trim_space (take 10 (drop 48 buf))) = Some fs" "set buf \<subseteq> set bs"
    by (auto simp: readHeader_def readFullBytes_def headerSize_def split: if_splits option.splits)
      (metis in_set_dropD in_set_takeD subsetI)
  have "set (trim_space s) \<subseteq> set s" for s
    by (auto simp: trim_space_def dest!: set_dropWhileD)
  then have "set (trim_space (take 10 (drop 48 buf))) \<subseteq> set bs" using b(2) by (meson in_set_dropD in_set_takeD subset_iff)
  then show "0 \<le> fs" using ParseInt_negative [OF b(1)] assms by (cases "fs < 0") auto
qed

theorem ReadFileNames_returns_witness:
  "\<exists>r. ReadFileNames \<lparr>thinFilePrefix = ''.'', thin = False, arBytes = arFileSignature @ ar_entry (''a.o/'', ''xy'')\<rparr> = Some r"
proof -
  have "CHR ''-'' \<notin> set (arFileSignature @ ar_entry (''a.o/'', ''xy''))" by code_simp
  from ReadFileNames_returns [of "\<lparr>thinFilePrefix = ''.'', thin = False, arBytes = arFileSignature @ ar_entry (''a.o/'', ''xy'')\<rparr>"]
    sizes_ok_no_minus [OF this] show ?thesis by simp
qed

text \<open>The length of a BSD name loses its leading ones: they are trimmed together with the marker,
  so of a name of twelve bytes only two are kept.\<close>

lemma bsd_name_cut:
  "bsd_entry \<lparr>thinFilePrefix = [], thin = False, arBytes = ''long_name.oDATA''\<rparr> names_start ''#1/12'' 15 0 =
   Inr (names_start\<lparr>arPos := 15, arFiles := [''lo'']\<rparr>)"
  by code_simp

text \<open>The padding byte after a member of odd size is not skipped: what follows is read one byte too
  early, and an archive that ends with such a member is rejected.\<close>

lemma odd_member_fails:
  "readArchive (\<lambda>p. Some (arFileSignature @ ar_entry (''a.o/'', ''xyz''))) ''/r/l.a'' ''l.a'' = Some (Err UnexpectedEOF)"
proof -
  let ?bs = "arFileSignature @ ar_entry (''a.o/'', ''xyz'')"
  let ?ar = "\<lparr>thinFilePrefix = ''.'', thin = False, arBytes = ?bs\<rparr>"
  have h: "readHeader ?bs 8 = Header ''a.o/'' 3 68" "readHeader ?bs 71 = BadHeader UnexpectedEOF" by code_simp+
  have "names_step ?ar names_start = Inr (names_start\<lparr>arPos := 71, arFiles := [''a.o/'']\<rparr>)"
    "names_step ?ar (names_start\<lparr>arPos := 71, arFiles := [''a.o/'']\<rparr>) = Inl (Err UnexpectedEOF)"
    using h by (simp_all add: names_step_def names_start_def skip_to_def skipBytes_def add_file_def)
  then have "ReadFileNames ?ar = Some (Err UnexpectedEOF)"
    by (simp add: ReadFileNames_def names_run.simps [of ?ar])
  moreover have "newArReader (Some ?bs) (Dir ''l.a'') = Ok ?ar" by code_simp
  ultimately show ?thesis by (simp add: readArchive_def)
qed

end
