(* ===== verification/GoRegexp.thy ===== *)
theory GoRegexp
  imports Prelude
begin

text \<open>
  The part of Go's \<open>regexp\<close> the sources use: sequences of repeated character classes with
  groups, matched leftmost-first. \<open>match_at\<close> lists every way to match at a position in the order of
  preference (greedy repetitions longest first, lazy ones shortest first), each with its captured
  texts and the rest of the input; the match Go reports is the first one at the leftmost
  position that has one.
\<close>

section \<open>Definitions\<close>

datatype re =
    Rep (greedy: bool) (lo: nat) (hi: "nat option") (cls: "char \<Rightarrow> bool")
  | Cat re re
  | Group re

definition rep_counts :: "bool \<Rightarrow> nat \<Rightarrow> nat option \<Rightarrow> (char \<Rightarrow> bool) \<Rightarrow> string \<Rightarrow> nat list" where
  "rep_counts gr l h P s =
     (let n = length (takeWhile P s);
          n' = (case h of None \<Rightarrow> n | Some m \<Rightarrow> min n m);
          ks = [l ..< Suc n'] in
      if gr then rev ks else ks)"

primrec match_at :: "re \<Rightarrow> string \<Rightarrow> (string list \<times> string) list" where
  "match_at (Rep gr l h P) s = map (\<lambda>k. ([], drop k s)) (rep_counts gr l h P s)"
| "match_at (Cat r1 r2) s =
     concat (map (\<lambda>(c1, s1). map (\<lambda>(c2, s2). (c1 @ c2, s2)) (match_at r2 s1)) (match_at r1 s))"
| "match_at (Group r) s = map (\<lambda>(c, s'). (take (length s - length s') s # c, s')) (match_at r s)"

fun find_first :: "re \<Rightarrow> string \<Rightarrow> (string list \<times> string) option" where
  "find_first r s =
     (case match_at r s of
        m # _ \<Rightarrow> Some m
      | [] \<Rightarrow> (case s of [] \<Rightarrow> None | _ # s' \<Rightarrow> find_first r s'))"

declare find_first.simps [simp del]

lemma match_at_length: "(c, s') \<in> set (match_at r s) \<Longrightarrow> length s' \<le> length s"
  by (induction r arbitrary: c s s') (fastforce dest: order_trans)+

lemma find_first_length: "find_first r s = Some (c, s') \<Longrightarrow> length s' \<le> length s"
proof (induction r s rule: find_first.induct)
  case (1 r s)
  have f: "(case match_at r s of m # _ \<Rightarrow> Some m | [] \<Rightarrow> (case s of [] \<Rightarrow> None | _ # t \<Rightarrow> find_first r t)) = Some (c, s')"
    using "1.prems" by (simp only: find_first.simps [of r s])
  show ?case
  proof (cases "match_at r s")
    case Nil
    then obtain x t where t: "s = x # t" "find_first r t = Some (c, s')" using f by (cases s) auto
    then show ?thesis using "1.IH" [OF Nil t(1)] by simp
  next
    case (Cons m ms)
    then show ?thesis using f match_at_length [of c s' r s] by simp
  qed
qed

text \<open>\<open>FindAllStringSubmatch\<close> without the whole match; the expressions here never match the empty
  string, so the search goes on where a match ended.\<close>

function find_all :: "re \<Rightarrow> string \<Rightarrow> string list list" where
  "find_all r s =
     (case find_first r s of
        None \<Rightarrow> []
      | Some (c, s') \<Rightarrow> c # (if length s' < length s then find_all r s' else []))"
  by pat_completeness auto
termination by (relation "measure (length \<circ> snd)") auto

declare find_all.simps [simp del]

text \<open>Character classes: \<open>\s\<close>, its complement, and the dot, which is not a newline.\<close>

definition re_space :: "char \<Rightarrow> bool" where
  "re_space c \<longleftrightarrow> c \<in> {CHR '' '', CHR 0x09, CHR 0x0A, CHR 0x0C, CHR 0x0D}"

definition re_dot :: "char \<Rightarrow> bool" where
  "re_dot c \<longleftrightarrow> c \<noteq> CHR 0x0A"

abbreviation "re_star P \<equiv> Rep True 0 None P"
abbreviation "re_plus P \<equiv> Rep True (Suc 0) None P"
abbreviation "re_plus_lazy P \<equiv> Rep False (Suc 0) None P"
abbreviation "re_opt c \<equiv> Rep True 0 (Some (Suc 0)) ((=) c)"
abbreviation "re_char c \<equiv> Rep True (Suc 0) (Some (Suc 0)) ((=) c)"

section \<open>The preferred match\<close>

lemma concat_map_first:
  assumes "\<forall>u \<in> set us. f u = []" and "f x = y # ys"
  shows "\<exists>zs. concat (map f (us @ x # vs)) = y # zs"
proof -
  have e: "concat (map f us) = []" using assms(1) by simp
  show ?thesis unfolding map_append concat_append e by (simp add: assms(2))
qed

lemma match_char_Cons [simp]: "match_at (re_char c) (c # s) = [([], s)]"
  by (simp add: rep_counts_def)

lemma match_char_other [simp]: "s = [] \<or> hd s \<noteq> c \<Longrightarrow> match_at (re_char c) s = []"
  by (cases s) (auto simp: rep_counts_def)

text \<open>A greedy repetition first takes everything it can.\<close>

lemma match_greedy_first:
  assumes "l \<le> length (takeWhile P s)"
  shows "\<exists>zs. match_at (Rep True l None P) s = ([], dropWhile P s) # zs"
  using assms by (simp add: rep_counts_def dropWhile_eq_drop Let_def)

text \<open>A lazy one takes one character at a time.\<close>

lemma match_lazy:
  "match_at (re_plus_lazy P) s = map (\<lambda>k. ([], drop k s)) [1 ..< Suc (length (takeWhile P s))]"
  by (simp add: rep_counts_def Let_def)

text \<open>A sequence: earlier ways of the first part from which the second fails are passed over.\<close>

lemma match_Cat_first:
  assumes "match_at r1 s = us @ (c1, s1) # vs" and "\<And>c t. (c, t) \<in> set us \<Longrightarrow> match_at r2 t = []"
    and "match_at r2 s1 = (c2, s2) # ws"
  shows "\<exists>zs. match_at (Cat r1 r2) s = (c1 @ c2, s2) # zs"
  unfolding match_at.simps assms(1)
  by (rule concat_map_first [where ys = "map (\<lambda>(c2, s2). (c1 @ c2, s2)) ws"]) (use assms(2,3) in auto)

lemma match_Group_first:
  "match_at r s = (c, s') # zs \<Longrightarrow> \<exists>zs'. match_at (Group r) s = (take (length s - length s') s # c, s') # zs'"
  by simp

lemma match_opt:
  "match_at (re_opt c) s = (if s \<noteq> [] \<and> hd s = c then [([], tl s), ([], s)] else [([], s)])"
  by (cases s) (auto simp: rep_counts_def Let_def min_def)

lemma match_plus_none: "s = [] \<or> \<not> P (hd s) \<Longrightarrow> match_at (re_plus P) s = []"
  by (cases s) (auto simp: rep_counts_def)

lemma match_group_lazy:
  "match_at (Group (re_plus_lazy P)) s = map (\<lambda>k. ([take k s], drop k s)) [1 ..< Suc (length (takeWhile P s))]"
proof -
  have "length s - (length s - k) = k" if "k \<in> set [1 ..< Suc (length (takeWhile P s))]" for k
    using that length_takeWhile_le [of P s] by auto
  then show ?thesis unfolding match_at.simps(3) match_lazy by (auto simp del: upt_Suc)
qed

lemma find_first_here: "match_at r s = m # ms \<Longrightarrow> find_first r s = Some m"
  by (simp add: find_first.simps [of r s])

declare match_at.simps [simp del]

end
