(* ===== verification/DepsFiles.thy ===== *)
theory DepsFiles
  imports PathTranslator GoRegexp "HOL-Library.List_Lexorder" "HOL-Library.Char_ord"
begin

text \<open>
  Dependency files (\<open>internal/pkg/deps/parser.go\<close>): reading the \<open>.d\<close> file a compiler wrote,
  writing the \<open>.deps\<close> file with a digest per dependency, and verifying it before a cached local
  result is used. The two regular expressions are the code's, run by \<open>GoRegexp\<close>. File contents, the
  digest store and the printing and parsing of digests are arguments.
\<close>

section \<open>The parser\<close>

definition notFoundMarker :: string where
  "notFoundMarker = ''NA''"

definition dFileParser :: re where
  "dFileParser = Cat (re_star re_space) (Cat (Group (re_plus_lazy (\<lambda>c. \<not> re_space c)))
     (Cat (re_opt (CHR '':'')) (Cat (re_plus re_space) (re_opt (CHR 0x5C)))))"

definition depsFileParser :: re where
  "depsFileParser = Cat (re_star re_space) (Cat (Group (re_plus_lazy re_dot)) (Cat (re_char (CHR '':''))
     (Cat (Group (Cat (re_plus_lazy re_dot) (Cat (re_opt (CHR ''/'')) (re_plus re_dot)))) (re_star re_space))))"

datatype deps_error = DepsReadFailed | DepsWrongFormat | DepsBadDigest

text \<open>What the digest store knows of a file: \<open>mdErr\<close> is \<open>None\<close> for a readable file and otherwise
  whether the error says that the file was not found.\<close>

record 'd Metadata =
  mdErr :: "bool option"
  mdDigest :: 'd

record 'd Parser =
  pExecRoot :: string
  pWorkingDir :: string
  DigestStore :: "string \<Rightarrow> 'd Metadata"
  dgString :: "'d \<Rightarrow> string"
  dgParse :: "string \<Rightarrow> 'd option"

definition getRelPath :: "string \<Rightarrow> string \<Rightarrow> string option" where
  "getRelPath base p =
     (case Rel base p of
        Ok r \<Rightarrow> if prefix ''..'' r then None else Some r
      | _ \<Rightarrow> None)"

fun d_file_deps :: "string \<Rightarrow> string list \<Rightarrow> string list" where
  "d_file_deps base [] = []"
| "d_file_deps base (m # ms) =
     (if IsAbs m then (case getRelPath base m of None \<Rightarrow> d_file_deps base ms | Some r \<Rightarrow> r # d_file_deps base ms)
      else m # d_file_deps base ms)"

definition readDFileDeps :: "'d Parser \<Rightarrow> (string \<Rightarrow> string option) \<Rightarrow> string \<Rightarrow> (deps_error, string list) res" where
  "readDFileDeps P readFile dFilePath =
     (case readFile (Join [pExecRoot P, dFilePath]) of
        None \<Rightarrow> Err DepsReadFailed
      | Some buf \<Rightarrow>
          (let matches = find_all dFileParser buf in
           if length matches < 2 then Err DepsWrongFormat
           else Ok (d_file_deps (Join [pExecRoot P, pWorkingDir P]) (map hd (tl matches)))))"

text \<open>The line \<open>addDep\<close> puts into the set, if any.\<close>

definition addDep :: "'d Parser \<Rightarrow> string \<Rightarrow> string option" where
  "addDep P relPath =
     (let md = DigestStore P (Join [pExecRoot P, pWorkingDir P, relPath]) in
      case mdErr md of
        None \<Rightarrow> Some (Clean relPath @ '':'' @ dgString P (mdDigest md) @ [CHR 0x0A])
      | Some True \<Rightarrow> Some (Clean relPath @ '':'' @ notFoundMarker @ [CHR 0x0A])
      | Some False \<Rightarrow> None)"

definition GetDepsText :: "'d Parser \<Rightarrow> (string \<Rightarrow> string option) \<Rightarrow> string \<Rightarrow> (deps_error, string) res" where
  "GetDepsText P readFile dFilePath =
     res_bind (readDFileDeps P readFile dFilePath) (\<lambda>dd.
       Ok (concat (sort (remdups (List.map_filter (addDep P) dd)))))"

text \<open>\<open>WriteDepsFile\<close>: the path and content written, when there is no error.\<close>

definition WriteDepsFile :: "'d Parser \<Rightarrow> (string \<Rightarrow> string option) \<Rightarrow> string \<Rightarrow> (deps_error, string \<times> string) res" where
  "WriteDepsFile P readFile dFilePath =
     res_bind (GetDepsText P readFile dFilePath) (\<lambda>deps. Ok (Join [pExecRoot P, dFilePath @ ''.deps''], deps))"

fun verify_lines :: "'d Parser \<Rightarrow> string list list \<Rightarrow> (deps_error, bool) res" where
  "verify_lines P [] = Ok True"
| "verify_lines P (m # ms) =
     (case m of
        [p, d] \<Rightarrow>
          (let md = DigestStore P (Join [pExecRoot P, pWorkingDir P, p]) in
           if d = notFoundMarker then (if mdErr md = None then Ok False else verify_lines P ms)
           else (case dgParse P d of
                   None \<Rightarrow> Err DepsBadDigest
                 | Some dg \<Rightarrow> if mdDigest md \<noteq> dg then Ok False else verify_lines P ms))
      | _ \<Rightarrow> Err DepsWrongFormat)"

definition VerifyDepsFile :: "'d Parser \<Rightarrow> (string \<Rightarrow> string option) \<Rightarrow> string \<Rightarrow> (deps_error, bool) res" where
  "VerifyDepsFile P readFile dFilePath =
     (case readFile (Join [pExecRoot P, dFilePath @ ''.deps'']) of
        None \<Rightarrow> Err DepsReadFailed
      | Some buf \<Rightarrow> verify_lines P (find_all depsFileParser buf))"

section \<open>Reading back the lines of a deps file\<close>

definition deps_line :: "string \<times> string \<Rightarrow> string" where
  "deps_line l = fst l @ '':'' @ snd l @ [CHR 0x0A]"

definition good_line :: "string \<times> string \<Rightarrow> bool" where
  "good_line l \<longleftrightarrow> fst l \<noteq> [] \<and> \<not> re_space (hd (fst l)) \<and> CHR '':'' \<notin> set (fst l) \<and> CHR 0x0A \<notin> set (fst l) \<and>
     2 \<le> length (snd l) \<and> CHR 0x0A \<notin> set (snd l)"

lemma takeWhile_line: "CHR 0x0A \<notin> set p \<Longrightarrow> takeWhile re_dot (p @ CHR 0x0A # r) = p"
  by (induction p) (auto simp: re_dot_def)

lemma dropWhile_line: "CHR 0x0A \<notin> set p \<Longrightarrow> dropWhile re_dot (p @ CHR 0x0A # r) = CHR 0x0A # r"
  by (induction p) (auto simp: re_dot_def)

text \<open>The second group takes the rest of the line.\<close>

lemma match_digest:
  assumes "2 \<le> length d" and "CHR 0x0A \<notin> set d"
  shows "\<exists>zs. match_at (Group (Cat (re_plus_lazy re_dot) (Cat (re_opt (CHR ''/'')) (re_plus re_dot)))) (d @ CHR 0x0A # r) =
    ([d], CHR 0x0A # r) # zs"
proof -
  obtain a b d' where d: "d = a # b # d'" using assms(1) by (cases d; cases "tl d") auto
  let ?n = "CHR 0x0A # r"
  have nl: "CHR 0x0A \<notin> set (b # d')" "CHR 0x0A \<notin> set d'" using assms(2) d by auto
  have plus: "\<exists>zs. match_at (re_plus re_dot) (t @ ?n) = ([], ?n) # zs" if "t \<noteq> []" "CHR 0x0A \<notin> set t" for t
    using match_greedy_first [of 1 re_dot "t @ ?n"] that by (simp add: takeWhile_line dropWhile_line Suc_leI)
  have opt: "\<exists>zs. match_at (Cat (re_opt (CHR ''/'')) (re_plus re_dot)) (b # d' @ ?n) = ([], ?n) # zs"
  proof (cases "b = CHR ''/'' \<and> d' \<noteq> []")
    case True
    then show ?thesis
      using plus [of d'] nl match_Cat_first [of "re_opt (CHR ''/'')" "b # d' @ ?n" "[]" "[]" "d' @ ?n" _ "re_plus re_dot" "[]" ?n]
      by (auto simp: match_opt)
  next
    case False
    have p: "\<exists>zs. match_at (re_plus re_dot) (b # d' @ ?n) = ([], ?n) # zs" using plus [of "b # d'"] nl by simp
    have "match_at (re_plus re_dot) ?n = []" by (rule match_plus_none) (simp add: re_dot_def)
    then show ?thesis
      using p False
        match_Cat_first [of "re_opt (CHR ''/'')" "b # d' @ ?n" "if b = CHR ''/'' then [([], ?n)] else []" "[]" "b # d' @ ?n" _ "re_plus re_dot" "[]" ?n]
      by (auto simp: match_opt split: if_splits)
  qed
  have "length (takeWhile re_dot (d @ ?n)) = Suc (Suc (length d'))" using takeWhile_line [OF assms(2)] d by simp
  then have "\<exists>vs. match_at (re_plus_lazy re_dot) (d @ ?n) = [] @ ([], b # d' @ ?n) # vs"
    unfolding match_lazy using d by (simp add: upt_conv_Cons del: upt_Suc)
  then have "\<exists>zs. match_at (Cat (re_plus_lazy re_dot) (Cat (re_opt (CHR ''/'')) (re_plus re_dot))) (d @ ?n) = ([] @ [], ?n) # zs"
    using opt match_Cat_first [of "re_plus_lazy re_dot" "d @ ?n" "[]" "[]" "b # d' @ ?n" _ "Cat (re_opt (CHR ''/'')) (re_plus re_dot)" "[]" ?n]
    by auto
  then show ?thesis using match_Group_first by fastforce
qed

lemma match_rest_of_line:
  assumes "2 \<le> length d" and "CHR 0x0A \<notin> set d"
  shows "\<exists>zs. match_at (Cat (re_char (CHR '':'')) (Cat (Group (Cat (re_plus_lazy re_dot) (Cat (re_opt (CHR ''/'')) (re_plus re_dot))))
      (re_star re_space))) (CHR '':'' # d @ CHR 0x0A # r) = ([d], dropWhile re_space r) # zs"
proof -
  have sp: "\<exists>zs. match_at (re_star re_space) (CHR 0x0A # r) = ([], dropWhile re_space r) # zs"
    using match_greedy_first [of 0 re_space "CHR 0x0A # r"] by (simp add: re_space_def)
  obtain zs where "match_at (Group (Cat (re_plus_lazy re_dot) (Cat (re_opt (CHR ''/'')) (re_plus re_dot)))) (d @ CHR 0x0A # r) =
      [] @ ([d], CHR 0x0A # r) # zs" using match_digest [OF assms] by auto
  from match_Cat_first [OF this] sp
  have dg: "\<exists>zs. match_at (Cat (Group (Cat (re_plus_lazy re_dot) (Cat (re_opt (CHR ''/'')) (re_plus re_dot)))) (re_star re_space))
      (d @ CHR 0x0A # r) = ([d], dropWhile re_space r) # zs" by fastforce
  have "match_at (re_char (CHR '':'')) (CHR '':'' # d @ CHR 0x0A # r) = [] @ ([], d @ CHR 0x0A # r) # []" by simp
  from match_Cat_first [OF this] dg show ?thesis by fastforce
qed

lemma match_line:
  assumes "good_line l"
  shows "\<exists>zs. match_at depsFileParser (deps_line l @ r) = ([fst l, snd l], dropWhile re_space r) # zs"
proof -
  obtain p d where l: "l = (p, d)" by (cases l)
  let ?s = "p @ CHR '':'' # d @ CHR 0x0A # r"
  let ?R = "Cat (re_char (CHR '':'')) (Cat (Group (Cat (re_plus_lazy re_dot) (Cat (re_opt (CHR ''/'')) (re_plus re_dot)))) (re_star re_space))"
  let ?f = "\<lambda>k. ([take k ?s], drop k ?s)"
  have p: "p \<noteq> []" "\<not> re_space (hd p)" "CHR '':'' \<notin> set p" "CHR 0x0A \<notin> set p" and d: "2 \<le> length d" "CHR 0x0A \<notin> set d"
    using assms l by (auto simp: good_line_def)
  have n: "length (takeWhile re_dot ?s) = length p + Suc (length d)"
    using takeWhile_line [of "p @ CHR '':'' # d" r] p d by simp
  have "match_at (Group (re_plus_lazy re_dot)) ?s = map ?f [1 ..< Suc (length p + Suc (length d))]"
    unfolding match_group_lazy n ..
  also have "[1 ..< Suc (length p + Suc (length d))] = [1 ..< length p] @ length p # [Suc (length p) ..< Suc (length p + Suc (length d))]"
    using upt_add_eq_append [of 1 "length p" "Suc (Suc (length d))"] p(1) by (simp add: Suc_leI upt_conv_Cons del: upt_Suc)
  finally have g: "match_at (Group (re_plus_lazy re_dot)) ?s = map ?f [1 ..< length p] @ ([p], drop (length p) ?s) #
      map ?f [Suc (length p) ..< Suc (length p + Suc (length d))]" by simp
  have us: "match_at ?R t = []" if "(c, t) \<in> set (map ?f [1 ..< length p])" for c t
  proof -
    obtain k where k: "k < length p" "t = drop k ?s" using \<open>(c, t) \<in> _\<close> by auto
    then have "hd t = p ! k" by (simp add: hd_append hd_drop_conv_nth)
    then have "hd t \<noteq> CHR '':''" using p(3) k by (metis nth_mem)
    then have "match_at (re_char (CHR '':'')) t = []" by (intro match_char_other) simp
    then show ?thesis by (simp only: match_at.simps(2)) simp
  qed
  obtain zs where "match_at ?R (drop (length p) ?s) = ([d], dropWhile re_space r) # zs"
    using match_rest_of_line [OF d] by auto
  from match_Cat_first [OF g us this]
  have "\<exists>zs. match_at (Cat (Group (re_plus_lazy re_dot)) ?R) ?s = ([p, d], dropWhile re_space r) # zs" by simp
  moreover have "match_at (re_star re_space) ?s = [] @ ([], ?s) # []"
    using p by (cases p) (auto simp: rep_counts_def match_at.simps)
  ultimately have "\<exists>zs. match_at depsFileParser ?s = ([p, d], dropWhile re_space r) # zs"
    unfolding depsFileParser_def using match_Cat_first [of "re_star re_space" ?s "[]" "[]" ?s "[]"] by fastforce
  then show ?thesis using l by (simp add: deps_line_def)
qed

lemma find_all_lines:
  assumes "\<forall>l \<in> set ls. good_line l"
  shows "find_all depsFileParser (concat (map deps_line ls)) = map (\<lambda>l. [fst l, snd l]) ls"
  using assms
proof (induction ls)
  case Nil
  have "find_first depsFileParser [] = None" by code_simp
  then show ?case by (simp add: find_all.simps)
next
  case (Cons l ls)
  let ?r = "concat (map deps_line ls)"
  have "dropWhile re_space ?r = ?r"
    using Cons.prems by (cases ls) (auto simp: deps_line_def good_line_def dropWhile_eq_self_iff hd_append)
  then have "find_first depsFileParser (deps_line l @ ?r) = Some ([fst l, snd l], ?r)"
    using match_line [of l ?r] Cons.prems find_first_here by fastforce
  moreover have "length ?r < length (deps_line l @ ?r)" by (simp add: deps_line_def)
  ultimately have "find_all depsFileParser (deps_line l @ ?r) = [fst l, snd l] # find_all depsFileParser ?r"
    by (subst find_all.simps) (simp del: length_append)
  then show ?case using Cons by simp
qed

section \<open>Tokens of the d file\<close>

lemma match_dfile_group:
  assumes "(c, s') \<in> set (match_at dFileParser s)"
  shows "length c = 1 \<and> (\<forall>x \<in> set (hd c). \<not> re_space x)"
proof -
  have tk: "\<not> re_space x" if "x \<in> set (take k t)" "k \<le> length (takeWhile (\<lambda>c. \<not> re_space c) t)" for x k t
  proof -
    have "take k t = take k (takeWhile (\<lambda>c. \<not> re_space c) t)" using that(2) by (metis takeWhile_eq_take min.absorb1 take_take)
    then show ?thesis using that(1) by (auto dest!: in_set_takeD set_takeWhileD)
  qed
  have nc: "(c', t') \<in> set (match_at (Rep gr l h P) t) \<Longrightarrow> c' = []" for c' t' gr l h P t by (auto simp: match_at.simps)
  show ?thesis
    using assms unfolding dFileParser_def match_at.simps(2) match_group_lazy
    by (auto dest!: nc dest: tk tk [OF _ less_imp_le])
qed

lemma find_first_match: "find_first r s = Some m \<Longrightarrow> \<exists>t. m \<in> set (match_at r t)"
proof (induction r s rule: find_first.induct)
  case (1 r s)
  have "(case match_at r s of m # _ \<Rightarrow> Some m | [] \<Rightarrow> (case s of [] \<Rightarrow> None | _ # t \<Rightarrow> find_first r t)) = Some m"
    using "1.prems" by (simp only: find_first.simps [of r s])
  then show ?case using "1.IH" by (cases "match_at r s"; cases s) (auto intro: exI [of _ s])
qed

lemma find_all_match: "c \<in> set (find_all r s) \<Longrightarrow> \<exists>t s'. (c, s') \<in> set (match_at r t)"
proof (induction r s rule: find_all.induct)
  case (1 r s)
  obtain c' s' where f: "find_first r s = Some (c', s')" using "1.prems" by (cases "find_first r s") (auto simp: find_all.simps [of r s])
  then have "c = c' \<or> length s' < length s \<and> c \<in> set (find_all r s')"
    using "1.prems" by (simp add: find_all.simps [of r s] split: if_splits)
  then show ?case using "1.IH" [OF f refl] find_first_match [OF f] by blast
qed

lemma readDFileDeps_paths:
  assumes "readDFileDeps P readFile d = Ok dd" and "IsAbs (pExecRoot P)" and "p \<in> set dd"
  shows "\<not> IsAbs p \<and> (\<forall>x \<in> set p. \<not> re_space x)"
proof -
  let ?base = "Join [pExecRoot P, pWorkingDir P]"
  obtain buf where b: "dd = d_file_deps ?base (map hd (tl (find_all dFileParser buf)))"
    using assms(1) by (auto simp: readDFileDeps_def Let_def split: option.splits if_splits)
  have tok: "\<forall>x \<in> set m. \<not> re_space x" if mt: "m \<in> set (map hd (tl (find_all dFileParser buf)))" for m
  proof -
    obtain c where "c \<in> set (find_all dFileParser buf)" "m = hd c" using mt by (cases "find_all dFileParser buf") auto
    then show ?thesis using find_all_match match_dfile_group by blast
  qed
  have "p \<in> set (d_file_deps ?base ms) \<Longrightarrow> \<exists>m \<in> set ms. (\<not> IsAbs m \<and> p = m) \<or> (IsAbs m \<and> getRelPath ?base m = Some p)" for ms
    by (induction ms) (auto split: if_splits option.splits)
  then obtain m where m: "m \<in> set (map hd (tl (find_all dFileParser buf)))"
    "(\<not> IsAbs m \<and> p = m) \<or> (IsAbs m \<and> getRelPath ?base m = Some p)" using b assms(3) by blast
  show ?thesis
  proof (cases "IsAbs m")
    case False
    then show ?thesis using m tok by blast
  next
    case True
    then have r: "Rel ?base m = Ok p" using m(2) by (auto simp: getRelPath_def split: res.splits if_splits)
    then have "RelToWorkingDir (pExecRoot P) (pWorkingDir P) m = p" using True by (simp add: RelToWorkingDir_def)
    then have "set p \<subseteq> set m \<union> {CHR ''.'', CHR ''/''}" using RelToWorkingDir_chars [OF assms(2) True] by blast
    moreover have "\<not> re_space (CHR ''.'')" "\<not> re_space (CHR ''/'')" by (simp_all add: re_space_def)
    ultimately show ?thesis using tok [OF m(1)] Rel_relative [OF IsAbs_Join [OF assms(2)] True r] by blast
  qed
qed

section \<open>A deps file verifies exactly what it recorded\<close>

definition dep_entry :: "'d Parser \<Rightarrow> string \<Rightarrow> (string \<times> string) option" where
  "dep_entry P relPath =
     (let md = DigestStore P (Join [pExecRoot P, pWorkingDir P, relPath]) in
      case mdErr md of
        None \<Rightarrow> Some (Clean relPath, dgString P (mdDigest md))
      | Some True \<Rightarrow> Some (Clean relPath, notFoundMarker)
      | Some False \<Rightarrow> None)"

lemma addDep_entry: "addDep P p = map_option deps_line (dep_entry P p)"
  by (simp add: addDep_def dep_entry_def deps_line_def Let_def split: option.splits bool.splits)

text \<open>The laws of the SDK's digests: printing is inverted by parsing, fits on a line and differs
  from the marker.\<close>

definition digest_laws :: "'d Parser \<Rightarrow> bool" where
  "digest_laws P \<longleftrightarrow> (\<forall>g. dgParse P (dgString P g) = Some g \<and> 2 \<le> length (dgString P g) \<and> CHR 0x0A \<notin> set (dgString P g) \<and>
     dgString P g \<noteq> notFoundMarker)"

text \<open>A dependency is as it was: the digest recorded, or still no readable file.\<close>

definition dep_unchanged :: "'d Parser \<Rightarrow> 'd Parser \<Rightarrow> string \<Rightarrow> bool" where
  "dep_unchanged P Q p =
     (let k = Join [pExecRoot P, pWorkingDir P, p]; old = DigestStore P k; new = DigestStore Q k in
      case mdErr old of
        None \<Rightarrow> mdDigest new = mdDigest old
      | Some nf \<Rightarrow> nf \<longrightarrow> mdErr new \<noteq> None)"

definition line_ok :: "'d Parser \<Rightarrow> string \<times> string \<Rightarrow> bool" where
  "line_ok Q l =
     (let md = DigestStore Q (Join [pExecRoot Q, pWorkingDir Q, fst l]) in
      if snd l = notFoundMarker then mdErr md \<noteq> None else dgParse Q (snd l) = Some (mdDigest md))"

lemma verify_lines_all:
  "(\<forall>l \<in> set ls. snd l = notFoundMarker \<or> dgParse Q (snd l) \<noteq> None) \<Longrightarrow>
   verify_lines Q (map (\<lambda>l. [fst l, snd l]) ls) = Ok (\<forall>l \<in> set ls. line_ok Q l)"
  by (induction ls) (auto simp: line_ok_def Let_def)

lemma dep_entry_good:
  assumes "dep_entry P p = Some l" and "digest_laws P" and "\<not> IsAbs p" and "\<forall>x \<in> set p. \<not> re_space x" and "CHR '':'' \<notin> set p"
  shows "good_line l"
proof -
  have cs: "set (Clean p) \<subseteq> set p \<union> {CHR ''.'', CHR ''/''}"
    using clean_elems_chars [of _ p] join_with_chars [of "''/''" "clean_elems p"] assms(3)
    by (fastforce simp: Clean_def render_path_def split: if_splits)
  have ne: "Clean p \<noteq> []"
    using path_join_plain [of "clean_elems p"] clean_elems_plain [of _ p] assms(3) by (auto simp: Clean_def render_path_def)
  have "\<not> re_space x" if "x \<in> set (Clean p)" for x using that cs assms(4) by (auto simp: re_space_def)
  then have "\<not> re_space (hd (Clean p))" "CHR 0x0A \<notin> set (Clean p)" using ne by (auto simp: re_space_def)
  moreover have "CHR '':'' \<notin> set (Clean p)" using cs assms(5) by auto
  moreover have "fst l = Clean p" "2 \<le> length (snd l) \<and> CHR 0x0A \<notin> set (snd l)"
    using assms(1,2) by (auto simp: dep_entry_def digest_laws_def notFoundMarker_def Let_def split: option.splits bool.splits)
  ultimately show ?thesis using ne by (simp add: good_line_def)
qed

lemma dep_entry_ok:
  assumes "dep_entry P p = Some l" and "digest_laws P" and "\<not> IsAbs p" and "IsAbs (pExecRoot P)" and "Q = P\<lparr>DigestStore := store\<rparr>"
  shows "line_ok Q l \<longleftrightarrow> dep_unchanged P Q p"
  using assms Join_Clean_right [OF assms(4,3)]
  by (auto simp: dep_entry_def line_ok_def dep_unchanged_def digest_laws_def Let_def split: option.splits bool.splits)

lemma deps_line_inj: "good_line l \<Longrightarrow> good_line l' \<Longrightarrow> deps_line l = deps_line l' \<Longrightarrow> l = l'"
  using find_all_lines [of "[l]"] find_all_lines [of "[l']"] by (auto intro: prod_eqI)

lemma map_of_image: "set ys \<subseteq> f ` A \<Longrightarrow> \<exists>xs. ys = map f xs \<and> set xs \<subseteq> A"
proof (induction ys)
  case (Cons y ys)
  then obtain xs x where "ys = map f xs" "set xs \<subseteq> A" "x \<in> A" "y = f x" by auto
  then show ?case by (intro exI [of _ "x # xs"]) simp
qed simp


definition demo_parser :: "bool Parser" where
  "demo_parser = \<lparr>pExecRoot = ''/r'', pWorkingDir = [],
     DigestStore = (\<lambda>p. if p = ''/r/a.h'' then \<lparr>mdErr = None, mdDigest = True\<rparr> else \<lparr>mdErr = Some True, mdDigest = False\<rparr>),
     dgString = (\<lambda>g. if g then ''aa/1'' else ''bb/1''), dgParse = (\<lambda>s. if s = ''aa/1'' then Some True else Some False)\<rparr>"

definition demo_d_file :: "string \<Rightarrow> string option" where
  "demo_d_file p = (if p = ''/r/x.d'' then Some (''x.o: a.h '' @ [CHR 0x5C] @ [CHR 0x0A] @ '' b.h'' @ [CHR 0x0A]) else None)"


end
