(* ===== verification/DepsScanner.thy ===== *)
theory DepsScanner
  imports GoPath Numbers
begin

text \<open>
  The client of the dependency scanner service
  (\<open>internal/pkg/cppdependencyscanner/depsscannerclient\<close>) and its construction
  (\<open>cppdependencyscanner/cppdepscanner.go\<close>). A client may own the service process: it starts it,
  asks it for the inputs of compile commands, restarts it when it is lost and stops it at the
  end. The calls to the process and over gRPC are recorded in order and answered by functions of
  the calls made before, so that every sequence of answers is covered. The n-th process started
  has its own result channel, named by n. Log output, diagnostics and the search for a free port
  are left out; \<open>Close\<close> and a restart are each one step.
\<close>

section \<open>Errors\<close>

datatype ctx_err = CtxCanceled | CtxDeadline

datatype grpc_code =
  CodeCanceled | CodeUnknown | CodeDeadlineExceeded | CodeUnavailable | CodeResourceExhausted | CodeOther int

text \<open>An error is a context error, a gRPC status, a text, or a text that wraps an error.\<close>

datatype scan_err = CtxErr ctx_err | StatusErr grpc_code string | TextErr string | WrapErr string scan_err

text \<open>\<open>errors.Is(err, context.DeadlineExceeded)\<close> and the code of \<open>status.FromError\<close>.\<close>

fun is_deadline :: "scan_err \<Rightarrow> bool" where
  "is_deadline (CtxErr c) = (c = CtxDeadline)"
| "is_deadline (WrapErr _ e) = is_deadline e"
| "is_deadline _ = False"

fun status_code :: "scan_err \<Rightarrow> grpc_code option" where
  "status_code (StatusErr c _) = Some c"
| "status_code (WrapErr _ e) = status_code e"
| "status_code _ = None"

definition shouldRetry :: "scan_err \<Rightarrow> bool" where
  "shouldRetry err =
     (if err = CtxErr CtxDeadline then True
      else case status_code err of
        None \<Rightarrow> False
      | Some c \<Rightarrow> c \<in> {CodeCanceled, CodeUnknown, CodeDeadlineExceeded, CodeUnavailable, CodeResourceExhausted})"

definition isTimeoutErr :: "scan_err \<Rightarrow> bool" where
  "isTimeoutErr err =
     (if is_deadline err then True else case status_code err of None \<Rightarrow> False | Some c \<Rightarrow> c = CodeDeadlineExceeded)"

section \<open>Addresses\<close>

fun replace_all :: "string \<Rightarrow> string \<Rightarrow> nat \<Rightarrow> string \<Rightarrow> string" where
  "replace_all old new _ [] = []"
| "replace_all old new (Suc k) (c # s) = replace_all old new k s"
| "replace_all old new 0 (c # s) =
     (if prefix old (c # s) then new @ replace_all old new (length old - 1) s else c # replace_all old new 0 s)"

text \<open>\<open>filepath.Split\<close>: up to and including the last separator, and the rest.\<close>

definition path_dir_file :: "string \<Rightarrow> string \<times> string" where
  "path_dir_file p =
     (rev (dropWhile (\<lambda>c. c \<noteq> CHR ''/'') (rev p)), rev (takeWhile (\<lambda>c. c \<noteq> CHR ''/'') (rev p)))"

text \<open>\<open>net.SplitHostPort\<close>: host and port; a host in brackets may contain colons.\<close>

definition SplitHostPort :: "string \<Rightarrow> (string \<times> string) option" where
  "SplitHostPort hp =
     (let port = rev (takeWhile (\<lambda>c. c \<noteq> CHR '':'') (rev hp));
          host = take (length hp - Suc (length port)) hp in
      if CHR '':'' \<notin> set hp then None
      else if prefix ''['' hp then
        (let inner = takeWhile (\<lambda>c. c \<noteq> CHR '']'') (tl hp) in
         if CHR '']'' \<notin> set hp \<or> Suc (Suc (length inner)) \<noteq> length host then None
         else if CHR ''['' \<in> set inner \<or> CHR ''['' \<in> set port \<or> CHR '']'' \<in> set port then None
         else Some (inner, port))
      else if CHR '':'' \<in> set host \<or> CHR ''['' \<in> set hp \<or> CHR '']'' \<in> set hp then None
      else Some (host, port))"

definition buildAddress ::
  "bool \<Rightarrow> bool \<Rightarrow> string \<Rightarrow> nat \<Rightarrow> (scan_err, nat) res \<Rightarrow> string \<Rightarrow> (scan_err, string) res" where
  "buildAddress supportsUDS windows tmpDir rnd openPort proxyServerAddress =
     (let address = proxyServerAddress;
          isUnix = prefix ''unix://'' address; isPipe = prefix ''pipe://'' address;
          socketFilePath =
            (if isUnix then
               (case path_dir_file (drop 7 address) of (dir, sockFileName) \<Rightarrow> Join [dir, ''ds_'' @ sockFileName])
             else if isPipe then Join [tmpDir, ''ds_'' @ show_base 10 rnd @ ''.sock'']
             else []) in
      if supportsUDS \<and> isUnix \<and> contains ''reproxy'' address then Ok (replace_all ''reproxy'' ''depscan'' 0 address)
      else if supportsUDS \<and> 0 < length socketFilePath \<and> length socketFilePath \<le> 108 then
        Ok ((if windows then ''unix:'' else ''unix://'') @ socketFilePath)
      else
        case SplitHostPort (if isUnix \<or> isPipe then ''127.0.0.1:0'' else address) of
          None \<Rightarrow> Err (TextErr ''failed to find base address'')
        | Some (base, _) \<Rightarrow>
            (case openPort of
               Ok port \<Rightarrow> Ok (base @ '':'' @ show_base 10 port)
             | Err e \<Rightarrow> Err (WrapErr ''failed to find open port'' e)
             | Panic \<Rightarrow> Panic))"

section \<open>The service process\<close>

datatype ds_event = StartEv nat bool | ShutdownEv | KillEv nat | WaitEv int | ReceivedEv nat | CapsEv | SleepEv
  | RemoveEv string

record scan_host =
  hEnviron :: "string list"
  hLookupEnv :: "string \<Rightarrow> string option"
  hExecute :: "ds_event list \<Rightarrow> string list \<Rightarrow> (string \<rightharpoonup> string) \<Rightarrow> scan_err option"
  hEnded :: "ds_event list \<Rightarrow> nat \<Rightarrow> bool"
  hCapabilities :: "ds_event list \<Rightarrow> scan_err + string"
  hCtxDone :: "ds_event list \<Rightarrow> bool"
  hNow :: "ds_event list \<Rightarrow> int"

text \<open>\<open>dsConnected\<close>: the gRPC client is not nil. \<open>dsTerminate\<close> names the process whose context the
  cancel function ends, \<open>dsCh\<close> the process whose result the channel carries; both are nil at
  first. \<open>dsTrace\<close> is the record of calls.\<close>

record DepsScannerClient =
  dsAddress :: string
  dsExecutable :: string
  dsCacheDir :: string
  dsCacheFileMaxMb :: int
  dsUseDepsCache :: bool
  dsLogDir :: string
  dsConnected :: bool
  dsTerminate :: "nat option"
  dsCh :: "nat option"
  dsServiceRestarted :: "int option"
  dsCapabilities :: "string option"
  dsTrace :: "ds_event list"

definition logged :: "ds_event \<Rightarrow> DepsScannerClient \<Rightarrow> DepsScannerClient" where
  "logged ev ds = ds\<lparr>dsTrace := dsTrace ds @ [ev]\<rparr>"

fun is_start :: "ds_event \<Rightarrow> bool" where
  "is_start (StartEv _ _) = True"
| "is_start _ = False"

definition n_starts :: "ds_event list \<Rightarrow> nat" where
  "n_starts tr = length (filter is_start tr)"

definition findKeyVal :: "string \<Rightarrow> (string \<Rightarrow> string option) \<Rightarrow> scan_err + string \<times> string" where
  "findKeyVal envStr lookupEnvFunc =
     (let envParts = split_on (CHR ''='') envStr in
      if length envParts = 2 then Inr (envParts ! 0, envParts ! 1)
      else
        case find (\<lambda>(k, v). lookupEnvFunc k = Some v)
               (map (\<lambda>i. (join_with ''='' (take i envParts), join_with ''='' (drop i envParts))) [1..<length envParts + 1]) of
          Some kv \<Rightarrow> Inr kv
        | None \<Rightarrow> Inl (TextErr (''Got '' @ envStr @ '' in env vars list but could not find any matching env var'')))"

text \<open>The environment part of \<open>startService\<close>: two debugging variables become arguments.\<close>

fun service_env ::
  "(string \<Rightarrow> string option) \<Rightarrow> string list \<Rightarrow> string list \<times> (string \<rightharpoonup> string) \<Rightarrow> scan_err + string list \<times> (string \<rightharpoonup> string)" where
  "service_env look [] acc = Inr acc"
| "service_env look (e # es) acc =
     (case findKeyVal e look of
        Inl err \<Rightarrow> Inl err
      | Inr (key, val) \<Rightarrow> service_env look es
         (if key = ''FLAGS_experimental_segfault'' then (fst acc @ [''--experimental_segfault'', val], snd acc)
          else if key = ''FLAGS_experimental_deadlock'' then (fst acc @ [''--experimental_deadlock'', val], snd acc)
          else (fst acc, (snd acc)(key \<mapsto> val))))"

definition service_args :: "DepsScannerClient \<Rightarrow> string list" where
  "service_args ds =
     [dsExecutable ds, ''--server_address'', dsAddress ds, ''--cache_dir'', dsCacheDir ds,
      ''--deps_cache_max_mb'', show_signed (dsCacheFileMaxMb ds),
      if dsUseDepsCache ds then ''--enable_deps_cache'' else ''--noenable_deps_cache'']"

definition removeUDSFile :: "string \<Rightarrow> DepsScannerClient \<Rightarrow> DepsScannerClient" where
  "removeUDSFile addr ds =
     (if \<not> prefix ''unix'' addr then ds
      else if prefix ''unix://'' addr then logged (RemoveEv (trim_prefix ''unix://'' addr)) ds
      else if prefix ''unix:'' addr then logged (RemoveEv (trim_prefix ''unix:'' addr)) ds
      else logged (RemoveEv addr) ds)"

definition startService :: "scan_host \<Rightarrow> string \<Rightarrow> DepsScannerClient \<Rightarrow> DepsScannerClient \<times> scan_err option" where
  "startService H executable ds =
     (let n = n_starts (dsTrace ds);
          ds1 = ds\<lparr>dsTerminate := Some n, dsExecutable := executable\<rparr> in
      case service_env (hLookupEnv H) (hEnviron H) (service_args ds1, Map.empty) of
        Inr (cmdArgs, envVars) \<Rightarrow>
          (let envVars' = (if dsLogDir ds1 \<noteq> [] then envVars(''GLOG_log_dir'' \<mapsto> dsLogDir ds1) else envVars);
               ds2 = (removeUDSFile (dsAddress ds1) ds1)\<lparr>dsCh := Some n\<rparr>;
               r = hExecute H (dsTrace ds2) cmdArgs envVars' in
           (logged (StartEv n (r = None)) ds2, r))
      | Inl e \<Rightarrow> (ds1, Some e))"

text \<open>Waiting on the result channel, for at most the given time. A nil channel never delivers.\<close>

definition await_result :: "scan_host \<Rightarrow> int \<Rightarrow> DepsScannerClient \<Rightarrow> DepsScannerClient \<times> bool" where
  "await_result H timeout ds =
     (case dsCh ds of
        Some n \<Rightarrow> if hEnded H (dsTrace ds) n then (logged (ReceivedEv n) ds, True) else (logged (WaitEv timeout) ds, False)
      | None \<Rightarrow> (logged (WaitEv timeout) ds, False))"

definition terminate_service :: "DepsScannerClient \<Rightarrow> DepsScannerClient option" where
  "terminate_service ds = (case dsTerminate ds of None \<Rightarrow> None | Some n \<Rightarrow> Some (logged (KillEv n) ds))"

definition stopService :: "scan_host \<Rightarrow> int \<Rightarrow> DepsScannerClient \<Rightarrow> (DepsScannerClient \<times> scan_err option) option" where
  "stopService H timeout ds =
     (if dsExecutable ds = [] then Some (ds, None)
      else
        case (if dsConnected ds then Some (logged ShutdownEv ds) else terminate_service ds) of
          None \<Rightarrow> None
        | Some ds1 \<Rightarrow>
            (case await_result H timeout ds1 of
               (ds2, True) \<Rightarrow> Some (ds2, None)
             | (ds2, False) \<Rightarrow>
                 (case terminate_service ds2 of
                    None \<Rightarrow> None
                  | Some ds3 \<Rightarrow>
                      (case await_result H timeout ds3 of
                         (ds4, True) \<Rightarrow> Some (ds4, None)
                       | (ds4, False) \<Rightarrow> Some (ds4, Some (WrapErr ''could not shutdown'' (CtxErr CtxDeadline)))))))"

definition updateCapabilities :: "string \<Rightarrow> DepsScannerClient \<Rightarrow> DepsScannerClient" where
  "updateCapabilities c ds = ds\<lparr>dsCapabilities := Some c\<rparr>"

text \<open>\<open>verifyService\<close>: ten attempts; a client that is nil panics.\<close>

fun verify_loop :: "scan_host \<Rightarrow> nat \<Rightarrow> DepsScannerClient \<Rightarrow> (DepsScannerClient \<times> scan_err option) option" where
  "verify_loop H 0 ds = Some (ds, Some (WrapErr ''Unable to connect to server after 100 seconds'' (CtxErr CtxDeadline)))"
| "verify_loop H (Suc k) ds =
     (if \<not> dsConnected ds then None
      else
        let r = hCapabilities H (dsTrace ds); ds1 = logged CapsEv ds in
        if hCtxDone H (dsTrace ds1) then verify_loop H k ds1
        else case r of
          Inr c \<Rightarrow> Some (updateCapabilities c ds1, None)
        | Inl e \<Rightarrow> verify_loop H k (logged SleepEv ds1))"

definition verifyService :: "scan_host \<Rightarrow> DepsScannerClient \<Rightarrow> (DepsScannerClient \<times> scan_err option) option" where
  "verifyService H ds = verify_loop H 10 ds"

definition shutdownTimeout :: int where
  "shutdownTimeout = 60000000000"

text \<open>\<open>restartService\<close>; \<open>t\<close> is the time read before the lock is taken.\<close>

definition restartService ::
  "scan_host \<Rightarrow> int \<Rightarrow> string \<Rightarrow> DepsScannerClient \<Rightarrow> (DepsScannerClient \<times> scan_err option) option" where
  "restartService H t executable ds =
     (if executable = [] then Some (ds, Some (TextErr ''Service is not managed by reproxy''))
      else if (case dsServiceRestarted ds of None \<Rightarrow> False | Some s \<Rightarrow> t < s) then Some (ds, None)
      else
        case stopService H shutdownTimeout ds of
          None \<Rightarrow> None
        | Some (ds1, Some e) \<Rightarrow> Some (ds1, Some (WrapErr ''Unable to shutdown service'' e))
        | Some (ds1, None) \<Rightarrow>
            (case startService H executable ds1 of
               (ds2, Some e) \<Rightarrow> Some (ds2, Some (WrapErr ''Unable to start service'' e))
             | (ds2, None) \<Rightarrow>
                 (case verifyService H ds2 of
                    None \<Rightarrow> None
                  | Some (ds3, Some e) \<Rightarrow> Some (ds3, Some e)
                  | Some (ds3, None) \<Rightarrow> Some (ds3\<lparr>dsServiceRestarted := Some (hNow H (dsTrace ds3))\<rparr>, None))))"

section \<open>Operations of the client\<close>

text \<open>What the select in \<open>New\<close> sees first: the end of the context, the end of the process just
  started, or the answer of the goroutine that connects. The channel of the process is nil when
  none was started, and the select cannot see the second then.\<close>

datatype startup_event = ConnTimeout ctx_err | ServiceEnded scan_err | ConnectAnswer "scan_err + string"

record scan_config =
  scCacheDir :: string
  scCacheFileMaxMb :: int
  scUseDepsCache :: bool
  scLogDir :: string
  scDepsScannerAddress :: string
  scAddress :: "(scan_err, string) res"

definition connect_client ::
  "scan_host \<Rightarrow> startup_event \<Rightarrow> DepsScannerClient \<Rightarrow> (DepsScannerClient \<times> scan_err option) option" where
  "connect_client H ev ds =
     (case ev of
        ConnTimeout c \<Rightarrow>
          (case stopService H 1000000000 ds of
             None \<Rightarrow> None
           | Some (ds1, _) \<Rightarrow> Some (ds1, Some (WrapErr ''Failed to connect to dependency scanner service after timeout'' (CtxErr c))))
      | ServiceEnded e \<Rightarrow>
          (case dsCh ds of
             None \<Rightarrow> None
           | Some n \<Rightarrow> Some (logged (ReceivedEv n) ds, Some (WrapErr ''terminated during startup'' e)))
      | ConnectAnswer (Inl e) \<Rightarrow> Some (ds, Some (WrapErr ''Failed to connect to dependency scanner service'' e))
      | ConnectAnswer (Inr c) \<Rightarrow> Some (updateCapabilities c (ds\<lparr>dsConnected := True\<rparr>), None))"

definition new_client :: "scan_config \<Rightarrow> ds_event list \<Rightarrow> DepsScannerClient" where
  "new_client cfg tr =
     \<lparr>dsAddress = scDepsScannerAddress cfg, dsExecutable = [], dsCacheDir = scCacheDir cfg,
      dsCacheFileMaxMb = scCacheFileMaxMb cfg, dsUseDepsCache = scUseDepsCache cfg, dsLogDir = scLogDir cfg,
      dsConnected = False, dsTerminate = None, dsCh = None, dsServiceRestarted = None, dsCapabilities = None,
      dsTrace = tr\<rparr>"

definition NewClient ::
  "scan_host \<Rightarrow> scan_config \<Rightarrow> startup_event \<Rightarrow> ds_event list \<Rightarrow> (DepsScannerClient \<times> scan_err option) option" where
  "NewClient H cfg ev tr =
     (let ds = new_client cfg tr in
      if prefix ''exec://'' (scDepsScannerAddress cfg) then
        (case scAddress cfg of
           Err e \<Rightarrow> Some (ds, Some (WrapErr ''Failed to build address for dependency scanner'' e))
         | Panic \<Rightarrow> None
         | Ok addr \<Rightarrow>
             (case startService H (drop 7 (scDepsScannerAddress cfg)) (ds\<lparr>dsAddress := addr\<rparr>) of
                (ds1, Some e) \<Rightarrow> Some (ds1, Some (WrapErr ''Failed to start dependency scanner'' e))
              | (ds1, None) \<Rightarrow> connect_client H ev ds1))
      else connect_client H ev ds)"

text \<open>\<open>cppdependencyscanner.New\<close> tries a second time after any error.\<close>

definition NewDepsScanner ::
  "scan_host \<Rightarrow> scan_config \<Rightarrow> startup_event \<Rightarrow> startup_event \<Rightarrow> (DepsScannerClient \<times> scan_err option) option" where
  "NewDepsScanner H cfg ev ev' =
     (case NewClient H cfg ev [] of
        None \<Rightarrow> None
      | Some (ds, None) \<Rightarrow> Some (ds, None)
      | Some (ds, Some _) \<Rightarrow> NewClient H cfg ev' (dsTrace ds))"

definition Close :: "scan_host \<Rightarrow> DepsScannerClient \<Rightarrow> DepsScannerClient option" where
  "Close H ds =
     (if \<not> dsConnected ds then Some ds
      else case stopService H shutdownTimeout ds of
        None \<Rightarrow> None
      | Some (ds1, _) \<Rightarrow> Some (ds1\<lparr>dsConnected := False\<rparr>))"

text \<open>What the select of \<open>ProcessInputs\<close> sees: the end of the context, an error of the call with
  the state of the context at that moment, or a response.\<close>

datatype scan_outcome =
  CtxDone ctx_err
| RpcError scan_err "ctx_err option"
| Response string "string list" bool

definition abs_deps :: "string \<Rightarrow> string list \<Rightarrow> string list" where
  "abs_deps directory deps = map (\<lambda>p. if IsAbs p then p else Join [directory, p]) (filter (\<lambda>p. p \<noteq> []) deps)"

definition no_response :: "scan_err \<Rightarrow> scan_err" where
  "no_response e = WrapErr ''failed to get response from scandeps'' e"

definition process_outcome ::
  "scan_host \<Rightarrow> scan_outcome \<Rightarrow> int \<Rightarrow> string \<Rightarrow> DepsScannerClient \<Rightarrow>
   (DepsScannerClient \<times> (scan_err + string list \<times> bool)) option" where
  "process_outcome H oc t directory ds =
     (case oc of
        CtxDone c \<Rightarrow>
          if c \<noteq> CtxDeadline then Some (ds, Inl (no_response (CtxErr c)))
          else (case restartService H t (dsExecutable ds) ds of
            None \<Rightarrow> None
          | Some (ds1, None) \<Rightarrow> Some (ds1, Inl (no_response (CtxErr c)))
          | Some (ds1, Some e) \<Rightarrow>
              Some (ds1, Inl (WrapErr ''failed to get response from scandeps; additionally failed to restart service'' e)))
      | RpcError err ctx \<Rightarrow>
          if status_code err = Some CodeUnavailable \<and> ctx = None then
            (case restartService H t (dsExecutable ds) ds of
               None \<Rightarrow> None
             | Some (ds1, Some e) \<Rightarrow> Some (ds1, Inl (WrapErr ''communication with service lost; failed to restart service'' e))
             | Some (ds1, None) \<Rightarrow> Some (ds1, Inl (TextErr ''communication with service lost; service restarted'')))
          else if status_code err = Some CodeUnavailable \<and> ctx = Some CtxCanceled then
            Some (ds, Inl (no_response (CtxErr CtxCanceled)))
          else Some (ds, Inl (WrapErr ''An unexpected error occurred communicating with the service'' err))
      | Response error deps usedCache \<Rightarrow>
          if error \<noteq> [] then Some (ds, Inl (TextErr (''input processing failed: '' @ error)))
          else Some (ds, Inr (abs_deps directory deps, usedCache)))"

text \<open>The request itself needs the client; the rest runs when the outcome is there.\<close>

definition DsProcessInputs ::
  "scan_host \<Rightarrow> scan_outcome \<Rightarrow> int \<Rightarrow> string \<Rightarrow> DepsScannerClient \<Rightarrow>
   (DepsScannerClient \<times> (scan_err + string list \<times> bool)) option" where
  "DsProcessInputs H oc t directory ds = (if dsConnected ds then process_outcome H oc t directory ds else None)"

text \<open>Requests in flight end in any state, also after \<open>Close\<close>.\<close>

inductive ds_step :: "scan_host \<Rightarrow> DepsScannerClient \<Rightarrow> DepsScannerClient \<Rightarrow> bool" for H where
  RequestEnds: "process_outcome H oc t directory ds = Some (ds', r) \<Longrightarrow> ds_step H ds ds'"
| Closes: "Close H ds = Some ds' \<Longrightarrow> ds_step H ds ds'"


section \<open>Environment strings\<close>

text \<open>An environment string is taken apart so that both parts are those the environment has,
  however many equal signs key and value contain.\<close>

lemma find_SomeD: "find P xs = Some x \<Longrightarrow> P x \<and> x \<in> set xs"
  by (induction xs) (auto split: if_splits)

lemma take_drop_join:
  assumes "0 < i" and "i < length ws"
  shows "join_with sp (take i ws) @ sp @ join_with sp (drop i ws) = join_with sp ws"
proof -
  have "take i ws \<noteq> []" "drop i ws \<noteq> []" using assms by auto
  from join_with_append [OF this, of sp] show ?thesis by simp
qed

text \<open>Every way of writing a string as key, equal sign and value is tried.\<close>

lemma split_at_sep:
  "split_on c (k @ c # v) = split_on c k @ split_on c v \<and>
   join_with [c] (take (length (split_on c k)) (split_on c (k @ c # v))) = k \<and>
   join_with [c] (drop (length (split_on c k)) (split_on c (k @ c # v))) = v"
  by (simp add: split_on_append)

text \<open>A variable of the environment is found: the string that lists it is taken apart into a
  key and a value that the environment really has, also when they contain equal signs. When it
  contains exactly one, the parts are not looked up.\<close>

theorem findKeyVal_finds:
  assumes "look k = Some v"
  shows "\<exists>k' v'. findKeyVal (k @ ''='' @ v) look = Inr (k', v') \<and> look k' = Some v' \<and>
    (k' @ ''='' @ v' = k @ ''='' @ v \<or> k' = k @ ''='' @ v \<and> v' = [])"
proof (cases "length (split_on (CHR ''='') (k @ ''='' @ v)) = 2")
  case True
  have "split_on (CHR ''='') (k @ ''='' @ v) = split_on (CHR ''='') k @ split_on (CHR ''='') v"
    by (simp add: split_on_append)
  moreover obtain a where "split_on (CHR ''='') k = [a]"
    using True calculation by (cases "split_on (CHR ''='') k"; cases "split_on (CHR ''='') v"; auto)
  moreover obtain b where "split_on (CHR ''='') v = [b]"
    using True calculation by (cases "split_on (CHR ''='') v"; auto)
  ultimately have "split_on (CHR ''='') (k @ ''='' @ v) = [k, v]"
    using join_split [of "CHR ''=''" k] join_split [of "CHR ''=''" v] by simp
  then show ?thesis using assms by (simp add: findKeyVal_def)
next
  case False
  let ?ps = "split_on (CHR ''='') (k @ ''='' @ v)"
  let ?c = "map (\<lambda>i. (join_with ''='' (take i ?ps), join_with ''='' (drop i ?ps))) [1..<length ?ps + 1]"
  let ?i = "length (split_on (CHR ''='') k)"
  have "(k, v) \<in> set ?c"
  proof -
    have "(k, v) = (join_with ''='' (take ?i ?ps), join_with ''='' (drop ?i ?ps))"
      using split_at_sep [of "CHR ''=''" k v] by simp
    moreover have "?i \<in> set [1..<length ?ps + 1]"
      using split_at_sep [of "CHR ''=''" k v] by (simp add: Suc_le_eq)
    ultimately show ?thesis by force
  qed
  then have "find (\<lambda>(k, v). look k = Some v) ?c \<noteq> None" using assms by (auto simp: find_None_iff)
  then obtain k' v' where f: "find (\<lambda>(k, v). look k = Some v) ?c = Some (k', v')" by auto
  note fd = find_SomeD [OF f]
  then have l: "look k' = Some v'" and m: "(k', v') \<in> set ?c" by simp_all
  from m obtain i where i: "0 < i" "i \<le> length ?ps" "k' = join_with ''='' (take i ?ps)" "v' = join_with ''='' (drop i ?ps)"
    by (auto simp del: upt_Suc simp: less_Suc_eq_le Suc_le_eq)
  have "k' @ ''='' @ v' = k @ ''='' @ v \<or> k' = k @ ''='' @ v \<and> v' = []"
    using i take_drop_join [of i ?ps "''=''"] by (cases "i = length ?ps") simp_all
  then show ?thesis using False f l by (auto simp: findKeyVal_def)
qed


section \<open>One service at a time\<close>

text \<open>The executor sends the result of a process it has started once, on the channel of that
  process.\<close>

definition running :: "ds_event list \<Rightarrow> nat \<Rightarrow> bool" where
  "running tr n \<longleftrightarrow> StartEv n True \<in> set tr \<and> ReceivedEv n \<notin> set tr"

definition executor_ok :: "scan_host \<Rightarrow> bool" where
  "executor_ok H \<longleftrightarrow> (\<forall>tr n. hEnded H tr n \<longrightarrow> running tr n)"

definition numbered :: "ds_event list \<Rightarrow> bool" where
  "numbered tr \<longleftrightarrow> (\<forall>k b. StartEv k b \<in> set tr \<longrightarrow> k < n_starts tr)"

definition ds_inv :: "DepsScannerClient \<Rightarrow> bool" where
  "ds_inv ds \<longleftrightarrow>
     numbered (dsTrace ds) \<and>
     (\<forall>k. running (dsTrace ds) k \<longrightarrow> dsCh ds = Some k) \<and>
     (dsExecutable ds \<noteq> [] \<longrightarrow> dsTerminate ds \<noteq> None)"

definition idle :: "DepsScannerClient \<Rightarrow> bool" where
  "idle ds \<longleftrightarrow> (\<forall>k. \<not> running (dsTrace ds) k)"

text \<open>Calls that leave the process alone.\<close>

fun quiet :: "ds_event \<Rightarrow> bool" where
  "quiet (StartEv _ _) = False"
| "quiet (ReceivedEv _) = False"
| "quiet _ = True"

text \<open>What stays the same between two states, apart from the trace.\<close>

definition same_setup :: "DepsScannerClient \<Rightarrow> DepsScannerClient \<Rightarrow> bool" where
  "same_setup ds ds' \<longleftrightarrow> dsExecutable ds' = dsExecutable ds \<and> dsTerminate ds' = dsTerminate ds \<and> dsCh ds' = dsCh ds \<and>
     dsConnected ds' = dsConnected ds \<and> dsServiceRestarted ds' = dsServiceRestarted ds"

lemma logged_fields [simp]:
  "dsTrace (logged ev ds) = dsTrace ds @ [ev]" "dsCh (logged ev ds) = dsCh ds" "dsExecutable (logged ev ds) = dsExecutable ds"
  "dsTerminate (logged ev ds) = dsTerminate ds" "dsConnected (logged ev ds) = dsConnected ds"
  "dsServiceRestarted (logged ev ds) = dsServiceRestarted ds"
  by (simp_all add: logged_def)

lemma same_setup_logged [simp]: "same_setup ds (logged ev ds)"
  by (simp add: same_setup_def)

lemma same_setup_trans: "same_setup a b \<Longrightarrow> same_setup b c \<Longrightarrow> same_setup a c"
  by (simp add: same_setup_def)

lemma running_quiet [simp]: "quiet ev \<Longrightarrow> running (tr @ [ev]) k = running tr k"
  by (cases ev) (auto simp: running_def)

lemma running_received [simp]: "running (tr @ [ReceivedEv n]) k \<longleftrightarrow> k \<noteq> n \<and> running tr k"
  by (auto simp: running_def)

lemma n_starts_snoc [simp]: "n_starts (tr @ [ev]) = n_starts tr + (if is_start ev then 1 else 0)"
  by (simp add: n_starts_def)

lemma numbered_snoc [simp]:
  "\<not> is_start ev \<Longrightarrow> numbered (tr @ [ev]) = numbered tr" "numbered tr \<Longrightarrow> numbered (tr @ [StartEv (n_starts tr) b])"
  "numbered []"
  by (cases ev) (auto simp: numbered_def less_Suc_eq)

lemma ds_inv_logged: "ds_inv ds \<Longrightarrow> quiet ev \<Longrightarrow> ds_inv (logged ev ds)"
  by (cases ev) (auto simp: ds_inv_def)

lemma ds_inv_received: "ds_inv ds \<Longrightarrow> ds_inv (logged (ReceivedEv n) ds)"
  by (auto simp: ds_inv_def)

lemma idle_logged: "quiet ev \<Longrightarrow> idle (logged ev ds) = idle ds"
  by (simp add: idle_def)

lemma ds_inv_running: "ds_inv ds \<Longrightarrow> running (dsTrace ds) k \<Longrightarrow> dsCh ds = Some k"
  by (simp add: ds_inv_def)

lemma received_idle: "ds_inv ds \<Longrightarrow> dsCh ds = Some n \<Longrightarrow> idle (logged (ReceivedEv n) ds)"
  by (auto simp: ds_inv_def idle_def)

lemma await_result_inv:
  assumes "await_result H t ds = (ds', b)" and "ds_inv ds"
  shows "ds_inv ds' \<and> same_setup ds ds' \<and> (b \<longrightarrow> idle ds')"
  using assms by (auto simp: await_result_def ds_inv_logged ds_inv_received received_idle split: option.splits if_splits)

lemma terminate_service_inv:
  assumes "terminate_service ds = Some ds'" and "ds_inv ds"
  shows "ds_inv ds' \<and> same_setup ds ds'"
  using assms by (auto simp: terminate_service_def ds_inv_logged split: option.splits)

text \<open>Stopping succeeds only when the process has ended, or when there is none of our own.\<close>

lemma stopService_inv:
  assumes "stopService H t ds = Some (ds', e)" and "ds_inv ds"
  shows "ds_inv ds' \<and> same_setup ds ds' \<and> (e = None \<and> dsExecutable ds \<noteq> [] \<longrightarrow> idle ds')"
proof (cases "dsExecutable ds = []")
  case True
  then show ?thesis using True assms by (simp add: stopService_def same_setup_def)
next
  case False
  define m where "m = (if dsConnected ds then Some (logged ShutdownEv ds) else terminate_service ds)"
  have s: "stopService H t ds = (case m of None \<Rightarrow> None
        | Some ds1 \<Rightarrow>
            (case await_result H t ds1 of
               (ds2, True) \<Rightarrow> Some (ds2, None)
             | (ds2, False) \<Rightarrow>
                 (case terminate_service ds2 of
                    None \<Rightarrow> None
                  | Some ds3 \<Rightarrow>
                      (case await_result H t ds3 of
                         (ds4, True) \<Rightarrow> Some (ds4, None)
                       | (ds4, False) \<Rightarrow> Some (ds4, Some (WrapErr ''could not shutdown'' (CtxErr CtxDeadline)))))))"
    using False by (simp add: stopService_def m_def)
  obtain ds1 where m: "m = Some ds1" using s assms(1) by (cases m) auto
  have i1: "ds_inv ds1 \<and> same_setup ds ds1"
    using m assms(2) terminate_service_inv by (auto simp: m_def ds_inv_logged split: if_splits)
  obtain ds2 b where a: "await_result H t ds1 = (ds2, b)" by fastforce
  note i2 = await_result_inv [OF a conjunct1 [OF i1]]
  show ?thesis
  proof (cases b)
    case True
    then show ?thesis using s m a i1 i2 assms(1) same_setup_trans by auto
  next
    case False
    then obtain ds3 where k: "terminate_service ds2 = Some ds3"
      using s m a assms(1) by (cases "terminate_service ds2") auto
    have i3: "ds_inv ds3 \<and> same_setup ds2 ds3" using terminate_service_inv [OF k] i2 by blast
    obtain ds4 b' where a': "await_result H t ds3 = (ds4, b')" by fastforce
    note i4 = await_result_inv [OF a' conjunct1 [OF i3]]
    have "same_setup ds ds4" using i1 i2 i3 i4 same_setup_trans by blast
    then show ?thesis using s m a False k a' i4 assms(1) by (cases b') auto
  qed
qed

lemma removeUDSFile_inv:
  "ds_inv (removeUDSFile a ds) = ds_inv ds \<and> idle (removeUDSFile a ds) = idle ds \<and> same_setup ds (removeUDSFile a ds) \<and>
   n_starts (dsTrace (removeUDSFile a ds)) = n_starts (dsTrace ds)"
  by (auto simp: removeUDSFile_def ds_inv_def idle_def same_setup_def)

lemma startService_inv:
  assumes "startService H exe ds = (ds', e)" and "ds_inv ds" and "idle ds"
  shows "ds_inv ds' \<and> dsConnected ds' = dsConnected ds \<and> dsServiceRestarted ds' = dsServiceRestarted ds \<and>
    dsExecutable ds' = exe \<and> (e \<noteq> None \<longrightarrow> idle ds')"
proof -
  let ?n = "n_starts (dsTrace ds)"
  let ?ds1 = "ds\<lparr>dsTerminate := Some ?n, dsExecutable := exe\<rparr>"
  have i1: "ds_inv ?ds1" "idle ?ds1" using assms(2,3) by (simp_all add: ds_inv_def idle_def)
  show ?thesis
  proof (cases "service_env (hLookupEnv H) (hEnviron H) (service_args ?ds1, Map.empty)")
    case (Inl x)
    then show ?thesis using assms(1) i1 by (auto simp: startService_def Let_def)
  next
    case (Inr av)
    obtain args env where av: "av = (args, env)" by fastforce
    define ds2 where "ds2 = (removeUDSFile (dsAddress ?ds1) ?ds1)\<lparr>dsCh := Some ?n\<rparr>"
    have d: "ds' = logged (StartEv ?n (e = None)) ds2"
      using assms(1) Inr av by (auto simp: startService_def Let_def ds2_def)
    have f: "idle ds2" "dsExecutable ds2 = exe" "dsTerminate ds2 = Some ?n" "n_starts (dsTrace ds2) = ?n"
      "dsConnected ds2 = dsConnected ds" "dsServiceRestarted ds2 = dsServiceRestarted ds" "dsCh ds2 = Some ?n"
      using removeUDSFile_inv [of "dsAddress ?ds1" ?ds1] i1
      by (simp_all add: ds2_def idle_def same_setup_def)
    have st: "numbered (dsTrace ds2)"
    proof -
      have "ds_inv (removeUDSFile (dsAddress ?ds1) ?ds1)" using removeUDSFile_inv i1 by blast
      then show ?thesis by (simp add: ds_inv_def ds2_def)
    qed
    have r: "k = ?n \<and> e = None" if "running (dsTrace ds') k" for k
      using that f(1) d by (auto simp: running_def idle_def)
    have "numbered (dsTrace ds')" using numbered_snoc(2) [OF st] d f(4) by simp
    moreover have "dsCh ds' = Some ?n" "dsTerminate ds' = Some ?n" using d f by simp_all
    ultimately have "ds_inv ds'" using r unfolding ds_inv_def by blast
    moreover have "e \<noteq> None \<longrightarrow> idle ds'" using r unfolding idle_def by blast
    moreover have "dsConnected ds' = dsConnected ds" "dsServiceRestarted ds' = dsServiceRestarted ds" "dsExecutable ds' = exe"
      using d f by simp_all
    ultimately show ?thesis by blast
  qed
qed


lemma same_setup_caps [simp]: "same_setup ds (updateCapabilities c ds)"
  by (simp add: same_setup_def updateCapabilities_def)

lemma ds_inv_caps [simp]: "ds_inv (updateCapabilities c ds) = ds_inv ds" "idle (updateCapabilities c ds) = idle ds"
  by (simp_all add: ds_inv_def idle_def updateCapabilities_def)

lemma verify_loop_inv:
  assumes "verify_loop H k ds = Some (ds', e)" and "ds_inv ds"
  shows "ds_inv ds' \<and> same_setup ds ds'"
  using assms
proof (induction H k ds rule: verify_loop.induct)
  case (1 H ds)
  then show ?case by (simp add: same_setup_def)
next
  case (2 H k ds)
  let ?ds1 = "logged CapsEv ds"
  have i: "ds_inv ?ds1" "ds_inv (logged SleepEv ?ds1)" using 2(4) by (simp_all add: ds_inv_logged)
  have c: "dsConnected ds" using 2(3) by (auto split: if_splits)
  show ?case
  proof (cases "hCtxDone H (dsTrace ?ds1)")
    case True
    then have "ds_inv ds' \<and> same_setup ?ds1 ds'" using 2(1) [of "hCapabilities H (dsTrace ds)" ?ds1] 2(3) c i by simp
    then show ?thesis using same_setup_trans same_setup_logged by blast
  next
    case False
    show ?thesis
    proof (cases "hCapabilities H (dsTrace ds)")
      case (Inl x)
      then have "ds_inv ds' \<and> same_setup (logged SleepEv ?ds1) ds'"
        using 2(2) [of "hCapabilities H (dsTrace ds)" ?ds1 x] 2(3) c i False by simp
      then show ?thesis using same_setup_trans same_setup_logged by blast
    next
      case (Inr x)
      then have "ds' = updateCapabilities x ?ds1" using 2(3) c False by simp
      then show ?thesis using i same_setup_trans [OF same_setup_logged same_setup_caps] by simp
    qed
  qed
qed

lemma restartService_inv:
  assumes "restartService H t (dsExecutable ds) ds = Some (ds', e)" and "ds_inv ds"
  shows "ds_inv ds' \<and> dsExecutable ds' = dsExecutable ds \<and> dsConnected ds' = dsConnected ds"
proof (cases "dsExecutable ds = [] \<or> (case dsServiceRestarted ds of None \<Rightarrow> False | Some s \<Rightarrow> t < s)")
  case True
  then show ?thesis using assms by (auto simp: restartService_def split: if_splits)
next
  case False
  then obtain ds1 e1 where st: "stopService H shutdownTimeout ds = Some (ds1, e1)"
    using assms(1) by (auto simp: restartService_def split: option.splits if_splits)
  note i1 = stopService_inv [OF st assms(2)]
  show ?thesis
  proof (cases e1)
    case (Some x)
    then show ?thesis using assms(1) False st i1 by (auto simp: restartService_def same_setup_def)
  next
    case None
    obtain ds2 e2 where sv: "startService H (dsExecutable ds) ds1 = (ds2, e2)" by fastforce
    have i2: "ds_inv ds2 \<and> dsConnected ds2 = dsConnected ds1 \<and> dsExecutable ds2 = dsExecutable ds"
      using startService_inv [OF sv] i1 None False by blast
    show ?thesis
    proof (cases e2)
      case (Some x)
      then show ?thesis using assms(1) False st sv None i1 i2 by (auto simp: restartService_def same_setup_def)
    next
      case e2: None
      then obtain ds3 e3 where v: "verifyService H ds2 = Some (ds3, e3)"
        using assms(1) False st sv None by (auto simp: restartService_def split: option.splits)
      have i3: "ds_inv ds3 \<and> same_setup ds2 ds3" using verify_loop_inv v i2 by (auto simp: verifyService_def)
      have "ds_inv (ds3\<lparr>dsServiceRestarted := x\<rparr>)" for x using i3 by (simp add: ds_inv_def)
      then show ?thesis using assms(1) False st sv None e2 v i1 i2 i3
        by (cases e3) (auto simp: restartService_def same_setup_def)
    qed
  qed
qed

lemma process_outcome_inv:
  assumes "process_outcome H oc t dir ds = Some (ds', r)" and "ds_inv ds"
  shows "ds_inv ds'"
  using assms restartService_inv [of H t ds]
  by (auto simp: process_outcome_def split: scan_outcome.splits if_splits option.splits)

lemma Close_inv:
  assumes "Close H ds = Some ds'" and "ds_inv ds"
  shows "ds_inv ds'"
proof -
  have "ds_inv (d\<lparr>dsConnected := False\<rparr>) = ds_inv d" for d by (simp add: ds_inv_def)
  then show ?thesis
    using assms stopService_inv [of H shutdownTimeout ds] by (auto simp: Close_def split: if_splits option.splits)
qed

lemma ds_step_inv: "ds_step H ds ds' \<Longrightarrow> ds_inv ds \<Longrightarrow> ds_inv ds'"
  by (induction rule: ds_step.induct) (auto intro: process_outcome_inv Close_inv)

lemma connect_client_inv:
  assumes "connect_client H ev ds = Some (ds', e)" and "ds_inv ds"
  shows "ds_inv ds'"
proof -
  have "ds_inv (d\<lparr>dsConnected := b\<rparr>) = ds_inv d" for d b by (simp add: ds_inv_def)
  then show ?thesis
    using assms stopService_inv [of H 1000000000 ds]
    by (auto simp: connect_client_def ds_inv_received split: startup_event.splits option.splits sum.splits)
qed

lemma new_client_inv: "ds_inv (new_client cfg []\<lparr>dsAddress := a\<rparr>)" "idle (new_client cfg []\<lparr>dsAddress := a\<rparr>)" "ds_inv (new_client cfg [])"
  by (simp_all add: ds_inv_def idle_def new_client_def running_def)

lemma NewClient_inv:
  assumes "NewClient H cfg ev [] = Some (ds, e)"
  shows "ds_inv ds"
proof (cases "prefix ''exec://'' (scDepsScannerAddress cfg)")
  case True
  show ?thesis
  proof (cases "scAddress cfg")
    case (Ok addr)
    obtain ds1 e1 where s: "startService H (drop 7 (scDepsScannerAddress cfg)) (new_client cfg []\<lparr>dsAddress := addr\<rparr>) = (ds1, e1)"
      by fastforce
    have i: "ds_inv ds1" using startService_inv [OF s new_client_inv(1,2)] by blast
    then show ?thesis
      using assms True Ok s connect_client_inv [of H ev ds1] by (cases e1) (auto simp: NewClient_def)
  qed (use assms True new_client_inv(3) in \<open>auto simp: NewClient_def Let_def\<close>)
next
  case False
  then show ?thesis using assms connect_client_inv [OF _ new_client_inv(3)] by (auto simp: NewClient_def)
qed

interpretation scanner_client: step_invariant "ds_step H" "\<lambda>ds. \<exists>cfg ev e. NewClient H cfg ev [] = Some (ds, e)" ds_inv for H
proof unfold_locales
  show "ds_inv ds" if "\<exists>cfg ev e. NewClient H cfg ev [] = Some (ds, e)" for ds
    using that NewClient_inv by blast
qed (rule ds_step_inv)

lemma client_reachable_inv:
  assumes "NewClient H cfg ev [] = Some (ds0, e)" and "(ds_step H)\<^sup>*\<^sup>* ds0 ds"
  shows "ds_inv ds"
  using scanner_client.holds_reachable assms by blast



section \<open>A service that is lost for good\<close>

text \<open>The client owns a service but none runs: the channel it waits on will never deliver.\<close>

definition lost :: "DepsScannerClient \<Rightarrow> bool" where
  "lost ds \<longleftrightarrow> ds_inv ds \<and> dsExecutable ds \<noteq> [] \<and> idle ds"

definition gave_up :: scan_err where
  "gave_up = WrapErr ''could not shutdown'' (CtxErr CtxDeadline)"

lemma lost_logged: "lost ds \<Longrightarrow> quiet ev \<Longrightarrow> lost (logged ev ds)"
  by (simp add: lost_def ds_inv_logged idle_logged)

lemma lost_await: "executor_ok H \<Longrightarrow> lost ds \<Longrightarrow> await_result H t ds = (logged (WaitEv t) ds, False)"
  by (auto simp: await_result_def executor_ok_def lost_def idle_def split: option.splits)

lemma lost_terminate: "lost ds \<Longrightarrow> \<exists>n. terminate_service ds = Some (logged (KillEv n) ds)"
  by (auto simp: terminate_service_def lost_def ds_inv_def)

lemma lost_stop:
  assumes "executor_ok H" and "lost ds"
  shows "\<exists>ds'. stopService H t ds = Some (ds', Some gave_up) \<and> lost ds' \<and> same_setup ds ds'"
proof -
  obtain ev where ev: "quiet ev"
    "(if dsConnected ds then Some (logged ShutdownEv ds) else terminate_service ds) = Some (logged ev ds)"
    using lost_terminate [OF assms(2)] by (cases "dsConnected ds") (force intro: that [of ShutdownEv], force)
  let ?ds1 = "logged ev ds" and ?ds2 = "logged (WaitEv t) (logged ev ds)"
  have l: "lost ?ds1" "lost ?ds2" using assms(2) ev(1) by (simp_all add: lost_logged)
  obtain n where n: "terminate_service ?ds2 = Some (logged (KillEv n) ?ds2)" using lost_terminate [OF l(2)] by blast
  have l3: "lost (logged (KillEv n) ?ds2)" using l(2) by (simp add: lost_logged)
  have "stopService H t ds = Some (logged (WaitEv t) (logged (KillEv n) ?ds2), Some gave_up)"
    using assms(2) ev(2) n lost_await [OF assms(1) l(1)] lost_await [OF assms(1) l3]
    by (simp add: stopService_def gave_up_def lost_def)
  then show ?thesis using l3 by (auto simp: lost_logged same_setup_def)
qed

definition too_late :: "DepsScannerClient \<Rightarrow> int \<Rightarrow> bool" where
  "too_late ds t \<longleftrightarrow> (case dsServiceRestarted ds of None \<Rightarrow> False | Some s \<Rightarrow> t < s)"

lemma lost_restart:
  assumes "executor_ok H" and "lost ds"
  shows "\<exists>ds'. restartService H t (dsExecutable ds) ds =
      Some (ds', if too_late ds t then None else Some (WrapErr ''Unable to shutdown service'' gave_up)) \<and>
    lost ds' \<and> dsServiceRestarted ds' = dsServiceRestarted ds"
proof (cases "too_late ds t")
  case True
  then show ?thesis using assms(2) by (simp add: restartService_def too_late_def lost_def)
next
  case False
  obtain ds' where d: "stopService H shutdownTimeout ds = Some (ds', Some gave_up)" "lost ds'" "same_setup ds ds'"
    using lost_stop [OF assms] by blast
  have "restartService H t (dsExecutable ds) ds = Some (ds', Some (WrapErr ''Unable to shutdown service'' gave_up))"
    using False d(1) assms(2) by (simp add: restartService_def too_late_def lost_def)
  then show ?thesis using False d by (simp add: same_setup_def)
qed

lemma lost_step:
  assumes "ds_step H ds ds'" and "executor_ok H" and "lost ds"
  shows "lost ds' \<and> dsServiceRestarted ds' = dsServiceRestarted ds"
  using assms(1)
proof cases
  case (RequestEnds oc t directory r)
  obtain d e where r: "restartService H t (dsExecutable ds) ds = Some (d, e)" "lost d" "dsServiceRestarted d = dsServiceRestarted ds"
    using lost_restart [OF assms(2,3)] by blast
  then show ?thesis
    using RequestEnds assms(3) by (auto simp: process_outcome_def split: scan_outcome.splits if_splits option.splits)
next
  case Closes
  obtain d e where "stopService H shutdownTimeout ds = Some (d, Some gave_up)" "lost d" "same_setup ds d"
    using lost_stop [OF assms(2,3)] by blast
  then show ?thesis using Closes assms(3)
    by (auto simp: Close_def lost_def ds_inv_def idle_def same_setup_def split: if_splits)
qed

lemma lost_steps:
  assumes "(ds_step H)\<^sup>*\<^sup>* ds ds'" and "executor_ok H" and "lost ds"
  shows "lost ds' \<and> dsServiceRestarted ds' = dsServiceRestarted ds"
  using assms(1)
  by (induction rule: rtranclp_induct) (use assms(3) lost_step [OF _ assms(2)] in auto)

lemma failed_start_lost:
  assumes "restartService H t (dsExecutable ds) ds = Some (ds1, Some (WrapErr ''Unable to start service'' e))" and "ds_inv ds"
  shows "lost ds1"
proof -
  have ne: "dsExecutable ds \<noteq> []" "\<not> too_late ds t"
    using assms(1) by (auto simp: restartService_def too_late_def split: if_splits option.splits)
  obtain d e1 where s: "stopService H shutdownTimeout ds = Some (d, e1)"
    using assms(1) ne by (auto simp: restartService_def too_late_def split: option.splits if_splits)
  have e1: "e1 = None" using assms(1) ne s by (cases e1) (auto simp: restartService_def too_late_def)
  note i = stopService_inv [OF s assms(2)]
  obtain d2 e2 where sv: "startService H (dsExecutable ds) d = (d2, e2)" by fastforce
  have i2: "ds_inv d2 \<and> dsExecutable d2 = dsExecutable ds \<and> (e2 \<noteq> None \<longrightarrow> idle d2)"
    using startService_inv [OF sv] i e1 ne by blast
  have "e2 \<noteq> None"
  proof
    assume "e2 = None"
    then have "verifyService H d2 = Some (ds1, Some (WrapErr ''Unable to start service'' e))"
      using assms(1) ne s e1 sv by (auto simp: restartService_def too_late_def split: option.splits)
    moreover have "verify_loop H k d2 \<noteq> Some (x, Some (WrapErr ''Unable to start service'' e))" for k x
      by (induction k arbitrary: d2) (auto simp: Let_def split: if_splits sum.splits)
    ultimately show False by (simp add: verifyService_def)
  qed
  then show ?thesis using assms(1) ne s e1 sv i2 by (auto simp: restartService_def too_late_def lost_def)
qed

text \<open>C19: When the service cannot be started again after it was stopped, it is lost for good: no
  later restart succeeds, whatever happens in between, since each waits for the end of a process
  that does not exist, twice the full timeout.\<close>

theorem failed_restart_is_final:
  assumes "executor_ok H" and "NewClient H cfg ev [] = Some (ds0, e0)" and "(ds_step H)\<^sup>*\<^sup>* ds0 ds"
    and "restartService H t (dsExecutable ds) ds = Some (ds1, Some (WrapErr ''Unable to start service'' e))"
    and "(ds_step H)\<^sup>*\<^sup>* ds1 ds2" and "\<not> too_late ds1 t'"
  shows "\<exists>ds3. restartService H t' (dsExecutable ds2) ds2 = Some (ds3, Some (WrapErr ''Unable to shutdown service'' gave_up))"
proof -
  have "lost ds1" using failed_start_lost [OF assms(4) client_reachable_inv [OF assms(2,3)]] .
  then have l: "lost ds2" "dsServiceRestarted ds2 = dsServiceRestarted ds1" using lost_steps [OF assms(5,1)] by simp_all
  then have "\<not> too_late ds2 t'" using assms(6) by (simp add: too_late_def)
  then show ?thesis using lost_restart [OF assms(1) l(1), of t'] by auto
qed


section \<open>The address of the service\<close>

lemma replace_all_differs:
  assumes "contains old s" and "old \<noteq> []" and "new \<noteq> []" and "hd new \<noteq> hd old"
  shows "replace_all old new 0 s \<noteq> s"
  using assms(1)
proof (induction s)
  case (Cons c s)
  show ?case
  proof (cases "prefix old (c # s)")
    case True
    then have "hd old = c" using assms(2) by (cases old) (auto simp: prefix_def)
    then show ?thesis using True assms(3,4) by (cases new) auto
  next
    case False
    then show ?thesis using Cons by simp
  qed
qed (use assms(2) in simp)

definition path_file :: "string \<Rightarrow> string" where
  "path_file p = snd (path_dir_file p)"

lemma path_file_plain:
  assumes "CHR ''/'' \<notin> set g"
  shows "path_file g = g"
proof -
  have "takeWhile (\<lambda>c. c \<noteq> CHR ''/'') (rev g) = rev g" using assms by (subst takeWhile_eq_all_conv) auto
  then show ?thesis unfolding path_file_def path_dir_file_def by (simp only: snd_conv rev_rev_ident)
qed

lemma path_file_slash: "path_file (CHR ''/'' # p) = path_file p"
  by (simp add: path_file_def path_dir_file_def takeWhile_tail)

lemma path_file_append: "CHR ''/'' \<notin> set g \<Longrightarrow> path_file (a @ CHR ''/'' # g) = g"
  by (simp add: path_file_def path_dir_file_def) (subst takeWhile_append2, auto)

lemma path_file_no_slash: "CHR ''/'' \<notin> set (path_file p)"
  using set_takeWhileD by (fastforce simp: path_file_def path_dir_file_def)

lemma path_file_Clean:
  assumes "clean_elems q = es @ [g]" and "CHR ''/'' \<notin> set g"
  shows "path_file (Clean q) = g"
proof (cases "es = []")
  case True
  then show ?thesis
    using assms path_file_append [OF assms(2), of "[]"] by (simp add: Clean_def render_path_def path_file_plain)
next
  case False
  then have "path_join (es @ [g]) = path_join es @ CHR ''/'' # g" by (simp add: join_with_append)
  then show ?thesis
    using assms path_file_append [OF assms(2), of "path_join es"] path_file_append [OF assms(2), of "CHR ''/'' # path_join es"]
    by (simp add: Clean_def render_path_def)
qed

lemma path_file_Join:
  assumes "plain_elem g" and "CHR ''/'' \<notin> set g" and "g \<noteq> ''..''"
  shows "path_file (Join [d, g]) = g"
proof -
  have push: "push_elem r st g = g # st" for r st
    using assms(1,3) by (simp add: push_elem_def plain_elem_def)
  show ?thesis
  proof (cases "d = []")
    case True
    have "clean_elems g = [] @ [g]" using assms(2) push by (simp add: clean_elems_def split_on_notin)
    then show ?thesis using True assms path_file_Clean by (auto simp: Join_def plain_elem_def)
  next
    case False
    then have "clean_elems (d @ CHR ''/'' # g) = clean_elems d @ [g]"
      using clean_elems_append [OF False, of g] assms(2) push by (simp add: split_on_notin)
    then show ?thesis using False path_file_Clean [OF _ assms(2)] by (simp add: Join_def)
  qed
qed

text \<open>For a proxy that listens on a Unix socket the scanner gets an address of its own: never
  the proxy's, and either a TCP port or a socket path within the length limit. The limit is not
  checked when the address of the proxy contains its usual name.\<close>

theorem buildAddress_unix:
  assumes "buildAddress True windows tmpDir rnd openPort addr = Ok a" and "prefix ''unix://'' addr"
  shows "a \<noteq> addr \<and> (contains ''reproxy'' addr \<or> prefix ''unix:'' a \<and> length a \<le> 115 \<or>
    (\<exists>port. openPort = Ok port \<and> a = ''127.0.0.1:'' @ show_base 10 port))"
proof (cases "contains ''reproxy'' addr")
  case True
  then have "a = replace_all ''reproxy'' ''depscan'' 0 addr" using assms by (simp add: buildAddress_def Let_def)
  then show ?thesis using True replace_all_differs [OF True, of "''depscan''"] by simp
next
  case False
  obtain p where addr: "addr = ''unix://'' @ p" using assms(2) by (auto simp: prefix_def)
  have p: "drop 7 addr = p" using addr by simp
  obtain dir f where df: "path_dir_file p = (dir, f)" by fastforce
  let ?sp = "Join [dir, ''ds_'' @ f]"
  have f: "f = path_file p" by (simp add: path_file_def df)
  have pf: "path_file ?sp = ''ds_'' @ f"
    by (rule path_file_Join) (use f path_file_no_slash in \<open>auto simp: plain_elem_def\<close>)
  then have ne: "?sp \<noteq> p" using f by auto
  show ?thesis
  proof (cases "0 < length ?sp \<and> length ?sp \<le> 108")
    case True
    then have a: "a = (if windows then ''unix:'' else ''unix://'') @ ?sp"
      using assms False df p by (simp add: buildAddress_def Let_def)
    have ne': "?sp \<noteq> ''//'' @ p"
    proof
      assume "?sp = ''//'' @ p"
      then have "path_file ?sp = path_file (''//'' @ p)" by simp
      then show False using pf f by (simp add: path_file_slash)
    qed
    have "a \<noteq> addr"
    proof (cases windows)
      case True
      then show ?thesis using a ne' addr by simp
    next
      case False
      then show ?thesis using a ne addr by simp
    qed
    then show ?thesis using a True by simp
  next
    case False
    have "SplitHostPort ''127.0.0.1:0'' = Some (''127.0.0.1'', ''0'')" by code_simp
    then have "\<exists>port. openPort = Ok port \<and> a = ''127.0.0.1:'' @ show_base 10 port"
      using assms False \<open>\<not> contains ''reproxy'' addr\<close> df p by (cases openPort) (auto simp: buildAddress_def Let_def split: if_splits)
    then show ?thesis using assms(2) by (auto simp: prefix_def)
  qed
qed

section \<open>Reports of a scan\<close>

lemma abs_deps_abs: "IsAbs directory \<Longrightarrow> p \<in> set (abs_deps directory deps) \<Longrightarrow> IsAbs p"
  by (auto simp: abs_deps_def IsAbs_Join)

lemma verify_loop_err: "verify_loop H k ds = Some (ds', Some e) \<Longrightarrow> is_deadline e"
  by (induction H k ds rule: verify_loop.induct) (auto simp: Let_def split: if_splits sum.splits)

lemma stopService_err: "stopService H t ds = Some (ds', Some e) \<Longrightarrow> e = gave_up"
  by (auto simp: stopService_def gave_up_def split: if_splits option.splits prod.splits bool.splits)

text \<open>A scan that timed out is reported as a timeout when the service was restarted, could not be
  stopped or does not answer; it is not when it cannot be started, and never when reproxy does
  not manage the service.\<close>

theorem timeout_reported:
  assumes "process_outcome H (CtxDone CtxDeadline) t directory ds = Some (ds', r)"
  shows "\<exists>e. r = Inl e \<and> (dsExecutable ds = [] \<and> \<not> is_deadline e \<or> dsExecutable ds \<noteq> [] \<and>
    (is_deadline e \<or> (\<exists>msg e'. e = WrapErr msg (WrapErr ''Unable to start service'' e'))))"
proof (cases "dsExecutable ds = []")
  case True
  then show ?thesis using assms by (auto simp: process_outcome_def restartService_def)
next
  case False
  obtain d q where q: "restartService H t (dsExecutable ds) ds = Some (d, q)"
    using assms by (auto simp: process_outcome_def split: option.splits)
  have "is_deadline x \<or> (\<exists>e'. x = WrapErr ''Unable to start service'' e')" if "q = Some x" for x
    using q that False verify_loop_err stopService_err
    by (fastforce simp: restartService_def verifyService_def gave_up_def split: option.splits if_splits prod.splits)
  then show ?thesis using assms False q by (cases q) (auto simp: process_outcome_def no_response_def)
qed


lemma terminate_total: "ds_inv ds \<Longrightarrow> dsExecutable ds \<noteq> [] \<Longrightarrow> \<exists>ds'. terminate_service ds = Some ds'"
  by (auto simp: terminate_service_def ds_inv_def)

lemma stopService_total:
  assumes "ds_inv ds"
  shows "\<exists>ds' e. stopService H t ds = Some (ds', e)"
proof (cases "dsExecutable ds = []")
  case False
  define m where "m = (if dsConnected ds then Some (logged ShutdownEv ds) else terminate_service ds)"
  obtain ds1 where m: "m = Some ds1" using terminate_total [OF assms False] by (cases "dsConnected ds") (auto simp: m_def)
  have i1: "ds_inv ds1 \<and> same_setup ds ds1"
    using m assms terminate_service_inv by (auto simp: m_def ds_inv_logged split: if_splits)
  obtain ds2 b where a: "await_result H t ds1 = (ds2, b)" by fastforce
  have i2: "ds_inv ds2" "dsExecutable ds2 \<noteq> []" using await_result_inv [OF a] i1 False by (auto simp: same_setup_def)
  obtain ds3 where k: "terminate_service ds2 = Some ds3" using terminate_total [OF i2] by blast
  obtain ds4 b' where a': "await_result H t ds3 = (ds4, b')" by fastforce
  show ?thesis
    using False m a k a' by (cases b; cases b') (simp_all add: stopService_def m_def [symmetric])
qed (simp add: stopService_def)

lemma verify_loop_total: "dsConnected ds \<Longrightarrow> \<exists>ds' e. verify_loop H k ds = Some (ds', e)"
  by (induction H k ds rule: verify_loop.induct) (auto simp: Let_def split: sum.splits)

lemma restartService_total:
  assumes "ds_inv ds" and "dsConnected ds"
  shows "\<exists>ds' e. restartService H t (dsExecutable ds) ds = Some (ds', e)"
proof (cases "dsExecutable ds = [] \<or> too_late ds t")
  case True
  then show ?thesis by (auto simp: restartService_def too_late_def)
next
  case False
  obtain ds1 e1 where s: "stopService H shutdownTimeout ds = Some (ds1, e1)" using stopService_total [OF assms(1)] by blast
  note i = stopService_inv [OF s assms(1)]
  obtain ds2 e2 where sv: "startService H (dsExecutable ds) ds1 = (ds2, e2)" by fastforce
  have c: "dsConnected ds2" if "e1 = None"
    using startService_inv [OF sv] i that False assms(2) by (auto simp: same_setup_def)
  show ?thesis
  proof (cases "e1 = None \<and> e2 = None")
    case True
    then obtain ds3 e3 where "verifyService H ds2 = Some (ds3, e3)"
      using verify_loop_total [OF c] unfolding verifyService_def by blast
    then show ?thesis using False s sv True by (cases e3) (simp_all add: restartService_def too_late_def)
  next
    case ended: False
    then show ?thesis using False s sv by (cases e1; cases e2) (simp_all add: restartService_def too_late_def)
  qed
qed

text \<open>A connected client answers every request, with dependencies or an error: restarting never
  meets a nil channel or cancel function. The dependencies are absolute paths.\<close>

theorem requests_answered:
  assumes "NewClient H cfg ev [] = Some (ds0, e)" and "(ds_step H)\<^sup>*\<^sup>* ds0 ds" and "dsConnected ds" and "IsAbs directory"
  shows "\<exists>ds' r. DsProcessInputs H oc t directory ds = Some (ds', r) \<and> (case r of Inl _ \<Rightarrow> True | Inr (deps, _) \<Rightarrow> list_all IsAbs deps)"
proof -
  obtain d q where q: "restartService H t (dsExecutable ds) ds = Some (d, q)"
    using restartService_total [OF client_reachable_inv [OF assms(1,2)] assms(3)] by blast
  show ?thesis
  proof (cases oc)
    case (CtxDone c)
    then show ?thesis using q assms(3) by (cases q) (auto simp: DsProcessInputs_def process_outcome_def)
  next
    case (RpcError err ctx)
    then show ?thesis using q assms(3) by (cases q) (auto simp: DsProcessInputs_def process_outcome_def)
  next
    case (Response error deps usedCache)
    then show ?thesis
      using assms(3) abs_deps_abs [OF assms(4)] by (auto simp: DsProcessInputs_def process_outcome_def list_all_iff)
  qed
qed

section \<open>Concrete runs\<close>

text \<open>A host on which the service can be started once; every process ends when it is waited for.\<close>

definition demo_host :: scan_host where
  "demo_host = \<lparr>hEnviron = [''A=b'', ''OPTS=-x=1''], hLookupEnv = map_of [(''A'', ''b''), (''OPTS'', ''-x=1'')],
     hExecute = (\<lambda>tr args env. if n_starts tr = 0 then None else Some (TextErr ''no memory'')),
     hEnded = running, hCapabilities = (\<lambda>tr. Inr ''caps''), hCtxDone = (\<lambda>tr. False), hNow = (\<lambda>tr. int (length tr))\<rparr>"

definition demo_config :: scan_config where
  "demo_config = \<lparr>scCacheDir = ''/c'', scCacheFileMaxMb = 128, scUseDepsCache = True, scLogDir = ''/log'',
     scDepsScannerAddress = ''exec:///bin/scan'', scAddress = Ok ''unix:///tmp/depscan.sock''\<rparr>"

definition demo_client :: DepsScannerClient where
  "demo_client = fst (the (NewClient demo_host demo_config (ConnectAnswer (Inr ''caps'')) []))"

definition demo_lost :: DepsScannerClient where
  "demo_lost = fst (the (restartService demo_host 1 ''/bin/scan'' demo_client))"

definition demo_err :: scan_err where
  "demo_err = TextErr ''no memory''"

lemma demo_executor: "executor_ok demo_host"
  by (simp add: executor_ok_def demo_host_def)

lemma demo_new: "NewClient demo_host demo_config (ConnectAnswer (Inr ''caps'')) [] = Some (demo_client, None)"
proof -
  have "map_option snd (NewClient demo_host demo_config (ConnectAnswer (Inr ''caps'')) []) = Some None" by code_simp
  then show ?thesis by (auto simp: demo_client_def)
qed

lemma demo_client_fields:
  "dsExecutable demo_client = ''/bin/scan''" "dsConnected demo_client"
  "dsTrace demo_client = [RemoveEv ''/tmp/depscan.sock'', StartEv 0 True]"
  by code_simp+

theorem findKeyVal_finds_witness:
  "\<exists>k' v'. findKeyVal ''OPTS=-x=1'' (hLookupEnv demo_host) = Inr (k', v') \<and> hLookupEnv demo_host k' = Some v'"
  using findKeyVal_finds [of "hLookupEnv demo_host" "''OPTS''" "''-x=1''"] by (fastforce simp: demo_host_def)


theorem failed_restart_is_final_witness:
  "\<exists>ds3. restartService demo_host 9 ''/bin/scan'' demo_lost = Some (ds3, Some (WrapErr ''Unable to shutdown service'' gave_up))"
proof -
  have r: "restartService demo_host 1 (dsExecutable demo_client) demo_client =
      Some (demo_lost, Some (WrapErr ''Unable to start service'' demo_err))"
  proof -
    have "map_option snd (restartService demo_host 1 ''/bin/scan'' demo_client) =
      Some (Some (WrapErr ''Unable to start service'' demo_err))" by code_simp
    then show ?thesis by (auto simp: demo_client_fields demo_lost_def)
  qed
  have "dsExecutable demo_lost = ''/bin/scan''" "\<not> too_late demo_lost 9" by code_simp+
  then show ?thesis
    using failed_restart_is_final [OF demo_executor demo_new rtranclp.rtrancl_refl r rtranclp.rtrancl_refl] by simp
qed

theorem buildAddress_unix_witness: "''unix:///tmp/ds_rp.sock'' \<noteq> ''unix:///tmp/rp.sock''"
proof -
  have "buildAddress True False ''/tmp'' 7 (Ok 80) ''unix:///tmp/rp.sock'' = Ok ''unix:///tmp/ds_rp.sock''" by code_simp
  from buildAddress_unix [OF this] show ?thesis by simp
qed

theorem timeout_reported_witness:
  "\<exists>e ds'. process_outcome demo_host (CtxDone CtxDeadline) 1 ''/r'' demo_client = Some (ds', Inl e) \<and>
     (is_deadline e \<or> (\<exists>msg e'. e = WrapErr msg (WrapErr ''Unable to start service'' e')))"
proof -
  obtain ds' r where "process_outcome demo_host (CtxDone CtxDeadline) 1 ''/r'' demo_client = Some (ds', r)"
    using restartService_total [OF client_reachable_inv [OF demo_new rtranclp.rtrancl_refl] demo_client_fields(2)]
    by (fastforce simp: process_outcome_def split: option.splits)
  from timeout_reported [OF this] this show ?thesis by (auto simp: demo_client_fields)
qed

theorem requests_answered_witness:
  "\<exists>ds' r. DsProcessInputs demo_host (Response [] [''a.h'', ''/b.h''] False) 1 ''/r'' demo_client = Some (ds', r) \<and>
     (case r of Inl _ \<Rightarrow> True | Inr (deps, _) \<Rightarrow> list_all IsAbs deps)"
  by (rule requests_answered [OF demo_new rtranclp.rtrancl_refl demo_client_fields(2)]) (simp add: IsAbs_def)

text \<open>When connecting fails with an error instead of a timeout the service just started is not
  stopped, and the second attempt starts another one beside it.\<close>

lemma NewDepsScanner_leaks:
  "map_option (\<lambda>(ds, e). e = None \<and> running (dsTrace ds) 0 \<and> running (dsTrace ds) 1)
     (NewDepsScanner (demo_host\<lparr>hExecute := \<lambda>tr args env. None\<rparr>) demo_config (ConnectAnswer (Inl (TextErr ''refused'')))
        (ConnectAnswer (Inr ''caps''))) = Some True"
  by code_simp

text \<open>The brackets of an IPv6 host are lost when the port is put behind it.\<close>

lemma buildAddress_ipv6: "buildAddress True False ''/tmp'' 7 (Ok 80) ''[::1]:8000'' = Ok ''::1:80''"
  by code_simp

end
