(* ===== verification/JavaPreprocessors.thy ===== *)
theory JavaPreprocessors
  imports InputProcessor GoRegexp
begin

text \<open>
  The preprocessors of R8 and Metalava actions (\<open>inputprocessor/action/r8/preprocessor.go\<close> and
  \<open>action/metalava/preprocessor.go\<close>): flag files that include others, and the version check. File
  contents, the single-flight caches and the executor are arguments. The recursion through
  included files is a partial function, as it does not end when a file includes itself.
\<close>

section \<open>R8\<close>

definition includePrefix :: string where
  "includePrefix = ''-include ''"

text \<open>The files one flag file includes; \<open>None\<close> is an error of opening or scanning it.\<close>

definition flag_file_includes :: "(string \<Rightarrow> string list option) \<Rightarrow> string \<Rightarrow> string \<Rightarrow> string \<Rightarrow> (unit, string list) res" where
  "flag_file_includes readLines execRoot workingDir f =
     (case readLines (Join [execRoot, workingDir, f]) of
        None \<Rightarrow> Err ()
      | Some ls \<Rightarrow> Ok (map (\<lambda>l. Join [Dir f, drop (length includePrefix) l]) (filter (prefix includePrefix) ls)))"

text \<open>The loop over the included files, each followed by what it includes itself.\<close>

primrec include_loop ::
  "(string \<Rightarrow> (unit, string list) res option) \<Rightarrow> string list \<Rightarrow> string list \<Rightarrow> (unit, string list) res option" where
  "include_loop rec [] includes = Some (Ok includes)"
| "include_loop rec (inc # v) includes =
     Option.bind (rec inc) (\<lambda>r. case r of
        Ok sub \<Rightarrow> include_loop rec v (includes @ [inc] @ sub)
      | Err e \<Rightarrow> Some (Err e)
      | Panic \<Rightarrow> Some Panic)"

lemma include_loop_mono [partial_function_mono]:
  assumes "\<And>x. mono_option (\<lambda>f. g f x)"
  shows "mono_option (\<lambda>f. include_loop (g f) v acc)"
proof (induction v arbitrary: acc)
  case Nil
  then show ?case by (simp add: option.const_mono)
next
  case (Cons inc v)
  show ?case
    unfolding include_loop.simps
  proof (rule bind_mono [OF assms])
    fix r :: "(unit, string list) res"
    show "mono_option (\<lambda>f. case r of Ok sub \<Rightarrow> include_loop (g f) v (acc @ [inc] @ sub) | Err e \<Rightarrow> Some (Err e) | Panic \<Rightarrow> Some Panic)"
      by (cases r) (simp_all add: Cons.IH option.const_mono del: append_Cons append.simps)
  qed
qed

text \<open>\<open>includesInFlagsFile\<close>; \<open>load\<close> is the lookup in the process-wide cache under the name of the
  file, with what the file gives now.\<close>

partial_function (option) includesInFlagsFile ::
  "(string \<Rightarrow> (unit, string list) res \<Rightarrow> (unit, string list) res) \<Rightarrow> (string \<Rightarrow> string list option) \<Rightarrow> string \<Rightarrow> string \<Rightarrow>
   string \<Rightarrow> (unit, string list) res option" where
  "includesInFlagsFile load readLines execRoot workingDir f =
     (case load f (flag_file_includes readLines execRoot workingDir f) of
        Ok v \<Rightarrow> include_loop (includesInFlagsFile load readLines execRoot workingDir) v []
      | Err e \<Rightarrow> Some (Err e)
      | Panic \<Rightarrow> Some Panic)"

definition is_flag_file :: "string \<Rightarrow> bool" where
  "is_flag_file dep \<longleftrightarrow> Ext dep = ''.txt'' \<or> Ext dep = ''.flags''"

primrec flag_file_deps ::
  "(string \<Rightarrow> (unit, string list) res option) \<Rightarrow> string list \<Rightarrow> string list \<Rightarrow> (unit, string list) res option" where
  "flag_file_deps incs [] inputs = Some (Ok inputs)"
| "flag_file_deps incs (dep # deps) inputs =
     (if is_flag_file dep
      then (case incs dep of
              None \<Rightarrow> None
            | Some (Ok depIncludes) \<Rightarrow> flag_file_deps incs deps (inputs @ depIncludes)
            | Some (Err e) \<Rightarrow> Some (Err e)
            | Some Panic \<Rightarrow> Some Panic)
      else flag_file_deps incs deps inputs)"

text \<open>\<open>ComputeSpec\<close> as the outer option says: \<open>None\<close> when it never returns; inside, \<open>Panic\<close> when the
  flags are nil or no spec exists.\<close>

definition R8ComputeSpec ::
  "(string \<Rightarrow> (unit, string list) res \<Rightarrow> (unit, string list) res) \<Rightarrow> (string \<Rightarrow> string list option) \<Rightarrow>
   BaseState \<Rightarrow> (ip_error, BaseState \<times> ip_error option) res option" where
  "R8ComputeSpec load readLines c =
     (case BpFlags c of
        None \<Rightarrow> Some Panic
      | Some f \<Rightarrow>
          Option.bind (flag_file_deps
              (includesInFlagsFile load readLines (OptExecRoot (BpOptions c)) (WorkingDir (BpOptions c))) (Dependencies f) [])
            (\<lambda>r. Some (case r of
               Panic \<Rightarrow> Panic
             | Err e \<Rightarrow> Ok (c, Some SpecFailed)
             | Ok incs \<Rightarrow>
                 (let c1 = AppendSpec (Some (spec_of_inputs (empty_input_spec\<lparr>Inputs := incs\<rparr>))) c in
                  case BaseSpec c1 of
                    Ok s \<Rightarrow> Ok (AppendSpec (Some (virtual_output_dirs s)) c1, None)
                  | Err e \<Rightarrow> Ok (c1, Some e)
                  | Panic \<Rightarrow> Panic))))"

section \<open>Metalava\<close>

text \<open>\<open>^[\w\s]+:\s*(.+)\<close>.\<close>

definition re_word :: "char \<Rightarrow> bool" where
  "re_word c \<longleftrightarrow> (let n = of_char c :: nat in 48 \<le> n \<and> n \<le> 57 \<or> 65 \<le> n \<and> n \<le> 90 \<or> 97 \<le> n \<and> n \<le> 122 \<or> n = 95)"

definition re_word_space :: "char \<Rightarrow> bool" where
  "re_word_space c \<longleftrightarrow> re_word c \<or> re_space c"

definition metalavaRE :: re where
  "metalavaRE = Cat (re_plus re_word_space) (Cat (re_char (CHR '':'')) (Cat (re_star re_space) (Group (re_plus re_dot))))"

text \<open>The expression is anchored: only a match at the start of the line counts.\<close>

definition metalava_match :: "string \<Rightarrow> string option" where
  "metalava_match l = (case match_at metalavaRE l of [] \<Rightarrow> None | (c, _) # _ \<Rightarrow> Some (hd c))"

definition line_fields :: "string \<Rightarrow> string list" where
  "line_fields s = filter (\<lambda>w. w \<noteq> [])
     (split_on (CHR 0x0A) (map (\<lambda>c. if c = CHR 0x0D then CHR 0x0A else c) s))"

definition metalava_version :: "string \<Rightarrow> string option" where
  "metalava_version stdout =
     (case List.map_filter metalava_match (line_fields stdout) of [] \<Rightarrow> None | v # _ \<Rightarrow> Some v)"

record java_host =
  versionCache :: "string \<Rightarrow> string option \<Rightarrow> string option"
  jExecutor :: "(string list \<Rightarrow> string \<Rightarrow> (string \<rightharpoonup> string) \<Rightarrow> string option) option"

text \<open>What is computed for the cache; \<open>Err\<close> without executor, after an error of the spec or of
  the run, or when no line matches.\<close>

definition run_version_check :: "java_host \<Rightarrow> BaseState \<Rightarrow> CommandFlags \<Rightarrow> (unit, string) res" where
  "run_version_check H c f =
     (case jExecutor H of
        None \<Rightarrow> Err ()
      | Some execute \<Rightarrow>
          (case BaseSpec c of
             Panic \<Rightarrow> Panic
           | Err e \<Rightarrow> Err ()
           | Ok s \<Rightarrow>
               (case execute [ExecutablePath f, ''--version''] (Join [OptExecRoot (BpOptions c), WorkingDir (BpOptions c)])
                      (EnvironmentVariables (ASInputSpec s)) of
                  None \<Rightarrow> Err ()
                | Some stdout \<Rightarrow> (case metalava_version stdout of None \<Rightarrow> Err () | Some v \<Rightarrow> Ok v))))"

definition verifyMetalavaVersion :: "java_host \<Rightarrow> string \<Rightarrow> BaseState \<Rightarrow> (unit, unit) res" where
  "verifyMetalavaVersion H want c =
     (case BpFlags c of
        None \<Rightarrow> Panic
      | Some f \<Rightarrow>
          (case run_version_check H c f of
             Panic \<Rightarrow> Panic
           | r \<Rightarrow> (case versionCache H (ExecutablePath f) (case r of Ok v \<Rightarrow> Some v | _ \<Rightarrow> None) of
                      None \<Rightarrow> Err ()
                    | Some v \<Rightarrow> if v = want then Ok () else Err ())))"

definition MetalavaComputeSpec :: "java_host \<Rightarrow> BaseState \<Rightarrow> (BaseState \<times> ip_error option) option" where
  "MetalavaComputeSpec H c =
     (case verifyMetalavaVersion H ''1.3.0'' c of
        Ok _ \<Rightarrow> Some (c, None)
      | Err _ \<Rightarrow> Some (c\<lparr>BpErr := Some SpecFailed\<rparr>, Some SpecFailed)
      | Panic \<Rightarrow> None)"


text \<open>The preprocessors as \<open>Compute\<close> uses them; a \<open>ComputeSpec\<close> that never returns is \<open>None\<close>, like a
  panic.\<close>

definition r8_preprocessor ::
  "fs_env \<Rightarrow> tc_env \<Rightarrow> (string \<Rightarrow> (unit, string list) res \<Rightarrow> (unit, string list) res) \<Rightarrow> (string \<Rightarrow> string list option) \<Rightarrow>
   BaseState Preprocessor" where
  "r8_preprocessor fenv tenv load readLines =
     base_preprocessor fenv tenv (\<lambda>opts. R8ParseFlags (Cmd opts) (WorkingDir opts) (OptExecRoot opts))
       (\<lambda>c. case R8ComputeSpec load readLines c of Some (Ok x) \<Rightarrow> Some x | _ \<Rightarrow> None)"

definition metalava_preprocessor ::
  "fs_env \<Rightarrow> tc_env \<Rightarrow> (string \<Rightarrow> (read_error, string) res) \<Rightarrow> java_host \<Rightarrow> BaseState Preprocessor" where
  "metalava_preprocessor fenv tenv readFile H =
     base_preprocessor fenv tenv (\<lambda>opts. MetalavaParseFlags readFile (Cmd opts) (WorkingDir opts) (OptExecRoot opts))
       (MetalavaComputeSpec H)"

text \<open>What their \<open>ComputeSpec\<close> adds to the inputs: the names of included flag files, and nothing.\<close>

lemma flag_file_deps_from:
  "flag_file_deps incs deps acc = Some (Ok out) \<Longrightarrow> i \<in> set out \<Longrightarrow>
   i \<in> set acc \<or> (\<exists>dep ys. incs dep = Some (Ok ys) \<and> i \<in> set ys)"
proof (induction deps arbitrary: acc)
  case (Cons d deps)
  show ?case
  proof (cases "is_flag_file d")
    case True
    then obtain ys where "incs d = Some (Ok ys)" "flag_file_deps incs deps (acc @ ys) = Some (Ok out)"
      using Cons.prems(1) by (auto split: option.splits res.splits)
    then show ?thesis using Cons.IH Cons.prems(2) by fastforce
  qed (use Cons in auto)
qed simp

lemma adds_inputs_r8:
  "adds_inputs options (\<lambda>c. case R8ComputeSpec load readLines c of Some (Ok x) \<Rightarrow> Some x | _ \<Rightarrow> None)
     {i. \<exists>dep ys. includesInFlagsFile load readLines (OptExecRoot options) (WorkingDir options) dep = Some (Ok ys) \<and> i \<in> set ys}"
  (is "adds_inputs options ?step ?X")
  unfolding adds_inputs_def
proof (intro allI impI)
  fix c c' :: BaseState and e
  assume o: "BpOptions c = options" and "?step c = Some (c', e)"
  then have r: "R8ComputeSpec load readLines c = Some (Ok (c', e))" by (auto split: option.splits res.splits)
  let ?incs = "includesInFlagsFile load readLines (OptExecRoot options) (WorkingDir options)"
  let ?c1 = "\<lambda>incs. AppendSpec (Some (spec_of_inputs (empty_input_spec\<lparr>Inputs := incs\<rparr>))) c"
  obtain fl where fl: "BpFlags c = Some fl" using r by (auto simp: R8ComputeSpec_def split: option.splits)
  obtain out where f: "flag_file_deps ?incs (Dependencies fl) [] = Some out"
    using r o fl by (auto simp: R8ComputeSpec_def bind_eq_Some_conv)
  have c': "c' = c \<or> (\<exists>incs v. out = Ok incs \<and> (c' = ?c1 incs \<or> c' = AppendSpec (Some (virtual_output_dirs v)) (?c1 incs)))"
  proof (cases out)
    case (Ok incs)
    then show ?thesis using r o fl f by (cases "BaseSpec (?c1 incs)") (auto simp: R8ComputeSpec_def Let_def)
  qed (use r o fl f in \<open>auto simp: R8ComputeSpec_def\<close>)
  have ok: "\<forall>i \<in> set incs. ok_input (G \<union> ?X) i" if "out = Ok incs" for incs G
    using flag_file_deps_from [of ?incs "Dependencies fl" "[]" incs] f that by (auto simp: ok_input_def)
  have "inputs_within (G \<union> ?X) c'" if "inputs_within G c" for G
  proof -
    have c1: "inputs_within (G \<union> ?X) (?c1 incs)" if "out = Ok incs" for incs
      using inputs_within_mono [OF \<open>inputs_within G c\<close>, of "G \<union> ?X"] ok [OF that, of G]
      by (intro AppendSpec_within) (simp_all add: spec_of_inputs_def empty_input_spec_def)
    have "inputs_within (G \<union> ?X) (AppendSpec (Some (virtual_output_dirs v)) (?c1 incs))" if "out = Ok incs" for v incs
      using c1 [OF that] by (rule AppendSpec_within) (simp add: virtual_output_dirs_def spec_of_inputs_def empty_input_spec_def)
    with c' c1 inputs_within_mono [OF that, of "G \<union> ?X"] show ?thesis by blast
  qed
  moreover have "BpOptions c' = BpOptions c" using c' by auto
  ultimately show "BpOptions c' = BpOptions c \<and> (\<forall>G. inputs_within G c \<longrightarrow> inputs_within (G \<union> ?X) c')" by blast
qed

lemma adds_inputs_metalava: "adds_inputs options (MetalavaComputeSpec H) {}"
  by (auto simp: adds_inputs_def MetalavaComputeSpec_def inputs_within_def split: res.splits)

section \<open>Included flag files\<close>

text \<open>Which file includes which, as the cache answers.\<close>

definition file_kids ::
  "(string \<Rightarrow> (unit, string list) res \<Rightarrow> (unit, string list) res) \<Rightarrow> (string \<Rightarrow> string list option) \<Rightarrow> string \<Rightarrow> string \<Rightarrow>
   string \<Rightarrow> (unit, string list) res" where
  "file_kids load readLines er wd f = load f (flag_file_includes readLines er wd f)"

definition includes_rel :: "(string \<Rightarrow> (unit, string list) res) \<Rightarrow> (string \<times> string) set" where
  "includes_rel kids = {(f, g). \<exists>v. kids f = Ok v \<and> g \<in> set v}"

lemma includes_eq:
  "includesInFlagsFile load rl er wd f =
     (case file_kids load rl er wd f of
        Ok v \<Rightarrow> include_loop (includesInFlagsFile load rl er wd) v []
      | Err e \<Rightarrow> Some (Err e)
      | Panic \<Rightarrow> Some Panic)"
  by (subst includesInFlagsFile.simps) (simp add: file_kids_def)

lemma include_loop_Ok:
  assumes "include_loop rec v acc = Some (Ok out)"
  shows "(\<forall>x \<in> set v. \<exists>y. rec x = Some (Ok y)) \<and>
    set out = set acc \<union> set v \<union> {g. \<exists>x \<in> set v. \<exists>y. rec x = Some (Ok y) \<and> g \<in> set y}"
  using assms
proof (induction v arbitrary: acc)
  case (Cons x v)
  then obtain y where y: "rec x = Some (Ok y)" "include_loop rec v (acc @ [x] @ y) = Some (Ok out)"
    by (cases "rec x"; cases "the (rec x)") auto
  show ?case using Cons.IH [OF y(2)] y(1) by auto
qed simp

lemma include_loop_returns:
  assumes "\<And>x. x \<in> set v \<Longrightarrow> \<exists>y. rec x = Some (Ok y)"
  shows "\<exists>out. include_loop rec v acc = Some (Ok out)"
  using assms
proof (induction v arbitrary: acc)
  case (Cons x v)
  obtain y where "rec x = Some (Ok y)" using Cons.prems by auto
  moreover obtain out where "include_loop rec v (acc @ [x] @ y) = Some (Ok out)" using Cons.IH Cons.prems by auto
  ultimately show ?case by simp
qed simp

lemma trancl_kids:
  assumes "kids f = Ok v"
  shows "(includes_rel kids)\<^sup>+ `` {f} = set v \<union> (\<Union>x \<in> set v. (includes_rel kids)\<^sup>+ `` {x})"
proof -
  have "(f, g) \<in> includes_rel kids \<longleftrightarrow> g \<in> set v" for g using assms by (auto simp: includes_rel_def)
  then have "(f, g) \<in> (includes_rel kids)\<^sup>+ \<longleftrightarrow> (\<exists>x \<in> set v. (x, g) \<in> (includes_rel kids)\<^sup>*)" for g
    by (auto simp: trancl_unfold_left)
  then show ?thesis by (auto simp: rtrancl_eq_or_trancl)
qed

text \<open>What a call that returns files says: they are those reachable through includes, and no
  chain of includes from the file is endless or meets an unreadable file.\<close>

lemma includes_sound:
  assumes "includesInFlagsFile load rl er wd f = Some r"
  shows "\<forall>xs. r = Ok xs \<longrightarrow> set xs = (includes_rel (file_kids load rl er wd))\<^sup>+ `` {f} \<and>
    f \<in> Wellfounded.acc ((includes_rel (file_kids load rl er wd))\<inverse>) \<and>
    (\<forall>g. (f, g) \<in> (includes_rel (file_kids load rl er wd))\<^sup>* \<longrightarrow> (\<exists>v. file_kids load rl er wd g = Ok v))"
proof (rule includesInFlagsFile.raw_induct [where P = "\<lambda>load rl er wd f r. \<forall>xs. r = Ok xs \<longrightarrow>
    set xs = (includes_rel (file_kids load rl er wd))\<^sup>+ `` {f} \<and>
    f \<in> Wellfounded.acc ((includes_rel (file_kids load rl er wd))\<inverse>) \<and>
    (\<forall>g. (f, g) \<in> (includes_rel (file_kids load rl er wd))\<^sup>* \<longrightarrow> (\<exists>v. file_kids load rl er wd g = Ok v))", OF _ assms],
    intro allI impI)
  fix rec load rl er wd f r xs
  let ?k = "file_kids load rl er wd"
  let ?R = "includes_rel ?k"
  assume IH: "\<And>load rl er wd f r. rec load rl er wd f = Some r \<Longrightarrow> \<forall>xs. r = Ok xs \<longrightarrow>
      set xs = (includes_rel (file_kids load rl er wd))\<^sup>+ `` {f} \<and>
      f \<in> Wellfounded.acc ((includes_rel (file_kids load rl er wd))\<inverse>) \<and>
      (\<forall>g. (f, g) \<in> (includes_rel (file_kids load rl er wd))\<^sup>* \<longrightarrow> (\<exists>v. file_kids load rl er wd g = Ok v))"
    and body: "(case load f (flag_file_includes rl er wd f) of
        Ok v \<Rightarrow> include_loop (rec load rl er wd) v [] | Err e \<Rightarrow> Some (Err e) | Panic \<Rightarrow> Some Panic) = Some r"
    and r: "r = Ok xs"
  obtain v where v: "?k f = Ok v" "include_loop (rec load rl er wd) v [] = Some (Ok xs)"
    using body r by (auto simp: file_kids_def split: res.splits)
  note l = include_loop_Ok [OF v(2)]
  have kids: "x \<in> set v \<Longrightarrow> \<exists>y. rec load rl er wd x = Some (Ok y) \<and> set y = ?R\<^sup>+ `` {x} \<and> x \<in> Wellfounded.acc (?R\<inverse>) \<and>
      (\<forall>g. (x, g) \<in> ?R\<^sup>* \<longrightarrow> (\<exists>v. ?k g = Ok v))" for x
    using l IH by blast
  have "(\<exists>y. rec load rl er wd x = Some (Ok y) \<and> g \<in> set y) \<longleftrightarrow> g \<in> ?R\<^sup>+ `` {x}" if "x \<in> set v" for x g
    using kids [OF that] by auto
  then have "{g. \<exists>x \<in> set v. \<exists>y. rec load rl er wd x = Some (Ok y) \<and> g \<in> set y} = (\<Union>x \<in> set v. ?R\<^sup>+ `` {x})"
    by (intro set_eqI) (simp only: mem_Collect_eq UN_iff cong: bex_cong)
  then have "set xs = ?R\<^sup>+ `` {f}" using l unfolding trancl_kids [of ?k f v, OF v(1)] by simp
  moreover have "f \<in> Wellfounded.acc (?R\<inverse>)"
  proof (rule accI)
    fix x assume "(x, f) \<in> ?R\<inverse>"
    then have "x \<in> set v" using v(1) by (simp add: includes_rel_def)
    then show "x \<in> Wellfounded.acc (?R\<inverse>)" using kids by blast
  qed
  moreover have "\<exists>w. ?k g = Ok w" if "(f, g) \<in> ?R\<^sup>*" for g
    using that
  proof (cases rule: converse_rtranclE)
    case (step x)
    then have "x \<in> set v" using v(1) by (simp add: includes_rel_def)
    then show ?thesis using kids step(2) by blast
  qed (use v(1) in auto)
  ultimately show "set xs = ?R\<^sup>+ `` {f} \<and> f \<in> Wellfounded.acc (?R\<inverse>) \<and> (\<forall>g. (f, g) \<in> ?R\<^sup>* \<longrightarrow> (\<exists>v. ?k g = Ok v))"
    by blast
qed

lemma includes_complete:
  assumes "f \<in> Wellfounded.acc ((includes_rel (file_kids load rl er wd))\<inverse>)"
    and "\<forall>g. (f, g) \<in> (includes_rel (file_kids load rl er wd))\<^sup>* \<longrightarrow> (\<exists>v. file_kids load rl er wd g = Ok v)"
  shows "\<exists>xs. includesInFlagsFile load rl er wd f = Some (Ok xs)"
  using assms
proof (induction f rule: acc_induct_rule)
  case (1 f)
  let ?k = "file_kids load rl er wd"
  obtain v where v: "?k f = Ok v" using 1(3) by blast
  have "\<exists>y. includesInFlagsFile load rl er wd x = Some (Ok y)" if "x \<in> set v" for x
  proof -
    have e: "(f, x) \<in> includes_rel ?k" using that v by (auto simp: includes_rel_def)
    then show ?thesis using 1(2) [of x] 1(3) by (meson converse_iff converse_rtrancl_into_rtrancl)
  qed
  then show ?case using include_loop_returns [of v] v by (simp add: includes_eq)
qed

text \<open>C39: The search through included flag files returns files exactly when no chain of includes
  goes on for ever and every file met can be read; they are then exactly the files reachable
  through includes. A file that includes itself, directly or through others, is never returned
  for.\<close>

theorem includesInFlagsFile_exact:
  "(\<exists>xs. includesInFlagsFile load readLines er wd f = Some (Ok xs) \<and>
      set xs = (includes_rel (file_kids load readLines er wd))\<^sup>+ `` {f}) \<longleftrightarrow>
   f \<in> Wellfounded.acc ((includes_rel (file_kids load readLines er wd))\<inverse>) \<and>
   (includes_rel (file_kids load readLines er wd))\<^sup>* `` {f} \<subseteq> {g. is_ok (file_kids load readLines er wd g)}"
proof -
  have ok: "(\<forall>g. (f, g) \<in> (includes_rel (file_kids load readLines er wd))\<^sup>* \<longrightarrow> (\<exists>v. file_kids load readLines er wd g = Ok v)) \<longleftrightarrow>
      (includes_rel (file_kids load readLines er wd))\<^sup>* `` {f} \<subseteq> {g. is_ok (file_kids load readLines er wd g)}"
    by (auto simp: is_ok_iff)
  show ?thesis
    unfolding ok [symmetric]
  proof (intro iffI)
    assume "\<exists>xs. includesInFlagsFile load readLines er wd f = Some (Ok xs) \<and> set xs = (includes_rel (file_kids load readLines er wd))\<^sup>+ `` {f}"
    then obtain xs where "includesInFlagsFile load readLines er wd f = Some (Ok xs)" by blast
    from includes_sound [OF this] show "f \<in> Wellfounded.acc ((includes_rel (file_kids load readLines er wd))\<inverse>) \<and>
        (\<forall>g. (f, g) \<in> (includes_rel (file_kids load readLines er wd))\<^sup>* \<longrightarrow> (\<exists>v. file_kids load readLines er wd g = Ok v))" by simp
  next
    assume "f \<in> Wellfounded.acc ((includes_rel (file_kids load readLines er wd))\<inverse>) \<and>
        (\<forall>g. (f, g) \<in> (includes_rel (file_kids load readLines er wd))\<^sup>* \<longrightarrow> (\<exists>v. file_kids load readLines er wd g = Ok v))"
    then obtain xs where xs: "includesInFlagsFile load readLines er wd f = Some (Ok xs)"
      using includes_complete by blast
    from includes_sound [OF xs] xs
    show "\<exists>xs. includesInFlagsFile load readLines er wd f = Some (Ok xs) \<and> set xs = (includes_rel (file_kids load readLines er wd))\<^sup>+ `` {f}"
      by simp
  qed
qed


text \<open>Included files are added to the inputs as they are named from the working directory, and
  sanitizing does not confine them: one outside the exec root becomes an input.\<close>

definition r8_demo_options :: Options where
  "r8_demo_options = \<lparr>Cmd = [''r8'', ''-printmapping'', ''m'', ''@a.flags''], WorkingDir = [], OptExecRoot = ''/r'', OptInputs = None,
     OptLabels = Map.empty, ToolchainInputs = [], ShallowFallback = False\<rparr>"

definition r8_demo_fs :: fs_env where
  "r8_demo_fs = \<lparr>statDir = (\<lambda>p. Some False), nfcLoad = None, fscLoad = None, fmcIsDir = None\<rparr>"

definition r8_demo_state :: BaseState where
  "r8_demo_state = fresh_state\<lparr>BpOptions := r8_demo_options, actionSpec := Some (spec_of_inputs empty_input_spec),
     BpFlags := Some (zero_flags\<lparr>Dependencies := [''a.flags'']\<rparr>)\<rparr>"

definition r8_demo_lines :: "string \<Rightarrow> string list option" where
  "r8_demo_lines p = (if p = ''/r/a.flags'' then Some [''-dontwarn'', ''-include ../b.flags''] else Some [])"

declare includesInFlagsFile.simps [code]

lemma r8_input_escapes:
  "(case R8ComputeSpec (\<lambda>k v. v) r8_demo_lines r8_demo_state of
      Some (Ok (c, None)) \<Rightarrow>
        map_option (\<lambda>c'. map_option (\<lambda>a. Inputs (ASInputSpec a)) (actionSpec c')) (BaseSanitize r8_demo_fs c)
    | _ \<Rightarrow> None) = Some (Some [''../b.flags''])"
  by code_simp

section \<open>The version line\<close>

text \<open>What the expression says of a line without line breaks: words up to the first colon, and
  behind it something, of which leading blanks are dropped unless nothing would remain.\<close>

definition version_line :: "string \<Rightarrow> string option" where
  "version_line l =
     (let r = dropWhile re_word_space l; t = tl r in
      if r \<noteq> l \<and> r \<noteq> [] \<and> hd r = CHR '':'' \<and> t \<noteq> []
      then Some (if dropWhile re_space t = [] then [last t] else dropWhile re_space t) else None)"

lemma match_plus_list: "match_at (re_plus P) s = map (\<lambda>k. ([], drop k s)) (rev [Suc 0 ..< Suc (length (takeWhile P s))])"
  by (simp add: match_at.simps rep_counts_def Let_def)

lemma match_star_list: "match_at (re_star P) s = map (\<lambda>k. ([], drop k s)) (rev [0 ..< Suc (length (takeWhile P s))])"
  by (simp add: match_at.simps rep_counts_def Let_def)

lemma rev_upt_first: "a \<le> n \<Longrightarrow> rev [a ..< Suc n] = n # rev [a ..< n]"
  by simp

lemma match_rest_line:
  assumes "CHR 0x0A \<notin> set t" and "t \<noteq> []"
  shows "\<exists>zs. match_at (Group (re_plus re_dot)) t = ([t], []) # zs"
proof -
  have a: "\<forall>x \<in> set t. re_dot x" using assms(1) by (auto simp: re_dot_def)
  then have "takeWhile re_dot t = t" "dropWhile re_dot t = []" by simp_all
  then have "\<exists>zs. match_at (re_plus re_dot) t = ([], []) # zs"
    using assms(2) match_greedy_first [of "Suc 0" re_dot t] by (simp only: length_greater_0_conv Suc_le_eq) simp
  then obtain zs where "match_at (re_plus re_dot) t = ([], []) # zs" by blast
  from match_Group_first [OF this] show ?thesis by simp
qed

lemma match_value:
  assumes "CHR 0x0A \<notin> set t" and "t \<noteq> []"
  shows "\<exists>s zs. match_at (Cat (re_star re_space) (Group (re_plus re_dot))) t =
    ([if dropWhile re_space t = [] then [last t] else dropWhile re_space t], s) # zs"
proof (cases "dropWhile re_space t = []")
  case False
  let ?t = "dropWhile re_space t"
  have "CHR 0x0A \<notin> set ?t" using assms(1) by (meson set_dropWhileD)
  then obtain zs where "match_at (Group (re_plus re_dot)) ?t = ([?t], []) # zs" using match_rest_line False by blast
  moreover obtain us where "match_at (re_star re_space) t = [] @ ([], ?t) # us" using match_greedy_first [of 0 re_space t] by auto
  ultimately show ?thesis using match_Cat_first [of "re_star re_space" t "[]"] False by fastforce
next
  case True
  let ?n = "length t"
  have tw: "takeWhile re_space t = t" using True by (simp add: dropWhile_eq_Nil_conv takeWhile_eq_all_conv)
  obtain b d where t: "t = b @ [d]" using assms(2) by (cases t rule: rev_cases) auto
  have "match_at (re_star re_space) t = [([], [])] @ ([], [d]) # map (\<lambda>k. ([], drop k t)) (rev [0 ..< length b])"
    unfolding match_star_list tw by (simp add: t)
  moreover have "match_at (Group (re_plus re_dot)) [] = []" by (simp add: match_at.simps rep_counts_def)
  moreover obtain zs where "match_at (Group (re_plus re_dot)) [d] = ([[d]], []) # zs"
    using match_rest_line [of "[d]"] assms(1) t by auto
  ultimately show ?thesis
    using match_Cat_first [of "re_star re_space" t "[([], [])]" "[]" "[d]"] True t by fastforce
qed

lemma word_space_no_colon: "\<not> re_word_space (CHR '':'')"
  by code_simp

lemma metalavaRE_tail_Nil: "s = [] \<or> hd s \<noteq> CHR '':'' \<Longrightarrow> match_at (Cat (re_char (CHR '':'')) r) s = []"
  by (simp add: match_at.simps(2))

text \<open>The regular expression of the version line is the direct reading of it.\<close>

theorem metalava_match_direct:
  assumes "CHR 0x0A \<notin> set l"
  shows "metalava_match l = version_line l"
proof -
  let ?w = "takeWhile re_word_space l" and ?r = "dropWhile re_word_space l"
  let ?v = "Cat (re_star re_space) (Group (re_plus re_dot))"
  let ?tail = "Cat (re_char (CHR '':'')) ?v"
  have rl: "?r \<noteq> l \<longleftrightarrow> ?w \<noteq> []" by (metis append_Nil append_self_conv2 takeWhile_dropWhile_id)
  have inner: "match_at ?tail (drop k l) = []" if "k < length ?w" for k
  proof (rule metalavaRE_tail_Nil)
    have "re_word_space (l ! k)" using that by (metis nth_mem set_takeWhileD takeWhile_nth)
    moreover have "k < length l" using that length_takeWhile_le [of re_word_space l] by linarith
    ultimately show "drop k l = [] \<or> hd (drop k l) \<noteq> CHR '':''" using word_space_no_colon by (auto simp: hd_drop_conv_nth)
  qed
  have expand: "match_at metalavaRE l = concat (map (\<lambda>k. match_at ?tail (drop k l)) (rev [Suc 0 ..< Suc (length ?w)]))"
    unfolding metalavaRE_def match_at.simps(2) [of "re_plus re_word_space"] match_plus_list by (simp add: comp_def)
  show ?thesis
  proof (cases "?w = []")
    case True
    then show ?thesis using expand rl by (simp add: metalava_match_def version_line_def Let_def)
  next
    case w: False
    have others: "concat (map (\<lambda>k. match_at ?tail (drop k l)) (rev [Suc 0 ..< length ?w])) = []"
      using inner by (simp only: concat_eq_Nil_conv) auto
    have m: "match_at metalavaRE l = match_at ?tail ?r"
      using w others unfolding expand by (simp add: rev_upt_first Suc_le_eq dropWhile_eq_drop)
    show ?thesis
    proof (cases "?r \<noteq> [] \<and> hd ?r = CHR '':''")
      case False
      then show ?thesis using m metalavaRE_tail_Nil [of ?r ?v] by (auto simp: metalava_match_def version_line_def Let_def)
    next
      case True
      then obtain t where t: "?r = CHR '':'' # t" by (cases ?r) auto
      have nl: "CHR 0x0A \<notin> set t" using assms t by (metis list.set_intros(2) set_dropWhileD)
      have mt: "match_at ?tail ?r = map (\<lambda>(c, s). (c, s)) (match_at ?v t)"
        unfolding t match_at.simps(2) [of "re_char (CHR '':'')"] by simp
      show ?thesis
      proof (cases "t = []")
        case True
        then have "match_at ?v t = []" by (simp add: match_at.simps rep_counts_def)
        then show ?thesis using m mt t True by (simp add: metalava_match_def version_line_def Let_def)
      next
        case False
        then show ?thesis
          using m mt t match_value [OF nl False] rl w by (auto simp: metalava_match_def version_line_def Let_def)
      qed
    qed
  qed
qed

theorem metalava_match_direct_witness: "metalava_match ''metalava version:  1.3.0'' = Some ''1.3.0''"
proof -
  have "CHR 0x0A \<notin> set ''metalava version:  1.3.0''" by code_simp
  moreover have "version_line ''metalava version:  1.3.0'' = Some ''1.3.0''" by code_simp
  ultimately show ?thesis using metalava_match_direct by metis
qed

end
