(* ===== verification/TypeScript.thy ===== *)
theory TypeScript
  imports InputProcessor GoRegexp
begin

text \<open>
  Inputs and outputs of the TypeScript compiler (\<open>inputprocessor/action/typescript\<close>): project files
  and the files they extend, include and refer to, imports of source files, the breadth-first
  search over both, and the spec computed from it. The decoded project files, the lines of source
  files and directory walks are arguments (\<open>ts_host\<close>); \<open>None\<close> of the outer option is a search that
  never ends. Bytes stand for characters in patterns.
\<close>

section \<open>filepath.Match\<close>

datatype glob_item = GStar | GAny | GLit char | GClass bool "(char \<times> char) list"

text \<open>A character inside a class, possibly escaped; the class must go on behind it.\<close>

definition getEsc :: "string \<Rightarrow> (char \<times> string) option" where
  "getEsc chunk =
     (case chunk of
        [] \<Rightarrow> None
      | c # r \<Rightarrow>
          if c = CHR ''-'' \<or> c = CHR '']'' then None
          else if c = CHR 0x5C then (case r of d # e # s \<Rightarrow> Some (d, e # s) | _ \<Rightarrow> None)
          else (case r of [] \<Rightarrow> None | _ \<Rightarrow> Some (c, r)))"

lemma getEsc_length: "getEsc s = Some (c, r) \<Longrightarrow> length r < length s"
  by (auto simp: getEsc_def split: list.splits if_splits)

definition getRange :: "string \<Rightarrow> ((char \<times> char) \<times> string) option" where
  "getRange chunk =
     (case getEsc chunk of
        None \<Rightarrow> None
      | Some (l, r) \<Rightarrow>
          (case r of
             d # r' \<Rightarrow> if d = CHR ''-'' then map_option (\<lambda>(h, s). ((l, h), s)) (getEsc r') else Some ((l, l), r)
           | [] \<Rightarrow> Some ((l, l), r)))"

lemma getRange_length:
  assumes "getRange s = Some (lh, r)"
  shows "length r < length s"
proof -
  obtain l t where t: "getEsc s = Some (l, t)" using assms by (auto simp: getRange_def split: option.splits)
  show ?thesis
  proof (cases t)
    case Nil
    then show ?thesis using assms t getEsc_length [OF t] by (simp add: getRange_def)
  next
    case (Cons d u)
    then show ?thesis
      using assms t getEsc_length [OF t] by (auto simp: getRange_def dest!: getEsc_length split: if_splits)
  qed
qed

function class_ranges :: "(char \<times> char) list \<Rightarrow> string \<Rightarrow> ((char \<times> char) list \<times> string) option" where
  "class_ranges acc chunk =
     (if acc \<noteq> [] \<and> chunk \<noteq> [] \<and> hd chunk = CHR '']'' then Some (acc, tl chunk)
      else case getRange chunk of None \<Rightarrow> None | Some (lh, r) \<Rightarrow> class_ranges (acc @ [lh]) r)"
  by pat_completeness auto
termination by (relation "measure (length \<circ> snd)") (auto dest: getRange_length)

declare class_ranges.simps [simp del]

lemma class_ranges_length: "class_ranges acc s = Some (rs, r) \<Longrightarrow> length r < length s"
proof (induction acc s rule: class_ranges.induct)
  case (1 acc s)
  show ?case
  proof (cases "acc \<noteq> [] \<and> s \<noteq> [] \<and> hd s = CHR '']''")
    case True
    then have "r = tl s" using 1(2) by (subst (asm) class_ranges.simps) simp
    then show ?thesis using True by (cases s) simp_all
  next
    case False
    then obtain lh r' where r: "getRange s = Some (lh, r')" "class_ranges (acc @ [lh]) r' = Some (rs, r)"
      using 1(2) by (auto simp: class_ranges.simps [of acc s] simp del: de_Morgan_conj split: option.splits)
    then show ?thesis using 1(1) [OF False r(1) refl] getRange_length [OF r(1)] by simp
  qed
qed

text \<open>A pattern is malformed when an escape ends it or a class is not closed properly.\<close>

function glob_parse :: "string \<Rightarrow> glob_item list option" where
  "glob_parse [] = Some []"
| "glob_parse (c # p) =
     (if c = CHR ''*'' then map_option ((#) GStar) (glob_parse p)
      else if c = CHR ''?'' then map_option ((#) GAny) (glob_parse p)
      else if c = CHR 0x5C then (case p of [] \<Rightarrow> None | d # p' \<Rightarrow> map_option ((#) (GLit d)) (glob_parse p'))
      else if c = CHR ''['' then
        (let neg = prefix ''^'' p in
         case class_ranges [] (if neg then tl p else p) of
           None \<Rightarrow> None
         | Some (rs, r) \<Rightarrow> map_option ((#) (GClass neg rs)) (glob_parse r))
      else map_option ((#) (GLit c)) (glob_parse p))"
  by pat_completeness auto
termination
proof (relation "measure length")
  fix c p x xa rs r
  assume x: "x = prefix ''^'' p" and c: "class_ranges [] (if x then tl p else p) = Some xa" and p: "(rs, r) = xa"
  have "length r < length (if x then tl p else p)" using c p class_ranges_length by (metis)
  then show "(r, c # p) \<in> measure length" by (auto split: if_splits)
qed auto

definition in_class :: "bool \<Rightarrow> (char \<times> char) list \<Rightarrow> char \<Rightarrow> bool" where
  "in_class neg rs c \<longleftrightarrow> (\<exists>(l, h) \<in> set rs. of_char l \<le> (of_char c :: nat) \<and> (of_char c :: nat) \<le> of_char h) \<noteq> neg"

fun glob_match :: "glob_item list \<Rightarrow> string \<Rightarrow> bool" where
  "glob_match [] s = (s = [])"
| "glob_match (GStar # ps) s =
     (glob_match ps s \<or> (case s of [] \<Rightarrow> False | c # s' \<Rightarrow> c \<noteq> CHR ''/'' \<and> glob_match (GStar # ps) s'))"
| "glob_match (GAny # ps) s = (case s of [] \<Rightarrow> False | c # s' \<Rightarrow> c \<noteq> CHR ''/'' \<and> glob_match ps s')"
| "glob_match (GLit d # ps) s = (case s of [] \<Rightarrow> False | c # s' \<Rightarrow> c = d \<and> glob_match ps s')"
| "glob_match (GClass neg rs # ps) s = (case s of [] \<Rightarrow> False | c # s' \<Rightarrow> in_class neg rs c \<and> glob_match ps s')"

definition Match :: "string \<Rightarrow> string \<Rightarrow> bool option" where
  "Match pattern name = map_option (\<lambda>is. glob_match is name) (glob_parse pattern)"

section \<open>Project files\<close>

text \<open>\<open>None\<close> is a nil slice.\<close>

record Tsconfig =
  Extends :: string
  Exclude :: "string list option"
  Files :: "string list option"
  Include :: "string list option"
  References :: "string list"
  ConfigPath :: string

record Tsfile =
  Imports :: "string list"
  FilePath :: string

datatype Tsinput = ConfigInput Tsconfig | FileInput Tsfile

primrec tsPath :: "Tsinput \<Rightarrow> string" where
  "tsPath (ConfigInput c) = ConfigPath c"
| "tsPath (FileInput f) = FilePath f"

datatype ts_err = ReadErr | NotFoundErr string | BadPattern | WalkErr | BadExtension

record ts_host =
  readConfig :: "string \<Rightarrow> Tsconfig option"
  fileLines :: "string \<Rightarrow> string list option"
  walk :: "string \<Rightarrow> (string \<times> bool) list option"

definition extendTsconfig :: "Tsconfig \<Rightarrow> Tsconfig \<Rightarrow> Tsconfig" where
  "extendTsconfig t parent =
     t\<lparr>Exclude := (if Exclude t = None then Exclude parent else Exclude t),
       Files := (if Files t = None then Files parent else Files t),
       Include := (if Include t = None then Include parent else Include t)\<rparr>"

definition slice :: "'a list option \<Rightarrow> 'a list" where
  "slice xs = (case xs of None \<Rightarrow> [] | Some ys \<Rightarrow> ys)"

definition default_include :: "Tsconfig \<Rightarrow> Tsconfig" where
  "default_include t = (if slice (Include t) = [] \<and> slice (Files t) = [] then t\<lparr>Include := Some [''.'']\<rparr> else t)"

partial_function (option) parseTsconfig :: "ts_host \<Rightarrow> string \<Rightarrow> (ts_err + Tsconfig) option" where
  "parseTsconfig H path =
     (case readConfig H path of
        None \<Rightarrow> Some (Inl ReadErr)
      | Some c \<Rightarrow>
          (if Extends c = [] then Some (Inr (default_include (c\<lparr>ConfigPath := path\<rparr>)))
           else Option.bind (parseTsconfig H (Join [Dir path, Extends c]))
             (\<lambda>r. Some (case r of
                Inl e \<Rightarrow> Inl e
              | Inr parent \<Rightarrow> Inr (default_include (extendTsconfig (c\<lparr>ConfigPath := path\<rparr>) parent))))))"

section \<open>Source files\<close>

definition re_quote :: "char \<Rightarrow> bool" where
  "re_quote c \<longleftrightarrow> c = CHR 0x27 \<or> c = CHR 0x22"

abbreviation "re_any P \<equiv> Rep True (Suc 0) (Some (Suc 0)) P"

definition importPathRE :: re where
  "importPathRE = Group (Cat (re_any re_quote) (Cat (re_plus re_dot) (re_any re_quote)))"

text \<open>\<open>^import.*['"].+['"]\<close>: behind the word, anything that ends in a quoted text.\<close>

definition importRE_tail :: re where
  "importRE_tail = Cat (re_star re_dot) (Cat (re_any re_quote) (Cat (re_plus re_dot) (re_any re_quote)))"

definition importRE_matches :: "string \<Rightarrow> bool" where
  "importRE_matches line \<longleftrightarrow> prefix ''import'' line \<and> match_at importRE_tail (drop 6 line) \<noteq> []"

definition import_of :: "string \<Rightarrow> string option" where
  "import_of line =
     (if \<not> importRE_matches line then None
      else case find_first importPathRE line of
        None \<Rightarrow> None
      | Some (c, _) \<Rightarrow> Some (trim_chars [CHR 0x27, CHR 0x22] (hd c)))"

definition parseTsfile :: "ts_host \<Rightarrow> string \<Rightarrow> ts_err + Tsfile" where
  "parseTsfile H path =
     (case fileLines H path of
        None \<Rightarrow> Inl ReadErr
      | Some ls \<Rightarrow> Inr \<lparr>Imports = List.map_filter import_of ls, FilePath = path\<rparr>)"

definition ts_suffixes :: "string list" where
  "ts_suffixes = [''.tsx'', ''.ts'', ''.d.ts'', ''/package.json'', ''/index.ts'', ''/index.tsx'', ''/index.d.ts'']"

fun first_parsed :: "ts_host \<Rightarrow> string \<Rightarrow> string list \<Rightarrow> Tsfile option" where
  "first_parsed H searchPrefix [] = None"
| "first_parsed H searchPrefix (suf # sufs) =
     (case parseTsfile H (searchPrefix @ suf) of
        Inr tsfile \<Rightarrow> Some tsfile
      | Inl _ \<Rightarrow> first_parsed H searchPrefix sufs)"

definition resolve_import :: "ts_host \<Rightarrow> string \<Rightarrow> string \<Rightarrow> ts_err + Tsfile" where
  "resolve_import H dir impt =
     (let path = Join [dir, impt]; ext = Ext impt in
      if ext = [] \<or> ext = ''.js'' then
        (case first_parsed H (trim_suffix ext path) ts_suffixes of
           None \<Rightarrow> Inl (NotFoundErr path)
         | Some f \<Rightarrow> Inr f)
      else parseTsfile H path)"

text \<open>Loops that stop at the first error.\<close>

fun collect :: "('a \<Rightarrow> 'e + 'b) \<Rightarrow> 'a list \<Rightarrow> 'e + 'b list" where
  "collect g [] = Inr []"
| "collect g (x # xs) =
     (case g x of Inl e \<Rightarrow> Inl e | Inr y \<Rightarrow> (case collect g xs of Inl e \<Rightarrow> Inl e | Inr ys \<Rightarrow> Inr (y # ys)))"

definition file_inputs :: "ts_host \<Rightarrow> Tsfile \<Rightarrow> ts_err + Tsinput list" where
  "file_inputs H t =
     (case collect (resolve_import H (Dir (FilePath t))) (Imports t) of
        Inl e \<Rightarrow> Inl e
      | Inr fs \<Rightarrow> Inr (map FileInput fs))"

section \<open>Inputs of a project\<close>

text \<open>Whether a file is excluded; the patterns are tried in order.\<close>

fun excluded :: "string list \<Rightarrow> string \<Rightarrow> ts_err + bool" where
  "excluded [] path = Inr False"
| "excluded (pat # pats) path =
     (case Match pat path of
        None \<Rightarrow> Inl BadPattern
      | Some matched \<Rightarrow> if matched then Inr True else excluded pats path)"

definition walk_entry :: "ts_host \<Rightarrow> string list \<Rightarrow> string \<times> bool \<Rightarrow> ts_err + Tsfile list" where
  "walk_entry H pats e =
     (if snd e then Inr []
      else if Ext (fst e) = ''.ts'' \<or> Ext (fst e) = ''.tsx'' then
        (case excluded pats (fst e) of
           Inl x \<Rightarrow> Inl x
         | Inr True \<Rightarrow> Inr []
         | Inr False \<Rightarrow> (case parseTsfile H (fst e) of Inl x \<Rightarrow> Inl x | Inr f \<Rightarrow> Inr [f]))
      else Inr [])"

definition walk_dir :: "ts_host \<Rightarrow> string list \<Rightarrow> string \<Rightarrow> ts_err + Tsfile list" where
  "walk_dir H pats searchPath =
     (case walk H searchPath of
        None \<Rightarrow> Inl WalkErr
      | Some es \<Rightarrow> (case collect (walk_entry H pats) es of Inl e \<Rightarrow> Inl e | Inr fss \<Rightarrow> Inr (concat fss)))"

definition reference_path :: "string \<Rightarrow> string \<Rightarrow> string" where
  "reference_path dir ref =
     (if Ext ref \<noteq> ''.json'' then Join [Join [dir, ref], ''tsconfig.json''] else Join [dir, ref])"

fun parse_references :: "ts_host \<Rightarrow> string \<Rightarrow> string list \<Rightarrow> (ts_err + Tsinput list) option" where
  "parse_references H dir [] = Some (Inr [])"
| "parse_references H dir (ref # refs) =
     (case parseTsconfig H (reference_path dir ref) of
        None \<Rightarrow> None
      | Some (Inl e) \<Rightarrow> Some (Inl e)
      | Some (Inr c) \<Rightarrow>
          (case parse_references H dir refs of
             None \<Rightarrow> None
           | Some (Inl e) \<Rightarrow> Some (Inl e)
           | Some (Inr cs) \<Rightarrow> Some (Inr (ConfigInput c # cs))))"

definition config_inputs :: "ts_host \<Rightarrow> Tsconfig \<Rightarrow> (ts_err + Tsinput list) option" where
  "config_inputs H t =
     (let dir = Dir (ConfigPath t);
          excludePatterns = map (\<lambda>pat. Join [ConfigPath t, pat]) (slice (Exclude t)) in
      case collect (\<lambda>f. parseTsfile H (Join [dir, f])) (slice (Files t)) of
        Inl e \<Rightarrow> Some (Inl e)
      | Inr fs \<Rightarrow>
          (case collect (\<lambda>d. walk_dir H excludePatterns (Join [dir, d])) (slice (Include t)) of
             Inl e \<Rightarrow> Some (Inl e)
           | Inr gss \<Rightarrow>
               map_option (\<lambda>r. case r of Inl e \<Rightarrow> Inl e | Inr cs \<Rightarrow> Inr (map FileInput (fs @ concat gss) @ cs))
                 (parse_references H dir (References t))))"

definition tsInputs :: "ts_host \<Rightarrow> Tsinput \<Rightarrow> (ts_err + Tsinput list) option" where
  "tsInputs H i = (case i of ConfigInput c \<Rightarrow> config_inputs H c | FileInput f \<Rightarrow> Some (file_inputs H f))"

section \<open>The search\<close>

text \<open>One pass over the pending inputs; \<open>paths\<close> are those seen.\<close>

primrec ts_round ::
  "(Tsinput \<Rightarrow> (ts_err + Tsinput list) option) \<Rightarrow> Tsinput list \<Rightarrow> string list \<Rightarrow> Tsinput list \<Rightarrow>
   (ts_err + string list \<times> Tsinput list) option" where
  "ts_round deps [] paths new = Some (Inr (paths, new))"
| "ts_round deps (x # xs) paths new =
     (if tsPath x \<in> set paths then ts_round deps xs paths new
      else case deps x of
        None \<Rightarrow> None
      | Some (Inl e) \<Rightarrow> Some (Inl e)
      | Some (Inr ds) \<Rightarrow> ts_round deps xs (paths @ [tsPath x]) (new @ ds))"

partial_function (option) ts_search ::
  "(Tsinput \<Rightarrow> (ts_err + Tsinput list) option) \<Rightarrow> string list \<Rightarrow> Tsinput list \<Rightarrow> (ts_err + string list) option" where
  "ts_search deps paths inputs =
     (if inputs = [] then Some (Inr paths)
      else Option.bind (ts_round deps inputs paths [])
        (\<lambda>r. case r of Inl e \<Rightarrow> Some (Inl e) | Inr (paths', new) \<Rightarrow> ts_search deps paths' new))"

definition ProcessTsInputs :: "ts_host \<Rightarrow> string \<Rightarrow> (ts_err + Tsinput) option" where
  "ProcessTsInputs H path =
     (if Ext path = ''.json'' then map_option (map_sum id ConfigInput) (parseTsconfig H path)
      else if Ext path = ''.ts'' \<or> Ext path = ''.tsx'' then Some (map_sum id FileInput (parseTsfile H path))
      else Some (Inl BadExtension))"

definition ts_output :: "string \<Rightarrow> string option" where
  "ts_output f =
     (if Ext f = ''.ts'' \<and> \<not> contains ''.d.ts'' f then Some (replace_first ''.ts'' ''.js'' f) else None)"

definition tsOutputs :: "string list \<Rightarrow> string list" where
  "tsOutputs paths = List.map_filter ts_output paths"

text \<open>\<open>ComputeSpec\<close>; \<open>order\<close> and \<open>order'\<close> are the orders in which the two loops visit the map of paths.\<close>

definition TscComputeSpec ::
  "ts_host \<Rightarrow> (string list \<Rightarrow> string list) \<Rightarrow> (string list \<Rightarrow> string list) \<Rightarrow> BaseState \<Rightarrow> (BaseState \<times> ip_error option) option" where
  "TscComputeSpec H order order' c =
     (let er = OptExecRoot (BpOptions c); wd = WorkingDir (BpOptions c);
          failed = Some (c\<lparr>BpErr := Some SpecFailed\<rparr>, Some SpecFailed) in
      case Cmd (BpOptions c) of
        _ # target # _ \<Rightarrow>
          (case ProcessTsInputs H (Join [er, wd, target]) of
             None \<Rightarrow> None
           | Some (Inl e) \<Rightarrow> failed
           | Some (Inr i) \<Rightarrow>
               (case ts_search (tsInputs H) [] [i] of
                  None \<Rightarrow> None
                | Some (Inl e) \<Rightarrow> failed
                | Some (Inr paths) \<Rightarrow>
                    Some (AppendSpec (Some ((spec_of_inputs (empty_input_spec
                      \<lparr>Inputs := ListRelToExecRoot er wd (order paths)\<rparr>))
                      \<lparr>OutputFiles := ListRelToExecRoot er wd (tsOutputs (order' paths))\<rparr>)) c, None)))
      | _ \<Rightarrow> failed)"


section \<open>What the search finds\<close>

definition ts_rel :: "(Tsinput \<Rightarrow> (ts_err + Tsinput list) option) \<Rightarrow> (Tsinput \<times> Tsinput) set" where
  "ts_rel deps = {(x, y). \<exists>ds. deps x = Some (Inr ds) \<and> y \<in> set ds}"

text \<open>An input whose dependencies were found, all of them among the given paths.\<close>

definition covered :: "(Tsinput \<Rightarrow> (ts_err + Tsinput list) option) \<Rightarrow> string list \<Rightarrow> Tsinput \<Rightarrow> bool" where
  "covered deps paths n \<longleftrightarrow> (\<exists>ds. deps n = Some (Inr ds) \<and> tsPath ` set ds \<subseteq> set paths)"

lemma ts_round_result:
  assumes "ts_round deps xs paths new = Some (Inr (paths', new'))"
  shows "\<exists>ns. paths' = paths @ map tsPath ns \<and> set ns \<subseteq> set xs \<and> tsPath ` set xs \<subseteq> set paths' \<and>
    (distinct paths \<longrightarrow> distinct paths') \<and> set new \<subseteq> set new' \<and>
    (\<forall>n \<in> set ns. \<exists>ds. deps n = Some (Inr ds) \<and> set ds \<subseteq> set new') \<and>
    set new' \<subseteq> set new \<union> {y. \<exists>n \<in> set ns. (n, y) \<in> ts_rel deps}"
  using assms
proof (induction xs arbitrary: paths new)
  case (Cons x xs)
  show ?case
  proof (cases "tsPath x \<in> set paths")
    case True
    then obtain ns where "paths' = paths @ map tsPath ns" "set ns \<subseteq> set xs" "tsPath ` set xs \<subseteq> set paths'"
      "distinct paths \<longrightarrow> distinct paths'" "set new \<subseteq> set new'"
      "\<forall>n \<in> set ns. \<exists>ds. deps n = Some (Inr ds) \<and> set ds \<subseteq> set new'"
      "set new' \<subseteq> set new \<union> {y. \<exists>n \<in> set ns. (n, y) \<in> ts_rel deps}"
      using Cons.IH [of paths new] Cons.prems by auto
    then show ?thesis using True by (intro exI [of _ ns]) auto
  next
    case False
    then obtain ds where d: "deps x = Some (Inr ds)" "ts_round deps xs (paths @ [tsPath x]) (new @ ds) = Some (Inr (paths', new'))"
      using Cons.prems by (auto split: option.splits sum.splits)
    then obtain ns where ns: "paths' = (paths @ [tsPath x]) @ map tsPath ns" "set ns \<subseteq> set xs" "tsPath ` set xs \<subseteq> set paths'"
      "distinct (paths @ [tsPath x]) \<longrightarrow> distinct paths'" "set (new @ ds) \<subseteq> set new'"
      "\<forall>n \<in> set ns. \<exists>ds. deps n = Some (Inr ds) \<and> set ds \<subseteq> set new'"
      "set new' \<subseteq> set (new @ ds) \<union> {y. \<exists>n \<in> set ns. (n, y) \<in> ts_rel deps}"
      using Cons.IH [OF d(2)] by blast
    have "set ds \<subseteq> {y. (x, y) \<in> ts_rel deps}" using d(1) by (auto simp: ts_rel_def)
    then show ?thesis using False ns d(1) by (intro exI [of _ "x # ns"]) auto
  qed
qed simp

lemma ts_search_result:
  assumes "ts_search deps paths inputs = Some r"
  shows "\<forall>out. r = Inr out \<longrightarrow> (distinct paths \<longrightarrow> distinct out) \<and> tsPath ` set inputs \<subseteq> set out \<and>
    (\<exists>ns. out = paths @ map tsPath ns \<and>
      (\<forall>n \<in> set ns. (\<exists>i \<in> set inputs. (i, n) \<in> (ts_rel deps)\<^sup>*) \<and> covered deps out n))"
proof (rule ts_search.raw_induct [where P = "\<lambda>deps paths inputs r. \<forall>out. r = Inr out \<longrightarrow>
    (distinct paths \<longrightarrow> distinct out) \<and> tsPath ` set inputs \<subseteq> set out \<and>
    (\<exists>ns. out = paths @ map tsPath ns \<and>
      (\<forall>n \<in> set ns. (\<exists>i \<in> set inputs. (i, n) \<in> (ts_rel deps)\<^sup>*) \<and> covered deps out n))", OF _ assms], intro allI impI)
  fix rec deps paths inputs r out
  assume IH: "\<And>deps paths inputs r. rec deps paths inputs = Some r \<Longrightarrow> \<forall>out. r = Inr out \<longrightarrow>
      (distinct paths \<longrightarrow> distinct out) \<and> tsPath ` set inputs \<subseteq> set out \<and>
      (\<exists>ns. out = paths @ map tsPath ns \<and>
        (\<forall>n \<in> set ns. (\<exists>i \<in> set inputs. (i, n) \<in> (ts_rel deps)\<^sup>*) \<and> covered deps out n))"
    and body: "(if inputs = [] then Some (Inr paths)
      else Option.bind (ts_round deps inputs paths [])
        (\<lambda>r. case r of Inl e \<Rightarrow> Some (Inl e) | Inr (paths', new) \<Rightarrow> rec deps paths' new)) = Some r" and r: "r = Inr out"
  show "(distinct paths \<longrightarrow> distinct out) \<and> tsPath ` set inputs \<subseteq> set out \<and>
    (\<exists>ns. out = paths @ map tsPath ns \<and>
      (\<forall>n \<in> set ns. (\<exists>i \<in> set inputs. (i, n) \<in> (ts_rel deps)\<^sup>*) \<and> covered deps out n))"
  proof (cases "inputs = []")
    case True
    then show ?thesis using body r by simp
  next
    case False
    then obtain q where q: "ts_round deps inputs paths [] = Some q"
      "(case q of Inl e \<Rightarrow> Some (Inl e) | Inr (paths', new) \<Rightarrow> rec deps paths' new) = Some (Inr out)"
      using body r by (auto simp: bind_eq_Some_conv)
    then obtain paths' new where rd: "ts_round deps inputs paths [] = Some (Inr (paths', new))"
      "rec deps paths' new = Some (Inr out)" by (cases q) auto
    obtain ms where ms: "paths' = paths @ map tsPath ms" "set ms \<subseteq> set inputs" "tsPath ` set inputs \<subseteq> set paths'"
      "distinct paths \<longrightarrow> distinct paths'" "\<forall>n \<in> set ms. \<exists>ds. deps n = Some (Inr ds) \<and> set ds \<subseteq> set new"
      "set new \<subseteq> {y. \<exists>n \<in> set ms. (n, y) \<in> ts_rel deps}"
      using ts_round_result [OF rd(1)] by auto
    obtain ns where ns: "distinct paths' \<longrightarrow> distinct out" "tsPath ` set new \<subseteq> set out" "out = paths' @ map tsPath ns"
      "\<forall>n \<in> set ns. (\<exists>i \<in> set new. (i, n) \<in> (ts_rel deps)\<^sup>*) \<and> covered deps out n"
      using IH [OF rd(2), rule_format, OF refl] by blast
    have reach: "\<exists>i \<in> set inputs. (i, n) \<in> (ts_rel deps)\<^sup>*" if n: "n \<in> set ns" for n
    proof -
      obtain j where j: "j \<in> set new" "(j, n) \<in> (ts_rel deps)\<^sup>*" using ns(4) n by blast
      then obtain m where "m \<in> set ms" "(m, j) \<in> ts_rel deps" using ms(6) by blast
      then show ?thesis using ms(2) j(2) by (meson converse_rtrancl_into_rtrancl subsetD)
    qed
    have "covered deps out n" if "n \<in> set ms" for n
    proof -
      obtain ds where "deps n = Some (Inr ds)" "set ds \<subseteq> set new" using ms(5) \<open>n \<in> set ms\<close> by blast
      then show ?thesis using ns(2) by (auto simp: covered_def)
    qed
    moreover have "\<exists>i \<in> set inputs. (i, n) \<in> (ts_rel deps)\<^sup>*" if "n \<in> set ms" for n using that ms(2) by blast
    ultimately have "\<forall>n \<in> set (ms @ ns). (\<exists>i \<in> set inputs. (i, n) \<in> (ts_rel deps)\<^sup>*) \<and> covered deps out n"
      using reach ns(4) by auto
    moreover have "out = paths @ map tsPath (ms @ ns)" using ns(3) ms(1) by simp
    moreover have "tsPath ` set inputs \<subseteq> set out" "distinct paths \<longrightarrow> distinct out" using ns(1,3) ms(3,4) by auto
    ultimately show ?thesis by blast
  qed
qed

text \<open>When the search for the inputs of a TypeScript target returns, it lists each file once, the
  target among them; every listed file is one an input reachable from the target has, and the
  files that input depends on are all listed.\<close>

theorem ts_search_exact:
  assumes "ts_search (tsInputs H) [] [i] = Some (Inr out)"
  shows "distinct out \<and> tsPath i \<in> set out \<and>
    (\<exists>ns. out = map tsPath ns \<and> (\<forall>n \<in> set ns. (i, n) \<in> (ts_rel (tsInputs H))\<^sup>* \<and> covered (tsInputs H) out n))"
  using ts_search_result [OF assms] by auto

section \<open>The search ends\<close>

lemma parseTsconfig_returns:
  fixes rank :: "string \<Rightarrow> nat"
  assumes "\<And>p c. readConfig H p = Some c \<Longrightarrow> Extends c \<noteq> [] \<Longrightarrow> rank (Join [Dir p, Extends c]) < rank p"
  shows "\<exists>r. parseTsconfig H p = Some r"
proof (induction "rank p" arbitrary: p rule: less_induct)
  case less
  show ?case
  proof (cases "readConfig H p")
    case (Some c)
    show ?thesis
    proof (cases "Extends c = []")
      case False
      then obtain r where "parseTsconfig H (Join [Dir p, Extends c]) = Some r" using less assms Some by blast
      then show ?thesis using Some False by (subst parseTsconfig.simps) simp
    qed (use Some in \<open>subst parseTsconfig.simps, simp\<close>)
  qed (subst parseTsconfig.simps, simp)
qed

lemma tsInputs_returns:
  assumes "\<And>p. \<exists>r. parseTsconfig H p = Some r"
  shows "\<exists>r. tsInputs H n = Some r"
proof -
  have refs: "\<exists>r. parse_references H dir refs = Some r" for dir refs
  proof (induction refs)
    case (Cons ref refs)
    obtain q where "parseTsconfig H (reference_path dir ref) = Some q" using assms by blast
    then show ?case using Cons.IH by (cases q) (auto split: sum.splits)
  qed simp
  show ?thesis
  proof (cases n)
    case (ConfigInput c)
    obtain r where "parse_references H (Dir (ConfigPath c)) (References c) = Some r" using refs by blast
    then show ?thesis using ConfigInput by (auto simp: tsInputs_def config_inputs_def Let_def split: sum.splits)
  qed (simp add: tsInputs_def)
qed

text \<open>A round takes up a new path unless it leaves nothing to do.\<close>

lemma ts_round_returns:
  assumes "\<And>n. \<exists>r. deps n = Some r"
  shows "\<exists>r. ts_round deps xs paths new = Some r"
proof (induction xs arbitrary: paths new)
  case (Cons x xs)
  obtain q where "deps x = Some q" using assms by blast
  then show ?case using Cons.IH by (cases q) auto
qed simp

lemma ts_search_returns:
  assumes "\<And>n. \<exists>r. deps n = Some r" and "finite F" and "\<And>n ds y. deps n = Some (Inr ds) \<Longrightarrow> y \<in> set ds \<Longrightarrow> tsPath y \<in> F"
  shows "tsPath ` set inputs \<subseteq> F \<Longrightarrow> distinct paths \<Longrightarrow> set paths \<subseteq> F \<Longrightarrow> \<exists>r. ts_search deps paths inputs = Some r"
proof (induction "card (F - set paths)" arbitrary: paths inputs rule: less_induct)
  case less
  show ?case
  proof (cases "inputs = []")
    case True
    then show ?thesis by (subst ts_search.simps) simp
  next
    case False
    obtain q where q: "ts_round deps inputs paths [] = Some q" using ts_round_returns [of deps inputs paths "[]"] assms(1) by blast
    show ?thesis
    proof (cases q)
      case (Inl e)
      then show ?thesis using q False by (subst ts_search.simps) simp
    next
      case (Inr pn)
      obtain paths' new where pn: "pn = (paths', new)" by fastforce
      have rd: "ts_round deps inputs paths [] = Some (Inr (paths', new))" using q Inr pn by simp
      obtain ms where ms: "paths' = paths @ map tsPath ms" "set ms \<subseteq> set inputs" "distinct paths'"
        "set new \<subseteq> {y. \<exists>n \<in> set ms. (n, y) \<in> ts_rel deps}"
        using ts_round_result [OF rd] less.prems(2) by auto
      have F: "set paths' \<subseteq> F" "tsPath ` set new \<subseteq> F"
        using ms less.prems assms(3) by (auto simp: ts_rel_def)
      have "\<exists>r. ts_search deps paths' new = Some r"
      proof (cases "ms = []")
        case True
        then have "new = []" using ms(4) by auto
        then show ?thesis by (subst ts_search.simps) simp
      next
        case False
        then have "set paths \<subset> set paths'" using ms(1,3) by (cases ms) auto
        then have "card (F - set paths') < card (F - set paths)"
          using F(1) assms(2) by (intro psubset_card_mono) auto
        then show ?thesis using less.hyps F ms(3) by blast
      qed
      then show ?thesis using rd False by (subst ts_search.simps) simp
    qed
  qed
qed

lemma collect_elems: "collect g xs = Inr ys \<Longrightarrow> y \<in> set ys \<Longrightarrow> \<exists>x \<in> set xs. g x = Inr y"
  by (induction xs arbitrary: ys) (auto split: sum.splits)

lemma parseTsfile_path: "parseTsfile H p = Inr f \<Longrightarrow> FilePath f = p \<and> fileLines H p \<noteq> None"
  by (auto simp: parseTsfile_def split: option.splits)

lemma first_parsed_path: "first_parsed H p sufs = Some f \<Longrightarrow> fileLines H (FilePath f) \<noteq> None"
  using parseTsfile_path by (induction sufs) (fastforce split: sum.splits)+

lemma parseTsconfig_path:
  assumes "parseTsconfig H p = Some (Inr c)"
  shows "ConfigPath c = p \<and> readConfig H p \<noteq> None"
proof -
  have d: "ConfigPath (default_include t) = ConfigPath t" "ConfigPath (extendTsconfig t u) = ConfigPath t" for t u
    by (simp_all add: default_include_def extendTsconfig_def)
  obtain t where t: "readConfig H p = Some t" using assms by (subst (asm) parseTsconfig.simps) (auto split: option.splits)
  show ?thesis
  proof (cases "Extends t = []")
    case True
    then show ?thesis using assms t by (subst (asm) parseTsconfig.simps) (auto simp: d)
  next
    case False
    then obtain r where "parseTsconfig H (Join [Dir p, Extends t]) = Some r"
      "(case r of Inl e \<Rightarrow> Inl e | Inr parent \<Rightarrow> Inr (default_include (extendTsconfig (t\<lparr>ConfigPath := p\<rparr>) parent))) = Inr c"
      using assms t by (subst (asm) parseTsconfig.simps) (auto simp: bind_eq_Some_conv)
    then show ?thesis using t by (cases r) (auto simp: d)
  qed
qed

definition ts_files :: "ts_host \<Rightarrow> string set" where
  "ts_files H = {p. fileLines H p \<noteq> None} \<union> {p. readConfig H p \<noteq> None}"

lemma parse_references_paths:
  "parse_references H dir refs = Some (Inr cs) \<Longrightarrow> y \<in> set cs \<Longrightarrow> tsPath y \<in> ts_files H"
proof (induction refs arbitrary: cs)
  case (Cons ref refs)
  then obtain c cs' where "parseTsconfig H (reference_path dir ref) = Some (Inr c)"
    "parse_references H dir refs = Some (Inr cs')" "cs = ConfigInput c # cs'"
    by (auto split: option.splits sum.splits)
  then show ?case using Cons parseTsconfig_path by (auto simp: ts_files_def)
qed simp

lemma tsInputs_paths:
  assumes "tsInputs H n = Some (Inr ds)" and "y \<in> set ds"
  shows "tsPath y \<in> ts_files H"
proof (cases n)
  case (FileInput f)
  then obtain fs where fs: "collect (resolve_import H (Dir (FilePath f))) (Imports f) = Inr fs" "ds = map FileInput fs"
    using assms(1) by (auto simp: tsInputs_def file_inputs_def split: sum.splits)
  then obtain g where g: "y = FileInput g" "g \<in> set fs" using assms(2) by auto
  obtain x where "resolve_import H (Dir (FilePath f)) x = Inr g" using collect_elems [OF fs(1) g(2)] by blast
  then have "fileLines H (FilePath g) \<noteq> None"
    using parseTsfile_path first_parsed_path by (fastforce simp: resolve_import_def Let_def split: if_splits option.splits)
  then show ?thesis using g by (simp add: ts_files_def)
next
  case (ConfigInput t)
  let ?dir = "Dir (ConfigPath t)" and ?pats = "map (\<lambda>pat. Join [ConfigPath t, pat]) (slice (Exclude t))"
  obtain fs gss cs where p: "collect (\<lambda>f. parseTsfile H (Join [?dir, f])) (slice (Files t)) = Inr fs"
    "collect (\<lambda>d. walk_dir H ?pats (Join [?dir, d])) (slice (Include t)) = Inr gss"
    "parse_references H ?dir (References t) = Some (Inr cs)" "ds = map FileInput (fs @ concat gss) @ cs"
  proof (cases "collect (\<lambda>f. parseTsfile H (Join [?dir, f])) (slice (Files t))")
    case fs: (Inr fs)
    show ?thesis
    proof (cases "collect (\<lambda>d. walk_dir H ?pats (Join [?dir, d])) (slice (Include t))")
      case gss: (Inr gss)
      obtain r where r: "parse_references H ?dir (References t) = Some r"
        "(case r of Inl e \<Rightarrow> Inl e | Inr cs \<Rightarrow> Inr (map FileInput (fs @ concat gss) @ cs)) = (Inr ds :: ts_err + Tsinput list)"
        using assms(1) ConfigInput fs gss by (auto simp: tsInputs_def config_inputs_def Let_def simp del: map_append)
      then show ?thesis using that fs gss by (cases r) auto
    qed (use assms(1) ConfigInput fs in \<open>simp add: tsInputs_def config_inputs_def Let_def\<close>)
  qed (use assms(1) ConfigInput in \<open>simp add: tsInputs_def config_inputs_def Let_def\<close>)
  have walked: "fileLines H (FilePath g) \<noteq> None" if g: "g \<in> set gs" and gs: "gs \<in> set gss" for g gs
  proof -
    obtain d where "walk_dir H ?pats d = Inr gs" using collect_elems [OF p(2) gs] by blast
    then obtain es fss where c: "collect (walk_entry H ?pats) es = Inr fss" "gs = concat fss"
      by (auto simp: walk_dir_def split: option.splits sum.splits)
    obtain hs where hs: "g \<in> set hs" "hs \<in> set fss" using g c(2) by auto
    obtain e where "walk_entry H ?pats e = Inr hs" using collect_elems [OF c(1) hs(2)] by blast
    with hs(1) show ?thesis
      using parseTsfile_path by (fastforce simp: walk_entry_def split: if_splits sum.splits bool.splits)
  qed
  have "fileLines H (FilePath g) \<noteq> None" if "g \<in> set fs" for g
    using collect_elems [OF p(1) that] by (auto dest!: parseTsfile_path)
  moreover have "tsPath y \<in> ts_files H" if "y \<in> set cs" using parse_references_paths [OF p(3) that] .
  ultimately show ?thesis using assms(2) p(4) walked by (auto simp: ts_files_def)
qed

text \<open>The spec of a TypeScript action is computed, or an error reported, whenever the readable
  files are finitely many and no project file extends itself, directly or through others.\<close>

theorem TscComputeSpec_returns:
  fixes rank :: "string \<Rightarrow> nat"
  assumes "finite (ts_files H)"
    and "\<And>p c. readConfig H p = Some c \<Longrightarrow> Extends c \<noteq> [] \<Longrightarrow> rank (Join [Dir p, Extends c]) < rank p"
  shows "\<exists>r. TscComputeSpec H order order' c = Some r"
proof -
  have pt: "\<exists>r. parseTsconfig H p = Some r" for p using parseTsconfig_returns [of H rank] assms(2) by blast
  have pi: "\<exists>r. ProcessTsInputs H p = Some r" for p using pt by (auto simp: ProcessTsInputs_def)
  have "\<exists>r. ts_search (tsInputs H) [] [i] = Some r" for i
  proof (rule ts_search_returns [where F = "insert (tsPath i) (ts_files H)"])
    show "\<exists>r. tsInputs H n = Some r" for n using tsInputs_returns [OF pt] .
    show "finite (insert (tsPath i) (ts_files H))" using assms(1) by simp
    show "tsPath y \<in> insert (tsPath i) (ts_files H)" if "tsInputs H n = Some (Inr ds)" "y \<in> set ds" for n ds y
      using tsInputs_paths that by blast
  qed simp_all
  then show ?thesis
  proof (cases "Cmd (BpOptions c)")
    case (Cons a as)
    show ?thesis
    proof (cases as)
      case (Cons target rest)
      obtain q where "ProcessTsInputs H (Join [OptExecRoot (BpOptions c), WorkingDir (BpOptions c), target]) = Some q"
        using pi by blast
      then show ?thesis
        using \<open>Cmd (BpOptions c) = a # as\<close> Cons \<open>\<And>i. \<exists>r. ts_search (tsInputs H) [] [i] = Some r\<close>
        by (cases q) (fastforce simp: TscComputeSpec_def Let_def split: option.splits sum.splits)+
    qed (use \<open>Cmd (BpOptions c) = a # as\<close> in \<open>simp add: TscComputeSpec_def Let_def\<close>)
  qed (simp add: TscComputeSpec_def Let_def)
qed


section \<open>Concrete projects\<close>

definition empty_config :: Tsconfig where
  "empty_config = \<lparr>Extends = [], Exclude = None, Files = None, Include = None, References = [], ConfigPath = []\<rparr>"

definition demo_project :: ts_host where
  "demo_project = \<lparr>
     readConfig = map_of [(''/r/tsconfig.json'', empty_config\<lparr>Files := Some [''a.ts''], Extends := ''base.json''\<rparr>),
                          (''/r/base.json'', empty_config\<lparr>Exclude := Some [''skip.ts'']\<rparr>)],
     fileLines = map_of [(''/r/a.ts'', [''import {b} from './b';'', ''import \"./c.js\"'']),
                         (''/r/b.ts'', [''import './a';'']), (''/r/c.d.ts'', []), (''/r/skip.ts'', [])],
     walk = (\<lambda>d. Some [(''/r/skip.ts'', False)])\<rparr>"

declare parseTsconfig.simps [code] ts_search.simps [code]

lemma demo_project_files: "finite (ts_files demo_project)"
proof -
  have "ts_files demo_project \<subseteq> {''/r/tsconfig.json'', ''/r/base.json'', ''/r/a.ts'', ''/r/b.ts'', ''/r/c.d.ts'', ''/r/skip.ts''}"
    by (auto simp: ts_files_def demo_project_def split: if_splits)
  then show ?thesis using finite_subset by blast
qed

definition demo_start :: Tsinput where
  "demo_start = FileInput \<lparr>Imports = [''./b'', ''./c.js''], FilePath = ''/r/a.ts''\<rparr>"

theorem ts_search_exact_witness:
  "ts_search (tsInputs demo_project) [] [demo_start] = Some (Inr [''/r/a.ts'', ''/r/b.ts'', ''/r/c.d.ts'']) \<and>
   distinct [''/r/a.ts'', ''/r/b.ts'', ''/r/c.d.ts'']"
proof -
  have s: "ts_search (tsInputs demo_project) [] [demo_start] = Some (Inr [''/r/a.ts'', ''/r/b.ts'', ''/r/c.d.ts''])" by code_simp
  then show ?thesis using ts_search_exact [OF s] by simp
qed

theorem TscComputeSpec_returns_witness:
  "\<exists>r. TscComputeSpec demo_project rev rev
     (fresh_state\<lparr>BpOptions := (BpOptions fresh_state)\<lparr>Cmd := [''tsc'', ''tsconfig.json''], OptExecRoot := ''/r''\<rparr>\<rparr>) = Some r"
proof (rule TscComputeSpec_returns [OF demo_project_files, where rank = "\<lambda>p. if p = ''/r/tsconfig.json'' then 1 else 0"])
  fix p c assume "readConfig demo_project p = Some c" "Extends c \<noteq> []"
  then have p: "p = ''/r/tsconfig.json''" "Extends c = ''base.json''"
    by (auto simp: demo_project_def empty_config_def split: if_splits)
  have "Join [Dir ''/r/tsconfig.json'', ''base.json''] = ''/r/base.json''" by code_simp
  then show "(if Join [Dir p, Extends c] = ''/r/tsconfig.json'' then 1 else 0 :: nat) < (if p = ''/r/tsconfig.json'' then 1 else 0)"
    unfolding p by simp
qed

text \<open>A project that lists its files includes nothing else by default; but when it extends one that
  lists nothing, it inherits the default of that one and takes in the whole directory.\<close>

lemma inherited_default_include:
  assumes "Files c \<noteq> None" and "slice (Files c) \<noteq> []" and "Include c = None"
    and "Include p = None" and "Files p = None"
  shows "Include (default_include c) = None \<and>
    Include (default_include (extendTsconfig c (default_include p))) = Some [''.'']"
  using assms by (auto simp: default_include_def extendTsconfig_def slice_def)

text \<open>Exclude patterns are put behind the path of the project file, not of its directory, and do not
  match the files they name.\<close>

lemma exclude_ineffective:
  "map_option (map_sum id (map tsPath)) (config_inputs demo_project
     (empty_config\<lparr>Include := Some [''.''], Exclude := Some [''skip.ts''], ConfigPath := ''/r/tsconfig.json''\<rparr>)) =
   Some (Inr [''/r/skip.ts''])"
  by code_simp

text \<open>The output name replaces the first \<open>.ts\<close> of the path, wherever it is; a quote behind the
  import becomes part of the imported path.\<close>

lemma ts_output_wrong: "ts_output ''/r/app.ts_gen/x.ts'' = Some ''/r/app.js_gen/x.ts''"
  by code_simp

lemma import_of_comment: "import_of ''import './a'; // don't'' = Some ''./a'; // don''"
  by code_simp

end
