(* ===== verification/CaseInsensitive.thy ===== *)
theory CaseInsensitive
  imports InputProcessor
begin

text \<open>
  File names on file systems that ignore case (\<open>inputprocessor/fs_case_insensitive.go\<close>, built for
  Windows and macOS): inputs are renamed to the spelling on disk. The model follows the macOS
  build, where the separator is a slash. \<open>os.Stat\<close>, \<open>os.SameFile\<close> and \<open>Readdir\<close> are arguments: a file has
  an identity and a modification time. Names are bytes, and lower case is that of ASCII.
\<close>

section \<open>Directory entries\<close>

record file_info =
  fiId :: nat
  fiTime :: int

type_synonym dir_entries = "(string \<times> nat) list"

record dirEnt =
  deDir :: "file_info option"
  deEntries :: dir_entries

type_synonym dirEntCache = "string \<rightharpoonup> dirEnt"

text \<open>\<open>ciReaddir\<close> is \<open>None\<close> when the directory cannot be opened; otherwise the entries that could be read of it
  and whether reading them broke off with an error.\<close>

record ci_host =
  ciStat :: "string \<Rightarrow> file_info option"
  ciReaddir :: "string \<Rightarrow> (dir_entries \<times> bool) option"

definition empty_dirEnt :: dirEnt where
  "empty_dirEnt = \<lparr>deDir = None, deEntries = []\<rparr>"

text \<open>An error of reading the entries is logged; what was read is stored all the same.\<close>

definition dirEnt_update :: "ci_host \<Rightarrow> string \<Rightarrow> dirEnt \<Rightarrow> dirEnt" where
  "dirEnt_update H dir de =
     (case ciStat H dir of
        None \<Rightarrow> de
      | Some fi \<Rightarrow>
          if (case deDir de of None \<Rightarrow> False | Some d \<Rightarrow> fiId fi = fiId d \<and> fiTime fi = fiTime d) then de
          else (case ciReaddir H dir of
                  None \<Rightarrow> de
                | Some (es, brokeOff) \<Rightarrow> de\<lparr>deDir := Some fi, deEntries := es\<rparr>))"

definition dirCache_get :: "ci_host \<Rightarrow> string \<Rightarrow> dirEntCache \<Rightarrow> dirEntCache \<times> dirEnt" where
  "dirCache_get H dir c =
     (let de = dirEnt_update H dir (case c dir of None \<Rightarrow> empty_dirEnt | Some de \<Rightarrow> de) in (c(dir \<mapsto> de), de))"

section \<open>The native normalizer\<close>

text \<open>\<open>nm\<close> keeps the name on disk of the last element of a path, \<open>nDirs\<close> directory entries;
  \<open>nCache\<close> is the process-wide cache.\<close>

record native_state =
  nm :: "string \<rightharpoonup> string"
  nDirs :: "string \<rightharpoonup> dirEnt"
  nCache :: dirEntCache

text \<open>The entries of the directory \<open>dir\<close> for the element at \<open>pathname\<close>. They are looked up under the
  absolute directory and stored under \<open>pathname\<close>.\<close>

definition visit_dir :: "ci_host \<Rightarrow> string \<Rightarrow> string \<Rightarrow> string \<Rightarrow> native_state \<Rightarrow> native_state \<times> dirEnt" where
  "visit_dir H execRoot dir pathname st =
     (case nDirs st (Join [execRoot, dir]) of
        Some de \<Rightarrow> (st, de)
      | None \<Rightarrow>
          (case dirCache_get H (Join [execRoot, dir]) (nCache st) of (c, de) \<Rightarrow>
             (st\<lparr>nCache := c, nDirs := (nDirs st)(pathname \<mapsto> de),
                nm := foldl (\<lambda>m ent. m(Join [dir, fst ent] \<mapsto> fst ent)) (nm st) (deEntries de)\<rparr>, de)))"

text \<open>One element: the new state and its name on disk; \<open>None\<close> when it cannot be found.\<close>

definition native_elem :: "ci_host \<Rightarrow> string \<Rightarrow> string \<Rightarrow> string \<Rightarrow> native_state \<Rightarrow> native_state \<times> string option" where
  "native_elem H execRoot dir seg st =
     (let pathname = (if dir = [] then seg else dir @ ''/'' @ seg) in
      case nm st pathname of
        Some s \<Rightarrow> (st, Some s)
      | None \<Rightarrow>
          (case visit_dir H execRoot dir pathname st of (st1, de) \<Rightarrow>
             (case nm st1 pathname of
                Some s \<Rightarrow> (st1, Some s)
              | None \<Rightarrow>
                  (case ciStat H (Join [execRoot, pathname]) of
                     None \<Rightarrow> (st1, None)
                   | Some fi \<Rightarrow>
                       (case find (\<lambda>ent. snd ent = fiId fi) (deEntries de) of
                          Some ent \<Rightarrow> (st1\<lparr>nm := (nm st1)(pathname \<mapsto> fst ent)\<rparr>, Some (fst ent))
                        | None \<Rightarrow> (st1, Some seg))))))"

primrec native_loop ::
  "ci_host \<Rightarrow> string \<Rightarrow> string list \<Rightarrow> string \<Rightarrow> string list \<Rightarrow> native_state \<Rightarrow> native_state \<times> string list option" where
  "native_loop H execRoot [] dir nsegs st = (st, Some nsegs)"
| "native_loop H execRoot (seg # segs) dir nsegs st =
     (if seg = [] then native_loop H execRoot segs dir nsegs st
      else case native_elem H execRoot dir seg st of
        (st1, None) \<Rightarrow> (st1, None)
      | (st1, Some s) \<Rightarrow>
          native_loop H execRoot segs (if dir = [] then seg else dir @ ''/'' @ seg) (nsegs @ [s]) st1)"

definition native_normalize :: "ci_host \<Rightarrow> string \<Rightarrow> string \<Rightarrow> native_state \<Rightarrow> native_state \<times> string option" where
  "native_normalize H execRoot pathname st =
     (case native_loop H execRoot (path_split (Clean pathname)) [] [] st of
        (st1, r) \<Rightarrow> (st1, map_option Join r))"

section \<open>The cross normalizer\<close>

definition to_lower_char :: "char \<Rightarrow> char" where
  "to_lower_char c = (let n = of_char c :: nat in if 65 \<le> n \<and> n \<le> 90 then char_of (n + 32) else c)"

definition to_lower :: "string \<Rightarrow> string" where
  "to_lower s = map to_lower_char s"

definition path_dir :: "string \<Rightarrow> string" where
  "path_dir p = rev (dropWhile (\<lambda>c. c \<noteq> CHR ''/'') (rev p))"

definition path_base :: "string \<Rightarrow> string" where
  "path_base p = rev (takeWhile (\<lambda>c. c \<noteq> CHR ''/'') (rev p))"

text \<open>\<open>dirs\<close> maps a lower-case directory to the spelling first seen. The result is the normalized
  path and whether the file exists.\<close>

definition cross_normalize ::
  "ci_host \<Rightarrow> string \<Rightarrow> string \<Rightarrow> (string \<rightharpoonup> string) \<Rightarrow> (string \<rightharpoonup> string) \<times> string \<times> bool" where
  "cross_normalize H execRoot pathname dirs =
     (let f = dropWhile (\<lambda>c. c = CHR ''/'') (Clean pathname) in
      case ciStat H (Join [execRoot, f]) of
        None \<Rightarrow> (dirs, f, False)
      | Some _ \<Rightarrow>
          (let key = to_lower (path_dir f) in
           case dirs key of
             Some d \<Rightarrow> (dirs, Join [d, path_base f], True)
           | None \<Rightarrow> (dirs(key \<mapsto> path_dir f), Join [path_dir f, path_base f], True)))"

datatype pathNormalizer = Native native_state | Cross "string \<rightharpoonup> string"

definition newPathNormalizer :: "dirEntCache \<Rightarrow> bool \<Rightarrow> pathNormalizer" where
  "newPathNormalizer c cross =
     (if cross then Cross Map.empty else Native \<lparr>nm = Map.empty, nDirs = Map.empty, nCache = c\<rparr>)"

section \<open>The names on disk\<close>

text \<open>The specification: no caches. The entries of a directory are what can be read of it; an
  element is kept when the directory lists it, renamed to the entry that is the same file
  otherwise.\<close>

definition disk_entries :: "ci_host \<Rightarrow> string \<Rightarrow> dir_entries" where
  "disk_entries H dir =
     (case ciStat H dir of None \<Rightarrow> [] | Some _ \<Rightarrow> (case ciReaddir H dir of None \<Rightarrow> [] | Some (es, brokeOff) \<Rightarrow> es))"

definition sub_path :: "string \<Rightarrow> string \<Rightarrow> string" where
  "sub_path dir seg = (if dir = [] then seg else dir @ ''/'' @ seg)"

definition disk_name :: "ci_host \<Rightarrow> string \<Rightarrow> string \<Rightarrow> string \<Rightarrow> string option" where
  "disk_name H er dir seg =
     (let es = disk_entries H (Join [er, dir]) in
      if seg \<in> fst ` set es then Some seg
      else case ciStat H (Join [er, sub_path dir seg]) of
        None \<Rightarrow> None
      | Some fi \<Rightarrow> Some (case find (\<lambda>ent. snd ent = fiId fi) es of Some ent \<Rightarrow> fst ent | None \<Rightarrow> seg))"

primrec disk_path :: "ci_host \<Rightarrow> string \<Rightarrow> string list \<Rightarrow> string \<Rightarrow> string list \<Rightarrow> string list option" where
  "disk_path H er [] dir nsegs = Some nsegs"
| "disk_path H er (seg # segs) dir nsegs =
     (if seg = [] then disk_path H er segs dir nsegs
      else case disk_name H er dir seg of
        None \<Rightarrow> None
      | Some s \<Rightarrow> disk_path H er segs (sub_path dir seg) (nsegs @ [s]))"

text \<open>Entries have plain names. The caches agree with the disk: cached entries are those read
  from an unchanged directory, known names those of the specification.\<close>

definition names_plain :: "ci_host \<Rightarrow> bool" where
  "names_plain H \<longleftrightarrow> (\<forall>d es b. ciReaddir H d = Some (es, b) \<longrightarrow> (\<forall>e \<in> set es. plain_elem (fst e) \<and> fst e \<noteq> ''..''))"

definition reads_complete :: "ci_host \<Rightarrow> bool" where
  "reads_complete H \<longleftrightarrow> (\<forall>d es b. ciReaddir H d = Some (es, b) \<longrightarrow> \<not> b)"

definition cache_true :: "ci_host \<Rightarrow> dirEntCache \<Rightarrow> bool" where
  "cache_true H c \<longleftrightarrow>
     (\<forall>d de. c d = Some de \<longrightarrow>
        de = empty_dirEnt \<or> (\<exists>fi es. ciStat H d = Some fi \<and> ciReaddir H d = Some (es, False) \<and> de = \<lparr>deDir = Some fi, deEntries = es\<rparr>))"

definition slash_free :: "string list \<Rightarrow> bool" where
  "slash_free es \<longleftrightarrow> (\<forall>e \<in> set es. CHR ''/'' \<notin> set e)"

definition names_true :: "ci_host \<Rightarrow> string \<Rightarrow> (string \<rightharpoonup> string) \<Rightarrow> bool" where
  "names_true H er m \<longleftrightarrow>
     (\<forall>es seg s. slash_free (es @ [seg]) \<longrightarrow> m (path_join (es @ [seg])) = Some s \<longrightarrow> disk_name H er (path_join es) seg = Some s)"

definition native_true :: "ci_host \<Rightarrow> string \<Rightarrow> native_state \<Rightarrow> bool" where
  "native_true H er st \<longleftrightarrow> cache_true H (nCache st) \<and> names_true H er (nm st) \<and> (\<forall>k. nDirs st k \<noteq> None \<longrightarrow> \<not> IsAbs k)"


lemma path_join_inj:
  assumes "slash_free (es @ [a])" and "slash_free (fs @ [b])" and "path_join (es @ [a]) = path_join (fs @ [b])"
  shows "es = fs \<and> a = b"
proof -
  have s: "path_split (path_join (xs @ [x])) = xs @ [x]" if "slash_free (xs @ [x])" for xs x
    by (rule split_join) (use that in \<open>auto simp: slash_free_def\<close>)
  have "es @ [a] = fs @ [b]" using s [OF assms(1)] s [OF assms(2)] unfolding assms(3) by (rule trans [OF sym])
  then show ?thesis by simp
qed

lemma normal_slash_free: "normal_elems r es \<Longrightarrow> slash_free es"
  by (auto simp: normal_elems_def slash_free_def plain_elem_def)

lemma normal_prefix: "normal_elems r (xs @ ys) \<Longrightarrow> normal_elems r xs"
proof -
  have "dots_first (xs @ ys) \<Longrightarrow> dots_first xs" by (induction xs) (auto split: if_splits)
  then show "normal_elems r (xs @ ys) \<Longrightarrow> normal_elems r xs" by (auto simp: normal_elems_def)
qed

lemma sub_path_join:
  assumes "normal_elems False es"
  shows "sub_path (path_join es) seg = path_join (es @ [seg])"
  using assms path_join_plain [of es] path_join_snoc [of es seg]
  by (cases "es = []") (auto simp: sub_path_def normal_elems_def)

lemma relative_join:
  assumes "normal_elems False es" and "seg \<noteq> []" and "CHR ''/'' \<notin> set seg"
  shows "\<not> IsAbs (path_join (es @ [seg]))"
proof (cases "es = []")
  case True
  then show ?thesis using assms(2,3) by (cases seg) (auto simp: IsAbs_def)
next
  case False
  then have "path_join es \<noteq> [] \<and> \<not> IsAbs (path_join es)" using path_join_plain [of es] assms(1) by (auto simp: normal_elems_def)
  then show ?thesis using path_join_snoc [OF False, of seg] IsAbs_append [of "path_join es"] by simp
qed

lemma Join_entry:
  assumes "normal_elems False es" and "plain_elem n" and "n \<noteq> ''..''"
  shows "Join [path_join es, n] = path_join (es @ [n])"
proof -
  have nn: "normal_elems False (es @ [n])"
    using assms dots_first_append by (auto simp: normal_elems_def)
  have ne: "n \<noteq> []" using assms(2) by (simp add: plain_elem_def)
  have c: "Clean (path_join (es @ [n])) = path_join (es @ [n])"
  proof -
    have r: "path_join (es @ [n]) = render_path False (es @ [n])" by (simp add: render_path_def)
    show ?thesis unfolding Clean_def r using clean_elems_render [OF nn] IsAbs_render [OF nn] by simp
  qed
  show ?thesis
  proof (cases "es = []")
    case True
    then show ?thesis using c ne by (simp add: Join_def)
  next
    case False
    then have "path_join es \<noteq> []" using path_join_plain [of es] assms(1) by (auto simp: normal_elems_def)
    then show ?thesis using c path_join_snoc [OF False, of n] by (simp add: Join_def)
  qed
qed

lemma dirCache_get_true:
  assumes "cache_true H c" and "dirCache_get H d c = (c', de)" and "reads_complete H"
  shows "cache_true H c' \<and> deEntries de = disk_entries H d"
proof -
  define d0 where "d0 = (case c d of None \<Rightarrow> empty_dirEnt | Some de \<Rightarrow> de)"
  have r: "de = dirEnt_update H d d0" "c' = c(d \<mapsto> de)" using assms(2) by (auto simp: dirCache_get_def Let_def d0_def)
  have "d0 = empty_dirEnt \<or> (\<exists>fi es. ciStat H d = Some fi \<and> ciReaddir H d = Some (es, False) \<and> d0 = \<lparr>deDir = Some fi, deEntries = es\<rparr>)"
    using assms(1) by (auto simp: d0_def cache_true_def split: option.splits)
  then consider (empty) "d0 = empty_dirEnt"
    | (read) fi es where "ciStat H d = Some fi" "ciReaddir H d = Some (es, False)" "d0 = \<lparr>deDir = Some fi, deEntries = es\<rparr>" by blast
  then have "(de = empty_dirEnt \<or> (\<exists>fi es. ciStat H d = Some fi \<and> ciReaddir H d = Some (es, False) \<and> de = \<lparr>deDir = Some fi, deEntries = es\<rparr>)) \<and>
      deEntries de = disk_entries H d"
  proof cases
    case empty
    then show ?thesis
      using assms(3) by (auto simp: r(1) dirEnt_update_def empty_dirEnt_def disk_entries_def reads_complete_def split: option.splits)
  next
    case read
    then show ?thesis by (simp add: r(1) dirEnt_update_def disk_entries_def)
  qed
  then show ?thesis using assms(1) r(2) by (auto simp: cache_true_def)
qed

lemma foldl_names:
  "foldl (\<lambda>m ent. m(Join [dir, fst ent] \<mapsto> fst ent)) m es k = Some s \<Longrightarrow>
   m k = Some s \<or> (\<exists>ent \<in> set es. k = Join [dir, fst ent] \<and> s = fst ent)"
  by (induction es arbitrary: m) (fastforce split: if_splits)+

lemma foldl_names_dom:
  "foldl (\<lambda>m ent. m(Join [dir, fst ent] \<mapsto> fst ent)) m es k = None \<Longrightarrow>
   m k = None \<and> (\<forall>ent \<in> set es. k \<noteq> Join [dir, fst ent])"
proof (induction es arbitrary: m)
  case (Cons ent es)
  have "(m(Join [dir, fst ent] \<mapsto> fst ent)) k = None \<and> (\<forall>ent \<in> set es. k \<noteq> Join [dir, fst ent])"
    by (rule Cons.IH) (use Cons.prems in simp)
  then show ?case by (auto split: if_splits)
qed simp

lemma names_true_upd:
  assumes "names_true H er m" and "slash_free (es @ [seg])" and "disk_name H er (path_join es) seg = Some s"
  shows "names_true H er (m(path_join (es @ [seg]) \<mapsto> s))"
  unfolding names_true_def
proof (intro allI impI)
  fix fs b t
  assume "slash_free (fs @ [b])" and "(m(path_join (es @ [seg]) \<mapsto> s)) (path_join (fs @ [b])) = Some t"
  then show "disk_name H er (path_join fs) b = Some t"
    using assms path_join_inj [of fs b es seg] by (auto simp: names_true_def split: if_splits)
qed

lemma visit_dir_true:
  assumes "native_true H er st" and "names_plain H \<and> reads_complete H" and "IsAbs er" and "normal_elems False es"
    and "seg \<noteq> []" and "CHR ''/'' \<notin> set seg" and "visit_dir H er (path_join es) (path_join (es @ [seg])) st = (st1, de)"
  shows "native_true H er st1 \<and> deEntries de = disk_entries H (Join [er, path_join es]) \<and>
    (nm st1 (path_join (es @ [seg])) = None \<longrightarrow> seg \<notin> fst ` set (deEntries de))"
proof -
  let ?d = "Join [er, path_join es]" and ?k = "path_join (es @ [seg])"
  have "nDirs st ?d = None" using assms(1) IsAbs_Join [OF assms(3), of "[path_join es]"] unfolding native_true_def by blast
  moreover obtain c where g: "dirCache_get H ?d (nCache st) = (c, de)"
    using assms(7) calculation by (auto simp: visit_dir_def split: prod.splits)
  ultimately have st1: "st1 = st\<lparr>nCache := c, nDirs := (nDirs st)(?k \<mapsto> de),
      nm := foldl (\<lambda>m ent. m(Join [path_join es, fst ent] \<mapsto> fst ent)) (nm st) (deEntries de)\<rparr>"
    using assms(7) by (simp add: visit_dir_def)
  have t: "cache_true H c" "deEntries de = disk_entries H ?d"
    using dirCache_get_true [OF _ g] assms(1,2) by (auto simp: native_true_def)
  have plain: "plain_elem (fst e) \<and> fst e \<noteq> ''..''" if "e \<in> set (deEntries de)" for e
    using that assms(2) t(2) by (auto simp: names_plain_def disk_entries_def split: option.splits)
  have J: "Join [path_join es, fst e] = path_join (es @ [fst e])" if "e \<in> set (deEntries de)" for e
    using Join_entry [OF assms(4)] plain [OF that] by blast
  have "names_true H er (nm st1)"
    unfolding names_true_def
  proof (intro allI impI)
    fix fs b s assume sf: "slash_free (fs @ [b])" and m: "nm st1 (path_join (fs @ [b])) = Some s"
    from m foldl_names consider "nm st (path_join (fs @ [b])) = Some s"
      | ent where "ent \<in> set (deEntries de)" "path_join (fs @ [b]) = Join [path_join es, fst ent]" "s = fst ent"
      unfolding st1 by fastforce
    then show "disk_name H er (path_join fs) b = Some s"
    proof cases
      case 1
      then show ?thesis using assms(1) sf by (auto simp: native_true_def names_true_def)
    next
      case (2 ent)
      have "slash_free (es @ [fst ent])"
        using normal_slash_free [OF assms(4)] plain [OF 2(1)] by (auto simp: slash_free_def plain_elem_def)
      then have "fs = es" "b = fst ent" using path_join_inj [OF sf] 2 J [OF 2(1)] by auto
      then show ?thesis using 2 t(2) by (auto simp: disk_name_def)
    qed
  qed
  moreover have "seg \<notin> fst ` set (deEntries de)" if "nm st1 ?k = None"
    using foldl_names_dom [of "path_join es" "nm st" "deEntries de" ?k] that J unfolding st1 by fastforce
  moreover have "\<not> IsAbs ?k" using relative_join assms(4-6) by blast
  then have "\<forall>k. nDirs st1 k \<noteq> None \<longrightarrow> \<not> IsAbs k" using assms(1) unfolding st1 native_true_def by auto
  ultimately show ?thesis using t st1 by (simp add: native_true_def)
qed

lemma native_elem_refines:
  assumes "native_true H er st" and "names_plain H \<and> reads_complete H" and "IsAbs er" and "normal_elems False es"
    and "seg \<noteq> []" and "CHR ''/'' \<notin> set seg"
  shows "\<exists>st'. native_elem H er (path_join es) seg st = (st', disk_name H er (path_join es) seg) \<and> native_true H er st'"
proof -
  let ?k = "path_join (es @ [seg])"
  have sf: "slash_free (es @ [seg])" using normal_slash_free [OF assms(4)] assms(6) by (simp add: slash_free_def)
  have k: "(if path_join es = [] then seg else path_join es @ ''/'' @ seg) = ?k"
    using sub_path_join [OF assms(4), of seg] by (simp add: sub_path_def)
  show ?thesis
  proof (cases "nm st ?k")
    case (Some s)
    then have "disk_name H er (path_join es) seg = Some s"
      using assms(1) sf by (auto simp: native_true_def names_true_def)
    then show ?thesis using Some assms(1) k by (simp add: native_elem_def Let_def)
  next
    case None
    obtain st1 de where v: "visit_dir H er (path_join es) ?k st = (st1, de)" by fastforce
    note t = visit_dir_true [OF assms v]
    show ?thesis
    proof (cases "nm st1 ?k")
      case (Some s)
      then have "disk_name H er (path_join es) seg = Some s"
        using t sf by (auto simp: native_true_def names_true_def)
      then show ?thesis using None Some v t k by (simp add: native_elem_def Let_def)
    next
      case n1: None
      have nd: "disk_name H er (path_join es) seg =
          (case ciStat H (Join [er, ?k]) of None \<Rightarrow> None
           | Some fi \<Rightarrow> Some (case find (\<lambda>ent. snd ent = fiId fi) (deEntries de) of Some ent \<Rightarrow> fst ent | None \<Rightarrow> seg))"
        using conjunct1 [OF conjunct2 [OF t]] conjunct2 [OF conjunct2 [OF t]] n1 sub_path_join [OF assms(4), of seg]
        by (simp add: disk_name_def Let_def split: option.split)
      show ?thesis
      proof (cases "ciStat H (Join [er, ?k])")
        case None
        then show ?thesis using \<open>nm st ?k = None\<close> n1 v t k nd by (simp add: native_elem_def Let_def)
      next
        case (Some fi)
        show ?thesis
        proof (cases "find (\<lambda>ent. snd ent = fiId fi) (deEntries de)")
          case None
          then show ?thesis using \<open>nm st ?k = None\<close> n1 v t k nd Some by (simp add: native_elem_def Let_def)
        next
          case f: (Some ent)
          have "names_true H er ((nm st1)(?k \<mapsto> fst ent))"
            using names_true_upd [OF _ sf] t nd Some f by (simp add: native_true_def)
          then have "native_true H er (st1\<lparr>nm := (nm st1)(?k \<mapsto> fst ent)\<rparr>)" using t by (simp add: native_true_def)
          then show ?thesis using None n1 v k nd Some f by (simp add: native_elem_def Let_def)
        qed
      qed
    qed
  qed
qed

lemma native_loop_refines:
  assumes "names_plain H \<and> reads_complete H" and "IsAbs er"
  shows "native_true H er st \<Longrightarrow> normal_elems False (es @ segs) \<Longrightarrow>
    \<exists>st'. native_loop H er segs (path_join es) nsegs st = (st', disk_path H er segs (path_join es) nsegs) \<and> native_true H er st'"
proof (induction segs arbitrary: es nsegs st)
  case (Cons seg segs)
  have n: "normal_elems False es" "plain_elem seg" using Cons.prems(2) normal_prefix [of False es "seg # segs"] by (simp_all add: normal_elems_def)
  then have sg: "seg \<noteq> []" "CHR ''/'' \<notin> set seg" by (simp_all add: plain_elem_def)
  have k: "(if path_join es = [] then seg else path_join es @ ''/'' @ seg) = path_join (es @ [seg])"
    "sub_path (path_join es) seg = path_join (es @ [seg])"
    using sub_path_join [OF n(1), of seg] by (simp_all add: sub_path_def)
  obtain st1 where e: "native_elem H er (path_join es) seg st = (st1, disk_name H er (path_join es) seg)" "native_true H er st1"
    using native_elem_refines [OF Cons.prems(1) assms n(1) sg] by blast
  show ?case
  proof (cases "disk_name H er (path_join es) seg")
    case None
    then show ?thesis using e sg by simp
  next
    case (Some s)
    then show ?thesis using Cons.IH [OF e(2), of "es @ [seg]" "nsegs @ [s]"] Cons.prems(2) e(1) sg k by simp
  qed
qed simp



definition demo_disk :: ci_host where
  "demo_disk = \<lparr>ciStat = (\<lambda>p. map_option (\<lambda>i. \<lparr>fiId = i, fiTime = 0\<rparr>)
       (map_of [(''/r'', 1), (''/r/SRC'', 2), (''/r/Src'', 2), (''/r/SRC/a.H'', 3), (''/r/Src/A.h'', 3)] p)),
     ciReaddir = map_of [(''/r'', [(''Src'', 2)], False), (''/r/SRC'', [(''A.h'', 3)], False), (''/r/Src'', [(''A.h'', 3)], False)]\<rparr>"

definition demo_native :: native_state where
  "demo_native = \<lparr>nm = Map.empty, nDirs = Map.empty, nCache = Map.empty\<rparr>"


text \<open>A read that breaks off leaves what it read in the cache under the time of the directory, so that it
  is taken for the whole until the directory changes, also when reading it would work again.\<close>

lemma partial_entries_stick:
  assumes "ciStat H1 d = Some fi" and "ciReaddir H1 d = Some (es, True)" and "ciStat H2 d = Some fi"
    and "c d = None" and "dirCache_get H1 d c = (c1, de1)" and "dirCache_get H2 d c1 = (c2, de2)"
  shows "deEntries de1 = es \<and> deEntries de2 = es"
  using assms by (auto simp: dirCache_get_def dirEnt_update_def empty_dirEnt_def Let_def)

text \<open>Spellings of one file: in a directory whose entries are different files, every spelling of an
  entry that is not itself listed gets the name of the entry.\<close>

lemma disk_name_spelling:
  assumes "distinct (map snd (disk_entries H (Join [er, dir])))" and "(n, i) \<in> set (disk_entries H (Join [er, dir]))"
    and "seg \<notin> fst ` set (disk_entries H (Join [er, dir]))"
    and "ciStat H (Join [er, sub_path dir seg]) = Some fi" and "fiId fi = i"
  shows "disk_name H er dir seg = Some n"
proof -
  let ?es = "disk_entries H (Join [er, dir])"
  obtain ent where f: "find (\<lambda>ent. snd ent = i) ?es = Some ent"
    using assms(2) by (cases "find (\<lambda>ent. snd ent = i) ?es") (auto simp: find_None_iff)
  then have "snd ent = i \<and> ent \<in> set ?es" by (auto simp: find_Some_iff)
  then have "ent = (n, i)" using assms(1,2) by (metis distinct_map inj_onD snd_conv)
  then show ?thesis using assms(3-5) f by (simp add: disk_name_def)
qed

text \<open>The cross normalizer spells a directory the same way for all its files: the way it was
  spelled first.\<close>

lemma cross_normalize_same_dir:
  assumes "cross_normalize H er p dirs = (d1, r1, True)" and "cross_normalize H er q d1 = (d2, r2, True)"
    and "to_lower (path_dir (dropWhile (\<lambda>c. c = CHR ''/'') (Clean p))) = to_lower (path_dir (dropWhile (\<lambda>c. c = CHR ''/'') (Clean q)))"
  shows "\<exists>d. r1 = Join [d, path_base (dropWhile (\<lambda>c. c = CHR ''/'') (Clean p))] \<and>
    r2 = Join [d, path_base (dropWhile (\<lambda>c. c = CHR ''/'') (Clean q))]"
  using assms by (auto simp: cross_normalize_def Let_def split: option.splits)

end
