(* ===== verification/Bootstrap.thy ===== *)
theory Bootstrap
  imports DepsScanner
begin

text \<open>
  Starting and stopping reproxy (\<open>internal/pkg/bootstrap/bootstrap.go\<close>) and the file that holds its
  process id (\<open>internal/pkg/reproxypid/reproxypid.go\<close>). The file system is a map from paths to
  contents; whether a process lives, what the select statements see and what dialling answers
  are arguments. Log output, the output file of the process and its environment are left out.
\<close>

section \<open>The pid file\<close>

type_synonym pid_files = "string \<rightharpoonup> string"

datatype boot_err =
    AddrErr | MkdirErr | WriteErr | ReadPidErr | ParsePidErr | AliveErr
  | NotRunning | StillRunning | StartErr | ExitErr string | StartTimeout

record PidFile =
  Pid :: int
  pidPath :: string

text \<open>\<open>pathForServerAddr\<close>; \<open>mkdir\<close> says whether the directory can be made.\<close>

definition pathForServerAddr :: "string \<Rightarrow> (string \<Rightarrow> bool) \<Rightarrow> string \<Rightarrow> boot_err + string" where
  "pathForServerAddr tmpDir mkdir serverAddr =
     (case (if prefix ''unix://'' serverAddr then Inr (trim_prefix ''unix://'' serverAddr @ ''.pid'')
            else case SplitHostPort serverAddr of
              None \<Rightarrow> Inl AddrErr
            | Some (_, port) \<Rightarrow> Inr (Join [tmpDir, ''reproxy_'' @ port @ ''.pid''])) of
        Inl e \<Rightarrow> Inl e
      | Inr address \<Rightarrow> if mkdir (Dir address) then Inr address else Inl MkdirErr)"

definition WritePidFile ::
  "string \<Rightarrow> (string \<Rightarrow> bool) \<Rightarrow> (string \<Rightarrow> bool) \<Rightarrow> string \<Rightarrow> int \<Rightarrow> pid_files \<Rightarrow> pid_files \<times> boot_err option" where
  "WritePidFile tmpDir mkdir writable serverAddr pid fs =
     (case pathForServerAddr tmpDir mkdir serverAddr of
        Inl e \<Rightarrow> (fs, Some e)
      | Inr fp \<Rightarrow> if writable fp then (fs(fp \<mapsto> show_signed pid), None) else (fs, Some WriteErr))"

text \<open>An error of the path is overwritten by the read of an empty path.\<close>

definition ReadPidFile :: "string \<Rightarrow> (string \<Rightarrow> bool) \<Rightarrow> string \<Rightarrow> pid_files \<Rightarrow> boot_err + PidFile" where
  "ReadPidFile tmpDir mkdir serverAddr fs =
     (let fp = (case pathForServerAddr tmpDir mkdir serverAddr of Inl _ \<Rightarrow> [] | Inr p \<Rightarrow> p) in
      case fs fp of
        None \<Rightarrow> Inl ReadPidErr
      | Some contents \<Rightarrow>
          (case ParseInt 10 64 contents of
             None \<Rightarrow> Inl ParsePidErr
           | Some pid \<Rightarrow> Inr \<lparr>Pid = pid, pidPath = fp\<rparr>))"

definition DeletePidFile :: "PidFile \<Rightarrow> pid_files \<Rightarrow> pid_files" where
  "DeletePidFile f fs = fs(pidPath f := None)"

text \<open>\<open>PollForDeath\<close> over the polls it makes: what the check of the process answers and whether the
  context is done before the next one. It has not returned when the list ends.\<close>

datatype poll_result = Polling | PollStopped | PollErr | PollDead

fun PollForDeath :: "PidFile \<Rightarrow> ((unit + bool) \<times> bool) list \<Rightarrow> pid_files \<Rightarrow> pid_files \<times> poll_result" where
  "PollForDeath f [] fs = (fs, Polling)"
| "PollForDeath f ((Inl _, _) # ps) fs = (fs, PollErr)"
| "PollForDeath f ((Inr alive, ctxDone) # ps) fs =
     (if \<not> alive then (DeletePidFile f fs, PollDead)
      else if ctxDone then (fs, PollStopped)
      else PollForDeath f ps fs)"

section \<open>Shutdown\<close>

text \<open>What the first select sees: statistics, only when asynchronous; the report of the poll; the
  end of the context.\<close>

datatype shutdown_event = EarlyStats string | PollReport | ShutdownTimeout

record shutdown_answers =
  shAlive :: "unit + bool"
  shPolls :: "((unit + bool) \<times> bool) list"
  shEvent :: shutdown_event
  shLateStats :: "string option"

text \<open>\<open>shutdownReproxy\<close>: the files, the statistics and the error. The event must be one the select
  can see: no early statistics when synchronous, a report only when the poll has made one.\<close>

definition shutdown_possible :: "bool \<Rightarrow> shutdown_answers \<Rightarrow> bool" where
  "shutdown_possible async A \<longleftrightarrow>
     (case shEvent A of
        EarlyStats _ \<Rightarrow> async
      | PollReport \<Rightarrow> snd (PollForDeath \<lparr>Pid = 0, pidPath = []\<rparr> (shPolls A) Map.empty) \<in> {PollErr, PollDead}
      | ShutdownTimeout \<Rightarrow> True)"

definition shutdownReproxy ::
  "string \<Rightarrow> (string \<Rightarrow> bool) \<Rightarrow> string \<Rightarrow> bool \<Rightarrow> shutdown_answers \<Rightarrow> pid_files \<Rightarrow> pid_files \<times> string option \<times> boot_err option" where
  "shutdownReproxy tmpDir mkdir serverAddr async A fs =
     (case ReadPidFile tmpDir mkdir serverAddr fs of
        Inl e \<Rightarrow> (fs, None, Some e)
      | Inr pf \<Rightarrow>
          (case shAlive A of
             Inl _ \<Rightarrow> (fs, None, Some AliveErr)
           | Inr alive \<Rightarrow>
               if \<not> alive then (DeletePidFile pf fs, None, Some NotRunning)
               else
                 let (fs1, polled) = PollForDeath pf (shPolls A) fs in
                 (case shEvent A of
                    EarlyStats st \<Rightarrow> (fs1, Some st, None)
                  | PollReport \<Rightarrow> (fs1, shLateStats A, if polled = PollErr then Some AliveErr else None)
                  | ShutdownTimeout \<Rightarrow> (fs1, shLateStats A, Some StillRunning))))"

definition ShutDownProxy ::
  "string \<Rightarrow> (string \<Rightarrow> bool) \<Rightarrow> string \<Rightarrow> shutdown_answers \<Rightarrow> pid_files \<Rightarrow> pid_files \<times> string option \<times> boot_err option" where
  "ShutDownProxy tmpDir mkdir serverAddr A fs = shutdownReproxy tmpDir mkdir serverAddr False A fs"

definition ShutdownProxyAsync ::
  "string \<Rightarrow> (string \<Rightarrow> bool) \<Rightarrow> string \<Rightarrow> shutdown_answers \<Rightarrow> pid_files \<Rightarrow> pid_files \<times> string option \<times> boot_err option" where
  "ShutdownProxyAsync tmpDir mkdir serverAddr A fs = shutdownReproxy tmpDir mkdir serverAddr True A fs"

section \<open>Start\<close>

text \<open>What one pass of the start loop sees: the end of the process with or without error, or what
  dialling it gives.\<close>

datatype start_poll = Exited "string option" | DialErr | DialNotReady | DialReady

partial_function (option) start_loop :: "(nat \<Rightarrow> start_poll) \<Rightarrow> int \<Rightarrow> nat \<Rightarrow> int \<Rightarrow> boot_err option option" where
  "start_loop polls waitMillis k i =
     (if \<not> i < waitMillis then Some (Some StartTimeout)
      else case polls k of
        Exited (Some e) \<Rightarrow> Some (Some (ExitErr e))
      | Exited None \<Rightarrow> start_loop polls waitMillis (Suc k) i
      | DialErr \<Rightarrow> start_loop polls waitMillis (Suc k) (i + 50)
      | DialNotReady \<Rightarrow> start_loop polls waitMillis (Suc k) (i + 50)
      | DialReady \<Rightarrow> Some None)"

record start_answers =
  stShutdown :: shutdown_answers
  stStarted :: "int option"
  stWritable :: "string \<Rightarrow> bool"
  stPolls :: "nat \<Rightarrow> start_poll"

record start_state =
  stFiles :: pid_files
  stKilled :: "int list"

text \<open>\<open>startProxy\<close>. The previous proxy is shut down first, whatever that gives; on an error the
  process is killed when it was started. \<open>None\<close>: it never returns.\<close>

definition startProxy ::
  "string \<Rightarrow> (string \<Rightarrow> bool) \<Rightarrow> string \<Rightarrow> int \<Rightarrow> start_answers \<Rightarrow> start_state \<Rightarrow> (start_state \<times> boot_err option) option" where
  "startProxy tmpDir mkdir serverAddr waitSeconds A s =
     (let s1 = s\<lparr>stFiles := fst (ShutDownProxy tmpDir mkdir serverAddr (stShutdown A) (stFiles s))\<rparr> in
      case stStarted A of
        None \<Rightarrow> Some (s1, Some StartErr)
      | Some pid \<Rightarrow>
          (case WritePidFile tmpDir mkdir (stWritable A) serverAddr pid (stFiles s1) of
             (fs, Some e) \<Rightarrow> Some (s1\<lparr>stFiles := fs, stKilled := stKilled s1 @ [pid]\<rparr>, Some e)
           | (fs, None) \<Rightarrow>
               (let s2 = s1\<lparr>stFiles := fs\<rparr> in
                case start_loop (stPolls A) (waitSeconds * 1000) 0 0 of
                  None \<Rightarrow> None
                | Some (Some e) \<Rightarrow> Some (s2\<lparr>stKilled := stKilled s2 @ [pid]\<rparr>, Some e)
                | Some None \<Rightarrow> Some (s2, None))))"

section \<open>Lemmas\<close>

lemma WritePidFile_ReadPidFile:
  assumes "WritePidFile tmpDir mkdir writable addr pid fs = (fs', None)" and "- (2 ^ 63) \<le> pid" and "pid < 2 ^ 63"
  shows "\<exists>fp. pathForServerAddr tmpDir mkdir addr = Inr fp \<and> fs' = fs(fp \<mapsto> show_signed pid) \<and>
    ReadPidFile tmpDir mkdir addr fs' = Inr \<lparr>Pid = pid, pidPath = fp\<rparr>"
  using assms ParseInt_show_signed [of 64 pid]
  by (auto simp: WritePidFile_def ReadPidFile_def split: sum.splits if_splits)

text \<open>The pid file of an address, and what is left of it by polling.\<close>

lemma PollForDeath_files:
  "PollForDeath f ps fs = (fs', r) \<Longrightarrow> fs' = (if r = PollDead then DeletePidFile f fs else fs)"
  by (induction f ps fs rule: PollForDeath.induct) (auto split: if_splits)

lemma PollForDeath_result: "snd (PollForDeath f ps fs) = snd (PollForDeath g ps gs)"
  by (induction f ps fs rule: PollForDeath.induct) auto

text \<open>The pid file after a shutdown: it is removed exactly when the process was found dead, at once
  or while it was waited for; after a timeout, or when the process cannot be checked, it stays.\<close>

theorem shutdown_pid_file:
  assumes "ReadPidFile tmpDir mkdir addr fs = Inr pf" and "shutdown_possible False A"
    and "ShutDownProxy tmpDir mkdir addr A fs = (fs', st, e)"
  shows "fs' = (if shAlive A = Inr False \<or> shAlive A = Inr True \<and> snd (PollForDeath pf (shPolls A) fs) = PollDead
      then DeletePidFile pf fs else fs) \<and>
    (e = None \<longleftrightarrow> shAlive A = Inr True \<and> shEvent A = PollReport \<and> snd (PollForDeath pf (shPolls A) fs) = PollDead)"
proof (cases "shAlive A")
  case (Inl x)
  then show ?thesis using assms(1,3) by (auto simp: ShutDownProxy_def shutdownReproxy_def)
next
  case (Inr alive)
  obtain fs1 polled where p: "PollForDeath pf (shPolls A) fs = (fs1, polled)" by fastforce
  have f: "fs1 = (if polled = PollDead then DeletePidFile pf fs else fs)" by (rule PollForDeath_files [OF p])
  have r: "shEvent A = PollReport \<Longrightarrow> polled \<in> {PollErr, PollDead}"
    using assms(2) p PollForDeath_result [of pf "shPolls A" fs] by (fastforce simp: shutdown_possible_def)
  show ?thesis
  proof (cases alive)
    case False
    then show ?thesis using assms(1,3) Inr by (auto simp: ShutDownProxy_def shutdownReproxy_def)
  next
    case True
    then show ?thesis
      using assms Inr p f r
      by (cases "shEvent A") (auto simp: ShutDownProxy_def shutdownReproxy_def shutdown_possible_def)
  qed
qed

section \<open>The start loop\<close>

text \<open>The process reports its end once.\<close>

definition exits_once :: "(nat \<Rightarrow> start_poll) \<Rightarrow> bool" where
  "exits_once polls \<longleftrightarrow> (\<forall>j k. polls j = Exited None \<longrightarrow> polls k = Exited None \<longrightarrow> j = k)"

lemma start_loop_dials:
  assumes "\<And>j. k \<le> j \<Longrightarrow> polls j \<noteq> Exited None"
  shows "\<exists>r. start_loop polls w k i = Some r"
  using assms
proof (induction "nat (w - i)" arbitrary: k i rule: less_induct)
  case less
  have step: "\<exists>r. start_loop polls w (Suc k) (i + 50) = Some r" if "i < w" using less that by simp
  show ?case
  proof (cases "i < w")
    case True
    have "polls k \<noteq> Exited None" using less.prems by blast
    then show ?thesis
      using True step by (subst start_loop.simps) (cases "polls k", auto split: option.splits)
  qed (subst start_loop.simps, simp)
qed

text \<open>A passed-over pass moves the loop on.\<close>

lemma start_loop_returns:
  assumes "exits_once polls"
  shows "\<exists>r. start_loop polls w k i = Some r"
proof (induction "nat (w - i)" arbitrary: k i rule: less_induct)
  case less
  have step: "\<exists>r. start_loop polls w (Suc k) (i + 50) = Some r" if "i < w" using less that by simp
  show ?case
  proof (cases "i < w")
    case True
    show ?thesis
    proof (cases "polls k = Exited None")
      case True
      then have "polls j \<noteq> Exited None" if "Suc k \<le> j" for j
        using assms that unfolding exits_once_def by (metis Suc_n_not_le_n)
      then obtain r where "start_loop polls w (Suc k) i = Some r" using start_loop_dials by blast
      then show ?thesis using True \<open>i < w\<close> by (subst start_loop.simps) simp
    next
      case False
      then show ?thesis using True step by (subst start_loop.simps) (cases "polls k", auto split: option.splits)
    qed
  qed (subst start_loop.simps, simp)
qed

lemma start_loop_ready:
  assumes "start_loop polls w k i = Some None"
  shows "\<exists>j \<ge> k. polls j = DialReady"
proof -
  have "r = None \<longrightarrow> (\<exists>j \<ge> k. polls j = DialReady)" if "start_loop polls w k i = Some r" for r
  proof (rule start_loop.raw_induct [where P = "\<lambda>polls w k i r. r = None \<longrightarrow> (\<exists>j \<ge> k. polls j = DialReady)", OF _ that])
    fix rec polls w k i r
    assume IH: "\<And>polls w k i r. rec polls w k i = Some r \<Longrightarrow> r = None \<longrightarrow> (\<exists>j \<ge> k. polls j = DialReady)"
      and body: "(if \<not> i < w then Some (Some StartTimeout)
        else case polls k of
          Exited (Some e) \<Rightarrow> Some (Some (ExitErr e))
        | Exited None \<Rightarrow> rec polls w (Suc k) i
        | DialErr \<Rightarrow> rec polls w (Suc k) (i + 50)
        | DialNotReady \<Rightarrow> rec polls w (Suc k) (i + 50)
        | DialReady \<Rightarrow> Some None) = Some r"
    have later: "\<exists>j \<ge> k. polls j = DialReady" if "rec polls w (Suc k) i' = Some None" for i'
      using IH [OF that] Suc_leD by blast
    show "r = None \<longrightarrow> (\<exists>j \<ge> k. polls j = DialReady)"
    proof
      assume "r = None"
      then show "\<exists>j \<ge> k. polls j = DialReady"
        using body later by (cases "polls k") (auto split: if_splits option.splits)
    qed
  qed
  then show ?thesis using assms by blast
qed

text \<open>C37: Starting the proxy always ends, if its process reports its end at most once: with the pid
  file written and a connection made, or with an error and the process killed if there was one.\<close>

theorem startProxy_outcome:
  assumes "exits_once (stPolls A)"
  shows "\<exists>s' e. startProxy tmpDir mkdir addr waitSeconds A s = Some (s', e) \<and>
    (case e of
       None \<Rightarrow> stKilled s' = stKilled s \<and>
         (\<exists>pid fp j. stStarted A = Some pid \<and> pathForServerAddr tmpDir mkdir addr = Inr fp \<and>
            stFiles s' fp = Some (show_signed pid) \<and> stPolls A j = DialReady)
     | Some _ \<Rightarrow> stKilled s' = stKilled s @ (case stStarted A of None \<Rightarrow> [] | Some pid \<Rightarrow> [pid]))"
proof (cases "stStarted A")
  case None
  then show ?thesis by (simp add: startProxy_def Let_def)
next
  case (Some pid)
  let ?fs = "fst (ShutDownProxy tmpDir mkdir addr (stShutdown A) (stFiles s))"
  obtain fs we where w: "WritePidFile tmpDir mkdir (stWritable A) addr pid ?fs = (fs, we)" by fastforce
  show ?thesis
  proof (cases we)
    case e: (Some x)
    then show ?thesis using Some w by (simp add: startProxy_def Let_def)
  next
    case None
    obtain fp where fp: "pathForServerAddr tmpDir mkdir addr = Inr fp" "fs fp = Some (show_signed pid)"
      using w None by (auto simp: WritePidFile_def split: sum.splits if_splits)
    obtain r where r: "start_loop (stPolls A) (waitSeconds * 1000) 0 0 = Some r" using start_loop_returns [OF assms] by blast
    show ?thesis
    proof (cases r)
      case n: None
      then obtain j where "stPolls A j = DialReady" using start_loop_ready r by blast
      then show ?thesis using Some w None fp r n by (auto simp: startProxy_def Let_def)
    qed (use Some w None r in \<open>simp add: startProxy_def Let_def\<close>)
  qed
qed

section \<open>A concrete run\<close>

definition demo_answers :: shutdown_answers where
  "demo_answers = \<lparr>shAlive = Inr True, shPolls = [(Inr True, False), (Inr False, False)], shEvent = PollReport, shLateStats = None\<rparr>"

theorem shutdown_pid_file_witness:
  "fst (ShutDownProxy ''/tmp'' (\<lambda>_. True) ''unix:///tmp/r.sock'' demo_answers [''/tmp/r.sock.pid'' \<mapsto> ''42'']) ''/tmp/r.sock.pid'' = None"
proof -
  let ?fs = "[''/tmp/r.sock.pid'' \<mapsto> ''42'']" and ?pf = "\<lparr>Pid = 42, pidPath = ''/tmp/r.sock.pid''\<rparr>"
  obtain fs' st e where s: "ShutDownProxy ''/tmp'' (\<lambda>_. True) ''unix:///tmp/r.sock'' demo_answers ?fs = (fs', st, e)"
    by (metis prod_cases3)
  have "ReadPidFile ''/tmp'' (\<lambda>_. True) ''unix:///tmp/r.sock'' ?fs = Inr ?pf" by code_simp
  moreover have "shutdown_possible False demo_answers" by code_simp
  moreover have "shAlive demo_answers = Inr True" "snd (PollForDeath ?pf (shPolls demo_answers) ?fs) = PollDead" by code_simp+
  ultimately show ?thesis
    using shutdown_pid_file [OF _ _ s, of ?pf] s by (simp add: DeletePidFile_def)
qed

definition demo_start_answers :: start_answers where
  "demo_start_answers = \<lparr>stShutdown = demo_answers, stStarted = Some 7, stWritable = (\<lambda>_. True),
     stPolls = (\<lambda>k. if k = 1 then DialReady else DialErr)\<rparr>"

theorem startProxy_outcome_witness:
  "\<exists>s' e. startProxy ''/tmp'' (\<lambda>_. True) ''unix:///tmp/r.sock'' 5 demo_start_answers \<lparr>stFiles = Map.empty, stKilled = []\<rparr> = Some (s', e)"
proof -
  have "exits_once (stPolls demo_start_answers)" by (simp add: exits_once_def demo_start_answers_def)
  from startProxy_outcome [OF this] show ?thesis by blast
qed

text \<open>A proxy that is killed because it did not come up leaves its pid file behind.\<close>

lemma failed_start_keeps_pid_file:
  assumes "startProxy tmpDir mkdir addr w A s = Some (s', Some StartTimeout)" and "stStarted A = Some pid"
    and "pathForServerAddr tmpDir mkdir addr = Inr fp"
  shows "stFiles s' fp = Some (show_signed pid)"
proof -
  have "WritePidFile tmpDir mkdir (stWritable A) addr pid fs = (fs', e) \<Longrightarrow> e = None \<and> fs' fp = Some (show_signed pid) \<or> e = Some WriteErr"
    for fs fs' e
    using assms(3) by (auto simp: WritePidFile_def split: if_splits)
  then show ?thesis
    using assms(1,2) by (fastforce simp: startProxy_def Let_def split: prod.splits option.splits)
qed

end
