(* ===== verification/Trace.thy ===== *)
theory Trace
  imports Numbers
begin

text \<open>
  Log records as trace events (\<open>cmd/rpl2trace/rpl2trace.go\<close>). Times are nanoseconds since 1970;
  Go's zero time is the first second of year 1. \<open>UnixNano\<close> wraps around outside the range of
  \<open>int64\<close>, durations saturate. The order in which event maps are visited and the final sort are
  arguments (the comparison passed to \<open>sort.Slice\<close> is not strict, so only that it permutes is
  known). Of the arguments of an event only the target is kept.
\<close>

section \<open>Times\<close>

definition zeroTime :: int where
  "zeroTime = - 62135596800 * 1000000000"

definition IsZero :: "int \<Rightarrow> bool" where
  "IsZero t \<longleftrightarrow> t = zeroTime"

definition UnixNano :: "int \<Rightarrow> int" where
  "UnixNano t = signed_take_bit 63 t"

definition time_Sub :: "int \<Rightarrow> int \<Rightarrow> int" where
  "time_Sub a b = max (- (2 ^ 63)) (min (2 ^ 63 - 1) (a - b))"

section \<open>Events\<close>

record trace_event =
  evName :: string
  evCat :: string
  evTimestamp :: int
  evDur :: int
  evPid :: nat
  evTid :: nat
  evTarget :: string

text \<open>A named interval, either end of which may be missing.\<close>

type_synonym interval = "string \<times> int option \<times> int option"

record trace_record =
  trOutputs :: "string list"
  trWorkingDir :: string
  trRemote :: "interval list option"
  trLocal :: "interval list option"

definition trace_event_of :: "string \<Rightarrow> string \<Rightarrow> int \<Rightarrow> int \<Rightarrow> nat \<Rightarrow> nat \<Rightarrow> string \<Rightarrow> trace_event" where
  "trace_event_of name cat from' dur pid tid target =
     \<lparr>evName = name, evCat = cat, evTimestamp = go_quot (UnixNano from') 1000, evDur = go_quot dur 1000,
      evPid = pid, evTid = tid, evTarget = target\<rparr>"

primrec interval_loop ::
  "string \<Rightarrow> nat \<Rightarrow> nat \<Rightarrow> string \<Rightarrow> int \<Rightarrow> interval list \<Rightarrow> trace_event list \<times> int \<times> int \<Rightarrow> trace_event list \<times> int \<times> int" where
  "interval_loop cat pid tid target level [] acc = acc"
| "interval_loop cat pid tid target level (et # ets) acc =
     (case et of (key, From, To) \<Rightarrow> case acc of (events, start, end') \<Rightarrow>
      interval_loop cat pid tid target level ets
        (case (From, To) of
           (Some from', Some to') \<Rightarrow>
             (let start' = (if IsZero start \<or> from' < start then from' else start);
                  end'' = (if IsZero end' \<or> end' < to' then to' else end');
                  dur = time_Sub to' from';
                  etid = (if prefix ''Server'' key then tid + 1 else tid) in
              (if dur < 1000 \<or> \<not> int etid \<le> level then events
               else events @ [trace_event_of (cat @ '':'' @ key) key from' dur pid etid target], start', end''))
         | _ \<Rightarrow> acc))"

definition convertEventTime ::
  "string \<Rightarrow> nat \<Rightarrow> nat \<Rightarrow> interval list \<Rightarrow> string \<Rightarrow> int \<Rightarrow> trace_event list \<times> int \<times> int" where
  "convertEventTime cat pid tid ets target level =
     (case interval_loop cat pid tid target level ets ([], zeroTime, zeroTime) of (events, start, end') \<Rightarrow>
      (if \<not> IsZero start \<and> int tid \<le> level
       then events @ [trace_event_of (target @ '' - '' @ cat) cat start (time_Sub end' start) pid tid target]
       else events, start, end'))"

definition trace_target :: "trace_record \<Rightarrow> string" where
  "trace_target r = trim_prefix (trWorkingDir r) (case trOutputs r of [] \<Rightarrow> ''???'' | x # _ \<Rightarrow> x)"

definition convertLogRecord :: "trace_record \<Rightarrow> int \<Rightarrow> trace_event list \<times> int \<times> int" where
  "convertLogRecord r level =
     (let target = trace_target r;
          (revs, pfrom, pto) = (case trRemote r of
             Some ets \<Rightarrow> if 2 \<le> level then convertEventTime ''Remote'' 0 2 ets target level else ([], zeroTime, zeroTime)
           | None \<Rightarrow> ([], zeroTime, zeroTime));
          (evs, pfrom', pto') = (case trLocal r of
             Some ets \<Rightarrow>
               (case convertEventTime ''Local'' 0 1 ets target level of (levs, lfrom, lto) \<Rightarrow>
                  (revs @ levs, if IsZero pfrom \<or> lfrom < pfrom then lfrom else pfrom,
                   if IsZero pto \<or> pto < lto then lto else pto))
           | None \<Rightarrow> (revs, pfrom, pto)) in
      (if level = 0 then evs @ [trace_event_of target ''Command Request'' pfrom' (time_Sub pto' pfrom') 0 0 target] else evs,
       pfrom', pto'))"

section \<open>Lanes\<close>

text \<open>The lane of a record: the first whose last record has ended before, or a new one. Lanes are
  numbered from one.\<close>

fun lane_of :: "int list \<Rightarrow> int \<Rightarrow> nat" where
  "lane_of [] from' = 0"
| "lane_of (r # running) from' = (if r < from' then 0 else Suc (lane_of running from'))"

definition take_lane :: "int list \<Rightarrow> int \<Rightarrow> int \<Rightarrow> int list \<times> nat" where
  "take_lane running from' to' =
     (let i = lane_of running from' in
      if i < length running then (running[i := to'], i + 1) else (running @ [to'], length running + 1))"

fun place_records :: "(trace_event list \<times> int \<times> int) list \<Rightarrow> int list \<Rightarrow> (nat \<times> trace_event list) list" where
  "place_records [] running = []"
| "place_records ((evs, from', to') # rs) running =
     (case take_lane running from' to' of (running', pid) \<Rightarrow>
        (pid, map (\<lambda>e. e\<lparr>evPid := pid\<rparr>) evs) # place_records rs running')"

definition convertLogRecords :: "(trace_event list \<Rightarrow> trace_event list) \<Rightarrow> trace_record list \<Rightarrow> int \<Rightarrow> trace_event list" where
  "convertLogRecords sorter logs level =
     sorter (concat (map snd (place_records (map (\<lambda>r. convertLogRecord r level) logs) [])))"

section \<open>Records of one lane do not overlap\<close>

lemma lane_of_le: "lane_of running f \<le> length running"
  by (induction running f rule: lane_of.induct) auto

lemma lane_of_free: "lane_of running f < length running \<Longrightarrow> running ! lane_of running f < f"
  by (induction running f rule: lane_of.induct) auto

text \<open>The spans of the records from the given states of the lanes on.\<close>

definition spans :: "(trace_event list \<times> int \<times> int) list \<Rightarrow> (int \<times> int) list" where
  "spans rs = map snd rs"

lemma place_records_length: "length (place_records rs running) = length rs"
  by (induction rs running rule: place_records.induct) (auto split: prod.splits)

text \<open>A record put into an existing lane starts behind what the lane holds; and the lanes only
  grow.\<close>

lemma place_records_after:
  assumes "\<forall>r \<in> set rs. fst (snd r) \<le> snd (snd r)"
  shows "k < length rs \<Longrightarrow> fst (place_records rs running ! k) = Suc i \<Longrightarrow> i < length running \<Longrightarrow>
    running ! i < fst (snd (rs ! k))"
  using assms
proof (induction rs running arbitrary: k rule: place_records.induct)
  case (2 evs from' to' rs running)
  obtain running' pid where t: "take_lane running from' to' = (running', pid)" by fastforce
  show ?case
  proof (cases k)
    case 0
    then have "pid = Suc i" using 2(3) t by simp
    then have "lane_of running from' = i"
      using t 2(4) lane_of_le [of running from'] by (auto simp: take_lane_def Let_def split: if_splits)
    then show ?thesis using 0 2(4) lane_of_free [of running from'] by simp
  next
    case (Suc j)
    have ft: "from' \<le> to'" using 2(5) by simp
    have lt: "i < length running'" using t 2(4) by (auto simp: take_lane_def Let_def split: if_splits)
    have "running' ! i < fst (snd (rs ! j))"
      using 2(1) [OF t [symmetric], of j] 2(2,3,5) t Suc lt by simp
    moreover have "running ! i \<le> running' ! i"
    proof (cases "lane_of running from' = i")
      case True
      then have "running' ! i = to'" "running ! i < from'"
        using t 2(4) lane_of_free [of running from'] by (auto simp: take_lane_def Let_def)
      then show ?thesis using ft by simp
    next
      case False
      then have "running' ! i = running ! i"
        using t 2(4) by (auto simp: take_lane_def Let_def nth_append split: if_splits)
      then show ?thesis by simp
    qed
    ultimately show ?thesis using Suc by simp
  qed
qed simp

lemma place_records_disjoint:
  assumes "\<forall>r \<in> set rs. fst (snd r) \<le> snd (snd r)"
  shows "j < k \<Longrightarrow> k < length rs \<Longrightarrow> fst (place_records rs running ! j) = fst (place_records rs running ! k) \<Longrightarrow>
    snd (snd (rs ! j)) < fst (snd (rs ! k))"
  using assms
proof (induction rs running arbitrary: j k rule: place_records.induct)
  case (2 evs from' to' rs running)
  obtain running' pid where t: "take_lane running from' to' = (running', pid)" by fastforce
  obtain m where m: "k = Suc m" using 2(2) by (cases k) auto
  show ?case
  proof (cases j)
    case 0
    have p: "0 < pid" "pid - 1 < length running'" "running' ! (pid - 1) = to'"
      using t lane_of_le [of running from'] by (auto simp: take_lane_def Let_def split: if_splits)
    have "fst (place_records rs running' ! m) = Suc (pid - 1)" using 2(4) t 0 m p(1) by simp
    then have "running' ! (pid - 1) < fst (snd (rs ! m))"
      using place_records_after [of rs m running' "pid - 1"] 2(3,5) m p(2) by simp
    then show ?thesis using 0 m p(3) by simp
  next
    case (Suc i)
    then show ?thesis using 2(1) [OF t [symmetric], of i m] 2(2-5) t m by simp
  qed
qed simp

text \<open>Every interval of a record runs forward.\<close>

definition forward :: "interval list \<Rightarrow> bool" where
  "forward ets \<longleftrightarrow> (\<forall>(k, f, t) \<in> set ets. \<forall>x y. f = Some x \<longrightarrow> t = Some y \<longrightarrow> zeroTime < x \<and> x \<le> y)"

lemma interval_loop_span:
  assumes "forward ets" and "start = zeroTime \<and> end' = zeroTime \<or> zeroTime < start \<and> start \<le> end'"
  shows "case interval_loop cat pid tid target level ets (evs, start, end') of (_, s, e) \<Rightarrow>
    s = zeroTime \<and> e = zeroTime \<or> zeroTime < s \<and> s \<le> e"
  using assms
proof (induction ets arbitrary: evs start end')
  case (Cons et ets)
  obtain k f t where et: "et = (k, f, t)" by (metis prod_cases3)
  show ?case
  proof (cases "\<exists>x y. f = Some x \<and> t = Some y")
    case True
    then obtain x y where xy: "f = Some x" "t = Some y" by blast
    then have b: "zeroTime < x" "x \<le> y" using Cons.prems(1) et by (auto simp: forward_def)
    let ?s = "if IsZero start \<or> x < start then x else start" and ?e = "if IsZero end' \<or> end' < y then y else end'"
    have "zeroTime < ?s \<and> ?s \<le> ?e" using b Cons.prems(2) by (auto simp: IsZero_def)
    then show ?thesis
      using Cons.IH [of ?s ?e] Cons.prems(1) et xy by (auto simp: forward_def Let_def)
  next
    case False
    then have "interval_loop cat pid tid target level (et # ets) (evs, start, end') =
        interval_loop cat pid tid target level ets (evs, start, end')"
      using et by (cases f; cases t) auto
    then show ?thesis using Cons.IH [of start end' evs] Cons.prems by (simp add: forward_def)
  qed
qed auto

lemma convertEventTime_span:
  assumes "forward ets" and "convertEventTime cat pid tid ets target level = (evs, s, e)"
  shows "s = zeroTime \<and> e = zeroTime \<or> zeroTime < s \<and> s \<le> e"
  using interval_loop_span [OF assms(1), of zeroTime zeroTime cat pid tid target level "[]"] assms(2)
  by (auto simp: convertEventTime_def split: prod.splits)

definition forward_record :: "trace_record \<Rightarrow> bool" where
  "forward_record r \<longleftrightarrow> (\<forall>ets. trRemote r = Some ets \<or> trLocal r = Some ets \<longrightarrow> forward ets)"

lemma convertLogRecord_span:
  assumes "forward_record r"
  shows "fst (snd (convertLogRecord r level)) \<le> snd (snd (convertLogRecord r level))"
proof -
  let ?rem = "case trRemote r of
      Some ets \<Rightarrow> if 2 \<le> level then convertEventTime ''Remote'' 0 2 ets (trace_target r) level else ([], zeroTime, zeroTime)
    | None \<Rightarrow> ([], zeroTime, zeroTime)"
  obtain revs pf pt where rem: "?rem = (revs, pf, pt)" by (metis prod_cases3)
  have p: "pf = zeroTime \<and> pt = zeroTime \<or> zeroTime < pf \<and> pf \<le> pt"
  proof (cases "\<exists>ets. trRemote r = Some ets \<and> 2 \<le> level")
    case True
    then obtain ets where e: "trRemote r = Some ets" "2 \<le> level" by blast
    then have "forward ets" using assms by (simp add: forward_record_def)
    then show ?thesis using convertEventTime_span [of ets] rem e by auto
  next
    case False
    then show ?thesis using rem by (auto split: option.splits)
  qed
  show ?thesis
  proof (cases "trLocal r")
    case None
    then show ?thesis using rem p by (auto simp: convertLogRecord_def Let_def)
  next
    case (Some ets)
    obtain levs lf lt where l: "convertEventTime ''Local'' 0 1 ets (trace_target r) level = (levs, lf, lt)" by (metis prod_cases3)
    have "lf = zeroTime \<and> lt = zeroTime \<or> zeroTime < lf \<and> lf \<le> lt"
      using convertEventTime_span [OF _ l] assms Some by (auto simp: forward_record_def)
    then show ?thesis using rem p l Some by (auto simp: convertLogRecord_def Let_def IsZero_def)
  qed
qed

text \<open>Records shown in the same lane of a trace do not overlap: a later one starts after the
  earlier one has ended, if all their intervals run forward.\<close>

theorem trace_lanes_disjoint:
  assumes "\<forall>r \<in> set logs. forward_record r" and "j < k" and "k < length logs"
    and "fst (place_records (map (\<lambda>r. convertLogRecord r level) logs) [] ! j) =
      fst (place_records (map (\<lambda>r. convertLogRecord r level) logs) [] ! k)"
  shows "snd (snd (convertLogRecord (logs ! j) level)) < fst (snd (convertLogRecord (logs ! k) level))"
proof -
  let ?rs = "map (\<lambda>r. convertLogRecord r level) logs"
  have "\<forall>r \<in> set ?rs. fst (snd r) \<le> snd (snd r)" using assms(1) convertLogRecord_span by auto
  from place_records_disjoint [OF this assms(2) _ assms(4)] show ?thesis using assms(2,3) by simp
qed

definition demo_trace :: "trace_record list" where
  "demo_trace = map (\<lambda>(a, b). \<lparr>trOutputs = [''o''], trWorkingDir = [], trRemote = None, trLocal = Some [(''Run'', Some a, Some b)]\<rparr>)
     [(1000, 5000), (2000, 9000), (6000, 8000)]"

theorem trace_lanes_disjoint_witness:
  "snd (snd (convertLogRecord (demo_trace ! 0) 3)) < fst (snd (convertLogRecord (demo_trace ! 2) 3))"
proof -
  have "\<forall>r \<in> set demo_trace. forward_record r"
    by (simp add: demo_trace_def forward_record_def forward_def zeroTime_def)
  moreover have "fst (place_records (map (\<lambda>r. convertLogRecord r 3) demo_trace) [] ! 0) =
      fst (place_records (map (\<lambda>r. convertLogRecord r 3) demo_trace) [] ! 2)" by code_simp
  moreover have "(2::nat) < length demo_trace" by (simp add: demo_trace_def)
  ultimately show ?thesis using trace_lanes_disjoint [of demo_trace 0 2 3] by simp
qed

text \<open>Local metadata without any event moves the start of the record back to the zero time.\<close>

lemma empty_local_resets_start:
  assumes "trLocal r = Some []" and "trRemote r = Some ets" and "forward ets"
  shows "fst (snd (convertLogRecord r level)) = zeroTime"
proof -
  have l: "convertEventTime ''Local'' 0 1 [] t level = ([], zeroTime, zeroTime)" for t
    by (simp add: convertEventTime_def IsZero_def)
  obtain revs pf pt where rem: "(if 2 \<le> level then convertEventTime ''Remote'' 0 2 ets (trace_target r) level else ([], zeroTime, zeroTime)) = (revs, pf, pt)"
    by (metis prod_cases3)
  have "pf = zeroTime \<or> zeroTime < pf"
    using rem convertEventTime_span [OF assms(3)] by (fastforce split: if_splits)
  then show ?thesis using rem l assms(1,2) by (auto simp: convertLogRecord_def Let_def IsZero_def)
qed

end
