(* ===== verification/Outputs.thy ===== *)
theory Outputs
  imports Action
begin

text \<open>
  What reproxy does to the output files of an action on disk (\<open>reproxy/action.go\<close>, \<open>fileList\<close> of
  \<open>server.go\<close>): moving outputs downloaded to a temporary directory to their places, removing them
  before a rerun, keeping the modification time of outputs that did not change, and dropping
  their entries from the file metadata cache.

  The disk is a map from absolute paths to nodes. Any call of the operating system may be
  refused, as an argument says (permissions, a directory that is not empty); beyond that calls
  behave as documented. The file metadata cache belongs to the SDK: \<open>Get\<close> is an argument, what
  \<open>Update\<close> and \<open>Delete\<close> leave is a map.
\<close>

section \<open>The disk\<close>

text \<open>A file has a digest, a modification time and a mode, a directory a mode.\<close>

datatype node = FileN string int nat | DirN nat

type_synonym tree = "string \<rightharpoonup> node"

datatype os_call = CRename string string | CMkdirAll string | CRemove string | CRemoveAll string
  | CChtimes string | CChmod string | CReadFile string | CStat string

type_synonym refusal = "tree \<Rightarrow> os_call \<Rightarrow> bool"

definition below :: "string \<Rightarrow> string \<Rightarrow> bool" where
  "below d p \<longleftrightarrow> p = d \<or> prefix (dir_prefix d) p"

definition is_dir :: "tree \<Rightarrow> string \<Rightarrow> bool" where
  "is_dir t p \<longleftrightarrow> (case t p of Some (DirN _) \<Rightarrow> True | _ \<Rightarrow> False)"

text \<open>\<open>os.Rename\<close>: the file, or the directory with all it holds, moves. The parent of the target
  must exist and a file never replaces a directory or the reverse.\<close>

definition os_Rename :: "refusal \<Rightarrow> string \<Rightarrow> string \<Rightarrow> tree \<Rightarrow> tree option" where
  "os_Rename refuse s d t =
     (if refuse t (CRename s d) \<or> t s = None \<or> \<not> is_dir t (Dir d) \<or> (t d \<noteq> None \<and> is_dir t d \<noteq> is_dir t s) then None
      else Some (\<lambda>q. if below d q then t (s @ drop (length d) q) else if below s q then None else t q))"

text \<open>\<open>os.MkdirAll\<close>: the directory and its missing parents.\<close>

definition os_MkdirAll :: "refusal \<Rightarrow> nat \<Rightarrow> string \<Rightarrow> tree \<Rightarrow> tree option" where
  "os_MkdirAll refuse mode p t =
     (if refuse t (CMkdirAll p) then None
      else Some (\<lambda>q. if t q = None \<and> below q p \<and> Clean q = q then Some (DirN mode) else t q))"

definition os_Remove :: "refusal \<Rightarrow> string \<Rightarrow> tree \<Rightarrow> tree option" where
  "os_Remove refuse p t = (if refuse t (CRemove p) \<or> t p = None then None else Some (t(p := None)))"

definition os_RemoveAll :: "refusal \<Rightarrow> string \<Rightarrow> tree \<Rightarrow> tree option" where
  "os_RemoveAll refuse p t =
     (if refuse t (CRemoveAll p) then None else Some (\<lambda>q. if below p q then None else t q))"

definition os_Chtimes :: "refusal \<Rightarrow> string \<Rightarrow> int \<Rightarrow> tree \<Rightarrow> tree option" where
  "os_Chtimes refuse p m t =
     (if refuse t (CChtimes p) then None
      else case t p of None \<Rightarrow> None | Some (DirN x) \<Rightarrow> Some t | Some (FileN d _ x) \<Rightarrow> Some (t(p \<mapsto> FileN d m x)))"

definition os_Chmod :: "refusal \<Rightarrow> string \<Rightarrow> nat \<Rightarrow> tree \<Rightarrow> tree option" where
  "os_Chmod refuse p x t =
     (if refuse t (CChmod p) then None
      else case t p of None \<Rightarrow> None | Some (DirN _) \<Rightarrow> Some (t(p \<mapsto> DirN x)) | Some (FileN d m _) \<Rightarrow> Some (t(p \<mapsto> FileN d m x)))"

section \<open>Commands\<close>

record out_cmd =
  ocExecRoot :: string
  ocWorkingDir :: string
  ocOutputFiles :: "string list"
  ocOutputDirs :: "string list"
  ocDepsFile :: string
  ocExecutionID :: string
  ocDownloadTmp :: string

definition out_path :: "out_cmd \<Rightarrow> string \<Rightarrow> string" where
  "out_path c f = Join [ocExecRoot c, ocWorkingDir c, f]"

definition tmpBaseDir :: string where
  "tmpBaseDir = ''.reproxy_tmp''"

text \<open>The temporary directory of an action: an error, or its path.\<close>

definition createTmpDir :: "refusal \<Rightarrow> out_cmd \<Rightarrow> tree \<Rightarrow> tree \<times> string option" where
  "createTmpDir refuse c t =
     (let base = (if ocDownloadTmp c = [] then out_path c tmpBaseDir else ocDownloadTmp c);
          tmpDir = Join [base, ocExecutionID c] in
      case os_MkdirAll refuse 511 tmpDir t of None \<Rightarrow> (t, None) | Some t' \<Rightarrow> (t', Some tmpDir))"

section \<open>Moving outputs to their places\<close>

datatype move_err = MkdirFailed string | MoveFileFailed string | RemoveDirFailed string | MoveDirFailed string

fun move_files ::
  "refusal \<Rightarrow> (string \<Rightarrow> bool) \<Rightarrow> string \<Rightarrow> string \<Rightarrow> string list \<Rightarrow> string list \<Rightarrow> tree \<Rightarrow> tree \<times> move_err option" where
  "move_files refuse known srcDir destDir dirs [] t = (t, None)"
| "move_files refuse known srcDir destDir dirs (f # fs) t =
     (let src = Join [srcDir, f]; dest = Join [destDir, f] in
      if \<not> known src then move_files refuse known srcDir destDir dirs fs t
      else case (if Dir dest \<in> set dirs then Some t else os_MkdirAll refuse 511 (Dir dest) t) of
        None \<Rightarrow> (t, Some (MkdirFailed (Dir dest)))
      | Some t1 \<Rightarrow>
         (case os_Rename refuse src dest t1 of
            None \<Rightarrow> (t1, Some (MoveFileFailed f))
          | Some t2 \<Rightarrow> move_files refuse known srcDir destDir (Dir dest # dirs) fs t2))"

fun move_dirs ::
  "refusal \<Rightarrow> (string \<Rightarrow> bool) \<Rightarrow> string \<Rightarrow> string \<Rightarrow> string list \<Rightarrow> tree \<Rightarrow> tree \<times> move_err option" where
  "move_dirs refuse isDir srcDir destDir [] t = (t, None)"
| "move_dirs refuse isDir srcDir destDir (d # ds) t =
     (let src = Join [srcDir, d]; dest = Join [destDir, d] in
      if \<not> isDir src then move_dirs refuse isDir srcDir destDir ds t
      else case os_RemoveAll refuse dest t of
        None \<Rightarrow> (t, Some (RemoveDirFailed dest))
      | Some t1 \<Rightarrow>
         (case os_Rename refuse src dest t1 of
            None \<Rightarrow> (t1, Some (MoveDirFailed d))
          | Some t2 \<Rightarrow> move_dirs refuse isDir srcDir destDir ds t2))"

text \<open>\<open>known\<close> says for which paths the metadata cache returns no error, \<open>isDir\<close> for which it
  reports a directory.\<close>

definition moveOutputsFromTemp ::
  "refusal \<Rightarrow> (string \<Rightarrow> bool) \<Rightarrow> (string \<Rightarrow> bool) \<Rightarrow> out_cmd \<Rightarrow> string \<Rightarrow> tree \<Rightarrow> tree \<times> move_err option" where
  "moveOutputsFromTemp refuse known isDir c tmpDir t =
     (let srcDir = Join [tmpDir, ocWorkingDir c]; destDir = Join [ocExecRoot c, ocWorkingDir c] in
      case move_files refuse known srcDir destDir [] (ocOutputFiles c) t of
        (t1, Some e) \<Rightarrow> (t1, Some e)
      | (t1, None) \<Rightarrow> move_dirs refuse isDir srcDir destDir (ocOutputDirs c) t1)"

section \<open>Removing outputs before a rerun\<close>

definition remove_file :: "refusal \<Rightarrow> out_cmd \<Rightarrow> tree \<Rightarrow> string \<Rightarrow> tree" where
  "remove_file refuse c t f =
     (if f = ocDepsFile c then t
      else case os_Remove refuse (out_path c f) t of None \<Rightarrow> t | Some t' \<Rightarrow> t')"

definition remove_dir :: "refusal \<Rightarrow> out_cmd \<Rightarrow> tree \<Rightarrow> string \<Rightarrow> tree" where
  "remove_dir refuse c t f =
     (let p = out_path c f in
      case (if refuse t (CStat p) then None else t p) of
        None \<Rightarrow> t
      | Some n \<Rightarrow>
         (case os_RemoveAll refuse p t of
            None \<Rightarrow> t
          | Some t1 \<Rightarrow>
             (case os_MkdirAll refuse (case n of DirN m \<Rightarrow> m | FileN _ _ m \<Rightarrow> m) p t1 of None \<Rightarrow> t1 | Some t2 \<Rightarrow> t2)))"

definition removeAllOutputs :: "refusal \<Rightarrow> out_cmd \<Rightarrow> tree \<Rightarrow> tree" where
  "removeAllOutputs refuse c t =
     foldl (remove_dir refuse c) (foldl (remove_file refuse c) t (ocOutputFiles c)) (ocOutputDirs c)"

section \<open>Modification times of unchanged outputs\<close>

type_synonym outs_info = "string \<rightharpoonup> string \<times> int"

text \<open>A directory has no digest; \<open>Rel\<close> of a path below the directory never fails, and an error
  would leave the empty name.\<close>

definition getFileInfo :: "refusal \<Rightarrow> tree \<Rightarrow> string \<Rightarrow> outs_info \<Rightarrow> string \<Rightarrow> outs_info" where
  "getFileInfo refuse t absPath info p =
     (case t p of
        Some (FileN d m _) \<Rightarrow>
          if refuse t (CReadFile p) then info
          else info((case Rel absPath p of Ok r \<Rightarrow> r | _ \<Rightarrow> []) \<mapsto> (d, m))
      | _ \<Rightarrow> info)"

definition getPreExecOutsInfo :: "refusal \<Rightarrow> (tree \<Rightarrow> string \<Rightarrow> string list) \<Rightarrow> out_cmd \<Rightarrow> tree \<Rightarrow> outs_info" where
  "getPreExecOutsInfo refuse walk c t =
     (let absPath = Join [ocExecRoot c, ocWorkingDir c];
          info = foldl (\<lambda>i f. let p = Join [absPath, f] in
                    if refuse t (CStat p) then i else getFileInfo refuse t absPath i p) Map.empty (ocOutputFiles c) in
      foldl (\<lambda>i d. foldl (getFileInfo refuse t absPath) i (walk t (Join [absPath, d]))) info (ocOutputDirs c))"

text \<open>What the metadata cache stores for a path.\<close>

record meta =
  mdDigest :: string
  mdMTime :: "int option"
  mdExecutable :: bool

type_synonym fmc = "string \<rightharpoonup> meta"

text \<open>The loop ends at the first time that cannot be set.\<close>

fun restore_mtimes ::
  "refusal \<Rightarrow> (fmc \<Rightarrow> string \<Rightarrow> meta) \<Rightarrow> out_cmd \<Rightarrow> outs_info \<Rightarrow> (string \<times> string) list \<Rightarrow> tree \<times> fmc \<Rightarrow> tree \<times> fmc" where
  "restore_mtimes refuse get c pre [] st = st"
| "restore_mtimes refuse get c pre ((f, d) # outs) (t, fmc) =
     (case pre f of
        Some (d', m) \<Rightarrow>
          if d' \<noteq> d then restore_mtimes refuse get c pre outs (t, fmc)
          else case os_Chtimes refuse (out_path c f) m t of
            None \<Rightarrow> (t, fmc)
          | Some t' \<Rightarrow>
             restore_mtimes refuse get c pre outs
               (t', fmc(out_path c f \<mapsto> (get fmc (out_path c f))\<lparr>mdDigest := d', mdMTime := Some m\<rparr>))
      | None \<Rightarrow> restore_mtimes refuse get c pre outs (t, fmc))"

definition restoreUnchangedOutputMtimes ::
  "refusal \<Rightarrow> (fmc \<Rightarrow> string \<Rightarrow> meta) \<Rightarrow> out_cmd \<Rightarrow> outs_info \<Rightarrow> (string \<times> string) list option \<Rightarrow> tree \<times> fmc \<Rightarrow> (tree \<times> fmc) option" where
  "restoreUnchangedOutputMtimes refuse get c pre outDigests st =
     (case outDigests of None \<Rightarrow> None | Some outs \<Rightarrow> Some (restore_mtimes refuse get c pre outs st))"

section \<open>The metadata cache\<close>

text \<open>The files of a directory in the order they are walked, with whether each is a directory.\<close>

definition fileList :: "(string \<Rightarrow> (string \<times> bool) list) \<Rightarrow> string \<Rightarrow> string list \<Rightarrow> string list \<Rightarrow> string list" where
  "fileList walk execRoot files dirs =
     map (\<lambda>f. if IsAbs f then f else Join [execRoot, f]) files @
     concat (map (\<lambda>d. map fst (filter (\<lambda>(p, dir). \<not> dir) (walk (Join [execRoot, d])))) dirs)"

definition delete_entries :: "(string \<Rightarrow> bool) \<Rightarrow> string list \<Rightarrow> fmc \<Rightarrow> fmc" where
  "delete_entries delFails ps fmc = foldl (\<lambda>m p. if delFails p then m else m(p := None)) fmc ps"

definition clearOutputsCache ::
  "(string \<Rightarrow> (string \<times> bool) list) \<Rightarrow> (string \<Rightarrow> bool) \<Rightarrow> out_cmd \<Rightarrow> fmc option \<Rightarrow> fmc option" where
  "clearOutputsCache walk delFails c fmc =
     map_option (delete_entries delFails
       (fileList walk (Join [ocExecRoot c, ocWorkingDir c]) (ocOutputFiles c) (ocOutputDirs c))) fmc"

definition clearInputOutputFileCache :: "(string \<Rightarrow> bool) \<Rightarrow> string list \<Rightarrow> fmc option \<Rightarrow> fmc option" where
  "clearInputOutputFileCache delFails inOut fmc = map_option (delete_entries delFails inOut) fmc"

section \<open>Virtual inputs given by digest\<close>

record virtual_file =
  vfPath :: string
  vfContents :: string
  vfDigest :: string
  vfMtime :: int
  vfMode :: nat

definition by_digest :: "virtual_file \<Rightarrow> bool" where
  "by_digest v \<longleftrightarrow> vfDigest v \<noteq> [] \<and> vfContents v = []"

text \<open>\<open>zero\<close> is the digest left by one that cannot be read. A mode or time that cannot be set is
  only reported. Times are seconds since 1970.\<close>

definition place_virtual ::
  "refusal \<Rightarrow> (string \<Rightarrow> string option) \<Rightarrow> string \<Rightarrow> string \<Rightarrow> tree \<times> fmc \<Rightarrow> virtual_file \<Rightarrow> tree \<times> fmc" where
  "place_virtual refuse parse zero outDir st v =
     (case st of (t, fmc) \<Rightarrow>
      let p = Join [outDir, vfPath v];
          dg = (case parse (vfDigest v) of Some d \<Rightarrow> d | None \<Rightarrow> zero);
          t1 = (if vfMtime v = 0 then t else case os_Chtimes refuse p (vfMtime v) t of None \<Rightarrow> t | Some t' \<Rightarrow> t');
          t2 = (if vfMode v = 0 then t1 else case os_Chmod refuse p (vfMode v) t1 of None \<Rightarrow> t1 | Some t' \<Rightarrow> t') in
      (t2, fmc(p \<mapsto> \<lparr>mdDigest = dg, mdMTime = (if vfMtime v = 0 then None else Some (vfMtime v)), mdExecutable = bit (vfMode v) 6\<rparr>)))"

definition downloadVirtualInputs ::
  "refusal \<Rightarrow> (string \<Rightarrow> string option) \<Rightarrow> string \<Rightarrow> ((string \<rightharpoonup> string) \<Rightarrow> string \<Rightarrow> tree \<Rightarrow> (string, tree) res) \<Rightarrow>
   out_cmd \<Rightarrow> virtual_file list option \<Rightarrow> tree \<times> fmc \<Rightarrow> (string, tree \<times> fmc) res" where
  "downloadVirtualInputs refuse parse zero download c vinputs st =
     (case vinputs of
        None \<Rightarrow> Ok st
      | Some vs \<Rightarrow>
         (let outs = foldl (\<lambda>m v. if by_digest v
                then m(vfPath v \<mapsto> (case parse (vfDigest v) of Some d \<Rightarrow> d | None \<Rightarrow> zero)) else m) Map.empty vs;
              outDir = Join [ocExecRoot c, ocWorkingDir c] in
          case st of (t, fmc) \<Rightarrow>
            (case download outs outDir t of
               Ok t' \<Rightarrow> Ok (foldl (place_virtual refuse parse zero outDir) (t', fmc) (filter (\<lambda>v. outs (vfPath v) \<noteq> None) vs))
             | Err e \<Rightarrow> Err e
             | Panic \<Rightarrow> Panic)))"

section \<open>Paths below a directory\<close>

lemma below_refl [simp]: "below p p"
  by (simp add: below_def)

lemma prefix_dir_prefix [simp]: "prefix d (dir_prefix d)"
  by (simp add: dir_prefix_def)

lemma below_trans: "below a b \<Longrightarrow> below b c \<Longrightarrow> below a c"
  unfolding below_def
  by (metis prefix_dir_prefix prefix_order.trans)

text \<open>Two directories that hold the same path are comparable.\<close>

lemma dir_prefix_comparable: "prefix (dir_prefix a) (dir_prefix b) \<Longrightarrow> below a b \<or> below b a"
  by (auto simp: dir_prefix_def below_def split: if_splits)

lemma below_comparable:
  assumes "below a q" and "below b q"
  shows "below a b \<or> below b a"
proof (cases "q = a \<or> q = b")
  case True
  then show ?thesis using assms by auto
next
  case False
  then have "prefix (dir_prefix a) q" "prefix (dir_prefix b) q" using assms by (auto simp: below_def)
  then show ?thesis using dir_prefix_comparable prefix_same_cases by blast
qed

lemma below_split: "below d q \<Longrightarrow> d @ drop (length d) q = q"
  by (auto simp: below_def dir_prefix_def prefix_def split: if_splits)

text \<open>Two paths neither of which is below the other, and lists of such paths.\<close>

definition apart2 :: "string \<Rightarrow> string \<Rightarrow> bool" where
  "apart2 a b \<longleftrightarrow> \<not> below a b \<and> \<not> below b a"

fun apart :: "string list \<Rightarrow> bool" where
  "apart [] = True"
| "apart (p # ps) = (list_all (apart2 p) ps \<and> apart ps)"

lemma apart2_sym: "apart2 a b \<Longrightarrow> apart2 b a"
  by (simp add: apart2_def)

lemma apart2_below: "apart2 a b \<Longrightarrow> below b q \<Longrightarrow> apart2 a q"
  unfolding apart2_def using below_comparable below_trans by blast

lemma apart_append:
  "apart (xs @ ys) \<longleftrightarrow> apart xs \<and> apart ys \<and> (\<forall>x \<in> set xs. \<forall>y \<in> set ys. apart2 x y)"
  by (induction xs) (auto simp: list_all_iff)

section \<open>One move\<close>

definition never :: refusal where
  "never = (\<lambda>_ _. False)"

text \<open>A move carries over what is at or below the source, leaves nothing there, and changes no
  other path but missing parents of the target.\<close>

definition moved :: "string \<Rightarrow> string \<Rightarrow> tree \<Rightarrow> tree \<Rightarrow> bool" where
  "moved s d t t' \<longleftrightarrow> (\<forall>q. below d q \<longrightarrow> t' q = t (s @ drop (length d) q)) \<and> (\<forall>q. below s q \<longrightarrow> t' q = None) \<and>
     (\<forall>q. \<not> below s q \<longrightarrow> \<not> below d q \<longrightarrow> (t q \<noteq> None \<or> \<not> below q d \<longrightarrow> t' q = t q) \<and> (t q = None \<longrightarrow> t' q = None \<or> is_dir t' q))"

lemma Dir_clean:
  assumes "IsAbs p" and "Clean p = p" and "p \<noteq> ''/''"
  shows "below (Dir p) p \<and> length (Dir p) < length p \<and> \<not> suffix ''/'' p"
proof -
  have p: "p = CHR ''/'' # path_join (clean_elems p)" using assms(1,2) by (simp add: Clean_def render_path_def)
  with assms(3) obtain es e where es: "clean_elems p = es @ [e]" by (cases "clean_elems p" rule: rev_cases) auto
  then have e: "CHR ''/'' \<notin> set e" "e \<noteq> []" using clean_elems_plain [of e p] by (auto simp: plain_elem_def)
  define u where "u = (if es = [] then [] else CHR ''/'' # path_join es)"
  have pu: "p = u @ CHR ''/'' # e" using p es path_join_snoc [of es e] by (simp add: u_def)
  have "dropWhile (\<lambda>c. c \<noteq> CHR ''/'') (rev e @ CHR ''/'' # rev u) = CHR ''/'' # rev u"
    using e by (subst dropWhile_append2) auto
  then have d: "Dir p = Clean (u @ ''/'')" by (simp add: Dir_def pu)
  have nosl: "\<not> suffix ''/'' p" using pu e by (cases e rule: rev_cases) (auto simp: suffix_def)
  show ?thesis
  proof (cases "es = []")
    case True
    have "Clean ''/'' = ''/''" by code_simp
    then have "Dir p = ''/''" using d True by (simp add: u_def)
    then show ?thesis using pu e True nosl by (simp add: u_def below_def dir_prefix_def)
  next
    case False
    have n: "normal_elems True es"
      using clean_elems_normal [of p] assms(1) es dots_first_notin [of es] by (auto simp: normal_elems_def)
    have ur: "u = render_path True es" "u \<noteq> []" "IsAbs u" using False by (simp_all add: u_def render_path_def IsAbs_def)
    then have "clean_elems u = es" using clean_elems_render [OF n] by simp
    then have "clean_elems (u @ ''/'') = es" using clean_elems_append [OF ur(2), of "[]"] ur(3) by (simp add: push_elem_def)
    then have "Clean (u @ ''/'') = u" using ur by (simp add: Clean_def IsAbs_append)
    then show ?thesis using d pu nosl by (auto simp: below_def dir_prefix_def)
  qed
qed

lemma clean_Join: "IsAbs a \<Longrightarrow> IsAbs (Join (a # es)) \<and> Clean (Join (a # es)) = Join (a # es)"
  by (simp add: IsAbs_Join) (simp add: Join_abs)

lemma not_below_Dir:
  assumes "IsAbs p" and "Clean p = p" and "p \<noteq> ''/''"
  shows "\<not> below p (Dir p)"
proof
  assume "below p (Dir p)"
  then have "length p \<le> length (Dir p)" using below_split by (metis le_add1 length_append)
  then show False using Dir_clean [OF assms] by simp
qed

lemma below_shift:
  assumes "below d q" and "\<not> suffix ''/'' d"
  shows "below s (s @ drop (length d) q)"
  using assms by (auto simp: below_def dir_prefix_def prefix_def suffix_def split: if_splits)

text \<open>A file goes to its place, the directory of which is made first unless it was made before.\<close>

lemma os_MkdirAll_never:
  "os_MkdirAll never m p t = Some (\<lambda>q. if t q = None \<and> below q p \<and> Clean q = q then Some (DirN m) else t q)"
  by (simp add: os_MkdirAll_def never_def)

lemma move_file_step:
  assumes d: "IsAbs d" "Clean d = d" "d \<noteq> ''/''" and a: "apart2 s d"
    and s: "t s \<noteq> None" "\<not> is_dir t s" and td: "\<not> is_dir t d"
    and par: "t (Dir d) = None \<or> is_dir t (Dir d)" and t1: "t1 = t \<and> is_dir t (Dir d) \<or> os_MkdirAll never 511 (Dir d) t = Some t1"
  shows "\<exists>t2. os_Rename never s d t1 = Some t2 \<and> moved s d t t2 \<and> is_dir t2 (Dir d)"
proof -
  have mk: "t1 q = t q" if "t q \<noteq> None \<or> \<not> below q (Dir d)" for q
    using t1 that by (auto simp: os_MkdirAll_never)
  have new: "t1 q = None \<or> is_dir t1 q" if "t q = None" for q
    using t1 that by (auto simp: os_MkdirAll_never is_dir_def)
  have dd: "is_dir t1 (Dir d)" using t1 par Clean_idem by (auto simp: os_MkdirAll_never is_dir_def Dir_def)
  have up: "below q d" if "below q (Dir d)" for q using that Dir_clean [OF d] below_trans by blast
  have mk': "t1 q = t q" if "\<not> below q d" for q using mk up that by blast
  have sd: "\<not> below q (Dir d)" if "below s q" for q
    using that up [of q] a below_trans by (auto simp: apart2_def)
  have dq: "\<not> below d (Dir d)" by (rule not_below_Dir [OF d])
  have "t1 s = t s" "t1 d = t d" using mk s(1) dq by auto
  then have ok: "\<not> (t1 s = None \<or> \<not> is_dir t1 (Dir d) \<or> (t1 d \<noteq> None \<and> is_dir t1 d \<noteq> is_dir t1 s))"
    using s td dd by (simp add: is_dir_def)
  define t2 where "t2 = (\<lambda>q. if below d q then t1 (s @ drop (length d) q) else if below s q then None else t1 q)"
  have r: "os_Rename never s d t1 = Some t2" using ok by (simp add: os_Rename_def never_def t2_def)
  have sub: "below s (s @ drop (length d) q)" if "below d q" for q
    using that Dir_clean [OF d] below_shift by blast
  have nb: "\<not> below d q" if "below s q" for q using a that below_comparable by (auto simp: apart2_def)
  have "moved s d t t2"
    unfolding moved_def t2_def using mk mk' sd [OF sub] nb new by (auto simp: is_dir_def)
  moreover have "is_dir t2 (Dir d)"
    using dd dq sd below_refl by (auto simp: t2_def is_dir_def)
  ultimately show ?thesis using r by blast
qed

section \<open>All moves\<close>

text \<open>What can be moved: absolute clean targets; a directory where the parent of the target is, if
  anything; source and target of the same kind.\<close>

definition target_ok :: "tree \<Rightarrow> string \<Rightarrow> bool" where
  "target_ok t d \<longleftrightarrow> IsAbs d \<and> Clean d = d \<and> d \<noteq> ''/'' \<and> (t (Dir d) = None \<or> is_dir t (Dir d))"

definition arrived :: "('x \<Rightarrow> string) \<Rightarrow> ('x \<Rightarrow> string) \<Rightarrow> 'x list \<Rightarrow> tree \<Rightarrow> tree \<Rightarrow> bool" where
  "arrived S D xs t t' \<longleftrightarrow> (\<forall>x \<in> set xs. \<forall>q. below (D x) q \<longrightarrow>
     t' q = (if t (S x) = None then t q else t (S x @ drop (length (D x)) q)))"

definition kept :: "('x \<Rightarrow> string) \<Rightarrow> ('x \<Rightarrow> string) \<Rightarrow> 'x list \<Rightarrow> tree \<Rightarrow> tree \<Rightarrow> bool" where
  "kept S D xs t t' \<longleftrightarrow> (\<forall>q. (\<forall>x \<in> set xs. \<not> below (S x) q \<and> \<not> below (D x) q) \<longrightarrow>
     (t q \<noteq> None \<or> (\<forall>x \<in> set xs. \<not> below q (D x)) \<longrightarrow> t' q = t q) \<and> (t q = None \<longrightarrow> t' q = None \<or> is_dir t' q))"

lemma kept_apart:
  assumes "kept S D xs t t'" and "\<forall>x \<in> set xs. apart2 (S x) q \<and> apart2 (D x) q"
  shows "t' q = t q"
  using assms by (auto simp: kept_def apart2_def)

lemma kept_parent:
  assumes "kept S D xs t t'" and "\<forall>x \<in> set xs. \<not> below (S x) (Dir d) \<and> \<not> below (D x) (Dir d)"
    and "t (Dir d) = None \<or> is_dir t (Dir d)"
  shows "t' (Dir d) = None \<or> is_dir t' (Dir d)"
  using assms by (cases "t (Dir d)") (auto simp: kept_def is_dir_def)

lemma moved_kept: "moved (S x) (D x) t t' \<Longrightarrow> kept S D [x] t t'"
  by (auto simp: moved_def kept_def)

text \<open>Moves one after the other: the later ones do not touch what the earlier ones brought.\<close>

definition all_apart :: "('x \<Rightarrow> string) \<Rightarrow> ('x \<Rightarrow> string) \<Rightarrow> 'x \<Rightarrow> 'x \<Rightarrow> bool" where
  "all_apart S D x y \<longleftrightarrow> apart2 (S x) (S y) \<and> apart2 (S x) (D y) \<and> apart2 (D x) (S y) \<and> apart2 (D x) (D y)"

lemma all_apart_sym: "all_apart S D x y \<Longrightarrow> all_apart S D y x"
  using apart2_sym by (auto simp: all_apart_def)

lemma moves_append:
  assumes first: "arrived S D xs t t1" "kept S D xs t t1" and rest: "arrived S D ys t1 t2" "kept S D ys t1 t2"
    and a: "\<forall>x \<in> set xs. \<forall>y \<in> set ys. all_apart S D x y" and sl: "\<forall>y \<in> set ys. \<not> suffix ''/'' (D y)"
  shows "arrived S D (xs @ ys) t t2 \<and> kept S D (xs @ ys) t t2"
proof
  show "arrived S D (xs @ ys) t t2"
    unfolding arrived_def
  proof (intro ballI allI impI)
    fix y q assume y: "y \<in> set (xs @ ys)" and q: "below (D y) q"
    show "t2 q = (if t (S y) = None then t q else t (S y @ drop (length (D y)) q))"
    proof (cases "y \<in> set ys")
      case True
      have "\<forall>x \<in> set xs. all_apart S D x y" using a True by blast
      moreover have "below (S y) (S y @ drop (length (D y)) q)" using below_shift q sl True by blast
      ultimately have "t1 (S y) = t (S y)" "t1 q = t q" "t1 (S y @ drop (length (D y)) q) = t (S y @ drop (length (D y)) q)"
        using kept_apart [OF first(2)] apart2_below q unfolding all_apart_def by meson+
      then show ?thesis using rest(1) True q by (simp add: arrived_def)
    next
      case False
      then have x: "y \<in> set xs" using y by simp
      have "\<forall>z \<in> set ys. apart2 (S z) q \<and> apart2 (D z) q"
        using a x q all_apart_sym apart2_below by (meson all_apart_def)
      then have "t2 q = t1 q" using kept_apart [OF rest(2)] by blast
      then show ?thesis using first(1) q x by (simp add: arrived_def)
    qed
  qed
  show "kept S D (xs @ ys) t t2"
    unfolding kept_def
  proof (intro allI impI)
    fix q assume q: "\<forall>y \<in> set (xs @ ys). \<not> below (S y) q \<and> \<not> below (D y) q"
    have k1: "(t q \<noteq> None \<or> (\<forall>x \<in> set xs. \<not> below q (D x)) \<longrightarrow> t1 q = t q) \<and> (t q = None \<longrightarrow> t1 q = None \<or> is_dir t1 q)"
      using first(2) q by (simp add: kept_def)
    have k2: "(t1 q \<noteq> None \<or> (\<forall>y \<in> set ys. \<not> below q (D y)) \<longrightarrow> t2 q = t1 q) \<and> (t1 q = None \<longrightarrow> t2 q = None \<or> is_dir t2 q)"
      using rest(2) q by (simp add: kept_def)
    show "(t q \<noteq> None \<or> (\<forall>y \<in> set (xs @ ys). \<not> below q (D y)) \<longrightarrow> t2 q = t q) \<and> (t q = None \<longrightarrow> t2 q = None \<or> is_dir t2 q)"
      using k1 k2 by (cases "t q"; cases "t1 q") (auto simp: is_dir_def)
  qed
qed

lemma moves_Cons:
  assumes "t1 = t \<and> t (S x) = None \<or> t (S x) \<noteq> None \<and> moved (S x) (D x) t t1"
    and "arrived S D xs t1 t2" "kept S D xs t1 t2"
    and "\<forall>y \<in> set xs. all_apart S D x y" and "\<forall>y \<in> set xs. \<not> suffix ''/'' (D y)"
  shows "arrived S D (x # xs) t t2 \<and> kept S D (x # xs) t t2"
proof -
  have "arrived S D [x] t t1" using assms(1) by (auto simp: moved_def arrived_def)
  moreover have "kept S D [x] t t1" using assms(1) moved_kept [of S x D] by (auto simp: kept_def)
  ultimately show ?thesis using moves_append [of S D "[x]" t t1 xs t2] assms(2-5) by simp
qed

text \<open>Conditions on the outputs that are moved.\<close>

definition movable :: "(tree \<Rightarrow> string \<Rightarrow> bool) \<Rightarrow> (tree \<Rightarrow> string \<Rightarrow> bool) \<Rightarrow> ('x \<Rightarrow> string) \<Rightarrow> ('x \<Rightarrow> string) \<Rightarrow> 'x list \<Rightarrow> tree \<Rightarrow> bool" where
  "movable badS badD S D xs t \<longleftrightarrow> apart (map S xs @ map D xs) \<and>
     (\<forall>x \<in> set xs. target_ok t (D x) \<and> \<not> badS t (S x) \<and> \<not> badD t (D x))"

lemma movable_Cons:
  assumes "movable badS badD S D (x # xs) t"
  shows "movable badS badD S D xs t \<and> apart2 (S x) (D x) \<and>
    (\<forall>y \<in> set xs. all_apart S D x y)"
  using assms apart2_sym by (auto simp: movable_def apart_append list_all_iff all_apart_def)

lemma target_no_slash: "target_ok t d \<Longrightarrow> \<not> suffix ''/'' d"
  using Dir_clean by (auto simp: target_ok_def)

lemma movable_kept:
  assumes m: "movable badS badD S D xs t" and k: "kept S D [x] t t'"
    and a: "\<forall>y \<in> set xs. all_apart S D x y"
    and bad: "\<And>p. t' p = t p \<Longrightarrow> badS t' p = badS t p \<and> badD t' p = badD t p"
  shows "movable badS badD S D xs t'"
  unfolding movable_def
proof (intro conjI ballI)
  show "apart (map S xs @ map D xs)" using m by (simp add: movable_def)
  fix y assume y: "y \<in> set xs"
  have ap: "apart2 (S x) (S y)" "apart2 (D x) (S y)" "apart2 (S x) (D y)" "apart2 (D x) (D y)"
    using a y by (auto simp: all_apart_def)
  have eq: "t' (S y) = t (S y)" "t' (D y) = t (D y)" using kept_apart [OF k] ap by auto
  have t: "target_ok t (D y)" using m y by (simp add: movable_def)
  then have "below (Dir (D y)) (D y)" using Dir_clean by (simp add: target_ok_def)
  then have "\<not> below (S x) (Dir (D y))" "\<not> below (D x) (Dir (D y))" using ap below_trans by (auto simp: apart2_def)
  then show "target_ok t' (D y)" using kept_parent [OF k] t by (simp add: target_ok_def)
  show "\<not> badS t' (S y)" "\<not> badD t' (D y)" using eq m y bad by (simp_all add: movable_def)
qed

lemma is_dir_cong: "t' p = t p \<Longrightarrow> is_dir t' p = is_dir t p"
  by (simp add: is_dir_def)

lemma move_files_spec:
  fixes srcDir destDir
  defines "S \<equiv> \<lambda>f. Join [srcDir, f]" and "D \<equiv> \<lambda>f. Join [destDir, f]"
  assumes "movable is_dir is_dir S D fs t" and "\<forall>f \<in> set fs. known (S f) \<longleftrightarrow> t (S f) \<noteq> None"
    and "\<forall>p \<in> set dirs. is_dir t p \<and> (\<forall>f \<in> set fs. \<not> below (S f) p \<and> \<not> below (D f) p)"
  shows "\<exists>t'. move_files never known srcDir destDir dirs fs t = (t', None) \<and> arrived S D fs t t' \<and> kept S D fs t t'"
  using assms(3-5)
proof (induction fs arbitrary: t dirs)
  case Nil
  then show ?case by (simp add: arrived_def kept_def)
next
  case (Cons f fs)
  note c = movable_Cons [OF Cons.prems(1)]
  have sl: "\<forall>y \<in> set fs. \<not> suffix ''/'' (D y)" using Cons.prems(1) target_no_slash by (auto simp: movable_def)
  show ?case
  proof (cases "t (S f) = None")
    case True
    obtain t' where t': "move_files never known srcDir destDir dirs fs t = (t', None)" "arrived S D fs t t'" "kept S D fs t t'"
      using Cons.IH [of t dirs] c Cons.prems by auto
    moreover have "\<not> known (S f)" using Cons.prems(2) True by simp
    ultimately show ?thesis using moves_Cons [of t t S f D fs t'] True c sl by (auto simp: S_def)
  next
    case False
    have tg: "target_ok t (D f)" "\<not> is_dir t (S f)" "\<not> is_dir t (D f)" using Cons.prems(1) by (simp_all add: movable_def)
    have "\<exists>t1. (if Dir (D f) \<in> set dirs then Some t else os_MkdirAll never 511 (Dir (D f)) t) = Some t1"
      by (simp add: os_MkdirAll_never)
    then obtain t1 where t1: "(if Dir (D f) \<in> set dirs then Some t else os_MkdirAll never 511 (Dir (D f)) t) = Some t1"
      by blast
    then have t1': "t1 = t \<and> is_dir t (Dir (D f)) \<or> os_MkdirAll never 511 (Dir (D f)) t = Some t1"
      using Cons.prems(3) by (auto split: if_splits)
    obtain t2 where t2: "os_Rename never (S f) (D f) t1 = Some t2" "moved (S f) (D f) t t2" "is_dir t2 (Dir (D f))"
      using move_file_step [of "D f" "S f" t t1] tg c False t1' by (auto simp: target_ok_def)
    have k: "kept S D [f] t t2" using moved_kept [of S f D] t2(2) by blast
    have "movable is_dir is_dir S D fs t2" by (rule movable_kept [OF _ k]) (use c in \<open>auto dest: is_dir_cong\<close>)
    moreover have "\<forall>g \<in> set fs. known (S g) \<longleftrightarrow> t2 (S g) \<noteq> None"
      using Cons.prems(2) kept_apart [OF k] c by (simp add: all_apart_def)
    moreover have "\<forall>p \<in> set (Dir (D f) # dirs). is_dir t2 p \<and> (\<forall>g \<in> set fs. \<not> below (S g) p \<and> \<not> below (D g) p)"
    proof
      fix p assume p: "p \<in> set (Dir (D f) # dirs)"
      show "is_dir t2 p \<and> (\<forall>g \<in> set fs. \<not> below (S g) p \<and> \<not> below (D g) p)"
      proof (cases "p = Dir (D f)")
        case True
        have "below p (D f)" using tg(1) Dir_clean True by (simp add: target_ok_def)
        then show ?thesis using True t2(3) c below_trans unfolding all_apart_def apart2_def by blast
      next
        case False
        then have "is_dir t p" "\<forall>g \<in> set (f # fs). \<not> below (S g) p \<and> \<not> below (D g) p" using p Cons.prems(3) by auto
        moreover from this have "t2 p = t p" using k by (auto simp: kept_def is_dir_def split: option.splits)
        ultimately show ?thesis by (simp add: is_dir_def)
      qed
    qed
    ultimately obtain t' where t': "move_files never known srcDir destDir (Dir (D f) # dirs) fs t2 = (t', None)"
      "arrived S D fs t2 t'" "kept S D fs t2 t'"
      using Cons.IH [of t2 "Dir (D f) # dirs"] by blast
    have "known (S f)" using Cons.prems(2) False by simp
    then have "move_files never known srcDir destDir dirs (f # fs) t = (t', None)"
      using t1 t2(1) t'(1) by (cases "Dir (D f) \<in> set dirs") (simp_all add: S_def D_def Let_def)
    then show ?thesis using moves_Cons [OF _ t'(2,3)] t2(2) False c sl by blast
  qed
qed

text \<open>A directory goes to its place after what was there is removed; its parent is not made.\<close>

definition is_file :: "tree \<Rightarrow> string \<Rightarrow> bool" where
  "is_file t p \<longleftrightarrow> (case t p of Some (FileN _ _ _) \<Rightarrow> True | _ \<Rightarrow> False)"

lemma is_file_cong: "t' p = t p \<Longrightarrow> is_file t' p = is_file t p"
  by (simp add: is_file_def)

lemma move_dir_step:
  assumes d: "target_ok t d" "is_dir t (Dir d)" and a: "apart2 s d" and s: "is_dir t s"
  shows "\<exists>t1 t2. os_RemoveAll never d t = Some t1 \<and> os_Rename never s d t1 = Some t2 \<and> moved s d t t2"
proof -
  have dd: "\<not> below d (Dir d)" "\<not> suffix ''/'' d"
    using d(1) not_below_Dir target_no_slash by (auto simp: target_ok_def)
  have ds: "\<not> below d q" if "below s q" for q using a that below_comparable by (auto simp: apart2_def)
  define t1 where "t1 = (\<lambda>q. if below d q then None else t q)"
  define t2 where "t2 = (\<lambda>q. if below d q then t1 (s @ drop (length d) q) else if below s q then None else t1 q)"
  have t1s: "t1 s = t s" "t1 d = None" "t1 (Dir d) = t (Dir d)" using ds [of s] dd by (simp_all add: t1_def)
  have "os_RemoveAll never d t = Some t1" by (simp add: os_RemoveAll_def never_def t1_def)
  moreover have "os_Rename never s d t1 = Some t2"
    using t1s s d(2) by (auto simp: os_Rename_def never_def t2_def is_dir_def split: option.splits)
  moreover have "moved s d t t2"
    unfolding moved_def t2_def using ds below_shift [OF _ dd(2), of _ s] by (auto simp: t1_def)
  ultimately show ?thesis by blast
qed

lemma move_dirs_spec:
  fixes srcDir destDir
  defines "S \<equiv> \<lambda>f. Join [srcDir, f]" and "D \<equiv> \<lambda>f. Join [destDir, f]"
  assumes "movable is_file (\<lambda>_ _. False) S D ds t" and "\<forall>d \<in> set ds. isDir (S d) \<longleftrightarrow> is_dir t (S d)"
    and "\<forall>d \<in> set ds. is_dir t (Dir (D d))"
  shows "\<exists>t'. move_dirs never isDir srcDir destDir ds t = (t', None) \<and> arrived S D ds t t' \<and> kept S D ds t t'"
  using assms(3-5)
proof (induction ds arbitrary: t)
  case Nil
  then show ?case by (simp add: arrived_def kept_def)
next
  case (Cons d ds)
  note c = movable_Cons [OF Cons.prems(1)]
  have sl: "\<forall>y \<in> set ds. \<not> suffix ''/'' (D y)" using Cons.prems(1) target_no_slash by (auto simp: movable_def)
  show ?case
  proof (cases "is_dir t (S d)")
    case False
    then have none: "t (S d) = None" using Cons.prems(1) by (auto simp: movable_def is_file_def is_dir_def split: option.splits node.splits)
    obtain t' where t': "move_dirs never isDir srcDir destDir ds t = (t', None)" "arrived S D ds t t'" "kept S D ds t t'"
      using Cons.IH [of t] c Cons.prems by auto
    moreover have "\<not> isDir (S d)" using Cons.prems(2) False by simp
    ultimately show ?thesis using moves_Cons [of t t S d D ds t'] none c sl by (auto simp: S_def)
  next
    case True
    have tg: "target_ok t (D d)" "is_dir t (Dir (D d))" using Cons.prems(1,3) by (simp_all add: movable_def)
    obtain t1 t2 where t2: "os_RemoveAll never (D d) t = Some t1" "os_Rename never (S d) (D d) t1 = Some t2" "moved (S d) (D d) t t2"
      using move_dir_step [OF tg _ True] c by blast
    have k: "kept S D [d] t t2" using moved_kept [of S d D] t2(3) by blast
    have "movable is_file (\<lambda>_ _. False) S D ds t2" by (rule movable_kept [OF _ k]) (use c in \<open>auto dest: is_file_cong\<close>)
    moreover have "\<forall>g \<in> set ds. isDir (S g) \<longleftrightarrow> is_dir t2 (S g)"
      using Cons.prems(2) kept_apart [OF k] c is_dir_cong [of t2 _ t] by (simp add: all_apart_def)
    moreover have "\<forall>g \<in> set ds. is_dir t2 (Dir (D g))"
    proof
      fix g assume g: "g \<in> set ds"
      then have "target_ok t (D g)" "is_dir t (Dir (D g))" using Cons.prems(1,3) by (auto simp: movable_def)
      moreover from this have "below (Dir (D g)) (D g)" using Dir_clean by (simp add: target_ok_def)
      then have "\<not> below (S d) (Dir (D g))" "\<not> below (D d) (Dir (D g))" using c g below_trans unfolding all_apart_def apart2_def by blast+
      ultimately have "t2 (Dir (D g)) = t (Dir (D g))" using k by (auto simp: kept_def is_dir_def split: option.splits)
      then show "is_dir t2 (Dir (D g))" using \<open>is_dir t (Dir (D g))\<close> by (simp add: is_dir_def)
    qed
    ultimately obtain t' where t': "move_dirs never isDir srcDir destDir ds t2 = (t', None)" "arrived S D ds t2 t'" "kept S D ds t2 t'"
      using Cons.IH [of t2] by blast
    have "isDir (S d)" using Cons.prems(2) True by simp
    then have "move_dirs never isDir srcDir destDir (d # ds) t = (t', None)"
      using t2(1,2) t'(1) by (simp add: S_def D_def Let_def)
    moreover have "t (S d) \<noteq> None" using True by (auto simp: is_dir_def split: option.splits)
    ultimately show ?thesis using moves_Cons [OF _ t'(2,3)] t2(3) c sl by blast
  qed
qed

text \<open>What an action can have moved: sources and targets of all outputs are apart, files are
  where files are expected and the parents of output directories exist.\<close>

definition tmp_path :: "out_cmd \<Rightarrow> string \<Rightarrow> string \<Rightarrow> string" where
  "tmp_path c tmpDir f = Join [Join [tmpDir, ocWorkingDir c], f]"

definition place :: "out_cmd \<Rightarrow> string \<Rightarrow> string" where
  "place c f = Join [Join [ocExecRoot c, ocWorkingDir c], f]"

definition outputs_movable :: "out_cmd \<Rightarrow> string \<Rightarrow> tree \<Rightarrow> bool" where
  "outputs_movable c tmpDir t \<longleftrightarrow>
     apart (map (tmp_path c tmpDir) (ocOutputFiles c @ ocOutputDirs c) @ map (place c) (ocOutputFiles c @ ocOutputDirs c)) \<and>
     list_all (\<lambda>x. target_ok t (place c x)) (ocOutputFiles c @ ocOutputDirs c) \<and>
     list_all (\<lambda>f. \<not> is_dir t (tmp_path c tmpDir f) \<and> \<not> is_dir t (place c f)) (ocOutputFiles c) \<and>
     list_all (\<lambda>d. \<not> is_file t (tmp_path c tmpDir d) \<and> is_dir t (Dir (place c d))) (ocOutputDirs c)"


definition demo_cmd :: out_cmd where
  "demo_cmd = \<lparr>ocExecRoot = ''/r'', ocWorkingDir = ''o'', ocOutputFiles = [''a'', ''b''], ocOutputDirs = [''g''], ocDepsFile = ''b'',
     ocExecutionID = ''id'', ocDownloadTmp = []\<rparr>"

definition demo_nodes :: "(string \<times> node) list" where
  "demo_nodes = [(''/'', DirN 493), (''/r'', DirN 493), (''/r/o'', DirN 493), (''/r/o/a'', FileN ''old'' 5 420),
     (''/r/o/b'', FileN ''dep'' 6 420), (''/r/o/g'', DirN 493), (''/r/o/g/x'', FileN ''gx'' 7 420), (''/t'', DirN 493),
     (''/t/o'', DirN 493), (''/t/o/a'', FileN ''new'' 9 420), (''/t/o/g'', DirN 493), (''/t/o/g/y'', FileN ''gy'' 9 420)]"


text \<open>The parent of an output directory is not made, so the move fails without it.\<close>

lemma move_dir_needs_parent:
  assumes "\<not> is_dir t (Dir (place c d))" and "is_dir t (tmp_path c tmpDir d)" and "isDir (tmp_path c tmpDir d)"
    and "ocOutputFiles c = []" and "ocOutputDirs c = [d]"
  shows "\<exists>t'. moveOutputsFromTemp never known isDir c tmpDir t = (t', Some (MoveDirFailed d))"
proof -
  have "\<not> is_dir (\<lambda>q. if below (place c d) q then None else t q) (Dir (place c d))" using assms(1) by (auto simp: is_dir_def)
  then show ?thesis
    using assms(3-5) by (auto simp: moveOutputsFromTemp_def Let_def os_RemoveAll_def os_Rename_def never_def place_def tmp_path_def)
qed

section \<open>Outputs removed before a rerun\<close>

text \<open>The parents of everything on disk are directories.\<close>

definition wf_tree :: "tree \<Rightarrow> bool" where
  "wf_tree t \<longleftrightarrow> (\<forall>p q. t p \<noteq> None \<longrightarrow> below q p \<longrightarrow> q \<noteq> p \<longrightarrow> Clean q = q \<longrightarrow> is_dir t q)"

lemma below_antisym: "below a b \<Longrightarrow> below b a \<Longrightarrow> a = b"
  using below_split [of a b] below_split [of b a]
  by (metis append_eq_append_conv_if append_self_conv length_append le_add1 nat_le_linear take_all)

lemma out_path_clean: "IsAbs (ocExecRoot c) \<Longrightarrow> Clean (out_path c f) = out_path c f"
  using clean_Join by (simp add: out_path_def)

lemma remove_files:
  "foldl (remove_file never c) t fs = (\<lambda>q. if \<exists>f \<in> set fs. f \<noteq> ocDepsFile c \<and> out_path c f = q then None else t q)"
proof (induction fs arbitrary: t)
  case (Cons f fs)
  have "remove_file never c t f = (if f = ocDepsFile c then t else t(out_path c f := None))"
    by (auto simp: remove_file_def os_Remove_def never_def)
  then show ?case using Cons by (auto simp: fun_eq_iff)
qed simp

lemma remove_dir_tree:
  assumes "wf_tree t" and "Clean (out_path c d) = out_path c d"
  shows "t (out_path c d) = None \<Longrightarrow> remove_dir never c t d = t"
    and "t (out_path c d) \<noteq> None \<Longrightarrow> \<exists>m. remove_dir never c t d =
      (\<lambda>q. if q = out_path c d then Some (DirN m) else if below (out_path c d) q then None else t q)"
proof -
  let ?p = "out_path c d"
  show "t ?p = None \<Longrightarrow> remove_dir never c t d = t" by (simp add: remove_dir_def never_def)
  assume p: "t ?p \<noteq> None"
  then obtain n where n: "t ?p = Some n" by blast
  let ?m = "case n of DirN m \<Rightarrow> m | FileN _ _ m \<Rightarrow> m"
  have "remove_dir never c t d = (\<lambda>q. if (if below ?p q then None else t q) = None \<and> below q ?p \<and> Clean q = q then Some (DirN ?m)
      else if below ?p q then None else t q)"
    using n by (simp add: remove_dir_def os_RemoveAll_def os_MkdirAll_def never_def Let_def)
  also have "\<dots> = (\<lambda>q. if q = ?p then Some (DirN ?m) else if below ?p q then None else t q)"
  proof
    fix q
    have "is_dir t q" if "below q ?p" "q \<noteq> ?p" "Clean q = q" using assms(1) p that by (simp add: wf_tree_def)
    moreover have "q = ?p" if "below q ?p" "below ?p q" using that below_antisym by blast
    moreover have "\<not> is_dir t q" if "t q = None" using that by (simp add: is_dir_def)
    ultimately show "(if (if below ?p q then None else t q) = None \<and> below q ?p \<and> Clean q = q then Some (DirN ?m)
        else if below ?p q then None else t q) = (if q = ?p then Some (DirN ?m) else if below ?p q then None else t q)"
      using assms(2) by (cases "q = ?p") auto
  qed
  finally show "\<exists>m. remove_dir never c t d = (\<lambda>q. if q = ?p then Some (DirN m) else if below ?p q then None else t q)" by blast
qed

text \<open>Nothing is strictly below the directory.\<close>

definition emptied :: "tree \<Rightarrow> string \<Rightarrow> bool" where
  "emptied t p \<longleftrightarrow> (\<forall>q. below p q \<longrightarrow> q \<noteq> p \<longrightarrow> t q = None)"

lemma remove_dir_keeps:
  assumes "wf_tree t" and "Clean (out_path c d) = out_path c d"
  shows "wf_tree (remove_dir never c t d)"
    and "t p \<noteq> None \<or> emptied t p \<Longrightarrow> remove_dir never c t d p \<noteq> None \<or> emptied (remove_dir never c t d) p"
    and "\<not> below (out_path c d) q \<Longrightarrow> remove_dir never c t d q = t q"
    and "t (out_path c d) \<noteq> None \<or> emptied t (out_path c d) \<Longrightarrow> emptied (remove_dir never c t d) (out_path c d)"
    and "emptied t p \<Longrightarrow> emptied (remove_dir never c t d) p"
proof -
  let ?p = "out_path c d" and ?t = "remove_dir never c t d"
  consider (no) "t ?p = None" "?t = t"
    | (yes) m where "t ?p \<noteq> None" "?t = (\<lambda>q. if q = ?p then Some (DirN m) else if below ?p q then None else t q)"
    using remove_dir_tree [OF assms] by blast
  note step = this
  show "wf_tree ?t"
    using step
  proof cases
    case yes
    show ?thesis
      unfolding wf_tree_def
    proof (intro allI impI)
      fix x q assume x: "?t x \<noteq> None" "below q x" "q \<noteq> x" "Clean q = q"
      have nq: "\<not> below ?p q \<or> q = ?p" using x yes(2) below_trans by (auto split: if_splits dest: below_antisym)
      have "t x \<noteq> None" using x(1) yes by (auto split: if_splits)
      then have "is_dir t q" using assms(1) x by (simp add: wf_tree_def)
      then show "is_dir ?t q" using nq yes(2) by (auto simp: is_dir_def)
    qed
  qed (use assms in simp)
  show "\<not> below ?p q \<Longrightarrow> ?t q = t q" using step by cases auto
  show e: "emptied t p \<Longrightarrow> emptied ?t p" for p using step by cases (auto simp: emptied_def)
  show d: "t ?p \<noteq> None \<or> emptied t ?p \<Longrightarrow> emptied ?t ?p"
    using step by cases (use e in \<open>auto simp: emptied_def\<close>)
  show "t p \<noteq> None \<or> emptied t p \<Longrightarrow> ?t p \<noteq> None \<or> emptied ?t p"
    using step
  proof cases
    case yes
    assume a: "t p \<noteq> None \<or> emptied t p"
    show ?thesis
    proof (cases "below ?p p \<and> p \<noteq> ?p")
      case True
      have "emptied ?t ?p" using d yes(1) by blast
      then have "emptied ?t p" using True below_trans below_antisym unfolding emptied_def by metis
      then show ?thesis by blast
    next
      case False
      then show ?thesis using a e yes(2) by auto
    qed
  qed simp
qed

lemma remove_dirs:
  assumes "wf_tree t" and "\<And>d. Clean (out_path c d) = out_path c d"
  shows "(\<forall>d \<in> set ds. t (out_path c d) \<noteq> None \<or> emptied t (out_path c d) \<longrightarrow> emptied (foldl (remove_dir never c) t ds) (out_path c d)) \<and>
    (\<forall>q. (\<forall>d \<in> set ds. \<not> below (out_path c d) q) \<longrightarrow> foldl (remove_dir never c) t ds q = t q) \<and>
    (\<forall>p. emptied t p \<longrightarrow> emptied (foldl (remove_dir never c) t ds) p)"
  using assms(1)
proof (induction ds arbitrary: t)
  case (Cons d ds)
  note k = remove_dir_keeps [where d = d, OF Cons.prems assms(2)]
  let ?t = "remove_dir never c t d"
  note IH = Cons.IH [OF k(1)]
  show ?case
  proof (intro conjI ballI allI impI)
    fix e assume e: "e \<in> set (d # ds)" "t (out_path c e) \<noteq> None \<or> emptied t (out_path c e)"
    show "emptied (foldl (remove_dir never c) t (d # ds)) (out_path c e)"
      using e k(2) [OF e(2)] k(4) IH by (cases "e = d") auto
  next
    fix q assume "\<forall>e \<in> set (d # ds). \<not> below (out_path c e) q"
    then show "foldl (remove_dir never c) t (d # ds) q = t q" using IH k(3) [of q] by simp
  next
    fix p assume "emptied t p"
    then show "emptied (foldl (remove_dir never c) t (d # ds)) p" using IH k(5) by simp
  qed
qed simp

text \<open>Before a rerun the outputs are removed: afterwards no output file is left but the deps file,
  the output directories that existed are empty, and nothing else on disk has changed.\<close>

theorem removeAllOutputs_clears:
  assumes "wf_tree t" and "IsAbs (ocExecRoot c)" and "list_all (\<lambda>f. \<not> is_dir t (out_path c f)) (ocOutputFiles c)"
  shows "(\<forall>f \<in> set (ocOutputFiles c). f \<noteq> ocDepsFile c \<longrightarrow> (\<forall>d \<in> set (ocOutputDirs c). \<not> below (out_path c d) (out_path c f)) \<longrightarrow>
        removeAllOutputs never c t (out_path c f) = None) \<and>
    (\<forall>d \<in> set (ocOutputDirs c). is_dir t (out_path c d) \<longrightarrow> emptied (removeAllOutputs never c t) (out_path c d)) \<and>
    (\<forall>q. (\<forall>f \<in> set (ocOutputFiles c). f = ocDepsFile c \<or> out_path c f \<noteq> q) \<longrightarrow>
       (\<forall>d \<in> set (ocOutputDirs c). \<not> below (out_path c d) q) \<longrightarrow> removeAllOutputs never c t q = t q)"
proof -
  define t1 where "t1 = foldl (remove_file never c) t (ocOutputFiles c)"
  have t1: "t1 q = (if \<exists>f \<in> set (ocOutputFiles c). f \<noteq> ocDepsFile c \<and> out_path c f = q then None else t q)" for q
    unfolding t1_def remove_files by simp
  have dirs: "is_dir t1 q" if "is_dir t q" for q
    using that t1 assms(3) by (auto simp: is_dir_def list_all_iff)
  have "wf_tree t1" unfolding wf_tree_def using assms(1) dirs t1 by (metis wf_tree_def)
  note r = remove_dirs [OF this out_path_clean [OF assms(2)], of "ocOutputDirs c"]
  have ra: "removeAllOutputs never c t = foldl (remove_dir never c) t1 (ocOutputDirs c)"
    by (simp add: removeAllOutputs_def t1_def)
  have "t1 p \<noteq> None" if "is_dir t p" for p using dirs [OF that] by (auto simp: is_dir_def split: option.splits)
  then show ?thesis unfolding ra using r t1 by (auto split: if_splits)
qed

text \<open>A well-formed disk given by a list.\<close>

lemma below_prefix: "below q p \<Longrightarrow> q \<in> set (prefixes p)"
  using prefix_dir_prefix prefix_order.trans by (fastforce simp: below_def in_set_prefixes)

lemma wf_tree_map_of:
  assumes "list_all (\<lambda>(p, n). list_all (\<lambda>q. q = p \<or> Clean q \<noteq> q \<or> \<not> below q p \<or> is_dir (map_of l) q) (prefixes p)) l"
  shows "wf_tree (map_of l)"
  unfolding wf_tree_def
proof (intro allI impI)
  fix p q assume a: "map_of l p \<noteq> None" "below q p" "q \<noteq> p" "Clean q = q"
  then obtain n where "(p, n) \<in> set l" by (meson map_of_SomeD not_None_eq)
  then have "list_all (\<lambda>q. q = p \<or> Clean q \<noteq> q \<or> \<not> below q p \<or> is_dir (map_of l) q) (prefixes p)"
    using assms by (auto simp: list_all_iff)
  then show "is_dir (map_of l) q" using a below_prefix [OF a(2)] by (auto simp: list_all_iff)
qed

theorem removeAllOutputs_clears_witness:
  "removeAllOutputs never demo_cmd (map_of demo_nodes) ''/r/o/a'' = None \<and>
   removeAllOutputs never demo_cmd (map_of demo_nodes) ''/r/o/b'' = Some (FileN ''dep'' 6 420) \<and>
   removeAllOutputs never demo_cmd (map_of demo_nodes) ''/r/o/g/x'' = None"
proof -
  have "wf_tree (map_of demo_nodes)" by (rule wf_tree_map_of) code_simp
  moreover have "IsAbs (ocExecRoot demo_cmd)" "list_all (\<lambda>f. \<not> is_dir (map_of demo_nodes) (out_path demo_cmd f)) (ocOutputFiles demo_cmd)"
    by code_simp+
  ultimately have r: "(\<forall>f \<in> set (ocOutputFiles demo_cmd). f \<noteq> ocDepsFile demo_cmd \<longrightarrow> (\<forall>d \<in> set (ocOutputDirs demo_cmd). \<not> below (out_path demo_cmd d) (out_path demo_cmd f)) \<longrightarrow>
        removeAllOutputs never demo_cmd (map_of demo_nodes) (out_path demo_cmd f) = None) \<and>
    (\<forall>d \<in> set (ocOutputDirs demo_cmd). is_dir (map_of demo_nodes) (out_path demo_cmd d) \<longrightarrow> emptied (removeAllOutputs never demo_cmd (map_of demo_nodes)) (out_path demo_cmd d)) \<and>
    (\<forall>q. (\<forall>f \<in> set (ocOutputFiles demo_cmd). f = ocDepsFile demo_cmd \<or> out_path demo_cmd f \<noteq> q) \<longrightarrow>
       (\<forall>d \<in> set (ocOutputDirs demo_cmd). \<not> below (out_path demo_cmd d) q) \<longrightarrow> removeAllOutputs never demo_cmd (map_of demo_nodes) q = map_of demo_nodes q)"
    by (rule removeAllOutputs_clears)
  have ev: "out_path demo_cmd ''a'' = ''/r/o/a''" "out_path demo_cmd ''b'' = ''/r/o/b''" "out_path demo_cmd ''g'' = ''/r/o/g''"
    "\<not> below ''/r/o/g'' ''/r/o/a''" "\<not> below ''/r/o/g'' ''/r/o/b''" "below ''/r/o/g'' ''/r/o/g/x''"
    "is_dir (map_of demo_nodes) ''/r/o/g''" "map_of demo_nodes ''/r/o/b'' = Some (FileN ''dep'' 6 420)" by code_simp+
  have "emptied (removeAllOutputs never demo_cmd (map_of demo_nodes)) ''/r/o/g''" using r ev by (simp add: demo_cmd_def)
  then have "removeAllOutputs never demo_cmd (map_of demo_nodes) ''/r/o/g/x'' = None" using ev by (simp add: emptied_def)
  moreover have "removeAllOutputs never demo_cmd (map_of demo_nodes) ''/r/o/a'' = None" using r ev by (simp add: demo_cmd_def)
  moreover have "removeAllOutputs never demo_cmd (map_of demo_nodes) ''/r/o/b'' = Some (FileN ''dep'' 6 420)" using r ev by (simp add: demo_cmd_def)
  ultimately show ?thesis by blast
qed

section \<open>Times of unchanged outputs\<close>

lemma out_path_place: "IsAbs (ocExecRoot c) \<Longrightarrow> Join [Join [ocExecRoot c, ocWorkingDir c], f] = out_path c f"
  by (simp add: out_path_def Join_Clean_left)

text \<open>The recorded names lead back to the files whose digests and times are recorded.\<close>

definition info_ok :: "out_cmd \<Rightarrow> tree \<Rightarrow> outs_info \<Rightarrow> bool" where
  "info_ok c t info \<longleftrightarrow> (\<forall>r d m. info r = Some (d, m) \<longrightarrow> (\<exists>x. t (out_path c r) = Some (FileN d m x)))"

lemma getFileInfo_ok:
  assumes "IsAbs (ocExecRoot c)" and "info_ok c t info" and "IsAbs p" and "Clean p = p"
  shows "info_ok c t (getFileInfo refuse t (Join [ocExecRoot c, ocWorkingDir c]) info p)"
proof -
  have a: "IsAbs (Join [ocExecRoot c, ocWorkingDir c])" using assms(1) clean_Join by blast
  obtain r where r: "Rel (Join [ocExecRoot c, ocWorkingDir c]) p = Ok r" "out_path c r = p"
    using Join_Rel [OF a assms(3)] assms(1,4) out_path_place by auto
  show ?thesis
    using assms(2) r by (auto simp: getFileInfo_def info_ok_def split: option.splits node.splits)
qed

lemma foldl_info_ok:
  assumes "\<And>i x. x \<in> set xs \<Longrightarrow> info_ok c t i \<Longrightarrow> info_ok c t (f i x)" and "info_ok c t info"
  shows "info_ok c t (foldl f info xs)"
  using assms by (induction xs arbitrary: info) auto

lemma getPreExecOutsInfo_ok:
  assumes "IsAbs (ocExecRoot c)" and "\<And>d p. p \<in> set (walk t d) \<Longrightarrow> IsAbs p \<and> Clean p = p"
  shows "info_ok c t (getPreExecOutsInfo refuse walk c t)"
proof -
  let ?a = "Join [ocExecRoot c, ocWorkingDir c]"
  have abs: "IsAbs ?a" using assms(1) clean_Join by blast
  have "info_ok c t (if refuse t (CStat (Join [?a, f])) then i else getFileInfo refuse t ?a i (Join [?a, f]))"
    if "info_ok c t i" for i f
    using getFileInfo_ok [OF assms(1) that] clean_Join [OF abs] that by simp
  then have f: "info_ok c t (foldl (\<lambda>i f. if refuse t (CStat (Join [?a, f])) then i else getFileInfo refuse t ?a i (Join [?a, f])) Map.empty (ocOutputFiles c))"
    by (intro foldl_info_ok) (auto simp: info_ok_def)
  have "info_ok c t (foldl (getFileInfo refuse t ?a) i (walk t (Join [?a, d])))" if "info_ok c t i" for i d
    by (rule foldl_info_ok [OF _ that]) (use assms getFileInfo_ok in blast)
  note w = this
  show ?thesis
    unfolding getPreExecOutsInfo_def Let_def by (rule foldl_info_ok [OF _ f]) (rule w)
qed

text \<open>Setting back times: exactly the listed outputs with the recorded digest get the recorded
  time, on disk and in the metadata cache.\<close>

definition restored :: "out_cmd \<Rightarrow> outs_info \<Rightarrow> tree \<Rightarrow> tree \<Rightarrow> fmc \<Rightarrow> string \<times> string \<Rightarrow> bool" where
  "restored c pre t t' fmc' fd \<longleftrightarrow> (case fd of (f, d) \<Rightarrow> case pre f of
     Some (d', m) \<Rightarrow> d' = d \<longrightarrow>
       (\<exists>d1 m1 x. t (out_path c f) = Some (FileN d1 m1 x) \<and> t' (out_path c f) = Some (FileN d1 m x)) \<and>
       (\<exists>md. fmc' (out_path c f) = Some md \<and> mdMTime md = Some m \<and> mdDigest md = d)
   | None \<Rightarrow> True)"

definition unchanged_at :: "out_cmd \<Rightarrow> outs_info \<Rightarrow> string \<Rightarrow> string \<times> string \<Rightarrow> bool" where
  "unchanged_at c pre q fd \<longleftrightarrow> (case fd of (f, d) \<Rightarrow> out_path c f = q \<and> map_option fst (pre f) = Some d)"

lemma restore_mtimes_spec:
  assumes "distinct (map (\<lambda>fd. out_path c (fst fd)) outs)" and "\<forall>fd \<in> set outs. is_file t (out_path c (fst fd))"
    and "restore_mtimes never get c pre outs (t, fmc) = (t', fmc')"
  shows "(\<forall>fd \<in> set outs. restored c pre t t' fmc' fd) \<and>
    (\<forall>q. (\<forall>fd \<in> set outs. \<not> unchanged_at c pre q fd) \<longrightarrow> t' q = t q \<and> fmc' q = fmc q)"
  using assms
proof (induction outs arbitrary: t fmc)
  case (Cons fd outs)
  obtain f d where fd: "fd = (f, d)" by fastforce
  obtain d1 m1 x where node: "t (out_path c f) = Some (FileN d1 m1 x)"
    using Cons.prems(2) fd by (auto simp: is_file_def split: option.splits node.splits)
  have dist: "out_path c (fst ge) \<noteq> out_path c f" if "ge \<in> set outs" for ge
    using Cons.prems(1) fd that by (auto simp: image_iff)
  show ?case
  proof (cases "\<exists>m. pre f = Some (d, m)")
    case True
    then obtain m where m: "pre f = Some (d, m)" by blast
    let ?t = "t(out_path c f \<mapsto> FileN d1 m x)" and ?c = "fmc(out_path c f \<mapsto> (get fmc (out_path c f))\<lparr>mdDigest := d, mdMTime := Some m\<rparr>)"
    have run: "restore_mtimes never get c pre outs (?t, ?c) = (t', fmc')"
      using Cons.prems(3) fd m node by (simp add: os_Chtimes_def never_def)
    have "\<forall>ge \<in> set outs. is_file ?t (out_path c (fst ge))" using Cons.prems(2) dist by (auto simp: is_file_def)
    moreover have "distinct (map (\<lambda>fd. out_path c (fst fd)) outs)" using Cons.prems(1) by simp
    ultimately have IH: "(\<forall>ge \<in> set outs. restored c pre ?t t' fmc' ge) \<and>
        (\<forall>q. (\<forall>ge \<in> set outs. \<not> unchanged_at c pre q ge) \<longrightarrow> t' q = ?t q \<and> fmc' q = ?c q)"
      using Cons.IH [OF _ _ run] by blast
    have IH1: "restored c pre ?t t' fmc' ge" if "ge \<in> set outs" for ge using IH that by blast
    have IH2: "t' q = ?t q \<and> fmc' q = ?c q" if "\<forall>ge \<in> set outs. \<not> unchanged_at c pre q ge" for q
      using IH that by blast
    have "t' (out_path c f) = ?t (out_path c f) \<and> fmc' (out_path c f) = ?c (out_path c f)"
      by (rule IH2) (use dist in \<open>auto simp: unchanged_at_def\<close>)
    then have "restored c pre t t' fmc' fd" using m node fd by (auto simp: restored_def)
    moreover have "restored c pre t t' fmc' ge" if "ge \<in> set outs" for ge
      using IH1 [OF that] dist [OF that] by (cases ge) (auto simp: restored_def split: option.splits)
    moreover have "q \<noteq> out_path c f" if "\<not> unchanged_at c pre q fd" for q using that fd m by (auto simp: unchanged_at_def)
    ultimately show ?thesis using IH2 by auto
  next
    case False
    then have run: "restore_mtimes never get c pre outs (t, fmc) = (t', fmc')"
      using Cons.prems(3) fd by (auto split: option.splits)
    have "restored c pre t t' fmc' fd" using False fd by (auto simp: restored_def split: option.splits)
    then show ?thesis using Cons.IH [OF _ _ run] Cons.prems(1,2) by auto
  qed
qed auto



text \<open>The metadata cache holds nothing about the outputs after it is cleared.\<close>

lemma delete_entries_gone:
  assumes "\<And>p. \<not> delFails p"
  shows "delete_entries delFails ps fmc q = (if q \<in> set ps then None else fmc q)"
  using assms by (induction ps arbitrary: fmc) (auto simp: delete_entries_def)

lemma clearOutputsCache_gone:
  assumes "\<And>p. \<not> delFails p" and "clearOutputsCache walk delFails c (Some fmc) = Some fmc'"
  shows "fmc' q = (if q \<in> set (fileList walk (Join [ocExecRoot c, ocWorkingDir c]) (ocOutputFiles c) (ocOutputDirs c)) then None else fmc q)"
  using assms(2) delete_entries_gone [of delFails, OF assms(1)] by (simp add: clearOutputsCache_def) metis

end
