(* ===== verification/Flags.thy ===== *)
theory Flags
  imports Prelude
begin

text \<open>
  Command line flags (\<open>internal/pkg/rbeflag\<close>) with the part of Go's \<open>flag\<close> package they use, and the
  choice of an authentication mechanism from them (\<open>internal/pkg/auth\<close>).

  A flag set knows the defined flags with their values and which of them have been set. How a
  flag takes a text (\<open>Value.Set\<close>) is an argument that gives the new value and whether the text
  was accepted. Environment, lines of the config file and answers of the credentials library are
  arguments. \<^const>\<open>None\<close> is a program that ends with a usage or fatal error.
\<close>

section \<open>Flag sets\<close>

record flag_set =
  fsValue :: "string \<rightharpoonup> string"
  fsSet :: "string list"

type_synonym taker = "string \<Rightarrow> string \<Rightarrow> string \<Rightarrow> string \<times> bool"

definition flag_Set :: "taker \<Rightarrow> string \<Rightarrow> string \<Rightarrow> flag_set \<Rightarrow> flag_set \<times> bool" where
  "flag_Set tk name v fs =
     (case fsValue fs name of
        None \<Rightarrow> (fs, False)
      | Some old \<Rightarrow>
         (case tk name v old of (new, ok) \<Rightarrow>
            (fs\<lparr>fsValue := (fsValue fs)(name \<mapsto> new), fsSet := (if ok then name # fsSet fs else fsSet fs)\<rparr>, ok)))"

text \<open>A name up to an equals sign that is not its first character, and the value behind it.\<close>

definition split_eq :: "string \<Rightarrow> string \<times> string option" where
  "split_eq s =
     (let n = take 1 s @ takeWhile (\<lambda>c. c \<noteq> CHR ''='') (drop 1 s); r = drop (length n) s in
      (n, case r of [] \<Rightarrow> None | _ # v \<Rightarrow> Some v))"

text \<open>\<open>flag.Parse\<close> goes through the arguments up to the first that is no flag, or two dashes. One
  step gives the flag and the value it is set to.\<close>

datatype arg_step = Stop "string list" | Bad | Assign string string "string list"

fun parseOne :: "(string \<Rightarrow> bool) \<Rightarrow> (string \<Rightarrow> bool) \<Rightarrow> string list \<Rightarrow> arg_step" where
  "parseOne isBool defined [] = Stop []"
| "parseOne isBool defined (s # args) =
     (if length s < 2 \<or> hd s \<noteq> CHR ''-'' then Stop (s # args)
      else if s = ''--'' then Stop args
      else let name0 = (if s ! 1 = CHR ''-'' then drop 2 s else drop 1 s) in
        if name0 = [] \<or> hd name0 = CHR ''-'' \<or> hd name0 = CHR ''='' then Bad
        else case split_eq name0 of (name, val) \<Rightarrow>
          if \<not> defined name then Bad
          else case val of
            Some v \<Rightarrow> Assign name v args
          | None \<Rightarrow> if isBool name then Assign name ''true'' args
                    else (case args of [] \<Rightarrow> Bad | v # args' \<Rightarrow> Assign name v args'))"

lemma parseOne_shorter: "parseOne isBool defined args = Assign n v rest \<Longrightarrow> length rest < length args"
  by (cases "(isBool, defined, args)" rule: parseOne.cases)
    (auto simp: Let_def split: if_splits prod.splits option.splits list.splits)

function flag_Parse :: "taker \<Rightarrow> (string \<Rightarrow> bool) \<Rightarrow> string list \<Rightarrow> flag_set \<Rightarrow> (flag_set \<times> string list) option" where
  "flag_Parse tk isBool args fs =
     (case parseOne isBool (\<lambda>n. fsValue fs n \<noteq> None) args of
        Stop rest \<Rightarrow> Some (fs, rest)
      | Bad \<Rightarrow> None
      | Assign n v rest \<Rightarrow> if snd (flag_Set tk n v fs) then flag_Parse tk isBool rest (fst (flag_Set tk n v fs)) else None)"
  by pat_completeness auto
termination
  by (relation "measure (\<lambda>(_, _, args, _). length args)") (auto dest: parseOne_shorter)

declare flag_Parse.simps [simp del]

section \<open>Flags from the environment and a file\<close>

definition env_value :: "(string \<Rightarrow> string option) \<Rightarrow> string \<Rightarrow> string option" where
  "env_value lookupEnv name =
     (case lookupEnv (''RBE_'' @ name) of Some v \<Rightarrow> Some v | None \<Rightarrow> lookupEnv (''FLAG_'' @ name))"

definition ParseFromEnv :: "taker \<Rightarrow> (string \<Rightarrow> string option) \<Rightarrow> string list \<Rightarrow> flag_set \<Rightarrow> flag_set" where
  "ParseFromEnv tk lookupEnv names fs =
     foldl (\<lambda>fs name. case env_value lookupEnv name of Some v \<Rightarrow> fst (flag_Set tk name v fs) | None \<Rightarrow> fs) fs names"

definition cfg_separator :: "char \<Rightarrow> bool" where
  "cfg_separator c \<longleftrightarrow> c \<in> {CHR '' '', CHR 0x09, CHR 0x0A, CHR 0x0C, CHR 0x0D, CHR ''=''}"

text \<open>One line of a config file.\<close>

definition cfg_line :: "string \<Rightarrow> (string \<times> string) option" where
  "cfg_line text =
     (let line = trim_space text in
      if line = [] \<or> prefix ''#'' line then None
      else let k = takeWhile (\<lambda>c. \<not> cfg_separator c) line; r = drop (length k) line;
               key = trim_prefix ''-'' (trim_prefix ''-'' k) in
        Some (key, case r of [] \<Rightarrow> ''true'' | _ # v \<Rightarrow> v))"

definition parseFromFile :: "string list option \<Rightarrow> (string \<rightharpoonup> string) option" where
  "parseFromFile lines =
     map_option (\<lambda>ls. map_of (rev (concat (map (\<lambda>l. case cfg_line l of Some kv \<Rightarrow> [kv] | None \<Rightarrow> []) ls)))) lines"

text \<open>\<open>Parse\<close>: environment, then command line, then what the config file has for flags not set so far.
  \<open>ord\<close> is the order in which the map of the file is visited.\<close>

definition flags_Parse ::
  "taker \<Rightarrow> (string \<Rightarrow> bool) \<Rightarrow> (string \<Rightarrow> string option) \<Rightarrow> (string \<Rightarrow> string list option) \<Rightarrow> ((string \<rightharpoonup> string) \<Rightarrow> (string \<times> string) list) \<Rightarrow>
   string list \<Rightarrow> string list \<Rightarrow> flag_set \<Rightarrow> flag_set option" where
  "flags_Parse tk isBool lookupEnv readLines ord names args fs0 =
     (let fs1 = ParseFromEnv tk lookupEnv names (fs0\<lparr>fsValue := (fsValue fs0)(''cfg'' \<mapsto> [])\<rparr>) in
      case flag_Parse tk isBool args fs1 of
        None \<Rightarrow> None
      | Some (fs2, _) \<Rightarrow>
         (case fsValue fs2 ''cfg'' of
            None \<Rightarrow> Some fs2
          | Some [] \<Rightarrow> Some fs2
          | Some cfg \<Rightarrow>
             (case parseFromFile (readLines cfg) of
                None \<Rightarrow> None
              | Some m \<Rightarrow>
                 Some (foldl (\<lambda>fs (k, v). fst (flag_Set tk k v fs)) fs2 (ord (\<lambda>k. if k \<in> set (fsSet fs2) then None else m k))))))"

section \<open>Authentication\<close>

datatype Mechanism = Unknown | ADC | GCE | CredentialFile | NoAuth

definition mechanism_String :: "Mechanism \<Rightarrow> string" where
  "mechanism_String m =
     (case m of Unknown \<Rightarrow> ''Unknown'' | ADC \<Rightarrow> ''ADC'' | GCE \<Rightarrow> ''GCE'' | CredentialFile \<Rightarrow> ''CredentialFile'' | NoAuth \<Rightarrow> ''None'')"

definition boolAuthFlags :: "string list" where
  "boolAuthFlags = [''use_application_default_credentials'', ''use_gce_credentials'', ''use_external_auth_token'', ''service_no_auth'']"

definition stringAuthFlags :: "string list" where
  "stringAuthFlags = [''credential_file'']"

text \<open>\<open>strconv.ParseBool\<close>.\<close>

definition ParseBool :: "string \<Rightarrow> bool option" where
  "ParseBool s =
     (if s \<in> {''1'', ''t'', ''T'', ''TRUE'', ''true'', ''True''} then Some True
      else if s \<in> {''0'', ''f'', ''F'', ''FALSE'', ''false'', ''False''} then Some False
      else None)"

definition boolFlagVal :: "(string \<Rightarrow> string option) \<Rightarrow> string \<Rightarrow> (string, bool) res" where
  "boolFlagVal lookup name =
     (case lookup name of
        Some v \<Rightarrow> if v = [] then Ok False
                  else (case ParseBool v of Some b \<Rightarrow> Ok b | None \<Rightarrow> Err (''unable to parse boolean flag --'' @ name))
      | None \<Rightarrow> Ok False)"

datatype auth_err = FlagsUnparsable "string list" | NoMechanism nat

definition MechanismFromFlags :: "(string \<Rightarrow> string option) \<Rightarrow> (auth_err, Mechanism) res" where
  "MechanismFromFlags lookup =
     (let errs = concat (map (\<lambda>n. case boolFlagVal lookup n of Err e \<Rightarrow> [e] | _ \<Rightarrow> []) boolAuthFlags);
          vals = (\<lambda>n. if n \<in> set stringAuthFlags then (case lookup n of Some v \<Rightarrow> v \<noteq> [] | None \<Rightarrow> False)
                      else boolFlagVal lookup n = Ok True) in
      if errs \<noteq> [] then Err (FlagsUnparsable errs)
      else if vals ''service_no_auth'' then Ok NoAuth
      else if vals ''credential_file'' then Ok CredentialFile
      else if vals ''use_application_default_credentials'' then Ok ADC
      else if vals ''use_gce_credentials'' then Ok GCE
      else Err (NoMechanism 14))"

text \<open>What the credentials library answers: no credentials, a token with its validity and expiry,
  or an error, which may be one of the authentication service with the decoded body of its
  response.\<close>

datatype token_cause = OtherError | TemporaryError | NoResponse | Response "(string \<times> string) option"

datatype adc_answer = NoCredentials | Token bool int | TokenFailed token_cause

datatype adc_err = NotFound | NoValidToken | ReauthRequired

definition checkADCStatus :: "adc_answer \<Rightarrow> (adc_err, int option) res" where
  "checkADCStatus a =
     (case a of
        NoCredentials \<Rightarrow> Err NotFound
      | TokenFailed OtherError \<Rightarrow> Err NoValidToken
      | TokenFailed TemporaryError \<Rightarrow> Ok None
      | TokenFailed NoResponse \<Rightarrow> Err NoValidToken
      | TokenFailed (Response body) \<Rightarrow>
          if body = Some (''invalid_grant'', ''invalid_rapt'') then Err ReauthRequired else Err NoValidToken
      | Token valid expiry \<Rightarrow> if valid then Ok (Some expiry) else Err NoValidToken)"

definition UpdateStatus :: "adc_answer \<Rightarrow> Mechanism \<Rightarrow> nat \<times> adc_err option" where
  "UpdateStatus a m =
     (if m = ADC then (case checkADCStatus a of Err e \<Rightarrow> (10, Some e) | _ \<Rightarrow> (0, None)) else (0, None))"

section \<open>Precedence\<close>

text \<open>Flags that take every text as it is.\<close>

definition takes_all :: "taker \<Rightarrow> bool" where
  "takes_all tk \<longleftrightarrow> (\<forall>n v d. tk n v d = (v, True))"

lemma flag_Set_takes_all:
  assumes "takes_all tk"
  shows "flag_Set tk n v fs = (if fsValue fs n = None then (fs, False)
    else (fs\<lparr>fsValue := (fsValue fs)(n \<mapsto> v), fsSet := n # fsSet fs\<rparr>, True))"
  using assms by (auto simp: flag_Set_def takes_all_def split: option.splits)

text \<open>The flag set reached from other values differs only in the flags the arguments do not name.\<close>

definition overlaid :: "flag_set \<Rightarrow> flag_set \<Rightarrow> flag_set \<Rightarrow> bool" where
  "overlaid fs1 a b \<longleftrightarrow> dom (fsValue b) = dom (fsValue a) \<and> set (fsSet a) \<subseteq> dom (fsValue a) \<and> set (fsSet b) = set (fsSet a) \<union> set (fsSet fs1) \<and>
     (\<forall>n. fsValue b n = (if n \<in> set (fsSet a) then fsValue a n else fsValue fs1 n))"

lemma overlaid_Set:
  assumes "takes_all tk" and "overlaid fs1 a b"
  shows "snd (flag_Set tk n v b) = snd (flag_Set tk n v a) \<and> overlaid fs1 (fst (flag_Set tk n v a)) (fst (flag_Set tk n v b))"
proof -
  have "fsValue b n = None \<longleftrightarrow> fsValue a n = None" using assms(2) by (metis domIff overlaid_def)
  then show ?thesis using assms(2) by (auto simp: flag_Set_takes_all [OF assms(1)] overlaid_def)
qed

lemma flag_Parse_overlaid:
  assumes "takes_all tk" and "overlaid fs1 a b" and "flag_Parse tk isBool args b = Some (b', rest)"
  shows "\<exists>a'. flag_Parse tk isBool args a = Some (a', rest) \<and> overlaid fs1 a' b'"
  using assms
proof (induction tk isBool args b arbitrary: a rule: flag_Parse.induct)
  case (1 tk isBool args b)
  have p: "(\<lambda>n. fsValue b n \<noteq> None) = (\<lambda>n. fsValue a n \<noteq> None)"
    using "1.prems"(2) by (metis domIff overlaid_def)
  have ua: "flag_Parse tk isBool args a = (case parseOne isBool (\<lambda>n. fsValue a n \<noteq> None) args of
        Stop rest \<Rightarrow> Some (a, rest) | Bad \<Rightarrow> None
      | Assign n v rest \<Rightarrow> if snd (flag_Set tk n v a) then flag_Parse tk isBool rest (fst (flag_Set tk n v a)) else None)"
    by (rule flag_Parse.simps)
  have ub: "flag_Parse tk isBool args b = (case parseOne isBool (\<lambda>n. fsValue a n \<noteq> None) args of
        Stop rest \<Rightarrow> Some (b, rest) | Bad \<Rightarrow> None
      | Assign n v rest \<Rightarrow> if snd (flag_Set tk n v b) then flag_Parse tk isBool rest (fst (flag_Set tk n v b)) else None)"
    using flag_Parse.simps [of tk isBool args b] unfolding p .
  show ?case
  proof (cases "parseOne isBool (\<lambda>n. fsValue a n \<noteq> None) args")
    case (Stop r)
    then show ?thesis using "1.prems" ua ub by auto
  next
    case Bad
    then show ?thesis using "1.prems" ub by simp
  next
    case (Assign n v r)
    have ok: "snd (flag_Set tk n v b)" "flag_Parse tk isBool r (fst (flag_Set tk n v b)) = Some (b', rest)"
      using "1.prems"(3) ub Assign by (auto split: if_splits)
    note o = overlaid_Set [OF "1.prems"(1,2), of n v]
    have "parseOne isBool (\<lambda>n. fsValue b n \<noteq> None) args = Assign n v r" using Assign p by simp
    from "1.IH" [OF this ok(1) "1.prems"(1) _ ok(2)] o
    obtain a' where "flag_Parse tk isBool r (fst (flag_Set tk n v a)) = Some (a', rest)" "overlaid fs1 a' b'" by blast
    then show ?thesis using ua Assign o ok(1) by simp
  qed
qed

lemma ParseFromEnv_values:
  assumes "takes_all tk"
  shows "fsValue (ParseFromEnv tk lookupEnv names fs) n =
      (if n \<in> set names \<and> fsValue fs n \<noteq> None \<and> env_value lookupEnv n \<noteq> None then env_value lookupEnv n else fsValue fs n) \<and>
    set (fsSet (ParseFromEnv tk lookupEnv names fs)) =
      set (fsSet fs) \<union> {k \<in> set names. fsValue fs k \<noteq> None \<and> env_value lookupEnv k \<noteq> None}"
  unfolding ParseFromEnv_def
proof (induction names arbitrary: fs)
  case (Cons k names)
  let ?fs = "case env_value lookupEnv k of Some v \<Rightarrow> fst (flag_Set tk k v fs) | None \<Rightarrow> fs"
  have v: "fsValue ?fs n = (if n = k \<and> fsValue fs n \<noteq> None \<and> env_value lookupEnv n \<noteq> None then env_value lookupEnv n else fsValue fs n)" for n
    by (auto simp: flag_Set_takes_all [OF assms] split: option.splits)
  have st: "set (fsSet ?fs) = set (fsSet fs) \<union> {n. n = k \<and> fsValue fs k \<noteq> None \<and> env_value lookupEnv k \<noteq> None}"
    by (auto simp: flag_Set_takes_all [OF assms] split: option.splits)
  have d: "fsValue ?fs n = None \<longleftrightarrow> fsValue fs n = None" for n using v [of n] by (auto split: if_splits)
  show ?case using Cons.IH [of ?fs] v [of n] st d by auto
qed simp

lemma set_all_values:
  assumes "takes_all tk" and "distinct (map fst kvs)"
  shows "fsValue (foldl (\<lambda>fs (k, v). fst (flag_Set tk k v fs)) fs kvs) n =
    (if fsValue fs n = None then None else case map_of kvs n of Some v \<Rightarrow> Some v | None \<Rightarrow> fsValue fs n)"
  using assms(2)
proof (induction kvs arbitrary: fs)
  case (Cons kv kvs)
  obtain k v where kv: "kv = (k, v)" by fastforce
  have "map_of kvs k = None" using Cons.prems kv by (auto simp: map_of_eq_None_iff)
  then show ?case using Cons kv by (auto simp: flag_Set_takes_all [OF assms(1)] split: option.splits)
qed (auto split: option.splits)

text \<open>Where the value of a flag comes from.\<close>

definition chosen_value :: "flag_set \<Rightarrow> (string \<Rightarrow> string option) \<Rightarrow> (string \<rightharpoonup> string) \<Rightarrow> string \<Rightarrow> string \<Rightarrow> string" where
  "chosen_value cmdLine lookupEnv fileFlags n dflt =
     (if n \<in> set (fsSet cmdLine) then the (fsValue cmdLine n)
      else case env_value lookupEnv n of Some v \<Rightarrow> v | None \<Rightarrow> (case fileFlags n of Some v \<Rightarrow> v | None \<Rightarrow> dflt))"


text \<open>The entries of a finite map by key.\<close>

definition sorted_entries :: "(string \<rightharpoonup> 'v) \<Rightarrow> (string \<times> 'v) list" where
  "sorted_entries m = map (\<lambda>k. (k, the (m k))) (sorted_list_of_set (dom m))"

lemma sorted_entries_entries: "finite (dom m) \<Longrightarrow> map_entries m (sorted_entries m)"
  by (auto simp: map_entries_def sorted_entries_def comp_def map_of_map_restrict restrict_map_def fun_eq_iff) (metis option.exhaust)

definition demo_flags :: flag_set where
  "demo_flags = \<lparr>fsValue = [''a'' \<mapsto> ''0'', ''b'' \<mapsto> ''0'', ''c'' \<mapsto> ''0''], fsSet = []\<rparr>"

definition demo_lines :: "string \<Rightarrow> string list option" where
  "demo_lines f = (if f = ''f'' then Some [''# flags'', ''--c 3'', ''a=9'', ''b 8''] else None)"

abbreviation demo_flag_env :: "string \<Rightarrow> string option" where
  "demo_flag_env \<equiv> [''RBE_b'' \<mapsto> ''2'', ''FLAG_b'' \<mapsto> ''7'', ''RBE_a'' \<mapsto> ''5'']"

abbreviation demo_args :: "string list" where
  "demo_args \<equiv> [''--a=1'', ''-cfg'', ''f'', ''cmd'']"


section \<open>Which mechanism\<close>

text \<open>A credential file wins over application default and machine credentials.\<close>

lemma credential_file_first:
  assumes "MechanismFromFlags lookup = Ok m" and "lookup ''credential_file'' = Some f" and "f \<noteq> []"
  shows "m = CredentialFile \<or> m = NoAuth"
  using assms by (auto simp: MechanismFromFlags_def Let_def stringAuthFlags_def split: if_splits)

text \<open>A mechanism found is one whose flag is set, and none is found only if no flag is set.\<close>

lemma MechanismFromFlags_justified:
  assumes "MechanismFromFlags lookup = Ok m"
  shows "(m = ADC \<longrightarrow> boolFlagVal lookup ''use_application_default_credentials'' = Ok True) \<and>
    (m = GCE \<longrightarrow> boolFlagVal lookup ''use_gce_credentials'' = Ok True \<and> boolFlagVal lookup ''use_application_default_credentials'' \<noteq> Ok True) \<and>
    (m = NoAuth \<longrightarrow> boolFlagVal lookup ''service_no_auth'' = Ok True) \<and> m \<noteq> Unknown"
  using assms by (auto simp: MechanismFromFlags_def Let_def stringAuthFlags_def split: if_splits)

end
