(* ===== verification/LoggerRun.thy ===== *)
theory LoggerRun
  imports Logger GoRegexp Flags
begin

text \<open>
  The logger while it runs (\<open>internal/pkg/logger/logger.go\<close>): clients that send events, the
  goroutine that applies them, status summaries, and closing; as a step relation over their
  interleavings. Then the proxy info it collects, the conversion of remote metadata, and reading
  the logs of several directories.

  A client holds the read lock from the test of \<open>open\<close> until its event is received; a summary
  holds it until the answer or its deadline. Closing takes the write lock to clear \<open>open\<close>. The
  event channel has no buffer. What an event does to the counters is \<open>apply_event\<close> of \<open>Logger\<close>;
  here only the order of events matters and the sends and closes, which panic on a closed channel.
\<close>

section \<open>State\<close>

datatype ev = EvStart nat | EvEnd nat | EvSummary nat

datatype worker = Ready | Busy ev | Finished

datatype closer = NotClosing | Marked bool | ChDone | ItemsDone | Returned

datatype go_panic = SendOnEvents | SendOnItems | SendOnOut nat | CloseEventsTwice | CloseItemsTwice

record lg =
  lgOpen :: bool
  lgSenders :: "ev list"
  lgWaiting :: "nat list"
  lgAnswered :: "nat list"
  lgOutClosed :: "nat list"
  lgChClosed :: bool
  lgItemsClosed :: bool
  lgBq :: bool
  lgWorker :: worker
  lgApplied :: "ev list"
  lgClosers :: "closer list"
  lgPanic :: "go_panic option"
  lgSent :: "ev list"

text \<open>A logger that has started, with the given number of calls of \<open>CloseAndAggregate\<close> to come.\<close>

definition lg_init :: "bool \<Rightarrow> nat \<Rightarrow> lg" where
  "lg_init bq n = \<lparr>lgOpen = True, lgSenders = [], lgWaiting = [], lgAnswered = [], lgOutClosed = [], lgChClosed = False,
     lgItemsClosed = False, lgBq = bq, lgWorker = Ready, lgApplied = [], lgClosers = replicate n NotClosing, lgPanic = None, lgSent = []\<rparr>"

section \<open>Operations\<close>

text \<open>\<open>LogActionStart\<close>, \<open>Log\<close> and \<open>GetStatusSummary\<close> enter with an event; a closed logger drops it.\<close>

definition enter_event :: "ev \<Rightarrow> lg \<Rightarrow> lg" where
  "enter_event e s = (if lgOpen s then s\<lparr>lgSenders := lgSenders s @ [e]\<rparr> else s)"

text \<open>The send of an event meets the goroutine that receives it.\<close>

definition send_event :: "ev \<Rightarrow> lg \<Rightarrow> lg" where
  "send_event e s =
     (if lgChClosed s then s\<lparr>lgPanic := Some SendOnEvents\<rparr>
      else s\<lparr>lgSenders := remove1 e (lgSenders s), lgWorker := Busy e, lgSent := lgSent s @ [e],
             lgWaiting := (case e of EvSummary i \<Rightarrow> lgWaiting s @ [i] | _ \<Rightarrow> lgWaiting s)\<rparr>)"

text \<open>\<open>processEvents\<close> applies the event it received.\<close>

definition apply_received :: "ev \<Rightarrow> lg \<Rightarrow> lg" where
  "apply_received e s =
     (let done' = s\<lparr>lgWorker := Ready, lgApplied := lgApplied s @ [e]\<rparr> in
      case e of
        EvStart i \<Rightarrow> done'
      | EvEnd i \<Rightarrow> if lgBq s \<and> lgItemsClosed s then s\<lparr>lgPanic := Some SendOnItems\<rparr> else done'
      | EvSummary i \<Rightarrow> if i \<in> set (lgOutClosed s) then s\<lparr>lgPanic := Some (SendOnOut i)\<rparr> else done'\<lparr>lgAnswered := i # lgAnswered s\<rparr>)"

text \<open>\<open>GetStatusSummary\<close> returns with the answer or because its context is done, and closes the channel
  it waits on.\<close>

definition summary_return :: "nat \<Rightarrow> lg \<Rightarrow> lg" where
  "summary_return i s = s\<lparr>lgWaiting := remove1 i (lgWaiting s), lgOutClosed := i # lgOutClosed s\<rparr>"

text \<open>The parts of \<open>CloseAndAggregate\<close>: under the lock, the event channel, the items, and the wait for
  the goroutines.\<close>

definition close_mark :: "nat \<Rightarrow> lg \<Rightarrow> lg" where
  "close_mark k s = s\<lparr>lgClosers := (lgClosers s)[k := Marked (lgOpen s)], lgOpen := False\<rparr>"

definition close_events :: "nat \<Rightarrow> bool \<Rightarrow> lg \<Rightarrow> lg" where
  "close_events k opened s =
     (if opened \<and> lgChClosed s then s\<lparr>lgPanic := Some CloseEventsTwice\<rparr>
      else s\<lparr>lgClosers := (lgClosers s)[k := ChDone], lgChClosed := lgChClosed s \<or> opened\<rparr>)"

definition close_items :: "nat \<Rightarrow> lg \<Rightarrow> lg" where
  "close_items k s =
     (if lgItemsClosed s then s\<lparr>lgPanic := Some CloseItemsTwice\<rparr>
      else s\<lparr>lgClosers := (lgClosers s)[k := ItemsDone], lgItemsClosed := True\<rparr>)"

definition close_return :: "nat \<Rightarrow> lg \<Rightarrow> lg" where
  "close_return k s = s\<lparr>lgClosers := (lgClosers s)[k := Returned]\<rparr>"

text \<open>All interleavings; a panic ends the program.\<close>

inductive lg_step :: "lg \<Rightarrow> lg \<Rightarrow> bool" where
  Enter: "lgPanic s = None \<Longrightarrow> lg_step s (enter_event e s)"
| Send: "lgPanic s = None \<Longrightarrow> e \<in> set (lgSenders s) \<Longrightarrow> lgChClosed s \<or> lgWorker s = Ready \<Longrightarrow> lg_step s (send_event e s)"
| Apply: "lgPanic s = None \<Longrightarrow> lgWorker s = Busy e \<Longrightarrow> lg_step s (apply_received e s)"
| Answer: "lgPanic s = None \<Longrightarrow> i \<in> set (lgWaiting s) \<Longrightarrow> i \<in> set (lgAnswered s) \<Longrightarrow> lg_step s (summary_return i s)"
| Timeout: "lgPanic s = None \<Longrightarrow> i \<in> set (lgWaiting s) \<Longrightarrow> lg_step s (summary_return i s)"
| Mark: "lgPanic s = None \<Longrightarrow> k < length (lgClosers s) \<Longrightarrow> lgClosers s ! k = NotClosing \<Longrightarrow>
    lgSenders s = [] \<Longrightarrow> lgWaiting s = [] \<Longrightarrow> lg_step s (close_mark k s)"
| CloseCh: "lgPanic s = None \<Longrightarrow> k < length (lgClosers s) \<Longrightarrow> lgClosers s ! k = Marked opened \<Longrightarrow> lg_step s (close_events k opened s)"
| CloseItems: "lgPanic s = None \<Longrightarrow> k < length (lgClosers s) \<Longrightarrow> lgClosers s ! k = ChDone \<Longrightarrow> lg_step s (close_items k s)"
| Finish: "lgPanic s = None \<Longrightarrow> lgWorker s = Ready \<Longrightarrow> lgChClosed s \<Longrightarrow> lg_step s (s\<lparr>lgWorker := Finished\<rparr>)"
| Return: "lgPanic s = None \<Longrightarrow> k < length (lgClosers s) \<Longrightarrow> lgClosers s ! k = ItemsDone \<Longrightarrow> lgWorker s = Finished \<Longrightarrow>
    lg_step s (close_return k s)"

abbreviation lg_reach :: "bool \<Rightarrow> nat \<Rightarrow> lg \<Rightarrow> bool" where
  "lg_reach bq n s \<equiv> lg_step\<^sup>*\<^sup>* (lg_init bq n) s"

section \<open>Invariant\<close>

text \<open>After the logger is marked closed no sender is left; the channel is closed only then; what was
  received is applied or being applied, in order; the goroutine ends only after the close.\<close>

definition pending_ev :: "worker \<Rightarrow> ev list" where
  "pending_ev w = (case w of Busy e \<Rightarrow> [e] | _ \<Rightarrow> [])"

text \<open>One call of \<open>CloseAndAggregate\<close> found the logger open: it is the one that closes the channel.\<close>

definition owed :: "lg \<Rightarrow> nat" where
  "owed s = count_list (lgClosers s) (Marked True) + (if lgChClosed s then 1 else 0)"

definition lg_inv :: "lg \<Rightarrow> bool" where
  "lg_inv s \<longleftrightarrow> (\<not> lgOpen s \<longrightarrow> lgSenders s = [] \<and> lgWaiting s = []) \<and> owed s = (if lgOpen s then 0 else 1) \<and>
     lgSent s = lgApplied s @ pending_ev (lgWorker s) \<and> (lgWorker s = Finished \<longrightarrow> lgChClosed s) \<and>
     (Returned \<in> set (lgClosers s) \<longrightarrow> lgWorker s = Finished) \<and>
     lgPanic s \<noteq> Some SendOnEvents \<and> lgPanic s \<noteq> Some CloseEventsTwice"

lemma count_list_update:
  "k < length xs \<Longrightarrow> count_list (xs[k := y]) x + (if xs ! k = x then 1 else 0) = count_list xs x + (if y = x then 1 else 0)"
proof (induction xs arbitrary: k)
  case (Cons a xs)
  show ?case
  proof (cases k)
    case (Suc j)
    then show ?thesis using Cons.IH [of j] Cons.prems by (auto split: if_splits)
  qed simp
qed simp

lemma count_list_nth: "k < length xs \<Longrightarrow> xs ! k = x \<Longrightarrow> 0 < count_list xs x"
  using count_list_0_iff [of xs x] nth_mem by fastforce

lemma lg_inv_step: "lg_step s s' \<Longrightarrow> lg_inv s \<Longrightarrow> lg_inv s'"
proof (induction rule: lg_step.induct)
  case (Send s e)
  then have "lgOpen s" "\<not> lgChClosed s" by (auto simp: lg_inv_def owed_def split: if_splits)
  then show ?case using Send by (auto simp: lg_inv_def owed_def send_event_def pending_ev_def split: ev.splits)
next
  case (Apply s e)
  then show ?case by (cases e) (auto simp: lg_inv_def owed_def apply_received_def Let_def pending_ev_def)
next
  case (Mark s k)
  then show ?case
    using count_list_update [of k "lgClosers s" "Marked (lgOpen s)" "Marked True"] set_update_subset_insert [of "lgClosers s" k]
    by (auto simp: lg_inv_def owed_def close_mark_def split: if_splits)
next
  case (CloseCh s k opened)
  have "\<not> (opened \<and> lgChClosed s)"
    using count_list_nth [OF CloseCh(2,3)] CloseCh(4) by (auto simp: lg_inv_def owed_def split: if_splits)
  then show ?case
    using CloseCh count_list_update [of k "lgClosers s" ChDone "Marked True"] set_update_subset_insert [of "lgClosers s" k ChDone]
    by (auto simp: lg_inv_def owed_def close_events_def split: if_splits)
next
  case (CloseItems s k)
  then show ?case
    using count_list_update [of k "lgClosers s" ItemsDone "Marked True"] set_update_subset_insert [of "lgClosers s" k ItemsDone]
    by (auto simp: lg_inv_def owed_def close_items_def split: if_splits)
next
  case (Return s k)
  then show ?case
    using count_list_update [of k "lgClosers s" Returned "Marked True"]
    by (auto simp: lg_inv_def owed_def close_return_def split: if_splits)
qed (auto simp: lg_inv_def owed_def enter_event_def summary_return_def pending_ev_def)

interpretation running_logger: step_invariant lg_step "\<lambda>s. \<exists>bq n. s = lg_init bq n" lg_inv
proof unfold_locales
  show "lg_inv s" if "\<exists>bq n. s = lg_init bq n" for s
    using that by (auto simp: lg_inv_def lg_init_def owed_def pending_ev_def)
qed (rule lg_inv_step)

lemma lg_inv_reach: "lg_reach bq n s \<Longrightarrow> lg_inv s"
  using running_logger.holds_reachable by blast

text \<open>C32: Whatever clients and closers do, no event is sent on the closed event channel and the channel
  is closed once; events are applied in the order they were received, and when a call of
  \<open>CloseAndAggregate\<close> has returned all of them have been.\<close>

theorem logger_loses_no_event:
  assumes "lg_reach bq n s"
  shows "lgPanic s \<noteq> Some SendOnEvents \<and> lgPanic s \<noteq> Some CloseEventsTwice \<and> prefix (lgApplied s) (lgSent s) \<and>
    (Returned \<in> set (lgClosers s) \<longrightarrow> lgApplied s = lgSent s \<and> lgSenders s = [])"
  using lg_inv_reach [OF assms] by (auto simp: lg_inv_def owed_def pending_ev_def split: if_splits)

section \<open>Schedules\<close>

text \<open>A schedule names the step taken next; running one gives a reachable state.\<close>

datatype lg_act = AEnter ev | ASend ev | AApply | ATimeout nat | AAnswer nat | AMark nat | ACloseCh nat | ACloseItems nat
  | AFinish | AReturn nat

definition closer_at :: "nat \<Rightarrow> lg \<Rightarrow> closer option" where
  "closer_at k s = (if k < length (lgClosers s) then Some (lgClosers s ! k) else None)"

fun take_act :: "lg_act \<Rightarrow> lg \<Rightarrow> lg option" where
  "take_act (AEnter e) s = (if lgPanic s = None then Some (enter_event e s) else None)"
| "take_act (ASend e) s =
     (if lgPanic s = None \<and> e \<in> set (lgSenders s) \<and> (lgChClosed s \<or> lgWorker s = Ready) then Some (send_event e s) else None)"
| "take_act AApply s = (if lgPanic s = None then case lgWorker s of Busy e \<Rightarrow> Some (apply_received e s) | _ \<Rightarrow> None else None)"
| "take_act (ATimeout i) s = (if lgPanic s = None \<and> i \<in> set (lgWaiting s) then Some (summary_return i s) else None)"
| "take_act (AAnswer i) s =
     (if lgPanic s = None \<and> i \<in> set (lgWaiting s) \<and> i \<in> set (lgAnswered s) then Some (summary_return i s) else None)"
| "take_act (AMark k) s =
     (if lgPanic s = None \<and> closer_at k s = Some NotClosing \<and> lgSenders s = [] \<and> lgWaiting s = [] then Some (close_mark k s) else None)"
| "take_act (ACloseCh k) s =
     (if lgPanic s = None then case closer_at k s of Some (Marked opened) \<Rightarrow> Some (close_events k opened s) | _ \<Rightarrow> None else None)"
| "take_act (ACloseItems k) s = (if lgPanic s = None \<and> closer_at k s = Some ChDone then Some (close_items k s) else None)"
| "take_act AFinish s = (if lgPanic s = None \<and> lgWorker s = Ready \<and> lgChClosed s then Some (s\<lparr>lgWorker := Finished\<rparr>) else None)"
| "take_act (AReturn k) s =
     (if lgPanic s = None \<and> closer_at k s = Some ItemsDone \<and> lgWorker s = Finished then Some (close_return k s) else None)"

fun run_acts :: "lg_act list \<Rightarrow> lg \<Rightarrow> lg option" where
  "run_acts [] s = Some s"
| "run_acts (a # as) s = (case take_act a s of None \<Rightarrow> None | Some s' \<Rightarrow> run_acts as s')"

lemma closer_at_Some: "closer_at k s = Some c \<Longrightarrow> k < length (lgClosers s) \<and> lgClosers s ! k = c"
  by (simp add: closer_at_def split: if_splits)

lemma take_act_step: "take_act a s = Some s' \<Longrightarrow> lg_step s s'"
  by (cases a)
    (auto split: if_splits worker.splits option.splits closer.splits dest!: closer_at_Some intro: lg_step.intros)

lemma run_acts_reach: "run_acts as s = Some s' \<Longrightarrow> lg_step\<^sup>*\<^sup>* s s'"
  by (induction as s rule: run_acts.induct)
    (auto split: option.splits dest: take_act_step intro: converse_rtranclp_into_rtranclp)

lemma run_acts_the: "run_acts as s \<noteq> None \<Longrightarrow> lg_step\<^sup>*\<^sup>* s (the (run_acts as s))"
  by (cases "run_acts as s") (auto dest: run_acts_reach)

lemma run_acts_ends: "(case run_acts as s of Some s' \<Rightarrow> P s' | None \<Rightarrow> False) \<Longrightarrow> \<exists>s'. lg_step\<^sup>*\<^sup>* s s' \<and> P s'"
  by (cases "run_acts as s") (auto dest: run_acts_reach)

definition log_and_close :: lg where
  "log_and_close = the (run_acts [AEnter (EvEnd 7), ASend (EvEnd 7), AApply, AMark 0, ACloseCh 0, ACloseItems 0, AFinish, AReturn 0] (lg_init False 1))"

lemma log_and_close_reachable: "lg_reach False 1 log_and_close"
proof -
  have "run_acts [AEnter (EvEnd 7), ASend (EvEnd 7), AApply, AMark 0, ACloseCh 0, ACloseItems 0, AFinish, AReturn 0] (lg_init False 1) \<noteq> None"
    by code_simp
  then show ?thesis unfolding log_and_close_def by (rule run_acts_the)
qed

theorem logger_loses_no_event_witness:
  "lgApplied log_and_close = [EvEnd 7] \<and> lgApplied log_and_close = lgSent log_and_close"
proof -
  have "Returned \<in> set (lgClosers log_and_close)" "lgApplied log_and_close = [EvEnd 7]" by code_simp+
  then show ?thesis using logger_loses_no_event [OF log_and_close_reachable] by simp
qed

text \<open>Three panics that can happen: a record that is still being applied is put into the upload
  channel after closing has closed it; a summary that gave up closed the channel its answer is
  sent on; a second call of \<open>CloseAndAggregate\<close> closes the upload channel again.\<close>

theorem logger_panics:
  "(\<exists>s. lg_reach True 1 s \<and> lgPanic s = Some SendOnItems) \<and> (\<exists>s. lg_reach False 1 s \<and> lgPanic s = Some (SendOnOut 0)) \<and>
   (\<exists>s. lg_reach False 2 s \<and> lgPanic s = Some CloseItemsTwice)"
proof (intro conjI)
  have "(case run_acts [AEnter (EvEnd 0), ASend (EvEnd 0), AMark 0, ACloseCh 0, ACloseItems 0, AApply] (lg_init True 1) of
      Some s \<Rightarrow> lgPanic s = Some SendOnItems | None \<Rightarrow> False)" by code_simp
  then show "\<exists>s. lg_reach True 1 s \<and> lgPanic s = Some SendOnItems" by (rule run_acts_ends)
  have "(case run_acts [AEnter (EvSummary 0), ASend (EvSummary 0), ATimeout 0, AApply] (lg_init False 1) of
      Some s \<Rightarrow> lgPanic s = Some (SendOnOut 0) | None \<Rightarrow> False)" by code_simp
  then show "\<exists>s. lg_reach False 1 s \<and> lgPanic s = Some (SendOnOut 0)" by (rule run_acts_ends)
  have "(case run_acts [AMark 0, ACloseCh 0, ACloseItems 0, AMark 1, ACloseCh 1, ACloseItems 1] (lg_init False 2) of
      Some s \<Rightarrow> lgPanic s = Some CloseItemsTwice | None \<Rightarrow> False)" by code_simp
  then show "\<exists>s. lg_reach False 2 s \<and> lgPanic s = Some CloseItemsTwice" by (rule run_acts_ends)
qed

section \<open>Proxy info\<close>

text \<open>What the logger writes about the proxy itself; \<^const>\<open>None\<close> is a nil logger.\<close>

record proxy_info =
  piEventTimes :: "string \<rightharpoonup> time_interval"
  piMetrics :: "string \<rightharpoonup> Metric"
  piFlags :: "string \<rightharpoonup> string"
  piRemoteDisabled :: bool

definition new_info :: proxy_info where
  "new_info = \<lparr>piEventTimes = Map.empty, piMetrics = Map.empty, piFlags = Map.empty, piRemoteDisabled = False\<rparr>"

definition AddEventTimeToProxyInfo :: "string \<Rightarrow> int \<Rightarrow> int \<Rightarrow> proxy_info option \<Rightarrow> proxy_info option" where
  "AddEventTimeToProxyInfo key from' to' = map_option (\<lambda>l. l\<lparr>piEventTimes := (piEventTimes l)(key \<mapsto> (Some from', Some to'))\<rparr>)"

definition AddEventTimesToProxyInfo :: "(string \<times> time_interval) list \<Rightarrow> proxy_info option \<Rightarrow> proxy_info option" where
  "AddEventTimesToProxyInfo m =
     map_option (\<lambda>l. l\<lparr>piEventTimes := foldl (\<lambda>et (k, v). et(k \<mapsto> v)) (piEventTimes l) m\<rparr>)"

definition AddMetricDoubleToProxyInfo :: "string \<Rightarrow> string \<Rightarrow> proxy_info option \<Rightarrow> proxy_info option" where
  "AddMetricDoubleToProxyInfo key v = map_option (\<lambda>l. l\<lparr>piMetrics := (piMetrics l)(key \<mapsto> DoubleMetric v)\<rparr>)"

definition AddMetricBoolToProxyInfo :: "string \<Rightarrow> bool \<Rightarrow> proxy_info option \<Rightarrow> proxy_info option" where
  "AddMetricBoolToProxyInfo key v = map_option (\<lambda>l. l\<lparr>piMetrics := (piMetrics l)(key \<mapsto> BoolMetric v)\<rparr>)"

definition AddFlagStringToProxyInfo :: "string \<Rightarrow> string \<Rightarrow> proxy_info option \<Rightarrow> proxy_info option" where
  "AddFlagStringToProxyInfo key v =
     map_option (\<lambda>l. l\<lparr>piFlags := (piFlags l)(key \<mapsto> v),
       piRemoteDisabled := (if key = ''remote_disabled'' then case ParseBool v of Some b \<Rightarrow> b | None \<Rightarrow> piRemoteDisabled l
                            else piRemoteDisabled l)\<rparr>)"

text \<open>The flags of a flag set by name; a nil set is \<^const>\<open>None\<close>.\<close>

definition AddFlags :: "(string \<times> string) list option \<Rightarrow> proxy_info option \<Rightarrow> proxy_info option" where
  "AddFlags flags l = (case flags of None \<Rightarrow> l | Some fs \<Rightarrow> foldl (\<lambda>l (k, v). AddFlagStringToProxyInfo k v l) l fs)"

lemma AddFlags_flags:
  "distinct (map fst fs) \<Longrightarrow> \<exists>l'. AddFlags (Some fs) (Some l) = Some l' \<and> piFlags l' = piFlags l ++ map_of fs"
proof (induction fs arbitrary: l)
  case (Cons kv fs)
  obtain k v where kv: "kv = (k, v)" by fastforce
  have k: "map_of fs k = None" using Cons.prems kv by (auto simp: map_of_eq_None_iff)
  let ?l = "the (AddFlagStringToProxyInfo k v (Some l))"
  have step: "AddFlags (Some (kv # fs)) (Some l) = AddFlags (Some fs) (Some ?l)" "piFlags ?l = (piFlags l)(k \<mapsto> v)"
    by (simp_all add: AddFlags_def kv AddFlagStringToProxyInfo_def)
  have "(piFlags l)(k \<mapsto> v) ++ map_of fs = piFlags l ++ map_of (kv # fs)"
    using k kv by (auto simp: fun_eq_iff map_add_def split: option.splits)
  moreover obtain l' where "AddFlags (Some fs) (Some ?l) = Some l'" "piFlags l' = piFlags ?l ++ map_of fs"
    using Cons.IH [of ?l] Cons.prems by auto
  ultimately show ?case using step by metis
qed (simp add: AddFlags_def)

section \<open>Remote metadata\<close>

text \<open>Metadata of the SDK and the record of the log. Counts are cut to 32 bits, digests written as
  text and read back with the SDK.\<close>

record sdk_metadata =
  mInputFiles :: int
  mInputDirectories :: int
  mTotalInputBytes :: int
  mOutputFiles :: int
  mOutputDirectories :: int
  mTotalOutputBytes :: int
  mCommandDigest :: string
  mActionDigest :: string
  mStderrDigest :: string
  mStdoutDigest :: string
  mLogicalBytesUploaded :: int
  mRealBytesUploaded :: int
  mLogicalBytesDownloaded :: int
  mRealBytesDownloaded :: int
  mEventTimes :: "string \<rightharpoonup> time_interval"
  mOutputFileDigests :: "string \<rightharpoonup> string"
  mOutputFileIsExecutable :: "string \<rightharpoonup> bool"
  mOutputDirectoryDigests :: "string \<rightharpoonup> string"
  mAuxiliary :: "string list"

record remote_metadata =
  rmNumInputFiles :: int
  rmNumInputDirectories :: int
  rmTotalInputBytes :: int
  rmNumOutputFiles :: int
  rmNumOutputDirectories :: int
  rmTotalOutputBytes :: int
  rmCommandDigest :: string
  rmActionDigest :: string
  rmLogicalBytesUploaded :: int
  rmRealBytesUploaded :: int
  rmLogicalBytesDownloaded :: int
  rmRealBytesDownloaded :: int
  rmStderrDigest :: string
  rmStdoutDigest :: string
  rmEventTimes :: "string \<rightharpoonup> time_interval"
  rmAuxiliary :: "string \<rightharpoonup> string"
  rmOutputFileDigests :: "string \<rightharpoonup> string"
  rmOutputFileIsExecutable :: "string \<rightharpoonup> bool"
  rmOutputDirectoryDigests :: "string \<rightharpoonup> string"

definition empty_remote_metadata :: remote_metadata where
  "empty_remote_metadata = \<lparr>rmNumInputFiles = 0, rmNumInputDirectories = 0, rmTotalInputBytes = 0, rmNumOutputFiles = 0,
     rmNumOutputDirectories = 0, rmTotalOutputBytes = 0, rmCommandDigest = [], rmActionDigest = [], rmLogicalBytesUploaded = 0,
     rmRealBytesUploaded = 0, rmLogicalBytesDownloaded = 0, rmRealBytesDownloaded = 0, rmStderrDigest = [], rmStdoutDigest = [],
     rmEventTimes = Map.empty, rmAuxiliary = Map.empty, rmOutputFileDigests = Map.empty, rmOutputFileIsExecutable = Map.empty,
     rmOutputDirectoryDigests = Map.empty\<rparr>"

definition int32 :: "int \<Rightarrow> int" where
  "int32 x = signed_take_bit 31 x"

text \<open>Digests are kept in their text form; \<open>flat\<close> flattens the first auxiliary message if a message
  descriptor is set.\<close>

definition CommandRemoteMetadataToProto :: "(string \<Rightarrow> string \<rightharpoonup> string) option \<Rightarrow> sdk_metadata option \<Rightarrow> remote_metadata" where
  "CommandRemoteMetadataToProto flat r =
     (case r of
        None \<Rightarrow> empty_remote_metadata
      | Some m \<Rightarrow>
         \<lparr>rmNumInputFiles = int32 (mInputFiles m), rmNumInputDirectories = int32 (mInputDirectories m),
          rmTotalInputBytes = mTotalInputBytes m, rmNumOutputFiles = int32 (mOutputFiles m),
          rmNumOutputDirectories = int32 (mOutputDirectories m), rmTotalOutputBytes = mTotalOutputBytes m,
          rmCommandDigest = mCommandDigest m, rmActionDigest = mActionDigest m,
          rmLogicalBytesUploaded = mLogicalBytesUploaded m, rmRealBytesUploaded = mRealBytesUploaded m,
          rmLogicalBytesDownloaded = mLogicalBytesDownloaded m, rmRealBytesDownloaded = mRealBytesDownloaded m,
          rmStderrDigest = mStderrDigest m, rmStdoutDigest = mStdoutDigest m, rmEventTimes = mEventTimes m,
          rmAuxiliary = (case (flat, mAuxiliary m) of (Some f, a # _) \<Rightarrow> f a | _ \<Rightarrow> Map.empty),
          rmOutputFileDigests = mOutputFileDigests m, rmOutputFileIsExecutable = mOutputFileIsExecutable m,
          rmOutputDirectoryDigests = mOutputDirectoryDigests m\<rparr>)"

definition read_digest :: "(string \<Rightarrow> string option) \<Rightarrow> string \<Rightarrow> string \<Rightarrow> string" where
  "read_digest parse zero s = (case parse s of Some d \<Rightarrow> d | None \<Rightarrow> zero)"

definition CommandRemoteMetadataFromProto :: "(string \<Rightarrow> string option) \<Rightarrow> string \<Rightarrow> remote_metadata \<Rightarrow> sdk_metadata" where
  "CommandRemoteMetadataFromProto parse zero p =
     \<lparr>mInputFiles = rmNumInputFiles p, mInputDirectories = rmNumInputDirectories p, mTotalInputBytes = rmTotalInputBytes p,
      mOutputFiles = 0, mOutputDirectories = 0, mTotalOutputBytes = 0,
      mCommandDigest = read_digest parse zero (rmCommandDigest p), mActionDigest = read_digest parse zero (rmActionDigest p),
      mStderrDigest = read_digest parse zero (rmStderrDigest p), mStdoutDigest = read_digest parse zero (rmStdoutDigest p),
      mLogicalBytesUploaded = rmLogicalBytesUploaded p, mRealBytesUploaded = rmRealBytesUploaded p,
      mLogicalBytesDownloaded = rmLogicalBytesDownloaded p, mRealBytesDownloaded = rmRealBytesDownloaded p,
      mEventTimes = rmEventTimes p, mOutputFileDigests = Map.empty, mOutputFileIsExecutable = Map.empty,
      mOutputDirectoryDigests = Map.empty, mAuxiliary = []\<rparr>"

text \<open>Metadata read back from a record agrees in everything but what concerns outputs and auxiliary
  messages, which the conversion leaves out.\<close>

theorem metadata_roundtrip:
  assumes "mInputFiles m \<in> {- (2 ^ 31) ..< 2 ^ 31}" and "mInputDirectories m \<in> {- (2 ^ 31) ..< 2 ^ 31}"
    and "list_all (\<lambda>d. parse d = Some d) [mCommandDigest m, mActionDigest m, mStderrDigest m, mStdoutDigest m]"
  shows "CommandRemoteMetadataFromProto parse zero (CommandRemoteMetadataToProto flat (Some m)) =
    m\<lparr>mOutputFiles := 0, mOutputDirectories := 0, mTotalOutputBytes := 0, mOutputFileDigests := Map.empty,
      mOutputFileIsExecutable := Map.empty, mOutputDirectoryDigests := Map.empty, mAuxiliary := []\<rparr>"
proof -
  have "int32 x = x" if "x \<in> {- (2 ^ 31) ..< 2 ^ 31}" for x
    using that signed_take_bit_int_eq_self [of 31 x] by (simp add: int32_def)
  then show ?thesis
    using assms by (simp add: CommandRemoteMetadataFromProto_def CommandRemoteMetadataToProto_def read_digest_def)
qed

theorem metadata_roundtrip_witness:
  "mInputFiles (CommandRemoteMetadataFromProto Some [] (CommandRemoteMetadataToProto None
     (Some ((CommandRemoteMetadataFromProto Some [] empty_remote_metadata)\<lparr>mOutputFiles := 3, mInputFiles := 5\<rparr>)))) = 5"
proof -
  let ?m = "(CommandRemoteMetadataFromProto Some [] empty_remote_metadata)\<lparr>mOutputFiles := 3, mInputFiles := 5\<rparr>"
  have "mInputFiles ?m \<in> {- (2 ^ 31) ..< 2 ^ 31}" "mInputDirectories ?m \<in> {- (2 ^ 31) ..< 2 ^ 31}"
    by (simp_all add: CommandRemoteMetadataFromProto_def empty_remote_metadata_def)
  then show ?thesis using metadata_roundtrip [of ?m Some "[]" None] by simp
qed

section \<open>Logs of several directories\<close>

text \<open>File names match \<open>reproxy.*\<close> followed by a suffix, anywhere in the name.\<close>

fun re_lit :: "string \<Rightarrow> re" where
  "re_lit [] = Rep True 0 (Some 0) (\<lambda>_. True)"
| "re_lit (c # s) = Cat (re_char c) (re_lit s)"

definition log_name :: "string \<Rightarrow> string \<Rightarrow> bool" where
  "log_name sfx name \<longleftrightarrow> find_first (Cat (re_lit ''reproxy'') (Cat (Rep True 0 None re_dot) (re_lit sfx))) name \<noteq> None"

definition ParseFromFormatFile :: "(string \<Rightarrow> log_record option) \<Rightarrow> (string \<Rightarrow> string option) \<Rightarrow> string \<Rightarrow> log_record list option" where
  "ParseFromFormatFile unmarshal readFile formatfile =
     (case ParseFilepath formatfile of Ok (f, p) \<Rightarrow> ParseFromFile unmarshal f (readFile p) | _ \<Rightarrow> None)"

text \<open>The files of one directory, in the order they are listed.\<close>

fun read_children ::
  "(string \<Rightarrow> log_record option) \<Rightarrow> (string \<Rightarrow> 'i option) \<Rightarrow> (string \<Rightarrow> string option) \<Rightarrow> Format \<Rightarrow> string \<Rightarrow> string list \<Rightarrow>
   bool \<times> log_record list \<times> 'i list \<Rightarrow> (bool \<times> log_record list \<times> 'i list) option" where
  "read_children unmarshal unmarshalInfo readFile f dir [] acc = Some acc"
| "read_children unmarshal unmarshalInfo readFile f dir (c # cs) acc =
     (case acc of (found, recs, infos) \<Rightarrow>
      if log_name (logFileSuffix f) c then
        (case ParseFromFile unmarshal f (readFile (Join [dir, c])) of
           None \<Rightarrow> None
         | Some rs \<Rightarrow> read_children unmarshal unmarshalInfo readFile f dir cs (True, recs @ rs, infos))
      else if log_name ''rpi'' c then
        (case Option.bind (readFile (Join [dir, c])) unmarshalInfo of
           None \<Rightarrow> None
         | Some i \<Rightarrow> read_children unmarshal unmarshalInfo readFile f dir cs (found, recs, infos @ [i]))
      else read_children unmarshal unmarshalInfo readFile f dir cs acc)"

fun read_dirs ::
  "(string \<Rightarrow> log_record option) \<Rightarrow> (string \<Rightarrow> 'i option) \<Rightarrow> (string \<Rightarrow> string option) \<Rightarrow> (string \<Rightarrow> string list option) \<Rightarrow> Format \<Rightarrow>
   string list \<Rightarrow> bool \<times> log_record list \<times> 'i list \<Rightarrow> (bool \<times> log_record list \<times> 'i list) option" where
  "read_dirs unmarshal unmarshalInfo readFile readDir f [] acc = Some acc"
| "read_dirs unmarshal unmarshalInfo readFile readDir f (d # ds) acc =
     (let dir = (if d = [] then ''.'' else d) in
      case readDir dir of
        None \<Rightarrow> None
      | Some cs \<Rightarrow>
         (case read_children unmarshal unmarshalInfo readFile f dir cs acc of
            None \<Rightarrow> None
          | Some acc' \<Rightarrow> read_dirs unmarshal unmarshalInfo readFile readDir f ds acc'))"

definition ParseFromLogDirs ::
  "(string \<Rightarrow> log_record option) \<Rightarrow> (string \<Rightarrow> 'i option) \<Rightarrow> (string \<Rightarrow> string option) \<Rightarrow> (string \<Rightarrow> string list option) \<Rightarrow> Format \<Rightarrow>
   string list \<Rightarrow> (log_record list \<times> 'i list) option" where
  "ParseFromLogDirs unmarshal unmarshalInfo readFile readDir f logDirs =
     (case read_dirs unmarshal unmarshalInfo readFile readDir f logDirs (False, [], []) of
        Some (True, recs, infos) \<Rightarrow> Some (recs, infos)
      | _ \<Rightarrow> None)"

text \<open>The paths of the log files of the directories in order.\<close>

definition dir_of_flag :: "string \<Rightarrow> string" where
  "dir_of_flag d = (if d = [] then ''.'' else d)"

definition log_files :: "(string \<Rightarrow> string list option) \<Rightarrow> Format \<Rightarrow> string list \<Rightarrow> string list" where
  "log_files readDir f dirs =
     concat (map (\<lambda>d. map (\<lambda>c. Join [dir_of_flag d, c]) (filter (log_name (logFileSuffix f)) (the (readDir (dir_of_flag d))))) dirs)"

lemma read_children_recs:
  "read_children unmarshal unmarshalInfo readFile f dir cs (found, recs, infos) = Some (found', recs', infos') \<Longrightarrow>
   \<exists>rss. map (\<lambda>c. ParseFromFile unmarshal f (readFile (Join [dir, c]))) (filter (log_name (logFileSuffix f)) cs) = map Some rss \<and>
     recs' = recs @ concat rss \<and> found' = (found \<or> rss \<noteq> [])"
proof (induction cs arbitrary: found recs infos)
  case (Cons c cs)
  consider (rec) rs where "log_name (logFileSuffix f) c" "ParseFromFile unmarshal f (readFile (Join [dir, c])) = Some rs"
      "read_children unmarshal unmarshalInfo readFile f dir cs (True, recs @ rs, infos) = Some (found', recs', infos')"
    | (info) i where "\<not> log_name (logFileSuffix f) c" "read_children unmarshal unmarshalInfo readFile f dir cs (found, recs, i) = Some (found', recs', infos')"
    using Cons.prems by (auto split: if_splits option.splits)
  then show ?case
  proof cases
    case rec
    from Cons.IH [OF rec(3)] obtain rss where "map (\<lambda>c. ParseFromFile unmarshal f (readFile (Join [dir, c]))) (filter (log_name (logFileSuffix f)) cs) = map Some rss"
      "recs' = (recs @ rs) @ concat rss" "found'" by auto
    then show ?thesis using rec by (intro exI [of _ "rs # rss"]) simp
  next
    case info
    from Cons.IH [OF info(2)] show ?thesis using info(1) by simp
  qed
qed simp

text \<open>Reading the logs of several directories gives the records of all their log files in order,
  and fails unless there is such a file.\<close>

theorem ParseFromLogDirs_records:
  assumes "ParseFromLogDirs unmarshal unmarshalInfo readFile readDir f logDirs = Some (recs, infos)"
  shows "\<exists>rss. rss \<noteq> [] \<and> map (\<lambda>p. ParseFromFile unmarshal f (readFile p)) (log_files readDir f logDirs) = map Some rss \<and> recs = concat rss"
proof -
  have gen: "\<exists>rss. map (\<lambda>p. ParseFromFile unmarshal f (readFile p)) (log_files readDir f ds) = map Some rss \<and>
      recs' = recs @ concat rss \<and> found' = (found \<or> rss \<noteq> [])"
    if "read_dirs unmarshal unmarshalInfo readFile readDir f ds (found, recs, infos) = Some (found', recs', infos')" for ds found recs infos found' recs' infos'
    using that
  proof (induction ds arbitrary: found recs infos)
    case Nil
    then show ?case by (simp add: log_files_def)
  next
    case (Cons d ds)
    obtain cs fnd rs i where cs: "readDir (dir_of_flag d) = Some cs"
      "read_children unmarshal unmarshalInfo readFile f (dir_of_flag d) cs (found, recs, infos) = Some (fnd, rs, i)"
      "read_dirs unmarshal unmarshalInfo readFile readDir f ds (fnd, rs, i) = Some (found', recs', infos')"
      using Cons.prems by (auto simp: Let_def dir_of_flag_def split: option.splits)
    obtain rss1 where r1: "map (\<lambda>c. ParseFromFile unmarshal f (readFile (Join [dir_of_flag d, c]))) (filter (log_name (logFileSuffix f)) cs) = map Some rss1"
      "rs = recs @ concat rss1" "fnd = (found \<or> rss1 \<noteq> [])" using read_children_recs [OF cs(2)] by blast
    obtain rss2 where r2: "map (\<lambda>p. ParseFromFile unmarshal f (readFile p)) (log_files readDir f ds) = map Some rss2"
      "recs' = rs @ concat rss2" "found' = (fnd \<or> rss2 \<noteq> [])" using Cons.IH [OF cs(3)] by blast
    show ?case using r1 r2 cs(1) by (intro exI [of _ "rss1 @ rss2"]) (auto simp: log_files_def comp_def)
  qed
  obtain i where "read_dirs unmarshal unmarshalInfo readFile readDir f logDirs (False, [], []) = Some (True, recs, i)"
    using assms by (auto simp: ParseFromLogDirs_def split: option.splits bool.splits)
  from gen [OF this] show ?thesis by auto
qed

text \<open>With the text format the pattern also takes the files of the reduced format.\<close>

lemma text_pattern_takes_reduced: "log_name (logFileSuffix TextFormat) ''reproxy_1.rrpl''"
  by code_simp

end
