(* ===== verification/BigQuery.thy ===== *)
theory BigQuery
  imports Prelude
begin

text \<open>
  Upload of log records to BigQuery (\<open>internal/pkg/bigquery\<close>, \<open>internal/pkg/bigquerytranslator\<close>):
  table names, batches of bounded size, the classification of errors and the counts, and the
  translation of a record to nested values. The encoded size of a record, the inserter and the
  order in which maps are visited are arguments.
\<close>

section \<open>Table names\<close>

definition spec_err :: string where
  "spec_err = ''bigquery resource spec should have form <project>:<dataset>.<table> or <dataset>.<table>''"

definition table_of :: "string \<Rightarrow> string \<Rightarrow> (string, string \<times> string \<times> string) res" where
  "table_of project spec =
     (if project = [] then Err ''project not specified''
      else case split_on (CHR ''.'') spec of [d, t] \<Rightarrow> Ok (project, d, t) | _ \<Rightarrow> Err spec_err)"

definition parseResourceSpec :: "string \<Rightarrow> string \<Rightarrow> (string, string \<times> string \<times> string) res" where
  "parseResourceSpec spec defaultProject =
     (if CHR '':'' \<in> set spec then
        (case split_on (CHR '':'') spec of [p, s] \<Rightarrow> table_of p s | _ \<Rightarrow> Err spec_err)
      else table_of defaultProject spec)"

section \<open>Batches\<close>

definition MaxUploadSize :: int where
  "MaxUploadSize = 8 * 1000 * 1000"

definition batch_limit :: "int \<Rightarrow> int" where
  "batch_limit batchSizeMB =
     (let bytes = batchSizeMB * 1000 * 1000 in if bytes > MaxUploadSize then MaxUploadSize else bytes)"

text \<open>The loop over the channel of items up to its end: the batches sent. \<^const>\<open>None\<close> as size is an
  item that cannot be encoded.\<close>

fun batch_loop :: "('i \<Rightarrow> int option) \<Rightarrow> int \<Rightarrow> 'i list \<Rightarrow> 'i list \<Rightarrow> int \<Rightarrow> 'i list list" where
  "batch_loop bytes limit [] buffer bufferSize = [buffer]"
| "batch_loop bytes limit (i # items) buffer bufferSize =
     (case bytes i of
        None \<Rightarrow> batch_loop bytes limit items buffer bufferSize
      | Some n \<Rightarrow>
         if n > limit then batch_loop bytes limit items buffer bufferSize
         else if n + bufferSize > limit then buffer # batch_loop bytes limit items [i] n
         else batch_loop bytes limit items (buffer @ [i]) (bufferSize + n))"

definition batch :: "('i \<Rightarrow> int option) \<Rightarrow> int \<Rightarrow> 'i list \<Rightarrow> 'i list list" where
  "batch bytes batchSizeMB items = batch_loop bytes (batch_limit batchSizeMB) items [] 0"

section \<open>Upload\<close>

datatype bq_error = ApiError int | OtherBqError

datatype retry_action = Succeed | Retry | Fail

definition Classify :: "bq_error option \<Rightarrow> retry_action" where
  "Classify err =
     (case err of
        None \<Rightarrow> Succeed
      | Some (ApiError code) \<Rightarrow> if code = 500 \<or> code = 503 then Retry else Fail
      | Some OtherBqError \<Rightarrow> Fail)"

text \<open>The workers, their peak and the counts; a fatal error is kept and stops further records.\<close>

record bq_state =
  bqErr :: bool
  bqRunning :: int
  bqPeak :: int
  bqSuccess :: int
  bqFailed :: int

definition increaseWorkerNum :: "bq_state \<Rightarrow> bq_state" where
  "increaseWorkerNum s = s\<lparr>bqRunning := bqRunning s + 1, bqPeak := max (bqPeak s) (bqRunning s + 1)\<rparr>"

definition decreaseWorkerNum :: "bq_state \<Rightarrow> bq_state" where
  "decreaseWorkerNum s = s\<lparr>bqRunning := bqRunning s - 1\<rparr>"

definition GetPeakWorkers :: "bq_state \<Rightarrow> int \<times> bq_state" where
  "GetPeakWorkers s = (bqPeak s, s\<lparr>bqPeak := 0\<rparr>)"

text \<open>What the retrier of the library reports for a batch is an argument: the error it ends with, if
  any, and the results it asked the classifier about, each of which may store the fatal error.\<close>

type_synonym retried = "bq_error option \<times> bq_error option list"

definition uploadWithRetry :: "retried \<Rightarrow> 'i list \<Rightarrow> bq_state \<Rightarrow> bq_state" where
  "uploadWithRetry r items s =
     (let s1 = s\<lparr>bqErr := bqErr s \<or> Fail \<in> set (map Classify (snd r))\<rparr> in
      case fst r of
        Some e \<Rightarrow> s1\<lparr>bqFailed := bqFailed s1 + int (length items)\<rparr>
      | None \<Rightarrow> s1\<lparr>bqSuccess := bqSuccess s1 + int (length items)\<rparr>)"

text \<open>The end of one worker. The workers of all batches interleave: a schedule starts each when its
  batch arrives and ends it some time later.\<close>

definition upload_worker :: "retried \<times> 'i list \<Rightarrow> bq_state \<Rightarrow> bq_state" where
  "upload_worker w s = decreaseWorkerNum (uploadWithRetry (fst w) (snd w) s)"

datatype 'i up_event = WStart | WEnd "retried \<times> 'i list"

fun up_apply :: "'i up_event \<Rightarrow> bq_state \<Rightarrow> bq_state" where
  "up_apply WStart s = increaseWorkerNum s"
| "up_apply (WEnd w) s = upload_worker w s"

definition upload :: "'i up_event list \<Rightarrow> bq_state \<Rightarrow> bq_state" where
  "upload events s = fold up_apply events s"

definition LogRecordsToBigQuery ::
  "('i \<Rightarrow> int option) \<Rightarrow> int \<Rightarrow> ('i list \<Rightarrow> retried) \<Rightarrow> ((retried \<times> 'i list) list \<Rightarrow> 'i up_event list) \<Rightarrow> 'i list \<Rightarrow> bq_state \<Rightarrow> bq_state" where
  "LogRecordsToBigQuery bytes batchSizeMB retrier schedule items s =
     upload (schedule (map (\<lambda>b. (retrier b, b)) (batch bytes batchSizeMB items))) s"

text \<open>A schedule of workers starts and ends every one of them once.\<close>

definition ends_of :: "'i up_event list \<Rightarrow> (retried \<times> 'i list) list" where
  "ends_of evs = concat (map (\<lambda>e. case e of WEnd w \<Rightarrow> [w] | WStart \<Rightarrow> []) evs)"

definition schedules :: "((retried \<times> 'i list) list \<Rightarrow> 'i up_event list) \<Rightarrow> bool" where
  "schedules schedule \<longleftrightarrow> (\<forall>ws. mset (ends_of (schedule ws)) = mset ws \<and> count_list (schedule ws) WStart = length ws)"

section \<open>What batches hold\<close>

definition fits :: "('i \<Rightarrow> int option) \<Rightarrow> int \<Rightarrow> 'i \<Rightarrow> bool" where
  "fits bytes limit i \<longleftrightarrow> (case bytes i of None \<Rightarrow> False | Some n \<Rightarrow> n \<le> limit)"

definition total :: "('i \<Rightarrow> int option) \<Rightarrow> 'i list \<Rightarrow> int" where
  "total bytes is = sum_list (map (\<lambda>i. the (bytes i)) is)"

lemma batch_loop_holds:
  assumes "total bytes buffer = bufferSize" and "bufferSize \<le> limit"
  shows "concat (batch_loop bytes limit items buffer bufferSize) = buffer @ filter (fits bytes limit) items \<and>
    (\<forall>b \<in> set (batch_loop bytes limit items buffer bufferSize). total bytes b \<le> limit)"
  using assms
  by (induction bytes limit items buffer bufferSize rule: batch_loop.induct)
    (auto simp: fits_def total_def split: option.splits)

lemma batch_loop_nonempty:
  assumes "buffer = [] \<longrightarrow> bufferSize = 0" and "b \<in> set (butlast (batch_loop bytes limit items buffer bufferSize))"
  shows "b \<noteq> []"
  using assms
  by (induction bytes limit items buffer bufferSize rule: batch_loop.induct)
    (auto split: option.splits if_splits)

text \<open>The batches hold, in order, exactly the records that can be encoded and fit; none is larger
  than the limit and none but the last is empty.\<close>

theorem batch_exact:
  assumes "0 \<le> batchSizeMB"
  shows "concat (batch bytes batchSizeMB items) = filter (fits bytes (batch_limit batchSizeMB)) items \<and>
    list_all (\<lambda>b. total bytes b \<le> batch_limit batchSizeMB \<and> total bytes b \<le> MaxUploadSize) (batch bytes batchSizeMB items) \<and>
    [] \<notin> set (butlast (batch bytes batchSizeMB items))"
proof -
  have l: "0 \<le> batch_limit batchSizeMB" "batch_limit batchSizeMB \<le> MaxUploadSize"
    using assms by (auto simp: batch_limit_def MaxUploadSize_def Let_def)
  note h = batch_loop_holds [of bytes "[]" 0 "batch_limit batchSizeMB" items]
  note e = batch_loop_nonempty [of "[]" 0 _ bytes "batch_limit batchSizeMB" items]
  show ?thesis using h e l by (fastforce simp: batch_def total_def list_all_iff)
qed

theorem batch_exact_witness:
  "concat (batch (\<lambda>n. if n = 5 then None else Some (int n * 1000000)) 4 [1, 5, 2, 9, 3, 1 :: nat]) = [1, 2, 3, 1]"
proof -
  let ?b = "\<lambda>n. if n = 5 then None else Some (int n * 1000000)"
  have "concat (batch ?b 4 [1, 5, 2, 9, 3, 1]) = filter (fits ?b (batch_limit 4)) [1, 5, 2, 9, 3, 1]"
    using batch_exact [of 4 ?b "[1, 5, 2, 9, 3, 1]"] by simp
  also have "\<dots> = [1, 2, 3, 1]" by code_simp
  finally show ?thesis .
qed

section \<open>Counts\<close>

lemma upload_counts:
  "bqSuccess (upload evs s) + bqFailed (upload evs s) = bqSuccess s + bqFailed s + int (length (concat (map snd (ends_of evs)))) \<and>
   bqRunning (upload evs s) = bqRunning s + int (count_list evs WStart) - int (length (ends_of evs)) \<and>
   (bqErr (upload evs s) \<longleftrightarrow> bqErr s \<or> (\<exists>w \<in> set (ends_of evs). Fail \<in> set (map Classify (snd (fst w)))))"
  unfolding upload_def
proof (induction evs arbitrary: s)
  case (Cons e evs)
  show ?case
  proof (cases e)
    case WStart
    then show ?thesis using Cons.IH [of "up_apply e s"] by (simp add: ends_of_def increaseWorkerNum_def)
  next
    case (WEnd w)
    then show ?thesis
      using Cons.IH [of "up_apply e s"]
      by (cases "fst (fst w)") (auto simp: ends_of_def upload_worker_def uploadWithRetry_def decreaseWorkerNum_def Let_def)
  qed
qed (simp add: ends_of_def)

text \<open>C34: Every record that fits is counted once, as uploaded or as failed, however the workers
  interleave; records that do not fit are not counted. No worker is left, and a fatal error is
  kept exactly if the retrier met one.\<close>

theorem uploads_counted:
  assumes "0 \<le> batchSizeMB" and "schedules schedule"
  shows "let s' = LogRecordsToBigQuery bytes batchSizeMB retrier schedule items s in
    bqSuccess s' + bqFailed s' = bqSuccess s + bqFailed s + int (length (filter (fits bytes (batch_limit batchSizeMB)) items)) \<and>
    bqRunning s' = bqRunning s \<and>
    (bqErr s' \<longleftrightarrow> bqErr s \<or> (\<exists>b \<in> set (batch bytes batchSizeMB items). Fail \<in> set (map Classify (snd (retrier b)))))"
proof -
  define ws where "ws = map (\<lambda>b. (retrier b, b)) (batch bytes batchSizeMB items)"
  have m: "mset (ends_of (schedule ws)) = mset ws" "count_list (schedule ws) WStart = length ws"
    using assms(2) by (auto simp: schedules_def)
  have o: "length (ends_of (schedule ws)) = length ws" "set (ends_of (schedule ws)) = set ws"
    using m(1) by (metis size_mset, metis set_mset_mset)
  have "length (concat (map snd (ends_of (schedule ws)))) = sum_mset (image_mset (\<lambda>w. length (snd w)) (mset (ends_of (schedule ws))))"
    by (simp add: length_concat comp_def sum_mset_sum_list [symmetric])
  also have "\<dots> = length (concat (map snd ws))" unfolding m by (simp add: length_concat comp_def sum_mset_sum_list [symmetric])
  also have "concat (map snd ws) = concat (batch bytes batchSizeMB items)" by (simp add: ws_def comp_def)
  also have "\<dots> = filter (fits bytes (batch_limit batchSizeMB)) items"
    using batch_loop_holds [of bytes "[]" 0 "batch_limit batchSizeMB" items] assms(1)
    by (simp add: batch_def total_def batch_limit_def MaxUploadSize_def Let_def)
  finally have n: "length (concat (map snd (ends_of (schedule ws)))) = length (filter (fits bytes (batch_limit batchSizeMB)) items)" .
  show ?thesis
    unfolding LogRecordsToBigQuery_def Let_def ws_def [symmetric]
    using upload_counts [of "schedule ws" s] m(2) o n by (auto simp: ws_def)
qed

definition one_by_one :: "(retried \<times> 'i list) list \<Rightarrow> 'i up_event list" where
  "one_by_one ws = concat (map (\<lambda>w. [WStart, WEnd w]) ws)"

lemma one_by_one_events: "ends_of (one_by_one ws) = ws \<and> count_list (one_by_one ws) WStart = length ws"
  by (induction ws) (auto simp: one_by_one_def ends_of_def)

lemma one_by_one_schedules: "schedules one_by_one"
  using one_by_one_events by (auto simp: schedules_def)

theorem uploads_counted_witness:
  "let s' = LogRecordsToBigQuery (\<lambda>n. if n = 5 then None else Some (int n * 1000000)) 4 (\<lambda>b. if b = [3, 1] then (Some (ApiError 404), [Some (ApiError 404)]) else (None, [None]))
       one_by_one [1, 5, 2, 9, 3, 1 :: nat] \<lparr>bqErr = False, bqRunning = 0, bqPeak = 0, bqSuccess = 0, bqFailed = 0\<rparr> in
   bqSuccess s' + bqFailed s' = 4 \<and> bqRunning s' = 0 \<and> bqErr s'"
proof -
  let ?b = "\<lambda>n. if n = 5 then None else Some (int n * 1000000)"
  let ?r = "\<lambda>b. if b = [3, 1] then (Some (ApiError 404), [Some (ApiError 404)]) else (None, [None])"
  have "length (filter (fits ?b (batch_limit 4)) [1, 5, 2, 9, 3, 1 :: nat]) = 4"
    "list_ex (\<lambda>b. Fail \<in> set (map Classify (snd (?r b)))) (batch ?b 4 [1, 5, 2, 9, 3, 1 :: nat])" by code_simp+
  then show ?thesis
    using uploads_counted [of 4 one_by_one ?b ?r "[1, 5, 2, 9, 3, 1 :: nat]" "\<lparr>bqErr = False, bqRunning = 0, bqPeak = 0, bqSuccess = 0, bqFailed = 0\<rparr>"]
      one_by_one_schedules by (auto simp: Let_def list_ex_iff)
qed

text \<open>The peak is set back to zero and not to the workers that run, so a sample in which no worker
  starts reports none.\<close>

lemma peak_reset_below_running: "0 < bqRunning s \<Longrightarrow> fst (GetPeakWorkers (snd (GetPeakWorkers s))) < bqRunning s"
  by (simp add: GetPeakWorkers_def)

section \<open>Resource names\<close>

lemma split_on_two: "split_on c s = [a, b] \<longleftrightarrow> s = a @ c # b \<and> c \<notin> set a \<and> c \<notin> set b"
proof
  assume "split_on c s = [a, b]"
  then show "s = a @ c # b \<and> c \<notin> set a \<and> c \<notin> set b"
    using join_split [of c s] split_on_elems [of _ c s] by auto
qed (simp add: split_on_append split_on_notin)

text \<open>A table is named exactly by the two documented forms.\<close>

theorem parseResourceSpec_forms:
  "parseResourceSpec spec defaultProject = Ok (project, dataset, table) \<longleftrightarrow>
     project \<noteq> [] \<and> CHR ''.'' \<notin> set dataset \<and> CHR ''.'' \<notin> set table \<and> CHR '':'' \<notin> set (dataset @ table) \<and>
     (spec = project @ '':'' @ dataset @ ''.'' @ table \<and> CHR '':'' \<notin> set project \<or>
      spec = dataset @ ''.'' @ table \<and> project = defaultProject)"
proof -
  have t: "table_of p x = Ok (project, dataset, table) \<longleftrightarrow>
      p \<noteq> [] \<and> p = project \<and> x = dataset @ CHR ''.'' # table \<and> CHR ''.'' \<notin> set dataset \<and> CHR ''.'' \<notin> set table" for x p
    using split_on_two [of "CHR ''.''" x dataset table] by (auto simp: table_of_def split: list.splits)
  show ?thesis
  proof (cases "CHR '':'' \<in> set spec")
    case True
    show ?thesis
    proof (cases "\<exists>a b. split_on (CHR '':'') spec = [a, b]")
      case two: True
      then obtain a b where ab: "split_on (CHR '':'') spec = [a, b]" by blast
      then have s: "spec = a @ CHR '':'' # b" "CHR '':'' \<notin> set a" "CHR '':'' \<notin> set b"
        using split_on_two [of "CHR '':''" spec a b] by simp_all
      have u: "a @ CHR '':'' # b = project @ CHR '':'' # x \<longleftrightarrow> a = project \<and> b = x" for x
        by (rule append_Cons_eq_iff [OF s(2,3)])
      have l: "parseResourceSpec spec defaultProject = Ok (project, dataset, table) \<longleftrightarrow>
          a \<noteq> [] \<and> a = project \<and> b = dataset @ CHR ''.'' # table \<and> CHR ''.'' \<notin> set dataset \<and> CHR ''.'' \<notin> set table"
        using ab True t by (simp add: parseResourceSpec_def)
      have "spec = project @ '':'' @ dataset @ ''.'' @ table \<longleftrightarrow> a = project \<and> b = dataset @ CHR ''.'' # table"
        using u s(1) by simp
      moreover have "CHR '':'' \<in> set (dataset @ table)" if "spec = dataset @ ''.'' @ table" using True that by auto
      ultimately show ?thesis using l s(2,3) by auto
    next
      case False
      have "\<not> (spec = project @ '':'' @ dataset @ ''.'' @ table \<and> CHR '':'' \<notin> set project \<and> CHR '':'' \<notin> set (dataset @ table))"
        using False split_on_two [of "CHR '':''" spec project "dataset @ ''.'' @ table"] by auto
      then show ?thesis using True False by (auto simp: parseResourceSpec_def split: list.splits)
    qed
  next
    case False
    then show ?thesis using t by (auto simp: parseResourceSpec_def)
  qed
qed

section \<open>Records as values\<close>

datatype bqv = VStr string | VInt int | VBool bool | VTime int | VStrs "string list" | VList "bqv list" | VRec "(string \<times> bqv) list"

text \<open>A proto map: its entries in the order they are visited. The keys are sorted, each value is
  looked up.\<close>

definition sorted_kvs :: "('v \<Rightarrow> bqv) \<Rightarrow> (string \<times> 'v) list \<Rightarrow> bqv" where
  "sorted_kvs f es =
     VList (map (\<lambda>k. VRec [(''key'', VStr k), (''value'', f (the (map_of es k)))]) (sort (map fst es)))"

type_synonym bq_interval = "int option \<times> int option"

definition interval_value :: "bq_interval \<Rightarrow> bqv" where
  "interval_value i = (case i of (Some f, Some t) \<Rightarrow> VRec [(''from'', VTime f), (''to'', VTime t)] | _ \<Rightarrow> VRec [])"

record bq_virtual =
  bvPath :: string
  bvContents :: string
  bvExecutable :: bool
  bvEmptyDir :: bool

record bq_input =
  biInputs :: "string list"
  biVirtual :: "bq_virtual list"
  biExclude :: "(string \<times> int) list"
  biEnv :: "(string \<times> string) list"

record bq_result =
  brStatus :: int
  brExitCode :: int
  brMsg :: string

record bq_remote =
  bmResult :: bq_result
  bmCacheHit :: bool
  bmNumbers :: "(string \<times> int) list"
  bmDigests :: "(string \<times> string) list"
  bmEventTimes :: "(string \<times> bq_interval) list"
  bmOutputFiles :: "(string \<times> string) list"
  bmOutputDirs :: "(string \<times> string) list"

record bq_mismatch =
  bxPath :: string
  bxRemote :: "string list"
  bxLocal :: "string list"
  bxDeterminism :: int

record bq_local =
  blResult :: bq_result
  blExecutedLocally :: bool
  blValidCacheHit :: bool
  blUpdatedCache :: bool
  blMismatches :: "bq_mismatch list"
  blTotalMismatches :: int
  blTotalVerified :: int
  blEventTimes :: "(string \<times> bq_interval) list"
  blEnvironment :: "(string \<times> string) list"
  blLabels :: "(string \<times> string) list"

record bq_record =
  bcIdentifiers :: "(string \<times> string) list"
  bcExecutionId :: string
  bcExecRoot :: string
  bcInput :: bq_input
  bcOutputFiles :: "string list"
  bcOutputDirs :: "string list"
  bcArgs :: "string list"
  bcTimeout :: int
  bcWorkingDirectory :: string
  bcPlatform :: "(string \<times> string) list"
  bcResult :: bq_result
  bcRemote :: bq_remote
  bcLocal :: bq_local
  bcCompletionStatus :: int

text \<open>A missing message reads as one with default fields, as the getters do.\<close>

definition bq_platform :: "(string \<times> string) list \<Rightarrow> bqv" where
  "bq_platform p = sorted_kvs VStr p"

definition collectInputs :: "bq_input \<Rightarrow> bqv" where
  "collectInputs i =
     VRec [(''inputs'', VStrs (biInputs i)),
           (''virtual_inputs'', VList (map (\<lambda>v. VRec [(''path'', VStr (bvPath v)), (''contents'', VStr (bvContents v)),
              (''is_executable'', VBool (bvExecutable v)), (''is_empty_directory'', VBool (bvEmptyDir v))]) (biVirtual i))),
           (''exclude_inputs'', VList (map (\<lambda>(r, t). VRec [(''regex'', VStr r), (''type'', VInt t)]) (biExclude i))),
           (''environment_variables'', sorted_kvs VStr (biEnv i))]"

definition collectOutputs :: "string list \<Rightarrow> string list \<Rightarrow> bqv" where
  "collectOutputs files dirs =
     VRec ((if files = [] then [] else [(''output_files'', VStrs files)]) @
           (if dirs = [] then [] else [(''output_directories'', VStrs dirs)]))"

definition collectResult :: "bq_result \<Rightarrow> bqv" where
  "collectResult r = VRec [(''status'', VInt (brStatus r)), (''exit_code'', VInt (brExitCode r)), (''msg'', VStr (brMsg r))]"

text \<open>\<open>bmNumbers\<close> and \<open>bmDigests\<close> are the plain counts and digests under their column names.\<close>

definition collectRemoteMetadata :: "bq_remote \<Rightarrow> bqv" where
  "collectRemoteMetadata m =
     VRec ([(''result'', collectResult (bmResult m)), (''cache_hit'', VBool (bmCacheHit m))] @
           map (map_prod id VInt) (bmNumbers m) @ map (map_prod id VStr) (bmDigests m) @
           [(''event_times'', sorted_kvs interval_value (bmEventTimes m)),
            (''output_file_digests'', sorted_kvs VStr (bmOutputFiles m)),
            (''output_directory_digests'', sorted_kvs VStr (bmOutputDirs m))])"

definition collectLocalMetadata :: "bq_local \<Rightarrow> bqv" where
  "collectLocalMetadata m =
     VRec [(''result'', collectResult (blResult m)), (''executed_locally'', VBool (blExecutedLocally m)),
           (''valid_cache_hit'', VBool (blValidCacheHit m)), (''updated_cache'', VBool (blUpdatedCache m)),
           (''verification'', VRec [
              (''mismatches'', VList (map (\<lambda>x. VRec [(''path'', VStr (bxPath x)), (''remote_digests'', VStrs (bxRemote x)),
                 (''local_digests'', VStrs (bxLocal x)), (''determinism'', VInt (bxDeterminism x))]) (blMismatches m))),
              (''total_mismatches'', VInt (blTotalMismatches m)), (''total_verified'', VInt (blTotalVerified m))]),
           (''event_times'', sorted_kvs interval_value (blEventTimes m)),
           (''environment'', sorted_kvs VStr (blEnvironment m)), (''labels'', sorted_kvs VStr (blLabels m))]"

definition Save :: "bq_record \<Rightarrow> bqv \<times> string" where
  "Save r =
     (VRec [(''command'', VRec [
               (''identifiers'', VRec (map (map_prod id VStr) (bcIdentifiers r))), (''exec_root'', VStr (bcExecRoot r)),
               (''input'', collectInputs (bcInput r)), (''output'', collectOutputs (bcOutputFiles r) (bcOutputDirs r)),
               (''args'', VStrs (bcArgs r)), (''execution_timeout'', VInt (bcTimeout r)),
               (''working_directory'', VStr (bcWorkingDirectory r)), (''platform'', bq_platform (bcPlatform r))]),
            (''result'', collectResult (bcResult r)), (''remote_metadata'', collectRemoteMetadata (bcRemote r)),
            (''local_metadata'', collectLocalMetadata (bcLocal r)), (''completion_status'', VInt (bcCompletionStatus r))],
      bcExecutionId r)"

text \<open>The value of a map does not depend on the order in which it is visited, and determines the
  map.\<close>

lemma sorted_kvs_order:
  assumes "map_entries m es" and "map_entries m es'"
  shows "sorted_kvs f es = sorted_kvs f es'"
proof -
  have "sort (map fst es) = sort (map fst es')"
    using map_entries_perm [OF assms] by (metis mset_map properties_for_sort sorted_sort mset_sort)
  then show ?thesis using assms by (simp add: sorted_kvs_def map_entries_def)
qed

lemma sorted_kvs_inj:
  assumes "map_entries m es" and "map_entries m' es'" and "sorted_kvs f es = sorted_kvs f es'" and "inj f"
  shows "m = m'"
proof -
  let ?row = "\<lambda>e k. VRec [(''key'', VStr k), (''value'', f (the (map_of e k)))]"
  have rows: "map (?row es) (sort (map fst es)) = map (?row es') (sort (map fst es'))"
    using assms(3) by (simp add: sorted_kvs_def)
  have ks: "sort (map fst es) = sort (map fst es')"
    using arg_cong [OF rows, of "map (\<lambda>r. case r of VRec [(_, VStr x), _] \<Rightarrow> x)"] by (simp add: comp_def)
  then have dom: "set (map fst es) = set (map fst es')" by (metis set_sort)
  have vals: "f (the (map_of es k)) = f (the (map_of es' k))" if "k \<in> set (map fst es)" for k
    using rows that unfolding ks [symmetric] by (auto dest: map_eq_conv [THEN iffD1])
  show ?thesis
  proof
    fix k
    show "m k = m' k"
    proof (cases "k \<in> set (map fst es)")
      case True
      then have "map_of es k \<noteq> None" "map_of es' k \<noteq> None" using dom by (metis map_of_eq_None_iff set_map)+
      moreover have "the (map_of es k) = the (map_of es' k)" using vals [OF True] assms(4) by (simp add: inj_eq)
      ultimately show ?thesis using assms(1,2) by (auto simp: map_entries_def)
    next
      case False
      then have "map_of es k = None" "map_of es' k = None" using dom by (metis map_of_eq_None_iff set_map)+
      then show ?thesis using assms(1,2) by (simp add: map_entries_def)
    qed
  qed
qed

text \<open>Two platforms, visited in any order, have the same value exactly if they are the same map.\<close>

theorem platform_faithful:
  assumes "map_entries m es" and "map_entries m' es'"
  shows "bq_platform es = bq_platform es' \<longleftrightarrow> m = m'"
  using assms sorted_kvs_inj [OF assms, of VStr] sorted_kvs_order [of m es es'] by (auto simp: bq_platform_def inj_def)

end
