(* ===== verification/Drain.thy ===== *)
theory Drain
  imports Server Logger
begin

text \<open>
  How reproxy stops (\<open>reproxy/server.go\<close>): requests that come in while the server drains, the wait
  for running ones, the release of resources and the \<open>Shutdown\<close> calls, as a step relation over
  their interleavings; then the log record of an action, records kept and the removal of old log
  files.

  A request first looks whether the server drains (the goroutine that carries the news may be
  late, so the look may miss it), then counts itself in the wait group. \<open>DrainAndReleaseResources\<close>
  runs once: it closes the drain channel, waits until no request is counted, closes the logger
  and starts the clean-ups. A call that comes second waits for the first to end. Startup is taken
  as done; \<open>Server\<close> has its part of the story.
\<close>

section \<open>State\<close>

text \<open>A request that is counted remembers whether it was before the drain channel was closed.\<close>

datatype req = RNew | RChecked | RCounted bool | REnded

datatype once = ONot | ORunning | ODone

datatype caller = CNew | CWaiting | CReturned bool

record drain_state =
  drReqs :: "req list"
  drDrain :: bool
  drOnce :: once
  drStats :: bool
  drCleaning :: bool
  drShutdownCmd :: nat
  drShutdownOnce :: once
  drCallers :: "caller list"

definition drain_init :: "nat \<Rightarrow> nat \<Rightarrow> drain_state" where
  "drain_init n k = \<lparr>drReqs = replicate n RNew, drDrain = False, drOnce = ONot, drStats = False, drCleaning = False,
     drShutdownCmd = 0, drShutdownOnce = ONot, drCallers = replicate k CNew\<rparr>"

section \<open>Steps\<close>

definition set_req :: "nat \<Rightarrow> req \<Rightarrow> drain_state \<Rightarrow> drain_state" where
  "set_req i r s = s\<lparr>drReqs := (drReqs s)[i := r]\<rparr>"

text \<open>\<open>withServerDrainCancel\<close> and the look at the context, \<open>waitForStarted\<close>, and the wait group.\<close>

definition RunCommand_count :: "nat \<Rightarrow> drain_state \<Rightarrow> drain_state" where
  "RunCommand_count i s = set_req i (RCounted (\<not> drDrain s)) s"

text \<open>\<open>DrainAndReleaseResources\<close> up to the wait, and after it.\<close>

definition drain_begin :: "drain_state \<Rightarrow> drain_state" where
  "drain_begin s = s\<lparr>drOnce := ORunning, drDrain := True\<rparr>"

definition counted :: "drain_state \<Rightarrow> bool" where
  "counted s \<longleftrightarrow> RCounted True \<in> set (drReqs s) \<or> RCounted False \<in> set (drReqs s)"

definition drain_release :: "drain_state \<Rightarrow> drain_state" where
  "drain_release s = s\<lparr>drOnce := ODone, drStats := True, drCleaning := True\<rparr>"

text \<open>\<open>Shutdown\<close>: the first call closes the command channel and sees to the drain, every call answers
  with the statistics that are there when it returns.\<close>

definition shutdown_first :: "nat \<Rightarrow> drain_state \<Rightarrow> drain_state" where
  "shutdown_first k s =
     s\<lparr>drShutdownOnce := ORunning, drShutdownCmd := Suc (drShutdownCmd s), drCallers := (drCallers s)[k := CWaiting]\<rparr>"

definition shutdown_return :: "nat \<Rightarrow> drain_state \<Rightarrow> drain_state" where
  "shutdown_return k s = s\<lparr>drShutdownOnce := ODone, drCallers := (drCallers s)[k := CReturned (drStats s)]\<rparr>"

inductive drain_step :: "drain_state \<Rightarrow> drain_state \<Rightarrow> bool" where
  CheckPass: "i < length (drReqs s) \<Longrightarrow> drReqs s ! i = RNew \<Longrightarrow> drain_step s (set_req i RChecked s)"
| CheckStop: "i < length (drReqs s) \<Longrightarrow> drReqs s ! i = RNew \<or> drReqs s ! i = RChecked \<Longrightarrow> drDrain s \<Longrightarrow> drain_step s (set_req i REnded s)"
| CountReq: "i < length (drReqs s) \<Longrightarrow> drReqs s ! i = RChecked \<Longrightarrow> drain_step s (RunCommand_count i s)"
| EndReq: "i < length (drReqs s) \<Longrightarrow> drReqs s ! i = RCounted b \<Longrightarrow> drain_step s (set_req i REnded s)"
| DrainBegin: "drOnce s = ONot \<Longrightarrow> drain_step s (drain_begin s)"
| DrainRelease: "drOnce s = ORunning \<Longrightarrow> \<not> counted s \<Longrightarrow> drain_step s (drain_release s)"
| ShutdownFirst: "k < length (drCallers s) \<Longrightarrow> drCallers s ! k = CNew \<Longrightarrow> drShutdownOnce s = ONot \<Longrightarrow> drain_step s (shutdown_first k s)"
| ShutdownEnd: "k < length (drCallers s) \<Longrightarrow> drCallers s ! k = CWaiting \<Longrightarrow> drOnce s = ODone \<Longrightarrow> drain_step s (shutdown_return k s)"
| ShutdownLater: "k < length (drCallers s) \<Longrightarrow> drCallers s ! k = CNew \<Longrightarrow> drShutdownOnce s = ODone \<Longrightarrow> drain_step s (shutdown_return k s)"

inductive_cases drain_stepE: "drain_step s s'"

section \<open>Invariant\<close>

definition drain_inv :: "drain_state \<Rightarrow> bool" where
  "drain_inv s \<longleftrightarrow> (drOnce s = ODone \<longrightarrow> drStats s \<and> RCounted True \<notin> set (drReqs s)) \<and> (drCleaning s \<longleftrightarrow> drOnce s = ODone) \<and>
     (drDrain s \<longleftrightarrow> drOnce s \<noteq> ONot) \<and> (drShutdownOnce s = ODone \<longrightarrow> drOnce s = ODone) \<and>
     (CWaiting \<in> set (drCallers s) \<longrightarrow> drShutdownOnce s \<noteq> ONot) \<and> CReturned False \<notin> set (drCallers s) \<and>
     drShutdownCmd s = (if drShutdownOnce s = ONot then 0 else 1)"

lemma set_update_notin: "x \<notin> set xs \<Longrightarrow> x \<noteq> y \<Longrightarrow> x \<notin> set (xs[i := y])"
  using set_update_subset_insert [of xs i y] by blast

lemmas drain_defs = drain_inv_def set_req_def RunCommand_count_def drain_begin_def drain_release_def shutdown_first_def
  shutdown_return_def

lemma drain_inv_step: "drain_step s s' \<Longrightarrow> drain_inv s \<Longrightarrow> drain_inv s'"
  by (erule drain_stepE)
    (auto simp: drain_defs set_update_notin counted_def in_set_conv_nth [of CWaiting] nth_list_update split: if_splits)

interpretation draining: step_invariant drain_step "\<lambda>s. \<exists>n k. s = drain_init n k" drain_inv
proof unfold_locales
  show "drain_inv s" if "\<exists>n k. s = drain_init n k" for s
    using that by (auto simp: drain_inv_def drain_init_def)
qed (rule drain_inv_step)

text \<open>C8: When the resources are released every request that was counted before the server drained has
  ended; every \<open>Shutdown\<close> call that returned carries the aggregated statistics, and the command
  channel is closed at most once.\<close>

theorem drain_waits_for_requests:
  assumes "drain_step\<^sup>*\<^sup>* (drain_init n k) s"
  shows "(drCleaning s \<longrightarrow> drStats s \<and> RCounted True \<notin> set (drReqs s)) \<and> CReturned False \<notin> set (drCallers s) \<and> drShutdownCmd s \<le> 1"
proof -
  have "drain_inv s" using draining.holds_reachable assms by blast
  then show ?thesis by (auto simp: drain_inv_def split: if_splits)
qed

text \<open>A request served to its end while a \<open>Shutdown\<close> call waits.\<close>

definition served_and_shut :: drain_state where
  "served_and_shut = shutdown_return 0 (drain_release (set_req 0 REnded (drain_begin (shutdown_first 0
     (RunCommand_count 0 (set_req 0 RChecked (drain_init 1 1)))))))"

lemma served_and_shut_reachable: "drain_step\<^sup>*\<^sup>* (drain_init 1 1) served_and_shut"
proof -
  let ?s1 = "set_req 0 RChecked (drain_init 1 1)"
  let ?s2 = "RunCommand_count 0 ?s1"
  let ?s3 = "shutdown_first 0 ?s2"
  let ?s4 = "drain_begin ?s3"
  let ?s5 = "set_req 0 REnded ?s4"
  have "drain_step (drain_init 1 1) ?s1" by (rule CheckPass; code_simp)
  moreover have "drain_step ?s1 ?s2" by (rule CountReq; code_simp)
  moreover have "drain_step ?s2 ?s3" by (rule ShutdownFirst; code_simp)
  moreover have "drain_step ?s3 ?s4" by (rule DrainBegin; code_simp)
  moreover have "drain_step ?s4 ?s5" by (rule EndReq [where b = True]; code_simp)
  moreover have "drain_step ?s5 (drain_release ?s5)" by (rule DrainRelease; code_simp)
  moreover have "drain_step (drain_release ?s5) served_and_shut"
    unfolding served_and_shut_def by (rule ShutdownEnd; code_simp)
  ultimately show ?thesis by (meson converse_rtranclp_into_rtranclp r_into_rtranclp)
qed

theorem drain_waits_for_requests_witness:
  "drCleaning served_and_shut \<and> drCallers served_and_shut = [CReturned True] \<and> RCounted True \<notin> set (drReqs served_and_shut)"
proof -
  have "drCleaning served_and_shut \<and> drCallers served_and_shut = [CReturned True]" by code_simp
  then show ?thesis using drain_waits_for_requests [OF served_and_shut_reachable] by simp
qed

text \<open>A request that looked before the channel was closed and counts itself after the wait runs
  while the resources it uses are released.\<close>

theorem late_request_outlives_resources:
  "\<exists>s. drain_step\<^sup>*\<^sup>* (drain_init 1 0) s \<and> drCleaning s \<and> RCounted False \<in> set (drReqs s)"
proof -
  let ?s1 = "set_req 0 RChecked (drain_init 1 0)"
  let ?s2 = "drain_begin ?s1"
  let ?s3 = "drain_release ?s2"
  let ?s4 = "RunCommand_count 0 ?s3"
  have "drain_step (drain_init 1 0) ?s1" by (rule CheckPass; code_simp)
  moreover have "drain_step ?s1 ?s2" by (rule DrainBegin; code_simp)
  moreover have "drain_step ?s2 ?s3" by (rule DrainRelease; code_simp)
  moreover have "drain_step ?s3 ?s4" by (rule CountReq; code_simp)
  ultimately have "drain_step\<^sup>*\<^sup>* (drain_init 1 0) ?s4" by (meson converse_rtranclp_into_rtranclp r_into_rtranclp)
  moreover have "drCleaning ?s4 \<and> RCounted False \<in> set (drReqs ?s4)" by code_simp
  ultimately show ?thesis by blast
qed

section \<open>Records\<close>

text \<open>The result logged for an action: its own, else that of the local, else that of the remote
  execution; without any the completion status panics.\<close>

definition logged_result :: "'r option \<Rightarrow> 'r option \<Rightarrow> 'r option \<Rightarrow> 'r option" where
  "logged_result own loc rem = (case own of Some r \<Rightarrow> Some r | None \<Rightarrow> (case loc of Some r \<Rightarrow> Some r | None \<Rightarrow> rem))"

text \<open>\<open>logRecord\<close>: the completion status and the records kept.\<close>

definition logRecord ::
  "(Result option \<times> Result option \<times> Result option) \<Rightarrow> bool \<Rightarrow> ExecStrategy \<Rightarrow> nat \<Rightarrow> (Result \<times> CompletionStatus) list \<Rightarrow>
   (CompletionStatus \<times> (Result \<times> CompletionStatus) list) option" where
  "logRecord results execLocally strategy keep records =
     (case results of (own, loc, rem) \<Rightarrow>
      case logged_result own loc rem of
        None \<Rightarrow> None
      | Some r \<Rightarrow>
         (let st = getCompletionStatus (rStatus r) execLocally strategy in
          Some (st, if 0 < keep then keep_record keep (r, st) records else records)))"

definition GetRecords :: "'r list \<Rightarrow> 'r list" where
  "GetRecords records = records"

definition addLabelDigestToCommandID :: "(string, string) res \<Rightarrow> string \<Rightarrow> string" where
  "addLabelDigestToCommandID digest commandID = (case digest of Ok d \<Rightarrow> d @ ''-'' @ commandID | _ \<Rightarrow> commandID)"

text \<open>After any number of actions the records kept are those of the most recent ones.\<close>

lemma logRecord_keeps_recent:
  assumes "0 < keep" and "list_all (\<lambda>(r, l, s). r \<noteq> None) acts"
  shows "foldl (\<lambda>rs (r, l, s). case logRecord (r, None, None) l s keep rs of Some (_, rs') \<Rightarrow> rs' | None \<Rightarrow> rs) [] acts =
    recent keep (map (\<lambda>(r, l, s). (the r, getCompletionStatus (rStatus (the r)) l s)) acts)"
proof -
  let ?f = "\<lambda>rs (r, l, s). case logRecord (r, None, None) l s keep rs of Some (_, rs') \<Rightarrow> rs' | None \<Rightarrow> rs"
  let ?g = "\<lambda>(r, l, s). (the r, getCompletionStatus (rStatus (the r)) l s)"
  have "foldl ?f rs acts = fold (keep_record keep) (map ?g acts) rs" for rs
    using assms(2)
  proof (induction acts arbitrary: rs)
    case (Cons a acts)
    obtain r l s where "a = (Some r, l, s)" using Cons.prems by (cases a) auto
    then show ?case using Cons assms(1) by (simp add: logRecord_def logged_result_def Let_def)
  qed simp
  then show ?thesis using keep_record_recent [OF assms(1)] by simp
qed

section \<open>Old log files\<close>

definition word_char :: "char \<Rightarrow> bool" where
  "word_char c \<longleftrightarrow> c \<in> set ''abcdefghijklmnopqrstuvwxyzABCDEFGHIJKLMNOPQRSTUVWXYZ0123456789_''"

text \<open>The pattern of dump files as a list of character classes; its dot is any character.\<close>

definition dump_classes :: "(char \<Rightarrow> bool) list" where
  "dump_classes = map (=) ''execution-'' @ replicate 8 word_char @ [(=) CHR ''-''] @ replicate 4 word_char @ [(=) CHR ''-''] @
     replicate 4 word_char @ [(=) CHR ''-''] @ replicate 4 word_char @ [(=) CHR ''-''] @ replicate 12 word_char @
     [\<lambda>c. c \<noteq> CHR 0x0A] @ map (=) ''dump''"

definition log_file_name :: "string \<Rightarrow> bool" where
  "log_file_name n \<longleftrightarrow> prefix ''reproxy'' n \<or> prefix ''rewrapper'' n \<or> prefix ''bootstrap'' n \<or> list_all2 (\<lambda>p c. p c) dump_classes n"

text \<open>The directory: names with modification times, where a missing time is a file that cannot be
  looked at. \<open>removeFails\<close> are the files that cannot be removed.\<close>

definition old_log_file :: "int \<Rightarrow> string \<times> int option \<Rightarrow> bool" where
  "old_log_file maxAge f \<longleftrightarrow> (case snd f of Some m \<Rightarrow> log_file_name (fst f) \<and> m < maxAge | None \<Rightarrow> False)"

definition DeleteOldLogFiles ::
  "(string \<Rightarrow> bool) \<Rightarrow> int \<Rightarrow> (string \<times> int option) list option \<Rightarrow> (string \<times> int option) list option" where
  "DeleteOldLogFiles removeFails maxAge files =
     (case files of
        None \<Rightarrow> None
      | Some fs \<Rightarrow>
         (let toDelete = map fst (filter (old_log_file maxAge) fs) in
          Some (filter (\<lambda>f. fst f \<in> set toDelete \<longrightarrow> removeFails (fst f)) fs)))"

text \<open>Only log files older than the limit go; names in a directory are distinct.\<close>

lemma DeleteOldLogFiles_keeps:
  assumes "DeleteOldLogFiles removeFails maxAge (Some fs) = Some fs'" and "distinct (map fst fs)" and "f \<in> set fs"
  shows "f \<in> set fs' \<longleftrightarrow> \<not> (old_log_file maxAge f \<and> \<not> removeFails (fst f))"
proof -
  have "g = f" if "g \<in> set fs" "fst g = fst f" for g
    using assms(2,3) that by (metis eq_key_imp_eq_value prod.collapse)
  then have "fst f \<in> fst ` {g \<in> set fs. old_log_file maxAge g} \<longleftrightarrow> old_log_file maxAge f" using assms(3) by force
  then show ?thesis using assms(1,3) by (auto simp: DeleteOldLogFiles_def Let_def)
qed

end
