(* ===== verification/CloudTrace.thy ===== *)
theory CloudTrace
  imports Trace ActionResult Labels GoPath
begin

text \<open>
  Log records as spans of a tracing service (\<open>cmd/rpl2cloudtrace/rpl2cloudtrace.go\<close>): one trace per
  record, a root span for the command and a child span per event, written in batches. The random
  trace identifiers, SHA-256 and the client of the service are arguments: \<open>sha\<close> gives the digest of
  a name, \<open>accepts\<close> whether the client takes a batch after those it has taken. Event maps are lists
  in the order in which they are visited. Times are those of \<open>Trace\<close>.
\<close>

section \<open>Values\<close>

text \<open>\<open>truncatableString\<close>: the value and the number of bytes cut off.\<close>

definition truncatableString :: "string \<Rightarrow> nat \<Rightarrow> string \<times> int" where
  "truncatableString s limit =
     (if length s < limit then (s, 0) else (take limit s, to_int32 (int (length s) - int limit)))"

datatype go_value = GoString string | GoBool bool | GoInt int | GoUint int | GoOther

datatype attr = StringValue "string \<times> int" | BoolValue bool | IntValue int

text \<open>\<open>attrValue\<close>: unsigned numbers wrap around into \<open>int64\<close>, values of other types are zero.\<close>

definition attrValue :: "go_value \<Rightarrow> attr" where
  "attrValue v =
     (case v of
        GoString s \<Rightarrow> StringValue (truncatableString s 256)
      | GoBool b \<Rightarrow> BoolValue b
      | GoInt n \<Rightarrow> IntValue n
      | GoUint n \<Rightarrow> IntValue (signed_take_bit 63 n)
      | GoOther \<Rightarrow> IntValue 0)"

datatype rpc_code = RpcOK | RpcCanceled | RpcUnknown | RpcDeadlineExceeded | RpcInternal

record span_status =
  ssCode :: rpc_code
  ssMessage :: string

definition status_String :: "ResultStatus \<Rightarrow> string" where
  "status_String s =
     (case s of UNKNOWN_STATUS \<Rightarrow> ''UNKNOWN'' | SUCCESS \<Rightarrow> ''SUCCESS'' | CACHE_HIT \<Rightarrow> ''CACHE_HIT''
      | NON_ZERO_EXIT \<Rightarrow> ''NON_ZERO_EXIT'' | TIMEOUT \<Rightarrow> ''TIMEOUT'' | INTERRUPTED \<Rightarrow> ''INTERRUPTED''
      | REMOTE_ERROR \<Rightarrow> ''REMOTE_ERROR'' | LOCAL_ERROR \<Rightarrow> ''LOCAL_ERROR'')"

definition statusCode :: "ResultStatus \<Rightarrow> span_status" where
  "statusCode s =
     \<lparr>ssCode = (case s of
        SUCCESS \<Rightarrow> RpcOK | CACHE_HIT \<Rightarrow> RpcOK
      | NON_ZERO_EXIT \<Rightarrow> RpcInternal | REMOTE_ERROR \<Rightarrow> RpcInternal | LOCAL_ERROR \<Rightarrow> RpcInternal
      | TIMEOUT \<Rightarrow> RpcDeadlineExceeded
      | INTERRUPTED \<Rightarrow> RpcCanceled
      | UNKNOWN_STATUS \<Rightarrow> RpcUnknown),
      ssMessage = status_String s\<rparr>"

section \<open>Identifiers\<close>

text \<open>\<open>encoding/hex\<close> on bytes as characters.\<close>

definition hexDigits :: string where
  "hexDigits = ''0123456789abcdef''"

definition hex_EncodeToString :: "string \<Rightarrow> string" where
  "hex_EncodeToString bs =
     concat (map (\<lambda>c. [hexDigits ! (of_char c div 16), hexDigits ! (of_char c mod 16)]) bs)"

definition hex_value :: "char \<Rightarrow> nat option" where
  "hex_value c = map_of (zip ''0123456789abcdefABCDEF'' ([0..<16] @ [10..<16])) c"

fun hex_DecodeString :: "string \<Rightarrow> string option" where
  "hex_DecodeString [] = Some []"
| "hex_DecodeString [c] = None"
| "hex_DecodeString (c # d # s) =
     (case (hex_value c, hex_value d, hex_DecodeString s) of
        (Some h, Some l, Some bs) \<Rightarrow> Some (char_of (16 * h + l) # bs)
      | _ \<Rightarrow> None)"

record traceContext =
  tcProject :: string
  tcTraceID :: string
  tcRes :: "string \<rightharpoonup> attr"

text \<open>\<open>newTraceContext\<close>: sixteen random bytes (missing when the reader fails), over which the decoded
  execution identifier is copied.\<close>

definition newTraceContext :: "string \<Rightarrow> string option \<Rightarrow> string \<Rightarrow> (string \<rightharpoonup> attr) \<Rightarrow> traceContext option" where
  "newTraceContext projectID random execID res =
     (case random of
        None \<Rightarrow> None
      | Some bytes \<Rightarrow>
         Some \<lparr>tcProject = projectID,
               tcTraceID = (if execID \<noteq> [] then
                  (case hex_DecodeString (filter (\<lambda>c. c \<noteq> CHR ''-'') execID) of
                     None \<Rightarrow> bytes
                   | Some b \<Rightarrow> take 16 b @ drop (length b) bytes)
                  else bytes),
               tcRes = res\<rparr>)"

definition TraceID :: "traceContext \<Rightarrow> string" where
  "TraceID tc = hex_EncodeToString (tcTraceID tc)"

definition newSpanContext :: "(string \<Rightarrow> string) \<Rightarrow> string \<Rightarrow> string" where
  "newSpanContext sha name = take 8 (sha name)"

definition SpanID :: "string \<Rightarrow> string" where
  "SpanID spanID = hex_EncodeToString spanID"

definition span_Name :: "traceContext \<Rightarrow> string \<Rightarrow> string" where
  "span_Name tc spanID =
     Join [''projects'', tcProject tc, ''traces'', hex_EncodeToString (tcTraceID tc), ''spans'', hex_EncodeToString spanID]"

definition tc_attrs :: "traceContext \<Rightarrow> (string \<times> attr) list \<Rightarrow> (string \<rightharpoonup> attr)" where
  "tc_attrs tc attrs = tcRes tc ++ map_of attrs"

section \<open>Spans\<close>

record span =
  snName :: string
  snSpanId :: string
  snParentSpanId :: string
  snDisplayName :: "string \<times> int"
  snStartTime :: int
  snEndTime :: int
  snAttributes :: "string \<rightharpoonup> attr"
  snStatus :: span_status
  snInternal :: bool

primrec span_loop ::
  "(string \<Rightarrow> string) \<Rightarrow> int \<Rightarrow> string \<Rightarrow> traceContext \<Rightarrow> string \<Rightarrow> (string \<rightharpoonup> attr) \<Rightarrow> span_status \<Rightarrow>
   interval list \<Rightarrow> span list \<times> int \<times> int \<Rightarrow> span list \<times> int \<times> int" where
  "span_loop sha threshold cat tc parent attrs st [] acc = acc"
| "span_loop sha threshold cat tc parent attrs st (et # ets) acc =
     (case et of (key, From, To) \<Rightarrow> case acc of (sps, start, end') \<Rightarrow>
      span_loop sha threshold cat tc parent attrs st ets
        (case (From, To) of
           (Some from', Some to') \<Rightarrow>
             (let start' = (if IsZero start \<or> from' < start then from' else start);
                  end'' = (if IsZero end' \<or> end' < to' then to' else end');
                  sctx = newSpanContext sha (cat @ ''.'' @ key) in
              (if time_Sub to' from' < threshold then sps
               else sps @ [\<lparr>snName = span_Name tc sctx, snSpanId = SpanID sctx, snParentSpanId = parent,
                     snDisplayName = truncatableString (''reproxy.'' @ cat @ ''.'' @ key) 128,
                     snStartTime = from', snEndTime = to', snAttributes = attrs, snStatus = st, snInternal = True\<rparr>],
               start', end''))
         | _ \<Rightarrow> acc))"

definition event_spans ::
  "(string \<Rightarrow> string) \<Rightarrow> int \<Rightarrow> string \<Rightarrow> traceContext \<Rightarrow> string \<Rightarrow> interval list \<Rightarrow> (string \<rightharpoonup> attr) \<Rightarrow> span_status \<Rightarrow>
   span list \<times> int \<times> int" where
  "event_spans sha threshold cat tc parent ets attrs st =
     span_loop sha threshold cat tc parent attrs st ets ([], zeroTime, zeroTime)"

text \<open>The parts of a log record the program reads. A missing result reads as the unknown status and
  exit code zero.\<close>

record cloud_remote =
  crActionDigest :: string
  crStatus :: ResultStatus
  crExitCode :: int
  crCacheHit :: bool
  crNumInputFiles :: int
  crNumInputDirectories :: int
  crTotalInputBytes :: int
  crNumOutputFiles :: int
  crNumOutputDirectories :: int
  crTotalOutputBytes :: int
  crEventTimes :: "interval list"

record cloud_local =
  clStatus :: ResultStatus
  clExitCode :: int
  clExecutedLocally :: bool
  clValidCacheHit :: bool
  clUpdatedCache :: bool
  clLabels :: "(string \<times> string) list"
  clEventTimes :: "interval list"

record cloud_record =
  cdOutputs :: "string list"
  cdWorkingDir :: string
  cdCommandId :: string
  cdInvocationId :: string
  cdCorrelatedInvocationsId :: string
  cdToolName :: string
  cdToolVersion :: string
  cdExecutionId :: string
  cdStatus :: ResultStatus
  cdExitCode :: int
  cdMsg :: string
  cdRemote :: "cloud_remote option"
  cdLocal :: "cloud_local option"

definition remote_attrs :: "cloud_remote \<Rightarrow> (string \<times> attr) list" where
  "remote_attrs rm =
     [(''action_digest'', attrValue (GoString (crActionDigest rm))),
      (''status'', attrValue (GoString (status_String (crStatus rm)))),
      (''exit_code'', attrValue (GoInt (crExitCode rm))),
      (''cache_hit'', attrValue (GoBool (crCacheHit rm))),
      (''num_input_files'', attrValue (GoInt (crNumInputFiles rm))),
      (''num_input_directories'', attrValue (GoInt (crNumInputDirectories rm))),
      (''total_input_bytes'', attrValue (GoInt (crTotalInputBytes rm))),
      (''num_output_files'', attrValue (GoInt (crNumOutputFiles rm))),
      (''num_output_directories'', attrValue (GoInt (crNumOutputDirectories rm))),
      (''total_output_bytes'', attrValue (GoInt (crTotalOutputBytes rm)))]"

definition local_attrs :: "cloud_local \<Rightarrow> (string \<times> attr) list" where
  "local_attrs lm =
     [(''status'', attrValue (GoString (status_String (clStatus lm)))),
      (''exit_code'', attrValue (GoInt (clExitCode lm))),
      (''executed_locally'', attrValue (GoBool (clExecutedLocally lm))),
      (''valid_cache_hit'', attrValue (GoBool (clValidCacheHit lm))),
      (''updated_cache'', attrValue (GoBool (clUpdatedCache lm))),
      (''labels'', attrValue (GoString (ToKey (clLabels lm))))]"

definition command_attrs :: "cloud_record \<Rightarrow> (string \<times> attr) list" where
  "command_attrs r =
     [(''output'', attrValue (GoString (trim_prefix (cdWorkingDir r) (case cdOutputs r of [] \<Rightarrow> ''???'' | x # _ \<Rightarrow> x)))),
      (''command_id'', attrValue (GoString (cdCommandId r))),
      (''invocation_id'', attrValue (GoString (cdInvocationId r))),
      (''correlated_invocations_id'', attrValue (GoString (cdCorrelatedInvocationsId r))),
      (''tool_name'', attrValue (GoString (cdToolName r))),
      (''tool_version'', attrValue (GoString (cdToolVersion r))),
      (''execution_id'', attrValue (GoString (cdExecutionId r))),
      (''exit_code'', attrValue (GoInt (cdExitCode r)))]"

definition widen :: "int \<times> int \<Rightarrow> int \<times> int \<Rightarrow> int \<times> int" where
  "widen p q =
     (if IsZero (fst p) \<or> fst q < fst p then fst q else fst p, if IsZero (snd p) \<or> snd p < snd q then snd q else snd p)"

definition command_status :: "cloud_record \<Rightarrow> span_status" where
  "command_status r =
     (let st = statusCode (cdStatus r) in
      if cdMsg r \<noteq> [] then st\<lparr>ssMessage := ssMessage st @ '': '' @ cdMsg r\<rparr> else st)"

text \<open>\<open>convertLogRecord\<close>: the child spans with the interval they cover, first those of the remote, then
  those of the local execution.\<close>

definition root_id :: "(string \<Rightarrow> string) \<Rightarrow> string" where
  "root_id sha = SpanID (newSpanContext sha ''RunCommand'')"

definition remote_spans :: "(string \<Rightarrow> string) \<Rightarrow> int \<Rightarrow> traceContext \<Rightarrow> cloud_record \<Rightarrow> span list \<times> int \<times> int" where
  "remote_spans sha spanThreshold tc r =
     (case cdRemote r of
        None \<Rightarrow> ([], zeroTime, zeroTime)
      | Some rm \<Rightarrow>
         (case event_spans sha spanThreshold ''Remote'' tc (root_id sha) (crEventTimes rm) (tc_attrs tc (remote_attrs rm))
            (statusCode (crStatus rm)) of (sps, rspan) \<Rightarrow> (sps, widen (zeroTime, zeroTime) rspan)))"

definition child_spans :: "(string \<Rightarrow> string) \<Rightarrow> int \<Rightarrow> traceContext \<Rightarrow> cloud_record \<Rightarrow> span list \<times> int \<times> int" where
  "child_spans sha spanThreshold tc r =
     (case remote_spans sha spanThreshold tc r of (rsps, rspan) \<Rightarrow>
      (case cdLocal r of
         None \<Rightarrow> (rsps, rspan)
       | Some lm \<Rightarrow>
          (case event_spans sha spanThreshold ''Local'' tc (root_id sha) (clEventTimes lm) (tc_attrs tc (local_attrs lm))
             (statusCode (clStatus lm)) of (sps, lspan) \<Rightarrow> (rsps @ sps, widen rspan lspan))))"

text \<open>The span of the command comes last; a command shorter than the threshold has no spans at all.\<close>

definition record_spans :: "(string \<Rightarrow> string) \<Rightarrow> int \<Rightarrow> int \<Rightarrow> traceContext \<Rightarrow> cloud_record \<Rightarrow> span list" where
  "record_spans sha spanThreshold traceThreshold tc r =
     (case child_spans sha spanThreshold tc r of (sps, pfrom, pto) \<Rightarrow>
      if time_Sub pto pfrom < traceThreshold then []
      else sps @ [\<lparr>snName = span_Name tc (newSpanContext sha ''RunCommand''), snSpanId = root_id sha, snParentSpanId = [],
             snDisplayName = truncatableString ''reproxy.RunCommand'' 128,
             snStartTime = pfrom, snEndTime = pto, snAttributes = tc_attrs tc (command_attrs r),
             snStatus = command_status r, snInternal = False\<rparr>])"

section \<open>Export\<close>

record cloud_config =
  cfSha :: "string \<Rightarrow> string"
  cfSpanThreshold :: int
  cfTraceThreshold :: int
  cfBatchSize :: int
  cfProject :: string
  cfRes :: "string \<rightharpoonup> attr"

definition record_batch :: "cloud_config \<Rightarrow> cloud_record \<times> string option \<Rightarrow> span list option" where
  "record_batch C rec =
     (case newTraceContext (cfProject C) (snd rec) (cdExecutionId (fst rec)) (cfRes C) of
        None \<Rightarrow> None
      | Some tc \<Rightarrow> Some (record_spans (cfSha C) (cfSpanThreshold C) (cfTraceThreshold C) tc (fst rec)))"

datatype convert_error = RandomFailed | ExportFailed

text \<open>\<open>convert\<close> with each record beside the random bytes drawn for it. The last component lists the
  batches the client has taken.\<close>

primrec convert_loop ::
  "cloud_config \<Rightarrow> (span list list \<Rightarrow> span list \<Rightarrow> bool) \<Rightarrow> (cloud_record \<times> string option) list \<Rightarrow>
   span list \<Rightarrow> span list \<Rightarrow> span list list \<Rightarrow> span list \<times> convert_error option \<times> span list list" where
  "convert_loop C accepts [] sps batch sent =
     (if batch \<noteq> [] then
        if accepts sent batch then (sps @ batch, None, sent @ [batch]) else (sps, Some ExportFailed, sent)
      else (sps, None, sent))"
| "convert_loop C accepts (rec # recs) sps batch sent =
     (case record_batch C rec of
        None \<Rightarrow> (sps, Some RandomFailed, sent)
      | Some new \<Rightarrow>
         (let batch' = batch @ new in
          if int (length batch') > cfBatchSize C then
            if accepts sent batch' then convert_loop C accepts recs (sps @ batch') [] (sent @ [batch'])
            else (sps, Some ExportFailed, sent)
          else convert_loop C accepts recs sps batch' sent))"

definition convert ::
  "cloud_config \<Rightarrow> (span list list \<Rightarrow> span list \<Rightarrow> bool) \<Rightarrow> (cloud_record \<times> string option) list \<Rightarrow>
   span list \<times> convert_error option \<times> span list list" where
  "convert C accepts recs = convert_loop C accepts recs [] [] []"

text \<open>The attributes given on the command line; one without an equals sign ends the program.\<close>

primrec parse_attributes :: "string list \<Rightarrow> (string \<rightharpoonup> attr) \<Rightarrow> (string \<rightharpoonup> attr) option" where
  "parse_attributes [] res = Some res"
| "parse_attributes (a # as) res =
     (if CHR ''='' \<notin> set a then None
      else parse_attributes as (res(takeWhile (\<lambda>c. c \<noteq> CHR ''='') a \<mapsto>
        attrValue (GoString (tl (dropWhile (\<lambda>c. c \<noteq> CHR ''='') a))))))"

section \<open>What is written\<close>

definition record_output :: "cloud_config \<Rightarrow> cloud_record \<times> string option \<Rightarrow> span list" where
  "record_output C rec = (case record_batch C rec of Some new \<Rightarrow> new | None \<Rightarrow> [])"

lemma convert_loop_sent:
  assumes "convert_loop C accepts recs sps batch sent = (sps', err, sent')"
  shows "\<exists>new. sent' = sent @ new \<and> sps' = sps @ concat new \<and>
    prefix (concat new) (batch @ concat (map (record_output C) recs)) \<and>
    (err = None \<longrightarrow> concat new = batch @ concat (map (record_output C) recs)) \<and>
    list_all (\<lambda>b. cfBatchSize C < int (length b)) (butlast new)"
  using assms
proof (induction recs arbitrary: sps batch sent)
  case Nil
  then show ?case by (cases "batch = []") (auto split: if_splits)
next
  case (Cons rec recs)
  show ?case
  proof (cases "record_batch C rec")
    case None
    then show ?thesis using Cons.prems by auto
  next
    case (Some new)
    let ?b = "batch @ new"
    have out: "record_output C rec = new" using Some by (simp add: record_output_def)
    consider (taken) "int (length ?b) > cfBatchSize C" "accepts sent ?b"
      | (refused) "int (length ?b) > cfBatchSize C" "\<not> accepts sent ?b"
      | (hold) "\<not> int (length ?b) > cfBatchSize C" by blast
    then show ?thesis
    proof cases
      case taken
      then have "convert_loop C accepts recs (sps @ ?b) [] (sent @ [?b]) = (sps', err, sent')"
        using Cons.prems Some by (simp add: Let_def)
      from Cons.IH [OF this] obtain ns where "sent' = sent @ ?b # ns" "sps' = sps @ ?b @ concat ns"
        "prefix (concat ns) (concat (map (record_output C) recs))" "err = None \<longrightarrow> concat ns = concat (map (record_output C) recs)"
        "list_all (\<lambda>b. cfBatchSize C < int (length b)) (butlast ns)" by auto
      then show ?thesis using taken out by (intro exI [of _ "?b # ns"]) auto
    next
      case refused
      then show ?thesis using Cons.prems Some by (intro exI [of _ "[]"]) auto
    next
      case hold
      then have "convert_loop C accepts recs sps ?b sent = (sps', err, sent')" using Cons.prems Some by (simp add: Let_def)
      from Cons.IH [OF this] show ?thesis using out by simp
    qed
  qed
qed

text \<open>The spans \<open>convert\<close> reports are those in the batches the service took, also when it ends with an
  error; they are those of the first records in order, and all of them when there is no error. All
  batches but the last are larger than the batch size.\<close>

theorem convert_reports_written:
  assumes "convert C accepts recs = (sps, err, sent)"
  shows "sps = concat sent \<and> prefix sps (concat (map (record_output C) recs)) \<and>
    (err = None \<longrightarrow> sps = concat (map (record_output C) recs)) \<and>
    list_all (\<lambda>b. cfBatchSize C < int (length b)) (butlast sent)"
  using convert_loop_sent [OF assms [unfolded convert_def]] by auto

section \<open>Child spans\<close>

definition has_event :: "interval list \<Rightarrow> bool" where
  "has_event ets \<longleftrightarrow> list_ex (\<lambda>(k, f, t). f \<noteq> None \<and> t \<noteq> None) ets"

definition inside :: "string \<Rightarrow> int \<Rightarrow> int \<Rightarrow> span \<Rightarrow> bool" where
  "inside parent s e sp \<longleftrightarrow> snParentSpanId sp = parent \<and> s \<le> snStartTime sp \<and> snEndTime sp \<le> e"

definition spans_ok :: "string \<Rightarrow> span list \<times> int \<times> int \<Rightarrow> bool" where
  "spans_ok parent acc \<longleftrightarrow> (case acc of (sps, s, e) \<Rightarrow>
     (s = zeroTime \<and> e = zeroTime \<and> sps = [] \<or> zeroTime < s \<and> s \<le> e) \<and> list_all (inside parent s e) sps)"

lemma inside_wider: "list_all (inside parent s e) sps \<Longrightarrow> s' \<le> s \<Longrightarrow> e \<le> e' \<Longrightarrow> list_all (inside parent s' e') sps"
  by (auto simp: list_all_iff inside_def)

lemma span_loop_ok:
  assumes "forward ets" and "spans_ok parent acc"
  shows "spans_ok parent (span_loop sha th cat tc parent attrs st ets acc) \<and>
    (has_event ets \<or> zeroTime < fst (snd acc) \<longrightarrow> zeroTime < fst (snd (span_loop sha th cat tc parent attrs st ets acc)))"
  using assms
proof (induction ets arbitrary: acc)
  case Nil
  then show ?case by (simp add: has_event_def)
next
  case (Cons et ets)
  obtain k f t where et: "et = (k, f, t)" by (metis prod_cases3)
  obtain sps s e where acc: "acc = (sps, s, e)" by (metis prod_cases3)
  have fw: "forward ets" using Cons.prems(1) by (simp add: forward_def)
  show ?case
  proof (cases "f = None \<or> t = None")
    case True
    then show ?thesis using Cons.IH [OF fw Cons.prems(2)] et acc
      by (cases f; cases t) (auto simp: has_event_def)
  next
    case False
    then obtain x y where xy: "f = Some x" "t = Some y" by auto
    have b: "zeroTime < x" "x \<le> y" using Cons.prems(1) et xy by (auto simp: forward_def)
    let ?s = "if IsZero s \<or> x < s then x else s" and ?e = "if IsZero e \<or> e < y then y else e"
    have in1: "zeroTime < ?s \<and> ?s \<le> ?e \<and> ?s \<le> x \<and> y \<le> ?e"
      using b Cons.prems(2) acc by (auto simp: spans_ok_def IsZero_def)
    have "sps = [] \<or> ?s \<le> s \<and> e \<le> ?e" using Cons.prems(2) acc by (auto simp: spans_ok_def IsZero_def)
    then have old: "list_all (inside parent ?s ?e) sps" using Cons.prems(2) acc inside_wider by (auto simp: spans_ok_def)
    obtain sps' where run: "span_loop sha th cat tc parent attrs st (et # ets) acc =
        span_loop sha th cat tc parent attrs st ets (sps', ?s, ?e)"
      and sps': "sps' = sps \<or> (\<exists>sp. sps' = sps @ [sp] \<and> snParentSpanId sp = parent \<and> snStartTime sp = x \<and> snEndTime sp = y)"
      using et acc xy by (auto simp: Let_def)
    have "spans_ok parent (sps', ?s, ?e)" using in1 old sps' by (auto simp: spans_ok_def inside_def)
    from Cons.IH [OF fw this] show ?thesis using run in1 by simp
  qed
qed

lemma event_spans_ok:
  assumes "forward ets" and "event_spans sha th cat tc parent ets attrs st = (sps, s, e)"
  shows "spans_ok parent (sps, s, e) \<and> (has_event ets \<longrightarrow> zeroTime < s)"
  using span_loop_ok [OF assms(1), of parent "([], zeroTime, zeroTime)" sha th cat tc attrs st] assms(2)
  by (simp add: event_spans_def spans_ok_def)

lemma remote_spans_ok:
  assumes "\<forall>rm. cdRemote r = Some rm \<longrightarrow> forward (crEventTimes rm)"
  shows "spans_ok (root_id sha) (remote_spans sha th tc r)"
proof (cases "cdRemote r")
  case (Some rm)
  obtain sp s e where e: "event_spans sha th ''Remote'' tc (root_id sha) (crEventTimes rm) (tc_attrs tc (remote_attrs rm))
      (statusCode (crStatus rm)) = (sp, s, e)" by (metis prod_cases3)
  then show ?thesis using event_spans_ok [OF _ e] assms Some by (auto simp: remote_spans_def widen_def IsZero_def)
qed (simp add: remote_spans_def spans_ok_def)

lemma child_spans_ok:
  assumes "\<forall>rm. cdRemote r = Some rm \<longrightarrow> forward (crEventTimes rm)"
    and "\<forall>lm. cdLocal r = Some lm \<longrightarrow> forward (clEventTimes lm) \<and> has_event (clEventTimes lm)"
    and "child_spans sha th tc r = (sps, s, e)"
  shows "list_all (inside (root_id sha) s e) sps"
proof -
  obtain rs a b where r: "remote_spans sha th tc r = (rs, a, b)" by (metis prod_cases3)
  have rem: "spans_ok (root_id sha) (rs, a, b)" using remote_spans_ok [OF assms(1), of sha th tc] r by simp
  show ?thesis
  proof (cases "cdLocal r")
    case None
    then show ?thesis using assms(3) r rem by (simp add: child_spans_def spans_ok_def)
  next
    case (Some lm)
    obtain ls c d where e: "event_spans sha th ''Local'' tc (root_id sha) (clEventTimes lm) (tc_attrs tc (local_attrs lm))
        (statusCode (clStatus lm)) = (ls, c, d)" by (metis prod_cases3)
    have l: "list_all (inside (root_id sha) c d) ls" using event_spans_ok [OF _ e] assms(2) Some by (simp add: spans_ok_def)
    have w: "sps = rs @ ls" "s = fst (widen (a, b) (c, d))" "e = snd (widen (a, b) (c, d))"
      using assms(3) r e Some by (simp_all add: child_spans_def)
    have "rs = [] \<or> s \<le> a \<and> b \<le> e" "s \<le> c \<and> d \<le> e" using w rem by (auto simp: spans_ok_def widen_def IsZero_def)
    then show ?thesis using w rem l inside_wider by (auto simp: spans_ok_def)
  qed
qed

text \<open>Every span of a record but the last is a child of the last one, the command's, and lies inside
  it, if all intervals run forward and local metadata has a timed event.\<close>

theorem children_inside_command:
  assumes "\<forall>rm. cdRemote r = Some rm \<longrightarrow> forward (crEventTimes rm)"
    and "\<forall>lm. cdLocal r = Some lm \<longrightarrow> forward (clEventTimes lm) \<and> has_event (clEventTimes lm)"
    and "record_spans sha th tth tc r = sps @ [root]"
  shows "snParentSpanId root = [] \<and> list_all (inside (snSpanId root) (snStartTime root) (snEndTime root)) sps"
proof -
  let ?p = "root_id sha"
  obtain cs a b where c: "child_spans sha th tc r = (cs, a, b)" by (metis prod_cases3)
  then have "list_all (inside ?p a b) cs" using child_spans_ok [OF assms(1,2) c] by simp
  moreover have "sps = cs \<and> snSpanId root = ?p \<and> snParentSpanId root = [] \<and> snStartTime root = a \<and> snEndTime root = b"
    using assms(3) c by (auto simp: record_spans_def split: if_splits)
  ultimately show ?thesis by simp
qed

section \<open>Trace identifiers\<close>

lemma hex_digit_value: "n < 16 \<Longrightarrow> hex_value (hexDigits ! n) = Some n"
proof -
  have "list_all (\<lambda>n. hex_value (hexDigits ! n) = Some n) [0..<16]" by code_simp
  then show "n < 16 \<Longrightarrow> ?thesis" by (simp add: list_all_iff)
qed

lemma hex_value_digit: "c \<in> set hexDigits \<Longrightarrow> \<exists>n < 16. hex_value c = Some n \<and> hexDigits ! n = c"
proof -
  have "list_all (\<lambda>c. list_ex (\<lambda>n. hex_value c = Some n \<and> hexDigits ! n = c) [0..<16]) hexDigits" by code_simp
  then show "c \<in> set hexDigits \<Longrightarrow> ?thesis" by (fastforce simp: list_all_iff list_ex_iff)
qed

lemma hex_encode_Cons:
  "hex_EncodeToString (c # bs) = hexDigits ! (of_char c div 16) # hexDigits ! (of_char c mod 16) # hex_EncodeToString bs"
  by (simp add: hex_EncodeToString_def)

lemma of_char_bound: "(of_char c :: nat) < 256"
  using of_char_mod_256 [where ?'a = nat, of c] by (metis mod_less_divisor zero_less_numeral)

theorem hex_roundtrip: "hex_DecodeString (hex_EncodeToString bs) = Some bs"
proof (induction bs)
  case Nil
  then show ?case by (simp add: hex_EncodeToString_def)
next
  case (Cons c bs)
  have "(of_char c :: nat) div 16 < 16" using of_char_bound [of c] by (simp add: div_less_iff_less_mult)
  then show ?case using Cons by (simp add: hex_encode_Cons hex_digit_value)
qed

lemma decode_encode:
  "set s \<subseteq> set hexDigits \<Longrightarrow> even (length s) \<Longrightarrow>
   \<exists>bs. hex_DecodeString s = Some bs \<and> hex_EncodeToString bs = s \<and> 2 * length bs = length s"
proof (induction s rule: hex_DecodeString.induct)
  case 1
  then show ?case by (simp add: hex_EncodeToString_def)
next
  case (2 c)
  then show ?case by simp
next
  case (3 c d s)
  obtain h l where hl: "h < 16" "l < 16" "hex_value c = Some h" "hex_value d = Some l" "hexDigits ! h = c" "hexDigits ! l = d"
    using 3(2) hex_value_digit by (metis list.set_intros subsetD)
  obtain bs where "hex_DecodeString s = Some bs" "hex_EncodeToString bs = s" "2 * length bs = length s"
    using 3 by auto
  moreover have "(16 * h + l) mod 256 = 16 * h + l" using hl by simp
  ultimately show ?case using hl by (simp add: hex_encode_Cons of_char_of)
qed

text \<open>For an execution identifier that is a UUID in lower case the trace has the same digits.\<close>

theorem trace_id_of_uuid:
  assumes "length bytes = 16" and "length (filter (\<lambda>c. c \<noteq> CHR ''-'') execID) = 32"
    and "set (filter (\<lambda>c. c \<noteq> CHR ''-'') execID) \<subseteq> set hexDigits"
  shows "map_option TraceID (newTraceContext projectID (Some bytes) execID res) = Some (filter (\<lambda>c. c \<noteq> CHR ''-'') execID)"
proof -
  obtain bs where "hex_DecodeString (filter (\<lambda>c. c \<noteq> CHR ''-'') execID) = Some bs"
    "hex_EncodeToString bs = filter (\<lambda>c. c \<noteq> CHR ''-'') execID" "length bs = 16"
    using decode_encode [OF assms(3)] assms(2) by auto
  moreover have "execID \<noteq> []" using assms(2) by auto
  ultimately show ?thesis using assms(1) by (simp add: newTraceContext_def TraceID_def)
qed

section \<open>Examples\<close>

definition demo_sha :: "string \<Rightarrow> string" where
  "demo_sha name = take 32 (name @ replicate 32 (CHR ''0''))"

definition demo_command :: cloud_record where
  "demo_command = \<lparr>cdOutputs = [''out/a.o''], cdWorkingDir = ''out'', cdCommandId = ''c'', cdInvocationId = ''i'',
     cdCorrelatedInvocationsId = [], cdToolName = ''tool'', cdToolVersion = ''1'',
     cdExecutionId = ''0123abcd-4567-89ef-0123-456789abcdef'', cdStatus = SUCCESS, cdExitCode = 0, cdMsg = [],
     cdRemote = Some \<lparr>crActionDigest = ''d/1'', crStatus = SUCCESS, crExitCode = 0, crCacheHit = False, crNumInputFiles = 1,
       crNumInputDirectories = 1, crTotalInputBytes = 10, crNumOutputFiles = 1, crNumOutputDirectories = 0, crTotalOutputBytes = 5,
       crEventTimes = [(''ServerQueued'', Some 2000000000, Some 4000000000), (''ServerWorkerExecution'', None, None)]\<rparr>,
     cdLocal = Some \<lparr>clStatus = SUCCESS, clExitCode = 0, clExecutedLocally = False, clValidCacheHit = False,
       clUpdatedCache = False, clLabels = [(''type'', ''tool'')],
       clEventTimes = [(''ProcessInputs'', Some 1000000000, Some 2000000000)]\<rparr>\<rparr>"

definition demo_cloud_config :: cloud_config where
  "demo_cloud_config = \<lparr>cfSha = demo_sha, cfSpanThreshold = 1000, cfTraceThreshold = 1000000000, cfBatchSize = 1,
     cfProject = ''p'', cfRes = Map.empty\<rparr>"

definition demo_export :: "span list \<times> convert_error option \<times> span list list" where
  "demo_export = convert demo_cloud_config (\<lambda>sent b. length sent < 1) (replicate 2 (demo_command\<lparr>cdExecutionId := [], cdRemote := None\<rparr>, Some (replicate 16 (CHR ''0''))))"

theorem convert_reports_written_witness:
  "fst (snd demo_export) = Some ExportFailed \<and> length (fst demo_export) = 2 \<and> fst demo_export = concat (snd (snd demo_export))"
proof -
  have "convert demo_cloud_config (\<lambda>sent b. length sent < 1) (replicate 2 (demo_command\<lparr>cdExecutionId := [], cdRemote := None\<rparr>, Some (replicate 16 (CHR ''0'')))) =
      (fst demo_export, fst (snd demo_export), snd (snd demo_export))" by (simp add: demo_export_def)
  moreover have "fst (snd demo_export) = Some ExportFailed" "length (fst demo_export) = 2" by code_simp+
  ultimately show ?thesis using convert_reports_written by blast
qed

definition demo_spans :: "span list" where
  "demo_spans = record_spans demo_sha 1000 1000000000 \<lparr>tcProject = ''p'', tcTraceID = [], tcRes = Map.empty\<rparr> demo_command"

theorem children_inside_command_witness:
  "length demo_spans = 3 \<and>
   list_all (inside (snSpanId (last demo_spans)) (snStartTime (last demo_spans)) (snEndTime (last demo_spans))) (butlast demo_spans)"
proof -
  have l: "length demo_spans = 3" by code_simp
  then have "demo_spans = butlast demo_spans @ [last demo_spans]" by (cases "demo_spans = []") auto
  moreover have "\<forall>rm. cdRemote demo_command = Some rm \<longrightarrow> forward (crEventTimes rm)"
    by (simp add: demo_command_def forward_def zeroTime_def)
  moreover have "\<forall>lm. cdLocal demo_command = Some lm \<longrightarrow> forward (clEventTimes lm) \<and> has_event (clEventTimes lm)"
    by (simp add: demo_command_def forward_def has_event_def zeroTime_def)
  ultimately show ?thesis
    using children_inside_command [of demo_command demo_sha 1000 1000000000 "\<lparr>tcProject = ''p'', tcTraceID = [], tcRes = Map.empty\<rparr>"
        "butlast demo_spans" "last demo_spans"] l by (simp add: demo_spans_def)
qed

text \<open>Local metadata without timed events moves the start of a command that ran remotely to the zero
  time.\<close>

lemma untimed_local_moves_start:
  "snStartTime (last (record_spans demo_sha 1000 1000000000 \<lparr>tcProject = ''p'', tcTraceID = [], tcRes = Map.empty\<rparr>
     (demo_command\<lparr>cdLocal := map_option (\<lambda>lm. lm\<lparr>clEventTimes := []\<rparr>) (cdLocal demo_command)\<rparr>))) = zeroTime"
  by code_simp

theorem trace_id_of_uuid_witness:
  "map_option TraceID (newTraceContext ''p'' (Some (replicate 16 (CHR ''0''))) ''0123abcd-4567-89ef-0123-456789abcdef'' Map.empty) =
   Some ''0123abcd456789ef0123456789abcdef''"
  using trace_id_of_uuid [of "replicate 16 (CHR ''0'')" "''0123abcd-4567-89ef-0123-456789abcdef''" "''p''" Map.empty]
  by (simp add: hexDigits_def)

end
