(* ===== verification/LogCollection.thy ===== *)
theory LogCollection
  imports TypeScript Logger Compare
begin

text \<open>
  Log files and mismatches: which files belong to the logs of a build, the archive and the uploads
  made of them (\<open>collectlogfiles\<close>), archives read back as a file system (\<open>tarfs\<close>), and the outputs
  of mismatching actions that are downloaded and compared (\<open>downloadmismatch\<close>).

  The disk is an argument (listings in the order \<open>filepath.Glob\<close> sorts them). Merkle trees, blobs
  and uploads belong to the remote execution client and are arguments too. Patterns nest less than
  the ten thousand levels \<open>Glob\<close> allows.
\<close>

section \<open>filepath.Glob\<close>

record log_disk =
  ldNames :: "string \<Rightarrow> string list option"
  ldExists :: "string \<Rightarrow> bool"
  ldOpen :: "string \<Rightarrow> (nat \<times> string) option"

definition hasMeta :: "string \<Rightarrow> bool" where
  "hasMeta p \<longleftrightarrow> list_ex (\<lambda>c. c = CHR ''*'' \<or> c = CHR ''?'' \<or> c = CHR ''['' \<or> c = CHR 0x5C) p"

definition path_Split :: "string \<Rightarrow> string \<times> string" where
  "path_Split p = (rev (dropWhile (\<lambda>c. c \<noteq> CHR ''/'') (rev p)), rev (takeWhile (\<lambda>c. c \<noteq> CHR ''/'') (rev p)))"

definition cleanGlobPath :: "string \<Rightarrow> string" where
  "cleanGlobPath d = (if d = [] then ''.'' else if d = ''/'' then d else butlast d)"

text \<open>The entries of a directory that match; \<open>None\<close> is a malformed pattern.\<close>

definition glob_dir :: "log_disk \<Rightarrow> string \<Rightarrow> string \<Rightarrow> string list option" where
  "glob_dir D pattern dir =
     (case ldNames D dir of
        None \<Rightarrow> Some []
      | Some names \<Rightarrow>
         if list_ex (\<lambda>n. Match pattern n = None) names then None
         else Some (map (\<lambda>n. Join [dir, n]) (filter (\<lambda>n. Match pattern n = Some True) names)))"

lemma split_shorter: "hasMeta (cleanGlobPath (fst (path_Split p))) \<Longrightarrow> length (cleanGlobPath (fst (path_Split p))) < length p"
proof -
  assume m: "hasMeta (cleanGlobPath (fst (path_Split p)))"
  have "length (fst (path_Split p)) \<le> length p" by (simp add: path_Split_def length_dropWhile_le [of _ "rev p", simplified])
  moreover have "fst (path_Split p) \<noteq> []" "fst (path_Split p) \<noteq> ''/''"
    using m by (auto simp: cleanGlobPath_def hasMeta_def)
  ultimately show ?thesis by (cases "fst (path_Split p)") (auto simp: cleanGlobPath_def)
qed

function Glob :: "log_disk \<Rightarrow> string \<Rightarrow> string list option" where
  "Glob D pattern =
     (if glob_parse pattern = None then None
      else if \<not> hasMeta pattern then Some (if ldExists D pattern then [pattern] else [])
      else
        let f = snd (path_Split pattern); dir = cleanGlobPath (fst (path_Split pattern)) in
        if \<not> hasMeta dir then glob_dir D f dir
        else if dir = pattern then None
        else case Glob D dir of
               None \<Rightarrow> None
             | Some dirs \<Rightarrow> map_option concat (those (map (glob_dir D f) dirs)))"
  by pat_completeness auto
termination by (relation "measure (length \<circ> snd)") (auto dest: split_shorter)

declare Glob.simps [simp del]

section \<open>Log files\<close>

definition glogGlobs :: "string list \<Rightarrow> string list" where
  "glogGlobs binaries =
     concat (map (\<lambda>b. map ((@) b) [''.INFO'', ''.WARNING'', ''.ERROR'', ''.exe.INFO'', ''.exe.WARNING'', ''.exe.ERROR'',
       ''.*.log.INFO.*'', ''.*.log.WARNING.*'', ''.*.log.ERROR.*'']) binaries)"

definition logFileGlobs :: "string list" where
  "logFileGlobs =
     [''rbe_metrics.txt'', ''rbe_metrics.pb'', ''*.rpl'', ''*.rrpl'', ''reproxy_outerr.log'', ''build.trace.gz''] @
     glogGlobs [''bootstrap'', ''credshelper'', ''reproxy'', ''rewrapper'', ''scandeps_server'', ''scandeps_server-subproc'', ''metricsuploader'']"

definition collectLogFilesFromDir :: "log_disk \<Rightarrow> string \<Rightarrow> string list" where
  "collectLogFilesFromDir D logDir =
     concat (map (\<lambda>g. case Glob D (Join [logDir, g]) of Some files \<Rightarrow> files | None \<Rightarrow> []) logFileGlobs)"

section \<open>Archives\<close>

text \<open>The tar writer: whole entries, and the bytes its last header promised that are still missing.\<close>

record tar_writer =
  twEntries :: "(string \<times> string) list"
  twMissing :: nat

datatype archive_error = OpenFailed | MissedWriting | WriteTooLong | NoLogFiles | BadLogPath | CreateFailed | CloseFailed

text \<open>A file has a size when it is opened and the content read from it later.\<close>

definition addFileToArchive :: "log_disk \<Rightarrow> tar_writer \<Rightarrow> string \<Rightarrow> tar_writer \<times> archive_error option" where
  "addFileToArchive D tw path =
     (case ldOpen D path of
        None \<Rightarrow> (tw, Some OpenFailed)
      | Some (sz, content) \<Rightarrow>
         if twMissing tw \<noteq> 0 then (tw, Some MissedWriting)
         else if sz < length content then
           (\<lparr>twEntries = twEntries tw @ [(path, take sz content)], twMissing = 0\<rparr>, Some WriteTooLong)
         else (\<lparr>twEntries = twEntries tw @ [(path, content)], twMissing = sz - length content\<rparr>, None))"

primrec add_files :: "log_disk \<Rightarrow> string list \<Rightarrow> tar_writer \<Rightarrow> tar_writer \<times> archive_error option" where
  "add_files D [] tw = (tw, None)"
| "add_files D (f # fs) tw =
     (case addFileToArchive D tw f of
        (tw', None) \<Rightarrow> add_files D fs tw'
      | (tw', Some e) \<Rightarrow> (tw', Some e))"

text \<open>The files to archive; \<open>None\<close> is a log path that cannot be parsed.\<close>

definition archive_files :: "log_disk \<Rightarrow> string list \<Rightarrow> string \<Rightarrow> string list option" where
  "archive_files D logDirs logPath =
     (let logFiles = concat (map (collectLogFilesFromDir D) logDirs) in
      if logPath = [] then Some logFiles
      else case ParseFilepath logPath of
             Ok (_, fp) \<Rightarrow> Some (if ldExists D fp then logFiles @ [fp] else logFiles)
           | _ \<Rightarrow> None)"

text \<open>\<open>closes\<close> are the outcomes of closing the compressor and the file: the first error stays.\<close>

definition CreateLogsArchive ::
  "log_disk \<Rightarrow> bool \<Rightarrow> bool \<times> bool \<Rightarrow> string list \<Rightarrow> string \<Rightarrow> archive_error + (string \<times> string) list" where
  "CreateLogsArchive D creates closes logDirs logPath =
     (case archive_files D logDirs logPath of
        None \<Rightarrow> Inl BadLogPath
      | Some fs \<Rightarrow>
         if fs = [] then Inl NoLogFiles
         else if \<not> creates then Inl CreateFailed
         else (case add_files D fs \<lparr>twEntries = [], twMissing = 0\<rparr> of
                 (_, Some e) \<Rightarrow> Inl e
               | (tw, None) \<Rightarrow>
                  if twMissing tw \<noteq> 0 then Inl MissedWriting
                  else if \<not> fst closes \<or> \<not> snd closes then Inl CloseFailed
                  else Inr (twEntries tw)))"

section \<open>Uploads\<close>

text \<open>\<open>real\<close> resolves symbolic links and makes a path absolute.\<close>

primrec dedup_dirs :: "(string \<Rightarrow> string option) \<Rightarrow> string list \<Rightarrow> string list \<Rightarrow> string list" where
  "dedup_dirs real [] out = out"
| "dedup_dirs real (d # ds) out =
     dedup_dirs real ds
       (case real d of
          None \<Rightarrow> out
        | Some a \<Rightarrow> if a \<in> set out then out else out @ [a])"

definition DeduplicateDirs :: "(string \<Rightarrow> string option) \<Rightarrow> string list \<Rightarrow> string list" where
  "DeduplicateDirs real dirs = dedup_dirs real dirs []"

definition dir_files :: "log_disk \<Rightarrow> string \<Rightarrow> string list" where
  "dir_files D dir = ListRelToExecRoot dir [] (collectLogFilesFromDir D dir)"

text \<open>The trees to upload: \<open>pending\<close> is the resolved log path while no directory has taken it.\<close>

primrec upload_trees :: "log_disk \<Rightarrow> string option \<Rightarrow> string list \<Rightarrow> (string \<times> string list) list" where
  "upload_trees D pending [] = (case pending of None \<Rightarrow> [] | Some p \<Rightarrow> [(Dir p, [Base p])])"
| "upload_trees D pending (dir # dirs) =
     (case pending of
        None \<Rightarrow> (dir, dir_files D dir) # upload_trees D None dirs
      | Some p \<Rightarrow>
         if Join [dir, Base p] = p then (dir, dir_files D dir @ [Base p]) # upload_trees D None dirs
         else (dir, dir_files D dir) # upload_trees D (Some p) dirs)"

text \<open>\<open>appendRootDigests\<close>: trees that cannot be computed are skipped.\<close>

fun appendRootDigests ::
  "(string \<Rightarrow> string list \<Rightarrow> (string \<times> 'e list) option) \<Rightarrow> (string \<times> string list) list \<Rightarrow> (string \<times> string) list \<times> 'e list" where
  "appendRootDigests merkle [] = ([], [])"
| "appendRootDigests merkle ((dir, files) # ts) =
     (case appendRootDigests merkle ts of (lds, inputs) \<Rightarrow>
        (case merkle dir files of
           None \<Rightarrow> (lds, inputs)
         | Some (root, new) \<Rightarrow> ((dir, root) # lds, new @ inputs)))"

datatype upload_error = UploadBadLogPath | UploadNoRealPath | UploadFailed

definition UploadDirsToCas ::
  "log_disk \<Rightarrow> (string \<Rightarrow> string option) \<Rightarrow> (string \<Rightarrow> string list \<Rightarrow> (string \<times> 'e list) option) \<Rightarrow> ('e list \<Rightarrow> bool) \<Rightarrow>
   string list \<Rightarrow> string \<Rightarrow> upload_error + (string \<times> string) list" where
  "UploadDirsToCas D real merkle uploads dirs logPath =
     (let run = (\<lambda>pending. case appendRootDigests merkle (upload_trees D pending dirs) of (lds, inputs) \<Rightarrow>
            if uploads inputs then Inr lds else Inl UploadFailed) in
      if logPath = [] then run None
      else case ParseFilepath logPath of
             Ok (_, fp) \<Rightarrow> (case real fp of None \<Rightarrow> Inl UploadNoRealPath | Some p \<Rightarrow> run (Some p))
           | _ \<Rightarrow> Inl UploadBadLogPath)"

section \<open>Archives as file systems\<close>

record FileInTar =
  fitPath :: string
  fitData :: string
  fitMode :: nat
  fitIsDir :: bool
  curReadOffset :: nat

definition NewOpenFile :: "FileInTar \<Rightarrow> FileInTar" where
  "NewOpenFile f = f\<lparr>curReadOffset := 0\<rparr>"

definition TarFS_Open :: "(string \<rightharpoonup> FileInTar) \<Rightarrow> string \<Rightarrow> FileInTar option" where
  "TarFS_Open fs name = map_option NewOpenFile (fs name)"

text \<open>\<open>Read\<close> into a buffer of \<open>n\<close> bytes; \<open>None\<close> is the end of the file.\<close>

definition tar_Read :: "nat \<Rightarrow> FileInTar \<Rightarrow> string option \<times> FileInTar" where
  "tar_Read n f =
     (if curReadOffset f \<ge> length (fitData f) then (None, f)
      else let endIdx = min (length (fitData f)) (curReadOffset f + n);
               p = take (endIdx - curReadOffset f) (drop (curReadOffset f) (fitData f)) in
           (Some p, f\<lparr>curReadOffset := curReadOffset f + length p\<rparr>))"

definition tar_Close :: "FileInTar \<Rightarrow> FileInTar" where
  "tar_Close f = f\<lparr>curReadOffset := 0, fitData := []\<rparr>"

definition tar_Size :: "FileInTar \<Rightarrow> nat" where
  "tar_Size f = length (fitData f)"

definition tar_Name :: "FileInTar \<Rightarrow> string" where
  "tar_Name f = Base (fitPath f)"

datatype tar_type = TypeDir | TypeReg | TypeOther

text \<open>\<open>NewTarFSFromBytes\<close> over what the tar reader returns: headers with the bytes that follow, or an
  error.\<close>

fun tar_contents ::
  "(tar_type \<times> string \<times> nat \<times> string option) option list \<Rightarrow> (string \<rightharpoonup> FileInTar) \<Rightarrow> (string \<rightharpoonup> FileInTar) option" where
  "tar_contents [] fs = Some fs"
| "tar_contents (None # es) fs = None"
| "tar_contents (Some (ty, name, mode, body) # es) fs =
     (let path = Clean name;
          entry = \<lparr>fitPath = Base path, fitData = [], fitMode = mode, fitIsDir = True, curReadOffset = 0\<rparr> in
      case ty of
        TypeDir \<Rightarrow> tar_contents es (fs(path \<mapsto> entry))
      | TypeReg \<Rightarrow>
         (case body of
            None \<Rightarrow> None
          | Some b \<Rightarrow> tar_contents es (fs(path \<mapsto> entry\<lparr>fitData := b, fitIsDir := False\<rparr>)))
      | TypeOther \<Rightarrow> None)"

definition NewTarFSFromBytes ::
  "(tar_type \<times> string \<times> nat \<times> string option) option list \<Rightarrow> (string \<rightharpoonup> FileInTar) option" where
  "NewTarFSFromBytes es = tar_contents es Map.empty"

text \<open>A client that reads to the end with a buffer of \<open>n\<close> bytes, as \<open>io.ReadAll\<close> does.\<close>

function tar_read_all :: "nat \<Rightarrow> FileInTar \<Rightarrow> string" where
  "tar_read_all n f =
     (if n = 0 then []
      else case tar_Read n f of
             (None, _) \<Rightarrow> []
           | (Some p, f') \<Rightarrow> p @ tar_read_all n f')"
  by pat_completeness auto
termination
  by (relation "measure (\<lambda>(n, f). length (fitData f) - curReadOffset f)")
    (auto simp: tar_Read_def Let_def min_def split: if_splits)

declare tar_read_all.simps [simp del]

section \<open>The log files of a directory\<close>

lemma Join_file:
  assumes "IsAbs d" and "Clean d = d" and "d \<noteq> ''/''" and "plain_elem n" and "n \<noteq> ''..''"
  shows "Join [d, n] = d @ CHR ''/'' # n"
proof -
  have d: "d = CHR ''/'' # path_join (clean_elems d)" using assms(1,2) by (simp add: Clean_def render_path_def)
  then have ne: "clean_elems d \<noteq> []" using assms(3) by auto
  have "Join [d, n] = CHR ''/'' # path_join (clean_elems (Join [d, n]))"
    using assms(1) by (metis Clean_def Clean_idem IsAbs_Join Join_abs render_path_def)
  also have "clean_elems (Join [d, n]) = clean_elems d @ [n]"
    using assms(4,5) by (simp add: clean_elems_Join2 [OF assms(1)] split_on_notin plain_elem_def push_elem_def)
  finally have "Join [d, n] = (CHR ''/'' # path_join (clean_elems d)) @ CHR ''/'' # n" using path_join_snoc [OF ne] by simp
  then show ?thesis using d by simp
qed

lemma hasMeta_Cons [simp]:
  "hasMeta (c # p) \<longleftrightarrow> c = CHR ''*'' \<or> c = CHR ''?'' \<or> c = CHR ''['' \<or> c = CHR 0x5C \<or> hasMeta p"
  by (auto simp: hasMeta_def)

lemma hasMeta_append [simp]: "hasMeta (p @ q) \<longleftrightarrow> hasMeta p \<or> hasMeta q"
  by (simp add: hasMeta_def)

lemma glob_parse_literal: "\<not> hasMeta p \<Longrightarrow> glob_parse (p @ q) = map_option ((@) (map GLit p)) (glob_parse q)"
  by (cases "glob_parse q"; induction p) auto

lemma glob_match_literal: "glob_match (map GLit g) n \<longleftrightarrow> n = g"
  by (induction g arbitrary: n) (auto split: list.splits)

lemma Match_literal: "\<not> hasMeta g \<Longrightarrow> Match g n = Some (n = g)"
  using glob_parse_literal [of g "[]"] by (simp add: Match_def glob_match_literal)

lemma path_Split_file: "CHR ''/'' \<notin> set g \<Longrightarrow> path_Split (d @ CHR ''/'' # g) = (d @ ''/'', g)"
proof -
  assume g: "CHR ''/'' \<notin> set g"
  have "dropWhile (\<lambda>c. c \<noteq> CHR ''/'') (rev g @ CHR ''/'' # rev d) = CHR ''/'' # rev d"
    using g by (subst dropWhile_append2) auto
  moreover have "takeWhile (\<lambda>c. c \<noteq> CHR ''/'') (rev g @ CHR ''/'' # rev d) = rev g"
    using g by (subst takeWhile_append2) auto
  ultimately show ?thesis by (simp add: path_Split_def)
qed

text \<open>A directory: its entries are plain names, and what exists in it are its entries.\<close>

definition dir_ok :: "log_disk \<Rightarrow> string \<Rightarrow> string list \<Rightarrow> bool" where
  "dir_ok D d names \<longleftrightarrow> IsAbs d \<and> Clean d = d \<and> d \<noteq> ''/'' \<and> ldNames D d = Some names \<and>
     (\<forall>n \<in> set names. plain_elem n \<and> n \<noteq> ''..'') \<and> (\<forall>n. plain_elem n \<longrightarrow> ldExists D (d @ CHR ''/'' # n) = (n \<in> set names))"

definition plain_glob :: "string \<Rightarrow> bool" where
  "plain_glob g \<longleftrightarrow> plain_elem g \<and> g \<noteq> ''..'' \<and> glob_parse g \<noteq> None"

lemma logFileGlobs_plain: "g \<in> set logFileGlobs \<Longrightarrow> plain_glob g"
proof -
  have "list_all plain_glob logFileGlobs" by code_simp
  then show "g \<in> set logFileGlobs \<Longrightarrow> ?thesis" by (simp add: list_all_iff)
qed

lemma Glob_file:
  assumes "dir_ok D d names" and "\<not> hasMeta d" and "plain_glob g"
  shows "\<exists>fs. Glob D (Join [d, g]) = Some fs \<and> set fs = (\<lambda>n. d @ CHR ''/'' # n) ` {n \<in> set names. Match g n = Some True}"
proof -
  have d: "IsAbs d" "Clean d = d" "d \<noteq> ''/''" and names: "ldNames D d = Some names" using assms(1) by (auto simp: dir_ok_def)
  have g: "plain_elem g" "g \<noteq> ''..''" "glob_parse g \<noteq> None" "CHR ''/'' \<notin> set g"
    using assms(3) by (auto simp: plain_glob_def plain_elem_def)
  have j: "Join [d, g] = d @ CHR ''/'' # g" using Join_file d g by blast
  obtain items where parse: "glob_parse (d @ CHR ''/'' # g) = Some items"
    using glob_parse_literal [of "d @ ''/''" g] assms(2) g(3) by (auto simp: hasMeta_def)
  show ?thesis
  proof (cases "hasMeta g")
    case True
    have "cleanGlobPath (d @ ''/'') = d" using d by (auto simp: cleanGlobPath_def IsAbs_def)
    then have "Glob D (d @ CHR ''/'' # g) = glob_dir D g d"
      using parse True assms(2) by (subst Glob.simps) (simp add: path_Split_file [OF g(4)])
    moreover have "Match g n \<noteq> None" for n using g(3) by (auto simp: Match_def)
    then have "glob_dir D g d = Some (map (\<lambda>n. Join [d, n]) (filter (\<lambda>n. Match g n = Some True) names))"
      using names by (simp add: glob_dir_def list_ex_iff)
    moreover have "Join [d, n] = d @ CHR ''/'' # n" if "n \<in> set names" for n
      using Join_file [OF d] assms(1) that by (auto simp: dir_ok_def)
    ultimately show ?thesis using j by (auto simp: image_iff)
  next
    case False
    then have "Glob D (d @ CHR ''/'' # g) = Some (if ldExists D (d @ CHR ''/'' # g) then [d @ CHR ''/'' # g] else [])"
      using parse assms(2) by (subst Glob.simps) (simp add: hasMeta_def)
    moreover have "ldExists D (d @ CHR ''/'' # g) = (g \<in> set names)" using assms(1) g(1) by (auto simp: dir_ok_def)
    ultimately show ?thesis using j Match_literal [OF False] by auto
  qed
qed

text \<open>The files collected from a directory whose path has no pattern characters are exactly its
  entries that match one of the log file patterns.\<close>

theorem collectLogFilesFromDir_exact:
  assumes "dir_ok D d names" and "\<not> hasMeta d"
  shows "set (collectLogFilesFromDir D d) =
    (\<lambda>n. d @ CHR ''/'' # n) ` {n \<in> set names. \<exists>g \<in> set logFileGlobs. Match g n = Some True}"
proof -
  have "set (case Glob D (Join [d, g]) of Some files \<Rightarrow> files | None \<Rightarrow> []) =
      (\<lambda>n. d @ CHR ''/'' # n) ` {n \<in> set names. Match g n = Some True}" if "g \<in> set logFileGlobs" for g
    using Glob_file [OF assms logFileGlobs_plain [OF that]] by auto
  then have "set (collectLogFilesFromDir D d) =
      (\<Union>g \<in> set logFileGlobs. (\<lambda>n. d @ CHR ''/'' # n) ` {n \<in> set names. Match g n = Some True})"
    by (simp add: collectLogFilesFromDir_def)
  also have "\<dots> = (\<lambda>n. d @ CHR ''/'' # n) ` {n \<in> set names. \<exists>g \<in> set logFileGlobs. Match g n = Some True}" by auto
  finally show ?thesis .
qed

definition demo_log_disk :: "string \<Rightarrow> log_disk" where
  "demo_log_disk d =
     (let names = [''a.rpl'', ''notes'', ''reproxy.INFO''] in
      \<lparr>ldNames = (\<lambda>p. if p = d then Some names else None),
       ldExists = (\<lambda>p. p \<in> set (map (\<lambda>n. d @ CHR ''/'' # n) names)),
       ldOpen = (\<lambda>p. if Clean p \<in> set (map (\<lambda>n. d @ CHR ''/'' # n) names) then Some (length (Clean p), Clean p) else None)\<rparr>)"

theorem collectLogFilesFromDir_exact_witness:
  "''/tmp/logs/a.rpl'' \<in> set (collectLogFilesFromDir (demo_log_disk ''/tmp/logs'') ''/tmp/logs'') \<and>
   ''/tmp/logs/notes'' \<notin> set (collectLogFilesFromDir (demo_log_disk ''/tmp/logs'') ''/tmp/logs'')"
proof -
  have c: "Clean ''/tmp/logs'' = ''/tmp/logs''" by code_simp
  have ok: "dir_ok (demo_log_disk ''/tmp/logs'') ''/tmp/logs'' [''a.rpl'', ''notes'', ''reproxy.INFO'']"
    using c by (simp add: dir_ok_def demo_log_disk_def plain_elem_def IsAbs_def)
  have m: "\<not> hasMeta ''/tmp/logs''" by (simp add: hasMeta_def)
  have y: "\<exists>g \<in> set logFileGlobs. Match g ''a.rpl'' = Some True"
  proof
    show "Match ''*.rpl'' ''a.rpl'' = Some True" by code_simp
    show "''*.rpl'' \<in> set logFileGlobs" by (simp add: logFileGlobs_def)
  qed
  have n: "\<not> (\<exists>g \<in> set logFileGlobs. Match g ''notes'' = Some True)"
  proof -
    have "list_all (\<lambda>g. Match g ''notes'' \<noteq> Some True) logFileGlobs" by code_simp
    then show ?thesis by (simp add: list_all_iff)
  qed
  show ?thesis using collectLogFilesFromDir_exact [OF ok m] y n by (auto simp: image_iff)
qed

text \<open>A directory whose name has brackets is taken for a pattern: its log files are not found.\<close>

lemma bracket_dir_not_found: "Glob (demo_log_disk ''/b[1]'') (Join [''/b[1]'', ''reproxy.INFO'']) = Some []"
  by code_simp

section \<open>Archives read back\<close>

lemma add_files_ok:
  assumes "add_files D fs tw = (tw', None)" and "twMissing tw' = 0"
  shows "twMissing tw = 0 \<and> twEntries tw' = twEntries tw @ map (\<lambda>f. (f, snd (the (ldOpen D f)))) fs"
  using assms
proof (induction fs arbitrary: tw)
  case (Cons f fs)
  show ?case
  proof (cases "addFileToArchive D tw f")
    case (Pair tw1 e)
    then have e: "e = None" "add_files D fs tw1 = (tw', None)" using Cons.prems(1) by (auto split: option.splits)
    then have "twMissing tw1 = 0" "twEntries tw' = twEntries tw1 @ map (\<lambda>f. (f, snd (the (ldOpen D f)))) fs"
      using Cons.IH Cons.prems(2) by auto
    then show ?thesis using Pair e(1) by (auto simp: addFileToArchive_def split: option.splits prod.splits if_splits)
  qed
qed simp

lemma add_files_open: "add_files D fs tw = (tw', None) \<Longrightarrow> f \<in> set fs \<Longrightarrow> ldOpen D f \<noteq> None"
  by (induction fs arbitrary: tw) (auto simp: addFileToArchive_def split: prod.splits option.splits if_splits)

lemma tar_contents_upd:
  assumes "\<forall>(n, b) \<in> set es. \<forall>(m, c) \<in> set es. Clean n = Clean m \<longrightarrow> b = c"
  shows "\<exists>fs'. tar_contents (map (\<lambda>(n, b). Some (TypeReg, n, mode, Some b)) es) fs = Some fs' \<and>
    (\<forall>(n, b) \<in> set es. \<exists>f. fs' (Clean n) = Some f \<and> fitData f = b \<and> \<not> fitIsDir f) \<and>
    (\<forall>p. p \<notin> (\<lambda>(n, b). Clean n) ` set es \<longrightarrow> fs' p = fs p)"
  using assms
proof (induction es arbitrary: fs)
  case (Cons e es)
  obtain n b where e: "e = (n, b)" by (cases e)
  let ?entry = "\<lparr>fitPath = Base (Clean n), fitData = b, fitMode = mode, fitIsDir = False, curReadOffset = 0\<rparr>"
  have "\<forall>(n, b) \<in> set es. \<forall>(m, c) \<in> set es. Clean n = Clean m \<longrightarrow> b = c" using Cons.prems by auto
  from Cons.IH [OF this, of "fs(Clean n \<mapsto> ?entry)"] obtain fs' where
    run: "tar_contents (map (\<lambda>(n, b). Some (TypeReg, n, mode, Some b)) es) (fs(Clean n \<mapsto> ?entry)) = Some fs'"
    and there: "\<forall>(n, b) \<in> set es. \<exists>f. fs' (Clean n) = Some f \<and> fitData f = b \<and> \<not> fitIsDir f"
    and other: "\<forall>p. p \<notin> (\<lambda>(n, b). Clean n) ` set es \<longrightarrow> fs' p = (fs(Clean n \<mapsto> ?entry)) p" by blast
  have "\<exists>f. fs' (Clean n) = Some f \<and> fitData f = b \<and> \<not> fitIsDir f"
  proof (cases "Clean n \<in> (\<lambda>(n, b). Clean n) ` set es")
    case True
    then obtain m c where m: "(m, c) \<in> set es" "Clean m = Clean n" by auto
    moreover have "c = b" using Cons.prems e m by fastforce
    ultimately show ?thesis using there by fastforce
  next
    case False
    then show ?thesis using other by simp
  qed
  then show ?case using run there other e by (auto simp: Let_def)
qed simp

lemma tar_read_all_rest: "0 < n \<Longrightarrow> tar_read_all n f = drop (curReadOffset f) (fitData f)"
proof (induction n f rule: tar_read_all.induct)
  case (1 n f)
  show ?case
  proof (cases "curReadOffset f \<ge> length (fitData f)")
    case True
    then show ?thesis using 1(2) by (subst tar_read_all.simps) (simp add: tar_Read_def)
  next
    case False
    let ?p = "take n (drop (curReadOffset f) (fitData f))"
    have r: "tar_Read n f = (Some ?p, f\<lparr>curReadOffset := curReadOffset f + length ?p\<rparr>)"
      using False by (auto simp: tar_Read_def Let_def min_def)
    have "tar_read_all n f = ?p @ drop (curReadOffset f + length ?p) (fitData f)"
      using 1(1) [OF _ r [symmetric] refl] 1(2) r by (subst tar_read_all.simps) simp
    also have "drop (curReadOffset f + length ?p) (fitData f) = drop n (drop (curReadOffset f) (fitData f))"
      by (cases "n \<le> length (fitData f) - curReadOffset f") (auto simp: min_def add.commute)
    finally show ?thesis by (simp only: append_take_drop_id)
  qed
qed

lemma archive_files_all:
  "archive_files D logDirs logPath = Some fs \<Longrightarrow> set (concat (map (collectLogFilesFromDir D) logDirs)) \<subseteq> set fs"
  by (auto simp: archive_files_def Let_def split: if_splits res.splits)

text \<open>C35: An archive that was written without error, read back through the in-memory file system with any
  buffer: every log file collected is there with the content it had.\<close>

theorem archive_roundtrip:
  assumes "CreateLogsArchive D creates closes logDirs logPath = Inr entries"
    and "\<And>p q. Clean p = Clean q \<Longrightarrow> ldOpen D p = ldOpen D q" and "0 < buf"
  shows "\<exists>fs. NewTarFSFromBytes (map (\<lambda>(n, b). Some (TypeReg, n, mode, Some b)) entries) = Some fs \<and>
    (\<forall>d \<in> set logDirs. \<forall>p \<in> set (collectLogFilesFromDir D d).
       \<exists>f sz. TarFS_Open fs (Clean p) = Some f \<and> ldOpen D p = Some (sz, tar_read_all buf f))"
proof -
  let ?content = "\<lambda>f. snd (the (ldOpen D f))"
  obtain files tw where all: "archive_files D logDirs logPath = Some files"
    and add: "add_files D files \<lparr>twEntries = [], twMissing = 0\<rparr> = (tw, None)" "twMissing tw = 0" "entries = twEntries tw"
    using assms(1) by (auto simp: CreateLogsArchive_def split: if_splits option.splits prod.splits)
  note files = archive_files_all [OF all]
  have es: "entries = map (\<lambda>f. (f, ?content f)) files" using add_files_ok [OF add(1,2)] add(3) by simp
  have op: "ldOpen D f \<noteq> None" if "f \<in> set files" for f
    using add_files_open [OF add(1)] that by blast
  have same: "?content p = ?content q" if "Clean p = Clean q" for p q using assms(2) [OF that] by simp
  have "\<forall>(n, b) \<in> set entries. \<forall>(m, c) \<in> set entries. Clean n = Clean m \<longrightarrow> b = c"
    by (auto simp: es intro: same)
  from tar_contents_upd [OF this, of mode Map.empty] obtain fs where
    fs: "NewTarFSFromBytes (map (\<lambda>(n, b). Some (TypeReg, n, mode, Some b)) entries) = Some fs"
    and there: "\<forall>(n, b) \<in> set entries. \<exists>f. fs (Clean n) = Some f \<and> fitData f = b \<and> \<not> fitIsDir f"
    by (auto simp: NewTarFSFromBytes_def)
  have "\<exists>f sz. TarFS_Open fs (Clean p) = Some f \<and> ldOpen D p = Some (sz, tar_read_all buf f)" if p: "p \<in> set files" for p
  proof -
    obtain f where "fs (Clean p) = Some f" "fitData f = ?content p" using there p by (auto simp: es)
    moreover obtain sz c where "ldOpen D p = Some (sz, c)" using op [OF p] by auto
    ultimately show ?thesis using tar_read_all_rest [OF assms(3)] by (simp add: TarFS_Open_def NewOpenFile_def)
  qed
  then show ?thesis using fs files by auto
qed

definition demo_archive :: "(string \<times> string) list" where
  "demo_archive = [(''/tmp/logs/a.rpl'', ''/tmp/logs/a.rpl''), (''/tmp/logs/reproxy.INFO'', ''/tmp/logs/reproxy.INFO'')]"

theorem archive_roundtrip_witness:
  "\<exists>fs f. NewTarFSFromBytes (map (\<lambda>(n, b). Some (TypeReg, n, 420, Some b)) demo_archive) = Some fs \<and>
     TarFS_Open fs ''/tmp/logs/a.rpl'' = Some f \<and> tar_read_all 3 f = ''/tmp/logs/a.rpl''"
proof -
  have a: "CreateLogsArchive (demo_log_disk ''/tmp/logs'') True (True, True) [''/tmp/logs''] [] = Inr demo_archive" by code_simp
  have same: "ldOpen (demo_log_disk ''/tmp/logs'') p = ldOpen (demo_log_disk ''/tmp/logs'') q" if "Clean p = Clean q" for p q
    by (simp add: demo_log_disk_def that)
  have c: "Clean ''/tmp/logs/a.rpl'' = ''/tmp/logs/a.rpl''" by code_simp
  have o1: "ldOpen (demo_log_disk ''/tmp/logs'') ''/tmp/logs/a.rpl'' = Some (length ''/tmp/logs/a.rpl'', ''/tmp/logs/a.rpl'')" by code_simp
  have m: "''/tmp/logs/a.rpl'' \<in> set (collectLogFilesFromDir (demo_log_disk ''/tmp/logs'') ''/tmp/logs'')" by code_simp
  show ?thesis using archive_roundtrip [OF a same, of 3 420] c o1 m by fastforce
qed

section \<open>Uploads\<close>

lemma dedup_dirs_spec:
  "distinct out \<Longrightarrow> distinct (dedup_dirs real ds out) \<and> set (dedup_dirs real ds out) = set out \<union> {a. \<exists>d \<in> set ds. real d = Some a}"
  by (induction ds arbitrary: out) (auto split: option.splits)

text \<open>The directories that resolve, each once.\<close>

lemma DeduplicateDirs_set:
  "distinct (DeduplicateDirs real dirs) \<and> set (DeduplicateDirs real dirs) = {a. \<exists>d \<in> set dirs. real d = Some a}"
  using dedup_dirs_spec [of "[]" real dirs] by (simp add: DeduplicateDirs_def)

lemma upload_trees_None: "upload_trees D None dirs = map (\<lambda>d. (d, dir_files D d)) dirs"
  by (induction dirs) auto

text \<open>The log file named on the command line is added to one tree: that of the first directory it
  lies in, and else to a tree of its own directory.\<close>

theorem upload_trees_log_path:
  "(\<exists>i < length dirs. Join [dirs ! i, Base p] = p \<and> list_all (\<lambda>d. Join [d, Base p] \<noteq> p) (take i dirs) \<and>
      upload_trees D (Some p) dirs = (map (\<lambda>d. (d, dir_files D d)) dirs)[i := (dirs ! i, dir_files D (dirs ! i) @ [Base p])]) \<or>
   list_all (\<lambda>d. Join [d, Base p] \<noteq> p) dirs \<and>
     upload_trees D (Some p) dirs = map (\<lambda>d. (d, dir_files D d)) dirs @ [(Dir p, [Base p])]"
proof (induction dirs)
  case (Cons d dirs)
  show ?case
  proof (cases "Join [d, Base p] = p")
    case True
    then show ?thesis by (intro disjI1 exI [of _ 0]) (simp add: upload_trees_None)
  next
    case False
    from Cons show ?thesis
    proof
      assume "\<exists>i < length dirs. Join [dirs ! i, Base p] = p \<and> list_all (\<lambda>d. Join [d, Base p] \<noteq> p) (take i dirs) \<and>
        upload_trees D (Some p) dirs = (map (\<lambda>d. (d, dir_files D d)) dirs)[i := (dirs ! i, dir_files D (dirs ! i) @ [Base p])]"
      then obtain i where "i < length dirs" "Join [dirs ! i, Base p] = p" "list_all (\<lambda>d. Join [d, Base p] \<noteq> p) (take i dirs)"
        "upload_trees D (Some p) dirs = (map (\<lambda>d. (d, dir_files D d)) dirs)[i := (dirs ! i, dir_files D (dirs ! i) @ [Base p])]" by blast
      then show ?thesis using False by (intro disjI1 exI [of _ "Suc i"]) simp
    qed (use False in simp)
  qed
qed simp

end
