(* ===== verification/Mismatches.thy ===== *)
theory Mismatches
  imports Compare DepsScanner
begin

text \<open>
  Outputs of mismatching actions (\<open>downloadmismatch\<close>): their download into one directory per action
  and output, and the comparison of what was downloaded. The statistics file, the parser of
  digests and the download of blobs are arguments: \<open>parse\<close> gives the hash of a digest and whether
  it is well formed, \<open>blob\<close> the content or nothing when the download fails. Files are a map from
  paths to contents; \<open>mkdirs\<close> and \<open>writes\<close> say which directories and files can be created.
\<close>

section \<open>Downloads\<close>

record Mismatch =
  mmActionDigest :: string
  mmPath :: string
  mmRemoteDigest :: string
  mmRemoteDigests :: "string list"
  mmLocalDigest :: string
  mmLocalDigests :: "string list"

record download_host =
  dhParse :: "string \<Rightarrow> string \<times> bool"
  dhBlob :: "string \<Rightarrow> string option"
  dhMkdirs :: "string \<Rightarrow> bool"
  dhWrites :: "string \<Rightarrow> bool"
  dhOrd :: "string list \<Rightarrow> string list"

datatype download_error = BadStats | NotACompareBuild | BadActionDigest | MkdirFailed | DownloadFailed | WriteFailed

type_synonym files = "string \<rightharpoonup> string"

definition downloadToFile :: "download_host \<Rightarrow> string \<Rightarrow> string \<Rightarrow> files \<Rightarrow> files \<times> download_error option" where
  "downloadToFile H downloadPath digestStr fs =
     (case dhBlob H digestStr of
        None \<Rightarrow> (fs, Some DownloadFailed)
      | Some b \<Rightarrow>
         (let fp = Join [downloadPath, fst (dhParse H digestStr)] in
          if dhWrites H fp then (fs(fp \<mapsto> b), None) else (fs, Some WriteFailed)))"

primrec download_list :: "download_host \<Rightarrow> string \<Rightarrow> string list \<Rightarrow> files \<Rightarrow> files \<times> download_error option" where
  "download_list H dir [] fs = (fs, None)"
| "download_list H dir (d # ds) fs =
     (case downloadToFile H dir d fs of
        (fs', None) \<Rightarrow> download_list H dir ds fs'
      | (fs', Some e) \<Rightarrow> (fs', Some e))"

definition flat_path :: "string \<Rightarrow> string" where
  "flat_path p = map (\<lambda>c. if c = CHR ''/'' then CHR ''_'' else c) p"

definition output_path :: "download_host \<Rightarrow> string \<Rightarrow> Mismatch \<Rightarrow> string" where
  "output_path H mismatchOutputDir m =
     Join [Join [mismatchOutputDir, fst (dhParse H (mmActionDigest m))], flat_path (mmPath m)]"

text \<open>Old versions of the proxy report a single digest.\<close>

definition with_single :: "download_host \<Rightarrow> string \<Rightarrow> string list \<Rightarrow> string list" where
  "with_single H single digests = (if single \<noteq> [] then dedup (dhOrd H) (digests @ [single]) else digests)"

definition download_mismatch :: "download_host \<Rightarrow> string \<Rightarrow> Mismatch \<Rightarrow> files \<Rightarrow> files \<times> download_error option" where
  "download_mismatch H mismatchOutputDir m fs =
     (if \<not> snd (dhParse H (mmActionDigest m)) then (fs, Some BadActionDigest)
      else
        (let outputPath = output_path H mismatchOutputDir m in
         if \<not> dhMkdirs H outputPath then (fs, Some MkdirFailed)
         else
           (case download_list H (Join [outputPath, ''remote'']) (with_single H (mmRemoteDigest m) (mmRemoteDigests m)) fs of
              (fs', Some e) \<Rightarrow> (fs', Some e)
            | (fs', None) \<Rightarrow>
               download_list H (Join [outputPath, ''local'']) (with_single H (mmLocalDigest m) (mmLocalDigests m)) fs')))"

primrec download_mismatches :: "download_host \<Rightarrow> string \<Rightarrow> Mismatch list \<Rightarrow> files \<Rightarrow> files \<times> download_error option" where
  "download_mismatches H dir [] fs = (fs, None)"
| "download_mismatches H dir (m # ms) fs =
     (case download_mismatch H dir m fs of
        (fs', None) \<Rightarrow> download_mismatches H dir ms fs'
      | (fs', Some e) \<Rightarrow> (fs', Some e))"

text \<open>\<open>stats\<close> is the statistics file: unreadable, without verification, or with mismatches. The files
  are those left after the old download directory was removed.\<close>

definition DownloadMismatches ::
  "download_host \<Rightarrow> Mismatch list option option \<Rightarrow> string \<Rightarrow> files \<Rightarrow> files \<times> download_error option" where
  "DownloadMismatches H stats outputDir fs =
     (case stats of
        None \<Rightarrow> (fs, Some BadStats)
      | Some None \<Rightarrow> (fs, Some NotACompareBuild)
      | Some (Some ms) \<Rightarrow> download_mismatches H (Join [outputDir, ''reclient_mismatches'']) ms fs)"

section \<open>Comparison\<close>

text \<open>The outputs of \<open>strings\<close> and \<open>diff\<close> are arguments.\<close>

record diff_host =
  xhStrings :: "string option \<Rightarrow> string"
  xhDiff :: "string option \<Rightarrow> string option \<Rightarrow> string"
  xhWrites :: "string \<Rightarrow> bool"

definition runAndWriteOutput :: "diff_host \<Rightarrow> string \<Rightarrow> string \<Rightarrow> files \<Rightarrow> files \<times> bool" where
  "runAndWriteOutput X outFp out fs = (if xhWrites X outFp then (fs(outFp \<mapsto> out), True) else (fs, False))"

definition linuxStrings :: "diff_host \<Rightarrow> string \<Rightarrow> files \<Rightarrow> string \<times> files \<times> bool" where
  "linuxStrings X fp fs = (let outFp = fp @ ''.strings'' in (outFp, runAndWriteOutput X outFp (xhStrings X (fs fp)) fs))"

definition DiffReadableString :: "diff_host \<Rightarrow> string \<Rightarrow> string \<Rightarrow> string \<Rightarrow> files \<Rightarrow> files \<times> bool" where
  "DiffReadableString X outFp fp1 fp2 fs =
     (case linuxStrings X fp1 fs of (fp1Strings, fs1, ok1) \<Rightarrow>
      case linuxStrings X fp2 fs1 of (fp2Strings, fs2, ok2) \<Rightarrow>
      if \<not> ok1 \<or> \<not> ok2 then (fs2, False)
      else runAndWriteOutput X outFp (xhDiff X (fs2 fp1Strings) (fs2 fp2Strings)) fs2)"

text \<open>Directory listings: names and whether they are directories. A failed comparison is not
  reported.\<close>

datatype diff_error = CannotList | NotOneOutput | NotADirectory

definition visitOutput ::
  "diff_host \<Rightarrow> (string \<Rightarrow> (string \<times> bool) list option) \<Rightarrow> string \<Rightarrow> files \<Rightarrow> files \<times> diff_error option" where
  "visitOutput X ls outputPath fs =
     (case ls (Join [outputPath, ''local'']) of
        None \<Rightarrow> (fs, Some CannotList)
      | Some louts \<Rightarrow>
         (case ls (Join [outputPath, ''remote'']) of
            None \<Rightarrow> (fs, Some CannotList)
          | Some routs \<Rightarrow>
             if length louts \<noteq> 1 \<or> length routs \<noteq> 1 then (fs, Some NotOneOutput)
             else (fst (DiffReadableString X (Join [outputPath, ''compare_action.diff''])
                     (Join [outputPath, ''local'', fst (hd louts)]) (Join [outputPath, ''remote'', fst (hd routs)]) fs), None)))"

primrec visit_all :: "(string \<times> bool \<Rightarrow> files \<Rightarrow> files \<times> diff_error option) \<Rightarrow> (string \<times> bool) list \<Rightarrow> files \<Rightarrow> files \<times> diff_error option" where
  "visit_all visit [] fs = (fs, None)"
| "visit_all visit (e # es) fs =
     (case visit e fs of
        (fs', None) \<Rightarrow> visit_all visit es fs'
      | (fs', Some err) \<Rightarrow> (fs', Some err))"

definition visitAction ::
  "diff_host \<Rightarrow> (string \<Rightarrow> (string \<times> bool) list option) \<Rightarrow> string \<Rightarrow> files \<Rightarrow> files \<times> diff_error option" where
  "visitAction X ls curPath fs =
     (case ls curPath of
        None \<Rightarrow> (fs, Some CannotList)
      | Some outputs \<Rightarrow> visit_all (\<lambda>e. visitOutput X ls (Join [curPath, fst e])) outputs fs)"

definition DiffOutputDir ::
  "diff_host \<Rightarrow> (string \<Rightarrow> (string \<times> bool) list option) \<Rightarrow> string \<Rightarrow> files \<Rightarrow> files \<times> diff_error option" where
  "DiffOutputDir X ls outputDir fs =
     (case ls outputDir of
        None \<Rightarrow> (fs, Some CannotList)
      | Some dirs \<Rightarrow>
         visit_all (\<lambda>e fs. if snd e then visitAction X ls (Join [outputDir, fst e]) fs else (fs, Some NotADirectory)) dirs fs)"

section \<open>Everything is downloaded\<close>

text \<open>Blobs are addressed by content: the hash decides what is downloaded, and is a plain name.\<close>

definition content_addressed :: "download_host \<Rightarrow> bool" where
  "content_addressed H \<longleftrightarrow> (\<forall>d d'. fst (dhParse H d) = fst (dhParse H d') \<longrightarrow> dhBlob H d = dhBlob H d') \<and>
     (\<forall>d. plain_elem (fst (dhParse H d)) \<and> fst (dhParse H d) \<noteq> ''..'') \<and> (\<forall>xs. set (dhOrd H xs) = set xs)"

text \<open>Files named after a hash hold the blob of that hash.\<close>

definition named_by_hash :: "download_host \<Rightarrow> files \<Rightarrow> bool" where
  "named_by_hash H fs \<longleftrightarrow> (\<forall>p b. fs p = Some b \<longrightarrow> (\<exists>d. path_file p = fst (dhParse H d) \<and> dhBlob H d = Some b))"

definition stored :: "download_host \<Rightarrow> files \<Rightarrow> string \<Rightarrow> string \<Rightarrow> bool" where
  "stored H fs dir d \<longleftrightarrow> (\<exists>b. dhBlob H d = Some b \<and> fs (Join [dir, fst (dhParse H d)]) = Some b)"

lemma hash_file: "content_addressed H \<Longrightarrow> path_file (Join [dir, fst (dhParse H d)]) = fst (dhParse H d)"
  using path_file_Join by (auto simp: content_addressed_def plain_elem_def)

lemma downloadToFile_ok:
  assumes "content_addressed H" and "named_by_hash H fs" and "downloadToFile H dir d fs = (fs', None)"
  shows "named_by_hash H fs' \<and> stored H fs' dir d \<and> (\<forall>dir d. stored H fs dir d \<longrightarrow> stored H fs' dir d)"
proof -
  let ?p = "Join [dir, fst (dhParse H d)]"
  obtain b where b: "dhBlob H d = Some b" and fs': "fs' = fs(?p \<mapsto> b)"
    using assms(3) by (auto simp: downloadToFile_def Let_def split: option.splits if_splits)
  have "stored H fs' dir' d'" if "stored H fs dir' d'" for dir' d'
  proof (cases "Join [dir', fst (dhParse H d')] = ?p")
    case True
    then have "fst (dhParse H d') = fst (dhParse H d)" using hash_file [OF assms(1)] by metis
    then have "dhBlob H d' = Some b" using assms(1) b by (metis content_addressed_def)
    then show ?thesis using True fs' by (simp add: stored_def)
  qed (use that fs' in \<open>simp add: stored_def\<close>)
  moreover have "named_by_hash H fs'" using assms(2) fs' b hash_file [OF assms(1), of dir d] by (auto simp: named_by_hash_def)
  ultimately show ?thesis using fs' b by (simp add: stored_def)
qed

lemma download_list_ok:
  assumes "content_addressed H" and "named_by_hash H fs" and "download_list H dir ds fs = (fs', None)"
  shows "named_by_hash H fs' \<and> list_all (stored H fs' dir) ds \<and> (\<forall>dir d. stored H fs dir d \<longrightarrow> stored H fs' dir d)"
  using assms(2,3)
proof (induction ds arbitrary: fs)
  case (Cons d ds)
  obtain fs1 where f: "downloadToFile H dir d fs = (fs1, None)" "download_list H dir ds fs1 = (fs', None)"
    using Cons.prems(2) by (auto split: prod.splits option.splits)
  from downloadToFile_ok [OF assms(1) Cons.prems(1) f(1)] Cons.IH [OF _ f(2)] show ?case by simp
qed simp

definition mismatch_stored :: "download_host \<Rightarrow> string \<Rightarrow> files \<Rightarrow> Mismatch \<Rightarrow> bool" where
  "mismatch_stored H dir fs m \<longleftrightarrow>
     list_all (stored H fs (Join [output_path H dir m, ''remote''])) (with_single H (mmRemoteDigest m) (mmRemoteDigests m)) \<and>
     list_all (stored H fs (Join [output_path H dir m, ''local''])) (with_single H (mmLocalDigest m) (mmLocalDigests m))"

lemma download_mismatch_ok:
  assumes "content_addressed H" and "named_by_hash H fs" and "download_mismatch H dir m fs = (fs', None)"
  shows "named_by_hash H fs' \<and> mismatch_stored H dir fs' m \<and> (\<forall>dir d. stored H fs dir d \<longrightarrow> stored H fs' dir d)"
proof -
  let ?rem = "with_single H (mmRemoteDigest m) (mmRemoteDigests m)" and ?loc = "with_single H (mmLocalDigest m) (mmLocalDigests m)"
  obtain fs1 where r: "download_list H (Join [output_path H dir m, ''remote'']) ?rem fs = (fs1, None)"
    and l: "download_list H (Join [output_path H dir m, ''local'']) ?loc fs1 = (fs', None)"
    using assms(3) by (auto simp: download_mismatch_def Let_def split: if_splits prod.splits option.splits)
  note first = download_list_ok [OF assms(1,2) r]
  note second = download_list_ok [OF assms(1) conjunct1 [OF first] l]
  show ?thesis using first second by (auto simp: mismatch_stored_def list_all_iff)
qed

lemma mismatch_stored_mono:
  "mismatch_stored H dir fs m \<Longrightarrow> \<forall>dir d. stored H fs dir d \<longrightarrow> stored H fs' dir d \<Longrightarrow> mismatch_stored H dir fs' m"
  by (auto simp: mismatch_stored_def list_all_iff)

lemma download_mismatches_ok:
  assumes "content_addressed H" and "named_by_hash H fs" and "download_mismatches H dir ms fs = (fs', None)"
  shows "list_all (mismatch_stored H dir fs') ms \<and> (\<forall>dir d. stored H fs dir d \<longrightarrow> stored H fs' dir d)"
  using assms(2,3)
proof (induction ms arbitrary: fs)
  case (Cons m ms)
  obtain fs1 where m: "download_mismatch H dir m fs = (fs1, None)" "download_mismatches H dir ms fs1 = (fs', None)"
    using Cons.prems(2) by (auto split: prod.splits option.splits)
  note one = download_mismatch_ok [OF assms(1) Cons.prems(1) m(1)]
  note rest = Cons.IH [OF conjunct1 [OF one] m(2)]
  show ?case using one rest mismatch_stored_mono [of H dir fs1 m fs'] by simp
qed simp

text \<open>A download that ends without an error has stored the remote and the local outputs of every
  mismatch, each under its hash and with its content, although outputs whose paths differ only in
  slashes and underscores share a directory.\<close>

theorem DownloadMismatches_complete:
  assumes "content_addressed H" and "DownloadMismatches H (Some (Some ms)) outputDir Map.empty = (fs, None)"
  shows "list_all (mismatch_stored H (Join [outputDir, ''reclient_mismatches'']) fs) ms"
  using download_mismatches_ok [OF assms(1), of Map.empty] assms(2)
  by (simp add: DownloadMismatches_def named_by_hash_def)

definition demo_downloads :: download_host where
  "demo_downloads = \<lparr>dhParse = (\<lambda>d. (''h'', True)), dhBlob = (\<lambda>d. Some ''x''), dhMkdirs = (\<lambda>_. True), dhWrites = (\<lambda>_. True),
     dhOrd = (\<lambda>xs. xs)\<rparr>"

definition demo_mismatch :: Mismatch where
  "demo_mismatch = \<lparr>mmActionDigest = ''a/1'', mmPath = ''out/a.o'', mmRemoteDigest = ''r/1'', mmRemoteDigests = [],
     mmLocalDigest = [], mmLocalDigests = [''l/1'']\<rparr>"

theorem DownloadMismatches_complete_witness:
  "list_all (mismatch_stored demo_downloads ''/tmp/reclient_mismatches''
     (fst (DownloadMismatches demo_downloads (Some (Some [demo_mismatch])) ''/tmp'' Map.empty))) [demo_mismatch]"
proof -
  let ?r = "DownloadMismatches demo_downloads (Some (Some [demo_mismatch])) ''/tmp'' Map.empty"
  have "content_addressed demo_downloads" by (simp add: content_addressed_def demo_downloads_def plain_elem_def)
  moreover have "snd ?r = None" by code_simp
  moreover have "Join [''/tmp'', ''reclient_mismatches''] = ''/tmp/reclient_mismatches''" by code_simp
  ultimately show ?thesis using DownloadMismatches_complete [of demo_downloads "[demo_mismatch]" "''/tmp''" "fst ?r"] by (metis prod.collapse)
qed

text \<open>An output that was compared more than once ends the comparison of all outputs.\<close>

lemma retries_end_comparison:
  assumes "ls outputDir = Some ((a, True) # as)" and "ls (Join [outputDir, a]) = Some (o1 # os1)"
    and "ls (Join [Join [Join [outputDir, a], fst o1], ''local'']) = Some lo" and "1 < length lo"
    and "ls (Join [Join [Join [outputDir, a], fst o1], ''remote'']) = Some ro"
  shows "DiffOutputDir X ls outputDir fs = (fs, Some NotOneOutput)"
  using assms by (simp add: DiffOutputDir_def visitAction_def visitOutput_def)

text \<open>Two outputs of an action whose paths flatten to the same name share a directory.\<close>

lemma flat_path_collides: "flat_path ''out/a_b'' = flat_path ''out/a/b''"
  by code_simp

end
