(* ===== verification/Monitoring.thy ===== *)
theory Monitoring
  imports Trace Flags Labels GoPath
begin

text \<open>
  Metrics for a monitoring service (\<open>monitoring/monitoring.go\<close>): the views with their tag keys, the
  metrics of an action and of a build. The views are built by \<open>append\<close> on one shared slice, so
  slices are kept as Go has them: a window into an array of a heap, with a capacity. The tag
  library and the exporter are arguments; a recorded metric carries the layers of tags inserted
  for it, the first layer first.
\<close>

section \<open>Slices\<close>

record slice =
  slArr :: nat
  slLen :: nat
  slCap :: nat

type_synonym heap = "string list list"

definition elems :: "heap \<Rightarrow> slice \<Rightarrow> string list" where
  "elems h s = take (slLen s) (h ! slArr s)"

text \<open>\<open>append\<close>: in place while the capacity lasts, else into a new array of at least twice the
  capacity (arrays of more than 256 elements grow slower; the keys of a view are fewer).\<close>

definition go_append :: "slice \<Rightarrow> string list \<Rightarrow> heap \<Rightarrow> heap \<times> slice" where
  "go_append s xs h =
     (let n = slLen s + length xs; a = h ! slArr s in
      if n \<le> slCap s then (h[slArr s := take (slLen s) a @ xs @ drop n a], s\<lparr>slLen := n\<rparr>)
      else (let c = max n (2 * slCap s) in
            (h @ [take (slLen s) a @ xs @ replicate (c - n) []], \<lparr>slArr = length h, slLen = n, slCap = c\<rparr>)))"

section \<open>Views\<close>

definition action_keys :: "string list" where
  "action_keys = [''action_labels'', ''os_family'', ''reclient_version'', ''status'', ''remote_status'', ''exit_code'',
     ''remote_exit_code'', ''remote_disabled'']"

definition ratio_keys :: "string list" where
  "ratio_keys = [''os_family'', ''reclient_version'', ''remote_disabled'']"

definition count_keys :: "string list" where
  "count_keys = [''os_family'', ''reclient_version'', ''status'', ''remote_disabled'']"

definition view_keys :: "(string \<times> string list) list" where
  "view_keys =
     [(''rbe/action/latency'', action_keys), (''rbe/action/count'', action_keys), (''rbe/build/cache_hit_ratio'', ratio_keys),
      (''rbe/build/latency'', ratio_keys), (''rbe/build/count'', count_keys),
      (''rbe/build/bootstrap_startup_latency'', count_keys), (''rbe/build/bootstrap_shutdown_latency'', count_keys)]"

text \<open>The keys of the labels are appended one by one to an empty slice.\<close>

definition empty_slice :: slice where
  "empty_slice = \<lparr>slArr = 0, slLen = 0, slCap = 0\<rparr>"

primrec append_labels :: "string list \<Rightarrow> heap \<times> slice \<Rightarrow> heap \<times> slice" where
  "append_labels [] hs = hs"
| "append_labels (k # ks) hs = append_labels ks (go_append (snd hs) [k] (fst hs))"

primrec append_views :: "(string \<times> string list) list \<Rightarrow> slice \<Rightarrow> heap \<Rightarrow> heap \<times> (string \<times> slice) list" where
  "append_views [] keys h = (h, [])"
| "append_views (v # vs) keys h =
     (case go_append keys (snd v) h of (h', s) \<Rightarrow>
      case append_views vs keys h' of (h'', ss) \<Rightarrow> (h'', (fst v, s) # ss))"

text \<open>The views as they are when they are registered.\<close>

definition make_views :: "string list \<Rightarrow> (string \<times> string list) list" where
  "make_views labelKeys =
     (case append_labels labelKeys ([[]], empty_slice) of (h, keys) \<Rightarrow>
      case append_views view_keys keys h of (h', ss) \<Rightarrow> map (\<lambda>(m, s). (m, elems h' s)) ss)"

datatype views_error = AlreadySetup | BadKey string | RegisterFailed

text \<open>\<open>SetupViews\<close> with the static keys set so far and the labels in the order they are visited; keys
  before a bad one stay.\<close>

definition SetupViews ::
  "(string \<Rightarrow> bool) \<Rightarrow> ((string \<times> string list) list \<Rightarrow> bool) \<Rightarrow> (string \<rightharpoonup> string) \<times> (string \<times> string) list \<Rightarrow>
   (string \<rightharpoonup> string) \<times> views_error option" where
  "SetupViews validKey registers arg =
     (case arg of (static, labels) \<Rightarrow>
      if static \<noteq> Map.empty then (static, Some AlreadySetup)
      else
        (let good = takeWhile (validKey \<circ> fst) labels; static' = map_of (rev good) in
         case dropWhile (validKey \<circ> fst) labels of
           bad # _ \<Rightarrow> (static', Some (BadKey (fst bad)))
         | [] \<Rightarrow> (static', if registers (make_views (map fst labels)) then None else Some RegisterFailed)))"

section \<open>Metrics\<close>

definition FormatBool :: "bool \<Rightarrow> string" where
  "FormatBool b = (if b then ''true'' else ''false'')"

type_synonym tags = "(string \<times> string) list"

datatype 'f measure = CountM string int | FloatM string 'f | MillisM string int

record 'f metric =
  mtLayers :: "tags list"
  mtMeasure :: "'f measure"

record action_record =
  arLabels :: "(string \<times> string) list"
  arStatus :: string
  arExitCode :: int
  arRemoteStatus :: string
  arRemoteExitCode :: int
  arEventTimes :: "(string \<times> int option \<times> int option) list"

text \<open>A missing end of an interval is the zero time.\<close>

definition time_of :: "int option \<Rightarrow> int" where
  "time_of t = (case t of Some x \<Rightarrow> x | None \<Rightarrow> zeroTime)"

definition millis :: "int option \<times> int option \<Rightarrow> int" where
  "millis iv = go_quot (time_Sub (time_of (snd iv)) (time_of (fst iv))) 1000000"

definition makeActionTags :: "action_record \<Rightarrow> bool \<Rightarrow> tags" where
  "makeActionTags r remoteDisabled =
     [(''action_labels'', ToKey (arLabels r)), (''status'', arStatus r), (''remote_disabled'', FormatBool remoteDisabled),
      (''remote_status'', arRemoteStatus r), (''exit_code'', show_signed (arExitCode r)),
      (''remote_exit_code'', show_signed (arRemoteExitCode r))]"

record exporter =
  exVersion :: string
  exOS :: string
  exStatic :: tags

definition action_latency :: "action_record \<Rightarrow> int" where
  "action_latency r =
     (case map_of (arEventTimes r) ''ProxyExecution'' of
        None \<Rightarrow> 0
      | Some iv \<Rightarrow> if \<not> IsZero (time_of (fst iv)) \<and> \<not> IsZero (time_of (snd iv)) then millis iv else 0)"

text \<open>\<open>ExportActionMetrics\<close>; without an exporter nothing is recorded.\<close>

definition ExportActionMetrics :: "exporter option \<Rightarrow> action_record \<Rightarrow> bool \<Rightarrow> 'f metric list" where
  "ExportActionMetrics e r remoteDisabled =
     (case e of
        None \<Rightarrow> []
      | Some x \<Rightarrow>
         (let layers = [exStatic x, [(''os_family'', exOS x), (''reclient_version'', exVersion x)], makeActionTags r remoteDisabled] in
          [\<lparr>mtLayers = layers, mtMeasure = CountM ''rbe/action/count'' 1\<rparr>,
           \<lparr>mtLayers = layers, mtMeasure = MillisM ''rbe/action/latency'' (action_latency r)\<rparr>]))"

record proxy_stats =
  pxEventTimes :: "(string \<times> int option \<times> int option) list option"
  pxFlags :: "string \<rightharpoonup> string"

record 'f build_stats =
  bsNumRecords :: int
  bsCacheHitRatio :: 'f
  bsBuildLatency :: 'f
  bsFatalExit :: bool
  bsProxyInfo :: "proxy_stats list"

primrec remote_disabled_in :: "proxy_stats list \<Rightarrow> string" where
  "remote_disabled_in [] = FormatBool False"
| "remote_disabled_in (pi # pis) =
     (case pxFlags pi ''remote_disabled'' of
        None \<Rightarrow> remote_disabled_in pis
      | Some sv \<Rightarrow>
         (case ParseBool sv of
            None \<Rightarrow> remote_disabled_in pis
          | Some v \<Rightarrow> if v then FormatBool True else remote_disabled_in pis))"

definition remoteDisabledFlagValue :: "'f build_stats \<Rightarrow> string" where
  "remoteDisabledFlagValue sp = remote_disabled_in (bsProxyInfo sp)"

definition bootstrap_metrics :: "tags list \<Rightarrow> proxy_stats \<Rightarrow> 'f metric list" where
  "bootstrap_metrics layers pi =
     (case pxEventTimes pi of
        None \<Rightarrow> []
      | Some ets \<Rightarrow>
         (case map_of ets ''BootstrapStartup'' of
            None \<Rightarrow> []
          | Some ti \<Rightarrow> [\<lparr>mtLayers = layers @ [[]], mtMeasure = MillisM ''rbe/build/bootstrap_startup_latency'' (millis ti)\<rparr>]) @
         (case map_of ets ''BootstrapShutdown'' of
            None \<Rightarrow> []
          | Some ti \<Rightarrow> [\<lparr>mtLayers = layers @ [[]], mtMeasure = MillisM ''rbe/build/bootstrap_shutdown_latency'' (millis ti)\<rparr>]))"

definition ExportBuildMetrics :: "exporter \<Rightarrow> 'f build_stats \<Rightarrow> 'f metric list" where
  "ExportBuildMetrics x sp =
     (let layers = [exStatic x, [(''os_family'', exOS x), (''reclient_version'', exVersion x),
            (''remote_disabled'', remoteDisabledFlagValue sp)]] in
      if bsNumRecords sp = 0 then []
      else [\<lparr>mtLayers = layers @ [[]], mtMeasure = FloatM ''rbe/build/cache_hit_ratio'' (bsCacheHitRatio sp)\<rparr>,
            \<lparr>mtLayers = layers @ [[]], mtMeasure = FloatM ''rbe/build/latency'' (bsBuildLatency sp)\<rparr>,
            \<lparr>mtLayers = layers @ [[(''status'', if bsFatalExit sp then ''FAILURE'' else ''SUCCESS'')]],
             mtMeasure = CountM ''rbe/build/count'' 1\<rparr>] @
           concat (map (bootstrap_metrics layers) (bsProxyInfo sp)))"

text \<open>\<open>CleanLogDir\<close> removes what older runs left; \<open>removable\<close> are the files that can be removed.\<close>

definition failureFiles :: "string list" where
  "failureFiles = [''reproxy.FATAL'', ''bootstrap.FATAL'', ''rewrapper.FATAL'', ''reproxy.exe.FATAL'', ''bootstrap.exe.FATAL'',
     ''rewrapper.exe.FATAL'']"

definition CleanLogDir :: "(string \<Rightarrow> bool) \<Rightarrow> string \<Rightarrow> (string \<rightharpoonup> 'b) \<Rightarrow> (string \<rightharpoonup> 'b)" where
  "CleanLogDir removable logDir files =
     fold (\<lambda>f fs. let fp = Join [logDir, f] in if removable fp then fs(fp := None) else fs) failureFiles files"

section \<open>The keys of the views\<close>

text \<open>A slice that lies in the heap.\<close>

definition in_heap :: "heap \<Rightarrow> slice \<Rightarrow> bool" where
  "in_heap h s \<longleftrightarrow> slArr s < length h \<and> slLen s \<le> slCap s \<and> length (h ! slArr s) = slCap s"

text \<open>The capacity after so many single appends.\<close>

fun key_cap :: "nat \<Rightarrow> nat" where
  "key_cap 0 = 0"
| "key_cap (Suc n) = (if n < key_cap n then key_cap n else max (Suc n) (2 * key_cap n))"

lemma go_append_one:
  assumes "in_heap h s" and "slCap s = key_cap (slLen s)" and "go_append s [k] h = (h', s')"
  shows "in_heap h' s' \<and> slCap s' = key_cap (slLen s') \<and> slLen s' = Suc (slLen s) \<and> elems h' s' = elems h s @ [k]"
proof (cases "Suc (slLen s) \<le> slCap s")
  case True
  then show ?thesis using assms by (auto simp: go_append_def in_heap_def elems_def Let_def)
next
  case False
  then have "slCap s = slLen s" using assms(1) by (simp add: in_heap_def)
  then show ?thesis using assms by (auto simp: go_append_def in_heap_def elems_def Let_def)
qed

lemma append_labels_ok:
  assumes "in_heap h s" and "slCap s = key_cap (slLen s)" and "append_labels ks (h, s) = (h', s')"
  shows "in_heap h' s' \<and> slCap s' = key_cap (slLen s') \<and> slLen s' = slLen s + length ks \<and> elems h' s' = elems h s @ ks"
  using assms
proof (induction ks arbitrary: h s)
  case (Cons k ks)
  obtain h1 s1 where a: "go_append s [k] h = (h1, s1)" by (cases "go_append s [k] h")
  note one = go_append_one [OF Cons.prems(1,2) a]
  then show ?case using Cons.IH [of h1 s1] Cons.prems(3) a by simp
qed simp

text \<open>What a run of appends to the same slice keeps: the slice, all other arrays, and the keys \<open>R\<close>
  behind it once they were written.\<close>

definition keeps :: "slice \<Rightarrow> string list \<Rightarrow> heap \<Rightarrow> heap \<Rightarrow> bool" where
  "keeps s R h h' \<longleftrightarrow> in_heap h' s \<and> elems h' s = elems h s \<and> length h \<le> length h' \<and>
     (\<forall>a < length h. a \<noteq> slArr s \<longrightarrow> h' ! a = h ! a) \<and>
     (take (slLen s + length R) (h ! slArr s) = elems h s @ R \<longrightarrow> take (slLen s + length R) (h' ! slArr s) = elems h s @ R)"

lemma keeps_trans: "keeps s R h h1 \<Longrightarrow> keeps s R h1 h2 \<Longrightarrow> keeps s R h h2"
  by (auto simp: keeps_def)

lemma append_new:
  assumes "in_heap h s" and "slCap s < slLen s + length ks" and "go_append s ks h = (h', s')"
  shows "keeps s R h h' \<and> elems h' s' = elems h s @ ks \<and> slArr s' = length h \<and> length h' = Suc (length h)"
  using assms by (auto simp: go_append_def in_heap_def elems_def keeps_def Let_def nth_append)

lemma append_shared:
  assumes "in_heap h s" and "slLen s + length R \<le> slCap s" and "go_append s R h = (h', s')"
  shows "keeps s R h h' \<and> s' = s\<lparr>slLen := slLen s + length R\<rparr> \<and> take (slLen s + length R) (h' ! slArr s) = elems h s @ R"
  using assms by (auto simp: go_append_def in_heap_def elems_def keeps_def Let_def)

lemma append_views_ok:
  assumes "in_heap h s" and "list_all (\<lambda>v. slCap s < slLen s + length (snd v) \<or> snd v = R) vs"
    and "append_views vs s h = (h', ss)"
  shows "keeps s R h h' \<and> map (\<lambda>(m, t). (m, elems h' t)) ss = map (\<lambda>(m, ks). (m, elems h s @ ks)) vs"
  using assms
proof (induction vs arbitrary: h ss)
  case Nil
  then show ?case by (simp add: keeps_def)
next
  case (Cons v vs)
  obtain m ks where v: "v = (m, ks)" by (cases v)
  obtain h1 t where a: "go_append s ks h = (h1, t)" by (cases "go_append s ks h")
  obtain ts where r: "append_views vs s h1 = (h', ts)" "ss = (m, t) # ts"
    using Cons.prems(3) v a by (auto split: prod.splits)
  consider (new) "slCap s < slLen s + length ks" | (shared) "slLen s + length R \<le> slCap s" "ks = R"
    using Cons.prems(2) v by force
  then show ?case
  proof cases
    case new
    note n = append_new [OF Cons.prems(1) new a, of R]
    have k: "keeps s R h1 h'" "map (\<lambda>(m, t). (m, elems h' t)) ts = map (\<lambda>(m, ks). (m, elems h1 s @ ks)) vs"
      using Cons.IH [OF _ _ r(1)] n Cons.prems(2) by (auto simp: keeps_def)
    have "slArr s < length h" using Cons.prems(1) by (simp add: in_heap_def)
    then have "h' ! slArr t = h1 ! slArr t" using k(1) n by (auto simp: keeps_def)
    then have "elems h' t = elems h1 t" by (simp add: elems_def)
    then have "elems h' t = elems h s @ ks" using n by simp
    moreover have "elems h1 s = elems h s" using n by (simp add: keeps_def)
    ultimately show ?thesis using keeps_trans [of s R h h1 h'] n k v r(2) by simp
  next
    case shared
    note n = append_shared [OF Cons.prems(1) shared(1) a [unfolded shared(2)]]
    have k: "keeps s R h1 h'" "map (\<lambda>(m, t). (m, elems h' t)) ts = map (\<lambda>(m, ks). (m, elems h1 s @ ks)) vs"
      using Cons.IH [OF _ _ r(1)] n Cons.prems(2) by (auto simp: keeps_def)
    have e: "elems h1 s = elems h s" using n by (simp add: keeps_def)
    then have "take (slLen s + length R) (h' ! slArr s) = elems h s @ R" using k(1) n by (simp add: keeps_def)
    then have "elems h' t = elems h s @ ks" using n shared(2) by (simp add: elems_def)
    then show ?thesis using keeps_trans [of s R h h1 h'] n k v r(2) e by simp
  qed
qed

text \<open>With at most eight labels every view has the keys of the labels and its own ones: either the
  appended keys need a new array, or the views that share the array write the same keys.\<close>

theorem SetupViews_keys:
  assumes "length labelKeys \<le> 8"
  shows "make_views labelKeys = map (\<lambda>(m, ks). (m, labelKeys @ ks)) view_keys"
proof -
  obtain h keys where l: "append_labels labelKeys ([[]], empty_slice) = (h, keys)"
    by (cases "append_labels labelKeys ([[]], empty_slice)")
  have ok: "in_heap h keys \<and> slCap keys = key_cap (length labelKeys) \<and> slLen keys = length labelKeys \<and> elems h keys = labelKeys"
  proof -
    have "in_heap [[]] empty_slice" "slCap empty_slice = key_cap (slLen empty_slice)" "elems [[]] empty_slice = []" "slLen empty_slice = 0"
      by (simp_all add: in_heap_def empty_slice_def elems_def)
    then show ?thesis using append_labels_ok [OF _ _ l] by auto
  qed
  have "list_all (\<lambda>n. list_all (\<lambda>v. key_cap n < n + length (snd v) \<or> snd v = ratio_keys) view_keys) [0..<9]" by code_simp
  then have room: "list_all (\<lambda>v. slCap keys < slLen keys + length (snd v) \<or> snd v = ratio_keys) view_keys"
    using assms ok by (simp add: list_all_iff [of _ "[0..<9]"])
  obtain h' ss where v: "append_views view_keys keys h = (h', ss)" by (cases "append_views view_keys keys h")
  show ?thesis using append_views_ok [OF _ room v] ok l v by (simp add: make_views_def)
qed

text \<open>With nine labels there is room for seven more keys: the views of the cache hit ratio and of the
  build latency get the status as their third key in place of the remote-disabled flag.\<close>

lemma nine_labels_share_keys:
  "map_of (make_views (map (\<lambda>n. [char_of (48 + n)]) [0..<9])) ''rbe/build/cache_hit_ratio'' =
     Some (map (\<lambda>n. [char_of (48 + n)]) [0..<9] @ [''os_family'', ''reclient_version'', ''status''])"
  by code_simp

theorem SetupViews_keys_witness:
  "make_views [''team'', ''branch''] = map (\<lambda>(m, ks). (m, [''team'', ''branch''] @ ks)) view_keys"
  using SetupViews_keys [of "[''team'', ''branch'']"] by simp

text \<open>A build counts as remote disabled exactly if one of its proxies had the flag set.\<close>

lemma remoteDisabledFlagValue_iff:
  "remoteDisabledFlagValue sp = ''true'' \<longleftrightarrow>
   (\<exists>pi \<in> set (bsProxyInfo sp). \<exists>v. pxFlags pi ''remote_disabled'' = Some v \<and> ParseBool v = Some True)"
proof -
  have "remote_disabled_in pis = ''true'' \<longleftrightarrow> (\<exists>pi \<in> set pis. \<exists>v. pxFlags pi ''remote_disabled'' = Some v \<and> ParseBool v = Some True)" for pis
    by (induction pis) (auto simp: FormatBool_def split: option.splits)
  then show ?thesis by (simp add: remoteDisabledFlagValue_def)
qed

text \<open>A bad label key leaves the keys before it behind, and every later call is refused.\<close>

lemma SetupViews_partial:
  assumes "validKey (fst a)" and "\<not> validKey (fst b)" and "SetupViews validKey registers (Map.empty, [a, b]) = (static, err)"
  shows "err = Some (BadKey (fst b)) \<and> SetupViews validKey registers (static, labels) = (static, Some AlreadySetup)"
  using assms by (auto simp: SetupViews_def)

end
