(* ===== verification/BootstrapMain.thy ===== *)
theory BootstrapMain
  imports Bootstrap Flags Monitoring
begin

text \<open>
  The program that starts and stops the proxy (\<open>cmd/bootstrap/main.go\<close>): its checks, credentials, the
  shutdown with its statistics and the start, over the pid files of \<open>Bootstrap\<close> and the mechanisms
  of \<open>Flags\<close>. The host is a record of answers; what the program does is kept as a list of events,
  and how it ends as a value: an exit code, a return from \<open>main\<close>, a panic, or never.
\<close>

section \<open>Flags and host\<close>

record boot_flags =
  bfServerAddr :: string
  bfShutdown :: bool
  bfFastLogCollection :: bool
  bfAsyncReproxyShutdown :: bool
  bfOutputDir :: string
  bfLogDir :: string
  bfRemoteDisabled :: bool
  bfCredentialsHelper :: string
  bfCredentialsHelperArgs :: "string list"
  bfLogPath :: string
  bfProxyLogDir :: "string list"
  bfMetricsProject :: string
  bfMetricsUploader :: string
  bfCfg :: string
  bfHTTPProxy :: string
  bfWaitSeconds :: int
  bfLookup :: "string \<Rightarrow> string option"

datatype stat_answer = StatFound | StatMissing | StatFails

text \<open>The credentials helper fails or gives a token source, whose token may fail. \<open>bhExitStatus\<close> is the
  exit status behind an error of the start, if the error is that of an ended process.\<close>

record boot_host =
  bhStat :: "string \<Rightarrow> stat_answer"
  bhSize :: "string \<Rightarrow> nat option"
  bhHelper :: "string \<Rightarrow> string list \<Rightarrow> string option option"
  bhADC :: adc_answer
  bhTmpDir :: string
  bhMkdir :: "string \<Rightarrow> bool"
  bhShutdown :: shutdown_answers
  bhStart :: start_answers
  bhLogCreates :: bool
  bhExitStatus :: "boot_err \<Rightarrow> int option"
  bhParsed :: string
  bhUploaderStarts :: bool

datatype boot_event =
    SetHTTPProxy string
  | MakeDir string
  | AskShutdown bool
  | ParseLogs
  | WriteStats string bool
  | RunUploader string "string list"
  | CleanFatalLogs string
  | RunReproxy "string list"

datatype boot_end = ExitCode int | MainReturned | MainPanics | MainHangs

record boot_state =
  btEvents :: "boot_event list"
  btPids :: start_state

definition did :: "boot_event \<Rightarrow> boot_state \<Rightarrow> boot_state" where
  "did e b = b\<lparr>btEvents := btEvents b @ [e]\<rparr>"

section \<open>Parts\<close>

text \<open>An existing directory is left alone, a missing one is made; other errors end the program.\<close>

definition ensure_dir :: "boot_host \<Rightarrow> string \<Rightarrow> boot_state \<Rightarrow> boot_state \<times> bool" where
  "ensure_dir H dir b =
     (if dir = [] then (b, True)
      else case bhStat H dir of
             StatFound \<Rightarrow> (b, True)
           | StatMissing \<Rightarrow> (did (MakeDir dir) b, True)
           | StatFails \<Rightarrow> (b, False))"

definition fatalLogsExist :: "boot_host \<Rightarrow> string \<Rightarrow> bool" where
  "fatalLogsExist H logDir \<longleftrightarrow>
     list_ex (\<lambda>f. case bhSize H (Join [logDir, f]) of Some n \<Rightarrow> 0 < n | None \<Rightarrow> False) failureFiles"

definition authMechanism :: "boot_flags \<Rightarrow> Mechanism option" where
  "authMechanism f = (case MechanismFromFlags (bfLookup f) of Ok m \<Rightarrow> (if m = Unknown then None else Some m) | _ \<Rightarrow> None)"

text \<open>The exit code, or the token of the credentials helper when there is one.\<close>

definition credentials :: "boot_flags \<Rightarrow> boot_host \<Rightarrow> int + string option option" where
  "credentials f H =
     (if bfRemoteDisabled f then Inr None
      else if bfCredentialsHelper f \<noteq> [] then
        (case bhHelper H (bfCredentialsHelper f) (bfCredentialsHelperArgs f) of
           None \<Rightarrow> Inl 11
         | Some token \<Rightarrow> Inr (Some token))
      else
        (case authMechanism f of
           None \<Rightarrow> Inl 14
         | Some m \<Rightarrow> (case UpdateStatus (bhADC H) m of (status, Some e) \<Rightarrow> Inl (int status) | (_, None) \<Rightarrow> Inr None)))"

definition cfg_args :: "boot_flags \<Rightarrow> string list" where
  "cfg_args f = (if bfCfg f \<noteq> [] then [''--cfg='' @ bfCfg f] else [])"

text \<open>\<open>shutdownReproxy\<close>; asynchronous shutdown needs the fast log collection.\<close>

definition shutdown_async :: "boot_flags \<Rightarrow> bool" where
  "shutdown_async f \<longleftrightarrow> bfAsyncReproxyShutdown f \<and> bfFastLogCollection f"

definition ask_shutdown :: "boot_flags \<Rightarrow> boot_host \<Rightarrow> boot_state \<Rightarrow> boot_state \<times> string option" where
  "ask_shutdown f H b =
     (case (if shutdown_async f then ShutdownProxyAsync else ShutDownProxy) (bhTmpDir H) (bhMkdir H) (bfServerAddr f) (bhShutdown H)
        (stFiles (btPids b)) of
        (files, stats, err) \<Rightarrow> (did (AskShutdown (shutdown_async f)) (b\<lparr>btPids := (btPids b)\<lparr>stFiles := files\<rparr>\<rparr>), stats))"

definition run_uploader :: "boot_flags \<Rightarrow> boot_host \<Rightarrow> string option option \<Rightarrow> boot_state \<Rightarrow> boot_state \<times> boot_end" where
  "run_uploader f H token b =
     (let args = cfg_args f @ (case token of
            Some (Some t) \<Rightarrow> [''--oauth_token='' @ t, ''--use_external_auth_token=true'']
          | _ \<Rightarrow> []) in
      (did (RunUploader (bfMetricsUploader f) args) b, if bhUploaderStarts H then MainReturned else MainPanics))"

text \<open>The shutdown branch of \<open>main\<close>. A log of the process that could not be started reads its missing
  process.\<close>

definition main_shutdown :: "boot_flags \<Rightarrow> boot_host \<Rightarrow> string option option \<Rightarrow> boot_state \<Rightarrow> boot_state \<times> boot_end" where
  "main_shutdown f H token b =
     (case ask_shutdown f H b of (b1, s) \<Rightarrow>
      if bfOutputDir f = [] then (b1, ExitCode 255)
      else if (\<not> bfFastLogCollection f \<or> s = None) \<and> bfLogPath f = [] \<and> bfProxyLogDir f = [] then (b1, MainReturned)
      else
        (let (stats, b2) = (if \<not> bfFastLogCollection f \<or> s = None then (bhParsed H, did ParseLogs b1) else (the s, b1));
             b3 = did (WriteStats stats (fatalLogsExist H (bfLogDir f))) b2 in
         if bfMetricsProject f = [] then (b3, MainReturned) else run_uploader f H token b3))"

definition StartProxyWithOutput :: "boot_flags \<Rightarrow> boot_host \<Rightarrow> start_state \<Rightarrow> (start_state \<times> boot_err option) option" where
  "StartProxyWithOutput f H s =
     (if \<not> bhLogCreates H then Some (s, Some WriteErr)
      else startProxy (bhTmpDir H) (bhMkdir H) (bfServerAddr f) (bfWaitSeconds f) (bhStart H) s)"

definition bootstrapReproxy :: "boot_flags \<Rightarrow> boot_host \<Rightarrow> string list \<Rightarrow> boot_state \<Rightarrow> boot_state \<times> boot_end" where
  "bootstrapReproxy f H args b =
     (let b1 = did (RunReproxy args) b in
      case StartProxyWithOutput f H (btPids b) of
        None \<Rightarrow> (b1, MainHangs)
      | Some (s, None) \<Rightarrow> (b1\<lparr>btPids := s\<rparr>, ExitCode 0)
      | Some (s, Some e) \<Rightarrow> (b1\<lparr>btPids := s\<rparr>, ExitCode (case bhExitStatus H e of Some st \<Rightarrow> st | None \<Rightarrow> 1)))"

definition main_start :: "boot_flags \<Rightarrow> boot_host \<Rightarrow> boot_state \<Rightarrow> boot_state \<times> boot_end" where
  "main_start f H b =
     bootstrapReproxy f H
       (cfg_args f @ (if bfFastLogCollection f then [''--wait_for_shutdown_rpc=true''] else []) @
        (if bfCredentialsHelper f \<noteq> [] then [''--use_external_auth_token=true''] else []))
       (did (CleanFatalLogs (bfLogDir f)) b)"

definition bootstrap_main :: "boot_flags \<Rightarrow> boot_host \<Rightarrow> boot_state \<Rightarrow> boot_state \<times> boot_end" where
  "bootstrap_main f H b =
     (if bfServerAddr f = [] then (b, ExitCode 1)
      else
        (let b1 = (if bfHTTPProxy f \<noteq> [] then did (SetHTTPProxy (bfHTTPProxy f)) b else b) in
         case ensure_dir H (bfOutputDir f) b1 of
           (b2, False) \<Rightarrow> (b2, ExitCode 1)
         | (b2, True) \<Rightarrow>
            (case ensure_dir H (bfLogDir f) b2 of
               (b3, False) \<Rightarrow> (b3, ExitCode 1)
             | (b3, True) \<Rightarrow>
                (case credentials f H of
                   Inl code \<Rightarrow> (b3, ExitCode code)
                 | Inr token \<Rightarrow> if bfShutdown f then main_shutdown f H token b3 else main_start f H b3))))"

section \<open>What the program does\<close>

lemma did_fields [simp]: "btPids (did e b) = btPids b" "set (btEvents (did e b)) = insert e (set (btEvents b))"
  by (auto simp: did_def)

lemma ensure_dir_events:
  "ensure_dir H d b = (b', ok) \<Longrightarrow> btPids b' = btPids b \<and> set (btEvents b') \<subseteq> insert (MakeDir d) (set (btEvents b))"
  by (auto simp: ensure_dir_def split: if_splits stat_answer.splits)

text \<open>The state in which the credentials are asked for, or the exit before that.\<close>

lemma bootstrap_main_split:
  "(\<exists>b' n. bootstrap_main f H b = (b', ExitCode n) \<and> n \<noteq> 0 \<and> btPids b' = btPids b \<and> (\<forall>a. AskShutdown a \<in> set (btEvents b') \<longrightarrow> AskShutdown a \<in> set (btEvents b))) \<or>
   (\<exists>b' token. credentials f H = Inr token \<and> btPids b' = btPids b \<and>
      bootstrap_main f H b = (if bfShutdown f then main_shutdown f H token b' else main_start f H b'))"
proof -
  define b1 where "b1 = (if bfHTTPProxy f \<noteq> [] then did (SetHTTPProxy (bfHTTPProxy f)) b else b)"
  obtain b2 ok2 where d2: "ensure_dir H (bfOutputDir f) b1 = (b2, ok2)" by fastforce
  obtain b3 ok3 where d3: "ensure_dir H (bfLogDir f) b2 = (b3, ok3)" by fastforce
  have p1: "btPids b1 = btPids b" "AskShutdown a \<in> set (btEvents b1) \<longrightarrow> AskShutdown a \<in> set (btEvents b)" for a
    by (auto simp: b1_def)
  have p2: "btPids b2 = btPids b" "AskShutdown a \<in> set (btEvents b2) \<longrightarrow> AskShutdown a \<in> set (btEvents b)" for a
    using ensure_dir_events [OF d2] p1 by auto
  have p3: "btPids b3 = btPids b" "AskShutdown a \<in> set (btEvents b3) \<longrightarrow> AskShutdown a \<in> set (btEvents b)" for a
    using ensure_dir_events [OF d3] p2 by auto
  have main: "bootstrap_main f H b = (if bfServerAddr f = [] then (b, ExitCode 1) else if \<not> ok2 then (b2, ExitCode 1)
      else if \<not> ok3 then (b3, ExitCode 1) else case credentials f H of Inl code \<Rightarrow> (b3, ExitCode code)
      | Inr token \<Rightarrow> if bfShutdown f then main_shutdown f H token b3 else main_start f H b3)"
    using d2 d3 by (auto simp: bootstrap_main_def b1_def [symmetric] Let_def split: bool.splits)
  have codes: "credentials f H = Inl code \<Longrightarrow> code \<noteq> 0" for code
    by (auto simp: credentials_def UpdateStatus_def split: if_splits option.splits prod.splits res.splits)
  show ?thesis using main p2 p3 codes by (cases "credentials f H") auto
qed

text \<open>Started without \<open>-shutdown\<close>, the program exits with code zero only if the proxy was started
  and answered, provided an ended process never has status zero.\<close>

theorem bootstrap_main_starts:
  assumes "\<not> bfShutdown f" and "\<And>e. bhExitStatus H e \<noteq> Some 0" and "bootstrap_main f H b = (b', ExitCode 0)"
  shows "StartProxyWithOutput f H (btPids b) = Some (btPids b', None)"
proof -
  obtain b0 where "btPids b0 = btPids b" "bootstrap_main f H b = main_start f H b0"
    using bootstrap_main_split [of f H b] assms(1,3) by auto
  then show ?thesis using assms(2,3)
    by (auto simp: main_start_def bootstrapReproxy_def Let_def split: option.splits prod.splits)
qed

text \<open>With \<open>-shutdown\<close> the proxy is asked to shut down unless a directory or the credentials failed.\<close>

lemma main_shutdown_asks: "AskShutdown (shutdown_async f) \<in> set (btEvents (fst (main_shutdown f H token b)))"
  by (auto simp: main_shutdown_def ask_shutdown_def run_uploader_def Let_def split: prod.splits)

theorem failed_credentials_keep_proxy:
  assumes "credentials f H = Inl code" and "btEvents b = []"
  shows "btPids (fst (bootstrap_main f H b)) = btPids b \<and> AskShutdown a \<notin> set (btEvents (fst (bootstrap_main f H b)))"
  using bootstrap_main_split [of f H b] assms by auto

text \<open>A metrics uploader that cannot be started makes the program panic.\<close>

lemma uploader_failure_panics: "\<not> bhUploaderStarts H \<Longrightarrow> snd (run_uploader f H token b) = MainPanics"
  by (simp add: run_uploader_def Let_def)

section \<open>A run\<close>

declare start_loop.simps [code]

definition demo_boot_flags :: boot_flags where
  "demo_boot_flags = \<lparr>bfServerAddr = ''unix:///tmp/r.sock'', bfShutdown = False, bfFastLogCollection = True,
     bfAsyncReproxyShutdown = False, bfOutputDir = ''/tmp/out'', bfLogDir = [], bfRemoteDisabled = False, bfCredentialsHelper = [],
     bfCredentialsHelperArgs = [], bfLogPath = [], bfProxyLogDir = [], bfMetricsProject = [], bfMetricsUploader = [], bfCfg = ''rbe.cfg'',
     bfHTTPProxy = [], bfWaitSeconds = 5, bfLookup = (\<lambda>n. if n = ''service_no_auth'' then Some ''true'' else Some [])\<rparr>"

definition demo_boot_host :: boot_host where
  "demo_boot_host = \<lparr>bhStat = (\<lambda>_. StatMissing), bhSize = (\<lambda>_. None), bhHelper = (\<lambda>_ _. None), bhADC = NoCredentials,
     bhTmpDir = ''/tmp'', bhMkdir = (\<lambda>_. True), bhShutdown = demo_answers, bhStart = demo_start_answers, bhLogCreates = True,
     bhExitStatus = (\<lambda>_. None), bhParsed = [], bhUploaderStarts = True\<rparr>"

definition demo_boot_run :: "boot_state \<times> boot_end" where
  "demo_boot_run = bootstrap_main (demo_boot_flags\<lparr>bfRemoteDisabled := True\<rparr>) demo_boot_host
     \<lparr>btEvents = [], btPids = \<lparr>stFiles = Map.empty, stKilled = []\<rparr>\<rparr>"

theorem bootstrap_main_starts_witness:
  "\<exists>s. StartProxyWithOutput (demo_boot_flags\<lparr>bfRemoteDisabled := True\<rparr>) demo_boot_host \<lparr>stFiles = Map.empty, stKilled = []\<rparr> = Some (s, None)"
proof -
  have "snd demo_boot_run = ExitCode 0" by code_simp
  then have run: "bootstrap_main (demo_boot_flags\<lparr>bfRemoteDisabled := True\<rparr>) demo_boot_host
      \<lparr>btEvents = [], btPids = \<lparr>stFiles = Map.empty, stKilled = []\<rparr>\<rparr> = (fst demo_boot_run, ExitCode 0)"
    by (simp add: demo_boot_run_def prod_eq_iff)
  show ?thesis using bootstrap_main_starts [OF _ _ run] by (auto simp: demo_boot_flags_def demo_boot_host_def)
qed

end
