(* ===== verification/GenClangFlags.thy ===== *)
theory GenClangFlags
  imports ClangParser
begin

text \<open>
  The generator of the clang option tables (\<open>clangparser/gen_clang_flags/main.go\<close>): from the decoded
  option file to the tables the command line scanner reads. Decoding and printing belong to
  libraries; objects are lists of members with distinct keys. The tables are those of
  \<open>ClangParser\<close>, in the sorted order that is defined there.
\<close>

section \<open>Decoded options\<close>

datatype json = JString string | JNumber int | JArray "json list" | JObject "(string \<times> json) list" | JOther

definition getString :: "(string \<times> json) list \<Rightarrow> string \<Rightarrow> string option" where
  "getString m key = (case map_of m key of Some (JString s) \<Rightarrow> Some s | _ \<Rightarrow> None)"

definition getInt :: "(string \<times> json) list \<Rightarrow> string \<Rightarrow> int" where
  "getInt m key = (case map_of m key of Some (JNumber n) \<Rightarrow> n | _ \<Rightarrow> 0)"

primrec all_strings :: "json list \<Rightarrow> string list option" where
  "all_strings [] = Some []"
| "all_strings (e # es) =
     (case e of
        JString s \<Rightarrow> map_option ((#) s) (all_strings es)
      | _ \<Rightarrow> None)"

definition getStrings :: "(string \<times> json) list \<Rightarrow> string \<Rightarrow> string list option" where
  "getStrings m key = (case map_of m key of Some (JArray es) \<Rightarrow> all_strings es | _ \<Rightarrow> None)"

definition def_of :: "json \<Rightarrow> string option" where
  "def_of v = (case v of JObject m \<Rightarrow> getString m ''def'' | _ \<Rightarrow> None)"

definition getDef :: "(string \<times> json) list \<Rightarrow> string \<Rightarrow> string option" where
  "getDef m key = (case map_of m key of Some v \<Rightarrow> def_of v | None \<Rightarrow> None)"

primrec all_defs :: "json list \<Rightarrow> string list option" where
  "all_defs [] = Some []"
| "all_defs (v # vs) =
     (case def_of v of
        None \<Rightarrow> None
      | Some d \<Rightarrow> map_option ((#) d) (all_defs vs))"

definition getDefs :: "(string \<times> json) list \<Rightarrow> string \<Rightarrow> string list option" where
  "getDefs m key = (case map_of m key of Some (JArray vs) \<Rightarrow> all_defs vs | _ \<Rightarrow> None)"

definition isOptionClass :: "(string \<times> json) list \<Rightarrow> bool" where
  "isOptionClass m \<longleftrightarrow> (case getStrings m ''!superclasses'' of Some cs \<Rightarrow> ''Option'' \<in> set cs | None \<Rightarrow> False)"

record opt =
  oKind :: string
  oName :: string
  oPrefixes :: "string list"
  oNumArgs :: int
  oVisibility :: "string list"

datatype gen_error = MissingField string | UnknownKind string

definition parseOpt :: "(string \<times> json) list \<Rightarrow> gen_error + opt" where
  "parseOpt m =
     (case getDef m ''Kind'' of
        None \<Rightarrow> Inl (MissingField ''Kind'')
      | Some kind \<Rightarrow>
     (case getString m ''Name'' of
        None \<Rightarrow> Inl (MissingField ''Name'')
      | Some name \<Rightarrow>
     (case getStrings m ''Prefixes'' of
        None \<Rightarrow> Inl (MissingField ''Prefixes'')
      | Some pfs \<Rightarrow>
     (let numArgs = (if kind \<in> {''KIND_JOINED_AND_SEPARATE'', ''KIND_SEPARATE''} then 1
                     else if kind \<in> {''KIND_REMAINING_ARGS'', ''KIND_REMAINING_ARGS_JOIND''} then - 1
                     else getInt m ''NumArgs'') in
      case getDefs m ''Visibility'' of
        None \<Rightarrow> Inl (MissingField ''Visibility'')
      | Some vis \<Rightarrow> Inr \<lparr>oKind = kind, oName = name, oPrefixes = pfs, oNumArgs = numArgs, oVisibility = vis\<rparr>))))"

section \<open>Tables\<close>

record OptionDefs =
  odOptions :: "string \<rightharpoonup> int"
  odPrefixes :: "PrefixOption list"
  odNormalized :: "string \<rightharpoonup> string"

definition empty_defs :: OptionDefs where
  "empty_defs = \<lparr>odOptions = Map.empty, odPrefixes = [], odNormalized = Map.empty\<rparr>"

definition add_option :: "string \<Rightarrow> int \<Rightarrow> OptionDefs \<Rightarrow> OptionDefs" where
  "add_option flag n od = od\<lparr>odOptions := (odOptions od)(flag \<mapsto> n)\<rparr>"

definition add_prefix :: "string \<Rightarrow> int \<Rightarrow> OptionDefs \<Rightarrow> OptionDefs" where
  "add_prefix flag n od = od\<lparr>odPrefixes := odPrefixes od @ [\<lparr>Prefix = flag, NumArgs = n\<rparr>]\<rparr>"

text \<open>One flag of an option: entries of the two tables by kind.\<close>

definition option_arity :: "opt \<Rightarrow> int option" where
  "option_arity o1 =
     map_of [(''KIND_FLAG'', 0), (''KIND_JOINED_OR_SEPARATE'', 1), (''KIND_MULTIARG'', oNumArgs o1), (''KIND_SEPARATE'', 1),
       (''KIND_REMAINING_ARGS'', - 1)] (oKind o1)"

definition prefix_arity :: "opt \<Rightarrow> int option" where
  "prefix_arity o1 =
     map_of [(''KIND_COMMAJOINED'', 0), (''KIND_JOINED'', 0), (''KIND_JOINED_AND_SEPARATE'', 1), (''KIND_JOINED_OR_SEPARATE'', 0),
       (''KIND_REMAINING_ARGS_JOINED'', - 1)] (oKind o1)"

definition set_flag :: "opt \<Rightarrow> string \<Rightarrow> OptionDefs \<Rightarrow> OptionDefs option" where
  "set_flag o1 flag od =
     (case (option_arity o1, prefix_arity o1) of
        (None, None) \<Rightarrow> None
      | (oa, pa) \<Rightarrow>
         Some ((case pa of Some n \<Rightarrow> add_prefix flag n | None \<Rightarrow> id) ((case oa of Some n \<Rightarrow> add_option flag n | None \<Rightarrow> id) od)))"

primrec set_flags_of :: "opt \<Rightarrow> string list \<Rightarrow> OptionDefs \<Rightarrow> OptionDefs option" where
  "set_flags_of o1 [] od = Some od"
| "set_flags_of o1 (p # ps) od =
     (case set_flag o1 (p @ oName o1) od of
        None \<Rightarrow> None
      | Some od' \<Rightarrow> set_flags_of o1 ps od')"

definition normalize_to_last :: "opt \<Rightarrow> OptionDefs \<Rightarrow> OptionDefs" where
  "normalize_to_last o1 od =
     (if length (oPrefixes o1) > 1
      then od\<lparr>odNormalized := fold (\<lambda>p m. m(p @ oName o1 \<mapsto> last (oPrefixes o1) @ oName o1)) (butlast (oPrefixes o1)) (odNormalized od)\<rparr>
      else od)"

definition setOption :: "OptionDefs \<Rightarrow> opt \<Rightarrow> gen_error + OptionDefs" where
  "setOption od o1 =
     (case set_flags_of o1 (oPrefixes o1) od of
        None \<Rightarrow> Inl (UnknownKind (oKind o1))
      | Some od' \<Rightarrow> Inr (normalize_to_last o1 od'))"

section \<open>All options\<close>

definition for_clang :: "opt \<Rightarrow> bool" where
  "for_clang o1 \<longleftrightarrow> ''DefaultVis'' \<in> set (oVisibility o1) \<or> oVisibility o1 = []"

definition for_clang_cl :: "opt \<Rightarrow> bool" where
  "for_clang_cl o1 \<longleftrightarrow> ''DefaultVis'' \<in> set (oVisibility o1) \<or> ''CLOption'' \<in> set (oVisibility o1)"

text \<open>Options whose visibility names neither are skipped; what is left without both has none.\<close>

definition set_visible :: "opt \<Rightarrow> OptionDefs \<times> OptionDefs \<Rightarrow> gen_error + OptionDefs \<times> OptionDefs" where
  "set_visible o1 ods =
     (case (if for_clang o1 then setOption (fst ods) o1 else Inr (fst ods)) of
        Inl e \<Rightarrow> Inl e
      | Inr c \<Rightarrow>
         (case (if for_clang_cl o1 then setOption (snd ods) o1 else Inr (snd ods)) of
            Inl e \<Rightarrow> Inl e
          | Inr cl \<Rightarrow> Inr (c, cl)))"

primrec parse_members :: "(string \<times> json) list \<Rightarrow> OptionDefs \<times> OptionDefs \<Rightarrow> gen_error + OptionDefs \<times> OptionDefs" where
  "parse_members [] ods = Inr ods"
| "parse_members (kv # kvs) ods =
     (case snd kv of
        JObject v \<Rightarrow>
          if isOptionClass v then
            (case parseOpt v of
               Inl e \<Rightarrow> Inl e
             | Inr o1 \<Rightarrow> (case set_visible o1 ods of Inl e \<Rightarrow> Inl e | Inr ods' \<Rightarrow> parse_members kvs ods'))
          else parse_members kvs ods
      | _ \<Rightarrow> parse_members kvs ods)"

definition parseOptions :: "(string \<times> json) list \<Rightarrow> gen_error + ClangTables" where
  "parseOptions m =
     (case parse_members (sort_key fst m) (empty_defs, empty_defs) of
        Inl e \<Rightarrow> Inl e
      | Inr (c, cl) \<Rightarrow>
         Inr \<lparr>ClangOptions = odOptions c, ClangPrefixes = sort_prefixes (odPrefixes c), ClangNormalizedFlags = odNormalized c,
              ClangCLOptions = odOptions cl, ClangCLPrefixes = sort_prefixes (odPrefixes cl), ClangCLNormalizedFlags = odNormalized cl\<rparr>)"

section \<open>What the tables hold\<close>

text \<open>The options of the file, and the flags of options that have a place in a table.\<close>

definition member_opts :: "(string \<times> json) list \<Rightarrow> opt set" where
  "member_opts kvs = {o1. \<exists>k v. (k, JObject v) \<in> set kvs \<and> isOptionClass v \<and> parseOpt v = Inr o1}"

definition joined_flags :: "opt set \<Rightarrow> PrefixOption set" where
  "joined_flags os = {\<lparr>Prefix = p @ oName o1, NumArgs = n\<rparr> | o1 p n. o1 \<in> os \<and> p \<in> set (oPrefixes o1) \<and> prefix_arity o1 = Some n}"

definition option_flags :: "opt set \<Rightarrow> string set" where
  "option_flags os = {p @ oName o1 | o1 p. o1 \<in> os \<and> p \<in> set (oPrefixes o1) \<and> option_arity o1 \<noteq> None}"

text \<open>Tables \<open>od'\<close> have, beyond those of \<open>od\<close>, exactly the flags of \<open>os\<close>.\<close>

definition adds_flags :: "opt set \<Rightarrow> OptionDefs \<Rightarrow> OptionDefs \<Rightarrow> bool" where
  "adds_flags os od od' \<longleftrightarrow> set (odPrefixes od') = set (odPrefixes od) \<union> joined_flags os \<and>
     dom (odOptions od') = dom (odOptions od) \<union> option_flags os"

lemma flags_empty [simp]: "joined_flags {} = {}" "option_flags {} = {}"
  by (auto simp: joined_flags_def option_flags_def)

lemma flags_union: "joined_flags (A \<union> B) = joined_flags A \<union> joined_flags B" "option_flags (A \<union> B) = option_flags A \<union> option_flags B"
  by (auto simp: joined_flags_def option_flags_def)

lemma adds_flags_none [simp]: "adds_flags {} od od"
  by (simp add: adds_flags_def)

lemma adds_flags_trans: "adds_flags A od od1 \<Longrightarrow> adds_flags B od1 od2 \<Longrightarrow> adds_flags (A \<union> B) od od2"
  by (auto simp: adds_flags_def flags_union)

lemma set_flag_adds:
  assumes "set_flag o1 flag od = Some od'"
  shows "set (odPrefixes od') = set (odPrefixes od) \<union> {\<lparr>Prefix = flag, NumArgs = n\<rparr> | n. prefix_arity o1 = Some n} \<and>
    dom (odOptions od') = dom (odOptions od) \<union> {flag | n. option_arity o1 = Some n}"
  using assms by (cases "option_arity o1"; cases "prefix_arity o1") (auto simp: set_flag_def add_prefix_def add_option_def)

lemma set_flags_of_adds:
  assumes "set_flags_of o1 ps od = Some od'"
  shows "set (odPrefixes od') = set (odPrefixes od) \<union> {\<lparr>Prefix = p @ oName o1, NumArgs = n\<rparr> | p n. p \<in> set ps \<and> prefix_arity o1 = Some n} \<and>
    dom (odOptions od') = dom (odOptions od) \<union> {p @ oName o1 | p n. p \<in> set ps \<and> option_arity o1 = Some n}"
  using assms
proof (induction ps arbitrary: od)
  case (Cons p ps)
  obtain od1 where s: "set_flag o1 (p @ oName o1) od = Some od1" "set_flags_of o1 ps od1 = Some od'"
    using Cons.prems by (auto split: option.splits)
  show ?case using set_flag_adds [OF s(1)] Cons.IH [OF s(2)] by auto
qed simp

lemma setOption_adds:
  assumes "setOption od o1 = Inr od'"
  shows "adds_flags {o1} od od'"
proof -
  obtain od1 where s: "set_flags_of o1 (oPrefixes o1) od = Some od1" "od' = normalize_to_last o1 od1"
    using assms by (auto simp: setOption_def split: option.splits)
  have "odPrefixes od' = odPrefixes od1" "odOptions od' = odOptions od1" using s(2) by (auto simp: normalize_to_last_def)
  then show ?thesis using set_flags_of_adds [OF s(1)] by (auto simp: adds_flags_def joined_flags_def option_flags_def)
qed

lemma set_visible_adds:
  assumes "set_visible o1 (c, cl) = Inr (c', cl')"
  shows "adds_flags {o2 \<in> {o1}. for_clang o2} c c' \<and> adds_flags {o2 \<in> {o1}. for_clang_cl o2} cl cl'"
proof -
  have one: "{o2 \<in> {o1}. P o2} = (if P o1 then {o1} else {})" for P by auto
  show ?thesis
    using assms unfolding one
    by (auto simp: set_visible_def split: sum.splits if_splits intro: setOption_adds)
qed

lemma member_opts_Cons:
  "member_opts (kv # kvs) = member_opts kvs \<union>
     (case snd kv of JObject v \<Rightarrow> if isOptionClass v then (case parseOpt v of Inr o1 \<Rightarrow> {o1} | Inl _ \<Rightarrow> {}) else {} | _ \<Rightarrow> {})"
  by (cases kv) (auto simp: member_opts_def split: json.splits sum.splits)

lemma parse_members_adds:
  assumes "parse_members kvs (c, cl) = Inr (c', cl')"
  shows "adds_flags {o1 \<in> member_opts kvs. for_clang o1} c c' \<and> adds_flags {o1 \<in> member_opts kvs. for_clang_cl o1} cl cl'"
  using assms
proof (induction kvs arbitrary: c cl)
  case Nil
  then show ?case by (simp add: member_opts_def)
next
  case (Cons kv kvs)
  consider (skip) "parse_members kvs (c, cl) = Inr (c', cl')" "member_opts (kv # kvs) = member_opts kvs"
    | (opt) o1 c1 cl1 where "set_visible o1 (c, cl) = Inr (c1, cl1)" "parse_members kvs (c1, cl1) = Inr (c', cl')"
        "member_opts (kv # kvs) = member_opts kvs \<union> {o1}"
    using Cons.prems by (cases "snd kv") (auto simp: member_opts_Cons split: if_splits sum.splits)
  then show ?case
  proof cases
    case skip
    then show ?thesis using Cons.IH by simp
  next
    case opt
    have "{o2 \<in> member_opts (kv # kvs). P o2} = {o2 \<in> {o1}. P o2} \<union> {o2 \<in> member_opts kvs. P o2}" for P
      using opt(3) by auto
    then show ?thesis using set_visible_adds [OF opt(1)] Cons.IH [OF opt(2)] by (auto intro: adds_flags_trans)
  qed
qed

lemma parseOptions_flags:
  assumes "parseOptions m = Inr t"
  shows "set (ClangPrefixes t) = joined_flags {o1 \<in> member_opts m. for_clang o1} \<and>
    dom (ClangOptions t) = option_flags {o1 \<in> member_opts m. for_clang o1} \<and>
    set (ClangCLPrefixes t) = joined_flags {o1 \<in> member_opts m. for_clang_cl o1} \<and>
    dom (ClangCLOptions t) = option_flags {o1 \<in> member_opts m. for_clang_cl o1}"
proof -
  obtain c cl where p: "parse_members (sort_key fst m) (empty_defs, empty_defs) = Inr (c, cl)"
    and t: "ClangPrefixes t = sort_prefixes (odPrefixes c)" "ClangOptions t = odOptions c"
      "ClangCLPrefixes t = sort_prefixes (odPrefixes cl)" "ClangCLOptions t = odOptions cl"
    using assms by (auto simp: parseOptions_def split: sum.splits)
  have "member_opts (sort_key fst m) = member_opts m" by (simp add: member_opts_def)
  then show ?thesis
    using parse_members_adds [OF p] t by (simp add: adds_flags_def empty_defs_def sort_prefixes_def)
qed

text \<open>C14: Scanning with the generated tables: an argument that is read as a joined flag is read as a flag
  of a clang option of the file, and as the longest one that it starts with.\<close>

theorem generated_tables_longest:
  assumes "parseOptions m = Inr t"
    and "ReadNextFlag (new_scanner (a # as) (ClangOptions t) (ClangPrefixes t) (ClangNormalizedFlags t)) = Some (r, s')"
    and "ResJoined r"
  shows "(\<exists>n. \<lparr>Prefix = ResOriginalKey r, NumArgs = n\<rparr> \<in> joined_flags {o1 \<in> member_opts m. for_clang o1}) \<and>
    (\<forall>q \<in> joined_flags {o1 \<in> member_opts m. for_clang o1}. prefix (Prefix q) a \<longrightarrow> prefix (Prefix q) (ResOriginalKey r))"
proof -
  obtain c where c: "ClangPrefixes t = sort_prefixes c" "set (ClangPrefixes t) = set c"
    using assms(1) by (auto simp: parseOptions_def sort_prefixes_def split: sum.splits)
  have flags: "set (ClangPrefixes t) = joined_flags {o1 \<in> member_opts m. for_clang o1}" using parseOptions_flags [OF assms(1)] by simp
  obtain f where f: "find (\<lambda>p. prefix (Prefix p) a) (ClangPrefixes t) = Some f" "ResOriginalKey r = Prefix f"
    using assms(2,3) by (auto simp: ReadNextFlag_def new_scanner_def updatedFlag_def Let_def split: option.splits prod.splits if_splits)
  have ff: "\<lparr>Prefix = Prefix f, NumArgs = NumArgs f\<rparr> = f" by simp
  have "f \<in> set (ClangPrefixes t)" using findSomeD [OF f(1)] by simp
  then have "\<lparr>Prefix = ResOriginalKey r, NumArgs = NumArgs f\<rparr> \<in> joined_flags {o1 \<in> member_opts m. for_clang o1}"
    unfolding flags f(2) ff .
  moreover have "prefix (Prefix q) (ResOriginalKey r)" if "q \<in> set c" "prefix (Prefix q) a" for q
    using sort_prefixes_longest_match [OF f(1) [unfolded c(1)] that] f(2) by simp
  ultimately show ?thesis using flags c(2) by blast
qed

definition demo_option :: "string \<Rightarrow> string \<Rightarrow> json" where
  "demo_option kind name = JObject [(''!superclasses'', JArray [JString ''Option'']), (''Kind'', JObject [(''def'', JString kind)]),
     (''Name'', JString name), (''Prefixes'', JArray [JString ''-'']), (''NumArgs'', JNumber 0),
     (''Visibility'', JArray [JObject [(''def'', JString ''DefaultVis'')]])]"

definition demo_option_file :: "(string \<times> json) list" where
  "demo_option_file = [(''f'', demo_option ''KIND_JOINED'' ''f''), (''fprofile_use'', demo_option ''KIND_JOINED'' ''fprofile-use=''),
     (''!anchor'', JString ''x'')]"

definition demo_tables :: ClangTables where
  "demo_tables = (case parseOptions demo_option_file of Inr t \<Rightarrow> t | Inl _ \<Rightarrow>
     \<lparr>ClangOptions = Map.empty, ClangPrefixes = [], ClangNormalizedFlags = Map.empty, ClangCLOptions = Map.empty,
      ClangCLPrefixes = [], ClangCLNormalizedFlags = Map.empty\<rparr>)"

definition demo_read :: "(FlagResult \<times> Scanner) option" where
  "demo_read = ReadNextFlag (new_scanner [''-fprofile-use=x''] (ClangOptions demo_tables) (ClangPrefixes demo_tables)
     (ClangNormalizedFlags demo_tables))"

theorem generated_tables_longest_witness:
  "map_option (ResOriginalKey \<circ> fst) demo_read = Some ''-fprofile-use='' \<and>
   (\<exists>n. \<lparr>Prefix = ''-fprofile-use='', NumArgs = n\<rparr> \<in> joined_flags {o1 \<in> member_opts demo_option_file. for_clang o1})"
proof -
  have ok: "case parseOptions demo_option_file of Inr _ \<Rightarrow> True | Inl _ \<Rightarrow> False" by code_simp
  have t: "parseOptions demo_option_file = Inr demo_tables"
    using ok by (cases "parseOptions demo_option_file") (auto simp: demo_tables_def)
  have read: "map_option (\<lambda>rs. (ResOriginalKey (fst rs), ResJoined (fst rs))) demo_read = Some (''-fprofile-use='', True)" by code_simp
  then obtain r s' where rs: "demo_read = Some (r, s')" "ResOriginalKey r = ''-fprofile-use=''" "ResJoined r" by auto
  then show ?thesis using generated_tables_longest [OF t rs(1) [unfolded demo_read_def] rs(3)] by auto
qed

end
