(* ===== verification/Experiments.thy ===== *)
theory Experiments
  imports ArgsScanner Numbers GoPath
begin

text \<open>
  The experiment runner (\<open>experiments/internal/pkg/experiment\<close>, \<open>vm\<close>, \<open>tabulator\<close>): run configurations
  merged with a base configuration, the machines they ask for, the scripts run there
  and the durations read back. What machines and the storage service answer is an
  argument. A fatal error of the program is \<open>None\<close>.
\<close>

section \<open>Configurations\<close>

definition mergeVal :: "string \<Rightarrow> string \<Rightarrow> string" where
  "mergeVal b v = (if v = [] then b else v)"

definition mergeValEnum :: "int \<Rightarrow> int \<Rightarrow> int" where
  "mergeValEnum b v = (if v = 0 then b else v)"

definition mergeValUint32 :: "nat \<Rightarrow> nat \<Rightarrow> nat" where
  "mergeValUint32 b v = (if v = 0 then b else v)"

record vm_settings =
  vmZone :: string
  vmMachineType :: string
  vmImage :: string
  vmImageOs :: int
  vmImageProject :: string
  vmSshUser :: string
  vmSshKeyPath :: string
  vmDiskImage :: string
  vmDiskImageProject :: string
  vmDiskType :: string
  vmCreationFlags :: "string list"
  vmSystemDiskSize :: string

record ws_settings =
  wsAddress :: string
  wsSshUser :: string
  wsSshKeyPath :: string
  wsUseSudo :: bool

datatype machine = VmSettings vm_settings | WsSettings ws_settings

text \<open>\<open>MergeSettings\<close>: the base must have settings, and the run none or settings of the same type. The size of the
  system disk and the use of sudo are not merged.\<close>

definition MergeSettings :: "machine option \<Rightarrow> machine option \<Rightarrow> machine option" where
  "MergeSettings baseSettings runSettings =
     (case baseSettings of
        None \<Rightarrow> None
      | Some b \<Rightarrow>
         (case runSettings of
            None \<Rightarrow> Some b
          | Some r \<Rightarrow>
             (case (b, r) of
                (VmSettings x, VmSettings y) \<Rightarrow>
                  Some (VmSettings \<lparr>vmZone = mergeVal (vmZone x) (vmZone y), vmMachineType = mergeVal (vmMachineType x) (vmMachineType y),
                    vmImage = mergeVal (vmImage x) (vmImage y), vmImageOs = mergeValEnum (vmImageOs x) (vmImageOs y),
                    vmImageProject = mergeVal (vmImageProject x) (vmImageProject y), vmSshUser = mergeVal (vmSshUser x) (vmSshUser y),
                    vmSshKeyPath = mergeVal (vmSshKeyPath x) (vmSshKeyPath y), vmDiskImage = mergeVal (vmDiskImage x) (vmDiskImage y),
                    vmDiskImageProject = mergeVal (vmDiskImageProject x) (vmDiskImageProject y),
                    vmDiskType = mergeVal (vmDiskType x) (vmDiskType y), vmCreationFlags = vmCreationFlags x @ vmCreationFlags y,
                    vmSystemDiskSize = vmSystemDiskSize x\<rparr>)
              | (WsSettings x, WsSettings y) \<Rightarrow>
                  Some (WsSettings \<lparr>wsAddress = mergeVal (wsAddress x) (wsAddress y), wsSshUser = mergeVal (wsSshUser x) (wsSshUser y),
                    wsSshKeyPath = mergeVal (wsSshKeyPath x) (wsSshKeyPath y), wsUseSudo = wsUseSudo x\<rparr>)
              | _ \<Rightarrow> None)))"

type_synonym environment = "(string \<times> string) list"

definition merge_env_step :: "environment \<Rightarrow> string \<times> string \<Rightarrow> environment" where
  "merge_env_step e kv =
     (if fst kv \<in> fst ` set e then map (\<lambda>b. if fst b = fst kv then kv else b) e else e @ [kv])"

definition mergeEnvironments :: "environment \<Rightarrow> environment \<Rightarrow> environment" where
  "mergeEnvironments b run = (if run = [] then b else if b = [] then run else foldl merge_env_step b run)"

type_synonym command = "string list"

record RunConfiguration =
  rcName :: string
  rcMachine :: "machine option"
  rcReclientBinPath :: string
  rcReclientDestination :: string
  rcNumMachines :: nat
  rcInputs :: "(string \<times> string \<times> bool) list"
  rcSetupCommands :: "command list"
  rcPreBuildCommands :: "command list"
  rcPostBuildCommands :: "command list"
  rcEnvironment :: environment
  rcBuildCommand :: "command option"
  rcOutputs :: "string list"
  rcTeardownCommands :: "command list"

definition applyConfig :: "RunConfiguration \<Rightarrow> RunConfiguration \<Rightarrow> RunConfiguration option" where
  "applyConfig b run =
     map_option (\<lambda>settings.
       \<lparr>rcName = rcName run, rcMachine = Some settings,
        rcReclientBinPath = mergeVal (rcReclientBinPath b) (rcReclientBinPath run),
        rcReclientDestination = mergeVal (rcReclientDestination b) (rcReclientDestination run),
        rcNumMachines = mergeValUint32 (rcNumMachines b) (rcNumMachines run),
        rcInputs = rcInputs b @ rcInputs run,
        rcSetupCommands = rcSetupCommands b @ rcSetupCommands run,
        rcPreBuildCommands = rcPreBuildCommands b @ rcPreBuildCommands run,
        rcPostBuildCommands = rcPostBuildCommands b @ rcPostBuildCommands run,
        rcEnvironment = mergeEnvironments (rcEnvironment b) (rcEnvironment run),
        rcBuildCommand = (case rcBuildCommand run of None \<Rightarrow> rcBuildCommand b | Some c \<Rightarrow> Some c),
        rcOutputs = rcOutputs b @ rcOutputs run,
        rcTeardownCommands = rcTeardownCommands b @ rcTeardownCommands run\<rparr>)
     (MergeSettings (rcMachine b) (rcMachine run))"

text \<open>The copies of a configuration that \<open>prepRCs\<close> merges with the base, one per machine.\<close>

definition machine_copies :: "RunConfiguration \<Rightarrow> RunConfiguration list" where
  "machine_copies rc =
     (let n = (if rcNumMachines rc = 0 then 1 else rcNumMachines rc) in
      map (\<lambda>i. rc\<lparr>rcNumMachines := n, rcName := rcName rc @ ''-'' @ show_base 10 i\<rparr>) [0..<n])"

section \<open>Scripts\<close>

definition nl :: string where "nl = [CHR 0x0A]"

definition logFile :: string where "logFile = ''/tmp/exp.log''"

definition timeFile :: string where "timeFile = ''/tmp/time.txt''"

definition trialFile :: string where "trialFile = ''/tmp/trial.txt''"

definition exportEnv :: "string \<Rightarrow> string \<Rightarrow> string" where
  "exportEnv key value = ''export '' @ key @ ''='' @ value @ nl @ ''echo '' @ key @ ''=${'' @ key @ ''} >> '' @ logFile @ nl"

definition exported :: "string \<Rightarrow> RunConfiguration \<Rightarrow> environment" where
  "exported expName rc =
     [(''EXPNAME'', expName), (''RCNAME'', rcName rc), (''RECLIENT_BIN_PATH'', rcReclientBinPath rc),
      (''RECLIENT_DESTINATION'', rcReclientDestination rc)] @ rcEnvironment rc"

definition exportEnvironmentVariables :: "string \<Rightarrow> RunConfiguration \<Rightarrow> string" where
  "exportEnvironmentVariables expName rc = concat (map (\<lambda>(k, v). exportEnv k v) (exported expName rc))"

definition joined :: "command \<Rightarrow> string" where
  "joined args = join_with '' '' args"

text \<open>The line that announces a command or its end in the log.\<close>

definition announce :: "string \<Rightarrow> string \<Rightarrow> string" where
  "announce what cmd =
     ''echo '' @ [CHR 0x22, CHR 0x60] @ ''date'' @ [CHR 0x60] @ '': '' @ what @ '': '' @ cmd @ [CHR 0x22] @ '' >> '' @ logFile @ nl"

definition touch :: "string \<Rightarrow> string" where
  "touch f = ''touch '' @ f @ nl @ ''chmod 666 '' @ f @ nl"

definition heredoc :: string where
  "heredoc = ''<<'' @ [CHR 0x27] @ ''EOSU'' @ [CHR 0x27]"

definition redirect :: string where
  "redirect = '' >> '' @ logFile @ '' 2>&1 ''"

definition has_su :: "command list \<Rightarrow> bool" where
  "has_su cmds \<longleftrightarrow> list_ex (\<lambda>c. ''su'' \<in> set c) cmds"

definition setup_command :: "command \<Rightarrow> string" where
  "setup_command c =
     (let cmd = joined (if ''su'' \<in> set c then c @ [heredoc] else c) in
      announce ''Will run'' cmd @ cmd @ nl @ announce ''Finished'' cmd)"

definition setupScript :: "string \<Rightarrow> RunConfiguration \<Rightarrow> string" where
  "setupScript expName rc =
     ''#!/bin/bash'' @ nl @ ''set -e'' @ nl @ touch logFile @ touch timeFile @ ''echo 0 > '' @ trialFile @ nl @
     ''chmod 666 '' @ trialFile @ nl @ exportEnvironmentVariables expName rc @
     concat (map setup_command (rcSetupCommands rc)) @ (if has_su (rcSetupCommands rc) then ''EOSU'' @ nl else [])"

definition build_step :: "command \<Rightarrow> string" where
  "build_step c =
     announce ''Will run'' (joined c) @ joined c @ (if ''su'' \<in> set c then heredoc else redirect) @ nl @
     announce ''Finished'' (joined c)"

text \<open>A configuration without build command panics.\<close>

definition buildScript :: "string \<Rightarrow> RunConfiguration \<Rightarrow> string option" where
  "buildScript expName rc =
     map_option (\<lambda>build.
       ''#!/bin/bash'' @ nl @ ''set -e'' @ nl @ touch logFile @ touch timeFile @ exportEnvironmentVariables expName rc @
       ''trial=$(cat '' @ trialFile @ '')'' @ nl @ exportEnv ''TRIAL'' ''${trial}'' @ ''trial=$((trial + 1))'' @ nl @
       ''echo ${trial} > '' @ trialFile @ nl @
       concat (map build_step (rcPreBuildCommands rc)) @
       ''START='' @ [CHR 0x60] @ ''date +%s'' @ [CHR 0x60] @ nl @
       announce ''Will run'' (joined build) @ joined build @ redirect @ nl @ announce ''Finished'' (joined build) @
       ''END='' @ [CHR 0x60] @ ''date +%s'' @ [CHR 0x60] @ nl @
       ''echo '' @ [CHR 0x22] @ ''$((($END-$START)))s'' @ [CHR 0x22] @ '' > '' @ timeFile @ nl @
       concat (map build_step (rcPostBuildCommands rc)) @
       (if has_su (rcPreBuildCommands rc) \<or> has_su (rcPostBuildCommands rc) then ''EOSU'' @ nl else []))
     (rcBuildCommand rc)"

text \<open>Where the binaries come from when they are not built locally.\<close>

definition reclient_source :: "string \<Rightarrow> string" where
  "reclient_source path =
     (let p = (if prefix ''gs://'' path then path else ''gs://'' @ path) in if suffix ''/*'' p then p else p @ ''/*'')"

section \<open>Results\<close>

text \<open>A trial: the time file and the metrics, either of which may be missing.\<close>

definition trial_duration :: "string option \<Rightarrow> int option" where
  "trial_duration f = (case f of None \<Rightarrow> None | Some s \<Rightarrow> ParseInt 10 64 (trim_chars (''s'' @ nl) s))"

fun getConfig :: "(string option \<times> 'm option) list \<Rightarrow> int list \<times> 'm list" where
  "getConfig [] = ([], [])"
| "getConfig ((time, metrics) # ts) =
     (case getConfig ts of (ds, ms) \<Rightarrow>
      (case trial_duration time of
         None \<Rightarrow> (ds, ms)
       | Some d \<Rightarrow> (d # ds, (case metrics of None \<Rightarrow> ms | Some m \<Rightarrow> m # ms))))"

text \<open>Listing a directory, and the results of an experiment: configurations, and the last definition
  file found beside them. The inner lists are those of \<open>getConfig\<close>.\<close>

definition deleteEmpty :: "string list \<Rightarrow> string list" where
  "deleteEmpty s = filter (\<lambda>str. str \<noteq> []) s"

definition gcs_List :: "string option \<Rightarrow> string list option" where
  "gcs_List out = map_option (\<lambda>oe. deleteEmpty (split_on (CHR 0x0A) oe)) out"

record 'm Results =
  rConfigUrl :: string
  rConfigResults :: "(string \<times> int list \<times> 'm list) list"

definition add_result :: "(string \<Rightarrow> (string option \<times> 'm option) list) \<Rightarrow> 'm Results \<Rightarrow> string \<Rightarrow> 'm Results" where
  "add_result trials r c =
     (if suffix ''textproto'' c then r\<lparr>rConfigUrl := c\<rparr>
      else r\<lparr>rConfigResults := rConfigResults r @ [(Base c, getConfig (trials c))]\<rparr>)"

definition collect_results :: "(string \<Rightarrow> (string option \<times> 'm option) list) \<Rightarrow> string option \<Rightarrow> 'm Results option" where
  "collect_results trials out =
     map_option (foldl (add_result trials) \<lparr>rConfigUrl = [], rConfigResults = []\<rparr>) (gcs_List out)"

section \<open>Environments\<close>

text \<open>The environment after exporting the pairs in order.\<close>

definition env_of :: "environment \<Rightarrow> (string \<rightharpoonup> string)" where
  "env_of e = foldl (\<lambda>m (k, v). m(k \<mapsto> v)) Map.empty e"

lemma env_of_map_of: "env_of e = map_of (rev e)"
proof -
  have "foldl (\<lambda>m (k, v). m(k \<mapsto> v)) m e = m ++ map_of (rev e)" for m
    by (induction e arbitrary: m) (auto simp: map_add_def fun_eq_iff split: option.splits)
  then show ?thesis by (simp add: env_of_def)
qed

lemma merge_env_step_env: "env_of (merge_env_step e kv) = (env_of e)(fst kv \<mapsto> snd kv)"
proof (cases "fst kv \<in> fst ` set e")
  case True
  let ?f = "\<lambda>b. if fst b = fst kv then kv else b"
  have "map_of (map ?f xs) k = (if k = fst kv then (if fst kv \<in> fst ` set xs then Some (snd kv) else None) else map_of xs k)" for xs k
  proof (induction xs)
    case (Cons a xs)
    then show ?case by (cases "fst a = fst kv"; cases "k = fst kv") simp_all
  qed simp
  then show ?thesis using True by (auto simp: env_of_map_of merge_env_step_def rev_map fun_eq_iff)
next
  case False
  then show ?thesis by (cases kv) (auto simp: env_of_map_of merge_env_step_def)
qed

text \<open>Exporting the merged environment has the effect of exporting that of the base and then that of
  the run.\<close>

theorem mergeEnvironments_exports: "env_of (mergeEnvironments b run) = env_of b ++ env_of run"
proof -
  have "env_of (foldl merge_env_step e run) = env_of e ++ env_of run" for e
  proof (induction run arbitrary: e)
    case Nil
    then show ?case by (simp add: env_of_def)
  next
    case (Cons kv run)
    have "env_of (kv # run) = [fst kv \<mapsto> snd kv] ++ env_of run" by (simp add: env_of_map_of map_add_def fun_eq_iff split: option.splits)
    then show ?case using Cons [of "merge_env_step e kv"]
      by (auto simp: merge_env_step_env map_add_def fun_eq_iff split: option.splits)
  qed
  then show ?thesis by (simp add: mergeEnvironments_def env_of_def)
qed

text \<open>A configuration that does not name a number of machines gets one, whatever the base says.\<close>

lemma base_machines_ignored:
  assumes "rcNumMachines rc = 0"
  shows "map (applyConfig b) (machine_copies rc) = [applyConfig b (rc\<lparr>rcNumMachines := 1, rcName := rcName rc @ ''-0''\<rparr>)]"
proof -
  have "show_base 10 0 = ''0''" by code_simp
  then show ?thesis using assms by (simp add: machine_copies_def Let_def)
qed

text \<open>The size of the system disk that a run configuration asks for has no effect.\<close>

lemma run_disk_size_ignored:
  "MergeSettings (Some (VmSettings x)) (Some (VmSettings (y\<lparr>vmSystemDiskSize := z\<rparr>))) =
   MergeSettings (Some (VmSettings x)) (Some (VmSettings y))"
  by (simp add: MergeSettings_def)

text \<open>Every line of the listing that is not a definition file is a configuration, in order.\<close>

lemma collect_results_configs:
  assumes "collect_results trials out = Some r" and "gcs_List out = Some cs"
  shows "rConfigResults r = map (\<lambda>c. (Base c, getConfig (trials c))) (filter (\<lambda>c. \<not> suffix ''textproto'' c) cs)"
proof -
  have "rConfigResults (foldl (add_result trials) r0 xs) =
      rConfigResults r0 @ map (\<lambda>c. (Base c, getConfig (trials c))) (filter (\<lambda>c. \<not> suffix ''textproto'' c) xs)" for r0 xs
    by (induction xs arbitrary: r0) (simp_all add: add_result_def)
  then show ?thesis using assms by (auto simp: collect_results_def)
qed

text \<open>The number of seconds a build script writes is read back.\<close>

theorem trial_duration_written:
  assumes "- (2 ^ 63) \<le> n" and "n < 2 ^ 63"
  shows "trial_duration (Some (show_signed n @ ''s'' @ nl)) = Some n"
proof -
  have digit: "c \<notin> set (''s'' @ nl)" if "c \<in> set (show_signed n)" for c
    using that show_base_digits [of 10 c] by (auto simp: show_signed_def nl_def split: if_splits)
  have ne: "show_signed n \<noteq> []" by (simp add: show_signed_def)
  have "trim_chars (''s'' @ nl) (show_signed n @ ''s'' @ nl) = show_signed n"
  proof -
    obtain c r where h: "show_signed n = c # r" using ne by (cases "show_signed n") auto
    obtain q d where l: "show_signed n = q @ [d]" using ne by (cases "show_signed n" rule: rev_cases) auto
    have "dropWhile (\<lambda>c. c \<in> set (''s'' @ nl)) (show_signed n @ ''s'' @ nl) = show_signed n @ ''s'' @ nl"
      using digit [of c] h by simp
    moreover have "dropWhile (\<lambda>c. c \<in> set (''s'' @ nl)) (rev (show_signed n @ ''s'' @ nl)) = rev (show_signed n)"
      using digit [of d] l by (simp add: nl_def)
    ultimately show ?thesis by (simp add: trim_chars_def)
  qed
  then show ?thesis using ParseInt_show_signed [of 64 n] assms by (simp add: trial_duration_def)
qed

theorem trial_duration_written_witness: "trial_duration (Some (show_signed 75 @ ''s'' @ nl)) = Some 75"
  using trial_duration_written [of 75] by simp

end
