(* ===== verification/ExperimentRun.thy ===== *)
theory ExperimentRun
  imports Experiments CaseInsensitive "HOL-Library.AList"
begin

text \<open>
  Machines and the run of an experiment (\<open>vm/vm.go\<close>, \<open>experiment/experiment.go\<close>): the commands a machine
  handle runs, the stages of an experiment on all its configurations, and the clean-up. A stage runs
  on all configurations in parallel, each with its own machine; what is kept of each is the
  sequence of the commands started for it. Whether a command succeeds is an argument that sees that
  sequence. Printing, and reading the log while a script runs, are left out.
\<close>

section \<open>Commands\<close>

type_synonym hist = "string list list"

type_synonym command_run = "hist \<Rightarrow> bool \<times> hist"

type_synonym shell = "hist \<Rightarrow> string list \<Rightarrow> bool"

definition exec_cmd :: "shell \<Rightarrow> string list \<Rightarrow> command_run" where
  "exec_cmd ex c h = (ex h c, h @ [c])"

definition fails :: command_run where
  "fails h = (False, h)"

text \<open>A sequence that returns at the first error, an action whose error is ignored, and up to
  \<open>n\<close> attempts.\<close>

primrec in_order :: "command_run list \<Rightarrow> command_run" where
  "in_order [] h = (True, h)"
| "in_order (a # as) h = (case a h of (True, h') \<Rightarrow> in_order as h' | (False, h') \<Rightarrow> (False, h'))"

definition ignoring :: "command_run \<Rightarrow> command_run" where
  "ignoring a h = (True, snd (a h))"

primrec attempts :: "nat \<Rightarrow> command_run \<Rightarrow> command_run" where
  "attempts 0 a h = (False, h)"
| "attempts (Suc n) a h = (case a h of (True, h') \<Rightarrow> (True, h') | (False, h') \<Rightarrow> attempts n a h')"

section \<open>Machines\<close>

record VM =
  vName :: string
  vDiskName :: string
  vProject :: string
  vSettings :: machine

definition sanitize_char :: "char \<Rightarrow> char" where
  "sanitize_char c = (let n = of_char c :: nat in
     if (97 \<le> n \<and> n \<le> 122) \<or> (65 \<le> n \<and> n \<le> 90) \<or> (48 \<le> n \<and> n \<le> 57) \<or> n = 45 then c else CHR ''-'')"

definition sanitizeName :: "string \<Rightarrow> string" where
  "sanitizeName name = to_lower (map sanitize_char name)"

definition NewMachine :: "string \<Rightarrow> string \<Rightarrow> machine option \<Rightarrow> VM option" where
  "NewMachine name project settings =
     (case settings of
        Some (VmSettings x) \<Rightarrow> Some \<lparr>vName = sanitizeName name, vDiskName = [], vProject = project, vSettings = VmSettings x\<rparr>
      | Some (WsSettings x) \<Rightarrow> Some \<lparr>vName = wsAddress x, vDiskName = [], vProject = project, vSettings = WsSettings x\<rparr>
      | None \<Rightarrow> None)"

definition gcePrefix :: "VM \<Rightarrow> string list" where
  "gcePrefix v = [''gcloud'', ''compute'', ''--project='' @ vProject v]"

definition sshUser :: "VM \<Rightarrow> string" where
  "sshUser v =
     (let u = (case vSettings v of VmSettings x \<Rightarrow> vmSshUser x | WsSettings x \<Rightarrow> wsSshUser x) in if u \<noteq> [] then u @ ''@'' else u)"

definition sshKey :: "VM \<Rightarrow> string list" where
  "sshKey v =
     (case vSettings v of
        VmSettings x \<Rightarrow> if vmSshKeyPath x \<noteq> [] then [''--ssh-key-file='' @ vmSshKeyPath x] else []
      | WsSettings x \<Rightarrow> if wsSshKeyPath x \<noteq> [] then [''-i'' @ wsSshKeyPath x] else [])"

definition appendProxyArgs :: "string list \<Rightarrow> string \<Rightarrow> string list" where
  "appendProxyArgs cmd proxyCmd = (if 0 < length proxyCmd then cmd @ [''-o'', ''ProxyCommand='' @ proxyCmd] else cmd)"

definition sshPrefix :: "VM \<Rightarrow> string list" where
  "sshPrefix v =
     (case vSettings v of
        VmSettings x \<Rightarrow>
          appendProxyArgs (gcePrefix v @ [''ssh'', ''--ssh-flag=-tt'', sshUser v @ vName v, ''--zone='' @ vmZone x] @ sshKey v @ [''--'']) []
      | WsSettings x \<Rightarrow> [''ssh'', sshUser v @ vName v] @ sshKey v)"

definition scpPrefix :: "VM \<Rightarrow> string list" where
  "scpPrefix v =
     (case vSettings v of
        VmSettings x \<Rightarrow> gcePrefix v @ [''scp'', ''--zone='' @ vmZone x] @ sshKey v @ [''--'']
      | WsSettings x \<Rightarrow> [''scp''] @ sshKey v)"

definition vm_RunCommand :: "shell \<Rightarrow> VM \<Rightarrow> string list \<Rightarrow> command_run" where
  "vm_RunCommand ex v cmd = exec_cmd ex (sshPrefix v @ [joined cmd])"

definition IsVM :: "VM \<Rightarrow> bool" where
  "IsVM v \<longleftrightarrow> (case vSettings v of VmSettings _ \<Rightarrow> True | WsSettings _ \<Rightarrow> False)"

definition Sudo :: "VM \<Rightarrow> string \<Rightarrow> string" where
  "Sudo v cmd =
     (case vSettings v of
        VmSettings _ \<Rightarrow> ''sudo '' @ cmd
      | WsSettings x \<Rightarrow> if wsUseSudo x then ''sudo '' @ cmd else cmd)"

definition no_disk :: "vm_settings \<Rightarrow> bool" where
  "no_disk x \<longleftrightarrow> vmDiskImage x = [] \<and> vmDiskImageProject x = []"

definition no_image :: "vm_settings \<Rightarrow> bool" where
  "no_image x \<longleftrightarrow> vmImage x = [] \<and> vmImageProject x = []"

definition create_args :: "VM \<Rightarrow> vm_settings \<Rightarrow> string list" where
  "create_args v x =
     gcePrefix v @
     [''instances'', ''create'', vName v, ''--zone='' @ vmZone x, ''--image='' @ vmImage x,
      ''--scopes=https://www.googleapis.com/auth/cloud-platform,https://www.googleapis.com/auth/userinfo.email'',
      ''--image-project='' @ vmImageProject x, ''--machine-type='' @ vmMachineType x,
      ''--create-disk=name='' @ vName v @ ''-source-disk,image='' @ vmDiskImage x @ '',image-project='' @ vmDiskImageProject x @
        '',type='' @ (if vmDiskType x \<noteq> [] then vmDiskType x else ''pd-ssd'')] @ vmCreationFlags x"

definition CreateWithDisk :: "shell \<Rightarrow> VM \<Rightarrow> command_run" where
  "CreateWithDisk ex v =
     (case vSettings v of
        WsSettings _ \<Rightarrow> in_order []
      | VmSettings x \<Rightarrow>
         if no_image x \<or> no_disk x then fails
         else in_order (
           [exec_cmd ex (create_args v x)] @
           (if vmSshUser x \<noteq> [] then
              [exec_cmd ex (gcePrefix v @ [''instances'', ''add-metadata'', vName v, ''--zone='' @ vmZone x, ''--metadata'', ''enable-oslogin=false''])]
            else []) @
           (if vmSystemDiskSize x \<noteq> [] then
              [exec_cmd ex (gcePrefix v @ [''disks'', ''resize'', vName v, ''--size='' @ vmSystemDiskSize x, ''--zone='' @ vmZone x, ''--quiet''])]
            else [])))"

text \<open>The handle after \<open>CreateWithDisk\<close>.\<close>

definition with_disk_name :: "VM \<Rightarrow> VM" where
  "with_disk_name v =
     (case vSettings v of
        WsSettings _ \<Rightarrow> v
      | VmSettings x \<Rightarrow> if no_image x \<or> no_disk x then v else v\<lparr>vDiskName := vName v @ ''-source-disk''\<rparr>)"

text \<open>Four attempts, after growing pauses.\<close>

definition waitUntilUp :: "shell \<Rightarrow> VM \<Rightarrow> command_run" where
  "waitUntilUp ex v = attempts (length [10, 30, 60, 120 :: nat]) (vm_RunCommand ex v [''echo'', ''Hello''])"

definition mountLinux :: "shell \<Rightarrow> VM \<Rightarrow> command_run" where
  "mountLinux ex v = in_order
     [vm_RunCommand ex v [''sudo'', ''mkdir'', ''-p'', ''/img''],
      vm_RunCommand ex v [''sudo'', ''mount'', ''-o'', ''discard,defaults'', ''/dev/sdb'', ''/img'']]"

definition mountWin :: command_run where
  "mountWin = in_order []"

text \<open>The operating system of a Windows machine.\<close>

definition VMSettings_WINDOWS :: int where "VMSettings_WINDOWS = 1"

definition Mount :: "shell \<Rightarrow> VM \<Rightarrow> command_run" where
  "Mount ex v =
     (case vSettings v of
        WsSettings _ \<Rightarrow> in_order []
      | VmSettings x \<Rightarrow>
         if no_disk x then fails
         else in_order [waitUntilUp ex v, if vmImageOs x = VMSettings_WINDOWS then mountWin else mountLinux ex v])"

definition ImageDisk :: "shell \<Rightarrow> VM \<Rightarrow> command_run" where
  "ImageDisk ex v =
     (case vSettings v of
        WsSettings _ \<Rightarrow> in_order []
      | VmSettings x \<Rightarrow>
         if no_disk x then fails
         else exec_cmd ex (gcePrefix v @ [''images'', ''create'', vName v @ ''-'' @ vmDiskImage x, ''--zone='' @ vmZone x,
                ''--source-disk='' @ vDiskName v, ''--source-disk-zone='' @ vmZone x]))"

definition bash :: "shell \<Rightarrow> string list \<Rightarrow> command_run" where
  "bash ex args = exec_cmd ex [''/bin/bash'', ''-c'', joined args]"

definition CopyFilesToVM :: "shell \<Rightarrow> VM \<Rightarrow> string \<Rightarrow> string \<Rightarrow> command_run" where
  "CopyFilesToVM ex v src dest = bash ex (scpPrefix v @ [src, sshUser v @ vName v @ '':'' @ dest])"

definition CopyFilesFromVM :: "shell \<Rightarrow> VM \<Rightarrow> string \<Rightarrow> string \<Rightarrow> command_run" where
  "CopyFilesFromVM ex v src dest = bash ex (scpPrefix v @ [sshUser v @ vName v @ '':'' @ src, dest])"

definition delete_args :: "VM \<Rightarrow> vm_settings \<Rightarrow> string list" where
  "delete_args v x = gcePrefix v @ [''instances'', ''delete'', vName v, ''--zone='' @ vmZone x]"

definition Delete :: "shell \<Rightarrow> VM \<Rightarrow> bool \<Rightarrow> command_run" where
  "Delete ex v dryRun =
     (case vSettings v of
        WsSettings _ \<Rightarrow> in_order []
      | VmSettings x \<Rightarrow> if dryRun then in_order [] else exec_cmd ex (delete_args v x))"

definition gcs_Copy :: "shell \<Rightarrow> string \<Rightarrow> string \<Rightarrow> command_run" where
  "gcs_Copy ex src dest = exec_cmd ex [''gcloud'', ''storage'', ''cp'', src, dest]"

section \<open>Experiments\<close>

record Experiment =
  eName :: string
  eDate :: string
  eBucket :: string
  eProject :: string
  eBaseDir :: string
  eTrials :: nat
  eBase :: RunConfiguration
  eRuns :: "RunConfiguration list"

text \<open>Directories made for the \<open>i\<close>-th machine, clean-up of its output directory after a trial,
  temporary files in a directory, binaries of the build, and the commands by configuration.\<close>

record exp_host =
  ehMkdirTemp :: "nat \<Rightarrow> string option"
  ehMkdir :: "string \<Rightarrow> bool"
  ehRenew :: "nat \<Rightarrow> string \<Rightarrow> bool"
  ehTemp :: "string \<Rightarrow> string \<Rightarrow> string option"
  ehFindBinary :: "string \<Rightarrow> string option"
  ehExec :: "string \<Rightarrow> shell"

record exp_state =
  esConfigs :: "(string \<times> RunConfiguration) list"
  esTmp :: "string \<Rightarrow> string"
  esVms :: "string \<rightharpoonup> VM"
  esSetup :: "string \<rightharpoonup> string"
  esBuild :: "string \<rightharpoonup> string"
  esFiles :: "string \<rightharpoonup> string"
  esHist :: "string \<Rightarrow> hist"

definition new_experiment :: exp_state where
  "new_experiment = \<lparr>esConfigs = [], esTmp = (\<lambda>_. []), esVms = Map.empty, esSetup = Map.empty, esBuild = Map.empty,
     esFiles = Map.empty, esHist = (\<lambda>_. [])\<rparr>"

datatype exp_outcome = ExpOk | ExpError | ExpPanic | ExpFatal

definition outDir :: string where "outDir = ''outputs''"

definition reclientDir :: string where "reclientDir = ''reclient''"

definition rcID :: "Experiment \<Rightarrow> RunConfiguration \<Rightarrow> string" where
  "rcID e rc = eName e @ ''-'' @ eDate e @ ''-'' @ rcName rc"

text \<open>A later configuration of the same name replaces an earlier one.\<close>

fun prep_loop :: "exp_host \<Rightarrow> RunConfiguration \<Rightarrow> (nat \<times> RunConfiguration) list \<Rightarrow> exp_state \<Rightarrow> exp_outcome \<times> exp_state" where
  "prep_loop H b [] s = (ExpOk, s)"
| "prep_loop H b ((i, c) # cs) s =
     (case ehMkdirTemp H i of
        None \<Rightarrow> (ExpError, s)
      | Some dest \<Rightarrow>
         (case applyConfig b c of
            None \<Rightarrow> (ExpFatal, s)
          | Some rc \<Rightarrow>
             (let s' = s\<lparr>esConfigs := AList.update (rcName rc) rc (esConfigs s), esTmp := (esTmp s)(rcName rc := dest)\<rparr> in
              if ehMkdir H (Join [dest, outDir]) \<and> ehMkdir H (Join [dest, reclientDir]) then prep_loop H b cs s' else (ExpError, s'))))"

definition prepRCs :: "exp_host \<Rightarrow> Experiment \<Rightarrow> exp_state \<Rightarrow> exp_outcome \<times> exp_state" where
  "prepRCs H e s =
     prep_loop H (eBase e) (enumerate 0 (concat (map machine_copies (eRuns e)))) (s\<lparr>esConfigs := [], esTmp := (\<lambda>_. [])\<rparr>)"

text \<open>All configurations run to their end; an error of one is an error of the stage.\<close>

definition runOnConfigs :: "(RunConfiguration \<Rightarrow> command_run) \<Rightarrow> exp_state \<Rightarrow> exp_outcome \<times> exp_state" where
  "runOnConfigs f s =
     (if list_all (\<lambda>(n, rc). fst (f rc (esHist s n))) (esConfigs s) then ExpOk else ExpError,
      s\<lparr>esHist := (\<lambda>n. case map_of (esConfigs s) n of None \<Rightarrow> esHist s n | Some rc \<Rightarrow> snd (f rc (esHist s n)))\<rparr>)"

text \<open>With the machine of the configuration.\<close>

definition on_vm :: "exp_state \<Rightarrow> RunConfiguration \<Rightarrow> (VM \<Rightarrow> command_run) \<Rightarrow> command_run" where
  "on_vm s rc f = (case esVms s (rcName rc) of None \<Rightarrow> fails | Some v \<Rightarrow> f v)"

definition startVMs :: "exp_host \<Rightarrow> Experiment \<Rightarrow> exp_state \<Rightarrow> exp_outcome \<times> exp_state" where
  "startVMs H e s =
     (let machine = (\<lambda>rc. NewMachine (rcID e rc) (eProject e) (rcMachine rc)) in
      if list_ex (\<lambda>(n, rc). machine rc = None) (esConfigs s) then (ExpFatal, s)
      else case runOnConfigs (\<lambda>rc. case machine rc of None \<Rightarrow> fails
               | Some v \<Rightarrow> in_order [CreateWithDisk (ehExec H (rcName rc)) v, Mount (ehExec H (rcName rc)) v]) s of
             (r, s') \<Rightarrow> (r, s'\<lparr>esVms := (\<lambda>n. case map_of (esConfigs s) n of None \<Rightarrow> None | Some rc \<Rightarrow> map_option with_disk_name (machine rc))\<rparr>))"

text \<open>The error of the upload of an input is not looked at.\<close>

definition copy_input :: "shell \<Rightarrow> Experiment \<Rightarrow> RunConfiguration \<Rightarrow> VM \<Rightarrow> string \<times> string \<times> bool \<Rightarrow> command_run" where
  "copy_input ex e rc v input =
     (case input of (source, destination, vmDirect) \<Rightarrow>
      let src = Join [eBaseDir e, source];
          gcsDest = ''gs://'' @ eBucket e @ ''/'' @ eName e @ ''_'' @ eDate e @ ''/'' @ rcName rc @ ''/inputs/'' @ Base destination in
      if vmDirect then CopyFilesToVM ex v src destination
      else in_order
        [ignoring (gcs_Copy ex src gcsDest),
         attempts 5 (vm_RunCommand ex v [''gcloud'', ''storage'', ''cp'', gcsDest, destination]),
         vm_RunCommand ex v [''chmod'', ''+755'', destination]])"

definition copyInputs :: "exp_host \<Rightarrow> Experiment \<Rightarrow> exp_state \<Rightarrow> exp_outcome \<times> exp_state" where
  "copyInputs H e s =
     runOnConfigs (\<lambda>rc. on_vm s rc (\<lambda>v. in_order (map (copy_input (ehExec H (rcName rc)) e rc v) (rcInputs rc)))) s"

definition reclientBinaries :: "string list" where
  "reclientBinaries = [''cmd/bootstrap'', ''cmd/dumpstats'', ''cmd/reproxy'', ''cmd/rewrapper'']"

definition copyReclientBinaries :: "exp_host \<Rightarrow> shell \<Rightarrow> string \<Rightarrow> string \<Rightarrow> command_run" where
  "copyReclientBinaries H ex path dest =
     (if path = ''local'' then
        (case those (map (ehFindBinary H) reclientBinaries) of
           None \<Rightarrow> fails
         | Some ps \<Rightarrow> in_order (map (\<lambda>p. gcs_Copy ex p dest) ps))
      else gcs_Copy ex (reclient_source path) dest)"

definition downloadReclient :: "exp_host \<Rightarrow> exp_state \<Rightarrow> exp_outcome \<times> exp_state" where
  "downloadReclient H s = runOnConfigs (\<lambda>rc.
     let ex = ehExec H (rcName rc); dest = Join [esTmp s (rcName rc), reclientDir]; d = rcReclientDestination rc in
     if rcReclientBinPath rc = [] then in_order []
     else in_order
       [copyReclientBinaries H ex (rcReclientBinPath rc) dest,
        on_vm s rc (\<lambda>v. in_order
          [vm_RunCommand ex v [Sudo v (''rm -rf '' @ d) @ '' && '' @ Sudo v (''mkdir '' @ d) @ '' && '' @ Sudo v (''chmod -R 777 '' @ d)],
           CopyFilesToVM ex v (dest @ ''/*'') d,
           vm_RunCommand ex v [Sudo v (''chmod -R 777 '' @ d)]])]) s"

text \<open>Scripts are written once and kept for later trials; making the text may panic.\<close>

definition write_script ::
    "exp_host \<Rightarrow> string \<Rightarrow> (RunConfiguration \<Rightarrow> string option) \<Rightarrow> exp_state \<Rightarrow> RunConfiguration \<Rightarrow> (exp_outcome + string \<times> string)" where
  "write_script H pat script s rc =
     (case script rc of
        None \<Rightarrow> Inl ExpPanic
      | Some t \<Rightarrow> (case ehTemp H (esTmp s (rcName rc)) pat of None \<Rightarrow> Inl ExpError | Some p \<Rightarrow> Inr (p, t)))"

primrec make_scripts ::
    "(RunConfiguration \<Rightarrow> exp_outcome + string \<times> string) \<Rightarrow> RunConfiguration list \<Rightarrow> (string \<rightharpoonup> string) \<times> (string \<rightharpoonup> string) \<Rightarrow>
     exp_outcome \<times> (string \<rightharpoonup> string) \<times> (string \<rightharpoonup> string)" where
  "make_scripts mk [] m = (ExpOk, m)"
| "make_scripts mk (rc # rcs) m =
     (if fst m (rcName rc) \<noteq> None then make_scripts mk rcs m
      else case mk rc of
             Inl r \<Rightarrow> (r, m)
           | Inr (p, t) \<Rightarrow> make_scripts mk rcs ((fst m)(rcName rc \<mapsto> p), (snd m)(p \<mapsto> t)))"

definition runScripts :: "exp_host \<Rightarrow> (string \<rightharpoonup> string) \<Rightarrow> exp_state \<Rightarrow> exp_outcome \<times> exp_state" where
  "runScripts H scripts s = runOnConfigs (\<lambda>rc.
     let ex = ehExec H (rcName rc); script = (case scripts (rcName rc) of Some p \<Rightarrow> p | None \<Rightarrow> []); base = Base script in
     on_vm s rc (\<lambda>v. in_order
       [CopyFilesToVM ex v script base, vm_RunCommand ex v [''chmod +x '' @ base], vm_RunCommand ex v [''./'' @ base]])) s"

definition runSetup :: "exp_host \<Rightarrow> Experiment \<Rightarrow> exp_state \<Rightarrow> exp_outcome \<times> exp_state" where
  "runSetup H e s =
     (case make_scripts (write_script H ''setup-*.sh'' (\<lambda>rc. Some (setupScript (eName e) rc)) s) (map snd (esConfigs s)) (esSetup s, esFiles s) of
        (r, scripts, files) \<Rightarrow>
          (let s' = s\<lparr>esSetup := scripts, esFiles := files\<rparr> in if r \<noteq> ExpOk then (r, s') else runScripts H scripts s'))"

definition runBuilds :: "exp_host \<Rightarrow> Experiment \<Rightarrow> exp_state \<Rightarrow> exp_outcome \<times> exp_state" where
  "runBuilds H e s =
     (case make_scripts (write_script H ''build-*.sh'' (buildScript (eName e)) s) (map snd (esConfigs s)) (esBuild s, esFiles s) of
        (r, scripts, files) \<Rightarrow>
          (let s' = s\<lparr>esBuild := scripts, esFiles := files\<rparr> in if r \<noteq> ExpOk then (r, s') else runScripts H scripts s'))"

text \<open>Where the results of a trial go.\<close>

definition trial_dest :: "Experiment \<Rightarrow> string \<Rightarrow> nat \<Rightarrow> string" where
  "trial_dest e name trial =
     ''gs://'' @ eBucket e @ ''/'' @ eName e @ ''_'' @ eDate e @ ''/'' @ name @ ''/'' @ show_base 10 trial"

definition downloadOutputs :: "exp_host \<Rightarrow> Experiment \<Rightarrow> nat \<Rightarrow> exp_state \<Rightarrow> exp_outcome \<times> exp_state" where
  "downloadOutputs H e trial s = runOnConfigs (\<lambda>rc.
     let ex = ehExec H (rcName rc); out = Join [esTmp s (rcName rc), outDir] in
     on_vm s rc (\<lambda>v. in_order (
       map (\<lambda>f. ignoring (CopyFilesFromVM ex v f (out @ ''/''))) (rcOutputs rc) @
       [CopyFilesFromVM ex v timeFile (out @ ''/''),
        CopyFilesFromVM ex v logFile (out @ ''/''),
        gcs_Copy ex (out @ ''/*'') (trial_dest e (rcName rc) trial)]))) s"

definition tearDown :: "exp_host \<Rightarrow> exp_state \<Rightarrow> exp_outcome \<times> exp_state" where
  "tearDown H s = runOnConfigs (\<lambda>rc.
     let ex = ehExec H (rcName rc) in
     on_vm s rc (\<lambda>v. in_order (
       vm_RunCommand ex v [Sudo v ''rm'', logFile, ''&&'', Sudo v ''rm'', timeFile] # map (vm_RunCommand ex v) (rcTeardownCommands rc)))) s"

definition cleanOutDirs :: "exp_host \<Rightarrow> nat \<Rightarrow> exp_state \<Rightarrow> exp_outcome \<times> exp_state" where
  "cleanOutDirs H trial s =
     (if list_all (\<lambda>(n, rc). ehRenew H trial (Join [esTmp s n, outDir])) (esConfigs s) then ExpOk else ExpError, s)"

text \<open>Stages in order, to the first that does not succeed.\<close>

type_synonym stage = "exp_state \<Rightarrow> exp_outcome \<times> exp_state"

primrec run_stages :: "stage list \<Rightarrow> stage" where
  "run_stages [] s = (ExpOk, s)"
| "run_stages (f # fs) s = (case f s of (r, s') \<Rightarrow> if r = ExpOk then run_stages fs s' else (r, s'))"

definition trial_stages :: "exp_host \<Rightarrow> Experiment \<Rightarrow> nat \<Rightarrow> stage list" where
  "trial_stages H e i = [runBuilds H e, downloadOutputs H e i, tearDown H, cleanOutDirs H i]"

definition stages :: "exp_host \<Rightarrow> Experiment \<Rightarrow> stage list" where
  "stages H e =
     [prepRCs H e, startVMs H e, copyInputs H e, downloadReclient H, runSetup H e] @
     concat (map (trial_stages H e) [0..<eTrials e])"

text \<open>The machines are deleted; errors are not looked at.\<close>

definition cleanup :: "exp_host \<Rightarrow> exp_state \<Rightarrow> exp_state" where
  "cleanup H s = s\<lparr>esHist := (\<lambda>n. case esVms s n of None \<Rightarrow> esHist s n | Some v \<Rightarrow> snd (Delete (ehExec H n) v False (esHist s n)))\<rparr>"

text \<open>A configuration without machine panics, in a routine of its own.\<close>

definition tryDownloadLogFiles :: "exp_host \<Rightarrow> exp_state \<Rightarrow> exp_outcome \<times> exp_state" where
  "tryDownloadLogFiles H s =
     (if list_ex (\<lambda>(n, rc). esVms s n = None) (esConfigs s) then (ExpPanic, s)
      else runOnConfigs (\<lambda>rc. on_vm s rc (\<lambda>v.
             ignoring (CopyFilesFromVM (ehExec H (rcName rc)) v logFile (Join [esTmp s (rcName rc), ''exp.log''])))) s)"

text \<open>A panic of a stage leaves the error unset, so that the deferred function cleans up.\<close>

definition Run :: "exp_host \<Rightarrow> Experiment \<Rightarrow> exp_outcome \<times> exp_state" where
  "Run H e =
     (case run_stages (stages H e) new_experiment of
        (ExpOk, s) \<Rightarrow> (ExpOk, cleanup H s)
      | (ExpError, s) \<Rightarrow> (case tryDownloadLogFiles H s of (ExpPanic, s') \<Rightarrow> (ExpPanic, s') | (_, s') \<Rightarrow> (ExpError, s'))
      | (ExpPanic, s) \<Rightarrow> (ExpPanic, cleanup H s)
      | (ExpFatal, s) \<Rightarrow> (ExpFatal, s))"

section \<open>Commands that are not deletions\<close>

definition is_delete :: "string list \<Rightarrow> bool" where
  "is_delete c \<longleftrightarrow> 5 \<le> length c \<and> c ! 1 = ''compute'' \<and> c ! 3 = ''instances'' \<and> c ! 4 = ''delete''"

text \<open>A longer sequence of commands with no further deletion, and actions that lead to such.\<close>

definition extends :: "hist \<Rightarrow> hist \<Rightarrow> bool" where
  "extends h h' \<longleftrightarrow> (\<exists>t. h' = h @ t \<and> (\<forall>c \<in> set t. \<not> is_delete c))"

definition careful :: "command_run \<Rightarrow> bool" where
  "careful a \<longleftrightarrow> (\<forall>h. extends h (snd (a h)))"

lemma extends_refl [simp]: "extends h h"
  by (simp add: extends_def)

lemma extends_trans: "extends h h1 \<Longrightarrow> extends h1 h2 \<Longrightarrow> extends h h2"
  unfolding extends_def by fastforce

named_theorems careful_intros

lemma careful_exec [careful_intros]: "\<not> is_delete c \<Longrightarrow> careful (exec_cmd ex c)"
  by (auto simp: careful_def extends_def exec_cmd_def)

lemma careful_fails [careful_intros]: "careful fails"
  by (simp add: careful_def fails_def)

lemma careful_in_order [careful_intros]:
  assumes "\<And>a. a \<in> set as \<Longrightarrow> careful a"
  shows "careful (in_order as)"
proof -
  have "extends h (snd (in_order as h))" for h
    using assms
  proof (induction as arbitrary: h)
    case (Cons a as)
    have "extends h (snd (a h))" using Cons.prems by (simp add: careful_def)
    moreover have "extends h' (snd (in_order as h'))" for h' using Cons by simp
    ultimately show ?case by (auto split: prod.splits bool.splits intro: extends_trans)
  qed simp
  then show ?thesis by (simp add: careful_def)
qed

lemma careful_ignoring [careful_intros]: "careful a \<Longrightarrow> careful (ignoring a)"
  by (simp add: careful_def ignoring_def)

lemma careful_attempts [careful_intros]:
  assumes "careful a"
  shows "careful (attempts n a)"
proof -
  have "extends h (snd (attempts n a h))" for h
  proof (induction n arbitrary: h)
    case (Suc n)
    have "extends h (snd (a h))" using assms by (simp add: careful_def)
    then show ?case using Suc by (auto split: prod.splits bool.splits intro: extends_trans)
  qed simp
  then show ?thesis by (simp add: careful_def)
qed

lemma ssh_not_delete: "\<not> is_delete (sshPrefix v @ [c])"
  by (cases "vSettings v") (auto simp: is_delete_def sshPrefix_def gcePrefix_def sshKey_def appendProxyArgs_def)

lemma careful_RunCommand [careful_intros]: "careful (vm_RunCommand ex v cmd)"
  by (simp add: vm_RunCommand_def careful_exec ssh_not_delete)

lemma careful_copies [careful_intros]:
  "careful (CopyFilesToVM ex v src dest)" "careful (CopyFilesFromVM ex v src dest)" "careful (gcs_Copy ex src dest)"
  by (auto simp: CopyFilesToVM_def CopyFilesFromVM_def bash_def gcs_Copy_def is_delete_def intro!: careful_exec)

lemma careful_create [careful_intros]: "careful (CreateWithDisk ex v)"
  by (auto simp: CreateWithDisk_def create_args_def is_delete_def gcePrefix_def split: machine.splits intro!: careful_intros)

lemma careful_mount [careful_intros]: "careful (Mount ex v)"
  by (auto simp: Mount_def mountWin_def mountLinux_def waitUntilUp_def split: machine.splits intro!: careful_intros)

lemma careful_on_vm [careful_intros]: "(\<And>v. careful (f v)) \<Longrightarrow> careful (on_vm s rc f)"
  by (auto simp: on_vm_def split: option.splits intro: careful_intros)

lemma careful_copy_input [careful_intros]: "careful (copy_input ex e rc v input)"
  by (auto simp: copy_input_def Let_def split: prod.splits intro!: careful_intros)

lemma careful_binaries [careful_intros]: "careful (copyReclientBinaries H ex path dest)"
  by (auto simp: copyReclientBinaries_def split: option.splits intro!: careful_intros)

section \<open>Stages\<close>

text \<open>States after a stage: commands were added and no deletion; and after the machines are there,
  configurations, machines and directories stay.\<close>

definition adds :: "exp_state \<Rightarrow> exp_state \<Rightarrow> bool" where
  "adds s s' \<longleftrightarrow> (\<forall>n. extends (esHist s n) (esHist s' n))"

definition goes_on :: "exp_state \<Rightarrow> exp_state \<Rightarrow> bool" where
  "goes_on s s' \<longleftrightarrow> adds s s' \<and> esConfigs s' = esConfigs s \<and> esVms s' = esVms s \<and> esTmp s' = esTmp s"

lemma goes_on_refl [simp]: "goes_on s s"
  by (simp add: goes_on_def adds_def)

lemma adds_trans: "adds s s1 \<Longrightarrow> adds s1 s2 \<Longrightarrow> adds s s2"
  unfolding adds_def by (blast intro: extends_trans)

lemma goes_on_trans: "goes_on s s1 \<Longrightarrow> goes_on s1 s2 \<Longrightarrow> goes_on s s2"
  by (auto simp: goes_on_def intro: adds_trans)

lemma runOnConfigs_goes_on:
  assumes "\<And>rc. careful (f rc)"
  shows "goes_on s (snd (runOnConfigs f s))"
  using assms by (auto simp: goes_on_def adds_def runOnConfigs_def careful_def split: option.splits)

lemma runScripts_goes_on: "goes_on s (snd (runScripts H m s))"
  unfolding runScripts_def by (rule runOnConfigs_goes_on) (auto simp: Let_def intro!: careful_intros)

lemma goes_on_scripts [simp]:
  "goes_on (s\<lparr>esSetup := m, esFiles := f\<rparr>) s' = goes_on s s'" "goes_on (s\<lparr>esBuild := m, esFiles := f\<rparr>) s' = goes_on s s'"
  "goes_on s (s\<lparr>esSetup := m, esFiles := f\<rparr>)" "goes_on s (s\<lparr>esBuild := m, esFiles := f\<rparr>)"
  by (auto simp: goes_on_def adds_def)

lemma later_stages_go_on:
  "goes_on s (snd (copyInputs H e s))" "goes_on s (snd (downloadReclient H s))" "goes_on s (snd (runSetup H e s))"
  "goes_on s (snd (runBuilds H e s))" "goes_on s (snd (downloadOutputs H e i s))" "goes_on s (snd (tearDown H s))"
  "goes_on s (snd (cleanOutDirs H i s))"
proof -
  show "goes_on s (snd (copyInputs H e s))"
    unfolding copyInputs_def by (rule runOnConfigs_goes_on) (auto intro!: careful_intros)
  show "goes_on s (snd (downloadReclient H s))"
    unfolding downloadReclient_def by (rule runOnConfigs_goes_on) (auto simp: Let_def intro!: careful_intros)
  show "goes_on s (snd (downloadOutputs H e i s))"
    unfolding downloadOutputs_def by (rule runOnConfigs_goes_on) (auto simp: Let_def intro!: careful_intros)
  show "goes_on s (snd (tearDown H s))"
    unfolding tearDown_def by (rule runOnConfigs_goes_on) (auto simp: Let_def intro!: careful_intros)
  show "goes_on s (snd (cleanOutDirs H i s))" by (simp add: cleanOutDirs_def)
  have scripts: "goes_on (s\<lparr>esSetup := m, esFiles := f\<rparr>) (snd (runScripts H m' (s\<lparr>esSetup := m, esFiles := f\<rparr>)))"
    "goes_on (s\<lparr>esBuild := m, esFiles := f\<rparr>) (snd (runScripts H m' (s\<lparr>esBuild := m, esFiles := f\<rparr>)))" for m m' f
    by (rule runScripts_goes_on)+
  show "goes_on s (snd (runSetup H e s))" using scripts(1) by (simp add: runSetup_def Let_def split: prod.splits)
  show "goes_on s (snd (runBuilds H e s))" using scripts(2) by (simp add: runBuilds_def Let_def split: prod.splits)
qed

text \<open>Configurations are found under their names.\<close>

definition keyed :: "exp_state \<Rightarrow> bool" where
  "keyed s \<longleftrightarrow> (\<forall>n rc. map_of (esConfigs s) n = Some rc \<longrightarrow> rcName rc = n)"

lemma prep_loop_keeps:
  "keyed s \<Longrightarrow> prep_loop H b cs s = (r, s') \<Longrightarrow> keyed s' \<and> esHist s' = esHist s \<and> esVms s' = esVms s"
proof (induction H b cs s rule: prep_loop.induct)
  case (2 H b i c cs s)
  have k: "keyed (s\<lparr>esConfigs := AList.update (rcName rc) rc (esConfigs s), esTmp := t\<rparr>)" for rc t
    using "2.prems"(1) by (simp add: keyed_def update_conv)
  show ?case
  proof (cases "ehMkdirTemp H i")
    case None
    then show ?thesis using "2.prems" by simp
  next
    case (Some dest)
    show ?thesis
    proof (cases "applyConfig b c")
      case None
      then show ?thesis using "2.prems" Some by simp
    next
      case (Some rc)
      let ?s = "s\<lparr>esConfigs := AList.update (rcName rc) rc (esConfigs s), esTmp := (esTmp s)(rcName rc := dest)\<rparr>"
      note dest = \<open>ehMkdirTemp H i = Some dest\<close>
      show ?thesis
      proof (cases "ehMkdir H (Join [dest, outDir]) \<and> ehMkdir H (Join [dest, reclientDir])")
        case True
        then have "prep_loop H b cs ?s = (r, s')" using "2.prems"(2) dest Some by (simp add: Let_def)
        from "2.IH" [OF dest Some refl True k this] show ?thesis by simp
      next
        case False
        then have "s' = ?s" using "2.prems"(2) dest Some by (simp add: Let_def split: if_splits)
        then show ?thesis using k by simp
      qed
    qed
  qed
qed simp

lemma prepRCs_keeps: "prepRCs H e s = (r, s') \<Longrightarrow> keyed s' \<and> esHist s' = esHist s \<and> esVms s' = esVms s"
  unfolding prepRCs_def by (drule prep_loop_keeps [rotated]) (auto simp: keyed_def)

lemma startVMs_keeps:
  assumes "startVMs H e s = (r, s')"
  shows "adds s s' \<and> esConfigs s' = esConfigs s \<and> (r \<noteq> ExpFatal \<longrightarrow> (\<forall>n. esVms s' n = None \<longleftrightarrow> map_of (esConfigs s) n = None))"
proof (cases "list_ex (\<lambda>(n, rc). NewMachine (rcID e rc) (eProject e) (rcMachine rc) = None) (esConfigs s)")
  case True
  then show ?thesis using assms by (auto simp: startVMs_def adds_def)
next
  case False
  let ?f = "\<lambda>rc. case NewMachine (rcID e rc) (eProject e) (rcMachine rc) of None \<Rightarrow> fails
      | Some v \<Rightarrow> in_order [CreateWithDisk (ehExec H (rcName rc)) v, Mount (ehExec H (rcName rc)) v]"
  have "goes_on s (snd (runOnConfigs ?f s))"
    by (rule runOnConfigs_goes_on) (auto split: option.splits intro!: careful_intros)
  moreover obtain s1 where "runOnConfigs ?f s = (r, s1)" "s' = s1\<lparr>esVms := (\<lambda>n. case map_of (esConfigs s) n of None \<Rightarrow> None
      | Some rc \<Rightarrow> map_option with_disk_name (NewMachine (rcID e rc) (eProject e) (rcMachine rc)))\<rparr>"
    using assms False by (auto simp: startVMs_def split: prod.splits)
  moreover have "NewMachine (rcID e rc) (eProject e) (rcMachine rc) \<noteq> None" if "map_of (esConfigs s) n = Some rc" for n rc
    using False map_of_SomeD [OF that] by (auto simp: list_ex_iff)
  ultimately show ?thesis by (simp add: goes_on_def adds_def split: option.splits)
qed

lemma run_stages_append:
  "run_stages (fs @ gs) s = (case run_stages fs s of (r, s') \<Rightarrow> if r = ExpOk then run_stages gs s' else (r, s'))"
  by (induction fs arbitrary: s) (auto split: prod.splits)

lemma run_stages_goes_on:
  assumes "\<And>f s. f \<in> set fs \<Longrightarrow> goes_on s (snd (f s))" and "run_stages fs s = (r, s')"
  shows "goes_on s s'"
  using assms
proof (induction fs arbitrary: s)
  case (Cons f fs)
  obtain r1 s1 where f: "f s = (r1, s1)" by fastforce
  have "goes_on s s1" using Cons.prems(1) [of f s] f by simp
  moreover have "goes_on s1 s'" using Cons f by (cases "r1 = ExpOk") auto
  ultimately show ?case by (rule goes_on_trans)
qed simp

definition later_stages :: "exp_host \<Rightarrow> Experiment \<Rightarrow> stage list" where
  "later_stages H e = [copyInputs H e, downloadReclient H, runSetup H e] @ concat (map (trial_stages H e) [0..<eTrials e])"

lemma stages_split: "stages H e = [prepRCs H e, startVMs H e] @ later_stages H e"
  by (simp add: stages_def later_stages_def)

lemma trial_goes_on: "f \<in> set (trial_stages H e i) \<Longrightarrow> goes_on s (snd (f s))"
  by (auto simp: trial_stages_def later_stages_go_on)

lemma later_goes_on: "f \<in> set (later_stages H e) \<Longrightarrow> goes_on s (snd (f s))"
  by (auto simp: later_stages_def later_stages_go_on trial_goes_on)

section \<open>Results of a run\<close>

text \<open>What brings the results of a trial to the bucket: the recorded time and the log are fetched from the
  machine, then the directory is uploaded. Commands one after the other, each of which succeeded.\<close>

definition result_commands :: "Experiment \<Rightarrow> VM \<Rightarrow> string \<Rightarrow> string \<Rightarrow> nat \<Rightarrow> hist" where
  "result_commands e v out n i =
     map (\<lambda>f. [''/bin/bash'', ''-c'', joined (scpPrefix v @ [sshUser v @ vName v @ '':'' @ f, out @ ''/''])]) [timeFile, logFile] @
     [[''gcloud'', ''storage'', ''cp'', out @ ''/*'', trial_dest e n i]]"

definition succeeded :: "shell \<Rightarrow> hist \<Rightarrow> hist \<Rightarrow> bool" where
  "succeeded ex cs h \<longleftrightarrow>
     (\<exists>h1 h2. h = h1 @ cs @ h2 \<and> (\<forall>k < length cs. ex (h1 @ take k cs) (cs ! k)))"

lemma succeeded_extends: "succeeded ex cs h \<Longrightarrow> extends h h' \<Longrightarrow> succeeded ex cs h'"
  unfolding succeeded_def extends_def by (metis append.assoc)

lemma in_order_append_ok:
  "in_order (as @ bs) h = (True, h') \<Longrightarrow> \<exists>h1. in_order as h = (True, h1) \<and> in_order bs h1 = (True, h')"
proof (induction as arbitrary: h)
  case (Cons a as)
  obtain b h1 where a: "a h = (b, h1)" by fastforce
  have b: "b" using Cons.prems a by (cases b) simp_all
  then have "in_order (as @ bs) h1 = (True, h')" using Cons.prems a by simp
  from Cons.IH [OF this] show ?case using a b by simp
qed simp

lemma in_order_exec:
  "in_order (map (exec_cmd ex) cs) h = (True, h') \<Longrightarrow> h' = h @ cs \<and> (\<forall>k < length cs. ex (h @ take k cs) (cs ! k))"
proof (induction cs arbitrary: h)
  case (Cons c cs)
  then have "ex h c" and "in_order (map (exec_cmd ex) cs) (h @ [c]) = (True, h')"
    by (cases "ex h c"; simp add: exec_cmd_def [of ex c])+
  with Cons.IH [of "h @ [c]"] show ?case by (auto simp: nth_Cons split: nat.split)
qed simp

lemma result_actions:
  "[CopyFilesFromVM ex v timeFile (out @ ''/''), CopyFilesFromVM ex v logFile (out @ ''/''), gcs_Copy ex (out @ ''/*'') (trial_dest e n i)] =
   map (exec_cmd ex) (result_commands e v out n i)"
  by (simp add: result_commands_def CopyFilesFromVM_def bash_def gcs_Copy_def)

lemma runOnConfigs_ok:
  assumes "runOnConfigs f s = (ExpOk, s')" and "map_of (esConfigs s) n = Some rc"
  shows "f rc (esHist s n) = (True, esHist s' n)"
proof -
  have "fst (f rc (esHist s n))"
    using assms(1) map_of_SomeD [OF assms(2)] by (auto simp: runOnConfigs_def list_all_iff split: if_splits)
  then show ?thesis using assms by (auto simp: runOnConfigs_def prod_eq_iff)
qed

text \<open>The results of a trial are in the bucket.\<close>

definition uploaded :: "exp_host \<Rightarrow> Experiment \<Rightarrow> exp_state \<Rightarrow> string \<Rightarrow> nat \<Rightarrow> bool" where
  "uploaded H e s n i \<longleftrightarrow>
     (\<exists>v. esVms s n = Some v \<and> succeeded (ehExec H n) (result_commands e v (Join [esTmp s n, outDir]) n i) (esHist s n))"

lemma uploaded_goes_on: "uploaded H e s n i \<Longrightarrow> goes_on s s' \<Longrightarrow> uploaded H e s' n i"
  using succeeded_extends by (fastforce simp: uploaded_def goes_on_def adds_def)

lemma downloadOutputs_uploads:
  assumes "downloadOutputs H e i s = (ExpOk, s')" and "map_of (esConfigs s) n = Some rc" and "keyed s"
  shows "uploaded H e s' n i"
proof -
  have rn: "rcName rc = n" using assms(2,3) by (simp add: keyed_def)
  let ?ex = "ehExec H n" and ?out = "Join [esTmp s n, outDir]"
  have r: "on_vm s rc (\<lambda>v. in_order (
       map (\<lambda>f. ignoring (CopyFilesFromVM ?ex v f (?out @ ''/''))) (rcOutputs rc) @
       map (exec_cmd ?ex) (result_commands e v ?out n i))) (esHist s n) = (True, esHist s' n)"
    using runOnConfigs_ok [OF assms(1) [unfolded downloadOutputs_def] assms(2)] by (simp add: Let_def rn result_actions)
  obtain v where v: "esVms s n = Some v" using r by (auto simp: on_vm_def rn fails_def split: option.splits)
  obtain h1 where "in_order (map (exec_cmd ?ex) (result_commands e v ?out n i)) h1 = (True, esHist s' n)"
    using in_order_append_ok r v by (fastforce simp: on_vm_def rn)
  from in_order_exec [OF this] have "succeeded ?ex (result_commands e v ?out n i) (esHist s' n)"
    unfolding succeeded_def by (metis append_Nil2)
  moreover have "goes_on s s'" using later_stages_go_on(5) [of s H e i] assms(1) by simp
  ultimately show ?thesis using v by (simp add: uploaded_def goes_on_def)
qed

lemma goes_on_keyed: "goes_on s s' \<Longrightarrow> keyed s' = keyed s"
  by (simp add: goes_on_def keyed_def)

lemma trial_uploads:
  assumes "run_stages (trial_stages H e i) s = (ExpOk, s')" and "keyed s" and "map_of (esConfigs s) n = Some rc"
  shows "uploaded H e s' n i"
proof -
  obtain s1 s2 where b: "runBuilds H e s = (ExpOk, s1)" and d: "downloadOutputs H e i s1 = (ExpOk, s2)"
    and t: "run_stages [tearDown H, cleanOutDirs H i] s2 = (ExpOk, s')"
    using assms(1) by (auto simp: trial_stages_def simp del: run_stages.simps(2) split: prod.splits if_splits)
      (auto split: prod.splits if_splits)
  have g: "goes_on s s1" using later_stages_go_on(4) [of s H e] b by simp
  have "uploaded H e s2 n i"
    using downloadOutputs_uploads [OF d] assms(2,3) g goes_on_keyed [OF g] by (simp add: goes_on_def)
  moreover have "goes_on s2 s'" by (rule run_stages_goes_on [OF _ t]) (auto simp: later_stages_go_on)
  ultimately show ?thesis by (rule uploaded_goes_on)
qed

lemma trials_upload:
  assumes "run_stages (concat (map (trial_stages H e) is)) s = (ExpOk, s')" and "keyed s"
    and "map_of (esConfigs s) n = Some rc" and "i \<in> set is"
  shows "uploaded H e s' n i"
  using assms
proof (induction "is" arbitrary: s)
  case (Cons j "is")
  obtain s1 where s1: "run_stages (trial_stages H e j) s = (ExpOk, s1)" "run_stages (concat (map (trial_stages H e) is)) s1 = (ExpOk, s')"
    using Cons.prems(1) by (auto simp: run_stages_append split: prod.splits if_splits)
  have g: "goes_on s s1" by (rule run_stages_goes_on [OF _ s1(1)]) (rule trial_goes_on)
  have g': "goes_on s1 s'" by (rule run_stages_goes_on [OF _ s1(2)]) (auto simp: trial_goes_on)
  show ?case
  proof (cases "i = j")
    case True
    then show ?thesis
      using uploaded_goes_on [OF trial_uploads [OF s1(1) Cons.prems(2,3)] g'] by simp
  next
    case False
    then show ?thesis using Cons.IH [OF s1(2)] Cons.prems g goes_on_keyed [OF g] by (simp add: goes_on_def)
  qed
qed simp

text \<open>What the stages leave: no deletion; and if they succeeded, a machine for every configuration and
  the results of every trial.\<close>

lemma stages_result:
  assumes "run_stages (stages H e) new_experiment = (r, s)"
  shows "(\<forall>n. \<forall>c \<in> set (esHist s n). \<not> is_delete c) \<and>
    (r = ExpOk \<longrightarrow> (\<forall>n rc. map_of (esConfigs s) n = Some rc \<longrightarrow> esVms s n \<noteq> None \<and> (\<forall>i < eTrials e. uploaded H e s n i)))"
proof -
  obtain r0 s0 where p: "prepRCs H e new_experiment = (r0, s0)" by fastforce
  have s0: "keyed s0" "esHist s0 = (\<lambda>_. [])" using prepRCs_keeps [OF p] by (auto simp: new_experiment_def)
  show ?thesis
  proof (cases "r0 = ExpOk")
    case False
    then show ?thesis using assms p s0 by (auto simp: stages_split)
  next
    case True
    obtain r1 s1 where v: "startVMs H e s0 = (r1, s1)" by fastforce
    note vs = startVMs_keeps [OF v]
    show ?thesis
    proof (cases "r1 = ExpOk")
      case False
      then have "s = s1" "r = r1" using assms p v True by (auto simp: stages_split)
      then show ?thesis using vs s0 False by (auto simp: adds_def extends_def)
    next
      case ok: True
      have l: "run_stages (later_stages H e) s1 = (r, s)" using assms p v True ok by (simp add: stages_split)
      have g: "goes_on s1 s" by (rule run_stages_goes_on [OF _ l]) (rule later_goes_on)
      have "uploaded H e s n i" if ro: "r = ExpOk" and rc: "map_of (esConfigs s) n = Some rc" and i: "i < eTrials e" for n rc i
      proof -
        obtain s2 where s2: "run_stages [copyInputs H e, downloadReclient H, runSetup H e] s1 = (ExpOk, s2)"
          "run_stages (concat (map (trial_stages H e) [0..<eTrials e])) s2 = (ExpOk, s)"
          using l [unfolded later_stages_def run_stages_append] ro by (auto simp del: run_stages.simps split: prod.splits if_splits)
        have g1: "goes_on s1 s2" by (rule run_stages_goes_on [OF _ s2(1)]) (auto simp: later_stages_go_on)
        have "keyed s2" using goes_on_keyed [OF g1] vs s0 by (simp add: keyed_def)
        moreover have "map_of (esConfigs s2) n = Some rc" using rc g g1 by (simp add: goes_on_def)
        ultimately show ?thesis using trials_upload [OF s2(2)] i by simp
      qed
      moreover have "adds s0 s" using adds_trans vs g by (auto simp: goes_on_def)
      then have "\<forall>n. \<forall>c \<in> set (esHist s n). \<not> is_delete c" unfolding adds_def extends_def s0(2) by auto
      ultimately show ?thesis using g vs ok by (auto simp: goes_on_def)
    qed
  qed
qed

text \<open>C36: A run that ends without error has a machine for every configuration and, for every trial, has
  fetched the time and the log from it and uploaded them with the other outputs to the place of the
  trial, each of these commands having succeeded; only after all trials it gives the command that
  deletes the machine, and that once (no command for a workstation, which stays).\<close>

theorem Run_success:
  assumes "Run H e = (ExpOk, s)" and "map_of (esConfigs s) n = Some rc"
  shows "\<exists>v h. esVms s n = Some v \<and> esHist s n = h @ (case vSettings v of VmSettings x \<Rightarrow> [delete_args v x] | WsSettings x \<Rightarrow> []) \<and>
    (\<forall>c \<in> set h. \<not> is_delete c) \<and>
    (\<forall>i < eTrials e. succeeded (ehExec H n) (result_commands e v (Join [esTmp s n, outDir]) n i) h)"
proof -
  obtain s0 where r: "run_stages (stages H e) new_experiment = (ExpOk, s0)" and s: "s = cleanup H s0"
    using assms(1) by (auto simp: Run_def split: prod.splits exp_outcome.splits)
  have c: "map_of (esConfigs s0) n = Some rc" using assms(2) s by (simp add: cleanup_def)
  obtain v where v: "esVms s0 n = Some v" using stages_result [OF r] c by auto
  have "esHist s n = esHist s0 n @ (case vSettings v of VmSettings x \<Rightarrow> [delete_args v x] | WsSettings x \<Rightarrow> [])"
    using v s by (simp add: cleanup_def Delete_def exec_cmd_def split: machine.splits)
  then show ?thesis using stages_result [OF r] c v s by (auto simp: uploaded_def cleanup_def)
qed

text \<open>After an error no machine is deleted.\<close>

theorem failed_run_keeps_machines:
  assumes "Run H e = (ExpError, s)" and "c \<in> set (esHist s n)"
  shows "\<not> is_delete c"
proof -
  obtain s0 where r: "run_stages (stages H e) new_experiment = (ExpError, s0)" and s: "s = snd (tryDownloadLogFiles H s0)"
    using assms(1) by (auto simp: Run_def split: prod.splits exp_outcome.splits)
  have "goes_on s0 s"
    unfolding s tryDownloadLogFiles_def by (auto intro!: runOnConfigs_goes_on careful_intros)
  then have "extends (esHist s0 n) (esHist s n)" by (simp add: goes_on_def adds_def)
  then have "is_delete c \<Longrightarrow> c \<in> set (esHist s0 n)" using assms(2) by (auto simp: extends_def)
  then show ?thesis using stages_result [OF r] by blast
qed

text \<open>If the preparation fails once a configuration is there, the download of the logs panics.\<close>

lemma failed_preparation_panics:
  assumes "prepRCs H e new_experiment = (ExpError, s)" and "esConfigs s \<noteq> []"
  shows "Run H e = (ExpPanic, s)"
proof -
  have "esVms s = Map.empty" using prepRCs_keeps [OF assms(1)] by (simp add: new_experiment_def)
  moreover have "run_stages (stages H e) new_experiment = (ExpError, s)" using assms(1) by (simp add: stages_split)
  ultimately show ?thesis using assms(2) by (cases "esConfigs s") (auto simp: Run_def tryDownloadLogFiles_def)
qed

text \<open>Different configurations may ask for machines of the same name.\<close>

lemma sanitizeName_collides: "sanitizeName ''e-1-a_b-0'' = sanitizeName ''e-1-a.b-0''"
  by code_simp

section \<open>A run\<close>

definition demo_vm_settings :: vm_settings where
  "demo_vm_settings = \<lparr>vmZone = ''z'', vmMachineType = ''m'', vmImage = ''i'', vmImageOs = 0, vmImageProject = ''p'', vmSshUser = [],
     vmSshKeyPath = [], vmDiskImage = ''d'', vmDiskImageProject = ''p'', vmDiskType = [], vmCreationFlags = [], vmSystemDiskSize = []\<rparr>"

definition demo_rc :: RunConfiguration where
  "demo_rc = \<lparr>rcName = ''a'', rcMachine = Some (VmSettings demo_vm_settings), rcReclientBinPath = [], rcReclientDestination = [],
     rcNumMachines = 0, rcInputs = [(''x'', ''/y'', False)], rcSetupCommands = [], rcPreBuildCommands = [], rcPostBuildCommands = [],
     rcEnvironment = [], rcBuildCommand = Some [''make''], rcOutputs = [], rcTeardownCommands = []\<rparr>"

definition demo_experiment :: Experiment where
  "demo_experiment = \<lparr>eName = ''e'', eDate = ''1'', eBucket = ''b'', eProject = ''p'', eBaseDir = ''/e'', eTrials = 1, eBase = demo_rc,
     eRuns = [demo_rc]\<rparr>"

text \<open>All works, except that fetching an input has to be tried twice; and a host where the first setup
  command on the machine fails.\<close>

definition demo_exp_host :: exp_host where
  "demo_exp_host = \<lparr>ehMkdirTemp = (\<lambda>i. Some ''/t''), ehMkdir = (\<lambda>_. True), ehRenew = (\<lambda>_ _. True), ehTemp = (\<lambda>d p. Some (Join [d, p])),
     ehFindBinary = (\<lambda>_. None), ehExec = (\<lambda>n h c. length h \<noteq> 5)\<rparr>"

definition demo_exp_end :: exp_state where
  "demo_exp_end = snd (Run demo_exp_host demo_experiment)"

theorem Run_success_witness:
  "\<exists>v h. esVms demo_exp_end ''a-0'' = Some v \<and> esHist demo_exp_end ''a-0'' = h @ [delete_args v demo_vm_settings] \<and>
     succeeded (ehExec demo_exp_host ''a-0'') (result_commands demo_experiment v ''/t/outputs'' ''a-0'' 0) h"
proof -
  have r: "Run demo_exp_host demo_experiment = (ExpOk, demo_exp_end)"
    unfolding demo_exp_end_def by (rule prod_eqI) (simp_all, code_simp)
  have "map_of (esConfigs demo_exp_end) ''a-0'' \<noteq> None" by code_simp
  then obtain rc where "map_of (esConfigs demo_exp_end) ''a-0'' = Some rc" by blast
  from Run_success [OF r this] obtain v h where v: "esVms demo_exp_end ''a-0'' = Some v"
    "esHist demo_exp_end ''a-0'' = h @ (case vSettings v of VmSettings x \<Rightarrow> [delete_args v x] | WsSettings x \<Rightarrow> [])"
    "\<forall>i < eTrials demo_experiment. succeeded (ehExec demo_exp_host ''a-0'')
       (result_commands demo_experiment v (Join [esTmp demo_exp_end ''a-0'', outDir]) ''a-0'' i) h" by blast
  moreover have "map_option vSettings (esVms demo_exp_end ''a-0'') = Some (VmSettings demo_vm_settings)" by code_simp
  moreover have "Join [esTmp demo_exp_end ''a-0'', outDir] = ''/t/outputs''" by code_simp
  moreover have "eTrials demo_experiment = 1" by (simp add: demo_experiment_def)
  ultimately show ?thesis by simp
qed

theorem failed_run_keeps_machines_witness:
  "fst (Run (demo_exp_host\<lparr>ehExec := (\<lambda>n h c. length h < 3)\<rparr>) demo_experiment) = ExpError \<and>
   \<not> is_delete (hd (esHist (snd (Run (demo_exp_host\<lparr>ehExec := (\<lambda>n h c. length h < 3)\<rparr>) demo_experiment)) ''a-0''))"
proof -
  let ?R = "Run (demo_exp_host\<lparr>ehExec := (\<lambda>n h c. length h < 3)\<rparr>) demo_experiment"
  have ok: "fst ?R = ExpError" by code_simp
  have ne: "esHist (snd ?R) ''a-0'' \<noteq> []" by code_simp
  have r: "?R = (ExpError, snd ?R)" using ok by (simp add: prod_eq_iff)
  from failed_run_keeps_machines [OF r hd_in_set [OF ne]] show ?thesis using ok by simp
qed

end
