(* ===== verification/RewrapperMain.thy ===== *)
theory RewrapperMain
  imports Rewrapper
begin

text \<open>
  The wrapper program (\<open>cmd/rewrapper/main.go\<close>): offline runs, the checks of its flags, exec root and
  working directory, and the exit code it hands on. What the operating system and the proxy answer
  are arguments; \<open>log.Exit\<close> ends with code one.
\<close>

section \<open>Program\<close>

record wrap_flags =
  wfCommand :: "string list"
  wfOffline :: bool
  wfServerAddr :: string
  wfFailOnMismatch :: bool
  wfOpts :: CommandOptions

text \<open>The answer of the proxy: exit code, and the mismatches of the action log if there is one.\<close>

record wrap_response =
  wrExitCode :: int
  wrMismatches :: "int option"

text \<open>\<open>whWait\<close> is the exit code of a command that was started, \<open>whWd\<close> the working directory and
  \<open>whRealWd\<close> the same with symbolic links resolved.\<close>

record wrap_host =
  whStarts :: bool
  whWait :: int
  whExists :: bool
  whDials :: bool
  whWd :: "string option"
  whRealWd :: "string option"
  whRun :: "CommandOptions \<Rightarrow> wrap_response option"

definition execStrategies :: "string list" where
  "execStrategies = [''local'', ''remote'', ''remote_local_fallback'', ''racing'']"

definition execStrategyValid :: "CommandOptions \<Rightarrow> bool" where
  "execStrategyValid opts \<longleftrightarrow> list_ex (\<lambda>s. oExecStrategy opts = s) execStrategies"

text \<open>Offline the error looked at for the exit code is that of the start.\<close>

definition run_offline :: "wrap_host \<Rightarrow> int" where
  "run_offline H = (if \<not> whStarts H then 1 else 0)"

datatype wrap_error =
    NoCommand | BadStrategy | MismatchNeedsCompare | NoServerAddress | ProxyNotRunning | DialFailed | NoWorkingDir | NoExecRoot
  | NoRelativeDir | OutsideExecRoot | NegativeReruns

text \<open>The exec root, made absolute below the working directory when it is relative.\<close>

definition exec_root :: "wrap_host \<Rightarrow> string \<Rightarrow> string \<Rightarrow> string option" where
  "exec_root H wd rt =
     (let r = (if rt = [] then wd else rt) in
      if IsAbs r then Some r else map_option (\<lambda>cwd. Join [cwd, r]) (whWd H))"

definition prepare_options :: "wrap_host \<Rightarrow> CommandOptions \<Rightarrow> wrap_error + CommandOptions" where
  "prepare_options H opts =
     (case whRealWd H of
        None \<Rightarrow> Inl NoWorkingDir
      | Some wd \<Rightarrow>
     (case exec_root H wd (oExecRoot opts) of
        None \<Rightarrow> Inl NoExecRoot
      | Some rt \<Rightarrow>
     (let opts1 = opts\<lparr>oExecRoot := rt, oLabels := (if oLabels opts = [] then [(''type'', ''tool'')] else oLabels opts)\<rparr> in
      case Rel rt wd of
        Ok rel \<Rightarrow>
          if prefix ''..'' rel then Inl OutsideExecRoot
          else if oNumRemoteReruns opts < 0 \<or> oNumLocalReruns opts < 0 then Inl NegativeReruns
          else Inr (opts1\<lparr>oWorkDir := rel\<rparr>)
      | _ \<Rightarrow> Inl NoRelativeDir)))"

text \<open>The checks before the proxy is called.\<close>

definition check_flags :: "wrap_flags \<Rightarrow> wrap_host \<Rightarrow> wrap_error option" where
  "check_flags f H =
     (if \<not> execStrategyValid (wfOpts f) then Some BadStrategy
      else if wfFailOnMismatch f \<and> \<not> oCompare (wfOpts f) then Some MismatchNeedsCompare
      else if wfServerAddr f = [] then Some NoServerAddress
      else if \<not> whExists H then Some ProxyNotRunning
      else if \<not> whDials H then Some DialFailed
      else None)"

definition finish :: "bool \<Rightarrow> wrap_response \<Rightarrow> int" where
  "finish failOnMismatch resp =
     (if failOnMismatch \<and> (case wrMismatches resp of Some n \<Rightarrow> 0 < n | None \<Rightarrow> False) then 1 else wrExitCode resp)"

definition rewrapper_main :: "wrap_flags \<Rightarrow> wrap_host \<Rightarrow> int" where
  "rewrapper_main f H =
     (if wfCommand f = [] then 1
      else if wfOffline f then run_offline H
      else case check_flags f H of
             Some e \<Rightarrow> 1
           | None \<Rightarrow>
              (case prepare_options H (wfOpts f) of
                 Inl e \<Rightarrow> 1
               | Inr opts \<Rightarrow>
                  (case whRun H opts of
                     None \<Rightarrow> 1
                   | Some resp \<Rightarrow> finish (wfFailOnMismatch f) resp)))"

section \<open>What is sent and what is returned\<close>

lemma exec_root_abs:
  assumes "exec_root H wd r = Some rt" and "IsAbs wd" and "\<And>cwd. whWd H = Some cwd \<Longrightarrow> IsAbs cwd"
  shows "IsAbs rt"
  using assms IsAbs_Join by (auto simp: exec_root_def Let_def split: if_splits)

text \<open>The options handed to the proxy: the exec root is absolute, the working directory is the one
  the wrapper runs in, relative to it and not above it, there is a label, and no negative number
  of reruns.\<close>

theorem prepared_options:
  assumes "prepare_options H opts = Inr opts'" and "whRealWd H = Some wd" and "IsAbs wd"
    and "\<And>cwd. whWd H = Some cwd \<Longrightarrow> IsAbs cwd"
  shows "IsAbs (oExecRoot opts') \<and> \<not> IsAbs (oWorkDir opts') \<and> \<not> prefix ''..'' (oWorkDir opts') \<and>
    Join [oExecRoot opts', oWorkDir opts'] = Clean wd \<and> oLabels opts' \<noteq> [] \<and> 0 \<le> oNumRemoteReruns opts' \<and> 0 \<le> oNumLocalReruns opts'"
proof -
  obtain rt rel where r: "exec_root H wd (oExecRoot opts) = Some rt" "Rel rt wd = Ok rel" "\<not> prefix ''..'' rel"
    and o': "oExecRoot opts' = rt" "oWorkDir opts' = rel" "oLabels opts' \<noteq> []"
      "0 \<le> oNumRemoteReruns opts'" "0 \<le> oNumLocalReruns opts'"
    using assms(1,2) by (auto simp: prepare_options_def Let_def split: option.splits res.splits if_splits)
  have a: "IsAbs rt" using exec_root_abs [OF r(1) assms(3,4)] .
  then show ?thesis using r o' Rel_relative [OF a assms(3) r(2)] Join_Rel [OF a assms(3)] by auto
qed

text \<open>A command that was started offline and failed is reported as a success.\<close>

theorem offline_hides_failure:
  "wfCommand f \<noteq> [] \<Longrightarrow> wfOffline f \<Longrightarrow> whStarts H \<Longrightarrow> rewrapper_main f H = 0"
  by (simp add: rewrapper_main_def run_offline_def)

text \<open>Otherwise success means that the proxy answered with exit code zero, and in fail-on-mismatch
  mode that no mismatch was reported.\<close>

theorem online_success:
  assumes "rewrapper_main f H = 0" and "\<not> wfOffline f"
  shows "\<exists>opts resp. prepare_options H (wfOpts f) = Inr opts \<and> whRun H opts = Some resp \<and> wrExitCode resp = 0 \<and>
    (wfFailOnMismatch f \<longrightarrow> oCompare (wfOpts f) \<and> (\<forall>n. wrMismatches resp = Some n \<longrightarrow> n \<le> 0))"
proof -
  obtain opts resp where r: "check_flags f H = None" "prepare_options H (wfOpts f) = Inr opts" "whRun H opts = Some resp"
    and z: "finish (wfFailOnMismatch f) resp = 0"
    using assms by (auto simp: rewrapper_main_def split: if_splits option.splits sum.splits)
  have "wfFailOnMismatch f \<longrightarrow> oCompare (wfOpts f)" using r(1) by (auto simp: check_flags_def split: if_splits)
  then show ?thesis using r z by (auto simp: finish_def split: if_splits option.splits)
qed

section \<open>A run\<close>

definition demo_wrap_opts :: CommandOptions where
  "demo_wrap_opts = \<lparr>oLabels = [], oExecRoot = ''/r'', oWorkDir = [], oOutputFiles = [], oOutputDirectories = [],
     oInputs = [], oVirtualInputs = [], oToolchainInputs = [], oInputListPaths = [], oOutputListPaths = [],
     oEnvVarAllowlist = [], oReclientTimeout = 60000000000, oExecStrategy = ''remote'', oCompare = True, oPlatform = [],
     oRemoteAcceptCache = True, oRemoteUpdateCache = True, oDownloadOutputs = True, oDownloadRegex = [],
     oEnableAtomicDownloads = False, oLogEnvironment = False, oNumRetriesIfMismatched = 0, oNumLocalReruns = 0,
     oNumRemoteReruns = 0, oLocalWrapper = [], oRemoteWrapper = [], oCanonicalizeWorkingDir = False,
     oPreserveUnchangedOutputMtime = False\<rparr>"

definition demo_wrap_host :: wrap_host where
  "demo_wrap_host = \<lparr>whStarts = True, whWait = 0, whExists = True, whDials = True, whWd = Some ''/r/out'', whRealWd = Some ''/r/out'',
     whRun = (\<lambda>opts. if oWorkDir opts = ''out'' then Some \<lparr>wrExitCode = 0, wrMismatches = Some 0\<rparr> else None)\<rparr>"

definition demo_prepared :: CommandOptions where
  "demo_prepared = (case prepare_options demo_wrap_host demo_wrap_opts of Inr opts \<Rightarrow> opts | Inl _ \<Rightarrow> demo_wrap_opts)"

lemma demo_prepared: "prepare_options demo_wrap_host demo_wrap_opts = Inr demo_prepared"
proof -
  have "case prepare_options demo_wrap_host demo_wrap_opts of Inr _ \<Rightarrow> True | Inl _ \<Rightarrow> False" by code_simp
  then show ?thesis by (cases "prepare_options demo_wrap_host demo_wrap_opts") (auto simp: demo_prepared_def)
qed

theorem prepared_options_witness:
  "oWorkDir demo_prepared = ''out'' \<and> Join [oExecRoot demo_prepared, oWorkDir demo_prepared] = Clean ''/r/out''"
proof -
  have "oWorkDir demo_prepared = ''out''" by code_simp
  moreover have "Join [oExecRoot demo_prepared, oWorkDir demo_prepared] = Clean ''/r/out''"
    using prepared_options [OF demo_prepared, of "''/r/out''"] by (simp add: demo_wrap_host_def IsAbs_def)
  ultimately show ?thesis by simp
qed

theorem online_success_witness: "\<exists>opts resp. whRun demo_wrap_host opts = Some resp \<and> wrExitCode resp = 0"
proof -
  let ?f = "\<lparr>wfCommand = [''cc''], wfOffline = False, wfServerAddr = ''unix:///s'', wfFailOnMismatch = True, wfOpts = demo_wrap_opts\<rparr>"
  have "rewrapper_main ?f demo_wrap_host = 0" by code_simp
  from online_success [OF this] show ?thesis by auto
qed

end
