(* ===== verification/ReproxyMain.thy ===== *)
theory ReproxyMain
  imports Server Logger Flags
begin

text \<open>
  The proxy program (\<open>cmd/reproxy/main.go\<close>) around the server of \<open>Server\<close>: checks of flags, the
  log directory and the logger, the two initializations that unblock requests, and the goroutines
  that wait for signals and the \<open>Shutdown\<close> call. Profiling, listening and the registration of
  services are left out; what libraries and files answer is an argument.
\<close>

section \<open>Checks\<close>

record proxy_flags =
  pfLocalResourceFraction :: rat
  pfMinActionCount :: int
  pfMinFallbackRatio :: rat
  pfWindow :: int
  pfRacingBias :: rat
  pfDepsScanner :: string
  pfServerAddr :: string
  pfRemoteDisabled :: bool
  pfProxyLogDir :: "string list"
  pfLogFormat :: string
  pfLogPath :: string
  pfWaitForShutdownRPC :: bool

datatype flag_error =
  BadFraction | BadMinCount | BadMinRatio | BadWindow | BadRacingBias | RatioWithoutCount | CountWithoutRatio

definition verifyFlags :: "proxy_flags \<Rightarrow> flag_error option" where
  "verifyFlags f =
     (if pfLocalResourceFraction f < 0 \<or> pfLocalResourceFraction f > 1 then Some BadFraction
      else if pfMinActionCount f < 0 then Some BadMinCount
      else if pfMinFallbackRatio f < 0 then Some BadMinRatio
      else if pfWindow f < 0 then Some BadWindow
      else if pfRacingBias f < 0 \<or> pfRacingBias f > 10 then Some BadRacingBias
      else if pfMinActionCount f = 0 \<and> pfMinFallbackRatio f > 0 then Some RatioWithoutCount
      else if pfMinActionCount f > 0 \<and> pfMinFallbackRatio f = 0 then Some CountWithoutRatio
      else None)"

text \<open>The address of the dependency scanner; \<open>beside\<close> finds a binary beside the proxy.\<close>

definition deps_scanner_address :: "(string \<Rightarrow> string option) \<Rightarrow> string \<Rightarrow> string option" where
  "deps_scanner_address beside a =
     (if a = [] then None
      else if a = ''execrel://'' then map_option (\<lambda>p. ''exec://'' @ p) (beside ''scandeps_server'')
      else Some a)"

definition allowed_timeouts :: "int \<Rightarrow> int" where
  "allowed_timeouts cpus = AllowedIPTimeouts + cpus * 2"

text \<open>The value of the flag \<open>log_dir\<close>, if it is defined, and the directory for temporary files.\<close>

definition getLogDir :: "string list \<Rightarrow> string option \<Rightarrow> string \<Rightarrow> string" where
  "getLogDir proxyLogDir logDirFlag tmp =
     (case proxyLogDir of
        d # _ \<Rightarrow> d
      | [] \<Rightarrow> (case logDirFlag of Some v \<Rightarrow> if v \<noteq> [] then v else tmp | None \<Rightarrow> tmp))"

section \<open>Logger\<close>

text \<open>What \<open>New\<close> and \<open>NewFromFormatFile\<close> open: the file for records and that for proxy information.
  \<open>creates\<close> says which files can be created, \<open>ts\<close> is the time as text.\<close>

type_synonym log_files = "Format \<times> string \<times> string option"

definition logger_New :: "(string \<Rightarrow> bool) \<Rightarrow> string \<Rightarrow> Format \<Rightarrow> string \<Rightarrow> (string, log_files) res" where
  "logger_New creates ts fm dir =
     (if fm \<noteq> TextFormat \<and> fm \<noteq> ReducedTextFormat then Err ''only text:// or reducedtext:// formats are supported''
      else
       (let recs = Join [dir, ''reproxy_'' @ ts @ ''.'' @ logFileSuffix fm]; info = Join [dir, ''reproxy_'' @ ts @ ''.rpi''] in
        if \<not> creates recs \<or> \<not> creates info then Err ''create'' else Ok (fm, recs, Some info)))"

definition NewFromFormatFile :: "(string \<Rightarrow> bool) \<Rightarrow> string \<Rightarrow> (string, log_files) res" where
  "NewFromFormatFile creates formatfile =
     res_bind (ParseFilepath formatfile) (\<lambda>(fm, path).
       if fm \<noteq> TextFormat \<and> fm \<noteq> ReducedTextFormat then Err ''only text:// or reducedtext:// formats are supported''
       else if \<not> creates path then Err ''create''
       else Ok (fm, path, None))"

definition initializeLogger :: "(string \<Rightarrow> bool) \<Rightarrow> string \<Rightarrow> proxy_flags \<Rightarrow> (string, log_files option) res" where
  "initializeLogger creates ts f =
     (case pfProxyLogDir f of
        d # _ \<Rightarrow> res_bind (ParseFormat (pfLogFormat f)) (\<lambda>fm. res_bind (logger_New creates ts fm d) (\<lambda>l. Ok (Some l)))
      | [] \<Rightarrow>
         if pfLogPath f \<noteq> [] then res_bind (NewFromFormatFile creates (pfLogPath f)) (\<lambda>l. Ok (Some l))
         else Ok None)"

text \<open>The checks of \<open>main\<close> up to the start of the server, in order; the exit code of a failing
  credentials helper is that of an external token.\<close>

record proxy_host =
  phBeside :: "string \<Rightarrow> string option"
  phListens :: bool
  phHelper :: "string option"
  phHelperWorks :: bool
  phCreates :: "string \<Rightarrow> bool"
  phTime :: string
  phSubprocess :: bool

datatype proxy_end =
  NoScanner | BadFlags flag_error | NoServerAddr | NoListener | HelperFailed | LoggerFailed string | NoSubprocesses

definition start_checks :: "proxy_flags \<Rightarrow> proxy_host \<Rightarrow> proxy_end + string \<times> log_files option" where
  "start_checks f H =
     (case deps_scanner_address (phBeside H) (pfDepsScanner f) of
        None \<Rightarrow> Inl NoScanner
      | Some addr \<Rightarrow>
     (case verifyFlags f of
        Some e \<Rightarrow> Inl (BadFlags e)
      | None \<Rightarrow>
         if pfServerAddr f = [] then Inl NoServerAddr
         else if \<not> phListens H then Inl NoListener
         else if \<not> pfRemoteDisabled f \<and> (case phHelper H of Some p \<Rightarrow> p \<noteq> [] \<and> \<not> phHelperWorks H | None \<Rightarrow> False) then Inl HelperFailed
         else (case initializeLogger (phCreates H) (phTime H) f of
                 Ok l \<Rightarrow> if phSubprocess H then Inr (addr, l) else Inl NoSubprocesses
               | Err e \<Rightarrow> Inl (LoggerFailed e)
               | Panic \<Rightarrow> Inl (LoggerFailed []))))"

section \<open>The input processor\<close>

text \<open>\<open>NewInputProcessor\<close> (\<open>pkg/inputprocessor\<close>): whether the dependency scanner is asked to cache
  dependencies, whether the proxy does, and what a clean-up does; it is done once. \<open>scanner\<close> starts
  the dependency scanner and answers whether it can cache; \<open>gomaCache\<close> is the experimental feature.\<close>

record ip_options =
  ioEnableDepsCache :: bool
  ioCacheDir :: string
  ioReclientVersion :: string

datatype ip_cleanup = WriteDepsCache string | CloseScanner

record ip_handle =
  ihDepsCache :: "string option"
  ihCleanup :: "ip_cleanup list"
  ihCleaned :: bool

definition use_deps_cache :: "ip_options \<Rightarrow> bool" where
  "use_deps_cache opt \<longleftrightarrow> ioCacheDir opt \<noteq> [] \<and> ioEnableDepsCache opt"

definition scanner_asked :: "bool \<Rightarrow> ip_options \<Rightarrow> bool" where
  "scanner_asked gomaCache opt \<longleftrightarrow> use_deps_cache opt \<and> \<not> gomaCache"

definition NewInputProcessor :: "bool \<Rightarrow> (bool \<Rightarrow> string + bool) \<Rightarrow> ip_options \<Rightarrow> string + ip_handle" where
  "NewInputProcessor gomaCache scanner opt =
     (case scanner (scanner_asked gomaCache opt) of
        Inl e \<Rightarrow> Inl e
      | Inr caching \<Rightarrow>
         if use_deps_cache opt \<and> (\<not> caching \<or> gomaCache)
         then Inr \<lparr>ihDepsCache = Some (ioReclientVersion opt), ihCleanup = [WriteDepsCache (ioCacheDir opt), CloseScanner], ihCleaned = False\<rparr>
         else Inr \<lparr>ihDepsCache = None, ihCleanup = [CloseScanner], ihCleaned = False\<rparr>)"

definition run_cleanup :: "ip_handle \<Rightarrow> ip_handle \<times> ip_cleanup list" where
  "run_cleanup h = (if ihCleaned h then (h, []) else (h\<lparr>ihCleaned := True\<rparr>, ihCleanup h))"

text \<open>With a cache directory exactly one of scanner and proxy caches dependencies, if a scanner caches
  only when asked to and able to; without one neither does.\<close>

lemma one_deps_cache:
  assumes "NewInputProcessor gomaCache scanner opt = Inr h" and "scanner (scanner_asked gomaCache opt) = Inr caching"
  shows "(ihDepsCache h \<noteq> None) \<noteq> (scanner_asked gomaCache opt \<and> caching) \<longleftrightarrow> use_deps_cache opt"
  using assms by (auto simp: NewInputProcessor_def scanner_asked_def split: if_splits)

text \<open>The proxy writes its cache back exactly if it has one, on the first clean-up only.\<close>

lemma cleanup_once:
  assumes "NewInputProcessor gomaCache scanner opt = Inr h" and "run_cleanup h = (h', acts)"
  shows "(ihDepsCache h \<noteq> None \<longleftrightarrow> WriteDepsCache (ioCacheDir opt) \<in> set acts) \<and> last acts = CloseScanner \<and> snd (run_cleanup h') = []"
  using assms by (auto simp: NewInputProcessor_def run_cleanup_def split: if_splits sum.splits)

section \<open>Initialization\<close>

datatype auth_used = ExternalTokenAuth | ApplicationDefaultCredsAuth | OtherAuth

datatype client_error = InitError bool auth_used string | ClientOther go_err

definition formatAuthError :: "bool \<Rightarrow> auth_used \<Rightarrow> string \<Rightarrow> go_err" where
  "formatAuthError isCanceled au text' =
     (if isCanceled then ErrCanceled
      else ErrOther (''Unable to authenticate with RBE'' @
        (case au of
           ExternalTokenAuth \<Rightarrow> '', externally provided auth token was invalid''
         | ApplicationDefaultCredsAuth \<Rightarrow>
             '', try restarting the build after running the following command:'' @ [CHR 0x0A] @
             ''    gcloud auth application-default login --disable-quota-project'' @ [CHR 0x0A] @
             ''If this is a headless machine, use:'' @ [CHR 0x0A] @
             ''    gcloud auth application-default login --no-launch-browser --disable-quota-project''
         | OtherAuth \<Rightarrow> []) @ [CHR 0x0A] @ text'))"

text \<open>The two initializations, each ending in a call to the server.\<close>

definition ip_task :: "string option \<Rightarrow> startup \<Rightarrow> startup" where
  "ip_task r st = (case r of Some e \<Rightarrow> SetStartupErr (ErrOther e) st | None \<Rightarrow> SetInputProcessor 0 st)"

definition client_failure :: "bool \<Rightarrow> client_error option \<Rightarrow> go_err option" where
  "client_failure remoteDisabled r =
     (if remoteDisabled then None
      else map_option (\<lambda>e. case e of InitError c au t \<Rightarrow> formatAuthError c au t | ClientOther g \<Rightarrow> g) r)"

definition client_task :: "bool \<Rightarrow> client_error option \<Rightarrow> startup \<Rightarrow> startup" where
  "client_task remoteDisabled r st =
     (case client_failure remoteDisabled r of Some e \<Rightarrow> SetStartupErr e st | None \<Rightarrow> SetREClient 1 st)"

text \<open>In either order requests are answered once both have ended: with the first error, or none. What
  was created is cleaned up at once or kept for the drain.\<close>

theorem startup_answers:
  "waitForStarted (client_task d c (ip_task p new_startup)) =
     Some (case p of Some e \<Rightarrow> Some (ErrOther e) | None \<Rightarrow> client_failure d c) \<and>
   waitForStarted (ip_task p (client_task d c new_startup)) =
     Some (case client_failure d c of Some e \<Rightarrow> Some e | None \<Rightarrow> map_option ErrOther p) \<and>
   (\<forall>st \<in> {client_task d c (ip_task p new_startup), ip_task p (client_task d c new_startup)}.
      set (cleanupFns st @ cleanupsRun st) = (if p = None then {0} else {}) \<union> (if client_failure d c = None then {1} else {}) \<and>
      distinct (cleanupFns st @ cleanupsRun st))"
  by (cases p; cases "client_failure d c")
    (auto simp: client_task_def ip_task_def waitForStarted_def SetInputProcessor_def SetREClient_def SetStartupErr_def
      maybeUnblockStartup_def new_startup_def)

section \<open>Shutdown\<close>

text \<open>The goroutine that waits for signals or the \<open>Shutdown\<close> call, then stops the server and waits for
  the clean-up, and the goroutine that serves. A signal starts a drain, and so does the \<open>Shutdown\<close>
  call that closes the command channel; only a drain ends in a clean-up.\<close>

datatype main_phase = Looping nat | Stopping | AwaitingCleanup | WaiterDone

record main_state =
  mPhase :: main_phase
  mSignals :: nat
  mShutdown :: bool
  mDrains :: nat
  mCleanup :: bool
  mServing :: bool

definition sig_count :: "bool \<Rightarrow> nat" where
  "sig_count waitForShutdownRPC = (if waitForShutdownRPC then 3 else 1)"

definition main_init :: "bool \<Rightarrow> main_state" where
  "main_init w = \<lparr>mPhase = Looping (sig_count w), mSignals = 0, mShutdown = False, mDrains = 0, mCleanup = False, mServing = True\<rparr>"

definition next_phase :: "nat \<Rightarrow> main_phase" where
  "next_phase sigCnt = (if sigCnt > 0 then Looping sigCnt else Stopping)"

definition on_signal :: "nat \<Rightarrow> main_state \<Rightarrow> main_state" where
  "on_signal n s = s\<lparr>mPhase := next_phase (n - 1), mSignals := mSignals s + 1, mDrains := mDrains s + 1\<rparr>"

definition on_shutdown :: "main_state \<Rightarrow> main_state" where
  "on_shutdown s = s\<lparr>mPhase := next_phase 0\<rparr>"

inductive main_step :: "main_state \<Rightarrow> main_state \<Rightarrow> bool" where
  CallShutdown: "main_step s (s\<lparr>mShutdown := True, mDrains := mDrains s + 1\<rparr>)" if "mServing s" "\<not> mShutdown s"
| Signalled: "main_step s (on_signal n s)" if "mPhase s = Looping n"
| Commanded: "main_step s (on_shutdown s)" if "mPhase s = Looping n" "mShutdown s"
| Stopped: "main_step s (s\<lparr>mPhase := AwaitingCleanup, mServing := False\<rparr>)" if "mPhase s = Stopping"
| ServeFailed: "main_step s (s\<lparr>mServing := False\<rparr>)"
| Cleaned: "main_step s (s\<lparr>mCleanup := True\<rparr>)" if "0 < mDrains s"
| Waited: "main_step s (s\<lparr>mPhase := WaiterDone\<rparr>)" if "mPhase s = AwaitingCleanup" "mCleanup s"

inductive_cases main_stepE: "main_step s s'"

text \<open>The program ends when both goroutines have.\<close>

definition main_ends :: "main_state \<Rightarrow> bool" where
  "main_ends s \<longleftrightarrow> mPhase s = WaiterDone \<and> \<not> mServing s"

definition main_inv :: "bool \<Rightarrow> main_state \<Rightarrow> bool" where
  "main_inv w s \<longleftrightarrow>
     (case mPhase s of
        Looping n \<Rightarrow> 0 < n \<and> n + mSignals s = sig_count w
      | Stopping \<Rightarrow> mSignals s = sig_count w \<or> mShutdown s
      | AwaitingCleanup \<Rightarrow> (mSignals s = sig_count w \<or> mShutdown s) \<and> \<not> mServing s
      | WaiterDone \<Rightarrow> (mSignals s = sig_count w \<or> mShutdown s) \<and> \<not> mServing s \<and> mCleanup s) \<and>
     mDrains s = mSignals s + (if mShutdown s then 1 else 0) \<and> (mCleanup s \<longrightarrow> 0 < mDrains s)"

lemma main_inv_step: "main_step s s' \<Longrightarrow> main_inv w s \<Longrightarrow> main_inv w s'"
  by (erule main_stepE) (auto simp: main_inv_def on_signal_def on_shutdown_def next_phase_def split: main_phase.splits)

interpretation proxy_main: step_invariant main_step "\<lambda>s. s = main_init w" "main_inv w"
  for w
proof unfold_locales
  show "main_inv w s" if "s = main_init w" for s
    using that by (auto simp: main_inv_def main_init_def sig_count_def)
qed (rule main_inv_step)

text \<open>C9: The program ends only after a clean-up, and after the number of signals asked for or a \<open>Shutdown\<close>
  call: in particular not by one or two signals when it is to wait for the call.\<close>

theorem proxy_ends_cleaned:
  assumes "main_step\<^sup>*\<^sup>* (main_init w) s" and "main_ends s"
  shows "mCleanup s \<and> (mShutdown s \<or> mSignals s = (if w then 3 else 1))"
proof -
  have "main_inv w s" using proxy_main.holds_reachable [OF refl assms(1)] .
  then show ?thesis using assms(2) by (auto simp: main_inv_def main_ends_def sig_count_def split: if_splits)
qed

text \<open>After a \<open>Shutdown\<close> call the program can go on to its end.\<close>

theorem proxy_can_end:
  assumes "main_step\<^sup>*\<^sup>* (main_init w) s" and "mShutdown s"
  shows "\<exists>s'. main_step\<^sup>*\<^sup>* s s' \<and> main_ends s'"
proof -
  have inv: "main_inv w s" using proxy_main.holds_reachable [OF refl assms(1)] .
  let ?c = "s\<lparr>mCleanup := True\<rparr>"
  have "main_step s ?c" using inv assms(2) by (intro Cleaned) (simp add: main_inv_def)
  then have c: "main_step\<^sup>*\<^sup>* s ?c" by (rule r_into_rtranclp)
  have await: "\<exists>s'. main_step\<^sup>*\<^sup>* t s' \<and> main_ends s'" if "mPhase t = AwaitingCleanup" "mCleanup t" "\<not> mServing t" for t
  proof -
    have "main_step t (t\<lparr>mPhase := WaiterDone\<rparr>)" using that by (intro Waited)
    moreover have "main_ends (t\<lparr>mPhase := WaiterDone\<rparr>)" using that(3) by (simp add: main_ends_def)
    ultimately show ?thesis by blast
  qed
  have stop: "\<exists>s'. main_step\<^sup>*\<^sup>* t s' \<and> main_ends s'" if "mPhase t = Stopping" "mCleanup t" for t
  proof -
    have "main_step t (t\<lparr>mPhase := AwaitingCleanup, mServing := False\<rparr>)" using that by (intro Stopped)
    moreover have "\<exists>s'. main_step\<^sup>*\<^sup>* (t\<lparr>mPhase := AwaitingCleanup, mServing := False\<rparr>) s' \<and> main_ends s'"
      using that(2) by (intro await) simp_all
    ultimately show ?thesis by (blast intro: converse_rtranclp_into_rtranclp)
  qed
  have "\<exists>s'. main_step\<^sup>*\<^sup>* ?c s' \<and> main_ends s'"
  proof (cases "mPhase s")
    case (Looping n)
    then have "main_step ?c (on_shutdown ?c)" using assms(2) by (intro Commanded [where n = n]) simp_all
    moreover have "\<exists>s'. main_step\<^sup>*\<^sup>* (on_shutdown ?c) s' \<and> main_ends s'"
      by (rule stop) (simp_all add: on_shutdown_def next_phase_def)
    ultimately show ?thesis by (blast intro: converse_rtranclp_into_rtranclp)
  next
    case Stopping
    then show ?thesis by (intro stop) simp_all
  next
    case AwaitingCleanup
    then show ?thesis using inv by (intro await) (simp_all add: main_inv_def)
  next
    case WaiterDone
    then have "main_ends ?c" using inv by (simp add: main_inv_def main_ends_def)
    then show ?thesis by blast
  qed
  then show ?thesis using c by (blast intro: rtranclp_trans)
qed

section \<open>Runs\<close>

definition after_call :: main_state where
  "after_call = (main_init True)\<lparr>mShutdown := True, mDrains := 1\<rparr>"

lemma after_call_reachable: "main_step\<^sup>*\<^sup>* (main_init True) after_call"
proof -
  have "main_step (main_init True) ((main_init True)\<lparr>mShutdown := True, mDrains := mDrains (main_init True) + 1\<rparr>)"
    by (rule CallShutdown) (simp_all add: main_init_def)
  then show ?thesis by (auto simp: after_call_def main_init_def)
qed

theorem proxy_can_end_witness: "\<exists>s'. main_step\<^sup>*\<^sup>* after_call s' \<and> main_ends s'"
  using proxy_can_end [OF after_call_reachable] by (simp add: after_call_def)

definition run_to_end :: main_state where
  "run_to_end = (on_shutdown (after_call\<lparr>mCleanup := True\<rparr>))\<lparr>mPhase := WaiterDone, mServing := False\<rparr>"

theorem proxy_ends_cleaned_witness: "mCleanup run_to_end \<and> mSignals run_to_end = 0 \<and> mShutdown run_to_end"
proof -
  let ?s1 = "after_call\<lparr>mCleanup := True\<rparr>"
  let ?s2 = "on_shutdown ?s1"
  let ?s3 = "?s2\<lparr>mPhase := AwaitingCleanup, mServing := False\<rparr>"
  have "main_step after_call ?s1" by (rule Cleaned) (simp add: after_call_def)
  moreover have "main_step ?s1 ?s2" by (rule Commanded [where n = 3]) (simp_all add: after_call_def main_init_def sig_count_def)
  moreover have "main_step ?s2 ?s3" by (rule Stopped) (simp add: on_shutdown_def next_phase_def)
  moreover have "main_step ?s3 (?s3\<lparr>mPhase := WaiterDone\<rparr>)" by (rule Waited) (simp_all add: on_shutdown_def)
  moreover have "?s3\<lparr>mPhase := WaiterDone\<rparr> = run_to_end" by (simp add: run_to_end_def)
  ultimately have "main_step\<^sup>*\<^sup>* (main_init True) run_to_end"
    using after_call_reachable by (metis rtranclp.rtrancl_into_rtrancl)
  moreover have "main_ends run_to_end" by (simp add: main_ends_def run_to_end_def)
  ultimately have "mCleanup run_to_end \<and> (mShutdown run_to_end \<or> mSignals run_to_end = 3)"
    using proxy_ends_cleaned by fastforce
  moreover have "mSignals run_to_end = 0" by (simp add: run_to_end_def on_shutdown_def after_call_def main_init_def)
  ultimately show ?thesis by simp
qed

text \<open>A ratio above one passes the checks and is never reached.\<close>

lemma ratio_above_one_accepted:
  "verifyFlags \<lparr>pfLocalResourceFraction = 1, pfMinActionCount = 10, pfMinFallbackRatio = 5, pfWindow = 0, pfRacingBias = 1,
     pfDepsScanner = ''x'', pfServerAddr = ''y'', pfRemoteDisabled = False, pfProxyLogDir = [], pfLogFormat = [], pfLogPath = [],
     pfWaitForShutdownRPC = False\<rparr> = None"
  by (simp add: verifyFlags_def)

end
