(* ===== verification/Usage.thy ===== *)
theory Usage
  imports GenClangFlags Numbers PathTranslator Complex_Main "HOL-Library.AList"
begin

text \<open>
  The resource usage of the proxy: samples taken, logged and collected as series
  (\<open>localresources/usage\<close>, \<open>logger/logger.go\<close>), the table made from the log
  (\<open>cmd/reproxytool/usage2csv\<close>), and the metadata that workers report, flattened
  (\<open>auxiliary/auxiliary.go\<close>). What the operating system answers, decoding of messages and the sort are
  arguments.
\<close>

section \<open>Samples\<close>

definition CPUPct :: string where "CPUPct = ''CPU_pct''"

definition MemPct :: string where "MemPct = ''MEM_pct''"

definition MemVirt :: string where "MemVirt = ''MEM_VIRT_mbs''"

definition MemRes :: string where "MemRes = ''MEM_RES_mbs''"

text \<open>Answers about the process: percentages, and bytes of virtual and resident memory.\<close>

record sampler =
  smPercent :: "rat option"
  smMemoryPercent :: "rat option"
  smMemoryInfo :: "(nat \<times> nat) option"

definition go_trunc :: "rat \<Rightarrow> int" where
  "go_trunc x = (if 0 \<le> x then \<lfloor>x\<rfloor> else \<lceil>x\<rceil>)"

type_synonym samples = "(string \<times> int) list"

definition Sample :: "sampler \<Rightarrow> samples option" where
  "Sample s =
     (case (smPercent s, smMemoryPercent s, smMemoryInfo s) of
        (Some c, Some m, Some (vms, rss)) \<Rightarrow>
          Some [(CPUPct, go_trunc c), (MemPct, go_trunc m), (MemVirt, int (vms div (1024 * 1024))), (MemRes, int (rss div (1024 * 1024)))]
      | _ \<Rightarrow> None)"

text \<open>A map is printed with its keys in order.\<close>

definition print_pair :: "string \<times> int \<Rightarrow> string" where
  "print_pair kv = fst kv @ '':'' @ show_signed (snd kv)"

definition print_samples :: "samples \<Rightarrow> string" where
  "print_samples m = ''map['' @ join_with '' '' (map print_pair (sort_key fst m)) @ '']''"

text \<open>The samples with time, peak of running actions and of BigQuery workers; the line logged, and the
  series of every key but the time.\<close>

definition with_peaks :: "int \<Rightarrow> int \<Rightarrow> int option \<Rightarrow> samples option \<Rightarrow> samples" where
  "with_peaks now peak bq sm =
     (let m = AList.update ''PEAK_NUM_ACTIONS'' peak (AList.update ''UNIX_TIME'' now (case sm of Some m \<Rightarrow> m | None \<Rightarrow> [])) in
      case bq of Some n \<Rightarrow> AList.update ''PEAK_NUM_BQ_WORKER'' n m | None \<Rightarrow> m)"

definition add_sample :: "(string \<rightharpoonup> int list) \<Rightarrow> string \<times> int \<Rightarrow> (string \<rightharpoonup> int list)" where
  "add_sample series kv =
     series(fst kv \<mapsto> (case series (fst kv) of Some vs \<Rightarrow> vs @ [snd kv] | None \<Rightarrow> [snd kv]))"

definition collectResourceUsageSamples ::
    "int \<Rightarrow> int \<Rightarrow> int option \<Rightarrow> samples option \<Rightarrow> (string \<rightharpoonup> int list) \<Rightarrow> string \<times> (string \<rightharpoonup> int list)" where
  "collectResourceUsageSamples now peak bq sm series =
     (let m = with_peaks now peak bq sm in
      (''Resource Usage: '' @ print_samples m, foldl add_sample series (AList.delete ''UNIX_TIME'' m)))"

section \<open>Table\<close>

record usage =
  uTimestamp :: int
  uCPUPct :: int
  uMemResMbs :: int
  uMemVirtMbs :: int
  uMemPct :: int
  uPeakNumActions :: int

definition no_usage :: usage where
  "no_usage = \<lparr>uTimestamp = 0, uCPUPct = 0, uMemResMbs = 0, uMemVirtMbs = 0, uMemPct = 0, uPeakNumActions = 0\<rparr>"

definition set_usage :: "string \<Rightarrow> int \<Rightarrow> usage \<Rightarrow> usage" where
  "set_usage key v u =
     (if key = ''UNIX_TIME'' then u\<lparr>uTimestamp := v\<rparr>
      else if key = ''CPU_pct'' then u\<lparr>uCPUPct := v\<rparr>
      else if key = ''MEM_RES_mbs'' then u\<lparr>uMemResMbs := v\<rparr>
      else if key = ''MEM_VIRT_mbs'' then u\<lparr>uMemVirtMbs := v\<rparr>
      else if key = ''MEM_pct'' then u\<lparr>uMemPct := v\<rparr>
      else if key = ''PEAK_NUM_ACTIONS'' then u\<lparr>uPeakNumActions := v\<rparr>
      else u)"

text \<open>A field without colon is a panic, one without number a fatal error.\<close>

primrec unmarshall_fields :: "string list \<Rightarrow> usage \<Rightarrow> (string, usage) res" where
  "unmarshall_fields [] u = Ok u"
| "unmarshall_fields (fl # fls) u =
     (case split_on (CHR '':'') fl of
        ky # v # _ \<Rightarrow> (case ParseInt 10 64 v of None \<Rightarrow> Err v | Some n \<Rightarrow> unmarshall_fields fls (set_usage ky n u))
      | _ \<Rightarrow> Panic)"

definition unmarshall :: "string \<Rightarrow> (string, usage) res" where
  "unmarshall s = unmarshall_fields (split_on (CHR '' '') s) no_usage"

text \<open>The shortest text between the marker and a closing bracket.\<close>

fun after_match :: "string \<Rightarrow> string \<Rightarrow> string option" where
  "after_match pat [] = (if pat = [] then Some [] else None)"
| "after_match pat (c # s) = (if prefix pat (c # s) then Some (drop (length pat) (c # s)) else after_match pat s)"

definition usage_marker :: string where
  "usage_marker = ''Resource Usage: map[''"

definition usageRegex :: "string \<Rightarrow> string option" where
  "usageRegex l =
     (case after_match usage_marker l of
        None \<Rightarrow> None
      | Some r \<Rightarrow> if CHR '']'' \<in> set r then Some (takeWhile (\<lambda>c. c \<noteq> CHR '']'') r) else None)"

primrec parseLogFileToSlice :: "string list \<Rightarrow> (string, usage list) res" where
  "parseLogFileToSlice [] = Ok []"
| "parseLogFileToSlice (l # ls) =
     (case usageRegex l of
        None \<Rightarrow> parseLogFileToSlice ls
      | Some s \<Rightarrow> res_bind (unmarshall s) (\<lambda>u. res_bind (parseLogFileToSlice ls) (\<lambda>us. Ok (u # us))))"

definition csv_row :: "usage \<Rightarrow> string list" where
  "csv_row u = map show_signed [uTimestamp u, uCPUPct u, uMemResMbs u, uMemVirtMbs u, uMemPct u, uPeakNumActions u]"

definition csv_header :: "string list" where
  "csv_header = [''timestamp'', ''CPU_pct'', ''MEM_RES_mbs'', ''MEM_VIRT_mbs'', ''MEM_pct'', ''PEAK_NUM_ACTIONS'']"

definition Usage2CSV :: "(usage list \<Rightarrow> usage list) \<Rightarrow> string list \<Rightarrow> (string, string list list) res" where
  "Usage2CSV sortByTimestamp ls =
     res_bind (parseLogFileToSlice ls) (\<lambda>us. Ok (csv_header # map csv_row (sortByTimestamp us)))"

section \<open>Reading back what was logged\<close>

definition plain_key :: "string \<Rightarrow> bool" where
  "plain_key k \<longleftrightarrow> CHR '' '' \<notin> set k \<and> CHR '':'' \<notin> set k \<and> CHR '']'' \<notin> set k"

definition readable :: "samples \<Rightarrow> bool" where
  "readable m \<longleftrightarrow> (\<forall>(k, v) \<in> set m. plain_key k \<and> - (2 ^ 63) \<le> v \<and> v < 2 ^ 63)"

definition usage_of :: "samples \<Rightarrow> usage" where
  "usage_of m = foldl (\<lambda>u (k, v). set_usage k v u) no_usage (sort_key fst m)"

lemma show_signed_chars:
  "c \<in> set (show_signed n) \<Longrightarrow> c \<noteq> CHR '' '' \<and> c \<noteq> CHR '':'' \<and> c \<noteq> CHR '']''"
  using show_base_digits [of 10 c] by (auto simp: show_signed_def split: if_splits)

lemma print_pair_chars:
  assumes "plain_key k" and "c \<in> set (print_pair (k, v))"
  shows "c \<noteq> CHR '' '' \<and> c \<noteq> CHR '']''"
  using assms show_signed_chars [of c v] by (auto simp: print_pair_def plain_key_def)

lemma unmarshall_fields_print:
  "readable m \<Longrightarrow> unmarshall_fields (map print_pair m) u = Ok (foldl (\<lambda>u (k, v). set_usage k v u) u m)"
proof (induction m arbitrary: u)
  case (Cons kv m)
  obtain k v where kv: "kv = (k, v)" by fastforce
  have "CHR '':'' \<notin> set k" "CHR '':'' \<notin> set (show_signed v)"
    using Cons.prems show_signed_chars [of _ v] by (auto simp: readable_def plain_key_def kv)
  then have "split_on (CHR '':'') (print_pair kv) = [k, show_signed v]"
    by (simp add: print_pair_def kv split_on_append split_on_notin)
  moreover have "ParseInt 10 64 (show_signed v) = Some v"
    using Cons.prems by (intro ParseInt_show_signed) (auto simp: readable_def kv)
  moreover have "readable m" using Cons.prems by (simp add: readable_def)
  ultimately show ?case using Cons.IH by (simp add: kv)
qed simp

lemma takeWhile_until: "c \<notin> set b \<Longrightarrow> takeWhile (\<lambda>x. x \<noteq> c) (b @ c # r) = b"
  by (induction b) auto

lemma after_match_first:
  assumes "\<not> contains pat (pre @ butlast pat)"
  shows "after_match pat (pre @ pat @ r) = Some r"
  using assms
proof (induction pre)
  case Nil
  then show ?case by (cases pat) auto
next
  case (Cons c pre)
  have "\<not> prefix pat ((c # pre) @ pat @ r)"
  proof
    assume p: "prefix pat ((c # pre) @ pat @ r)"
    have "prefix ((c # pre) @ butlast pat) ((c # pre) @ pat @ r)"
      by (cases pat rule: rev_cases) (auto simp: prefix_def)
    moreover have "length pat \<le> length ((c # pre) @ butlast pat)" by (cases pat rule: rev_cases) auto
    ultimately have "prefix pat ((c # pre) @ butlast pat)" using p prefix_length_prefix by blast
    then show False using Cons.prems by auto
  qed
  then show ?case using Cons by auto
qed

text \<open>A line with samples is read back as the samples that were logged, whatever stands before and after
  them in the line, as long as the marker is not there earlier.\<close>

theorem usage_line_read:
  assumes "readable m" and "m \<noteq> []" and "\<not> contains usage_marker (pre @ butlast usage_marker)"
  shows "parseLogFileToSlice [pre @ ''Resource Usage: '' @ print_samples m @ rest] = Ok [usage_of m]"
proof -
  let ?body = "join_with '' '' (map print_pair (sort_key fst m))"
  have r: "readable (sort_key fst m)" using assms(1) by (simp add: readable_def)
  have plain: "CHR '' '' \<notin> set w \<and> CHR '']'' \<notin> set w" if w: "w \<in> set (map print_pair (sort_key fst m))" for w
  proof -
    obtain k v where kv: "(k, v) \<in> set m" "w = print_pair (k, v)" using w by auto
    then have "plain_key k" using assms(1) by (auto simp: readable_def)
    then show ?thesis using print_pair_chars kv(2) by blast
  qed
  have body: "CHR '']'' \<notin> set ?body"
  proof
    assume b: "CHR '']'' \<in> set ?body"
    from subsetD [OF join_with_chars b] consider "CHR '']'' \<in> set '' ''" | w where "w \<in> set (map print_pair (sort_key fst m))" "CHR '']'' \<in> set w"
      by blast
    then show False
    proof cases
      case 1
      then show ?thesis by simp
    next
      case 2
      then show ?thesis using plain by blast
    qed
  qed
  have line: "pre @ ''Resource Usage: '' @ print_samples m @ rest = pre @ usage_marker @ ?body @ CHR '']'' # rest"
    by (simp add: print_samples_def usage_marker_def)
  have t: "takeWhile (\<lambda>c. c \<noteq> CHR '']'') (?body @ CHR '']'' # rest) = ?body" using body by (rule takeWhile_until)
  have "usageRegex (pre @ ''Resource Usage: '' @ print_samples m @ rest) = Some ?body"
    using after_match_first [OF assms(3)] t unfolding line by (simp add: usageRegex_def)
  moreover have "split_on (CHR '' '') ?body = map print_pair (sort_key fst m)"
  proof (rule split_join)
    have "length (sort_key fst m) = length m" by simp
    then show "map print_pair (sort_key fst m) \<noteq> []" using assms(2) by (metis length_0_conv map_is_Nil_conv)
  qed (use plain in blast)
  ultimately show ?thesis using unmarshall_fields_print [OF r] by (simp add: unmarshall_def usage_of_def)
qed

theorem usage_line_read_witness:
  "\<exists>u. parseLogFileToSlice [''I1 logger.go:457] Resource Usage: map[CPU_pct:7 UNIX_TIME:1700]''] = Ok [u] \<and> uCPUPct u = 7 \<and> uTimestamp u = 1700"
proof -
  let ?m = "[(''UNIX_TIME'', 1700), (''CPU_pct'', 7)] :: samples"
  have r: "readable ?m" by (simp add: readable_def plain_key_def)
  have c: "\<not> contains usage_marker (''I1 logger.go:457] '' @ butlast usage_marker)" by code_simp
  have l: "''I1 logger.go:457] '' @ ''Resource Usage: '' @ print_samples ?m @ [] = ''I1 logger.go:457] Resource Usage: map[CPU_pct:7 UNIX_TIME:1700]''"
    by code_simp
  have u: "uCPUPct (usage_of ?m) = 7 \<and> uTimestamp (usage_of ?m) = 1700" by code_simp
  show ?thesis using usage_line_read [OF r _ c, of "[]"] u unfolding l by auto
qed

text \<open>An empty map in the log is a panic of the converter.\<close>

lemma empty_usage_panics: "parseLogFileToSlice [''Resource Usage: map[]''] = Panic"
  by code_simp

text \<open>The table has a row for every line with samples, ordered by time, for every way to sort.\<close>

lemma Usage2CSV_rows:
  assumes "Usage2CSV srt ls = Ok t" and "\<And>us. mset (srt us) = mset us" and "\<And>us. sorted (map uTimestamp (srt us))"
  shows "\<exists>us. parseLogFileToSlice ls = Ok us \<and> length t = Suc (length us) \<and> mset (tl t) = image_mset csv_row (mset us) \<and>
    (\<exists>us'. tl t = map csv_row us' \<and> sorted (map uTimestamp us'))"
proof -
  obtain us where us: "parseLogFileToSlice ls = Ok us" "t = csv_header # map csv_row (srt us)"
    using assms(1) by (cases "parseLogFileToSlice ls") (auto simp: Usage2CSV_def)
  have "length (srt us) = length us" using assms(2) [of us] by (metis size_mset)
  moreover have "mset (map csv_row (srt us)) = image_mset csv_row (mset us)" by (simp add: assms(2))
  moreover have "sorted (map uTimestamp (srt us))" by (rule assms(3))
  ultimately show ?thesis using us by (intro exI [of _ us]) auto
qed

section \<open>Metadata of workers\<close>

definition inner_prefix :: "string \<Rightarrow> string \<Rightarrow> string" where
  "inner_prefix p k = (if p \<noteq> [] then p @ ''.'' @ k else k)"

text \<open>Members are taken in the order of the list; a later key replaces an earlier.\<close>

fun flatJSON :: "(json \<Rightarrow> string) \<Rightarrow> json \<Rightarrow> string \<Rightarrow> (string \<rightharpoonup> string)"
  and flat_members :: "(json \<Rightarrow> string) \<Rightarrow> (string \<times> json) list \<Rightarrow> string \<Rightarrow> (string \<rightharpoonup> string)" where
  "flatJSON render (JObject m) p = flat_members render m p"
| "flatJSON render v p = [p \<mapsto> render v]"
| "flat_members render [] p = Map.empty"
| "flat_members render ((k, v) # kvs) p = flatJSON render v (inner_prefix p k) ++ flat_members render kvs p"

text \<open>The leaf at a path, and objects with distinct keys that are not empty and have no dot.\<close>

fun leaf_at :: "json \<Rightarrow> string list \<Rightarrow> json option" where
  "leaf_at (JObject m) [] = None"
| "leaf_at (JObject m) (k # ks) = (case map_of m k of Some v \<Rightarrow> leaf_at v ks | None \<Rightarrow> None)"
| "leaf_at v [] = Some v"
| "leaf_at v (k # ks) = None"

definition good_key :: "string \<Rightarrow> bool" where
  "good_key k \<longleftrightarrow> k \<noteq> [] \<and> CHR ''.'' \<notin> set k"

fun dotless :: "json \<Rightarrow> bool"
  and dotless_members :: "(string \<times> json) list \<Rightarrow> bool" where
  "dotless (JObject m) = dotless_members m"
| "dotless v = True"
| "dotless_members [] = True"
| "dotless_members ((k, v) # kvs) = (good_key k \<and> k \<notin> fst ` set kvs \<and> dotless v \<and> dotless_members kvs)"

definition path_name :: "string list \<Rightarrow> string" where
  "path_name ks = join_with ''.'' ks"

lemma path_name_Nil: "list_all good_key ks \<Longrightarrow> path_name ks = [] \<longleftrightarrow> ks = []"
  by (cases ks; cases "tl ks") (auto simp: path_name_def good_key_def)

lemma path_name_inj:
  assumes "list_all good_key ks" and "list_all good_key ks'" and "path_name ks = path_name ks'"
  shows "ks = ks'"
proof -
  have "split_on (CHR ''.'') (path_name xs) = xs" if "list_all good_key xs" "xs \<noteq> []" for xs
    using that by (auto simp: path_name_def list_all_iff good_key_def intro!: split_join)
  then show ?thesis using path_name_Nil assms by metis
qed

lemma inner_prefix_path: "list_all good_key ps \<Longrightarrow> inner_prefix (path_name ps) k = path_name (ps @ [k])"
  using path_name_Nil [of ps] by (cases "ps = []") (auto simp: inner_prefix_def path_name_def join_with_append)

text \<open>What the flattened object has at the name of a path below a prefix, and where it is defined.\<close>

definition flat_ok :: "(json \<Rightarrow> string) \<Rightarrow> (string \<rightharpoonup> string) \<Rightarrow> string list \<Rightarrow> (string list \<Rightarrow> json option) \<Rightarrow> bool" where
  "flat_ok render f ps leaf \<longleftrightarrow>
     (\<forall>ks. list_all good_key ks \<longrightarrow> f (path_name (ps @ ks)) = map_option render (leaf ks)) \<and>
     (\<forall>x. f x \<noteq> None \<longrightarrow> (\<exists>ks. list_all good_key ks \<and> x = path_name (ps @ ks)))"

definition member_leaf :: "(string \<times> json) list \<Rightarrow> string list \<Rightarrow> json option" where
  "member_leaf m ks = (case ks of [] \<Rightarrow> None | k # ks' \<Rightarrow> Option.bind (map_of m k) (\<lambda>v. leaf_at v ks'))"

lemma leaf_at_object: "leaf_at (JObject m) = member_leaf m"
  by (rule ext) (auto simp: member_leaf_def split: list.splits option.splits)

lemma flat_ok_scalar:
  assumes "list_all good_key ps"
  shows "flat_ok render [path_name ps \<mapsto> render v] ps (\<lambda>ks. if ks = [] then Some v else None)"
proof -
  have "path_name (ps @ ks) = path_name ps \<longleftrightarrow> ks = []" if "list_all good_key ks" for ks
    using path_name_inj [of "ps @ ks" ps] that assms by auto
  moreover have "\<exists>ks. list_all good_key ks \<and> path_name ps = path_name (ps @ ks)" by (rule exI [of _ "[]"]) simp
  ultimately show ?thesis by (auto simp: flat_ok_def)
qed

lemma leaf_at_scalar:
  "leaf_at (JString x) = (\<lambda>ks. if ks = [] then Some (JString x) else None)"
  "leaf_at (JNumber n) = (\<lambda>ks. if ks = [] then Some (JNumber n) else None)"
  "leaf_at (JArray vs) = (\<lambda>ks. if ks = [] then Some (JArray vs) else None)"
  "leaf_at JOther = (\<lambda>ks. if ks = [] then Some JOther else None)"
  by (rule ext, rename_tac ks, case_tac ks; simp)+

lemma flat_ok_member:
  assumes v: "flat_ok render f (ps @ [k]) (leaf_at v)" and r: "flat_ok render g ps (member_leaf kvs)"
    and k: "good_key k" "k \<notin> fst ` set kvs" and ps: "list_all good_key ps"
  shows "flat_ok render (f ++ g) ps (member_leaf ((k, v) # kvs))"
proof -
  have fv: "f (path_name (ps @ k' # ks)) = (if k' = k then map_option render (leaf_at v ks) else None)"
    if "list_all good_key (k' # ks)" for k' ks
  proof (cases "k' = k")
    case True
    then show ?thesis using v that by (auto simp: flat_ok_def)
  next
    case False
    have "f (path_name (ps @ k' # ks)) = None"
    proof (rule ccontr)
      assume "f (path_name (ps @ k' # ks)) \<noteq> None"
      then obtain ks' where "list_all good_key ks'" "path_name (ps @ k' # ks) = path_name ((ps @ [k]) @ ks')"
        using v by (auto simp: flat_ok_def)
      then have "ps @ k' # ks = (ps @ [k]) @ ks'" using that ps k(1) by (intro path_name_inj) auto
      then show False using False by simp
    qed
    then show ?thesis using False by simp
  qed
  have f0: "f (path_name ps) = None"
  proof (rule ccontr)
    assume "f (path_name ps) \<noteq> None"
    then obtain ks' where "list_all good_key ks'" "path_name ps = path_name ((ps @ [k]) @ ks')"
      using v by (auto simp: flat_ok_def)
    then have "ps = (ps @ [k]) @ ks'" using ps k(1) by (intro path_name_inj) auto
    then show False by simp
  qed
  have gk: "g (path_name (ps @ k # ks)) = None" if "list_all good_key ks" for ks
  proof -
    have "map_of kvs k = None" using k(2) by (simp add: map_of_eq_None_iff)
    then show ?thesis using r that k(1) by (auto simp: flat_ok_def member_leaf_def)
  qed
  have "(f ++ g) (path_name (ps @ ks)) = map_option render (member_leaf ((k, v) # kvs) ks)" if "list_all good_key ks" for ks
  proof (cases ks)
    case Nil
    have "g (path_name (ps @ [])) = map_option render (member_leaf kvs [])" using r by (auto simp: flat_ok_def simp del: append_Nil2)
    then show ?thesis using f0 Nil by (simp add: member_leaf_def map_add_def)
  next
    case (Cons k' ks')
    have "g (path_name (ps @ ks)) = map_option render (member_leaf kvs ks)" using r that by (auto simp: flat_ok_def)
    then show ?thesis using fv [of k' ks'] gk [of ks'] that Cons
      by (cases "k' = k") (auto simp: member_leaf_def map_add_def split: option.splits)
  qed
  moreover have "\<exists>ks. list_all good_key ks \<and> x = path_name (ps @ ks)" if x: "(f ++ g) x \<noteq> None" for x
  proof (cases "g x = None")
    case True
    then obtain ks where "list_all good_key ks" "x = path_name ((ps @ [k]) @ ks)"
      using x v by (auto simp: flat_ok_def map_add_def)
    then show ?thesis using k(1) by (intro exI [of _ "k # ks"]) simp
  next
    case False
    then show ?thesis using r by (auto simp: flat_ok_def)
  qed
  ultimately show ?thesis by (simp add: flat_ok_def)
qed

lemma flatJSON_ok:
  "dotless j \<Longrightarrow> list_all good_key ps \<Longrightarrow> flat_ok render (flatJSON render j (path_name ps)) ps (leaf_at j)"
  "dotless_members m \<Longrightarrow> list_all good_key ps \<Longrightarrow> flat_ok render (flat_members render m (path_name ps)) ps (member_leaf m)"
proof (induction j and m arbitrary: ps and ps rule: dotless_dotless_members.induct)
  case (1 m)
  then show ?case by (simp add: leaf_at_object)
next
  case (4 k v kvs)
  have "flat_ok render (flatJSON render v (path_name (ps @ [k]))) (ps @ [k]) (leaf_at v)" using 4 by simp
  then show ?case using 4 by (auto simp: inner_prefix_path intro!: flat_ok_member)
next
  case 3
  then show ?case by (auto simp: flat_ok_def member_leaf_def split: list.splits)
qed (simp_all add: flat_ok_scalar leaf_at_scalar)

text \<open>Flattening keeps every leaf of an object under the name of its path and adds nothing else, when
  keys are not empty and have no dots.\<close>

theorem flatJSON_leaves:
  assumes "dotless j"
  shows "(\<forall>ks. list_all good_key ks \<longrightarrow> flatJSON render j [] (path_name ks) = map_option render (leaf_at j ks)) \<and>
    (\<forall>x. flatJSON render j [] x \<noteq> None \<longrightarrow> (\<exists>ks. list_all good_key ks \<and> x = path_name ks))"
  using flatJSON_ok(1) [OF assms, of "[]" render] by (simp add: flat_ok_def path_name_def)

definition demo_json :: json where
  "demo_json = JObject [(''a'', JNumber 1), (''b'', JObject [(''c'', JNumber 2), (''d'', JNumber 3)])]"

definition demo_render :: "json \<Rightarrow> string" where
  "demo_render v = (case v of JNumber n \<Rightarrow> show_signed n | _ \<Rightarrow> [])"

theorem flatJSON_leaves_witness: "flatJSON demo_render demo_json [] ''b.c'' = Some ''2''"
proof -
  have d: "dotless demo_json" by code_simp
  have g: "list_all good_key [''b'', ''c'']" by code_simp
  have n: "path_name [''b'', ''c''] = ''b.c''" by code_simp
  have l: "map_option demo_render (leaf_at demo_json [''b'', ''c'']) = Some ''2''" by code_simp
  show ?thesis using flatJSON_leaves [OF d, of demo_render] g n l by metis
qed

text \<open>Keys with dots can fall on the same name, and then one of the values is lost.\<close>

lemma dotted_keys_collide:
  "flatJSON demo_render (JObject [(''a.b'', JNumber 1), (''a'', JObject [(''b'', JNumber 2)])]) [] = [''a.b'' \<mapsto> ''2'']"
proof -
  have "show_signed 2 = ''2''" by code_simp
  then show ?thesis by (simp add: inner_prefix_def demo_render_def fun_eq_iff map_add_def)
qed

end
