(* ===== verification/Tools.thy ===== *)
theory Tools
  imports LogCollection Bootstrap
begin

text \<open>
  Two tools around a build: the report that waits for the proxy and archives the logs
  (\<open>cmd/reclientreport\<close>), and the uploader of metrics (\<open>cmd/metricsuploader\<close>). Waiting is a step
  relation over the routine that polls the process, the routine that waits, the context and the
  process; services are arguments.
\<close>

section \<open>Waiting for the proxy\<close>

text \<open>The poll sends on an unbuffered channel that the waiting routine closes when it returns.\<close>

datatype poller = PChecking | PSleeping | PSending "unit + unit" | PExited | PPanicked

datatype waiter = WSelecting | WReturned "unit + unit" | WTimedOut

record wait_state =
  wtPoller :: poller
  wtWaiter :: waiter
  wtAlive :: bool
  wtDone :: bool
  wtPidFile :: bool

definition wait_init :: wait_state where
  "wait_init = \<lparr>wtPoller = PChecking, wtWaiter = WSelecting, wtAlive = True, wtDone = False, wtPidFile = True\<rparr>"

definition wait_returned :: "wait_state \<Rightarrow> bool" where
  "wait_returned s \<longleftrightarrow> wtWaiter s \<noteq> WSelecting"

inductive wait_step :: "wait_state \<Rightarrow> wait_state \<Rightarrow> bool" where
  Alive: "wtPoller s = PChecking \<Longrightarrow> wtAlive s \<Longrightarrow> wait_step s (s\<lparr>wtPoller := PSleeping\<rparr>)"
| Dead: "wtPoller s = PChecking \<Longrightarrow> \<not> wtAlive s \<Longrightarrow> wait_step s (s\<lparr>wtPoller := PSending (Inr ()), wtPidFile := False\<rparr>)"
| CheckFails: "wtPoller s = PChecking \<Longrightarrow> wait_step s (s\<lparr>wtPoller := PSending (Inl ())\<rparr>)"
| Wakes: "wtPoller s = PSleeping \<Longrightarrow> wait_step s (s\<lparr>wtPoller := PChecking\<rparr>)"
| PollStops: "wtPoller s = PSleeping \<Longrightarrow> wtDone s \<Longrightarrow> wait_step s (s\<lparr>wtPoller := PExited\<rparr>)"
| Delivers: "wtPoller s = PSending r \<Longrightarrow> wtWaiter s = WSelecting \<Longrightarrow> wait_step s (s\<lparr>wtPoller := PExited, wtWaiter := WReturned r\<rparr>)"
| SendsOnClosed: "wtPoller s = PSending r \<Longrightarrow> wait_returned s \<Longrightarrow> wait_step s (s\<lparr>wtPoller := PPanicked\<rparr>)"
| GivesUp: "wtWaiter s = WSelecting \<Longrightarrow> wtDone s \<Longrightarrow> wait_step s (s\<lparr>wtWaiter := WTimedOut\<rparr>)"
| Timeout: "wait_step s (s\<lparr>wtDone := True\<rparr>)"
| Dies: "wait_step s (s\<lparr>wtAlive := False\<rparr>)"

inductive_cases wait_stepE: "wait_step s s'"

definition wait_inv :: "wait_state \<Rightarrow> bool" where
  "wait_inv s \<longleftrightarrow>
     (wtPoller s = PSending (Inr ()) \<or> wtWaiter s = WReturned (Inr ()) \<longrightarrow> \<not> wtAlive s \<and> \<not> wtPidFile s) \<and>
     (wtPoller s \<in> {PChecking, PSleeping} \<longrightarrow> wtWaiter s = WSelecting \<or> wtWaiter s = WTimedOut) \<and>
     (wtPoller s = PPanicked \<longrightarrow> wtWaiter s = WTimedOut) \<and> (wtWaiter s = WTimedOut \<longrightarrow> wtDone s) \<and>
     (\<forall>r. wtPoller s = PSending r \<longrightarrow> wtWaiter s = WSelecting \<or> wtWaiter s = WTimedOut)"

lemma wait_inv_step: "wait_step s s' \<Longrightarrow> wait_inv s \<Longrightarrow> wait_inv s'"
  by (erule wait_stepE) (auto simp: wait_inv_def wait_returned_def)

interpretation waiting: step_invariant wait_step "\<lambda>s. s = wait_init" wait_inv
proof unfold_locales
  show "wait_inv s" if "s = wait_init" for s
    using that by (simp add: wait_inv_def wait_init_def)
qed (rule wait_inv_step)

text \<open>The wait ends without error only when the process is dead and its pid file is gone; the poll
  panics only after the time for the wait is over.\<close>

theorem wait_ends_dead:
  assumes "wait_step\<^sup>*\<^sup>* wait_init s"
  shows "(wtWaiter s = WReturned (Inr ()) \<longrightarrow> \<not> wtAlive s \<and> \<not> wtPidFile s) \<and>
    (wtPoller s = PPanicked \<longrightarrow> wtWaiter s = WTimedOut \<and> wtDone s)"
proof -
  have "wait_inv s" using waiting.holds_reachable [OF refl assms] .
  then show ?thesis by (auto simp: wait_inv_def)
qed

definition wait_ended :: wait_state where
  "wait_ended = \<lparr>wtPoller = PExited, wtWaiter = WReturned (Inr ()), wtAlive = False, wtDone = False, wtPidFile = False\<rparr>"

theorem wait_ends_dead_witness: "\<not> wtAlive wait_ended \<and> \<not> wtPidFile wait_ended"
proof -
  let ?s1 = "wait_init\<lparr>wtAlive := False\<rparr>"
  let ?s2 = "?s1\<lparr>wtPoller := PSending (Inr ()), wtPidFile := False\<rparr>"
  have "wait_step wait_init ?s1" by (rule Dies)
  moreover have "wait_step ?s1 ?s2" by (rule Dead) (simp_all add: wait_init_def)
  moreover have "wait_step ?s2 wait_ended"
    using Delivers [of ?s2 "Inr ()"] by (simp add: wait_init_def wait_ended_def)
  ultimately have "wait_step\<^sup>*\<^sup>* wait_init wait_ended" by (metis rtranclp.rtrancl_into_rtrancl rtranclp.rtrancl_refl)
  from wait_ends_dead [OF this] show ?thesis by (simp add: wait_ended_def)
qed

text \<open>A report that is due when the time is over panics the program: the channel is closed.\<close>

lemma late_report_panics: "\<exists>s. wait_step\<^sup>*\<^sup>* wait_init s \<and> wtPoller s = PPanicked"
proof -
  let ?s1 = "wait_init\<lparr>wtDone := True\<rparr>"
  let ?s2 = "?s1\<lparr>wtPoller := PSending (Inl ())\<rparr>"
  let ?s3 = "?s2\<lparr>wtWaiter := WTimedOut\<rparr>"
  let ?s4 = "?s3\<lparr>wtPoller := PPanicked\<rparr>"
  have "wait_step wait_init ?s1" by (rule Timeout)
  moreover have "wait_step ?s1 ?s2" by (rule CheckFails) (simp add: wait_init_def)
  moreover have "wait_step ?s2 ?s3" by (rule GivesUp) (simp_all add: wait_init_def)
  moreover have "wait_step ?s3 ?s4" by (rule SendsOnClosed [where r = "Inl ()"]) (simp_all add: wait_returned_def)
  ultimately have "wait_step\<^sup>*\<^sup>* wait_init ?s4" by (metis rtranclp.rtrancl_into_rtrancl rtranclp.rtrancl_refl)
  moreover have "wtPoller ?s4 = PPanicked" by simp
  ultimately show ?thesis by blast
qed

section \<open>Report\<close>

fun unique_dirs :: "string set \<Rightarrow> string list \<Rightarrow> string list" where
  "unique_dirs seen [] = []"
| "unique_dirs seen (d # ds) =
     (if d \<in> seen \<or> d = [] then unique_dirs seen ds else d # unique_dirs (insert d seen) ds)"

definition uniqueDirs :: "string list \<Rightarrow> string list" where
  "uniqueDirs ds = unique_dirs {} ds"

text \<open>The value of \<open>log_dir\<close>, empty when the flag is not defined.\<close>

definition tool_getLogDir :: "string option \<Rightarrow> string" where
  "tool_getLogDir logDirFlag = (case logDirFlag of Some v \<Rightarrow> v | None \<Rightarrow> [])"

datatype report_end = NoTempFile | Collected string "(string \<times> string) list" | NotCollected archive_error

definition report_dirs :: "string list \<Rightarrow> string option \<Rightarrow> string \<Rightarrow> string \<Rightarrow> string list" where
  "report_dirs proxyLogDir logDirFlag outputDir tmp = uniqueDirs (proxyLogDir @ [tool_getLogDir logDirFlag] @ [outputDir] @ [tmp])"

definition reclientreport_main ::
    "log_disk \<Rightarrow> string option \<Rightarrow> bool \<Rightarrow> bool \<times> bool \<Rightarrow> string list \<Rightarrow> string option \<Rightarrow> string \<Rightarrow> string \<Rightarrow> string \<Rightarrow> report_end" where
  "reclientreport_main D tempFile creates closes proxyLogDir logDirFlag outputDir tmp logPath =
     (case tempFile of
        None \<Rightarrow> NoTempFile
      | Some name \<Rightarrow>
         (case CreateLogsArchive D creates closes (report_dirs proxyLogDir logDirFlag outputDir tmp) logPath of
            Inl e \<Rightarrow> NotCollected e
          | Inr entries \<Rightarrow> Collected name entries))"

lemma unique_dirs_spec:
  "set (unique_dirs seen ds) = set ds - seen - {[]} \<and> distinct (unique_dirs seen ds)"
  by (induction ds arbitrary: seen) auto

lemma uniqueDirs_spec: "set (uniqueDirs ds) = set ds - {[]} \<and> distinct (uniqueDirs ds)"
  using unique_dirs_spec [of "{}" ds] by (simp add: uniqueDirs_def)

section \<open>Uploader\<close>

text \<open>What is read: the statistics, or a failure to read or decode them. The connection may fail; the
  program then goes on with a nil client, and what comes of that is the client's.\<close>

record 'd uploader_host =
  uhStats :: "'d option"
  uhMonitors :: bool
  uhConnects :: bool
  uhUploads :: "string list \<Rightarrow> string \<Rightarrow> upload_error + (string \<times> string) list"
  uhReal :: "string \<Rightarrow> string option"
  uhLogDir :: "string option"

record uploader_flags =
  ufMetricsProject :: string
  ufLogPath :: string
  ufOutputDir :: string
  ufUploadLogs :: bool
  ufMetricsTable :: string

datatype 'd uploader_event =
  Monitored bool | UploadedLogs "string list" | WroteStats 'd "(string \<times> string) list option" | InsertedStats 'd "(string \<times> string) list option"

datatype uploader_end = UploaderFatal | UploaderNilClient | UploaderReturned

text \<open>The list of proxy log directories is a variable no flag is bound to, and stays empty.\<close>

definition uploader_dirs :: "('d, 'z) uploader_host_scheme \<Rightarrow> uploader_flags \<Rightarrow> string list" where
  "uploader_dirs H f = DeduplicateDirs (uhReal H) ([] @ [tool_getLogDir (uhLogDir H), ufOutputDir f])"

text \<open>The digests set in the statistics, if any; an error of the upload leaves them empty.\<close>

definition upload_logs :: "('d, 'z) uploader_host_scheme \<Rightarrow> uploader_flags \<Rightarrow> ('d uploader_event list \<times> (string \<times> string) list option) option" where
  "upload_logs H f =
     (if ufUploadLogs f \<and> uploader_dirs H f \<noteq> [] then
        (if \<not> uhConnects H then None
         else Some ([UploadedLogs (uploader_dirs H f)],
                Some (case uhUploads H (uploader_dirs H f) (ufLogPath f) of Inr ldgs \<Rightarrow> ldgs | Inl _ \<Rightarrow> [])))
      else Some ([], None))"

definition metricsuploader_main :: "('d, 'z) uploader_host_scheme \<Rightarrow> uploader_flags \<Rightarrow> 'd uploader_event list \<times> uploader_end" where
  "metricsuploader_main H f =
     (if ufMetricsProject f = [] then ([], UploaderFatal)
      else case uhStats H of
             None \<Rightarrow> ([], UploaderFatal)
           | Some d \<Rightarrow>
              (case upload_logs H f of
                 None \<Rightarrow> ([Monitored (uhMonitors H)], UploaderNilClient)
               | Some (ev, ldgs) \<Rightarrow>
                   (Monitored (uhMonitors H) # ev @ [WroteStats d ldgs] @ (if ufMetricsTable f \<noteq> [] then [InsertedStats d ldgs] else []),
                    UploaderReturned)))"

text \<open>When the program returns it has written the statistics once, with the digests of the logs it
  uploaded, and inserted them only after that.\<close>

lemma uploader_writes_once:
  assumes "metricsuploader_main H f = (evs, UploaderReturned)"
  shows "\<exists>d ev ldgs. uhStats H = Some d \<and> upload_logs H f = Some (ev, ldgs) \<and>
    filter (\<lambda>e. case e of WroteStats _ _ \<Rightarrow> True | _ \<Rightarrow> False) evs = [WroteStats d ldgs] \<and>
    (ufMetricsTable f \<noteq> [] \<longrightarrow> last evs = InsertedStats d ldgs)"
  using assms by (auto simp: metricsuploader_main_def upload_logs_def split: if_splits option.splits)

end
