(* ===== verification/Spec2Isabelle.thy ===== *)
theory Spec2Isabelle
  imports InputProcessor Forecast LocalResources Compare DepsCache Logger Server Rewrapper Stats Reports CppInvariant ArReader DepsFiles DepsScanner JavaPreprocessors TypeScript CaseInsensitive Bootstrap Trace Outputs Flags LoggerRun BigQuery Drain CloudTrace LogCollection Mismatches BootstrapMain GenClangFlags ExperimentRun RewrapperMain ReproxyMain Usage Tools
begin

text \<open>
  \<^bold>\<open>reclient: a verification development.\<close>

  reclient runs build actions on a remote execution service. A \<open>rewrapper\<close> process stands before
  every compiler call and sends a request to the long-running \<open>reproxy\<close>
  (\<open>internal/pkg/reproxy\<close>). For each request reproxy finds the inputs and outputs of the
  command (\<open>internal/pkg/inputprocessor\<close>), executes it remotely, locally or both, as the
  execution strategy says, downloads outputs, keeps a record (\<open>internal/pkg/logger\<close>), and in
  compare mode reruns the action and compares the outputs.

  \<^bold>\<open>Theories and code.\<close>

  \<^item> \<open>Prelude\<close>: results that are a value, an error or a panic (\<open>res\<close>), Go's slices, strings, maps
    in iteration order, and the locale \<open>step_invariant\<close>, the contract of a step relation with an
    invariant, which every transition system below interprets. \<open>GoPath\<close>: the Unix rules of \<open>path/filepath\<close> the code uses (Clean, Join, Rel).
  \<^item> \<open>PathTranslator\<close> (\<open>internal/pkg/pathtranslator\<close>): paths between working directory and exec
    root. \<open>Labels\<close> (\<open>internal/pkg/labels\<close>): label sets, their map form, key and digest.
  \<^item> \<open>ArgsScanner\<close>, \<open>ClangParser\<close>, \<open>ActionParsers\<close>, \<open>ToolParsers\<close> (\<open>inputprocessor/args\<close>, \<open>flags\<close>,
    \<open>flagsparser\<close>, \<open>clangparser\<close>, \<open>action/*\<close>, \<open>internal/pkg/rsp\<close>): the command line scanner and the
    flag parsers built on it. The contract between scan loop and handlers is the locale
    \<open>flag_handler\<close>.
  \<^item> \<open>InputProcessor\<close> (\<open>inputprocessor/inputprocessor.go\<close>, \<open>toolchain\<close>, \<open>pkg/inputprocessor\<close>): the base
    preprocessor, \<open>Compute\<close>, toolchain inputs, dispatch and shallow fallback; the contract of a
    preprocessor is the locale \<open>preprocessor_contract\<close>.
  \<^item> \<open>CppPreprocessor\<close>, \<open>ClangCl\<close>, \<open>CppInvariant\<close> (\<open>action/cppcompile\<close>, \<open>headerabi\<close>, \<open>clanglint\<close>, \<open>nacl\<close>,
    \<open>clangcl\<close>): the preprocessors that find headers with the dependency scanner, their virtual
    inputs, resource and SDK directories. The locale \<open>scanning_preprocessor\<close> extends
    \<open>preprocessor_contract\<close> and is interpreted for each of them, \<open>virtual_inputs_processor\<close> for the two
    ways of naming virtual inputs; \<open>CppInvariant\<close> has the type invariant of their state.
  \<^item> \<open>ArReader\<close> (\<open>action/clanglink/ar_reader.go\<close>): member names of archives. \<open>DepsFiles\<close>
    (\<open>internal/pkg/deps\<close>): d files and deps files, with the regular expressions of \<open>GoRegexp\<close>.
  \<^item> \<open>DepsScanner\<close> (\<open>internal/pkg/cppdependencyscanner\<close>): the client that starts, stops and restarts
    the dependency scanner process and sends it requests, as a transition system.
  \<^item> \<open>JavaPreprocessors\<close>, \<open>TypeScript\<close> (\<open>action/r8\<close>, \<open>metalava\<close>, \<open>typescript\<close>): included flag files, the
    version check, project files and the search along imports. \<open>CaseInsensitive\<close>
    (\<open>inputprocessor/fs_case_insensitive.go\<close>): the names on disk of paths written in any case.
  \<^item> \<open>DepsCache\<close> (\<open>inputprocessor/depscache\<close>): the dependency cache over file digests, on disk and
    in memory; its file cache is used through the locale \<open>digest_source\<close>.
  \<^item> \<open>Forecast\<close>, \<open>LocalResources\<close> (\<open>reproxy/forecast.go\<close>, \<open>localexec.go\<close>, \<open>internal/pkg/localresources\<close>):
    download latency percentiles over a ring buffer and the accounting of local resources. The
    locale \<open>sample_window\<close> is what a bounded history promises; the ring buffer here and the
    list of kept records in \<open>Server\<close> are its two instances.
  \<^item> \<open>Compare\<close>, \<open>Rerun\<close> (\<open>reproxy/compare.go\<close>, \<open>server.go\<close>: \<open>rerunAction\<close>): reruns and their comparison.
  \<^item> \<open>ActionResult\<close>, \<open>Action\<close>, \<open>Race\<close>, \<open>Execution\<close> (\<open>reproxy/action.go\<close>, \<open>stash.go\<close>, \<open>server.go\<close>):
    results, helpers on commands and files, the race between local and remote execution as a
    step relation over three goroutines, and the execution strategies.
  \<^item> \<open>Server\<close>, \<open>Logger\<close> (\<open>reproxy/server.go\<close>, \<open>internal/pkg/logger\<close>): startup and shutdown,
    windowed counters, the fail-early monitor, admission, execution and response of a request;
    event counters, log formats, reading and writing of log files. \<open>Drain\<close> (\<open>server.go\<close>): requests
    against drain and shutdown, in every interleaving, and the removal of old logs. \<open>LoggerRun\<close>
    (\<open>logger/logger.go\<close>): the goroutine of the logger, its clients and its closing.
  \<^item> \<open>Outputs\<close> (\<open>reproxy/action.go\<close>): outputs on disk: temporary directory, moves, removal,
    modification times.
  \<^item> \<open>Flags\<close> (\<open>internal/pkg/rbeflag\<close>, \<open>auth\<close>): where a flag takes its value from, and the
    authentication mechanism the flags choose.
  \<^item> \<open>Numbers\<close>, \<open>Stats\<close>, \<open>Reports\<close> (\<open>strconv\<close>, \<open>internal/pkg/stats\<close>, \<open>interceptors\<close>, \<open>ignoremismatch\<close>,
    \<open>reproxystatus\<close>): numbers as text, statistics over records, truncation of responses, ignored
    mismatches and status summaries.
  \<^item> \<open>Rewrapper\<close> (\<open>internal/pkg/rewrapper\<close>): requests built from command line options;
    \<open>RewrapperMain\<close> (\<open>cmd/rewrapper\<close>): the program, its checks and exit codes. \<open>Bootstrap\<close>
    (\<open>internal/pkg/bootstrap\<close>, \<open>reproxypid\<close>): the pid file, start and shutdown of the proxy;
    \<open>BootstrapMain\<close> (\<open>cmd/bootstrap\<close>): the program around them. \<open>ReproxyMain\<close> (\<open>cmd/reproxy\<close>): checks,
    log files, the two initializations, signals and the end of the proxy.
    \<open>Tools\<close> (\<open>cmd/reclientreport\<close>, \<open>cmd/metricsuploader\<close>): the report that waits for the proxy, and
    the uploader of metrics.
  \<^item> \<open>GenClangFlags\<close> (\<open>clangparser/gen_clang_flags\<close>): the option tables that \<open>ClangParser\<close> reads, made
    from decoded options.
  \<^item> \<open>Usage\<close> (\<open>localresources/usage\<close>, \<open>usage2csv\<close>, \<open>auxiliary\<close>): resource usage sampled, logged and read
    back; metadata of workers flattened.
  \<^item> \<open>Experiments\<close>, \<open>ExperimentRun\<close> (\<open>experiments/internal/pkg\<close>): configurations, scripts and results of
    build experiments; machines, the stages of a run and its clean-up.
  \<^item> \<open>Trace\<close>, \<open>CloudTrace\<close> (\<open>cmd/rpl2trace\<close>, \<open>cmd/rpl2cloudtrace\<close>): log records as trace events and as
    spans of a tracing service. \<open>BigQuery\<close> (\<open>internal/pkg/bigquery\<close>, \<open>bigquerytranslator\<close>): batches of
    records and their upload. \<open>Monitoring\<close> (\<open>internal/pkg/monitoring\<close>): views and metrics, with the
    slices they share as windows into a heap.
  \<^item> \<open>LogCollection\<close>, \<open>Mismatches\<close> (\<open>internal/pkg/collectlogfiles\<close>, \<open>tarfs\<close>, \<open>downloadmismatch\<close>): the log
    files of a build, archives of them, and the outputs of mismatching actions.

  \<^bold>\<open>How code is modelled.\<close> A struct is a record, an operation a function on it that returns the
  changed record; a run-time panic is \<open>Panic\<close> of the result type, or \<open>None\<close> where nothing else
  can fail. Files, digests, the remote execution SDK, the local shell, clocks and hashes are
  arguments; what is used of them is a named hypothesis with a concrete instance in the
  witnesses. The order in which Go iterates over a map is an argument of which only that it
  permutes is used. In \<open>Execution\<close> the environment answers each call by a function of the calls
  made before, so a theorem for all environments covers every sequence of answers.
  Goroutines are step relations (\<open>Race\<close>, \<open>LoggerRun\<close>, \<open>Drain\<close>, \<open>ReproxyMain\<close>, \<open>Tools\<close>) or, where
  they only meet in a channel, an arbitrary order of arrival (\<open>Rerun\<close>). Loops that need not end are partial functions (the work list of the
  archive parser, the archive reader, included flag files, extended project files, the search
  along imports, the start loop of the proxy); for each it is shown when it returns. No fuel is
  used, all other recursions carry a measure. Go's \<open>int\<close> counters are integers or naturals: they count requests
  and stay far below the word size.

  \<^bold>\<open>What the theorems show.\<close> Path translation never leaves the exec root and is inverted
  exactly; scanning loses no argument; the flag parsers collect exactly the named files; every
  computed input lies below the exec root and is listed once. Executions always end with a
  result, make only the calls their strategy allows and cache only successes; the race ends in
  every interleaving and says when it keeps the local result. Reruns do not depend on the order
  in which remote attempts finish. The dependency cache answers as its abstract specification,
  also after a trip to disk; the compile preprocessors list every header found and keep their
  state well formed. Deps files, log files, archives and virtual inputs are read back as
  written. At most one scanner process is waited for; the start loop of the proxy ends with a
  verdict. Counters, locks, cleanups and logs balance; the logger loses no event, and resources
  are released only after the requests counted before the drain. A flag has one source. Uploads
  are counted once, spans reported are those that were written. The proxy ends only after a
  clean-up; an experiment deletes its machines only after all results are stored. Several theorems state
  behaviour that looks unintended (a dropped remote success, counters that leak, panics on
  malformed input); they are listed as findings of the manifest.

  \<^bold>\<open>Not modelled.\<close> Process plumbing: the registration of flags, the listener and the construction of
  the server in \<open>cmd/reproxy\<close>, the small tools under \<open>cmd\<close> that call modelled packages, gRPC
  transport, sockets, diagnostics, the creation of subprocesses; clients of external services
  (credential sources, exporters, inserters, blob stores), which are arguments where their answers
  matter; the dependency scanner itself, which is not part of the repository; generated protos,
  and the option file the clang tables are made from; the Windows variants of paths and
  processes; helpers for tests. These are I/O or third-party glue without state of their own that
  the theorems could speak about.
\<close>

section \<open>From the wrapper to the answer\<close>

lemma createRequest_action:
  assumes "createRequest readFile getenv environ validate executionID cmd opts = Ok (rq, vis)"
  shows "rqHasCommand rq \<and> rqValidateErr rq = validate (rqAction rq) \<and> aCmdEnvironment (rqAction rq) = environ \<and>
    aArgs (rqAction rq) = cmd \<and> aROpt (rqAction rq) = Some (remote_options opts) \<and> aCompare (rqAction rq) = oCompare opts"
  using assms by (auto simp: createRequest_def wrapped_request_def wrapped_action_def res_simps)


definition demo_options :: CommandOptions where
  "demo_options = \<lparr>oLabels = [], oExecRoot = ''/r'', oWorkDir = ''out'', oOutputFiles = [], oOutputDirectories = [],
     oInputs = [], oVirtualInputs = [], oToolchainInputs = [], oInputListPaths = [], oOutputListPaths = [],
     oEnvVarAllowlist = [], oReclientTimeout = 60000000000, oExecStrategy = ''remote'', oCompare = False, oPlatform = [],
     oRemoteAcceptCache = True, oRemoteUpdateCache = True, oDownloadOutputs = True, oDownloadRegex = [],
     oEnableAtomicDownloads = False, oLogEnvironment = False, oNumRetriesIfMismatched = 0, oNumLocalReruns = 0,
     oNumRemoteReruns = 0, oLocalWrapper = [], oRemoteWrapper = [], oCanonicalizeWorkingDir = False,
     oPreserveUnchangedOutputMtime = False\<rparr>"


end
